(* ===== verification/Mesh_BTree.thy ===== *)
theory Mesh_BTree
  imports Mesh_Prelude
begin

text \<open>
  \<open>std::collections::BTreeMap\<close>: an association list sorted by key without duplicate keys,
  so that iteration is in key order as it is in Rust. The locale \<open>ordered_map\<close> is the part
  of the interface the crates rely on; its interpretation \<open>bm\<close> shows that the model
  provides it, and the reducers (relay cache, presence table, sender, receiver) use the
  facts \<open>bm.*\<close> only. A \<open>BTreeSet\<close> is a strictly ascending list (\<open>bset_of\<close>).
\<close>

section \<open>The interface\<close>

locale ordered_map =
  fixes get :: "'m \<Rightarrow> 'k::linorder \<Rightarrow> 'v option"
    and insert_at :: "'k \<Rightarrow> 'v \<Rightarrow> 'm \<Rightarrow> 'm"
    and remove_at :: "'k \<Rightarrow> 'm \<Rightarrow> 'm"
    and retain :: "('k \<Rightarrow> 'v \<Rightarrow> bool) \<Rightarrow> 'm \<Rightarrow> 'm"
    and entries :: "'m \<Rightarrow> ('k \<times> 'v) list"
    and wf :: "'m \<Rightarrow> bool"
  assumes entries_ascending: "wf m \<Longrightarrow> sorted_wrt (<) (map fst (entries m))"
    and get_entries: "wf m \<Longrightarrow> get m k = map_of (entries m) k"
    and wf_insert: "wf m \<Longrightarrow> wf (insert_at k v m)"
    and wf_remove: "wf m \<Longrightarrow> wf (remove_at k m)"
    and wf_retain: "wf m \<Longrightarrow> wf (retain P m)"
    and get_insert: "wf m \<Longrightarrow> get (insert_at k v m) = (get m)(k \<mapsto> v)"
    and get_remove: "wf m \<Longrightarrow> get (remove_at k m) = (get m)(k := None)"
    and get_retain: "wf m \<Longrightarrow> get (retain P m) k =
      (case get m k of None \<Rightarrow> None | Some v \<Rightarrow> if P k v then Some v else None)"
begin

lemma distinct_keys: "wf m \<Longrightarrow> distinct (map fst (entries m))"
  using entries_ascending [of m] strict_sorted_iff by blast

lemma in_entries_iff: "wf m \<Longrightarrow> (k, v) \<in> set (entries m) \<longleftrightarrow> get m k = Some v"
  using get_entries distinct_keys by (metis map_of_eq_Some_iff)

lemma keys_dom: "wf m \<Longrightarrow> fst ` set (entries m) = dom (get m)"
  using in_entries_iff [of m] by (force simp: dom_def image_iff)

lemma size_card: "wf m \<Longrightarrow> length (entries m) = card (dom (get m))"
  using distinct_keys [of m] keys_dom [of m] distinct_card [of "map fst (entries m)"] by simp

lemma finite_dom: "wf m \<Longrightarrow> finite (dom (get m))"
  using keys_dom [of m] by (metis finite_imageI finite_set)

lemma size_insert:
  assumes "wf m"
  shows "length (entries (insert_at k v m)) =
    (if get m k = None then Suc (length (entries m)) else length (entries m))"
proof -
  have "dom (get (insert_at k v m)) = insert k (dom (get m))"
    using get_insert [OF assms] by simp
  then show ?thesis
    using size_card [OF assms] size_card [OF wf_insert [OF assms]] finite_dom [OF assms]
    by (simp add: card_insert_if domIff)
qed

lemma size_remove:
  assumes "wf m"
  shows "length (entries (remove_at k m)) =
    (if get m k = None then length (entries m) else length (entries m) - 1)"
proof -
  have "dom (get (remove_at k m)) = dom (get m) - {k}"
    using get_remove [OF assms] by auto
  then show ?thesis
    using size_card [OF assms] size_card [OF wf_remove [OF assms]] finite_dom [OF assms]
    by (auto simp: domIff)
qed

lemma size_retain:
  assumes "wf m"
  shows "length (entries (retain P m)) \<le> length (entries m)"
proof -
  have "dom (get (retain P m)) \<subseteq> dom (get m)"
    using get_retain [OF assms] by (auto split: option.splits if_splits)
  then show ?thesis
    using size_card [OF assms] size_card [OF wf_retain [OF assms]] finite_dom [OF assms]
    by (simp add: card_mono)
qed

lemma map_ext:
  assumes "wf m" and "wf m'" and "get m = get m'"
  shows "entries m = entries m'"
proof -
  have eq: "set (entries m) = set (entries m')"
    using assms in_entries_iff [of m] in_entries_iff [of m'] by auto
  have asc: "sorted (map fst (entries m))" "distinct (map fst (entries m))"
    "sorted (map fst (entries m'))" "distinct (map fst (entries m'))"
    using entries_ascending assms by (auto simp: strict_sorted_iff)
  show ?thesis
    by (rule map_sorted_distinct_set_unique [OF _ asc eq]) (use asc eq in \<open>simp add: distinct_map\<close>)
qed

end

section \<open>The model: a sorted association list\<close>

type_synonym ('k, 'v) bmap = "('k \<times> 'v) list"

definition bm_wf :: "('k::linorder, 'v) bmap \<Rightarrow> bool" where
  "bm_wf m \<longleftrightarrow> sorted_wrt (<) (map fst m)"

definition bm_get :: "('k::linorder, 'v) bmap \<Rightarrow> 'k \<Rightarrow> 'v option" where
  "bm_get m k = map_of m k"

fun bm_insert :: "'k::linorder \<Rightarrow> 'v \<Rightarrow> ('k, 'v) bmap \<Rightarrow> ('k, 'v) bmap" where
  "bm_insert k v [] = [(k, v)]"
| "bm_insert k v ((j, u) # m) =
     (if k < j then (k, v) # (j, u) # m
      else if k = j then (k, v) # m
      else (j, u) # bm_insert k v m)"

definition bm_remove :: "'k::linorder \<Rightarrow> ('k, 'v) bmap \<Rightarrow> ('k, 'v) bmap" where
  "bm_remove k m = filter (\<lambda>(j, u). j \<noteq> k) m"

definition bm_retain :: "('k::linorder \<Rightarrow> 'v \<Rightarrow> bool) \<Rightarrow> ('k, 'v) bmap \<Rightarrow> ('k, 'v) bmap" where
  "bm_retain P m = filter (\<lambda>(j, u). P j u) m"

definition bm_contains :: "('k::linorder, 'v) bmap \<Rightarrow> 'k \<Rightarrow> bool" where
  "bm_contains m k \<longleftrightarrow> bm_get m k \<noteq> None"

lemma bm_wf_Nil [simp]: "bm_wf []"
  by (simp add: bm_wf_def)

lemma bm_get_Nil [simp]: "bm_get [] = Map.empty"
  by (simp add: bm_get_def fun_eq_iff)

lemma fst_bm_insert: "fst ` set (bm_insert k v m) = insert k (fst ` set m)"
  by (induction k v m rule: bm_insert.induct) auto

lemma bm_wf_insert: "bm_wf m \<Longrightarrow> bm_wf (bm_insert k v m)"
proof (induction k v m rule: bm_insert.induct)
  case (2 k v j u m)
  have "\<forall>x \<in> fst ` set (bm_insert k v m). j < x" if "j < k"
    using that 2(2) by (auto simp: fst_bm_insert bm_wf_def)
  then show ?case using 2 by (force simp: bm_wf_def)
qed (simp add: bm_wf_def)

lemma bm_get_insert: "bm_get (bm_insert k v m) = (bm_get m)(k \<mapsto> v)"
  by (induction k v m rule: bm_insert.induct) (auto simp: bm_get_def fun_eq_iff)

lemma bm_wf_filter: "bm_wf m \<Longrightarrow> bm_wf (filter P m)"
  by (auto simp: bm_wf_def sorted_wrt_map intro: sorted_wrt_filter)

lemma bm_get_filter:
  "bm_wf m \<Longrightarrow> bm_get (filter (\<lambda>(j, u). P j u) m) k =
    (case bm_get m k of None \<Rightarrow> None | Some v \<Rightarrow> if P k v then Some v else None)"
proof (induction m)
  case Nil
  then show ?case by simp
next
  case (Cons ju m)
  obtain j u where ju: "ju = (j, u)" by (cases ju)
  have "bm_get m j = None"
    using Cons.prems by (auto simp: ju bm_wf_def bm_get_def map_of_eq_None_iff)
  then show ?case using Cons by (auto simp: ju bm_wf_def bm_get_def split: option.splits)
qed

interpretation bm: ordered_map bm_get bm_insert bm_remove bm_retain "\<lambda>m. m" bm_wf
proof unfold_locales
  fix m :: "('k::linorder, 'v) bmap" and k P
  show "bm_wf m \<Longrightarrow> bm_get (bm_remove k m) = (bm_get m)(k := None)"
    by (auto simp: bm_remove_def bm_get_filter fun_eq_iff split: option.splits)
qed (auto simp: bm_wf_def [symmetric] bm_get_def [symmetric] bm_wf_insert bm_get_insert bm_wf_filter bm_get_filter
  bm_remove_def bm_retain_def)

lemma bm_wf_ascending: "bm_wf m \<Longrightarrow> sorted_wrt (<) (map fst m)"
  by (simp add: bm_wf_def)

lemmas bm_wf_simps = bm.wf_insert bm.wf_remove bm.wf_retain
lemmas bm_get_simps = bm.get_insert bm.get_remove bm.get_retain

lemma bm_contains_iff: "bm_contains m k \<longleftrightarrow> (\<exists>v. bm_get m k = Some v)"
  by (auto simp: bm_contains_def)

text \<open>\<open>iter().find(..)\<close>: the first entry in key order that satisfies the predicate.\<close>

definition bm_find :: "('k::linorder \<Rightarrow> 'v \<Rightarrow> bool) \<Rightarrow> ('k, 'v) bmap \<Rightarrow> ('k \<times> 'v) option" where
  "bm_find P m = find (\<lambda>(k, v). P k v) m"

lemma bm_find_Some:
  assumes "bm_wf m" and "bm_find P m = Some (k, v)"
  shows "bm_get m k = Some v \<and> P k v"
proof -
  have "(k, v) \<in> set m \<and> P k v"
    using assms(2) unfolding bm_find_def by (induction m) (auto split: if_splits)
  then show ?thesis using bm.in_entries_iff [OF assms(1)] by simp
qed

lemma bm_find_None: "bm_find P m = None \<longleftrightarrow> (\<forall>(k, v) \<in> set m. \<not> P k v)"
  unfolding bm_find_def by (induction m) auto

lemma bm_find_unique:
  assumes "bm_wf m" and "bm_get m k = Some v" and "P k v"
    and "\<And>k' v'. bm_get m k' = Some v' \<Longrightarrow> P k' v' \<Longrightarrow> k' = k"
  shows "bm_find P m = Some (k, v)"
proof (cases "bm_find P m")
  case None
  have "(k, v) \<in> set m" using assms(2) bm.in_entries_iff [OF assms(1)] by simp
  with None assms(3) show ?thesis by (auto simp: bm_find_None)
next
  case (Some kv)
  obtain k' v' where kv: "kv = (k', v')" by (cases kv)
  have g: "bm_get m k' = Some v'" "P k' v'" using bm_find_Some [OF assms(1)] Some kv by auto
  then have "k' = k" by (rule assms(4))
  then show ?thesis using g Some kv assms(2) by simp
qed

section \<open>Sets\<close>

text \<open>\<open>iter().copied().collect::<BTreeSet<_>>()\<close>.\<close>

definition bset_of :: "'a::linorder list \<Rightarrow> 'a list" where
  "bset_of xs = remdups (sort xs)"

lemma set_bset_of [simp]: "set (bset_of xs) = set xs"
  by (simp add: bset_of_def)

lemma ascending_bset_of: "sorted_wrt (<) (bset_of xs)"
  by (simp add: bset_of_def strict_sorted_iff sorted_remdups)

lemma bset_of_eq_iff: "bset_of xs = bset_of ys \<longleftrightarrow> set xs = set ys"
  by (metis ascending_bset_of set_bset_of strict_sorted_equal)

end
