(* ===== verification/Mesh_Bytes.thy ===== *)
theory Mesh_Bytes
  imports Mesh_Prelude
begin

text \<open>
  Big-endian byte conversions and slice helpers: \<open>be_bytes\<close> is \<open>to_be_bytes\<close> (and the byte
  view of a fixed array), \<open>be_word\<close> is the accumulation loop \<open>value = (value << 8) | byte\<close>
  that the decoders write out, \<open>chunks\<close> is \<open><[T]>::chunks\<close>. \<open>windows(2).all(|p| p[0] < p[1])\<close>
  is \<open>successively (<)\<close>.
\<close>

section \<open>Big-endian bytes\<close>

definition be_bytes :: "'a::len word \<Rightarrow> bytes" where
  "be_bytes w = map (\<lambda>k. ucast (drop_bit (8 * k) w)) (rev [0..<LENGTH('a) div 8])"

definition be_word :: "bytes \<Rightarrow> 'a::len word" where
  "be_word bs = foldl (\<lambda>v b. push_bit 8 v OR ucast b) 0 bs"

lemma length_concat_le:
  "(\<And>x. x \<in> set xs \<Longrightarrow> length (f x) \<le> k) \<Longrightarrow> length (concat (map f xs)) \<le> k * length xs"
proof (induction xs)
  case (Cons x xs)
  have "length (f x) \<le> k" "length (concat (map f xs)) \<le> k * length xs" using Cons by auto
  then show ?case by simp
qed simp

text \<open>String literals \<open>b"..."\<close> of the source.\<close>

definition ascii :: "string \<Rightarrow> bytes" where
  "ascii s = map of_char s"

lemma length_ascii [simp]: "length (ascii s) = length s"
  by (simp add: ascii_def)

lemma length_be_bytes [simp]: "length (be_bytes (w :: 'a::len word)) = LENGTH('a) div 8"
  by (simp add: be_bytes_def)

lemma be_word_Nil [simp]: "be_word [] = 0"
  by (simp add: be_word_def)

lemma be_word_snoc: "be_word (bs @ [b]) = push_bit 8 (be_word bs) OR ucast b"
  by (simp add: be_word_def)

lemma be_bytes_nth:
  "k < LENGTH('a) div 8 \<Longrightarrow>
   be_bytes (w :: 'a::len word) ! k = ucast (drop_bit (8 * (LENGTH('a) div 8 - 1 - k)) w)"
  by (simp add: be_bytes_def rev_nth)

lemma bit_be_word:
  "bit (be_word bs :: 'a::len word) i \<longleftrightarrow>
     i < LENGTH('a) \<and> i < 8 * length bs \<and> bit (bs ! (length bs - 1 - i div 8)) (i mod 8)"
proof (induction bs arbitrary: i rule: rev_induct)
  case Nil
  then show ?case by simp
next
  case (snoc b bs)
  show ?case
  proof (cases "i < 8")
    case True
    then show ?thesis
      by (auto simp: be_word_snoc bit_or_iff bit_push_bit_iff bit_ucast_iff nth_append)
  next
    case False
    define m where "m = i - 8"
    have i: "i = m + 8" using False by (simp add: m_def)
    have big: "\<not> bit (ucast b :: 'a word) i"
      using False by (auto simp: bit_ucast_iff dest: bit_imp_le_length)
    have "bit (be_word (bs @ [b]) :: 'a word) i \<longleftrightarrow> i < LENGTH('a) \<and> bit (be_word bs :: 'a word) m"
      using big i by (auto simp: be_word_snoc bit_or_iff bit_push_bit_iff)
    moreover have "(bs @ [b]) ! (length (bs @ [b]) - 1 - i div 8) = bs ! (length bs - 1 - m div 8)"
      if "m < 8 * length bs"
    proof -
      have "(m + 8) div 8 = Suc (m div 8)" by simp
      moreover have "0 < length bs" using that by (cases bs) simp_all
      ultimately have "length bs - (m + 8) div 8 = length bs - 1 - m div 8" "0 < length bs"
        by simp_all
      then show ?thesis using i by (simp add: nth_append)
    qed
    ultimately show ?thesis using snoc.IH [of m] i by auto
  qed
qed

lemma bit_be_bytes:
  assumes "k < LENGTH('a) div 8"
  shows "bit (be_bytes (w :: 'a::len word) ! k) j \<longleftrightarrow>
           j < 8 \<and> bit w (8 * (LENGTH('a) div 8 - 1 - k) + j)"
  using assms by (auto simp: be_bytes_nth bit_ucast_iff bit_drop_bit_eq)

lemma bit_imp_le_exp: "bit (k :: nat) i \<Longrightarrow> 2 ^ i \<le> k"
proof (rule ccontr)
  assume b: "bit k i" and "\<not> 2 ^ i \<le> k"
  then have "k div 2 ^ i = 0" by simp
  with b show False by (simp add: bit_iff_odd)
qed

lemma bit_less_exp: "unat (w :: 'a::len word) < 2 ^ n \<Longrightarrow> bit w i \<Longrightarrow> i < n"
proof -
  assume a: "unat w < 2 ^ n" and b: "bit w i"
  have "bit (unat w) i" using b by (simp add: bit_unsigned_iff)
  then have "2 ^ i \<le> unat w" by (rule bit_imp_le_exp)
  with a have "(2 :: nat) ^ i < 2 ^ n" by (rule order.strict_trans1 [rotated])
  then show "i < n" by simp
qed

lemma ucast_ucast_less:
  "unat (n :: 'a::len word) < 2 ^ LENGTH('b) \<Longrightarrow> ucast (ucast n :: 'b::len word) = n"
  by (rule bit_word_eqI) (auto simp: bit_ucast_iff dest: bit_less_exp)

lemma unat_ucast_less:
  "unat (n :: 'a::len word) < 2 ^ LENGTH('b) \<Longrightarrow> unat (ucast n :: 'b::len word) = unat n"
  by (simp add: unsigned_ucast_eq take_bit_nat_eq_self_iff)

text \<open>Rebuilding a word from its bytes, in its own width or a larger one.\<close>

lemma be_word_be_bytes_ucast:
  assumes "8 dvd LENGTH('b)"
  shows "(be_word (be_bytes (w :: 'b::len word)) :: 'a::len word) = ucast w"
proof (rule bit_word_eqI)
  fix i assume i: "i < LENGTH('a)"
  obtain n where n: "LENGTH('b) = 8 * n" using assms by auto
  show "bit (be_word (be_bytes w) :: 'a word) i = bit (ucast w :: 'a word) i"
  proof (cases "i < 8 * n")
    case True
    then have k: "n - 1 - i div 8 < LENGTH('b) div 8" using n by simp
    have "8 * (n - 1 - (n - 1 - i div 8)) + i mod 8 = i"
      using True by simp
    then show ?thesis
      using True i n bit_be_bytes [OF k, of w "i mod 8"] by (simp add: bit_be_word bit_ucast_iff)
  next
    case False
    then show ?thesis using i n by (auto simp: bit_be_word bit_ucast_iff dest: bit_imp_le_length)
  qed
qed

lemma be_word_be_bytes [simp]:
  assumes "8 dvd LENGTH('a)"
  shows "be_word (be_bytes (w :: 'a::len word)) = w"
  using be_word_be_bytes_ucast [OF assms, of w, where 'a = 'a] by simp

lemma be_bytes_ucast_be_word:
  assumes "LENGTH('b) = 8 * length bs" and "LENGTH('b) \<le> LENGTH('a)"
  shows "be_bytes (ucast (be_word bs :: 'a::len word) :: 'b::len word) = bs"
proof (rule nth_equalityI)
  show "length (be_bytes (ucast (be_word bs :: 'a word) :: 'b word)) = length bs"
    using assms by simp
next
  fix k assume "k < length (be_bytes (ucast (be_word bs :: 'a word) :: 'b word))"
  then have k: "k < length bs" and k': "k < LENGTH('b) div 8" using assms by simp_all
  show "be_bytes (ucast (be_word bs :: 'a word) :: 'b word) ! k = bs ! k"
  proof (rule bit_word_eqI)
    fix j assume "j < LENGTH(8)"
    then have j: "j < 8" by simp
    let ?i = "8 * (length bs - 1 - k) + j"
    have i: "?i < 8 * length bs" and d: "?i div 8 = length bs - 1 - k" and m: "?i mod 8 = j"
      using k j by simp_all
    have "bit (be_bytes (ucast (be_word bs :: 'a word) :: 'b word) ! k) j
        = bit (be_word bs :: 'a word) ?i"
      using bit_be_bytes [OF k', of "ucast (be_word bs :: 'a word)" j] j i assms
      by (simp add: bit_ucast_iff)
    also have "\<dots> = bit (bs ! k) j"
    proof -
      have "length bs - 1 - (length bs - 1 - k) = k" using k by simp
      then show ?thesis using i d m assms by (simp add: bit_be_word)
    qed
    finally show "bit (be_bytes (ucast (be_word bs :: 'a word) :: 'b word) ! k) j = bit (bs ! k) j" .
  qed
qed

lemma be_bytes_be_word [simp]:
  "LENGTH('a) = 8 * length bs \<Longrightarrow> be_bytes (be_word bs :: 'a::len word) = bs"
  using be_bytes_ucast_be_word [where 'a = 'a and 'b = 'a, of bs] by simp

lemma be_bytes_inject:
  assumes "8 dvd LENGTH('a)"
  shows "be_bytes (v :: 'a::len word) = be_bytes w \<longleftrightarrow> v = w"
proof
  assume "be_bytes v = be_bytes w"
  then have "(be_word (be_bytes v) :: 'a word) = be_word (be_bytes w)" by simp
  with assms show "v = w" by simp
qed simp

text \<open>The numeric reading, and the lexicographic order of the bytes.\<close>

definition be_nat :: "bytes \<Rightarrow> nat" where
  "be_nat bs = foldl (\<lambda>n b. n * 256 + unat b) 0 bs"

lemma be_nat_snoc: "be_nat (bs @ [b]) = be_nat bs * 256 + unat b"
  by (simp add: be_nat_def)

lemma be_nat_Nil [simp]: "be_nat [] = 0"
  by (simp add: be_nat_def)

lemma unat_byte_less [simp]: "unat (b :: 8 word) < 256"
  using unsigned_less [of b] by simp

lemma be_nat_less: "be_nat bs < 256 ^ length bs"
proof (induction bs rule: rev_induct)
  case Nil
  then show ?case by simp
next
  case (snoc b bs)
  have "be_nat bs * 256 + unat b < (be_nat bs + 1) * 256"
    using unat_byte_less [of b] by simp
  also have "\<dots> \<le> 256 ^ length bs * 256"
    using snoc.IH by (intro mult_right_mono) auto
  finally show ?case by (simp add: be_nat_snoc mult.commute)
qed

lemma unat_push_or:
  assumes "unat (v :: 'a::len word) * 256 + unat b < 2 ^ LENGTH('a)"
  shows "unat (push_bit 8 v OR ucast (b :: 8 word)) = unat v * 256 + unat b"
proof -
  have L: "2 ^ 8 \<le> (2 :: nat) ^ LENGTH('a) \<or> v = 0"
  proof (rule ccontr)
    assume "\<not> ?thesis"
    then have "(2 :: nat) ^ LENGTH('a) < 256" and "0 < unat v" by (simp_all add: unat_gt_0)
    with assms show False by simp
  qed
  have b: "unat (ucast b :: 'a word) = unat b"
    using assms by (simp add: unsigned_ucast_eq take_bit_nat_eq_self_iff)
  have "push_bit 8 v AND ucast b = 0"
    by (rule bit_word_eqI) (auto simp: bit_and_iff bit_push_bit_iff bit_ucast_iff dest: bit_imp_le_length)
  then have "push_bit 8 v OR ucast b = push_bit 8 v + ucast b"
    by (simp add: disjunctive_add_eq_or)
  moreover have "unat (push_bit 8 v) = unat v * 256"
    using assms by (simp add: unsigned_push_bit_eq take_bit_nat_eq_self_iff push_bit_nat_def
        flip: push_bit_eq_mult)
  ultimately show ?thesis
    using b assms by (simp add: unat_word_ariths)
qed

lemma unat_be_word:
  "8 * length bs \<le> LENGTH('a) \<Longrightarrow> unat (be_word bs :: 'a::len word) = be_nat bs"
proof (induction bs rule: rev_induct)
  case Nil
  then show ?case by simp
next
  case (snoc b bs)
  have IH: "unat (be_word bs :: 'a word) = be_nat bs" using snoc by simp
  have "be_nat (bs @ [b]) < 256 ^ length (bs @ [b])" by (rule be_nat_less)
  also have "(256 :: nat) ^ length (bs @ [b]) = 2 ^ (8 * length (bs @ [b]))"
    using power_mult [of "2 :: nat" 8 "length (bs @ [b])"] by simp
  also have "\<dots> \<le> 2 ^ LENGTH('a)" using snoc.prems by (intro power_increasing) auto
  finally have "unat (be_word bs :: 'a word) * 256 + unat b < 2 ^ LENGTH('a)"
    using IH by (simp add: be_nat_snoc)
  from unat_push_or [OF this] IH show ?case by (simp add: be_word_snoc be_nat_snoc)
qed

lemma be_nat_Cons: "be_nat (b # bs) = unat b * 256 ^ length bs + be_nat bs"
proof (induction bs rule: rev_induct)
  case Nil
  then show ?case by (simp add: be_nat_def)
next
  case (snoc x xs)
  then show ?case
    by (simp add: be_nat_snoc algebra_simps flip: append_Cons)
qed

lemma be_nat_less_lex:
  "length xs = length ys \<Longrightarrow> be_nat xs < be_nat ys \<longleftrightarrow> (xs, ys) \<in> lex {(a, b). a < b}"
proof (induction xs ys rule: list_induct2)
  case Nil
  then show ?case by simp
next
  case (Cons x xs y ys)
  let ?B = "256 ^ length ys :: nat"
  have bx: "be_nat xs < ?B" and b_y: "be_nat ys < ?B"
    using be_nat_less [of xs] be_nat_less [of ys] Cons.hyps by simp_all
  have lt: "be_nat (u # us) < be_nat (w # ws)"
    if "u < w" "be_nat us < ?B" "length us = length ys" "length ws = length ys" for u w us ws
  proof -
    have "unat u + 1 \<le> unat w" using that(1) by (simp add: word_less_nat_alt)
    then have "(unat u + 1) * ?B \<le> unat w * ?B" by (intro mult_right_mono) auto
    then show ?thesis using that(2-4) by (simp add: be_nat_Cons algebra_simps)
  qed
  consider "x < y" | "x = y" | "y < x" by (rule linorder_cases)
  then show ?case
  proof cases
    case 1
    then show ?thesis using lt [OF 1 bx] Cons.hyps by simp
  next
    case 2
    then show ?thesis using Cons by (simp add: be_nat_Cons)
  next
    case 3
    have "be_nat (y # ys) < be_nat (x # xs)" using lt [OF 3 b_y] Cons.hyps by simp
    then show ?thesis using 3 Cons.hyps by auto
  qed
qed

text \<open>
  The order of the words is the order \<open>#[derive(Ord)]\<close> gives the byte arrays: lexicographic.
\<close>

lemma be_bytes_less:
  assumes "8 dvd LENGTH('a)"
  shows "v < (w :: 'a::len word) \<longleftrightarrow> (be_bytes v, be_bytes w) \<in> lex {(a, b). a < b}"
proof -
  have "unat u = be_nat (be_bytes u)" for u :: "'a word"
    using unat_be_word [of "be_bytes u", where 'a = 'a] assms by simp
  then show ?thesis by (simp add: word_less_nat_alt be_nat_less_lex)
qed

section \<open>Slices\<close>

function chunks :: "nat \<Rightarrow> 'a list \<Rightarrow> 'a list list" where
  "chunks n xs = (if xs = [] \<or> n = 0 then [] else take n xs # chunks n (drop n xs))"
  by pat_completeness auto
termination
  by (relation "measure (\<lambda>(n, xs). length xs)") auto

declare chunks.simps [simp del]

lemma chunks_Nil [simp]: "chunks n [] = []"
  by (simp add: chunks.simps)

lemma chunks_unfold: "0 < n \<Longrightarrow> xs \<noteq> [] \<Longrightarrow> chunks n xs = take n xs # chunks n (drop n xs)"
  by (subst chunks.simps) simp

lemma concat_chunks [simp]: "0 < n \<Longrightarrow> concat (chunks n xs) = xs"
proof (induction n xs rule: chunks.induct)
  case (1 n xs)
  then show ?case by (cases "xs = []") (simp_all add: chunks_unfold)
qed

lemma chunks_eq_Nil [simp]: "0 < n \<Longrightarrow> chunks n xs = [] \<longleftrightarrow> xs = []"
  by (cases "xs = []") (simp_all add: chunks_unfold)

lemma length_chunks: "0 < n \<Longrightarrow> length (chunks n xs) = div_ceil (length xs) n"
proof (induction n xs rule: chunks.induct)
  case (1 n xs)
  show ?case
  proof (cases "xs = []")
    case True
    then show ?thesis by (simp add: div_ceil_def)
  next
    case False
    then have IH: "length (chunks n (drop n xs)) = div_ceil (length xs - n) n"
      using 1 by simp
    show ?thesis
    proof (cases "n \<le> length xs")
      case True
      then show ?thesis using False IH 1(2)
        by (simp add: chunks_unfold div_ceil_def le_mod_geq le_div_geq)
    next
      case short: False
      then show ?thesis using False IH 1(2)
        by (simp add: chunks_unfold div_ceil_def)
    qed
  qed
qed

lemma nth_chunks:
  "0 < n \<Longrightarrow> i < length (chunks n xs) \<Longrightarrow> chunks n xs ! i = take n (drop (i * n) xs)"
proof (induction n xs arbitrary: i rule: chunks.induct)
  case (1 n xs)
  then have ne: "xs \<noteq> []" by auto
  show ?case
  proof (cases i)
    case 0
    then show ?thesis using 1 ne by (simp add: chunks_unfold)
  next
    case (Suc j)
    then show ?thesis using 1 ne by (simp add: chunks_unfold add.commute)
  qed
qed

lemma chunks_length_le: "0 < n \<Longrightarrow> c \<in> set (chunks n xs) \<Longrightarrow> length c \<le> n \<and> c \<noteq> []"
proof (induction n xs rule: chunks.induct)
  case (1 n xs)
  then have "xs \<noteq> []" by auto
  then show ?case using 1 by (auto simp: chunks_unfold)
qed

lemma length_nth_chunks:
  assumes "0 < n" and "i < length (chunks n xs)"
  shows "length (chunks n xs ! i) = min n (length xs - i * n)"
  using assms by (simp add: nth_chunks min.commute)

text \<open>\<open>windows(2).all(|p| p[0] < p[1])\<close>.\<close>

abbreviation ascending :: "'a::linorder list \<Rightarrow> bool" where
  "ascending xs \<equiv> successively (<) xs"

lemma ascending_sorted_wrt: "ascending xs \<longleftrightarrow> sorted_wrt (<) (xs :: 'a::linorder list)"
  by (simp add: successively_conv_sorted_wrt)

lemma ascending_iff: "ascending xs \<longleftrightarrow> sorted xs \<and> distinct (xs :: 'a::linorder list)"
  by (auto simp: ascending_sorted_wrt strict_sorted_iff)

lemma ascending_sort_iff: "ascending (sort xs) \<longleftrightarrow> distinct (xs :: 'a::linorder list)"
  by (simp add: ascending_iff)

lemma ascending_sort_id: "ascending xs \<Longrightarrow> sort xs = (xs :: 'a::linorder list)"
  by (simp add: ascending_iff sorted_sort_id)

end
