(* ===== verification/Mesh_Types.thy ===== *)
theory Mesh_Types
  imports Mesh_BTree Mesh_Bytes
begin

text \<open>
  \<open>crates/mesh-types\<close>: the bounds, identifiers, error enums and small value types every other
  crate uses (\<open>lib.rs\<close> for the diagnostic API, \<open>durable.rs\<close> for storage and transfer).
  Identifiers are newtypes over fixed byte arrays and get their derived order.
\<close>

section \<open>Bounds\<close>

definition ABI_VERSION :: u32 where [simp]: "ABI_VERSION = 1"
definition API_VERSION :: u64 where [simp]: "API_VERSION = 1"
definition MAX_INPUT :: nat where [simp]: "MAX_INPUT = 64"
definition MAX_OUTPUT :: nat where [simp]: "MAX_OUTPUT = 16384"
definition MAX_EVENTS :: nat where [simp]: "MAX_EVENTS = 64"
definition MAX_RUNTIMES :: nat where [simp]: "MAX_RUNTIMES = 16"
definition MAX_COUNTER :: u64 where "MAX_COUNTER = push_bit 53 1 - 1"

definition CHUNK_BYTES :: nat where [simp]: "CHUNK_BYTES = 1024"
definition MAX_OBJECT_BYTES :: nat where [simp]: "MAX_OBJECT_BYTES = 64 * 1024"
definition MAX_CHUNKS :: nat where [simp]: "MAX_CHUNKS = MAX_OBJECT_BYTES div CHUNK_BYTES"
definition MAX_TARGETS :: nat where [simp]: "MAX_TARGETS = 10"
definition MAX_GROUP_MEMBERS :: nat where [simp]: "MAX_GROUP_MEMBERS = 50"
definition MAX_MANIFEST_BYTES :: nat where [simp]: "MAX_MANIFEST_BYTES = 4096"
definition MAX_LOGICAL_TIME :: u64 where "MAX_LOGICAL_TIME = 0x7fffffffffffffff"

lemma MAX_COUNTER_val: "MAX_COUNTER = 9007199254740991"
  by (simp add: MAX_COUNTER_def)

lemma unat_MAX_COUNTER: "unat MAX_COUNTER = 2 ^ 53 - 1"
  by (simp add: MAX_COUNTER_val)

lemma unat_MAX_LOGICAL_TIME: "unat MAX_LOGICAL_TIME = 2 ^ 63 - 1"
  by (simp add: MAX_LOGICAL_TIME_def)

lemma counter_up:
  assumes "n < MAX_COUNTER"
  shows "n < n + 1" "n + 1 \<le> MAX_COUNTER"
proof -
  have "unat n < 2 ^ 53 - 1"
    using assms by (simp add: word_less_nat_alt unat_MAX_COUNTER)
  moreover from this have "unat (n + 1) = Suc (unat n)"
    by (simp add: unat_word_ariths)
  ultimately show "n < n + 1" "n + 1 \<le> MAX_COUNTER"
    by (simp_all add: word_less_nat_alt word_le_nat_alt unat_MAX_COUNTER)
qed

section \<open>Diagnostic API\<close>

datatype api_error =
    InvalidArgument
  | IncompatibleVersion
  | InvalidHandle
  | ResourcePressure_api
  | InternalInvariant
  | StaleRequest

datatype command =
    EngineInfo
  | Subscribe u64
  | VerifyBridge u64

record event =
  ev_sequence :: u64
  ev_request_id :: u64

record snapshot =
  runtime_id :: u64
  sn_cursor :: u64
  probe_count :: u64
  cursor_reset :: bool
  sn_events :: "event list"

section \<open>Durable contracts\<close>

datatype durable_error =
    InvalidInput
  | ResourcePressure
  | NotFound
  | Conflict
  | Expired
  | Corrupt
  | KeyOrCorruption
  | CipherUnavailable
  | CryptoUnavailable
  | UnsupportedSchema
  | StorageUnavailable
  | InjectedFailure
  | InvalidReceipt
  | AuthenticationFailed

datatype member_id = MemberId (member_arr: arr32)
datatype object_id = ObjectId (object_arr: arr32)
datatype operation_id = OperationId (operation_arr: arr16)

instantiation member_id :: linorder
begin
definition "less_eq_member_id a b \<longleftrightarrow> member_arr a \<le> member_arr b"
definition "less_member_id a b \<longleftrightarrow> member_arr a < member_arr b"
instance by standard (auto simp: less_eq_member_id_def less_member_id_def member_id.expand)
end

instantiation object_id :: linorder
begin
definition "less_eq_object_id a b \<longleftrightarrow> object_arr a \<le> object_arr b"
definition "less_object_id a b \<longleftrightarrow> object_arr a < object_arr b"
instance by standard (auto simp: less_eq_object_id_def less_object_id_def object_id.expand)
end

instantiation operation_id :: linorder
begin
definition "less_eq_operation_id a b \<longleftrightarrow> operation_arr a \<le> operation_arr b"
definition "less_operation_id a b \<longleftrightarrow> operation_arr a < operation_arr b"
instance by standard (auto simp: less_eq_operation_id_def less_operation_id_def operation_id.expand)
end

lemma MemberId_less [simp]: "MemberId a < MemberId b \<longleftrightarrow> a < b" "MemberId a \<le> MemberId b \<longleftrightarrow> a \<le> b"
  by (simp_all add: less_member_id_def less_eq_member_id_def)

lemma ObjectId_less [simp]: "ObjectId a < ObjectId b \<longleftrightarrow> a < b" "ObjectId a \<le> ObjectId b \<longleftrightarrow> a \<le> b"
  by (simp_all add: less_object_id_def less_eq_object_id_def)

lemma OperationId_less [simp]:
  "OperationId a < OperationId b \<longleftrightarrow> a < b" "OperationId a \<le> OperationId b \<longleftrightarrow> a \<le> b"
  by (simp_all add: less_operation_id_def less_eq_operation_id_def)

text \<open>
  A \<open>Namespace\<close> wraps a \<open>String\<close>, here its UTF-8 bytes; the constructor bounds it to 64
  characters out of the ASCII letters, digits, dot, underscore and dash.
\<close>

datatype namespace = Namespace bytes

primrec as_str :: "namespace \<Rightarrow> bytes" where
  "as_str (Namespace value) = value"

lemma Namespace_as_str [simp]: "Namespace (as_str ns) = ns"
  by (cases ns) simp

definition is_ascii_alphanumeric :: "u8 \<Rightarrow> bool" where
  "is_ascii_alphanumeric b \<longleftrightarrow>
     (48 \<le> b \<and> b \<le> 57) \<or> (65 \<le> b \<and> b \<le> 90) \<or> (97 \<le> b \<and> b \<le> 122)"

definition namespace_byte :: "u8 \<Rightarrow> bool" where
  "namespace_byte b \<longleftrightarrow> is_ascii_alphanumeric b \<or> b \<in> set (ascii ''._-'')"

definition namespace_new :: "bytes \<Rightarrow> durable_error + namespace" where
  "namespace_new value =
     (if value = [] \<or> length value > 64 \<or> \<not> list_all namespace_byte value
      then Inl InvalidInput
      else Inr (Namespace value))"

definition namespace_ok :: "namespace \<Rightarrow> bool" where
  "namespace_ok ns \<longleftrightarrow> is_ok (namespace_new (as_str ns))"

lemma namespace_new_Inr: "namespace_new v = Inr ns \<longleftrightarrow> namespace_ok ns \<and> v = as_str ns"
  by (cases ns) (auto simp: namespace_ok_def namespace_new_def)

lemma namespace_ok_bounds:
  "namespace_ok ns \<Longrightarrow> 0 < length (as_str ns) \<and> length (as_str ns) \<le> 64"
  by (auto simp: namespace_ok_def namespace_new_def split: if_splits)

datatype delivery_state = Stored | Relaying | Delivered | Expired_state

record delivery_progress =
  dp_state :: delivery_state
  dp_confirmed :: nat
  dp_required :: nat

section \<open>UTF-8\<close>

text \<open>\<open>std::str::from_utf8\<close>: the well-formed byte sequences of the Unicode standard.\<close>

definition utf8_cont :: "u8 \<Rightarrow> bool" where
  "utf8_cont b \<longleftrightarrow> 0x80 \<le> b \<and> b \<le> 0xBF"

fun utf8_valid :: "bytes \<Rightarrow> bool" where
  "utf8_valid [] = True"
| "utf8_valid (b # bs) =
    (if b < 0x80 then utf8_valid bs
     else if 0xC2 \<le> b \<and> b \<le> 0xDF then
       (case bs of c # r \<Rightarrow> utf8_cont c \<and> utf8_valid r | _ \<Rightarrow> False)
     else if 0xE0 \<le> b \<and> b \<le> 0xEF then
       (case bs of
          c # d # r \<Rightarrow> utf8_cont c \<and> (b = 0xE0 \<longrightarrow> 0xA0 \<le> c) \<and> (b = 0xED \<longrightarrow> c \<le> 0x9F) \<and>
            utf8_cont d \<and> utf8_valid r
        | _ \<Rightarrow> False)
     else if 0xF0 \<le> b \<and> b \<le> 0xF4 then
       (case bs of
          c # d # e # r \<Rightarrow> utf8_cont c \<and> (b = 0xF0 \<longrightarrow> 0x90 \<le> c) \<and> (b = 0xF4 \<longrightarrow> c \<le> 0x8F) \<and>
            utf8_cont d \<and> utf8_cont e \<and> utf8_valid r
        | _ \<Rightarrow> False)
     else False)"

lemma utf8_valid_ascii: "list_all (\<lambda>b. b < 0x80) bs \<Longrightarrow> utf8_valid bs"
  by (induction bs) auto

lemma namespace_byte_ascii: "namespace_byte b \<Longrightarrow> b < 0x80"
proof -
  assume "namespace_byte b"
  then have "b \<le> 122"
    by (auto simp: namespace_byte_def is_ascii_alphanumeric_def ascii_def intro: order_trans)
  then show ?thesis by (rule le_less_trans) simp
qed

lemma namespace_utf8: "namespace_ok ns \<Longrightarrow> utf8_valid (as_str ns)"
  by (rule utf8_valid_ascii)
    (auto simp: namespace_ok_def namespace_new_def list_all_iff namespace_byte_ascii split: if_splits)

end
