(* ===== verification/Mesh_Canonical.thy ===== *)
theory Mesh_Canonical
  imports Mesh_Types
begin

text \<open>
  \<open>crates/mesh-codec/src/canonical.rs\<close>: the bounded definite-length CBOR writer and reader.
  The writer is the byte vector it has produced so far; the reader is its input slice and its
  position, and every read returns the value with the reader moved forward. A failed read
  returns the error alone: every caller propagates it and drops the reader.

  The locale \<open>wire_reader\<close> is the contract of one read operation: it returns exactly the
  values whose encoding stands at the current position, and consumes exactly that encoding.
  It is interpreted for the unsigned integer, array head, byte string, text and fixed array
  readers; a record decoder is then described by composing the facts \<open>reads_get\<close> along its
  field reads (rules \<open>reads_bind\<close>, \<open>finishes_bind\<close>, ...), which gives the exact set of byte
  strings it accepts and the value of each.
\<close>

section \<open>Writer\<close>

definition w_head :: "u8 \<Rightarrow> u64 \<Rightarrow> bytes \<Rightarrow> bytes" where
  "w_head major n out =
     (let tag = push_bit 5 major in
      if n \<le> 23 then out @ [tag OR ucast n]
      else if n \<le> 255 then out @ [tag OR 24, ucast n]
      else if n \<le> 65535 then out @ [tag OR 25] @ be_bytes (ucast n :: u16)
      else if n \<le> 4294967295 then out @ [tag OR 26] @ be_bytes (ucast n :: u32)
      else out @ [tag OR 27] @ be_bytes n)"

definition w_array :: "nat \<Rightarrow> bytes \<Rightarrow> bytes" where
  "w_array n out = w_head 4 (of_nat n) out"

definition w_uint :: "u64 \<Rightarrow> bytes \<Rightarrow> bytes" where
  "w_uint n out = w_head 0 n out"

definition w_bytes :: "bytes \<Rightarrow> bytes \<Rightarrow> bytes" where
  "w_bytes b out = w_head 2 (of_nat (length b)) out @ b"

definition w_text :: "bytes \<Rightarrow> bytes \<Rightarrow> bytes" where
  "w_text b out = w_head 3 (of_nat (length b)) out @ b"

text \<open>The encodings one write appends.\<close>

definition head_bytes :: "u8 \<Rightarrow> u64 \<Rightarrow> bytes" where
  "head_bytes major n = w_head major n []"

definition uint_bytes :: "u64 \<Rightarrow> bytes" where
  "uint_bytes n = head_bytes 0 n"

definition array_bytes :: "nat \<Rightarrow> bytes" where
  "array_bytes n = head_bytes 4 (of_nat n)"

definition blob_bytes :: "bytes \<Rightarrow> bytes" where
  "blob_bytes b = head_bytes 2 (of_nat (length b)) @ b"

definition text_bytes :: "bytes \<Rightarrow> bytes" where
  "text_bytes b = head_bytes 3 (of_nat (length b)) @ b"

lemma w_head_append: "w_head major n out = out @ head_bytes major n"
  by (simp add: w_head_def head_bytes_def Let_def)

named_theorems w_simps "each write appends its encoding"

lemma w_uint_append [w_simps]: "w_uint n out = out @ uint_bytes n"
  by (simp add: w_uint_def uint_bytes_def w_head_append)

lemma w_array_append [w_simps]: "w_array n out = out @ array_bytes n"
  by (simp add: w_array_def array_bytes_def w_head_append)

lemma w_bytes_append [w_simps]: "w_bytes b out = out @ blob_bytes b"
  by (simp add: w_bytes_def blob_bytes_def w_head_append)

lemma w_text_append [w_simps]: "w_text b out = out @ text_bytes b"
  by (simp add: w_text_def text_bytes_def w_head_append)

lemma head_bytes_length: "length (head_bytes major n) \<le> 9" "head_bytes major n \<noteq> []"
  by (simp_all add: head_bytes_def w_head_def Let_def)

lemma head_bytes_small: "n \<le> 23 \<Longrightarrow> length (head_bytes major n) = 1"
  "n \<le> 255 \<Longrightarrow> length (head_bytes major n) \<le> 2"
  "n \<le> 65535 \<Longrightarrow> length (head_bytes major n) \<le> 3"
  by (simp_all add: head_bytes_def w_head_def Let_def)

section \<open>Reader\<close>

record reader =
  rd_bytes :: bytes
  rd_pos :: nat

definition reader_new :: "bytes \<Rightarrow> nat \<Rightarrow> durable_error + reader" where
  "reader_new bytes limit =
     (if length bytes > limit then Inl InvalidInput
      else Inr \<lparr>rd_bytes = bytes, rd_pos = 0\<rparr>)"

definition reader_byte :: "reader \<Rightarrow> durable_error + u8 \<times> reader" where
  "reader_byte r =
     (if rd_pos r < length (rd_bytes r)
      then Inr (rd_bytes r ! rd_pos r, r\<lparr>rd_pos := rd_pos r + 1\<rparr>)
      else Inl InvalidInput)"

text \<open>The loop \<open>for _ in 0..n { value = (value << 8) | byte }\<close>.\<close>

primrec reader_be :: "nat \<Rightarrow> u64 \<Rightarrow> reader \<Rightarrow> durable_error + u64 \<times> reader" where
  "reader_be 0 value r = Inr (value, r)"
| "reader_be (Suc n) value r =
     bindr (reader_byte r) (\<lambda>(b, r). reader_be n (push_bit 8 value OR ucast b) r)"

definition tag_width :: "u8 \<Rightarrow> durable_error + nat \<times> u64" where
  "tag_width tag =
     (if tag = 24 then Inr (1, 24)
      else if tag = 25 then Inr (2, 256)
      else if tag = 26 then Inr (4, 65536)
      else if tag = 27 then Inr (8, 4294967296)
      else Inl InvalidInput)"

definition reader_value :: "u8 \<Rightarrow> reader \<Rightarrow> durable_error + u64 \<times> reader" where
  "reader_value major r =
     bindr (reader_byte r) (\<lambda>(b, r).
       if drop_bit 5 b \<noteq> major then Inl InvalidInput
       else
         let tag = b AND 31 in
         if tag < 24 then Inr (ucast tag, r)
         else
           bindr (tag_width tag) (\<lambda>(n, minimum).
           bindr (reader_be n 0 r) (\<lambda>(value, r).
             if value < minimum then Inl InvalidInput else Inr (value, r))))"

definition reader_uint :: "reader \<Rightarrow> durable_error + u64 \<times> reader" where
  "reader_uint r = reader_value 0 r"

definition reader_array :: "nat \<Rightarrow> reader \<Rightarrow> durable_error + unit \<times> reader" where
  "reader_array expected r =
     bindr (reader_value 4 r) (\<lambda>(n, r).
       if n \<noteq> of_nat expected then Inl InvalidInput else Inr ((), r))"

definition reader_count :: "nat \<Rightarrow> reader \<Rightarrow> durable_error + nat \<times> reader" where
  "reader_count limit r =
     bindr (reader_value 4 r) (\<lambda>(n, r).
       if n > of_nat limit then Inl InvalidInput else Inr (unat n, r))"

text \<open>\<open>self.pos.checked_add(n as usize)\<close> on a 64-bit \<open>usize\<close>, then \<open>bytes.get(pos..end)\<close>.\<close>

definition reader_string :: "u8 \<Rightarrow> nat \<Rightarrow> reader \<Rightarrow> durable_error + bytes \<times> reader" where
  "reader_string major limit r =
     bindr (reader_value major r) (\<lambda>(n, r).
       if n > of_nat limit then Inl InvalidInput
       else
         let end = rd_pos r + unat n in
         if 2 ^ 64 \<le> end then Inl InvalidInput
         else if length (rd_bytes r) < end then Inl InvalidInput
         else Inr (take (unat n) (drop (rd_pos r) (rd_bytes r)), r\<lparr>rd_pos := end\<rparr>))"

definition reader_bytes :: "nat \<Rightarrow> reader \<Rightarrow> durable_error + bytes \<times> reader" where
  "reader_bytes limit r = reader_string 2 limit r"

definition reader_text :: "nat \<Rightarrow> reader \<Rightarrow> durable_error + bytes \<times> reader" where
  "reader_text limit r =
     bindr (reader_string 3 limit r) (\<lambda>(b, r).
       if utf8_valid b then Inr (b, r) else Inl InvalidInput)"

text \<open>\<open>fixed::<N>\<close>: the array type of the result is the width of the word.\<close>

definition reader_fixed :: "reader \<Rightarrow> durable_error + 'a::len word \<times> reader" where
  "reader_fixed r =
     bindr (reader_bytes (LENGTH('a) div 8) r) (\<lambda>(b, r).
       if length b = LENGTH('a) div 8 then Inr (be_word b, r) else Inl InvalidInput)"

definition reader_end :: "reader \<Rightarrow> durable_error + unit" where
  "reader_end r = (if rd_pos r \<noteq> length (rd_bytes r) then Inl InvalidInput else Inr ())"

section \<open>What a read consumes\<close>

definition rd_rest :: "reader \<Rightarrow> bytes" where
  "rd_rest r = drop (rd_pos r) (rd_bytes r)"

definition advance :: "reader \<Rightarrow> nat \<Rightarrow> reader" where
  "advance r n = r\<lparr>rd_pos := rd_pos r + n\<rparr>"

text \<open>A slice is shorter than the address space and the position stays inside it.\<close>

definition rd_fits :: "reader \<Rightarrow> bool" where
  "rd_fits r \<longleftrightarrow> rd_pos r \<le> length (rd_bytes r) \<and> length (rd_bytes r) < 2 ^ 64"

definition consumed :: "reader \<Rightarrow> bytes \<Rightarrow> reader \<Rightarrow> bool" where
  "consumed r w r' \<longleftrightarrow> rd_fits r' \<and> rd_rest r = w @ rd_rest r' \<and> r' = advance r (length w)"

text \<open>
  \<open>reads p S\<close>: a successful \<open>p\<close> returns \<open>x\<close> having consumed \<open>w\<close> exactly when \<open>S x w\<close>.
  \<open>parses q F\<close> is for the rest of a decoder: it returns \<open>y\<close> exactly when \<open>F y\<close> holds of the
  predicate "the bytes left are \<open>t\<close>", so that every field read adds its encoding in front.
\<close>

definition reads :: "(reader \<Rightarrow> durable_error + 'a \<times> reader) \<Rightarrow> ('a \<Rightarrow> bytes \<Rightarrow> bool) \<Rightarrow> bool" where
  "reads p S \<longleftrightarrow> (\<forall>r x r'. rd_fits r \<longrightarrow> (p r = Inr (x, r') \<longleftrightarrow> (\<exists>w. S x w \<and> consumed r w r')))"

definition parses :: "(reader \<Rightarrow> 'e + 'a) \<Rightarrow> ('a \<Rightarrow> (bytes \<Rightarrow> bool) \<Rightarrow> bool) \<Rightarrow> bool" where
  "parses q F \<longleftrightarrow> (\<forall>y. \<not> F y (\<lambda>_. False)) \<and>
     (\<forall>r y. rd_fits r \<longrightarrow> (q r = Inr y \<longleftrightarrow> F y (\<lambda>t. rd_rest r = t)))"

lemma rd_rest_advance [simp]: "rd_rest (advance r n) = drop n (rd_rest r)"
  by (simp add: rd_rest_def advance_def add.commute)

lemma consumedD:
  assumes "consumed r w r'"
  shows "rd_fits r'" and "rd_rest r = w @ rd_rest r'" and "r' = advance r (length w)"
  using assms by (metis consumed_def)+

lemmas consumed_fits = consumedD(1)

lemma consumed_Nil: "rd_fits r \<Longrightarrow> consumed r [] r' \<longleftrightarrow> r' = r"
  by (auto simp: consumed_def advance_def)

lemma rd_rest_length: "rd_fits r \<Longrightarrow> length (rd_rest r) = length (rd_bytes r) - rd_pos r"
  by (simp add: rd_rest_def)

lemma consumedI:
  assumes "rd_fits r" and "rd_rest r = w @ s"
  shows "consumed r w (advance r (length w))"
proof -
  have "length w + length s = length (rd_bytes r) - rd_pos r"
    using rd_rest_length [OF assms(1)] assms(2) by simp
  then have "rd_fits (advance r (length w))"
    using assms(1) unfolding rd_fits_def advance_def by simp linarith
  then show ?thesis using assms(2) by (simp add: consumed_def)
qed

lemma consumed_trans:
  assumes "consumed r v r'" and "consumed r' w r''"
  shows "consumed r (v @ w) r''"
proof -
  have "r'' = advance r (length (v @ w))"
    using consumedD(3) [OF assms(1)] consumedD(3) [OF assms(2)] by (simp add: advance_def add.assoc)
  then show ?thesis
    using consumedD(1,2) [OF assms(2)] consumedD(2) [OF assms(1)] by (simp only: consumed_def append_assoc)
qed

lemma consumed_split:
  assumes "rd_fits r" and "consumed r (v @ w) r''"
  shows "\<exists>r'. consumed r v r' \<and> consumed r' w r''"
proof -
  have eq: "rd_rest r = v @ w @ rd_rest r''" using consumedD(2) [OF assms(2)] by simp
  then have 1: "consumed r v (advance r (length v))" by (rule consumedI [OF assms(1)])
  have "r'' = advance (advance r (length v)) (length w)"
    using consumedD(3) [OF assms(2)] by (simp add: advance_def add.assoc)
  moreover have "rd_rest (advance r (length v)) = w @ rd_rest r''" using eq by simp
  ultimately have "consumed (advance r (length v)) w r''"
    using consumed_fits [OF assms(2)] by (simp only: consumed_def)
  with 1 show ?thesis by blast
qed

lemma consumed_append:
  "rd_fits r \<Longrightarrow> consumed r (v @ w) r'' \<longleftrightarrow> (\<exists>r'. consumed r v r' \<and> consumed r' w r'')"
  using consumed_split consumed_trans by metis

lemma consumed_inj: "consumed r w r' \<Longrightarrow> consumed r w r'' \<Longrightarrow> r' = r''"
  using consumedD(3) by metis

lemma readsD: "reads p S \<Longrightarrow> rd_fits r \<Longrightarrow> p r = Inr (x, r') \<longleftrightarrow> (\<exists>w. S x w \<and> consumed r w r')"
  by (simp add: reads_def)

lemma reads_return: "reads (\<lambda>r. Inr (x, r)) (\<lambda>y w. y = x \<and> w = [])"
  by (auto simp: reads_def consumed_Nil)

lemma reads_bind:
  assumes p: "reads p S" and k: "\<And>x. reads (k x) (T x)"
  shows "reads (\<lambda>r. bindr (p r) (case_prod k)) (\<lambda>y w. \<exists>x u v. S x u \<and> T x y v \<and> w = u @ v)"
  unfolding reads_def
proof (intro allI impI)
  fix r y r'' assume f: "rd_fits r"
  have "bindr (p r) (case_prod k) = Inr (y, r'') \<longleftrightarrow>
    (\<exists>x r'. (\<exists>u. S x u \<and> consumed r u r') \<and> k x r' = Inr (y, r''))"
    by (auto simp: bindr_eq_Inr readsD [OF p f])
  also have "\<dots> \<longleftrightarrow> (\<exists>x u v. S x u \<and> T x y v \<and> (\<exists>r'. consumed r u r' \<and> consumed r' v r''))"
    using readsD [OF k] consumed_fits by metis
  also have "\<dots> \<longleftrightarrow> (\<exists>w. (\<exists>x u v. S x u \<and> T x y v \<and> w = u @ v) \<and> consumed r w r'')"
    unfolding consumed_append [OF f, symmetric] by blast
  finally show "bindr (p r) (case_prod k) = Inr (y, r'') \<longleftrightarrow>
    (\<exists>w. (\<exists>x u v. S x u \<and> T x y v \<and> w = u @ v) \<and> consumed r w r'')" .
qed

lemma reads_if: "reads p S \<Longrightarrow> reads (\<lambda>r. if c then Inl e else p r) (\<lambda>y w. \<not> c \<and> S y w)"
  by (auto simp: reads_def)

lemma reads_pure:
  "(\<And>x. reads (k x) (T x)) \<Longrightarrow> reads (\<lambda>r. bindr m (\<lambda>x. k x r)) (\<lambda>y w. \<exists>x. m = Inr x \<and> T x y w)"
  by (auto simp: reads_def bindr_eq_Inr)

lemma reads_cong: "reads p S \<Longrightarrow> (\<And>x w. S x w \<longleftrightarrow> T x w) \<Longrightarrow> reads p T"
  by (simp add: reads_def)

lemma parsesD: "parses q F \<Longrightarrow> rd_fits r \<Longrightarrow> q r = Inr y \<longleftrightarrow> F y (\<lambda>t. rd_rest r = t)"
  by (simp add: parses_def)

lemma parses_bind:
  assumes p: "reads p (\<lambda>x w. ok x \<and> w = put x)" and k: "\<And>x. parses (k x) (F x)"
  shows "parses (\<lambda>r. bindr (p r) (case_prod k)) (\<lambda>y K. \<exists>x. ok x \<and> F x y (\<lambda>t. K (put x @ t)))"
  unfolding parses_def
proof (intro conjI allI impI)
  show "\<not> (\<exists>x. ok x \<and> F x y (\<lambda>t. False))" for y
    using k by (simp add: parses_def)
next
  fix r y assume f: "rd_fits r"
  have "bindr (p r) (case_prod k) = Inr y \<longleftrightarrow> (\<exists>x r'. ok x \<and> consumed r (put x) r' \<and> k x r' = Inr y)"
    by (auto simp: bindr_eq_Inr readsD [OF p f])
  also have "\<dots> \<longleftrightarrow> (\<exists>x. ok x \<and> F x y (\<lambda>t. rd_rest r = put x @ t))"
  proof (rule ex_cong1)
    fix x
    show "(\<exists>r'. ok x \<and> consumed r (put x) r' \<and> k x r' = Inr y) \<longleftrightarrow>
        ok x \<and> F x y (\<lambda>t. rd_rest r = put x @ t)"
    proof (cases "\<exists>s. rd_rest r = put x @ s")
      case True
      then obtain s where s: "rd_rest r = put x @ s" ..
      let ?r = "advance r (length (put x))"
      have c: "consumed r (put x) ?r" using consumedI [OF f s] .
      have "k x ?r = Inr y \<longleftrightarrow> F x y (\<lambda>t. rd_rest r = put x @ t)"
        using parsesD [OF k consumed_fits [OF c]] s by simp
      then show ?thesis using c consumedD(3) by metis
    next
      case False
      then have "(\<lambda>t. rd_rest r = put x @ t) = (\<lambda>_. False)" by simp
      moreover have "\<not> consumed r (put x) r'" for r' using False consumedD(2) by metis
      moreover have "\<not> F x y (\<lambda>_. False)" using k [of x] unfolding parses_def by blast
      ultimately show ?thesis by simp
    qed
  qed
  finally show "bindr (p r) (case_prod k) = Inr y \<longleftrightarrow>
      (\<exists>x. ok x \<and> F x y (\<lambda>t. rd_rest r = put x @ t))" .
qed

lemma parses_if: "parses p F \<Longrightarrow> parses (\<lambda>r. if c then Inl e else p r) (\<lambda>y K. \<not> c \<and> F y K)"
  by (auto simp: parses_def)

lemma parses_pure:
  "(\<And>x. parses (k x) (F x)) \<Longrightarrow> parses (\<lambda>r. bindr m (\<lambda>x. k x r)) (\<lambda>y K. \<exists>x. m = Inr x \<and> F x y K)"
  by (auto simp: parses_def bindr_eq_Inr)

lemma parses_end: "parses (\<lambda>r. bindr (reader_end r) (\<lambda>_. m)) (\<lambda>y K. K [] \<and> m = Inr y)"
  by (auto simp: parses_def bindr_eq_Inr reader_end_def rd_fits_def rd_rest_def split: if_splits)

section \<open>Contracts of the reads\<close>

locale wire_reader =
  fixes put :: "'a \<Rightarrow> bytes"
    and ok :: "'a \<Rightarrow> bool"
    and get :: "reader \<Rightarrow> durable_error + 'a \<times> reader"
  assumes get_iff: "rd_fits r \<Longrightarrow> get r = Inr (x, r') \<longleftrightarrow> ok x \<and> consumed r (put x) r'"
begin

lemma reads_get: "reads get (\<lambda>x w. ok x \<and> w = put x)"
  by (auto simp: reads_def get_iff)

lemma get_fits: "rd_fits r \<Longrightarrow> get r = Inr (x, r') \<Longrightarrow> rd_fits r'"
  using get_iff consumed_fits by blast

lemma prefix_free:
  assumes "ok x" and "ok y" and "put x @ s = put y @ t" and "length (put x @ s) < 2 ^ 64"
  shows "x = y \<and> s = t"
proof -
  let ?r = "\<lparr>rd_bytes = put x @ s, rd_pos = 0\<rparr>"
  have f: "rd_fits ?r" using assms(4) by (simp add: rd_fits_def)
  have "consumed ?r (put x) (advance ?r (length (put x)))"
    by (rule consumedI [OF f]) (simp add: rd_rest_def)
  then have 1: "get ?r = Inr (x, advance ?r (length (put x)))"
    using get_iff [OF f] assms(1) by simp
  have "consumed ?r (put y) (advance ?r (length (put y)))"
    by (rule consumedI [OF f]) (simp add: rd_rest_def assms(3))
  then have 2: "get ?r = Inr (y, advance ?r (length (put y)))"
    using get_iff [OF f] assms(2) by simp
  from 1 2 have "x = y" by simp
  with assms(3) show ?thesis by simp
qed

lemma prefix_free_list:
  assumes "list_all ok xs" and "list_all ok ys" and "length xs = length ys"
    and "concat (map put xs) @ s = concat (map put ys) @ t" and "length (concat (map put xs) @ s) < 2 ^ 64"
  shows "xs = ys \<and> s = t"
  using assms
proof (induction xs arbitrary: ys)
  case (Cons x xs)
  obtain y ys' where ys: "ys = y # ys'" using Cons.prems(3) by (cases ys) auto
  have "x = y \<and> concat (map put xs) @ s = concat (map put ys') @ t"
    by (rule prefix_free) (use Cons.prems in \<open>simp_all add: ys\<close>)
  then show ?case using Cons.IH [of ys'] Cons.prems ys by auto
qed simp

end

lemma reader_byte_iff:
  "rd_fits r \<Longrightarrow> reader_byte r = Inr (b, r') \<longleftrightarrow> consumed r [b] r'"
proof -
  assume f: "rd_fits r"
  show ?thesis
  proof (cases "rd_pos r < length (rd_bytes r)")
    case True
    have d: "rd_rest r = rd_bytes r ! rd_pos r # drop (Suc (rd_pos r)) (rd_bytes r)"
      using True by (simp add: rd_rest_def Cons_nth_drop_Suc)
    have "consumed r [rd_bytes r ! rd_pos r] (advance r 1)"
      using consumedI [OF f, of "[rd_bytes r ! rd_pos r]"] d by simp
    then show ?thesis
      using True d by (auto simp: reader_byte_def advance_def consumed_def)
  next
    case False
    then show ?thesis by (auto simp: reader_byte_def consumed_def rd_rest_def)
  qed
qed

lemma reader_be_iff:
  "rd_fits r \<Longrightarrow> reader_be n v r = Inr (x, r') \<longleftrightarrow>
     (\<exists>bs. length bs = n \<and> consumed r bs r' \<and> x = foldl (\<lambda>v b. push_bit 8 v OR ucast b) v bs)"
proof (induction n arbitrary: v r)
  case 0
  then show ?case by (auto simp: consumed_Nil)
next
  case (Suc n)
  have "reader_be (Suc n) v r = Inr (x, r') \<longleftrightarrow>
    (\<exists>b r1. consumed r [b] r1 \<and> reader_be n (push_bit 8 v OR ucast b) r1 = Inr (x, r'))"
    by (auto simp: bindr_eq_Inr reader_byte_iff [OF Suc.prems])
  also have "\<dots> \<longleftrightarrow> (\<exists>b bs. length bs = n \<and> consumed r ([b] @ bs) r' \<and>
      x = foldl (\<lambda>v b. push_bit 8 v OR ucast b) v (b # bs))"
    unfolding consumed_append [OF Suc.prems] foldl_Cons
    using Suc.IH consumed_fits by blast
  also have "\<dots> \<longleftrightarrow> (\<exists>bs. length bs = Suc n \<and> consumed r bs r' \<and>
      x = foldl (\<lambda>v b. push_bit 8 v OR ucast b) v bs)"
  proof -
    have eq: "(\<exists>bs. length bs = Suc n \<and> P bs) \<longleftrightarrow> (\<exists>b bs. length bs = n \<and> P (b # bs))"
      for P :: "bytes \<Rightarrow> bool" by (metis length_Suc_conv)
    show ?thesis unfolding eq by simp
  qed
  finally show ?case .
qed

lemma reader_be0_iff:
  "rd_fits r \<Longrightarrow> reader_be n 0 r = Inr (x, r') \<longleftrightarrow>
     (\<exists>bs. length bs = n \<and> consumed r bs r' \<and> x = be_word bs)"
  by (simp add: reader_be_iff be_word_def)

text \<open>The initial byte: major type in the top three bits, tag in the low five.\<close>

lemma mask5: "(31 :: u8) = mask 5"
  by (simp add: mask_eq_exp_minus_1)

lemma initial_byte_split: "b = push_bit 5 (drop_bit 5 b) OR (b AND 31)" for b :: u8
  by (rule bit_word_eqI) (auto simp: mask5 bit_simps)

lemma initial_byte_join:
  assumes "m < 8" and "t < 32"
  shows "drop_bit 5 (push_bit 5 m OR t) = (m :: u8)" and "(push_bit 5 m OR t) AND 31 = t"
proof -
  have m3: "unat m < 2 ^ 3" and t5: "unat t < 2 ^ 5"
    using assms by (simp_all add: word_less_nat_alt)
  have m: "bit m i \<Longrightarrow> i < 3" and t: "bit t i \<Longrightarrow> i < 5" for i
    using bit_less_exp [OF m3] bit_less_exp [OF t5] by blast+
  show "drop_bit 5 (push_bit 5 m OR t) = m"
    by (rule bit_word_eqI) (auto simp: bit_simps dest: m t)
  show "(push_bit 5 m OR t) AND 31 = t"
    by (rule bit_word_eqI) (auto simp: mask5 bit_simps dest: t)
qed

lemma and31_less: "(b :: u8) AND 31 < 32"
proof -
  have "b AND 31 \<le> 31" by (rule word_and_le1)
  then show ?thesis by (rule le_less_trans) simp
qed

lemma tag_width_Inr:
  "tag_width t = Inr (k, mn) \<longleftrightarrow>
     (t = 24 \<and> k = 1 \<and> mn = 24) \<or> (t = 25 \<and> k = 2 \<and> mn = 256) \<or>
     (t = 26 \<and> k = 4 \<and> mn = 65536) \<or> (t = 27 \<and> k = 8 \<and> mn = 4294967296)"
  by (auto simp: tag_width_def)

lemma reader_value_cases:
  assumes f: "rd_fits r" and m: "major < 8"
  shows "reader_value major r = Inr (n, r') \<longleftrightarrow>
    (\<exists>t. t < 24 \<and> n = ucast t \<and> consumed r [push_bit 5 major OR t] r') \<or>
    (\<exists>t k mn bs. tag_width t = Inr (k, mn) \<and> length bs = k \<and> n = be_word bs \<and> mn \<le> n \<and>
       consumed r ([push_bit 5 major OR t] @ bs) r')"
    (is "?L \<longleftrightarrow> ?S \<or> ?W")
proof
  assume ?L
  then obtain b r1 where b: "consumed r [b] r1" and mj: "drop_bit 5 b = major"
    and rest: "(let tag = b AND 31 in
         if tag < 24 then Inr (ucast tag, r1)
         else bindr (tag_width tag) (\<lambda>(n, minimum).
           bindr (reader_be n 0 r1) (\<lambda>(value, r).
             if value < minimum then Inl InvalidInput else Inr (value, r)))) = Inr (n, r')"
    by (auto simp: reader_value_def res_simps reader_byte_iff [OF f] simp del: not_less)
  have bt: "b = push_bit 5 major OR (b AND 31)"
    using initial_byte_split [of b] mj by simp
  show "?S \<or> ?W"
  proof (cases "b AND 31 < 24")
    case True
    then have "n = ucast (b AND 31)" and "r' = r1" using rest by (simp_all add: Let_def)
    then show ?thesis using True b bt by metis
  next
    case False
    then obtain k mn where w: "tag_width (b AND 31) = Inr (k, mn)" and v: "reader_be k 0 r1 = Inr (n, r')"
      and le: "mn \<le> n"
      using rest by (auto simp: Let_def res_simps)
    obtain bs where "length bs = k" "consumed r1 bs r'" "n = be_word bs"
      using v reader_be0_iff [OF consumed_fits [OF b]] by auto
    then show ?thesis using w le consumed_trans [OF b] bt by metis
  qed
next
  have step: "reader_value major r = (if t < 24 then Inr (ucast t, r1)
      else bindr (tag_width t) (\<lambda>(n, minimum).
           bindr (reader_be n 0 r1) (\<lambda>(value, r).
             if value < minimum then Inl InvalidInput else Inr (value, r))))"
    if "consumed r [push_bit 5 major OR t] r1" "t < 32" for t r1
  proof -
    have "reader_byte r = Inr (push_bit 5 major OR t, r1)"
      using that(1) reader_byte_iff [OF f] by blast
    then show ?thesis
      by (simp only: reader_value_def Let_def initial_byte_join [OF m that(2)] bindr_Inr prod.case
          if_False simp_thms)
  qed
  assume "?S \<or> ?W"
  then show ?L
  proof
    assume ?S
    then obtain t where t: "t < 24" "n = ucast t" "consumed r [push_bit 5 major OR t] r'" by blast
    from t(1) have "t < 32" by (rule less_trans) simp
    with t step show ?L by simp
  next
    assume ?W
    then obtain t k mn bs where w: "tag_width t = Inr (k, mn)" and bs: "length bs = k" "n = be_word bs"
      and le: "mn \<le> n" and c: "consumed r ([push_bit 5 major OR t] @ bs) r'" by blast
    obtain r1 where c1: "consumed r [push_bit 5 major OR t] r1" and c2: "consumed r1 bs r'"
      using consumed_split [OF f c] by blast
    have "t < 32" and "\<not> t < 24" using w by (auto simp: tag_width_Inr)
    then show ?L
      using step [OF c1] w le bs c2 reader_be0_iff [OF consumed_fits [OF c1], of k n r'] by auto
  qed
qed

lemma be_bytes_u8: "be_bytes (b :: u8) = [b]"
  by (simp add: be_bytes_def)

lemma head_bytes_wide:
  "23 < n \<Longrightarrow> n \<le> 255 \<Longrightarrow> head_bytes m n = [push_bit 5 m OR 24] @ be_bytes (ucast n :: u8)"
  "255 < n \<Longrightarrow> n \<le> 65535 \<Longrightarrow> head_bytes m n = [push_bit 5 m OR 25] @ be_bytes (ucast n :: u16)"
  "65535 < n \<Longrightarrow> n \<le> 4294967295 \<Longrightarrow> head_bytes m n = [push_bit 5 m OR 26] @ be_bytes (ucast n :: u32)"
  "4294967295 < n \<Longrightarrow> head_bytes m n = [push_bit 5 m OR 27] @ be_bytes n"
  unfolding head_bytes_def w_head_def Let_def be_bytes_u8 word_le_nat_alt word_less_nat_alt
  by simp_all

lemma reader_value_wideI:
  assumes f: "rd_fits r" and m: "major < 8" and c: "consumed r (head_bytes major n) r'"
    and h: "head_bytes major n = [push_bit 5 major OR t] @ be_bytes (ucast n :: 'b::len word)"
    and t: "tag_width t = Inr (LENGTH('b) div 8, mn)" and d: "8 dvd LENGTH('b)"
    and le: "mn \<le> n" and u: "ucast (ucast n :: 'b word) = n"
  shows "reader_value major r = Inr (n, r')"
proof -
  have "be_word (be_bytes (ucast n :: 'b word)) = n"
    using be_word_be_bytes_ucast [OF d, where 'a = 64] u by simp
  then show ?thesis
    using reader_value_cases [OF f m, of n r'] c h t le by auto
qed

text \<open>
  The head reader and the head writer agree: what is read is exactly what is written, in the
  shortest form, and nothing else is accepted.
\<close>

lemma reader_value_iff:
  assumes f: "rd_fits r" and m: "major < 8"
  shows "reader_value major r = Inr (n, r') \<longleftrightarrow> consumed r (head_bytes major n) r'"
proof
  assume "reader_value major r = Inr (n, r')"
  then consider (short) t where "t < 24" "n = ucast t" "consumed r [push_bit 5 major OR t] r'"
    | (wide) t k mn bs where "tag_width t = Inr (k, mn)" "length bs = k" "n = be_word bs" "mn \<le> n"
        "consumed r ([push_bit 5 major OR t] @ bs) r'"
    using reader_value_cases [OF f m] by blast
  then show "consumed r (head_bytes major n) r'"
  proof cases
    case short
    have "unat t < 2 ^ LENGTH(64)" by (rule less_trans [OF unat_byte_less]) simp
    then have "unat n < 24" using short(1,2) by (simp add: word_less_nat_alt unat_ucast_less)
    then have "n \<le> 23" by (simp add: word_le_nat_alt)
    moreover have "ucast n = t"
      using short(2) unat_byte_less [of t] by (auto intro!: ucast_ucast_less less_trans [OF unat_byte_less])
    ultimately show ?thesis using short(3) by (simp add: head_bytes_def w_head_def)
  next
    case wide
    have up: "unat n < 256 ^ k" if "k \<le> 8"
      using unat_be_word [of bs, where 'a = 64] be_nat_less [of bs] wide(2,3) that by simp
    from wide(1) have "head_bytes major n = [push_bit 5 major OR t] @ bs"
      unfolding tag_width_Inr
    proof (elim disjE conjE)
      assume t: "t = 24" "k = 1" "mn = 24"
      have "23 < n" "n \<le> 255" using up wide(4) t by (simp_all add: word_le_nat_alt word_less_nat_alt)
      then show ?thesis
        using head_bytes_wide(1) be_bytes_ucast_be_word [where 'a = 64 and 'b = 8, of bs] wide(2,3) t by simp
    next
      assume t: "t = 25" "k = 2" "mn = 256"
      have "255 < n" "n \<le> 65535" using up wide(4) t by (simp_all add: word_le_nat_alt word_less_nat_alt)
      then show ?thesis
        using head_bytes_wide(2) be_bytes_ucast_be_word [where 'a = 64 and 'b = 16, of bs] wide(2,3) t by simp
    next
      assume t: "t = 26" "k = 4" "mn = 65536"
      have "65535 < n" "n \<le> 4294967295"
        using up wide(4) t by (simp_all add: word_le_nat_alt word_less_nat_alt)
      then show ?thesis
        using head_bytes_wide(3) be_bytes_ucast_be_word [where 'a = 64 and 'b = 32, of bs] wide(2,3) t by simp
    next
      assume t: "t = 27" "k = 8" "mn = 4294967296"
      have "4294967295 < n" using wide(4) t by (simp add: word_le_nat_alt word_less_nat_alt)
      then show ?thesis
        using head_bytes_wide(4) be_bytes_be_word [where 'a = 64, of bs] wide(2,3) t by simp
    qed
    then show ?thesis using wide(5) by simp
  qed
next
  assume c: "consumed r (head_bytes major n) r'"
  consider "n \<le> 23" | "23 < n" "n \<le> 255" | "255 < n" "n \<le> 65535" | "65535 < n" "n \<le> 4294967295"
    | "4294967295 < n" by (metis not_le)
  then show "reader_value major r = Inr (n, r')"
  proof cases
    case 1
    then have n: "unat n < 24" by (simp add: word_le_nat_alt)
    then have "(ucast n :: u8) < 24" and "n = ucast (ucast n :: u8)"
      by (simp_all add: word_less_nat_alt unat_ucast_less ucast_ucast_less)
    moreover have "consumed r [push_bit 5 major OR ucast n] r'"
      using 1 c by (simp add: head_bytes_def w_head_def)
    ultimately show ?thesis using reader_value_cases [OF f m] by blast
  next
    case 2
    then show ?thesis
      by (intro reader_value_wideI [OF f m c, where 'b = 8 and t = 24 and mn = 24] head_bytes_wide(1) ucast_ucast_less)
        (simp_all add: tag_width_def word_le_nat_alt word_less_nat_alt)
  next
    case 3
    then show ?thesis
      by (intro reader_value_wideI [OF f m c, where 'b = 16 and t = 25 and mn = 256] head_bytes_wide(2) ucast_ucast_less)
        (simp_all add: tag_width_def word_le_nat_alt word_less_nat_alt)
  next
    case 4
    then show ?thesis
      by (intro reader_value_wideI [OF f m c, where 'b = 32 and t = 26 and mn = 65536] head_bytes_wide(3) ucast_ucast_less)
        (simp_all add: tag_width_def word_le_nat_alt word_less_nat_alt)
  next
    case 5
    then show ?thesis
      using head_bytes_wide(4) by (intro reader_value_wideI [OF f m c, where 'b = 64 and t = 27 and mn = 4294967296])
        (simp_all add: tag_width_def word_le_nat_alt word_less_nat_alt)
  qed
qed

section \<open>Interpretations\<close>

text \<open>The bound a reader gets is a \<open>usize\<close> cast to \<open>u64\<close>.\<close>

definition fits_limit :: "nat \<Rightarrow> bytes \<Rightarrow> bool" where
  "fits_limit limit b \<longleftrightarrow> length b < 2 ^ 64 \<and> length b \<le> unat (of_nat limit :: u64)"

lemma unat_of_nat64: "n < 2 ^ 64 \<Longrightarrow> unat (of_nat n :: u64) = n"
  by (simp add: unsigned_of_nat take_bit_nat_eq_self_iff)

lemma fits_limit_iff: "limit < 2 ^ 64 \<Longrightarrow> fits_limit limit b \<longleftrightarrow> length b \<le> limit"
  by (auto simp: fits_limit_def unat_of_nat64)

interpretation wuint: wire_reader uint_bytes "\<lambda>_. True" reader_uint
  by unfold_locales (simp add: reader_uint_def uint_bytes_def reader_value_iff)

interpretation warray: wire_reader "\<lambda>_. array_bytes n" "\<lambda>_. True" "reader_array n" for n
  by unfold_locales (auto simp: reader_array_def array_bytes_def res_simps reader_value_iff)

lemma reader_string_iff:
  assumes f: "rd_fits r" and m: "major < 8"
  shows "reader_string major limit r = Inr (b, r') \<longleftrightarrow>
    fits_limit limit b \<and> consumed r (head_bytes major (of_nat (length b)) @ b) r'"
proof
  assume "reader_string major limit r = Inr (b, r')"
  then obtain n r1 where v: "reader_value major r = Inr (n, r1)" and n: "n \<le> of_nat limit"
    and e: "rd_pos r1 + unat n \<le> length (rd_bytes r1)"
    and b: "b = take (unat n) (rd_rest r1)" and r': "r' = advance r1 (unat n)"
    by (auto simp: reader_string_def Let_def res_simps rd_rest_def advance_def split: if_splits)
  have c: "consumed r (head_bytes major n) r1" using v reader_value_iff [OF f m] by blast
  have f1: "rd_fits r1" using consumed_fits [OF c] .
  have len: "length b = unat n" using b e rd_rest_length [OF f1] by simp
  have "consumed r1 b r'"
    using consumedI [OF f1, of b "drop (unat n) (rd_rest r1)"] b len r' by simp
  moreover have "fits_limit limit b"
    using len n unsigned_less [of n] by (simp add: fits_limit_def word_le_nat_alt)
  ultimately show "fits_limit limit b \<and> consumed r (head_bytes major (of_nat (length b)) @ b) r'"
    using len consumed_trans [OF c] by simp
next
  assume a: "fits_limit limit b \<and> consumed r (head_bytes major (of_nat (length b)) @ b) r'"
  then obtain r1 where c: "consumed r (head_bytes major (of_nat (length b))) r1" and c1: "consumed r1 b r'"
    using consumed_split [OF f] by blast
  have v: "reader_value major r = Inr (of_nat (length b), r1)"
    using c reader_value_iff [OF f m] by blast
  have u: "unat (of_nat (length b) :: u64) = length b"
    using a by (simp add: fits_limit_def unat_of_nat64)
  have rest: "rd_rest r1 = b @ rd_rest r'" and r': "r' = advance r1 (length b)"
    using consumedD [OF c1] by blast+
  have "length (rd_rest r1) = length (rd_bytes r1) - rd_pos r1" and "rd_pos r1 \<le> length (rd_bytes r1)"
    and "length (rd_bytes r1) < 2 ^ 64"
    using rd_rest_length consumed_fits [OF c] by (auto simp: rd_fits_def)
  then have "rd_pos r1 + length b \<le> length (rd_bytes r1)" and "\<not> 2 ^ 64 \<le> rd_pos r1 + length b"
    using rest by (auto simp del: rd_rest_length)
  moreover have "take (length b) (drop (rd_pos r1) (rd_bytes r1)) = b"
    using rest by (simp add: rd_rest_def)
  moreover have "\<not> (of_nat (length b) :: u64) > of_nat limit"
    using a u by (simp add: fits_limit_def word_le_nat_alt not_less)
  ultimately show "reader_string major limit r = Inr (b, r')"
    using v u r' by (simp add: reader_string_def advance_def)
qed

interpretation wbytes: wire_reader blob_bytes "fits_limit limit" "reader_bytes limit" for limit
  by unfold_locales (simp add: reader_bytes_def blob_bytes_def reader_string_iff)

interpretation wtext: wire_reader text_bytes "\<lambda>b. fits_limit limit b \<and> utf8_valid b" "reader_text limit" for limit
  by unfold_locales (auto simp: reader_text_def text_bytes_def res_simps reader_string_iff split: if_splits)

lemma reader_count_iff:
  assumes f: "rd_fits r" and l: "limit < 2 ^ 64"
  shows "reader_count limit r = Inr (n, r') \<longleftrightarrow> n \<le> limit \<and> consumed r (array_bytes n) r'"
proof -
  have "reader_count limit r = Inr (n, r') \<longleftrightarrow>
     (\<exists>w. w \<le> of_nat limit \<and> n = unat w \<and> consumed r (head_bytes 4 w) r')"
    unfolding reader_count_def bindr_eq_Inr by (auto simp: reader_value_iff [OF f] not_less split: if_splits)
  also have "\<dots> \<longleftrightarrow> n \<le> limit \<and> consumed r (head_bytes 4 (of_nat n)) r'"
  proof
    assume "\<exists>w. w \<le> of_nat limit \<and> n = unat w \<and> consumed r (head_bytes 4 w) r'"
    then show "n \<le> limit \<and> consumed r (head_bytes 4 (of_nat n)) r'"
      using l by (auto simp: word_le_nat_alt unat_of_nat64)
  next
    assume a: "n \<le> limit \<and> consumed r (head_bytes 4 (of_nat n)) r'"
    then show "\<exists>w. w \<le> of_nat limit \<and> n = unat w \<and> consumed r (head_bytes 4 w) r'"
      using l by (intro exI [of _ "of_nat n"]) (simp add: word_le_nat_alt unat_of_nat64)
  qed
  finally show ?thesis by (simp add: array_bytes_def)
qed

definition fixed_bytes :: "'a::len word \<Rightarrow> bytes" where
  "fixed_bytes w = blob_bytes (be_bytes w)"

lemma reader_fixed_iff:
  assumes f: "rd_fits r" and d: "8 dvd LENGTH('a)" and l: "LENGTH('a) < 2 ^ 64"
  shows "reader_fixed r = Inr (w :: 'a::len word, r') \<longleftrightarrow> consumed r (fixed_bytes w) r'"
proof -
  have "reader_fixed r = Inr (w, r') \<longleftrightarrow>
    (\<exists>b. length b = LENGTH('a) div 8 \<and> w = be_word b \<and> fits_limit (LENGTH('a) div 8) b \<and>
       consumed r (blob_bytes b) r')"
    by (auto simp: reader_fixed_def res_simps wbytes.get_iff [OF f] split: if_splits)
  also have "\<dots> \<longleftrightarrow> consumed r (fixed_bytes w) r'"
  proof -
    have "fits_limit (LENGTH('a) div 8) b" if "length b = LENGTH('a) div 8" for b
      using that l by (subst fits_limit_iff) auto
    moreover have "be_bytes (be_word b :: 'a word) = b" if "length b = LENGTH('a) div 8" for b
      using that d by simp
    ultimately show ?thesis
      using d by (auto simp: fixed_bytes_def intro!: exI [of _ "be_bytes w"])
  qed
  finally show ?thesis .
qed

lemma reads_count: "limit < 2 ^ 64 \<Longrightarrow> reads (reader_count limit) (\<lambda>n w. n \<le> limit \<and> w = array_bytes n)"
  by (auto simp: reads_def reader_count_iff)

interpretation wcount: wire_reader array_bytes "\<lambda>n. n \<le> 65535" "reader_count 65535"
  by unfold_locales (simp add: reader_count_iff)

interpretation wfixed32: wire_reader "fixed_bytes :: arr32 \<Rightarrow> bytes" "\<lambda>_. True" reader_fixed
  by unfold_locales (simp add: reader_fixed_iff)

interpretation wfixed64: wire_reader "fixed_bytes :: arr64 \<Rightarrow> bytes" "\<lambda>_. True" reader_fixed
  by unfold_locales (simp add: reader_fixed_iff)

interpretation wfixed16: wire_reader "fixed_bytes :: arr16 \<Rightarrow> bytes" "\<lambda>_. True" reader_fixed
  by unfold_locales (simp add: reader_fixed_iff)

lemma reader_end_iff: "rd_fits r \<Longrightarrow> reader_end r = Inr u \<longleftrightarrow> rd_rest r = []"
  by (auto simp: reader_end_def rd_fits_def rd_rest_def)

text \<open>The start of a decoder: \<open>Reader::new\<close> on an input, and the whole input consumed.\<close>

lemma reader_new_iff:
  "reader_new bs limit = Inr r \<longleftrightarrow> length bs \<le> limit \<and> r = \<lparr>rd_bytes = bs, rd_pos = 0\<rparr>"
  by (auto simp: reader_new_def)

lemma reader_start [simp]:
  "rd_rest \<lparr>rd_bytes = bs, rd_pos = 0\<rparr> = bs"
  "rd_fits \<lparr>rd_bytes = bs, rd_pos = 0\<rparr> \<longleftrightarrow> length bs < 2 ^ 64"
  by (simp_all add: rd_rest_def rd_fits_def)

text \<open>A decoder that starts with \<open>Reader::new\<close>.\<close>

lemma decode_iff:
  assumes "parses q F" and "limit < 2 ^ 64"
  shows "bindr (reader_new bs limit) q = Inr y \<longleftrightarrow> length bs \<le> limit \<and> F y (\<lambda>t. bs = t)"
proof (cases "length bs \<le> limit")
  case True
  then have "rd_fits \<lparr>rd_bytes = bs, rd_pos = 0\<rparr>" using assms(2) by simp
  from parsesD [OF assms(1) this] show ?thesis using True by (simp add: reader_new_def)
next
  case False
  then show ?thesis by (simp add: reader_new_def)
qed

text \<open>Repeated reads, \<open>for _ in 0..count { v.push(r.read()?) }\<close>.\<close>

primrec reader_repeat ::
    "(reader \<Rightarrow> durable_error + 'a \<times> reader) \<Rightarrow> nat \<Rightarrow> reader \<Rightarrow> durable_error + 'a list \<times> reader" where
  "reader_repeat p 0 r = Inr ([], r)"
| "reader_repeat p (Suc n) r =
     bindr (p r) (\<lambda>(x, r). bindr (reader_repeat p n r) (\<lambda>(xs, r). Inr (x # xs, r)))"

lemma reads_repeat:
  assumes "reads p (\<lambda>x w. ok x \<and> w = put x)"
  shows "reads (reader_repeat p n) (\<lambda>xs w. length xs = n \<and> list_all ok xs \<and> w = concat (map put xs))"
proof (induction n)
  case 0
  show ?case by (auto simp: reads_def consumed_Nil)
next
  case (Suc n)
  have "reads (\<lambda>r. bindr (p r) (\<lambda>(x, r). bindr (reader_repeat p n r) (\<lambda>(xs, r). Inr (x # xs, r))))
    (\<lambda>xs w. length xs = Suc n \<and> list_all ok xs \<and> w = concat (map put xs))"
    by (rule reads_cong, rule reads_bind [OF assms reads_bind [OF Suc reads_return]])
      (auto simp: length_Suc_conv)
  then show ?case by simp
qed

text \<open>Conversions a decoder makes.\<close>

lemma reads_list:
  assumes "reads p (\<lambda>x w. ok x \<and> w = put x)"
  shows "reads (reader_repeat p n) (\<lambda>xs w. (length xs = n \<and> list_all ok xs) \<and> w = concat (map put xs))"
  by (rule reads_cong [OF reads_repeat [OF assms]]) simp

lemma byte_in_u64:
  "ucast (ucast (h :: u8) :: u64) = h" "unat (ucast h :: u64) = unat h"
proof -
  have "unat h < 2 ^ LENGTH(64)" by (rule order.strict_trans2 [OF unat_byte_less]) simp
  then show "unat (ucast h :: u64) = unat h" by (rule unat_ucast_less)
  show "ucast (ucast h :: u64) = h"
    by (rule ucast_ucast_less) (rule order.strict_trans2 [OF unat_byte_less], simp)
qed

lemma count_u64: "0 < n \<Longrightarrow> n < 2 ^ 64 \<Longrightarrow> (of_nat n :: u64) \<noteq> 0"
  by (metis less_numeral_extra(3) unat_0 unat_of_nat64)

lemmas reads_rules = reads_bind reads_if reads_return reads_pure
lemmas parses_rules = parses_bind parses_if parses_end parses_pure
lemmas field_reads = wuint.reads_get warray.reads_get wbytes.reads_get wtext.reads_get
  wfixed32.reads_get wfixed64.reads_get wfixed16.reads_get

lemma length_fixed32: "length (fixed_bytes (h :: arr32)) = 34"
  by (simp add: fixed_bytes_def blob_bytes_def head_bytes_def w_head_def)

end
