(* ===== verification/Mesh_Codec.thy ===== *)
theory Mesh_Codec
  imports Mesh_Canonical
begin

text \<open>
  What the crates promise of a message format, as two locales. \<open>record_codec\<close> is the contract
  of an encoder that checks its argument and a decoder: the decoder accepts exactly the
  encodings and returns the value they came from, so every accepted byte string is canonical.
  \<open>message_codec\<close> is the same for an encoder that cannot fail, with the set of valid values
  made explicit; it is a \<open>record_codec\<close> by a sublocale.

  Every format of the development is an interpretation of one of them, in the theory that
  models the format.
\<close>

locale record_codec =
  fixes enc :: "'a \<Rightarrow> 'e + bytes"
    and dec :: "bytes \<Rightarrow> 'f + 'a"
  assumes dec_iff: "dec bs = Inr x \<longleftrightarrow> enc x = Inr bs"
begin

lemma roundtrip: "enc x = Inr bs \<Longrightarrow> dec bs = Inr x"
  by (simp add: dec_iff)

lemma canonical: "dec bs = Inr x \<Longrightarrow> enc x = Inr bs"
  by (simp add: dec_iff)

lemma enc_injective: "enc x = Inr bs \<Longrightarrow> enc y = Inr bs \<Longrightarrow> x = y"
  by (metis dec_iff sum.inject(2))

lemma dec_injective: "dec bs = Inr x \<Longrightarrow> dec cs = Inr x \<Longrightarrow> bs = cs"
  by (metis dec_iff sum.inject(2))

lemma accepts_iff: "is_ok (dec bs) \<longleftrightarrow> (\<exists>x. enc x = Inr bs)"
  by (simp add: is_ok_iff dec_iff)

lemma rejected: "dec bs = Inl e \<Longrightarrow> enc x \<noteq> Inr bs"
  using dec_iff [of bs x] by simp

end

locale message_codec =
  fixes put :: "'a \<Rightarrow> bytes"
    and ok :: "'a \<Rightarrow> bool"
    and get :: "bytes \<Rightarrow> 'f + 'a"
  assumes get_iff: "get bs = Inr x \<longleftrightarrow> ok x \<and> bs = put x"
begin

lemma get_put: "ok x \<Longrightarrow> get (put x) = Inr x"
  by (simp add: get_iff)

lemma get_put_iff: "get (put x) = Inr x \<longleftrightarrow> ok x"
  by (simp add: get_iff)

lemma put_inj: "ok x \<Longrightarrow> ok y \<Longrightarrow> put x = put y \<longleftrightarrow> x = y"
  by (metis get_put sum.inject(2))

lemma get_ok: "get bs = Inr x \<Longrightarrow> ok x"
  by (simp add: get_iff)

end

sublocale message_codec \<subseteq> checked: record_codec "\<lambda>x. if ok x then Inr (put x) else Inl ()" get
  by unfold_locales (auto simp: get_iff)

end
