(* ===== verification/Mesh_Api.thy ===== *)
theory Mesh_Api
  imports Mesh_Codec
begin

text \<open>
  \<open>crates/mesh-codec/src/lib.rs\<close>: the bounded CBOR of the diagnostic API, with its own integer
  reader. A request is a three element array; the decoder accepts exactly the canonical
  encodings of the three commands. Responses are only written here (the hosts read them).
  The crate version and build id, which the compiler's environment supplies, are arguments.
\<close>

section \<open>Requests\<close>

text \<open>The loop \<open>value = (value << 8) | bytes.get(*pos)?; *pos += 1\<close>.\<close>

primrec read_uint_loop :: "nat \<Rightarrow> bytes \<Rightarrow> u64 \<Rightarrow> nat \<Rightarrow> api_error + u64 \<times> nat" where
  "read_uint_loop 0 bytes value pos = Inr (value, pos)"
| "read_uint_loop (Suc n) bytes value pos =
     (if pos < length bytes
      then read_uint_loop n bytes (push_bit 8 value OR ucast (bytes ! pos)) (pos + 1)
      else Inl InvalidArgument)"

definition read_uint :: "bytes \<Rightarrow> nat \<Rightarrow> api_error + u64 \<times> nat" where
  "read_uint bytes pos =
     (if pos < length bytes then
        let head = bytes ! pos; pos = pos + 1 in
        if head \<le> 23 then Inr (ucast head, pos)
        else
          bindr (if head = 24 then Inr (1, 24)
                 else if head = 25 then Inr (2, 256)
                 else if head = 26 then Inr (4, 65536)
                 else if head = 27 then Inr (8, 4294967296)
                 else Inl InvalidArgument) (\<lambda>(count, minimum).
          bindr (read_uint_loop count bytes 0 pos) (\<lambda>(value, pos).
            if value < minimum then Inl InvalidArgument else Inr (value, pos)))
      else Inl InvalidArgument)"

definition decode_request :: "bytes \<Rightarrow> api_error + command" where
  "decode_request bytes =
     (if length bytes > MAX_INPUT \<or> bytes = [] \<or> hd bytes \<noteq> 0x83 then Inl InvalidArgument
      else
        bindr (read_uint bytes 1) (\<lambda>(version, pos).
        bindr (read_uint bytes pos) (\<lambda>(method, pos).
        bindr (read_uint bytes pos) (\<lambda>(arg, pos).
          if pos \<noteq> length bytes \<or> arg > MAX_COUNTER then Inl InvalidArgument
          else if version \<noteq> API_VERSION then Inl IncompatibleVersion
          else if method = 0 \<and> arg = 0 then Inr EngineInfo
          else if method = 1 then Inr (Subscribe arg)
          else if method = 2 \<and> arg > 0 then Inr (VerifyBridge arg)
          else Inl InvalidArgument))))"

text \<open>The wire form of a command, and the arguments the API allows.\<close>

fun request_bytes :: "command \<Rightarrow> bytes" where
  "request_bytes EngineInfo = array_bytes 3 @ uint_bytes API_VERSION @ uint_bytes 0 @ uint_bytes 0"
| "request_bytes (Subscribe c) = array_bytes 3 @ uint_bytes API_VERSION @ uint_bytes 1 @ uint_bytes c"
| "request_bytes (VerifyBridge q) = array_bytes 3 @ uint_bytes API_VERSION @ uint_bytes 2 @ uint_bytes q"

fun request_ok :: "command \<Rightarrow> bool" where
  "request_ok EngineInfo = True"
| "request_ok (Subscribe c) = (c \<le> MAX_COUNTER)"
| "request_ok (VerifyBridge q) = (0 < q \<and> q \<le> MAX_COUNTER)"

text \<open>
  The two integer readers of the crate are the same reader: this one against
  \<open>canonical::Reader::uint\<close>, up to the error value.
\<close>

definition api_result :: "durable_error + u64 \<times> reader \<Rightarrow> api_error + u64 \<times> nat" where
  "api_result m = map_err (\<lambda>_. InvalidArgument) (bindr m (\<lambda>(v, r). Inr (v, rd_pos r)))"

lemma read_uint_loop_eq:
  "read_uint_loop n bs v p = api_result (reader_be n v \<lparr>rd_bytes = bs, rd_pos = p\<rparr>)"
  by (induction n arbitrary: v p) (simp_all add: api_result_def reader_byte_def)

lemma initial_byte_major0:
  "drop_bit 5 (b :: u8) = 0 \<longleftrightarrow> b < 32" "b < 32 \<Longrightarrow> b AND 31 = b"
proof -
  show "drop_bit 5 b = 0 \<longleftrightarrow> b < 32"
  proof -
    have "unat (drop_bit 5 b) = unat b div 2 ^ 5"
      unfolding unat_drop_bit_eq by (rule drop_bit_eq_div)
    then have "drop_bit 5 b = 0 \<longleftrightarrow> unat b div 2 ^ 5 = 0" by (metis unat_eq_zero)
    then show ?thesis by (simp only: word_less_nat_alt) (simp add: div_eq_0_iff)
  qed
  show "b AND 31 = b" if "b < 32"
    using initial_byte_join(2) [of 0 b] that by simp
qed

lemma read_uint_eq: "read_uint bs p = api_result (reader_uint \<lparr>rd_bytes = bs, rd_pos = p\<rparr>)"
proof (cases "p < length bs")
  case True
  let ?b = "bs ! p"
  let ?r = "\<lparr>rd_bytes = bs, rd_pos = p + 1\<rparr>"
  have byte: "reader_byte \<lparr>rd_bytes = bs, rd_pos = p\<rparr> = Inr (?b, ?r)"
    using True by (simp add: reader_byte_def)
  have lt: "?b \<le> 23 \<longleftrightarrow> ?b < 24" unfolding word_le_nat_alt word_less_nat_alt by simp linarith
  show ?thesis
  proof (cases "?b < 32")
    case small: True
    have "reader_uint \<lparr>rd_bytes = bs, rd_pos = p\<rparr> =
      (if ?b < 24 then Inr (ucast ?b, ?r)
       else bindr (tag_width ?b) (\<lambda>(n, minimum).
           bindr (reader_be n 0 ?r) (\<lambda>(value, r).
             if value < minimum then Inl InvalidInput else Inr (value, r))))"
      using small initial_byte_major0 [of ?b] byte by (simp add: reader_uint_def reader_value_def)
    then show ?thesis
      using True lt
      by (auto simp: read_uint_def read_uint_loop_eq api_result_def tag_width_def Let_def map_err_def
          bindr_def split: sum.splits)
  next
    case False
    then have "\<not> ?b \<le> 23" "?b \<noteq> 24" "?b \<noteq> 25" "?b \<noteq> 26" "?b \<noteq> 27"
      by (auto simp: word_le_nat_alt word_less_nat_alt)
    moreover have "reader_uint \<lparr>rd_bytes = bs, rd_pos = p\<rparr> = Inl InvalidInput"
      using False initial_byte_major0(1) [of ?b] byte by (simp add: reader_uint_def reader_value_def)
    ultimately show ?thesis using True by (simp add: read_uint_def api_result_def)
  qed
next
  case False
  then show ?thesis by (simp add: read_uint_def reader_uint_def reader_value_def reader_byte_def api_result_def)
qed

lemma api_result_Inr: "api_result m = Inr (v, p) \<longleftrightarrow> (\<exists>r. m = Inr (v, r) \<and> rd_pos r = p)"
  by (auto simp: api_result_def res_simps)

lemma api_bind_Inr:
  "bindr (api_result m) (\<lambda>(v, p). f v p) = Inr y \<longleftrightarrow> (\<exists>v r. m = Inr (v, r) \<and> f v (rd_pos r) = Inr y)"
  by (auto simp: bindr_eq_Inr api_result_Inr)

lemma rd_bytes_consumed: "consumed r w r' \<Longrightarrow> rd_bytes r' = rd_bytes r \<and> rd_pos r' = rd_pos r + length w"
  using consumedD(3) by (fastforce simp: advance_def)

text \<open>A run of integer reads, as the request decoder chains them.\<close>

lemma read_uint_Inr:
  assumes "p \<le> length bs" and "length bs < 2 ^ 64"
  shows "read_uint bs p = Inr (v, q) \<longleftrightarrow>
    q = p + length (uint_bytes v) \<and> (\<exists>s. drop p bs = uint_bytes v @ s)"
proof -
  let ?r = "\<lparr>rd_bytes = bs, rd_pos = p\<rparr>"
  have f: "rd_fits ?r" using assms by (simp add: rd_fits_def)
  have "read_uint bs p = Inr (v, q) \<longleftrightarrow> (\<exists>r'. consumed ?r (uint_bytes v) r' \<and> rd_pos r' = q)"
    by (simp add: read_uint_eq api_result_Inr wuint.get_iff [OF f])
  also have "\<dots> \<longleftrightarrow> q = p + length (uint_bytes v) \<and> (\<exists>s. drop p bs = uint_bytes v @ s)"
  proof
    assume "\<exists>r'. consumed ?r (uint_bytes v) r' \<and> rd_pos r' = q"
    then obtain r' where "consumed ?r (uint_bytes v) r'" "rd_pos r' = q" by blast
    then show "q = p + length (uint_bytes v) \<and> (\<exists>s. drop p bs = uint_bytes v @ s)"
      using rd_bytes_consumed [of ?r "uint_bytes v" r'] consumedD(2) [of ?r "uint_bytes v" r']
      by (auto simp: rd_rest_def)
  next
    assume "q = p + length (uint_bytes v) \<and> (\<exists>s. drop p bs = uint_bytes v @ s)"
    then obtain s where "q = p + length (uint_bytes v)" "rd_rest ?r = uint_bytes v @ s"
      by (auto simp: rd_rest_def)
    then show "\<exists>r'. consumed ?r (uint_bytes v) r' \<and> rd_pos r' = q"
      using consumedI [OF f, of "uint_bytes v" s] by (auto simp: advance_def)
  qed
  finally show ?thesis .
qed

lemma array_bytes_3: "array_bytes 3 = [0x83]"
  by (simp add: array_bytes_def head_bytes_def w_head_def)

lemma decode_request_iff: "decode_request bs = Inr c \<longleftrightarrow> request_ok c \<and> bs = request_bytes c"
proof
  assume d: "decode_request bs = Inr c"
  then have len: "length bs \<le> 64" and bs: "bs \<noteq> []" "hd bs = 0x83"
    by (auto simp: decode_request_def split: if_splits)
  then obtain s0 where bs0: "bs = 0x83 # s0" by (cases bs) auto
  obtain v p1 m p2 a where r1: "read_uint bs 1 = Inr (v, p1)" and r2: "read_uint bs p1 = Inr (m, p2)"
    and r3: "read_uint bs p2 = Inr (a, length bs)" and a: "\<not> a > MAX_COUNTER" and v: "v = 1"
    and c: "(if m = 0 \<and> a = 0 then Inr EngineInfo else if m = 1 then Inr (Subscribe a)
      else if m = 2 \<and> a > 0 then Inr (VerifyBridge a) else Inl InvalidArgument) = Inr c"
    using d len bs unfolding decode_request_def
    by (auto simp: bindr_eq_Inr split: if_splits)
  have f: "length bs < 2 ^ 64" using len by simp
  obtain s1 where p1: "p1 = 1 + length (uint_bytes v)" and s1: "drop 1 bs = uint_bytes v @ s1"
    using r1 read_uint_Inr [of 1 bs v p1] f bs(1) by (cases bs) auto
  have b1: "bs = 0x83 # uint_bytes v @ s1" using bs0 s1 by simp
  obtain s2 where p2: "p2 = p1 + length (uint_bytes m)" and s2: "s1 = uint_bytes m @ s2"
    using r2 read_uint_Inr [of p1 bs m p2] f b1 p1 by auto
  obtain s3 where p3: "length bs = p2 + length (uint_bytes a)" and s3: "s2 = uint_bytes a @ s3"
    using r3 read_uint_Inr [of p2 bs a "length bs"] f b1 p1 p2 s2 by auto
  have "s3 = []" using p1 p2 p3 b1 s2 s3 by simp
  then have "bs = array_bytes 3 @ uint_bytes 1 @ uint_bytes m @ uint_bytes a"
    using b1 s2 s3 v by (simp add: array_bytes_3)
  then show "request_ok c \<and> bs = request_bytes c"
    using c a by (auto split: if_splits)
next
  assume a: "request_ok c \<and> bs = request_bytes c"
  then obtain m q where bs: "bs = 0x83 # uint_bytes 1 @ uint_bytes m @ uint_bytes q" and q: "q \<le> MAX_COUNTER"
    and c: "(m = 0 \<and> q = 0 \<and> c = EngineInfo) \<or> (m = 1 \<and> c = Subscribe q) \<or>
      (m = 2 \<and> q > 0 \<and> c = VerifyBridge q)"
    by (cases c) (auto simp: array_bytes_3)
  have len: "length bs \<le> 28"
    using bs head_bytes_length(1) [of 0 1] head_bytes_length(1) [of 0 m] head_bytes_length(1) [of 0 q]
    by (simp add: uint_bytes_def)
  let ?p1 = "1 + length (uint_bytes 1)" let ?p2 = "?p1 + length (uint_bytes m)"
  have "read_uint bs 1 = Inr (1, ?p1)" "read_uint bs ?p1 = Inr (m, ?p2)"
    "read_uint bs ?p2 = Inr (q, length bs)"
    using len by (subst read_uint_Inr; simp add: bs)+
  then show "decode_request bs = Inr c"
    using len bs q c by (auto simp: decode_request_def)
qed

interpretation request: message_codec request_bytes request_ok decode_request
  by unfold_locales (rule decode_request_iff)

section \<open>Responses\<close>

definition encode_info :: "bytes \<Rightarrow> bytes \<Rightarrow> bytes" where
  "encode_info pkg_version build_id =
     (let out = [0x83, 1, 0, 0x85];
          out = w_text pkg_version out;
          out = w_uint (ucast ABI_VERSION) out;
          out = w_uint API_VERSION out;
          out = w_text (ascii ''F0'') out
      in w_text build_id out)"

definition encode_event :: "event \<Rightarrow> bytes \<Rightarrow> bytes" where
  "encode_event e out = w_uint 0 (w_uint (ev_request_id e) (w_uint (ev_sequence e) (out @ [0x83])))"

definition encode_snapshot :: "u64 \<Rightarrow> snapshot \<Rightarrow> bytes" where
  "encode_snapshot method s =
     (let out = [0x83, 1];
          out = w_uint method out;
          out = out @ [0x86];
          out = w_uint (runtime_id s) out;
          out = w_uint (sn_cursor s) out;
          out = w_uint (probe_count s) out;
          out = w_uint 0 out;
          out = out @ [if cursor_reset s then 0xf5 else 0xf4];
          out = w_head 4 (of_nat (length (sn_events s))) out
      in fold encode_event (sn_events s) out)"

definition event_bytes :: "event \<Rightarrow> bytes" where
  "event_bytes e = [0x83] @ uint_bytes (ev_sequence e) @ uint_bytes (ev_request_id e) @ uint_bytes 0"

lemma encode_event_append: "encode_event e out = out @ event_bytes e"
  by (simp add: encode_event_def event_bytes_def w_simps)

lemma fold_encode_event: "fold encode_event es out = out @ concat (map event_bytes es)"
  by (induction es arbitrary: out) (simp_all add: encode_event_append)

lemma uint_bytes_length: "length (uint_bytes n) \<le> 9"
  by (simp add: uint_bytes_def head_bytes_length)

lemma uint_bytes_small: "n \<le> 23 \<Longrightarrow> length (uint_bytes n) = 1"
  by (simp add: uint_bytes_def head_bytes_small)

lemma event_bytes_length: "length (event_bytes e) \<le> 20"
  using uint_bytes_length [of "ev_sequence e"] uint_bytes_length [of "ev_request_id e"]
    uint_bytes_small [of 0] by (simp add: event_bytes_def)

lemma encode_snapshot_length: "length (encode_snapshot m s) \<le> 60 + 20 * length (sn_events s)"
proof -
  have "length (concat (map event_bytes es)) \<le> 20 * length es" for es
    using event_bytes_length by (induction es) (auto simp: add_mono)
  then have "length (concat (map event_bytes (sn_events s))) \<le> 20 * length (sn_events s)" .
  then show ?thesis
    using uint_bytes_length [of m] uint_bytes_length [of "runtime_id s"] uint_bytes_length [of "sn_cursor s"]
      uint_bytes_length [of "probe_count s"] uint_bytes_small [of 0]
      head_bytes_length(1) [of 4 "of_nat (length (sn_events s))"]
    by (simp add: encode_snapshot_def Let_def w_simps w_head_append [of 4] fold_encode_event)
qed

end
