(* ===== verification/Mesh_Link.thy ===== *)
theory Mesh_Link
  imports Mesh_Codec
begin

text \<open>
  \<open>crates/mesh-link/src/lib.rs\<close>: the frame a native adapter moves, its byte envelope (version,
  16-bit length, payload) and the events of a transport port. A port itself is a trait that
  the native side implements; \<open>Mesh_Session_Link\<close> takes its two operations as arguments.
\<close>

definition WIRE_VERSION :: u8 where [simp]: "WIRE_VERSION = 1"
definition MAX_FRAME_BYTES :: nat where [simp]: "MAX_FRAME_BYTES = 4160"
definition HEADER_BYTES :: nat where [simp]: "HEADER_BYTES = 3"

datatype link_error = InvalidFrame | Unavailable | ResourcePressure_link

datatype frame = Frame (frame_bytes: bytes)

definition frame_new :: "bytes \<Rightarrow> link_error + frame" where
  "frame_new bytes =
     (if bytes = [] \<or> length bytes > MAX_FRAME_BYTES then Inl InvalidFrame
      else Inr (Frame bytes))"

definition frame_encode :: "frame \<Rightarrow> bytes" where
  "frame_encode f =
     [WIRE_VERSION] @ be_bytes (of_nat (length (frame_bytes f)) :: u16) @ frame_bytes f"

definition frame_decode :: "bytes \<Rightarrow> link_error + frame" where
  "frame_decode bytes =
     (if length bytes < HEADER_BYTES \<or> bytes ! 0 \<noteq> WIRE_VERSION then Inl InvalidFrame
      else
        let len = unat (be_word [bytes ! 1, bytes ! 2] :: u16) in
        if len = 0 \<or> len > MAX_FRAME_BYTES \<or> length bytes \<noteq> HEADER_BYTES + len
        then Inl InvalidFrame
        else frame_new (drop HEADER_BYTES bytes))"

datatype link_id = LinkId (link_no: u64)

datatype port_event = LinkUp link_id | FrameEvent link_id frame | LinkDown link_id

text \<open>The values \<open>Frame::new\<close> builds; the field is private, so every frame is one.\<close>

definition frame_ok :: "frame \<Rightarrow> bool" where
  "frame_ok f \<longleftrightarrow> frame_bytes f \<noteq> [] \<and> length (frame_bytes f) \<le> MAX_FRAME_BYTES"

lemma frame_new_Inr: "frame_new b = Inr f \<longleftrightarrow> frame_ok f \<and> b = frame_bytes f"
  by (cases f) (auto simp: frame_new_def frame_ok_def)

lemma frame_decode_iff: "frame_decode bs = Inr f \<longleftrightarrow> frame_ok f \<and> bs = frame_encode f"
proof
  assume d: "frame_decode bs = Inr f"
  let ?n = "unat (be_word [bs ! 1, bs ! 2] :: u16)"
  from d have len: "length bs = 3 + ?n" and v: "bs ! 0 = 1" and f: "frame_new (drop 3 bs) = Inr f"
    by (auto simp: frame_decode_def Let_def split: if_splits)
  then obtain b0 b1 b2 rest where bs: "bs = b0 # b1 # b2 # rest"
    by (cases bs; cases "tl bs"; cases "tl (tl bs)") auto
  have n: "of_nat (length rest) = (be_word [b1, b2] :: u16)"
    using len bs by simp
  have "be_bytes (be_word [b1, b2] :: u16) = [b1, b2]"
    by (rule be_bytes_be_word) simp
  then show "frame_ok f \<and> bs = frame_encode f"
    using f bs v n by (simp add: frame_new_Inr frame_encode_def)
next
  assume a: "frame_ok f \<and> bs = frame_encode f"
  let ?n = "length (frame_bytes f)"
  have n: "unat (of_nat ?n :: u16) = ?n"
    using a by (simp add: frame_ok_def unsigned_of_nat take_bit_nat_eq_self_iff)
  have two: "[be_bytes (w :: u16) ! 0, be_bytes w ! Suc 0] = be_bytes w" for w
    by (simp add: be_bytes_def upt_rec)
  show "frame_decode bs = Inr f"
    using a n two [of "of_nat ?n"]
    by (auto simp: frame_decode_def frame_encode_def frame_ok_def nth_append frame_new_Inr)
qed

interpretation frame: message_codec frame_encode frame_ok frame_decode
  by unfold_locales (rule frame_decode_iff)

lemma length_frame_encode: "length (frame_encode f) = 3 + length (frame_bytes f)"
  by (simp add: frame_encode_def)

end
