(* ===== verification/Mesh_Runtime.thy ===== *)
theory Mesh_Runtime
  imports Mesh_Api
begin

text \<open>
  \<open>crates/mesh-runtime/src/lib.rs\<close>: the diagnostic runtime with bounded event replay. The
  abstract specification is the whole history of accepted request ids (\<open>hist_step\<close>): the
  concrete state keeps a counter, the last id and the last 64 events, and \<open>runtime_of\<close> says
  which state stands for a history. \<open>verify_bridge\<close> and \<open>subscribe\<close> refine the history.
\<close>

section \<open>The runtime\<close>

record runtime =
  rt_id :: u64
  rt_sequence :: u64
  rt_last_request :: u64
  rt_events :: "event list"

definition runtime_new :: "u64 \<Rightarrow> runtime" where
  "runtime_new rid = \<lparr>rt_id = rid, rt_sequence = 0, rt_last_request = 0, rt_events = []\<rparr>"

definition subscribe :: "runtime \<Rightarrow> u64 \<Rightarrow> snapshot" where
  "subscribe rt cursor =
     (let oldest = (case rt_events rt of [] \<Rightarrow> rt_sequence rt + 1 | e # _ \<Rightarrow> ev_sequence e);
          reset = (cursor > rt_sequence rt \<or> saturating_add cursor 1 < oldest)
      in \<lparr>runtime_id = rt_id rt,
          sn_cursor = rt_sequence rt,
          probe_count = rt_sequence rt,
          cursor_reset = reset,
          sn_events = (if reset then [] else filter (\<lambda>e. ev_sequence e > cursor) (rt_events rt))\<rparr>)"

definition record_event :: "u64 \<Rightarrow> runtime \<Rightarrow> runtime" where
  "record_event request_id rt =
     (let rt = rt\<lparr>rt_sequence := rt_sequence rt + 1, rt_last_request := request_id\<rparr>;
          rt = (if length (rt_events rt) = MAX_EVENTS then rt\<lparr>rt_events := tl (rt_events rt)\<rparr> else rt)
      in rt\<lparr>rt_events := rt_events rt @
                [\<lparr>ev_sequence = rt_sequence rt, ev_request_id = request_id\<rparr>]\<rparr>)"

definition verify_bridge :: "u64 \<Rightarrow> runtime \<Rightarrow> (api_error + snapshot) \<times> runtime" where
  "verify_bridge request_id rt =
     (if request_id = 0 \<or> request_id > MAX_COUNTER then (Inl InvalidArgument, rt)
      else
        let old_cursor = rt_sequence rt in
        if request_id \<le> rt_last_request rt then
          (if \<exists>e \<in> set (rt_events rt). ev_request_id e = request_id
           then (Inr (subscribe rt old_cursor), rt)
           else (Inl StaleRequest, rt))
        else if rt_sequence rt = MAX_COUNTER then (Inl ResourcePressure_api, rt)
        else
          let rt = record_event request_id rt
          in (Inr (subscribe rt old_cursor), rt))"

section \<open>The history it stands for\<close>

definition last_id :: "u64 list \<Rightarrow> u64" where
  "last_id h = (if h = [] then 0 else last h)"

text \<open>A request is recorded when its id is in range and above every earlier one.\<close>

definition hist_step :: "u64 list \<Rightarrow> u64 \<Rightarrow> u64 list" where
  "hist_step h q = (if q \<noteq> 0 \<and> q \<le> MAX_COUNTER \<and> last_id h < q then h @ [q] else h)"

definition hist_ok :: "u64 list \<Rightarrow> bool" where
  "hist_ok h \<longleftrightarrow> sorted_wrt (<) (0 # h) \<and> (\<forall>q \<in> set h. q \<le> MAX_COUNTER)"

definition hist_events :: "u64 list \<Rightarrow> event list" where
  "hist_events h = map (\<lambda>i. \<lparr>ev_sequence = of_nat (Suc i), ev_request_id = h ! i\<rparr>) [0..<length h]"

definition runtime_of :: "u64 \<Rightarrow> u64 list \<Rightarrow> runtime" where
  "runtime_of rid h =
     \<lparr>rt_id = rid, rt_sequence = of_nat (length h), rt_last_request = last_id h,
      rt_events = drop (length h - MAX_EVENTS) (hist_events h)\<rparr>"

text \<open>What a subscriber at \<open>cursor\<close> is told, in terms of the history.\<close>

definition hist_snapshot :: "u64 \<Rightarrow> u64 list \<Rightarrow> u64 \<Rightarrow> snapshot" where
  "hist_snapshot rid h cursor =
     (let n = length h; c = unat cursor; reset = (n < c \<or> c + MAX_EVENTS < n)
      in \<lparr>runtime_id = rid, sn_cursor = of_nat n, probe_count = of_nat n, cursor_reset = reset,
          sn_events = (if reset then [] else drop c (hist_events h))\<rparr>)"

lemma length_hist_events [simp]: "length (hist_events h) = length h"
  by (simp add: hist_events_def)

lemma hist_events_nth:
  "i < length h \<Longrightarrow> hist_events h ! i = \<lparr>ev_sequence = of_nat (Suc i), ev_request_id = h ! i\<rparr>"
  by (simp add: hist_events_def)

lemma hist_events_snoc:
  "hist_events (h @ [q]) = hist_events h @ [\<lparr>ev_sequence = of_nat (Suc (length h)), ev_request_id = q\<rparr>]"
  by (simp add: hist_events_def nth_append)

lemma hist_ok_Nil [simp]: "hist_ok []"
  by (simp add: hist_ok_def)

lemma hist_ok_last: "hist_ok h \<Longrightarrow> q \<in> set h \<Longrightarrow> q \<le> last_id h"
proof (induction h rule: rev_induct)
  case (snoc x xs)
  then show ?case by (auto simp: hist_ok_def last_id_def sorted_wrt_append less_imp_le)
qed simp

lemma hist_ok_last_le: "hist_ok h \<Longrightarrow> last_id h \<le> MAX_COUNTER"
  by (auto simp: hist_ok_def last_id_def)

lemma hist_ok_step: "hist_ok h \<Longrightarrow> hist_ok (hist_step h q)"
proof (cases "q \<noteq> 0 \<and> q \<le> MAX_COUNTER \<and> last_id h < q")
  case True
  assume h: "hist_ok h"
  have "\<forall>x \<in> set h. x < q" using hist_ok_last [OF h] True by (metis le_less_trans)
  then show ?thesis
    using True h by (auto simp: hist_step_def hist_ok_def sorted_wrt_append word_neq_0_conv)
qed (auto simp: hist_step_def)

lemma sorted_length_le:
  "sorted_wrt (<) (0 # h) \<Longrightarrow> length h \<le> unat (last_id h)"
proof (induction h rule: rev_induct)
  case Nil
  then show ?case by (simp add: last_id_def)
next
  case (snoc x xs)
  then have IH: "length xs \<le> unat (last_id xs)" by (simp add: sorted_wrt_append)
  have "last_id xs < x"
    using snoc.prems by (cases "xs = []") (auto simp: last_id_def sorted_wrt_append)
  then have "unat (last_id xs) < unat x" by (simp add: word_less_nat_alt)
  with IH show ?case by (simp add: last_id_def)
qed

lemma hist_ok_length: "hist_ok h \<Longrightarrow> length h \<le> 2 ^ 53 - 1"
proof -
  assume h: "hist_ok h"
  have "length h \<le> unat (last_id h)" using h sorted_length_le by (simp add: hist_ok_def)
  also have "\<dots> \<le> unat MAX_COUNTER" using hist_ok_last_le [OF h] by (simp add: word_le_nat_alt)
  finally show ?thesis by (simp add: unat_MAX_COUNTER)
qed

lemma hist_ok_unat: "hist_ok h \<Longrightarrow> i \<le> Suc (length h) \<Longrightarrow> unat (of_nat i :: u64) = i"
  by (rule unat_of_nat64) (drule hist_ok_length, simp)

lemma runtime_new_of: "runtime_new rid = runtime_of rid []"
  by (simp add: runtime_new_def runtime_of_def last_id_def hist_events_def)

section \<open>Refinement\<close>

lemma filter_hist_events:
  assumes h: "hist_ok h" and k: "k \<le> unat c" and c: "unat c \<le> length h"
  shows "filter (\<lambda>e. ev_sequence e > c) (drop k (hist_events h)) = drop (unat c) (hist_events h)"
proof -
  let ?E = "hist_events h"
  have seq: "unat (ev_sequence (?E ! i)) = Suc i" if "i < length h" for i
    using that hist_ok_unat [OF h, of "Suc i"] by (simp add: hist_events_nth)
  have "filter (\<lambda>e. ev_sequence e > c) (take (unat c - k) (drop k ?E)) = []"
    using k c seq by (auto simp: filter_empty_conv in_set_conv_nth word_less_nat_alt)
  moreover have "filter (\<lambda>e. ev_sequence e > c) (drop (unat c) ?E) = drop (unat c) ?E"
    using seq by (auto simp: filter_id_conv in_set_conv_nth word_less_nat_alt)
  moreover have "drop k ?E = take (unat c - k) (drop k ?E) @ drop (unat c) ?E"
    using k append_take_drop_id [of "unat c - k" "drop k ?E"] by simp
  ultimately show ?thesis by (metis append_Nil filter_append)
qed

lemma subscribe_refines:
  assumes h: "hist_ok h"
  shows "subscribe (runtime_of rid h) c = hist_snapshot rid h c"
proof -
  let ?n = "length h" and ?k = "length h - MAX_EVENTS"
  have n: "unat (of_nat ?n :: u64) = ?n" using hist_ok_unat [OF h] by simp
  have n1: "unat (of_nat ?n + 1 :: u64) = Suc ?n"
    using hist_ok_unat [OF h, of "Suc ?n"] by (simp add: add.commute)
  have len: "?n \<le> 2 ^ 53 - 1" using hist_ok_length [OF h] .
  have oldest: "unat (case rt_events (runtime_of rid h) of [] \<Rightarrow> rt_sequence (runtime_of rid h) + 1
      | e # _ \<Rightarrow> ev_sequence e) = Suc ?k"
  proof (cases "h = []")
    case True
    then show ?thesis by (simp add: runtime_of_def hist_events_def)
  next
    case False
    then have k: "?k < ?n" by simp
    then have "drop ?k (hist_events h) = hist_events h ! ?k # drop (Suc ?k) (hist_events h)"
      by (simp add: Cons_nth_drop_Suc)
    then show ?thesis
      using k hist_ok_unat [OF h, of "Suc ?k"] by (simp add: runtime_of_def hist_events_nth)
  qed
  have sat: "unat (saturating_add c 1) = min (unat c + 1) (2 ^ 64 - 1)"
    using unat_saturating_add [of c 1] by simp
  have reset: "c > rt_sequence (runtime_of rid h) \<or> saturating_add c 1 < (case rt_events (runtime_of rid h) of
      [] \<Rightarrow> rt_sequence (runtime_of rid h) + 1 | e # _ \<Rightarrow> ev_sequence e)
    \<longleftrightarrow> ?n < unat c \<or> unat c + MAX_EVENTS < ?n"
    using len n unfolding word_less_nat_alt oldest sat by (auto simp: runtime_of_def)
  have "filter (\<lambda>e. ev_sequence e > c) (drop ?k (hist_events h)) = drop (unat c) (hist_events h)"
    if "\<not> (?n < unat c \<or> unat c + MAX_EVENTS < ?n)"
    using that by (intro filter_hist_events [OF h]) auto
  then show ?thesis
    unfolding subscribe_def hist_snapshot_def Let_def reset by (auto simp: runtime_of_def)
qed

text \<open>
  \<open>verify_bridge\<close> on the state of a history: it answers from the history, and leaves the state
  of the extended history. The answer to a new id replays exactly that one event.
\<close>

definition hist_answer :: "u64 \<Rightarrow> u64 list \<Rightarrow> u64 \<Rightarrow> api_error + snapshot" where
  "hist_answer rid h q =
     (if q = 0 \<or> q > MAX_COUNTER then Inl InvalidArgument
      else if last_id h < q then Inr (hist_snapshot rid (h @ [q]) (of_nat (length h)))
      else if q \<in> set (drop (length h - MAX_EVENTS) h) then Inr (hist_snapshot rid h (of_nat (length h)))
      else Inl StaleRequest)"

lemma hist_events_ids: "ev_request_id ` set (drop k (hist_events h)) = set (drop k h)"
proof -
  have "map ev_request_id (hist_events h) = h"
    by (rule nth_equalityI) (simp_all add: hist_events_def)
  then have "map ev_request_id (drop k (hist_events h)) = drop k h" by (metis drop_map)
  then show ?thesis by (metis set_map)
qed

lemma window_snoc:
  fixes E :: "'a list"
  assumes "0 < m"
  shows "(let W = drop (length E - m) E in (if length W = m then tl W else W) @ [e])
       = drop (Suc (length E) - m) (E @ [e])"
  using assms by (auto simp: Let_def drop_Suc tl_drop Suc_diff_le)

lemma record_event_of: "record_event q (runtime_of rid h) = runtime_of rid (h @ [q])"
  using window_snoc [of MAX_EVENTS "hist_events h"
      "\<lparr>ev_sequence = of_nat (Suc (length h)), ev_request_id = q\<rparr>"]
  by (auto simp: record_event_def runtime_of_def last_id_def hist_events_snoc Let_def add.commute)

lemma verify_bridge_refines:
  assumes h: "hist_ok h"
  shows "verify_bridge q (runtime_of rid h) = (hist_answer rid h q, runtime_of rid (hist_step h q))"
proof (cases "q = 0 \<or> q > MAX_COUNTER")
  case True
  then show ?thesis by (auto simp: verify_bridge_def hist_answer_def hist_step_def)
next
  case range: False
  show ?thesis
  proof (cases "last_id h < q")
    case False
    have "(\<exists>e \<in> set (drop (length h - MAX_EVENTS) (hist_events h)). ev_request_id e = q)
      \<longleftrightarrow> q \<in> set (drop (length h - MAX_EVENTS) h)"
      unfolding hist_events_ids [symmetric] by blast
    then show ?thesis
      using range False subscribe_refines [OF h]
      by (auto simp: verify_bridge_def hist_answer_def hist_step_def Let_def runtime_of_def)
  next
    case True
    let ?h = "h @ [q]"
    have step: "hist_step h q = ?h" using range True by (simp add: hist_step_def not_less)
    then have h': "hist_ok ?h" using hist_ok_step [OF h, of q] by simp
    have "length ?h \<le> 2 ^ 53 - 1" using hist_ok_length [OF h'] .
    then have full: "of_nat (length h) \<noteq> MAX_COUNTER"
      using hist_ok_unat [OF h, of "length h"] unat_MAX_COUNTER by auto
    show ?thesis
      using range True full step subscribe_refines [OF h']
      by (auto simp: verify_bridge_def hist_answer_def record_event_of Let_def)
        (simp_all add: runtime_of_def)
  qed
qed

text \<open>Runs from a new runtime.\<close>

definition runtime_run :: "u64 \<Rightarrow> u64 list \<Rightarrow> runtime" where
  "runtime_run rid qs = foldl (\<lambda>rt q. snd (verify_bridge q rt)) (runtime_new rid) qs"

definition accepted_ids :: "u64 list \<Rightarrow> u64 list" where
  "accepted_ids qs = foldl hist_step [] qs"

lemma accepted_ids_ok: "hist_ok (accepted_ids qs)"
proof -
  have "hist_ok h \<Longrightarrow> hist_ok (foldl hist_step h qs)" for h
    by (induction qs arbitrary: h) (simp_all add: hist_ok_step)
  then show ?thesis by (simp add: accepted_ids_def)
qed

lemma runtime_run_of: "runtime_run rid qs = runtime_of rid (accepted_ids qs)"
proof -
  have "hist_ok h \<Longrightarrow> foldl (\<lambda>rt q. snd (verify_bridge q rt)) (runtime_of rid h) qs
      = runtime_of rid (foldl hist_step h qs)" for h
    by (induction qs arbitrary: h) (simp_all add: verify_bridge_refines hist_ok_step)
  then show ?thesis by (simp add: runtime_run_def accepted_ids_def runtime_new_of)
qed

lemma runtime_of_events: "length (rt_events (runtime_of rid h)) \<le> MAX_EVENTS"
  by (simp add: runtime_of_def)

text \<open>
  C36: after any sequence of \<open>verify_bridge\<close> calls, a subscriber at any cursor is given exactly
  the events recorded after its cursor, in order and numbered without a gap, or a reset when
  the cursor lies in the future or has fallen out of the 64 event window; no arithmetic wraps.
\<close>

theorem subscribe_exact_replay:
  "subscribe (runtime_run rid qs) c = hist_snapshot rid (accepted_ids qs) c"
  by (simp add: runtime_run_of subscribe_refines accepted_ids_ok)

text \<open>
  \<open>verify_bridge\<close> refines the history on every branch: an out of range id is an invalid
  argument, a new id is recorded and its own event is returned, a repeated id still in the
  window is answered without recording it again, an older one is stale; the resource pressure
  branch is never reached.
\<close>

theorem verify_bridge_idempotent:
  "verify_bridge q (runtime_run rid qs) =
     (hist_answer rid (accepted_ids qs) q, runtime_run rid (qs @ [q]))"
  by (simp add: runtime_run_of verify_bridge_refines accepted_ids_ok) (simp add: accepted_ids_def)

end
