(* ===== verification/Mesh_Handles.thy ===== *)
theory Mesh_Handles
  imports Mesh_Prelude
begin

text \<open>
  The contract of a component that issues numbered references to its host and answers to
  them later: the runtime registry (\<open>crates/mesh-ffi-c/src/lib.rs\<close>) and the effect tokens of
  the durable sender and receiver (\<open>crates/mesh-runtime/src\<close>). References are issued in
  increasing order, and one that is not live any more never becomes live again.
\<close>

section \<open>Handle tables\<close>

locale handle_table =
  fixes next_of :: "'s \<Rightarrow> u64"
    and live :: "'s \<Rightarrow> u64 set"
    and step :: "'c \<Rightarrow> 's \<Rightarrow> 'r \<times> 's"
    and issued :: "'r \<Rightarrow> u64 option"
    and inv :: "'s \<Rightarrow> bool"
  assumes inv_step: "inv s \<Longrightarrow> inv (snd (step c s))"
    and live_below: "inv s \<Longrightarrow> h \<in> live s \<Longrightarrow> h < next_of s"
    and next_mono: "inv s \<Longrightarrow> next_of s \<le> next_of (snd (step c s))"
    and issue: "inv s \<Longrightarrow> issued (fst (step c s)) = Some h \<Longrightarrow>
      h = next_of s \<and> next_of s < next_of (snd (step c s))"
    and live_step: "inv s \<Longrightarrow> live (snd (step c s)) \<subseteq> live s \<union> set_option (issued (fst (step c s)))"
begin

primrec run :: "'c list \<Rightarrow> 's \<Rightarrow> 'r list \<times> 's" where
  "run [] s = ([], s)"
| "run (c # cs) s = (let (r, s) = step c s; (rs, s) = run cs s in (r # rs, s))"

definition handles :: "'r list \<Rightarrow> u64 list" where
  "handles rs = List.map_filter issued rs"

lemma run_append: "snd (run (cs @ ds) s) = snd (run ds (snd (run cs s)))"
  by (induction cs arbitrary: s) (simp_all add: split_def Let_def)

lemma inv_run: "inv s \<Longrightarrow> inv (snd (run cs s))"
proof (induction cs arbitrary: s)
  case (Cons c cs)
  then have "inv (snd (run cs (snd (step c s))))" by (intro Cons.IH inv_step)
  then show ?case by (simp add: split_def Let_def)
qed simp

lemma next_run: "inv s \<Longrightarrow> next_of s \<le> next_of (snd (run cs s))"
proof (induction cs arbitrary: s)
  case (Cons c cs)
  have "next_of s \<le> next_of (snd (step c s))" by (rule next_mono [OF Cons.prems])
  also have "\<dots> \<le> next_of (snd (run cs (snd (step c s))))"
    by (rule Cons.IH [OF inv_step [OF Cons.prems]])
  finally show ?case by (simp add: split_def Let_def)
qed simp

lemma handles_ascending:
  "inv s \<Longrightarrow> sorted_wrt (<) (handles (fst (run cs s))) \<and> (\<forall>h \<in> set (handles (fst (run cs s))). next_of s \<le> h)"
proof (induction cs arbitrary: s)
  case Nil
  show ?case by (simp add: handles_def)
next
  case (Cons c cs)
  let ?s = "snd (step c s)"
  have IH: "sorted_wrt (<) (handles (fst (run cs ?s)))" "\<forall>h \<in> set (handles (fst (run cs ?s))). next_of ?s \<le> h"
    using Cons.IH [OF inv_step [OF Cons.prems]] by blast+
  have m: "next_of s \<le> next_of ?s" by (rule next_mono [OF Cons.prems])
  show ?case
  proof (cases "issued (fst (step c s))")
    case None
    then show ?thesis
      using IH m by (auto simp: handles_def split_def Let_def intro: order_trans)
  next
    case (Some h)
    then have h: "h = next_of s" "next_of s < next_of ?s" using issue [OF Cons.prems] by blast+
    have "\<forall>k \<in> set (handles (fst (run cs ?s))). h < k"
      using IH(2) h by (auto intro: less_le_trans)
    then show ?thesis
      using IH m h Some by (auto simp: handles_def split_def Let_def intro: less_imp_le)
  qed
qed

text \<open>A handle below the counter that is not live stays dead.\<close>

lemma dead_stays_dead:
  "inv s \<Longrightarrow> h < next_of s \<Longrightarrow> h \<notin> live s \<Longrightarrow> h \<notin> live (snd (run cs s))"
proof (induction cs arbitrary: s)
  case (Cons c cs)
  have "h \<notin> live (snd (step c s))"
    using live_step [OF Cons.prems(1), of c] issue [OF Cons.prems(1), of c] Cons.prems(2,3)
    by (cases "issued (fst (step c s))") auto
  moreover have "h < next_of (snd (step c s))"
    using next_mono [OF Cons.prems(1), of c] Cons.prems(2) by (rule order.strict_trans2 [rotated])
  ultimately have "h \<notin> live (snd (run cs (snd (step c s))))"
    by (intro Cons.IH inv_step Cons.prems)
  then show ?case by (simp add: split_def Let_def)
qed simp

end

end
