(* ===== verification/Mesh_Registry.thy ===== *)
theory Mesh_Registry
  imports Mesh_Runtime Mesh_Handles
begin

text \<open>
  The runtime registry of \<open>crates/mesh-ffi-c/src/lib.rs\<close> (\<open>Registry\<close>, \<open>create\<close>, \<open>request\<close>,
  \<open>release\<close>): handles to runtimes, shared by the C and JNI entry points. The registry is
  behind a mutex and every operation is one critical section, so a concurrent execution is a
  sequence of these operations; lock poisoning and \<open>catch_unwind\<close> are not modelled, since no
  operation here panics. The registry is a \<open>handle_table\<close>.
\<close>

section \<open>The runtime registry\<close>

record registry =
  rg_next :: u64
  rg_runtimes :: "(u64, runtime) bmap"

definition registry_new :: registry where
  "registry_new = \<lparr>rg_next = 1, rg_runtimes = []\<rparr>"

definition create :: "u32 \<Rightarrow> registry \<Rightarrow> (api_error + u64) \<times> registry" where
  "create version g =
     (if version \<noteq> ABI_VERSION then (Inl IncompatibleVersion, g)
      else if length (rg_runtimes g) \<ge> MAX_RUNTIMES \<or> rg_next g \<ge> MAX_COUNTER
      then (Inl ResourcePressure_api, g)
      else
        let rid = rg_next g in
        (Inr rid, g\<lparr>rg_next := rid + 1, rg_runtimes := bm_insert rid (runtime_new rid) (rg_runtimes g)\<rparr>))"

definition request :: "bytes \<Rightarrow> bytes \<Rightarrow> u64 \<Rightarrow> bytes \<Rightarrow> registry \<Rightarrow> (api_error + bytes) \<times> registry" where
  "request pkg_version build_id handle bytes g =
     (case decode_request bytes of
        Inl e \<Rightarrow> (Inl e, g)
      | Inr command \<Rightarrow>
          (case bm_get (rg_runtimes g) handle of
             None \<Rightarrow> (Inl InvalidHandle, g)
           | Some rt \<Rightarrow>
               let (output, rt) =
                 (case command of
                    EngineInfo \<Rightarrow> (Inr (encode_info pkg_version build_id), rt)
                  | Subscribe cursor \<Rightarrow> (Inr (encode_snapshot 1 (subscribe rt cursor)), rt)
                  | VerifyBridge request_id \<Rightarrow>
                      (case verify_bridge request_id rt of
                         (Inl e, rt) \<Rightarrow> (Inl e, rt)
                       | (Inr snap, rt) \<Rightarrow> (Inr (encode_snapshot 2 snap), rt)));
                   g = g\<lparr>rg_runtimes := bm_insert handle rt (rg_runtimes g)\<rparr>
               in (bindr output (\<lambda>output.
                     if length output > MAX_OUTPUT then Inl ResourcePressure_api else Inr output), g)))"

definition release :: "u64 \<Rightarrow> registry \<Rightarrow> (api_error + unit) \<times> registry" where
  "release handle g = (Inr (), g\<lparr>rg_runtimes := bm_remove handle (rg_runtimes g)\<rparr>)"

text \<open>One call through the boundary, and its result.\<close>

datatype host_call = Create u32 | Request u64 bytes | Release u64

datatype host_result =
    Handle "api_error + u64"
  | Output "api_error + bytes"
  | Done "api_error + unit"

fun host_step :: "bytes \<Rightarrow> bytes \<Rightarrow> host_call \<Rightarrow> registry \<Rightarrow> host_result \<times> registry" where
  "host_step pv bi (Create v) g = map_prod Handle (\<lambda>x. x) (create v g)"
| "host_step pv bi (Request h b) g = map_prod Output (\<lambda>x. x) (request pv bi h b g)"
| "host_step pv bi (Release h) g = map_prod Done (\<lambda>x. x) (release h g)"

fun issued_handle :: "host_result \<Rightarrow> u64 option" where
  "issued_handle (Handle (Inr h)) = Some h"
| "issued_handle _ = None"

text \<open>
  The invariant: handles are keys below the counter, at most 16 runtimes, and the runtime at
  a handle is the state of some history of its own.
\<close>

definition registry_inv :: "registry \<Rightarrow> bool" where
  "registry_inv g \<longleftrightarrow> bm_wf (rg_runtimes g) \<and> 0 < rg_next g \<and> rg_next g \<le> MAX_COUNTER \<and>
     length (rg_runtimes g) \<le> MAX_RUNTIMES \<and>
     (\<forall>h rt. bm_get (rg_runtimes g) h = Some rt \<longrightarrow>
        h < rg_next g \<and> (\<exists>hist. hist_ok hist \<and> rt = runtime_of h hist))"

lemma registry_inv_new: "registry_inv registry_new"
  by (simp add: registry_inv_def registry_new_def MAX_COUNTER_val)

lemma request_registry:
  "snd (request pv bi h b g) = g \<or>
   (\<exists>rt q. bm_get (rg_runtimes g) h = Some rt \<and>
      (snd (request pv bi h b g) = g\<lparr>rg_runtimes := bm_insert h rt (rg_runtimes g)\<rparr> \<or>
       snd (request pv bi h b g) =
         g\<lparr>rg_runtimes := bm_insert h (snd (verify_bridge q rt)) (rg_runtimes g)\<rparr>))"
proof (cases "decode_request b")
  case (Inr c)
  show ?thesis
  proof (cases "bm_get (rg_runtimes g) h")
    case (Some rt)
    show ?thesis
    proof (cases c)
      case (VerifyBridge q)
      obtain a rt' where vb: "verify_bridge q rt = (a, rt')" by fastforce
      then have "rt' = snd (verify_bridge q rt)" by simp
      moreover have "snd (request pv bi h b g) = g\<lparr>rg_runtimes := bm_insert h rt' (rg_runtimes g)\<rparr>"
        using Inr Some VerifyBridge vb by (cases a) (simp_all add: request_def)
      ultimately show ?thesis using Some by blast
    qed (use Inr Some in \<open>simp_all add: request_def\<close>)
  qed (use Inr in \<open>simp add: request_def\<close>)
qed (simp add: request_def)

lemma registry_inv_insert:
  assumes "registry_inv g" and "bm_get (rg_runtimes g) h = Some rt"
    and "\<exists>hist. hist_ok hist \<and> rt' = runtime_of h hist"
  shows "registry_inv (g\<lparr>rg_runtimes := bm_insert h rt' (rg_runtimes g)\<rparr>)"
  using assms by (auto simp: registry_inv_def bm.wf_insert bm.get_insert bm.size_insert)

lemma registry_inv_step: "registry_inv g \<Longrightarrow> registry_inv (snd (host_step pv bi c g))"
proof (cases c)
  case (Create v)
  assume g: "registry_inv g"
  note up = counter_up(1) and le = counter_up(2)
  show ?thesis
  proof (cases "v \<noteq> ABI_VERSION \<or> length (rg_runtimes g) \<ge> MAX_RUNTIMES \<or> rg_next g \<ge> MAX_COUNTER")
    case True
    then show ?thesis using g Create by (auto simp: create_def)
  next
    case False
    then have lt: "rg_next g < MAX_COUNTER" by (simp add: not_le)
    have keys: "h < rg_next g + 1 \<and> (\<exists>hist. hist_ok hist \<and> rt = runtime_of h hist)"
      if "bm_get (rg_runtimes g) h = Some rt" for h rt
      using g that up [OF lt] less_trans by (fastforce simp: registry_inv_def)
    have "0 < rg_next g + 1" using g up [OF lt] by (auto simp: registry_inv_def intro: less_trans)
    then show ?thesis
      using g Create False up [OF lt] le [OF lt] keys
      by (auto simp: create_def registry_inv_def Let_def bm.wf_insert bm.get_insert bm.size_insert
          runtime_new_of intro: hist_ok_Nil split: if_splits)
  qed
next
  case (Request h b)
  assume g: "registry_inv g"
  have hist: "\<exists>hist. hist_ok hist \<and> rt = runtime_of h hist" if "bm_get (rg_runtimes g) h = Some rt" for rt
    using g that by (auto simp: registry_inv_def)
  then have "\<exists>hist. hist_ok hist \<and> snd (verify_bridge q rt) = runtime_of h hist"
    if "bm_get (rg_runtimes g) h = Some rt" for rt q
    using that hist_ok_step by (fastforce simp: verify_bridge_refines)
  then show ?thesis
    using request_registry [of pv bi h b g] registry_inv_insert [OF g] hist Request g by auto
next
  case (Release h)
  assume g: "registry_inv g"
  then show ?thesis
    using Release
    by (auto simp: release_def registry_inv_def bm.wf_remove bm.get_remove bm.size_remove split: if_splits)
qed

section \<open>The table contract holds\<close>

definition live_handles :: "registry \<Rightarrow> u64 set" where
  "live_handles g = {h. bm_contains (rg_runtimes g) h}"

lemma request_keys:
  "rg_next (snd (request pv bi h b g)) = rg_next g"
  "live_handles (snd (request pv bi h b g)) = live_handles g" if "registry_inv g"
  using request_registry [of pv bi h b g] that
  by (auto simp: live_handles_def bm_contains_def bm.get_insert registry_inv_def split: if_splits)

interpretation host: handle_table rg_next live_handles "host_step pv bi" issued_handle registry_inv
  for pv bi
proof
  show "registry_inv (snd (host_step pv bi c g))" if "registry_inv g" for c g
    by (rule registry_inv_step [OF that])
  show "h < rg_next g" if "registry_inv g" "h \<in> live_handles g" for h g
    using that by (auto simp: registry_inv_def live_handles_def bm_contains_def)
  show "rg_next g \<le> rg_next (snd (host_step pv bi c g))" if "registry_inv g" for c g
    using that request_keys
    by (cases c) (auto simp: create_def release_def Let_def counter_up intro: less_imp_le)
  show "h = rg_next g \<and> rg_next g < rg_next (snd (host_step pv bi c g))"
    if "registry_inv g" "issued_handle (fst (host_step pv bi c g)) = Some h" for c g h
    using that by (cases c) (auto simp: create_def release_def Let_def counter_up split: if_splits)
  show "live_handles (snd (host_step pv bi c g))
      \<subseteq> live_handles g \<union> set_option (issued_handle (fst (host_step pv bi c g)))"
    if "registry_inv g" for c g
    using that request_keys
    by (cases c) (auto simp: create_def release_def Let_def live_handles_def bm_contains_def
        bm.get_insert bm.get_remove registry_inv_def split: if_splits)
qed

section \<open>What a host sees\<close>

text \<open>The size check of \<open>request\<close> never fires: 64 events and short version strings fit.\<close>

lemma subscribe_events: "length (sn_events (subscribe rt c)) \<le> length (rt_events rt)"
  by (simp add: subscribe_def Let_def)

lemma encode_info_length: "length (encode_info pv bi) \<le> length pv + length bi + 60"
  using head_bytes_length(1) [of 3 "of_nat (length pv)"] head_bytes_length(1) [of 3 "of_nat (length bi)"]
    head_bytes_length(1) [of 3 2] uint_bytes_length [of "ucast ABI_VERSION"] uint_bytes_length [of API_VERSION]
  by (simp add: encode_info_def Let_def w_simps text_bytes_def ascii_def)

lemma snapshot_fits: "length (rt_events rt) \<le> 64 \<Longrightarrow> \<not> MAX_OUTPUT < length (encode_snapshot m (subscribe rt c))"
  using encode_snapshot_length [of m "subscribe rt c"] subscribe_events [of rt c] by simp

lemma snapshot_answer:
  "hist_ok hist \<Longrightarrow> \<not> MAX_OUTPUT < length (encode_snapshot m (hist_snapshot h hist c))"
  using snapshot_fits [OF runtime_of_events [unfolded MAX_EVENTS_def], of m h hist c]
  by (simp add: subscribe_refines)

lemma verify_bridge_fits:
  assumes hist: "hist_ok hist" and vb: "verify_bridge q (runtime_of h hist) = (Inr s, rt')"
  shows "\<not> MAX_OUTPUT < length (encode_snapshot m s)"
proof -
  have a: "hist_answer h hist q = Inr s" using vb by (simp add: verify_bridge_refines [OF hist])
  show ?thesis
  proof (cases "last_id hist < q")
    case True
    then have "q \<noteq> 0" "q \<le> MAX_COUNTER" using a by (auto simp: hist_answer_def split: if_splits)
    then have "hist_ok (hist @ [q])" using True hist_ok_step [OF hist, of q] by (simp add: hist_step_def)
    moreover have "s = hist_snapshot h (hist @ [q]) (of_nat (length hist))"
      using a True by (simp add: hist_answer_def split: if_splits)
    ultimately show ?thesis using snapshot_answer by simp
  next
    case False
    then have "s = hist_snapshot h hist (of_nat (length hist))"
      using a by (simp add: hist_answer_def split: if_splits)
    then show ?thesis using snapshot_answer [OF hist] by simp
  qed
qed

lemma read_uint_loop_error: "read_uint_loop n b v p = Inl e \<Longrightarrow> e = InvalidArgument"
  by (induction n arbitrary: v p) (auto split: if_splits)

lemma read_uint_error: "read_uint b p = Inl e \<Longrightarrow> e = InvalidArgument"
  by (auto simp: read_uint_def Let_def res_simps dest: read_uint_loop_error split: if_splits prod.splits)

lemma decode_request_errors: "decode_request b \<noteq> Inl ResourcePressure_api"
  by (auto simp: decode_request_def res_simps dest: read_uint_error split: if_splits prod.splits)

lemma request_bounded:
  assumes "registry_inv g" and "length pv + length bi \<le> 1024"
  shows "fst (request pv bi h b g) \<noteq> Inl ResourcePressure_api"
proof (cases "decode_request b")
  case (Inl e)
  then show ?thesis using decode_request_errors [of b] by (auto simp: request_def)
next
  case (Inr c)
  show ?thesis
  proof (cases "bm_get (rg_runtimes g) h")
    case (Some rt)
    then obtain hist where hist: "hist_ok hist" "rt = runtime_of h hist"
      using assms by (auto simp: registry_inv_def)
    then have e: "length (rt_events rt) \<le> 64" using runtime_of_events [of h hist] by simp
    show ?thesis
    proof (cases c)
      case EngineInfo
      then show ?thesis using Inr Some encode_info_length [of pv bi] assms(2) by (simp add: request_def)
    next
      case (Subscribe cur)
      then show ?thesis using Inr Some snapshot_fits [OF e] by (simp add: request_def)
    next
      case (VerifyBridge q)
      obtain a rt' where vb: "verify_bridge q rt = (a, rt')" by fastforce
      moreover have "a \<noteq> Inl ResourcePressure_api"
        using vb verify_bridge_refines [OF hist(1), of q h] hist(2)
        by (auto simp: hist_answer_def split: if_splits)
      ultimately show ?thesis
        using Inr Some VerifyBridge verify_bridge_fits [OF hist(1)] hist(2)
        by (cases a) (auto simp: request_def)
    qed
  qed (use Inr in \<open>simp add: request_def\<close>)
qed

text \<open>
  Over any sequence of create, request and release calls the registry issues its handles
  in strictly increasing order starting from 1, so no handle is ever issued twice, and at most
  16 runtimes are live, each one in the state of a history of its own.
\<close>

theorem handles_never_reused:
  "sorted_wrt (<) (0 # host.handles (fst (host.run pv bi calls registry_new))) \<and>
   registry_inv (snd (host.run pv bi calls registry_new))"
proof -
  have "\<forall>h \<in> set (host.handles (fst (host.run pv bi calls registry_new))). 1 \<le> h"
    using host.handles_ascending [OF registry_inv_new, of pv bi calls]
    by (simp add: registry_new_def)
  then have "\<forall>h \<in> set (host.handles (fst (host.run pv bi calls registry_new))). 0 < h"
    by (metis word_gt_0 word_le_0_iff zero_neq_one)
  then show ?thesis
    using host.handles_ascending [OF registry_inv_new, of pv bi calls]
      host.inv_run [OF registry_inv_new, of pv bi calls] by simp
qed

text \<open>
  Once a handle that was issued is released, every later request on it is answered with
  an invalid handle error (or the error of a malformed request), whatever is called between.
\<close>

theorem released_handle_dead:
  assumes "h < rg_next (snd (host.run pv bi calls registry_new))"
  shows "fst (request pv bi h b (snd (host.run pv bi (calls @ Release h # later) registry_new)))
     = bindr (decode_request b) (\<lambda>_. Inl InvalidHandle)"
proof -
  let ?g = "snd (host.run pv bi calls registry_new)"
  let ?g' = "snd (host_step pv bi (Release h) ?g)"
  have inv: "registry_inv ?g" by (rule host.inv_run [OF registry_inv_new])
  have "h \<notin> live_handles ?g'" "h < rg_next ?g'"
    using inv assms by (simp_all add: release_def live_handles_def bm_contains_def bm.get_remove registry_inv_def)
  then have "h \<notin> live_handles (snd (host.run pv bi later ?g'))"
    using host.dead_stays_dead [OF host.inv_step [OF inv]] by blast
  then have "bm_get (rg_runtimes (snd (host.run pv bi later ?g'))) h = None"
    by (simp add: live_handles_def bm_contains_def)
  moreover have "snd (host.run pv bi (calls @ Release h # later) registry_new) = snd (host.run pv bi later ?g')"
    by (simp add: host.run_append split_def Let_def del: host_step.simps)
  ultimately show ?thesis by (simp add: request_def bindr_def split: sum.splits)
qed

theorem released_handle_dead_witness:
  "fst (request [] [] 1 (request_bytes EngineInfo)
     (snd (host.run [] [] ([Create 1] @ Release 1 # [Create 1]) registry_new)))
   = bindr (decode_request (request_bytes EngineInfo)) (\<lambda>_. Inl InvalidHandle)"
proof (rule released_handle_dead)
  show "1 < rg_next (snd (host.run [] [] [Create 1] registry_new))"
    by (simp add: create_def registry_new_def MAX_COUNTER_val Let_def word_le_nat_alt)
qed

text \<open>
  A request on a registry reached by any calls never fails with resource pressure: the
  event counter cannot reach its bound and every output fits in 16 KiB, for build strings of
  at most 1024 bytes together.
\<close>

theorem request_never_pressured:
  "length pv + length bi \<le> 1024 \<Longrightarrow>
   fst (request pv bi h b (snd (host.run pv bi calls registry_new))) \<noteq> Inl ResourcePressure_api"
  by (rule request_bounded [OF host.inv_run [OF registry_inv_new]])

theorem request_never_pressured_witness:
  "fst (request (ascii ''0.1.0'') (ascii ''dev'') 1 [0x83, 1, 2, 5]
     (snd (host.run (ascii ''0.1.0'') (ascii ''dev'') [Create 1] registry_new))) \<noteq> Inl ResourcePressure_api"
  by (rule request_never_pressured) (simp add: ascii_def)

end
