(* ===== verification/Mesh_Records.thy ===== *)
theory Mesh_Records
  imports Mesh_Codec
begin

text \<open>
  The fixed layout records that travel inside an authenticated session: \<open>DurableRecord\<close>
  (\<open>crates/mesh-protocol/src/lib.rs\<close>), \<open>RelayFrame\<close> and \<open>RoutedRecord\<close>
  (\<open>crates/mesh-replication/src/lib.rs\<close>). Their decoders index and slice the input; each is
  shown to accept exactly what its encoder produces.
\<close>

section \<open>Slices\<close>

definition slice :: "nat \<Rightarrow> nat \<Rightarrow> 'a list \<Rightarrow> 'a list" where
  "slice i j xs = take (j - i) (drop i xs)"

lemma length_slice [simp]: "j \<le> length xs \<Longrightarrow> length (slice i j xs) = j - i"
  by (simp add: slice_def)

lemma slice_append_right [simp]:
  "length us \<le> i \<Longrightarrow> slice i j (us @ xs) = slice (i - length us) (j - length us) xs"
  by (simp add: slice_def)

lemma slice_append_left [simp]: "j \<le> length us \<Longrightarrow> slice i j (us @ xs) = slice i j us"
  by (simp add: slice_def take_drop)

lemma slice_Cons_Suc [simp]: "0 < i \<Longrightarrow> slice i j (x # xs) = slice (i - 1) (j - 1) xs"
  by (cases i; cases j) (simp_all add: slice_def)

lemma slice_all [simp]: "length xs = j \<Longrightarrow> slice 0 j xs = xs"
  by (simp add: slice_def)

lemma split_at_length: "n \<le> length xs \<Longrightarrow> \<exists>us vs. xs = us @ vs \<and> length us = n"
  by (metis append_take_drop_id length_take min.absorb2)

text \<open>Two byte integers.\<close>

lemma be16_cases: "\<exists>a b. be_bytes (w :: u16) = [a, b]"
  by (simp add: be_bytes_def upt_rec)

lemma be16_bytes: "be_bytes (be_word [a, b] :: u16) = [a, b]"
  by (rule be_bytes_be_word) simp

lemma be16_word: "be_bytes (w :: u16) = [a, b] \<Longrightarrow> be_word [a, b] = w"
  using be_word_be_bytes [of w] by simp

lemma unat_of_nat16: "n < 2 ^ 16 \<Longrightarrow> unat (of_nat n :: u16) = n"
  by (simp add: unsigned_of_nat take_bit_nat_eq_self_iff)

lemma be16_length:
  assumes "length bs < 2 ^ 16"
  shows "length bs = unat (be_word [a, b] :: u16) \<longleftrightarrow> [a, b] = be_bytes (of_nat (length bs) :: u16)"
proof
  assume l: "length bs = unat (be_word [a, b] :: u16)"
  have "of_nat (length bs) = (be_word [a, b] :: u16)" unfolding l by simp
  then show "[a, b] = be_bytes (of_nat (length bs) :: u16)" by (simp add: be16_bytes)
next
  assume "[a, b] = be_bytes (of_nat (length bs) :: u16)"
  then have "be_word [a, b] = (of_nat (length bs) :: u16)" by (simp add: be16_word)
  then show "length bs = unat (be_word [a, b] :: u16)"
    using assms by (simp add: unat_of_nat16)
qed

section \<open>Durable records\<close>

definition MAX_ANNOUNCEMENT :: nat where [simp]: "MAX_ANNOUNCEMENT = 3998"
definition MAX_RECEIPT :: nat where [simp]: "MAX_RECEIPT = 1024"
definition MAX_RECEIPT_ACK :: nat where [simp]: "MAX_RECEIPT_ACK = 1024"
definition DURABLE_RECORD_MAGIC :: u8 where [simp]: "DURABLE_RECORD_MAGIC = 0x6d"
definition DURABLE_RECORD_VERSION :: u8 where [simp]: "DURABLE_RECORD_VERSION = 1"
definition MAX_DURABLE_RECORD :: nat where [simp]: "MAX_DURABLE_RECORD = MAX_ANNOUNCEMENT + 5"

datatype durable_record =
    Announcement bytes
  | Chunk object_id u16 bytes
  | Receipt bytes
  | ReceiptAck bytes

fun durable_encode :: "durable_record \<Rightarrow> durable_error + bytes" where
  "durable_encode (Announcement bs) =
     (if bs = [] \<or> length bs > MAX_ANNOUNCEMENT then Inl InvalidInput
      else Inr ([DURABLE_RECORD_MAGIC, DURABLE_RECORD_VERSION] @ [1] @
                be_bytes (of_nat (length bs) :: u16) @ bs))"
| "durable_encode (Chunk obj index bs) =
     (if bs = [] \<or> length bs > CHUNK_BYTES then Inl InvalidInput
      else Inr ([DURABLE_RECORD_MAGIC, DURABLE_RECORD_VERSION] @ [2] @ be_bytes (object_arr obj) @
                be_bytes index @ be_bytes (of_nat (length bs) :: u16) @ bs))"
| "durable_encode (Receipt bs) =
     (if bs = [] \<or> length bs > MAX_RECEIPT then Inl InvalidInput
      else Inr ([DURABLE_RECORD_MAGIC, DURABLE_RECORD_VERSION] @ [3] @
                be_bytes (of_nat (length bs) :: u16) @ bs))"
| "durable_encode (ReceiptAck bs) =
     (if bs = [] \<or> length bs > MAX_RECEIPT_ACK then Inl InvalidInput
      else Inr ([DURABLE_RECORD_MAGIC, DURABLE_RECORD_VERSION] @ [4] @
                be_bytes (of_nat (length bs) :: u16) @ bs))"

definition durable_decode :: "bytes \<Rightarrow> durable_error + durable_record" where
  "durable_decode input =
     (if length input < 3 \<or> length input > MAX_DURABLE_RECORD
         \<or> input ! 0 \<noteq> DURABLE_RECORD_MAGIC \<or> input ! 1 \<noteq> DURABLE_RECORD_VERSION
      then Inl InvalidInput
      else if input ! 2 = 1 \<or> input ! 2 = 3 \<or> input ! 2 = 4 then
        (if length input < 5 then Inl InvalidInput
         else
           let len = unat (be_word [input ! 3, input ! 4] :: u16);
               limit = (if input ! 2 = 1 then MAX_ANNOUNCEMENT
                        else if input ! 2 = 3 then MAX_RECEIPT else MAX_RECEIPT_ACK)
           in if len = 0 \<or> len > limit \<or> length input \<noteq> 5 + len then Inl InvalidInput
              else
                let bytes = drop 5 input
                in if input ! 2 = 1 then Inr (Announcement bytes)
                   else if input ! 2 = 3 then Inr (Receipt bytes)
                   else Inr (ReceiptAck bytes))
      else if input ! 2 = 2 then
        (if length input < 39 then Inl InvalidInput
         else
           let obj = ObjectId (be_word (slice 3 35 input));
               index = be_word [input ! 35, input ! 36];
               len = unat (be_word [input ! 37, input ! 38] :: u16)
           in if len = 0 \<or> len > CHUNK_BYTES \<or> length input \<noteq> 39 + len then Inl InvalidInput
              else Inr (Chunk obj index (drop 39 input)))
      else Inl UnsupportedSchema)"

lemma list5_cases: "5 \<le> length xs \<Longrightarrow> \<exists>a b c d e r. xs = a # b # c # d # e # r"
  by (auto simp: numeral_eq_Suc Suc_le_length_iff)

lemma durable_encode_decode: "durable_encode x = Inr bs \<Longrightarrow> durable_decode bs = Inr x"
proof (cases x)
  case (Chunk obj index b)
  assume e: "durable_encode x = Inr bs"
  obtain i j where i: "be_bytes index = [i, j]" using be16_cases by blast
  obtain k l where k: "be_bytes (of_nat (length b) :: u16) = [k, l]" using be16_cases by blast
  have "unat (be_word [k, l] :: u16) = length b"
    using e Chunk k be16_length [of b k l] by (auto split: if_splits)
  then show ?thesis
    using e Chunk i k be16_word [OF i]
    by (auto simp: durable_decode_def nth_append drop_append split: if_splits)
next
  case (Announcement b)
  assume e: "durable_encode x = Inr bs"
  obtain k l where k: "be_bytes (of_nat (length b) :: u16) = [k, l]" using be16_cases by blast
  have "unat (be_word [k, l] :: u16) = length b"
    using e Announcement k be16_length [of b k l] by (auto split: if_splits)
  then show ?thesis using e Announcement k by (auto simp: durable_decode_def split: if_splits)
next
  case (Receipt b)
  assume e: "durable_encode x = Inr bs"
  obtain k l where k: "be_bytes (of_nat (length b) :: u16) = [k, l]" using be16_cases by blast
  have "unat (be_word [k, l] :: u16) = length b"
    using e Receipt k be16_length [of b k l] by (auto split: if_splits)
  then show ?thesis using e Receipt k by (auto simp: durable_decode_def split: if_splits)
next
  case (ReceiptAck b)
  assume e: "durable_encode x = Inr bs"
  obtain k l where k: "be_bytes (of_nat (length b) :: u16) = [k, l]" using be16_cases by blast
  have "unat (be_word [k, l] :: u16) = length b"
    using e ReceiptAck k be16_length [of b k l] by (auto split: if_splits)
  then show ?thesis using e ReceiptAck k by (auto simp: durable_decode_def split: if_splits)
qed

lemma durable_decode_encode: "durable_decode bs = Inr x \<Longrightarrow> durable_encode x = Inr bs"
proof -
  assume d: "durable_decode bs = Inr x"
  then have "bs ! 2 = 1 \<or> bs ! 2 = 3 \<or> bs ! 2 = 4 \<or> bs ! 2 = 2"
    by (auto simp: durable_decode_def split: if_splits)
  then consider "bs ! 2 \<noteq> 2" | "bs ! 2 = 2" by fastforce
  then show ?thesis
  proof cases
    case 1
    then have "5 \<le> length bs" using d by (auto simp: durable_decode_def split: if_splits)
    then obtain m v t k l b where bs: "bs = m # v # t # k # l # b" using list5_cases by blast
    show ?thesis
      using d 1 be16_length [of b k l]
      by (auto simp: bs durable_decode_def Let_def be16_bytes split: if_splits)
  next
    case 2
    then have "39 \<le> length bs" using d by (auto simp: durable_decode_def split: if_splits)
    then obtain h r where bs: "bs = h @ r" "length h = 35" "4 \<le> length r"
      using split_at_length [of 35 bs] by auto
    then obtain m v t obj where h: "h = m # v # t # obj" "length obj = 32"
      using list5_cases [of h] by auto
    obtain i j k l b where r: "r = i # j # k # l # b"
      using bs(3) by (auto simp: numeral_eq_Suc Suc_le_length_iff)
    show ?thesis
      using d 2 be16_length [of b k l] h(2)
      by (auto simp: bs(1) h(1) r durable_decode_def Let_def nth_append be16_bytes split: if_splits)
  qed
qed

interpretation durable: record_codec durable_encode durable_decode
  by unfold_locales (blast intro: durable_encode_decode durable_decode_encode)

lemma durable_encode_length:
  "durable_encode x = Inr bs \<Longrightarrow> 0 < length bs \<and> length bs \<le> MAX_DURABLE_RECORD"
  by (cases x) (auto split: if_splits)

section \<open>Relay frames\<close>

definition MAX_RELAY_HOPS :: u8 where [simp]: "MAX_RELAY_HOPS = 16"
definition RELAY_FRAME_BYTES :: nat where [simp]: "RELAY_FRAME_BYTES = 91"
definition RELAY_FRAME_VERSION :: u8 where [simp]: "RELAY_FRAME_VERSION = 1"
definition ROUTED_RECORD_MAGIC :: u8 where [simp]: "ROUTED_RECORD_MAGIC = 0x72"
definition ROUTED_RECORD_VERSION :: u8 where [simp]: "ROUTED_RECORD_VERSION = 1"
definition MAX_ROUTED_RECORD :: nat where [simp]:
  "MAX_ROUTED_RECORD = 2 + RELAY_FRAME_BYTES + MAX_DURABLE_RECORD"

datatype relay_id = RelayId (relay_arr: arr16)

record relay_frame =
  rf_id :: relay_id
  rf_origin :: member_id
  rf_previous_hop :: member_id
  rf_hops :: u8
  rf_hop_limit :: u8
  rf_expires_at :: u64

definition relay_encode :: "relay_frame \<Rightarrow> bytes" where
  "relay_encode f =
     [RELAY_FRAME_VERSION] @ be_bytes (relay_arr (rf_id f)) @ be_bytes (member_arr (rf_origin f)) @
     be_bytes (member_arr (rf_previous_hop f)) @ [rf_hops f] @ [rf_hop_limit f] @
     be_bytes (rf_expires_at f)"

definition relay_decode :: "bytes \<Rightarrow> durable_error + relay_frame" where
  "relay_decode bytes =
     (if length bytes \<noteq> RELAY_FRAME_BYTES \<or> bytes ! 0 \<noteq> RELAY_FRAME_VERSION then Inl InvalidInput
      else
        let frame = \<lparr>rf_id = RelayId (be_word (slice 1 17 bytes)),
                     rf_origin = MemberId (be_word (slice 17 49 bytes)),
                     rf_previous_hop = MemberId (be_word (slice 49 81 bytes)),
                     rf_hops = bytes ! 81,
                     rf_hop_limit = bytes ! 82,
                     rf_expires_at = be_word (slice 83 91 bytes)\<rparr>
        in if rf_hop_limit frame = 0
             \<or> rf_hop_limit frame > MAX_RELAY_HOPS
             \<or> rf_hops frame > rf_hop_limit frame
             \<or> rf_expires_at frame > MAX_LOGICAL_TIME
           then Inl InvalidInput
           else Inr frame)"

record routed_record =
  rr_frame :: relay_frame
  rr_record :: durable_record

definition routed_encode :: "routed_record \<Rightarrow> durable_error + bytes" where
  "routed_encode x =
     bindr (durable_encode (rr_record x)) (\<lambda>record.
       Inr ([ROUTED_RECORD_MAGIC] @ [ROUTED_RECORD_VERSION] @ relay_encode (rr_frame x) @ record))"

definition routed_decode :: "bytes \<Rightarrow> durable_error + routed_record" where
  "routed_decode bytes =
     (if length bytes < 2 + RELAY_FRAME_BYTES \<or> length bytes > MAX_ROUTED_RECORD
         \<or> bytes ! 0 \<noteq> ROUTED_RECORD_MAGIC \<or> bytes ! 1 \<noteq> ROUTED_RECORD_VERSION
      then Inl InvalidInput
      else
        bindr (relay_decode (slice 2 (2 + RELAY_FRAME_BYTES) bytes)) (\<lambda>frame.
        bindr (durable_decode (drop (2 + RELAY_FRAME_BYTES) bytes)) (\<lambda>record.
          Inr \<lparr>rr_frame = frame, rr_record = record\<rparr>)))"

definition relay_ok :: "relay_frame \<Rightarrow> bool" where
  "relay_ok f \<longleftrightarrow> rf_hop_limit f \<noteq> 0 \<and> rf_hop_limit f \<le> MAX_RELAY_HOPS \<and>
     rf_hops f \<le> rf_hop_limit f \<and> rf_expires_at f \<le> MAX_LOGICAL_TIME"

lemma length_relay_encode [simp]: "length (relay_encode f) = 91"
  by (simp add: relay_encode_def)

lemma relay_bytes_split:
  assumes "length bs = 91"
  shows "\<exists>v i or pr h l ex. bs = [v] @ i @ or @ pr @ [h] @ [l] @ ex \<and>
    length i = 16 \<and> length or = 32 \<and> length pr = 32 \<and> length ex = 8"
proof -
  obtain v r where bs: "bs = v # r" "length r = 90"
    using assms by (auto simp: numeral_eq_Suc length_Suc_conv)
  obtain i r1 where r: "r = i @ r1" "length i = 16" using split_at_length [of 16 r] bs by auto
  obtain or r2 where r1: "r1 = or @ r2" "length or = 32" using split_at_length [of 32 r1] bs r by auto
  obtain pr r3 where r2: "r2 = pr @ r3" "length pr = 32" using split_at_length [of 32 r2] bs r r1 by auto
  have "length r3 = 10" using bs r r1 r2 by simp
  then obtain h l ex where "r3 = h # l # ex" "length ex = 8"
    by (auto simp: numeral_eq_Suc length_Suc_conv)
  then show ?thesis
    using bs r r1 r2
    by (rule_tac exI [of _ v], rule_tac exI [of _ i], rule_tac exI [of _ or], rule_tac exI [of _ pr],
        rule_tac exI [of _ h], rule_tac exI [of _ l], rule_tac exI [of _ ex]) simp
qed

lemma relay_decode_iff: "relay_decode bs = Inr f \<longleftrightarrow> relay_ok f \<and> bs = relay_encode f"
proof
  assume d: "relay_decode bs = Inr f"
  then have "length bs = 91" by (simp add: relay_decode_def split: if_splits)
  then obtain v i or pr h l ex where "bs = [v] @ i @ or @ pr @ [h] @ [l] @ ex"
    "length i = 16" "length or = 32" "length pr = 32" "length ex = 8"
    using relay_bytes_split by blast
  then show "relay_ok f \<and> bs = relay_encode f"
    using d by (auto simp: relay_decode_def relay_encode_def relay_ok_def Let_def nth_append not_less
        split: if_splits)
next
  assume a: "relay_ok f \<and> bs = relay_encode f"
  then show "relay_decode bs = Inr f"
    by (simp add: relay_decode_def relay_encode_def relay_ok_def Let_def nth_append not_less)
qed

interpretation relay: message_codec relay_encode relay_ok relay_decode
  by unfold_locales (rule relay_decode_iff)

lemma routed_decode_iff:
  "routed_decode bs = Inr x \<longleftrightarrow> relay_ok (rr_frame x) \<and> routed_encode x = Inr bs"
proof
  assume d: "routed_decode bs = Inr x"
  then obtain m v b where bs: "bs = m # v # b" "91 \<le> length b"
    by (auto simp: routed_decode_def numeral_eq_Suc Suc_le_length_iff not_less split: if_splits)
  then obtain fr r where b: "b = fr @ r" "length fr = 91" using split_at_length by blast
  show "relay_ok (rr_frame x) \<and> routed_encode x = Inr bs"
    using d b(2) by (auto simp: bs(1) b(1) routed_decode_def routed_encode_def res_simps
        relay_decode_iff durable.dec_iff split: if_splits)
next
  assume a: "relay_ok (rr_frame x) \<and> routed_encode x = Inr bs"
  then obtain r where r: "durable_encode (rr_record x) = Inr r"
    and bs: "bs = ROUTED_RECORD_MAGIC # ROUTED_RECORD_VERSION # relay_encode (rr_frame x) @ r"
    by (auto simp: routed_encode_def res_simps)
  show "routed_decode bs = Inr x"
    using a durable_encode_length [OF r] durable_encode_decode [OF r]
    by (simp add: bs routed_decode_def relay.get_put)
qed

text \<open>
  \<open>DurableRecord::decode\<close> accepts exactly the byte strings \<open>DurableRecord::encode\<close>
  produces, and returns the record they came from.
\<close>

theorem durable_record_codec: "durable_decode bs = Inr x \<longleftrightarrow> durable_encode x = Inr bs"
  by (rule durable.dec_iff)

text \<open>
  \<open>RoutedRecord::decode\<close> accepts exactly the encodings of a valid relay frame followed by
  a durable record, and every such encoding fits the 4096 byte limit of a session datagram.
\<close>

theorem routed_record_codec:
  "(routed_decode bs = Inr x \<longleftrightarrow> relay_ok (rr_frame x) \<and> routed_encode x = Inr bs) \<and>
   (case routed_encode x of Inl _ \<Rightarrow> True | Inr out \<Rightarrow> length out \<le> 4096)"
  using routed_decode_iff durable_encode_length
  by (fastforce simp: routed_encode_def res_simps split: sum.splits)

end
