(* ===== verification/Mesh_Relay.thy ===== *)
theory Mesh_Relay
  imports Mesh_Records "HOL-Library.Product_Lexorder"
begin

text \<open>
  The forwarding gate of \<open>crates/mesh-replication/src/lib.rs\<close> (\<open>RelayCache\<close>): a bounded map
  from the origin and id of a frame to its expiry. \<open>relay_inv\<close> is its invariant; the lemmas
  show which frames it forwards, that a forwarded frame is acceptable to the next hop, that
  a key it retains is not forwarded again, and what it evicts under pressure.
\<close>

section \<open>Keys\<close>

definition MAX_RELAY_DEDUP :: nat where [simp]: "MAX_RELAY_DEDUP = 512"

datatype relay_key = RelayKey (rk_origin: member_id) (rk_id: relay_id)

instantiation relay_id :: linorder
begin
definition "less_eq_relay_id a b \<longleftrightarrow> relay_arr a \<le> relay_arr b"
definition "less_relay_id a b \<longleftrightarrow> relay_arr a < relay_arr b"
instance by standard (auto simp: less_eq_relay_id_def less_relay_id_def relay_id.expand)
end

instantiation relay_key :: linorder
begin
definition "less_eq_relay_key a b \<longleftrightarrow> (rk_origin a, rk_id a) \<le> (rk_origin b, rk_id b)"
definition "less_relay_key a b \<longleftrightarrow> (rk_origin a, rk_id a) < (rk_origin b, rk_id b)"
instance
  by standard (auto simp: less_eq_relay_key_def less_relay_key_def relay_key.expand less_prod_def less_eq_prod_def)
end

section \<open>The cache\<close>

datatype relay_decision = Forward relay_frame | Duplicate | Expired_decision | HopLimit

record seen_relay =
  sr_expires_at :: u64
  sr_received_at :: u64

record relay_cache =
  rc_local :: member_id
  rc_seen :: "(relay_key, seen_relay) bmap"

definition relay_new :: "member_id \<Rightarrow> relay_cache" where
  "relay_new loc = \<lparr>rc_local = loc, rc_seen = []\<rparr>"

definition relay_valid :: "relay_frame \<Rightarrow> member_id \<Rightarrow> u64 \<Rightarrow> durable_error + unit" where
  "relay_valid frame via now =
     (if now > MAX_LOGICAL_TIME
        \<or> rf_expires_at frame > MAX_LOGICAL_TIME
        \<or> rf_previous_hop frame \<noteq> via
        \<or> rf_hop_limit frame = 0
        \<or> rf_hop_limit frame > MAX_RELAY_HOPS
        \<or> rf_hops frame > rf_hop_limit frame
      then Inl InvalidInput
      else Inr ())"

definition expire_seen :: "u64 \<Rightarrow> relay_cache \<Rightarrow> relay_cache" where
  "expire_seen now c = c\<lparr>rc_seen := bm_retain (\<lambda>_ seen. now < sr_expires_at seen) (rc_seen c)\<rparr>"

text \<open>\<open>Iterator::min_by_key\<close>: the first of the least elements.\<close>

fun min_by_key :: "('a \<Rightarrow> 'k::linorder) \<Rightarrow> 'a list \<Rightarrow> 'a option" where
  "min_by_key f [] = None"
| "min_by_key f (x # xs) =
     (case min_by_key f xs of
        None \<Rightarrow> Some x
      | Some y \<Rightarrow> if f x \<le> f y then Some x else Some y)"

definition relay_reserve :: "relay_key \<Rightarrow> u64 \<Rightarrow> u64 \<Rightarrow> relay_cache \<Rightarrow> relay_cache" where
  "relay_reserve key expires_at now c =
     (let c = (if length (rc_seen c) \<ge> MAX_RELAY_DEDUP then
                 (case min_by_key (\<lambda>(_, seen). (sr_expires_at seen, sr_received_at seen)) (rc_seen c) of
                    Some (oldest, _) \<Rightarrow> c\<lparr>rc_seen := bm_remove oldest (rc_seen c)\<rparr>
                  | None \<Rightarrow> c)
               else c)
      in c\<lparr>rc_seen := bm_insert key \<lparr>sr_expires_at = expires_at, sr_received_at = now\<rparr> (rc_seen c)\<rparr>)"

definition accept ::
    "relay_frame \<Rightarrow> member_id \<Rightarrow> u64 \<Rightarrow> relay_cache \<Rightarrow> (durable_error + relay_decision) \<times> relay_cache" where
  "accept frame via now c =
     (case relay_valid frame via now of
        Inl e \<Rightarrow> (Inl e, c)
      | Inr _ \<Rightarrow>
          if rf_origin frame = rc_local c \<or> via = rc_local c then (Inl InvalidInput, c)
          else
            let c = expire_seen now c in
            if now \<ge> rf_expires_at frame then (Inr Expired_decision, c)
            else if rf_hops frame \<ge> rf_hop_limit frame then (Inr HopLimit, c)
            else
              let key = RelayKey (rf_origin frame) (rf_id frame) in
              if bm_contains (rc_seen c) key then (Inr Duplicate, c)
              else
                let c = relay_reserve key (rf_expires_at frame) now c
                in (Inr (Forward (frame\<lparr>rf_previous_hop := rc_local c, rf_hops := rf_hops frame + 1\<rparr>)), c))"

definition frame_key :: "relay_frame \<Rightarrow> relay_key" where
  "frame_key f = RelayKey (rf_origin f) (rf_id f)"

section \<open>Invariant\<close>

definition relay_inv :: "relay_cache \<Rightarrow> bool" where
  "relay_inv c \<longleftrightarrow> bm_wf (rc_seen c) \<and> length (rc_seen c) \<le> MAX_RELAY_DEDUP"

lemma min_by_key_Some: "xs \<noteq> [] \<Longrightarrow> \<exists>x. min_by_key f xs = Some x \<and> x \<in> set xs \<and> (\<forall>y \<in> set xs. f x \<le> f y)"
  by (induction xs) (force split: option.splits)+

lemma relay_local [simp]:
  "rc_local (expire_seen now c) = rc_local c" "rc_local (relay_reserve k e n c) = rc_local c"
  by (auto simp: expire_seen_def relay_reserve_def Let_def split: option.splits)

lemma expire_seen_inv: "relay_inv c \<Longrightarrow> relay_inv (expire_seen now c)"
  using bm.size_retain [of "rc_seen c"] by (auto simp: relay_inv_def expire_seen_def bm.wf_retain intro: le_trans)

lemma expire_seen_get:
  "relay_inv c \<Longrightarrow> bm_get (rc_seen (expire_seen now c)) k =
    (case bm_get (rc_seen c) k of None \<Rightarrow> None | Some s \<Rightarrow> if now < sr_expires_at s then Some s else None)"
  by (simp add: relay_inv_def expire_seen_def bm.get_retain)

text \<open>Where \<open>reserve\<close> makes room: the entry with the least expiry, then the oldest.\<close>

lemma relay_reserve_cases:
  assumes "relay_inv c"
  obtains (room) "length (rc_seen c) < MAX_RELAY_DEDUP"
      "rc_seen (relay_reserve k e n c) = bm_insert k \<lparr>sr_expires_at = e, sr_received_at = n\<rparr> (rc_seen c)"
  | (evict) old s where "length (rc_seen c) = MAX_RELAY_DEDUP" "bm_get (rc_seen c) old = Some s"
      "\<And>j u. bm_get (rc_seen c) j = Some u \<Longrightarrow>
        (sr_expires_at s, sr_received_at s) \<le> (sr_expires_at u, sr_received_at u)"
      "rc_seen (relay_reserve k e n c) =
         bm_insert k \<lparr>sr_expires_at = e, sr_received_at = n\<rparr> (bm_remove old (rc_seen c))"
proof (cases "length (rc_seen c) < MAX_RELAY_DEDUP")
  case True
  then show thesis by (intro room) (simp_all add: relay_reserve_def)
next
  case False
  let ?f = "\<lambda>(_ :: relay_key, seen). (sr_expires_at seen, sr_received_at seen)"
  have wf: "bm_wf (rc_seen c)" using assms by (simp add: relay_inv_def)
  have "rc_seen c \<noteq> []" using False by auto
  then obtain x where x: "min_by_key ?f (rc_seen c) = Some x" "x \<in> set (rc_seen c)"
    "\<And>y. y \<in> set (rc_seen c) \<Longrightarrow> ?f x \<le> ?f y"
    using min_by_key_Some [of "rc_seen c" ?f] by blast
  obtain old s where xs: "x = (old, s)" by (cases x)
  show thesis
  proof (rule evict)
    show "length (rc_seen c) = MAX_RELAY_DEDUP" using False assms by (simp add: relay_inv_def)
    show "bm_get (rc_seen c) old = Some s" using x(2) bm.in_entries_iff [OF wf] xs by simp
    show "(sr_expires_at s, sr_received_at s) \<le> (sr_expires_at u, sr_received_at u)"
      if "bm_get (rc_seen c) j = Some u" for j u
      using x(3) [of "(j, u)"] that bm.in_entries_iff [OF wf] xs by simp
    show "rc_seen (relay_reserve k e n c) =
         bm_insert k \<lparr>sr_expires_at = e, sr_received_at = n\<rparr> (bm_remove old (rc_seen c))"
      using False x(1) xs by (simp add: relay_reserve_def Let_def)
  qed
qed

lemma relay_reserve_inv: "relay_inv c \<Longrightarrow> relay_inv (relay_reserve k e n c)"
proof -
  assume c: "relay_inv c"
  then have wf: "bm_wf (rc_seen c)" by (simp add: relay_inv_def)
  from c show ?thesis
  proof (cases rule: relay_reserve_cases [where k = k and e = e and n = n])
    case room
    then show ?thesis using wf by (simp add: relay_inv_def bm.wf_insert bm.size_insert)
  next
    case (evict old s)
    have wf': "bm_wf (bm_remove old (rc_seen c))" by (rule bm.wf_remove [OF wf])
    have "length (bm_remove old (rc_seen c)) < MAX_RELAY_DEDUP"
      using evict(1,2) bm.size_remove [OF wf] by simp
    then show ?thesis using evict(4) wf' by (simp add: relay_inv_def bm.wf_insert bm.size_insert)
  qed
qed

lemma accept_inv: "relay_inv c \<Longrightarrow> relay_inv (snd (accept f via now c))"
  by (auto simp: accept_def Let_def expire_seen_inv relay_reserve_inv split: sum.splits)

lemma relay_new_inv: "relay_inv (relay_new l)"
  by (simp add: relay_inv_def relay_new_def)

text \<open>The reserved key is in the cache afterwards.\<close>

lemma relay_reserve_get:
  assumes "relay_inv c"
  shows "bm_get (rc_seen (relay_reserve k e n c)) k = Some \<lparr>sr_expires_at = e, sr_received_at = n\<rparr>"
  using assms
proof (cases rule: relay_reserve_cases [where k = k and e = e and n = n])
  case room
  then show ?thesis using assms by (simp add: relay_inv_def bm.get_insert)
next
  case (evict old s)
  then show ?thesis using assms by (simp add: relay_inv_def bm.get_insert bm.wf_remove)
qed

text \<open>With room, \<open>reserve\<close> only adds its key.\<close>

lemma relay_reserve_room:
  assumes "relay_inv c" and "length (rc_seen c) < MAX_RELAY_DEDUP"
  shows "bm_get (rc_seen (relay_reserve k e n c)) =
      (bm_get (rc_seen c))(k \<mapsto> \<lparr>sr_expires_at = e, sr_received_at = n\<rparr>)"
    "length (rc_seen (relay_reserve k e n c)) \<le> Suc (length (rc_seen c))"
  using assms by (simp_all add: relay_reserve_def relay_inv_def bm.get_insert bm.size_insert)

lemma accept_Forward:
  assumes "accept f via now c = (Inr (Forward g), c')"
  shows "relay_valid f via now = Inr ()" "rf_origin f \<noteq> rc_local c" "via \<noteq> rc_local c"
    "now < rf_expires_at f" "rf_hops f < rf_hop_limit f"
    "bm_get (rc_seen (expire_seen now c)) (frame_key f) = None"
    "c' = relay_reserve (frame_key f) (rf_expires_at f) now (expire_seen now c)"
    "g = f\<lparr>rf_previous_hop := rc_local c, rf_hops := rf_hops f + 1\<rparr>"
  using assms
  by (auto simp: accept_def frame_key_def Let_def bm_contains_def split: sum.splits if_splits)

lemma accept_not_Forward:
  assumes "accept f via now c = (r, c')" and "\<And>g. r \<noteq> Inr (Forward g)"
  shows "c' = c \<or> c' = expire_seen now c"
  using assms by (auto simp: accept_def Let_def split: sum.splits if_splits)

section \<open>Runs\<close>

text \<open>A call is a frame, the neighbor it came through and the time.\<close>

type_synonym relay_call = "relay_frame \<times> member_id \<times> u64"

primrec relay_run :: "relay_call list \<Rightarrow> relay_cache \<Rightarrow> (durable_error + relay_decision) list \<times> relay_cache" where
  "relay_run [] c = ([], c)"
| "relay_run (call # calls) c =
     (let (f, via, now) = call; (r, c) = accept f via now c; (rs, c) = relay_run calls c in (r # rs, c))"

text \<open>The frames that were let through, each with the time, and their keys.\<close>

primrec forwards :: "relay_call list \<Rightarrow> relay_cache \<Rightarrow> (relay_frame \<times> u64) list" where
  "forwards [] c = []"
| "forwards (call # calls) c =
     (let (f, via, now) = call; (r, c) = accept f via now c
      in (case r of Inr (Forward _) \<Rightarrow> [(f, now)] | _ \<Rightarrow> []) @ forwards calls c)"

definition forwarded :: "relay_call list \<Rightarrow> relay_cache \<Rightarrow> relay_key list" where
  "forwarded calls c = map (frame_key \<circ> fst) (forwards calls c)"

lemma relay_run_inv: "relay_inv c \<Longrightarrow> relay_inv (snd (relay_run calls c))"
proof (induction calls arbitrary: c)
  case (Cons call calls)
  obtain f via now where call: "call = (f, via, now)" by (cases call)
  have "relay_inv (snd (accept f via now c))" by (rule accept_inv [OF Cons.prems])
  from Cons.IH [OF this] show ?case by (simp add: call split_def Let_def)
qed simp

text \<open>
  What the cache remembers at time \<open>t\<close> of the keys \<open>F\<close> forwarded so far, each with the expiry of its
  frame: it still holds the key with that expiry, or the expiry has come.
\<close>

definition remembers :: "(relay_key \<times> u64) list \<Rightarrow> u64 \<Rightarrow> relay_cache \<Rightarrow> bool" where
  "remembers F t c \<longleftrightarrow> relay_inv c \<and> length (rc_seen c) \<le> length F \<and>
     (\<forall>(k, e) \<in> set F. e \<le> t \<or> (\<exists>s. bm_get (rc_seen c) k = Some s \<and> sr_expires_at s = e))"

lemma remembers_expire:
  assumes "remembers F t c" and "t \<le> t'"
  shows "remembers F t' (expire_seen t' c)"
proof -
  have inv: "relay_inv c" using assms(1) by (simp add: remembers_def)
  have "length (rc_seen (expire_seen t' c)) \<le> length (rc_seen c)"
    using inv bm.size_retain [of "rc_seen c"] by (simp add: relay_inv_def expire_seen_def)
  then show ?thesis
    using assms expire_seen_inv [OF inv] expire_seen_get [OF inv]
    by (fastforce simp: remembers_def not_less)
qed

lemma remembers_later: "remembers F t c \<Longrightarrow> t \<le> t' \<Longrightarrow> remembers F t' c"
  by (force simp: remembers_def)

lemma remembers_forward:
  assumes r: "remembers F t c" and t: "t \<le> now"
    and a: "accept f via now c = (Inr (Forward g), c')" and room: "length F < MAX_RELAY_DEDUP"
  shows "(frame_key f, e) \<in> set F \<Longrightarrow> e \<le> now" "remembers (F @ [(frame_key f, rf_expires_at f)]) now c'"
proof -
  note fw = accept_Forward [OF a]
  have r1: "remembers F now (expire_seen now c)" by (rule remembers_expire [OF r t])
  show new: "(frame_key f, e) \<in> set F \<Longrightarrow> e \<le> now" for e
    using r1 fw(6) by (force simp: remembers_def)
  have inv: "relay_inv (expire_seen now c)" and len: "length (rc_seen (expire_seen now c)) < MAX_RELAY_DEDUP"
    using r1 room by (auto simp: remembers_def)
  note room = relay_reserve_room [OF inv len, of "frame_key f" "rf_expires_at f" now]
  have "e \<le> now \<or> (\<exists>s. bm_get (rc_seen c') k = Some s \<and> sr_expires_at s = e)" if "(k, e) \<in> set F" for k e
  proof (cases "k = frame_key f")
    case False
    have "e \<le> now \<or> (\<exists>s. bm_get (rc_seen (expire_seen now c)) k = Some s \<and> sr_expires_at s = e)"
      using r1 that by (auto simp: remembers_def)
    then show ?thesis using False by (simp add: fw(7) room(1))
  qed (use new that in blast)
  moreover have "relay_inv c'" "length (rc_seen c') \<le> Suc (length F)"
    using r1 room(2) relay_reserve_inv [OF inv] by (auto simp: remembers_def fw(7))
  ultimately show "remembers (F @ [(frame_key f, rf_expires_at f)]) now c'"
    by (auto simp: remembers_def fw(7) room(1))
qed

text \<open>Two frames of one key are let through only when the first has expired by the time of the second.\<close>

definition apart :: "relay_frame \<times> u64 \<Rightarrow> relay_frame \<times> u64 \<Rightarrow> bool" where
  "apart x y \<longleftrightarrow> (frame_key (fst x) = frame_key (fst y) \<longrightarrow> rf_expires_at (fst x) \<le> snd y)"

lemma forwards_apart:
  assumes "remembers (map (\<lambda>(f, _). (frame_key f, rf_expires_at f)) F) t c"
    and "sorted (map (\<lambda>(_, _, now). now) calls)" and "\<forall>(f, via, now) \<in> set calls. t \<le> now"
    and "length (F @ forwards calls c) \<le> MAX_RELAY_DEDUP" and "sorted_wrt apart F"
  shows "sorted_wrt apart (F @ forwards calls c)"
  using assms
proof (induction calls arbitrary: F t c)
  case (Cons call calls)
  obtain f via now where call: "call = (f, via, now)" by (cases call)
  obtain r c' where a: "accept f via now c = (r, c')" by fastforce
  have tm: "t \<le> now" and later: "\<forall>(f, via, t') \<in> set calls. now \<le> t'"
    and sorted: "sorted (map (\<lambda>(_, _, now). now) calls)"
    using Cons.prems(2,3) by (auto simp: call)
  show ?case
  proof (cases "\<exists>g. r = Inr (Forward g)")
    case True
    then obtain g where r: "r = Inr (Forward g)" by blast
    have room: "length (map (\<lambda>(f, _). (frame_key f, rf_expires_at f)) F) < MAX_RELAY_DEDUP"
      using Cons.prems(4) a r by (simp add: call)
    note fw = remembers_forward [OF Cons.prems(1) tm a [unfolded r] room]
    have "apart (h, t') (f, now)" if "(h, t') \<in> set F" for h t'
    proof -
      have "(frame_key h, rf_expires_at h) \<in> set (map (\<lambda>(f, _). (frame_key f, rf_expires_at f)) F)"
        using that by (force simp: image_iff)
      then show ?thesis using fw(1) [of "rf_expires_at h"] unfolding apart_def by fastforce
    qed
    then have "sorted_wrt apart (F @ [(f, now)])" using Cons.prems(5) by (auto simp: sorted_wrt_append)
    moreover have "remembers (map (\<lambda>(f, _). (frame_key f, rf_expires_at f)) (F @ [(f, now)])) now c'"
      using fw(2) by simp
    ultimately have "sorted_wrt apart ((F @ [(f, now)]) @ forwards calls c')"
      using Cons.prems(4) a r by (intro Cons.IH [OF _ sorted later]) (simp_all add: call)
    then show ?thesis using a r by (simp add: call)
  next
    case False
    then have "c' = c \<or> c' = expire_seen now c" using accept_not_Forward [OF a] by blast
    then have "remembers (map (\<lambda>(f, _). (frame_key f, rf_expires_at f)) F) now c'"
      using remembers_expire [OF Cons.prems(1) tm] remembers_later [OF Cons.prems(1) tm] by blast
    moreover have fw: "forwards (call # calls) c = forwards calls c'"
      using a False by (auto simp: call split: sum.splits relay_decision.splits)
    ultimately show ?thesis
      using Cons.prems(4,5) unfolding fw by (intro Cons.IH [OF _ sorted later]) simp_all
  qed
qed simp

lemma forwards_live: "x \<in> set (forwards calls c) \<Longrightarrow> \<exists>via. (fst x, via, snd x) \<in> set calls \<and> snd x < rf_expires_at (fst x)"
proof (induction calls arbitrary: c)
  case (Cons call calls)
  obtain f via now where call: "call = (f, via, now)" by (cases call)
  obtain r c' where a: "accept f via now c = (r, c')" by fastforce
  show ?case
    using Cons a accept_Forward(4) [of f via now c _ c']
    by (auto simp: call split: sum.splits relay_decision.splits)
qed simp

lemma distinct_keys_apart: "sorted_wrt (\<lambda>x y. g x \<noteq> g y) xs \<Longrightarrow> distinct (map g xs)"
  by (induction xs) auto

section \<open>What the gate guarantees\<close>

text \<open>
  After any calls the relay cache holds at most 512 keys, in key order without duplicates.
\<close>

theorem relay_cache_bounded:
  "length (rc_seen (snd (relay_run calls (relay_new l)))) \<le> MAX_RELAY_DEDUP \<and>
   bm_wf (rc_seen (snd (relay_run calls (relay_new l))))"
  using relay_run_inv [OF relay_new_inv, of calls l] by (simp add: relay_inv_def)

text \<open>
  A frame is forwarded only when it comes from the neighbor it names, is not this phone's
  own and is alive. The forwarded frame names this phone as its previous hop and has one hop
  more, still within its limit of at most 16; its identity, origin, limit and expiry are
  unchanged, the next phone can decode it and its gate does not reject it as invalid.
\<close>

theorem relay_forward_sound:
  assumes "accept f via now c = (Inr (Forward g), c')"
  shows "via = rf_previous_hop f \<and> via \<noteq> rc_local c \<and> rf_origin f \<noteq> rc_local c \<and> now < rf_expires_at f \<and>
    rf_previous_hop g = rc_local c \<and> unat (rf_hops g) = unat (rf_hops f) + 1 \<and>
    rf_hops g \<le> rf_hop_limit g \<and> rf_hop_limit g \<le> MAX_RELAY_HOPS \<and>
    rf_id g = rf_id f \<and> rf_origin g = rf_origin f \<and> rf_hop_limit g = rf_hop_limit f \<and>
    rf_expires_at g = rf_expires_at f \<and> relay_decode (relay_encode g) = Inr g \<and>
    relay_valid g (rc_local c) now = Inr ()"
proof -
  note fw = accept_Forward [OF assms]
  have lim: "rf_hop_limit f \<le> 16" "rf_expires_at f \<le> MAX_LOGICAL_TIME" "now \<le> MAX_LOGICAL_TIME"
    "rf_previous_hop f = via"
    using fw(1) by (auto simp: relay_valid_def not_less split: if_splits)
  have hops: "unat (rf_hops f + 1) = unat (rf_hops f) + 1"
    using fw(5) lim(1) by (simp add: unat_word_ariths word_less_nat_alt word_le_nat_alt)
  then have le: "rf_hops f + 1 \<le> rf_hop_limit f" using fw(5) by (simp add: word_less_nat_alt word_le_nat_alt)
  have pos: "rf_hop_limit f \<noteq> 0" using fw(5) by auto
  have "relay_ok g" using le lim pos by (simp add: fw(8) relay_ok_def)
  then have "relay_decode (relay_encode g) = Inr g" by (rule relay.get_put)
  moreover have "relay_valid g (rc_local c) now = Inr ()"
    using le lim pos by (simp add: fw(8) relay_valid_def not_less)
  ultimately show ?thesis using fw(2-4) lim hops le by (simp add: fw(8))
qed

definition sample_frame :: relay_frame where
  "sample_frame = \<lparr>rf_id = RelayId 5, rf_origin = MemberId 1, rf_previous_hop = MemberId 2,
     rf_hops = 1, rf_hop_limit = 4, rf_expires_at = 100\<rparr>"

theorem relay_forward_sound_witness:
  "\<exists>g c'. accept sample_frame (MemberId 2) 7 (relay_new (MemberId 3)) = (Inr (Forward g), c') \<and>
     rf_previous_hop g = MemberId 3 \<and> relay_decode (relay_encode g) = Inr g"
proof -
  have "\<exists>g c'. accept sample_frame (MemberId 2) 7 (relay_new (MemberId 3)) = (Inr (Forward g), c')"
    unfolding accept_def sample_frame_def relay_new_def expire_seen_def Let_def
    by (simp add: relay_valid_def bm_retain_def MAX_LOGICAL_TIME_def bm_contains_def word_le_nat_alt)
  then obtain g c' where a: "accept sample_frame (MemberId 2) 7 (relay_new (MemberId 3)) = (Inr (Forward g), c')"
    by blast
  from relay_forward_sound [OF a] a show ?thesis by (auto simp: relay_new_def)
qed

text \<open>
  C37: over any calls with a clock that does not go back, and as long as no more than 512 frames are let
  through in all, a key is let through a second time only after the frame of the first time has
  expired. So if every frame of a key carries the expiry its origin gave it, no key is let through
  twice.
\<close>

theorem relay_forwards_once:
  assumes "sorted (map (\<lambda>(_, _, now). now) calls)"
    and "length (forwards calls (relay_new l)) \<le> MAX_RELAY_DEDUP"
  shows "sorted_wrt (\<lambda>(f, _) (g, now). frame_key f = frame_key g \<longrightarrow> rf_expires_at f \<le> now)
      (forwards calls (relay_new l)) \<and>
    ((\<forall>(f, _) \<in> set calls. \<forall>(g, _) \<in> set calls. frame_key f = frame_key g \<longrightarrow> rf_expires_at f = rf_expires_at g) \<longrightarrow>
      distinct (forwarded calls (relay_new l)))"
proof -
  let ?F = "forwards calls (relay_new l)"
  have "remembers [] 0 (relay_new l)" by (simp add: remembers_def relay_new_inv) (simp add: relay_new_def)
  then have ap: "sorted_wrt apart ?F" using forwards_apart [of "[]" 0 "relay_new l" calls] assms by auto
  have once: "distinct (forwarded calls (relay_new l))"
    if fixed: "\<forall>(f, _) \<in> set calls. \<forall>(g, _) \<in> set calls. frame_key f = frame_key g \<longrightarrow> rf_expires_at f = rf_expires_at g"
  proof -
    have ne: "frame_key (fst x) \<noteq> frame_key (fst y)" if xy: "x \<in> set ?F" "y \<in> set ?F" "apart x y" for x y
    proof
      assume k: "frame_key (fst x) = frame_key (fst y)"
      obtain u v where "(fst x, u, snd x) \<in> set calls" "(fst y, v, snd y) \<in> set calls" and live: "snd y < rf_expires_at (fst y)"
        using forwards_live [OF xy(1)] forwards_live [OF xy(2)] by blast
      then have "rf_expires_at (fst x) = rf_expires_at (fst y)" using fixed k by blast
      then show False using k xy(3) live by (simp add: apart_def)
    qed
    have "sorted_wrt (\<lambda>x y. (frame_key \<circ> fst) x \<noteq> (frame_key \<circ> fst) y) ?F"
      by (rule sorted_wrt_mono_rel [OF _ ap]) (simp only: o_apply, rule ne)
    then show ?thesis unfolding forwarded_def by (rule distinct_keys_apart)
  qed
  show ?thesis
  proof (intro conjI impI)
    show "sorted_wrt (\<lambda>(f, _) (g, now). frame_key f = frame_key g \<longrightarrow> rf_expires_at f \<le> now) ?F"
      using ap by (simp add: apart_def [abs_def] case_prod_unfold)
  qed (rule once)
qed

theorem relay_forwards_once_witness:
  "distinct (forwarded [(sample_frame, MemberId 2, 7), (sample_frame, MemberId 2, 9)] (relay_new (MemberId 3)))"
proof -
  let ?calls = "[(sample_frame, MemberId 2, 7), (sample_frame, MemberId 2, 9)] :: relay_call list"
  have "length (forwards ?calls (relay_new (MemberId 3))) \<le> MAX_RELAY_DEDUP"
    by (simp add: split_def Let_def split: sum.splits relay_decision.splits)
  from relay_forwards_once [OF _ this] show ?thesis by simp
qed

end
