(* ===== verification/Mesh_Transport.thy ===== *)
theory Mesh_Transport
  imports Mesh_Records "HOL-Library.Product_Lexorder" "HOL-Library.Multiset"
begin

text \<open>
  Route planning of \<open>crates/mesh-replication/src/lib.rs\<close>: the audiences of a broadcast
  (\<open>broadcast_audiences\<close>), the choice of the next bearer (\<open>select_transport\<close>) and the sparse
  overlay every member derives from the roster (\<open>neighbor_plan\<close>). \<open>sort_unstable\<close> on keys that
  are pairwise different, and on member ids, is \<open>sort\<close>.
\<close>

section \<open>Audiences\<close>

text \<open>\<open>binary_search\<close> on a strictly ascending slice: the position of the element.\<close>

fun position :: "'a \<Rightarrow> 'a list \<Rightarrow> nat option" where
  "position x [] = None"
| "position x (y # ys) = (if x = y then Some 0 else map_option Suc (position x ys))"

definition broadcast_audiences :: "member_id \<Rightarrow> member_id list \<Rightarrow> durable_error + member_id list list" where
  "broadcast_audiences loc members =
     (if members = [] \<or> length members > MAX_GROUP_MEMBERS then Inl InvalidInput
      else
        let roster = sort members in
        if \<not> ascending roster \<or> position loc roster = None then Inl InvalidInput
        else Inr (chunks MAX_TARGETS (filter (\<lambda>member. member \<noteq> loc) roster)))"

section \<open>Bearers\<close>

datatype transport_kind = WifiAware | Bluetooth

record transport_candidate =
  tc_peer :: member_id
  tc_transport :: transport_kind
  tc_authenticated :: bool
  tc_healthy :: bool
  tc_eta_millis :: u32

record transport_choice =
  ch_peer :: member_id
  ch_transport :: transport_kind
  ch_eta_millis :: u32

datatype transport_decision =
    NoRoute
  | Send transport_choice
  | Keep transport_choice
  | Switch transport_choice transport_choice

fun transport_rank :: "transport_kind \<Rightarrow> u8" where
  "transport_rank WifiAware = 0"
| "transport_rank Bluetooth = 1"

definition candidate_choice :: "transport_candidate \<Rightarrow> transport_choice" where
  "candidate_choice c = \<lparr>ch_peer = tc_peer c, ch_transport = tc_transport c, ch_eta_millis = tc_eta_millis c\<rparr>"

definition same_link :: "transport_candidate \<Rightarrow> transport_candidate \<Rightarrow> bool" where
  "same_link a b \<longleftrightarrow> tc_peer a = tc_peer b \<and> tc_transport a = tc_transport b"

text \<open>The loop over the candidates, \<open>eligible\<close> in the order they were pushed.\<close>

fun collect_eligible ::
    "member_id \<Rightarrow> member_id option \<Rightarrow> transport_candidate list \<Rightarrow> transport_candidate list
     \<Rightarrow> durable_error + transport_candidate list" where
  "collect_eligible loc from [] eligible = Inr eligible"
| "collect_eligible loc from (candidate # rest) eligible =
     (if tc_peer candidate = loc then Inl InvalidInput
      else if \<not> tc_authenticated candidate \<or> \<not> tc_healthy candidate \<or> from = Some (tc_peer candidate)
      then collect_eligible loc from rest eligible
      else if tc_eta_millis candidate = 0 then Inl InvalidInput
      else if \<exists>existing \<in> set eligible. same_link existing candidate then Inl InvalidInput
      else collect_eligible loc from rest (eligible @ [candidate]))"

definition candidate_key :: "transport_candidate \<Rightarrow> u32 \<times> u8 \<times> member_id" where
  "candidate_key c = (tc_eta_millis c, transport_rank (tc_transport c), tc_peer c)"

definition select_transport ::
    "member_id \<Rightarrow> transport_choice option \<Rightarrow> transport_candidate list \<Rightarrow> member_id option
     \<Rightarrow> durable_error + transport_decision" where
  "select_transport loc current candidates received_from =
     (if received_from = Some loc then Inl InvalidInput
      else
        bindr (collect_eligible loc received_from candidates []) (\<lambda>eligible.
          let eligible = sort_key candidate_key eligible in
          case eligible of
            [] \<Rightarrow> Inr NoRoute
          | first # _ \<Rightarrow>
              let next_hop = candidate_choice first in
              (case current of
                 None \<Rightarrow> Inr (Send next_hop)
               | Some current \<Rightarrow>
                   if \<not> (\<exists>candidate \<in> set eligible.
                          tc_peer candidate = ch_peer current \<and> tc_transport candidate = ch_transport current)
                   then Inr (Send next_hop)
                   else if ch_peer current = ch_peer next_hop \<and> ch_transport current = ch_transport next_hop
                   then Inr (Keep next_hop)
                   else Inr (Switch current next_hop))))"

section \<open>The overlay\<close>

record neighbor_edges =
  wifi_aware :: "member_id list"
  bluetooth_fallback :: "member_id option"

definition neighbor_plan :: "member_id \<Rightarrow> member_id list \<Rightarrow> durable_error + neighbor_edges" where
  "neighbor_plan loc members =
     (if members = [] \<or> length members > MAX_GROUP_MEMBERS then Inl InvalidInput
      else
        let roster = sort members in
        if \<not> ascending roster then Inl InvalidInput
        else
          bindr (ok_or InvalidInput (position loc roster)) (\<lambda>index.
            let count = length roster;
                wifi = (if count = 1 then []
                        else if count = 2 then [roster ! ((index + 1) mod count)]
                        else [roster ! ((index + count - 1) mod count), roster ! ((index + 1) mod count)]);
                chord = (if count \<ge> 4 \<and> count mod 2 = 0
                         then Some (roster ! ((index + count div 2) mod count)) else None)
            in Inr \<lparr>wifi_aware = wifi, bluetooth_fallback = chord\<rparr>))"

section \<open>Lemmas on positions and audiences\<close>

lemma position_None [simp]: "position x xs = None \<longleftrightarrow> x \<notin> set xs"
  by (induction xs) auto

lemma position_Some: "position x xs = Some i \<Longrightarrow> i < length xs \<and> xs ! i = x"
  by (induction xs arbitrary: i) (auto split: if_splits)

lemma position_nth: "distinct xs \<Longrightarrow> i < length xs \<Longrightarrow> position (xs ! i) xs = Some i"
proof (induction xs arbitrary: i)
  case (Cons x xs)
  then show ?case by (cases i) auto
qed simp

lemma sort_perm: "mset xs = mset ys \<Longrightarrow> sort xs = sort (ys :: 'a::linorder list)"
  by (metis mset_sort properties_for_sort sorted_sort)

lemma div_ceil_49: "n \<le> 49 \<Longrightarrow> div_ceil n 10 \<le> 5"
  by (simp add: div_ceil_def) presburger

text \<open>
  \<open>broadcast_audiences\<close> splits every valid roster, and only those, into at most five
  audiences of at most ten members; each other member is in exactly one audience, the
  origin is in none, and the order of the input does not matter.
\<close>

theorem broadcast_partition:
  "case broadcast_audiences loc members of
     Inl e \<Rightarrow> e = InvalidInput \<and> \<not> (distinct members \<and> length members \<le> MAX_GROUP_MEMBERS \<and> loc \<in> set members)
   | Inr groups \<Rightarrow>
       distinct members \<and> length members \<le> MAX_GROUP_MEMBERS \<and> loc \<in> set members \<and>
       distinct (concat groups) \<and> set (concat groups) = set members - {loc} \<and>
       length groups \<le> 5 \<and> list_all (\<lambda>g. g \<noteq> [] \<and> length g \<le> MAX_TARGETS) groups \<and>
       broadcast_audiences loc (rev members) = Inr groups"
proof (cases "distinct members \<and> length members \<le> 50 \<and> loc \<in> set members")
  case True
  let ?others = "filter (\<lambda>m. m \<noteq> loc) (sort members)"
  have b: "broadcast_audiences loc members = Inr (chunks 10 ?others)"
    using True by (auto simp: broadcast_audiences_def ascending_sort_iff Let_def)
  have rev: "broadcast_audiences loc (rev members) = broadcast_audiences loc members"
    using sort_perm [of "rev members" members] by (simp add: broadcast_audiences_def)
  have "length ?others < length (sort members)"
    using True by (intro length_filter_less [of loc]) auto
  then have "length (chunks 10 ?others) \<le> 5"
    using True div_ceil_49 [of "length ?others"] by (simp add: length_chunks)
  moreover have "list_all (\<lambda>g. g \<noteq> [] \<and> length g \<le> 10) (chunks 10 ?others)"
    using chunks_length_le [of 10 _ ?others] by (auto simp: list_all_iff)
  ultimately show ?thesis using True b rev by auto
next
  case False
  then have "broadcast_audiences loc members = Inl InvalidInput"
    by (auto simp: broadcast_audiences_def ascending_sort_iff Let_def)
  then show ?thesis using False by simp
qed

section \<open>The choice of a bearer\<close>

definition eligible :: "member_id option \<Rightarrow> transport_candidate \<Rightarrow> bool" where
  "eligible from c \<longleftrightarrow> tc_authenticated c \<and> tc_healthy c \<and> from \<noteq> Some (tc_peer c)"

definition candidates_ok :: "member_id \<Rightarrow> member_id option \<Rightarrow> transport_candidate list \<Rightarrow> bool" where
  "candidates_ok loc from cs \<longleftrightarrow> (\<forall>c \<in> set cs. tc_peer c \<noteq> loc \<and> (eligible from c \<longrightarrow> tc_eta_millis c \<noteq> 0)) \<and>
     distinct (map (\<lambda>c. (tc_peer c, tc_transport c)) (filter (eligible from) cs))"

lemma collect_eligible_spec:
  "distinct (map (\<lambda>c. (tc_peer c, tc_transport c)) acc) \<Longrightarrow>
   collect_eligible loc from cs acc =
     (if (\<forall>c \<in> set cs. tc_peer c \<noteq> loc \<and> (eligible from c \<longrightarrow> tc_eta_millis c \<noteq> 0)) \<and>
         distinct (map (\<lambda>c. (tc_peer c, tc_transport c)) (acc @ filter (eligible from) cs))
      then Inr (acc @ filter (eligible from) cs) else Inl InvalidInput)"
proof (induction cs arbitrary: acc)
  case (Cons c cs)
  have step: "collect_eligible loc from (c # cs) acc =
     (if tc_peer c = loc then Inl InvalidInput
      else if \<not> eligible from c then collect_eligible loc from cs acc
      else if tc_eta_millis c = 0 then Inl InvalidInput
      else if \<exists>e \<in> set acc. same_link e c then Inl InvalidInput
      else collect_eligible loc from cs (acc @ [c]))"
    by (simp add: eligible_def)
  show ?case
  proof (cases "tc_peer c = loc \<or> (eligible from c \<and> tc_eta_millis c = 0)")
    case True
    then show ?thesis unfolding step by fastforce
  next
    case ok: False
    show ?thesis
    proof (cases "eligible from c")
      case False
      then show ?thesis using ok Cons.IH [OF Cons.prems] unfolding step by simp
    next
      case el: True
      show ?thesis
      proof (cases "\<exists>e \<in> set acc. same_link e c")
        case True
        then obtain e where "e \<in> set acc" "tc_peer e = tc_peer c" "tc_transport e = tc_transport c"
          by (auto simp: same_link_def)
        then have "\<not> distinct (map (\<lambda>c. (tc_peer c, tc_transport c)) (acc @ filter (eligible from) (c # cs)))"
          using el by (force simp: image_iff)
        then show ?thesis using ok el True unfolding step by simp
      next
        case False
        then have "distinct (map (\<lambda>c. (tc_peer c, tc_transport c)) (acc @ [c]))"
          using Cons.prems by (auto simp: same_link_def)
        from Cons.IH [OF this] show ?thesis using ok el False unfolding step by simp
      qed
    qed
  qed
qed simp

lemma collect_eligible_eq:
  "collect_eligible loc from cs [] =
    (if candidates_ok loc from cs then Inr (filter (eligible from) cs) else Inl InvalidInput)"
  by (simp add: collect_eligible_spec candidates_ok_def)

definition best_choice :: "member_id option \<Rightarrow> transport_candidate list \<Rightarrow> transport_choice \<Rightarrow> bool" where
  "best_choice from cs n \<longleftrightarrow> (\<exists>c \<in> set cs. eligible from c \<and> n = candidate_choice c \<and>
     (\<forall>d \<in> set cs. eligible from d \<longrightarrow> candidate_key c \<le> candidate_key d))"

definition live_choice :: "member_id option \<Rightarrow> transport_candidate list \<Rightarrow> transport_choice \<Rightarrow> bool" where
  "live_choice from cs n \<longleftrightarrow>
     (\<exists>c \<in> set cs. eligible from c \<and> tc_peer c = ch_peer n \<and> tc_transport c = ch_transport n)"

lemma sort_key_first:
  assumes "sort_key f xs = y # ys"
  shows "y \<in> set xs \<and> (\<forall>x \<in> set xs. f y \<le> f x)"
proof -
  have "sorted (map f (y # ys))" using assms sorted_sort_key [of f xs] by simp
  moreover have "set xs = set (y # ys)" using assms set_sort [of f xs] by simp
  ultimately show ?thesis by auto
qed

text \<open>
  \<open>select_transport\<close> rejects the call only for a local or repeated or zero-ETA candidate,
  reports no route exactly when no candidate is authenticated, healthy and other than the
  previous hop, and otherwise picks one with the least ETA, then bearer, then member id; it
  keeps the current bearer only when it is that one, and switches only away from a live one.
\<close>

theorem select_transport_best:
  "case select_transport loc current cs from of
     Inl e \<Rightarrow> e = InvalidInput \<and> \<not> (from \<noteq> Some loc \<and> candidates_ok loc from cs)
   | Inr NoRoute \<Rightarrow> filter (eligible from) cs = []
   | Inr (Send n) \<Rightarrow> best_choice from cs n \<and> \<not> (\<exists>c. current = Some c \<and> live_choice from cs c)
   | Inr (Keep n) \<Rightarrow> best_choice from cs n \<and>
       (\<exists>c. current = Some c \<and> ch_peer c = ch_peer n \<and> ch_transport c = ch_transport n)
   | Inr (Switch c n) \<Rightarrow> best_choice from cs n \<and> current = Some c \<and> live_choice from cs c \<and>
       \<not> (ch_peer c = ch_peer n \<and> ch_transport c = ch_transport n)"
proof (cases "from \<noteq> Some loc \<and> candidates_ok loc from cs")
  case False
  then show ?thesis by (auto simp: select_transport_def collect_eligible_eq)
next
  case True
  let ?E = "filter (eligible from) cs"
  have live: "(\<exists>c \<in> set (sort_key candidate_key ?E). tc_peer c = ch_peer n \<and> tc_transport c = ch_transport n)
      \<longleftrightarrow> live_choice from cs n" for n
    by (auto simp: live_choice_def)
  show ?thesis
  proof (cases "sort_key candidate_key ?E")
    case Nil
    then have "?E = []" by (metis length_0_conv length_sort)
    then show ?thesis using True by (simp add: select_transport_def collect_eligible_eq)
  next
    case (Cons y ys)
    have "best_choice from cs (candidate_choice y)"
      using sort_key_first [OF Cons] by (auto simp: best_choice_def)
    then show ?thesis
      using True live Cons by (auto simp: select_transport_def collect_eligible_eq Let_def split: option.splits)
  qed
qed

section \<open>The overlay as a graph\<close>

definition links :: "member_id list \<Rightarrow> member_id \<Rightarrow> member_id list" where
  "links members a =
     (case neighbor_plan a members of
        Inl _ \<Rightarrow> []
      | Inr p \<Rightarrow> wifi_aware p @ (case bluetooth_fallback p of None \<Rightarrow> [] | Some m \<Rightarrow> [m]))"

definition overlay :: "member_id list \<Rightarrow> (member_id \<times> member_id) set" where
  "overlay members = {(a, b). a \<in> set members \<and> b \<in> set (links members a)}"

text \<open>The same graph on positions in the sorted roster of \<open>n\<close> members.\<close>

definition idx_links :: "nat \<Rightarrow> nat \<Rightarrow> nat set" where
  "idx_links n i =
     (if n = 1 then {} else {(i + n - 1) mod n, (i + 1) mod n}) \<union>
     (if n \<ge> 4 \<and> n mod 2 = 0 then {(i + n div 2) mod n} else {})"

lemma links_idx:
  assumes "distinct members" and "length members \<le> 50" and "i < length members"
  shows "set (links members (sort members ! i)) = (\<lambda>j. sort members ! j) ` idx_links (length members) i"
proof -
  have ne: "members \<noteq> []" using assms(3) by auto
  have pos: "position (sort members ! i) (sort members) = Some i"
    using assms by (intro position_nth) simp_all
  have two: "(i + 2 - 1) mod 2 = (i + 1) mod (2 :: nat)" by simp
  show ?thesis
    using assms ne pos two
    by (auto simp: links_def neighbor_plan_def ascending_sort_iff Let_def idx_links_def)
qed

lemma idx_links_range: "j \<in> idx_links n i \<Longrightarrow> 0 < n \<Longrightarrow> j < n"
  by (auto simp: idx_links_def split: if_splits)

lemma idx_links_cases:
  assumes "i < n"
  shows "j \<in> idx_links n i \<longleftrightarrow>
    (n \<noteq> 1 \<and> (j = (if i = 0 then n - 1 else i - 1) \<or> j = (if i + 1 = n then 0 else i + 1))) \<or>
    (n \<ge> 4 \<and> n mod 2 = 0 \<and> j = (if i + n div 2 < n then i + n div 2 else i + n div 2 - n))"
proof -
  have 1: "(i + n - 1) mod n = (if i = 0 then n - 1 else i - 1)"
  proof (cases "i = 0")
    case False
    then have "i + n - 1 = (i - 1) + n" by simp
    then have "(i + n - 1) mod n = (i - 1) mod n" by (simp only: mod_add_self2)
    then show ?thesis using False assms by (simp only: if_False) simp
  qed (use assms in simp)
  have 2: "(i + 1) mod n = (if i + 1 = n then 0 else i + 1)" using assms by auto
  have 3: "(i + n div 2) mod n = (if i + n div 2 < n then i + n div 2 else i + n div 2 - n)"
    using assms by (auto simp: mod_if)
  show ?thesis unfolding idx_links_def 1 2 3 by auto
qed

lemma idx_links_sym:
  assumes "i < n" and "j < n" and "j \<in> idx_links n i"
  shows "i \<in> idx_links n j"
proof -
  consider (ring) "n \<noteq> 1" "j = (if i = 0 then n - 1 else i - 1) \<or> j = (if i + 1 = n then 0 else i + 1)"
    | (chord) "n \<ge> 4" "n mod 2 = 0" "j = (if i + n div 2 < n then i + n div 2 else i + n div 2 - n)"
    using assms(3) [unfolded idx_links_cases [OF assms(1)]] by (elim disjE conjE) simp_all
  then show ?thesis
  proof cases
    case ring
    then show ?thesis unfolding idx_links_cases [OF assms(2)] using assms(1) by (auto split: if_splits)
  next
    case chord
    then obtain h where n: "n = 2 * h" by (metis mod_0_imp_dvd dvdE)
    then have "i = (if j + n div 2 < n then j + n div 2 else j + n div 2 - n)"
      using chord(3) assms(1) by (auto split: if_splits)
    then show ?thesis unfolding idx_links_cases [OF assms(2)] using chord(1,2) by blast
  qed
qed

text \<open>Walks on positions: \<open>k\<close> steps forward, \<open>k\<close> steps back, one step across.\<close>

definition idx_rel :: "nat \<Rightarrow> (nat \<times> nat) set" where
  "idx_rel n = {(i, j). i < n \<and> j \<in> idx_links n i}"

lemma idx_forward: "2 \<le> n \<Longrightarrow> i < n \<Longrightarrow> (i, (i + k) mod n) \<in> idx_rel n ^^ k"
proof (induction k)
  case (Suc k)
  have "((i + k) mod n, ((i + k) mod n + 1) mod n) \<in> idx_rel n"
    using Suc.prems by (auto simp: idx_rel_def idx_links_def)
  then show ?case using Suc by (auto simp: mod_Suc_eq)
qed simp

lemma idx_back: "2 \<le> n \<Longrightarrow> i < n \<Longrightarrow> (i, (i + k * (n - 1)) mod n) \<in> idx_rel n ^^ k"
proof (induction k)
  case (Suc k)
  let ?a = "(i + k * (n - 1)) mod n"
  have "(?a, (?a + n - 1) mod n) \<in> idx_rel n"
    using Suc.prems by (auto simp: idx_rel_def idx_links_def)
  moreover have "(?a + n - 1) mod n = (i + Suc k * (n - 1)) mod n"
  proof -
    have "?a + n - 1 = ?a + (n - 1)" using Suc.prems by simp
    then have "(?a + n - 1) mod n = (i + k * (n - 1) + (n - 1)) mod n" by (simp only: mod_add_left_eq)
    then show ?thesis by (simp only: mult_Suc add.assoc add.commute [of "k * (n - 1)"])
  qed
  ultimately show ?case using Suc by auto
qed simp

lemma idx_back_to:
  assumes "2 \<le> n" and "i < n" and "0 < k" and "k < n"
  shows "(i, (i + k) mod n) \<in> idx_rel n ^^ (n - k)"
proof -
  obtain m where m: "n = Suc (k + m)" using assms(4) by (auto simp: less_iff_Suc_add)
  have "(n - k) * (n - 1) = n * (n - k - 1) + k"
    unfolding m by (simp add: algebra_simps)
  then have "(i + (n - k) * (n - 1)) mod n = (i + k) mod n"
    by (metis add.assoc add.commute mod_mult_self2)
  then show ?thesis using idx_back [OF assms(1,2), of "n - k"] by simp
qed

lemma idx_across:
  "4 \<le> n \<Longrightarrow> n mod 2 = 0 \<Longrightarrow> i < n \<Longrightarrow> (i, (i + n div 2) mod n) \<in> idx_rel n"
  by (simp add: idx_rel_def idx_links_def)

text \<open>Every position is within 13 steps of every other when the roster is even.\<close>

lemma idx_diameter:
  assumes n: "n mod 2 = 0" "2 \<le> n" "n \<le> 50" and i: "i < n" and j: "j < n"
  shows "\<exists>k \<le> 13. (i, j) \<in> idx_rel n ^^ k"
proof -
  define k where "k = (if i \<le> j then j - i else j + n - i)"
  have k: "k < n" and jk: "(i + k) mod n = j" using i j by (auto simp: k_def)
  consider "k \<le> 13" | "n \<le> k + 13" "0 < k" | "13 < k" "k + 13 < n" by linarith
  then show ?thesis
  proof cases
    case 1
    then show ?thesis using idx_forward [OF n(2) i, of k] jk by auto
  next
    case 2
    then have "(i, j) \<in> idx_rel n ^^ (n - k)" using idx_back_to [OF n(2) i _ k] jk by simp
    then show ?thesis using 2 by (intro exI [of _ "n - k"]) simp
  next
    case 3
    let ?h = "n div 2"
    let ?m = "(i + ?h) mod n"
    have h: "n = 2 * ?h" and m: "?m < n" using n i by auto
    have across: "(i, ?m) \<in> idx_rel n" using 3 n i by (intro idx_across) auto
    have from_m: "\<exists>d \<le> 12. (?m, j) \<in> idx_rel n ^^ d"
    proof (cases "?h \<le> k")
      case True
      have "(?m + (k - ?h)) mod n = (i + ?h + (k - ?h)) mod n" by (rule mod_add_left_eq)
      also have "i + ?h + (k - ?h) = i + k" using True by simp
      finally have "(?m + (k - ?h)) mod n = (i + k) mod n" .
      then have "(?m, j) \<in> idx_rel n ^^ (k - ?h)" using idx_forward [OF n(2) m, of "k - ?h"] jk by simp
      then show ?thesis using 3 h n(3) by (intro exI [of _ "k - ?h"]) auto
    next
      case False
      let ?d = "?h - k"
      have d: "0 < n - ?d" "n - ?d < n" using False h 3 by auto
      have "(?m + (n - ?d)) mod n = (i + k + n) mod n"
      proof -
        have "(?m + (n - ?d)) mod n = (i + ?h + (n - ?d)) mod n" by (rule mod_add_left_eq)
        moreover have "i + ?h + (n - ?d) = i + k + n" using False h by linarith
        ultimately show ?thesis by (simp only:)
      qed
      then have "(?m + (n - ?d)) mod n = j" using jk by simp
      then have "(?m, j) \<in> idx_rel n ^^ (n - (n - ?d))" using idx_back_to [OF n(2) m d] by simp
      moreover have "n - (n - ?d) \<le> 12" using False h 3 n(3) by linarith
      ultimately show ?thesis by blast
    qed
    then obtain d where "d \<le> 12" "(?m, j) \<in> idx_rel n ^^ d" by blast
    then have "(i, j) \<in> idx_rel n ^^ Suc d" using across by (intro relpow_Suc_I2)
    then show ?thesis using \<open>d \<le> 12\<close> by (intro exI [of _ "Suc d"]) simp
  qed
qed

text \<open>Without a chord the ring distance from position 0 drops by at most one a step.\<close>

lemma idx_odd_distance:
  assumes "n mod 2 = 1" and "3 \<le> n" and "(i, j) \<in> idx_rel n ^^ k" and "i < n"
  shows "min j (n - j) \<le> min i (n - i) + k \<and> j < n"
  using assms(3)
proof (induction k arbitrary: j)
  case 0
  then show ?case using assms(4) by simp
next
  case (Suc k)
  then obtain m where m: "(i, m) \<in> idx_rel n ^^ k" "(m, j) \<in> idx_rel n" by auto
  have mn: "m < n" and IH: "min m (n - m) \<le> min i (n - i) + k" using Suc.IH [OF m(1)] by auto
  have "j = (if m = 0 then n - 1 else m - 1) \<or> j = (if m + 1 = n then 0 else m + 1)"
    using m(2) assms(1) idx_links_cases [OF mn] by (auto simp: idx_rel_def)
  then show ?case using IH mn assms(2) by (auto simp: min_def split: if_splits)
qed

section \<open>From positions back to members\<close>

lemma neighbor_plan_invalid:
  assumes "\<not> (distinct members \<and> length members \<le> 50 \<and> a \<in> set members)"
  shows "neighbor_plan a members = Inl InvalidInput"
proof (cases "a \<in> set members")
  case True
  then show ?thesis using assms by (auto simp: neighbor_plan_def ascending_sort_iff Let_def)
next
  case False
  then have "position a (sort members) = None" by simp
  then have "ok_or InvalidInput (position a (sort members)) = Inl InvalidInput" by (simp only: ok_or_None)
  then show ?thesis by (simp add: neighbor_plan_def Let_def)
qed

lemma links_invalid:
  "\<not> (distinct members \<and> length members \<le> 50 \<and> a \<in> set members) \<Longrightarrow> links members a = []"
  by (simp add: links_def neighbor_plan_invalid)

lemma overlay_valid:
  "(a, b) \<in> overlay members \<Longrightarrow> distinct members \<and> length members \<le> 50 \<and> a \<in> set members"
  using links_invalid [of members a] by (cases "links members a = []") (auto simp: overlay_def)

lemma overlay_iff:
  assumes "distinct members" and "length members \<le> 50" and "i < length members"
  shows "(sort members ! i, b) \<in> overlay members \<longleftrightarrow>
    (\<exists>j. (i, j) \<in> idx_rel (length members) \<and> b = sort members ! j)"
proof -
  have "sort members ! i \<in> set members" using assms(3) by (metis length_sort nth_mem set_sort)
  then show ?thesis using links_idx [OF assms] assms(3) by (auto simp: overlay_def idx_rel_def)
qed

lemma idx_rel_range: "(i, j) \<in> idx_rel n \<Longrightarrow> i < n \<and> j < n"
  using idx_links_range by (auto simp: idx_rel_def)

lemma overlay_walk:
  assumes "distinct members" and "length members \<le> 50" and "i < length members"
  shows "(sort members ! i, b) \<in> overlay members ^^ k \<longleftrightarrow>
    (\<exists>j < length members. (i, j) \<in> idx_rel (length members) ^^ k \<and> b = sort members ! j)"
proof (induction k arbitrary: b)
  case 0
  then show ?case using assms(3) by auto
next
  case (Suc k)
  have "(sort members ! i, b) \<in> overlay members ^^ Suc k \<longleftrightarrow>
      (\<exists>j < length members. (i, j) \<in> idx_rel (length members) ^^ k \<and> (sort members ! j, b) \<in> overlay members)"
    using Suc.IH by auto
  also have "\<dots> \<longleftrightarrow> (\<exists>j l. (i, j) \<in> idx_rel (length members) ^^ k \<and> (j, l) \<in> idx_rel (length members) \<and>
      b = sort members ! l)"
    using overlay_iff [OF assms(1,2)] idx_rel_range by metis
  also have "\<dots> \<longleftrightarrow> (\<exists>l < length members. (i, l) \<in> idx_rel (length members) ^^ Suc k \<and> b = sort members ! l)"
    using idx_rel_range by (metis relpow_Suc_E relpow_Suc_I)
  finally show ?case .
qed

lemma sorted_at:
  assumes "a \<in> set members"
  obtains i where "i < length members" "a = sort members ! i"
  using assms by (metis in_set_conv_nth length_sort set_sort)

lemma idx_links_irrefl: "i < n \<Longrightarrow> i \<notin> idx_links n i"
  by (subst idx_links_cases) auto

lemma idx_chord_new:
  fixes i n :: nat
  assumes "i < n" and "4 \<le> n" and "n mod 2 = 0"
  shows "(i + n div 2) mod n \<noteq> (i + n - 1) mod n" "(i + n div 2) mod n \<noteq> (i + 1) mod n"
    "n \<noteq> 2 \<Longrightarrow> (i + n - 1) mod n \<noteq> (i + 1) mod n"
proof -
  have 1: "(i + n - 1) mod n = (if i = 0 then n - 1 else i - 1)"
  proof (cases "i = 0")
    case False
    then have "i + n - 1 = (i - 1) + n" by simp
    then have "(i + n - 1) mod n = (i - 1) mod n" by (simp only: mod_add_self2)
    then show ?thesis using False assms by (simp only: if_False) simp
  qed (use assms in simp)
  have 2: "(i + 1) mod n = (if i + 1 = n then 0 else i + 1)" using assms by auto
  have 3: "(i + n div 2) mod n = (if i + n div 2 < n then i + n div 2 else i + n div 2 - n)"
    using assms by (auto simp: mod_if)
  have h: "n = 2 * (n div 2)" "2 \<le> n div 2" using assms by auto
  show "(i + n div 2) mod n \<noteq> (i + n - 1) mod n" unfolding 1 3 using h assms(1) by auto
  show "(i + n div 2) mod n \<noteq> (i + 1) mod n" unfolding 2 3 using h assms(1) by auto
  show "n \<noteq> 2 \<Longrightarrow> (i + n - 1) mod n \<noteq> (i + 1) mod n" unfolding 1 2 using assms by auto
qed

text \<open>
  The overlay the members derive on their own is consistent: it is symmetric, no member
  is its own neighbor, no plan has more than two radio neighbors, the Bluetooth chord is none
  of them, and the plan does not depend on the order of the roster.
\<close>

theorem overlay_consistent:
  "sym (overlay members) \<and> (a, a) \<notin> overlay members \<and>
   neighbor_plan a (rev members) = neighbor_plan a members \<and>
   (case neighbor_plan a members of
      Inl e \<Rightarrow> e = InvalidInput
    | Inr p \<Rightarrow> length (wifi_aware p) \<le> 2 \<and>
        (case bluetooth_fallback p of None \<Rightarrow> True | Some m \<Rightarrow> m \<notin> set (wifi_aware p)))"
proof -
  have sym: "sym (overlay members)"
  proof (rule symI)
    fix x y assume xy: "(x, y) \<in> overlay members"
    then have ok: "distinct members" "length members \<le> 50" "x \<in> set members"
      using overlay_valid by blast+
    obtain i where i: "i < length members" "x = sort members ! i" using sorted_at [OF ok(3)] .
    then obtain j where j: "(i, j) \<in> idx_rel (length members)" "y = sort members ! j"
      using xy overlay_iff [OF ok(1,2)] by auto
    then have "(j, i) \<in> idx_rel (length members)"
      using idx_links_sym [of i "length members" j] idx_rel_range [OF j(1)] by (simp add: idx_rel_def)
    then show "(y, x) \<in> overlay members"
      using overlay_iff [OF ok(1,2), of j x] idx_rel_range [OF j(1)] i(2) j(2) by blast
  qed
  have irrefl: "(a, a) \<notin> overlay members"
  proof
    assume aa: "(a, a) \<in> overlay members"
    then have ok: "distinct members" "length members \<le> 50" "a \<in> set members"
      using overlay_valid by blast+
    obtain i where i: "i < length members" "a = sort members ! i" using sorted_at [OF ok(3)] .
    then obtain j where j: "(i, j) \<in> idx_rel (length members)" "a = sort members ! j"
      using aa overlay_iff [OF ok(1,2)] by auto
    then have "i = j"
      using ok i idx_rel_range [OF j(1)] nth_eq_iff_index_eq [of "sort members" i j] by simp
    then show False using j(1) idx_links_irrefl i(1) by (auto simp: idx_rel_def)
  qed
  have rev: "neighbor_plan a (rev members) = neighbor_plan a members"
    using sort_perm [of "rev members" members] by (simp add: neighbor_plan_def)
  show ?thesis
  proof (cases "distinct members \<and> length members \<le> 50 \<and> a \<in> set members")
    case False
    then have "neighbor_plan a members = Inl InvalidInput" by (rule neighbor_plan_invalid)
    then show ?thesis using sym irrefl rev by simp
  next
    case True
    then obtain i where i: "i < length members" "a = sort members ! i" using sorted_at by blast
    have at: "(sort members ! j = sort members ! k) = (j = k)"
      if "j < length members" "k < length members" for j k
      using that True nth_eq_iff_index_eq [of "sort members" j k] by simp
    have "members \<noteq> []" "position a (sort members) = Some i"
      using i True position_nth [of "sort members" i] by auto
    then show ?thesis
      using sym irrefl rev True i(1) idx_chord_new [OF i(1)]
      by (simp add: neighbor_plan_def ascending_sort_iff Let_def at)
  qed
qed

text \<open>
  C40: on every roster with an even number of members, up to 50, each member reaches each
  other over at most 13 planned edges, which is within the 16 hops of a relay frame.
\<close>

theorem overlay_diameter:
  assumes "distinct members" and "length members \<le> MAX_GROUP_MEMBERS" and "even (length members)"
    and "a \<in> set members" and "b \<in> set members"
  shows "\<exists>k \<le> 13. (a, b) \<in> overlay members ^^ k"
proof -
  obtain i where i: "i < length members" "a = sort members ! i" using sorted_at [OF assms(4)] .
  obtain j where j: "j < length members" "b = sort members ! j" using sorted_at [OF assms(5)] .
  have "length members mod 2 = 0" "2 \<le> length members" "length members \<le> 50"
    using assms(2,3) i(1) by (auto simp: even_iff_mod_2_eq_zero)
  from idx_diameter [OF this i(1) j(1)] obtain k
    where "k \<le> 13" "(i, j) \<in> idx_rel (length members) ^^ k" by blast
  then show ?thesis using overlay_walk [OF assms(1) _ i(1)] assms(2) i(2) j by auto
qed

theorem overlay_diameter_witness:
  "\<exists>k \<le> 13. (MemberId 4, MemberId 2) \<in> overlay [MemberId 4, MemberId 1, MemberId 3, MemberId 2] ^^ k"
  by (rule overlay_diameter) simp_all

text \<open>
  The chord exists for even rosters only, so on an odd roster of 35 to 49 members there
  are two members with no planned path within the 16 hops of a relay frame.
\<close>

theorem odd_overlay_exceeds_hops:
  assumes "distinct members" and "length members \<le> MAX_GROUP_MEMBERS" and "odd (length members)"
    and "35 \<le> length members"
  shows "\<exists>a \<in> set members. \<exists>b \<in> set members. \<forall>k. (a, b) \<in> overlay members ^^ k \<longrightarrow> unat MAX_RELAY_HOPS < k"
proof -
  let ?n = "length members" and ?r = "sort members"
  have z: "0 < ?n" and h: "17 < ?n" using assms(4) by auto
  have mem: "?r ! 0 \<in> set members" "?r ! 17 \<in> set members"
    using z h by (metis length_sort nth_mem set_sort)+
  have "16 < k" if w: "(?r ! 0, ?r ! 17) \<in> overlay members ^^ k" for k
  proof -
    obtain j where j: "j < ?n" "(0, j) \<in> idx_rel ?n ^^ k" "?r ! 17 = ?r ! j"
      using w overlay_walk [OF assms(1) _ z] assms(2) by auto
    have "j = 17"
      using j(1,3) h assms(1) nth_eq_iff_index_eq [of ?r 17 j] by simp
    moreover have "?n mod 2 = 1" using assms(3) by presburger
    ultimately show ?thesis
      using idx_odd_distance [of ?n 0 j k] j(2) assms(4) z by simp
  qed
  then show ?thesis using mem by auto
qed

theorem odd_overlay_exceeds_hops_witness:
  "\<exists>a \<in> set (map (\<lambda>i. MemberId (of_nat i)) [0..<35]). \<exists>b \<in> set (map (\<lambda>i. MemberId (of_nat i)) [0..<35]).
     \<forall>k. (a, b) \<in> overlay (map (\<lambda>i. MemberId (of_nat i)) [0..<35]) ^^ k \<longrightarrow> unat MAX_RELAY_HOPS < k"
proof (rule odd_overlay_exceeds_hops)
  have small: "take_bit 256 i = i" if "i < 35" for i :: nat
    using less_trans [OF that, of "2 ^ 256"] by (simp add: take_bit_nat_eq_self_iff)
  have "inj_on (\<lambda>i. MemberId (of_nat i)) {0..<35}"
    by (rule inj_onI) (simp add: word_of_nat_eq_iff small)
  then show "distinct (map (\<lambda>i. MemberId (of_nat i)) [0..<35])" by (simp add: distinct_map)
qed simp_all

end
