(* ===== verification/Mesh_Object.thy ===== *)
theory Mesh_Object
  imports Mesh_Codec
begin

text \<open>
  \<open>crates/mesh-object/src/lib.rs\<close>: local storage manifests and the split of an opaque body
  into 1 KiB chunks. The crate carries its own CBOR writer and reader; they are modelled as
  they stand (\<open>mo_*\<close>) and proved equal to the shared ones, whose contracts then give the
  exact language of \<open>Manifest::decode\<close>. \<open>sha256\<close> (crate \<open>sha2\<close>) is an argument.
\<close>

section \<open>The crate's own writer and reader\<close>

definition mo_head :: "u8 \<Rightarrow> u64 \<Rightarrow> bytes \<Rightarrow> bytes" where
  "mo_head major n b =
     (let tag = push_bit 5 major in
      if n \<le> 23 then b @ [tag OR ucast n]
      else if n \<le> 255 then b @ [tag OR 24, ucast n]
      else if n \<le> 65535 then (b @ [tag OR 25]) @ be_bytes (ucast n :: u16)
      else if n \<le> 4294967295 then (b @ [tag OR 26]) @ be_bytes (ucast n :: u32)
      else (b @ [tag OR 27]) @ be_bytes n)"

definition mo_uint :: "u64 \<Rightarrow> bytes \<Rightarrow> bytes" where
  "mo_uint n b = mo_head 0 n b"

definition mo_blob :: "bytes \<Rightarrow> bytes \<Rightarrow> bytes" where
  "mo_blob v b = mo_head 2 (of_nat (length v)) b @ v"

definition mo_text :: "bytes \<Rightarrow> bytes \<Rightarrow> bytes" where
  "mo_text s b = mo_head 3 (of_nat (length s)) b @ s"

definition mo_byte :: "reader \<Rightarrow> durable_error + u8 \<times> reader" where
  "mo_byte r =
     (if rd_pos r < length (rd_bytes r)
      then Inr (rd_bytes r ! rd_pos r, r\<lparr>rd_pos := rd_pos r + 1\<rparr>)
      else Inl InvalidInput)"

primrec mo_be :: "nat \<Rightarrow> u64 \<Rightarrow> reader \<Rightarrow> durable_error + u64 \<times> reader" where
  "mo_be 0 n r = Inr (n, r)"
| "mo_be (Suc k) n r = bindr (mo_byte r) (\<lambda>(b, r). mo_be k (push_bit 8 n OR ucast b) r)"

definition mo_value :: "u8 \<Rightarrow> reader \<Rightarrow> durable_error + u64 \<times> reader" where
  "mo_value major r =
     bindr (mo_byte r) (\<lambda>(b, r).
       if drop_bit 5 b \<noteq> major then Inl InvalidInput
       else
         let tag = b AND 31 in
         if tag < 24 then Inr (ucast tag, r)
         else
           bindr (if tag = 24 then Inr (1, 24)
                  else if tag = 25 then Inr (2, 256)
                  else if tag = 26 then Inr (4, 65536)
                  else if tag = 27 then Inr (8, 4294967296)
                  else Inl InvalidInput) (\<lambda>(count, minimum).
           bindr (mo_be count 0 r) (\<lambda>(n, r).
             if n < minimum then Inl InvalidInput else Inr (n, r))))"

definition mo_array :: "u64 \<Rightarrow> reader \<Rightarrow> durable_error + unit \<times> reader" where
  "mo_array n r =
     bindr (mo_value 4 r) (\<lambda>(m, r). if m \<noteq> n then Inl InvalidInput else Inr ((), r))"

definition mo_bytes :: "u8 \<Rightarrow> nat \<Rightarrow> reader \<Rightarrow> durable_error + bytes \<times> reader" where
  "mo_bytes major limit r =
     bindr (mo_value major r) (\<lambda>(n, r).
       if n > of_nat limit then Inl InvalidInput
       else
         let end = rd_pos r + unat n in
         if 2 ^ 64 \<le> end then Inl InvalidInput
         else if length (rd_bytes r) < end then Inl InvalidInput
         else Inr (take (unat n) (drop (rd_pos r) (rd_bytes r)), r\<lparr>rd_pos := end\<rparr>))"

definition mo_hash :: "reader \<Rightarrow> durable_error + arr32 \<times> reader" where
  "mo_hash r =
     bindr (mo_bytes 2 32 r) (\<lambda>(b, r).
       if length b = 32 then Inr (be_word b, r) else Inl InvalidInput)"

primrec mo_hashes :: "nat \<Rightarrow> reader \<Rightarrow> durable_error + arr32 list \<times> reader" where
  "mo_hashes 0 r = Inr ([], r)"
| "mo_hashes (Suc n) r =
     bindr (mo_hash r) (\<lambda>(h, r). bindr (mo_hashes n r) (\<lambda>(hs, r). Inr (h # hs, r)))"

text \<open>They are the shared codec's operations.\<close>

lemma mo_head_eq: "mo_head = w_head"
  by (simp add: fun_eq_iff mo_head_def w_head_def Let_def)

lemma mo_writer_eq: "mo_uint = w_uint" "mo_blob = w_bytes" "mo_text = w_text"
  by (simp_all add: fun_eq_iff mo_uint_def mo_blob_def mo_text_def w_uint_def w_bytes_def
      w_text_def mo_head_eq)

lemma mo_byte_eq: "mo_byte = reader_byte"
  by (simp add: fun_eq_iff mo_byte_def reader_byte_def)

lemma mo_be_eq: "mo_be k n r = reader_be k n r"
  by (induction k arbitrary: n r) (simp_all add: mo_byte_eq)

lemma mo_value_eq: "mo_value = reader_value"
  unfolding fun_eq_iff mo_value_def reader_value_def mo_byte_eq mo_be_eq tag_width_def by simp

lemma mo_bytes_eq: "mo_bytes = reader_string"
  by (simp add: fun_eq_iff mo_bytes_def reader_string_def mo_value_eq)

lemma mo_hash_eq: "mo_hash = reader_fixed"
  by (simp add: fun_eq_iff mo_hash_def reader_fixed_def reader_bytes_def mo_bytes_eq)

lemma mo_hashes_eq: "mo_hashes n r = reader_repeat reader_fixed n r"
  by (induction n arbitrary: r) (simp_all add: mo_hash_eq)

lemma mo_array_eq: "mo_array 10 = reader_array 10"
  by (simp add: fun_eq_iff mo_array_def reader_array_def mo_value_eq)

lemmas mo_eqs = mo_head_eq mo_writer_eq mo_value_eq mo_bytes_eq mo_hash_eq mo_hashes_eq mo_array_eq

section \<open>Manifests\<close>

record manifest =
  mf_origin :: member_id
  mf_sequence :: u64
  mf_namespace :: namespace
  mf_epoch :: u64
  mf_targets :: "member_id list"
  mf_expires_at :: u64
  mf_hop_limit :: u8
  mf_content_len :: nat
  mf_hashes :: "arr32 list"

record object_policy =
  op_namespace :: namespace
  op_epoch :: u64
  op_targets :: "member_id list"
  op_expires_at :: u64
  op_hop_limit :: u8

record prepared_object =
  po_manifest :: manifest
  po_chunks :: "bytes list"

definition manifest_validate :: "manifest \<Rightarrow> durable_error + unit" where
  "manifest_validate m =
     (if mf_sequence m = 0
        \<or> mf_sequence m > MAX_LOGICAL_TIME
        \<or> mf_epoch m = 0
        \<or> mf_epoch m > MAX_LOGICAL_TIME
        \<or> mf_expires_at m = 0
        \<or> mf_expires_at m > MAX_LOGICAL_TIME
        \<or> mf_hop_limit m = 0
        \<or> mf_hop_limit m > 16
        \<or> mf_targets m = []
        \<or> length (mf_targets m) > MAX_TARGETS
        \<or> \<not> ascending (mf_targets m)
        \<or> mf_content_len m = 0
        \<or> mf_content_len m > MAX_OBJECT_BYTES
        \<or> length (mf_hashes m) \<noteq> div_ceil (mf_content_len m) CHUNK_BYTES
      then Inl InvalidInput
      else Inr ())"

definition manifest_encode :: "manifest \<Rightarrow> bytes" where
  "manifest_encode m =
     (let b = [0x8a, 1];
          b = mo_blob (be_bytes (member_arr (mf_origin m))) b;
          b = mo_uint (mf_sequence m) b;
          b = mo_text (as_str (mf_namespace m)) b;
          b = mo_uint (mf_epoch m) b;
          b = mo_head 4 (of_nat (length (mf_targets m))) b;
          b = fold (\<lambda>target. mo_blob (be_bytes (member_arr target))) (mf_targets m) b;
          b = mo_uint (mf_expires_at m) b;
          b = mo_uint (ucast (mf_hop_limit m)) b;
          b = mo_uint (of_nat (mf_content_len m)) b;
          b = mo_head 4 (of_nat (length (mf_hashes m))) b
      in fold (\<lambda>hash. mo_blob (be_bytes hash)) (mf_hashes m) b)"

definition manifest_decode :: "bytes \<Rightarrow> durable_error + manifest" where
  "manifest_decode bytes =
     (if length bytes > MAX_MANIFEST_BYTES then Inl InvalidInput
      else
        let r = \<lparr>rd_bytes = bytes, rd_pos = 0\<rparr> in
        bindr (mo_array 10 r) (\<lambda>(_, r).
        bindr (mo_value 0 r) (\<lambda>(version, r).
        if version \<noteq> 1 then Inl UnsupportedSchema else
        bindr (mo_hash r) (\<lambda>(origin, r).
        bindr (mo_value 0 r) (\<lambda>(sequence, r).
        bindr (mo_bytes 3 64 r) (\<lambda>(name, r).
        if \<not> utf8_valid name then Inl InvalidInput else
        bindr (namespace_new name) (\<lambda>namespace.
        bindr (mo_value 0 r) (\<lambda>(epoch, r).
        bindr (mo_value 4 r) (\<lambda>(count, r).
        if count = 0 \<or> count > of_nat MAX_TARGETS then Inl InvalidInput else
        bindr (mo_hashes (unat count) r) (\<lambda>(targets, r).
        bindr (mo_value 0 r) (\<lambda>(expires_at, r).
        bindr (mo_value 0 r) (\<lambda>(hop, r).
        if hop > 255 then Inl InvalidInput else
        bindr (mo_value 0 r) (\<lambda>(content_len, r).
        bindr (mo_value 4 r) (\<lambda>(count, r).
        if count = 0 \<or> count > of_nat MAX_CHUNKS then Inl InvalidInput else
        bindr (mo_hashes (unat count) r) (\<lambda>(hashes, r).
        if rd_pos r \<noteq> length (rd_bytes r) then Inl InvalidInput else
        let m = \<lparr>mf_origin = MemberId origin, mf_sequence = sequence, mf_namespace = namespace,
                 mf_epoch = epoch, mf_targets = map MemberId targets, mf_expires_at = expires_at,
                 mf_hop_limit = ucast hop, mf_content_len = unat content_len, mf_hashes = hashes\<rparr>
        in bindr (manifest_validate m) (\<lambda>_. Inr m))))))))))))))))"

definition manifest_id :: "(bytes \<Rightarrow> arr32) \<Rightarrow> manifest \<Rightarrow> object_id" where
  "manifest_id sha256 m = ObjectId (sha256 (ascii ''MeshLab/StoreManifest/v1'' @ [0] @ manifest_encode m))"

definition chunk_count :: "manifest \<Rightarrow> nat" where
  "chunk_count m = length (mf_hashes m)"

definition verify_chunk :: "(bytes \<Rightarrow> arr32) \<Rightarrow> manifest \<Rightarrow> nat \<Rightarrow> bytes \<Rightarrow> durable_error + unit" where
  "verify_chunk sha256 m index bytes =
     (if index \<ge> chunk_count m then Inl InvalidInput
      else
        let expected = (if index + 1 = chunk_count m
                        then mf_content_len m - index * CHUNK_BYTES
                        else CHUNK_BYTES) in
        if length bytes \<noteq> expected \<or> sha256 bytes \<noteq> mf_hashes m ! index then Inl Corrupt
        else Inr ())"

definition from_opaque ::
    "(bytes \<Rightarrow> arr32) \<Rightarrow> member_id \<Rightarrow> u64 \<Rightarrow> object_policy \<Rightarrow> bytes \<Rightarrow> durable_error + prepared_object" where
  "from_opaque sha256 origin sequence policy bytes =
     (if bytes = [] \<or> length bytes > MAX_OBJECT_BYTES then Inl InvalidInput
      else
        let cs = chunks CHUNK_BYTES bytes;
            m = \<lparr>mf_origin = origin, mf_sequence = sequence, mf_namespace = op_namespace policy,
                 mf_epoch = op_epoch policy, mf_targets = op_targets policy,
                 mf_expires_at = op_expires_at policy, mf_hop_limit = op_hop_limit policy,
                 mf_content_len = length bytes, mf_hashes = map sha256 cs\<rparr>;
            m = m\<lparr>mf_targets := sort (mf_targets m)\<rparr>
        in bindr (manifest_validate m) (\<lambda>_. Inr \<lparr>po_manifest = m, po_chunks = cs\<rparr>))"

section \<open>The language of the decoder\<close>

lemma parses_pos:
  "parses (\<lambda>r. if rd_pos r \<noteq> length (rd_bytes r) then Inl e else m) (\<lambda>y K. K [] \<and> m = Inr y)"
  by (auto simp: parses_def rd_fits_def rd_rest_def)

lemma reads_hashes:
  "reads (reader_repeat reader_fixed n)
     (\<lambda>xs w. length xs = n \<and> w = concat (map (fixed_bytes :: arr32 \<Rightarrow> bytes) xs))"
  by (rule reads_cong [OF reads_repeat [OF wfixed32.reads_get]]) (auto simp: list_all_iff)

definition manifest_ok :: "manifest \<Rightarrow> bool" where
  "manifest_ok m \<longleftrightarrow> manifest_validate m = Inr () \<and> namespace_ok (mf_namespace m)"

definition manifest_bytes :: "manifest \<Rightarrow> bytes" where
  "manifest_bytes m = array_bytes 10 @ uint_bytes 1 @ fixed_bytes (member_arr (mf_origin m)) @
     uint_bytes (mf_sequence m) @ text_bytes (as_str (mf_namespace m)) @ uint_bytes (mf_epoch m) @
     array_bytes (length (mf_targets m)) @
     concat (map fixed_bytes (map member_arr (mf_targets m))) @
     uint_bytes (mf_expires_at m) @ uint_bytes (ucast (mf_hop_limit m)) @
     uint_bytes (of_nat (mf_content_len m)) @ array_bytes (length (mf_hashes m)) @
     concat (map fixed_bytes (mf_hashes m))"

lemma w_fold: "(\<And>x out. f x out = out @ g x) \<Longrightarrow> fold f xs out = out @ concat (map g xs)"
  by (induction xs arbitrary: out) simp_all

lemma fold_blob: "fold (\<lambda>x. w_bytes (be_bytes (f x :: 'a::len word))) xs out
    = out @ concat (map fixed_bytes (map f xs))"
  using w_fold [of "\<lambda>x. w_bytes (be_bytes (f x))" "\<lambda>x. fixed_bytes (f x)" xs out]
  by (simp add: w_simps fixed_bytes_def comp_def)

lemma manifest_head: "[0x8a, 1] = array_bytes 10 @ uint_bytes 1"
  by (simp add: array_bytes_def uint_bytes_def head_bytes_def w_head_def)

lemma manifest_encode_eq: "manifest_encode m = manifest_bytes m"
  using fold_blob [of "\<lambda>x. x" "mf_hashes m"]
  by (simp add: manifest_encode_def manifest_bytes_def mo_eqs fold_blob manifest_head w_simps w_head_append
      fixed_bytes_def array_bytes_def)

lemma decode_guard_iff:
  fixes q :: "reader \<Rightarrow> durable_error + 'a"
  assumes "parses q F" and "limit < 2 ^ 64"
  shows "(if length bs > limit then Inl e else let r = \<lparr>rd_bytes = bs, rd_pos = 0\<rparr> in q r) = Inr y
    \<longleftrightarrow> length bs \<le> limit \<and> F y (\<lambda>t. bs = t)"
  using decode_iff [OF assms, of bs y] by (simp add: reader_new_def split: if_splits)

lemma reads_text64: "reads (reader_string 3 64) (\<lambda>b w. fits_limit 64 b \<and> w = text_bytes b)"
  by (auto simp: reads_def reader_string_iff text_bytes_def)

lemma reads_uint_value: "reads (reader_value 0) (\<lambda>n w. True \<and> w = uint_bytes n)"
  and reads_array_value: "reads (reader_value 4) (\<lambda>n w. True \<and> w = head_bytes 4 n)"
  by (auto simp: reads_def reader_value_iff uint_bytes_def)

lemmas manifest_rules = parses_bind parses_if parses_pure parses_pos warray.reads_get
  wfixed32.reads_get reads_hashes reads_uint_value reads_array_value reads_text64

text \<open>What validation bounds, for the conversions of the decoder.\<close>

lemma manifest_ok_bounds:
  assumes "manifest_ok m"
  shows "mf_hop_limit m \<le> 16" "0 < length (mf_targets m)" "length (mf_targets m) \<le> 10"
    "0 < mf_content_len m" "mf_content_len m \<le> 65536"
    "length (mf_hashes m) = div_ceil (mf_content_len m) 1024" "ascending (mf_targets m)"
  using assms by (auto simp: manifest_ok_def manifest_validate_def split: if_splits)

lemma div_ceil_bounds:
  assumes "0 < n" and "n \<le> k * d"
  shows "0 < div_ceil n d" "div_ceil n d \<le> k"
proof -
  have k: "n div d \<le> k"
    using div_le_mono [OF assms(2), of d] by (cases "d = 0") auto
  show "0 < div_ceil n d" using assms(1) by (auto simp: div_ceil_def)
  have "n div d < k" if "n mod d \<noteq> 0"
  proof (rule ccontr)
    assume "\<not> n div d < k"
    with k have "n div d = k" by simp
    then have "n = k * d + n mod d" using div_mult_mod_eq [of n d] by simp
    with that assms(2) show False by simp
  qed
  then show "div_ceil n d \<le> k" using k by (auto simp: div_ceil_def)
qed

lemma manifest_hash_bounds:
  assumes "manifest_ok m"
  shows "0 < length (mf_hashes m)" "length (mf_hashes m) \<le> 64"
  using div_ceil_bounds [of "mf_content_len m" 64 1024] manifest_ok_bounds [OF assms] by simp_all

lemma map_MemberId [simp]: "map (MemberId \<circ> member_arr) xs = xs"
  by (simp add: map_idI)

lemma manifest_eta [simp]:
  "\<lparr>mf_origin = mf_origin m, mf_sequence = mf_sequence m, mf_namespace = mf_namespace m,
    mf_epoch = mf_epoch m, mf_targets = mf_targets m, mf_expires_at = mf_expires_at m,
    mf_hop_limit = mf_hop_limit m, mf_content_len = mf_content_len m, mf_hashes = mf_hashes m\<rparr> = m"
  by simp

lemma manifest_decode_raw:
  "manifest_decode bs = Inr m \<longleftrightarrow> length bs \<le> MAX_MANIFEST_BYTES \<and> manifest_ok m \<and> bs = manifest_bytes m"
  unfolding manifest_decode_def mo_eqs
  apply (rule trans [OF decode_guard_iff])
    apply (unfold Let_def)
    apply (rule manifest_rules)+
   apply simp
  apply (simp add: res_simps namespace_new_Inr cong: conj_cong)
  apply (rule iffI)
   apply (elim exE conjE)
   apply (clarsimp simp: manifest_ok_def manifest_bytes_def array_bytes_def ucast_ucast_less word_le_nat_alt comp_def not_less)
  apply (elim conjE)
  subgoal premises prems
  proof -
    note b = manifest_ok_bounds [OF prems(2)] manifest_hash_bounds [OF prems(2)]
    have ns: "namespace_ok (mf_namespace m)" "manifest_validate m = Inr ()"
      using prems(2) by (simp_all add: manifest_ok_def)
    have nz1: "(of_nat (length (mf_targets m)) :: u64) \<noteq> 0"
      using count_u64 [of "length (mf_targets m)"] manifest_ok_bounds(2,3) [OF prems(2)] by fastforce
    have nz2: "(of_nat (length (mf_hashes m)) :: u64) \<noteq> 0"
      using count_u64 [of "length (mf_hashes m)"] manifest_hash_bounds [OF prems(2)] by fastforce
    have 64: "unat (of_nat n :: u64) = n" if "n \<le> 65536" for n
      using that by (simp add: unat_of_nat64)
    show ?thesis
      apply (intro exI conjI)
                   prefer 13
                   apply (rule trans [OF prems(3)], unfold manifest_bytes_def array_bytes_def, rule refl)
      using b prems(1,3) ns nz1 nz2 namespace_utf8 [OF ns(1)] namespace_ok_bounds [OF ns(1)]
                  apply (simp_all add: 64 word_le_nat_alt word_less_nat_alt byte_in_u64 fits_limit_iff)
      done
  qed
  done

lemma length_concat_const: "(\<And>x. x \<in> set xs \<Longrightarrow> length (f x) = k) \<Longrightarrow> length (concat (map f xs)) = k * length xs"
  by (induction xs) auto

lemma manifest_bytes_length: "manifest_ok m \<Longrightarrow> length (manifest_bytes m) \<le> MAX_MANIFEST_BYTES"
proof -
  assume ok: "manifest_ok m"
  have u: "length (uint_bytes n) \<le> 9" and h: "length (array_bytes k) \<le> 9" for n k
    by (simp_all add: uint_bytes_def array_bytes_def head_bytes_length)
  have t: "length (text_bytes b) \<le> 9 + length b" for b
    using head_bytes_length(1) [of 3 "of_nat (length b)"] by (simp add: text_bytes_def)
  have ns: "length (as_str (mf_namespace m)) \<le> 64"
    using ok namespace_ok_bounds by (simp add: manifest_ok_def)
  show ?thesis
    using manifest_ok_bounds(3) [OF ok] manifest_hash_bounds(2) [OF ok] ns h [of 10] u [of 1]
      u [of "mf_sequence m"] t [of "as_str (mf_namespace m)"] u [of "mf_epoch m"]
      h [of "length (mf_targets m)"] u [of "mf_expires_at m"] u [of "ucast (mf_hop_limit m)"]
      u [of "of_nat (mf_content_len m)"] h [of "length (mf_hashes m)"]
    by (simp add: manifest_bytes_def length_fixed32 length_concat_const)
qed

lemma manifest_decode_iff: "manifest_decode bs = Inr m \<longleftrightarrow> manifest_ok m \<and> bs = manifest_encode m"
  using manifest_decode_raw manifest_bytes_length by (auto simp: manifest_encode_eq)

interpretation manifest: message_codec manifest_encode manifest_ok manifest_decode
  by unfold_locales (rule manifest_decode_iff)

section \<open>Chunks\<close>

lemma verify_chunk_iff:
  "verify_chunk sha256 m i b = Inr () \<longleftrightarrow> i < chunk_count m \<and> sha256 b = mf_hashes m ! i \<and>
     length b = (if i + 1 = chunk_count m then mf_content_len m - i * 1024 else 1024)"
  by (auto simp: verify_chunk_def Let_def)

lemma from_opaque_Inr:
  assumes "from_opaque sha256 origin sequence policy body = Inr p"
  shows "body \<noteq> []" "length body \<le> 65536" "po_chunks p = chunks 1024 body"
    "manifest_validate (po_manifest p) = Inr ()" "mf_namespace (po_manifest p) = op_namespace policy"
    "mf_content_len (po_manifest p) = length body"
    "mf_hashes (po_manifest p) = map sha256 (chunks 1024 body)"
  using assms by (auto simp: from_opaque_def Let_def res_simps split: if_splits)

text \<open>Every full chunk is 1024 bytes and the last one is what is left.\<close>

lemma div_ceil_span:
  assumes "0 < d"
  shows "n \<le> div_ceil n d * d" "k < div_ceil n d \<Longrightarrow> k * d \<le> n"
proof -
  have m: "n = n div d * d + n mod d" "n mod d < d" using assms by simp_all
  show "n \<le> div_ceil n d * d"
  proof (cases "n mod d = 0")
    case False
    have "n \<le> n div d * d + d" using m by linarith
    then show ?thesis using False by (simp add: div_ceil_def algebra_simps)
  qed (use m in \<open>auto simp: div_ceil_def\<close>)
  assume "k < div_ceil n d"
  then have "k \<le> n div d" by (auto simp: div_ceil_def split: if_splits)
  then have "k * d \<le> n div d * d" by (rule mult_le_mono1)
  with m show "k * d \<le> n" by linarith
qed

lemma chunk_length:
  assumes "i < length (chunks 1024 body)"
  shows "length (chunks 1024 body ! i) =
    (if i + 1 = length (chunks 1024 body) then length body - i * 1024 else 1024)"
proof -
  let ?n = "length body"
  have n: "length (chunks 1024 body) = div_ceil ?n 1024" by (simp add: length_chunks)
  have l: "length (chunks 1024 body ! i) = min 1024 (?n - i * 1024)"
    using length_nth_chunks [of 1024 i body] assms by simp
  show ?thesis
  proof (cases "i + 1 = length (chunks 1024 body)")
    case True
    then have "?n \<le> (i + 1) * 1024" using n div_ceil_span(1) [of 1024 ?n] by simp
    then show ?thesis using l True by simp
  next
    case False
    then have "i + 1 < div_ceil ?n 1024" using assms n by simp
    then have "(i + 1) * 1024 \<le> ?n" by (rule div_ceil_span(2) [rotated]) simp
    then show ?thesis using l False by simp
  qed
qed

lemma prepared_chunks_verify:
  assumes "from_opaque sha256 origin sequence policy body = Inr p"
    and "i < chunk_count (po_manifest p)"
  shows "verify_chunk sha256 (po_manifest p) i (po_chunks p ! i) = Inr ()"
  using assms(2) chunk_length [of i body] from_opaque_Inr [OF assms(1)]
  by (simp add: verify_chunk_iff chunk_count_def)

section \<open>What the store relies on\<close>

text \<open>
  \<open>Manifest::decode\<close> accepts exactly the encodings of valid manifests and returns the
  manifest encoded, so encoding is injective, every accepted byte string is canonical, and
  every valid manifest fits the 4096 byte bound the decoder enforces.
\<close>

theorem manifest_codec:
  "manifest_decode bs = Inr m \<longleftrightarrow> manifest_validate m = Inr () \<and> namespace_ok (mf_namespace m) \<and>
     bs = manifest_encode m"
  by (simp add: manifest_decode_iff manifest_ok_def conj_assoc)

text \<open>
  an object prepared from a body is its chunks in order, between 1 and 64 of them, and its
  manifest verifies each of them and survives the store's encoding.
\<close>

theorem prepared_object_sound:
  assumes "from_opaque sha256 origin sequence policy body = Inr p"
    and "namespace_ok (op_namespace policy)"
  shows "concat (po_chunks p) = body \<and> length (po_chunks p) = chunk_count (po_manifest p) \<and>
    0 < chunk_count (po_manifest p) \<and> chunk_count (po_manifest p) \<le> MAX_CHUNKS \<and>
    (\<forall>i < chunk_count (po_manifest p). verify_chunk sha256 (po_manifest p) i (po_chunks p ! i) = Inr ()) \<and>
    manifest_decode (manifest_encode (po_manifest p)) = Inr (po_manifest p)"
proof -
  have ok: "manifest_ok (po_manifest p)"
    using from_opaque_Inr [OF assms(1)] assms(2) by (simp add: manifest_ok_def)
  show ?thesis
    using from_opaque_Inr [OF assms(1)] prepared_chunks_verify [OF assms(1)]
      manifest.get_put [OF ok] manifest_hash_bounds [OF ok]
    by (simp add: chunk_count_def)
qed

definition sample_policy :: object_policy where
  "sample_policy = \<lparr>op_namespace = Namespace (ascii ''field.v1''), op_epoch = 1,
     op_targets = [MemberId 9, MemberId 4], op_expires_at = 100, op_hop_limit = 4\<rparr>"

theorem prepared_object_sound_witness:
  "\<exists>p. from_opaque be_word (MemberId 7) 1 sample_policy [1, 2, 3] = Inr p \<and>
     concat (po_chunks p) = [1, 2, 3]"
proof -
  obtain p where p: "from_opaque be_word (MemberId 7) 1 sample_policy [1, 2, 3] = Inr p"
    by (simp add: from_opaque_def sample_policy_def manifest_validate_def Let_def MAX_LOGICAL_TIME_def
        chunks_unfold div_ceil_def)
  have "namespace_ok (op_namespace sample_policy)"
    by (simp add: sample_policy_def namespace_ok_def namespace_new_def ascii_def namespace_byte_def
        is_ascii_alphanumeric_def)
  from prepared_object_sound [OF p this] p show ?thesis by blast
qed

text \<open>
  Chunks that a manifest accepts position by position rebuild the body it was prepared
  from, or exhibit a SHA-256 collision with one of the original chunks.
\<close>

theorem chunks_determine_body:
  assumes "from_opaque sha256 origin sequence policy body = Inr p"
    and "length cs = chunk_count (po_manifest p)"
    and "\<forall>i < length cs. verify_chunk sha256 (po_manifest p) i (cs ! i) = Inr ()"
  shows "concat cs = body \<or>
    (\<exists>i < length cs. cs ! i \<noteq> po_chunks p ! i \<and> sha256 (cs ! i) = sha256 (po_chunks p ! i))"
proof (rule ccontr)
  note p = from_opaque_Inr [OF assms(1)]
  assume n: "\<not> ?thesis"
  have "cs = chunks 1024 body"
  proof (rule nth_equalityI)
    show "length cs = length (chunks 1024 body)"
      using assms(2) p(7) by (simp add: chunk_count_def)
    fix i assume i: "i < length cs"
    then have "sha256 (cs ! i) = sha256 (chunks 1024 body ! i)"
      using assms(2,3) p(7) by (simp add: verify_chunk_iff chunk_count_def)
    then show "cs ! i = chunks 1024 body ! i" using n i p(3) by auto
  qed
  then have "concat cs = body" by simp
  with n show False by blast
qed

theorem chunks_determine_body_witness:
  "\<exists>p. from_opaque be_word (MemberId 7) 1 sample_policy [1, 2, 3] = Inr p \<and>
     (concat [[1, 2, 3]] = [1, 2, 3 :: u8] \<or>
      (\<exists>i < length [[1, 2, 3 :: u8]]. [[1, 2, 3]] ! i \<noteq> po_chunks p ! i \<and>
         (be_word ([[1, 2, 3]] ! i) :: arr32) = be_word (po_chunks p ! i)))"
proof -
  obtain p where p: "from_opaque be_word (MemberId 7) 1 sample_policy [1, 2, 3] = Inr p"
    by (simp add: from_opaque_def sample_policy_def manifest_validate_def Let_def MAX_LOGICAL_TIME_def
        chunks_unfold div_ceil_def)
  have c: "chunk_count (po_manifest p) = 1" "po_chunks p = [[1, 2, 3]]"
    using from_opaque_Inr [OF p] by (simp_all add: chunk_count_def chunks_unfold)
  have "\<forall>i < length [[1, 2, 3 :: u8]]. verify_chunk be_word (po_manifest p) i ([[1, 2, 3]] ! i) = Inr ()"
    using prepared_chunks_verify [OF p, of 0] c by simp
  from chunks_determine_body [OF p _ this] p c show ?thesis by auto
qed

end
