(* ===== verification/Mesh_Presence.thy ===== *)
theory Mesh_Presence
  imports Mesh_Object Mesh_Records "HOL-Library.Product_Lexorder"
begin

text \<open>
  The presence reducer of \<open>crates/mesh-replication/src/lib.rs\<close> (\<open>PresenceTable\<close>) and its chunk
  planner (\<open>plan\<close>). The clock is an argument of every operation; \<open>presence_run\<close> is a sequence
  of observations, and the invariants are over all of them.
\<close>

section \<open>The table\<close>

definition MAX_DIRECT_NEIGHBORS :: nat where [simp]: "MAX_DIRECT_NEIGHBORS = 2"
definition PRESENCE_TTL :: u64 where [simp]: "PRESENCE_TTL = 15"
definition MAX_PRESENCE_HOPS :: u8 where [simp]: "MAX_PRESENCE_HOPS = 16"

text \<open>The derived order of a version is lexicographic: incarnation, then sequence.\<close>

datatype presence_version = PresenceVersion (pv_incarnation: u64) (pv_sequence: u64)

instantiation presence_version :: linorder
begin
definition "less_eq_presence_version a b \<longleftrightarrow>
  (pv_incarnation a, pv_sequence a) \<le> (pv_incarnation b, pv_sequence b)"
definition "less_presence_version a b \<longleftrightarrow>
  (pv_incarnation a, pv_sequence a) < (pv_incarnation b, pv_sequence b)"
instance
  by standard (auto simp: less_eq_presence_version_def less_presence_version_def
      presence_version.expand less_prod_def less_eq_prod_def)
end

record presence_claim =
  pc_member :: member_id
  pc_version :: presence_version

datatype presence_path = Direct | Routed member_id u8

record presence_entry =
  pe_member :: member_id
  pe_version :: "presence_version option"
  pe_path :: presence_path

record routed_presence =
  rp_version :: presence_version
  rp_via :: member_id
  rp_hops :: u8
  rp_received_at :: u64

record known_member =
  km_direct_at :: "u64 option"
  km_routed :: "routed_presence option"

definition known_default :: known_member where
  "known_default = \<lparr>km_direct_at = None, km_routed = None\<rparr>"

record presence_table =
  pt_local :: member_id
  pt_members :: "(member_id, known_member) bmap"

definition presence_new :: "member_id \<Rightarrow> presence_table" where
  "presence_new loc = \<lparr>pt_local = loc, pt_members = []\<rparr>"

definition valid_time :: "u64 \<Rightarrow> durable_error + unit" where
  "valid_time now = (if now > MAX_LOGICAL_TIME then Inl InvalidInput else Inr ())"

definition fresh :: "u64 \<Rightarrow> u64 \<Rightarrow> bool" where
  "fresh seen_at now \<longleftrightarrow> now \<ge> seen_at \<and> now - seen_at \<le> PRESENCE_TTL"

definition is_some_and :: "'a option \<Rightarrow> ('a \<Rightarrow> bool) \<Rightarrow> bool" where
  "is_some_and m P = (case m of None \<Rightarrow> False | Some x \<Rightarrow> P x)"

definition direct_live :: "known_member \<Rightarrow> u64 \<Rightarrow> bool" where
  "direct_live known now = is_some_and (km_direct_at known) (\<lambda>seen. fresh seen now)"

definition routed_live :: "known_member \<Rightarrow> u64 \<Rightarrow> bool" where
  "routed_live known now = is_some_and (km_routed known) (\<lambda>route. fresh (rp_received_at route) now)"

definition direct_neighbors :: "u64 \<Rightarrow> presence_table \<Rightarrow> nat" where
  "direct_neighbors now t = length (filter (\<lambda>(_, known). direct_live known now) (pt_members t))"

definition presence_expire :: "u64 \<Rightarrow> presence_table \<Rightarrow> (durable_error + member_id list) \<times> presence_table" where
  "presence_expire now t =
     (case valid_time now of
        Inl e \<Rightarrow> (Inl e, t)
      | Inr _ \<Rightarrow>
          let expired = map fst (filter (\<lambda>(_, known). \<not> direct_live known now \<and> \<not> routed_live known now)
                                   (pt_members t))
          in (Inr expired, t\<lparr>pt_members := fold bm_remove expired (pt_members t)\<rparr>))"

text \<open>\<open>reserve_member\<close>: the entry it returns a reference to is the one stored under \<open>member\<close>.\<close>

definition reserve_member :: "member_id \<Rightarrow> u64 \<Rightarrow> presence_table \<Rightarrow> (durable_error + known_member) \<times> presence_table" where
  "reserve_member m now t =
     (case presence_expire now t of
        (Inl e, t) \<Rightarrow> (Inl e, t)
      | (Inr _, t) \<Rightarrow>
          if \<not> bm_contains (pt_members t) m \<and> length (pt_members t) \<ge> MAX_GROUP_MEMBERS
          then (Inl ResourcePressure, t)
          else
            (case bm_get (pt_members t) m of
               Some known \<Rightarrow> (Inr known, t)
             | None \<Rightarrow> (Inr known_default, t\<lparr>pt_members := bm_insert m known_default (pt_members t)\<rparr>)))"

definition observe_direct :: "member_id \<Rightarrow> u64 \<Rightarrow> presence_table \<Rightarrow> (durable_error + bool) \<times> presence_table" where
  "observe_direct m now t =
     (case valid_time now of
        Inl e \<Rightarrow> (Inl e, t)
      | Inr _ \<Rightarrow>
          if m = pt_local t then (Inl InvalidInput, t)
          else
            let already_direct = is_some_and (bm_get (pt_members t) m) (\<lambda>known. direct_live known now) in
            if \<not> already_direct \<and> direct_neighbors now t \<ge> MAX_DIRECT_NEIGHBORS
            then (Inl ResourcePressure, t)
            else
              (case reserve_member m now t of
                 (Inl e, t) \<Rightarrow> (Inl e, t)
               | (Inr known, t) \<Rightarrow>
                   let changed = (km_direct_at known \<noteq> Some now);
                       known = known\<lparr>km_direct_at := Some now\<rparr>
                   in (Inr changed, t\<lparr>pt_members := bm_insert m known (pt_members t)\<rparr>)))"

definition disconnect_direct :: "member_id \<Rightarrow> presence_table \<Rightarrow> bool \<times> presence_table" where
  "disconnect_direct m t =
     (case bm_get (pt_members t) m of
        None \<Rightarrow> (False, t)
      | Some known \<Rightarrow>
          (km_direct_at known \<noteq> None,
           t\<lparr>pt_members := bm_insert m (known\<lparr>km_direct_at := None\<rparr>) (pt_members t)\<rparr>))"

definition observe_relay ::
    "presence_claim \<Rightarrow> member_id \<Rightarrow> u8 \<Rightarrow> u64 \<Rightarrow> presence_table \<Rightarrow> (durable_error + bool) \<times> presence_table" where
  "observe_relay claim via hops now t =
     (case valid_time now of
        Inl e \<Rightarrow> (Inl e, t)
      | Inr _ \<Rightarrow>
          if pc_member claim = pt_local t
            \<or> pc_member claim = via
            \<or> pv_incarnation (pc_version claim) = 0
            \<or> pv_sequence (pc_version claim) = 0
            \<or> \<not> (2 \<le> hops \<and> hops \<le> MAX_PRESENCE_HOPS)
          then (Inl InvalidInput, t)
          else
            (case reserve_member (pc_member claim) now t of
               (Inl e, t) \<Rightarrow> (Inl e, t)
             | (Inr known, t) \<Rightarrow>
                 let replacement =
                   (case km_routed known of
                      None \<Rightarrow> True
                    | Some old \<Rightarrow>
                        if pc_version claim > rp_version old then True
                        else if pc_version claim = rp_version old \<and> hops < rp_hops old then True
                        else False)
                 in (Inr replacement,
                     if replacement then
                       t\<lparr>pt_members := bm_insert (pc_member claim)
                          (known\<lparr>km_routed := Some \<lparr>rp_version = pc_version claim, rp_via = via,
                             rp_hops = hops, rp_received_at = now\<rparr>\<rparr>) (pt_members t)\<rparr>
                     else t)))"

definition presence_member :: "member_id \<Rightarrow> u64 \<Rightarrow> presence_table \<Rightarrow> durable_error + presence_entry option" where
  "presence_member m now t =
     bindr (valid_time now) (\<lambda>_.
       case bm_get (pt_members t) m of
         None \<Rightarrow> Inr None
       | Some known \<Rightarrow>
           if direct_live known now then
             Inr (Some \<lparr>pe_member = m, pe_version = map_option rp_version (km_routed known), pe_path = Direct\<rparr>)
           else
             (case km_routed known of
                Some route \<Rightarrow>
                  if fresh (rp_received_at route) now
                  then Inr (Some \<lparr>pe_member = m, pe_version = Some (rp_version route),
                                  pe_path = Routed (rp_via route) (rp_hops route)\<rparr>)
                  else Inr None
              | None \<Rightarrow> Inr None))"

text \<open>\<open>filter_map(transpose).collect()\<close>: the first error, or the entries present.\<close>

primrec collect_present :: "('e + 'a option) list \<Rightarrow> 'e + 'a list" where
  "collect_present [] = Inr []"
| "collect_present (x # xs) =
     bindr x (\<lambda>e. case e of
       None \<Rightarrow> collect_present xs
     | Some y \<Rightarrow> bindr (collect_present xs) (\<lambda>ys. Inr (y # ys)))"

definition presence_active :: "u64 \<Rightarrow> presence_table \<Rightarrow> durable_error + presence_entry list" where
  "presence_active now t =
     bindr (valid_time now) (\<lambda>_.
       collect_present (map (\<lambda>m. presence_member m now t) (map fst (pt_members t))))"

section \<open>Runs\<close>

datatype presence_op =
    ObserveDirect member_id u64
  | DisconnectDirect member_id
  | ObserveRelay presence_claim member_id u8 u64
  | Expire u64

fun presence_step :: "presence_op \<Rightarrow> presence_table \<Rightarrow> presence_table" where
  "presence_step (ObserveDirect m now) t = snd (observe_direct m now t)"
| "presence_step (DisconnectDirect m) t = snd (disconnect_direct m t)"
| "presence_step (ObserveRelay claim via hops now) t = snd (observe_relay claim via hops now t)"
| "presence_step (Expire now) t = snd (presence_expire now t)"

definition presence_run :: "presence_op list \<Rightarrow> presence_table \<Rightarrow> presence_table" where
  "presence_run ops t = foldl (\<lambda>t op. presence_step op t) t ops"

fun op_time :: "presence_op \<Rightarrow> u64 option" where
  "op_time (ObserveDirect m now) = Some now"
| "op_time (DisconnectDirect m) = None"
| "op_time (ObserveRelay claim via hops now) = Some now"
| "op_time (Expire now) = Some now"

section \<open>Well-formedness\<close>

definition presence_inv :: "presence_table \<Rightarrow> bool" where
  "presence_inv t \<longleftrightarrow> bm_wf (pt_members t) \<and> length (pt_members t) \<le> MAX_GROUP_MEMBERS \<and>
     bm_get (pt_members t) (pt_local t) = None"

lemma fold_remove_wf: "bm_wf m \<Longrightarrow> bm_wf (fold bm_remove ks m)"
  by (induction ks arbitrary: m) (simp_all add: bm.wf_remove)

lemma fold_remove_get:
  "bm_wf m \<Longrightarrow> bm_get (fold bm_remove ks m) k = (if k \<in> set ks then None else bm_get m k)"
  by (induction ks arbitrary: m) (auto simp: bm.wf_remove bm.get_remove)

lemma fold_remove_size: "bm_wf m \<Longrightarrow> length (fold bm_remove ks m) \<le> length m"
proof (induction ks arbitrary: m)
  case (Cons k ks)
  have "length (fold bm_remove ks (bm_remove k m)) \<le> length (bm_remove k m)"
    by (rule Cons.IH) (rule bm.wf_remove [OF Cons.prems])
  also have "\<dots> \<le> length m" using bm.size_remove [OF Cons.prems, of k] by (auto split: if_splits)
  finally show ?case by simp
qed simp

definition known_live :: "known_member \<Rightarrow> u64 \<Rightarrow> bool" where
  "known_live known now \<longleftrightarrow> direct_live known now \<or> routed_live known now"

lemma presence_expire_get:
  assumes "bm_wf (pt_members t)" and "presence_expire now t = (Inr gone, t')"
  shows "bm_get (pt_members t') m = (case bm_get (pt_members t) m of
      None \<Rightarrow> None | Some known \<Rightarrow> if known_live known now then Some known else None)"
    and "m \<in> set gone \<longleftrightarrow> (\<exists>known. bm_get (pt_members t) m = Some known \<and> \<not> known_live known now)"
    and "bm_wf (pt_members t')" "length (pt_members t') \<le> length (pt_members t)" "pt_local t' = pt_local t"
proof -
  let ?gone = "map fst (filter (\<lambda>(_, known). \<not> direct_live known now \<and> \<not> routed_live known now) (pt_members t))"
  have g: "gone = ?gone" "t' = t\<lparr>pt_members := fold bm_remove ?gone (pt_members t)\<rparr>"
    using assms(2) by (auto simp: presence_expire_def Let_def split: sum.splits)
  show in_gone: "m \<in> set gone \<longleftrightarrow> (\<exists>known. bm_get (pt_members t) m = Some known \<and> \<not> known_live known now)" for m
    using bm.in_entries_iff [OF assms(1)] by (force simp: g(1) known_live_def)
  show "bm_wf (pt_members t')" "length (pt_members t') \<le> length (pt_members t)" "pt_local t' = pt_local t"
    by (simp_all add: g(2) fold_remove_wf [OF assms(1)] fold_remove_size [OF assms(1)])
  have "bm_get (pt_members t') m = (if m \<in> set gone then None else bm_get (pt_members t) m)"
    unfolding g by (simp add: fold_remove_get [OF assms(1)])
  then show "bm_get (pt_members t') m = (case bm_get (pt_members t) m of
      None \<Rightarrow> None | Some known \<Rightarrow> if known_live known now then Some known else None)"
    using in_gone [of m] by (auto split: option.splits)
qed

lemma presence_expire_cases:
  obtains (bad) "presence_expire now t = (Inl InvalidInput, t)" "now > MAX_LOGICAL_TIME"
  | (ok) gone t' where "presence_expire now t = (Inr gone, t')" "now \<le> MAX_LOGICAL_TIME"
  by (cases "now > MAX_LOGICAL_TIME") (auto simp: presence_expire_def valid_time_def Let_def)

text \<open>What the operations do to the table, as a map: expiry, then one entry.\<close>

definition expired_table :: "u64 \<Rightarrow> presence_table \<Rightarrow> presence_table" where
  "expired_table now t = snd (presence_expire now t)"

lemma expired_table_facts:
  assumes "presence_inv t"
  shows "presence_inv (expired_table now t)" "pt_local (expired_table now t) = pt_local t"
    "bm_get (pt_members (expired_table now t)) m = Some k \<Longrightarrow> bm_get (pt_members t) m = Some k"
    "bm_get (pt_members t) m = Some k \<Longrightarrow> known_live k now \<Longrightarrow>
       bm_get (pt_members (expired_table now t)) m = Some k"
proof -
  have "presence_inv (expired_table now t) \<and> pt_local (expired_table now t) = pt_local t \<and>
    (\<forall>m k. bm_get (pt_members (expired_table now t)) m = Some k \<longrightarrow> bm_get (pt_members t) m = Some k) \<and>
    (\<forall>m k. bm_get (pt_members t) m = Some k \<longrightarrow> known_live k now \<longrightarrow>
       bm_get (pt_members (expired_table now t)) m = Some k)"
  proof (cases rule: presence_expire_cases [where now = now and t = t])
    case bad
    then show ?thesis using assms by (simp add: expired_table_def)
  next
    case (ok gone t')
    have wf: "bm_wf (pt_members t)" using assms by (simp add: presence_inv_def)
    note e = presence_expire_get [OF wf ok(1)]
    have "expired_table now t = t'" using ok(1) by (simp add: expired_table_def)
    then show ?thesis
      using assms e by (auto simp: presence_inv_def split: option.splits if_splits)
  qed
  then show "presence_inv (expired_table now t)" "pt_local (expired_table now t) = pt_local t"
    "bm_get (pt_members (expired_table now t)) m = Some k \<Longrightarrow> bm_get (pt_members t) m = Some k"
    "bm_get (pt_members t) m = Some k \<Longrightarrow> known_live k now \<Longrightarrow>
       bm_get (pt_members (expired_table now t)) m = Some k"
    by blast+
qed

lemma reserve_member_table:
  assumes t: "presence_inv t" and m: "m \<noteq> pt_local t" and r: "reserve_member m now t = (r, t')"
  shows "presence_inv t'" "pt_local t' = pt_local t"
    "r = Inl e \<Longrightarrow> t' = expired_table now t"
    "r = Inr known \<Longrightarrow> bm_get (pt_members t') = (bm_get (pt_members (expired_table now t)))(m \<mapsto> known)"
    "r = Inr known \<Longrightarrow>
       known = (case bm_get (pt_members (expired_table now t)) m of None \<Rightarrow> known_default | Some k \<Rightarrow> k)"
proof -
  note e = expired_table_facts [OF t, where now = now]
  have "(presence_inv t' \<and> pt_local t' = pt_local t) \<and> (\<forall>e. r = Inl e \<longrightarrow> t' = expired_table now t) \<and>
    (\<forall>known. r = Inr known \<longrightarrow>
       bm_get (pt_members t') = (bm_get (pt_members (expired_table now t)))(m \<mapsto> known) \<and>
       known = (case bm_get (pt_members (expired_table now t)) m of None \<Rightarrow> known_default | Some k \<Rightarrow> k))"
  proof (cases rule: presence_expire_cases [where now = now and t = t])
    case bad
    then show ?thesis using r e t by (auto simp: reserve_member_def expired_table_def)
  next
    case (ok gone t1)
    have t1: "expired_table now t = t1" using ok(1) by (simp add: expired_table_def)
    have inv: "presence_inv t1" "pt_local t1 = pt_local t" using e t1 by simp_all
    show ?thesis
    proof (cases "bm_get (pt_members t1) m")
      case None
      then show ?thesis
        using r ok(1) inv m unfolding t1
        by (auto simp: reserve_member_def bm_contains_def presence_inv_def bm.wf_insert bm.get_insert
            bm.size_insert split: if_splits)
    next
      case (Some k)
      then show ?thesis
        using r ok(1) inv unfolding t1 by (auto simp: reserve_member_def bm_contains_def)
    qed
  qed
  then show "presence_inv t'" "pt_local t' = pt_local t"
    "r = Inl e \<Longrightarrow> t' = expired_table now t"
    "r = Inr known \<Longrightarrow> bm_get (pt_members t') = (bm_get (pt_members (expired_table now t)))(m \<mapsto> known)"
    "r = Inr known \<Longrightarrow>
       known = (case bm_get (pt_members (expired_table now t)) m of None \<Rightarrow> known_default | Some k \<Rightarrow> k)"
    by blast+
qed

lemma presence_inv_update:
  "presence_inv t \<Longrightarrow> bm_get (pt_members t) m = Some k \<Longrightarrow>
   presence_inv (t\<lparr>pt_members := bm_insert m k' (pt_members t)\<rparr>)"
  by (auto simp: presence_inv_def bm.wf_insert bm.get_insert bm.size_insert)

text \<open>The table after each observation, in terms of the expired table.\<close>

lemma observe_direct_table:
  assumes t: "presence_inv t"
  shows "snd (observe_direct m now t) = t \<or>
    snd (observe_direct m now t) = expired_table now t \<or>
    (presence_inv (snd (observe_direct m now t)) \<and> pt_local (snd (observe_direct m now t)) = pt_local t \<and>
     m \<noteq> pt_local t \<and>
     ((\<exists>k. bm_get (pt_members t) m = Some k \<and> direct_live k now) \<or> direct_neighbors now t < MAX_DIRECT_NEIGHBORS) \<and>
     (\<exists>known. bm_get (pt_members (snd (observe_direct m now t))) =
        (bm_get (pt_members (expired_table now t)))(m \<mapsto> known\<lparr>km_direct_at := Some now\<rparr>)))"
proof (cases "valid_time now = Inr () \<and> m \<noteq> pt_local t \<and>
    \<not> (\<not> is_some_and (bm_get (pt_members t) m) (\<lambda>known. direct_live known now) \<and>
       direct_neighbors now t \<ge> MAX_DIRECT_NEIGHBORS)")
  case False
  then have "snd (observe_direct m now t) = t"
    by (auto simp: observe_direct_def Let_def split: sum.splits)
  then show ?thesis by blast
next
  case True
  obtain r t' where r: "reserve_member m now t = (r, t')" by fastforce
  note res = reserve_member_table [OF t _ r]
  show ?thesis
  proof (cases r)
    case (Inl e)
    then show ?thesis using True r res(3) by (auto simp: observe_direct_def Let_def)
  next
    case (Inr known)
    have got: "bm_get (pt_members t') m = Some known" and inv: "presence_inv t'"
      and get: "bm_get (pt_members t') = (bm_get (pt_members (expired_table now t)))(m \<mapsto> known)"
      and loc: "pt_local t' = pt_local t"
      using res True Inr by auto
    have wf: "bm_wf (pt_members t')" using inv by (simp add: presence_inv_def)
    let ?t = "t'\<lparr>pt_members := bm_insert m (known\<lparr>km_direct_at := Some now\<rparr>) (pt_members t')\<rparr>"
    have s: "snd (observe_direct m now t) = ?t"
      using True r Inr by (auto simp: observe_direct_def Let_def)
    have "presence_inv ?t" by (rule presence_inv_update [OF inv got])
    moreover have "bm_get (pt_members ?t) =
        (bm_get (pt_members (expired_table now t)))(m \<mapsto> known\<lparr>km_direct_at := Some now\<rparr>)"
      by (simp add: bm.get_insert [OF wf] get)
    moreover have "(\<exists>k. bm_get (pt_members t) m = Some k \<and> direct_live k now) \<or>
        direct_neighbors now t < MAX_DIRECT_NEIGHBORS"
      using True by (auto simp: is_some_and_def split: option.splits)
    ultimately show ?thesis unfolding s using True loc by auto
  qed
qed

lemma observe_relay_table:
  assumes t: "presence_inv t"
  shows "snd (observe_relay claim via hops now t) = t \<or>
    snd (observe_relay claim via hops now t) = expired_table now t \<or>
    (presence_inv (snd (observe_relay claim via hops now t)) \<and>
     pt_local (snd (observe_relay claim via hops now t)) = pt_local t \<and>
     (\<exists>known. bm_get (pt_members (snd (observe_relay claim via hops now t))) =
        (bm_get (pt_members (expired_table now t)))(pc_member claim \<mapsto> known) \<and>
        km_direct_at known = (case bm_get (pt_members (expired_table now t)) (pc_member claim) of
          None \<Rightarrow> None | Some k \<Rightarrow> km_direct_at k)))"
proof (cases "valid_time now = Inr () \<and> \<not> (pc_member claim = pt_local t \<or> pc_member claim = via
    \<or> pv_incarnation (pc_version claim) = 0 \<or> pv_sequence (pc_version claim) = 0
    \<or> \<not> (2 \<le> hops \<and> hops \<le> MAX_PRESENCE_HOPS))")
  case False
  then have "snd (observe_relay claim via hops now t) = t"
    by (auto simp: observe_relay_def split: sum.splits)
  then show ?thesis by blast
next
  case True
  let ?m = "pc_member claim"
  obtain r t' where r: "reserve_member ?m now t = (r, t')" by fastforce
  note res = reserve_member_table [OF t _ r]
  show ?thesis
  proof (cases r)
    case (Inl e)
    then show ?thesis using True r res(3) by (auto simp: observe_relay_def Let_def)
  next
    case (Inr known)
    have got: "bm_get (pt_members t') ?m = Some known" and inv: "presence_inv t'"
      and get: "bm_get (pt_members t') = (bm_get (pt_members (expired_table now t)))(?m \<mapsto> known)"
      and loc: "pt_local t' = pt_local t"
      and at: "km_direct_at known = (case bm_get (pt_members (expired_table now t)) ?m of
          None \<Rightarrow> None | Some k \<Rightarrow> km_direct_at k)"
      using res True Inr by (auto simp: known_default_def split: option.splits)
    have wf: "bm_wf (pt_members t')" using inv by (simp add: presence_inv_def)
    define new where "new = Some \<lparr>rp_version = pc_version claim, rp_via = via, rp_hops = hops, rp_received_at = now\<rparr>"
    have s: "snd (observe_relay claim via hops now t) = t' \<or>
        snd (observe_relay claim via hops now t) =
          t'\<lparr>pt_members := bm_insert ?m (known\<lparr>km_routed := new\<rparr>) (pt_members t')\<rparr>"
      using True r Inr by (auto simp: observe_relay_def Let_def new_def)
    moreover have "presence_inv (t'\<lparr>pt_members := bm_insert ?m (known\<lparr>km_routed := new\<rparr>) (pt_members t')\<rparr>)"
      by (rule presence_inv_update [OF inv got])
    ultimately show ?thesis
      using inv get loc at bm.get_insert [OF wf, of ?m "known\<lparr>km_routed := new\<rparr>"] by (auto simp: fun_upd_upd)
  qed
qed

lemma disconnect_direct_table:
  assumes "presence_inv t"
  shows "presence_inv (snd (disconnect_direct m t))"
    "bm_get (pt_members (snd (disconnect_direct m t))) =
      (\<lambda>j. if j = m then map_option (\<lambda>k. k\<lparr>km_direct_at := None\<rparr>) (bm_get (pt_members t) m)
           else bm_get (pt_members t) j)"
  using assms presence_inv_update [OF assms]
  by (auto simp: disconnect_direct_def presence_inv_def bm.get_insert fun_eq_iff split: option.splits)

lemma presence_inv_step: "presence_inv t \<Longrightarrow> presence_inv (presence_step op t)"
proof (cases op)
  case (ObserveDirect m now)
  assume t: "presence_inv t"
  then show ?thesis
    using ObserveDirect observe_direct_table [OF t, of m now] expired_table_facts(1) [OF t, of now] by auto
next
  case (DisconnectDirect m)
  assume t: "presence_inv t"
  then show ?thesis using DisconnectDirect disconnect_direct_table(1) by simp
next
  case (ObserveRelay claim via hops now)
  assume t: "presence_inv t"
  then show ?thesis
    using ObserveRelay observe_relay_table [OF t, of claim via hops now] expired_table_facts(1) [OF t, of now]
    by auto
next
  case (Expire now)
  assume t: "presence_inv t"
  then show ?thesis
    using Expire expired_table_facts(1) [OF t, of now] by (simp add: expired_table_def)
qed

lemma presence_run_inv: "presence_inv t \<Longrightarrow> presence_inv (presence_run ops t)"
  unfolding presence_run_def by (induction ops arbitrary: t) (simp_all add: presence_inv_step)

lemma presence_new_inv: "presence_inv (presence_new l)"
  by (simp add: presence_inv_def presence_new_def)

section \<open>Direct degree\<close>

definition direct_set :: "u64 \<Rightarrow> presence_table \<Rightarrow> member_id set" where
  "direct_set now t = {m. \<exists>k. bm_get (pt_members t) m = Some k \<and> direct_live k now}"

lemma direct_live_iff: "direct_live k now \<longleftrightarrow> (\<exists>s. km_direct_at k = Some s \<and> fresh s now)"
  by (auto simp: direct_live_def is_some_and_def split: option.splits)

lemma direct_neighbors_card:
  assumes "bm_wf (pt_members t)"
  shows "direct_neighbors now t = card (direct_set now t)" "finite (direct_set now t)"
proof -
  let ?m = "bm_retain (\<lambda>_ k. direct_live k now) (pt_members t)"
  have "dom (bm_get ?m) = direct_set now t"
    by (auto simp: bm.get_retain [OF assms] direct_set_def dom_def split: option.splits if_splits)
  moreover have wf: "bm_wf ?m" by (rule bm.wf_retain [OF assms])
  ultimately show "direct_neighbors now t = card (direct_set now t)" "finite (direct_set now t)"
    using bm.size_card [OF wf] bm.finite_dom [OF wf] by (simp_all add: direct_neighbors_def bm_retain_def)
qed

text \<open>All direct evidence dates from no later than \<open>seen\<close>, and at most two links are fresh then.\<close>

definition degree_inv :: "u64 \<Rightarrow> presence_table \<Rightarrow> bool" where
  "degree_inv seen t \<longleftrightarrow> presence_inv t \<and>
     (\<forall>m k s. bm_get (pt_members t) m = Some k \<longrightarrow> km_direct_at k = Some s \<longrightarrow> s \<le> seen) \<and>
     card (direct_set seen t) \<le> MAX_DIRECT_NEIGHBORS"

lemma fresh_earlier: "fresh s now \<Longrightarrow> s \<le> seen \<Longrightarrow> seen \<le> now \<Longrightarrow> fresh s seen"
proof -
  assume a: "fresh s now" "s \<le> seen" "seen \<le> now"
  then have "seen - s \<le> now - s" by (simp add: fresh_def word_le_nat_alt unat_sub)
  then show ?thesis using a by (auto simp: fresh_def)
qed

lemma degree_inv_later:
  assumes d: "degree_inv seen t" and le: "seen \<le> now"
  shows "degree_inv now t"
proof -
  have wf: "bm_wf (pt_members t)" using d by (simp add: degree_inv_def presence_inv_def)
  have "direct_set now t \<subseteq> direct_set seen t"
    unfolding direct_set_def direct_live_iff
    using d le fresh_earlier unfolding degree_inv_def by (blast intro: fresh_earlier)
  then have "card (direct_set now t) \<le> card (direct_set seen t)"
    by (rule card_mono [OF direct_neighbors_card(2) [OF wf]])
  then show ?thesis using d le by (auto simp: degree_inv_def intro: order_trans)
qed

lemma degree_inv_mono:
  assumes d: "degree_inv now t" and t': "presence_inv t'"
    and sub: "\<And>m k s. bm_get (pt_members t') m = Some k \<Longrightarrow> km_direct_at k = Some s \<Longrightarrow>
      \<exists>k'. bm_get (pt_members t) m = Some k' \<and> km_direct_at k' = Some s"
  shows "degree_inv now t'"
proof -
  have wf: "bm_wf (pt_members t)" using d by (simp add: degree_inv_def presence_inv_def)
  have "direct_set now t' \<subseteq> direct_set now t"
    using sub unfolding direct_set_def direct_live_iff by blast
  then have "card (direct_set now t') \<le> card (direct_set now t)"
    by (rule card_mono [OF direct_neighbors_card(2) [OF wf]])
  then show ?thesis using d t' sub unfolding degree_inv_def by (meson order_trans)
qed

lemma degree_inv_expired: "degree_inv now t \<Longrightarrow> degree_inv now (expired_table now t)"
  by (rule degree_inv_mono)
    (auto simp: degree_inv_def intro: expired_table_facts(1) dest: expired_table_facts(3))

lemma direct_set_update:
  assumes "bm_get (pt_members t') = (bm_get (pt_members t))(m \<mapsto> k)" and "km_direct_at k = Some now"
  shows "direct_set now t' = insert m (direct_set now t)"
  using assms by (auto simp: direct_set_def direct_live_def is_some_and_def fresh_def)

lemma degree_inv_observe:
  assumes d: "degree_inv now t"
  shows "degree_inv now (snd (observe_direct m now t))"
proof -
  let ?t = "snd (observe_direct m now t)" and ?e = "expired_table now t"
  have inv: "presence_inv t" using d by (simp add: degree_inv_def)
  have de: "degree_inv now ?e" by (rule degree_inv_expired [OF d])
  consider "?t = t" | "?t = ?e"
    | known where "presence_inv ?t"
      "(\<exists>k. bm_get (pt_members t) m = Some k \<and> direct_live k now) \<or> direct_neighbors now t < MAX_DIRECT_NEIGHBORS"
      "bm_get (pt_members ?t) = (bm_get (pt_members ?e))(m \<mapsto> known\<lparr>km_direct_at := Some now\<rparr>)"
    using observe_direct_table [OF inv, of m now] by blast
  then show ?thesis
  proof cases
    case 3
    have wf: "bm_wf (pt_members t)" "bm_wf (pt_members ?e)"
      using inv de by (simp_all add: presence_inv_def degree_inv_def)
    have same: "direct_set now ?e = direct_set now t"
      unfolding direct_set_def
      using expired_table_facts(3) [OF inv, where now = now] expired_table_facts(4) [OF inv, where now = now]
      unfolding known_live_def by metis
    have set: "direct_set now ?t = insert m (direct_set now t)"
      unfolding same [symmetric] by (rule direct_set_update [OF 3(3)]) simp
    have "card (insert m (direct_set now t)) \<le> MAX_DIRECT_NEIGHBORS"
    proof (cases "m \<in> direct_set now t")
      case True
      then show ?thesis using d by (simp add: degree_inv_def insert_absorb)
    next
      case False
      then have "card (direct_set now t) < MAX_DIRECT_NEIGHBORS"
        using 3(2) direct_neighbors_card [OF wf(1)] by (auto simp: direct_set_def)
      then show ?thesis using direct_neighbors_card(2) [OF wf(1)] by (simp add: card_insert_if)
    qed
    then show ?thesis using 3(1,3) set de by (auto simp: degree_inv_def split: if_splits)
  qed (use d de in simp_all)
qed

lemma degree_inv_step:
  assumes d: "degree_inv seen t" and le: "\<And>now. op_time op = Some now \<Longrightarrow> seen \<le> now"
  shows "degree_inv (case op_time op of Some now \<Rightarrow> now | None \<Rightarrow> seen) (presence_step op t)"
proof (cases op)
  case (ObserveDirect m now)
  then show ?thesis using degree_inv_observe [OF degree_inv_later [OF d]] le by simp
next
  case (DisconnectDirect m)
  have inv: "presence_inv t" using d by (simp add: degree_inv_def)
  have "degree_inv seen (snd (disconnect_direct m t))"
    by (rule degree_inv_mono [OF d disconnect_direct_table(1) [OF inv]])
      (auto simp: disconnect_direct_table(2) [OF inv] split: if_splits)
  then show ?thesis using DisconnectDirect by simp
next
  case (ObserveRelay claim via hops now)
  have dn: "degree_inv now t" using degree_inv_later [OF d] le ObserveRelay by simp
  then have inv: "presence_inv t" by (simp add: degree_inv_def)
  let ?t = "snd (observe_relay claim via hops now t)"
  have de: "degree_inv now (expired_table now t)" by (rule degree_inv_expired [OF dn])
  consider "?t = t" | "?t = expired_table now t"
    | known where "presence_inv ?t"
      "bm_get (pt_members ?t) = (bm_get (pt_members (expired_table now t)))(pc_member claim \<mapsto> known)"
      "km_direct_at known = (case bm_get (pt_members (expired_table now t)) (pc_member claim) of
          None \<Rightarrow> None | Some k \<Rightarrow> km_direct_at k)"
    using observe_relay_table [OF inv, of claim via hops now] by blast
  then have "degree_inv now ?t"
  proof cases
    case 3
    show ?thesis
      by (rule degree_inv_mono [OF de 3(1)]) (use 3(2,3) in \<open>auto split: if_splits option.splits\<close>)
  qed (use dn de in simp_all)
  then show ?thesis using ObserveRelay by simp
next
  case (Expire now)
  then show ?thesis
    using degree_inv_expired [OF degree_inv_later [OF d]] le by (simp add: expired_table_def)
qed

lemma degree_inv_run:
  "degree_inv seen t \<Longrightarrow> sorted (seen # List.map_filter op_time ops @ [now]) \<Longrightarrow>
   degree_inv now (presence_run ops t)"
proof (induction ops arbitrary: seen t)
  case Nil
  then show ?case using degree_inv_later by (simp add: presence_run_def map_filter_simps)
next
  case (Cons op ops)
  have step: "degree_inv (case op_time op of Some now \<Rightarrow> now | None \<Rightarrow> seen) (presence_step op t)"
    by (rule degree_inv_step [OF Cons.prems(1)]) (use Cons.prems(2) in \<open>simp add: map_filter_simps\<close>)
  have "degree_inv now (presence_run ops (presence_step op t))"
    by (rule Cons.IH [OF step]) (use Cons.prems(2) in \<open>auto simp: map_filter_simps split: option.splits\<close>)
  then show ?case by (simp add: presence_run_def)
qed

section \<open>What the reducer guarantees\<close>

lemma presence_member_live:
  assumes "now \<le> MAX_LOGICAL_TIME"
  shows "presence_member m now t = Inr None \<longleftrightarrow>
    (\<forall>k. bm_get (pt_members t) m = Some k \<longrightarrow> \<not> known_live k now)"
  using assms
  by (auto simp: presence_member_def valid_time_def known_live_def routed_live_def is_some_and_def
      split: option.splits)

text \<open>
  C39: after any observations the table has at most 50 members, never the local one, and when
  the clock never goes back at most two of them are fresh direct neighbors at any later time.
\<close>

theorem presence_bounded:
  assumes "sorted (List.map_filter op_time ops @ [now])"
  shows "length (pt_members (presence_run ops (presence_new loc))) \<le> MAX_GROUP_MEMBERS \<and>
    bm_get (pt_members (presence_run ops (presence_new loc))) (pt_local (presence_run ops (presence_new loc))) = None \<and>
    direct_neighbors now (presence_run ops (presence_new loc)) \<le> MAX_DIRECT_NEIGHBORS"
proof -
  have "degree_inv 0 (presence_new loc)"
    by (simp add: degree_inv_def presence_new_inv) (simp add: presence_new_def direct_set_def)
  then have d: "degree_inv now (presence_run ops (presence_new loc))"
    by (rule degree_inv_run) (use assms in simp)
  then have inv: "presence_inv (presence_run ops (presence_new loc))" by (simp add: degree_inv_def)
  then have "bm_wf (pt_members (presence_run ops (presence_new loc)))" by (simp add: presence_inv_def)
  from direct_neighbors_card(1) [OF this] show ?thesis
    using d inv by (auto simp: degree_inv_def presence_inv_def)
qed

theorem presence_bounded_witness:
  "direct_neighbors 9 (presence_run
     [ObserveDirect (MemberId 1) 5, ObserveDirect (MemberId 2) 6, ObserveDirect (MemberId 3) 7]
     (presence_new (MemberId 9))) \<le> MAX_DIRECT_NEIGHBORS"
  using presence_bounded [of "[ObserveDirect (MemberId 1) 5, ObserveDirect (MemberId 2) 6,
      ObserveDirect (MemberId 3) 7]" 9 "MemberId 9"]
  by (simp add: map_filter_simps)

text \<open>
  \<open>expire\<close> reports and drops exactly the known members that neither a direct nor a routed
  observation still proves present, and leaves every other entry as it was.
\<close>

theorem expire_exact:
  assumes "presence_expire now (presence_run ops (presence_new loc)) = (Inr gone, t')"
  shows "set gone = {m. bm_get (pt_members (presence_run ops (presence_new loc))) m \<noteq> None \<and>
      presence_member m now (presence_run ops (presence_new loc)) = Inr None} \<and>
    (\<forall>m. bm_get (pt_members t') m = (if m \<in> set gone then None
        else bm_get (pt_members (presence_run ops (presence_new loc))) m)) \<and>
    (\<forall>m. bm_get (pt_members t') m \<noteq> None \<longrightarrow> presence_member m now t' \<noteq> Inr None)"
proof -
  let ?t = "presence_run ops (presence_new loc)"
  have now: "now \<le> MAX_LOGICAL_TIME"
    using assms by (auto simp: presence_expire_def valid_time_def Let_def split: if_splits)
  have wf: "bm_wf (pt_members ?t)"
    using presence_run_inv [OF presence_new_inv, of ops loc] by (simp add: presence_inv_def)
  note e = presence_expire_get [OF wf assms]
  have "set gone = {m. bm_get (pt_members ?t) m \<noteq> None \<and> presence_member m now ?t = Inr None}"
    using e(2) by (auto simp: presence_member_live [OF now])
  moreover have "bm_get (pt_members t') m = (if m \<in> set gone then None else bm_get (pt_members ?t) m)" for m
    using e(1,2) by (auto split: option.splits)
  moreover have "presence_member m now t' \<noteq> Inr None" if "bm_get (pt_members t') m \<noteq> None" for m
    using that e(1) [of m] by (auto simp: presence_member_live [OF now] split: option.splits if_splits)
  ultimately show ?thesis by blast
qed

theorem expire_exact_witness:
  "\<exists>gone t'. presence_expire 30 (presence_run [ObserveDirect (MemberId 1) 5, ObserveDirect (MemberId 2) 20]
     (presence_new (MemberId 9))) = (Inr gone, t') \<and>
   (\<forall>m. bm_get (pt_members t') m \<noteq> None \<longrightarrow> presence_member m 30 t' \<noteq> Inr None)"
proof -
  obtain gone t' where e: "presence_expire 30 (presence_run [ObserveDirect (MemberId 1) 5,
      ObserveDirect (MemberId 2) 20] (presence_new (MemberId 9))) = (Inr gone, t')"
    by (auto simp: presence_expire_def valid_time_def MAX_LOGICAL_TIME_def Let_def)
  from expire_exact [OF e] e show ?thesis by blast
qed

lemma presence_run_wf:
  "presence_inv (presence_run ops (presence_new loc))"
  by (rule presence_run_inv [OF presence_new_inv])

text \<open>
  While a member is live, a relayed claim replaces its route exactly when it has a later
  version, or the same version over fewer hops; otherwise the route it has is kept.
\<close>

theorem route_version_monotonic:
  assumes "bm_get (pt_members (presence_run ops (presence_new loc))) (pc_member claim) = Some k"
    and "km_routed k = Some old" and "known_live k now"
    and "observe_relay claim via hops now (presence_run ops (presence_new loc)) = (Inr changed, t')"
  shows "(changed \<longleftrightarrow> rp_version old < pc_version claim \<or>
      (pc_version claim = rp_version old \<and> hops < rp_hops old)) \<and>
    bm_get (pt_members t') (pc_member claim) = Some (if changed
      then k\<lparr>km_routed := Some \<lparr>rp_version = pc_version claim, rp_via = via, rp_hops = hops, rp_received_at = now\<rparr>\<rparr>
      else k)"
proof -
  let ?t = "presence_run ops (presence_new loc)" and ?m = "pc_member claim"
  obtain r t1 where r: "reserve_member ?m now ?t = (r, t1)" by fastforce
  have m: "?m \<noteq> pt_local ?t" using assms(4) by (auto simp: observe_relay_def split: sum.splits if_splits)
  note res = reserve_member_table [OF presence_run_wf m r]
  have "bm_get (pt_members (expired_table now ?t)) ?m = Some k"
    by (rule expired_table_facts(4) [OF presence_run_wf assms(1,3)])
  moreover obtain known where known: "r = Inr known"
    using assms(4) r by (cases r) (auto simp: observe_relay_def split: sum.splits if_splits)
  ultimately have k: "known = k" "bm_get (pt_members t1) ?m = Some k" and wf: "bm_wf (pt_members t1)"
    using res(1,4,5) by (auto simp: presence_inv_def)
  have "changed = (rp_version old < pc_version claim \<or> pc_version claim = rp_version old \<and> hops < rp_hops old) \<and>
     t' = (if changed then
         t1\<lparr>pt_members := bm_insert ?m (k\<lparr>km_routed := Some \<lparr>rp_version = pc_version claim, rp_via = via,
           rp_hops = hops, rp_received_at = now\<rparr>\<rparr>) (pt_members t1)\<rparr>
       else t1)"
    using assms(2,4) r known k(1)
    by (auto simp: observe_relay_def Let_def split: sum.splits if_splits)
  then show ?thesis using k(2) bm.get_insert [OF wf] by auto
qed

theorem route_version_monotonic_witness:
  "\<exists>t'. observe_relay \<lparr>pc_member = MemberId 1, pc_version = PresenceVersion 2 9\<rparr> (MemberId 2) 2 8
       (presence_run [ObserveRelay \<lparr>pc_member = MemberId 1, pc_version = PresenceVersion 2 9\<rparr> (MemberId 2) 3 5]
          (presence_new (MemberId 9))) = (Inr True, t') \<and>
     bm_get (pt_members t') (MemberId 1) = Some \<lparr>km_direct_at = None, km_routed =
     Some \<lparr>rp_version = PresenceVersion 2 9, rp_via = MemberId 2, rp_hops = 2, rp_received_at = 8\<rparr>\<rparr>"
proof -
  let ?ops = "[ObserveRelay \<lparr>pc_member = MemberId 1, pc_version = PresenceVersion 2 9\<rparr> (MemberId 2) 3 5]"
  let ?t = "presence_run ?ops (presence_new (MemberId 9))"
  let ?c = "\<lparr>pc_member = MemberId 1, pc_version = PresenceVersion 2 9\<rparr>"
  let ?k = "\<lparr>km_direct_at = None, km_routed =
     Some \<lparr>rp_version = PresenceVersion 2 9, rp_via = MemberId 2, rp_hops = 3, rp_received_at = 5\<rparr>\<rparr>"
  have k: "bm_get (pt_members ?t) (pc_member ?c) = Some ?k" by code_simp
  have live: "known_live ?k 8" by code_simp
  have "fst (observe_relay ?c (MemberId 2) 2 8 ?t) = Inr True" by code_simp
  then obtain t' where o: "observe_relay ?c (MemberId 2) 2 8 ?t = (Inr True, t')" by (metis prod.collapse)
  from route_version_monotonic [OF k _ live o] have "bm_get (pt_members t') (MemberId 1) =
      Some \<lparr>km_direct_at = None, km_routed = Some \<lparr>rp_version = PresenceVersion 2 9,
        rp_via = MemberId 2, rp_hops = 2, rp_received_at = 8\<rparr>\<rparr>" by simp
  with o show ?thesis by blast
qed

text \<open>
  The version order is not kept once an entry has expired: a member last heard in
  incarnation 2 is listed again by a claim of incarnation 1, 16 time units later.
\<close>

theorem stale_claim_after_expiry:
  "fst (observe_relay \<lparr>pc_member = MemberId 1, pc_version = PresenceVersion 1 1\<rparr> (MemberId 2) 3 21
     (presence_run [ObserveRelay \<lparr>pc_member = MemberId 1, pc_version = PresenceVersion 2 9\<rparr> (MemberId 2) 3 5]
        (presence_new (MemberId 9)))) = Inr True"
  by code_simp

lemma collect_present_Inr:
  "(\<forall>m \<in> set ms. \<exists>e. f m = Inr e) \<Longrightarrow>
   collect_present (map f ms) = Inr (List.map_filter (\<lambda>m. case f m of Inr e \<Rightarrow> e | Inl _ \<Rightarrow> None) ms)"
  by (induction ms) (auto simp: map_filter_simps split: option.splits)

lemma in_map_filter: "y \<in> set (List.map_filter g xs) \<longleftrightarrow> (\<exists>x \<in> set xs. g x = Some y)"
  by (induction xs) (auto simp: map_filter_simps split: option.splits)

lemma presence_member_pe: "presence_member m now t = Inr (Some e) \<Longrightarrow> pe_member e = m"
  by (auto simp: presence_member_def valid_time_def split: if_splits option.splits)

text \<open>
  \<open>active\<close> lists, in member order and once each, exactly the members \<open>member\<close> reports.
\<close>

theorem active_snapshot:
  assumes "now \<le> MAX_LOGICAL_TIME"
  shows "\<exists>es. presence_active now (presence_run ops (presence_new loc)) = Inr es \<and>
    sorted_wrt (<) (map pe_member es) \<and>
    (\<forall>e. e \<in> set es \<longleftrightarrow> presence_member (pe_member e) now (presence_run ops (presence_new loc)) = Inr (Some e))"
proof -
  let ?t = "presence_run ops (presence_new loc)"
  let ?f = "\<lambda>m. presence_member m now ?t"
  let ?g = "\<lambda>m. case ?f m of Inr e \<Rightarrow> e | Inl _ \<Rightarrow> None"
  let ?ms = "map fst (pt_members ?t)"
  have wf: "bm_wf (pt_members ?t)" using presence_run_wf by (simp add: presence_inv_def)
  have ok: "\<exists>e. ?f m = Inr e" for m
    using assms by (auto simp: presence_member_def valid_time_def split: option.splits)
  have act: "presence_active now ?t = Inr (List.map_filter ?g ?ms)"
    using assms collect_present_Inr [of ?ms ?f] ok by (simp add: presence_active_def valid_time_def)
  have g: "?g m = Some e \<longleftrightarrow> ?f m = Inr (Some e)" for m e
    using ok [of m] by (auto split: sum.splits)
  have "sorted_wrt (<) (map pe_member (List.map_filter ?g ms)) \<and>
      pe_member ` set (List.map_filter ?g ms) \<subseteq> set ms" if "sorted_wrt (<) ms" for ms
    using that
  proof (induction ms)
    case (Cons m ms)
    then show ?case
      using presence_member_pe [of m now ?t] ok [of m]
      by (auto simp: map_filter_simps split: option.splits sum.splits)
  qed (simp add: map_filter_simps)
  moreover have "sorted_wrt (<) ?ms" using wf by (simp add: bm_wf_def)
  ultimately have 1: "sorted_wrt (<) (map pe_member (List.map_filter ?g ?ms))" by blast
  have dom: "?f m = Inr None" if "m \<notin> set ?ms" for m
  proof -
    have "bm_get (pt_members ?t) m = None"
      using that by (simp add: bm_get_def map_of_eq_None_iff)
    then show ?thesis using assms by (simp add: presence_member_def valid_time_def)
  qed
  have "e \<in> set (List.map_filter ?g ?ms) \<longleftrightarrow> ?f (pe_member e) = Inr (Some e)" for e
  proof -
    have "e \<in> set (List.map_filter ?g ?ms) \<longleftrightarrow> (\<exists>m \<in> set ?ms. ?g m = Some e)"
      by (rule in_map_filter)
    also have "\<dots> \<longleftrightarrow> ?f (pe_member e) = Inr (Some e)"
      unfolding g using dom presence_member_pe by (metis option.distinct(1) sum.inject(2))
    finally show ?thesis .
  qed
  with act 1 show ?thesis by blast
qed

theorem active_snapshot_witness:
  "\<exists>es. presence_active 9 (presence_run [ObserveDirect (MemberId 2) 5, ObserveDirect (MemberId 1) 6]
     (presence_new (MemberId 9))) = Inr es \<and> sorted_wrt (<) (map pe_member es)"
  using active_snapshot [of 9 "[ObserveDirect (MemberId 2) 5, ObserveDirect (MemberId 1) 6]" "MemberId 9"]
  by (auto simp: MAX_LOGICAL_TIME_def)

section \<open>Chunk planning\<close>

fun plan_loop :: "manifest \<Rightarrow> nat list \<Rightarrow> nat \<Rightarrow> nat list" where
  "plan_loop m [] budget = []"
| "plan_loop m (index # rest) budget =
     (let len = min (mf_content_len m - index * CHUNK_BYTES) CHUNK_BYTES in
      if len > budget then [] else index # plan_loop m rest (budget - len))"

definition chunk_plan :: "manifest \<Rightarrow> nat list \<Rightarrow> u64 \<Rightarrow> u8 \<Rightarrow> nat \<Rightarrow> durable_error + nat list" where
  "chunk_plan m missing now hops byte_budget =
     (if now > MAX_LOGICAL_TIME
        \<or> length missing > MAX_CHUNKS
        \<or> \<not> ascending missing
        \<or> (\<exists>i \<in> set missing. i \<ge> chunk_count m)
      then Inl InvalidInput
      else if now \<ge> mf_expires_at m then Inl Expired
      else if hops \<ge> mf_hop_limit m then Inr []
      else Inr (plan_loop m missing byte_budget))"

definition chunk_len :: "manifest \<Rightarrow> nat \<Rightarrow> nat" where
  "chunk_len m i = min (mf_content_len m - i * CHUNK_BYTES) CHUNK_BYTES"

lemma plan_loop_prefix:
  "\<exists>rest. missing = plan_loop m missing b @ rest \<and> sum_list (map (chunk_len m) (plan_loop m missing b)) \<le> b \<and>
     (rest = [] \<or> b < sum_list (map (chunk_len m) (plan_loop m missing b)) + chunk_len m (hd rest))"
proof (induction missing arbitrary: b)
  case (Cons i js)
  show ?case
  proof (cases "chunk_len m i > b")
    case True
    then show ?thesis by (intro exI [of _ "i # js"]) (simp add: chunk_len_def)
  next
    case False
    obtain rest where r: "js = plan_loop m js (b - chunk_len m i) @ rest"
      "sum_list (map (chunk_len m) (plan_loop m js (b - chunk_len m i))) \<le> b - chunk_len m i"
      "rest = [] \<or> b - chunk_len m i <
         sum_list (map (chunk_len m) (plan_loop m js (b - chunk_len m i))) + chunk_len m (hd rest)"
      using Cons.IH by blast
    have p: "plan_loop m (i # js) b = i # plan_loop m js (b - chunk_len m i)"
      using False by (simp add: chunk_len_def Let_def)
    show ?thesis unfolding p using r False by (intro exI [of _ rest]) auto
  qed
qed simp

text \<open>
  \<open>plan\<close> takes the missing chunks in index order while they fit the byte budget, and
  stops only at a chunk that does not fit; nothing is planned once the hop limit is reached,
  and for a valid manifest every planned chunk lies inside the body.
\<close>

theorem plan_is_maximal_prefix:
  assumes "chunk_plan m missing now hops budget = Inr planned" and "manifest_validate m = Inr ()"
    and "namespace_ok (mf_namespace m)"
  shows "\<exists>rest. missing = planned @ rest \<and> sum_list (map (chunk_len m) planned) \<le> budget \<and>
    (rest = [] \<or> mf_hop_limit m \<le> hops \<or> budget < sum_list (map (chunk_len m) planned) + chunk_len m (hd rest)) \<and>
    (hops \<ge> mf_hop_limit m \<longrightarrow> planned = []) \<and> now < mf_expires_at m \<and>
    (\<forall>i \<in> set planned. i < chunk_count m \<and> i * CHUNK_BYTES < mf_content_len m \<and> 0 < chunk_len m i)"
proof -
  have ok: "manifest_ok m" using assms(2,3) by (simp add: manifest_ok_def)
  have inside: "i * 1024 < mf_content_len m" if "i < chunk_count m" for i
  proof -
    have "i < div_ceil (mf_content_len m) 1024"
      using that manifest_ok_bounds(6) [OF ok] by (simp add: chunk_count_def)
    then have "i < mf_content_len m div 1024 \<or> i = mf_content_len m div 1024 \<and> mf_content_len m mod 1024 \<noteq> 0"
      by (auto simp: div_ceil_def split: if_splits)
    then show ?thesis
    proof
      assume "i < mf_content_len m div 1024"
      then have "i * 1024 < mf_content_len m div 1024 * 1024" by simp
      then show ?thesis by (rule less_le_trans) simp
    next
      assume "i = mf_content_len m div 1024 \<and> mf_content_len m mod 1024 \<noteq> 0"
      then show ?thesis using div_mult_mod_eq [of "mf_content_len m" 1024] by linarith
    qed
  qed
  have all: "\<forall>i \<in> set missing. i < chunk_count m" and time: "now < mf_expires_at m"
    using assms(1) by (auto simp: chunk_plan_def not_le split: if_splits)
  have "planned = (if hops \<ge> mf_hop_limit m then [] else plan_loop m missing budget)"
    using assms(1) by (auto simp: chunk_plan_def split: if_splits)
  moreover obtain rest where "missing = plan_loop m missing budget @ rest"
    "sum_list (map (chunk_len m) (plan_loop m missing budget)) \<le> budget"
    "rest = [] \<or> budget < sum_list (map (chunk_len m) (plan_loop m missing budget)) + chunk_len m (hd rest)"
    using plan_loop_prefix by blast
  ultimately obtain rest where r: "missing = planned @ rest" "sum_list (map (chunk_len m) planned) \<le> budget"
    "rest = [] \<or> mf_hop_limit m \<le> hops \<or> budget < sum_list (map (chunk_len m) planned) + chunk_len m (hd rest)"
    "hops \<ge> mf_hop_limit m \<longrightarrow> planned = []"
    by (cases "mf_hop_limit m \<le> hops") auto
  have "i < chunk_count m \<and> i * CHUNK_BYTES < mf_content_len m \<and> 0 < chunk_len m i" if "i \<in> set planned" for i
    using that all inside r(1) by (auto simp: chunk_len_def)
  then show ?thesis using r time by blast
qed

theorem plan_is_maximal_prefix_witness:
  "\<exists>p planned. from_opaque be_word (MemberId 7) 1 sample_policy [1, 2, 3] = Inr p \<and>
     chunk_plan (po_manifest p) [0] 5 0 3 = Inr planned \<and>
     (\<forall>i \<in> set planned. i < chunk_count (po_manifest p))"
proof -
  obtain p where p: "from_opaque be_word (MemberId 7) 1 sample_policy [1, 2, 3] = Inr p"
    by (simp add: from_opaque_def sample_policy_def manifest_validate_def Let_def MAX_LOGICAL_TIME_def
        chunks_unfold div_ceil_def)
  note f = from_opaque_Inr [OF p]
  have ns: "namespace_ok (mf_namespace (po_manifest p))"
    unfolding f(5)
    by (simp add: sample_policy_def namespace_ok_def namespace_new_def ascii_def namespace_byte_def
        is_ascii_alphanumeric_def)
  have "mf_expires_at (po_manifest p) = 100"
    using p by (auto simp: from_opaque_def sample_policy_def Let_def res_simps split: if_splits)
  moreover have "chunk_count (po_manifest p) = 1" using f(7) by (simp add: chunk_count_def chunks_unfold)
  ultimately obtain planned where c: "chunk_plan (po_manifest p) [0] 5 0 3 = Inr planned"
    by (cases "unat (mf_hop_limit (po_manifest p)) = 0")
      (auto simp: chunk_plan_def MAX_LOGICAL_TIME_def word_le_nat_alt)
  from plan_is_maximal_prefix [OF c f(4) ns] p c show ?thesis by blast
qed

end
