(* ===== verification/Mesh_Crypto.thy ===== *)
theory Mesh_Crypto
  imports Mesh_Types
begin

text \<open>
  \<open>crates/mesh-crypto/src/lib.rs\<close>: the primitive boundary. The ciphers, the signature scheme, the
  hash and the KEM are third-party crates: they are the fields of \<open>suite\<close> and \<open>kem\<close>, and what
  the code relies on is stated by \<open>signing_ok\<close>, \<open>aead_ok\<close> and \<open>kem_ok\<close>. A host's random
  source is a state with a function \<open>fill\<close>; key material is a plain array here, since
  \<open>Zeroizing\<close> only affects what is left in memory.
\<close>

section \<open>Errors, random bytes, domains\<close>

datatype crypto_error =
    InvalidInput_crypto
  | InvalidKey
  | Authentication
  | RandomUnavailable
  | NonceExhausted

definition SUITE_ID :: u16 where [simp]: "SUITE_ID = 1"
definition MAX_SIGNED_BYTES :: nat where [simp]: "MAX_SIGNED_BYTES = 65536"
definition MAX_CHUNK_BYTES :: nat where [simp]: "MAX_CHUNK_BYTES = 1024"
definition MAX_CHUNKS_crypto :: u32 where [simp]: "MAX_CHUNKS_crypto = 64"
definition I64_MAX :: u64 where "I64_MAX = 0x7fffffffffffffff"

lemma I64_MAX_eq: "I64_MAX = MAX_LOGICAL_TIME"
  by (simp add: I64_MAX_def MAX_LOGICAL_TIME_def)

text \<open>\<open>RandomSource::fill\<close>: the bytes written to a buffer of that length, or the error.\<close>

type_synonym 'r source = "nat \<Rightarrow> 'r \<Rightarrow> (crypto_error + bytes) \<times> 'r"

definition random32 :: "'r source \<Rightarrow> 'r \<Rightarrow> (crypto_error + arr32) \<times> 'r" where
  "random32 fill rng = bind_st (fill 32 rng) (\<lambda>b rng. (Inr (be_word b), rng))"

datatype domain =
    Certificate
  | Object
  | Receipt_domain
  | Transition
  | Recovery
  | Session_domain
  | Enrollment
  | Presence
  | ReceiptAck_domain
  | CloudRelay

primrec domain_code :: "domain \<Rightarrow> u8" where
  "domain_code Certificate = 1"
| "domain_code Object = 2"
| "domain_code Receipt_domain = 3"
| "domain_code Transition = 4"
| "domain_code Recovery = 5"
| "domain_code Session_domain = 6"
| "domain_code Enrollment = 7"
| "domain_code Presence = 8"
| "domain_code ReceiptAck_domain = 9"
| "domain_code CloudRelay = 10"

lemma domain_code_inject [simp]: "domain_code d = domain_code e \<longleftrightarrow> d = e"
  by (cases d; cases e) simp_all

record scope =
  sc_group :: arr32
  sc_epoch :: u64

definition scope_prefix :: "scope \<Rightarrow> u8 \<Rightarrow> crypto_error + bytes" where
  "scope_prefix s purpose =
     (if sc_epoch s = 0 \<or> sc_epoch s > I64_MAX then Inl InvalidInput_crypto
      else
        let b = ascii ''MeshLab/Crypto/v1'' @ [0];
            b = b @ be_bytes SUITE_ID;
            b = b @ [purpose];
            b = b @ be_bytes (sc_group s);
            b = b @ be_bytes (sc_epoch s)
        in Inr b)"

definition signature_input :: "scope \<Rightarrow> domain \<Rightarrow> bytes \<Rightarrow> crypto_error + bytes" where
  "signature_input s d bs =
     (if length bs > MAX_SIGNED_BYTES then Inl InvalidInput_crypto
      else bindr (scope_prefix s (domain_code d)) (\<lambda>b.
        let b = b @ be_bytes (of_nat (length bs) :: u32)
        in Inr (b @ bs)))"

section \<open>Signatures\<close>

text \<open>
  \<open>ed25519_dalek\<close>, \<open>sha2\<close> and \<open>chacha20poly1305\<close>. \<open>ed_key\<close> says that \<open>VerifyingKey::from_bytes\<close>
  accepts the bytes, \<open>ed_verify\<close> is \<open>verify_strict\<close> on such a key, the AEAD functions give
  \<open>None\<close> for an error.
\<close>

record suite =
  ed_public :: "arr32 \<Rightarrow> arr32"
  ed_sign :: "arr32 \<Rightarrow> bytes \<Rightarrow> arr64"
  ed_key :: "arr32 \<Rightarrow> bool"
  ed_verify :: "arr32 \<Rightarrow> bytes \<Rightarrow> arr64 \<Rightarrow> bool"
  hash :: "bytes \<Rightarrow> arr32"
  aead_seal :: "arr32 \<Rightarrow> 96 word \<Rightarrow> bytes \<Rightarrow> bytes \<Rightarrow> bytes option"
  aead_open :: "arr32 \<Rightarrow> 96 word \<Rightarrow> bytes \<Rightarrow> bytes \<Rightarrow> bytes option"

text \<open>An \<open>IdentitySigningKey\<close> is its seed.\<close>

datatype identity_signing_key = IdentitySigningKey (signing_seed: arr32)

definition signing_generate :: "'r source \<Rightarrow> 'r \<Rightarrow> (crypto_error + identity_signing_key) \<times> 'r" where
  "signing_generate fill rng = bind_st (random32 fill rng) (\<lambda>seed rng. (Inr (IdentitySigningKey seed), rng))"

definition signing_public_key :: "suite \<Rightarrow> identity_signing_key \<Rightarrow> arr32" where
  "signing_public_key p k = ed_public p (signing_seed k)"

definition sign :: "suite \<Rightarrow> identity_signing_key \<Rightarrow> scope \<Rightarrow> domain \<Rightarrow> bytes \<Rightarrow> crypto_error + arr64" where
  "sign p k s d canonical =
     bindr (signature_input s d canonical) (\<lambda>input. Inr (ed_sign p (signing_seed k) input))"

definition verify :: "suite \<Rightarrow> arr32 \<Rightarrow> scope \<Rightarrow> domain \<Rightarrow> bytes \<Rightarrow> arr64 \<Rightarrow> crypto_error + unit" where
  "verify p public s d canonical signature =
     bindr (signature_input s d canonical) (\<lambda>input.
       if \<not> ed_key p public then Inl InvalidKey
       else if \<not> ed_verify p public input signature then Inl Authentication
       else Inr ())"

definition identity_key_id :: "suite \<Rightarrow> arr32 \<Rightarrow> arr32" where
  "identity_key_id p public = hash p (ascii ''MeshLab/IdentityKeyId/v1'' @ [0] @ be_bytes public)"

text \<open>What a signature scheme promises: its own signatures verify.\<close>

definition signing_ok :: "suite \<Rightarrow> bool" where
  "signing_ok p \<longleftrightarrow> (\<forall>seed m. ed_key p (ed_public p seed) \<and> ed_verify p (ed_public p seed) m (ed_sign p seed m))"

section \<open>Key wrapping\<close>

text \<open>
  The \<open>hpke\<close> crate. \<open>'r\<close> is the host's random state, \<open>'k\<close> a private key, \<open>'s\<close> and \<open>'o\<close> the sender's
  and receiver's contexts. \<open>setup_sender\<close> draws from the \<open>RngCore\<close> it is given, which is the
  \<open>HpkeRandom\<close> below.
\<close>

record 'r hpke_random =
  hr_source :: 'r
  hr_failed :: bool

definition hpke_fill_bytes :: "'r source \<Rightarrow> nat \<Rightarrow> 'r hpke_random \<Rightarrow> bytes \<times> 'r hpke_random" where
  "hpke_fill_bytes fill n h =
     (if hr_failed h then (replicate n 0, h\<lparr>hr_failed := True\<rparr>)
      else (case fill n (hr_source h) of
          (Inl _, r) \<Rightarrow> (replicate n 0, h\<lparr>hr_source := r, hr_failed := True\<rparr>)
        | (Inr b, r) \<Rightarrow> (b, h\<lparr>hr_source := r\<rparr>)))"

record ('r, 'k, 's, 'o) kem =
  kem_derive :: "bytes \<Rightarrow> 'k"
  kem_private :: "bytes \<Rightarrow> 'k option"
  kem_sk_to_pk :: "'k \<Rightarrow> arr32"
  kem_public_ok :: "arr32 \<Rightarrow> bool"
  kem_encapped_ok :: "arr32 \<Rightarrow> bool"
  kem_setup_sender :: "arr32 \<Rightarrow> bytes \<Rightarrow> (nat \<Rightarrow> 'r hpke_random \<Rightarrow> bytes \<times> 'r hpke_random)
     \<Rightarrow> 'r hpke_random \<Rightarrow> (arr32 \<times> 's) option \<times> 'r hpke_random"
  kem_seal :: "'s \<Rightarrow> bytes \<Rightarrow> bytes \<Rightarrow> bytes option"
  kem_setup_receiver :: "'k \<Rightarrow> arr32 \<Rightarrow> bytes \<Rightarrow> 'o option"
  kem_open :: "'o \<Rightarrow> bytes \<Rightarrow> bytes \<Rightarrow> bytes option"

definition delivery_generate ::
    "('r, 'k, 's, 'o) kem \<Rightarrow> 'r source \<Rightarrow> 'r \<Rightarrow> (crypto_error + 'k) \<times> 'r" where
  "delivery_generate h fill rng = bind_st (random32 fill rng) (\<lambda>seed rng. (Inr (kem_derive h (be_bytes seed)), rng))"

definition delivery_import :: "('r, 'k, 's, 'o) kem \<Rightarrow> arr32 \<Rightarrow> crypto_error + 'k" where
  "delivery_import h b = ok_or InvalidKey (kem_private h (be_bytes b))"

record recipient =
  rp_member :: arr32
  rp_delivery_key_id :: arr32
  rp_public_key :: arr32

record recipient_wrap =
  rw_encapsulated :: arr32
  rw_ciphertext :: "384 word"

datatype content_key = ContentKey (content_bytes: arr32)

definition content_generate :: "'r source \<Rightarrow> 'r \<Rightarrow> (crypto_error + content_key) \<times> 'r" where
  "content_generate fill rng = bind_st (random32 fill rng) (\<lambda>b rng. (Inr (ContentKey b), rng))"

definition wrap_context :: "scope \<Rightarrow> arr32 \<Rightarrow> recipient \<Rightarrow> crypto_error + bytes" where
  "wrap_context s object_context_id rc =
     bindr (scope_prefix s 16) (\<lambda>b.
       let b = b @ be_bytes object_context_id;
           b = b @ be_bytes (rp_member rc);
           b = b @ be_bytes (rp_delivery_key_id rc);
           b = b @ be_bytes (rp_public_key rc)
       in Inr b)"

definition wrap_key ::
    "('r, 'k, 's, 'o) kem \<Rightarrow> 'r source \<Rightarrow> content_key \<Rightarrow> scope \<Rightarrow> arr32 \<Rightarrow> recipient \<Rightarrow> 'r
     \<Rightarrow> (crypto_error + recipient_wrap) \<times> 'r" where
  "wrap_key h fill key s object_context_id rc rng =
     (case wrap_context s object_context_id rc of
        Inl e \<Rightarrow> (Inl e, rng)
      | Inr info \<Rightarrow>
          if \<not> kem_public_ok h (rp_public_key rc) then (Inl InvalidKey, rng)
          else (case kem_setup_sender h (rp_public_key rc) info (hpke_fill_bytes fill)
                       \<lparr>hr_source = rng, hr_failed = False\<rparr> of
            (setup, r) \<Rightarrow>
              (if hr_failed r then Inl RandomUnavailable
               else (case setup of
                   None \<Rightarrow> Inl InvalidKey
                 | Some (enc, context) \<Rightarrow>
                     (case kem_seal h context (be_bytes (content_bytes key)) info of
                        None \<Rightarrow> Inl Authentication
                      | Some wrapped \<Rightarrow>
                          if length wrapped \<noteq> 48 then Inl Authentication
                          else Inr \<lparr>rw_encapsulated = enc, rw_ciphertext = be_word wrapped\<rparr>)),
               hr_source r)))"

definition unwrap_key ::
    "('r, 'k, 's, 'o) kem \<Rightarrow> 'k \<Rightarrow> scope \<Rightarrow> arr32 \<Rightarrow> recipient \<Rightarrow> recipient_wrap \<Rightarrow> crypto_error + content_key" where
  "unwrap_key h secret s object_context_id rc wrapped =
     (if kem_sk_to_pk h secret \<noteq> rp_public_key rc then Inl InvalidKey
      else
        bindr (wrap_context s object_context_id rc) (\<lambda>info.
          if \<not> kem_encapped_ok h (rw_encapsulated wrapped) then Inl InvalidKey
          else
            bindr (ok_or Authentication (kem_setup_receiver h secret (rw_encapsulated wrapped) info)) (\<lambda>context.
            bindr (ok_or Authentication (kem_open h context (be_bytes (rw_ciphertext wrapped)) info)) (\<lambda>clear.
              if length clear \<noteq> 32 then Inl Authentication
              else Inr (ContentKey (be_word clear))))))"

text \<open>
  What HPKE promises: a receiver that owns the key opens what the sender's context sealed, and a
  sealing is the plaintext with a 16 byte tag. A sender's random source is arbitrary.
\<close>

definition kem_ok :: "('r, 'k, 's, 'o) kem \<Rightarrow> bool" where
  "kem_ok h \<longleftrightarrow>
     (\<forall>sk info f r enc ctx r' pt aad c.
        kem_setup_sender h (kem_sk_to_pk h sk) info f r = (Some (enc, ctx), r') \<longrightarrow>
        kem_seal h ctx pt aad = Some c \<longrightarrow>
        length c = length pt + 16 \<and> kem_encapped_ok h enc \<and>
        (\<exists>rx. kem_setup_receiver h sk enc info = Some rx \<and> kem_open h rx c aad = Some pt))"

section \<open>Content encryption\<close>

record chunk_context =
  cc_scope :: scope
  cc_object_context_id :: arr32
  cc_origin :: arr32
  cc_origin_sequence :: u64
  cc_audience_digest :: arr32
  cc_namespace :: bytes
  cc_schema :: u32
  cc_chunk_count :: u32
  cc_lifetime :: u64
  cc_priority :: u8

definition chunk_aad :: "chunk_context \<Rightarrow> u32 \<Rightarrow> crypto_error + bytes" where
  "chunk_aad c index =
     (if cc_origin_sequence c = 0
         \<or> cc_origin_sequence c > I64_MAX
         \<or> cc_schema c = 0
         \<or> cc_lifetime c = 0
         \<or> cc_lifetime c > I64_MAX
         \<or> cc_chunk_count c = 0
         \<or> cc_chunk_count c > MAX_CHUNKS_crypto
         \<or> index \<ge> cc_chunk_count c
         \<or> cc_namespace c = []
         \<or> length (cc_namespace c) > 64
         \<or> \<not> list_all (\<lambda>b. is_ascii_alphanumeric b \<or> b \<in> set (ascii ''._-'')) (cc_namespace c)
      then Inl InvalidInput_crypto
      else
        bindr (scope_prefix (cc_scope c) 17) (\<lambda>b.
          let b = b @ be_bytes (cc_object_context_id c);
              b = b @ be_bytes (cc_origin c);
              b = b @ be_bytes (cc_origin_sequence c);
              b = b @ be_bytes (cc_audience_digest c);
              b = b @ [of_nat (length (cc_namespace c))];
              b = b @ cc_namespace c;
              b = b @ be_bytes (cc_schema c);
              b = b @ be_bytes index;
              b = b @ be_bytes (cc_chunk_count c);
              b = b @ be_bytes (cc_lifetime c);
              b = b @ [cc_priority c]
          in Inr b))"

definition nonce_for :: "96 word \<Rightarrow> u32 \<Rightarrow> crypto_error + 96 word" where
  "nonce_for base index =
     (let counter = be_word (drop 4 (be_bytes base)) :: u64 in
      bindr (ok_or NonceExhausted (checked_add counter (ucast index))) (\<lambda>counter.
        Inr (be_word (take 4 (be_bytes base) @ be_bytes counter))))"

definition seal_raw :: "suite \<Rightarrow> arr32 \<Rightarrow> 96 word \<Rightarrow> bytes \<Rightarrow> bytes \<Rightarrow> crypto_error + bytes" where
  "seal_raw p key nonce aad bs = ok_or Authentication (aead_seal p key nonce aad bs)"

definition open_raw :: "suite \<Rightarrow> arr32 \<Rightarrow> 96 word \<Rightarrow> bytes \<Rightarrow> bytes \<Rightarrow> crypto_error + bytes" where
  "open_raw p key nonce aad bs = ok_or Authentication (aead_open p key nonce aad bs)"

record content_sealer =
  cs_key :: content_key
  cs_context :: chunk_context
  cs_base_nonce :: "96 word"
  cs_next :: u32

definition sealer_generate ::
    "'r source \<Rightarrow> chunk_context \<Rightarrow> 'r \<Rightarrow> (crypto_error + content_sealer) \<times> 'r" where
  "sealer_generate fill context rng =
     bind_st (chunk_aad context 0, rng) (\<lambda>_ rng.
     bind_st (content_generate fill rng) (\<lambda>key rng.
     bind_st (fill 12 rng) (\<lambda>base rng.
     bind_st (nonce_for (be_word base) (cc_chunk_count context - 1), rng) (\<lambda>_ rng.
       (Inr \<lparr>cs_key = key, cs_context = context, cs_base_nonce = be_word base, cs_next = 0\<rparr>, rng)))))"

definition sealer_wrap_for ::
    "('r, 'k, 's, 'o) kem \<Rightarrow> 'r source \<Rightarrow> content_sealer \<Rightarrow> recipient \<Rightarrow> 'r
     \<Rightarrow> (crypto_error + recipient_wrap) \<times> 'r" where
  "sealer_wrap_for h fill z rc rng =
     wrap_key h fill (cs_key z) (cc_scope (cs_context z)) (cc_object_context_id (cs_context z)) rc rng"

definition seal_next :: "suite \<Rightarrow> bytes \<Rightarrow> content_sealer \<Rightarrow> (crypto_error + bytes) \<times> content_sealer" where
  "seal_next p plaintext z =
     (if plaintext = [] \<or> length plaintext > MAX_CHUNK_BYTES then (Inl InvalidInput_crypto, z)
      else if cs_next z \<ge> cc_chunk_count (cs_context z) then (Inl NonceExhausted, z)
      else
        let index = cs_next z in
        (case chunk_aad (cs_context z) index of
           Inl e \<Rightarrow> (Inl e, z)
         | Inr aad \<Rightarrow>
             (case nonce_for (cs_base_nonce z) index of
                Inl e \<Rightarrow> (Inl e, z)
              | Inr nonce \<Rightarrow>
                  (seal_raw p (content_bytes (cs_key z)) nonce aad plaintext, z\<lparr>cs_next := cs_next z + 1\<rparr>))))"

definition open_chunk ::
    "suite \<Rightarrow> content_key \<Rightarrow> chunk_context \<Rightarrow> 96 word \<Rightarrow> u32 \<Rightarrow> bytes \<Rightarrow> crypto_error + bytes" where
  "open_chunk p key context base_nonce index ciphertext =
     (if length ciphertext < 17 \<or> length ciphertext > MAX_CHUNK_BYTES + 16 then Inl InvalidInput_crypto
      else
        bindr (chunk_aad context index) (\<lambda>aad.
        bindr (nonce_for base_nonce index) (\<lambda>nonce.
          open_raw p (content_bytes key) nonce aad ciphertext)))"

text \<open>What the AEAD promises: it opens its own sealings, which add a 16 byte tag.\<close>

definition aead_ok :: "suite \<Rightarrow> bool" where
  "aead_ok p \<longleftrightarrow> (\<forall>k n a m c. aead_seal p k n a m = Some c \<longrightarrow>
     length c = length m + 16 \<and> aead_open p k n a c = Some m)"

section \<open>The authenticated inputs\<close>

text \<open>
  Everything the code signs, wraps or seals under an associated text starts with a prefix that
  names its purpose. The three kinds of inputs together:
\<close>

datatype auth_input =
    Signed_input scope domain bytes
  | Wrapped_input scope arr32 recipient
  | Chunk_input chunk_context u32

primrec auth_bytes :: "auth_input \<Rightarrow> crypto_error + bytes" where
  "auth_bytes (Signed_input s d bs) = signature_input s d bs"
| "auth_bytes (Wrapped_input s ctx rc) = wrap_context s ctx rc"
| "auth_bytes (Chunk_input c index) = chunk_aad c index"

named_theorems input_simps "the authenticated inputs as one concatenation"

definition prefix_bytes :: "scope \<Rightarrow> u8 \<Rightarrow> bytes" where
  "prefix_bytes s purpose = ascii ''MeshLab/Crypto/v1'' @ [0] @ be_bytes SUITE_ID @ [purpose] @
     be_bytes (sc_group s) @ be_bytes (sc_epoch s)"

lemma scope_prefix_Inr [input_simps]:
  "scope_prefix s purpose = Inr b \<longleftrightarrow> 0 < sc_epoch s \<and> sc_epoch s \<le> I64_MAX \<and> b = prefix_bytes s purpose"
  by (auto simp: scope_prefix_def prefix_bytes_def Let_def word_gt_0 not_less simp del: append_assoc)

lemma length_prefix_bytes [simp]: "length (prefix_bytes s purpose) = 61"
  by (simp add: prefix_bytes_def)

lemma be_bytes_append_inject [simp]:
  "be_bytes (v :: 'a::len word) @ xs = be_bytes (w :: 'a word) @ ys \<longleftrightarrow> be_bytes v = be_bytes w \<and> xs = ys"
  by (simp add: append_eq_append_conv)

lemma be_bytes_eq_iff [simp]:
  "8 dvd LENGTH('a) \<Longrightarrow> be_bytes (v :: 'a::len word) = be_bytes w \<longleftrightarrow> v = w"
  by (metis be_word_be_bytes)

lemma prefix_bytes_inject [simp]:
  "prefix_bytes s p @ xs = prefix_bytes t q @ ys \<longleftrightarrow> s = t \<and> p = q \<and> xs = ys"
  by (auto simp: prefix_bytes_def intro: scope.equality)

lemma signature_input_Inr [input_simps]:
  "signature_input s d bs = Inr x \<longleftrightarrow> length bs \<le> MAX_SIGNED_BYTES \<and> 0 < sc_epoch s \<and> sc_epoch s \<le> I64_MAX \<and>
     x = prefix_bytes s (domain_code d) @ be_bytes (of_nat (length bs) :: u32) @ bs"
  by (auto simp: signature_input_def res_simps input_simps Let_def)

lemma wrap_context_Inr [input_simps]:
  "wrap_context s ctx rc = Inr x \<longleftrightarrow> 0 < sc_epoch s \<and> sc_epoch s \<le> I64_MAX \<and>
     x = prefix_bytes s 16 @ be_bytes ctx @ be_bytes (rp_member rc) @ be_bytes (rp_delivery_key_id rc) @
       be_bytes (rp_public_key rc)"
  by (auto simp: wrap_context_def res_simps input_simps Let_def)

definition chunk_ok :: "chunk_context \<Rightarrow> u32 \<Rightarrow> bool" where
  "chunk_ok c index \<longleftrightarrow>
     0 < cc_origin_sequence c \<and> cc_origin_sequence c \<le> I64_MAX \<and> 0 < cc_schema c \<and>
     0 < cc_lifetime c \<and> cc_lifetime c \<le> I64_MAX \<and> cc_chunk_count c \<le> MAX_CHUNKS_crypto \<and>
     index < cc_chunk_count c \<and> cc_namespace c \<noteq> [] \<and> length (cc_namespace c) \<le> 64 \<and>
     list_all namespace_byte (cc_namespace c) \<and> 0 < sc_epoch (cc_scope c) \<and> sc_epoch (cc_scope c) \<le> I64_MAX"

definition chunk_bytes :: "chunk_context \<Rightarrow> u32 \<Rightarrow> bytes" where
  "chunk_bytes c index = prefix_bytes (cc_scope c) 17 @ be_bytes (cc_object_context_id c) @
     be_bytes (cc_origin c) @ be_bytes (cc_origin_sequence c) @ be_bytes (cc_audience_digest c) @
     [of_nat (length (cc_namespace c))] @ cc_namespace c @ be_bytes (cc_schema c) @ be_bytes index @
     be_bytes (cc_chunk_count c) @ be_bytes (cc_lifetime c) @ [cc_priority c]"

lemma chunk_aad_Inr [input_simps]:
  "chunk_aad c index = Inr x \<longleftrightarrow> chunk_ok c index \<and> x = chunk_bytes c index"
proof -
  have ns: "list_all (\<lambda>b. is_ascii_alphanumeric b \<or> b \<in> set (ascii ''._-'')) (cc_namespace c) \<longleftrightarrow>
      list_all namespace_byte (cc_namespace c)"
    by (simp add: namespace_byte_def [abs_def])
  have pos: "cc_chunk_count c \<noteq> 0" if "index < cc_chunk_count c" using that by auto
  show ?thesis
    unfolding chunk_aad_def chunk_ok_def chunk_bytes_def Let_def ns
    by (auto simp: res_simps input_simps word_gt_0 not_le not_less dest: pos)
qed

lemma of_nat_byte_inject: "m < 256 \<Longrightarrow> n < 256 \<Longrightarrow> (of_nat m :: u8) = of_nat n \<longleftrightarrow> m = n"
  using take_bit_nat_eq_self_iff [of 8 m] take_bit_nat_eq_self_iff [of 8 n]
  by (simp add: word_of_nat_eq_iff)

lemma chunk_bytes_inject:
  assumes "chunk_ok c i" and "chunk_ok d j" and "chunk_bytes c i = chunk_bytes d j"
  shows "c = d \<and> i = j"
proof -
  have l: "length (cc_namespace c) < 256" "length (cc_namespace d) < 256"
    using assms(1,2) by (auto simp: chunk_ok_def)
  have "length (cc_namespace c) = length (cc_namespace d)"
    using assms(3) of_nat_byte_inject [OF l] by (auto simp: chunk_bytes_def)
  then show ?thesis using assms(3) by (auto simp: chunk_bytes_def intro: chunk_context.equality)
qed

lemma domain_code_small [simp]: "domain_code d \<noteq> 16" "domain_code d \<noteq> 17" "16 \<noteq> domain_code d" "17 \<noteq> domain_code d"
  by (cases d; simp)+

lemma auth_bytes_inject:
  assumes "auth_bytes a = Inr x" and "auth_bytes b = Inr x"
  shows "a = b"
proof (cases a; cases b)
  fix c i d j
  assume "a = Chunk_input c i" "b = Chunk_input d j"
  then show "a = b" using assms chunk_bytes_inject [of c i d j] by (simp add: input_simps)
qed (use assms in \<open>auto simp: input_simps chunk_bytes_def intro: recipient.equality\<close>)

text \<open>
  Two different inputs never encode to the same bytes, so what is signed for one scope,
  domain or purpose cannot be presented as anything else.
\<close>

theorem auth_inputs_separated:
  "auth_bytes a = auth_bytes b \<longleftrightarrow> a = b \<or> (\<exists>e. auth_bytes a = Inl e \<and> auth_bytes b = Inl e)"
  using auth_bytes_inject [of a _ b] by (cases "auth_bytes a") auto

lemma verify_Inr:
  "verify p pub s d bs sig = Inr () \<longleftrightarrow>
     (\<exists>x. signature_input s d bs = Inr x \<and> ed_key p pub \<and> ed_verify p pub x sig)"
  by (auto simp: verify_def res_simps)

lemma sign_verify:
  "signing_ok p \<Longrightarrow> sign p k s d bs = Inr sig \<Longrightarrow> verify p (signing_public_key p k) s d bs sig = Inr ()"
  by (auto simp: sign_def verify_Inr signing_ok_def signing_public_key_def res_simps)

text \<open>
  \<open>seen\<close> are the signatures that exist in the system and \<open>signed\<close> the statements the owner of
  the key signed: a signature that verifies was made by the owner.
\<close>

definition signed_only :: "suite \<Rightarrow> arr32 \<Rightarrow> arr64 set \<Rightarrow> (scope \<times> domain \<times> bytes) set \<Rightarrow> bool" where
  "signed_only p pub seen stmts \<longleftrightarrow>
     (\<forall>x sig. sig \<in> seen \<longrightarrow> ed_verify p pub x sig \<longrightarrow>
        (\<exists>(s, d, bs) \<in> stmts. signature_input s d bs = Inr x))"

lemma verify_signed:
  assumes "signed_only p pub seen stmts" and "sig \<in> seen" and "verify p pub s d bs sig = Inr ()"
  shows "(s, d, bs) \<in> stmts"
proof -
  obtain x where x: "signature_input s d bs = Inr x" "ed_verify p pub x sig"
    using assms(3) by (auto simp: verify_Inr)
  then obtain s' d' bs' where "(s', d', bs') \<in> stmts" "signature_input s' d' bs' = Inr x"
    using assms(1,2) unfolding signed_only_def by blast
  then show ?thesis
    using auth_bytes_inject [of "Signed_input s d bs" x "Signed_input s' d' bs'"] x(1) by simp
qed

text \<open>
  \<open>verify\<close> accepts what \<open>sign\<close> returns, and when no signature was forged it accepts a
  signature only for a statement its key signed, with the same scope, domain and bytes.
\<close>

theorem signatures_bind:
  assumes "signing_ok p" and "signed_only p (signing_public_key p k) seen stmts"
    and "sign p k s d bs = Inr sig"
  shows "verify p (signing_public_key p k) s d bs sig = Inr () \<and>
    (\<forall>s' d' bs'. \<forall>sig' \<in> seen.
       verify p (signing_public_key p k) s' d' bs' sig' = Inr () \<longrightarrow> (s', d', bs') \<in> stmts)"
  using sign_verify [OF assms(1,3)] verify_signed [OF assms(2)] by blast

definition sample_suite :: suite where
  "sample_suite = \<lparr>ed_public = (\<lambda>k. if k = 2 then 2 else 1), ed_sign = (\<lambda>_ _. 0), ed_key = (\<lambda>_. True), ed_verify = (\<lambda>_ _ _. True),
     hash = (\<lambda>_. 0), aead_seal = (\<lambda>_ _ _ m. Some (m @ replicate 16 0)),
     aead_open = (\<lambda>_ _ _ c. if length c < 16 then None else Some (take (length c - 16) c))\<rparr>"

definition sample_scope :: scope where
  "sample_scope = \<lparr>sc_group = 1, sc_epoch = 1\<rparr>"

definition sample_statement :: bytes where
  "sample_statement = prefix_bytes sample_scope 3 @ be_bytes (1 :: u32) @ [7]"

text \<open>A scheme with one statement signed by 0; every other message would be signed by 1.\<close>

definition one_statement :: suite where
  "one_statement = sample_suite\<lparr>ed_sign := \<lambda>_ m. if m = sample_statement then 0 else 1,
     ed_verify := \<lambda>_ m g. (m = sample_statement \<and> g = 0) \<or> g = 1\<rparr>"

theorem signatures_bind_witness:
  "verify one_statement 1 sample_scope Receipt_domain [7] 0 = Inr () \<and>
   verify one_statement 1 sample_scope Object [7] 0 \<noteq> Inr ()"
proof -
  have input: "signature_input sample_scope Receipt_domain [7] = Inr sample_statement"
    by (simp add: input_simps sample_scope_def sample_statement_def I64_MAX_def word_le_nat_alt)
  have "verify one_statement (signing_public_key one_statement (IdentitySigningKey 0)) sample_scope
      Receipt_domain [7] 0 = Inr () \<and>
    (\<forall>s' d' bs'. \<forall>sig' \<in> {0}.
       verify one_statement (signing_public_key one_statement (IdentitySigningKey 0)) s' d' bs' sig' = Inr () \<longrightarrow>
       (s', d', bs') \<in> {(sample_scope, Receipt_domain, [7])})"
  proof (rule signatures_bind)
    show "signing_ok one_statement" by (simp add: signing_ok_def one_statement_def sample_suite_def)
    show "signed_only one_statement (signing_public_key one_statement (IdentitySigningKey 0)) {0}
        {(sample_scope, Receipt_domain, [7])}"
      by (simp add: signed_only_def one_statement_def sample_suite_def input)
    show "sign one_statement (IdentitySigningKey 0) sample_scope Receipt_domain [7] = Inr 0"
      by (simp add: sign_def one_statement_def sample_suite_def input)
  qed
  then show ?thesis by (auto simp: signing_public_key_def one_statement_def sample_suite_def)
qed

section \<open>Sealing\<close>

lemma unat_u32_u64 [simp]: "unat (ucast (i :: u32) :: u64) = unat i"
  using unsigned_less [of i, where ?'a = nat] by (simp add: unat_ucast_less)

lemma unat_nonce_counter:
  "nonce_for base i = Inr n \<longleftrightarrow>
     unat (be_word (drop 4 (be_bytes base)) :: u64) + unat i < 2 ^ 64 \<and>
     n = be_word (take 4 (be_bytes base) @ be_bytes ((be_word (drop 4 (be_bytes base)) :: u64) + ucast i))"
  by (auto simp: nonce_for_def res_simps checked_add_def Let_def)

lemma nonce_for_mono: "is_ok (nonce_for base j) \<Longrightarrow> i \<le> j \<Longrightarrow> is_ok (nonce_for base i)"
  by (auto simp: is_ok_iff unat_nonce_counter word_le_nat_alt)

lemma nonce_for_inject:
  assumes "nonce_for base i = Inr n" and "nonce_for base j = Inr n"
  shows "i = j"
proof -
  let ?c = "be_word (drop 4 (be_bytes base)) :: u64"
  have split: "be_bytes n = take 4 (be_bytes base) @ be_bytes (?c + ucast k)" if "nonce_for base k = Inr n" for k
    using that by (simp add: unat_nonce_counter be_bytes_be_word)
  have "?c + ucast i = ?c + ucast j"
    using split [OF assms(1)] split [OF assms(2)] by simp
  then have "(ucast i :: u64) = ucast j" by simp
  then have "unat (ucast i :: u64) = unat (ucast j :: u64)" by (rule arg_cong)
  then show ?thesis unfolding unat_u32_u64 by (simp add: word_unat_eq_iff)
qed

definition sealer_ok :: "content_sealer \<Rightarrow> bool" where
  "sealer_ok z \<longleftrightarrow> chunk_ok (cs_context z) 0 \<and>
     is_ok (nonce_for (cs_base_nonce z) (cc_chunk_count (cs_context z) - 1)) \<and>
     cs_next z \<le> cc_chunk_count (cs_context z)"

lemma chunk_ok_index: "chunk_ok c 0 \<Longrightarrow> i < cc_chunk_count c \<Longrightarrow> chunk_ok c i"
  by (simp add: chunk_ok_def)

lemma sealer_generate_ok:
  "sealer_generate fill c rng = (Inr z, rng') \<Longrightarrow> sealer_ok z \<and> cs_next z = 0 \<and> cs_context z = c"
  by (auto simp: sealer_generate_def res_simps input_simps sealer_ok_def)

definition accepts_chunk :: "bytes \<Rightarrow> content_sealer \<Rightarrow> bool" where
  "accepts_chunk m z \<longleftrightarrow>
     m \<noteq> [] \<and> length m \<le> MAX_CHUNK_BYTES \<and> cs_next z < cc_chunk_count (cs_context z)"

lemma word_less_imp_le_pred: "i < n \<Longrightarrow> i \<le> n - 1" for i n :: "'a::len word"
  by (simp only: word_le_nat_alt word_less_nat_alt)
    (cases "n = 0", auto simp: unat_minus_one)

lemma seal_next_accepted:
  assumes "sealer_ok z" and "accepts_chunk m z"
  shows "\<exists>n. nonce_for (cs_base_nonce z) (cs_next z) = Inr n \<and>
    seal_next p m z = (seal_raw p (content_bytes (cs_key z)) n (chunk_bytes (cs_context z) (cs_next z)) m,
      z\<lparr>cs_next := cs_next z + 1\<rparr>)"
proof -
  have i: "cs_next z < cc_chunk_count (cs_context z)" using assms(2) by (simp add: accepts_chunk_def)
  have "is_ok (nonce_for (cs_base_nonce z) (cs_next z))"
    using assms(1) word_less_imp_le_pred [OF i] nonce_for_mono by (auto simp: sealer_ok_def)
  then obtain n where n: "nonce_for (cs_base_nonce z) (cs_next z) = Inr n" by (auto simp: is_ok_iff)
  have "chunk_aad (cs_context z) (cs_next z) = Inr (chunk_bytes (cs_context z) (cs_next z))"
    using assms(1) i by (simp add: input_simps chunk_ok_index sealer_ok_def)
  then show ?thesis using n i assms(2) by (simp add: seal_next_def accepts_chunk_def not_less [symmetric] Let_def)
qed

lemma seal_next_rejected: "\<not> accepts_chunk m z \<Longrightarrow> \<exists>e. seal_next p m z = (Inl e, z)"
  by (auto simp: seal_next_def accepts_chunk_def not_less)

text \<open>A run of calls: the sealer before each call, the plaintext and the result.\<close>

primrec seal_trace ::
    "suite \<Rightarrow> bytes list \<Rightarrow> content_sealer \<Rightarrow> (content_sealer \<times> bytes \<times> (crypto_error + bytes)) list" where
  "seal_trace p [] z = []"
| "seal_trace p (m # ms) z = (z, m, fst (seal_next p m z)) # seal_trace p ms (snd (seal_next p m z))"

definition same_sealer :: "content_sealer \<Rightarrow> content_sealer \<Rightarrow> bool" where
  "same_sealer y z \<longleftrightarrow>
     cs_key y = cs_key z \<and> cs_context y = cs_context z \<and> cs_base_nonce y = cs_base_nonce z"

lemma unat_add_one: "i < n \<Longrightarrow> unat (i + 1) = unat i + 1" for i n :: "'a::len word"
  using order_le_less_trans [OF Suc_leI unsigned_less [of n, where ?'a = nat]]
  by (simp add: word_less_nat_alt unat_word_ariths)

lemma seal_next_ok:
  assumes "sealer_ok z"
  shows "sealer_ok (snd (seal_next p m z)) \<and> same_sealer (snd (seal_next p m z)) z \<and>
    unat (cs_next (snd (seal_next p m z))) = unat (cs_next z) + (if accepts_chunk m z then 1 else 0)"
proof (cases "accepts_chunk m z")
  case True
  then have i: "cs_next z < cc_chunk_count (cs_context z)" by (simp add: accepts_chunk_def)
  show ?thesis
    using seal_next_accepted [OF assms True, of p] assms i unat_add_one [OF i] True
    by (auto simp: sealer_ok_def inc_le same_sealer_def)
next
  case False
  then show ?thesis using seal_next_rejected [OF False, of p] assms by (auto simp: same_sealer_def)
qed

lemma seal_trace_states:
  assumes "sealer_ok z" and "(y, m, r) \<in> set (seal_trace p ms z)"
  shows "sealer_ok y \<and> same_sealer y z \<and> r = fst (seal_next p m y)"
  using assms
proof (induction ms arbitrary: z)
  case (Cons a ms)
  note step = seal_next_ok [OF Cons.prems(1), of p a]
  show ?case
    using Cons.IH [of "snd (seal_next p a z)"] Cons.prems step by (auto simp: same_sealer_def)
qed simp

definition used_indices :: "suite \<Rightarrow> bytes list \<Rightarrow> content_sealer \<Rightarrow> u32 list" where
  "used_indices p ms z = map (\<lambda>(y, m, r). cs_next y) (filter (\<lambda>(y, m, r). accepts_chunk m y) (seal_trace p ms z))"

lemma used_indices_Cons:
  "used_indices p (m # ms) z =
     (if accepts_chunk m z then [cs_next z] else []) @ used_indices p ms (snd (seal_next p m z))"
  by (simp add: used_indices_def)

lemma used_indices_bounds:
  assumes "sealer_ok z"
  shows "sorted_wrt (<) (used_indices p ms z) \<and>
    (\<forall>i \<in> set (used_indices p ms z). cs_next z \<le> i \<and> i < cc_chunk_count (cs_context z))"
  using assms
proof (induction ms arbitrary: z)
  case Nil
  then show ?case by (simp add: used_indices_def)
next
  case (Cons m ms)
  let ?z = "snd (seal_next p m z)"
  note step = seal_next_ok [OF Cons.prems, of p m]
  have ih: "sorted_wrt (<) (used_indices p ms ?z)"
    "\<forall>i \<in> set (used_indices p ms ?z). cs_next ?z \<le> i \<and> i < cc_chunk_count (cs_context ?z)"
    using Cons.IH [of ?z] step by auto
  have ctx: "cs_context ?z = cs_context z" using step by (simp add: same_sealer_def)
  have le: "cs_next z \<le> cs_next ?z" and lt: "accepts_chunk m z \<Longrightarrow> cs_next z < cs_next ?z"
    using step by (auto simp: word_le_nat_alt word_less_nat_alt)
  show ?case
    using ih ctx le lt unfolding used_indices_Cons accepts_chunk_def
    by (auto intro: order_trans less_le_trans)
qed

lemma used_indices_nonces:
  assumes "sealer_ok z" and "i < cc_chunk_count (cs_context z)"
  shows "is_ok (nonce_for (cs_base_nonce z) i)"
  using assms nonce_for_mono [OF _ word_less_imp_le_pred] by (auto simp: sealer_ok_def)

text \<open>
  A sealer never uses a nonce twice, whatever plaintexts it is given and whatever calls
  fail: the cipher is called with the nonces of strictly increasing chunk indices below the
  chunk count.
\<close>

theorem sealer_nonces_fresh:
  assumes "sealer_generate fill c rng = (Inr z, rng')"
  shows "distinct (map (nonce_for (cs_base_nonce z)) (used_indices p ms z)) \<and>
    sorted_wrt (<) (used_indices p ms z) \<and>
    (\<forall>i \<in> set (used_indices p ms z). i < cc_chunk_count c \<and> is_ok (nonce_for (cs_base_nonce z) i))"
proof -
  note z = sealer_generate_ok [OF assms]
  then have b: "sorted_wrt (<) (used_indices p ms z)"
    "\<forall>i \<in> set (used_indices p ms z). i < cc_chunk_count c \<and> is_ok (nonce_for (cs_base_nonce z) i)"
    using used_indices_bounds [of z p ms] used_indices_nonces [of z] by auto
  have "inj_on (nonce_for (cs_base_nonce z)) (set (used_indices p ms z))"
  proof (rule inj_onI)
    fix i j
    assume "i \<in> set (used_indices p ms z)" "nonce_for (cs_base_nonce z) i = nonce_for (cs_base_nonce z) j"
    then show "i = j" using b(2) nonce_for_inject by (metis is_ok_iff)
  qed
  then show ?thesis
    using b strict_sorted_iff [of "used_indices p ms z"] by (simp add: distinct_map)
qed

text \<open>With an AEAD that opens its own sealings, \<open>open_chunk\<close> opens what \<open>seal_next\<close> returned.\<close>

lemma seal_next_opens:
  assumes "aead_ok p" and "seal_next p m z = (Inr c, z')"
  shows "open_chunk p (cs_key z) (cs_context z) (cs_base_nonce z) (cs_next z) c = Inr m"
    "length c = length m + 16" "z' = z\<lparr>cs_next := cs_next z + 1\<rparr>"
proof -
  obtain aad nonce where s: "m \<noteq> []" "length m \<le> 1024" "chunk_aad (cs_context z) (cs_next z) = Inr aad"
      "nonce_for (cs_base_nonce z) (cs_next z) = Inr nonce" "z' = z\<lparr>cs_next := cs_next z + 1\<rparr>"
      "aead_seal p (content_bytes (cs_key z)) nonce aad m = Some c"
    using assms(2) by (auto simp: seal_next_def seal_raw_def res_simps Let_def split: if_splits sum.splits)
  then have o: "length c = length m + 16" "aead_open p (content_bytes (cs_key z)) nonce aad c = Some m"
    using assms(1) unfolding aead_ok_def by blast+
  then show "open_chunk p (cs_key z) (cs_context z) (cs_base_nonce z) (cs_next z) c = Inr m"
    using s by (auto simp: open_chunk_def open_raw_def)
  show "length c = length m + 16" "z' = z\<lparr>cs_next := cs_next z + 1\<rparr>" by (fact o(1) s(5))+
qed

definition sample_context :: chunk_context where
  "sample_context = \<lparr>cc_scope = sample_scope, cc_object_context_id = 5, cc_origin = 6,
     cc_origin_sequence = 1, cc_audience_digest = 7, cc_namespace = ascii ''t'', cc_schema = 1,
     cc_chunk_count = 2, cc_lifetime = 9, cc_priority = 0\<rparr>"

definition sample_sealer :: content_sealer where
  "sample_sealer = \<lparr>cs_key = ContentKey 0, cs_context = sample_context, cs_base_nonce = 0, cs_next = 0\<rparr>"

definition zero_source :: "unit source" where
  "zero_source n r = (Inr (replicate n 0), r)"

lemma be_word_zeros [simp]: "be_word (replicate n 0) = 0"
  by (rule bit_word_eqI) (simp add: bit_be_word)

lemma be_bytes_zero [simp]: "be_bytes (0 :: 'a::len word) = replicate (LENGTH('a) div 8) 0"
  by (simp add: be_bytes_def map_replicate_const)

lemma sample_chunk_ok: "chunk_ok sample_context 0"
  by (simp add: chunk_ok_def sample_context_def sample_scope_def I64_MAX_def ascii_def namespace_byte_def
      is_ascii_alphanumeric_def word_le_nat_alt word_less_nat_alt)

lemma sample_nonces: "nonce_for 0 0 = Inr 0" "is_ok (nonce_for 0 1)"
  by (simp_all add: is_ok_iff unat_nonce_counter flip: replicate_add)

lemma sample_sealer: "sealer_generate zero_source sample_context () = (Inr sample_sealer, ())"
proof -
  have "chunk_aad sample_context 0 = Inr (chunk_bytes sample_context 0)"
    by (simp add: input_simps sample_chunk_ok)
  moreover obtain n where "nonce_for 0 1 = Inr n" using sample_nonces(2) by (auto simp: is_ok_iff)
  moreover have "cc_chunk_count sample_context = 2" by (simp add: sample_context_def)
  ultimately show ?thesis
    by (simp add: sealer_generate_def content_generate_def random32_def zero_source_def sample_sealer_def)
qed

theorem sealer_nonces_fresh_witness:
  "distinct (map (nonce_for 0) (used_indices sample_suite [[7], [], [8, 9], [1]] sample_sealer))"
  using sealer_nonces_fresh [OF sample_sealer, of sample_suite "[[7], [], [8, 9], [1]]"]
  by (simp add: sample_sealer_def)

section \<open>Wrapping\<close>

lemma wrap_key_Inr:
  "wrap_key h fill key s ctx rc rng = (Inr w, rng') \<longleftrightarrow>
     (\<exists>info context wrapped r. wrap_context s ctx rc = Inr info \<and> kem_public_ok h (rp_public_key rc) \<and>
        kem_setup_sender h (rp_public_key rc) info (hpke_fill_bytes fill) \<lparr>hr_source = rng, hr_failed = False\<rparr> =
          (Some (rw_encapsulated w, context), r) \<and> \<not> hr_failed r \<and> rng' = hr_source r \<and>
        kem_seal h context (be_bytes (content_bytes key)) info = Some wrapped \<and> length wrapped = 48 \<and>
        rw_ciphertext w = be_word wrapped)"
  by (cases w) (fastforce simp: wrap_key_def split: sum.splits prod.splits option.splits if_splits)

text \<open>
  What \<open>wrap_key\<close> wraps for a recipient, \<open>unwrap_key\<close> gives back to the owner of the
  recipient's key in the same scope and object context.
\<close>

lemma wrapped_key_unwraps:
  assumes "kem_ok h" and "rp_public_key rc = kem_sk_to_pk h sk"
    and "wrap_key h fill key s ctx rc rng = (Inr w, rng')"
  shows "unwrap_key h sk s ctx rc w = Inr key"
proof -
  obtain info cx wrapped r where w: "wrap_context s ctx rc = Inr info"
    "kem_setup_sender h (kem_sk_to_pk h sk) info (hpke_fill_bytes fill) \<lparr>hr_source = rng, hr_failed = False\<rparr> =
      (Some (rw_encapsulated w, cx), r)"
    "kem_seal h cx (be_bytes (content_bytes key)) info = Some wrapped" "length wrapped = 48"
    "rw_ciphertext w = be_word wrapped"
    using assms(3) unfolding wrap_key_Inr assms(2) by auto
  obtain rx where "kem_encapped_ok h (rw_encapsulated w)"
    "kem_setup_receiver h sk (rw_encapsulated w) info = Some rx"
    "kem_open h rx wrapped info = Some (be_bytes (content_bytes key))"
    using assms(1) w(2,3) unfolding kem_ok_def by blast
  then show ?thesis
    using w(1,4,5) assms(2) by (simp add: unwrap_key_def be_bytes_be_word)
qed

definition sample_kem :: "(unit, arr32, bytes, bytes) kem" where
  "sample_kem = \<lparr>kem_derive = be_word, kem_private = (\<lambda>b. Some (be_word b)), kem_sk_to_pk = (\<lambda>k. k),
     kem_public_ok = (\<lambda>_. True), kem_encapped_ok = (\<lambda>_. True),
     kem_setup_sender = (\<lambda>_ info _ r. (Some (0, info), r)), kem_seal = (\<lambda>_ pt _. Some (pt @ replicate 16 0)),
     kem_setup_receiver = (\<lambda>_ _ info. Some info), kem_open = (\<lambda>_ c _. Some (take (length c - 16) c))\<rparr>"

end
