(* ===== verification/Mesh_Messages.thy ===== *)
theory Mesh_Messages
  imports Mesh_Object Mesh_Crypto
begin

text \<open>
  The values \<open>crates/mesh-protocol/src/lib.rs\<close> hands to the reducers of \<open>mesh-runtime\<close>: an
  authenticated announcement, a sealed message and the proof of a verified delivery.
  \<open>Zeroizing\<close> only affects what is left in memory and is transparent here.
\<close>

record authenticated_announcement =
  aa_manifest :: manifest
  aa_encoded :: bytes
  aa_scope :: scope
  aa_roster_digest :: arr32

record sealed_message =
  sm_object :: prepared_object
  sm_announcement :: authenticated_announcement

record verified_delivery =
  vd_announcement :: authenticated_announcement
  vd_member :: member_id
  vd_signing_key :: arr32
  vd_context_id :: arr32
  vd_verified_at :: u64
  vd_deadline :: u64
  vd_plaintext :: bytes

definition vd_object_id :: "(bytes \<Rightarrow> arr32) \<Rightarrow> verified_delivery \<Rightarrow> object_id" where
  "vd_object_id sha256 v = manifest_id sha256 (aa_manifest (vd_announcement v))"

definition vd_origin :: "verified_delivery \<Rightarrow> member_id" where
  "vd_origin v = mf_origin (aa_manifest (vd_announcement v))"

end
