(* ===== verification/Mesh_Sender.thy ===== *)
theory Mesh_Sender
  imports Mesh_Messages Mesh_Handles
begin

text \<open>
  \<open>crates/mesh-runtime/src/durable.rs\<close>: the durable send reducer. It emits effects for the
  host and takes their results back, correlated by a token; \<open>sender_inv\<close> is its invariant,
  and the interpretation of \<open>handle_table\<close> gives that a consumed token is never accepted again.
\<close>

section \<open>Requests\<close>

definition MAX_PENDING_SENDS :: nat where [simp]: "MAX_PENDING_SENDS = 8"
definition MAX_SEND_BYTES :: nat where [simp]: "MAX_SEND_BYTES = 48 * 1024"

record send_request =
  sq_operation :: operation_id
  sq_policy :: object_policy
  sq_plaintext :: bytes

definition send_request_new :: "operation_id \<Rightarrow> object_policy \<Rightarrow> bytes \<Rightarrow> durable_error + send_request" where
  "send_request_new operation policy plaintext =
     (if plaintext = []
        \<or> length plaintext > MAX_SEND_BYTES
        \<or> op_targets policy = []
        \<or> length (op_targets policy) > MAX_TARGETS
        \<or> op_epoch policy = 0
        \<or> op_epoch policy > MAX_LOGICAL_TIME
        \<or> op_expires_at policy = 0
        \<or> op_expires_at policy > MAX_LOGICAL_TIME
        \<or> op_hop_limit policy = 0
        \<or> op_hop_limit policy > 16
      then Inl InvalidInput
      else
        let policy = policy\<lparr>op_targets := sort (op_targets policy)\<rparr> in
        if \<not> ascending (op_targets policy) then Inl InvalidInput
        else Inr \<lparr>sq_operation = operation, sq_policy = policy, sq_plaintext = plaintext\<rparr>)"

definition command_digest :: "(bytes \<Rightarrow> arr32) \<Rightarrow> member_id \<Rightarrow> send_request \<Rightarrow> arr32" where
  "command_digest sha256 origin q =
     (let policy = sq_policy q;
          b = ascii ''MeshLab/SendCommand/v1'' @ [0];
          b = b @ be_bytes (member_arr origin);
          b = b @ [of_nat (length (as_str (op_namespace policy)))];
          b = b @ as_str (op_namespace policy);
          b = b @ be_bytes (op_epoch policy);
          b = b @ [of_nat (length (op_targets policy))];
          b = b @ concat (map (\<lambda>target. be_bytes (member_arr target)) (op_targets policy));
          b = b @ be_bytes (op_expires_at policy);
          b = b @ [op_hop_limit policy];
          b = b @ be_bytes (of_nat (length (sq_plaintext q)) :: u32);
          b = b @ be_bytes (sha256 (sq_plaintext q))
      in sha256 b)"

section \<open>State\<close>

datatype effect_token = EffectToken (et_incarnation: u64) (et_sequence: u64)

datatype send_phase = Reserving | Protecting | Committing

datatype send_event =
    Accepted operation_id object_id
  | NeedsRetry operation_id durable_error

datatype send_effect =
    Reserve effect_token operation_id arr32 bool
  | Protect effect_token member_id u64 send_request
  | Commit effect_token operation_id arr32 sealed_message

fun effect_token_of :: "send_effect \<Rightarrow> effect_token" where
  "effect_token_of (Reserve token _ _ _) = token"
| "effect_token_of (Protect token _ _ _) = token"
| "effect_token_of (Commit token _ _ _) = token"

record send_transition =
  st_effect :: "send_effect option"
  st_event :: "send_event option"

definition transition_default :: send_transition where
  "transition_default = \<lparr>st_effect = None, st_event = None\<rparr>"

record pending_send =
  ps_token :: effect_token
  ps_phase :: send_phase
  ps_command_digest :: arr32
  ps_policy :: object_policy
  ps_request :: "send_request option"
  ps_origin_sequence :: "u64 option"
  ps_expected_object :: "object_id option"

record durable_sender =
  ds_origin :: member_id
  ds_incarnation :: u64
  ds_next_token :: u64
  ds_pending :: "(operation_id, pending_send) bmap"

definition sender_new :: "member_id \<Rightarrow> u64 \<Rightarrow> durable_error + durable_sender" where
  "sender_new origin incarnation =
     (if incarnation = 0 then Inl InvalidInput
      else Inr \<lparr>ds_origin = origin, ds_incarnation = incarnation, ds_next_token = 1, ds_pending = []\<rparr>)"

definition sender_token :: "durable_sender \<Rightarrow> (durable_error + effect_token) \<times> durable_sender" where
  "sender_token s =
     (case checked_add (ds_next_token s) 1 of
        None \<Rightarrow> (Inl ResourcePressure, s)
      | Some next_token \<Rightarrow>
          (Inr (EffectToken (ds_incarnation s) (ds_next_token s)), s\<lparr>ds_next_token := next_token\<rparr>))"

definition sender_locate :: "effect_token \<Rightarrow> send_phase option \<Rightarrow> durable_sender \<Rightarrow> durable_error + operation_id" where
  "sender_locate token phase s =
     ok_or Conflict (map_option fst
       (bm_find (\<lambda>_ p. ps_token p = token \<and> (case phase of None \<Rightarrow> True | Some ph \<Rightarrow> ps_phase p = ph))
          (ds_pending s)))"

section \<open>Transitions\<close>

definition sender_start ::
    "(bytes \<Rightarrow> arr32) \<Rightarrow> send_request \<Rightarrow> u64 \<Rightarrow> durable_sender \<Rightarrow> (durable_error + send_transition) \<times> durable_sender" where
  "sender_start sha256 request now s =
     (if now > MAX_LOGICAL_TIME then (Inl InvalidInput, s)
      else
        let digest = command_digest sha256 (ds_origin s) request;
            operation = sq_operation request in
        case bm_get (ds_pending s) operation of
          Some existing \<Rightarrow>
            if ps_command_digest existing = digest then (Inr transition_default, s)
            else (Inl Conflict, s)
        | None \<Rightarrow>
            if length (ds_pending s) \<ge> MAX_PENDING_SENDS then (Inl ResourcePressure, s)
            else
              let create_if_missing = now < op_expires_at (sq_policy request) in
              case sender_token s of
                (Inl e, s) \<Rightarrow> (Inl e, s)
              | (Inr token, s) \<Rightarrow>
                  (Inr \<lparr>st_effect = Some (Reserve token operation digest create_if_missing), st_event = None\<rparr>,
                   s\<lparr>ds_pending := bm_insert operation
                      \<lparr>ps_token = token, ps_phase = Reserving, ps_command_digest = digest,
                       ps_policy = sq_policy request, ps_request = Some request,
                       ps_origin_sequence = None, ps_expected_object = None\<rparr> (ds_pending s)\<rparr>))"

definition sender_failed ::
    "effect_token \<Rightarrow> durable_error \<Rightarrow> durable_sender \<Rightarrow> (durable_error + send_transition) \<times> durable_sender" where
  "sender_failed token error s =
     (case sender_locate token None s of
        Inl e \<Rightarrow> (Inl e, s)
      | Inr operation \<Rightarrow>
          (Inr \<lparr>st_effect = None, st_event = Some (NeedsRetry operation error)\<rparr>,
           s\<lparr>ds_pending := bm_remove operation (ds_pending s)\<rparr>))"

text \<open>
  \<open>self.pending[&operation]\<close> cannot panic after \<open>locate\<close>; the model keeps the lookup as an option
  and, like the \<open>get_mut\<close> that follows, answers \<open>NotFound\<close> in the branch that is never taken.
\<close>

definition sender_reserved ::
    "effect_token \<Rightarrow> u64 \<Rightarrow> object_id option \<Rightarrow> u64 \<Rightarrow> durable_sender
     \<Rightarrow> (durable_error + send_transition) \<times> durable_sender" where
  "sender_reserved token origin_sequence committed_object now s =
     (case sender_locate token (Some Reserving) s of
        Inl e \<Rightarrow> (Inl e, s)
      | Inr operation \<Rightarrow>
          if origin_sequence = 0 \<or> origin_sequence > MAX_LOGICAL_TIME \<or> now > MAX_LOGICAL_TIME
          then (Inl InvalidInput, s)
          else
            (case committed_object of
               Some obj \<Rightarrow>
                 (Inr \<lparr>st_effect = None, st_event = Some (Accepted operation obj)\<rparr>,
                  s\<lparr>ds_pending := bm_remove operation (ds_pending s)\<rparr>)
             | None \<Rightarrow>
                 (case bm_get (ds_pending s) operation of
                    None \<Rightarrow> (Inl NotFound, s)
                  | Some p \<Rightarrow>
                      if now \<ge> op_expires_at (ps_policy p) then sender_failed token Expired s
                      else
                        (case sender_token s of
                           (Inl e, s) \<Rightarrow> (Inl e, s)
                         | (Inr next_token, s) \<Rightarrow>
                             let p' = p\<lparr>ps_phase := Protecting, ps_token := next_token,
                                        ps_origin_sequence := Some origin_sequence, ps_request := None\<rparr>;
                                 s = s\<lparr>ds_pending := bm_insert operation p' (ds_pending s)\<rparr> in
                             (case ps_request p of
                                None \<Rightarrow> (Inl Conflict, s)
                              | Some request \<Rightarrow>
                                  (Inr \<lparr>st_effect = Some (Protect next_token (ds_origin s) origin_sequence request),
                                        st_event = None\<rparr>, s))))))"

definition sender_protected ::
    "(bytes \<Rightarrow> arr32) \<Rightarrow> effect_token \<Rightarrow> sealed_message \<Rightarrow> u64 \<Rightarrow> durable_sender
     \<Rightarrow> (durable_error + send_transition) \<times> durable_sender" where
  "sender_protected sha256 token message now s =
     (case sender_locate token (Some Protecting) s of
        Inl e \<Rightarrow> (Inl e, s)
      | Inr operation \<Rightarrow>
          (case bm_get (ds_pending s) operation of
             None \<Rightarrow> (Inl NotFound, s)
           | Some p \<Rightarrow>
               let m = po_manifest (sm_object message) in
               if now > MAX_LOGICAL_TIME then (Inl InvalidInput, s)
               else if mf_origin m \<noteq> ds_origin s
                 \<or> Some (mf_sequence m) \<noteq> ps_origin_sequence p
                 \<or> mf_namespace m \<noteq> op_namespace (ps_policy p)
                 \<or> mf_epoch m \<noteq> op_epoch (ps_policy p)
                 \<or> mf_targets m \<noteq> op_targets (ps_policy p)
                 \<or> mf_expires_at m \<noteq> op_expires_at (ps_policy p)
                 \<or> mf_hop_limit m \<noteq> op_hop_limit (ps_policy p)
               then (Inl Conflict, s)
               else if now \<ge> op_expires_at (ps_policy p) then sender_failed token Expired s
               else
                 (case sender_token s of
                    (Inl e, s) \<Rightarrow> (Inl e, s)
                  | (Inr next_token, s) \<Rightarrow>
                      let p' = p\<lparr>ps_token := next_token, ps_phase := Committing,
                                 ps_expected_object := Some (manifest_id sha256 m)\<rparr>
                      in (Inr \<lparr>st_effect = Some (Commit next_token operation (ps_command_digest p) message),
                               st_event = None\<rparr>,
                          s\<lparr>ds_pending := bm_insert operation p' (ds_pending s)\<rparr>))))"

definition sender_committed ::
    "effect_token \<Rightarrow> object_id \<Rightarrow> durable_sender \<Rightarrow> (durable_error + send_transition) \<times> durable_sender" where
  "sender_committed token obj s =
     (case sender_locate token (Some Committing) s of
        Inl e \<Rightarrow> (Inl e, s)
      | Inr operation \<Rightarrow>
          (case bm_get (ds_pending s) operation of
             None \<Rightarrow> (Inl NotFound, s)
           | Some p \<Rightarrow>
               if ps_expected_object p \<noteq> Some obj then (Inl Conflict, s)
               else
                 (Inr \<lparr>st_effect = None, st_event = Some (Accepted operation obj)\<rparr>,
                  s\<lparr>ds_pending := bm_remove operation (ds_pending s)\<rparr>)))"

section \<open>Calls and runs\<close>

datatype sender_call =
    Start send_request u64
  | Reserved effect_token u64 "object_id option" u64
  | Protected effect_token sealed_message u64
  | Committed effect_token object_id
  | Failed effect_token durable_error

fun sender_step ::
    "(bytes \<Rightarrow> arr32) \<Rightarrow> sender_call \<Rightarrow> durable_sender \<Rightarrow> (durable_error + send_transition) \<times> durable_sender" where
  "sender_step sha256 (Start q now) s = sender_start sha256 q now s"
| "sender_step sha256 (Reserved t n obj now) s = sender_reserved t n obj now s"
| "sender_step sha256 (Protected t m now) s = sender_protected sha256 t m now s"
| "sender_step sha256 (Committed t obj) s = sender_committed t obj s"
| "sender_step sha256 (Failed t e) s = sender_failed t e s"

fun call_token :: "sender_call \<Rightarrow> effect_token option" where
  "call_token (Start q now) = None"
| "call_token (Reserved t n obj now) = Some t"
| "call_token (Protected t m now) = Some t"
| "call_token (Committed t obj) = Some t"
| "call_token (Failed t e) = Some t"

section \<open>Invariant\<close>

definition phase_ok :: "pending_send \<Rightarrow> bool" where
  "phase_ok p \<longleftrightarrow>
     (case ps_phase p of
        Reserving \<Rightarrow> ps_request p \<noteq> None \<and> ps_origin_sequence p = None \<and> ps_expected_object p = None
      | Protecting \<Rightarrow> ps_request p = None \<and> ps_origin_sequence p \<noteq> None \<and> ps_expected_object p = None
      | Committing \<Rightarrow> ps_request p = None \<and> ps_origin_sequence p \<noteq> None \<and> ps_expected_object p \<noteq> None)"

definition sender_inv :: "durable_sender \<Rightarrow> bool" where
  "sender_inv s \<longleftrightarrow> bm_wf (ds_pending s) \<and> length (ds_pending s) \<le> MAX_PENDING_SENDS \<and>
     (\<forall>op p. bm_get (ds_pending s) op = Some p \<longrightarrow> phase_ok p \<and>
        et_incarnation (ps_token p) = ds_incarnation s \<and> et_sequence (ps_token p) < ds_next_token s) \<and>
     (\<forall>op p op' p'. bm_get (ds_pending s) op = Some p \<longrightarrow> bm_get (ds_pending s) op' = Some p' \<longrightarrow>
        ps_token p = ps_token p' \<longrightarrow> op = op')"

lemma sender_token_Inr:
  assumes "sender_token s = (Inr tok, s')"
  shows "tok = EffectToken (ds_incarnation s) (ds_next_token s)"
    "s' = s\<lparr>ds_next_token := ds_next_token s + 1\<rparr>" "ds_next_token s < ds_next_token s + 1"
  using assms checked_add_one_Some [of "ds_next_token s"]
  by (auto simp: sender_token_def split: option.splits)

lemma sender_token_Inl: "sender_token s = (Inl e, s') \<Longrightarrow> s' = s \<and> e = ResourcePressure"
  by (auto simp: sender_token_def split: option.splits)

lemma sender_inv_remove: "sender_inv s \<Longrightarrow> sender_inv (s\<lparr>ds_pending := bm_remove op (ds_pending s)\<rparr>)"
  by (auto simp: sender_inv_def bm.wf_remove bm.get_remove bm.size_remove split: if_splits)

lemma sender_inv_put:
  assumes s: "sender_inv s" and tok: "sender_token s = (Inr tok, s')" and p: "ps_token p = tok" "phase_ok p"
    and room: "bm_get (ds_pending s) op \<noteq> None \<or> length (ds_pending s) < MAX_PENDING_SENDS"
  shows "sender_inv (s'\<lparr>ds_pending := bm_insert op p (ds_pending s')\<rparr>)"
proof -
  note t = sender_token_Inr [OF tok]
  have wf: "bm_wf (ds_pending s)" using s by (simp add: sender_inv_def)
  have "length (bm_insert op p (ds_pending s)) \<le> MAX_PENDING_SENDS"
    using s room bm.size_insert [OF wf, of op p] by (auto simp: sender_inv_def)
  moreover have "et_sequence (ps_token q) < ds_next_token s + 1 \<and> ps_token q \<noteq> tok"
    if "bm_get (ds_pending s) op' = Some q" for op' q
  proof -
    have lt: "et_sequence (ps_token q) < ds_next_token s" using s that by (simp add: sender_inv_def)
    then show ?thesis using t(1,3) by (auto intro: less_trans)
  qed
  moreover have "ps_token p = tok" by (rule p(1))
  ultimately show ?thesis
    using s p(2) t(1,3) wf
    by (auto simp: t(2) sender_inv_def bm.wf_insert bm.get_insert split: if_splits) blast+
qed

lemma sender_locate_Inr:
  assumes "sender_inv s"
  shows "sender_locate token ph s = Inr op \<longleftrightarrow>
    (\<exists>p. bm_get (ds_pending s) op = Some p \<and> ps_token p = token \<and> (\<forall>x. ph = Some x \<longrightarrow> ps_phase p = x))"
proof -
  let ?P = "\<lambda>_ p. ps_token p = token \<and> (case ph of None \<Rightarrow> True | Some x \<Rightarrow> ps_phase p = x)"
  have wf: "bm_wf (ds_pending s)" using assms by (simp add: sender_inv_def)
  have u: "op' = op" if "bm_get (ds_pending s) op' = Some p'" "ps_token p' = token"
    "bm_get (ds_pending s) op = Some p" "ps_token p = token" for op' p' p
    using assms that unfolding sender_inv_def by metis
  have "sender_locate token ph s = Inr op \<longleftrightarrow> (\<exists>p. bm_find ?P (ds_pending s) = Some (op, p))"
    by (auto simp: sender_locate_def ok_or_eq_Inr)
  also have "\<dots> \<longleftrightarrow> (\<exists>p. bm_get (ds_pending s) op = Some p \<and> ?P op p)"
  proof (rule ex_cong1)
    fix p
    show "bm_find ?P (ds_pending s) = Some (op, p) \<longleftrightarrow> bm_get (ds_pending s) op = Some p \<and> ?P op p"
    proof
      assume "bm_find ?P (ds_pending s) = Some (op, p)"
      then show "bm_get (ds_pending s) op = Some p \<and> ?P op p" by (rule bm_find_Some [OF wf])
    next
      assume p: "bm_get (ds_pending s) op = Some p \<and> ?P op p"
      show "bm_find ?P (ds_pending s) = Some (op, p)"
      proof (rule bm_find_unique [OF wf])
        show "op' = op" if "bm_get (ds_pending s) op' = Some p'" "?P op' p'" for op' p'
          using u [of op' p' p] that p by simp
      qed (use p in simp_all)
    qed
  qed
  finally show ?thesis by (cases ph) simp_all
qed

lemma sender_locate_Inl: "sender_locate token ph s = Inl e \<Longrightarrow> e = Conflict"
  by (auto simp: sender_locate_def ok_or_eq_Inl)

text \<open>Each successful call, as an update of the pending operations.\<close>

inductive sender_moves :: "(bytes \<Rightarrow> arr32) \<Rightarrow> durable_sender \<Rightarrow> sender_call \<Rightarrow> send_transition \<Rightarrow> durable_sender \<Rightarrow> bool"
  for sha256 :: "bytes \<Rightarrow> arr32" and s :: durable_sender where
  repeat: "bm_get (ds_pending s) (sq_operation q) = Some p \<Longrightarrow>
    ps_command_digest p = command_digest sha256 (ds_origin s) q \<Longrightarrow>
    sender_moves sha256 s (Start q now) transition_default s"
| start: "bm_get (ds_pending s) (sq_operation q) = None \<Longrightarrow> length (ds_pending s) < MAX_PENDING_SENDS \<Longrightarrow>
    sender_token s = (Inr tok, s') \<Longrightarrow>
    sender_moves sha256 s (Start q now)
      \<lparr>st_effect = Some (Reserve tok (sq_operation q) (command_digest sha256 (ds_origin s) q)
         (now < op_expires_at (sq_policy q))), st_event = None\<rparr>
      (s'\<lparr>ds_pending := bm_insert (sq_operation q)
         \<lparr>ps_token = tok, ps_phase = Reserving, ps_command_digest = command_digest sha256 (ds_origin s) q,
          ps_policy = sq_policy q, ps_request = Some q, ps_origin_sequence = None,
          ps_expected_object = None\<rparr> (ds_pending s')\<rparr>)"
| finish: "bm_get (ds_pending s) op = Some p \<Longrightarrow> call_token c = Some (ps_token p) \<Longrightarrow>
    (case ev of Accepted op' obj \<Rightarrow> op' = op \<and>
         ((\<exists>n now. c = Reserved (ps_token p) n (Some obj) now \<and> ps_phase p = Reserving) \<or>
          (c = Committed (ps_token p) obj \<and> ps_phase p = Committing \<and> ps_expected_object p = Some obj))
     | NeedsRetry op' e \<Rightarrow> op' = op) \<Longrightarrow>
    sender_moves sha256 s c \<lparr>st_effect = None, st_event = Some ev\<rparr>
      (s\<lparr>ds_pending := bm_remove op (ds_pending s)\<rparr>)"
| protect: "bm_get (ds_pending s) op = Some p \<Longrightarrow> ps_phase p = Reserving \<Longrightarrow> ps_request p = Some q \<Longrightarrow>
    n \<noteq> 0 \<Longrightarrow> n \<le> MAX_LOGICAL_TIME \<Longrightarrow> sender_token s = (Inr tok, s') \<Longrightarrow>
    sender_moves sha256 s (Reserved (ps_token p) n None now)
      \<lparr>st_effect = Some (Protect tok (ds_origin s) n q), st_event = None\<rparr>
      (s'\<lparr>ds_pending := bm_insert op (p\<lparr>ps_phase := Protecting, ps_token := tok,
         ps_origin_sequence := Some n, ps_request := None\<rparr>) (ds_pending s')\<rparr>)"
| commit: "bm_get (ds_pending s) op = Some p \<Longrightarrow> ps_phase p = Protecting \<Longrightarrow>
    m = po_manifest (sm_object msg) \<Longrightarrow> mf_origin m = ds_origin s \<Longrightarrow> Some (mf_sequence m) = ps_origin_sequence p \<Longrightarrow>
    mf_namespace m = op_namespace (ps_policy p) \<Longrightarrow> mf_epoch m = op_epoch (ps_policy p) \<Longrightarrow>
    mf_targets m = op_targets (ps_policy p) \<Longrightarrow> mf_expires_at m = op_expires_at (ps_policy p) \<Longrightarrow>
    mf_hop_limit m = op_hop_limit (ps_policy p) \<Longrightarrow> now < op_expires_at (ps_policy p) \<Longrightarrow>
    sender_token s = (Inr tok, s') \<Longrightarrow>
    sender_moves sha256 s (Protected (ps_token p) msg now)
      \<lparr>st_effect = Some (Commit tok op (ps_command_digest p) msg), st_event = None\<rparr>
      (s'\<lparr>ds_pending := bm_insert op (p\<lparr>ps_token := tok, ps_phase := Committing,
         ps_expected_object := Some (manifest_id sha256 m)\<rparr>) (ds_pending s')\<rparr>)"

lemma failed_moves:
  assumes "sender_inv s" and "call_token c = Some token"
    and "sender_failed token e s = (Inr tr, s')"
  shows "sender_moves sha256 s c tr s'"
proof -
  obtain op p where l: "bm_get (ds_pending s) op = Some p" "ps_token p = token"
    "tr = \<lparr>st_effect = None, st_event = Some (NeedsRetry op e)\<rparr>"
    "s' = s\<lparr>ds_pending := bm_remove op (ds_pending s)\<rparr>"
    using assms(3) sender_locate_Inr [OF assms(1)]
    by (auto simp: sender_failed_def split: sum.splits)
  show ?thesis
    unfolding l(3,4) by (rule sender_moves.finish [OF l(1)]) (simp_all add: l(2) assms(2))
qed

text \<open>Every call either fails and leaves the state as it was, or is one of these moves.\<close>

lemma sender_step_cases:
  assumes inv: "sender_inv s" and step: "sender_step sha256 c s = (r, s')"
  shows "(\<exists>e. r = Inl e \<and> s' = s) \<or> (\<exists>tr. r = Inr tr \<and> sender_moves sha256 s c tr s')"
proof (cases c)
  case (Start q now)
  show ?thesis
  proof (cases "now > MAX_LOGICAL_TIME")
    case True
    then show ?thesis using step Start by (auto simp: sender_start_def)
  next
    case time: False
    show ?thesis
    proof (cases "bm_get (ds_pending s) (sq_operation q)")
      case (Some p)
      then show ?thesis
        using step Start time sender_moves.repeat [OF Some, of sha256 now]
        by (auto simp: sender_start_def Let_def split: if_splits)
    next
      case None
      obtain a s1 where tk: "sender_token s = (a, s1)" by fastforce
      show ?thesis
      proof (cases "length (ds_pending s) \<ge> MAX_PENDING_SENDS")
        case True
        then show ?thesis using step Start time None by (auto simp: sender_start_def Let_def)
      next
        case False
        show ?thesis
        proof (cases a)
          case (Inl e)
          then show ?thesis
            using step Start time None False tk sender_token_Inl [OF tk [unfolded Inl]]
            by (auto simp: sender_start_def Let_def)
        next
          case (Inr tok)
          have "length (ds_pending s) < MAX_PENDING_SENDS" using False by simp
          note mv = sender_moves.start [OF None this tk [unfolded Inr], of sha256 now]
          show ?thesis
            using step Start time None False tk Inr mv by (auto simp: sender_start_def Let_def)
        qed
      qed
    qed
  qed
next
  case (Failed t e)
  have "sender_failed t e s = (r, s')" using step Failed by simp
  then show ?thesis
    using failed_moves [OF inv, of c t e _ s' sha256] Failed
    by (cases r) (auto simp: sender_failed_def split: sum.splits)
next
  case (Committed t obj)
  show ?thesis
  proof (cases "sender_locate t (Some Committing) s")
    case (Inl e)
    then show ?thesis using step Committed by (auto simp: sender_committed_def)
  next
    case (Inr op)
    then obtain p where p: "bm_get (ds_pending s) op = Some p" "ps_token p = t" "ps_phase p = Committing"
      using sender_locate_Inr [OF inv] by auto
    show ?thesis
      using step Committed Inr p
      by (auto simp: sender_committed_def split: if_splits intro!: sender_moves.finish [OF p(1)])
  qed
next
  case (Reserved t n obj now)
  show ?thesis
  proof (cases "sender_locate t (Some Reserving) s")
    case (Inl e)
    then show ?thesis using step Reserved by (auto simp: sender_reserved_def)
  next
    case (Inr op)
    then obtain p where p: "bm_get (ds_pending s) op = Some p" "ps_token p = t" "ps_phase p = Reserving"
      using sender_locate_Inr [OF inv] by auto
    have "phase_ok p" using inv p(1) by (simp add: sender_inv_def)
    then obtain q where q: "ps_request p = Some q" using p(3) by (auto simp: phase_ok_def)
    show ?thesis
    proof (cases "n = 0 \<or> n > MAX_LOGICAL_TIME \<or> now > MAX_LOGICAL_TIME")
      case True
      then show ?thesis using step Reserved Inr by (auto simp: sender_reserved_def)
    next
      case range: False
      show ?thesis
      proof (cases obj)
        case (Some o')
        then show ?thesis
          using step Reserved Inr p range
          by (auto simp: sender_reserved_def intro!: sender_moves.finish [OF p(1)])
      next
        case None
        show ?thesis
        proof (cases "now \<ge> op_expires_at (ps_policy p)")
          case True
          then have f: "sender_failed t Expired s = (r, s')"
            using step Reserved Inr p range None by (auto simp: sender_reserved_def)
          then show ?thesis
            using failed_moves [OF inv, of c t Expired _ s' sha256] Reserved
            by (cases r) (auto simp: sender_failed_def split: sum.splits)
        next
          case False
          obtain a s1 where tk: "sender_token s = (a, s1)" by fastforce
          show ?thesis
          proof (cases a)
            case (Inl e)
            then show ?thesis
              using step Reserved \<open>sender_locate _ _ s = Inr op\<close> p range None False tk sender_token_Inl [of s]
              by (auto simp: sender_reserved_def)
          next
            case (Inr tok)
            then show ?thesis
              using step Reserved \<open>sender_locate _ _ s = Inr op\<close> p q range None False tk
                sender_moves.protect [OF p(1,3) q, of n tok s1 sha256 now]
              by (auto simp: sender_reserved_def Let_def dest: sender_token_Inr)
          qed
        qed
      qed
    qed
  qed
next
  case (Protected t msg now)
  show ?thesis
  proof (cases "sender_locate t (Some Protecting) s")
    case (Inl e)
    then show ?thesis using step Protected by (auto simp: sender_protected_def)
  next
    case (Inr op)
    then obtain p where p: "bm_get (ds_pending s) op = Some p" "ps_token p = t" "ps_phase p = Protecting"
      using sender_locate_Inr [OF inv] by auto
    let ?m = "po_manifest (sm_object msg)"
    let ?ok = "mf_origin ?m = ds_origin s \<and> Some (mf_sequence ?m) = ps_origin_sequence p \<and>
      mf_namespace ?m = op_namespace (ps_policy p) \<and> mf_epoch ?m = op_epoch (ps_policy p) \<and>
      mf_targets ?m = op_targets (ps_policy p) \<and> mf_expires_at ?m = op_expires_at (ps_policy p) \<and>
      mf_hop_limit ?m = op_hop_limit (ps_policy p)"
    show ?thesis
    proof (cases "now \<le> MAX_LOGICAL_TIME \<and> ?ok")
      case False
      have "\<exists>e. sender_step sha256 c s = (Inl e, s)"
      proof (cases "now \<le> MAX_LOGICAL_TIME")
        case True
        then have D: "mf_origin ?m \<noteq> ds_origin s \<or> Some (mf_sequence ?m) \<noteq> ps_origin_sequence p \<or>
            mf_namespace ?m \<noteq> op_namespace (ps_policy p) \<or> mf_epoch ?m \<noteq> op_epoch (ps_policy p) \<or>
            mf_targets ?m \<noteq> op_targets (ps_policy p) \<or> mf_expires_at ?m \<noteq> op_expires_at (ps_policy p) \<or>
            mf_hop_limit ?m \<noteq> op_hop_limit (ps_policy p)"
          using False by blast
        then have "sender_step sha256 c s = (Inl Conflict, s)"
          using True Protected Inr p by (simp add: sender_protected_def Let_def if_P [OF D] not_less)
        then show ?thesis by blast
      next
        case False
        then have "MAX_LOGICAL_TIME < now" by simp
        then show ?thesis using Protected Inr p by (simp add: sender_protected_def Let_def)
      qed
      then show ?thesis using step by auto
    next
      case ok: True
      then have lim: "\<not> MAX_LOGICAL_TIME < now" by (meson not_less)
      show ?thesis
      proof (cases "now \<ge> op_expires_at (ps_policy p)")
        case True
        then have "sender_failed t Expired s = (r, s')"
          using step Protected Inr p ok lim by (simp add: sender_protected_def Let_def)
        then show ?thesis
          using failed_moves [OF inv, of c t Expired _ s' sha256] Protected
          by (cases r) (auto simp: sender_failed_def split: sum.splits)
      next
        case False
        obtain a s1 where tk: "sender_token s = (a, s1)" by fastforce
        have step': "sender_step sha256 c s = (case a of Inl e \<Rightarrow> (Inl e, s1) | Inr tok \<Rightarrow>
            (Inr \<lparr>st_effect = Some (Commit tok op (ps_command_digest p) msg), st_event = None\<rparr>,
             s1\<lparr>ds_pending := bm_insert op (p\<lparr>ps_token := tok, ps_phase := Committing,
               ps_expected_object := Some (manifest_id sha256 ?m)\<rparr>) (ds_pending s1)\<rparr>))"
          using Protected Inr p ok False tk lim by (cases a) (simp_all add: sender_protected_def Let_def)
        show ?thesis
        proof (cases a)
          case (Inl e)
          then show ?thesis using step step' sender_token_Inl [OF tk [unfolded Inl]] by auto
        next
          case (Inr tok)
          have "now < op_expires_at (ps_policy p)" using False by simp
          note mv = sender_moves.commit [OF p(1,3) refl, of msg now tok s1 sha256]
          then show ?thesis
            using step step' Inr ok tk \<open>now < _\<close> p(2) Protected by auto
        qed
      qed
    qed
  qed
qed

lemma sender_moves_inv: "sender_moves sha256 s c tr s' \<Longrightarrow> sender_inv s \<Longrightarrow> sender_inv s'"
proof (induction rule: sender_moves.induct)
  case (start q tok s' now)
  then show ?case by (intro sender_inv_put [OF _ start(3)]) (simp_all add: phase_ok_def)
next
  case (protect op p q n tok s' now)
  have "phase_ok p" using protect.prems protect.hyps(1) by (simp add: sender_inv_def)
  then show ?case
    using protect by (intro sender_inv_put [OF _ protect.hyps(6)]) (auto simp: phase_ok_def)
next
  case (commit op p m msg now tok s')
  have "phase_ok p" using commit.prems commit.hyps(1) by (simp add: sender_inv_def)
  then show ?case
    using commit by (intro sender_inv_put [OF _ commit.hyps(12)]) (auto simp: phase_ok_def)
qed (simp_all add: sender_inv_remove)

lemma sender_inv_step: "sender_inv s \<Longrightarrow> sender_inv (snd (sender_step sha256 c s))"
  using sender_step_cases [of s sha256 c] sender_moves_inv by (metis prod.collapse)

section \<open>Tokens are used once\<close>

definition live_sends :: "durable_sender \<Rightarrow> u64 set" where
  "live_sends s = {et_sequence (ps_token p) | op p. bm_get (ds_pending s) op = Some p}"

definition issued_send :: "durable_error + send_transition \<Rightarrow> u64 option" where
  "issued_send r = (case r of Inl _ \<Rightarrow> None
     | Inr tr \<Rightarrow> map_option (\<lambda>ef. et_sequence (effect_token_of ef)) (st_effect tr))"

lemma sender_moves_tokens:
  assumes "sender_moves sha256 s c tr s'" and "sender_inv s"
  shows "ds_next_token s \<le> ds_next_token s'"
    "issued_send (Inr tr) = Some h \<Longrightarrow> h = ds_next_token s \<and> ds_next_token s < ds_next_token s'"
    "live_sends s' \<subseteq> live_sends s \<union> set_option (issued_send (Inr tr))"
    "ds_incarnation s' = ds_incarnation s" "ds_origin s' = ds_origin s"
proof -
  have wf: "bm_wf (ds_pending s)" using assms(2) by (simp add: sender_inv_def)
  have "ds_next_token s \<le> ds_next_token s' \<and>
    (\<forall>h. issued_send (Inr tr) = Some h \<longrightarrow> h = ds_next_token s \<and> ds_next_token s < ds_next_token s') \<and>
    live_sends s' \<subseteq> live_sends s \<union> set_option (issued_send (Inr tr)) \<and>
    ds_incarnation s' = ds_incarnation s \<and> ds_origin s' = ds_origin s"
    using assms(1)
  proof (cases rule: sender_moves.cases)
    case (repeat q p now)
    then show ?thesis by (simp add: issued_send_def transition_default_def)
  next
    case (start q tok s1 now)
    note t = sender_token_Inr [OF start(6)]
    show ?thesis
      using t wf by (auto simp: start(2,3) issued_send_def live_sends_def bm.get_insert split: if_splits)
  next
    case (finish op p ev)
    then show ?thesis
      using wf by (auto simp: issued_send_def live_sends_def bm.get_remove split: if_splits)
  next
    case (protect op p q n tok s1 now)
    note t = sender_token_Inr [OF protect(9)]
    show ?thesis
      using t wf by (auto simp: protect(2,3) issued_send_def live_sends_def bm.get_insert split: if_splits)
  next
    case (commit op p m msg now tok s1)
    note t = sender_token_Inr [OF commit(15)]
    show ?thesis
      using t wf by (auto simp: commit(2,3) issued_send_def live_sends_def bm.get_insert split: if_splits)
  qed
  then show "ds_next_token s \<le> ds_next_token s'"
    "issued_send (Inr tr) = Some h \<Longrightarrow> h = ds_next_token s \<and> ds_next_token s < ds_next_token s'"
    "live_sends s' \<subseteq> live_sends s \<union> set_option (issued_send (Inr tr))"
    "ds_incarnation s' = ds_incarnation s" "ds_origin s' = ds_origin s" by blast+
qed

interpretation sends: handle_table ds_next_token live_sends "sender_step sha256" issued_send sender_inv
  for sha256
proof
  fix s c h assume inv: "sender_inv s"
  show "sender_inv (snd (sender_step sha256 c s))" by (rule sender_inv_step [OF inv])
  show "h < ds_next_token s" if "h \<in> live_sends s"
    using inv that by (auto simp: live_sends_def sender_inv_def)
  obtain r s' where st: "sender_step sha256 c s = (r, s')" by fastforce
  note cases = sender_step_cases [OF inv st]
  show "ds_next_token s \<le> ds_next_token (snd (sender_step sha256 c s))"
    using cases sender_moves_tokens(1) inv unfolding st by auto
  show "h = ds_next_token s \<and> ds_next_token s < ds_next_token (snd (sender_step sha256 c s))"
    if "issued_send (fst (sender_step sha256 c s)) = Some h"
    using cases that sender_moves_tokens(2) [OF _ inv] unfolding st by (fastforce simp: issued_send_def)
  show "live_sends (snd (sender_step sha256 c s)) \<subseteq>
      live_sends s \<union> set_option (issued_send (fst (sender_step sha256 c s)))"
    using cases sender_moves_tokens(3) [OF _ inv] unfolding st by (elim disjE exE conjE) auto
qed

text \<open>A call that succeeds with a token takes it out of the table.\<close>

lemma token_consumed:
  assumes inv: "sender_inv s" and "call_token c = Some t" and st: "sender_step sha256 c s = (Inr tr, s')"
  shows "et_incarnation t = ds_incarnation s" "et_sequence t < ds_next_token s'" "et_sequence t \<notin> live_sends s'"
proof -
  have wf: "bm_wf (ds_pending s)" using inv by (simp add: sender_inv_def)
  have mv: "sender_moves sha256 s c tr s'" using sender_step_cases [OF inv st] by auto
  let ?put = "\<lambda>op. \<exists>q. bm_get (ds_pending s') = (bm_get (ds_pending s))(op \<mapsto> q) \<and>
      et_sequence (ps_token q) = ds_next_token s"
  let ?del = "\<lambda>op. bm_get (ds_pending s') = (bm_get (ds_pending s))(op := None)"
  have "\<exists>op p. bm_get (ds_pending s) op = Some p \<and> ps_token p = t \<and> (?put op \<or> ?del op)"
    using mv
  proof cases
    case (finish op p ev)
    then show ?thesis using assms(2) by (intro exI [of _ op] exI [of _ p]) (simp add: bm.get_remove [OF wf])
  next
    case (protect op p q n tok s1 now)
    note tk = sender_token_Inr [OF protect(9)]
    have "?put op"
      unfolding protect(3) tk(2) by (rule exI, rule conjI, simp add: bm.get_insert [OF wf]) (simp add: tk(1))
    then show ?thesis using protect(1,4) assms(2) by auto
  next
    case (commit op p m msg now tok s1)
    note tk = sender_token_Inr [OF commit(15)]
    have "?put op"
      unfolding commit(3) tk(2) by (rule exI, rule conjI, simp add: bm.get_insert [OF wf]) (simp add: tk(1))
    then show ?thesis using commit(1,4) assms(2) by auto
  qed (use assms(2) in simp_all)
  then obtain op p where p: "bm_get (ds_pending s) op = Some p" "ps_token p = t" and get: "?put op \<or> ?del op"
    by blast
  have old: "et_incarnation (ps_token p) = ds_incarnation s" "et_sequence (ps_token p) < ds_next_token s"
    using inv p(1) by (simp_all add: sender_inv_def)
  show "et_incarnation t = ds_incarnation s" using old p by simp
  show "et_sequence t < ds_next_token s'"
    using old p sender_moves_tokens(1) [OF mv inv] by (auto intro: less_le_trans)
  show "et_sequence t \<notin> live_sends s'"
  proof
    assume "et_sequence t \<in> live_sends s'"
    then obtain op' p' where p': "bm_get (ds_pending s') op' = Some p'" "et_sequence (ps_token p') = et_sequence t"
      by (auto simp: live_sends_def)
    then have g: "bm_get (ds_pending s) op' = Some p'" and ne: "op' \<noteq> op"
      using get old(2) p(2) by (auto split: if_splits)
    have "et_incarnation (ps_token p') = ds_incarnation s" using inv g by (simp add: sender_inv_def)
    then have "ps_token p' = ps_token p"
      using p'(2) old(1) p(2) by (simp add: effect_token.expand)
    then have "op' = op" using inv g p(1) by (simp add: sender_inv_def)
    then show False using ne by simp
  qed
qed

lemma dead_token:
  assumes inv: "sender_inv s" and "call_token c = Some t" and "et_sequence t \<notin> live_sends s"
  shows "sender_step sha256 c s = (Inl Conflict, s)"
proof -
  obtain r s' where st: "sender_step sha256 c s = (r, s')" by fastforce
  have "\<not> (\<exists>op p. bm_get (ds_pending s) op = Some p \<and> ps_token p = t)"
    using assms(3) by (auto simp: live_sends_def)
  then have "sender_locate t ph s = Inl Conflict" for ph
    using sender_locate_Inr [OF inv, of t ph] sender_locate_Inl [of t ph s]
    by (cases "sender_locate t ph s") (simp, metis)
  then show ?thesis
    using assms(2)
    by (cases c) (auto simp: sender_reserved_def sender_protected_def sender_committed_def sender_failed_def)
qed

section \<open>Where an accepted object comes from\<close>

text \<open>The manifest of a message says what the request asked for.\<close>

definition carries :: "member_id \<Rightarrow> send_request \<Rightarrow> manifest \<Rightarrow> bool" where
  "carries origin q m \<longleftrightarrow> mf_origin m = origin \<and> mf_namespace m = op_namespace (sq_policy q) \<and>
     mf_epoch m = op_epoch (sq_policy q) \<and> mf_targets m = op_targets (sq_policy q) \<and>
     mf_expires_at m = op_expires_at (sq_policy q) \<and> mf_hop_limit m = op_hop_limit (sq_policy q)"

text \<open>
  What the calls made so far explain of the state: every pending operation was started by a
  request with its digest and policy, and the object a commit waits for is the id of a message
  the host protected for that request.
\<close>

definition explains :: "(bytes \<Rightarrow> arr32) \<Rightarrow> sender_call list \<Rightarrow> durable_sender \<Rightarrow> bool" where
  "explains sha256 calls s \<longleftrightarrow>
     (\<forall>op p. bm_get (ds_pending s) op = Some p \<longrightarrow>
        (\<exists>q now. Start q now \<in> set calls \<and> sq_operation q = op \<and> ps_policy p = sq_policy q \<and>
           ps_command_digest p = command_digest sha256 (ds_origin s) q \<and>
           (\<forall>obj. ps_expected_object p = Some obj \<longrightarrow>
              (\<exists>t msg now. Protected t msg now \<in> set calls \<and> carries (ds_origin s) q (po_manifest (sm_object msg)) \<and>
                 obj = manifest_id sha256 (po_manifest (sm_object msg))))))"

lemma explains_mono: "explains sha256 calls s \<Longrightarrow> explains sha256 (calls @ [c]) s"
  unfolding explains_def by (simp, blast)

lemma explains_put:
  assumes ex: "explains sha256 calls s" and wf: "bm_wf (ds_pending s)"
    and new: "\<exists>q now. Start q now \<in> set (calls @ [c]) \<and> sq_operation q = op \<and> ps_policy p = sq_policy q \<and>
           ps_command_digest p = command_digest sha256 (ds_origin s) q \<and>
           (\<forall>obj. ps_expected_object p = Some obj \<longrightarrow>
              (\<exists>t msg now. Protected t msg now \<in> set (calls @ [c]) \<and>
                 carries (ds_origin s) q (po_manifest (sm_object msg)) \<and>
                 obj = manifest_id sha256 (po_manifest (sm_object msg))))"
    and s': "ds_origin s' = ds_origin s" "ds_pending s' = bm_insert op p (ds_pending s)"
  shows "explains sha256 (calls @ [c]) s'"
proof -
  have old: "explains sha256 (calls @ [c]) s" by (rule explains_mono [OF ex])
  show ?thesis
    unfolding explains_def s' bm.get_insert [OF wf]
  proof (intro allI impI)
    fix o' p' assume g: "((bm_get (ds_pending s))(op \<mapsto> p)) o' = Some p'"
    show "\<exists>q now. Start q now \<in> set (calls @ [c]) \<and> sq_operation q = o' \<and> ps_policy p' = sq_policy q \<and>
        ps_command_digest p' = command_digest sha256 (ds_origin s) q \<and>
        (\<forall>obj. ps_expected_object p' = Some obj \<longrightarrow>
           (\<exists>t msg now. Protected t msg now \<in> set (calls @ [c]) \<and>
              carries (ds_origin s) q (po_manifest (sm_object msg)) \<and>
              obj = manifest_id sha256 (po_manifest (sm_object msg))))"
    proof (cases "o' = op")
      case True
      then show ?thesis using g new by simp
    next
      case False
      then have "bm_get (ds_pending s) o' = Some p'" using g by simp
      with old show ?thesis unfolding explains_def by blast
    qed
  qed
qed

lemma explains_step:
  assumes inv: "sender_inv s" and ex: "explains sha256 calls s"
  shows "explains sha256 (calls @ [c]) (snd (sender_step sha256 c s))"
proof -
  obtain r s' where st: "sender_step sha256 c s = (r, s')" by fastforce
  have wf: "bm_wf (ds_pending s)" using inv by (simp add: sender_inv_def)
  have mono: "explains sha256 (calls @ [c]) s" by (rule explains_mono [OF ex])
  consider "s' = s" | tr where "sender_moves sha256 s c tr s'" using sender_step_cases [OF inv st] by blast
  then have "explains sha256 (calls @ [c]) s'"
  proof cases
    case 2
    from 2 show ?thesis
    proof cases
      case (start q tok s1 now)
      note tk = sender_token_Inr [OF start(6)]
      show ?thesis
        by (rule explains_put [OF ex wf]) (auto simp: start(1,3) tk(2))
    next
      case (finish op p ev)
      then show ?thesis
        using mono wf unfolding explains_def by (simp add: bm.get_remove)
    next
      case (protect op p q n tok s1 now)
      note tk = sender_token_Inr [OF protect(9)]
      have "phase_ok p" using inv protect(4) by (simp add: sender_inv_def)
      then have none: "ps_expected_object p = None" using protect(5) by (simp add: phase_ok_def)
      obtain q' now' where q': "Start q' now' \<in> set calls" "sq_operation q' = op" "ps_policy p = sq_policy q'"
        "ps_command_digest p = command_digest sha256 (ds_origin s) q'"
        using ex protect(4) unfolding explains_def by blast
      show ?thesis
        by (rule explains_put [OF ex wf, where op = op and
              p = "p\<lparr>ps_phase := Protecting, ps_token := tok, ps_origin_sequence := Some n, ps_request := None\<rparr>"])
          (use q' none in \<open>auto simp: protect(3) tk(2)\<close>)
    next
      case (commit op p m msg now tok s1)
      note tk = sender_token_Inr [OF commit(15)]
      obtain q' now' where q': "Start q' now' \<in> set calls" "sq_operation q' = op" "ps_policy p = sq_policy q'"
        "ps_command_digest p = command_digest sha256 (ds_origin s) q'"
        using ex commit(4) unfolding explains_def by blast
      have "carries (ds_origin s) q' (po_manifest (sm_object msg))"
        using commit(6-13) q'(3) by (simp add: carries_def)
      then show ?thesis
        by (intro explains_put [OF ex wf, where op = op and
              p = "p\<lparr>ps_token := tok, ps_phase := Committing,
                 ps_expected_object := Some (manifest_id sha256 m)\<rparr>"])
          (use q' commit(1,6) in \<open>auto simp: commit(3) tk(2)\<close>)
    qed (use mono in simp)
  qed (use mono in simp)
  then show ?thesis by (simp add: st)
qed

lemma sender_new_facts:
  assumes "sender_new origin inc = Inr s0"
  shows "sender_inv s0" "explains sha256 [] s0" "ds_origin s0 = origin" "ds_incarnation s0 = inc"
  using assms by (auto simp: sender_new_def sender_inv_def explains_def split: if_splits)

lemma sender_run_facts:
  assumes "sender_new origin inc = Inr s0"
  shows "sender_inv (snd (sends.run sha256 calls s0)) \<and>
    explains sha256 calls (snd (sends.run sha256 calls s0)) \<and>
    ds_origin (snd (sends.run sha256 calls s0)) = origin \<and>
    ds_incarnation (snd (sends.run sha256 calls s0)) = inc"
proof (induction calls rule: rev_induct)
  case Nil
  show ?case using sender_new_facts [OF assms] by simp
next
  case (snoc c calls)
  let ?s = "snd (sends.run sha256 calls s0)"
  have inv: "sender_inv ?s" and ex: "explains sha256 calls ?s" using snoc by blast+
  have last: "snd (sends.run sha256 (calls @ [c]) s0) = snd (sender_step sha256 c ?s)"
    by (simp add: sends.run_append split_def Let_def del: sender_step.simps)
  obtain r s' where st: "sender_step sha256 c ?s = (r, s')" by fastforce
  have "ds_origin s' = ds_origin ?s" "ds_incarnation s' = ds_incarnation ?s"
    using sender_step_cases [OF inv st] sender_moves_tokens(4,5) [OF _ inv] by blast+
  then show ?case
    using snoc sender_inv_step [OF inv, of sha256 c] explains_step [OF inv ex, of c]
    unfolding last by (simp add: st)
qed

section \<open>What the sender guarantees\<close>

text \<open>
  After any calls at most eight sends are pending, each in a phase whose data is there,
  with tokens of this incarnation that differ from each other; and a call that reports an
  error leaves the state exactly as it was.
\<close>

theorem sender_errors_unchanged:
  "case sender_new origin inc of
     Inl e \<Rightarrow> inc = 0
   | Inr s0 \<Rightarrow>
       sender_inv (snd (sends.run sha256 calls s0)) \<and>
       (case sender_step sha256 c (snd (sends.run sha256 calls s0)) of
          (Inl e, s') \<Rightarrow> s' = snd (sends.run sha256 calls s0)
        | (Inr tr, s') \<Rightarrow> sender_inv s')"
proof (cases "sender_new origin inc")
  case (Inl e)
  then show ?thesis by (simp add: sender_new_def split: if_splits)
next
  case (Inr s0)
  let ?s = "snd (sends.run sha256 calls s0)"
  have inv: "sender_inv ?s" using sender_run_facts [OF Inr] by blast
  obtain r s' where st: "sender_step sha256 c ?s = (r, s')" by fastforce
  have "sender_inv s'" using sender_inv_step [OF inv, of sha256 c] st by simp
  then show ?thesis
    using Inr inv st sender_step_cases [OF inv st] by (cases r) auto
qed

text \<open>
  C35: the tokens of the effects are issued in increasing order, and a token a successful call
  has consumed is answered with a conflict in every later state, which it does not change.
\<close>

theorem sender_token_once:
  assumes "sender_new origin inc = Inr s0" and "call_token c = Some t" and "call_token d = Some t"
    and "sender_step sha256 c (snd (sends.run sha256 calls s0)) = (Inr tr, s1)"
  shows "sender_step sha256 d (snd (sends.run sha256 later s1)) = (Inl Conflict, snd (sends.run sha256 later s1)) \<and>
    sorted_wrt (<) (sends.handles (fst (sends.run sha256 later s1)))"
proof -
  have inv: "sender_inv (snd (sends.run sha256 calls s0))" using sender_run_facts [OF assms(1)] by blast
  have inv1: "sender_inv s1" using sender_inv_step [OF inv, of sha256 c] assms(4) by simp
  note used = token_consumed [OF inv assms(2,4)]
  have "et_sequence t \<notin> live_sends (snd (sends.run sha256 later s1))"
    by (rule sends.dead_stays_dead [OF inv1 used(2,3)])
  from dead_token [OF sends.inv_run [OF inv1] assms(3) this] show ?thesis
    using sends.handles_ascending [OF inv1] by blast
qed

definition sample_request :: send_request where
  "sample_request = \<lparr>sq_operation = OperationId 6, sq_policy = \<lparr>op_namespace = Namespace (ascii ''field.v1''),
     op_epoch = 1, op_targets = [MemberId 4, MemberId 9], op_expires_at = 100, op_hop_limit = 4\<rparr>,
     sq_plaintext = [1, 2, 3]\<rparr>"

definition sample_sender :: durable_sender where
  "sample_sender = \<lparr>ds_origin = MemberId 7, ds_incarnation = 3, ds_next_token = 1, ds_pending = []\<rparr>"

lemma sample_sender_new: "sender_new (MemberId 7) 3 = Inr sample_sender"
  by (simp add: sender_new_def sample_sender_def)

definition sample_message :: sealed_message where
  "sample_message =
     (let m = \<lparr>mf_origin = MemberId 7, mf_sequence = 12, mf_namespace = Namespace (ascii ''field.v1''),
            mf_epoch = 1, mf_targets = [MemberId 4, MemberId 9], mf_expires_at = 100, mf_hop_limit = 4,
            mf_content_len = 3, mf_hashes = [0]\<rparr>
      in \<lparr>sm_object = \<lparr>po_manifest = m, po_chunks = [[1, 2, 3]]\<rparr>,
          sm_announcement = \<lparr>aa_manifest = m, aa_encoded = [], aa_scope = \<lparr>sc_group = 2, sc_epoch = 1\<rparr>,
            aa_roster_digest = 5\<rparr>\<rparr>)"

text \<open>A run of the sample send, state by state, with a constant hash.\<close>

definition sample_pending :: "effect_token \<Rightarrow> send_phase \<Rightarrow> send_request option \<Rightarrow> u64 option \<Rightarrow> object_id option \<Rightarrow> pending_send" where
  "sample_pending tok ph q n ob = \<lparr>ps_token = tok, ps_phase = ph, ps_command_digest = 0,
     ps_policy = sq_policy sample_request, ps_request = q, ps_origin_sequence = n, ps_expected_object = ob\<rparr>"

definition sample_state :: "u64 \<Rightarrow> pending_send \<Rightarrow> durable_sender" where
  "sample_state next_token p = sample_sender\<lparr>ds_next_token := next_token, ds_pending := [(OperationId 6, p)]\<rparr>"

lemma command_digest_zero: "command_digest (\<lambda>_. 0) origin q = 0"
  by (simp add: command_digest_def Let_def)

lemma sample_start:
  "snd (sender_step (\<lambda>_. 0) (Start sample_request 5) sample_sender) =
     sample_state 2 (sample_pending (EffectToken 3 1) Reserving (Some sample_request) None None)"
  by (simp add: sender_start_def Let_def command_digest_zero sender_token_def checked_add_def
      sample_state_def sample_pending_def sample_sender_def MAX_LOGICAL_TIME_def)
    (simp add: sample_request_def)

lemma sample_failed:
  "sender_step (\<lambda>_. 0) (Failed (EffectToken 3 1) Expired)
     (sample_state 2 (sample_pending (EffectToken 3 1) Reserving (Some sample_request) None None)) =
   (Inr \<lparr>st_effect = None, st_event = Some (NeedsRetry (OperationId 6) Expired)\<rparr>,
    sample_sender\<lparr>ds_next_token := 2\<rparr>)"
  by (simp add: sender_failed_def sender_locate_def bm_find_def sample_state_def sample_pending_def
      sample_sender_def bm_remove_def)

lemma sample_reserved:
  "snd (sender_step (\<lambda>_. 0) (Reserved (EffectToken 3 1) 12 None 6)
     (sample_state 2 (sample_pending (EffectToken 3 1) Reserving (Some sample_request) None None))) =
   sample_state 3 (sample_pending (EffectToken 3 2) Protecting None (Some 12) None)"
  by (simp add: sender_reserved_def sender_locate_def bm_find_def sample_state_def sample_pending_def
      sample_sender_def MAX_LOGICAL_TIME_def sender_token_def checked_add_def bm_get_def)
    (simp add: sample_request_def word_le_nat_alt)

lemma sample_protected:
  "snd (sender_step (\<lambda>_. 0) (Protected (EffectToken 3 2) sample_message 7)
     (sample_state 3 (sample_pending (EffectToken 3 2) Protecting None (Some 12) None))) =
   sample_state 4 (sample_pending (EffectToken 3 3) Committing None (Some 12) (Some (ObjectId 0)))"
  by (simp add: sender_protected_def sender_locate_def bm_find_def sample_state_def sample_pending_def
      sample_sender_def MAX_LOGICAL_TIME_def sender_token_def checked_add_def bm_get_def sample_message_def
      sample_request_def manifest_id_def Let_def word_le_nat_alt)

lemma sample_committed:
  "sender_step (\<lambda>_. 0) (Committed (EffectToken 3 3) (ObjectId 0))
     (sample_state 4 (sample_pending (EffectToken 3 3) Committing None (Some 12) (Some (ObjectId 0)))) =
   (Inr \<lparr>st_effect = None, st_event = Some (Accepted (OperationId 6) (ObjectId 0))\<rparr>,
    sample_sender\<lparr>ds_next_token := 4\<rparr>)"
  by (simp add: sender_committed_def sender_locate_def bm_find_def sample_state_def sample_pending_def
      sample_sender_def bm_remove_def bm_get_def)

lemma sends_run_snoc: "snd (sends.run sha256 (cs @ [c]) s) = snd (sender_step sha256 c (snd (sends.run sha256 cs s)))"
  by (simp add: sends.run_append split_def Let_def del: sender_step.simps)

theorem sender_token_once_witness:
  "\<exists>s1. sender_step (\<lambda>_. 0) (Failed (EffectToken 3 1) Conflict) s1 = (Inl Conflict, s1)"
proof -
  have "snd (sends.run (\<lambda>_. 0) ([] @ [Start sample_request 5]) sample_sender) =
      sample_state 2 (sample_pending (EffectToken 3 1) Reserving (Some sample_request) None None)"
    unfolding sends_run_snoc by (simp add: sample_start del: sender_step.simps)
  note st = sample_failed [folded this]
  have "sender_step (\<lambda>_. 0) (Failed (EffectToken 3 1) Conflict)
      (snd (sends.run (\<lambda>_. 0) [] (sample_sender\<lparr>ds_next_token := 2\<rparr>))) =
    (Inl Conflict, snd (sends.run (\<lambda>_. 0) [] (sample_sender\<lparr>ds_next_token := 2\<rparr>)))"
    by (rule conjunct1 [OF sender_token_once [OF sample_sender_new _ _ st]]) simp_all
  then show ?thesis by blast
qed

text \<open>
  C34: an object is reported as accepted for an operation in two ways only, and only if a request with
  that operation id was started before. Either the host answers the commit of exactly this object,
  and then it had protected a message whose manifest carries the request's policy under this origin
  and whose id is the object; or it answers the reservation of that operation with exactly this
  object, as one that its storage has committed already, and then the sender itself has no proof of
  it.
\<close>

theorem accepted_object_sound:
  assumes "sender_new origin inc = Inr s0"
    and "sender_step sha256 c (snd (sends.run sha256 calls s0)) = (Inr tr, s')"
    and "st_event tr = Some (Accepted op obj)"
  shows "\<exists>q now. Start q now \<in> set calls \<and> sq_operation q = op \<and>
    ((\<exists>t. c = Committed t obj \<and> (\<exists>t' msg now'. Protected t' msg now' \<in> set calls \<and>
        carries origin q (po_manifest (sm_object msg)) \<and> obj = manifest_id sha256 (po_manifest (sm_object msg)))) \<or>
     (\<exists>t n now'. c = Reserved t n (Some obj) now' \<and> 0 < n \<and> n \<le> MAX_LOGICAL_TIME))"
proof -
  let ?s = "snd (sends.run sha256 calls s0)"
  have inv: "sender_inv ?s" and ex: "explains sha256 calls ?s" and or: "ds_origin ?s = origin"
    using sender_run_facts [OF assms(1)] by blast+
  have mv: "sender_moves sha256 ?s c tr s'" using sender_step_cases [OF inv assms(2)] by auto
  obtain p where p: "bm_get (ds_pending ?s) op = Some p"
    and c: "(\<exists>n now. c = Reserved (ps_token p) n (Some obj) now) \<or>
      c = Committed (ps_token p) obj \<and> ps_expected_object p = Some obj"
    using mv
  proof cases
    case (finish o' p ev)
    then have "ev = Accepted op obj" using assms(3) by simp
    then show ?thesis using finish that [of p] by auto
  qed (use assms(3) in \<open>simp_all add: transition_default_def\<close>)
  obtain q now where q: "Start q now \<in> set calls" "sq_operation q = op"
      "\<forall>obj. ps_expected_object p = Some obj \<longrightarrow>
         (\<exists>t msg now. Protected t msg now \<in> set calls \<and> carries origin q (po_manifest (sm_object msg)) \<and>
            obj = manifest_id sha256 (po_manifest (sm_object msg)))"
    using ex p unfolding explains_def or by blast
  from c show ?thesis
  proof
    assume "\<exists>n now. c = Reserved (ps_token p) n (Some obj) now"
    then obtain n now' where r: "c = Reserved (ps_token p) n (Some obj) now'" by blast
    then have "n \<noteq> 0 \<and> n \<le> MAX_LOGICAL_TIME"
      using assms(2) by (auto simp: sender_reserved_def split: sum.splits if_splits)
    then show ?thesis using q(1,2) r by (auto simp: word_neq_0_conv)
  next
    assume "c = Committed (ps_token p) obj \<and> ps_expected_object p = Some obj"
    then show ?thesis using q by blast
  qed
qed

definition sample_calls :: "sender_call list" where
  "sample_calls = (([] @ [Start sample_request 5]) @ [Reserved (EffectToken 3 1) 12 None 6]) @
     [Protected (EffectToken 3 2) sample_message 7]"

theorem accepted_object_sound_witness:
  "\<exists>obj q now t' msg now'. Start q now \<in> set sample_calls \<and> sq_operation q = OperationId 6 \<and>
     Protected t' msg now' \<in> set sample_calls \<and> carries (MemberId 7) q (po_manifest (sm_object msg)) \<and>
     obj = manifest_id (\<lambda>_. 0) (po_manifest (sm_object msg))"
proof -
  have "snd (sends.run (\<lambda>_. 0) sample_calls sample_sender) =
     sample_state 4 (sample_pending (EffectToken 3 3) Committing None (Some 12) (Some (ObjectId 0)))"
    unfolding sample_calls_def sends_run_snoc
    by (simp add: sample_start sample_reserved sample_protected del: sender_step.simps)
  note st = sample_committed [folded this]
  have "st_event \<lparr>st_effect = None, st_event = Some (Accepted (OperationId 6) (ObjectId 0))\<rparr> =
      Some (Accepted (OperationId 6) (ObjectId 0))" by simp
  from accepted_object_sound [OF sample_sender_new st this] show ?thesis by (simp only: sender_call.simps) blast
qed

end
