(* ===== verification/Mesh_Receiver.thy ===== *)
theory Mesh_Receiver
  imports Mesh_Messages Mesh_Handles
begin

text \<open>
  \<open>crates/mesh-runtime/src/reception.rs\<close>: the authenticated receive reducer. As in
  \<open>Mesh_Sender\<close>, the host answers effects with their token; the object is the key of a
  pending reception. \<open>receives\<close> interprets \<open>handle_table\<close> on its tokens.
\<close>

section \<open>State\<close>

definition MAX_PENDING_RECEIVES :: nat where [simp]: "MAX_PENDING_RECEIVES = 8"

datatype receive_token = ReceiveToken (rt_incarnation: u64) (rt_seq: u64)

datatype receive_phase = Inspecting | Verifying | Committing_receive

datatype receive_event =
    Received object_id
  | NeedsRetry_receive object_id durable_error

datatype receive_effect =
    Inspect receive_token object_id
  | Verify receive_token object_id
  | Commit_receive receive_token verified_delivery

fun receive_token_of :: "receive_effect \<Rightarrow> receive_token" where
  "receive_token_of (Inspect token _) = token"
| "receive_token_of (Verify token _) = token"
| "receive_token_of (Commit_receive token _) = token"

record receive_transition =
  rx_effect :: "receive_effect option"
  rx_event :: "receive_event option"

definition receive_default :: receive_transition where
  "receive_default = \<lparr>rx_effect = None, rx_event = None\<rparr>"

record pending_receive =
  pr_token :: receive_token
  pr_phase :: receive_phase

record durable_receiver =
  dr_member :: member_id
  dr_incarnation :: u64
  dr_next :: u64
  dr_pending :: "(object_id, pending_receive) bmap"

definition receiver_new :: "member_id \<Rightarrow> u64 \<Rightarrow> durable_error + durable_receiver" where
  "receiver_new m incarnation =
     (if incarnation = 0 then Inl InvalidInput
      else Inr \<lparr>dr_member = m, dr_incarnation = incarnation, dr_next = 1, dr_pending = []\<rparr>)"

definition receiver_token :: "durable_receiver \<Rightarrow> (durable_error + receive_token) \<times> durable_receiver" where
  "receiver_token s =
     (case checked_add (dr_next s) 1 of
        None \<Rightarrow> (Inl ResourcePressure, s)
      | Some n \<Rightarrow> (Inr (ReceiveToken (dr_incarnation s) (dr_next s)), s\<lparr>dr_next := n\<rparr>))"

definition receiver_locate ::
    "receive_token \<Rightarrow> receive_phase option \<Rightarrow> durable_receiver \<Rightarrow> durable_error + object_id" where
  "receiver_locate token phase s =
     ok_or Conflict (map_option fst
       (bm_find (\<lambda>_ p. pr_token p = token \<and> (case phase of None \<Rightarrow> True | Some ph \<Rightarrow> ph = pr_phase p))
          (dr_pending s)))"

definition receiver_received :: "object_id \<Rightarrow> durable_receiver \<Rightarrow> receive_transition \<times> durable_receiver" where
  "receiver_received obj s =
     (\<lparr>rx_effect = None, rx_event = Some (Received obj)\<rparr>,
      s\<lparr>dr_pending := bm_remove obj (dr_pending s)\<rparr>)"

section \<open>Transitions\<close>

definition receiver_start :: "object_id \<Rightarrow> durable_receiver \<Rightarrow> (durable_error + receive_transition) \<times> durable_receiver" where
  "receiver_start obj s =
     (if bm_contains (dr_pending s) obj then (Inr receive_default, s)
      else if length (dr_pending s) \<ge> MAX_PENDING_RECEIVES then (Inl ResourcePressure, s)
      else
        (case receiver_token s of
           (Inl e, s) \<Rightarrow> (Inl e, s)
         | (Inr token, s) \<Rightarrow>
             (Inr \<lparr>rx_effect = Some (Inspect token obj), rx_event = None\<rparr>,
              s\<lparr>dr_pending := bm_insert obj \<lparr>pr_token = token, pr_phase = Inspecting\<rparr> (dr_pending s)\<rparr>)))"

definition receiver_inspected ::
    "receive_token \<Rightarrow> object_id option \<Rightarrow> durable_receiver
     \<Rightarrow> (durable_error + receive_transition) \<times> durable_receiver" where
  "receiver_inspected token committed s =
     (case receiver_locate token (Some Inspecting) s of
        Inl e \<Rightarrow> (Inl e, s)
      | Inr obj \<Rightarrow>
          (case committed of
             Some oid \<Rightarrow>
               if oid \<noteq> obj then (Inl Conflict, s)
               else (let (t, s) = receiver_received obj s in (Inr t, s))
           | None \<Rightarrow>
               (case receiver_token s of
                  (Inl e, s) \<Rightarrow> (Inl e, s)
                | (Inr token, s) \<Rightarrow>
                    (Inr \<lparr>rx_effect = Some (Verify token obj), rx_event = None\<rparr>,
                     s\<lparr>dr_pending := bm_insert obj \<lparr>pr_token = token, pr_phase = Verifying\<rparr>
                        (dr_pending s)\<rparr>))))"

definition receiver_verified ::
    "(bytes \<Rightarrow> arr32) \<Rightarrow> receive_token \<Rightarrow> verified_delivery \<Rightarrow> durable_receiver
     \<Rightarrow> (durable_error + receive_transition) \<times> durable_receiver" where
  "receiver_verified sha256 token proof s =
     (case receiver_locate token (Some Verifying) s of
        Inl e \<Rightarrow> (Inl e, s)
      | Inr obj \<Rightarrow>
          if vd_object_id sha256 proof \<noteq> obj \<or> vd_member proof \<noteq> dr_member s then (Inl Conflict, s)
          else
            (case receiver_token s of
               (Inl e, s) \<Rightarrow> (Inl e, s)
             | (Inr token, s) \<Rightarrow>
                 (Inr \<lparr>rx_effect = Some (Commit_receive token proof), rx_event = None\<rparr>,
                  s\<lparr>dr_pending := bm_insert obj \<lparr>pr_token = token, pr_phase = Committing_receive\<rparr>
                     (dr_pending s)\<rparr>)))"

definition receiver_committed ::
    "receive_token \<Rightarrow> object_id \<Rightarrow> durable_receiver
     \<Rightarrow> (durable_error + receive_transition) \<times> durable_receiver" where
  "receiver_committed token committed s =
     (case receiver_locate token (Some Committing_receive) s of
        Inl e \<Rightarrow> (Inl e, s)
      | Inr obj \<Rightarrow>
          if obj \<noteq> committed then (Inl Conflict, s)
          else (let (t, s) = receiver_received obj s in (Inr t, s)))"

definition receiver_failed ::
    "receive_token \<Rightarrow> durable_error \<Rightarrow> durable_receiver
     \<Rightarrow> (durable_error + receive_transition) \<times> durable_receiver" where
  "receiver_failed token error s =
     (case receiver_locate token None s of
        Inl e \<Rightarrow> (Inl e, s)
      | Inr obj \<Rightarrow>
          (Inr \<lparr>rx_effect = None, rx_event = Some (NeedsRetry_receive obj error)\<rparr>,
           s\<lparr>dr_pending := bm_remove obj (dr_pending s)\<rparr>))"

section \<open>Calls\<close>

datatype receiver_call =
    Start_receive object_id
  | Inspected receive_token "object_id option"
  | Verified receive_token verified_delivery
  | Committed_receive receive_token object_id
  | Failed_receive receive_token durable_error

fun receiver_step ::
    "(bytes \<Rightarrow> arr32) \<Rightarrow> receiver_call \<Rightarrow> durable_receiver
     \<Rightarrow> (durable_error + receive_transition) \<times> durable_receiver" where
  "receiver_step sha256 (Start_receive obj) s = receiver_start obj s"
| "receiver_step sha256 (Inspected t c) s = receiver_inspected t c s"
| "receiver_step sha256 (Verified t v) s = receiver_verified sha256 t v s"
| "receiver_step sha256 (Committed_receive t obj) s = receiver_committed t obj s"
| "receiver_step sha256 (Failed_receive t e) s = receiver_failed t e s"

fun receive_call_token :: "receiver_call \<Rightarrow> receive_token option" where
  "receive_call_token (Start_receive obj) = None"
| "receive_call_token (Inspected t c) = Some t"
| "receive_call_token (Verified t v) = Some t"
| "receive_call_token (Committed_receive t obj) = Some t"
| "receive_call_token (Failed_receive t e) = Some t"

section \<open>Invariant\<close>

definition receiver_inv :: "durable_receiver \<Rightarrow> bool" where
  "receiver_inv s \<longleftrightarrow> bm_wf (dr_pending s) \<and> length (dr_pending s) \<le> MAX_PENDING_RECEIVES \<and>
     (\<forall>ob p. bm_get (dr_pending s) ob = Some p \<longrightarrow>
        rt_incarnation (pr_token p) = dr_incarnation s \<and> rt_seq (pr_token p) < dr_next s) \<and>
     (\<forall>ob p ob' p'. bm_get (dr_pending s) ob = Some p \<longrightarrow> bm_get (dr_pending s) ob' = Some p' \<longrightarrow>
        pr_token p = pr_token p' \<longrightarrow> ob = ob')"

lemma receiver_token_Inr:
  assumes "receiver_token s = (Inr tok, s')"
  shows "tok = ReceiveToken (dr_incarnation s) (dr_next s)"
    "s' = s\<lparr>dr_next := dr_next s + 1\<rparr>" "dr_next s < dr_next s + 1"
  using assms checked_add_one_Some [of "dr_next s"]
  by (auto simp: receiver_token_def split: option.splits)

lemma receiver_token_Inl: "receiver_token s = (Inl e, s') \<Longrightarrow> s' = s \<and> e = ResourcePressure"
  by (auto simp: receiver_token_def split: option.splits)

lemma receiver_inv_remove: "receiver_inv s \<Longrightarrow> receiver_inv (s\<lparr>dr_pending := bm_remove ob (dr_pending s)\<rparr>)"
  by (auto simp: receiver_inv_def bm.wf_remove bm.get_remove bm.size_remove split: if_splits)

lemma receiver_inv_put:
  assumes s: "receiver_inv s" and tok: "receiver_token s = (Inr tok, s')"
    and room: "bm_get (dr_pending s) ob \<noteq> None \<or> length (dr_pending s) < MAX_PENDING_RECEIVES"
  shows "receiver_inv (s'\<lparr>dr_pending := bm_insert ob \<lparr>pr_token = tok, pr_phase = ph\<rparr> (dr_pending s')\<rparr>)"
proof -
  note t = receiver_token_Inr [OF tok]
  have wf: "bm_wf (dr_pending s)" using s by (simp add: receiver_inv_def)
  have "length (bm_insert ob \<lparr>pr_token = tok, pr_phase = ph\<rparr> (dr_pending s)) \<le> MAX_PENDING_RECEIVES"
    using s room bm.size_insert [OF wf, of ob] by (auto simp: receiver_inv_def)
  moreover have "rt_seq (pr_token q) < dr_next s + 1 \<and> pr_token q \<noteq> tok"
    if "bm_get (dr_pending s) ob' = Some q" for ob' q
  proof -
    have lt: "rt_seq (pr_token q) < dr_next s" using s that by (simp add: receiver_inv_def)
    then show ?thesis using t(1,3) by (auto intro: less_trans)
  qed
  ultimately show ?thesis
    using s t(1,3) wf
    by (auto simp: t(2) receiver_inv_def bm.wf_insert bm.get_insert split: if_splits) blast+
qed

lemma receiver_locate_Inr:
  assumes "receiver_inv s"
  shows "receiver_locate token ph s = Inr ob \<longleftrightarrow>
    (\<exists>p. bm_get (dr_pending s) ob = Some p \<and> pr_token p = token \<and> (\<forall>x. ph = Some x \<longrightarrow> pr_phase p = x))"
proof -
  let ?P = "\<lambda>_ p. pr_token p = token \<and> (case ph of None \<Rightarrow> True | Some x \<Rightarrow> x = pr_phase p)"
  have wf: "bm_wf (dr_pending s)" using assms by (simp add: receiver_inv_def)
  have u: "ob' = ob" if "bm_get (dr_pending s) ob' = Some p'" "pr_token p' = token"
    "bm_get (dr_pending s) ob = Some p" "pr_token p = token" for ob' p' p
    using assms that unfolding receiver_inv_def by metis
  have "receiver_locate token ph s = Inr ob \<longleftrightarrow> (\<exists>p. bm_find ?P (dr_pending s) = Some (ob, p))"
    by (auto simp: receiver_locate_def ok_or_eq_Inr)
  also have "\<dots> \<longleftrightarrow> (\<exists>p. bm_get (dr_pending s) ob = Some p \<and> ?P ob p)"
  proof (rule ex_cong1)
    fix p
    show "bm_find ?P (dr_pending s) = Some (ob, p) \<longleftrightarrow> bm_get (dr_pending s) ob = Some p \<and> ?P ob p"
    proof
      assume "bm_find ?P (dr_pending s) = Some (ob, p)"
      then show "bm_get (dr_pending s) ob = Some p \<and> ?P ob p" by (rule bm_find_Some [OF wf])
    next
      assume p: "bm_get (dr_pending s) ob = Some p \<and> ?P ob p"
      show "bm_find ?P (dr_pending s) = Some (ob, p)"
      proof (rule bm_find_unique [OF wf])
        show "ob' = ob" if "bm_get (dr_pending s) ob' = Some p'" "?P ob' p'" for ob' p'
          using u [of ob' p' p] that p by simp
      qed (use p in simp_all)
    qed
  qed
  finally show ?thesis by (cases ph) auto
qed

lemma receiver_locate_Inl: "receiver_locate token ph s = Inl e \<Longrightarrow> e = Conflict"
  by (auto simp: receiver_locate_def ok_or_eq_Inl)

inductive receiver_moves ::
    "(bytes \<Rightarrow> arr32) \<Rightarrow> durable_receiver \<Rightarrow> receiver_call \<Rightarrow> receive_transition \<Rightarrow> durable_receiver \<Rightarrow> bool"
  for sha256 :: "bytes \<Rightarrow> arr32" and s :: durable_receiver where
  repeat: "bm_get (dr_pending s) ob = Some p \<Longrightarrow> receiver_moves sha256 s (Start_receive ob) receive_default s"
| start: "bm_get (dr_pending s) ob = None \<Longrightarrow> length (dr_pending s) < MAX_PENDING_RECEIVES \<Longrightarrow>
    receiver_token s = (Inr tok, s') \<Longrightarrow>
    receiver_moves sha256 s (Start_receive ob) \<lparr>rx_effect = Some (Inspect tok ob), rx_event = None\<rparr>
      (s'\<lparr>dr_pending := bm_insert ob \<lparr>pr_token = tok, pr_phase = Inspecting\<rparr> (dr_pending s')\<rparr>)"
| finish: "bm_get (dr_pending s) ob = Some p \<Longrightarrow> receive_call_token c = Some (pr_token p) \<Longrightarrow>
    (case ev of Received ob' \<Rightarrow> ob' = ob \<and>
         ((c = Inspected (pr_token p) (Some ob) \<and> pr_phase p = Inspecting) \<or>
          (c = Committed_receive (pr_token p) ob \<and> pr_phase p = Committing_receive))
     | NeedsRetry_receive ob' e \<Rightarrow> ob' = ob) \<Longrightarrow>
    receiver_moves sha256 s c \<lparr>rx_effect = None, rx_event = Some ev\<rparr>
      (s\<lparr>dr_pending := bm_remove ob (dr_pending s)\<rparr>)"
| inspect: "bm_get (dr_pending s) ob = Some p \<Longrightarrow> pr_phase p = Inspecting \<Longrightarrow> receiver_token s = (Inr tok, s') \<Longrightarrow>
    receiver_moves sha256 s (Inspected (pr_token p) None) \<lparr>rx_effect = Some (Verify tok ob), rx_event = None\<rparr>
      (s'\<lparr>dr_pending := bm_insert ob \<lparr>pr_token = tok, pr_phase = Verifying\<rparr> (dr_pending s')\<rparr>)"
| verify: "bm_get (dr_pending s) ob = Some p \<Longrightarrow> pr_phase p = Verifying \<Longrightarrow>
    vd_object_id sha256 v = ob \<Longrightarrow> vd_member v = dr_member s \<Longrightarrow> receiver_token s = (Inr tok, s') \<Longrightarrow>
    receiver_moves sha256 s (Verified (pr_token p) v) \<lparr>rx_effect = Some (Commit_receive tok v), rx_event = None\<rparr>
      (s'\<lparr>dr_pending := bm_insert ob \<lparr>pr_token = tok, pr_phase = Committing_receive\<rparr> (dr_pending s')\<rparr>)"

lemma receiver_step_cases:
  assumes inv: "receiver_inv s" and step: "receiver_step sha256 c s = (r, s')"
  shows "(\<exists>e. r = Inl e \<and> s' = s) \<or> (\<exists>tr. r = Inr tr \<and> receiver_moves sha256 s c tr s')"
proof (cases c)
  case (Start_receive ob)
  obtain a s1 where tk: "receiver_token s = (a, s1)" by fastforce
  show ?thesis
  proof (cases "bm_get (dr_pending s) ob")
    case (Some p)
    then show ?thesis
      using step Start_receive receiver_moves.repeat [OF Some, of sha256]
      by (auto simp: receiver_start_def bm_contains_def)
  next
    case None
    show ?thesis
    proof (cases "length (dr_pending s) < MAX_PENDING_RECEIVES")
      case False
      then show ?thesis using step Start_receive None by (auto simp: receiver_start_def bm_contains_def)
    next
      case True
      show ?thesis
      proof (cases a)
        case (Inl e)
        then show ?thesis
          using step Start_receive None True tk receiver_token_Inl [OF tk [unfolded Inl]]
          by (auto simp: receiver_start_def bm_contains_def)
      next
        case (Inr tok)
        then show ?thesis
          using step Start_receive None True tk receiver_moves.start [OF None True tk [unfolded Inr], of sha256]
          by (auto simp: receiver_start_def bm_contains_def)
      qed
    qed
  qed
next
  case (Inspected t com)
  show ?thesis
  proof (cases "receiver_locate t (Some Inspecting) s")
    case (Inl e)
    then show ?thesis using step Inspected by (auto simp: receiver_inspected_def)
  next
    case loc: (Inr ob)
    then obtain p where p: "bm_get (dr_pending s) ob = Some p" "pr_token p = t" "pr_phase p = Inspecting"
      using receiver_locate_Inr [OF inv] by auto
    show ?thesis
    proof (cases com)
      case (Some oid)
      then show ?thesis
        using step Inspected loc p
        by (auto simp: receiver_inspected_def receiver_received_def split: if_splits
            intro!: receiver_moves.finish [OF p(1)])
    next
      case None
      obtain a s1 where tk: "receiver_token s = (a, s1)" by fastforce
      show ?thesis
      proof (cases a)
        case (Inl e)
        then show ?thesis
          using step Inspected loc None tk receiver_token_Inl [OF tk [unfolded Inl]]
          by (auto simp: receiver_inspected_def)
      next
        case (Inr tok)
        then show ?thesis
          using step Inspected loc None tk p receiver_moves.inspect [OF p(1,3) tk [unfolded Inr], of sha256]
          by (auto simp: receiver_inspected_def)
      qed
    qed
  qed
next
  case (Verified t v)
  show ?thesis
  proof (cases "receiver_locate t (Some Verifying) s")
    case (Inl e)
    then show ?thesis using step Verified by (auto simp: receiver_verified_def)
  next
    case loc: (Inr ob)
    then obtain p where p: "bm_get (dr_pending s) ob = Some p" "pr_token p = t" "pr_phase p = Verifying"
      using receiver_locate_Inr [OF inv] by auto
    obtain a s1 where tk: "receiver_token s = (a, s1)" by fastforce
    show ?thesis
    proof (cases "vd_object_id sha256 v = ob \<and> vd_member v = dr_member s")
      case False
      then show ?thesis using step Verified loc by (auto simp: receiver_verified_def)
    next
      case ok: True
      show ?thesis
      proof (cases a)
        case (Inl e)
        then show ?thesis
          using step Verified loc ok tk receiver_token_Inl [OF tk [unfolded Inl]]
          by (auto simp: receiver_verified_def)
      next
        case (Inr tok)
        then show ?thesis
          using step Verified loc ok tk p
            receiver_moves.verify [OF p(1,3) conjunct1 [OF ok] conjunct2 [OF ok] tk [unfolded Inr]]
          by (auto simp: receiver_verified_def)
      qed
    qed
  qed
next
  case (Committed_receive t ob')
  show ?thesis
  proof (cases "receiver_locate t (Some Committing_receive) s")
    case (Inl e)
    then show ?thesis using step Committed_receive by (auto simp: receiver_committed_def)
  next
    case loc: (Inr ob)
    then obtain p where p: "bm_get (dr_pending s) ob = Some p" "pr_token p = t" "pr_phase p = Committing_receive"
      using receiver_locate_Inr [OF inv] by auto
    then show ?thesis
      using step Committed_receive loc
        receiver_moves.finish [OF p(1), of "Committed_receive t ob" "Received ob" sha256]
      by (auto simp: receiver_committed_def receiver_received_def split: if_splits)
  qed
next
  case (Failed_receive t e)
  show ?thesis
  proof (cases "receiver_locate t None s")
    case (Inl e)
    then show ?thesis using step Failed_receive by (auto simp: receiver_failed_def)
  next
    case loc: (Inr ob)
    then obtain p where p: "bm_get (dr_pending s) ob = Some p" "pr_token p = t"
      using receiver_locate_Inr [OF inv] by auto
    then show ?thesis
      using step Failed_receive loc
      by (auto simp: receiver_failed_def intro!: receiver_moves.finish [OF p(1)])
  qed
qed

lemma receiver_moves_inv: "receiver_moves sha256 s c tr s' \<Longrightarrow> receiver_inv s \<Longrightarrow> receiver_inv s'"
proof (induction rule: receiver_moves.induct)
  case (start ob tok s')
  then show ?case by (intro receiver_inv_put [OF _ start(3)]) simp_all
next
  case (inspect ob p tok s')
  then show ?case by (intro receiver_inv_put [OF _ inspect(3)]) simp_all
next
  case (verify ob p v tok s')
  then show ?case by (intro receiver_inv_put [OF _ verify(5)]) simp_all
qed (simp_all add: receiver_inv_remove)

lemma receiver_inv_step: "receiver_inv s \<Longrightarrow> receiver_inv (snd (receiver_step sha256 c s))"
  using receiver_step_cases [of s sha256 c] receiver_moves_inv by (metis prod.collapse)

section \<open>Tokens are used once\<close>

definition live_receives :: "durable_receiver \<Rightarrow> u64 set" where
  "live_receives s = {rt_seq (pr_token p) | ob p. bm_get (dr_pending s) ob = Some p}"

definition issued_receive :: "durable_error + receive_transition \<Rightarrow> u64 option" where
  "issued_receive r = (case r of Inl _ \<Rightarrow> None
     | Inr tr \<Rightarrow> map_option (\<lambda>ef. rt_seq (receive_token_of ef)) (rx_effect tr))"

lemma receiver_moves_tokens:
  assumes "receiver_moves sha256 s c tr s'" and "receiver_inv s"
  shows "dr_next s \<le> dr_next s'"
    "issued_receive (Inr tr) = Some h \<Longrightarrow> h = dr_next s \<and> dr_next s < dr_next s'"
    "live_receives s' \<subseteq> live_receives s \<union> set_option (issued_receive (Inr tr))"
    "dr_member s' = dr_member s"
proof -
  have wf: "bm_wf (dr_pending s)" using assms(2) by (simp add: receiver_inv_def)
  have "dr_next s \<le> dr_next s' \<and>
    (\<forall>h. issued_receive (Inr tr) = Some h \<longrightarrow> h = dr_next s \<and> dr_next s < dr_next s') \<and>
    live_receives s' \<subseteq> live_receives s \<union> set_option (issued_receive (Inr tr)) \<and> dr_member s' = dr_member s"
    using assms(1)
  proof (cases rule: receiver_moves.cases)
    case (repeat ob p)
    then show ?thesis by (simp add: issued_receive_def receive_default_def)
  next
    case (start ob tok s1)
    note t = receiver_token_Inr [OF start(6)]
    show ?thesis
      using t wf by (auto simp: start(2,3) issued_receive_def live_receives_def bm.get_insert split: if_splits)
  next
    case (finish ob p ev)
    then show ?thesis
      using wf by (auto simp: issued_receive_def live_receives_def bm.get_remove split: if_splits)
  next
    case (inspect ob p tok s1)
    note t = receiver_token_Inr [OF inspect(6)]
    show ?thesis
      using t wf by (auto simp: inspect(2,3) issued_receive_def live_receives_def bm.get_insert split: if_splits)
  next
    case (verify ob p v tok s1)
    note t = receiver_token_Inr [OF verify(8)]
    show ?thesis
      using t wf by (auto simp: verify(2,3) issued_receive_def live_receives_def bm.get_insert split: if_splits)
  qed
  then show "dr_next s \<le> dr_next s'"
    "issued_receive (Inr tr) = Some h \<Longrightarrow> h = dr_next s \<and> dr_next s < dr_next s'"
    "live_receives s' \<subseteq> live_receives s \<union> set_option (issued_receive (Inr tr))"
    "dr_member s' = dr_member s" by blast+
qed

interpretation receives: handle_table dr_next live_receives "receiver_step sha256" issued_receive receiver_inv
  for sha256
proof
  fix s c h assume inv: "receiver_inv s"
  show "receiver_inv (snd (receiver_step sha256 c s))" by (rule receiver_inv_step [OF inv])
  show "h < dr_next s" if "h \<in> live_receives s"
    using inv that by (auto simp: live_receives_def receiver_inv_def)
  obtain r s' where st: "receiver_step sha256 c s = (r, s')" by fastforce
  note cases = receiver_step_cases [OF inv st]
  show "dr_next s \<le> dr_next (snd (receiver_step sha256 c s))"
    using cases receiver_moves_tokens(1) inv unfolding st by auto
  show "h = dr_next s \<and> dr_next s < dr_next (snd (receiver_step sha256 c s))"
    if "issued_receive (fst (receiver_step sha256 c s)) = Some h"
    using cases that receiver_moves_tokens(2) [OF _ inv] unfolding st by (fastforce simp: issued_receive_def)
  show "live_receives (snd (receiver_step sha256 c s)) \<subseteq>
      live_receives s \<union> set_option (issued_receive (fst (receiver_step sha256 c s)))"
    using cases receiver_moves_tokens(3) [OF _ inv] unfolding st by (elim disjE exE conjE) auto
qed

section \<open>What a report of reception rests on\<close>

text \<open>
  The calls made so far explain the phase of every reception: its object was started, and once
  it is committing, a verified delivery of that object to this member was handed in.
\<close>

definition receive_explains :: "(bytes \<Rightarrow> arr32) \<Rightarrow> member_id \<Rightarrow> receiver_call list \<Rightarrow> durable_receiver \<Rightarrow> bool" where
  "receive_explains sha256 m calls s \<longleftrightarrow> dr_member s = m \<and>
     (\<forall>ob p. bm_get (dr_pending s) ob = Some p \<longrightarrow> Start_receive ob \<in> set calls \<and>
        (pr_phase p = Committing_receive \<longrightarrow>
           (\<exists>t v. Verified t v \<in> set calls \<and> vd_object_id sha256 v = ob \<and> vd_member v = m)))"

lemma receive_explains_step:
  assumes inv: "receiver_inv s" and ex: "receive_explains sha256 m calls s"
  shows "receive_explains sha256 m (calls @ [c]) (snd (receiver_step sha256 c s))"
proof -
  obtain r s' where st: "receiver_step sha256 c s = (r, s')" by fastforce
  have wf: "bm_wf (dr_pending s)" using inv by (simp add: receiver_inv_def)
  have mono: "receive_explains sha256 m (calls @ [c]) s"
    using ex unfolding receive_explains_def by (simp, blast)
  have started: "Start_receive ob \<in> set calls" if "bm_get (dr_pending s) ob = Some p" for ob p
    using ex that unfolding receive_explains_def by blast
  consider "s' = s" | tr where "receiver_moves sha256 s c tr s'"
    using receiver_step_cases [OF inv st] by blast
  then have "receive_explains sha256 m (calls @ [c]) s'"
  proof cases
    case 2
    from 2 show ?thesis
    proof cases
      case (start ob tok s1)
      note tk = receiver_token_Inr [OF start(6)]
      show ?thesis
        using mono unfolding start(3) tk(2) receive_explains_def
        by (simp add: bm.get_insert [OF wf] start(1)) blast
    next
      case (finish ob p ev)
      then show ?thesis
        using mono unfolding receive_explains_def by (simp add: bm.get_remove [OF wf])
    next
      case (inspect ob p tok s1)
      note tk = receiver_token_Inr [OF inspect(6)]
      show ?thesis
        using mono started [OF inspect(4)] unfolding inspect(3) tk(2) receive_explains_def
        by (simp add: bm.get_insert [OF wf])
    next
      case (verify ob p v tok s1)
      note tk = receiver_token_Inr [OF verify(8)]
      have v: "Verified (pr_token p) v \<in> set (calls @ [c])" "vd_member v = m"
        using ex verify(1,7) by (simp_all add: receive_explains_def)
      show ?thesis
        using mono started [OF verify(4)] v verify(6) unfolding verify(3) tk(2) receive_explains_def
        by (simp add: bm.get_insert [OF wf]) blast
    qed (use mono in simp)
  qed (use mono in simp)
  then show ?thesis by (simp add: st)
qed

lemma receives_run_snoc:
  "snd (receives.run sha256 (cs @ [c]) s) = snd (receiver_step sha256 c (snd (receives.run sha256 cs s)))"
  by (simp add: receives.run_append split_def Let_def del: receiver_step.simps)

lemma receiver_run_facts:
  assumes "receiver_new m inc = Inr s0"
  shows "receiver_inv (snd (receives.run sha256 calls s0)) \<and>
    receive_explains sha256 m calls (snd (receives.run sha256 calls s0))"
proof (induction calls rule: rev_induct)
  case Nil
  show ?case
    using assms by (auto simp: receiver_new_def receiver_inv_def receive_explains_def split: if_splits)
next
  case (snoc c calls)
  then show ?case
    using receiver_inv_step receive_explains_step unfolding receives_run_snoc by blast
qed

text \<open>
  after any calls at most eight receptions are pending, with tokens that differ, and a
  call that reports an error leaves the state exactly as it was.
\<close>

theorem receiver_errors_unchanged:
  "case receiver_new m inc of
     Inl e \<Rightarrow> inc = 0
   | Inr s0 \<Rightarrow>
       receiver_inv (snd (receives.run sha256 calls s0)) \<and>
       (case receiver_step sha256 c (snd (receives.run sha256 calls s0)) of
          (Inl e, s') \<Rightarrow> s' = snd (receives.run sha256 calls s0)
        | (Inr tr, s') \<Rightarrow> receiver_inv s')"
proof (cases "receiver_new m inc")
  case (Inl e)
  then show ?thesis by (simp add: receiver_new_def split: if_splits)
next
  case (Inr s0)
  let ?s = "snd (receives.run sha256 calls s0)"
  have inv: "receiver_inv ?s" using receiver_run_facts [OF Inr] by blast
  obtain r s' where st: "receiver_step sha256 c ?s = (r, s')" by fastforce
  have "receiver_inv s'" using receiver_inv_step [OF inv, of sha256 c] st by simp
  then show ?thesis
    using Inr inv st receiver_step_cases [OF inv st] by (cases r) auto
qed

text \<open>
  C33: a completed transfer alone is never a reception. An object is reported as received in two ways
  only, and only if its reception was started before: either the host answers the commit of exactly
  this object, and then a verified delivery of it to this member was handed in; or it answers the
  inspection of exactly this object with a receipt that its storage has committed already, and then
  the receiver itself has no proof of it. A commit that is accepted is always reported.
\<close>

theorem received_is_verified:
  assumes "receiver_new m inc = Inr s0"
    and "receiver_step sha256 c (snd (receives.run sha256 calls s0)) = (Inr tr, s')"
  shows "(\<forall>ob. rx_event tr = Some (Received ob) \<longrightarrow> Start_receive ob \<in> set calls \<and>
      ((\<exists>t. c = Committed_receive t ob \<and>
          (\<exists>t' v. Verified t' v \<in> set calls \<and> vd_object_id sha256 v = ob \<and> vd_member v = m)) \<or>
       (\<exists>t. c = Inspected t (Some ob)))) \<and>
    (\<forall>t ob. c = Committed_receive t ob \<longrightarrow> rx_event tr = Some (Received ob))"
proof -
  let ?s = "snd (receives.run sha256 calls s0)"
  have inv: "receiver_inv ?s" and ex: "receive_explains sha256 m calls ?s"
    using receiver_run_facts [OF assms(1)] by blast+
  have mv: "receiver_moves sha256 ?s c tr s'" using receiver_step_cases [OF inv assms(2)] by auto
  have "Start_receive ob \<in> set calls \<and>
      ((\<exists>t. c = Committed_receive t ob \<and>
          (\<exists>t' v. Verified t' v \<in> set calls \<and> vd_object_id sha256 v = ob \<and> vd_member v = m)) \<or>
       (\<exists>t. c = Inspected t (Some ob)))" if r: "rx_event tr = Some (Received ob)" for ob
    using mv
  proof cases
    case (finish ob' p ev)
    have "ev = Received ob" using finish(1) r by simp
    then have "bm_get (dr_pending ?s) ob = Some p"
      "c = Inspected (pr_token p) (Some ob) \<or> c = Committed_receive (pr_token p) ob \<and> pr_phase p = Committing_receive"
      using finish(3,5) by auto
    then show ?thesis using ex unfolding receive_explains_def by blast
  qed (use r in \<open>simp_all add: receive_default_def\<close>)
  moreover have "rx_event tr = Some (Received ob)" if "c = Committed_receive t ob" for t ob
    using assms(2) that by (auto simp: receiver_committed_def receiver_received_def split: sum.splits if_splits)
  ultimately show ?thesis by blast
qed

definition sample_receiver :: durable_receiver where
  "sample_receiver = \<lparr>dr_member = MemberId 4, dr_incarnation = 3, dr_next = 1, dr_pending = []\<rparr>"

definition receiving :: "u64 \<Rightarrow> u64 \<Rightarrow> receive_phase \<Rightarrow> durable_receiver" where
  "receiving n tok ph = sample_receiver\<lparr>dr_next := n,
     dr_pending := [(ObjectId 0, \<lparr>pr_token = ReceiveToken 3 tok, pr_phase = ph\<rparr>)]\<rparr>"

definition sample_delivery :: verified_delivery where
  "sample_delivery = \<lparr>vd_announcement = \<lparr>aa_manifest = \<lparr>mf_origin = MemberId 7, mf_sequence = 12,
       mf_namespace = Namespace (ascii ''field.v1''), mf_epoch = 1, mf_targets = [MemberId 4],
       mf_expires_at = 100, mf_hop_limit = 4, mf_content_len = 3, mf_hashes = [0]\<rparr>,
     aa_encoded = [], aa_scope = \<lparr>sc_group = 2, sc_epoch = 1\<rparr>, aa_roster_digest = 5\<rparr>,
   vd_member = MemberId 4, vd_signing_key = 1, vd_context_id = 2, vd_verified_at = 5, vd_deadline = 90,
   vd_plaintext = [1, 2, 3]\<rparr>"

definition sample_receives :: "receiver_call list" where
  "sample_receives = (([] @ [Start_receive (ObjectId 0)]) @ [Inspected (ReceiveToken 3 1) None]) @
     [Verified (ReceiveToken 3 2) sample_delivery]"

lemma sample_receive_run:
  "snd (receives.run (\<lambda>_. 0) sample_receives sample_receiver) = receiving 4 3 Committing_receive"
proof -
  have 1: "snd (receiver_step (\<lambda>_. 0) (Start_receive (ObjectId 0)) sample_receiver) = receiving 2 1 Inspecting"
    by (simp add: receiver_start_def bm_contains_def receiver_token_def checked_add_def receiving_def
        sample_receiver_def)
  have 2: "snd (receiver_step (\<lambda>_. 0) (Inspected (ReceiveToken 3 1) None) (receiving 2 1 Inspecting))
      = receiving 3 2 Verifying"
    by (simp add: receiver_inspected_def receiver_locate_def bm_find_def receiver_token_def checked_add_def
        receiving_def sample_receiver_def)
  have 3: "snd (receiver_step (\<lambda>_. 0) (Verified (ReceiveToken 3 2) sample_delivery) (receiving 3 2 Verifying))
      = receiving 4 3 Committing_receive"
    by (simp add: receiver_verified_def receiver_locate_def bm_find_def receiver_token_def checked_add_def
        receiving_def sample_receiver_def vd_object_id_def manifest_id_def sample_delivery_def)
  show ?thesis
    unfolding sample_receives_def receives_run_snoc by (simp add: 1 2 3 del: receiver_step.simps)
qed

theorem received_is_verified_witness:
  "\<exists>t v. Verified t v \<in> set sample_receives \<and> vd_object_id (\<lambda>_. 0) v = ObjectId 0 \<and> vd_member v = MemberId 4"
proof -
  have new: "receiver_new (MemberId 4) 3 = Inr sample_receiver"
    by (simp add: receiver_new_def sample_receiver_def)
  have "receiver_step (\<lambda>_. 0) (Committed_receive (ReceiveToken 3 3) (ObjectId 0))
      (snd (receives.run (\<lambda>_. 0) sample_receives sample_receiver)) =
    (Inr \<lparr>rx_effect = None, rx_event = Some (Received (ObjectId 0))\<rparr>, sample_receiver\<lparr>dr_next := 4\<rparr>)"
    unfolding sample_receive_run
    by (simp add: receiver_committed_def receiver_received_def receiver_locate_def bm_find_def
        receiving_def sample_receiver_def bm_remove_def)
  from received_is_verified [OF new this] show ?thesis by auto
qed

end
