(* ===== verification/Mesh_Roster.thy ===== *)
theory Mesh_Roster
  imports Mesh_Codec Mesh_Crypto "HOL-Library.Multiset"
begin

text \<open>
  The membership part of \<open>crates/mesh-protocol/src/lib.rs\<close>: signed records, certificates and
  \<open>VerifiedRoster\<close>. \<open>roster_verify_iff\<close> gives the exact set of inputs \<open>VerifiedRoster::verify\<close>
  accepts and the roster of each; the order of the certificates does not matter, and the
  digest that sessions and announcements compare determines the roster.
\<close>

section \<open>Helpers\<close>

definition auth_err :: "crypto_error \<Rightarrow> durable_error" where
  "auth_err e = AuthenticationFailed"

definition random_err :: "crypto_error \<Rightarrow> durable_error" where
  "random_err e = CryptoUnavailable"

definition check_version :: "u64 \<Rightarrow> durable_error + unit" where
  "check_version v = (if v \<noteq> 1 then Inl UnsupportedSchema else Inr ())"

definition check_time :: "u64 \<Rightarrow> durable_error + unit" where
  "check_time now = (if now > MAX_LOGICAL_TIME then Inl InvalidInput else Inr ())"

definition domain_hash :: "suite \<Rightarrow> bytes \<Rightarrow> bytes \<Rightarrow> arr32" where
  "domain_hash p label bs = hash p (label @ bs)"

definition delivery_key_id :: "suite \<Rightarrow> arr32 \<Rightarrow> arr32" where
  "delivery_key_id p public = domain_hash p (ascii ''MeshLab/DeliveryKeyId/v1'' @ [0]) (be_bytes public)"

definition signed_record :: "bytes \<Rightarrow> arr64 \<Rightarrow> bytes" where
  "signed_record body signature =
     (let w = [];
          w = w_array 2 w;
          w = w_bytes body w;
          w = w_bytes (be_bytes signature) w
      in w)"

definition signed_parts :: "bytes \<Rightarrow> nat \<Rightarrow> durable_error + bytes \<times> arr64" where
  "signed_parts bs limit =
     bindr (reader_new bs limit) (\<lambda>r.
     bindr (reader_array 2 r) (\<lambda>(_, r).
     bindr (reader_bytes limit r) (\<lambda>(body, r).
     bindr (reader_fixed r) (\<lambda>(sig, r).
     bindr (reader_end r) (\<lambda>_.
       Inr (body, sig))))))"

lemma check_version_Inr [res_simps]: "check_version v = Inr u \<longleftrightarrow> v = 1"
  by (simp add: check_version_def)

lemma check_time_Inr [res_simps]: "check_time now = Inr u \<longleftrightarrow> now \<le> MAX_LOGICAL_TIME"
  by (auto simp: check_time_def)

lemma signed_record_eq: "signed_record body sig = array_bytes 2 @ blob_bytes body @ fixed_bytes sig"
  by (simp add: signed_record_def w_simps fixed_bytes_def)

lemma length_blob: "length (blob_bytes b) \<le> 9 + length b" "length b < length (blob_bytes b)"
  using head_bytes_length [of 2 "of_nat (length b)"] by (simp_all add: blob_bytes_def)

lemma length_fixed64: "length (fixed_bytes (s :: arr64)) = 66"
  by (simp add: fixed_bytes_def blob_bytes_def head_bytes_def w_head_def)

lemma length_fixed16: "length (fixed_bytes (h :: arr16)) = 17"
  by (simp add: fixed_bytes_def blob_bytes_def head_bytes_def w_head_def)

lemma length_uint: "length (uint_bytes n) \<le> 9"
  by (simp add: uint_bytes_def head_bytes_length)

lemma length_array: "length (array_bytes n) \<le> 9"
  by (simp add: array_bytes_def head_bytes_length)

lemmas field_lengths = length_fixed64 length_fixed32 length_fixed16

lemma length_signed_record:
  "length body \<le> length (signed_record body sig)" "length (signed_record body sig) \<le> length body + 84"
  using length_blob [of body] length_array [of 2] by (simp_all add: signed_record_eq length_fixed64)

lemma signed_parts_iff:
  assumes "limit < 2 ^ 64"
  shows "signed_parts bs limit = Inr (body, sig) \<longleftrightarrow> length bs \<le> limit \<and> bs = signed_record body sig"
proof -
  have "signed_parts bs limit = Inr (body, sig) \<longleftrightarrow>
      length bs \<le> limit \<and> fits_limit limit body \<and> bs = signed_record body sig"
    unfolding signed_parts_def
    by (rule trans [OF decode_iff [OF _ assms]], (rule parses_rules field_reads)+)
      (auto simp: signed_record_eq)
  then show ?thesis
    using length_signed_record(1) [of body sig] assms by (auto simp: fits_limit_iff)
qed

section \<open>Certificates\<close>

record certificate_claims =
  ct_group :: arr32
  ct_member :: member_id
  ct_signing_key :: arr32
  ct_delivery_key :: arr32
  ct_valid_from :: u64
  ct_valid_until :: u64
  ct_epoch :: u64
  ct_serial :: u64

definition cert_body :: "suite \<Rightarrow> certificate_claims \<Rightarrow> arr32 \<Rightarrow> durable_error + bytes" where
  "cert_body p c authority =
     (if ct_epoch c = 0
         \<or> ct_epoch c > MAX_LOGICAL_TIME
         \<or> ct_serial c = 0
         \<or> ct_serial c > MAX_LOGICAL_TIME
         \<or> ct_valid_from c \<ge> ct_valid_until c
         \<or> ct_valid_until c > MAX_LOGICAL_TIME
      then Inl InvalidInput
      else
        let w = [];
            w = w_array 10 w;
            w = w_uint 1 w;
            w = w_bytes (be_bytes (ct_group c)) w;
            w = w_bytes (be_bytes (member_arr (ct_member c))) w;
            w = w_bytes (be_bytes (ct_signing_key c)) w;
            w = w_bytes (be_bytes (ct_delivery_key c)) w;
            w = w_uint (ct_valid_from c) w;
            w = w_uint (ct_valid_until c) w;
            w = w_uint (ct_epoch c) w;
            w = w_uint (ct_serial c) w;
            w = w_bytes (be_bytes (identity_key_id p authority)) w
        in Inr w)"

definition issue_certificate ::
    "suite \<Rightarrow> identity_signing_key \<Rightarrow> certificate_claims \<Rightarrow> durable_error + bytes" where
  "issue_certificate p authority claims =
     bindr (cert_body p claims (signing_public_key p authority)) (\<lambda>b.
     bindr (map_err auth_err (sign p authority \<lparr>sc_group = ct_group claims, sc_epoch = ct_epoch claims\<rparr> Certificate b)) (\<lambda>sig.
       Inr (signed_record b sig)))"

text \<open>The reads of \<open>VerifiedRoster::verify\<close>: the claims and the authority id of a certificate body.\<close>

definition read_claims :: "bytes \<Rightarrow> durable_error + certificate_claims \<times> arr32" where
  "read_claims body =
     bindr (reader_new body 900) (\<lambda>r.
     bindr (reader_array 10 r) (\<lambda>(_, r).
     bindr (reader_uint r) (\<lambda>(v, r).
     bindr (check_version v) (\<lambda>_.
     bindr (reader_fixed r) (\<lambda>(group, r).
     bindr (reader_fixed r) (\<lambda>(member, r).
     bindr (reader_fixed r) (\<lambda>(signing_key, r).
     bindr (reader_fixed r) (\<lambda>(delivery_key, r).
     bindr (reader_uint r) (\<lambda>(valid_from, r).
     bindr (reader_uint r) (\<lambda>(valid_until, r).
     bindr (reader_uint r) (\<lambda>(epoch, r).
     bindr (reader_uint r) (\<lambda>(serial, r).
     bindr (reader_fixed r) (\<lambda>(authority_id, r).
     bindr (reader_end r) (\<lambda>_.
       Inr (\<lparr>ct_group = group, ct_member = MemberId member, ct_signing_key = signing_key,
             ct_delivery_key = delivery_key, ct_valid_from = valid_from, ct_valid_until = valid_until,
             ct_epoch = epoch, ct_serial = serial\<rparr>, authority_id)))))))))))))))"

definition claims_bytes :: "certificate_claims \<Rightarrow> arr32 \<Rightarrow> bytes" where
  "claims_bytes c kid = array_bytes 10 @ uint_bytes 1 @ fixed_bytes (ct_group c) @
     fixed_bytes (member_arr (ct_member c)) @ fixed_bytes (ct_signing_key c) @
     fixed_bytes (ct_delivery_key c) @ uint_bytes (ct_valid_from c) @ uint_bytes (ct_valid_until c) @
     uint_bytes (ct_epoch c) @ uint_bytes (ct_serial c) @ fixed_bytes kid"

definition claims_ok :: "certificate_claims \<Rightarrow> bool" where
  "claims_ok c \<longleftrightarrow> 0 < ct_epoch c \<and> ct_epoch c \<le> MAX_LOGICAL_TIME \<and> 0 < ct_serial c \<and>
     ct_serial c \<le> MAX_LOGICAL_TIME \<and> ct_valid_from c < ct_valid_until c \<and> ct_valid_until c \<le> MAX_LOGICAL_TIME"

lemma cert_body_Inr:
  "cert_body p c authority = Inr b \<longleftrightarrow> claims_ok c \<and> b = claims_bytes c (identity_key_id p authority)"
  by (auto simp: cert_body_def claims_ok_def claims_bytes_def Let_def w_simps fixed_bytes_def not_le not_less word_gt_0)

lemma read_claims_raw:
  "read_claims body = Inr (c, kid) \<longleftrightarrow> length body \<le> 900 \<and> body = claims_bytes c kid"
  unfolding read_claims_def
  apply (rule trans [OF decode_iff])
    apply (rule parses_rules field_reads)+
   apply simp
  apply (cases c, cases "ct_member c")
  apply (simp add: res_simps claims_bytes_def)
  done

lemma length_claims_bytes: "length (claims_bytes c kid) \<le> 300"
  using length_uint [of "ct_valid_from c"] length_uint [of "ct_valid_until c"] length_uint [of "ct_epoch c"]
    length_uint [of "ct_serial c"] length_uint [of 1] length_array [of 10]
  by (simp add: claims_bytes_def length_fixed32)

lemma read_claims_iff: "read_claims body = Inr (c, kid) \<longleftrightarrow> body = claims_bytes c kid"
  using length_claims_bytes [of c kid] by (auto simp: read_claims_raw)

section \<open>Verified rosters\<close>

record verified_roster =
  vr_scope :: scope
  vr_members :: "(member_id, certificate_claims) bmap"
  vr_digest :: arr32
  vr_valid_from :: u64
  vr_valid_until :: u64

text \<open>The variables of the loop of \<open>VerifiedRoster::verify\<close>.\<close>

record roster_build =
  rb_members :: "(member_id, certificate_claims) bmap"
  rb_keys :: "arr32 set"
  rb_delivery_keys :: "arr32 set"
  rb_serials :: "u64 set"
  rb_canonical :: "(member_id, bytes) bmap"
  rb_valid_from :: u64
  rb_valid_until :: u64

definition roster_step ::
    "suite \<Rightarrow> arr32 \<Rightarrow> scope \<Rightarrow> u64 list \<Rightarrow> u64 \<Rightarrow> bytes \<Rightarrow> roster_build \<Rightarrow> durable_error + roster_build" where
  "roster_step p authority scope revoked now encoded b =
     bindr (signed_parts encoded 1024) (\<lambda>(body, sig).
     bindr (read_claims body) (\<lambda>(c, authority_id).
       if authority_id \<noteq> identity_key_id p authority
          \<or> ct_group c \<noteq> sc_group scope
          \<or> ct_epoch c \<noteq> sc_epoch scope
          \<or> ct_serial c \<in> set revoked
          \<or> now < ct_valid_from c
          \<or> now \<ge> ct_valid_until c
       then Inl AuthenticationFailed
       else
         bindr (cert_body p c authority) (\<lambda>canonical.
           if canonical \<noteq> body then Inl AuthenticationFailed
           else
             bindr (map_err auth_err (verify p authority scope Certificate body sig)) (\<lambda>_.
               if ct_signing_key c \<in> rb_keys b
                  \<or> ct_delivery_key c \<in> rb_delivery_keys b
                  \<or> ct_serial c \<in> rb_serials b
                  \<or> bm_contains (rb_members b) (ct_member c)
               then Inl Conflict
               else Inr \<lparr>rb_members = bm_insert (ct_member c) c (rb_members b),
                         rb_keys = insert (ct_signing_key c) (rb_keys b),
                         rb_delivery_keys = insert (ct_delivery_key c) (rb_delivery_keys b),
                         rb_serials = insert (ct_serial c) (rb_serials b),
                         rb_canonical = bm_insert (ct_member c) encoded (rb_canonical b),
                         rb_valid_from = max (rb_valid_from b) (ct_valid_from c),
                         rb_valid_until = min (rb_valid_until b) (ct_valid_until c)\<rparr>))))"

primrec roster_loop ::
    "suite \<Rightarrow> arr32 \<Rightarrow> scope \<Rightarrow> u64 list \<Rightarrow> u64 \<Rightarrow> bytes list \<Rightarrow> roster_build \<Rightarrow> durable_error + roster_build" where
  "roster_loop p authority scope revoked now [] b = Inr b"
| "roster_loop p authority scope revoked now (encoded # certificates) b =
     bindr (roster_step p authority scope revoked now encoded b) (\<lambda>b.
       roster_loop p authority scope revoked now certificates b)"

definition roster_verify ::
    "suite \<Rightarrow> arr32 \<Rightarrow> scope \<Rightarrow> bytes list \<Rightarrow> u64 list \<Rightarrow> u64 \<Rightarrow> durable_error + verified_roster" where
  "roster_verify p authority scope certificates revoked_serials now =
     bindr (check_time now) (\<lambda>_.
       if sc_epoch scope = 0
          \<or> sc_epoch scope > MAX_LOGICAL_TIME
          \<or> certificates = []
          \<or> length certificates > MAX_GROUP_MEMBERS
          \<or> length revoked_serials > 1024
       then Inl InvalidInput
       else
         let revoked = bset_of revoked_serials in
         bindr (roster_loop p authority scope revoked now certificates
             \<lparr>rb_members = [], rb_keys = {}, rb_delivery_keys = {}, rb_serials = {}, rb_canonical = [],
              rb_valid_from = 0, rb_valid_until = MAX_LOGICAL_TIME\<rparr>) (\<lambda>b.
           let w = [];
               w = w_array 5 w;
               w = w_bytes (be_bytes authority) w;
               w = w_bytes (be_bytes (sc_group scope)) w;
               w = w_uint (sc_epoch scope) w;
               w = w_array (length (rb_canonical b)) w;
               w = fold w_bytes (map snd (rb_canonical b)) w;
               w = w_array (length revoked) w;
               w = fold w_uint revoked w
           in Inr \<lparr>vr_scope = scope, vr_members = rb_members b,
                   vr_digest = domain_hash p (ascii ''MeshLab/Roster/v1'' @ [0]) w,
                   vr_valid_from = rb_valid_from b, vr_valid_until = rb_valid_until b\<rparr>))"

definition validate_at :: "verified_roster \<Rightarrow> u64 \<Rightarrow> durable_error + unit" where
  "validate_at roster now =
     bindr (check_time now) (\<lambda>_.
       if now < vr_valid_from roster \<or> now \<ge> vr_valid_until roster then Inl AuthenticationFailed else Inr ())"

definition roster_member :: "verified_roster \<Rightarrow> member_id \<Rightarrow> durable_error + certificate_claims" where
  "roster_member roster m = ok_or AuthenticationFailed (bm_get (vr_members roster) m)"

definition signing_key :: "verified_roster \<Rightarrow> member_id \<Rightarrow> durable_error + arr32" where
  "signing_key roster m = bindr (roster_member roster m) (\<lambda>c. Inr (ct_signing_key c))"

definition contains_member :: "verified_roster \<Rightarrow> member_id \<Rightarrow> bool" where
  "contains_member roster m = bm_contains (vr_members roster) m"

definition member_claims :: "verified_roster \<Rightarrow> certificate_claims list" where
  "member_claims roster = map snd (vr_members roster)"

definition roster_recipient :: "suite \<Rightarrow> verified_roster \<Rightarrow> member_id \<Rightarrow> durable_error + recipient" where
  "roster_recipient p roster m =
     bindr (roster_member roster m) (\<lambda>c.
       Inr \<lparr>rp_member = member_arr m, rp_delivery_key_id = delivery_key_id p (ct_delivery_key c),
            rp_public_key = ct_delivery_key c\<rparr>)"

section \<open>What verification accepts\<close>

text \<open>The claims of a certificate, and the checks that concern it alone.\<close>

definition claims_of :: "bytes \<Rightarrow> certificate_claims" where
  "claims_of encoded = fst (projr (read_claims (fst (projr (signed_parts encoded 1024)))))"

definition certificate_ok :: "suite \<Rightarrow> arr32 \<Rightarrow> scope \<Rightarrow> u64 set \<Rightarrow> u64 \<Rightarrow> bytes \<Rightarrow> bool" where
  "certificate_ok p authority scope revoked now encoded \<longleftrightarrow>
     (let c = claims_of encoded; body = claims_bytes c (identity_key_id p authority) in
        claims_ok c \<and> ct_group c = sc_group scope \<and> ct_epoch c = sc_epoch scope \<and>
        ct_serial c \<notin> revoked \<and> ct_valid_from c \<le> now \<and> now < ct_valid_until c \<and>
        (\<exists>sig. encoded = signed_record body sig \<and> verify p authority scope Certificate body sig = Inr ()))"

lemma signed_claims_parts:
  "signed_parts encoded 1024 = Inr (claims_bytes c kid, sig) \<longleftrightarrow> encoded = signed_record (claims_bytes c kid) sig"
  using length_signed_record(2) [of "claims_bytes c kid" sig] length_claims_bytes [of c kid]
  by (auto simp: signed_parts_iff)

lemma claims_of_signed [simp]: "claims_of (signed_record (claims_bytes c kid) sig) = c"
proof -
  have "read_claims (claims_bytes c kid) = Inr (c, kid)" by (simp add: read_claims_iff)
  moreover have "signed_parts (signed_record (claims_bytes c kid) sig) 1024 = Inr (claims_bytes c kid, sig)"
    by (simp add: signed_claims_parts)
  ultimately show ?thesis by (simp add: claims_of_def)
qed

definition add_member :: "bytes \<Rightarrow> roster_build \<Rightarrow> roster_build" where
  "add_member encoded b =
     (let c = claims_of encoded in
      \<lparr>rb_members = bm_insert (ct_member c) c (rb_members b),
       rb_keys = insert (ct_signing_key c) (rb_keys b),
       rb_delivery_keys = insert (ct_delivery_key c) (rb_delivery_keys b),
       rb_serials = insert (ct_serial c) (rb_serials b),
       rb_canonical = bm_insert (ct_member c) encoded (rb_canonical b),
       rb_valid_from = max (rb_valid_from b) (ct_valid_from c),
       rb_valid_until = min (rb_valid_until b) (ct_valid_until c)\<rparr>)"

definition fresh_in :: "bytes \<Rightarrow> roster_build \<Rightarrow> bool" where
  "fresh_in encoded b \<longleftrightarrow> (let c = claims_of encoded in
     ct_signing_key c \<notin> rb_keys b \<and> ct_delivery_key c \<notin> rb_delivery_keys b \<and>
     ct_serial c \<notin> rb_serials b \<and> ct_member c \<notin> dom (bm_get (rb_members b)))"

lemma roster_step_iff:
  "roster_step p authority scope revoked now e b = Inr b' \<longleftrightarrow>
     certificate_ok p authority scope (set revoked) now e \<and> fresh_in e b \<and> b' = add_member e b"
proof
  assume step: "roster_step p authority scope revoked now e b = Inr b'"
  then obtain body sig c kid where parts: "signed_parts e 1024 = Inr (body, sig)" "read_claims body = Inr (c, kid)"
    by (auto simp: roster_step_def res_simps)
  then have e: "e = signed_record (claims_bytes c kid) sig" and body: "body = claims_bytes c kid"
    by (auto simp: read_claims_iff signed_claims_parts)
  have g: "kid = identity_key_id p authority" "ct_group c = sc_group scope" "ct_epoch c = sc_epoch scope"
      "ct_serial c \<notin> set revoked" "ct_valid_from c \<le> now" "now < ct_valid_until c" "claims_ok c"
      "verify p authority scope Certificate body sig = Inr ()"
      "ct_signing_key c \<notin> rb_keys b" "ct_delivery_key c \<notin> rb_delivery_keys b"
      "ct_serial c \<notin> rb_serials b" "bm_get (rb_members b) (ct_member c) = None"
    using step parts
    by (simp_all add: roster_step_def res_simps cert_body_Inr not_le not_less bm_contains_def split: if_splits)
  have c: "claims_of e = c" by (simp add: e)
  have "certificate_ok p authority scope (set revoked) now e"
    unfolding certificate_ok_def c Let_def using g e by (auto simp: body)
  moreover have "fresh_in e b" using g by (simp add: fresh_in_def c Let_def domIff)
  moreover have "b' = add_member e b"
    using step parts unfolding add_member_def c
    by (simp add: roster_step_def res_simps Let_def split: if_splits)
  ultimately show "certificate_ok p authority scope (set revoked) now e \<and> fresh_in e b \<and> b' = add_member e b"
    by blast
next
  assume a: "certificate_ok p authority scope (set revoked) now e \<and> fresh_in e b \<and> b' = add_member e b"
  define c where "c = claims_of e"
  obtain sig where e: "e = signed_record (claims_bytes c (identity_key_id p authority)) sig"
    and v: "verify p authority scope Certificate (claims_bytes c (identity_key_id p authority)) sig = Inr ()"
    and g: "claims_ok c" "ct_group c = sc_group scope" "ct_epoch c = sc_epoch scope"
      "ct_serial c \<notin> set revoked" "ct_valid_from c \<le> now" "now < ct_valid_until c"
    using a unfolding certificate_ok_def Let_def c_def by blast
  have parts: "signed_parts e 1024 = Inr (claims_bytes c (identity_key_id p authority), sig)"
    using e by (simp add: signed_claims_parts)
  have rd: "read_claims (claims_bytes c (identity_key_id p authority)) = Inr (c, identity_key_id p authority)"
    by (simp add: read_claims_iff)
  have cb: "cert_body p c authority = Inr (claims_bytes c (identity_key_id p authority))"
    using g by (simp add: cert_body_Inr)
  have fresh: "ct_signing_key c \<notin> rb_keys b" "ct_delivery_key c \<notin> rb_delivery_keys b"
      "ct_serial c \<notin> rb_serials b" "\<not> bm_contains (rb_members b) (ct_member c)"
    using a by (auto simp: fresh_in_def Let_def c_def bm_contains_iff)
  have b': "b' = add_member e b" using a by simp
  show "roster_step p authority scope revoked now e b = Inr b'"
    unfolding roster_step_def parts using g fresh v
    by (simp add: rd cb not_le not_less b' add_member_def Let_def flip: c_def)
qed

definition no_duplicates :: "bytes list \<Rightarrow> bool" where
  "no_duplicates es \<longleftrightarrow>
     distinct (map (\<lambda>e. ct_signing_key (claims_of e)) es) \<and> distinct (map (\<lambda>e. ct_delivery_key (claims_of e)) es) \<and>
     distinct (map (\<lambda>e. ct_serial (claims_of e)) es) \<and> distinct (map (\<lambda>e. ct_member (claims_of e)) es)"

lemma fresh_in_add:
  "fresh_in x (add_member e b) \<longleftrightarrow> fresh_in x b \<and>
     ct_signing_key (claims_of e) \<noteq> ct_signing_key (claims_of x) \<and>
     ct_delivery_key (claims_of e) \<noteq> ct_delivery_key (claims_of x) \<and>
     ct_serial (claims_of e) \<noteq> ct_serial (claims_of x) \<and> ct_member (claims_of e) \<noteq> ct_member (claims_of x)"
  by (auto simp: fresh_in_def add_member_def Let_def bm_get_insert)

lemma no_duplicates_Cons:
  "no_duplicates (e # es) \<and> (\<forall>x \<in> set (e # es). fresh_in x b) \<longleftrightarrow>
     fresh_in e b \<and> no_duplicates es \<and> (\<forall>x \<in> set es. fresh_in x (add_member e b))"
  by (auto simp: no_duplicates_def fresh_in_add image_iff)

lemma roster_loop_iff:
  "roster_loop p authority scope revoked now es b = Inr b' \<longleftrightarrow>
     list_all (certificate_ok p authority scope (set revoked) now) es \<and>
     (no_duplicates es \<and> (\<forall>x \<in> set es. fresh_in x b)) \<and> b' = fold add_member es b"
proof (induction es arbitrary: b)
  case (Cons e es)
  show ?case
    unfolding no_duplicates_Cons by (auto simp: res_simps roster_step_iff Cons.IH)
qed (auto simp: no_duplicates_def)

lemma fold_add_members:
  assumes "bm_wf (rb_members b)" and "bm_wf (rb_canonical b)" and "no_duplicates es"
  shows "bm_wf (rb_members (fold add_member es b)) \<and> bm_wf (rb_canonical (fold add_member es b)) \<and>
    (\<forall>e \<in> set es. bm_get (rb_members (fold add_member es b)) (ct_member (claims_of e)) = Some (claims_of e) \<and>
       bm_get (rb_canonical (fold add_member es b)) (ct_member (claims_of e)) = Some e) \<and>
    (\<forall>m. m \<notin> (\<lambda>e. ct_member (claims_of e)) ` set es \<longrightarrow>
       bm_get (rb_members (fold add_member es b)) m = bm_get (rb_members b) m \<and>
       bm_get (rb_canonical (fold add_member es b)) m = bm_get (rb_canonical b) m)"
  using assms
proof (induction es arbitrary: b)
  case (Cons e es)
  have b: "bm_wf (rb_members (add_member e b))" "bm_wf (rb_canonical (add_member e b))"
    using Cons.prems by (simp_all add: add_member_def Let_def bm_wf_insert)
  have d: "no_duplicates es" "ct_member (claims_of e) \<notin> (\<lambda>e. ct_member (claims_of e)) ` set es"
    using Cons.prems(3) by (auto simp: no_duplicates_def)
  have g: "bm_get (rb_members (add_member e b)) m =
      (if m = ct_member (claims_of e) then Some (claims_of e) else bm_get (rb_members b) m)"
    "bm_get (rb_canonical (add_member e b)) m =
      (if m = ct_member (claims_of e) then Some e else bm_get (rb_canonical b) m)" for m
    by (simp_all add: add_member_def Let_def bm_get_insert)
  show ?case using Cons.IH [OF b d(1)] d(2) g by auto
qed auto

lemma fold_add_validity:
  "rb_valid_from (fold add_member es b) = fold max (map (\<lambda>e. ct_valid_from (claims_of e)) es) (rb_valid_from b)"
  "rb_valid_until (fold add_member es b) = fold min (map (\<lambda>e. ct_valid_until (claims_of e)) es) (rb_valid_until b)"
  by (induction es arbitrary: b) (simp_all add: add_member_def Let_def max.commute min.commute)

definition empty_build :: roster_build where
  "empty_build = \<lparr>rb_members = [], rb_keys = {}, rb_delivery_keys = {}, rb_serials = {}, rb_canonical = [],
     rb_valid_from = 0, rb_valid_until = MAX_LOGICAL_TIME\<rparr>"

lemma fresh_in_empty [simp]: "fresh_in e empty_build"
  by (simp add: fresh_in_def empty_build_def Let_def)

lemmas built_members = fold_add_members [of empty_build, unfolded empty_build_def, simplified, folded empty_build_def]

definition digest_input :: "arr32 \<Rightarrow> scope \<Rightarrow> bytes list \<Rightarrow> u64 list \<Rightarrow> bytes" where
  "digest_input authority scope certs revoked =
     array_bytes 5 @ fixed_bytes authority @ fixed_bytes (sc_group scope) @ uint_bytes (sc_epoch scope) @
     array_bytes (length certs) @ concat (map blob_bytes certs) @
     array_bytes (length revoked) @ concat (map uint_bytes revoked)"

definition roster_of :: "suite \<Rightarrow> arr32 \<Rightarrow> scope \<Rightarrow> bytes list \<Rightarrow> u64 list \<Rightarrow> verified_roster" where
  "roster_of p authority scope es revoked =
     (let b = fold add_member es empty_build in
      \<lparr>vr_scope = scope, vr_members = rb_members b,
       vr_digest = domain_hash p (ascii ''MeshLab/Roster/v1'' @ [0])
         (digest_input authority scope (map snd (rb_canonical b)) revoked),
       vr_valid_from = rb_valid_from b, vr_valid_until = rb_valid_until b\<rparr>)"

lemma fold_w_append: "(\<And>x out. f x out = out @ g x) \<Longrightarrow> fold f xs out = out @ concat (map g xs)"
  by (induction xs arbitrary: out) simp_all

definition roster_inputs_ok :: "suite \<Rightarrow> arr32 \<Rightarrow> scope \<Rightarrow> bytes list \<Rightarrow> u64 list \<Rightarrow> u64 \<Rightarrow> bool" where
  "roster_inputs_ok p authority scope es revoked now \<longleftrightarrow>
     now \<le> MAX_LOGICAL_TIME \<and> 0 < sc_epoch scope \<and> sc_epoch scope \<le> MAX_LOGICAL_TIME \<and> es \<noteq> [] \<and>
     length es \<le> MAX_GROUP_MEMBERS \<and> length revoked \<le> 1024 \<and>
     list_all (certificate_ok p authority scope (set revoked) now) es \<and> no_duplicates es"

lemma roster_verify_iff:
  "roster_verify p authority scope es revoked now = Inr r \<longleftrightarrow>
     roster_inputs_ok p authority scope es revoked now \<and> r = roster_of p authority scope es (bset_of revoked)"
proof -
  have w: "fold w_bytes xs out = out @ concat (map blob_bytes xs)"
    "fold w_uint ys out = out @ concat (map uint_bytes ys)" for xs ys out
    by (rule fold_w_append, simp add: w_simps)+
  show ?thesis
    unfolding roster_verify_def Let_def empty_build_def [symmetric]
    by (auto simp: res_simps roster_loop_iff roster_inputs_ok_def roster_of_def Let_def digest_input_def w_simps w
        fixed_bytes_def not_le not_less word_gt_0)
qed

section \<open>The digest\<close>

lemma certificate_length:
  assumes "certificate_ok p authority scope revoked now e"
  shows "length e \<le> 1024"
proof -
  obtain sig where "e = signed_record (claims_bytes (claims_of e) (identity_key_id p authority)) sig"
    using assms unfolding certificate_ok_def Let_def by blast
  then have "length e \<le> length (claims_bytes (claims_of e) (identity_key_id p authority)) + 84"
    by (metis length_signed_record(2))
  then show ?thesis using length_claims_bytes [of "claims_of e" "identity_key_id p authority"] by simp
qed

lemma length_digest_input:
  assumes "list_all (\<lambda>e. length e \<le> 1024) es" and "length es \<le> 50" and "length rv \<le> 1024"
  shows "length (digest_input a sc es rv) \<le> 65536"
proof -
  have "length (blob_bytes e) \<le> 1033" if "e \<in> set es" for e
    using length_blob(1) [of e] assms(1) that by (force simp: list_all_iff)
  then have "length (concat (map blob_bytes es)) \<le> 1033 * length es" by (rule length_concat_le)
  moreover have "length (concat (map uint_bytes rv)) \<le> 9 * length rv"
    by (rule length_concat_le) (rule length_uint)
  ultimately show ?thesis
    using assms(2,3) length_uint [of "sc_epoch sc"] length_array [of 5] length_array [of "length es"]
      length_array [of "length rv"]
    by (simp add: digest_input_def length_fixed32)
qed

lemma digest_input_inject:
  assumes eq: "digest_input a sc es rv = digest_input a' sc' es' rv'"
    and es: "list_all (\<lambda>e. length e \<le> 1024) es" "length es \<le> 50" "length rv \<le> 1024"
    and es': "list_all (\<lambda>e. length e \<le> 1024) es'" "length es' \<le> 50" "length rv' \<le> 1024"
  shows "a = a' \<and> sc = sc' \<and> es = es' \<and> rv = rv'"
proof -
  have L: "length (digest_input a sc es rv) < 2 ^ 64" using length_digest_input [OF es, of a sc] by simp
  note D = digest_input_def
  have 1: "a = a' \<and> fixed_bytes (sc_group sc) @ uint_bytes (sc_epoch sc) @ array_bytes (length es) @
      concat (map blob_bytes es) @ array_bytes (length rv) @ concat (map uint_bytes rv) =
    fixed_bytes (sc_group sc') @ uint_bytes (sc_epoch sc') @ array_bytes (length es') @
      concat (map blob_bytes es') @ array_bytes (length rv') @ concat (map uint_bytes rv')"
    by (rule wfixed32.prefix_free) (use eq L in \<open>simp_all add: D\<close>)
  have 2: "sc_group sc = sc_group sc' \<and> uint_bytes (sc_epoch sc) @ array_bytes (length es) @
      concat (map blob_bytes es) @ array_bytes (length rv) @ concat (map uint_bytes rv) =
    uint_bytes (sc_epoch sc') @ array_bytes (length es') @
      concat (map blob_bytes es') @ array_bytes (length rv') @ concat (map uint_bytes rv')"
    by (rule wfixed32.prefix_free) (use 1 L in \<open>simp_all add: D\<close>)
  have 3: "sc_epoch sc = sc_epoch sc' \<and> array_bytes (length es) @
      concat (map blob_bytes es) @ array_bytes (length rv) @ concat (map uint_bytes rv) =
    array_bytes (length es') @
      concat (map blob_bytes es') @ array_bytes (length rv') @ concat (map uint_bytes rv')"
    by (rule wuint.prefix_free) (use 2 L in \<open>simp_all add: D\<close>)
  have 4: "length es = length es' \<and> concat (map blob_bytes es) @ array_bytes (length rv) @ concat (map uint_bytes rv) =
      concat (map blob_bytes es') @ array_bytes (length rv') @ concat (map uint_bytes rv')"
    by (rule wcount.prefix_free) (use 3 L es es' in \<open>simp_all add: D\<close>)
  have 5: "es = es' \<and> array_bytes (length rv) @ concat (map uint_bytes rv) =
      array_bytes (length rv') @ concat (map uint_bytes rv')"
    by (rule wbytes.prefix_free_list [where limit = 1024])
      (use 4 L es es' in \<open>simp_all add: D fits_limit_iff list_all_iff\<close>)
  have 6: "length rv = length rv' \<and> concat (map uint_bytes rv) = concat (map uint_bytes rv')"
    by (rule wcount.prefix_free) (use 5 L es es' in \<open>simp_all add: D\<close>)
  have "rv = rv' \<and> [] = ([] :: bytes)"
    by (rule wuint.prefix_free_list) (use 6 L in \<open>simp_all add: D list_all_iff\<close>)
  then show ?thesis using 1 2 3 5 by (auto intro: scope.equality)
qed

section \<open>Properties\<close>

lemma built_canonical:
  assumes "no_duplicates es"
  shows "set (map snd (rb_canonical (fold add_member es empty_build))) = set es"
    and "length (rb_canonical (fold add_member es empty_build)) = length es"
    and "length (rb_members (fold add_member es empty_build)) = length es"
proof -
  let ?b = "fold add_member es empty_build" and ?m = "\<lambda>e. ct_member (claims_of e)"
  note b = built_members [OF assms]
  have get: "bm_get (rb_canonical ?b) m = Some e \<longleftrightarrow> e \<in> set es \<and> ?m e = m" for m e
    using b by (cases "m \<in> ?m ` set es") auto
  have dom: "dom (bm_get (rb_canonical ?b)) = ?m ` set es" "dom (bm_get (rb_members ?b)) = ?m ` set es"
    using b by (auto simp: dom_def)
  have "e \<in> set (map snd (rb_canonical ?b)) \<longleftrightarrow> (\<exists>m. (m, e) \<in> set (rb_canonical ?b))" for e
    by force
  then show "set (map snd (rb_canonical ?b)) = set es"
    using b bm.in_entries_iff [of "rb_canonical ?b"] get by blast
  have "distinct (map ?m es)" using assms by (simp add: no_duplicates_def)
  then have "card (?m ` set es) = length es" by (metis distinct_card length_map list.set_map)
  then show "length (rb_canonical ?b) = length es" "length (rb_members ?b) = length es"
    using b bm.size_card [of "rb_canonical ?b"] bm.size_card [of "rb_members ?b"] dom by simp_all
qed

lemma no_duplicates_distinct: "no_duplicates es \<Longrightarrow> distinct es"
  by (auto simp: no_duplicates_def distinct_map)

lemma distinct_map_perm: "mset es = mset es' \<Longrightarrow> distinct (map f es) \<longleftrightarrow> distinct (map f es')"
  by (rule mset_eq_imp_distinct_iff) (simp add: mset_map)

lemma no_duplicates_perm: "mset es = mset es' \<Longrightarrow> no_duplicates es \<longleftrightarrow> no_duplicates es'"
  unfolding no_duplicates_def by (simp only: distinct_map_perm [of es es'])

lemma fold_max_perm: "mset xs = mset ys \<Longrightarrow> fold max xs a = fold max ys (a :: 'a::linorder)"
  and fold_min_perm: "mset xs = mset ys \<Longrightarrow> fold min xs a = fold min ys (a :: 'a::linorder)"
  by (metis Max.set_eq_fold list.simps(15) set_mset_mset, metis Min.set_eq_fold list.simps(15) set_mset_mset)

lemma roster_of_perm:
  assumes "mset es = mset es'" and "no_duplicates es"
  shows "roster_of p authority scope es rv = roster_of p authority scope es' rv"
proof -
  let ?m = "\<lambda>e. ct_member (claims_of e)"
  have nd: "no_duplicates es'" using assms no_duplicates_perm by blast
  have st: "set es = set es'" using assms(1) by (metis set_mset_mset)
  note b = built_members [OF assms(2)] and b' = built_members [OF nd]
  have get: "bm_get (rb_members (fold add_member es empty_build)) m = bm_get (rb_members (fold add_member es' empty_build)) m"
    "bm_get (rb_canonical (fold add_member es empty_build)) m = bm_get (rb_canonical (fold add_member es' empty_build)) m" for m
    using b b' st by (cases "m \<in> ?m ` set es"; auto)+
  have "rb_members (fold add_member es empty_build) = rb_members (fold add_member es' empty_build)"
    "rb_canonical (fold add_member es empty_build) = rb_canonical (fold add_member es' empty_build)"
    using b b' get by (auto intro!: bm.map_ext)
  then show ?thesis
    using assms(1) by (simp add: roster_of_def Let_def fold_add_validity)
      (metis (no_types, lifting) fold_max_perm fold_min_perm mset_map)
qed

lemma fold_max_le: "fold max xs a \<le> n \<longleftrightarrow> a \<le> n \<and> (\<forall>x \<in> set xs. x \<le> (n :: 'a::linorder))"
  and less_fold_min: "n < fold min xs a \<longleftrightarrow> n < a \<and> (\<forall>x \<in> set xs. n < x)"
  by (induction xs arbitrary: a) auto

lemma distinct_inj_image: "distinct (map (\<lambda>x. f (g x)) xs) \<Longrightarrow> inj_on f (g ` set xs)"
  by (rule inj_on_imageI) (simp add: distinct_map comp_def)

lemma roster_sound:
  assumes "roster_verify p authority scope es revoked now = Inr r"
  shows "vr_scope r = scope \<and> validate_at r now = Inr () \<and> length (vr_members r) = length es \<and>
    (\<forall>m c. roster_member r m = Inr c \<longleftrightarrow> (\<exists>e \<in> set es. claims_of e = c \<and> ct_member c = m)) \<and>
    (\<forall>e \<in> set es. certificate_ok p authority scope (set revoked) now e \<and>
       ct_valid_from (claims_of e) \<le> vr_valid_from r \<and> vr_valid_until r \<le> ct_valid_until (claims_of e)) \<and>
    inj_on ct_signing_key (set (member_claims r)) \<and> inj_on ct_delivery_key (set (member_claims r))"
proof -
  let ?b = "fold add_member es empty_build" and ?m = "\<lambda>e. ct_member (claims_of e)"
  have ok: "\<forall>e \<in> set es. certificate_ok p authority scope (set revoked) now e" "no_duplicates es" "es \<noteq> []"
      "now \<le> MAX_LOGICAL_TIME" and r: "r = roster_of p authority scope es (bset_of revoked)"
    using assms by (auto simp: roster_verify_iff roster_inputs_ok_def list_all_iff)
  note b = built_members [OF ok(2)]
  have mem: "vr_members r = rb_members ?b" by (simp add: r roster_of_def Let_def)
  have valid: "ct_valid_from (claims_of e) \<le> now" "now < ct_valid_until (claims_of e)"
      "ct_valid_until (claims_of e) \<le> MAX_LOGICAL_TIME" if "e \<in> set es" for e
    using ok(1) that by (auto simp: certificate_ok_def claims_ok_def Let_def)
  have bounds: "vr_valid_from r \<le> n \<longleftrightarrow> (\<forall>e \<in> set es. ct_valid_from (claims_of e) \<le> n)"
    "n < vr_valid_until r \<longleftrightarrow> n < MAX_LOGICAL_TIME \<and> (\<forall>e \<in> set es. n < ct_valid_until (claims_of e))" for n
    by (simp_all add: r roster_of_def Let_def fold_add_validity fold_max_le less_fold_min empty_build_def)
  have get: "bm_get (vr_members r) m = Some c \<longleftrightarrow> (\<exists>e \<in> set es. claims_of e = c \<and> ct_member c = m)" for m c
    using b by (cases "m \<in> ?m ` set es") (auto simp: mem)
  have claims: "set (member_claims r) = claims_of ` set es"
  proof -
    have wf: "bm_wf (vr_members r)" using b by (simp add: mem)
    have "c \<in> set (member_claims r) \<longleftrightarrow> (\<exists>m. (m, c) \<in> set (vr_members r))" for c
      unfolding member_claims_def by force
    then have "c \<in> set (member_claims r) \<longleftrightarrow> (\<exists>m. bm_get (vr_members r) m = Some c)" for c
      by (simp add: bm.in_entries_iff [OF wf])
    then show ?thesis using get by auto
  qed
  obtain e0 where "e0 \<in> set es" using ok(3) by (cases es) auto
  then have "now < MAX_LOGICAL_TIME" using valid [of e0] by (meson less_le_trans)
  then have now: "validate_at r now = Inr ()"
    using bounds [of now] valid ok(4) by (simp add: validate_at_def check_time_def not_le not_less)
  have spans: "\<forall>e \<in> set es. certificate_ok p authority scope (set revoked) now e \<and>
      ct_valid_from (claims_of e) \<le> vr_valid_from r \<and> vr_valid_until r \<le> ct_valid_until (claims_of e)"
  proof
    fix e assume "e \<in> set es"
    then show "certificate_ok p authority scope (set revoked) now e \<and>
        ct_valid_from (claims_of e) \<le> vr_valid_from r \<and> vr_valid_until r \<le> ct_valid_until (claims_of e)"
      using ok(1) bounds(1) [of "vr_valid_from r"] bounds(2) [of "ct_valid_until (claims_of e)"] by auto
  qed
  have inj: "inj_on ct_signing_key (set (member_claims r))" "inj_on ct_delivery_key (set (member_claims r))"
    using ok(2) unfolding claims no_duplicates_def by (simp_all add: distinct_inj_image)
  have shape: "vr_scope r = scope" "length (vr_members r) = length es"
    using built_canonical(3) [OF ok(2)] by (simp_all add: mem) (simp add: r roster_of_def Let_def)
  have member: "\<forall>m c. roster_member r m = Inr c \<longleftrightarrow> (\<exists>e \<in> set es. claims_of e = c \<and> ct_member c = m)"
    using get by (simp add: roster_member_def res_simps)
  show ?thesis
    by (intro conjI) (fact shape now member spans inj)+
qed

text \<open>
  C38: a roster holds exactly the certificates it was verified from. Each of them is signed by
  the authority for this group and epoch, is not revoked and is valid at the time of the
  verification and during the whole validity of the roster; no two members share a key.
\<close>

theorem roster_members_certified:
  assumes "roster_verify p authority scope es revoked now = Inr r"
  shows "vr_scope r = scope \<and> validate_at r now = Inr () \<and> length (vr_members r) = length es \<and>
    (\<forall>m c. roster_member r m = Inr c \<longleftrightarrow> (\<exists>e \<in> set es. claims_of e = c \<and> ct_member c = m)) \<and>
    (\<forall>e \<in> set es. certificate_ok p authority scope (set revoked) now e \<and>
       ct_valid_from (claims_of e) \<le> vr_valid_from r \<and> vr_valid_until r \<le> ct_valid_until (claims_of e)) \<and>
    inj_on ct_signing_key (set (member_claims r)) \<and> inj_on ct_delivery_key (set (member_claims r))"
  by (rule roster_sound [OF assms])

text \<open>
  Verification does not depend on the order of the certificates, nor on the order and
  repetition of the revoked serials.
\<close>

theorem roster_order_irrelevant:
  assumes "mset es = mset es'" and "set revoked = set revoked'" and "length revoked' \<le> 1024"
    and "roster_verify p authority scope es revoked now = Inr r"
  shows "roster_verify p authority scope es' revoked' now = Inr r"
proof -
  have "list_all (certificate_ok p authority scope (set revoked') now) es' \<longleftrightarrow>
      list_all (certificate_ok p authority scope (set revoked) now) es"
    using assms(1,2) mset_eq_setD [OF assms(1)] by (simp add: list_all_iff)
  moreover have "bset_of revoked' = bset_of revoked" using assms(2) by (simp add: bset_of_eq_iff)
  ultimately show ?thesis
    using assms mset_eq_length [OF assms(1)] no_duplicates_perm [OF assms(1)] roster_of_perm [OF assms(1)]
    by (auto simp: roster_verify_iff roster_inputs_ok_def)
qed

text \<open>
  Two verified rosters with the same digest are the same roster, or SHA-256 has a
  collision: what compares digests compares authority, scope, certificates and revocations.
\<close>

theorem roster_digest_binds:
  assumes "roster_verify p authority scope es revoked now = Inr r"
    and "roster_verify p authority' scope' es' revoked' now' = Inr r'"
    and "vr_digest r = vr_digest r'"
  shows "(r = r' \<and> authority = authority' \<and> set es = set es' \<and> set revoked = set revoked') \<or>
    (\<exists>x y. x \<noteq> y \<and> hash p x = hash p y)"
proof (rule disjCI)
  assume no: "\<not> (\<exists>x y. x \<noteq> y \<and> hash p x = hash p y)"
  then have inj: "hash p x = hash p y \<Longrightarrow> x = y" for x y by blast
  let ?c = "\<lambda>es. map snd (rb_canonical (fold add_member es empty_build))"
  have ok: "no_duplicates es" "length es \<le> 50" "length revoked \<le> 1024"
      "r = roster_of p authority scope es (bset_of revoked)"
      "\<forall>e \<in> set es. certificate_ok p authority scope (set revoked) now e"
    and ok': "no_duplicates es'" "length es' \<le> 50" "length revoked' \<le> 1024"
      "r' = roster_of p authority' scope' es' (bset_of revoked')"
      "\<forall>e \<in> set es'. certificate_ok p authority' scope' (set revoked') now' e"
    using assms(1,2) by (auto simp: roster_verify_iff roster_inputs_ok_def list_all_iff)
  have len: "length (bset_of xs) \<le> length xs" for xs :: "u64 list"
    by (metis bset_of_def length_remdups_leq length_sort)
  have canon: "list_all (\<lambda>e. length e \<le> 1024) (?c es)" "length (?c es) \<le> 50"
    "list_all (\<lambda>e. length e \<le> 1024) (?c es')" "length (?c es') \<le> 50"
    using ok(2,5) ok'(2,5) built_canonical [OF ok(1)] built_canonical [OF ok'(1)] certificate_length
    by (auto simp: list_all_iff simp del: set_map)
  have "digest_input authority scope (?c es) (bset_of revoked) =
      digest_input authority' scope' (?c es') (bset_of revoked')"
    using assms(3) inj by (auto simp: ok(4) ok'(4) roster_of_def Let_def domain_hash_def dest!: inj)
  from digest_input_inject [OF this canon(1,2) _ canon(3,4)] len [of revoked] len [of revoked'] ok(3) ok'(3)
  have eq: "authority = authority'" "scope = scope'" "?c es = ?c es'" "bset_of revoked = bset_of revoked'"
    by simp_all
  have st: "set es = set es'" using eq(3) built_canonical(1) [OF ok(1)] built_canonical(1) [OF ok'(1)] by simp
  then have "mset es = mset es'"
    using no_duplicates_distinct [OF ok(1)] no_duplicates_distinct [OF ok'(1)] by (simp add: set_eq_iff_mset_eq_distinct)
  from roster_of_perm [OF this ok(1)] show "r = r' \<and> authority = authority' \<and> set es = set es' \<and> set revoked = set revoked'"
    using eq st by (simp add: ok(4) ok'(4) bset_of_eq_iff [symmetric])
qed

section \<open>A certified group\<close>

text \<open>What an authority issues is what verification accepts.\<close>

lemma issue_certificate_ok:
  assumes "signing_ok p" and "issue_certificate p k c = Inr e"
    and "ct_group c = sc_group scope" and "ct_epoch c = sc_epoch scope" and "ct_serial c \<notin> revoked"
    and "ct_valid_from c \<le> now" and "now < ct_valid_until c"
  shows "certificate_ok p (signing_public_key p k) scope revoked now e \<and> claims_of e = c"
proof -
  obtain sig where s: "claims_ok c" "e = signed_record (claims_bytes c (identity_key_id p (signing_public_key p k))) sig"
    "sign p k \<lparr>sc_group = ct_group c, sc_epoch = ct_epoch c\<rparr> Certificate
       (claims_bytes c (identity_key_id p (signing_public_key p k))) = Inr sig"
    using assms(2) by (auto simp: issue_certificate_def res_simps cert_body_Inr)
  have "\<lparr>sc_group = ct_group c, sc_epoch = ct_epoch c\<rparr> = scope" using assms(3,4) by simp
  then have "verify p (signing_public_key p k) scope Certificate
      (claims_bytes c (identity_key_id p (signing_public_key p k))) sig = Inr ()"
    using sign_verify [OF assms(1) s(3)] by simp
  then show ?thesis using s(1,2) assms(3-7) by (auto simp: certificate_ok_def Let_def)
qed

definition sample_claims :: "nat \<Rightarrow> certificate_claims" where
  "sample_claims n = \<lparr>ct_group = 1, ct_member = MemberId (of_nat n), ct_signing_key = of_nat n,
     ct_delivery_key = of_nat n, ct_valid_from = 0, ct_valid_until = 100, ct_epoch = 1, ct_serial = of_nat n\<rparr>"

definition sample_certificate :: "nat \<Rightarrow> bytes" where
  "sample_certificate n = signed_record (claims_bytes (sample_claims n) 0) 0"

definition sample_roster :: verified_roster where
  "sample_roster = roster_of sample_suite 1 sample_scope [sample_certificate 1, sample_certificate 2] []"

lemma sample_certificate_ok:
  assumes "n = 1 \<or> n = 2" and "now < 100"
  shows "certificate_ok sample_suite 1 sample_scope {} now (sample_certificate n)"
proof -
  have c: "claims_of (sample_certificate n) = sample_claims n" by (simp add: sample_certificate_def)
  have "length (claims_bytes (sample_claims n) 0) \<le> MAX_SIGNED_BYTES"
    using length_claims_bytes [of "sample_claims n" 0] by simp
  then have "verify sample_suite 1 sample_scope Certificate (claims_bytes (sample_claims n) 0) 0 = Inr ()"
    by (simp add: verify_Inr input_simps sample_suite_def sample_scope_def I64_MAX_def word_le_nat_alt)
  then show ?thesis
    unfolding certificate_ok_def c Let_def using assms
    by (auto simp: sample_certificate_def identity_key_id_def sample_suite_def sample_claims_def sample_scope_def
        claims_ok_def MAX_LOGICAL_TIME_def word_le_nat_alt word_less_nat_alt)
qed

lemma sample_no_duplicates: "no_duplicates [sample_certificate 1, sample_certificate 2]"
  by (simp add: no_duplicates_def sample_certificate_def sample_claims_def)

lemma sample_roster_verify:
  assumes "now < 100" and "es = [sample_certificate 1, sample_certificate 2] \<or> es = [sample_certificate 2, sample_certificate 1]"
  shows "roster_verify sample_suite 1 sample_scope es [] now = Inr sample_roster"
proof -
  have perm: "mset es = mset [sample_certificate 1, sample_certificate 2]" using assms(2) by auto
  have "no_duplicates es" using no_duplicates_perm [OF perm] sample_no_duplicates by simp
  moreover have "sample_roster = roster_of sample_suite 1 sample_scope es (bset_of [])"
    using roster_of_perm [OF perm \<open>no_duplicates es\<close>] by (simp add: sample_roster_def bset_of_def)
  moreover have "now \<le> MAX_LOGICAL_TIME" "0 < sc_epoch sample_scope" "sc_epoch sample_scope \<le> MAX_LOGICAL_TIME"
    using assms(1) by (simp_all add: sample_scope_def MAX_LOGICAL_TIME_def word_le_nat_alt word_less_nat_alt)
  ultimately show ?thesis
    unfolding roster_verify_iff roster_inputs_ok_def
    using sample_certificate_ok [of 1 now] sample_certificate_ok [of 2 now] assms by auto
qed

lemma sample_members:
  "roster_member sample_roster m = Inr c \<longleftrightarrow> m = ct_member c \<and> (c = sample_claims 1 \<or> c = sample_claims 2)"
  "vr_scope sample_roster = sample_scope" "now < 100 \<Longrightarrow> validate_at sample_roster now = Inr ()"
proof -
  let ?es = "[sample_certificate 1, sample_certificate 2]"
  have c: "claims_of (sample_certificate n) = sample_claims n" for n by (simp add: sample_certificate_def)
  have v: "roster_verify sample_suite 1 sample_scope ?es [] now = Inr sample_roster" if "now < 100" for now
    using that by (rule sample_roster_verify) simp
  note f = roster_sound [OF v, of 5, simplified c list.simps]
  show "roster_member sample_roster m = Inr c \<longleftrightarrow> m = ct_member c \<and> (c = sample_claims 1 \<or> c = sample_claims 2)"
    using f by (auto simp: c)
  show "vr_scope sample_roster = sample_scope" using f by simp
  show "now < 100 \<Longrightarrow> validate_at sample_roster now = Inr ()" using roster_sound [OF v] by blast
qed

lemma sample_valid_until: "vr_valid_until sample_roster = 100"
  by (simp add: sample_roster_def roster_of_def Let_def add_member_def empty_build_def sample_certificate_def
      sample_claims_def MAX_LOGICAL_TIME_def min_def word_le_nat_alt)

theorem roster_members_certified_witness:
  "roster_member sample_roster (MemberId 2) = Inr (sample_claims 2) \<and> length (vr_members sample_roster) = 2"
  using roster_members_certified [OF sample_roster_verify [of 5 "[sample_certificate 1, sample_certificate 2]"]]
  by (auto simp: sample_certificate_def sample_claims_def)

theorem roster_order_irrelevant_witness:
  "roster_verify sample_suite 1 sample_scope [sample_certificate 2, sample_certificate 1] [] 5 = Inr sample_roster"
  by (rule roster_order_irrelevant [OF _ _ _ sample_roster_verify [of 5 "[sample_certificate 1, sample_certificate 2]"]])
    simp_all

theorem roster_digest_binds_witness:
  "(sample_roster = sample_roster \<and> (1 :: arr32) = 1 \<and>
     set [sample_certificate 1, sample_certificate 2] = set [sample_certificate 2, sample_certificate 1] \<and>
     set [] = (set [] :: u64 set)) \<or>
   (\<exists>x y. x \<noteq> y \<and> hash sample_suite x = hash sample_suite y)"
proof (rule roster_digest_binds)
  show "roster_verify sample_suite 1 sample_scope [sample_certificate 1, sample_certificate 2] [] 5 = Inr sample_roster"
    by (rule sample_roster_verify) simp_all
  show "roster_verify sample_suite 1 sample_scope [sample_certificate 2, sample_certificate 1] [] 6 = Inr sample_roster"
    by (rule sample_roster_verify) simp_all
qed simp

end
