(* ===== verification/Mesh_Policy.thy ===== *)
theory Mesh_Policy
  imports Mesh_Roster
begin

text \<open>
  The policy records of \<open>crates/mesh-protocol/src/lib.rs\<close>: enrollment requests, signed presence,
  policy bundles and authority handoffs. Each verifier is described by the exact byte strings
  it accepts: the canonical encoding of the record it returns, with a signature that verifies.
\<close>

section \<open>Enrollment\<close>

definition MAX_ENROLLMENT_REQUEST :: nat where [simp]: "MAX_ENROLLMENT_REQUEST = 512"
definition MAX_PRESENCE_CLAIM :: nat where [simp]: "MAX_PRESENCE_CLAIM = 256"
definition MAX_POLICY_BUNDLE :: nat where [simp]: "MAX_POLICY_BUNDLE = 64 * 1024"
definition MAX_AUTHORITY_HANDOFF :: nat where [simp]: "MAX_AUTHORITY_HANDOFF = 512"

record enrollment_request =
  eq_scope :: scope
  eq_member :: member_id
  eq_signing_key :: arr32
  eq_delivery_key :: arr32
  eq_valid_from :: u64
  eq_valid_until :: u64
  eq_nonce :: arr16

definition enrollment_body :: "enrollment_request \<Rightarrow> durable_error + bytes" where
  "enrollment_body q =
     (if sc_epoch (eq_scope q) = 0
         \<or> sc_epoch (eq_scope q) > MAX_LOGICAL_TIME
         \<or> eq_valid_from q \<ge> eq_valid_until q
         \<or> eq_valid_until q > MAX_LOGICAL_TIME
         \<or> member_arr (eq_member q) \<noteq> eq_signing_key q
      then Inl InvalidInput
      else
        let w = [];
            w = w_array 9 w;
            w = w_uint 1 w;
            w = w_bytes (be_bytes (sc_group (eq_scope q))) w;
            w = w_uint (sc_epoch (eq_scope q)) w;
            w = w_bytes (be_bytes (member_arr (eq_member q))) w;
            w = w_bytes (be_bytes (eq_signing_key q)) w;
            w = w_bytes (be_bytes (eq_delivery_key q)) w;
            w = w_uint (eq_valid_from q) w;
            w = w_uint (eq_valid_until q) w;
            w = w_bytes (be_bytes (eq_nonce q)) w
        in Inr w)"

definition create_enrollment_request ::
    "suite \<Rightarrow> ('r, 'k, 's, 'o) kem \<Rightarrow> 'r source \<Rightarrow> identity_signing_key \<Rightarrow> 'k \<Rightarrow> scope \<Rightarrow> u64 \<Rightarrow> u64 \<Rightarrow> 'r
     \<Rightarrow> (durable_error + bytes) \<times> 'r" where
  "create_enrollment_request p h fill signer delivery scope valid_from valid_until rng =
     bind_st (apfst (map_err random_err) (fill 16 rng)) (\<lambda>nonce rng.
       (let key = signing_public_key p signer;
            request = \<lparr>eq_scope = scope, eq_member = MemberId key, eq_signing_key = key,
                       eq_delivery_key = kem_sk_to_pk h delivery, eq_valid_from = valid_from,
                       eq_valid_until = valid_until, eq_nonce = be_word nonce\<rparr>
        in bindr (enrollment_body request) (\<lambda>body.
           bindr (map_err auth_err (sign p signer scope Enrollment body)) (\<lambda>sig.
             Inr (signed_record body sig))), rng))"

definition read_enrollment :: "bytes \<Rightarrow> durable_error + enrollment_request" where
  "read_enrollment body =
     bindr (reader_new body MAX_ENROLLMENT_REQUEST) (\<lambda>r.
     bindr (reader_array 9 r) (\<lambda>(_, r).
     bindr (reader_uint r) (\<lambda>(v, r).
     bindr (check_version v) (\<lambda>_.
     bindr (reader_fixed r) (\<lambda>(group, r).
     bindr (reader_uint r) (\<lambda>(epoch, r).
     bindr (reader_fixed r) (\<lambda>(member, r).
     bindr (reader_fixed r) (\<lambda>(signing_key, r).
     bindr (reader_fixed r) (\<lambda>(delivery_key, r).
     bindr (reader_uint r) (\<lambda>(valid_from, r).
     bindr (reader_uint r) (\<lambda>(valid_until, r).
     bindr (reader_fixed r) (\<lambda>(nonce, r).
     bindr (reader_end r) (\<lambda>_.
       Inr \<lparr>eq_scope = \<lparr>sc_group = group, sc_epoch = epoch\<rparr>, eq_member = MemberId member,
            eq_signing_key = signing_key, eq_delivery_key = delivery_key, eq_valid_from = valid_from,
            eq_valid_until = valid_until, eq_nonce = nonce\<rparr>)))))))))))))"

definition verify_enrollment_request :: "suite \<Rightarrow> bytes \<Rightarrow> u64 \<Rightarrow> durable_error + enrollment_request" where
  "verify_enrollment_request p bs now =
     bindr (check_time now) (\<lambda>_.
     bindr (signed_parts bs MAX_ENROLLMENT_REQUEST) (\<lambda>(body, signature).
     bindr (read_enrollment body) (\<lambda>request.
     bindr (enrollment_body request) (\<lambda>_.
       if now < eq_valid_from request \<or> now \<ge> eq_valid_until request then Inl AuthenticationFailed
       else
         bindr (map_err auth_err
             (verify p (eq_signing_key request) (eq_scope request) Enrollment body signature)) (\<lambda>_.
           Inr request)))))"

definition enrollment_bytes :: "enrollment_request \<Rightarrow> bytes" where
  "enrollment_bytes q = array_bytes 9 @ uint_bytes 1 @ fixed_bytes (sc_group (eq_scope q)) @
     uint_bytes (sc_epoch (eq_scope q)) @ fixed_bytes (member_arr (eq_member q)) @
     fixed_bytes (eq_signing_key q) @ fixed_bytes (eq_delivery_key q) @ uint_bytes (eq_valid_from q) @
     uint_bytes (eq_valid_until q) @ fixed_bytes (eq_nonce q)"

definition enrollment_ok :: "enrollment_request \<Rightarrow> bool" where
  "enrollment_ok q \<longleftrightarrow> 0 < sc_epoch (eq_scope q) \<and> sc_epoch (eq_scope q) \<le> MAX_LOGICAL_TIME \<and>
     eq_valid_from q < eq_valid_until q \<and> eq_valid_until q \<le> MAX_LOGICAL_TIME \<and>
     eq_member q = MemberId (eq_signing_key q)"

lemma enrollment_body_Inr: "enrollment_body q = Inr b \<longleftrightarrow> enrollment_ok q \<and> b = enrollment_bytes q"
  by (cases "eq_member q")
    (auto simp: enrollment_body_def enrollment_ok_def enrollment_bytes_def Let_def w_simps fixed_bytes_def
      not_le not_less word_gt_0)

lemma length_enrollment_bytes: "length (enrollment_bytes q) \<le> 300"
  using length_uint [of "eq_valid_from q"] length_uint [of "eq_valid_until q"] length_uint [of "sc_epoch (eq_scope q)"]
    length_uint [of 1] length_array [of 9]
  by (simp add: enrollment_bytes_def field_lengths)

lemma signed_parts_short:
  assumes "length body + 84 \<le> limit" and "limit < 2 ^ 64"
  shows "signed_parts bs limit = Inr (body, sig) \<longleftrightarrow> bs = signed_record body sig"
  using length_signed_record(2) [of body sig] assms by (auto simp: signed_parts_iff)

lemma read_enrollment_iff: "read_enrollment body = Inr q \<longleftrightarrow> body = enrollment_bytes q"
proof -
  have "read_enrollment body = Inr q \<longleftrightarrow> length body \<le> 512 \<and> body = enrollment_bytes q"
    unfolding read_enrollment_def
    apply (rule trans [OF decode_iff])
      apply (rule parses_rules field_reads)+
     apply simp
    apply (cases q, cases "eq_scope q", cases "eq_member q")
    apply (simp add: res_simps enrollment_bytes_def)
    done
  then show ?thesis using length_enrollment_bytes [of q] by auto
qed

lemma signed_record_inject: "signed_record b sig = signed_record b sig' \<Longrightarrow> sig = sig'"
  using wfixed64.prefix_free [where x = sig and y = sig' and s = "[]" and t = "[]"]
  by (simp add: signed_record_eq length_fixed64)

lemma verify_enrollment_iff:
  "verify_enrollment_request p bs now = Inr q \<longleftrightarrow>
     now \<le> MAX_LOGICAL_TIME \<and> enrollment_ok q \<and> eq_valid_from q \<le> now \<and> now < eq_valid_until q \<and>
     (\<exists>sig. bs = signed_record (enrollment_bytes q) sig \<and>
        verify p (eq_signing_key q) (eq_scope q) Enrollment (enrollment_bytes q) sig = Inr ())"
  using length_enrollment_bytes [of q]
  by (auto simp: verify_enrollment_request_def res_simps read_enrollment_iff enrollment_body_Inr not_le not_less
      signed_parts_short)

section \<open>Presence\<close>

record presence_record =
  pr_member :: member_id
  pr_incarnation :: u64
  pr_sequence :: u64
  pr_expires_at :: u64

definition presence_body :: "scope \<Rightarrow> presence_record \<Rightarrow> durable_error + bytes" where
  "presence_body scope q =
     (if sc_epoch scope = 0
         \<or> sc_epoch scope > MAX_LOGICAL_TIME
         \<or> pr_incarnation q = 0
         \<or> pr_incarnation q > MAX_LOGICAL_TIME
         \<or> pr_sequence q = 0
         \<or> pr_sequence q > MAX_LOGICAL_TIME
         \<or> pr_expires_at q = 0
         \<or> pr_expires_at q > MAX_LOGICAL_TIME
      then Inl InvalidInput
      else
        let w = [];
            w = w_array 7 w;
            w = w_uint 1 w;
            w = w_bytes (be_bytes (sc_group scope)) w;
            w = w_uint (sc_epoch scope) w;
            w = w_bytes (be_bytes (member_arr (pr_member q))) w;
            w = w_uint (pr_incarnation q) w;
            w = w_uint (pr_sequence q) w;
            w = w_uint (pr_expires_at q) w
        in Inr w)"

definition sign_presence ::
    "suite \<Rightarrow> identity_signing_key \<Rightarrow> presence_record \<Rightarrow> verified_roster \<Rightarrow> u64 \<Rightarrow> durable_error + bytes" where
  "sign_presence p signer q roster now =
     bindr (validate_at roster now) (\<lambda>_.
     bindr (roster_member roster (pr_member q)) (\<lambda>c.
       if ct_signing_key c \<noteq> signing_public_key p signer
          \<or> pr_expires_at q \<le> now
          \<or> pr_expires_at q > vr_valid_until roster
       then Inl AuthenticationFailed
       else
         bindr (presence_body (vr_scope roster) q) (\<lambda>body.
         bindr (map_err auth_err (sign p signer (vr_scope roster) Presence body)) (\<lambda>sig.
           Inr (signed_record body sig)))))"

definition read_presence :: "bytes \<Rightarrow> durable_error + scope \<times> presence_record" where
  "read_presence body =
     bindr (reader_new body MAX_PRESENCE_CLAIM) (\<lambda>r.
     bindr (reader_array 7 r) (\<lambda>(_, r).
     bindr (reader_uint r) (\<lambda>(v, r).
     bindr (check_version v) (\<lambda>_.
     bindr (reader_fixed r) (\<lambda>(group, r).
     bindr (reader_uint r) (\<lambda>(epoch, r).
     bindr (reader_fixed r) (\<lambda>(member, r).
     bindr (reader_uint r) (\<lambda>(incarnation, r).
     bindr (reader_uint r) (\<lambda>(sequence, r).
     bindr (reader_uint r) (\<lambda>(expires_at, r).
     bindr (reader_end r) (\<lambda>_.
       Inr (\<lparr>sc_group = group, sc_epoch = epoch\<rparr>,
            \<lparr>pr_member = MemberId member, pr_incarnation = incarnation, pr_sequence = sequence,
             pr_expires_at = expires_at\<rparr>))))))))))))"

definition authenticate_presence ::
    "suite \<Rightarrow> bytes \<Rightarrow> verified_roster \<Rightarrow> u64 \<Rightarrow> durable_error + presence_record" where
  "authenticate_presence p encoded roster now =
     bindr (validate_at roster now) (\<lambda>_.
     bindr (signed_parts encoded MAX_PRESENCE_CLAIM) (\<lambda>(body, signature).
     bindr (read_presence body) (\<lambda>(scope, q).
       if sc_group scope \<noteq> sc_group (vr_scope roster)
          \<or> sc_epoch scope \<noteq> sc_epoch (vr_scope roster)
          \<or> pr_expires_at q \<le> now
       then Inl AuthenticationFailed
       else
         bindr (presence_body (vr_scope roster) q) (\<lambda>canonical.
           if canonical \<noteq> body then Inl InvalidInput
           else
             bindr (roster_member roster (pr_member q)) (\<lambda>c.
             bindr (map_err auth_err
                 (verify p (ct_signing_key c) (vr_scope roster) Presence body signature)) (\<lambda>_.
               Inr q))))))"

definition presence_bytes :: "scope \<Rightarrow> presence_record \<Rightarrow> bytes" where
  "presence_bytes scope q = array_bytes 7 @ uint_bytes 1 @ fixed_bytes (sc_group scope) @
     uint_bytes (sc_epoch scope) @ fixed_bytes (member_arr (pr_member q)) @ uint_bytes (pr_incarnation q) @
     uint_bytes (pr_sequence q) @ uint_bytes (pr_expires_at q)"

definition presence_ok :: "scope \<Rightarrow> presence_record \<Rightarrow> bool" where
  "presence_ok scope q \<longleftrightarrow> 0 < sc_epoch scope \<and> sc_epoch scope \<le> MAX_LOGICAL_TIME \<and>
     0 < pr_incarnation q \<and> pr_incarnation q \<le> MAX_LOGICAL_TIME \<and> 0 < pr_sequence q \<and>
     pr_sequence q \<le> MAX_LOGICAL_TIME \<and> 0 < pr_expires_at q \<and> pr_expires_at q \<le> MAX_LOGICAL_TIME"

lemma presence_body_Inr: "presence_body s q = Inr b \<longleftrightarrow> presence_ok s q \<and> b = presence_bytes s q"
  by (auto simp: presence_body_def presence_ok_def presence_bytes_def Let_def w_simps fixed_bytes_def
      not_le not_less word_gt_0)

lemma length_presence_bytes: "length (presence_bytes s q) \<le> 150"
  using length_uint [of "pr_incarnation q"] length_uint [of "pr_sequence q"] length_uint [of "pr_expires_at q"]
    length_uint [of "sc_epoch s"] length_uint [of 1] length_array [of 7]
  by (simp add: presence_bytes_def field_lengths)

lemma read_presence_iff: "read_presence body = Inr (s, q) \<longleftrightarrow> body = presence_bytes s q"
proof -
  have "read_presence body = Inr (s, q) \<longleftrightarrow> length body \<le> 256 \<and> body = presence_bytes s q"
    unfolding read_presence_def
    apply (rule trans [OF decode_iff])
      apply (rule parses_rules field_reads)+
     apply simp
    apply (cases q, cases s, cases "pr_member q")
    apply (simp add: res_simps presence_bytes_def)
    done
  then show ?thesis using length_presence_bytes [of s q] by auto
qed

lemma signed_parts_presence_iff:
  "signed_parts bs 256 = Inr (presence_bytes s q, sig) \<longleftrightarrow> bs = signed_record (presence_bytes s q) sig"
  using length_presence_bytes [of s q] by (simp add: signed_parts_short)

lemma signed_parts_presence [simp]:
  "signed_parts (signed_record (presence_bytes s q) sig) 256 = Inr (presence_bytes s q, sig)"
  by (simp add: signed_parts_presence_iff)

lemma authenticate_presence_iff:
  "authenticate_presence p bs roster now = Inr q \<longleftrightarrow>
     validate_at roster now = Inr () \<and> presence_ok (vr_scope roster) q \<and> now < pr_expires_at q \<and>
     (\<exists>c sig. roster_member roster (pr_member q) = Inr c \<and>
        bs = signed_record (presence_bytes (vr_scope roster) q) sig \<and>
        verify p (ct_signing_key c) (vr_scope roster) Presence (presence_bytes (vr_scope roster) q) sig = Inr ())"
proof
  have s: "sc_group s = sc_group (vr_scope roster) \<and> sc_epoch s = sc_epoch (vr_scope roster) \<longleftrightarrow> s = vr_scope roster" for s
    by (auto intro: scope.equality)
  assume "authenticate_presence p bs roster now = Inr q"
  then show "validate_at roster now = Inr () \<and> presence_ok (vr_scope roster) q \<and> now < pr_expires_at q \<and>
     (\<exists>c sig. roster_member roster (pr_member q) = Inr c \<and>
        bs = signed_record (presence_bytes (vr_scope roster) q) sig \<and>
        verify p (ct_signing_key c) (vr_scope roster) Presence (presence_bytes (vr_scope roster) q) sig = Inr ())"
    by (auto simp: authenticate_presence_def res_simps read_presence_iff presence_body_Inr not_le not_less
        signed_parts_presence_iff)
next
  assume "validate_at roster now = Inr () \<and> presence_ok (vr_scope roster) q \<and> now < pr_expires_at q \<and>
     (\<exists>c sig. roster_member roster (pr_member q) = Inr c \<and>
        bs = signed_record (presence_bytes (vr_scope roster) q) sig \<and>
        verify p (ct_signing_key c) (vr_scope roster) Presence (presence_bytes (vr_scope roster) q) sig = Inr ())"
  moreover have "read_presence (presence_bytes (vr_scope roster) q) = Inr (vr_scope roster, q)"
    by (simp add: read_presence_iff)
  moreover have "presence_body (vr_scope roster) q = Inr (presence_bytes (vr_scope roster) q)"
    if "presence_ok (vr_scope roster) q" using that by (simp add: presence_body_Inr)
  ultimately show "authenticate_presence p bs roster now = Inr q"
    by (auto simp: authenticate_presence_def not_le)
qed

section \<open>Policy bundles\<close>

record policy_bundle =
  pb_authority :: arr32
  pb_scope :: scope
  pb_certificates :: "bytes list"
  pb_revoked :: "u64 list"

definition bundle_verify :: "suite \<Rightarrow> policy_bundle \<Rightarrow> u64 \<Rightarrow> durable_error + verified_roster" where
  "bundle_verify p b now = roster_verify p (pb_authority b) (pb_scope b) (pb_certificates b) (pb_revoked b) now"

definition bundle_encode :: "policy_bundle \<Rightarrow> durable_error + bytes" where
  "bundle_encode b =
     (if sc_epoch (pb_scope b) = 0
         \<or> sc_epoch (pb_scope b) > MAX_LOGICAL_TIME
         \<or> pb_certificates b = []
         \<or> length (pb_certificates b) > MAX_GROUP_MEMBERS
         \<or> list_ex (\<lambda>certificate. certificate = [] \<or> length certificate > 1024) (pb_certificates b)
         \<or> length (pb_revoked b) > 1024
         \<or> list_ex (\<lambda>serial. serial = 0 \<or> serial > MAX_LOGICAL_TIME) (pb_revoked b)
      then Inl InvalidInput
      else
        let w = [];
            w = w_array 6 w;
            w = w_uint 1 w;
            w = w_bytes (be_bytes (pb_authority b)) w;
            w = w_bytes (be_bytes (sc_group (pb_scope b))) w;
            w = w_uint (sc_epoch (pb_scope b)) w;
            w = w_array (length (pb_certificates b)) w;
            w = fold w_bytes (pb_certificates b) w;
            w = w_array (length (pb_revoked b)) w;
            w = fold w_uint (pb_revoked b) w
        in if length w > MAX_POLICY_BUNDLE then Inl ResourcePressure else Inr w)"

definition bundle_decode :: "bytes \<Rightarrow> durable_error + policy_bundle" where
  "bundle_decode bs =
     bindr (reader_new bs MAX_POLICY_BUNDLE) (\<lambda>r.
     bindr (reader_array 6 r) (\<lambda>(_, r).
     bindr (reader_uint r) (\<lambda>(v, r).
     bindr (check_version v) (\<lambda>_.
     bindr (reader_fixed r) (\<lambda>(authority, r).
     bindr (reader_fixed r) (\<lambda>(group, r).
     bindr (reader_uint r) (\<lambda>(epoch, r).
     bindr (reader_count MAX_GROUP_MEMBERS r) (\<lambda>(certificate_count, r).
     bindr (reader_repeat (reader_bytes 1024) certificate_count r) (\<lambda>(certificates, r).
     bindr (reader_count 1024 r) (\<lambda>(revoked_count, r).
     bindr (reader_repeat reader_uint revoked_count r) (\<lambda>(revoked, r).
     bindr (reader_end r) (\<lambda>_.
       let bundle = \<lparr>pb_authority = authority, pb_scope = \<lparr>sc_group = group, sc_epoch = epoch\<rparr>,
                     pb_certificates = certificates, pb_revoked = revoked\<rparr>
       in bindr (bundle_encode bundle) (\<lambda>_. Inr bundle)))))))))))))"

definition bundle_bytes :: "policy_bundle \<Rightarrow> bytes" where
  "bundle_bytes b = array_bytes 6 @ uint_bytes 1 @ fixed_bytes (pb_authority b) @
     fixed_bytes (sc_group (pb_scope b)) @ uint_bytes (sc_epoch (pb_scope b)) @
     array_bytes (length (pb_certificates b)) @ concat (map blob_bytes (pb_certificates b)) @
     array_bytes (length (pb_revoked b)) @ concat (map uint_bytes (pb_revoked b))"

definition bundle_ok :: "policy_bundle \<Rightarrow> bool" where
  "bundle_ok b \<longleftrightarrow> 0 < sc_epoch (pb_scope b) \<and> sc_epoch (pb_scope b) \<le> MAX_LOGICAL_TIME \<and>
     pb_certificates b \<noteq> [] \<and> length (pb_certificates b) \<le> MAX_GROUP_MEMBERS \<and>
     list_all (\<lambda>c. c \<noteq> [] \<and> length c \<le> 1024) (pb_certificates b) \<and> length (pb_revoked b) \<le> 1024 \<and>
     list_all (\<lambda>n. 0 < n \<and> n \<le> MAX_LOGICAL_TIME) (pb_revoked b)"

lemma length_bundle_bytes: "bundle_ok b \<Longrightarrow> length (bundle_bytes b) \<le> MAX_POLICY_BUNDLE"
proof -
  assume ok: "bundle_ok b"
  have "length (blob_bytes c) \<le> 1033" if "c \<in> set (pb_certificates b)" for c
    using length_blob(1) [of c] ok that by (force simp: bundle_ok_def list_all_iff)
  then have "length (concat (map blob_bytes (pb_certificates b))) \<le> 1033 * length (pb_certificates b)"
    by (rule length_concat_le)
  moreover have "length (concat (map uint_bytes (pb_revoked b))) \<le> 9 * length (pb_revoked b)"
    by (rule length_concat_le) (rule length_uint)
  ultimately show ?thesis
    using ok length_uint [of "sc_epoch (pb_scope b)"] length_uint [of 1] length_array [of 6]
      length_array [of "length (pb_certificates b)"] length_array [of "length (pb_revoked b)"]
    by (simp add: bundle_bytes_def bundle_ok_def field_lengths)
qed

lemma bundle_encode_Inr: "bundle_encode b = Inr w \<longleftrightarrow> bundle_ok b \<and> w = bundle_bytes b"
proof -
  have fold: "fold w_bytes xs out = out @ concat (map blob_bytes xs)"
    "fold w_uint ys out = out @ concat (map uint_bytes ys)" for xs ys out
    by (rule fold_w_append, simp add: w_simps)+
  have "bundle_encode b = Inr w \<longleftrightarrow> bundle_ok b \<and> length (bundle_bytes b) \<le> MAX_POLICY_BUNDLE \<and> w = bundle_bytes b"
    unfolding bundle_encode_def bundle_ok_def bundle_bytes_def
    by (auto simp: Let_def w_simps fold fixed_bytes_def not_le not_less word_gt_0 list_ex_iff list_all_iff)
  then show ?thesis using length_bundle_bytes [of b] by blast
qed

lemma count_reads:
  "reads (reader_count MAX_GROUP_MEMBERS) (\<lambda>n w. n \<le> MAX_GROUP_MEMBERS \<and> w = array_bytes n)"
  "reads (reader_count 1024) (\<lambda>n w. n \<le> 1024 \<and> w = array_bytes n)"
  by (rule reads_count, simp)+

lemma bundle_decode_iff: "bundle_decode bs = Inr b \<longleftrightarrow> bundle_ok b \<and> bs = bundle_bytes b"
proof -
  have "bundle_decode bs = Inr b \<longleftrightarrow> length bs \<le> 65536 \<and> bundle_ok b \<and> bs = bundle_bytes b"
    unfolding bundle_decode_def
    apply (rule trans [OF decode_iff])
      apply (rule parses_rules field_reads count_reads reads_list)+
    apply simp_all
    apply (cases b, cases "pb_scope b")
    apply (simp add: res_simps Let_def bundle_encode_Inr)
    apply (auto simp: bundle_ok_def bundle_bytes_def list_all_iff fits_limit_iff)
    done
  then show ?thesis using length_bundle_bytes [of b] by auto
qed

interpretation policy: record_codec bundle_encode bundle_decode
  by unfold_locales (auto simp: bundle_encode_Inr bundle_decode_iff)

text \<open>
  \<open>PolicyBundle::decode\<close> accepts exactly what \<open>PolicyBundle::encode\<close> produces, and an
  encoding never runs into the container's size limit: a bundle within the bounds on its
  parts is at most 64 KiB.
\<close>

theorem policy_bundle_codec:
  "(bundle_decode bs = Inr b \<longleftrightarrow> bundle_encode b = Inr bs) \<and>
   bundle_encode b \<noteq> Inl ResourcePressure"
proof -
  have "\<exists>w. bundle_encode b = Inr w" if "bundle_ok b" using that by (simp add: bundle_encode_Inr)
  moreover have "bundle_encode b = Inl InvalidInput" if "\<not> bundle_ok b"
    using that by (auto simp: bundle_encode_def bundle_ok_def not_le not_less word_gt_0 list_ex_iff list_all_iff)
  ultimately show ?thesis using policy.dec_iff [of bs b] by (cases "bundle_ok b") auto
qed

section \<open>Authority handoff\<close>

record authority_handoff =
  ah_prior_authority :: arr32
  ah_prior_scope :: scope
  ah_prior_roster_digest :: arr32
  ah_next_authority :: arr32
  ah_next_epoch :: u64
  ah_valid_until :: u64
  ah_signature :: arr64

definition handoff_body :: "authority_handoff \<Rightarrow> durable_error + bytes" where
  "handoff_body a =
     (if sc_epoch (ah_prior_scope a) = 0 \<or> sc_epoch (ah_prior_scope a) > MAX_LOGICAL_TIME then Inl InvalidInput
      else
        bindr (ok_or InvalidInput (checked_add (sc_epoch (ah_prior_scope a)) 1)) (\<lambda>next_epoch.
          if ah_next_epoch a \<noteq> next_epoch
             \<or> ah_valid_until a = 0
             \<or> ah_valid_until a > MAX_LOGICAL_TIME
             \<or> ah_next_authority a = ah_prior_authority a
          then Inl InvalidInput
          else
            let w = [];
                w = w_array 8 w;
                w = w_uint 1 w;
                w = w_bytes (be_bytes (ah_prior_authority a)) w;
                w = w_bytes (be_bytes (sc_group (ah_prior_scope a))) w;
                w = w_uint (sc_epoch (ah_prior_scope a)) w;
                w = w_bytes (be_bytes (ah_prior_roster_digest a)) w;
                w = w_bytes (be_bytes (ah_next_authority a)) w;
                w = w_uint (ah_next_epoch a) w;
                w = w_uint (ah_valid_until a) w
            in Inr w))"

definition handoff_encode :: "authority_handoff \<Rightarrow> durable_error + bytes" where
  "handoff_encode a =
     bindr (handoff_body a) (\<lambda>body.
       let encoded = signed_record body (ah_signature a) in
       if length encoded > MAX_AUTHORITY_HANDOFF then Inl ResourcePressure else Inr encoded)"

definition read_handoff :: "bytes \<Rightarrow> arr64 \<Rightarrow> durable_error + authority_handoff" where
  "read_handoff body signature =
     bindr (reader_new body MAX_AUTHORITY_HANDOFF) (\<lambda>r.
     bindr (reader_array 8 r) (\<lambda>(_, r).
     bindr (reader_uint r) (\<lambda>(v, r).
     bindr (check_version v) (\<lambda>_.
     bindr (reader_fixed r) (\<lambda>(prior_authority, r).
     bindr (reader_fixed r) (\<lambda>(group, r).
     bindr (reader_uint r) (\<lambda>(epoch, r).
     bindr (reader_fixed r) (\<lambda>(prior_roster_digest, r).
     bindr (reader_fixed r) (\<lambda>(next_authority, r).
     bindr (reader_uint r) (\<lambda>(next_epoch, r).
     bindr (reader_uint r) (\<lambda>(valid_until, r).
     bindr (reader_end r) (\<lambda>_.
       Inr \<lparr>ah_prior_authority = prior_authority, ah_prior_scope = \<lparr>sc_group = group, sc_epoch = epoch\<rparr>,
            ah_prior_roster_digest = prior_roster_digest, ah_next_authority = next_authority,
            ah_next_epoch = next_epoch, ah_valid_until = valid_until, ah_signature = signature\<rparr>))))))))))))"

definition handoff_decode :: "bytes \<Rightarrow> durable_error + authority_handoff" where
  "handoff_decode bs =
     bindr (signed_parts bs MAX_AUTHORITY_HANDOFF) (\<lambda>(body, signature).
     bindr (read_handoff body signature) (\<lambda>handoff.
     bindr (handoff_encode handoff) (\<lambda>_.
       Inr handoff)))"

definition handoff_verify_for ::
    "suite \<Rightarrow> authority_handoff \<Rightarrow> arr32 \<Rightarrow> scope \<Rightarrow> arr32 \<Rightarrow> u64 \<Rightarrow> durable_error + unit" where
  "handoff_verify_for p a authority scope roster_digest now =
     bindr (check_time now) (\<lambda>_.
       if now \<ge> ah_valid_until a
          \<or> ah_prior_authority a \<noteq> authority
          \<or> ah_prior_scope a \<noteq> scope
          \<or> ah_prior_roster_digest a \<noteq> roster_digest
       then Inl AuthenticationFailed
       else
         bindr (handoff_body a) (\<lambda>body.
           map_err auth_err (verify p authority scope Transition body (ah_signature a))))"

definition issue_authority_handoff ::
    "suite \<Rightarrow> identity_signing_key \<Rightarrow> scope \<Rightarrow> arr32 \<Rightarrow> arr32 \<Rightarrow> u64 \<Rightarrow> durable_error + authority_handoff" where
  "issue_authority_handoff p authority scope roster_digest next_authority valid_until =
     bindr (ok_or InvalidInput (checked_add (sc_epoch scope) 1)) (\<lambda>next_epoch.
       let handoff = \<lparr>ah_prior_authority = signing_public_key p authority, ah_prior_scope = scope,
                      ah_prior_roster_digest = roster_digest, ah_next_authority = next_authority,
                      ah_next_epoch = next_epoch, ah_valid_until = valid_until, ah_signature = 0\<rparr> in
       bindr (handoff_body handoff) (\<lambda>body.
       bindr (map_err auth_err (sign p authority scope Transition body)) (\<lambda>sig.
         Inr (handoff\<lparr>ah_signature := sig\<rparr>))))"

definition handoff_bytes :: "authority_handoff \<Rightarrow> bytes" where
  "handoff_bytes a = array_bytes 8 @ uint_bytes 1 @ fixed_bytes (ah_prior_authority a) @
     fixed_bytes (sc_group (ah_prior_scope a)) @ uint_bytes (sc_epoch (ah_prior_scope a)) @
     fixed_bytes (ah_prior_roster_digest a) @ fixed_bytes (ah_next_authority a) @
     uint_bytes (ah_next_epoch a) @ uint_bytes (ah_valid_until a)"

definition handoff_ok :: "authority_handoff \<Rightarrow> bool" where
  "handoff_ok a \<longleftrightarrow> 0 < sc_epoch (ah_prior_scope a) \<and> sc_epoch (ah_prior_scope a) \<le> MAX_LOGICAL_TIME \<and>
     ah_next_epoch a = sc_epoch (ah_prior_scope a) + 1 \<and> 0 < ah_valid_until a \<and>
     ah_valid_until a \<le> MAX_LOGICAL_TIME \<and> ah_next_authority a \<noteq> ah_prior_authority a"

lemma next_epoch: "n \<le> MAX_LOGICAL_TIME \<Longrightarrow> checked_add n 1 = Some (n + 1)"
  by (simp add: checked_add_def word_le_nat_alt unat_MAX_LOGICAL_TIME)

lemma handoff_body_Inr: "handoff_body a = Inr b \<longleftrightarrow> handoff_ok a \<and> b = handoff_bytes a"
  using next_epoch [of "sc_epoch (ah_prior_scope a)"]
  by (auto simp: handoff_body_def handoff_ok_def handoff_bytes_def Let_def w_simps fixed_bytes_def res_simps
      not_le not_less word_gt_0)

lemma length_handoff_bytes: "length (handoff_bytes a) \<le> 250"
  using length_uint [of "ah_next_epoch a"] length_uint [of "ah_valid_until a"]
    length_uint [of "sc_epoch (ah_prior_scope a)"] length_uint [of 1] length_array [of 8]
  by (simp add: handoff_bytes_def field_lengths)

lemma handoff_encode_Inr:
  "handoff_encode a = Inr bs \<longleftrightarrow> handoff_ok a \<and> bs = signed_record (handoff_bytes a) (ah_signature a)"
  using length_handoff_bytes [of a] length_signed_record(2) [of "handoff_bytes a" "ah_signature a"]
  by (auto simp: handoff_encode_def res_simps handoff_body_Inr Let_def)

lemma read_handoff_iff:
  "read_handoff body sig = Inr a \<longleftrightarrow> body = handoff_bytes a \<and> ah_signature a = sig"
proof -
  have "read_handoff body sig = Inr a \<longleftrightarrow> length body \<le> 512 \<and> body = handoff_bytes a \<and> ah_signature a = sig"
    unfolding read_handoff_def
    apply (rule trans [OF decode_iff])
      apply (rule parses_rules field_reads)+
     apply simp
    apply (cases a, cases "ah_prior_scope a")
    apply (auto simp: res_simps handoff_bytes_def)
    done
  then show ?thesis using length_handoff_bytes [of a] by auto
qed

lemma handoff_decode_iff: "handoff_decode bs = Inr a \<longleftrightarrow> handoff_encode a = Inr bs"
proof -
  have "signed_parts bs MAX_AUTHORITY_HANDOFF = Inr (handoff_bytes a, sig) \<longleftrightarrow> bs = signed_record (handoff_bytes a) sig" for sig
    using length_handoff_bytes [of a] by (simp add: signed_parts_short)
  then show ?thesis
    by (auto simp: handoff_decode_def res_simps read_handoff_iff handoff_encode_Inr)
qed

interpretation handoff: record_codec handoff_encode handoff_decode
  by unfold_locales (rule handoff_decode_iff)

lemma handoff_verify_iff:
  "handoff_verify_for p a authority scope digest now = Inr () \<longleftrightarrow>
     now \<le> MAX_LOGICAL_TIME \<and> now < ah_valid_until a \<and> handoff_ok a \<and>
     ah_prior_authority a = authority \<and> ah_prior_scope a = scope \<and> ah_prior_roster_digest a = digest \<and>
     verify p authority scope Transition (handoff_bytes a) (ah_signature a) = Inr ()"
  by (auto simp: handoff_verify_for_def res_simps handoff_body_Inr not_le)

lemma handoff_bytes_inject:
  assumes "handoff_bytes a = handoff_bytes b" and "ah_signature a = ah_signature b"
  shows "a = b"
  using assms read_handoff_iff [of "handoff_bytes a" "ah_signature a"] by (metis sum.inject(2))

text \<open>
  An issued handoff is accepted, after any trip through its wire form, by whoever holds the
  policy it was issued under until it expires. When no signature was forged, everything else
  that is accepted is a handoff that authority signed, for this scope and roster and for the
  next epoch only.
\<close>

theorem handoff_authorized:
  assumes "signing_ok p" and "signed_only p (signing_public_key p k) seen stmts"
  shows "(case issue_authority_handoff p k scope digest next_key valid_until of
      Inl e \<Rightarrow> True
    | Inr a \<Rightarrow> bindr (handoff_encode a) handoff_decode = Inr a \<and>
        (handoff_verify_for p a (signing_public_key p k) scope digest now = Inr () \<longleftrightarrow> now < valid_until)) \<and>
    (\<forall>a. ah_signature a \<in> seen \<and> handoff_verify_for p a (signing_public_key p k) scope digest now = Inr () \<longrightarrow>
       (scope, Transition, handoff_bytes a) \<in> stmts \<and> ah_next_epoch a = sc_epoch scope + 1 \<and>
       ah_prior_scope a = scope \<and> ah_prior_roster_digest a = digest \<and> now < ah_valid_until a)"
proof (intro conjI allI impI)
  show "case issue_authority_handoff p k scope digest next_key valid_until of
      Inl e \<Rightarrow> True
    | Inr a \<Rightarrow> bindr (handoff_encode a) handoff_decode = Inr a \<and>
        (handoff_verify_for p a (signing_public_key p k) scope digest now = Inr () \<longleftrightarrow> now < valid_until)"
  proof (cases "issue_authority_handoff p k scope digest next_key valid_until")
    case issued: (Inr a)
    then obtain b sig where b: "handoff_body b = Inr (handoff_bytes b)" "handoff_ok b" "a = b\<lparr>ah_signature := sig\<rparr>"
      "ah_prior_authority b = signing_public_key p k" "ah_prior_scope b = scope" "ah_prior_roster_digest b = digest"
      "ah_valid_until b = valid_until" "sign p k scope Transition (handoff_bytes b) = Inr sig"
      by (auto simp: issue_authority_handoff_def res_simps Let_def handoff_body_Inr)
    have a: "handoff_ok a" "handoff_bytes a = handoff_bytes b" "ah_signature a = sig"
        "ah_prior_authority a = signing_public_key p k" "ah_prior_scope a = scope"
        "ah_prior_roster_digest a = digest" "ah_valid_until a = valid_until"
      using b by (simp_all add: handoff_ok_def handoff_bytes_def)
    have "verify p (signing_public_key p k) scope Transition (handoff_bytes a) sig = Inr ()"
      using sign_verify [OF assms(1) b(8)] a(2) by simp
    moreover have "now < valid_until \<Longrightarrow> now \<le> MAX_LOGICAL_TIME"
      using a(1,7) by (auto simp: handoff_ok_def)
    moreover have enc: "handoff_encode a = Inr (signed_record (handoff_bytes a) (ah_signature a))"
      using a(1) by (simp add: handoff_encode_Inr)
    moreover have "bindr (handoff_encode a) handoff_decode = Inr a"
      using handoff.roundtrip [OF enc] by (simp add: enc)
    ultimately show ?thesis using a by (auto simp: issued handoff_verify_iff)
  qed simp
next
  fix a
  assume v: "ah_signature a \<in> seen \<and> handoff_verify_for p a (signing_public_key p k) scope digest now = Inr ()"
  then show "(scope, Transition, handoff_bytes a) \<in> stmts"
    using verify_signed [OF assms(2), of "ah_signature a"] by (simp add: handoff_verify_iff)
  show "ah_next_epoch a = sc_epoch scope + 1" "ah_prior_scope a = scope" "ah_prior_roster_digest a = digest"
      "now < ah_valid_until a"
    using v by (auto simp: handoff_verify_iff handoff_ok_def)
qed

lemma sample_public_key:
  "signing_public_key sample_suite (IdentitySigningKey 0) = 1" "signing_public_key sample_suite (IdentitySigningKey 2) = 2"
  by (simp_all add: signing_public_key_def sample_suite_def)

lemma sample_handoff:
  "issue_authority_handoff sample_suite (IdentitySigningKey 0) sample_scope 5 2 100 = Inr
     \<lparr>ah_prior_authority = 1, ah_prior_scope = sample_scope, ah_prior_roster_digest = 5, ah_next_authority = 2,
      ah_next_epoch = 2, ah_valid_until = 100, ah_signature = 0\<rparr>"
proof -
  let ?a = "\<lparr>ah_prior_authority = 1, ah_prior_scope = sample_scope, ah_prior_roster_digest = 5, ah_next_authority = 2,
      ah_next_epoch = 2, ah_valid_until = 100, ah_signature = 0\<rparr>"
  have b: "handoff_body ?a = Inr (handoff_bytes ?a)"
    by (simp add: handoff_body_Inr handoff_ok_def sample_scope_def MAX_LOGICAL_TIME_def word_le_nat_alt)
  have "signature_input sample_scope Transition (handoff_bytes ?a) \<noteq> Inl e" for e
    using length_handoff_bytes [of ?a]
    by (simp add: signature_input_def scope_prefix_def sample_scope_def I64_MAX_def word_le_nat_alt Let_def)
  then obtain x where x: "signature_input sample_scope Transition (handoff_bytes ?a) = Inr x"
    by (cases "signature_input sample_scope Transition (handoff_bytes ?a)") auto
  have "checked_add (sc_epoch sample_scope) 1 = Some 2"
    by (simp add: checked_add_def sample_scope_def)
  then show ?thesis
    using b x by (simp add: issue_authority_handoff_def signing_public_key_def sample_suite_def sign_def Let_def)
qed

theorem handoff_authorized_witness:
  "\<exists>a. handoff_verify_for sample_suite a 1 sample_scope 5 99 = Inr () \<and>
     bindr (handoff_encode a) handoff_decode = Inr a"
proof -
  have "signed_only sample_suite (signing_public_key sample_suite (IdentitySigningKey 0)) {} {}"
    by (simp add: signed_only_def)
  moreover have "signing_ok sample_suite" by (simp add: signing_ok_def sample_suite_def)
  moreover have "(99 :: u64) < 100" by simp
  ultimately show ?thesis
    using handoff_authorized [of sample_suite "IdentitySigningKey 0" "{}" "{}", where scope = sample_scope
        and digest = 5 and next_key = 2 and valid_until = 100 and now = 99]
    unfolding sample_handoff by (auto simp: sample_public_key)
qed

section \<open>Possession of the key\<close>

text \<open>
  A created enrollment request is accepted exactly during its validity, and names the keys
  of its creator. When no signature was forged, an accepted request was signed with the key it
  names, and its member is that key.
\<close>

theorem enrollment_possession:
  assumes "signing_ok p"
    and "create_enrollment_request p h fill k delivery scope valid_from valid_until rng = (Inr bs, rng')"
  shows "(\<exists>nonce. verify_enrollment_request p bs now =
      (if now > MAX_LOGICAL_TIME then Inl InvalidInput
       else if now < valid_from \<or> now \<ge> valid_until then Inl AuthenticationFailed
       else Inr \<lparr>eq_scope = scope, eq_member = MemberId (signing_public_key p k),
         eq_signing_key = signing_public_key p k, eq_delivery_key = kem_sk_to_pk h delivery,
         eq_valid_from = valid_from, eq_valid_until = valid_until, eq_nonce = nonce\<rparr>)) \<and>
    (\<forall>sig q seen stmts. verify_enrollment_request p (signed_record (enrollment_bytes q) sig) now = Inr q \<and>
       signed_only p (eq_signing_key q) seen stmts \<and> sig \<in> seen \<longrightarrow>
       (eq_scope q, Enrollment, enrollment_bytes q) \<in> stmts \<and> eq_member q = MemberId (eq_signing_key q))"
proof
  let ?r = "\<lambda>nonce. \<lparr>eq_scope = scope, eq_member = MemberId (signing_public_key p k),
         eq_signing_key = signing_public_key p k, eq_delivery_key = kem_sk_to_pk h delivery,
         eq_valid_from = valid_from, eq_valid_until = valid_until, eq_nonce = nonce\<rparr>"
  obtain nonce sig where bs: "bs = signed_record (enrollment_bytes (?r nonce)) sig"
    and ok: "enrollment_ok (?r nonce)" and sig: "sign p k scope Enrollment (enrollment_bytes (?r nonce)) = Inr sig"
    using assms(2) by (auto simp: create_enrollment_request_def res_simps enrollment_body_Inr Let_def)
  let ?q = "?r nonce"
  have parts: "signed_parts bs 512 = Inr (enrollment_bytes ?q, sig)"
    using bs length_enrollment_bytes [of ?q] by (simp add: signed_parts_short)
  have "read_enrollment (enrollment_bytes ?q) = Inr ?q" "enrollment_body ?q = Inr (enrollment_bytes ?q)"
    using ok by (simp_all add: read_enrollment_iff enrollment_body_Inr)
  moreover have "verify p (signing_public_key p k) scope Enrollment (enrollment_bytes ?q) sig = Inr ()"
    by (rule sign_verify [OF assms(1) sig])
  ultimately show "\<exists>nonce. verify_enrollment_request p bs now =
      (if now > MAX_LOGICAL_TIME then Inl InvalidInput
       else if now < valid_from \<or> now \<ge> valid_until then Inl AuthenticationFailed
       else Inr \<lparr>eq_scope = scope, eq_member = MemberId (signing_public_key p k),
         eq_signing_key = signing_public_key p k, eq_delivery_key = kem_sk_to_pk h delivery,
         eq_valid_from = valid_from, eq_valid_until = valid_until, eq_nonce = nonce\<rparr>)"
    by (intro exI [of _ nonce]) (simp add: verify_enrollment_request_def check_time_def parts)
next
  show "\<forall>sig q seen stmts. verify_enrollment_request p (signed_record (enrollment_bytes q) sig) now = Inr q \<and>
       signed_only p (eq_signing_key q) seen stmts \<and> sig \<in> seen \<longrightarrow>
       (eq_scope q, Enrollment, enrollment_bytes q) \<in> stmts \<and> eq_member q = MemberId (eq_signing_key q)"
    using verify_signed by (fastforce simp: verify_enrollment_iff enrollment_ok_def dest: signed_record_inject)
qed

lemma sample_sign: "length body \<le> 300 \<Longrightarrow> sign sample_suite k sample_scope d body = Inr 0"
  by (simp add: sign_def signature_input_def scope_prefix_def sample_scope_def sample_suite_def I64_MAX_def
      word_le_nat_alt Let_def)

lemma sample_pk: "kem_sk_to_pk sample_kem k = k"
  by (simp add: sample_kem_def)

theorem enrollment_possession_witness:
  "\<exists>bs q. verify_enrollment_request sample_suite bs 15 = Inr q \<and> eq_member q = MemberId 1 \<and> eq_delivery_key q = 3"
proof -
  let ?q = "\<lparr>eq_scope = sample_scope, eq_member = MemberId 1, eq_signing_key = 1, eq_delivery_key = 3,
     eq_valid_from = 10, eq_valid_until = 20, eq_nonce = 0\<rparr>"
  have "enrollment_body ?q = Inr (enrollment_bytes ?q)"
    by (simp add: enrollment_body_Inr enrollment_ok_def sample_scope_def MAX_LOGICAL_TIME_def
        word_le_nat_alt word_less_nat_alt)
  then have created: "create_enrollment_request sample_suite sample_kem zero_source (IdentitySigningKey 0) 3 sample_scope 10 20 () =
      (Inr (signed_record (enrollment_bytes ?q) 0), ())"
    unfolding create_enrollment_request_def zero_source_def
    by (simp only: Let_def apfst_conv map_err_Inr bind_st_simps sample_public_key be_word_zeros sample_pk
        bindr_Inr sample_sign length_enrollment_bytes)
  have "signing_ok sample_suite" by (simp add: signing_ok_def sample_suite_def)
  from enrollment_possession [OF this created, where now = 15, THEN conjunct1]
  have "\<exists>nonce. verify_enrollment_request sample_suite (signed_record (enrollment_bytes ?q) 0) 15 =
      Inr (?q\<lparr>eq_nonce := nonce\<rparr>)"
    by (simp add: sample_public_key sample_pk MAX_LOGICAL_TIME_def word_le_nat_alt word_less_nat_alt)
  then show ?thesis by (elim exE) (rule exI, rule exI, rule conjI, assumption, simp)
qed

text \<open>
  A presence record a member signs is accepted by every holder of the roster until it
  expires. When no signature was forged, an accepted record was signed by the member it names,
  for the group and epoch of the roster.
\<close>

theorem presence_authentic:
  assumes "signing_ok p" and "sign_presence p k q roster now = Inr bs"
  shows "authenticate_presence p bs roster later =
      (if is_ok (validate_at roster later)
       then if pr_expires_at q \<le> later then Inl AuthenticationFailed else Inr q
       else bindr (validate_at roster later) (\<lambda>_. Inl AuthenticationFailed)) \<and>
    (\<forall>sig q' c seen stmts. authenticate_presence p (signed_record (presence_bytes (vr_scope roster) q') sig) roster later = Inr q' \<and>
       roster_member roster (pr_member q') = Inr c \<and> signed_only p (ct_signing_key c) seen stmts \<and> sig \<in> seen \<longrightarrow>
       (vr_scope roster, Presence, presence_bytes (vr_scope roster) q') \<in> stmts)"
proof
  let ?b = "presence_bytes (vr_scope roster) q"
  obtain c sig where c: "roster_member roster (pr_member q) = Inr c" "ct_signing_key c = signing_public_key p k"
    and ok: "presence_ok (vr_scope roster) q" and sig: "sign p k (vr_scope roster) Presence ?b = Inr sig"
    and bs: "bs = signed_record ?b sig"
    using assms(2) by (auto simp: sign_presence_def res_simps presence_body_Inr split: if_splits)
  have "read_presence ?b = Inr (vr_scope roster, q)" "presence_body (vr_scope roster) q = Inr ?b"
    "verify p (ct_signing_key c) (vr_scope roster) Presence ?b sig = Inr ()"
    using ok sign_verify [OF assms(1) sig] c(2) by (simp_all add: read_presence_iff presence_body_Inr)
  then show "authenticate_presence p bs roster later =
      (if is_ok (validate_at roster later)
       then if pr_expires_at q \<le> later then Inl AuthenticationFailed else Inr q
       else bindr (validate_at roster later) (\<lambda>_. Inl AuthenticationFailed))"
    using c(1) bs by (auto simp: authenticate_presence_def is_ok_iff bindr_def split: sum.splits)
next
  show "\<forall>sig q' c seen stmts. authenticate_presence p (signed_record (presence_bytes (vr_scope roster) q') sig) roster later = Inr q' \<and>
       roster_member roster (pr_member q') = Inr c \<and> signed_only p (ct_signing_key c) seen stmts \<and> sig \<in> seen \<longrightarrow>
       (vr_scope roster, Presence, presence_bytes (vr_scope roster) q') \<in> stmts"
    using verify_signed by (fastforce simp: authenticate_presence_iff dest: signed_record_inject)
qed

theorem presence_authentic_witness:
  "\<exists>bs. authenticate_presence sample_suite bs sample_roster 15 =
     Inr \<lparr>pr_member = MemberId 1, pr_incarnation = 1, pr_sequence = 4, pr_expires_at = 20\<rparr>"
proof -
  let ?q = "\<lparr>pr_member = MemberId 1, pr_incarnation = 1, pr_sequence = 4, pr_expires_at = 20\<rparr>"
  have m: "roster_member sample_roster (MemberId 1) = Inr (sample_claims 1)" "ct_signing_key (sample_claims 1) = 1"
    by (simp_all add: sample_members) (simp_all add: sample_claims_def)
  have b: "presence_body sample_scope ?q = Inr (presence_bytes sample_scope ?q)"
    by (simp add: presence_body_Inr presence_ok_def sample_scope_def MAX_LOGICAL_TIME_def word_le_nat_alt word_less_nat_alt)
  have len: "length (presence_bytes sample_scope ?q) \<le> 300"
    using length_presence_bytes [of sample_scope ?q] by simp
  have "sign_presence sample_suite (IdentitySigningKey 0) ?q sample_roster 10 =
      Inr (signed_record (presence_bytes sample_scope ?q) 0)"
    using sample_sign [OF len] b
    by (simp add: sign_presence_def sample_members(2,3) m sample_public_key sample_valid_until del: One_nat_def)
  moreover have "signing_ok sample_suite" by (simp add: signing_ok_def sample_suite_def)
  ultimately show ?thesis
    using presence_authentic [of sample_suite "IdentitySigningKey 0" ?q sample_roster 10 _ 15]
    by (auto simp: sample_members)
qed

end
