(* ===== verification/Mesh_Session.thy ===== *)
theory Mesh_Session
  imports Mesh_Roster
begin

text \<open>
  \<open>crates/mesh-session/src/lib.rs\<close>: the Noise XX handshake, the explicit confirmation of the
  certified identities, and the datagram session with its replay window. The \<open>snow\<close> crate is
  the record \<open>noise\<close> of functions; the session keeps its transport state as an opaque value.
\<close>

section \<open>Constants and configuration\<close>

definition MAX_PAYLOAD :: nat where [simp]: "MAX_PAYLOAD = 4096"
definition MAX_FRAME :: nat where [simp]: "MAX_FRAME = 1 + 32 + 8 + 1 + MAX_PAYLOAD + 16"
definition MAX_PACKETS :: u64 where "MAX_PACKETS = push_bit 20 1"
definition HANDSHAKE_TIMEOUT :: u64 where [simp]: "HANDSHAKE_TIMEOUT = 30"

lemma MAX_PACKETS_val: "MAX_PACKETS = 1048576"
  by (simp add: MAX_PACKETS_def)

datatype session_error =
    InvalidInput_session
  | WrongPhase
  | Authentication_session
  | Replay
  | Expired_session
  | RandomUnavailable_session
  | Closed
  | Exhausted

definition session_auth :: "'e + 'a \<Rightarrow> session_error + 'a" where
  "session_auth r = map_err (\<lambda>_. Authentication_session) r"

lemma session_auth_Inr [res_simps]: "session_auth r = Inr x \<longleftrightarrow> r = Inr x"
  by (simp add: session_auth_def res_simps)

lemma session_auth_simps [simp]:
  "session_auth (Inr x) = Inr x" "session_auth (Inl e) = Inl Authentication_session"
  by (simp_all add: session_auth_def)

datatype role = Initiator | Responder

primrec role_code :: "role \<Rightarrow> u64" where
  "role_code Initiator = 0"
| "role_code Responder = 1"

primrec opposite :: "role \<Rightarrow> role" where
  "opposite Initiator = Responder"
| "opposite Responder = Initiator"

record config =
  cf_role :: role
  cf_local :: member_id
  cf_expected_peer :: "member_id option"
  cf_now :: u64

datatype session_secret = SessionSecret (secret_bytes: arr32)

definition secret_generate :: "'r source \<Rightarrow> 'r \<Rightarrow> (session_error + session_secret) \<times> 'r" where
  "secret_generate fill rng =
     bind_st (apfst (map_err (\<lambda>_. RandomUnavailable_session)) (fill 32 rng)) (\<lambda>b rng.
       (Inr (SessionSecret (be_word b)), rng))"

definition prologue :: "scope \<Rightarrow> bytes" where
  "prologue s =
     (let w = [];
          w = w_array 6 w;
          w = w_text (ascii ''MeshLab/Session/v1'') w;
          w = w_uint 1 w;
          w = w_bytes (be_bytes (sc_group s)) w;
          w = w_uint (sc_epoch s) w;
          w = w_uint 1 w;
          w = w_uint (of_nat MAX_PAYLOAD) w
      in w)"

definition proof_body :: "scope \<Rightarrow> arr32 \<Rightarrow> member_id \<Rightarrow> role \<Rightarrow> bytes" where
  "proof_body s session member role =
     (let w = [];
          w = w_array 8 w;
          w = w_uint 1 w;
          w = w_bytes (be_bytes (sc_group s)) w;
          w = w_uint (sc_epoch s) w;
          w = w_bytes (be_bytes session) w;
          w = w_bytes (be_bytes (member_arr member)) w;
          w = w_uint (role_code role) w;
          w = w_uint 1 w;
          w = w_uint (of_nat MAX_PAYLOAD) w
      in w)"

section \<open>Handshake\<close>

text \<open>
  \<open>snow\<close>: \<open>nz_build\<close> is the builder with the pattern, the static key, the prologue and the one
  random sample of the resolver; a message function gives what it wrote, within the buffer
  length it is given, and the next state; \<open>nz_seal\<close> and \<open>nz_open\<close> are the two functions of the
  stateless transport.
\<close>

record ('h, 't) noise =
  nz_build :: "role \<Rightarrow> arr32 \<Rightarrow> bytes \<Rightarrow> arr32 \<Rightarrow> 'h option"
  nz_finished :: "'h \<Rightarrow> bool"
  nz_my_turn :: "'h \<Rightarrow> bool"
  nz_write :: "'h \<Rightarrow> bytes \<Rightarrow> nat \<Rightarrow> bytes option \<times> 'h"
  nz_read :: "'h \<Rightarrow> bytes \<Rightarrow> nat \<Rightarrow> bytes option \<times> 'h"
  nz_hash :: "'h \<Rightarrow> bytes"
  nz_transport :: "'h \<Rightarrow> 't option"
  nz_seal :: "'t \<Rightarrow> u64 \<Rightarrow> bytes \<Rightarrow> nat \<Rightarrow> bytes option"
  nz_open :: "'t \<Rightarrow> u64 \<Rightarrow> bytes \<Rightarrow> nat \<Rightarrow> bytes option"

record 'h handshake =
  hs_state :: "'h option"
  hs_config :: config
  hs_scope :: scope
  hs_roster :: arr32
  hs_deadline :: u64

definition handshake_start ::
    "('h, 't) noise \<Rightarrow> 'r source \<Rightarrow> config \<Rightarrow> verified_roster \<Rightarrow> session_secret \<Rightarrow> 'r
     \<Rightarrow> (session_error + 'h handshake) \<times> 'r" where
  "handshake_start z fill config roster key rng =
     bind_st (session_auth (validate_at roster (cf_now config)), rng) (\<lambda>_ rng.
     bind_st (session_auth (signing_key roster (cf_local config)), rng) (\<lambda>_ rng.
     if cf_expected_peer config = Some (cf_local config) then (Inl InvalidInput_session, rng) else
     bind_st (case cf_expected_peer config of
         None \<Rightarrow> Inr ()
       | Some peer \<Rightarrow> bindr (session_auth (signing_key roster peer)) (\<lambda>_. Inr ()), rng) (\<lambda>_ rng.
     bind_st (ok_or InvalidInput_session
         (case checked_add (cf_now config) HANDSHAKE_TIMEOUT of
            Some v \<Rightarrow> if v \<le> MAX_LOGICAL_TIME then Some v else None
          | None \<Rightarrow> None), rng) (\<lambda>deadline rng.
     bind_st (apfst (map_err (\<lambda>_. RandomUnavailable_session)) (fill 32 rng)) (\<lambda>entropy rng.
     bind_st (ok_or Authentication_session
         (nz_build z (cf_role config) (secret_bytes key) (prologue (vr_scope roster)) (be_word entropy)), rng) (\<lambda>state rng.
       (Inr \<lparr>hs_state = Some state, hs_config = config, hs_scope = vr_scope roster,
             hs_roster = vr_digest roster, hs_deadline = deadline\<rparr>, rng)))))))"

definition handshake_check :: "u64 \<Rightarrow> 'h handshake \<Rightarrow> (session_error + unit) \<times> 'h handshake" where
  "handshake_check now h =
     (if hs_state h = None then (Inl Closed, h)
      else if now < cf_now (hs_config h) \<or> now \<ge> hs_deadline h
      then (Inl Expired_session, h\<lparr>hs_state := None\<rparr>)
      else (Inr (), h))"

definition handshake_write ::
    "('h, 't) noise \<Rightarrow> u64 \<Rightarrow> 'h handshake \<Rightarrow> (session_error + bytes) \<times> 'h handshake" where
  "handshake_write z now h =
     bind_st (handshake_check now h) (\<lambda>_ h.
       case hs_state h of
         None \<Rightarrow> (Inl Closed, h)
       | Some s \<Rightarrow>
           if nz_finished z s \<or> \<not> nz_my_turn z s then (Inl WrongPhase, h)
           else (case nz_write z s [] 96 of
               (Some bs, s) \<Rightarrow> (Inr bs, h\<lparr>hs_state := Some s\<rparr>)
             | (None, s) \<Rightarrow> (Inl Authentication_session, h\<lparr>hs_state := None\<rparr>)))"

definition handshake_read ::
    "('h, 't) noise \<Rightarrow> bytes \<Rightarrow> u64 \<Rightarrow> 'h handshake \<Rightarrow> (session_error + unit) \<times> 'h handshake" where
  "handshake_read z bs now h =
     bind_st (handshake_check now h) (\<lambda>_ h.
       case hs_state h of
         None \<Rightarrow> (Inl Closed, h)
       | Some s \<Rightarrow>
           if nz_finished z s \<or> nz_my_turn z s then (Inl WrongPhase, h)
           else if bs = [] \<or> length bs > 96 then (Inl InvalidInput_session, h\<lparr>hs_state := None\<rparr>)
           else (case nz_read z s bs 96 of
               (Some [], s) \<Rightarrow> (Inr (), h\<lparr>hs_state := Some s\<rparr>)
             | (_, s) \<Rightarrow> (Inl Authentication_session, h\<lparr>hs_state := None\<rparr>)))"

section \<open>Replay window\<close>

record replay =
  rl_highest :: "u64 option"
  rl_bits :: u64

definition replay_default :: replay where
  "replay_default = \<lparr>rl_highest = None, rl_bits = 0\<rparr>"

definition replay_check :: "u64 \<Rightarrow> replay \<Rightarrow> session_error + unit" where
  "replay_check n r =
     (case rl_highest r of
        Some high \<Rightarrow>
          if n \<le> high then
            let delta = high - n in
            if delta \<ge> 64 \<or> rl_bits r AND push_bit (unat delta) 1 \<noteq> 0 then Inl Replay else Inr ()
          else Inr ()
      | None \<Rightarrow> Inr ())"

definition replay_accept :: "u64 \<Rightarrow> replay \<Rightarrow> replay" where
  "replay_accept n r =
     (case rl_highest r of
        None \<Rightarrow> r\<lparr>rl_highest := Some n, rl_bits := 1\<rparr>
      | Some high \<Rightarrow>
          if n > high then
            r\<lparr>rl_bits := (if n - high \<ge> 64 then 1 else push_bit (unat (n - high)) (rl_bits r) OR 1),
              rl_highest := Some n\<rparr>
          else r\<lparr>rl_bits := rl_bits r OR push_bit (unat (high - n)) 1\<rparr>)"

section \<open>Sessions\<close>

record 't session =
  ss_state :: "'t option"
  ss_id :: arr32
  ss_scope :: scope
  ss_roster :: arr32
  ss_role :: role
  ss_local :: member_id
  ss_expected :: "member_id option"
  ss_peer :: "member_id option"
  ss_sent_auth :: bool
  ss_next :: u64
  ss_replay :: replay
  ss_started :: u64
  ss_deadline :: u64

datatype incoming = Authenticated member_id | Data bytes

definition handshake_finish ::
    "('h, 't) noise \<Rightarrow> verified_roster \<Rightarrow> u64 \<Rightarrow> 'h handshake \<Rightarrow> session_error + 't session" where
  "handshake_finish z roster now h =
     (case handshake_check now h of
        (Inl e, _) \<Rightarrow> Inl e
      | (Inr _, h) \<Rightarrow>
          bindr (session_auth (validate_at roster now)) (\<lambda>_.
          if vr_digest roster \<noteq> hs_roster h then Inl Authentication_session else
          bindr (ok_or Closed (hs_state h)) (\<lambda>state.
          if \<not> nz_finished z state then Inl WrongPhase else
          bindr (if length (nz_hash z state) = 32 then Inr (be_word (nz_hash z state))
                 else Inl Authentication_session) (\<lambda>session_id.
          bindr (ok_or Authentication_session (nz_transport z state)) (\<lambda>state.
            Inr \<lparr>ss_state = Some state, ss_id = session_id, ss_scope = hs_scope h, ss_roster = hs_roster h,
                 ss_role = cf_role (hs_config h), ss_local = cf_local (hs_config h),
                 ss_expected = cf_expected_peer (hs_config h), ss_peer = None, ss_sent_auth = False,
                 ss_next = 1, ss_replay = replay_default, ss_started = cf_now (hs_config h),
                 ss_deadline = hs_deadline h\<rparr>)))))"

definition is_authenticated :: "'t session \<Rightarrow> bool" where
  "is_authenticated s \<longleftrightarrow> ss_state s \<noteq> None \<and> ss_sent_auth s \<and> ss_peer s \<noteq> None"

definition session_close :: "'t session \<Rightarrow> 't session" where
  "session_close s = s\<lparr>ss_state := None, ss_peer := None\<rparr>"

definition session_check ::
    "verified_roster \<Rightarrow> u64 \<Rightarrow> 't session \<Rightarrow> (session_error + unit) \<times> 't session" where
  "session_check roster now s =
     (if ss_state s = None then (Inl Closed, s)
      else if now < ss_started s \<or> (\<not> is_authenticated s \<and> now \<ge> ss_deadline s)
      then (Inl Expired_session, session_close s)
      else if vr_digest roster \<noteq> ss_roster s \<or> \<not> is_ok (validate_at roster now)
      then (Inl Authentication_session, session_close s)
      else (Inr (), s))"

definition session_frame :: "('h, 't) noise \<Rightarrow> u64 \<Rightarrow> bytes \<Rightarrow> 't session \<Rightarrow> session_error + bytes" where
  "session_frame z n clear s =
     bindr (ok_or Closed (ss_state s)) (\<lambda>state.
     bindr (ok_or Authentication_session (nz_seal z state n clear (length clear + 16))) (\<lambda>sealed.
       Inr ([1] @ be_bytes (ss_id s) @ be_bytes n @ sealed)))"

definition session_authentication ::
    "('h, 't) noise \<Rightarrow> suite \<Rightarrow> identity_signing_key \<Rightarrow> verified_roster \<Rightarrow> u64 \<Rightarrow> 't session
     \<Rightarrow> (session_error + bytes) \<times> 't session" where
  "session_authentication z p signer roster now s =
     bind_st (session_check roster now s) (\<lambda>_ s.
     if ss_sent_auth s then (Inl WrongPhase, s) else
     bind_st (session_auth (signing_key roster (ss_local s)), s) (\<lambda>key s.
     if key \<noteq> signing_public_key p signer then (Inl Authentication_session, s) else
     let body = proof_body (ss_scope s) (ss_id s) (ss_local s) (ss_role s) in
     bind_st (session_auth (sign p signer (ss_scope s) Session_domain body), s) (\<lambda>signature s.
     let w = [];
         w = w_array 2 w;
         w = w_bytes (be_bytes (member_arr (ss_local s))) w;
         w = w_bytes (be_bytes signature) w;
         clear = [0] @ w in
     bind_st (session_frame z 0 clear s, s) (\<lambda>bytes s.
       (Inr bytes, s\<lparr>ss_sent_auth := True\<rparr>)))))"

definition session_send ::
    "('h, 't) noise \<Rightarrow> bytes \<Rightarrow> verified_roster \<Rightarrow> u64 \<Rightarrow> 't session \<Rightarrow> (session_error + bytes) \<times> 't session" where
  "session_send z bs roster now s =
     bind_st (session_check roster now s) (\<lambda>_ s.
     if \<not> is_authenticated s then (Inl WrongPhase, s)
     else if bs = [] \<or> length bs > MAX_PAYLOAD then (Inl InvalidInput_session, s)
     else if ss_next s \<ge> MAX_PACKETS then (Inl Exhausted, session_close s)
     else
       let n = ss_next s;
           s = s\<lparr>ss_next := ss_next s + 1\<rparr>
       in (session_frame z n ([1] @ bs) s, s))"

text \<open>The closure of \<open>Session::receive\<close> that checks the identity proof.\<close>

definition read_proof :: "bytes \<Rightarrow> durable_error + member_id \<times> arr64" where
  "read_proof bs =
     bindr (reader_new bs 128) (\<lambda>r.
     bindr (reader_array 2 r) (\<lambda>(_, r).
     bindr (reader_fixed r) (\<lambda>(member, r).
     bindr (reader_fixed r) (\<lambda>(signature, r).
     bindr (reader_end r) (\<lambda>_.
       Inr (MemberId member, signature))))))"

definition check_proof ::
    "suite \<Rightarrow> bytes \<Rightarrow> verified_roster \<Rightarrow> 't session \<Rightarrow> session_error + member_id" where
  "check_proof p clear roster s =
     (if clear = [] \<or> hd clear \<noteq> 0 then Inl Authentication_session
      else
        bindr (session_auth (read_proof (tl clear))) (\<lambda>(member, signature).
        if member = ss_local s
           \<or> (case ss_expected s of Some m \<Rightarrow> m \<noteq> member | None \<Rightarrow> False)
        then Inl Authentication_session
        else
          let body = proof_body (ss_scope s) (ss_id s) member (opposite (ss_role s)) in
          bindr (session_auth (signing_key roster member)) (\<lambda>key.
          bindr (session_auth (verify p key (ss_scope s) Session_domain body signature)) (\<lambda>_.
            Inr member))))"

text \<open>The end of \<open>Session::receive\<close>, from the decrypted bytes on.\<close>

definition session_deliver ::
    "suite \<Rightarrow> u64 \<Rightarrow> bytes \<Rightarrow> verified_roster \<Rightarrow> 't session \<Rightarrow> (session_error + incoming) \<times> 't session" where
  "session_deliver p n clear roster s =
     (if n = 0 then
        (case check_proof p clear roster s of
           Inr member \<Rightarrow>
             (Inr (Authenticated member),
              s\<lparr>ss_peer := Some member, ss_replay := replay_accept 0 (ss_replay s)\<rparr>)
         | Inl e \<Rightarrow> (Inl e, session_close s))
      else if clear = [] \<or> hd clear \<noteq> 1 \<or> length clear < 2 \<or> length clear > MAX_PAYLOAD + 1
      then (Inl InvalidInput_session, session_close s)
      else (Inr (Data (tl clear)), s\<lparr>ss_replay := replay_accept n (ss_replay s)\<rparr>))"

definition session_receive ::
    "('h, 't) noise \<Rightarrow> suite \<Rightarrow> bytes \<Rightarrow> verified_roster \<Rightarrow> u64 \<Rightarrow> 't session
     \<Rightarrow> (session_error + incoming) \<times> 't session" where
  "session_receive z p frame roster now s =
     bind_st (session_check roster now s) (\<lambda>_ s.
     if length frame < 58 \<or> length frame > MAX_FRAME \<or> hd frame \<noteq> 1
        \<or> take 32 (drop 1 frame) \<noteq> be_bytes (ss_id s)
     then (Inl InvalidInput_session, s)
     else
       let n = be_word (take 8 (drop 33 frame)) :: u64 in
       if n \<ge> MAX_PACKETS then (Inl Exhausted, s)
       else
         bind_st (replay_check n (ss_replay s), s) (\<lambda>_ s.
         if n \<noteq> 0 \<and> \<not> is_authenticated s then (Inl WrongPhase, s)
         else
           bind_st (bindr (ok_or Closed (ss_state s)) (\<lambda>state.
               ok_or Authentication_session (nz_open z state n (drop 41 frame) (length frame - 41))), s) (\<lambda>clear s.
             session_deliver p n clear roster s)))"

section \<open>The replay window refines the set of accepted numbers\<close>

definition window_of :: "replay \<Rightarrow> u64 set \<Rightarrow> bool" where
  "window_of r A \<longleftrightarrow> finite A \<and>
     (case rl_highest r of
        None \<Rightarrow> A = {}
      | Some high \<Rightarrow> high \<in> A \<and> (\<forall>m \<in> A. m \<le> high) \<and>
          (\<forall>d < 64. bit (rl_bits r) d \<longleftrightarrow> (\<exists>m \<in> A. unat high = unat m + d)))"

text \<open>What the window has to decide: a number is new, and not 64 or more behind.\<close>

definition replayed :: "u64 \<Rightarrow> u64 set \<Rightarrow> bool" where
  "replayed n A \<longleftrightarrow> n \<in> A \<or> (\<exists>m \<in> A. unat n + 64 \<le> unat m)"

lemma window_default [simp]: "window_of replay_default {}"
  by (simp add: window_of_def replay_default_def)

lemma and_bit: "(w :: u64) AND 2 ^ k = 0 \<longleftrightarrow> \<not> bit w k"
  by (simp add: bit_iff_and_push_bit_not_eq_0)

lemma unat_diff: "n \<le> m \<Longrightarrow> unat (m - n) = unat m - unat n" for m n :: "'a::len word"
  by (simp add: unat_sub)

lemma replay_check_exact:
  assumes "window_of r A"
  shows "replay_check n r = (if replayed n A then Inl Replay else Inr ())"
proof (cases "rl_highest r")
  case None
  then show ?thesis using assms by (simp add: window_of_def replay_check_def replayed_def)
next
  case (Some high)
  then have h: "high \<in> A" "\<And>m. m \<in> A \<Longrightarrow> m \<le> high"
    and bits: "\<And>d. d < 64 \<Longrightarrow> bit (rl_bits r) d \<longleftrightarrow> (\<exists>m \<in> A. unat high = unat m + d)"
    using assms by (auto simp: window_of_def)
  show ?thesis
  proof (cases "n \<le> high")
    case le: True
    let ?d = "unat high - unat n"
    have u: "unat (high - n) = ?d" "unat n \<le> unat high"
      using le by (simp_all add: unat_diff word_le_nat_alt)
    have far: "high - n \<ge> 64 \<longleftrightarrow> 64 \<le> ?d" using u by (simp add: word_le_nat_alt)
    have old: "(\<exists>m \<in> A. unat n + 64 \<le> unat m) \<longleftrightarrow> 64 \<le> ?d"
    proof
      assume "\<exists>m \<in> A. unat n + 64 \<le> unat m"
      then obtain m where "m \<in> A" "unat n + 64 \<le> unat m" by blast
      moreover have "unat m \<le> unat high" using h(2) [OF \<open>m \<in> A\<close>] by (simp add: word_le_nat_alt)
      ultimately show "64 \<le> ?d" by linarith
    next
      assume "64 \<le> ?d"
      then show "\<exists>m \<in> A. unat n + 64 \<le> unat m" using h(1) u(2) by (intro bexI [of _ high]) linarith+
    qed
    have new: "bit (rl_bits r) ?d \<longleftrightarrow> n \<in> A" if "?d < 64"
    proof -
      have "unat high = unat m + ?d \<longleftrightarrow> m = n" for m
        using u(2) unfolding word_unat_eq_iff by arith
      then show ?thesis using bits [OF that] by simp
    qed
    show ?thesis
      using far old new Some le unfolding replay_check_def replayed_def
      by (cases "?d < 64") (auto simp: Let_def and_bit u(1))
  next
    case False
    then have "\<not> replayed n A" using h by (force simp: replayed_def word_le_nat_alt)
    then show ?thesis using False Some by (simp add: replay_check_def)
  qed
qed

lemma replay_accept_window:
  assumes "window_of r A" and "\<not> replayed n A"
  shows "window_of (replay_accept n r) (insert n A)"
proof (cases "rl_highest r")
  case None
  then have "A = {}" using assms(1) by (simp add: window_of_def)
  then show ?thesis using None by (simp add: window_of_def replay_accept_def bit_1_iff)
next
  case (Some high)
  then have h: "high \<in> A" "\<And>m. m \<in> A \<Longrightarrow> m \<le> high" "finite A"
    and bits: "\<And>d. d < 64 \<Longrightarrow> bit (rl_bits r) d \<longleftrightarrow> (\<exists>m \<in> A. unat high = unat m + d)"
    using assms(1) by (auto simp: window_of_def)
  show ?thesis
  proof (cases "n > high")
    case gt: True
    let ?k = "unat n - unat high"
    have u: "unat (n - high) = ?k" "unat high < unat n"
      using gt unat_diff [of high n] by (simp_all add: word_less_nat_alt word_le_nat_alt)
    have le: "m \<in> A \<Longrightarrow> unat m \<le> unat high" for m using h(2) by (simp add: word_le_nat_alt)
    have new: "bit (if n - high \<ge> 64 then 1 else push_bit (unat (n - high)) (rl_bits r) OR 1) d \<longleftrightarrow>
        (\<exists>m \<in> insert n A. unat n = unat m + d)" if d: "d < 64" for d
    proof (cases "64 \<le> ?k")
      case True
      then have "n - high \<ge> 64" using u by (simp add: word_le_nat_alt)
      then show ?thesis using True d u le by (fastforce simp: bit_1_iff)
    next
      case False
      then have c: "\<not> n - high \<ge> 64" using u by (simp add: word_le_nat_alt)
      have "(\<exists>m \<in> A. unat n = unat m + d) \<longleftrightarrow> ?k \<le> d \<and> (\<exists>m \<in> A. unat high = unat m + (d - ?k))"
      proof -
        have "unat n = unat m + d \<longleftrightarrow> ?k \<le> d \<and> unat high = unat m + (d - ?k)" if "m \<in> A" for m
          using u(2) le [OF that] by arith
        then show ?thesis by (simp cong: bex_cong)
      qed
      then show ?thesis
        using c d bits [of "d - ?k"] u by (auto simp: bit_or_iff bit_push_bit_iff bit_1_iff)
    qed
    have "m \<in> A \<Longrightarrow> m \<le> n" for m using h(2) gt by (meson less_imp_le order_trans)
    then show ?thesis
      using new h gt Some by (auto simp: window_of_def replay_accept_def)
  next
    case False
    then have le: "n \<le> high" by simp
    let ?k = "unat high - unat n"
    have u: "unat (high - n) = ?k" "unat n \<le> unat high" using le by (simp_all add: unat_diff word_le_nat_alt)
    have "?k < 64" using assms(2) h(1) u(2) by (force simp: replayed_def)
    then have "bit (rl_bits r OR push_bit (unat (high - n)) 1) d \<longleftrightarrow> (\<exists>m \<in> insert n A. unat high = unat m + d)"
      if "d < 64" for d
      using that bits [OF that] u by (auto simp: bit_or_iff bit_exp_iff)
    then show ?thesis using h le Some by (auto simp: window_of_def replay_accept_def)
  qed
qed

text \<open>Feeding numbers to the window: the state and the numbers it let through.\<close>

fun replay_run :: "u64 list \<Rightarrow> replay \<Rightarrow> u64 list \<times> replay" where
  "replay_run [] r = ([], r)"
| "replay_run (n # ns) r =
     (case replay_check n r of
        Inl e \<Rightarrow> replay_run ns r
      | Inr u \<Rightarrow> (case replay_run ns (replay_accept n r) of (acc, r') \<Rightarrow> (n # acc, r')))"

lemma replay_run_window:
  assumes "window_of r A"
  shows "window_of (snd (replay_run ns r)) (A \<union> set (fst (replay_run ns r))) \<and>
    distinct (fst (replay_run ns r)) \<and> A \<inter> set (fst (replay_run ns r)) = {}"
  using assms
proof (induction ns arbitrary: r A)
  case (Cons n ns)
  show ?case
  proof (cases "replayed n A")
    case True
    then have "replay_run (n # ns) r = replay_run ns r"
      by (simp add: replay_check_exact [OF Cons.prems])
    then show ?thesis using Cons.IH [OF Cons.prems] by simp
  next
    case False
    obtain acc r' where run: "replay_run ns (replay_accept n r) = (acc, r')" by force
    have "replay_run (n # ns) r = (n # acc, r')"
      using False run by (simp add: replay_check_exact [OF Cons.prems])
    then show ?thesis
      using Cons.IH [OF replay_accept_window [OF Cons.prems False]] run False by (auto simp: replayed_def)
  qed
qed simp

text \<open>
  C23: the replay window implements the set of accepted packet numbers: after any numbers it has
  let each number through at most once, and it rejects the next one exactly when it was let
  through before or is 64 or more behind one that was.
\<close>

theorem replay_window_exact:
  "distinct (fst (replay_run ns replay_default)) \<and>
   replay_check n (snd (replay_run ns replay_default)) =
     (if replayed n (set (fst (replay_run ns replay_default))) then Inl Replay else Inr ())"
  using replay_run_window [OF window_default, of ns] replay_check_exact by simp

end
