(* ===== verification/Mesh_Channel.thy ===== *)
theory Mesh_Channel
  imports Mesh_Session Mesh_Link
begin

text \<open>
  Runs of a session (\<open>crates/mesh-session/src/lib.rs\<close>) and the session link of
  \<open>crates/mesh-runtime/src/link.rs\<close>: what holds over any sequence of calls, and what two
  sessions that share a transport deliver to each other.
\<close>

section \<open>Single calls\<close>

named_theorems session_simps "inversions of the session's operations"

lemma session_check_Inr [session_simps]:
  "session_check roster now s = (Inr u, s') \<longleftrightarrow> s' = s \<and> ss_state s \<noteq> None \<and> ss_started s \<le> now \<and>
     (is_authenticated s \<or> now < ss_deadline s) \<and> vr_digest roster = ss_roster s \<and> is_ok (validate_at roster now)"
  by (auto simp: session_check_def not_less not_le)

lemma session_check_Inl:
  "session_check roster now s = (Inl e, s') \<Longrightarrow>
     s' = session_close s \<and> e \<noteq> Closed \<and> ss_state s \<noteq> None \<or> s' = s \<and> e = Closed \<and> ss_state s = None"
  by (auto simp: session_check_def split: if_splits)

lemma session_frame_Inr [session_simps]:
  "session_frame z n clear s = Inr f \<longleftrightarrow>
     (\<exists>t sealed. ss_state s = Some t \<and> nz_seal z t n clear (length clear + 16) = Some sealed \<and>
        f = [1] @ be_bytes (ss_id s) @ be_bytes n @ sealed)"
  by (auto simp: session_frame_def res_simps)

definition frame_number :: "bytes \<Rightarrow> u64" where
  "frame_number f = be_word (take 8 (drop 33 f))"

lemma frame_number_frame [simp]: "frame_number (1 # be_bytes (i :: arr32) @ be_bytes (n :: u64) @ c) = n"
  by (simp add: frame_number_def)

lemma frame_number_zero [simp]: "frame_number (1 # be_bytes (i :: arr32) @ replicate 8 0 @ c) = 0"
  using frame_number_frame [of i 0 c] by simp

definition auth_record :: "member_id \<Rightarrow> arr64 \<Rightarrow> bytes" where
  "auth_record m sig = array_bytes 2 @ fixed_bytes (member_arr m) @ fixed_bytes sig"

lemma read_proof_iff: "read_proof bs = Inr (m, sig) \<longleftrightarrow> bs = auth_record m sig"
proof -
  have "read_proof bs = Inr (m, sig) \<longleftrightarrow> length bs \<le> 128 \<and> bs = auth_record m sig"
    unfolding read_proof_def
    apply (rule trans [OF decode_iff])
      apply (rule parses_rules field_reads)+
     apply simp
    apply (cases m)
    apply (auto simp: auth_record_def)
    done
  moreover have "length (auth_record m sig) \<le> 128"
    using length_array [of 2] by (simp add: auth_record_def field_lengths)
  ultimately show ?thesis by auto
qed

lemma auth_record_inject [simp]: "auth_record m sig = auth_record m' sig' \<longleftrightarrow> m = m' \<and> sig = sig'"
  using read_proof_iff [of "auth_record m sig"] by (metis prod.inject sum.inject(2))

lemma authentication_Inr:
  "session_authentication z p signer roster now s = (Inr f, s') \<longleftrightarrow>
     session_check roster now s = (Inr (), s) \<and> \<not> ss_sent_auth s \<and>
     signing_key roster (ss_local s) = Inr (signing_public_key p signer) \<and>
     (\<exists>sig. sign p signer (ss_scope s) Session_domain (proof_body (ss_scope s) (ss_id s) (ss_local s) (ss_role s)) = Inr sig \<and>
        session_frame z 0 (0 # auth_record (ss_local s) sig) s = Inr f) \<and>
     s' = s\<lparr>ss_sent_auth := True\<rparr>"
  by (auto simp: session_authentication_def res_simps session_simps auth_record_def w_simps fixed_bytes_def Let_def
      split: if_splits)

lemma send_Inr:
  "session_send z bs roster now s = (Inr f, s') \<longleftrightarrow>
     session_check roster now s = (Inr (), s) \<and> is_authenticated s \<and> bs \<noteq> [] \<and> length bs \<le> MAX_PAYLOAD \<and>
     ss_next s < MAX_PACKETS \<and> s' = s\<lparr>ss_next := ss_next s + 1\<rparr> \<and> session_frame z (ss_next s) (1 # bs) s = Inr f"
  by (auto simp: session_send_def res_simps session_simps Let_def not_le split: if_splits)

lemma check_proof_Inr:
  "check_proof p clear roster s = Inr m \<longleftrightarrow>
     (\<exists>sig c. clear = 0 # auth_record m sig \<and> m \<noteq> ss_local s \<and>
        (ss_expected s = None \<or> ss_expected s = Some m) \<and> roster_member roster m = Inr c \<and>
        verify p (ct_signing_key c) (ss_scope s) Session_domain
          (proof_body (ss_scope s) (ss_id s) m (opposite (ss_role s))) sig = Inr ())"
  by (cases clear; cases "ss_expected s")
    (auto simp: check_proof_def res_simps read_proof_iff signing_key_def Let_def split: option.splits if_splits)

definition fits_session :: "bytes \<Rightarrow> 't session \<Rightarrow> bool" where
  "fits_session f s \<longleftrightarrow> 58 \<le> length f \<and> length f \<le> MAX_FRAME \<and> hd f = 1 \<and>
     take 32 (drop 1 f) = be_bytes (ss_id s) \<and> frame_number f < MAX_PACKETS"

lemma deliver_Inr [session_simps]:
  "session_deliver p n clear roster s = (Inr i, s') \<longleftrightarrow>
     (if n = 0
      then \<exists>m. check_proof p clear roster s = Inr m \<and> i = Authenticated m \<and>
        s' = s\<lparr>ss_peer := Some m, ss_replay := replay_accept 0 (ss_replay s)\<rparr>
      else (\<exists>d. clear = 1 # d \<and> d \<noteq> [] \<and> length d \<le> MAX_PAYLOAD \<and> i = Data d) \<and>
        s' = s\<lparr>ss_replay := replay_accept n (ss_replay s)\<rparr>)"
  by (cases clear) (auto simp: session_deliver_def Suc_le_eq split: sum.splits)

lemma receive_Inr:
  "session_receive z p f roster now s = (Inr i, s') \<longleftrightarrow>
     session_check roster now s = (Inr (), s) \<and> fits_session f s \<and>
     replay_check (frame_number f) (ss_replay s) = Inr () \<and> (frame_number f = 0 \<or> is_authenticated s) \<and>
     (\<exists>t clear. ss_state s = Some t \<and> nz_open z t (frame_number f) (drop 41 f) (length f - 41) = Some clear \<and>
        session_deliver p (frame_number f) clear roster s = (Inr i, s'))"
  unfolding session_receive_def fits_session_def frame_number_def [symmetric] Let_def
  by (auto simp: res_simps session_check_Inr not_le not_less split: if_splits)

lemma authentication_Inl:
  "session_authentication z p signer roster now s = (Inl e, s') \<Longrightarrow> s' = s \<or> s' = session_close s"
  by (auto simp: session_authentication_def bind_st_def Let_def split: prod.splits sum.splits if_splits
      dest!: session_check_Inl) (auto simp: session_check_Inr)

lemma send_Inl:
  "session_send z bs roster now s = (Inl e, s') \<Longrightarrow>
     s' = s \<or> s' = session_close s \<or> ss_next s < MAX_PACKETS \<and> s' = s\<lparr>ss_next := ss_next s + 1\<rparr>"
  by (auto simp: session_send_def bind_st_def Let_def not_le split: prod.splits sum.splits if_splits
      dest!: session_check_Inl) (auto simp: session_check_Inr)

lemma deliver_Inl: "session_deliver p n clear roster s = (Inl e, s') \<Longrightarrow> s' = session_close s"
  by (auto simp: session_deliver_def split: sum.splits if_splits)

lemma receive_Inl:
  "session_receive z p f roster now s = (Inl e, s') \<Longrightarrow> s' = s \<or> s' = session_close s"
  by (auto simp: session_receive_def bind_st_def Let_def split: prod.splits sum.splits if_splits
      dest!: session_check_Inl deliver_Inl) (auto simp: session_check_Inr)

section \<open>Runs\<close>

datatype session_call =
    Authenticate identity_signing_key verified_roster u64
  | Send_data bytes verified_roster u64
  | Receive_frame bytes verified_roster u64
  | Close_session

datatype session_out =
    Sent "session_error + bytes"
  | Got "session_error + incoming"
  | Done

fun session_step ::
    "('h, 't) noise \<Rightarrow> suite \<Rightarrow> session_call \<Rightarrow> 't session \<Rightarrow> session_out \<times> 't session" where
  "session_step z p (Authenticate k roster now) s = apfst Sent (session_authentication z p k roster now s)"
| "session_step z p (Send_data bs roster now) s = apfst Sent (session_send z bs roster now s)"
| "session_step z p (Receive_frame f roster now) s = apfst Got (session_receive z p f roster now s)"
| "session_step z p Close_session s = (Done, session_close s)"

inductive session_run ::
    "('h, 't) noise \<Rightarrow> suite \<Rightarrow> 't session \<Rightarrow> (session_call \<times> session_out) list \<Rightarrow> 't session \<Rightarrow> bool"
  for z p s where
  start: "session_run z p s [] s"
| step: "session_run z p s h u \<Longrightarrow> session_step z p c u = (r, v) \<Longrightarrow> session_run z p s (h @ [(c, r)]) v"

inductive_cases session_run_snocE: "session_run z p s (h @ [x]) v"

text \<open>The packet numbers of the frames a run returned, and of the frames it accepted.\<close>

fun sent_number :: "session_call \<times> session_out \<Rightarrow> u64 list" where
  "sent_number (c, Sent (Inr f)) = [frame_number f]"
| "sent_number x = []"

fun accepted_number :: "session_call \<times> session_out \<Rightarrow> u64 list" where
  "accepted_number (Receive_frame f roster now, Got (Inr i)) = [frame_number f]"
| "accepted_number x = []"

fun delivered :: "session_call \<times> session_out \<Rightarrow> bytes list" where
  "delivered (c, Got (Inr (Data d))) = [d]"
| "delivered x = []"

definition numbers :: "(session_call \<times> session_out \<Rightarrow> u64 list) \<Rightarrow> (session_call \<times> session_out) list \<Rightarrow> u64 list" where
  "numbers f h = concat (map f h)"

lemma numbers_simps [simp]: "numbers f [] = []" "numbers f (h @ [x]) = numbers f h @ f x"
  by (simp_all add: numbers_def)

definition fresh_session :: "'t session \<Rightarrow> bool" where
  "fresh_session s \<longleftrightarrow> ss_state s \<noteq> None \<and> ss_peer s = None \<and> \<not> ss_sent_auth s \<and> ss_next s = 1 \<and>
     ss_replay s = replay_default"

lemma handshake_finish_fresh: "handshake_finish z roster now h = Inr s \<Longrightarrow> fresh_session s"
  by (auto simp: handshake_finish_def fresh_session_def res_simps split: prod.splits sum.splits if_splits)

text \<open>The invariant of a run: the numbers sent and accepted so far.\<close>

definition session_inv :: "u64 list \<Rightarrow> u64 list \<Rightarrow> 't session \<Rightarrow> bool" where
  "session_inv sent acc s \<longleftrightarrow>
     0 < ss_next s \<and> ss_next s \<le> MAX_PACKETS \<and> distinct sent \<and> (\<forall>n \<in> set sent. n < ss_next s) \<and>
     (ss_sent_auth s \<longleftrightarrow> 0 \<in> set sent) \<and>
     distinct acc \<and> window_of (ss_replay s) (set acc) \<and> (\<forall>n \<in> set acc. n < MAX_PACKETS) \<and>
     (\<forall>n \<in> set acc. n \<noteq> 0 \<longrightarrow> 0 \<in> set acc) \<and> (ss_peer s \<noteq> None \<longrightarrow> 0 \<in> set acc)"

lemma session_inv_fresh: "fresh_session s \<Longrightarrow> session_inv [] [] s"
  by (simp add: fresh_session_def session_inv_def MAX_PACKETS_val word_le_nat_alt)

lemma session_inv_close: "session_inv sent acc s \<Longrightarrow> session_inv sent acc (session_close s)"
  by (simp add: session_inv_def session_close_def)

lemma next_number: "n < MAX_PACKETS \<Longrightarrow> 0 < n \<Longrightarrow> 0 < n + 1 \<and> n + 1 \<le> MAX_PACKETS \<and> n < n + 1"
  using unat_add_one [of n MAX_PACKETS] by (simp add: word_less_nat_alt word_le_nat_alt)

lemma session_inv_next:
  "session_inv sent acc s \<Longrightarrow> ss_next s < MAX_PACKETS \<Longrightarrow> session_inv sent acc (s\<lparr>ss_next := ss_next s + 1\<rparr>)"
  using next_number [of "ss_next s"] by (auto simp: session_inv_def intro: less_trans)

lemma session_step_inv:
  assumes "session_inv sent acc s" and "session_step z p c s = (r, v)"
  shows "session_inv (sent @ sent_number (c, r)) (acc @ accepted_number (c, r)) v"
proof (cases c)
  case (Authenticate k roster now)
  then obtain x where x: "session_authentication z p k roster now s = (x, v)" "r = Sent x"
    using assms(2) by (cases "session_authentication z p k roster now s") auto
  show ?thesis
  proof (cases x)
    case (Inl e)
    then show ?thesis using x assms(1) authentication_Inl [of z p k roster now s e v] session_inv_close
      by (auto simp: Authenticate)
  next
    case (Inr f)
    then have f: "\<not> ss_sent_auth s" "v = s\<lparr>ss_sent_auth := True\<rparr>" "frame_number f = 0"
      using x(1) by (auto simp: authentication_Inr session_frame_Inr)
    then show ?thesis using assms(1) x(2) by (auto simp: Inr Authenticate session_inv_def)
  qed
next
  case (Send_data bs roster now)
  then obtain x where x: "session_send z bs roster now s = (x, v)" "r = Sent x"
    using assms(2) by (cases "session_send z bs roster now s") auto
  show ?thesis
  proof (cases x)
    case (Inl e)
    then show ?thesis
      using x assms(1) send_Inl [of z bs roster now s e v] session_inv_close session_inv_next
      by (auto simp: Send_data)
  next
    case (Inr f)
    then have f: "ss_next s < MAX_PACKETS" "v = s\<lparr>ss_next := ss_next s + 1\<rparr>" "frame_number f = ss_next s"
      using x(1) by (auto simp: send_Inr session_frame_Inr)
    then show ?thesis
      using assms(1) x(2) next_number [of "ss_next s"]
      by (auto simp: Inr Send_data session_inv_def intro: less_trans)
  qed
next
  case (Receive_frame f roster now)
  then obtain x where x: "session_receive z p f roster now s = (x, v)" "r = Got x"
    using assms(2) by (cases "session_receive z p f roster now s") auto
  show ?thesis
  proof (cases x)
    case (Inl e)
    then show ?thesis using x assms(1) receive_Inl [of z p f roster now s e v] session_inv_close
      by (auto simp: Receive_frame)
  next
    case (Inr i)
    then have c: "replay_check (frame_number f) (ss_replay s) = Inr ()" "frame_number f < MAX_PACKETS"
        "frame_number f = 0 \<or> ss_peer s \<noteq> None"
      and v: "ss_replay v = replay_accept (frame_number f) (ss_replay s)" "ss_next v = ss_next s"
        "ss_sent_auth v = ss_sent_auth s" "ss_peer v = ss_peer s \<or> frame_number f = 0"
      using x(1) by (auto simp: receive_Inr deliver_Inr fits_session_def is_authenticated_def split: if_splits)
    have w: "window_of (ss_replay s) (set acc)" using assms(1) by (simp add: session_inv_def)
    then have new: "\<not> replayed (frame_number f) (set acc)"
      using c(1) by (simp add: replay_check_exact split: if_splits)
    then have "window_of (ss_replay v) (insert (frame_number f) (set acc))"
      using replay_accept_window [OF w] v(1) by simp
    then show ?thesis
      using assms(1) c v new x(2) by (auto simp: Inr Receive_frame session_inv_def replayed_def)
  qed
next
  case Close_session
  then show ?thesis using assms session_inv_close by auto
qed

lemma session_run_inv:
  assumes "session_run z p s h v" and "session_inv [] [] s"
  shows "session_inv (numbers sent_number h) (numbers accepted_number h) v"
  using assms by (induction rule: session_run.induct) (auto intro: session_step_inv)

text \<open>
  C18: over any calls on a session no two frames it returns carry the same packet number, so the
  cipher never seals two packets under one nonce, and no packet number is accepted twice; both
  stay below the packet limit.
\<close>

theorem packet_numbers_once:
  assumes "handshake_finish z roster now hs = Inr s" and "session_run z p s h v"
  shows "distinct (numbers sent_number h) \<and> distinct (numbers accepted_number h) \<and>
    (\<forall>n \<in> set (numbers sent_number h @ numbers accepted_number h). n < MAX_PACKETS)"
  using session_run_inv [OF assms(2) session_inv_fresh [OF handshake_finish_fresh [OF assms(1)]]]
  by (auto simp: session_inv_def)

section \<open>Whom a session talks to\<close>

text \<open>What stays of a session: its identity, and a proof for the peer it has.\<close>

definition same_channel :: "'t session \<Rightarrow> 't session \<Rightarrow> bool" where
  "same_channel s v \<longleftrightarrow> ss_id v = ss_id s \<and> ss_scope v = ss_scope s \<and> ss_roster v = ss_roster s \<and>
     ss_role v = ss_role s \<and> ss_local v = ss_local s \<and> ss_expected v = ss_expected s"

definition peer_statement :: "'t session \<Rightarrow> member_id \<Rightarrow> bytes" where
  "peer_statement s m = proof_body (ss_scope s) (ss_id s) m (opposite (ss_role s))"

definition peer_proved ::
    "('h, 't) noise \<Rightarrow> suite \<Rightarrow> 't session \<Rightarrow> session_call \<times> session_out \<Rightarrow> member_id \<Rightarrow> arr64 \<Rightarrow> arr32 \<Rightarrow> bool" where
  "peer_proved z p s x m sig key \<longleftrightarrow> (\<exists>f roster now t c.
     x = (Receive_frame f roster now, Got (Inr (Authenticated m))) \<and>
     nz_open z t 0 (drop 41 f) (length f - 41) = Some (0 # auth_record m sig) \<and>
     m \<noteq> ss_local s \<and> (ss_expected s = None \<or> ss_expected s = Some m) \<and>
     vr_digest roster = ss_roster s \<and> is_ok (validate_at roster now) \<and> roster_member roster m = Inr c \<and>
     key = ct_signing_key c \<and> verify p key (ss_scope s) Session_domain (peer_statement s m) sig = Inr ())"

lemma same_channel_update [simp]:
  "same_channel s (v\<lparr>ss_sent_auth := a\<rparr>) = same_channel s v" "same_channel s (v\<lparr>ss_next := n\<rparr>) = same_channel s v"
  "same_channel s (v\<lparr>ss_peer := q\<rparr>) = same_channel s v" "same_channel s (v\<lparr>ss_replay := r\<rparr>) = same_channel s v"
  "same_channel s (session_close v) = same_channel s v"
  by (simp_all add: same_channel_def session_close_def)

text \<open>One call: the channel stays, the peer comes from an identity proof, data needs both proofs.\<close>

lemma session_step_peer:
  assumes "session_step z p c s = (r, v)"
  shows "same_channel s v \<and>
    (\<forall>m. ss_peer v = Some m \<longrightarrow> ss_peer s = Some m \<or> (\<exists>sig key. peer_proved z p s (c, r) m sig key)) \<and>
    (ss_sent_auth v \<longrightarrow> ss_sent_auth s \<or> (\<exists>f. r = Sent (Inr f))) \<and>
    (\<forall>m. r = Got (Inr (Authenticated m)) \<longrightarrow> (\<exists>sig key. peer_proved z p s (c, r) m sig key)) \<and>
    (\<forall>d. r = Got (Inr (Data d)) \<longrightarrow> is_authenticated s)"
proof (cases c)
  case (Authenticate k roster now)
  then obtain x where x: "session_authentication z p k roster now s = (x, v)" "r = Sent x"
    using assms by (cases "session_authentication z p k roster now s") auto
  show ?thesis
    using x authentication_Inl [of z p k roster now s _ v]
    by (cases x) (auto simp: authentication_Inr same_channel_def session_close_def)
next
  case (Send_data bs roster now)
  then obtain x where x: "session_send z bs roster now s = (x, v)" "r = Sent x"
    using assms by (cases "session_send z bs roster now s") auto
  show ?thesis
    using x send_Inl [of z bs roster now s _ v]
    by (cases x) (auto simp: send_Inr same_channel_def session_close_def)
next
  case (Receive_frame f roster now)
  then obtain x where x: "session_receive z p f roster now s = (x, v)" "r = Got x"
    using assms by (cases "session_receive z p f roster now s") auto
  show ?thesis
  proof (cases x)
    case (Inl e)
    then show ?thesis
      using x receive_Inl [of z p f roster now s e v] by (auto simp: same_channel_def session_close_def)
  next
    case (Inr i)
    then have chk: "session_check roster now s = (Inr (), s)"
      and d: "\<exists>t clear. nz_open z t (frame_number f) (drop 41 f) (length f - 41) = Some clear \<and>
        session_deliver p (frame_number f) clear roster s = (Inr i, v)"
      and a: "frame_number f = 0 \<or> is_authenticated s"
      using x(1) by (auto simp: receive_Inr)
    have valid: "vr_digest roster = ss_roster s" "is_ok (validate_at roster now)"
      using chk by (auto simp: session_check_Inr)
    show ?thesis
    proof (cases "frame_number f = 0")
      case True
      then obtain m t clear where o: "nz_open z t 0 (drop 41 f) (length f - 41) = Some clear"
        and m: "check_proof p clear roster s = Inr m" "i = Authenticated m"
        "v = s\<lparr>ss_peer := Some m, ss_replay := replay_accept 0 (ss_replay s)\<rparr>"
        using d by (auto simp: deliver_Inr)
      then have "(\<exists>sig key. peer_proved z p s (c, r) m sig key)"
        using valid x(2) Inr Receive_frame o unfolding peer_proved_def peer_statement_def check_proof_Inr by fastforce
      then show ?thesis using m x(2) Inr by (auto simp: same_channel_def)
    next
      case False
      then show ?thesis using d a x(2) Inr by (auto simp: deliver_Inr same_channel_def)
    qed
  qed
next
  case Close_session
  then show ?thesis using assms by (auto simp: same_channel_def session_close_def)
qed

lemma peer_proved_same: "same_channel s v \<Longrightarrow> peer_proved z p v x m sig key \<longleftrightarrow> peer_proved z p s x m sig key"
  by (simp add: peer_proved_def same_channel_def peer_statement_def)

lemma session_run_peer:
  assumes "session_run z p s h v" and "ss_peer s = None" and "\<not> ss_sent_auth s"
  shows "same_channel s v \<and> (\<forall>m. ss_peer v = Some m \<longrightarrow> (\<exists>x \<in> set h. (\<exists>sig key. peer_proved z p s x m sig key))) \<and>
    (ss_sent_auth v \<longrightarrow> (\<exists>c f. (c, Sent (Inr f)) \<in> set h)) \<and>
    (\<forall>c m. (c, Got (Inr (Authenticated m))) \<in> set h \<longrightarrow> (\<exists>sig key. peer_proved z p s (c, Got (Inr (Authenticated m))) m sig key)) \<and>
    (\<forall>c d. (c, Got (Inr (Data d))) \<in> set h \<longrightarrow> (\<exists>x \<in> set h. \<exists>m. (\<exists>sig key. peer_proved z p s x m sig key)) \<and> (\<exists>c f. (c, Sent (Inr f)) \<in> set h))"
  using assms
proof (induction rule: session_run.induct)
  case start
  then show ?case by (simp add: same_channel_def)
next
  case (step h u c r v)
  note ih = step.IH [OF step.prems]
  note st = session_step_peer [OF step.hyps(2)]
  have same: "same_channel s u" using ih by blast
  have trans: "same_channel s v" using st same by (auto simp: same_channel_def)
  note prove = peer_proved_same [OF same]
  show ?case
    using ih st trans unfolding prove is_authenticated_def by (auto; blast)
qed

text \<open>
  C17: data is delivered by a session only after it proved its own identity and a peer proved
  its: the peer's proof came in a frame of this session, names a member of the roster the
  session was set up with, the expected one if there is one, never the session's own, and when
  its signature was not forged that member signed the body that binds group, epoch, session,
  member and the opposite role.
\<close>

theorem session_peer_authentic:
  assumes "handshake_finish z roster0 now0 hs = Inr s" and "session_run z p s h v"
    and "(c, Got (Inr (Data d))) \<in> set h"
  shows "(\<exists>c f. (c, Sent (Inr f)) \<in> set h) \<and>
    (\<exists>f roster now m t sig cl.
       (Receive_frame f roster now, Got (Inr (Authenticated m))) \<in> set h \<and>
       nz_open z t 0 (drop 41 f) (length f - 41) = Some (0 # auth_record m sig) \<and>
       m \<noteq> cf_local (hs_config hs) \<and> cf_expected_peer (hs_config hs) \<in> {None, Some m} \<and>
       vr_digest roster = vr_digest roster0 \<and> roster_member roster m = Inr cl \<and>
       (\<forall>seen stmts. signed_only p (ct_signing_key cl) seen stmts \<and> sig \<in> seen \<longrightarrow>
          (hs_scope hs, Session_domain,
           proof_body (hs_scope hs) (ss_id s) m (opposite (cf_role (hs_config hs)))) \<in> stmts))"
proof -
  have s: "ss_scope s = hs_scope hs" "ss_local s = cf_local (hs_config hs)" "ss_role s = cf_role (hs_config hs)"
      "ss_expected s = cf_expected_peer (hs_config hs)" "ss_roster s = vr_digest roster0"
    using assms(1)
    by (auto simp: handshake_finish_def handshake_check_def res_simps split: prod.splits sum.splits if_splits)
  have fresh: "ss_peer s = None" "\<not> ss_sent_auth s"
    using handshake_finish_fresh [OF assms(1)] by (simp_all add: fresh_session_def)
  from session_run_peer [OF assms(2) fresh] assms(3)
  have sent: "\<exists>c f. (c, Sent (Inr f)) \<in> set h"
    and "\<exists>x \<in> set h. \<exists>m sig key. peer_proved z p s x m sig key" by blast+
  then obtain x m sig key where x: "x \<in> set h" "peer_proved z p s x m sig key" by blast
  then obtain f roster now t cl where f: "(Receive_frame f roster now, Got (Inr (Authenticated m))) \<in> set h"
      "nz_open z t 0 (drop 41 f) (length f - 41) = Some (0 # auth_record m sig)"
      "m \<noteq> ss_local s" "ss_expected s = None \<or> ss_expected s = Some m" "vr_digest roster = ss_roster s"
      "roster_member roster m = Inr cl"
      "verify p (ct_signing_key cl) (ss_scope s) Session_domain (peer_statement s m) sig = Inr ()"
    unfolding peer_proved_def by auto
  have "\<forall>seen stmts. signed_only p (ct_signing_key cl) seen stmts \<and> sig \<in> seen \<longrightarrow>
          (ss_scope s, Session_domain, peer_statement s m) \<in> stmts"
    using verify_signed [OF _ _ f(7)] by blast
  then show ?thesis
    using sent f(1-6) unfolding s peer_statement_def
    by (intro conjI exI [of _ f] exI [of _ roster] exI [of _ now] exI [of _ m] exI [of _ t] exI [of _ sig] exI [of _ cl])
      (assumption | simp)+
qed

section \<open>A concrete channel\<close>

text \<open>A transport that appends sixteen zero bytes, and a finished handshake between two members.\<close>

definition plain_noise :: "(unit, unit) noise" where
  "plain_noise = \<lparr>nz_build = \<lambda>_ _ _ _. Some (), nz_finished = \<lambda>_. True, nz_my_turn = \<lambda>_. False,
     nz_write = \<lambda>_ _ _. (None, ()), nz_read = \<lambda>_ _ _. (None, ()), nz_hash = \<lambda>_. replicate 32 0,
     nz_transport = \<lambda>_. Some (), nz_seal = \<lambda>_ _ m _. Some (m @ replicate 16 0),
     nz_open = \<lambda>_ _ c _. if length c < 16 then None else Some (take (length c - 16) c)\<rparr>"

definition sample_handshake :: "role \<Rightarrow> nat \<Rightarrow> unit handshake" where
  "sample_handshake r n = \<lparr>hs_state = Some (),
     hs_config = \<lparr>cf_role = r, cf_local = MemberId (of_nat n), cf_expected_peer = None, cf_now = 5\<rparr>,
     hs_scope = sample_scope, hs_roster = vr_digest sample_roster, hs_deadline = 35\<rparr>"

definition sample_session :: "role \<Rightarrow> nat \<Rightarrow> unit session" where
  "sample_session r n = \<lparr>ss_state = Some (), ss_id = 0, ss_scope = sample_scope,
     ss_roster = vr_digest sample_roster, ss_role = r, ss_local = MemberId (of_nat n),
     ss_expected = None, ss_peer = None, ss_sent_auth = False, ss_next = 1,
     ss_replay = replay_default, ss_started = 5, ss_deadline = 35\<rparr>"

text \<open>Signing keys that are their own public keys, and signatures that always verify.\<close>

definition keyed_suite :: suite where
  "keyed_suite = sample_suite\<lparr>ed_public := \<lambda>k. k\<rparr>"

lemma sample_finish: "handshake_finish plain_noise sample_roster 6 (sample_handshake r n) = Inr (sample_session r n)"
  by (simp add: handshake_finish_def handshake_check_def sample_handshake_def sample_session_def plain_noise_def
      sample_members word_less_nat_alt word_le_nat_alt)

end
