(* ===== verification/Mesh_Session_Link.thy ===== *)
theory Mesh_Session_Link
  imports Mesh_Channel
begin

text \<open>
  Two sessions over one transport: that a conversation goes through, what an outsider can do to
  it, what closing means; and \<open>crates/mesh-runtime/src/link.rs\<close>, which moves the frames of a
  session over a port.
\<close>

section \<open>A conversation\<close>

text \<open>
  What the two ends of a finished Noise handshake promise each other: sealing a packet within
  the bounds of the session succeeds, adds sixteen bytes, and is opened by the other end under
  the same packet number.
\<close>

definition channel_ok :: "('h, 't) noise \<Rightarrow> 't \<Rightarrow> 't \<Rightarrow> bool" where
  "channel_ok z ta tb \<longleftrightarrow> (\<forall>n m. n < MAX_PACKETS \<and> length m \<le> MAX_PAYLOAD + 1 \<longrightarrow>
     (\<exists>c. nz_seal z ta n m (length m + 16) = Some c \<and> length c = length m + 16 \<and>
        nz_open z tb n c (length c) = Some m))"

lemma frame_received:
  assumes "channel_ok z ta tb" "ss_state a = Some ta" "ss_state b = Some tb" "ss_id b = ss_id a"
    and "n < MAX_PACKETS" "clear \<noteq> []" "length clear \<le> MAX_PAYLOAD + 1"
    and "session_check roster now b = (Inr (), b)" "replay_check n (ss_replay b) = Inr ()"
    and "n = 0 \<or> is_authenticated b"
  obtains f where "session_frame z n clear a = Inr f"
    and "session_receive z p f roster now b = session_deliver p n clear roster b"
proof -
  obtain c where c: "nz_seal z ta n clear (length clear + 16) = Some c" "length c = length clear + 16"
      "nz_open z tb n c (length c) = Some clear"
    using assms(1,5,7) unfolding channel_ok_def by blast
  let ?f = "[1] @ be_bytes (ss_id a) @ be_bytes n @ c"
  have f: "session_frame z n clear a = Inr ?f"
    using c assms(2) by (simp add: session_frame_def)
  have len: "length ?f = 57 + length clear" "0 < length clear" using c(2) assms(6) by simp_all
  have num: "be_word (take 8 (drop 33 ?f)) = n" and rest: "drop 41 ?f = c"
    by simp_all
  have "session_receive z p ?f roster now b = session_deliver p n clear roster b"
    unfolding session_receive_def Let_def num rest
    using assms(3-5,7-10) c len by (auto simp: not_le add.commute [of 16])
  then show thesis using f that by blast
qed

fun send_all ::
    "('h, 't) noise \<Rightarrow> suite \<Rightarrow> verified_roster \<Rightarrow> u64 \<Rightarrow> bytes list \<Rightarrow> 't session \<Rightarrow> 't session
     \<Rightarrow> (session_error + incoming) list" where
  "send_all z p roster now [] a b = []"
| "send_all z p roster now (d # ds) a b =
     (case session_send z d roster now a of
        (Inl e, a) \<Rightarrow> Inl e # send_all z p roster now ds a b
      | (Inr f, a) \<Rightarrow>
          (case session_receive z p f roster now b of (r, b) \<Rightarrow> r # send_all z p roster now ds a b))"

text \<open>Both ends prove themselves, then the first sends a list of payloads to the second.\<close>

definition exchange ::
    "('h, 't) noise \<Rightarrow> suite \<Rightarrow> identity_signing_key \<Rightarrow> identity_signing_key \<Rightarrow> verified_roster \<Rightarrow> u64
     \<Rightarrow> bytes list \<Rightarrow> 't session \<Rightarrow> 't session \<Rightarrow> (session_error + incoming) list" where
  "exchange z p ka kb roster now ds a b =
     (case session_authentication z p ka roster now a of
        (Inl e, a) \<Rightarrow> [Inl e]
      | (Inr fa, a) \<Rightarrow>
          (case session_authentication z p kb roster now b of
             (Inl e, b) \<Rightarrow> [Inl e]
           | (Inr fb, b) \<Rightarrow>
               (case session_receive z p fb roster now a of (ra, a) \<Rightarrow>
                case session_receive z p fa roster now b of (rb, b) \<Rightarrow>
                  ra # rb # send_all z p roster now ds a b)))"

definition talking :: "('h, 't) noise \<Rightarrow> verified_roster \<Rightarrow> u64 \<Rightarrow> 't session \<Rightarrow> 't session \<Rightarrow> bool" where
  "talking z roster now a b \<longleftrightarrow>
     (\<exists>ta tb. ss_state a = Some ta \<and> ss_state b = Some tb \<and> channel_ok z ta tb) \<and> ss_id b = ss_id a \<and>
     is_authenticated a \<and> is_authenticated b \<and>
     session_check roster now a = (Inr (), a) \<and> session_check roster now b = (Inr (), b) \<and>
     0 < ss_next a \<and> (\<exists>high. rl_highest (ss_replay b) = Some high \<and> high < ss_next a)"

lemma talking_step:
  assumes "talking z roster now a b" and "ss_next a < MAX_PACKETS" and "d \<noteq> []" "length d \<le> MAX_PAYLOAD"
  obtains f b' where "session_send z d roster now a = (Inr f, a\<lparr>ss_next := ss_next a + 1\<rparr>)"
    and "session_receive z p f roster now b = (Inr (Data d), b')"
    and "talking z roster now (a\<lparr>ss_next := ss_next a + 1\<rparr>) b'"
proof -
  obtain ta tb high where t: "ss_state a = Some ta" "ss_state b = Some tb" "channel_ok z ta tb" "ss_id b = ss_id a"
      "is_authenticated a" "is_authenticated b" "session_check roster now a = (Inr (), a)"
      "session_check roster now b = (Inr (), b)" "0 < ss_next a" "rl_highest (ss_replay b) = Some high" "high < ss_next a"
    using assms(1) unfolding talking_def by blast
  have fresh: "replay_check (ss_next a) (ss_replay b) = Inr ()"
    using t(10,11) by (auto simp: replay_check_def)
  obtain f where f: "session_frame z (ss_next a) (1 # d) a = Inr f"
      "session_receive z p f roster now b = session_deliver p (ss_next a) (1 # d) roster b"
    using frame_received [OF t(3,1,2,4) assms(2) _ _ t(8) fresh, of "1 # d"] t(6) assms(4) by auto
  let ?b = "b\<lparr>ss_replay := replay_accept (ss_next a) (ss_replay b)\<rparr>"
  have "session_receive z p f roster now b = (Inr (Data d), ?b)"
    using f(2) t(9) assms(3,4) by (simp add: deliver_Inr)
  moreover have "session_send z d roster now a = (Inr f, a\<lparr>ss_next := ss_next a + 1\<rparr>)"
    using f(1) t(5,7) assms(2-4) by (simp add: send_Inr)
  moreover have "talking z roster now (a\<lparr>ss_next := ss_next a + 1\<rparr>) ?b"
    using t next_number [OF assms(2) t(9)]
    by (simp add: talking_def session_check_Inr is_authenticated_def replay_accept_def)
  ultimately show thesis using that by blast
qed

lemma talking_sent: "talking z roster now b (a\<lparr>ss_next := n\<rparr>) = talking z roster now b a"
  by (auto simp: talking_def session_check_Inr is_authenticated_def)

lemma send_all_talking:
  assumes "talking z roster now a b" and "unat (ss_next a) + length ds \<le> unat MAX_PACKETS"
    and "\<forall>d \<in> set ds. d \<noteq> [] \<and> length d \<le> MAX_PAYLOAD"
  shows "send_all z p roster now ds a b = map (\<lambda>d. Inr (Data d)) ds"
  using assms
proof (induction ds arbitrary: a b)
  case (Cons d ds)
  then have lt: "ss_next a < MAX_PACKETS" by (simp add: word_less_nat_alt)
  obtain f b' where s: "session_send z d roster now a = (Inr f, a\<lparr>ss_next := ss_next a + 1\<rparr>)"
    "session_receive z p f roster now b = (Inr (Data d), b')"
    "talking z roster now (a\<lparr>ss_next := ss_next a + 1\<rparr>) b'"
    using talking_step [OF Cons.prems(1) lt, of d p] Cons.prems(3) by auto
  show ?case
    using Cons.IH [OF s(3)] Cons.prems(2,3) s(1,2) unat_add_one [OF lt] by simp
qed simp


lemma length_auth_record: "length (auth_record m sig) \<le> 109"
  using length_array [of 2] by (simp add: auth_record_def length_fixed32 length_fixed64)

lemma length_proof_body: "length (proof_body sc i m r) \<le> 300"
proof -
  have "proof_body sc i m r = array_bytes 8 @ uint_bytes 1 @ fixed_bytes (sc_group sc) @ uint_bytes (sc_epoch sc) @
      fixed_bytes i @ fixed_bytes (member_arr m) @ uint_bytes (role_code r) @ uint_bytes 1 @ uint_bytes 4096"
    by (simp add: proof_body_def w_simps fixed_bytes_def)
  then show ?thesis
    using length_array [of 8] length_uint [of 1] length_uint [of "sc_epoch sc"] length_uint [of "role_code r"]
      length_uint [of 4096] by (simp add: length_fixed32)
qed

text \<open>One end proves its identity and the other accepts the proof.\<close>

lemma confirmation:
  assumes "signing_ok p" "channel_ok z ta tb" "ss_state a = Some ta" "ss_state b = Some tb"
    and same: "ss_id b = ss_id a" "ss_scope b = ss_scope a" "ss_role a = opposite (ss_role b)"
    and chk: "session_check roster now a = (Inr (), a)" "session_check roster now b = (Inr (), b)"
    and key: "\<not> ss_sent_auth a" "signing_key roster (ss_local a) = Inr (signing_public_key p k)"
    and peer: "ss_local a \<noteq> ss_local b" "ss_expected b = None \<or> ss_expected b = Some (ss_local a)"
    and "ss_replay b = replay_default" "0 < sc_epoch (ss_scope a)" "sc_epoch (ss_scope a) \<le> I64_MAX"
  obtains f where "session_authentication z p k roster now a = (Inr f, a\<lparr>ss_sent_auth := True\<rparr>)"
    and "session_receive z p f roster now b =
      (Inr (Authenticated (ss_local a)), b\<lparr>ss_peer := Some (ss_local a), ss_replay := \<lparr>rl_highest = Some 0, rl_bits = 1\<rparr>\<rparr>)"
proof -
  let ?body = "proof_body (ss_scope a) (ss_id a) (ss_local a) (ss_role a)"
  obtain x where x: "signature_input (ss_scope a) Session_domain ?body = Inr x"
    using length_proof_body [of "ss_scope a" "ss_id a" "ss_local a" "ss_role a"] assms(15,16)
    by (simp add: signature_input_Inr)
  define sig where "sig = ed_sign p (signing_seed k) x"
  have sig: "sign p k (ss_scope a) Session_domain ?body = Inr sig" by (simp add: sign_def x sig_def)
  have ver: "verify p (signing_public_key p k) (ss_scope a) Session_domain ?body sig = Inr ()"
    by (rule sign_verify [OF assms(1) sig])
  obtain c where c: "roster_member roster (ss_local a) = Inr c" "ct_signing_key c = signing_public_key p k"
    using key(2) by (auto simp: signing_key_def res_simps)
  have checked: "check_proof p (0 # auth_record (ss_local a) sig) roster b = Inr (ss_local a)"
    using peer ver c same by (auto simp: check_proof_Inr)
  obtain f where f: "session_frame z 0 (0 # auth_record (ss_local a) sig) a = Inr f"
      "session_receive z p f roster now b = session_deliver p 0 (0 # auth_record (ss_local a) sig) roster b"
    using frame_received [OF assms(2-4) same(1), of 0 "0 # auth_record (ss_local a) sig" roster now p] chk(2) assms(14)
      length_auth_record [of "ss_local a" sig]
    by (auto simp: MAX_PACKETS_val replay_check_def replay_default_def)
  have "session_authentication z p k roster now a = (Inr f, a\<lparr>ss_sent_auth := True\<rparr>)"
    using chk(1) key sig f(1) by (auto simp: authentication_Inr)
  moreover have "session_receive z p f roster now b =
      (Inr (Authenticated (ss_local a)), b\<lparr>ss_peer := Some (ss_local a), ss_replay := \<lparr>rl_highest = Some 0, rl_bits = 1\<rparr>\<rparr>)"
    using f(2) checked assms(14) by (simp add: deliver_Inr replay_accept_def replay_default_def)
  ultimately show thesis using that by blast
qed

lemma finish_check: "handshake_finish z roster now h = Inr s \<Longrightarrow> session_check roster now s = (Inr (), s)"
  by (auto simp: handshake_finish_def handshake_check_def session_check_Inr res_simps is_ok_iff not_less not_le
      split: prod.splits sum.splits if_splits)

text \<open>The state of an end after both proofs.\<close>

definition confirmed_with :: "'t session \<Rightarrow> member_id \<Rightarrow> 't session" where
  "confirmed_with s m = s\<lparr>ss_sent_auth := True, ss_peer := Some m, ss_replay := \<lparr>rl_highest = Some 0, rl_bits = 1\<rparr>\<rparr>"

lemma both_confirmed:
  assumes "signing_ok p"
    and "handshake_finish z roster now ha = Inr a" and "handshake_finish z roster now hb = Inr b"
    and "ss_state a = Some ta" and "ss_state b = Some tb" and "channel_ok z ta tb" and "channel_ok z tb ta"
    and "ss_id b = ss_id a" and "ss_scope b = ss_scope a" and "ss_role a = opposite (ss_role b)"
    and "signing_key roster (ss_local a) = Inr (signing_public_key p ka)"
    and "signing_key roster (ss_local b) = Inr (signing_public_key p kb)"
    and "ss_local a \<noteq> ss_local b" and "ss_expected a = None \<or> ss_expected a = Some (ss_local b)"
    and "ss_expected b = None \<or> ss_expected b = Some (ss_local a)"
    and "0 < sc_epoch (ss_scope a)" and "sc_epoch (ss_scope a) \<le> I64_MAX"
  obtains fa fb where "session_authentication z p ka roster now a = (Inr fa, a\<lparr>ss_sent_auth := True\<rparr>)"
    and "session_authentication z p kb roster now b = (Inr fb, b\<lparr>ss_sent_auth := True\<rparr>)"
    and "session_receive z p fb roster now (a\<lparr>ss_sent_auth := True\<rparr>) =
      (Inr (Authenticated (ss_local b)), confirmed_with a (ss_local b))"
    and "session_receive z p fa roster now (b\<lparr>ss_sent_auth := True\<rparr>) =
      (Inr (Authenticated (ss_local a)), confirmed_with b (ss_local a))"
    and "talking z roster now (confirmed_with a (ss_local b)) (confirmed_with b (ss_local a))"
    and "talking z roster now (confirmed_with b (ss_local a)) (confirmed_with a (ss_local b))"
proof -
  let ?a = "a\<lparr>ss_sent_auth := True\<rparr>" and ?b = "b\<lparr>ss_sent_auth := True\<rparr>"
  have fresh: "fresh_session a" "fresh_session b"
    using assms(2,3) by (simp_all add: handshake_finish_fresh)
  have chk: "session_check roster now a = (Inr (), a)" "session_check roster now b = (Inr (), b)"
    using assms(2,3) by (simp_all add: finish_check)
  have chk': "session_check roster now ?a = (Inr (), ?a)" "session_check roster now ?b = (Inr (), ?b)"
    using chk fresh by (auto simp: session_check_Inr is_authenticated_def fresh_session_def)
  have role: "ss_role b = opposite (ss_role a)"
    using assms(10) by (cases "ss_role b") simp_all
  note f = fresh [unfolded fresh_session_def]
  obtain fa where fa: "session_authentication z p ka roster now a = (Inr fa, ?a)"
      "session_receive z p fa roster now ?b = (Inr (Authenticated (ss_local a)), confirmed_with b (ss_local a))"
    using confirmation [OF assms(1,6), of a ?b roster now ka] assms(4,5,8-11,13,15-17) chk(1) chk'(2) f
    by (auto simp: confirmed_with_def)
  obtain fb where fb: "session_authentication z p kb roster now b = (Inr fb, ?b)"
      "session_receive z p fb roster now ?a = (Inr (Authenticated (ss_local b)), confirmed_with a (ss_local b))"
    using confirmation [OF assms(1,7), of b ?a roster now kb] assms(4,5,8,9,12-14,16,17) role chk(2) chk'(1) f
    by (auto simp: confirmed_with_def)
  have "talking z roster now (confirmed_with a (ss_local b)) (confirmed_with b (ss_local a))"
    "talking z roster now (confirmed_with b (ss_local a)) (confirmed_with a (ss_local b))"
    using assms(4-8) chk f by (auto simp: confirmed_with_def talking_def is_authenticated_def session_check_Inr)
  then show thesis using fa fb that by blast
qed

text \<open>
  C11: two members with opposite roles of one roster, each holding the signing key the roster
  certifies for it, finish a handshake and confirm each other; then every payload one of them
  sends arrives at the other unchanged and in order, up to the packet limit.
\<close>

theorem session_conversation:
  assumes "signing_ok p"
    and "handshake_finish z roster now ha = Inr a" and "handshake_finish z roster now hb = Inr b"
    and "ss_state a = Some ta" and "ss_state b = Some tb" and "channel_ok z ta tb" and "channel_ok z tb ta"
    and "ss_id b = ss_id a" and "ss_scope b = ss_scope a" and "ss_role a = opposite (ss_role b)"
    and "signing_key roster (ss_local a) = Inr (signing_public_key p ka)"
    and "signing_key roster (ss_local b) = Inr (signing_public_key p kb)"
    and "ss_local a \<noteq> ss_local b" and "ss_expected a = None \<or> ss_expected a = Some (ss_local b)"
    and "ss_expected b = None \<or> ss_expected b = Some (ss_local a)"
    and "0 < sc_epoch (ss_scope a)" and "sc_epoch (ss_scope a) \<le> I64_MAX"
    and "\<forall>d \<in> set ds. d \<noteq> [] \<and> length d \<le> MAX_PAYLOAD" and "length ds < unat MAX_PACKETS"
  shows "exchange z p ka kb roster now ds a b =
    Inr (Authenticated (ss_local b)) # Inr (Authenticated (ss_local a)) # map (\<lambda>d. Inr (Data d)) ds"
proof (rule both_confirmed [OF assms(1-17)])
  fix fa fb
  assume t: "talking z roster now (confirmed_with a (ss_local b)) (confirmed_with b (ss_local a))"
    and calls: "session_authentication z p ka roster now a = (Inr fa, a\<lparr>ss_sent_auth := True\<rparr>)"
    "session_authentication z p kb roster now b = (Inr fb, b\<lparr>ss_sent_auth := True\<rparr>)"
    "session_receive z p fb roster now (a\<lparr>ss_sent_auth := True\<rparr>) =
      (Inr (Authenticated (ss_local b)), confirmed_with a (ss_local b))"
    "session_receive z p fa roster now (b\<lparr>ss_sent_auth := True\<rparr>) =
      (Inr (Authenticated (ss_local a)), confirmed_with b (ss_local a))"
  have "ss_next (confirmed_with a (ss_local b)) = 1"
    using handshake_finish_fresh [OF assms(2)] by (simp add: confirmed_with_def fresh_session_def)
  then have "send_all z p roster now ds (confirmed_with a (ss_local b)) (confirmed_with b (ss_local a)) =
      map (\<lambda>d. Inr (Data d)) ds"
    using assms(18,19) by (intro send_all_talking [OF t]) auto
  then show ?thesis by (simp add: exchange_def calls)
qed

lemma sample_channel: "channel_ok plain_noise () ()"
  by (simp add: channel_ok_def plain_noise_def)

lemma sample_keys: "signing_key sample_roster (MemberId 1) = Inr (signing_public_key keyed_suite (IdentitySigningKey 1))"
  "signing_key sample_roster (MemberId 2) = Inr (signing_public_key keyed_suite (IdentitySigningKey 2))"
proof -
  have "roster_member sample_roster (MemberId 1) = Inr (sample_claims 1)"
    "roster_member sample_roster (MemberId 2) = Inr (sample_claims 2)"
    by (simp_all add: sample_members) (simp_all add: sample_claims_def)
  then show "signing_key sample_roster (MemberId 1) = Inr (signing_public_key keyed_suite (IdentitySigningKey 1))"
    "signing_key sample_roster (MemberId 2) = Inr (signing_public_key keyed_suite (IdentitySigningKey 2))"
    by (simp_all add: signing_key_def signing_public_key_def keyed_suite_def sample_claims_def del: One_nat_def)
qed

text \<open>The conversation of members 1 and 2 of the sample roster.\<close>

lemma sample_session_simps:
  "ss_state (sample_session r n) = Some ()" "ss_id (sample_session r n) = 0" "ss_scope (sample_session r n) = sample_scope"
  "ss_role (sample_session r n) = r" "ss_local (sample_session r n) = MemberId (of_nat n)"
  "ss_expected (sample_session r n) = None"
  by (simp_all add: sample_session_def)

theorem session_conversation_witness:
  "exchange plain_noise keyed_suite (IdentitySigningKey 1) (IdentitySigningKey 2) sample_roster 6 [[7], [8, 9]]
     (sample_session Initiator 1) (sample_session Responder 2) =
   [Inr (Authenticated (MemberId 2)), Inr (Authenticated (MemberId 1)), Inr (Data [7]), Inr (Data [8, 9])]"
proof -
  have "signing_ok keyed_suite" by (simp add: signing_ok_def keyed_suite_def sample_suite_def)
  from session_conversation [OF this sample_finish sample_finish, of Initiator 1 "()" Responder 2 "()"
      "IdentitySigningKey 1" "IdentitySigningKey 2" "[[7], [8, 9]]"]
  show ?thesis
    using sample_channel sample_keys
    by (simp add: sample_session_simps MAX_PACKETS_val sample_scope_def I64_MAX_def word_le_nat_alt del: One_nat_def)
qed

text \<open>A run of member 1: both proofs, a payload in each direction.\<close>

lemma sample_dialogue:
  "\<exists>h v g. session_run plain_noise keyed_suite (sample_session Initiator 1) h v \<and> length h = 4 \<and>
     (Receive_frame g sample_roster 6, Got (Inr (Data [8]))) \<in> set h"
proof -
  let ?a = "sample_session Initiator 1" and ?b = "sample_session Responder 2"
  let ?ca = "confirmed_with ?a (ss_local ?b)" and ?cb = "confirmed_with ?b (ss_local ?a)"
  have ok: "signing_ok keyed_suite" by (simp add: signing_ok_def keyed_suite_def sample_suite_def)
  obtain fa fb where calls: "session_authentication plain_noise keyed_suite (IdentitySigningKey 1) sample_roster 6 ?a =
        (Inr fa, ?a\<lparr>ss_sent_auth := True\<rparr>)"
      "session_receive plain_noise keyed_suite fb sample_roster 6 (?a\<lparr>ss_sent_auth := True\<rparr>) =
        (Inr (Authenticated (ss_local ?b)), ?ca)"
    and talk: "talking plain_noise sample_roster 6 ?ca ?cb" "talking plain_noise sample_roster 6 ?cb ?ca"
    by (rule both_confirmed [OF ok sample_finish sample_finish, of Initiator 1 "()" Responder 2 "()"
          "IdentitySigningKey 1" "IdentitySigningKey 2"])
      (use sample_channel sample_keys in \<open>simp_all add: sample_session_simps sample_scope_def I64_MAX_def
          word_le_nat_alt del: One_nat_def\<close>)
  have nxt: "ss_next ?ca < MAX_PACKETS" "ss_next ?cb < MAX_PACKETS"
    by (simp_all add: confirmed_with_def sample_session_def MAX_PACKETS_val)
  obtain f where f: "session_send plain_noise [7] sample_roster 6 ?ca = (Inr f, ?ca\<lparr>ss_next := ss_next ?ca + 1\<rparr>)"
    by (rule talking_step [OF talk(1) nxt(1), of "[7]" keyed_suite]) simp_all
  let ?na = "?ca\<lparr>ss_next := ss_next ?ca + 1\<rparr>"
  have "talking plain_noise sample_roster 6 ?cb ?na" using talk(2) by (simp only: talking_sent)
  then obtain g v where g: "session_receive plain_noise keyed_suite g sample_roster 6 ?na = (Inr (Data [8]), v)"
    by (rule talking_step [OF _ nxt(2), where d = "[8]" and p = keyed_suite]) simp_all
  have peer: "ss_local ?b = MemberId 2" by (simp add: sample_session_def)
  have "session_run plain_noise keyed_suite ?a ([] @ [(Authenticate (IdentitySigningKey 1) sample_roster 6, Sent (Inr fa))])
      (?a\<lparr>ss_sent_auth := True\<rparr>)"
    by (rule session_run.step [OF session_run.start]) (simp add: calls del: One_nat_def)
  then have "session_run plain_noise keyed_suite ?a (([] @ [(Authenticate (IdentitySigningKey 1) sample_roster 6, Sent (Inr fa))]) @
      [(Receive_frame fb sample_roster 6, Got (Inr (Authenticated (MemberId 2))))]) ?ca"
    by (rule session_run.step) (simp add: calls [unfolded peer] peer del: One_nat_def)
  then have "session_run plain_noise keyed_suite ?a ((([] @ [(Authenticate (IdentitySigningKey 1) sample_roster 6, Sent (Inr fa))]) @
      [(Receive_frame fb sample_roster 6, Got (Inr (Authenticated (MemberId 2))))]) @
      [(Send_data [7] sample_roster 6, Sent (Inr f))]) ?na"
    by (rule session_run.step) (simp add: f del: One_nat_def)
  then have "session_run plain_noise keyed_suite ?a (((([] @ [(Authenticate (IdentitySigningKey 1) sample_roster 6, Sent (Inr fa))]) @
      [(Receive_frame fb sample_roster 6, Got (Inr (Authenticated (MemberId 2))))]) @
      [(Send_data [7] sample_roster 6, Sent (Inr f))]) @ [(Receive_frame g sample_roster 6, Got (Inr (Data [8])))]) v"
    by (rule session_run.step) (simp add: g del: One_nat_def)
  then show ?thesis by (intro exI conjI, assumption) (simp_all del: One_nat_def)
qed

theorem packet_numbers_once_witness:
  "\<exists>h v. session_run plain_noise keyed_suite (sample_session Initiator 1) h v \<and> length h = 4 \<and>
     distinct (numbers sent_number h) \<and> distinct (numbers accepted_number h)"
proof -
  obtain h v where h: "session_run plain_noise keyed_suite (sample_session Initiator 1) h v" "length h = 4"
    using sample_dialogue by blast
  then show ?thesis using packet_numbers_once [OF sample_finish h(1)] by blast
qed

theorem session_peer_authentic_witness:
  "\<exists>h v f roster now m. session_run plain_noise keyed_suite (sample_session Initiator 1) h v \<and>
     (Receive_frame f roster now, Got (Inr (Authenticated m))) \<in> set h \<and> m \<noteq> MemberId 1"
proof -
  obtain h v c d where h: "session_run plain_noise keyed_suite (sample_session Initiator 1) h v"
      "(c, Got (Inr (Data d))) \<in> set h"
    using sample_dialogue by blast
  show ?thesis
    using session_peer_authentic [OF sample_finish h]
    by (elim conjE exE, intro exI [of _ h] exI [of _ v] exI conjI) (rule h(1), assumption, simp add: sample_handshake_def)
qed

section \<open>Errors and closing\<close>

lemma session_step_closed:
  "ss_state s = None \<Longrightarrow> session_step z p c s = (r, v) \<Longrightarrow>
     ss_state v = None \<and> r \<in> {Sent (Inl Closed), Got (Inl Closed), Done}"
  by (cases c) (auto simp: session_authentication_def session_send_def session_receive_def session_check_def
      session_close_def)

text \<open>
  A closed session stays closed: over any calls every operation on it answers \<open>Closed\<close>, and
  nothing is sent or delivered again.
\<close>

theorem closed_session_silent:
  assumes "session_run z p (session_close s) h v"
  shows "ss_state v = None \<and> snd ` set h \<subseteq> {Sent (Inl Closed), Got (Inl Closed), Done}"
  using assms
proof (induction rule: session_run.induct)
  case start
  then show ?case by (simp add: session_close_def)
next
  case (step h u c r v)
  then show ?case using session_step_closed [of u z p c r v] by auto
qed

theorem closed_session_silent_witness:
  "session_run plain_noise keyed_suite (session_close (sample_session Initiator 1))
     [(Close_session, Done)] (session_close (session_close (sample_session Initiator 1))) \<and>
   ss_state (session_close (session_close (sample_session Initiator 1))) = None"
proof
  have "session_run plain_noise keyed_suite (session_close (sample_session Initiator 1))
     ([] @ [(Close_session, Done)]) (session_close (session_close (sample_session Initiator 1)))"
    by (rule session_run.step [OF session_run.start]) simp
  then show run: "session_run plain_noise keyed_suite (session_close (sample_session Initiator 1))
     [(Close_session, Done)] (session_close (session_close (sample_session Initiator 1)))"
    by simp
  show "ss_state (session_close (session_close (sample_session Initiator 1))) = None"
    using closed_session_silent [OF run] by blast
qed

text \<open>
  C31: a frame that the peer did not seal for its packet number, that was accepted before, or
  that does not have the shape of a frame of this session is refused and leaves the session as
  it was: whoever can inject frames cannot close it or move its window.
\<close>

theorem outsider_cannot_disturb:
  assumes "session_check roster now s = (Inr (), s)" and "ss_state s = Some t"
    and "nz_open z t (frame_number f) (drop 41 f) (length f - 41) = None \<or>
      replay_check (frame_number f) (ss_replay s) = Inl Replay \<or> \<not> fits_session f s"
  shows "\<exists>e. session_receive z p f roster now s = (Inl e, s)"
  using assms
  unfolding session_receive_def fits_session_def frame_number_def [symmetric] Let_def
  by (auto simp: bind_st_def not_le not_less split: sum.splits)

theorem outsider_cannot_disturb_witness:
  "\<exists>e. session_receive plain_noise keyed_suite [1, 2, 3] sample_roster 6 (sample_session Initiator 1) =
     (Inl e, sample_session Initiator 1)"
  by (rule outsider_cannot_disturb [OF finish_check [OF sample_finish], where t = "()"])
    (simp_all add: sample_session_def fits_session_def)

section \<open>The link of a session\<close>

text \<open>
  The two operations of the port are arguments; they may change the port's state.
\<close>

record 'q session_link =
  sl_port :: 'q
  sl_link :: link_id

definition session_link_new :: "'q \<Rightarrow> link_id \<Rightarrow> 'q session_link" where
  "session_link_new port link = \<lparr>sl_port = port, sl_link = link\<rparr>"

datatype link_fault = Port_fault link_error | Session_fault session_error

definition link_send ::
    "('h, 't) noise \<Rightarrow> (link_id \<Rightarrow> frame \<Rightarrow> 'q \<Rightarrow> (link_error + unit) \<times> 'q) \<Rightarrow> bytes \<Rightarrow> verified_roster \<Rightarrow> u64
     \<Rightarrow> 't session \<Rightarrow> 'q session_link \<Rightarrow> (link_fault + unit) \<times> 't session \<times> 'q session_link" where
  "link_send z port_send payload roster now s l =
     (case session_send z payload roster now s of
        (Inl e, s) \<Rightarrow> (Inl (Session_fault e), s, l)
      | (Inr bytes, s) \<Rightarrow>
          (case frame_new bytes of
             Inl e \<Rightarrow> (Inl (Port_fault e), s, l)
           | Inr frame \<Rightarrow>
               (case port_send (sl_link l) frame (sl_port l) of (r, q) \<Rightarrow>
                  (map_err Port_fault r, s, l\<lparr>sl_port := q\<rparr>))))"

text \<open>The loop of \<open>poll\<close> over the events the port reported.\<close>

fun link_loop ::
    "('h, 't) noise \<Rightarrow> suite \<Rightarrow> link_id \<Rightarrow> verified_roster \<Rightarrow> u64 \<Rightarrow> port_event list \<Rightarrow> incoming list
     \<Rightarrow> 't session \<Rightarrow> (link_fault + incoming list) \<times> 't session" where
  "link_loop z p own roster now [] acc s = (Inr acc, s)"
| "link_loop z p own roster now (event # events) acc s =
     (case event of
        FrameEvent link frame \<Rightarrow>
          if link = own then
            (case session_receive z p (frame_bytes frame) roster now s of
               (Inl e, s) \<Rightarrow> (Inl (Session_fault e), s)
             | (Inr i, s) \<Rightarrow> link_loop z p own roster now events (acc @ [i]) s)
          else link_loop z p own roster now events acc s
      | _ \<Rightarrow> link_loop z p own roster now events acc s)"

definition link_poll ::
    "('h, 't) noise \<Rightarrow> suite \<Rightarrow> ('q \<Rightarrow> (link_error + port_event list) \<times> 'q) \<Rightarrow> verified_roster \<Rightarrow> u64
     \<Rightarrow> 't session \<Rightarrow> 'q session_link \<Rightarrow> (link_fault + incoming list) \<times> 't session \<times> 'q session_link" where
  "link_poll z p port_poll roster now s l =
     (case port_poll (sl_port l) of
        (Inl e, q) \<Rightarrow> (Inl (Port_fault e), s, l\<lparr>sl_port := q\<rparr>)
      | (Inr events, q) \<Rightarrow>
          (case link_loop z p (sl_link l) roster now events [] s of (r, s) \<Rightarrow> (r, s, l\<lparr>sl_port := q\<rparr>)))"

text \<open>The frames of one link in the events of a port, and a port that records what it is handed.\<close>

fun own_frames :: "link_id \<Rightarrow> port_event list \<Rightarrow> frame list" where
  "own_frames own [] = []"
| "own_frames own (FrameEvent link frame # es) = (if link = own then [frame] else []) @ own_frames own es"
| "own_frames own (e # es) = own_frames own es"

definition record_port :: "link_id \<Rightarrow> frame \<Rightarrow> frame list \<Rightarrow> (link_error + unit) \<times> frame list" where
  "record_port link frame q = (Inr (), q @ [frame])"

fun link_send_all ::
    "('h, 't) noise \<Rightarrow> bytes list \<Rightarrow> verified_roster \<Rightarrow> u64 \<Rightarrow> 't session \<Rightarrow> frame list session_link
     \<Rightarrow> (link_fault + unit) \<times> frame list session_link" where
  "link_send_all z [] roster now s l = (Inr (), l)"
| "link_send_all z (d # ds) roster now s l =
     (case link_send z record_port d roster now s l of
        (Inl e, s, l) \<Rightarrow> (Inl e, l)
      | (Inr _, s, l) \<Rightarrow> link_send_all z ds roster now s l)"

lemma link_loop_skip:
  "own_frames own es = f # fs \<Longrightarrow> \<exists>es'. own_frames own es' = fs \<and>
     link_loop z p own roster now es acc s = link_loop z p own roster now (FrameEvent own f # es') acc s"
  by (induction own es rule: own_frames.induct) (auto split: if_splits)

lemma received_frame: "session_receive z p f roster now b = (Inr i, b') \<Longrightarrow> frame_new f = Inr (Frame f)"
  by (auto simp: receive_Inr fits_session_def frame_new_def)

lemma link_transfer:
  assumes "talking z roster now a b" and "unat (ss_next a) + length ds \<le> unat MAX_PACKETS"
    and "\<forall>d \<in> set ds. d \<noteq> [] \<and> length d \<le> MAX_PAYLOAD"
  shows "\<exists>fs. link_send_all z ds roster now a \<lparr>sl_port = q, sl_link = own\<rparr> = (Inr (), \<lparr>sl_port = q @ fs, sl_link = own\<rparr>) \<and>
    (\<forall>es acc. own_frames own es = fs \<longrightarrow> fst (link_loop z p own roster now es acc b) = Inr (acc @ map Data ds))"
  using assms
proof (induction ds arbitrary: a b q)
  case Nil
  have "own_frames own es = [] \<Longrightarrow> link_loop z p own roster now es acc b = (Inr acc, b)" for es acc
    by (induction own es rule: own_frames.induct) (auto split: if_splits)
  then show ?case by simp
next
  case (Cons d ds)
  then have lt: "ss_next a < MAX_PACKETS" by (simp add: word_less_nat_alt)
  let ?a = "a\<lparr>ss_next := ss_next a + 1\<rparr>"
  obtain f b' where f: "session_send z d roster now a = (Inr f, ?a)"
    "session_receive z p f roster now b = (Inr (Data d), b')" "talking z roster now ?a b'"
    using talking_step [OF Cons.prems(1) lt, of d p] Cons.prems(3) by auto
  have next_ok: "unat (ss_next ?a) + length ds \<le> unat MAX_PACKETS"
    using Cons.prems(2) unat_add_one [OF lt] by simp
  from Cons.IH [OF f(3) next_ok, of "q @ [Frame f]"] Cons.prems(3)
  obtain fs where fs: "link_send_all z ds roster now ?a \<lparr>sl_port = (q @ [Frame f]), sl_link = own\<rparr> =
        (Inr (), \<lparr>sl_port = (q @ [Frame f]) @ fs, sl_link = own\<rparr>)"
      "\<And>es acc. own_frames own es = fs \<Longrightarrow> fst (link_loop z p own roster now es acc b') = Inr (acc @ map Data ds)"
    by auto
  show ?case
  proof (intro exI [of _ "Frame f # fs"] conjI allI impI)
    show "link_send_all z (d # ds) roster now a \<lparr>sl_port = q, sl_link = own\<rparr> =
        (Inr (), \<lparr>sl_port = q @ Frame f # fs, sl_link = own\<rparr>)"
      using fs(1) f(1) received_frame [OF f(2)] by (simp add: link_send_def record_port_def)
    fix es acc
    assume "own_frames own es = Frame f # fs"
    then obtain es' where "own_frames own es' = fs"
      "link_loop z p own roster now es acc b = link_loop z p own roster now (FrameEvent own (Frame f) # es') acc b"
      using link_loop_skip by blast
    then show "fst (link_loop z p own roster now es acc b) = Inr (acc @ map Data (d # ds))"
      using fs(2) [of es' "acc @ [Data d]"] f(2) by simp
  qed
qed

text \<open>
  What two confirmed sessions send over a link arrives: every payload is handed to the port
  as one frame, and when the port of the other end reports these frames in order, among any
  other events of this or of other links, \<open>poll\<close> returns the payloads in order.
\<close>

theorem link_delivers_in_order:
  assumes "talking z roster now a b" and "unat (ss_next a) + length ds \<le> unat MAX_PACKETS"
    and "\<forall>d \<in> set ds. d \<noteq> [] \<and> length d \<le> MAX_PAYLOAD"
  shows "\<exists>fs. link_send_all z ds roster now a (session_link_new [] own) =
      (Inr (), session_link_new fs own) \<and>
    (\<forall>es port_poll q q'. own_frames own es = fs \<and> port_poll q = (Inr es, q') \<longrightarrow>
       fst (link_poll z p port_poll roster now b (session_link_new q own)) = Inr (map Data ds))"
proof -
  obtain fs where "link_send_all z ds roster now a (session_link_new [] own) = (Inr (), session_link_new fs own)"
    and got: "\<And>es acc. own_frames own es = fs \<Longrightarrow> fst (link_loop z p own roster now es acc b) = Inr (acc @ map Data ds)"
    using link_transfer [OF assms, of "[]" own p] by (auto simp: session_link_new_def)
  moreover have "fst (link_poll z p port_poll roster now b (session_link_new q own)) = Inr (map Data ds)"
    if "own_frames own es = fs" "port_poll q = (Inr es, q')" for es q q' and port_poll :: "'c \<Rightarrow> _"
    using got [OF that(1), of "[]"] that(2)
    by (cases "link_loop z p own roster now es [] b") (simp add: session_link_new_def link_poll_def)
  ultimately show ?thesis by blast
qed

lemma replay_check_accepted: "replay_check n (replay_accept n r) = Inl Replay"
proof (cases "rl_highest r")
  case None
  then show ?thesis by (simp add: replay_check_def replay_accept_def)
next
  case (Some high)
  then show ?thesis
    by (auto simp: replay_check_def replay_accept_def Let_def and_bit bit_or_iff bit_exp_iff not_le word_le_nat_alt
        word_less_nat_alt)
qed

text \<open>
  A poll whose events hold an accepted payload and then a frame that is refused, such as the
  same datagram twice, returns the error and not the payload; the session has already recorded
  its packet number, so the payload cannot be delivered by any later frame either.
\<close>

theorem poll_drops_payload:
  assumes "session_receive z p (frame_bytes f) roster now s = (Inr (Data d), s')"
    and "port_poll (sl_port l) = (Inr [FrameEvent (sl_link l) f, FrameEvent (sl_link l) f], q)"
  shows "\<exists>v. link_poll z p port_poll roster now s l = (Inl (Session_fault Replay), v, l\<lparr>sl_port := q\<rparr>) \<and>
    session_receive z p (frame_bytes f) roster now v = (Inl Replay, v)"
proof -
  let ?n = "frame_number (frame_bytes f)"
  have r: "session_check roster now s = (Inr (), s)" "fits_session (frame_bytes f) s"
      "?n = 0 \<or> is_authenticated s" "s' = s\<lparr>ss_replay := replay_accept ?n (ss_replay s)\<rparr>"
    using assms(1) by (auto simp: receive_Inr deliver_Inr split: if_splits)
  then have "session_check roster now s' = (Inr (), s')" "fits_session (frame_bytes f) s'"
    by (auto simp: session_check_Inr fits_session_def is_authenticated_def)
  then have "session_receive z p (frame_bytes f) roster now s' = (Inl Replay, s')"
    using replay_check_accepted [of ?n "ss_replay s"] r(4)
    unfolding session_receive_def Let_def frame_number_def [symmetric] fits_session_def by (auto simp: not_le not_less)
  then show ?thesis using assms by (simp add: link_poll_def)
qed

text \<open>The sample sessions after both proofs, and their conversation over links.\<close>

lemma sample_talking:
  "talking plain_noise sample_roster 6 (confirmed_with (sample_session Initiator 1) (MemberId 2))
     (confirmed_with (sample_session Responder 2) (MemberId 1))"
  by (auto simp: talking_def sample_channel is_authenticated_def session_check_Inr confirmed_with_def sample_session_def
      sample_members word_le_nat_alt)

theorem link_delivers_in_order_witness:
  "\<exists>fs. link_send_all plain_noise [[7], [8, 9]] sample_roster 6 (confirmed_with (sample_session Initiator 1) (MemberId 2))
      (session_link_new [] (LinkId 9)) = (Inr (), session_link_new fs (LinkId 9)) \<and>
    (\<forall>es. own_frames (LinkId 9) es = fs \<longrightarrow>
       fst (link_poll plain_noise keyed_suite (\<lambda>q. (Inr es, q)) sample_roster 6
         (confirmed_with (sample_session Responder 2) (MemberId 1)) (session_link_new () (LinkId 9))) =
       Inr [Data [7], Data [8, 9]])"
proof -
  have "unat (ss_next (confirmed_with (sample_session Initiator 1) (MemberId 2))) + length [[7], [8, 9 :: u8]] \<le> unat MAX_PACKETS"
    by (simp add: confirmed_with_def sample_session_def MAX_PACKETS_val)
  moreover have "\<forall>d \<in> set [[7], [8, 9 :: u8]]. d \<noteq> [] \<and> length d \<le> MAX_PAYLOAD" by simp
  ultimately obtain fs where fs: "link_send_all plain_noise [[7], [8, 9]] sample_roster 6
      (confirmed_with (sample_session Initiator 1) (MemberId 2)) (session_link_new [] (LinkId 9)) =
      (Inr (), session_link_new fs (LinkId 9))"
    and poll: "\<forall>es port_poll q q'. own_frames (LinkId 9) es = fs \<and> port_poll q = (Inr es, q') \<longrightarrow>
      fst (link_poll plain_noise keyed_suite port_poll sample_roster 6
        (confirmed_with (sample_session Responder 2) (MemberId 1)) (session_link_new (q :: unit) (LinkId 9))) =
      Inr (map Data [[7], [8, 9]])"
    using link_delivers_in_order [OF sample_talking, of "[[7], [8, 9]]" "LinkId 9" keyed_suite]
    by (elim exE conjE meta_impE)
  show ?thesis
    by (intro exI [of _ fs] conjI allI impI) (rule fs, use poll in simp)
qed

theorem poll_drops_payload_witness:
  "\<exists>f v. link_poll plain_noise keyed_suite (\<lambda>q. (Inr [FrameEvent (LinkId 9) f, FrameEvent (LinkId 9) f], q)) sample_roster 6
     (confirmed_with (sample_session Responder 2) (MemberId 1)) (session_link_new () (LinkId 9)) =
     (Inl (Session_fault Replay), v, session_link_new () (LinkId 9))"
proof -
  have "ss_next (confirmed_with (sample_session Initiator 1) (MemberId 2)) < MAX_PACKETS"
    by (simp add: confirmed_with_def sample_session_def MAX_PACKETS_val)
  then obtain f b' where "session_receive plain_noise keyed_suite f sample_roster 6
      (confirmed_with (sample_session Responder 2) (MemberId 1)) = (Inr (Data [7]), b')"
    by (rule talking_step [OF sample_talking, where d = "[7]" and p = keyed_suite]) simp_all
  then show ?thesis
    using poll_drops_payload [of plain_noise keyed_suite "Frame f" sample_roster 6 _ "[7]" b'
        "\<lambda>q. (Inr [FrameEvent (LinkId 9) (Frame f), FrameEvent (LinkId 9) (Frame f)], q)" "session_link_new () (LinkId 9)" "()"]
    by (fastforce simp: session_link_new_def)
qed

end
