(* ===== verification/Mesh_Envelope.thy ===== *)
theory Mesh_Envelope
  imports Mesh_Messages Mesh_Roster Mesh_Records
begin

text \<open>
  The protected objects of \<open>crates/mesh-protocol/src/lib.rs\<close>: signed announcements, the header
  that binds an object to its scope, origin and recipients, and the envelope that carries the
  wrapped content key and the sealed chunks. \<open>Mesh_Delivery\<close> seals and verifies them.
\<close>

section \<open>Announcements\<close>

definition aa_validate_roster :: "authenticated_announcement \<Rightarrow> verified_roster \<Rightarrow> u64 \<Rightarrow> durable_error + unit" where
  "aa_validate_roster a roster now =
     bindr (validate_at roster now) (\<lambda>_.
       if aa_roster_digest a \<noteq> vr_digest roster then Inl AuthenticationFailed else Inr ())"

text \<open>The reads of \<open>authenticate_announcement\<close>: the group and the manifest.\<close>

definition read_announcement :: "bytes \<Rightarrow> durable_error + arr32 \<times> manifest" where
  "read_announcement body =
     bindr (reader_new body MAX_ANNOUNCEMENT) (\<lambda>r.
     bindr (reader_array 3 r) (\<lambda>(_, r).
     bindr (reader_uint r) (\<lambda>(v, r).
     bindr (check_version v) (\<lambda>_.
     bindr (reader_fixed r) (\<lambda>(group, r).
     bindr (reader_bytes MAX_MANIFEST_BYTES r) (\<lambda>(encoded, r).
     bindr (manifest_decode encoded) (\<lambda>manifest.
     bindr (reader_end r) (\<lambda>_.
       Inr (group, manifest)))))))))"

text \<open>The loop over the targets.\<close>

primrec all_members :: "verified_roster \<Rightarrow> member_id list \<Rightarrow> durable_error + unit" where
  "all_members roster [] = Inr ()"
| "all_members roster (m # ms) = bindr (roster_member roster m) (\<lambda>_. all_members roster ms)"

definition authenticate_announcement ::
    "suite \<Rightarrow> bytes \<Rightarrow> verified_roster \<Rightarrow> u64 \<Rightarrow> durable_error + authenticated_announcement" where
  "authenticate_announcement p encoded roster now =
     bindr (validate_at roster now) (\<lambda>_.
     bindr (signed_parts encoded MAX_ANNOUNCEMENT) (\<lambda>(body, sig).
     bindr (read_announcement body) (\<lambda>(group, manifest).
       if group \<noteq> sc_group (vr_scope roster) \<or> mf_epoch manifest \<noteq> sc_epoch (vr_scope roster)
       then Inl AuthenticationFailed
       else
         bindr (all_members roster (mf_targets manifest)) (\<lambda>_.
         bindr (roster_member roster (mf_origin manifest)) (\<lambda>c.
         bindr (map_err auth_err (verify p (ct_signing_key c) (vr_scope roster) Object body sig)) (\<lambda>_.
           Inr \<lparr>aa_manifest = manifest, aa_encoded = encoded, aa_scope = vr_scope roster,
                aa_roster_digest = vr_digest roster\<rparr>))))))"

definition announcement_bytes :: "arr32 \<Rightarrow> manifest \<Rightarrow> bytes" where
  "announcement_bytes g m =
     array_bytes 3 @ uint_bytes 1 @ fixed_bytes g @ blob_bytes (manifest_encode m)"

lemma length_manifest: "manifest_ok m \<Longrightarrow> length (manifest_encode m) \<le> MAX_MANIFEST_BYTES"
  using manifest_bytes_length by (simp add: manifest_encode_eq)

lemma read_announcement_iff:
  "read_announcement body = Inr (g, m) \<longleftrightarrow>
     length body \<le> MAX_ANNOUNCEMENT \<and> manifest_ok m \<and> body = announcement_bytes g m"
  unfolding read_announcement_def
  apply (rule trans [OF decode_iff])
    apply (rule parses_rules field_reads)+
  apply simp
  apply (auto simp: res_simps announcement_bytes_def manifest_decode_iff fits_limit_iff length_manifest
      dest: length_manifest)
  done

lemma all_members_Inr: "all_members roster ms = Inr u \<longleftrightarrow> (\<forall>m \<in> set ms. is_ok (roster_member roster m))"
  by (induction ms) (auto simp: res_simps is_ok_iff)

lemma aa_validate_roster_Inr [res_simps]:
  "aa_validate_roster a roster now = Inr u \<longleftrightarrow> validate_at roster now = Inr () \<and> aa_roster_digest a = vr_digest roster"
  by (auto simp: aa_validate_roster_def res_simps)

lemma authenticate_announcement_iff:
  "authenticate_announcement p encoded roster now = Inr a \<longleftrightarrow>
     validate_at roster now = Inr () \<and> length encoded \<le> MAX_ANNOUNCEMENT \<and> manifest_ok (aa_manifest a) \<and>
     mf_epoch (aa_manifest a) = sc_epoch (vr_scope roster) \<and>
     (\<forall>m \<in> set (mf_targets (aa_manifest a)). is_ok (roster_member roster m)) \<and>
     (\<exists>c sig. roster_member roster (mf_origin (aa_manifest a)) = Inr c \<and>
        encoded = signed_record (announcement_bytes (sc_group (vr_scope roster)) (aa_manifest a)) sig \<and>
        verify p (ct_signing_key c) (vr_scope roster) Object
          (announcement_bytes (sc_group (vr_scope roster)) (aa_manifest a)) sig = Inr ()) \<and>
     aa_encoded a = encoded \<and> aa_scope a = vr_scope roster \<and> aa_roster_digest a = vr_digest roster"
proof -
  let ?m = "aa_manifest a"
  let ?body = "announcement_bytes (sc_group (vr_scope roster)) ?m"
  show ?thesis (is "?L \<longleftrightarrow> ?R")
  proof
    assume ?L
    then show ?R
      by (auto simp: authenticate_announcement_def res_simps signed_parts_iff read_announcement_iff all_members_Inr
          split: if_splits)
  next
    assume r: ?R
    then obtain c sig where c: "roster_member roster (mf_origin ?m) = Inr c" "encoded = signed_record ?body sig"
        "verify p (ct_signing_key c) (vr_scope roster) Object ?body sig = Inr ()" by blast
    have parts: "signed_parts encoded 3998 = Inr (?body, sig)"
      using r c(2) by (simp add: signed_parts_iff)
    have body: "read_announcement ?body = Inr (sc_group (vr_scope roster), ?m)"
      using r c(2) length_signed_record(1) [of ?body sig] by (simp add: read_announcement_iff)
    have "all_members roster (mf_targets ?m) = Inr ()" using r by (simp add: all_members_Inr)
    moreover have "\<lparr>aa_manifest = ?m, aa_encoded = encoded, aa_scope = vr_scope roster,
        aa_roster_digest = vr_digest roster\<rparr> = a"
      using r by (intro authenticated_announcement.equality) auto
    ultimately show ?L
      using r by (simp add: authenticate_announcement_def parts body c(1,3))
  qed
qed

section \<open>Headers\<close>

record header =
  eh_scope :: scope
  eh_origin :: member_id
  eh_sequence :: u64
  eh_namespace :: namespace
  eh_created :: u64
  eh_expires :: u64
  eh_hops :: u8
  eh_targets :: "(member_id \<times> arr32) list"
  eh_clear_len :: nat
  eh_salt :: arr32

definition MAX_PLAINTEXT :: nat where [simp]: "MAX_PLAINTEXT = 48 * 1024"

definition w_target :: "member_id \<times> arr32 \<Rightarrow> bytes \<Rightarrow> bytes" where
  "w_target t w =
     (let w = w_array 2 w;
          w = w_bytes (be_bytes (member_arr (fst t))) w
      in w_bytes (be_bytes (snd t)) w)"

definition header_encode :: "header \<Rightarrow> bytes" where
  "header_encode h =
     (let w = [];
          w = w_array 14 w;
          w = w_uint 1 w;
          w = w_uint 1 w;
          w = w_bytes (be_bytes (sc_group (eh_scope h))) w;
          w = w_bytes (be_bytes (member_arr (eh_origin h))) w;
          w = w_uint (eh_sequence h) w;
          w = w_uint (sc_epoch (eh_scope h)) w;
          w = w_text (as_str (eh_namespace h)) w;
          w = w_uint 1 w;
          w = w_uint (eh_created h) w;
          w = w_uint (eh_expires h) w;
          w = w_uint (ucast (eh_hops h)) w;
          w = w_array (length (eh_targets h)) w;
          w = fold w_target (eh_targets h) w;
          w = w_uint (of_nat (eh_clear_len h)) w;
          w = w_bytes (be_bytes (eh_salt h)) w
      in w)"

definition read_target :: "reader \<Rightarrow> durable_error + (member_id \<times> arr32) \<times> reader" where
  "read_target r =
     bindr (reader_array 2 r) (\<lambda>(_, r).
     bindr (reader_fixed r) (\<lambda>(member, r).
     bindr (reader_fixed r) (\<lambda>(key, r).
       Inr ((MemberId member, key), r))))"

definition header_decode :: "bytes \<Rightarrow> durable_error + header" where
  "header_decode bs =
     bindr (reader_new bs 2048) (\<lambda>r.
     bindr (reader_array 14 r) (\<lambda>(_, r).
     bindr (reader_uint r) (\<lambda>(v, r).
     bindr (check_version v) (\<lambda>_.
     bindr (reader_uint r) (\<lambda>(v, r).
     bindr (check_version v) (\<lambda>_.
     bindr (reader_fixed r) (\<lambda>(group, r).
     bindr (reader_fixed r) (\<lambda>(origin, r).
     bindr (reader_uint r) (\<lambda>(sequence, r).
     bindr (reader_uint r) (\<lambda>(epoch, r).
     bindr (reader_text 64 r) (\<lambda>(name, r).
     bindr (namespace_new name) (\<lambda>namespace.
     bindr (reader_uint r) (\<lambda>(v, r).
     bindr (check_version v) (\<lambda>_.
     bindr (reader_uint r) (\<lambda>(created, r).
     bindr (reader_uint r) (\<lambda>(expires, r).
     bindr (reader_uint r) (\<lambda>(hops, r).
     bindr (if hops > 255 then Inl InvalidInput else Inr (ucast hops :: u8)) (\<lambda>hops.
     bindr (reader_count MAX_TARGETS r) (\<lambda>(count, r).
     bindr (reader_repeat read_target count r) (\<lambda>(targets, r).
     bindr (reader_uint r) (\<lambda>(clear_len, r).
     bindr (reader_fixed r) (\<lambda>(salt, r).
     bindr (reader_end r) (\<lambda>_.
       if sequence = 0
          \<or> sequence > MAX_LOGICAL_TIME
          \<or> epoch = 0
          \<or> epoch > MAX_LOGICAL_TIME
          \<or> created \<ge> expires
          \<or> expires > MAX_LOGICAL_TIME
          \<or> hops = 0
          \<or> hops > 16
          \<or> targets = []
          \<or> \<not> ascending (map fst targets)
          \<or> unat clear_len = 0
          \<or> unat clear_len > MAX_PLAINTEXT
       then Inl InvalidInput
       else Inr \<lparr>eh_scope = \<lparr>sc_group = group, sc_epoch = epoch\<rparr>, eh_origin = MemberId origin,
                 eh_sequence = sequence, eh_namespace = namespace, eh_created = created,
                 eh_expires = expires, eh_hops = hops, eh_targets = targets,
                 eh_clear_len = unat clear_len, eh_salt = salt\<rparr>)))))))))))))))))))))))"

definition header_context_id :: "suite \<Rightarrow> header \<Rightarrow> arr32" where
  "header_context_id p h = domain_hash p (ascii ''MeshLab/EnvelopeContext/v1'' @ [0]) (header_encode h)"

definition header_context :: "suite \<Rightarrow> header \<Rightarrow> chunk_context" where
  "header_context p h =
     (let audience = [];
          audience = w_array (length (eh_targets h)) audience;
          audience = fold w_target (eh_targets h) audience
      in \<lparr>cc_scope = eh_scope h, cc_object_context_id = header_context_id p h,
          cc_origin = member_arr (eh_origin h), cc_origin_sequence = eh_sequence h,
          cc_audience_digest = domain_hash p (ascii ''MeshLab/Audience/v1'' @ [0]) audience,
          cc_namespace = as_str (eh_namespace h), cc_schema = 1,
          cc_chunk_count = of_nat (div_ceil (eh_clear_len h) CHUNK_BYTES),
          cc_lifetime = eh_expires h - eh_created h, cc_priority = 1\<rparr>)"

primrec keys_match :: "suite \<Rightarrow> verified_roster \<Rightarrow> (member_id \<times> arr32) list \<Rightarrow> durable_error + unit" where
  "keys_match p roster [] = Inr ()"
| "keys_match p roster (t # ts) =
     bindr (roster_recipient p roster (fst t)) (\<lambda>rc.
       if snd t \<noteq> rp_delivery_key_id rc then Inl AuthenticationFailed else keys_match p roster ts)"

definition header_matches ::
    "suite \<Rightarrow> header \<Rightarrow> authenticated_announcement \<Rightarrow> verified_roster \<Rightarrow> durable_error + unit" where
  "header_matches p h a roster =
     (let m = aa_manifest a in
      if eh_scope h \<noteq> aa_scope a
         \<or> eh_origin h \<noteq> mf_origin m
         \<or> eh_sequence h \<noteq> mf_sequence m
         \<or> eh_namespace h \<noteq> mf_namespace m
         \<or> eh_expires h \<noteq> mf_expires_at m
         \<or> eh_hops h \<noteq> mf_hop_limit m
         \<or> map fst (eh_targets h) \<noteq> mf_targets m
      then Inl AuthenticationFailed
      else keys_match p roster (eh_targets h))"

section \<open>The language of the header\<close>

definition target_bytes :: "member_id \<times> arr32 \<Rightarrow> bytes" where
  "target_bytes t = array_bytes 2 @ fixed_bytes (member_arr (fst t)) @ fixed_bytes (snd t)"

definition header_bytes :: "header \<Rightarrow> bytes" where
  "header_bytes h = array_bytes 14 @ uint_bytes 1 @ uint_bytes 1 @ fixed_bytes (sc_group (eh_scope h)) @
     fixed_bytes (member_arr (eh_origin h)) @ uint_bytes (eh_sequence h) @ uint_bytes (sc_epoch (eh_scope h)) @
     text_bytes (as_str (eh_namespace h)) @ uint_bytes 1 @ uint_bytes (eh_created h) @ uint_bytes (eh_expires h) @
     uint_bytes (ucast (eh_hops h)) @ array_bytes (length (eh_targets h)) @
     concat (map target_bytes (eh_targets h)) @ uint_bytes (of_nat (eh_clear_len h)) @ fixed_bytes (eh_salt h)"

definition header_ok :: "header \<Rightarrow> bool" where
  "header_ok h \<longleftrightarrow> 0 < eh_sequence h \<and> eh_sequence h \<le> MAX_LOGICAL_TIME \<and> 0 < sc_epoch (eh_scope h) \<and>
     sc_epoch (eh_scope h) \<le> MAX_LOGICAL_TIME \<and> eh_created h < eh_expires h \<and> eh_expires h \<le> MAX_LOGICAL_TIME \<and>
     0 < eh_hops h \<and> eh_hops h \<le> 16 \<and> eh_targets h \<noteq> [] \<and> length (eh_targets h) \<le> MAX_TARGETS \<and>
     ascending (map fst (eh_targets h)) \<and> 0 < eh_clear_len h \<and> eh_clear_len h \<le> MAX_PLAINTEXT \<and>
     namespace_ok (eh_namespace h)"

lemma w_targets: "fold w_target ts w = w @ concat (map target_bytes ts)"
  by (rule fold_w_append) (simp add: w_target_def target_bytes_def w_simps fixed_bytes_def)

lemma header_encode_eq: "header_encode h = header_bytes h"
  by (simp add: header_encode_def header_bytes_def w_targets w_simps fixed_bytes_def)

lemma length_target: "length (target_bytes t) \<le> 77"
  using length_array [of 2] by (simp add: target_bytes_def length_fixed32)

lemma length_header_bytes:
  assumes "header_ok h"
  shows "length (header_bytes h) \<le> 1200"
proof -
  have "length (concat (map target_bytes (eh_targets h))) \<le> 77 * length (eh_targets h)"
    by (rule length_concat_le) (rule length_target)
  moreover have "length (text_bytes (as_str (eh_namespace h))) \<le> 73"
    using namespace_ok_bounds [of "eh_namespace h"] head_bytes_length(1) [of 3 "of_nat (length (as_str (eh_namespace h)))"] assms
    by (simp add: text_bytes_def header_ok_def)
  ultimately show ?thesis
    using assms length_array [of 14] length_uint [of 1] length_uint [of "eh_sequence h"]
      length_uint [of "sc_epoch (eh_scope h)"] length_uint [of "eh_created h"] length_uint [of "eh_expires h"]
      length_uint [of "ucast (eh_hops h)"] length_array [of "length (eh_targets h)"]
      length_uint [of "of_nat (eh_clear_len h)"]
    by (simp add: header_bytes_def header_ok_def length_fixed32)
qed

lemma reads_target: "reads read_target (\<lambda>t w. True \<and> w = target_bytes t)"
proof -
  have "reads read_target (\<lambda>t w. \<exists>m k. t = (MemberId m, k) \<and> w = target_bytes t)"
    unfolding read_target_def [abs_def]
    by (rule reads_cong, (rule reads_rules field_reads)+) (auto simp: target_bytes_def)
  then show ?thesis
    by (rule reads_cong) (metis member_id.exhaust surj_pair)
qed

lemma count_reads_targets:
  "reads (reader_count MAX_TARGETS) (\<lambda>n w. n \<le> MAX_TARGETS \<and> w = array_bytes n)"
  by (rule reads_count) simp

lemma header_decode_raw:
  "header_decode bs = Inr h \<longleftrightarrow> length bs \<le> 2048 \<and> header_ok h \<and> bs = header_bytes h"
  unfolding header_decode_def
  apply (rule trans [OF decode_iff])
    apply (rule parses_rules field_reads count_reads_targets reads_list [OF reads_target])+
   apply simp
  apply (simp add: res_simps namespace_new_Inr cong: conj_cong)
  apply (rule iffI)
   apply (elim exE conjE)
  subgoal by (clarsimp simp: header_ok_def header_bytes_def ucast_ucast_less word_le_nat_alt word_less_nat_alt unat_gt_0 not_less not_le)
  apply (elim conjE)
  subgoal premises prems
  proof -
    note ok = prems(2) [unfolded header_ok_def]
    have "namespace_ok (eh_namespace h)" using ok by blast
    note ns = this namespace_utf8 [OF this] namespace_ok_bounds [OF this]
    have nz: "eh_sequence h \<noteq> 0" "sc_epoch (eh_scope h) \<noteq> 0" "eh_hops h \<noteq> 0" using ok by auto
    have len: "unat (of_nat (eh_clear_len h) :: u64) = eh_clear_len h" using ok by (simp add: unat_of_nat64)
    show ?thesis
      apply (intro exI conjI)
      prefer 10
      apply (rule trans [OF prems(3)], unfold header_bytes_def, rule refl)
      using prems(1) ok ns nz len by (simp_all add: list_all_iff word_le_nat_alt word_less_nat_alt byte_in_u64 fits_limit_iff not_less not_le)
  qed
  done

lemma header_decode_iff: "header_decode bs = Inr h \<longleftrightarrow> header_ok h \<and> bs = header_encode h"
  using length_header_bytes [of h] by (auto simp: header_decode_raw header_encode_eq)

interpretation header: message_codec header_encode header_ok header_decode
  by unfold_locales (rule header_decode_iff)

lemma keys_match_Inr:
  "keys_match p roster ts = Inr u \<longleftrightarrow>
     (\<forall>t \<in> set ts. \<exists>c. roster_member roster (fst t) = Inr c \<and> snd t = delivery_key_id p (ct_delivery_key c))"
  by (induction ts) (auto simp: res_simps roster_recipient_def)

definition bound_to :: "suite \<Rightarrow> header \<Rightarrow> authenticated_announcement \<Rightarrow> verified_roster \<Rightarrow> bool" where
  "bound_to p h a roster \<longleftrightarrow> eh_scope h = aa_scope a \<and> eh_origin h = mf_origin (aa_manifest a) \<and>
     eh_sequence h = mf_sequence (aa_manifest a) \<and> eh_namespace h = mf_namespace (aa_manifest a) \<and>
     eh_expires h = mf_expires_at (aa_manifest a) \<and> eh_hops h = mf_hop_limit (aa_manifest a) \<and>
     map fst (eh_targets h) = mf_targets (aa_manifest a) \<and>
     (\<forall>t \<in> set (eh_targets h). \<exists>c. roster_member roster (fst t) = Inr c \<and>
        snd t = delivery_key_id p (ct_delivery_key c))"

lemma header_matches_Inr [res_simps]: "header_matches p h a roster = Inr u \<longleftrightarrow> bound_to p h a roster"
  by (auto simp: header_matches_def bound_to_def Let_def keys_match_Inr)

section \<open>Envelopes\<close>

record envelope =
  en_header :: header
  en_nonce :: "96 word"
  en_wraps :: "recipient_wrap list"
  en_chunks :: "bytes list"

definition read_wrap :: "reader \<Rightarrow> durable_error + recipient_wrap \<times> reader" where
  "read_wrap r =
     bindr (reader_array 2 r) (\<lambda>(_, r).
     bindr (reader_fixed r) (\<lambda>(encapsulated, r).
     bindr (reader_fixed r) (\<lambda>(ciphertext, r).
       Inr (\<lparr>rw_encapsulated = encapsulated, rw_ciphertext = ciphertext\<rparr>, r))))"

text \<open>The two loops over the chunks: of the object, and of the envelope from index \<open>i\<close> on.\<close>

primrec verify_chunks :: "suite \<Rightarrow> manifest \<Rightarrow> nat \<Rightarrow> bytes list \<Rightarrow> durable_error + unit" where
  "verify_chunks p m i [] = Inr ()"
| "verify_chunks p m i (b # bs) = bindr (verify_chunk (hash p) m i b) (\<lambda>_. verify_chunks p m (i + 1) bs)"

primrec read_chunks :: "nat \<Rightarrow> nat \<Rightarrow> nat \<Rightarrow> reader \<Rightarrow> durable_error + bytes list \<times> reader" where
  "read_chunks clear i 0 r = Inr ([], r)"
| "read_chunks clear i (Suc n) r =
     bindr (reader_bytes (CHUNK_BYTES + 16) r) (\<lambda>(b, r).
       let clear_len = min (clear - i * CHUNK_BYTES) CHUNK_BYTES in
       if length b \<noteq> clear_len + 16 then Inl InvalidInput
       else bindr (read_chunks clear (i + 1) n r) (\<lambda>(bs, r). Inr (b # bs, r)))"

definition envelope_open ::
    "suite \<Rightarrow> authenticated_announcement \<Rightarrow> bytes \<Rightarrow> verified_roster \<Rightarrow> durable_error + envelope" where
  "envelope_open p a bs roster =
     (if length bs \<noteq> mf_content_len (aa_manifest a) then Inl Corrupt
      else
        bindr (verify_chunks p (aa_manifest a) 0 (chunks CHUNK_BYTES bs)) (\<lambda>_.
        bindr (reader_new bs MAX_OBJECT_BYTES) (\<lambda>r.
        bindr (reader_array 5 r) (\<lambda>(_, r).
        bindr (reader_uint r) (\<lambda>(v, r).
        bindr (check_version v) (\<lambda>_.
        bindr (reader_bytes 2048 r) (\<lambda>(encoded, r).
        bindr (header_decode encoded) (\<lambda>h.
        bindr (header_matches p h a roster) (\<lambda>_.
        bindr (reader_fixed r) (\<lambda>(nonce, r).
        bindr (reader_count MAX_TARGETS r) (\<lambda>(count, r).
        if count \<noteq> length (eh_targets h) then Inl InvalidInput else
        bindr (reader_repeat read_wrap count r) (\<lambda>(wraps, r).
        bindr (reader_count MAX_CHUNKS r) (\<lambda>(count, r).
        if count \<noteq> unat (cc_chunk_count (header_context p h)) then Inl InvalidInput else
        bindr (read_chunks (eh_clear_len h) 0 count r) (\<lambda>(cs, r).
        bindr (reader_end r) (\<lambda>_.
          Inr \<lparr>en_header = h, en_nonce = nonce, en_wraps = wraps, en_chunks = cs\<rparr>)))))))))))))))"

section \<open>The language of the envelope\<close>

interpretation wfixed48: wire_reader "fixed_bytes :: 384 word \<Rightarrow> bytes" "\<lambda>_. True" reader_fixed
  by unfold_locales (simp add: reader_fixed_iff)

interpretation wfixed12: wire_reader "fixed_bytes :: 96 word \<Rightarrow> bytes" "\<lambda>_. True" reader_fixed
  by unfold_locales (simp add: reader_fixed_iff)

definition wrap_bytes :: "recipient_wrap \<Rightarrow> bytes" where
  "wrap_bytes w = array_bytes 2 @ fixed_bytes (rw_encapsulated w) @ fixed_bytes (rw_ciphertext w)"

definition envelope_bytes :: "envelope \<Rightarrow> bytes" where
  "envelope_bytes e = array_bytes 5 @ uint_bytes 1 @ blob_bytes (header_encode (en_header e)) @
     fixed_bytes (en_nonce e) @ array_bytes (length (en_wraps e)) @ concat (map wrap_bytes (en_wraps e)) @
     array_bytes (length (en_chunks e)) @ concat (map blob_bytes (en_chunks e))"

fun chunks_fit :: "nat \<Rightarrow> nat \<Rightarrow> bytes list \<Rightarrow> bool" where
  "chunks_fit clear i [] = True"
| "chunks_fit clear i (b # bs) \<longleftrightarrow> length b = min (clear - i * 1024) 1024 + 16 \<and> chunks_fit clear (i + 1) bs"

lemma reads_wrap: "reads read_wrap (\<lambda>x w. True \<and> w = wrap_bytes x)"
proof -
  have "reads read_wrap (\<lambda>x w. \<exists>a b. x = \<lparr>rw_encapsulated = a, rw_ciphertext = b\<rparr> \<and> w = wrap_bytes x)"
    unfolding read_wrap_def [abs_def]
    by (rule reads_cong, (rule reads_rules field_reads wfixed48.reads_get)+) (auto simp: wrap_bytes_def)
  then show ?thesis
    by (rule reads_cong) (metis recipient_wrap.surjective old.unit.exhaust)
qed

lemma reads_read_chunks:
  "reads (read_chunks clear i n)
     (\<lambda>cs w. (length cs = n \<and> chunks_fit clear i cs) \<and> w = concat (map blob_bytes cs))"
proof (induction n arbitrary: i)
  case 0
  show ?case by (auto simp: reads_def consumed_Nil)
next
  case (Suc n)
  have "reads (\<lambda>r. bindr (reader_bytes 1040 r) (\<lambda>(b, r).
      if length b \<noteq> min (clear - i * 1024) 1024 + 16 then Inl InvalidInput
      else bindr (read_chunks clear (i + 1) n r) (\<lambda>(bs, r). Inr (b # bs, r))))
    (\<lambda>cs w. (length cs = Suc n \<and> chunks_fit clear i cs) \<and> w = concat (map blob_bytes cs))"
    by (rule reads_cong, rule reads_bind [OF wbytes.reads_get reads_if [OF reads_bind [OF Suc reads_return]]])
      (auto simp: length_Suc_conv fits_limit_iff)
  then show ?case by (simp add: Let_def cong: if_cong)
qed

lemma count_reads_chunks:
  "reads (reader_count MAX_CHUNKS) (\<lambda>n w. n \<le> MAX_CHUNKS \<and> w = array_bytes n)"
  by (rule reads_count) simp

lemma header_chunk_count:
  assumes "header_ok h"
  shows "unat (cc_chunk_count (header_context p h)) = div_ceil (eh_clear_len h) 1024"
    "0 < div_ceil (eh_clear_len h) 1024" "div_ceil (eh_clear_len h) 1024 \<le> 48"
proof -
  show b: "0 < div_ceil (eh_clear_len h) 1024" "div_ceil (eh_clear_len h) 1024 \<le> 48"
    using div_ceil_bounds [of "eh_clear_len h" 48 1024] assms by (simp_all add: header_ok_def)
  show "unat (cc_chunk_count (header_context p h)) = div_ceil (eh_clear_len h) 1024"
    using b by (simp add: header_context_def Let_def unsigned_of_nat take_bit_nat_eq_self_iff)
qed

definition envelope_ok :: "envelope \<Rightarrow> bool" where
  "envelope_ok e \<longleftrightarrow> header_ok (en_header e) \<and> length (en_wraps e) = length (eh_targets (en_header e)) \<and>
     length (en_chunks e) = div_ceil (eh_clear_len (en_header e)) 1024 \<and>
     chunks_fit (eh_clear_len (en_header e)) 0 (en_chunks e)"

definition object_intact :: "suite \<Rightarrow> manifest \<Rightarrow> bytes \<Rightarrow> bool" where
  "object_intact p m bs \<longleftrightarrow> length bs = mf_content_len m \<and> length bs \<le> MAX_OBJECT_BYTES \<and>
     verify_chunks p m 0 (chunks CHUNK_BYTES bs) = Inr ()"

lemma envelope_open_iff:
  "envelope_open p a bs roster = Inr e \<longleftrightarrow>
     object_intact p (aa_manifest a) bs \<and> envelope_ok e \<and> bound_to p (en_header e) a roster \<and> bs = envelope_bytes e"
  unfolding envelope_open_def bindr_if_Inl bindr_eq_Inr [of "verify_chunks _ _ _ _"]
  apply (subst decode_iff)
    apply (rule parses_rules field_reads wfixed12.reads_get count_reads_targets reads_list [OF reads_wrap]
      count_reads_chunks reads_read_chunks)+
   apply simp
  apply (cases e)
  apply (simp add: res_simps header_decode_iff)
  subgoal for h nonce wraps cs
  proof (cases "header_ok h")
    case True
    then have "fits_limit 2048 (header_encode h)" "length (eh_targets h) \<le> 10"
      using length_header_bytes [of h] by (simp_all add: header_encode_eq fits_limit_iff header_ok_def)
    then show ?thesis
      using header_chunk_count(1) [OF True, of p] header_chunk_count(2,3) [OF True] True
      by (auto simp: object_intact_def envelope_ok_def envelope_bytes_def list_all_iff)
  qed (simp add: envelope_ok_def)
  done

text \<open>An object whose chunks hash as its manifest says is one byte string, or a collision.\<close>

lemma verify_chunks_iff:
  "verify_chunks p m i bs = Inr () \<longleftrightarrow> (\<forall>j < length bs. verify_chunk (hash p) m (i + j) (bs ! j) = Inr ())"
proof (induction bs arbitrary: i)
  case (Cons b bs)
  show ?case
    by (auto simp: Cons res_simps All_less_Suc2)
qed simp

end
