(* ===== verification/Mesh_Delivery.thy ===== *)
theory Mesh_Delivery
  imports Mesh_Envelope Mesh_Policy
begin

text \<open>
  Sealing and verifying protected objects, \<open>crates/mesh-protocol/src/lib.rs\<close>: \<open>seal_message\<close>,
  \<open>verify_delivery\<close> and the proof \<open>VerifiedDelivery\<close> that it builds. The last section relates the
  two: what a certified origin seals, every target opens, and what a target accepts is bound to
  the announcement the origin signed.
\<close>

section \<open>Sealing\<close>

record seal_request =
  sr_origin :: member_id
  sr_sequence :: u64
  sr_policy :: object_policy
  sr_plaintext :: bytes
  sr_now :: u64

primrec target_keys :: "suite \<Rightarrow> verified_roster \<Rightarrow> member_id list \<Rightarrow> durable_error + (member_id \<times> arr32) list" where
  "target_keys p roster [] = Inr []"
| "target_keys p roster (m # ms) =
     bindr (roster_recipient p roster m) (\<lambda>rc.
     bindr (target_keys p roster ms) (\<lambda>ts. Inr ((m, rp_delivery_key_id rc) # ts)))"

text \<open>The loop that wraps the content key for each target and writes the wraps.\<close>

primrec seal_wraps ::
    "suite \<Rightarrow> ('r, 'k, 's, 'o) kem \<Rightarrow> 'r source \<Rightarrow> verified_roster \<Rightarrow> content_sealer
     \<Rightarrow> (member_id \<times> arr32) list \<Rightarrow> bytes \<Rightarrow> 'r \<Rightarrow> (durable_error + bytes) \<times> 'r" where
  "seal_wraps p k fill roster sealer [] w rng = (Inr w, rng)"
| "seal_wraps p k fill roster sealer (t # ts) w rng =
     bind_st (roster_recipient p roster (fst t), rng) (\<lambda>rc rng.
     bind_st (apfst (map_err random_err) (sealer_wrap_for k fill sealer rc rng)) (\<lambda>wrap rng.
       let w = w_array 2 w;
           w = w_bytes (be_bytes (rw_encapsulated wrap)) w;
           w = w_bytes (be_bytes (rw_ciphertext wrap)) w
       in seal_wraps p k fill roster sealer ts w rng))"

primrec seal_chunks :: "suite \<Rightarrow> bytes list \<Rightarrow> bytes \<Rightarrow> content_sealer \<Rightarrow> durable_error + bytes" where
  "seal_chunks p [] w sealer = Inr w"
| "seal_chunks p (c # cs) w sealer =
     (case seal_next p c sealer of
        (Inl e, sealer) \<Rightarrow> Inl (random_err e)
      | (Inr b, sealer) \<Rightarrow> seal_chunks p cs (w_bytes b w) sealer)"

definition seal_message ::
    "suite \<Rightarrow> ('r, 'k, 's, 'o) kem \<Rightarrow> 'r source \<Rightarrow> seal_request \<Rightarrow> verified_roster \<Rightarrow> identity_signing_key \<Rightarrow> 'r
     \<Rightarrow> (durable_error + sealed_message) \<times> 'r" where
  "seal_message p k fill request roster signer rng =
     (let origin = sr_origin request;
          sequence = sr_sequence request;
          policy = sr_policy request;
          plaintext = sr_plaintext request;
          now = sr_now request
      in
      bind_st (validate_at roster now, rng) (\<lambda>_ rng.
      bind_st (roster_member roster origin, rng) (\<lambda>c rng.
      if ct_signing_key c \<noteq> signing_public_key p signer \<or> op_epoch policy \<noteq> sc_epoch (vr_scope roster)
      then (Inl AuthenticationFailed, rng)
      else if plaintext = []
         \<or> length plaintext > MAX_PLAINTEXT
         \<or> op_targets policy = []
         \<or> length (op_targets policy) > MAX_TARGETS
         \<or> op_expires_at policy \<le> now
      then (Inl InvalidInput, rng)
      else
      let policy = policy\<lparr>op_targets := sort (op_targets policy)\<rparr> in
      if \<not> ascending (op_targets policy) then (Inl InvalidInput, rng)
      else
      bind_st (target_keys p roster (op_targets policy), rng) (\<lambda>targets rng.
      bind_st (apfst (map_err random_err) (fill 32 rng)) (\<lambda>salt rng.
      let h = \<lparr>eh_scope = vr_scope roster, eh_origin = origin, eh_sequence = sequence,
               eh_namespace = op_namespace policy, eh_created = now, eh_expires = op_expires_at policy,
               eh_hops = op_hop_limit policy, eh_targets = targets, eh_clear_len = length plaintext,
               eh_salt = be_word salt\<rparr>;
          header = header_encode h
      in
      bind_st (header_decode header, rng) (\<lambda>_ rng.
      bind_st (apfst (map_err random_err) (sealer_generate fill (header_context p h) rng)) (\<lambda>sealer rng.
      let w = [];
          w = w_array 5 w;
          w = w_uint 1 w;
          w = w_bytes header w;
          w = w_bytes (be_bytes (cs_base_nonce sealer)) w;
          w = w_array (length (eh_targets h)) w
      in
      bind_st (seal_wraps p k fill roster sealer (eh_targets h) w rng) (\<lambda>w rng.
      let w = w_array (unat (cc_chunk_count (header_context p h))) w in
      bind_st (seal_chunks p (chunks CHUNK_BYTES plaintext) w sealer, rng) (\<lambda>w rng.
      bind_st (from_opaque (hash p) origin sequence policy w, rng) (\<lambda>object rng.
      let b = [];
          b = w_array 3 b;
          b = w_uint 1 b;
          b = w_bytes (be_bytes (sc_group (vr_scope roster))) b;
          b = w_bytes (manifest_encode (po_manifest object)) b
      in
      bind_st (map_err auth_err (sign p signer (vr_scope roster) Object b), rng) (\<lambda>sig rng.
      let bytes = signed_record b sig in
      bind_st (authenticate_announcement p bytes roster now, rng) (\<lambda>announcement rng.
        (Inr \<lparr>sm_object = object, sm_announcement = announcement\<rparr>, rng)))))))))))))"

section \<open>Verifying\<close>

primrec target_position :: "member_id \<Rightarrow> (member_id \<times> arr32) list \<Rightarrow> nat option" where
  "target_position m [] = None"
| "target_position m (t # ts) = (if fst t = m then Some 0 else map_option Suc (target_position m ts))"

primrec open_chunks ::
    "suite \<Rightarrow> content_key \<Rightarrow> chunk_context \<Rightarrow> 96 word \<Rightarrow> nat \<Rightarrow> bytes list \<Rightarrow> durable_error + bytes" where
  "open_chunks p key ctx nonce i [] = Inr []"
| "open_chunks p key ctx nonce i (c # cs) =
     bindr (map_err auth_err (open_chunk p key ctx nonce (of_nat i) c)) (\<lambda>clear.
     bindr (open_chunks p key ctx nonce (i + 1) cs) (\<lambda>rest. Inr (clear @ rest)))"

definition verify_delivery ::
    "suite \<Rightarrow> ('r, 'k, 's, 'o) kem \<Rightarrow> authenticated_announcement \<Rightarrow> bytes \<Rightarrow> verified_roster \<Rightarrow> member_id
     \<Rightarrow> 'k \<Rightarrow> u64 \<Rightarrow> durable_error + verified_delivery" where
  "verify_delivery p k a bs roster member secret now =
     bindr (aa_validate_roster a roster now) (\<lambda>_.
     bindr (envelope_open p a bs roster) (\<lambda>e.
     let h = en_header e in
     if now < eh_created h \<or> now \<ge> eh_expires h then Inl Expired
     else
       bindr (ok_or AuthenticationFailed (target_position member (eh_targets h))) (\<lambda>i.
       bindr (roster_recipient p roster member) (\<lambda>recipient.
       bindr (map_err auth_err
         (unwrap_key k secret (eh_scope h) (header_context_id p h) recipient (en_wraps e ! i))) (\<lambda>key.
       bindr (open_chunks p key (header_context p h) (en_nonce e) 0 (en_chunks e)) (\<lambda>plaintext.
       if length plaintext \<noteq> eh_clear_len h then Inl Corrupt
       else
         bindr (roster_member roster member) (\<lambda>c.
           Inr \<lparr>vd_announcement = a, vd_member = member, vd_signing_key = ct_signing_key c,
                vd_context_id = header_context_id p h, vd_verified_at = now,
                vd_deadline = min (eh_expires h) (vr_valid_until roster), vd_plaintext = plaintext\<rparr>))))))) "

definition vd_validate_commit :: "verified_delivery \<Rightarrow> verified_roster \<Rightarrow> u64 \<Rightarrow> durable_error + unit" where
  "vd_validate_commit v roster now =
     bindr (aa_validate_roster (vd_announcement v) roster now) (\<lambda>_.
       if now < vd_verified_at v \<or> now \<ge> vd_deadline v then Inl Expired else Inr ())"

section \<open>What sealing produces\<close>

lemma apfst_map_err_Inr [res_simps]: "apfst (map_err g) m = (Inr x, r) \<longleftrightarrow> m = (Inr x, r)"
  by (cases m) (auto simp: res_simps)

lemma target_keys_Inr:
  "target_keys p roster ms = Inr ts \<longleftrightarrow> map fst ts = ms \<and>
     (\<forall>t \<in> set ts. \<exists>c. roster_member roster (fst t) = Inr c \<and> snd t = delivery_key_id p (ct_delivery_key c))"
proof (induction ms arbitrary: ts)
  case (Cons m ms)
  show ?case
    by (cases ts) (auto simp: res_simps roster_recipient_def Cons)
qed auto

text \<open>The wraps written: one per target, each made for the certified key of that target.\<close>

lemma seal_wraps_Inr:
  assumes "seal_wraps p k fill roster sealer ts w rng = (Inr out, rng')"
  shows "\<exists>ws. out = w @ concat (map wrap_bytes ws) \<and> length ws = length ts \<and>
    (\<forall>i < length ts. \<exists>rc r r'. roster_recipient p roster (fst (ts ! i)) = Inr rc \<and>
       sealer_wrap_for k fill sealer rc r = (Inr (ws ! i), r'))"
  using assms
proof (induction ts arbitrary: w rng)
  case Nil
  then show ?case by auto
next
  case (Cons t ts)
  then obtain rc wrap r where t: "roster_recipient p roster (fst t) = Inr rc"
    "sealer_wrap_for k fill sealer rc rng = (Inr wrap, r)"
    "seal_wraps p k fill roster sealer ts (w @ wrap_bytes wrap) r = (Inr out, rng')"
    by (auto simp: res_simps w_simps Let_def wrap_bytes_def fixed_bytes_def)
  from Cons.IH [OF t(3)] obtain ws where "out = (w @ wrap_bytes wrap) @ concat (map wrap_bytes ws)"
    "length ws = length ts" "\<forall>i < length ts. \<exists>rc r r'. roster_recipient p roster (fst (ts ! i)) = Inr rc \<and>
       sealer_wrap_for k fill sealer rc r = (Inr (ws ! i), r')" by blast
  then show ?case
    using t(1,2) by (intro exI [of _ "wrap # ws"]) (auto simp: All_less_Suc2)
qed

text \<open>The chunks written: each opens to the plaintext it was sealed from.\<close>

lemma seal_chunks_Inr:
  assumes "aead_ok p" and "seal_chunks p ms w z = Inr out" and "cs_next z = of_nat i"
  shows "\<exists>cs. out = w @ concat (map blob_bytes cs) \<and> map length cs = map (\<lambda>m. length m + 16) ms \<and>
    open_chunks p (cs_key z) (cs_context z) (cs_base_nonce z) i cs = Inr (concat ms)"
  using assms(2,3)
proof (induction ms arbitrary: w z i)
  case Nil
  then show ?case by auto
next
  case (Cons m ms)
  then obtain c z' where c: "seal_next p m z = (Inr c, z')" "seal_chunks p ms (w @ blob_bytes c) z' = Inr out"
    by (auto simp: w_simps split: prod.splits sum.splits)
  note o = seal_next_opens [OF assms(1) c(1)]
  have "cs_next z' = of_nat (i + 1)" using o(3) Cons.prems(2) by (simp add: add.commute)
  from Cons.IH [OF c(2) this] obtain cs where "out = (w @ blob_bytes c) @ concat (map blob_bytes cs)"
    "map length cs = map (\<lambda>m. length m + 16) ms"
    "open_chunks p (cs_key z) (cs_context z) (cs_base_nonce z) (i + 1) cs = Inr (concat ms)"
    using o(3) by auto
  then show ?case
    using o(1,2) Cons.prems(2) by (intro exI [of _ "c # cs"]) auto
qed

lemma announcement_bytes_inject:
  assumes "announcement_bytes g m = announcement_bytes g n" "manifest_ok m" "manifest_ok n"
  shows "m = n"
proof -
  have "blob_bytes (manifest_encode m) = blob_bytes (manifest_encode n)"
    using assms(1) by (simp add: announcement_bytes_def)
  then have "manifest_encode m = manifest_encode n"
    using wbytes.prefix_free [of 4096 "manifest_encode m" "manifest_encode n" "[]" "[]"] length_manifest [OF assms(2)]
      length_manifest [OF assms(3)] length_blob(1) [of "manifest_encode n"]
    by (simp add: fits_limit_iff)
  then show ?thesis using manifest.put_inj assms(2,3) by blast
qed

lemma authenticated_manifest:
  assumes "authenticate_announcement p (signed_record (announcement_bytes (sc_group (vr_scope roster)) m) sig) roster now = Inr a"
    and "manifest_ok m"
  shows "aa_manifest a = m"
proof -
  let ?b = "announcement_bytes (sc_group (vr_scope roster))"
  obtain sig' where a: "length (signed_record (?b m) sig) \<le> 3998" "manifest_ok (aa_manifest a)"
      "signed_record (?b m) sig = signed_record (?b (aa_manifest a)) sig'"
    using assms(1) by (auto simp: authenticate_announcement_iff)
  have "signed_parts (signed_record (?b m) sig) 3998 = Inr (?b m, sig)"
    "signed_parts (signed_record (?b m) sig) 3998 = Inr (?b (aa_manifest a), sig')"
    using a by (simp_all add: signed_parts_iff)
  then have "?b (aa_manifest a) = ?b m" by simp
  then show ?thesis by (rule announcement_bytes_inject [OF _ a(2) assms(2)])
qed

definition sealed_as ::
    "suite \<Rightarrow> ('r, 'k, 's, 'o) kem \<Rightarrow> 'r source \<Rightarrow> verified_roster \<Rightarrow> seal_request \<Rightarrow> sealed_message \<Rightarrow> envelope
     \<Rightarrow> content_key \<Rightarrow> bool" where
  "sealed_as p k fill roster q sm e key \<longleftrightarrow>
     envelope_ok e \<and> bound_to p (en_header e) (sm_announcement sm) roster \<and>
     object_intact p (po_manifest (sm_object sm)) (envelope_bytes e) \<and>
     po_chunks (sm_object sm) = chunks 1024 (envelope_bytes e) \<and>
     aa_manifest (sm_announcement sm) = po_manifest (sm_object sm) \<and>
     authenticate_announcement p (aa_encoded (sm_announcement sm)) roster (sr_now q) = Inr (sm_announcement sm) \<and>
     eh_created (en_header e) = sr_now q \<and> eh_expires (en_header e) = op_expires_at (sr_policy q) \<and>
     eh_clear_len (en_header e) = length (sr_plaintext q) \<and>
     set (map fst (eh_targets (en_header e))) = set (op_targets (sr_policy q)) \<and>
     (\<forall>i < length (eh_targets (en_header e)). \<exists>rc r r'.
        roster_recipient p roster (fst (eh_targets (en_header e) ! i)) = Inr rc \<and>
        wrap_key k fill key (eh_scope (en_header e)) (header_context_id p (en_header e)) rc r = (Inr (en_wraps e ! i), r')) \<and>
     open_chunks p key (header_context p (en_header e)) (en_nonce e) 0 (en_chunks e) = Inr (sr_plaintext q)"

lemma chunks_fit_map:
  "map length cs = map (\<lambda>m. length m + 16) ms \<Longrightarrow>
     (\<forall>j < length ms. length (ms ! j) = min (clear - (i + j) * 1024) 1024) \<Longrightarrow> chunks_fit clear i cs"
proof (induction cs arbitrary: ms i)
  case (Cons c cs)
  then obtain m ms' where ms: "ms = m # ms'" by (cases ms) auto
  then show ?case
    using Cons.prems Cons.IH [of ms' "i + 1"] by (auto simp: All_less_Suc2 algebra_simps)
qed simp

definition request_header :: "seal_request \<Rightarrow> verified_roster \<Rightarrow> (member_id \<times> arr32) list \<Rightarrow> arr32 \<Rightarrow> header" where
  "request_header q roster ts salt = \<lparr>eh_scope = vr_scope roster, eh_origin = sr_origin q,
     eh_sequence = sr_sequence q, eh_namespace = op_namespace (sr_policy q), eh_created = sr_now q,
     eh_expires = op_expires_at (sr_policy q), eh_hops = op_hop_limit (sr_policy q), eh_targets = ts,
     eh_clear_len = length (sr_plaintext q), eh_salt = salt\<rparr>"

text \<open>The steps of a successful \<open>seal_message\<close>, with what each of them wrote.\<close>

lemma seal_message_steps:
  assumes "seal_message p k fill q roster signer rng = (Inr sm, rng')"
  obtains ts salt h r1 sealer r2 w r3 w' sig where
    "h = request_header q roster ts salt" "validate_at roster (sr_now q) = Inr ()"
    "target_keys p roster (sort (op_targets (sr_policy q))) = Inr ts"
    "sr_plaintext q \<noteq> []" "length (sr_plaintext q) \<le> MAX_PLAINTEXT" "sr_now q < op_expires_at (sr_policy q)"
    "op_epoch (sr_policy q) = sc_epoch (vr_scope roster)"
    "sealer_generate fill (header_context p h) r1 = (Inr sealer, r2)"
    "seal_wraps p k fill roster sealer ts (array_bytes 5 @ uint_bytes 1 @ blob_bytes (header_encode h) @
       fixed_bytes (cs_base_nonce sealer) @ array_bytes (length ts)) r2 = (Inr w, r3)"
    "seal_chunks p (chunks 1024 (sr_plaintext q))
       (w @ array_bytes (unat (cc_chunk_count (header_context p h)))) sealer = Inr w'"
    "from_opaque (hash p) (sr_origin q) (sr_sequence q)
       ((sr_policy q)\<lparr>op_targets := sort (op_targets (sr_policy q))\<rparr>) w' = Inr (sm_object sm)"
    "authenticate_announcement p (signed_record (announcement_bytes (sc_group (vr_scope roster))
       (po_manifest (sm_object sm))) sig) roster (sr_now q) = Inr (sm_announcement sm)"
proof -
  have fold: "\<lparr>eh_scope = vr_scope roster, eh_origin = sr_origin q,
     eh_sequence = sr_sequence q, eh_namespace = op_namespace (sr_policy q), eh_created = sr_now q,
     eh_expires = op_expires_at (sr_policy q), eh_hops = op_hop_limit (sr_policy q), eh_targets = ts,
     eh_clear_len = length (sr_plaintext q), eh_salt = salt\<rparr> = request_header q roster ts salt" for ts salt
    by (simp add: request_header_def)
  have targets: "eh_targets (request_header q roster ts salt) = ts" for ts salt by (simp add: request_header_def)
  obtain ob a where sm: "sm = \<lparr>sm_object = ob, sm_announcement = a\<rparr>" by (cases sm)
  from assms show thesis
    unfolding sm seal_message_def Let_def object_policy.simps
    apply (simp add: res_simps w_simps announcement_bytes_def fixed_bytes_def not_le not_less fold targets split: if_splits)
    apply (elim exE conjE)
    apply hypsubst
    apply (rule that [unfolded sm sealed_message.simps announcement_bytes_def fixed_bytes_def, OF refl])
             apply (assumption | simp (no_asm_simp))+
    done
qed

text \<open>The checks of the sealer and of the manifest are those of the header.\<close>

lemma sealed_header_ok:
  assumes "h = request_header q roster ts salt" "sr_plaintext q \<noteq> []" "length (sr_plaintext q) \<le> MAX_PLAINTEXT"
    "sr_now q < op_expires_at (sr_policy q)" "op_epoch (sr_policy q) = sc_epoch (vr_scope roster)"
    "target_keys p roster (sort (op_targets (sr_policy q))) = Inr ts"
    "sealer_generate fill (header_context p h) r = (Inr sealer, r')"
    "from_opaque (hash p) (sr_origin q) (sr_sequence q)
       ((sr_policy q)\<lparr>op_targets := sort (op_targets (sr_policy q))\<rparr>) bs = Inr ob"
  shows "header_ok h" "bound_to p h \<lparr>aa_manifest = po_manifest ob, aa_encoded = x, aa_scope = vr_scope roster,
    aa_roster_digest = d\<rparr> roster"
proof -
  have "chunk_ok (header_context p h) 0"
    using assms(7) by (auto simp: sealer_generate_def res_simps input_simps)
  then have ns: "namespace_ok (eh_namespace h)"
    by (simp add: chunk_ok_def header_context_def Let_def namespace_ok_def namespace_new_def)
  have m: "mf_targets (po_manifest ob) = sort (op_targets (sr_policy q))" "mf_origin (po_manifest ob) = sr_origin q"
      "mf_sequence (po_manifest ob) = sr_sequence q" "mf_namespace (po_manifest ob) = op_namespace (sr_policy q)"
      "mf_epoch (po_manifest ob) = op_epoch (sr_policy q)" "mf_expires_at (po_manifest ob) = op_expires_at (sr_policy q)"
      "mf_hop_limit (po_manifest ob) = op_hop_limit (sr_policy q)"
    and v: "manifest_validate (po_manifest ob) = Inr ()"
    using assms(8) by (auto simp: from_opaque_def Let_def res_simps sorted_sort_id split: if_splits)
  have ts: "map fst ts = sort (op_targets (sr_policy q))"
      "\<forall>t \<in> set ts. \<exists>c. roster_member roster (fst t) = Inr c \<and> snd t = delivery_key_id p (ct_delivery_key c)"
    using assms(6) by (simp_all add: target_keys_Inr)
  have "length ts = length (mf_targets (po_manifest ob))" using ts(1) m(1) by (metis length_map)
  then show "header_ok h"
    using v ns assms(2-5) ts(1) unfolding assms(1)
    by (auto simp: header_ok_def request_header_def manifest_validate_def m word_gt_0 not_le not_less split: if_splits)
  show "bound_to p h \<lparr>aa_manifest = po_manifest ob, aa_encoded = x, aa_scope = vr_scope roster, aa_roster_digest = d\<rparr> roster"
    using ts unfolding assms(1) by (simp add: bound_to_def request_header_def m)
qed

lemma seal_message_Inr:
  assumes "aead_ok p" and "seal_message p k fill q roster signer rng = (Inr sm, rng')"
  shows "\<exists>e key. sealed_as p k fill roster q sm e key"
proof (rule seal_message_steps [OF assms(2)])
  fix ts salt h r1 sealer r2 w r3 w' sig
  assume h: "h = request_header q roster ts salt"
    and ts: "target_keys p roster (sort (op_targets (sr_policy q))) = Inr ts"
    and pl: "sr_plaintext q \<noteq> []" "length (sr_plaintext q) \<le> MAX_PLAINTEXT" "sr_now q < op_expires_at (sr_policy q)"
      "op_epoch (sr_policy q) = sc_epoch (vr_scope roster)"
    and sealer: "sealer_generate fill (header_context p h) r1 = (Inr sealer, r2)"
    and wraps: "seal_wraps p k fill roster sealer ts (array_bytes 5 @ uint_bytes 1 @ blob_bytes (header_encode h) @
       fixed_bytes (cs_base_nonce sealer) @ array_bytes (length ts)) r2 = (Inr w, r3)"
    and chunks: "seal_chunks p (chunks 1024 (sr_plaintext q))
       (w @ array_bytes (unat (cc_chunk_count (header_context p h)))) sealer = Inr w'"
    and ob: "from_opaque (hash p) (sr_origin q) (sr_sequence q)
       ((sr_policy q)\<lparr>op_targets := sort (op_targets (sr_policy q))\<rparr>) w' = Inr (sm_object sm)"
    and ann: "authenticate_announcement p (signed_record (announcement_bytes (sc_group (vr_scope roster))
       (po_manifest (sm_object sm))) sig) roster (sr_now q) = Inr (sm_announcement sm)"
  let ?m = "po_manifest (sm_object sm)" and ?pl = "sr_plaintext q"
  note header = sealed_header_ok [OF h pl ts sealer ob]
  have z: "cs_context sealer = header_context p h" "cs_next sealer = of_nat 0"
    using sealer_generate_ok [OF sealer] by simp_all
  obtain ws where ws: "w = (array_bytes 5 @ uint_bytes 1 @ blob_bytes (header_encode h) @
       fixed_bytes (cs_base_nonce sealer) @ array_bytes (length ts)) @ concat (map wrap_bytes ws)"
    "length ws = length ts"
    "\<forall>i < length ts. \<exists>rc r r'. roster_recipient p roster (fst (ts ! i)) = Inr rc \<and>
       sealer_wrap_for k fill sealer rc r = (Inr (ws ! i), r')"
    using seal_wraps_Inr [OF wraps] by blast
  obtain cs where cs: "w' = (w @ array_bytes (unat (cc_chunk_count (header_context p h)))) @ concat (map blob_bytes cs)"
    "map length cs = map (\<lambda>m. length m + 16) (chunks 1024 ?pl)"
    "open_chunks p (cs_key sealer) (cs_context sealer) (cs_base_nonce sealer) 0 cs = Inr (concat (chunks 1024 ?pl))"
    using seal_chunks_Inr [OF assms(1) chunks z(2)] by blast
  let ?e = "\<lparr>en_header = h, en_nonce = cs_base_nonce sealer, en_wraps = ws, en_chunks = cs\<rparr>"
  have hd: "eh_targets h = ts" "eh_clear_len h = length ?pl" "eh_created h = sr_now q"
      "eh_expires h = op_expires_at (sr_policy q)"
    by (simp_all add: h request_header_def)
  have n: "length cs = div_ceil (length ?pl) 1024"
    using cs(2) by (metis length_map length_chunks zero_less_numeral)
  have count: "unat (cc_chunk_count (header_context p h)) = length cs"
    using header_chunk_count(1) [OF header(1), of p] hd n by simp
  have bytes: "w' = envelope_bytes ?e"
    using cs(1) ws(1,2) count hd by (simp add: envelope_bytes_def)
  have fit: "chunks_fit (length ?pl) 0 cs"
    by (rule chunks_fit_map [OF cs(2)]) (simp add: length_nth_chunks min.commute)
  have env: "envelope_ok ?e" using header(1) ws(2) n fit hd by (simp add: envelope_ok_def)
  note fo = from_opaque_Inr [OF ob]
  have intact: "object_intact p ?m (envelope_bytes ?e)"
    using fo prepared_chunks_verify [OF ob] bytes
    by (simp add: object_intact_def verify_chunks_iff chunk_count_def)
  have mok: "manifest_ok ?m"
    using fo(4,5) header(1) by (simp add: manifest_ok_def header_ok_def h request_header_def)
  have a: "aa_manifest (sm_announcement sm) = ?m" by (rule authenticated_manifest [OF ann mok])
  have a': "aa_encoded (sm_announcement sm) = signed_record (announcement_bytes (sc_group (vr_scope roster)) ?m) sig"
    "aa_scope (sm_announcement sm) = vr_scope roster" "aa_roster_digest (sm_announcement sm) = vr_digest roster"
    using ann by (simp_all add: authenticate_announcement_iff)
  have bound: "bound_to p h (sm_announcement sm) roster"
    using header(2) [of _ "vr_digest roster"] a a' by (simp add: bound_to_def)
  have targets: "set (map fst ts) = set (op_targets (sr_policy q))"
    using ts by (simp only: target_keys_Inr set_sort)
  have "sealed_as p k fill roster q sm ?e (cs_key sealer)"
    unfolding sealed_as_def envelope.simps hd
    by (intro conjI)
      (use env bound intact fo(3) bytes a a' ann targets ws(3) cs(3) z(1)
        in \<open>simp_all add: sealer_wrap_for_def header_context_def Let_def\<close>)
  then show ?thesis by blast
qed

section \<open>What a target opens\<close>

lemma target_position_Some:
  "target_position m ts = Some i \<Longrightarrow> i < length ts \<and> fst (ts ! i) = m"
  by (induction ts arbitrary: i) (auto split: if_splits)

lemma target_position_None: "target_position m ts = None \<longleftrightarrow> m \<notin> set (map fst ts)"
  by (induction ts) auto

lemma roster_recipient_key:
  "roster_recipient p roster m = Inr rc \<Longrightarrow> roster_member roster m = Inr c \<Longrightarrow> rp_public_key rc = ct_delivery_key c"
  by (auto simp: roster_recipient_def)

lemma sealed_delivery:
  assumes "kem_ok k" and s: "sealed_as p k fill roster q sm e key"
    and "member \<in> set (op_targets (sr_policy q))" and "roster_member roster member = Inr c"
    and "ct_delivery_key c = kem_sk_to_pk k secret"
    and "validate_at roster now = Inr ()" and "sr_now q \<le> now" and "now < op_expires_at (sr_policy q)"
  shows "verify_delivery p k (sm_announcement sm) (envelope_bytes e) roster member secret now =
    Inr \<lparr>vd_announcement = sm_announcement sm, vd_member = member, vd_signing_key = ct_signing_key c,
      vd_context_id = header_context_id p (en_header e), vd_verified_at = now,
      vd_deadline = min (op_expires_at (sr_policy q)) (vr_valid_until roster), vd_plaintext = sr_plaintext q\<rparr>"
proof -
  let ?h = "en_header e"
  note s = s [unfolded sealed_as_def]
  have open_e: "envelope_open p (sm_announcement sm) (envelope_bytes e) roster = Inr e"
    using s by (simp add: envelope_open_iff)
  obtain i where i: "target_position member (eh_targets ?h) = Some i"
    using target_position_None [of member "eh_targets ?h"] s assms(3) by auto
  note pos = target_position_Some [OF i]
  obtain rc r r' where rc: "roster_recipient p roster member = Inr rc"
      "wrap_key k fill key (eh_scope ?h) (header_context_id p ?h) rc r = (Inr (en_wraps e ! i), r')"
    using s pos by fastforce
  have key: "unwrap_key k secret (eh_scope ?h) (header_context_id p ?h) rc (en_wraps e ! i) = Inr key"
    using wrapped_key_unwraps [OF assms(1) _ rc(2)] roster_recipient_key [OF rc(1) assms(4)] assms(5) by simp
  have "aa_validate_roster (sm_announcement sm) roster now = Inr ()"
    using s assms(6) by (simp add: aa_validate_roster_Inr authenticate_announcement_iff)
  then show ?thesis
    using s open_e i rc(1) key assms(4,7,8) by (simp add: verify_delivery_def Let_def not_le not_less)
qed

text \<open>
  C32: what a certified origin seals is delivered: the announcement it produces is authenticated
  by every holder of the roster while the roster is valid, and every target that holds the
  delivery key the roster certifies for it opens the object and gets the plaintext, at any time
  from the sealing until the message expires.
\<close>

theorem sealed_message_delivered:
  assumes "aead_ok p" and "kem_ok k" and "seal_message p k fill q roster signer rng = (Inr sm, rng')"
    and "member \<in> set (op_targets (sr_policy q))" and "roster_member roster member = Inr c"
    and "ct_delivery_key c = kem_sk_to_pk k secret"
    and "validate_at roster now = Inr ()" and "sr_now q \<le> now" and "now < op_expires_at (sr_policy q)"
  shows "authenticate_announcement p (aa_encoded (sm_announcement sm)) roster now = Inr (sm_announcement sm) \<and>
    (\<exists>v. verify_delivery p k (sm_announcement sm) (concat (po_chunks (sm_object sm))) roster member secret now = Inr v \<and>
       vd_plaintext v = sr_plaintext q \<and> vd_announcement v = sm_announcement sm \<and> vd_member v = member \<and>
       vd_deadline v = min (op_expires_at (sr_policy q)) (vr_valid_until roster))"
proof -
  obtain e key where s: "sealed_as p k fill roster q sm e key"
    using seal_message_Inr [OF assms(1,3)] by blast
  then have "concat (po_chunks (sm_object sm)) = envelope_bytes e" by (simp add: sealed_as_def)
  moreover have "authenticate_announcement p (aa_encoded (sm_announcement sm)) roster now = Inr (sm_announcement sm)"
    using s assms(7) unfolding sealed_as_def authenticate_announcement_iff by blast
  ultimately show ?thesis
    using sealed_delivery [OF assms(2) s assms(4-9)] by simp
qed

lemma verify_delivery_steps:
  assumes "verify_delivery p k a bs roster member secret now = Inr v"
  shows "\<exists>e c pt. envelope_open p a bs roster = Inr e \<and> eh_created (en_header e) \<le> now \<and>
    now < eh_expires (en_header e) \<and> member \<in> set (mf_targets (aa_manifest a)) \<and>
    roster_member roster member = Inr c \<and> kem_sk_to_pk k secret = ct_delivery_key c \<and>
    aa_roster_digest a = vr_digest roster \<and> validate_at roster now = Inr () \<and> length pt = eh_clear_len (en_header e) \<and>
    v = \<lparr>vd_announcement = a, vd_member = member, vd_signing_key = ct_signing_key c,
        vd_context_id = header_context_id p (en_header e), vd_verified_at = now,
        vd_deadline = min (eh_expires (en_header e)) (vr_valid_until roster), vd_plaintext = pt\<rparr>"
proof -
  obtain e i rc key pt c where e: "envelope_open p a bs roster = Inr e" "eh_created (en_header e) \<le> now"
      "now < eh_expires (en_header e)" "target_position member (eh_targets (en_header e)) = Some i"
      "unwrap_key k secret (eh_scope (en_header e)) (header_context_id p (en_header e)) rc (en_wraps e ! i) = Inr key"
      "length pt = eh_clear_len (en_header e)" "roster_member roster member = Inr c"
      "roster_recipient p roster member = Inr rc" "aa_validate_roster a roster now = Inr ()"
      "v = \<lparr>vd_announcement = a, vd_member = member, vd_signing_key = ct_signing_key c,
        vd_context_id = header_context_id p (en_header e), vd_verified_at = now,
        vd_deadline = min (eh_expires (en_header e)) (vr_valid_until roster), vd_plaintext = pt\<rparr>"
    using assms by (auto simp: verify_delivery_def Let_def res_simps not_le not_less split: if_splits)
  have b: "bound_to p (en_header e) a roster" using e(1) unfolding envelope_open_iff by blast
  have "kem_sk_to_pk k secret = ct_delivery_key c"
    using e(5) roster_recipient_key [OF e(8,7)] by (simp add: unwrap_key_def split: if_splits)
  moreover have "member \<in> set (mf_targets (aa_manifest a))"
    using target_position_Some [OF e(4)] b nth_mem unfolding bound_to_def by (metis length_map nth_map)
  moreover have "aa_roster_digest a = vr_digest roster" "validate_at roster now = Inr ()"
    using e(9) by (simp_all add: aa_validate_roster_Inr)
  ultimately show ?thesis using e(1-3,6,7,10) by blast
qed

text \<open>
  C2: a delivery is verified only for an object whose bytes are the chunks its manifest names
  and whose header says the same as the announcement the origin signed: scope, origin, sequence,
  namespace, expiry, hop limit and the exact list of targets with their certified delivery
  keys. The member is one of the targets and holds its certified key, the time is before the
  expiry, and the plaintext is not empty and within the bound.
\<close>

theorem verified_delivery_sound:
  assumes "verify_delivery p k a bs roster member secret now = Inr v"
  shows "object_intact p (aa_manifest a) bs \<and> validate_at roster now = Inr () \<and> aa_roster_digest a = vr_digest roster \<and>
    (\<exists>e. bs = envelope_bytes e \<and> envelope_ok e \<and> bound_to p (en_header e) a roster \<and>
       eh_created (en_header e) \<le> now \<and> now < mf_expires_at (aa_manifest a) \<and>
       length (vd_plaintext v) = eh_clear_len (en_header e)) \<and>
    member \<in> set (mf_targets (aa_manifest a)) \<and> 0 < length (vd_plaintext v) \<and> length (vd_plaintext v) \<le> MAX_PLAINTEXT \<and>
    (\<exists>c. roster_member roster member = Inr c \<and> kem_sk_to_pk k secret = ct_delivery_key c \<and>
       vd_signing_key v = ct_signing_key c) \<and>
    vd_announcement v = a \<and> vd_member v = member \<and> vd_verified_at v = now \<and>
    vd_deadline v = min (mf_expires_at (aa_manifest a)) (vr_valid_until roster)"
proof -
  obtain e c pt where e: "envelope_open p a bs roster = Inr e" "eh_created (en_header e) \<le> now"
      "now < eh_expires (en_header e)" "member \<in> set (mf_targets (aa_manifest a))"
      "roster_member roster member = Inr c" "kem_sk_to_pk k secret = ct_delivery_key c"
      "aa_roster_digest a = vr_digest roster" "validate_at roster now = Inr ()" "length pt = eh_clear_len (en_header e)"
      "v = \<lparr>vd_announcement = a, vd_member = member, vd_signing_key = ct_signing_key c,
        vd_context_id = header_context_id p (en_header e), vd_verified_at = now,
        vd_deadline = min (eh_expires (en_header e)) (vr_valid_until roster), vd_plaintext = pt\<rparr>"
    using verify_delivery_steps [OF assms] by blast
  have b: "object_intact p (aa_manifest a) bs" "envelope_ok e" "bound_to p (en_header e) a roster" "bs = envelope_bytes e"
    using e(1) unfolding envelope_open_iff by blast+
  have "0 < length pt" "length pt \<le> MAX_PLAINTEXT"
    using b(2) e(9) by (simp_all add: envelope_ok_def header_ok_def)
  moreover have "eh_expires (en_header e) = mf_expires_at (aa_manifest a)"
    using b(3) by (simp add: bound_to_def)
  ultimately show ?thesis using e b by auto
qed

section \<open>A concrete message\<close>

definition sample_request :: seal_request where
  "sample_request = \<lparr>sr_origin = MemberId 1, sr_sequence = 1,
     sr_policy = \<lparr>op_namespace = Namespace (ascii ''t''), op_epoch = 1, op_targets = [MemberId 2], op_expires_at = 50,
       op_hop_limit = 4\<rparr>, sr_plaintext = [7], sr_now = 5\<rparr>"

definition sample_header :: header where
  "sample_header = request_header sample_request sample_roster [(MemberId 2, 0)] 0"

definition sample_message_sealer :: content_sealer where
  "sample_message_sealer = \<lparr>cs_key = ContentKey 0, cs_context = header_context sample_suite sample_header,
     cs_base_nonce = 0, cs_next = 0\<rparr>"

lemma sample_claim:
  "roster_member sample_roster (MemberId 1) = Inr (sample_claims 1)"
  "roster_member sample_roster (MemberId 2) = Inr (sample_claims 2)"
  by (simp_all add: sample_members) (simp_all add: sample_claims_def)

lemma sample_recipient:
  "roster_recipient sample_suite sample_roster (MemberId 2) = Inr \<lparr>rp_member = 2, rp_delivery_key_id = 0, rp_public_key = 2\<rparr>"
  using sample_claim(2)
  by (simp add: roster_recipient_def delivery_key_id_def domain_hash_def sample_suite_def sample_claims_def)

lemma sample_header_ok: "header_ok sample_header"
  by (simp add: sample_header_def request_header_def sample_request_def header_ok_def sample_members sample_scope_def
      MAX_LOGICAL_TIME_def word_le_nat_alt word_less_nat_alt namespace_ok_def namespace_new_def ascii_def
      namespace_byte_def is_ascii_alphanumeric_def)

lemma sample_message_sealer:
  "sealer_generate zero_source (header_context sample_suite sample_header) () = (Inr sample_message_sealer, ())"
proof -
  let ?c = "header_context sample_suite sample_header"
  have count: "cc_chunk_count ?c = 1"
    by (simp add: header_context_def Let_def sample_header_def request_header_def sample_request_def div_ceil_def)
  have "chunk_ok ?c 0"
    by (simp add: chunk_ok_def count)
      (simp add: header_context_def Let_def sample_header_def request_header_def sample_request_def sample_members
        sample_scope_def I64_MAX_def word_le_nat_alt word_less_nat_alt ascii_def namespace_byte_def is_ascii_alphanumeric_def)
  then have "chunk_aad ?c 0 = Inr (chunk_bytes ?c 0)" by (simp add: input_simps)
  then show ?thesis
    using sample_nonces(1)
    by (simp add: sealer_generate_def content_generate_def random32_def zero_source_def sample_message_sealer_def count)
qed

lemma sample_sealed:
  "\<exists>sm. seal_message sample_suite sample_kem zero_source sample_request sample_roster (IdentitySigningKey 0) () = (Inr sm, ())"
proof -
  let ?h = sample_header and ?z = sample_message_sealer
  let ?rc = "\<lparr>rp_member = 2, rp_delivery_key_id = 0, rp_public_key = 2 :: arr32\<rparr>"
  obtain wr where "wrap_key sample_kem zero_source (ContentKey 0) sample_scope (header_context_id sample_suite ?h) ?rc () = (Inr wr, ())"
    by (auto simp: wrap_key_def sample_kem_def wrap_context_def scope_prefix_def sample_scope_def Let_def
        I64_MAX_def word_le_nat_alt word_less_nat_alt)
  then have wrap: "sealer_wrap_for sample_kem zero_source ?z ?rc () = (Inr wr, ())"
    by (simp add: sealer_wrap_for_def sample_message_sealer_def header_context_def Let_def sample_header_def
        request_header_def sample_members)
  define w1 where "w1 = array_bytes 5 @ uint_bytes 1 @ blob_bytes (header_encode ?h) @ fixed_bytes (0 :: 96 word) @ array_bytes 1"
  have wraps: "seal_wraps sample_suite sample_kem zero_source sample_roster ?z [(MemberId 2, 0)] w1 () = (Inr (w1 @ wrap_bytes wr), ())"
    using sample_recipient wrap by (simp add: w_simps Let_def wrap_bytes_def fixed_bytes_def)
  let ?c = "[7] @ replicate 16 0 :: bytes"
  define w2 where "w2 = (w1 @ wrap_bytes wr) @ array_bytes 1 @ blob_bytes ?c"
  have count: "cc_chunk_count (header_context sample_suite ?h) = 1"
    by (simp add: header_context_def Let_def sample_header_def request_header_def sample_request_def div_ceil_def)
  have "sealer_ok ?z" using sealer_generate_ok [OF sample_message_sealer] by simp
  moreover have "accepts_chunk [7] ?z"
    by (simp add: accepts_chunk_def sample_message_sealer_def count)
  ultimately have "fst (seal_next sample_suite [7] ?z) = Inr ?c"
    using seal_next_accepted [of ?z "[7]" sample_suite] by (auto simp: seal_raw_def sample_suite_def)
  then have chunks: "seal_chunks sample_suite (chunks 1024 [7]) (w1 @ wrap_bytes wr @ array_bytes 1) ?z = Inr w2"
    by (cases "seal_next sample_suite [7] ?z") (auto simp: chunks_unfold w_simps w2_def)
  have "blob_bytes ?c \<noteq> []" using length_blob(2) [of ?c] by auto
  then have nonempty: "w2 \<noteq> []" by (simp add: w2_def)
  have "length w2 \<le> 1500"
    using length_blob [of "header_encode ?h"] length_header_bytes [OF sample_header_ok] length_array [of 5] length_array [of 1]
      length_array [of 2] length_uint [of 1] length_blob [of ?c] length_blob [of "be_bytes (0 :: 96 word)"]
      length_blob [of "be_bytes (rw_encapsulated wr)"] length_blob [of "be_bytes (rw_ciphertext wr)"]
    by (simp add: w2_def w1_def wrap_bytes_def fixed_bytes_def header_encode_eq)
  then have len: "0 < length w2" "length w2 \<le> 1500" using nonempty by simp_all
  define ob where "ob = projr (from_opaque (hash sample_suite) (MemberId 1) 1 (sr_policy sample_request) w2)"
  have ob: "from_opaque (hash sample_suite) (MemberId 1) 1 (sr_policy sample_request) w2 = Inr ob"
    using len by (simp add: ob_def from_opaque_def Let_def manifest_validate_def sample_request_def length_chunks
        MAX_LOGICAL_TIME_def word_le_nat_alt word_less_nat_alt)
  let ?m = "po_manifest ob"
  have m: "mf_targets ?m = [MemberId 2]" "mf_origin ?m = MemberId 1" "mf_epoch ?m = 1"
      "mf_namespace ?m = Namespace (ascii ''t'')" "length (mf_hashes ?m) \<le> 2"
    using ob len div_ceil_bounds [of "length w2" 2 1024]
    by (auto simp: from_opaque_def Let_def sample_request_def res_simps length_chunks split: if_splits)
  have mok: "manifest_ok ?m"
    using from_opaque_Inr(4) [OF ob] m(4)
    by (simp add: manifest_ok_def namespace_ok_def namespace_new_def ascii_def namespace_byte_def is_ascii_alphanumeric_def)
  define b where "b = announcement_bytes 1 ?m"
  have blen: "length b \<le> 600"
  proof -
    have "length (text_bytes (ascii ''t'')) \<le> 10"
      using head_bytes_length(1) [of 3 1] by (simp add: text_bytes_def ascii_def)
    then have "length (manifest_encode ?m) \<le> 400"
      using m(5) length_array [of 10] length_array [of 1] length_array [of "length (mf_hashes ?m)"] length_uint [of 1]
        length_uint [of "mf_sequence ?m"] length_uint [of "mf_expires_at ?m"] length_uint [of "ucast (mf_hop_limit ?m)"]
        length_uint [of "of_nat (mf_content_len ?m)"]
      by (simp add: manifest_encode_eq manifest_bytes_def m(1-4) length_fixed32 length_concat_const)
    then show ?thesis
      using length_blob(1) [of "manifest_encode ?m"] length_array [of 3] length_uint [of 1]
      by (simp add: b_def announcement_bytes_def length_fixed32)
  qed
  then obtain x where "signature_input sample_scope Object b = Inr x"
    by (simp add: signature_input_Inr sample_scope_def I64_MAX_def word_le_nat_alt)
  then have sig: "sign sample_suite (IdentitySigningKey 0) sample_scope Object b = Inr 0"
    "verify sample_suite 1 sample_scope Object b 0 = Inr ()"
    by (simp_all add: sign_def verify_def sample_suite_def)
  let ?a = "\<lparr>aa_manifest = ?m, aa_encoded = signed_record b 0, aa_scope = sample_scope, aa_roster_digest = vr_digest sample_roster\<rparr>"
  have ann: "authenticate_announcement sample_suite (signed_record b 0) sample_roster 5 = Inr ?a"
  proof -
    have k: "ct_signing_key (sample_claims 1) = 1" "sc_group sample_scope = 1" "sc_epoch sample_scope = 1"
      by (simp_all add: sample_claims_def sample_scope_def)
    have "\<exists>g. b = announcement_bytes 1 ?m \<and> verify sample_suite 1 sample_scope Object b g = Inr () \<and> signed_record b 0 = signed_record b g"
      using sig(2) by (intro exI [of _ 0]) (simp add: b_def)
    then show ?thesis
      using mok m blen length_signed_record(2) [of b 0]
      by (simp add: authenticate_announcement_iff sample_members(2,3) sample_claim k b_def del: One_nat_def) metis
  qed
  have dec: "header_decode (header_encode ?h) = Inr ?h"
    using sample_header_ok by (simp add: header_decode_iff)
  have sr: "sr_origin sample_request = MemberId 1" "sr_sequence sample_request = 1" "sr_plaintext sample_request = [7]"
      "sr_now sample_request = 5" "op_targets (sr_policy sample_request) = [MemberId 2]"
      "op_epoch (sr_policy sample_request) = 1" "op_expires_at (sr_policy sample_request) = 50"
      "(sr_policy sample_request)\<lparr>op_targets := [MemberId 2]\<rparr> = sr_policy sample_request"
    by (simp_all add: sample_request_def)
  have targets: "target_keys sample_suite sample_roster [MemberId 2] = Inr [(MemberId 2, 0)]"
    using sample_recipient by simp
  have head: "\<lparr>eh_scope = vr_scope sample_roster, eh_origin = MemberId 1, eh_sequence = 1,
      eh_namespace = op_namespace (sr_policy sample_request), eh_created = 5, eh_expires = 50,
      eh_hops = op_hop_limit (sr_policy sample_request), eh_targets = [(MemberId 2, 0)], eh_clear_len = Suc 0,
      eh_salt = 0\<rparr> = ?h"
    by (simp add: sample_header_def request_header_def sample_request_def)
  have w1_eq: "w_array (Suc 0) (w_bytes (be_bytes (cs_base_nonce ?z)) (w_bytes (header_encode ?h) (w_uint 1 (w_array 5 [])))) = w1"
    by (simp add: w1_def w_simps fixed_bytes_def sample_message_sealer_def)
  have k: "ct_signing_key (sample_claims 1) = 1" "sc_epoch (vr_scope sample_roster) = 1"
      "sc_group (vr_scope sample_roster) = 1" "vr_scope sample_roster = sample_scope"
    by (simp_all add: sample_claims_def sample_scope_def sample_members(2))
  have small: "(5 :: u64) < 100" "\<not> (50 :: u64) \<le> 5" by simp_all
  have eh: "eh_targets ?h = [(MemberId 2, 0)]" by (simp add: sample_header_def request_header_def)
  have b_eq: "w_bytes (manifest_encode ?m) (w_bytes (be_bytes (1 :: arr32)) (w_uint 1 (w_array 3 []))) = b"
    by (simp add: b_def announcement_bytes_def w_simps fixed_bytes_def)
  have chunks': "seal_chunks sample_suite (chunks 1024 [7]) (w_array 1 (w1 @ wrap_bytes wr)) ?z = Inr w2"
    using chunks by (simp add: w_simps)
  have sig': "sign sample_suite (IdentitySigningKey 0) (vr_scope sample_roster) Object b = Inr 0"
    using sig(1) k(4) by simp
  show ?thesis
    unfolding seal_message_def Let_def sr
    by (simp add: sample_members(3) sample_claim sample_public_key k(1-3) sample_recipient sr head
        dec sample_message_sealer eh w1_eq del: One_nat_def seal_wraps.simps,
      simp add: zero_source_def del: One_nat_def seal_wraps.simps,
      simp add: head dec sample_message_sealer eh w1_eq wraps count chunks' sr k(3) ob b_eq sig' ann
        del: One_nat_def seal_wraps.simps)
qed

lemma sample_crypto_ok: "aead_ok sample_suite" "kem_ok sample_kem" "signing_ok sample_suite"
  by (auto simp: aead_ok_def sample_suite_def kem_ok_def sample_kem_def signing_ok_def)

lemma sample_delivered:
  "\<exists>a bs v. verify_delivery sample_suite sample_kem a bs sample_roster (MemberId 2) 2 20 = Inr v \<and>
     authenticate_announcement sample_suite (aa_encoded a) sample_roster 5 = Inr a \<and> mf_expires_at (aa_manifest a) = 50"
proof -
  obtain sm where sm: "seal_message sample_suite sample_kem zero_source sample_request sample_roster (IdentitySigningKey 0) () = (Inr sm, ())"
    using sample_sealed by blast
  obtain e key where s: "sealed_as sample_suite sample_kem zero_source sample_roster sample_request sm e key"
    using seal_message_Inr [OF sample_crypto_ok(1) sm] by blast
  have r: "MemberId 2 \<in> set (op_targets (sr_policy sample_request))" "ct_delivery_key (sample_claims 2) = kem_sk_to_pk sample_kem 2"
    "validate_at sample_roster 20 = Inr ()" "sr_now sample_request \<le> 20" "20 < op_expires_at (sr_policy sample_request)"
    by (simp_all add: sample_request_def sample_members(3) sample_kem_def sample_claims_def)
  have "authenticate_announcement sample_suite (aa_encoded (sm_announcement sm)) sample_roster 5 = Inr (sm_announcement sm)"
    using s by (simp add: sealed_as_def sample_request_def)
  moreover have "mf_expires_at (aa_manifest (sm_announcement sm)) = 50"
  proof -
    have "eh_expires (en_header e) = 50" "bound_to sample_suite (en_header e) (sm_announcement sm) sample_roster"
      using s by (simp_all add: sealed_as_def sample_request_def)
    then show ?thesis by (simp add: bound_to_def)
  qed
  ultimately show ?thesis
    using sealed_delivery [OF sample_crypto_ok(2) s r(1) sample_claim(2) r(2-5)] by blast
qed

theorem sealed_message_delivered_witness:
  "\<exists>sm v. seal_message sample_suite sample_kem zero_source sample_request sample_roster (IdentitySigningKey 0) () = (Inr sm, ()) \<and>
     verify_delivery sample_suite sample_kem (sm_announcement sm) (concat (po_chunks (sm_object sm))) sample_roster
       (MemberId 2) 2 20 = Inr v \<and> vd_plaintext v = [7]"
proof -
  obtain sm where sm: "seal_message sample_suite sample_kem zero_source sample_request sample_roster (IdentitySigningKey 0) () = (Inr sm, ())"
    using sample_sealed by blast
  from sealed_message_delivered [OF sample_crypto_ok(1,2) sm, of "MemberId 2" "sample_claims 2" 2 20]
  show ?thesis
    using sm sample_claim(2) by (auto simp: sample_request_def sample_members(3) sample_kem_def sample_claims_def)
qed

theorem verified_delivery_sound_witness:
  "\<exists>a bs v. verify_delivery sample_suite sample_kem a bs sample_roster (MemberId 2) 2 20 = Inr v \<and>
     MemberId 2 \<in> set (mf_targets (aa_manifest a)) \<and> 0 < length (vd_plaintext v)"
proof -
  obtain a bs v where "verify_delivery sample_suite sample_kem a bs sample_roster (MemberId 2) 2 20 = Inr v"
    using sample_delivered by blast
  then show ?thesis using verified_delivery_sound by fast
qed

text \<open>
  C10: when no signature was forged, an announcement is authenticated only if the certified
  origin it names signed exactly its manifest for the group and epoch of the roster; its origin
  and all its targets are members.
\<close>

theorem announcement_authentic:
  assumes "authenticate_announcement p encoded roster now = Inr a"
  shows "manifest_ok (aa_manifest a) \<and> mf_epoch (aa_manifest a) = sc_epoch (vr_scope roster) \<and>
    aa_encoded a = encoded \<and> aa_scope a = vr_scope roster \<and> aa_roster_digest a = vr_digest roster \<and>
    (\<forall>m \<in> set (mf_targets (aa_manifest a)). is_ok (roster_member roster m)) \<and>
    (\<exists>c sig. roster_member roster (mf_origin (aa_manifest a)) = Inr c \<and>
       encoded = signed_record (announcement_bytes (sc_group (vr_scope roster)) (aa_manifest a)) sig \<and>
       (\<forall>seen stmts. signed_only p (ct_signing_key c) seen stmts \<and> sig \<in> seen \<longrightarrow>
          (vr_scope roster, Object, announcement_bytes (sc_group (vr_scope roster)) (aa_manifest a)) \<in> stmts))"
proof -
  obtain c sig where c: "roster_member roster (mf_origin (aa_manifest a)) = Inr c"
    "encoded = signed_record (announcement_bytes (sc_group (vr_scope roster)) (aa_manifest a)) sig"
    "verify p (ct_signing_key c) (vr_scope roster) Object (announcement_bytes (sc_group (vr_scope roster)) (aa_manifest a)) sig = Inr ()"
    using assms by (auto simp: authenticate_announcement_iff)
  have "\<forall>seen stmts. signed_only p (ct_signing_key c) seen stmts \<and> sig \<in> seen \<longrightarrow>
      (vr_scope roster, Object, announcement_bytes (sc_group (vr_scope roster)) (aa_manifest a)) \<in> stmts"
    using verify_signed [OF _ _ c(3)] by blast
  then show ?thesis
    using assms c(1,2) unfolding authenticate_announcement_iff by blast
qed

theorem announcement_authentic_witness:
  "\<exists>encoded a. authenticate_announcement sample_suite encoded sample_roster 5 = Inr a \<and>
     (\<exists>c. roster_member sample_roster (mf_origin (aa_manifest a)) = Inr c)"
proof -
  obtain a where a: "authenticate_announcement sample_suite (aa_encoded a) sample_roster 5 = Inr a"
    using sample_delivered by blast
  show ?thesis using a announcement_authentic [OF a] by blast
qed

end
