(* ===== verification/Mesh_Receipt.thy ===== *)
theory Mesh_Receipt
  imports Mesh_Delivery
begin

text \<open>
  Receipts and receipt acknowledgements of \<open>crates/mesh-protocol/src/lib.rs\<close>: the receipt a
  target signs after a verified delivery, its verification by the origin, the acknowledgement
  the origin signs for it, and the routing metadata relays read from both.
\<close>

section \<open>Receipts\<close>

definition receipt_body ::
    "scope \<Rightarrow> arr32 \<Rightarrow> object_id \<Rightarrow> member_id \<Rightarrow> u64 \<Rightarrow> member_id \<Rightarrow> u64 \<Rightarrow> bytes" where
  "receipt_body scope context_id object origin sequence actor at =
     (let w = [];
          w = w_array 10 w;
          w = w_uint 1 w;
          w = w_uint 1 w;
          w = w_bytes (be_bytes (sc_group scope)) w;
          w = w_uint (sc_epoch scope) w;
          w = w_bytes (be_bytes context_id) w;
          w = w_bytes (be_bytes (object_arr object)) w;
          w = w_bytes (be_bytes (member_arr origin)) w;
          w = w_uint sequence w;
          w = w_bytes (be_bytes (member_arr actor)) w;
          w = w_uint at w
      in w)"

definition receipt_for_commit ::
    "suite \<Rightarrow> verified_delivery \<Rightarrow> identity_signing_key \<Rightarrow> u64 \<Rightarrow> durable_error + bytes" where
  "receipt_for_commit p v signer now =
     (if signing_public_key p signer \<noteq> vd_signing_key v \<or> now < vd_verified_at v \<or> now \<ge> vd_deadline v
      then Inl AuthenticationFailed
      else
        let m = aa_manifest (vd_announcement v);
            body = receipt_body (aa_scope (vd_announcement v)) (vd_context_id v) (manifest_id (hash p) m)
              (mf_origin m) (mf_sequence m) (vd_member v) now
        in bindr (map_err auth_err (sign p signer (aa_scope (vd_announcement v)) Receipt_domain body)) (\<lambda>sig.
             Inr (signed_record body sig)))"

record verified_receipt =
  rv_object :: object_id
  rv_actor :: member_id
  rv_bytes :: bytes
  rv_announcement :: bytes
  rv_roster_digest :: arr32
  rv_at :: u64

definition receipt_validate_commit :: "verified_receipt \<Rightarrow> verified_roster \<Rightarrow> u64 \<Rightarrow> durable_error + unit" where
  "receipt_validate_commit r roster now =
     bindr (validate_at roster now) (\<lambda>_.
       if vr_digest roster \<noteq> rv_roster_digest r \<or> now < rv_at r then Inl AuthenticationFailed else Inr ())"

text \<open>The reads that \<open>receipt_route\<close> and \<open>verify_receipt\<close> share, and the values they read.\<close>

record receipt_claims =
  rf_scope :: scope
  rf_context :: arr32
  rf_object :: object_id
  rf_origin :: member_id
  rf_sequence :: u64
  rf_actor :: member_id
  rf_at :: u64

definition read_receipt :: "bytes \<Rightarrow> durable_error + receipt_claims" where
  "read_receipt body =
     bindr (reader_new body MAX_RECEIPT) (\<lambda>r.
     bindr (reader_array 10 r) (\<lambda>(_, r).
     bindr (reader_uint r) (\<lambda>(v, r).
     bindr (check_version v) (\<lambda>_.
     bindr (reader_uint r) (\<lambda>(v, r).
     bindr (check_version v) (\<lambda>_.
     bindr (reader_fixed r) (\<lambda>(group, r).
     bindr (reader_uint r) (\<lambda>(epoch, r).
     bindr (reader_fixed r) (\<lambda>(context_id, r).
     bindr (reader_fixed r) (\<lambda>(object, r).
     bindr (reader_fixed r) (\<lambda>(origin, r).
     bindr (reader_uint r) (\<lambda>(sequence, r).
     bindr (reader_fixed r) (\<lambda>(actor, r).
     bindr (reader_uint r) (\<lambda>(at, r).
     bindr (reader_end r) (\<lambda>_.
       Inr \<lparr>rf_scope = \<lparr>sc_group = group, sc_epoch = epoch\<rparr>, rf_context = context_id, rf_object = ObjectId object,
            rf_origin = MemberId origin, rf_sequence = sequence, rf_actor = MemberId actor, rf_at = at\<rparr>)))))))))))))))"

record receipt_route =
  rr_object :: object_id
  rr_actor :: member_id

definition receipt_route_of :: "bytes \<Rightarrow> durable_error + receipt_route" where
  "receipt_route_of encoded =
     bindr (signed_parts encoded MAX_RECEIPT) (\<lambda>(body, _).
     bindr (read_receipt body) (\<lambda>f.
       Inr \<lparr>rr_object = rf_object f, rr_actor = rf_actor f\<rparr>))"

definition verify_receipt ::
    "suite \<Rightarrow> bytes \<Rightarrow> authenticated_announcement \<Rightarrow> bytes \<Rightarrow> verified_roster \<Rightarrow> u64 \<Rightarrow> durable_error + verified_receipt" where
  "verify_receipt p encoded a object_bytes roster now =
     bindr (aa_validate_roster a roster now) (\<lambda>_.
     bindr (envelope_open p a object_bytes roster) (\<lambda>e.
     bindr (signed_parts encoded MAX_RECEIPT) (\<lambda>(body, sig).
     bindr (read_receipt body) (\<lambda>f.
     let m = aa_manifest a in
     if sc_group (rf_scope f) \<noteq> sc_group (aa_scope a)
        \<or> sc_epoch (rf_scope f) \<noteq> sc_epoch (aa_scope a)
        \<or> rf_context f \<noteq> header_context_id p (en_header e)
        \<or> rf_object f \<noteq> manifest_id (hash p) m
        \<or> rf_origin f \<noteq> mf_origin m
        \<or> rf_sequence f \<noteq> mf_sequence m
        \<or> rf_actor f \<notin> set (mf_targets m)
        \<or> rf_at f < eh_created (en_header e)
        \<or> rf_at f \<ge> eh_expires (en_header e)
        \<or> rf_at f > now
     then Inl InvalidReceipt
     else
       bindr (roster_member roster (rf_actor f)) (\<lambda>cert.
       if rf_at f < ct_valid_from cert \<or> rf_at f \<ge> ct_valid_until cert then Inl InvalidReceipt
       else
         bindr (map_err (\<lambda>_. InvalidReceipt)
           (verify p (ct_signing_key cert) (aa_scope a) Receipt_domain body sig)) (\<lambda>_.
           Inr \<lparr>rv_object = rf_object f, rv_actor = rf_actor f, rv_bytes = encoded, rv_announcement = aa_encoded a,
                rv_roster_digest = vr_digest roster, rv_at = rf_at f\<rparr>))))))"

section \<open>Acknowledgements\<close>

definition receipt_ack_body ::
    "scope \<Rightarrow> arr32 \<Rightarrow> object_id \<Rightarrow> member_id \<Rightarrow> member_id \<Rightarrow> u64 \<Rightarrow> bytes" where
  "receipt_ack_body scope receipt_id object origin actor at =
     (let w = [];
          w = w_array 9 w;
          w = w_uint 1 w;
          w = w_uint 1 w;
          w = w_bytes (be_bytes (sc_group scope)) w;
          w = w_uint (sc_epoch scope) w;
          w = w_bytes (be_bytes receipt_id) w;
          w = w_bytes (be_bytes (object_arr object)) w;
          w = w_bytes (be_bytes (member_arr origin)) w;
          w = w_bytes (be_bytes (member_arr actor)) w;
          w = w_uint at w
      in w)"

definition issue_receipt_ack ::
    "suite \<Rightarrow> bytes \<Rightarrow> object_id \<Rightarrow> member_id \<Rightarrow> member_id \<Rightarrow> scope \<Rightarrow> identity_signing_key \<Rightarrow> u64
     \<Rightarrow> durable_error + bytes" where
  "issue_receipt_ack p receipt object origin actor scope signer now =
     bindr (check_time now) (\<lambda>_.
       if receipt = [] \<or> length receipt > MAX_RECEIPT \<or> signing_public_key p signer \<noteq> member_arr origin
       then Inl InvalidReceipt
       else
         let receipt_id = hash p receipt;
             body = receipt_ack_body scope receipt_id object origin actor now
         in bindr (map_err auth_err (sign p signer scope ReceiptAck_domain body)) (\<lambda>sig.
              Inr (signed_record body sig)))"

record receipt_ack_route =
  ra_receipt_id :: arr32
  ra_object :: object_id
  ra_origin :: member_id
  ra_actor :: member_id

record verified_receipt_ack =
  va_route :: receipt_ack_route
  va_at :: u64

definition read_ack :: "bytes \<Rightarrow> durable_error + receipt_ack_route \<times> scope \<times> u64" where
  "read_ack body =
     bindr (reader_new body MAX_RECEIPT_ACK) (\<lambda>r.
     bindr (reader_array 9 r) (\<lambda>(_, r).
     bindr (reader_uint r) (\<lambda>(v, r).
     bindr (check_version v) (\<lambda>_.
     bindr (reader_uint r) (\<lambda>(v, r).
     bindr (check_version v) (\<lambda>_.
     bindr (reader_fixed r) (\<lambda>(group, r).
     bindr (reader_uint r) (\<lambda>(epoch, r).
     bindr (reader_fixed r) (\<lambda>(receipt_id, r).
     bindr (reader_fixed r) (\<lambda>(object, r).
     bindr (reader_fixed r) (\<lambda>(origin, r).
     bindr (reader_fixed r) (\<lambda>(actor, r).
     bindr (reader_uint r) (\<lambda>(at, r).
     bindr (reader_end r) (\<lambda>_.
       Inr (\<lparr>ra_receipt_id = receipt_id, ra_object = ObjectId object, ra_origin = MemberId origin,
             ra_actor = MemberId actor\<rparr>, \<lparr>sc_group = group, sc_epoch = epoch\<rparr>, at)))))))))))))))"

definition receipt_ack_parts ::
    "bytes \<Rightarrow> durable_error + receipt_ack_route \<times> scope \<times> u64 \<times> bytes \<times> arr64" where
  "receipt_ack_parts encoded =
     bindr (signed_parts encoded MAX_RECEIPT_ACK) (\<lambda>(body, signature).
     bindr (read_ack body) (\<lambda>(route, scope, at).
       Inr (route, scope, at, body, signature)))"

definition receipt_ack_route_of :: "bytes \<Rightarrow> durable_error + receipt_ack_route" where
  "receipt_ack_route_of encoded = bindr (receipt_ack_parts encoded) (\<lambda>parts. Inr (fst parts))"

definition verify_receipt_ack :: "suite \<Rightarrow> bytes \<Rightarrow> verified_roster \<Rightarrow> u64 \<Rightarrow> durable_error + verified_receipt_ack" where
  "verify_receipt_ack p encoded roster now =
     bindr (validate_at roster now) (\<lambda>_.
     bindr (receipt_ack_parts encoded) (\<lambda>(route, scope, at, body, signature).
       if scope \<noteq> vr_scope roster \<or> at > now \<or> at < vr_valid_from roster \<or> at \<ge> vr_valid_until roster
       then Inl InvalidReceipt
       else
         bindr (roster_member roster (ra_origin route)) (\<lambda>cert.
         if at < ct_valid_from cert \<or> at \<ge> ct_valid_until cert then Inl InvalidReceipt
         else
           bindr (map_err (\<lambda>_. InvalidReceipt)
             (verify p (ct_signing_key cert) scope ReceiptAck_domain body signature)) (\<lambda>_.
             Inr \<lparr>va_route = route, va_at = at\<rparr>))))"

section \<open>The language of the records\<close>

lemma receipt_body_eq:
  "receipt_body s x i f n a t = array_bytes 10 @ uint_bytes 1 @ uint_bytes 1 @ fixed_bytes (sc_group s) @
     uint_bytes (sc_epoch s) @ fixed_bytes x @ fixed_bytes (object_arr i) @ fixed_bytes (member_arr f) @
     uint_bytes n @ fixed_bytes (member_arr a) @ uint_bytes t"
  by (simp add: receipt_body_def w_simps fixed_bytes_def)

lemma ack_body_eq:
  "receipt_ack_body s x i f a t = array_bytes 9 @ uint_bytes 1 @ uint_bytes 1 @ fixed_bytes (sc_group s) @
     uint_bytes (sc_epoch s) @ fixed_bytes x @ fixed_bytes (object_arr i) @ fixed_bytes (member_arr f) @
     fixed_bytes (member_arr a) @ uint_bytes t"
  by (simp add: receipt_ack_body_def w_simps fixed_bytes_def)

lemma length_receipt_body: "length (receipt_body s x i f n a t) \<le> 300"
  using length_array [of 10] length_uint [of 1] length_uint [of "sc_epoch s"] length_uint [of n] length_uint [of t]
  by (simp add: receipt_body_eq length_fixed32)

lemma length_ack_body: "length (receipt_ack_body s x i f a t) \<le> 300"
  using length_array [of 9] length_uint [of 1] length_uint [of "sc_epoch s"] length_uint [of t]
  by (simp add: ack_body_eq length_fixed32)

definition claims_body :: "receipt_claims \<Rightarrow> bytes" where
  "claims_body f = receipt_body (rf_scope f) (rf_context f) (rf_object f) (rf_origin f) (rf_sequence f) (rf_actor f) (rf_at f)"

lemma read_receipt_iff: "read_receipt body = Inr f \<longleftrightarrow> body = claims_body f"
proof -
  have "read_receipt body = Inr f \<longleftrightarrow> length body \<le> 1024 \<and> body = claims_body f"
    unfolding read_receipt_def
    apply (rule trans [OF decode_iff])
      apply (rule parses_rules field_reads)+
     apply simp
    apply (cases f, cases "rf_scope f", cases "rf_object f", cases "rf_origin f", cases "rf_actor f")
    apply (simp add: res_simps claims_body_def receipt_body_eq)
    done
  then show ?thesis
    using length_receipt_body [of "rf_scope f" "rf_context f" "rf_object f" "rf_origin f" "rf_sequence f" "rf_actor f" "rf_at f"]
    by (auto simp: claims_body_def)
qed

lemma read_ack_iff:
  "read_ack body = Inr (route, s, t) \<longleftrightarrow>
     body = receipt_ack_body s (ra_receipt_id route) (ra_object route) (ra_origin route) (ra_actor route) t"
proof -
  let ?b = "receipt_ack_body s (ra_receipt_id route) (ra_object route) (ra_origin route) (ra_actor route) t"
  have "read_ack body = Inr (route, s, t) \<longleftrightarrow> length body \<le> 1024 \<and> body = ?b"
    unfolding read_ack_def
    apply (rule trans [OF decode_iff])
      apply (rule parses_rules field_reads)+
     apply simp
    apply (cases route, cases s, cases "ra_object route", cases "ra_origin route", cases "ra_actor route")
    apply (simp add: res_simps ack_body_eq)
    done
  moreover have "length ?b \<le> 300" by (rule length_ack_body)
  ultimately show ?thesis by auto
qed

section \<open>What a receipt proves\<close>

lemma verify_receipt_iff:
  "verify_receipt p encoded a bs roster now = Inr r \<longleftrightarrow>
     validate_at roster now = Inr () \<and> aa_roster_digest a = vr_digest roster \<and>
     (\<exists>e sig c. envelope_open p a bs roster = Inr e \<and>
        (let m = aa_manifest a; h = en_header e;
             body = receipt_body (aa_scope a) (header_context_id p h) (manifest_id (hash p) m) (mf_origin m)
               (mf_sequence m) (rv_actor r) (rv_at r) in
           encoded = signed_record body sig \<and> rv_actor r \<in> set (mf_targets m) \<and>
           eh_created h \<le> rv_at r \<and> rv_at r < eh_expires h \<and> rv_at r \<le> now \<and>
           roster_member roster (rv_actor r) = Inr c \<and> ct_valid_from c \<le> rv_at r \<and> rv_at r < ct_valid_until c \<and>
           verify p (ct_signing_key c) (aa_scope a) Receipt_domain body sig = Inr () \<and>
           rv_object r = manifest_id (hash p) m)) \<and>
     rv_bytes r = encoded \<and> rv_announcement r = aa_encoded a \<and> rv_roster_digest r = vr_digest roster"
  (is "?L \<longleftrightarrow> ?R")
proof
  assume ?L
  then obtain e body sig f c where e: "validate_at roster now = Inr ()" "aa_roster_digest a = vr_digest roster"
      "envelope_open p a bs roster = Inr e" "signed_parts encoded 1024 = Inr (body, sig)" "body = claims_body f"
      "sc_group (rf_scope f) = sc_group (aa_scope a)" "sc_epoch (rf_scope f) = sc_epoch (aa_scope a)"
      "rf_context f = header_context_id p (en_header e)" "rf_object f = manifest_id (hash p) (aa_manifest a)"
      "rf_origin f = mf_origin (aa_manifest a)" "rf_sequence f = mf_sequence (aa_manifest a)"
      "rf_actor f \<in> set (mf_targets (aa_manifest a))" "eh_created (en_header e) \<le> rf_at f"
      "rf_at f < eh_expires (en_header e)" "rf_at f \<le> now"
      "roster_member roster (rf_actor f) = Inr c" "ct_valid_from c \<le> rf_at f" "rf_at f < ct_valid_until c"
      "verify p (ct_signing_key c) (aa_scope a) Receipt_domain body sig = Inr ()"
      "r = \<lparr>rv_object = rf_object f, rv_actor = rf_actor f, rv_bytes = encoded, rv_announcement = aa_encoded a,
         rv_roster_digest = vr_digest roster, rv_at = rf_at f\<rparr>"
    by (auto simp: verify_receipt_def res_simps read_receipt_iff Let_def not_le not_less split: if_splits)
  have s: "rf_scope f = aa_scope a" using e(6,7) by (intro scope.equality) simp_all
  have enc: "encoded = signed_record body sig" using e(4) by (simp add: signed_parts_iff)
  have rr: "rv_object r = manifest_id (hash p) (aa_manifest a)" "rv_actor r = rf_actor f" "rv_at r = rf_at f"
      "rv_bytes r = encoded" "rv_announcement r = aa_encoded a" "rv_roster_digest r = vr_digest roster"
    by (simp_all add: e(20) e(9))
  have b: "receipt_body (aa_scope a) (header_context_id p (en_header e)) (manifest_id (hash p) (aa_manifest a))
      (mf_origin (aa_manifest a)) (mf_sequence (aa_manifest a)) (rf_actor f) (rf_at f) = body"
    using e(5,8-11) s by (simp add: claims_body_def)
  show ?R
    unfolding Let_def rr
    by (intro conjI exI [of _ e] exI [of _ sig] exI [of _ c]) (simp_all add: b enc e(1-3,12-19))
next
  assume r: ?R
  then obtain e sig c where e: "envelope_open p a bs roster = Inr e"
      "encoded = signed_record (receipt_body (aa_scope a) (header_context_id p (en_header e)) (manifest_id (hash p) (aa_manifest a))
         (mf_origin (aa_manifest a)) (mf_sequence (aa_manifest a)) (rv_actor r) (rv_at r)) sig"
      "rv_actor r \<in> set (mf_targets (aa_manifest a))" "eh_created (en_header e) \<le> rv_at r"
      "rv_at r < eh_expires (en_header e)" "rv_at r \<le> now" "roster_member roster (rv_actor r) = Inr c"
      "ct_valid_from c \<le> rv_at r" "rv_at r < ct_valid_until c"
      "verify p (ct_signing_key c) (aa_scope a) Receipt_domain (receipt_body (aa_scope a) (header_context_id p (en_header e))
         (manifest_id (hash p) (aa_manifest a)) (mf_origin (aa_manifest a)) (mf_sequence (aa_manifest a)) (rv_actor r) (rv_at r)) sig = Inr ()"
      "rv_object r = manifest_id (hash p) (aa_manifest a)"
    unfolding Let_def by blast
  let ?f = "\<lparr>rf_scope = aa_scope a, rf_context = header_context_id p (en_header e),
     rf_object = manifest_id (hash p) (aa_manifest a), rf_origin = mf_origin (aa_manifest a),
     rf_sequence = mf_sequence (aa_manifest a), rf_actor = rv_actor r, rf_at = rv_at r\<rparr>"
  have parts: "signed_parts encoded 1024 = Inr (claims_body ?f, sig)"
    using e(2) length_signed_record(2) [of "claims_body ?f" sig]
      length_receipt_body [of "rf_scope ?f" "rf_context ?f" "rf_object ?f" "rf_origin ?f" "rf_sequence ?f" "rf_actor ?f" "rf_at ?f"]
    by (simp add: signed_parts_iff claims_body_def)
  have read: "read_receipt (claims_body ?f) = Inr ?f" by (simp add: read_receipt_iff)
  have "\<lparr>rv_object = rv_object r, rv_actor = rv_actor r, rv_bytes = encoded, rv_announcement = aa_encoded a,
      rv_roster_digest = vr_digest roster, rv_at = rv_at r\<rparr> = r"
    using r by (intro verified_receipt.equality) simp_all
  then show ?L
    using r e(1,3-11) parts read
    by (simp add: verify_receipt_def aa_validate_roster_def claims_body_def Let_def not_le not_less)
qed

text \<open>
  C3: a receipt is verified only for an object that is intact and bound to the announcement.
  When no signature was forged, a verified receipt means that the target it names signed, with
  its certified key, the delivery of exactly this object under this announcement, at a time
  between the creation of the message and its expiry and not in the future.
\<close>

theorem receipt_proves_delivery:
  assumes "verify_receipt p encoded a bs roster now = Inr r"
  shows "object_intact p (aa_manifest a) bs \<and> rv_object r = manifest_id (hash p) (aa_manifest a) \<and>
    rv_actor r \<in> set (mf_targets (aa_manifest a)) \<and> rv_at r < mf_expires_at (aa_manifest a) \<and> rv_at r \<le> now \<and>
    (\<exists>e sig c. bs = envelope_bytes e \<and> bound_to p (en_header e) a roster \<and> eh_created (en_header e) \<le> rv_at r \<and>
       roster_member roster (rv_actor r) = Inr c \<and>
       (\<exists>body. encoded = signed_record body sig \<and>
         body = receipt_body (aa_scope a) (header_context_id p (en_header e)) (rv_object r) (mf_origin (aa_manifest a))
           (mf_sequence (aa_manifest a)) (rv_actor r) (rv_at r) \<and>
         (\<forall>seen stmts. signed_only p (ct_signing_key c) seen stmts \<and> sig \<in> seen \<longrightarrow>
            (aa_scope a, Receipt_domain, body) \<in> stmts)))"
proof -
  obtain e sig c body where e: "envelope_open p a bs roster = Inr e" "encoded = signed_record body sig"
      "body = receipt_body (aa_scope a) (header_context_id p (en_header e)) (manifest_id (hash p) (aa_manifest a))
         (mf_origin (aa_manifest a)) (mf_sequence (aa_manifest a)) (rv_actor r) (rv_at r)"
      "rv_actor r \<in> set (mf_targets (aa_manifest a))" "eh_created (en_header e) \<le> rv_at r"
      "rv_at r < eh_expires (en_header e)" "rv_at r \<le> now" "roster_member roster (rv_actor r) = Inr c"
      "verify p (ct_signing_key c) (aa_scope a) Receipt_domain body sig = Inr ()"
      "rv_object r = manifest_id (hash p) (aa_manifest a)"
    using assms unfolding verify_receipt_iff Let_def by blast
  have b: "object_intact p (aa_manifest a) bs" "bound_to p (en_header e) a roster" "bs = envelope_bytes e"
    using e(1) unfolding envelope_open_iff by blast+
  have exp: "rv_at r < mf_expires_at (aa_manifest a)" using e(6) b(2) by (simp add: bound_to_def)
  have "\<forall>seen stmts. signed_only p (ct_signing_key c) seen stmts \<and> sig \<in> seen \<longrightarrow> (aa_scope a, Receipt_domain, body) \<in> stmts"
    using verify_signed [OF _ _ e(9)] by blast
  then show ?thesis
    using e(2-5,7,8,10) b exp
    by (intro conjI exI [of _ e] exI [of _ sig] exI [of _ c] exI [of _ body]) simp_all
qed

lemma roster_span:
  assumes "roster_verify p authority scope certs revoked t = Inr roster" and "roster_member roster m = Inr c"
  shows "ct_valid_from c \<le> vr_valid_from roster" "vr_valid_until roster \<le> ct_valid_until c"
proof -
  note r = roster_sound [OF assms(1), THEN conjunct2, THEN conjunct2, THEN conjunct2]
  obtain x where "x \<in> set certs" "claims_of x = c" using r assms(2) by blast
  then show "ct_valid_from c \<le> vr_valid_from roster" "vr_valid_until roster \<le> ct_valid_until c"
    using r by blast+
qed

lemma delivered_receipt:
  assumes "signing_ok p" and "roster_verify p authority scope certs revoked t0 = Inr roster"
    and v: "verify_delivery p k a bs roster member secret t1 = Inr v" and a: "aa_scope a = vr_scope roster"
    and i: "receipt_for_commit p v signer at = Inr receipt"
    and now: "validate_at roster now = Inr ()" "at \<le> now"
  shows "verify_receipt p receipt a bs roster now = Inr \<lparr>rv_object = manifest_id (hash p) (aa_manifest a),
    rv_actor = member, rv_bytes = receipt, rv_announcement = aa_encoded a, rv_roster_digest = vr_digest roster, rv_at = at\<rparr>"
proof -
  obtain e c pt where e: "envelope_open p a bs roster = Inr e" "eh_created (en_header e) \<le> t1"
      "member \<in> set (mf_targets (aa_manifest a))" "roster_member roster member = Inr c"
      "aa_roster_digest a = vr_digest roster" "validate_at roster t1 = Inr ()"
      "v = \<lparr>vd_announcement = a, vd_member = member, vd_signing_key = ct_signing_key c,
        vd_context_id = header_context_id p (en_header e), vd_verified_at = t1,
        vd_deadline = min (eh_expires (en_header e)) (vr_valid_until roster), vd_plaintext = pt\<rparr>"
    using verify_delivery_steps [OF v] by blast
  let ?m = "aa_manifest a" and ?h = "en_header e"
  let ?body = "receipt_body (aa_scope a) (header_context_id p ?h) (manifest_id (hash p) ?m) (mf_origin ?m) (mf_sequence ?m) member at"
  obtain sig where s: "ct_signing_key c = signing_public_key p signer" "t1 \<le> at" "at < eh_expires ?h"
      "at < vr_valid_until roster" "sign p signer (aa_scope a) Receipt_domain ?body = Inr sig"
      "receipt = signed_record ?body sig"
    using i by (auto simp: receipt_for_commit_def e(7) res_simps Let_def not_le not_less split: if_splits)
  have ver: "verify p (ct_signing_key c) (aa_scope a) Receipt_domain ?body sig = Inr ()"
    using sign_verify [OF assms(1) s(5)] s(1) by simp
  have "vr_valid_from roster \<le> t1" using e(6) by (auto simp: validate_at_def res_simps not_less split: if_splits)
  then have "ct_valid_from c \<le> at" "at < ct_valid_until c"
    using roster_span [OF assms(2) e(4)] s(2,4) by auto
  then show ?thesis
    unfolding verify_receipt_iff Let_def verified_receipt.simps
    by (intro conjI exI [of _ e] exI [of _ sig] exI [of _ c])
      (use e(1-5) s(2,3) ver now in \<open>simp_all add: s(6)\<close>)
qed

text \<open>
  C15: the receipt a target issues after a verified delivery, with the key the roster certifies
  for it and before the deadline of the delivery, is accepted by the holder of the object at any
  later time at which the roster is valid; it is recorded for this object and this member, and a
  relay reads the same object and member from its routing metadata.
\<close>

theorem receipt_round_trip:
  assumes "signing_ok p" and "roster_verify p authority scope certs revoked t0 = Inr roster"
    and "verify_delivery p k a bs roster member secret t1 = Inr v" and "aa_scope a = vr_scope roster"
    and "receipt_for_commit p v signer at = Inr receipt"
    and "validate_at roster now = Inr ()" and "at \<le> now"
  shows "\<exists>r. verify_receipt p receipt a bs roster now = Inr r \<and>
    rv_object r = manifest_id (hash p) (aa_manifest a) \<and> rv_actor r = member \<and> rv_at r = at \<and>
    receipt_validate_commit r roster now = Inr () \<and>
    receipt_route_of receipt = Inr \<lparr>rr_object = rv_object r, rr_actor = rv_actor r\<rparr>"
proof -
  let ?r = "\<lparr>rv_object = manifest_id (hash p) (aa_manifest a), rv_actor = member, rv_bytes = receipt,
    rv_announcement = aa_encoded a, rv_roster_digest = vr_digest roster, rv_at = at\<rparr>"
  have v: "verify_receipt p receipt a bs roster now = Inr ?r" by (rule delivered_receipt [OF assms])
  then obtain e :: envelope and sig where "receipt = signed_record (receipt_body (aa_scope a) (header_context_id p (en_header e))
      (manifest_id (hash p) (aa_manifest a)) (mf_origin (aa_manifest a)) (mf_sequence (aa_manifest a)) member at) sig"
    unfolding verify_receipt_iff Let_def verified_receipt.simps by (elim conjE exE) (rule that)
  then obtain f where "receipt = signed_record (claims_body f) sig" "rf_object f = rv_object ?r" "rf_actor f = member"
    by (metis claims_body_def receipt_claims.select_convs verified_receipt.select_convs(1))
  moreover have "signed_parts (signed_record (claims_body f) sig) 1024 = Inr (claims_body f, sig)"
    using length_receipt_body [of "rf_scope f" "rf_context f" "rf_object f" "rf_origin f" "rf_sequence f" "rf_actor f" "rf_at f"]
    by (simp add: signed_parts_short claims_body_def)
  moreover have "read_receipt (claims_body f) = Inr f" by (simp add: read_receipt_iff)
  ultimately have "receipt_route_of receipt = Inr \<lparr>rr_object = rv_object ?r, rr_actor = member\<rparr>"
    by (simp add: receipt_route_of_def)
  then show ?thesis
    using v assms(6,7) by (intro exI [of _ ?r]) (simp add: receipt_validate_commit_def not_le not_less)
qed

lemma receipt_ack_parts_iff:
  "receipt_ack_parts encoded = Inr (route, s, t, body, sig) \<longleftrightarrow> encoded = signed_record body sig \<and>
     body = receipt_ack_body s (ra_receipt_id route) (ra_object route) (ra_origin route) (ra_actor route) t"
proof -
  have "receipt_ack_parts encoded = Inr (route, s, t, body, sig) \<longleftrightarrow>
      signed_parts encoded 1024 = Inr (body, sig) \<and> read_ack body = Inr (route, s, t)"
    by (auto simp: receipt_ack_parts_def res_simps)
  then show ?thesis
    using length_signed_record(2) [of body sig]
      length_ack_body [of s "ra_receipt_id route" "ra_object route" "ra_origin route" "ra_actor route" t]
    by (auto simp: signed_parts_iff read_ack_iff)
qed

lemma verify_receipt_ack_iff:
  "verify_receipt_ack p encoded roster now = Inr v \<longleftrightarrow>
     validate_at roster now = Inr () \<and> va_at v \<le> now \<and> vr_valid_from roster \<le> va_at v \<and> va_at v < vr_valid_until roster \<and>
     (\<exists>c body sig. roster_member roster (ra_origin (va_route v)) = Inr c \<and> ct_valid_from c \<le> va_at v \<and>
        va_at v < ct_valid_until c \<and> encoded = signed_record body sig \<and>
        body = receipt_ack_body (vr_scope roster) (ra_receipt_id (va_route v)) (ra_object (va_route v))
          (ra_origin (va_route v)) (ra_actor (va_route v)) (va_at v) \<and>
        verify p (ct_signing_key c) (vr_scope roster) ReceiptAck_domain body sig = Inr ())"
  by (cases v) (auto simp: verify_receipt_ack_def res_simps receipt_ack_parts_iff not_le not_less split: if_splits)

text \<open>
  C16: the acknowledgement an origin issues under the roster's scope, while the roster is valid
  and with the certified key that its member id is, is accepted by every holder of the roster
  and names the digest of the acknowledged receipt. When no signature was forged, an accepted
  acknowledgement was signed by the certified origin it names.
\<close>

theorem ack_round_trip:
  assumes "signing_ok p" and "roster_verify p authority scope certs revoked t0 = Inr roster"
    and "issue_receipt_ack p receipt object origin actor (vr_scope roster) signer at = Inr bs"
    and "roster_member roster origin = Inr c" and "ct_signing_key c = member_arr origin"
    and "vr_valid_from roster \<le> at" and "at < vr_valid_until roster"
    and "validate_at roster now = Inr ()" and "at \<le> now"
  shows "verify_receipt_ack p bs roster now = Inr \<lparr>va_route = \<lparr>ra_receipt_id = hash p receipt, ra_object = object,
      ra_origin = origin, ra_actor = actor\<rparr>, va_at = at\<rparr> \<and>
    (\<forall>body sig v c' seen stmts. verify_receipt_ack p (signed_record body sig) roster now = Inr v \<and>
       roster_member roster (ra_origin (va_route v)) = Inr c' \<and> signed_only p (ct_signing_key c') seen stmts \<and> sig \<in> seen \<longrightarrow>
       (vr_scope roster, ReceiptAck_domain, receipt_ack_body (vr_scope roster) (ra_receipt_id (va_route v))
          (ra_object (va_route v)) (ra_origin (va_route v)) (ra_actor (va_route v)) (va_at v)) \<in> stmts)"
proof
  let ?b = "receipt_ack_body (vr_scope roster) (hash p receipt) object origin actor at"
  obtain sig where s: "sign p signer (vr_scope roster) ReceiptAck_domain ?b = Inr sig" "bs = signed_record ?b sig"
      "signing_public_key p signer = member_arr origin"
    using assms(3) by (auto simp: issue_receipt_ack_def res_simps Let_def split: if_splits)
  have "verify p (ct_signing_key c) (vr_scope roster) ReceiptAck_domain ?b sig = Inr ()"
    using sign_verify [OF assms(1) s(1)] s(3) assms(5) by simp
  then show "verify_receipt_ack p bs roster now = Inr \<lparr>va_route = \<lparr>ra_receipt_id = hash p receipt, ra_object = object,
      ra_origin = origin, ra_actor = actor\<rparr>, va_at = at\<rparr>"
    using assms(4,6-9) roster_span [OF assms(2,4)] s(2) unfolding verify_receipt_ack_iff
    by (intro conjI exI [of _ c] exI [of _ ?b] exI [of _ sig]) auto
next
  show "\<forall>body sig v c' seen stmts. verify_receipt_ack p (signed_record body sig) roster now = Inr v \<and>
       roster_member roster (ra_origin (va_route v)) = Inr c' \<and> signed_only p (ct_signing_key c') seen stmts \<and> sig \<in> seen \<longrightarrow>
       (vr_scope roster, ReceiptAck_domain, receipt_ack_body (vr_scope roster) (ra_receipt_id (va_route v))
          (ra_object (va_route v)) (ra_origin (va_route v)) (ra_actor (va_route v)) (va_at v)) \<in> stmts"
  proof (intro allI impI, elim conjE)
    fix body sig v c' seen stmts
    assume v: "verify_receipt_ack p (signed_record body sig) roster now = Inr v"
      and c': "roster_member roster (ra_origin (va_route v)) = Inr c'"
      and only: "signed_only p (ct_signing_key c') seen stmts" "sig \<in> seen"
    let ?a = "receipt_ack_body (vr_scope roster) (ra_receipt_id (va_route v)) (ra_object (va_route v))
      (ra_origin (va_route v)) (ra_actor (va_route v)) (va_at v)"
    obtain sig' where a: "signed_record body sig = signed_record ?a sig'"
      "verify p (ct_signing_key c') (vr_scope roster) ReceiptAck_domain ?a sig' = Inr ()"
      using v c' by (auto simp: verify_receipt_ack_iff)
    have "length ?a \<le> 300" by (rule length_ack_body)
    then have "length (signed_record ?a sig') \<le> 1024" using length_signed_record(2) [of ?a sig'] by simp
    then have "signed_parts (signed_record ?a sig') 1024 = Inr (?a, sig')" "signed_parts (signed_record ?a sig') 1024 = Inr (body, sig)"
      using a(1) by (simp_all add: signed_parts_iff)
    then have "sig = sig'" by simp
    then show "(vr_scope roster, ReceiptAck_domain, ?a) \<in> stmts"
      using verify_signed [OF only(1) _ a(2)] only(2) by simp
  qed
qed

section \<open>Samples\<close>

text \<open>
  The sample delivery of \<open>Mesh_Delivery\<close>: member 2 issues its receipt at time 30, the origin
  acknowledges it at time 40.
\<close>

lemma sample_receipt:
  "\<exists>a bs v receipt. verify_delivery sample_suite sample_kem a bs sample_roster (MemberId 2) 2 20 = Inr v \<and>
     aa_scope a = vr_scope sample_roster \<and> receipt_for_commit sample_suite v (IdentitySigningKey 2) 30 = Inr receipt"
proof -
  obtain a bs v where v: "verify_delivery sample_suite sample_kem a bs sample_roster (MemberId 2) 2 20 = Inr v"
      and ann: "authenticate_announcement sample_suite (aa_encoded a) sample_roster 5 = Inr a"
      and exp: "mf_expires_at (aa_manifest a) = 50"
    using sample_delivered by blast
  have scope: "aa_scope a = vr_scope sample_roster" using ann by (simp add: authenticate_announcement_iff)
  obtain e pt where e: "envelope_open sample_suite a bs sample_roster = Inr e"
      "v = \<lparr>vd_announcement = a, vd_member = MemberId 2, vd_signing_key = ct_signing_key (sample_claims 2),
        vd_context_id = header_context_id sample_suite (en_header e), vd_verified_at = 20,
        vd_deadline = min (eh_expires (en_header e)) (vr_valid_until sample_roster), vd_plaintext = pt\<rparr>"
    using verify_delivery_steps [OF v] sample_claim(2) by auto
  have "bound_to sample_suite (en_header e) a sample_roster" using e(1) unfolding envelope_open_iff by blast
  then have "eh_expires (en_header e) = 50" using exp by (simp add: bound_to_def)
  moreover obtain sig where "sign sample_suite (IdentitySigningKey 2) sample_scope Receipt_domain
      (receipt_body sample_scope (header_context_id sample_suite (en_header e)) (manifest_id (hash sample_suite) (aa_manifest a))
        (mf_origin (aa_manifest a)) (mf_sequence (aa_manifest a)) (MemberId 2) 30) = Inr sig"
    using sample_sign [OF length_receipt_body] by blast
  ultimately have "\<exists>receipt. receipt_for_commit sample_suite v (IdentitySigningKey 2) 30 = Inr receipt"
    using scope by (auto simp: receipt_for_commit_def e(2) sample_public_key sample_members sample_valid_until Let_def sample_claims_def)
  then show ?thesis using v scope by blast
qed

theorem receipt_round_trip_witness:
  "\<exists>a bs receipt r. verify_receipt sample_suite receipt a bs sample_roster 31 = Inr r \<and> rv_actor r = MemberId 2 \<and> rv_at r = 30 \<and>
     receipt_route_of receipt = Inr \<lparr>rr_object = rv_object r, rr_actor = MemberId 2\<rparr>"
proof -
  obtain a bs v receipt where r: "verify_delivery sample_suite sample_kem a bs sample_roster (MemberId 2) 2 20 = Inr v"
      "aa_scope a = vr_scope sample_roster" "receipt_for_commit sample_suite v (IdentitySigningKey 2) 30 = Inr receipt"
    using sample_receipt by blast
  have "roster_verify sample_suite 1 sample_scope [sample_certificate 1, sample_certificate 2] [] 5 = Inr sample_roster"
    by (rule sample_roster_verify) simp_all
  from receipt_round_trip [OF sample_crypto_ok(3) this r, of 31]
  obtain w where "verify_receipt sample_suite receipt a bs sample_roster 31 = Inr w" "rv_actor w = MemberId 2" "rv_at w = 30"
      "receipt_route_of receipt = Inr \<lparr>rr_object = rv_object w, rr_actor = rv_actor w\<rparr>"
    by (auto simp: sample_members)
  then show ?thesis by force
qed

theorem receipt_proves_delivery_witness:
  "\<exists>a bs receipt r. verify_receipt sample_suite receipt a bs sample_roster 31 = Inr r \<and>
     object_intact sample_suite (aa_manifest a) bs \<and> rv_at r \<le> 31"
proof -
  obtain a bs v receipt where r: "verify_delivery sample_suite sample_kem a bs sample_roster (MemberId 2) 2 20 = Inr v"
      "aa_scope a = vr_scope sample_roster" "receipt_for_commit sample_suite v (IdentitySigningKey 2) 30 = Inr receipt"
    using sample_receipt by blast
  have "roster_verify sample_suite 1 sample_scope [sample_certificate 1, sample_certificate 2] [] 5 = Inr sample_roster"
    by (rule sample_roster_verify) simp_all
  note v = delivered_receipt [OF sample_crypto_ok(3) this r, of 31]
  have "validate_at sample_roster 31 = Inr ()" by (simp add: sample_members)
  then show ?thesis using receipt_proves_delivery [OF v] v by force
qed

theorem ack_round_trip_witness:
  "\<exists>bs v. verify_receipt_ack sample_suite bs sample_roster 45 = Inr v \<and> va_at v = 40 \<and>
     va_route v = \<lparr>ra_receipt_id = 0, ra_object = ObjectId 9, ra_origin = MemberId 1, ra_actor = MemberId 2\<rparr>"
proof -
  obtain sig where "sign sample_suite (IdentitySigningKey 0) sample_scope ReceiptAck_domain
      (receipt_ack_body sample_scope 0 (ObjectId 9) (MemberId 1) (MemberId 2) 40) = Inr sig"
    using sample_sign [OF length_ack_body] by blast
  moreover have h: "hash sample_suite [1] = 0" by (simp add: sample_suite_def)
  ultimately obtain bs where issued: "issue_receipt_ack sample_suite [1] (ObjectId 9) (MemberId 1) (MemberId 2) (vr_scope sample_roster)
      (IdentitySigningKey 0) 40 = Inr bs"
    by (simp add: issue_receipt_ack_def sample_public_key sample_members check_time_def MAX_LOGICAL_TIME_def word_le_nat_alt
        word_less_nat_alt Let_def)
  have "roster_verify sample_suite 1 sample_scope [sample_certificate 1, sample_certificate 2] [] 5 = Inr sample_roster"
    by (rule sample_roster_verify) simp_all
  moreover have "vr_valid_from sample_roster \<le> 40" "(40 :: u64) < vr_valid_until sample_roster"
    using sample_members(3) [of 40] by (auto simp: validate_at_def sample_valid_until res_simps not_less split: if_splits)
  moreover have "validate_at sample_roster 45 = Inr ()" by (simp add: sample_members)
  ultimately show ?thesis
    using ack_round_trip [OF sample_crypto_ok(3) _ issued sample_claim(1), of 1 sample_scope _ "[]" 5 45, THEN conjunct1]
    by (force simp: sample_claims_def h)
qed

end
