(* ===== verification/Mesh_Table.thy ===== *)
theory Mesh_Table
  imports Mesh_BTree Mesh_Types "HOL-Library.Product_Lexorder"
begin

text \<open>
  Tables of the store with one primary key: the rows in key order, as \<open>ORDER BY\<close> of the key lists
  them, and the statements of \<open>crates/mesh-store\<close> on them with the errors their constraints raise.
  The type \<open>table\<close> has only well-formed tables, so the operations need no side conditions.
\<close>

section \<open>Tables\<close>

typedef (overloaded) ('k::linorder, 'v) table = "{m :: ('k, 'v) bmap. bm_wf m}"
  by (rule exI [of _ "[]"]) simp

setup_lifting type_definition_table

lift_definition tb_empty :: "('k::linorder, 'v) table" is "[]" by simp
lift_definition tb_get :: "('k::linorder, 'v) table \<Rightarrow> 'k \<Rightarrow> 'v option" is bm_get .
lift_definition tb_put :: "'k::linorder \<Rightarrow> 'v \<Rightarrow> ('k, 'v) table \<Rightarrow> ('k, 'v) table" is bm_insert
  by (rule bm.wf_insert)
lift_definition tb_remove :: "'k::linorder \<Rightarrow> ('k, 'v) table \<Rightarrow> ('k, 'v) table" is bm_remove
  by (rule bm.wf_remove)
lift_definition tb_retain :: "('k::linorder \<Rightarrow> 'v \<Rightarrow> bool) \<Rightarrow> ('k, 'v) table \<Rightarrow> ('k, 'v) table" is bm_retain
  by (rule bm.wf_retain)
lift_definition tb_map :: "('v \<Rightarrow> 'w) \<Rightarrow> ('k::linorder, 'v) table \<Rightarrow> ('k, 'w) table" is "\<lambda>f m. map (\<lambda>(k, v). (k, f v)) m"
  by (simp add: bm_wf_def comp_def split_def)
lift_definition tb_rows :: "('k::linorder, 'v) table \<Rightarrow> ('k \<times> 'v) list" is "\<lambda>m. m" .

interpretation tb: ordered_map tb_get tb_put tb_remove tb_retain tb_rows "\<lambda>_. True"
  by unfold_locales
    (transfer, simp add: bm.entries_ascending bm.get_entries bm.get_insert bm.get_remove bm.get_retain)+

lemma tb_get_empty [simp]: "tb_get tb_empty k = None"
  by transfer simp

lemma tb_rows_empty [simp]: "tb_rows tb_empty = []"
  by transfer simp

lemma tb_get_put [simp]: "tb_get (tb_put k v t) = (tb_get t)(k \<mapsto> v)"
  by (rule tb.get_insert) simp

lemma tb_get_remove [simp]: "tb_get (tb_remove k t) = (tb_get t)(k := None)"
  by (rule tb.get_remove) simp

lemma tb_get_retain:
  "tb_get (tb_retain P t) k = Some v \<longleftrightarrow> tb_get t k = Some v \<and> P k v"
  "tb_get (tb_retain P t) k = None \<longleftrightarrow> (\<forall>v. tb_get t k = Some v \<longrightarrow> \<not> P k v)"
  by (auto simp: tb.get_retain split: option.splits)

lemma tb_rows_map [simp]: "tb_rows (tb_map f t) = map (\<lambda>(k, v). (k, f v)) (tb_rows t)"
  by transfer simp

lemma tb_get_map [simp]: "tb_get (tb_map f t) k = map_option f (tb_get t k)"
  by transfer (simp add: bm_get_def map_of_map)

lemma tb_rows_iff: "(k, v) \<in> set (tb_rows t) \<longleftrightarrow> tb_get t k = Some v"
  by (rule tb.in_entries_iff) simp

lemma tb_rows_eqI:
  assumes "sorted_wrt (<) (map fst xs)" and "\<And>k v. (k, v) \<in> set xs \<longleftrightarrow> tb_get t k = Some v"
  shows "tb_rows t = xs"
proof -
  have a: "sorted_wrt (<) (map fst (tb_rows t))" by (rule tb.entries_ascending) simp
  have s: "set (tb_rows t) = set xs" using assms(2) by (auto simp: tb_rows_iff)
  have "inj_on fst (set (tb_rows t) \<union> set xs)"
    using a by (simp add: s [symmetric] strict_sorted_iff distinct_map)
  then show ?thesis
    using a assms(1) s by (intro map_sorted_distinct_set_unique [of fst]) (simp_all add: strict_sorted_iff)
qed

lemma tb_ext: "tb_get s = tb_get t \<Longrightarrow> s = t"
proof -
  assume e: "tb_get s = tb_get t"
  have "tb_rows s = tb_rows t"
    using tb.entries_ascending [of t] by (intro tb_rows_eqI) (simp_all add: tb_rows_iff e)
  then show "s = t" by transfer simp
qed

text \<open>\<open>SELECT count(*)\<close>, \<open>SELECT sum(..)\<close> and \<open>SELECT .. WHERE\<close> of a condition one row at most meets.\<close>

definition tb_count :: "('k::linorder, 'v) table \<Rightarrow> nat" where
  "tb_count t = length (tb_rows t)"

definition tb_sum :: "('k::linorder \<Rightarrow> 'v \<Rightarrow> nat) \<Rightarrow> ('k, 'v) table \<Rightarrow> nat" where
  "tb_sum f t = sum_list (map (\<lambda>(k, v). f k v) (tb_rows t))"

definition tb_select :: "('k::linorder \<Rightarrow> 'v \<Rightarrow> bool) \<Rightarrow> ('k, 'v) table \<Rightarrow> ('k \<times> 'v) option" where
  "tb_select P t = find (\<lambda>(k, v). P k v) (tb_rows t)"

lemma tb_select_Some: "tb_select P t = Some (k, v) \<Longrightarrow> tb_get t k = Some v \<and> P k v"
  by (auto simp: tb_select_def find_Some_iff simp flip: tb_rows_iff) (metis nth_mem)

lemma tb_select_None: "tb_select P t = None \<longleftrightarrow> (\<forall>k v. tb_get t k = Some v \<longrightarrow> \<not> P k v)"
  by (auto simp: tb_select_def find_None_iff simp flip: tb_rows_iff)

lemma tb_select_unique:
  assumes "tb_get t k = Some v" and "P k v"
    and "\<And>k' v'. tb_get t k' = Some v' \<Longrightarrow> P k' v' \<Longrightarrow> k' = k"
  shows "tb_select P t = Some (k, v)"
proof (cases "tb_select P t")
  case None
  then show ?thesis using assms(1,2) by (auto simp: tb_select_None)
next
  case (Some kv)
  obtain k' v' where kv: "kv = (k', v')" by (cases kv)
  then have "tb_get t k' = Some v'" "P k' v'" using tb_select_Some [of P t k' v'] Some by simp_all
  then show ?thesis using assms kv Some by fastforce
qed

lemma tb_count_put: "tb_count (tb_put k v t) = (if tb_get t k = None then Suc (tb_count t) else tb_count t)"
  unfolding tb_count_def by (rule tb.size_insert) simp

lemma tb_count_retain: "tb_count (tb_retain P t) \<le> tb_count t"
  unfolding tb_count_def by (rule tb.size_retain) simp

lemma tb_count_remove: "tb_count (tb_remove k t) = (if tb_get t k = None then tb_count t else tb_count t - 1)"
  unfolding tb_count_def by (rule tb.size_remove) simp

lemma tb_count_empty [simp]: "tb_count tb_empty = 0"
  by (simp add: tb_count_def)

lemma tb_sum_empty [simp]: "tb_sum f tb_empty = 0"
  by (simp add: tb_sum_def)

lemma tb_count_card: "tb_count t = card (dom (tb_get t))"
  unfolding tb_count_def by (rule tb.size_card) simp

lemma tb_sum_eq: "tb_sum f t = (\<Sum>k \<in> dom (tb_get t). f k (the (tb_get t k)))"
proof -
  have "distinct (map fst (tb_rows t))" by (rule tb.distinct_keys) simp
  then have "tb_sum f t = (\<Sum>x \<in> set (tb_rows t). case x of (k, v) \<Rightarrow> f k v)"
    by (simp add: tb_sum_def sum_list_distinct_conv_sum_set distinct_map)
  also have "\<dots> = (\<Sum>k \<in> fst ` set (tb_rows t). f k (the (tb_get t k)))"
  proof (rule sum.reindex_cong [symmetric])
    show "inj_on fst (set (tb_rows t))" using \<open>distinct (map fst (tb_rows t))\<close> by (simp add: distinct_map)
  qed (auto simp: tb_rows_iff)
  also have "fst ` set (tb_rows t) = dom (tb_get t)" by (rule tb.keys_dom) simp
  finally show ?thesis .
qed

lemma finite_table [simp]: "finite (dom (tb_get t))"
  by (rule tb.finite_dom) simp

lemma tb_sum_put: "tb_get t k = None \<Longrightarrow> tb_sum f (tb_put k v t) = f k v + tb_sum f t"
proof -
  assume n: "tb_get t k = None"
  have "(\<Sum>j \<in> dom (tb_get t). f j (the (((tb_get t)(k \<mapsto> v)) j))) = (\<Sum>j \<in> dom (tb_get t). f j (the (tb_get t j)))"
    using n by (intro sum.cong) auto
  then show ?thesis using n by (simp add: tb_sum_eq domIff)
qed

lemma tb_sum_update:
  assumes "tb_get t k = Some u" and "f k v = f k u"
  shows "tb_sum f (tb_put k v t) = tb_sum f t"
proof -
  have "insert k (dom (tb_get t)) = dom (tb_get t)" using assms(1) by auto
  then show ?thesis unfolding tb_sum_eq using assms by (intro sum.cong) auto
qed

lemma tb_sum_mono:
  assumes "\<And>k v. tb_get t' k = Some v \<Longrightarrow> tb_get t k = Some v"
  shows "tb_sum f t' \<le> tb_sum f t"
proof -
  have "tb_sum f t' = (\<Sum>k \<in> dom (tb_get t'). f k (the (tb_get t k)))"
    unfolding tb_sum_eq using assms by (intro sum.cong) force+
  also have "\<dots> \<le> tb_sum f t"
    unfolding tb_sum_eq using assms by (intro sum_mono2) auto
  finally show ?thesis .
qed

lemma tb_count_mono:
  assumes "\<And>k v. tb_get t' k = Some v \<Longrightarrow> tb_get t k = Some v"
  shows "tb_count t' \<le> tb_count t"
  unfolding tb_count_card using assms by (intro card_mono) auto

lemma tb_count_depends:
  assumes "\<And>k. tb_get child k \<noteq> None \<Longrightarrow> tb_get parent k \<noteq> None"
  shows "tb_count child \<le> tb_count parent"
  unfolding tb_count_card by (rule card_mono) (use assms in auto)

section \<open>Statements\<close>

text \<open>
  \<open>INSERT\<close>: a violated \<open>PRIMARY KEY\<close>, \<open>UNIQUE\<close> or \<open>CHECK\<close> constraint is an SQL error, which the
  crate maps to \<open>StorageUnavailable\<close>; \<open>INSERT OR IGNORE\<close> skips the row instead. A foreign key is
  checked by both.
\<close>

definition insert_row ::
    "bool \<Rightarrow> 'k::linorder \<Rightarrow> 'v \<Rightarrow> ('k, 'v) table \<Rightarrow> durable_error + ('k, 'v) table" where
  "insert_row check k v t = (if tb_get t k \<noteq> None \<or> \<not> check then Inl StorageUnavailable else Inr (tb_put k v t))"

definition insert_or_ignore ::
    "bool \<Rightarrow> 'k::linorder \<Rightarrow> 'v \<Rightarrow> ('k, 'v) table \<Rightarrow> ('k, 'v) table" where
  "insert_or_ignore check k v t = (if tb_get t k \<noteq> None \<or> \<not> check then t else tb_put k v t)"

definition references :: "'k::linorder \<Rightarrow> ('k, 'v) table \<Rightarrow> durable_error + unit" where
  "references k parent = (if tb_get parent k = None then Inl StorageUnavailable else Inr ())"

text \<open>\<open>CHECK(column > 0)\<close> on an \<open>u64\<close> that was written with \<open>as i64\<close>.\<close>

definition i64_positive :: "u64 \<Rightarrow> bool" where
  "i64_positive n \<longleftrightarrow> 0 < n \<and> n < 2 ^ 63"

lemma insert_row_Inr [res_simps]:
  "insert_row check k v t = Inr t' \<longleftrightarrow> tb_get t k = None \<and> check \<and> t' = tb_put k v t"
  by (auto simp: insert_row_def)

lemma references_Inr [res_simps]: "references k parent = Inr u \<longleftrightarrow> tb_get parent k \<noteq> None"
  by (auto simp: references_def)

lemma insert_or_ignore_get:
  "tb_get (insert_or_ignore check k v t) j =
     (if j = k \<and> tb_get t k = None \<and> check then Some v else tb_get t j)"
  by (auto simp: insert_or_ignore_def)

end
