(* ===== verification/Mesh_Store.thy ===== *)
theory Mesh_Store
  imports Mesh_Table Mesh_Messages Mesh_Records
begin

text \<open>
  The durable store of \<open>crates/mesh-store/src/lib.rs\<close> with the tables of \<open>schema/store\<close>: the
  reservation of sequences, outgoing objects and the ingestion of chunks. A database is a record of
  tables whose columns are typed as the \<open>CHECK\<close> and \<open>NOT NULL\<close> constraints of the schema keep them;
  a transaction that returns an error leaves the database as it was (\<open>transact\<close>), which is what
  dropping a \<open>rusqlite\<close> transaction does. Errors of the file system, which SQLite reports for any
  statement as \<open>StorageUnavailable\<close>, are left out, but for the two deletions of \<open>Mesh_Store_Retention\<close>
  that a native function makes after it has committed another transaction.
\<close>

section \<open>The database\<close>

datatype logical_id = LogicalMessageId (logical_arr: arr16)

instantiation logical_id :: linorder
begin
definition "less_eq_logical_id a b \<longleftrightarrow> logical_arr a \<le> logical_arr b"
definition "less_logical_id a b \<longleftrightarrow> logical_arr a < logical_arr b"
instance by standard (auto simp: less_eq_logical_id_def less_logical_id_def logical_id.expand)
end

record limits =
  lm_objects :: nat
  lm_bytes :: nat
  lm_operations :: nat

record operation_row =
  ow_hash :: arr32
  ow_sequence :: u64
  ow_object :: "object_id option"

record object_row =
  bw_origin :: member_id
  bw_sequence :: u64
  bw_manifest :: bytes
  bw_reserved :: nat
  bw_complete :: bool

record custody_row =
  cw_bytes :: bytes
  cw_frame :: relay_frame
  cw_from :: member_id
  cw_at :: u64

record logical_row =
  gw_created :: u64
  gw_expires :: u64
  gw_targets :: nat
  gw_audiences :: nat

record policy_row =
  pw_authority :: arr32
  pw_group :: arr32
  pw_epoch :: u64
  pw_digest :: arr32

text \<open>
  One field per table, with its primary key. \<open>logical_message_objects\<close> has a unique \<open>object_id\<close>,
  which is the key here.
\<close>

record db =
  db_next :: u64
  db_operations :: "(operation_id, operation_row) table"
  db_objects :: "(object_id, object_row) table"
  db_chunks :: "(object_id \<times> nat, bytes) table"
  db_outbox :: "(object_id, unit) table"
  db_local :: "(object_id, u64) table"
  db_announcements :: "(object_id, bytes) table"
  db_deliveries :: "(object_id, bytes) table"
  db_receipts :: "(object_id \<times> member_id, bytes) table"
  db_policy :: "policy_row option"
  db_certificates :: "(nat, bytes) table"
  db_revocations :: "(u64, unit) table"
  db_relay_outbox :: "(object_id, u64) table"
  db_relay_metadata :: "(object_id, relay_frame \<times> member_id) table"
  db_relay_receipts :: "(arr32, custody_row) table"
  db_acknowledged :: "(object_id, arr32 \<times> u64) table"
  db_relay_acks :: "(arr32, custody_row) table"
  db_logical :: "(logical_id, logical_row) table"
  db_logical_objects :: "(object_id, logical_id \<times> nat) table"
  db_origin_acks :: "(object_id \<times> member_id, bytes) table"

record store =
  st_db :: db
  st_member :: member_id
  st_limits :: limits

definition transact :: "(db \<Rightarrow> durable_error + 'a \<times> db) \<Rightarrow> store \<Rightarrow> (durable_error + 'a) \<times> store" where
  "transact f s =
     (case f (st_db s) of
        Inl e \<Rightarrow> (Inl e, s)
      | Inr (x, d) \<Rightarrow> (Inr x, s\<lparr>st_db := d\<rparr>))"

definition store_clock :: "u64 \<Rightarrow> durable_error + unit" where
  "store_clock now = (if now > MAX_LOGICAL_TIME then Inl InvalidInput else Inr ())"

definition live :: "manifest \<Rightarrow> u64 \<Rightarrow> durable_error + unit" where
  "live m now = bindr (store_clock now) (\<lambda>_. if now \<ge> mf_expires_at m then Inl Expired else Inr ())"

section \<open>Operations and sequences\<close>

record reservation =
  rn_sequence :: u64
  rn_object :: "object_id option"

definition lookup_operation :: "store \<Rightarrow> operation_id \<Rightarrow> arr32 \<Rightarrow> durable_error + reservation option" where
  "lookup_operation s i command_hash =
     (case tb_get (db_operations (st_db s)) i of
        None \<Rightarrow> Inr None
      | Some row \<Rightarrow>
          if ow_hash row \<noteq> command_hash then Inl Conflict
          else Inr (Some \<lparr>rn_sequence = ow_sequence row, rn_object = ow_object row\<rparr>))"

definition reserve :: "operation_id \<Rightarrow> arr32 \<Rightarrow> store \<Rightarrow> (durable_error + reservation) \<times> store" where
  "reserve i command_hash s = transact (\<lambda>d.
     case tb_get (db_operations d) i of
       Some row \<Rightarrow>
         if ow_hash row \<noteq> command_hash then Inl Conflict
         else Inr (\<lparr>rn_sequence = ow_sequence row, rn_object = ow_object row\<rparr>, d)
     | None \<Rightarrow>
         if tb_count (db_operations d) \<ge> lm_operations (st_limits s) then Inl ResourcePressure
         else
           let sequence = db_next d in
           if sequence \<ge> MAX_LOGICAL_TIME then Inl ResourcePressure
           else
             bindr (insert_row
                 (i64_positive sequence \<and> tb_select (\<lambda>_ r. ow_sequence r = sequence) (db_operations d) = None)
                 i \<lparr>ow_hash = command_hash, ow_sequence = sequence, ow_object = None\<rparr> (db_operations d)) (\<lambda>t.
               Inr (\<lparr>rn_sequence = sequence, rn_object = None\<rparr>,
                    d\<lparr>db_next := sequence + 1, db_operations := t\<rparr>))) s"

section \<open>Objects and chunks\<close>

definition manifest_from :: "(bytes \<Rightarrow> arr32) \<Rightarrow> db \<Rightarrow> object_id \<Rightarrow> durable_error + manifest" where
  "manifest_from sha256 d i =
     bindr (ok_or NotFound (tb_get (db_objects d) i)) (\<lambda>row.
     bindr (map_err (\<lambda>_. Corrupt) (manifest_decode (bw_manifest row))) (\<lambda>m.
       if manifest_id sha256 m \<noteq> i then Inl Corrupt else Inr m))"

definition insert_manifest :: "(bytes \<Rightarrow> arr32) \<Rightarrow> limits \<Rightarrow> manifest \<Rightarrow> db \<Rightarrow> durable_error + db" where
  "insert_manifest sha256 limits m d =
     (let i = manifest_id sha256 m;
          encoded = manifest_encode m
      in case tb_select (\<lambda>_ r. bw_origin r = mf_origin m \<and> bw_sequence r = mf_sequence m) (db_objects d) of
           Some (_, row) \<Rightarrow> if bw_manifest row = encoded then Inr d else Inl Conflict
         | None \<Rightarrow>
             if tb_count (db_objects d) \<ge> lm_objects limits
                \<or> tb_sum (\<lambda>_. bw_reserved) (db_objects d) + mf_content_len m > lm_bytes limits
             then Inl ResourcePressure
             else
               bindr (insert_row (mf_content_len m > 0) i
                   \<lparr>bw_origin = mf_origin m, bw_sequence = mf_sequence m, bw_manifest = encoded,
                    bw_reserved = mf_content_len m, bw_complete = False\<rparr> (db_objects d)) (\<lambda>t.
                 Inr (d\<lparr>db_objects := t\<rparr>)))"

definition insert_chunk :: "object_id \<Rightarrow> nat \<Rightarrow> bytes \<Rightarrow> db \<Rightarrow> durable_error + db" where
  "insert_chunk i index bytes d =
     (case tb_get (db_chunks d) (i, index) of
        Some existing \<Rightarrow> if existing \<noteq> bytes then Inl Corrupt else Inr d
      | None \<Rightarrow>
          bindr (references i (db_objects d)) (\<lambda>_.
          bindr (insert_row (index < 64 \<and> 0 < length bytes \<and> length bytes \<le> 1024) (i, index) bytes (db_chunks d)) (\<lambda>t.
            Inr (d\<lparr>db_chunks := t\<rparr>))))"

definition set_complete :: "object_id \<Rightarrow> db \<Rightarrow> db" where
  "set_complete i d =
     (case tb_get (db_objects d) i of
        None \<Rightarrow> d
      | Some row \<Rightarrow> d\<lparr>db_objects := tb_put i (row\<lparr>bw_complete := True\<rparr>) (db_objects d)\<rparr>)"

text \<open>\<open>check_mode\<close> of \<open>authenticated.rs\<close>: an object is announced with the same bytes or not at all.\<close>

definition check_mode :: "db \<Rightarrow> object_id \<Rightarrow> bytes option \<Rightarrow> durable_error + unit" where
  "check_mode d i announcement =
     (case (map_option (\<lambda>_. tb_get (db_announcements d) i) (tb_get (db_objects d) i), announcement) of
        (None, _) \<Rightarrow> Inr ()
      | (Some None, None) \<Rightarrow> Inr ()
      | (Some (Some bytes), Some expected) \<Rightarrow> if bytes = expected then Inr () else Inl AuthenticationFailed
      | _ \<Rightarrow> Inl AuthenticationFailed)"

definition stored_announcement :: "db \<Rightarrow> object_id \<Rightarrow> durable_error + bytes" where
  "stored_announcement d i = ok_or AuthenticationFailed (tb_get (db_announcements d) i)"

definition insert_announcement :: "object_id \<Rightarrow> bytes \<Rightarrow> db \<Rightarrow> durable_error + db" where
  "insert_announcement i bytes d =
     bindr (references i (db_objects d)) (\<lambda>_.
       Inr (d\<lparr>db_announcements :=
         insert_or_ignore (0 < length bytes \<and> length bytes \<le> 8192) i bytes (db_announcements d)\<rparr>))"

section \<open>Logical messages\<close>

definition link_logical_object :: "logical_id \<Rightarrow> object_id \<Rightarrow> nat \<Rightarrow> db \<Rightarrow> durable_error + db" where
  "link_logical_object logical object target_count d =
     (if target_count = 0 \<or> target_count > 10 then Inl InvalidInput
      else case tb_get (db_logical d) logical of
        None \<Rightarrow> Inl NotFound
      | Some row \<Rightarrow>
          (case tb_get (db_logical_objects d) object of
             Some (existing_logical, existing_count) \<Rightarrow>
               if existing_logical = logical \<and> existing_count = target_count then Inr d else Inl Conflict
           | None \<Rightarrow>
               let bound = tb_retain (\<lambda>_ (l, n). l = logical) (db_logical_objects d);
                   bound_targets = tb_sum (\<lambda>_. snd) bound;
                   bound_audiences = tb_count bound
               in if bound_audiences \<ge> gw_audiences row \<or> bound_targets + target_count > gw_targets row
                  then Inl Conflict
                  else
                    bindr (references object (db_objects d)) (\<lambda>_.
                    bindr (insert_row True object (logical, target_count) (db_logical_objects d)) (\<lambda>t.
                      Inr (d\<lparr>db_logical_objects := t\<rparr>)))))"

definition logical_object_matches :: "logical_id \<Rightarrow> object_id \<Rightarrow> nat \<Rightarrow> db \<Rightarrow> durable_error + unit" where
  "logical_object_matches logical object target_count d =
     (case tb_get (db_logical_objects d) object of
        Some (stored, count) \<Rightarrow> if stored = logical \<and> count = target_count then Inr () else Inl Conflict
      | None \<Rightarrow> Inl Conflict)"

section \<open>Outgoing objects\<close>

text \<open>The loop over the chunks of the object, from index \<open>k\<close> on.\<close>

primrec insert_chunks :: "(bytes \<Rightarrow> arr32) \<Rightarrow> manifest \<Rightarrow> nat \<Rightarrow> bytes list \<Rightarrow> db \<Rightarrow> durable_error + db" where
  "insert_chunks sha256 m k [] d = Inr d"
| "insert_chunks sha256 m k (b # bs) d =
     bindr (verify_chunk sha256 m k b) (\<lambda>_.
     bindr (insert_chunk (manifest_id sha256 m) k b d) (\<lambda>d.
       insert_chunks sha256 m (k + 1) bs d))"

text \<open>The part of \<open>commit_outgoing_inner\<close> after its early return: the operation has no object yet.\<close>

definition commit_fresh ::
    "(bytes \<Rightarrow> arr32) \<Rightarrow> operation_id \<Rightarrow> operation_row \<Rightarrow> prepared_object \<Rightarrow> u64 \<Rightarrow> authenticated_announcement option
     \<Rightarrow> logical_id option \<Rightarrow> store \<Rightarrow> db \<Rightarrow> durable_error + object_id \<times> db" where
  "commit_fresh sha256 i row object now announcement logical s d =
     (let m = po_manifest object;
          object_id = manifest_id sha256 m
      in
        bindr (live m now) (\<lambda>_.
        bindr (check_mode d object_id (map_option aa_encoded announcement)) (\<lambda>_.
        bindr (insert_manifest sha256 (st_limits s) m d) (\<lambda>d.
        bindr (case announcement of
            Some a \<Rightarrow> insert_announcement object_id (aa_encoded a) d
          | None \<Rightarrow> Inr d) (\<lambda>d.
        bindr (insert_chunks sha256 m 0 (po_chunks object) d) (\<lambda>d.
        let d = set_complete object_id d in
        bindr (references object_id (db_objects d)) (\<lambda>_.
        bindr (insert_row True object_id () (db_outbox d)) (\<lambda>t.
        let d = d\<lparr>db_outbox := t\<rparr> in
        bindr (case logical of
            Some l \<Rightarrow> link_logical_object l object_id (length (mf_targets m)) d
          | None \<Rightarrow> Inr d) (\<lambda>d.
        let d = (if announcement = None \<and> st_member s \<in> set (mf_targets m)
                 then d\<lparr>db_local := insert_or_ignore True object_id now (db_local d)\<rparr> else d) in
        if tb_select (\<lambda>j r. j \<noteq> i \<and> ow_object r = Some object_id) (db_operations d) \<noteq> None
        then Inl StorageUnavailable
        else
          Inr (object_id,
            d\<lparr>db_operations := tb_put i (row\<lparr>ow_object := Some object_id\<rparr>) (db_operations d)\<rparr>))))))))))"

definition commit_outgoing_inner ::
    "(bytes \<Rightarrow> arr32) \<Rightarrow> operation_id \<Rightarrow> arr32 \<Rightarrow> prepared_object \<Rightarrow> u64 \<Rightarrow> authenticated_announcement option
     \<Rightarrow> logical_id option \<Rightarrow> store \<Rightarrow> (durable_error + object_id) \<times> store" where
  "commit_outgoing_inner sha256 i command_hash object now announcement logical s =
     (let m = po_manifest object;
          object_id = manifest_id sha256 m
      in
      bind_st (store_clock now, s) (\<lambda>_ s.
      transact (\<lambda>d.
        bindr (ok_or NotFound (tb_get (db_operations d) i)) (\<lambda>row.
        if ow_hash row \<noteq> command_hash \<or> ow_sequence row \<noteq> mf_sequence m \<or> mf_origin m \<noteq> st_member s
        then Inl Conflict
        else case ow_object row of
          Some previous \<Rightarrow>
            bindr (check_mode d object_id (map_option aa_encoded announcement)) (\<lambda>_.
            bindr (case logical of
                Some l \<Rightarrow> logical_object_matches l object_id (length (mf_targets m)) d
              | None \<Rightarrow> Inr ()) (\<lambda>_.
              if previous = object_id then Inr (object_id, d) else Inl Conflict))
        | None \<Rightarrow> commit_fresh sha256 i row object now announcement logical s d)) s))"

definition commit_outgoing ::
    "(bytes \<Rightarrow> arr32) \<Rightarrow> operation_id \<Rightarrow> arr32 \<Rightarrow> prepared_object \<Rightarrow> u64 \<Rightarrow> store
     \<Rightarrow> (durable_error + object_id) \<times> store" where
  "commit_outgoing sha256 i command_hash object now s =
     commit_outgoing_inner sha256 i command_hash object now None None s"

section \<open>Ingestion\<close>

record local_commit =
  lc_object :: object_id
  lc_member :: member_id
  lc_at :: u64

definition announce :: "(bytes \<Rightarrow> arr32) \<Rightarrow> manifest \<Rightarrow> u64 \<Rightarrow> store \<Rightarrow> (durable_error + object_id) \<times> store" where
  "announce sha256 m now s =
     bind_st (live m now, s) (\<lambda>_ s.
     transact (\<lambda>d.
       bindr (check_mode d (manifest_id sha256 m) None) (\<lambda>_.
       bindr (insert_manifest sha256 (st_limits s) m d) (\<lambda>d.
         Inr (manifest_id sha256 m, d)))) s)"

text \<open>What a completed object records of its relay frame.\<close>

definition record_relay :: "manifest \<Rightarrow> object_id \<Rightarrow> relay_frame \<Rightarrow> member_id \<Rightarrow> db \<Rightarrow> durable_error + db" where
  "record_relay m i frame received_from d =
     (if rf_origin frame \<noteq> mf_origin m
         \<or> rf_expires_at frame = 0
         \<or> rf_expires_at frame > mf_expires_at m
         \<or> rf_hop_limit frame > mf_hop_limit m
         \<or> rf_hops frame > rf_hop_limit frame
      then Inl InvalidInput
      else case tb_get (db_relay_metadata d) i of
        Some (existing, prior) \<Rightarrow> if existing \<noteq> frame \<or> prior \<noteq> received_from then Inl Conflict else Inr d
      | None \<Rightarrow>
          bindr (references i (db_relay_outbox d)) (\<lambda>_.
          bindr (insert_row (rf_hops frame \<le> 16 \<and> 0 < rf_hop_limit frame \<and> rf_hop_limit frame \<le> 16
              \<and> i64_positive (rf_expires_at frame)) i (frame, received_from) (db_relay_metadata d)) (\<lambda>t.
            Inr (d\<lparr>db_relay_metadata := t\<rparr>))))"

definition object_chunks :: "db \<Rightarrow> object_id \<Rightarrow> nat" where
  "object_chunks d i = tb_count (tb_retain (\<lambda>(j, _) _. j = i) (db_chunks d))"

text \<open>What the last chunk of an object adds: custody of foreign objects, and a local delivery.\<close>

definition object_complete ::
    "manifest \<Rightarrow> object_id \<Rightarrow> u64 \<Rightarrow> (relay_frame \<times> member_id) option \<Rightarrow> store \<Rightarrow> db
     \<Rightarrow> durable_error + local_commit option \<times> db" where
  "object_complete m i now relay s d =
     (let d = set_complete i d in
      bindr (if mf_origin m \<noteq> st_member s
          then
            bindr (references i (db_objects d)) (\<lambda>_.
            let d = d\<lparr>db_relay_outbox := insert_or_ignore True i now (db_relay_outbox d)\<rparr> in
            case relay of
              Some (frame, received_from) \<Rightarrow> record_relay m i frame received_from d
            | None \<Rightarrow> Inr d)
          else Inr d) (\<lambda>d.
        if relay = None \<and> st_member s \<in> set (mf_targets m)
        then
          bindr (references i (db_objects d)) (\<lambda>_.
          let d = d\<lparr>db_local := insert_or_ignore True i now (db_local d)\<rparr> in
          bindr (ok_or StorageUnavailable (tb_get (db_local d) i)) (\<lambda>committed_at.
            Inr (Some \<lparr>lc_object = i, lc_member = st_member s, lc_at = committed_at\<rparr>, d)))
        else Inr (None, d)))"

definition put_chunk_inner ::
    "(bytes \<Rightarrow> arr32) \<Rightarrow> object_id \<Rightarrow> nat \<Rightarrow> bytes \<Rightarrow> u64 \<Rightarrow> (relay_frame \<times> member_id) option \<Rightarrow> store
     \<Rightarrow> (durable_error + local_commit option) \<times> store" where
  "put_chunk_inner sha256 i index bytes now relay s = transact (\<lambda>d.
     bindr (case relay of
         Some _ \<Rightarrow> bindr (stored_announcement d i) (\<lambda>_. Inr ())
       | None \<Rightarrow> check_mode d i None) (\<lambda>_.
     bindr (manifest_from sha256 d i) (\<lambda>m.
     bindr (live m now) (\<lambda>_.
     bindr (verify_chunk sha256 m index bytes) (\<lambda>_.
     bindr (insert_chunk i index bytes d) (\<lambda>d.
       if object_chunks d i = chunk_count m then object_complete m i now relay s d else Inr (None, d))))))) s"

definition put_chunk ::
    "(bytes \<Rightarrow> arr32) \<Rightarrow> object_id \<Rightarrow> nat \<Rightarrow> bytes \<Rightarrow> u64 \<Rightarrow> store \<Rightarrow> (durable_error + local_commit option) \<times> store" where
  "put_chunk sha256 i index bytes now s = put_chunk_inner sha256 i index bytes now None s"

definition put_relay_chunk ::
    "(bytes \<Rightarrow> arr32) \<Rightarrow> object_id \<Rightarrow> nat \<Rightarrow> bytes \<Rightarrow> relay_frame \<Rightarrow> member_id \<Rightarrow> u64 \<Rightarrow> store
     \<Rightarrow> (durable_error + local_commit option) \<times> store" where
  "put_relay_chunk sha256 i index bytes frame received_from now s =
     put_chunk_inner sha256 i index bytes now (Some (frame, received_from)) s"

section \<open>Reads\<close>

definition st_manifest :: "(bytes \<Rightarrow> arr32) \<Rightarrow> store \<Rightarrow> object_id \<Rightarrow> durable_error + manifest" where
  "st_manifest sha256 s i = manifest_from sha256 (st_db s) i"

definition st_chunk :: "(bytes \<Rightarrow> arr32) \<Rightarrow> store \<Rightarrow> object_id \<Rightarrow> nat \<Rightarrow> durable_error + bytes" where
  "st_chunk sha256 s i index =
     bindr (st_manifest sha256 s i) (\<lambda>m.
       if index \<ge> chunk_count m then Inl InvalidInput
       else
         bindr (ok_or NotFound (tb_get (db_chunks (st_db s)) (i, index))) (\<lambda>bytes.
         bindr (verify_chunk sha256 m index bytes) (\<lambda>_.
           Inr bytes)))"

primrec missing_from :: "(bytes \<Rightarrow> arr32) \<Rightarrow> store \<Rightarrow> object_id \<Rightarrow> nat list \<Rightarrow> durable_error + nat list" where
  "missing_from sha256 s i [] = Inr []"
| "missing_from sha256 s i (k # ks) =
     (case st_chunk sha256 s i k of
        Inr _ \<Rightarrow> missing_from sha256 s i ks
      | Inl e \<Rightarrow> if e = NotFound then bindr (missing_from sha256 s i ks) (\<lambda>rest. Inr (k # rest)) else Inl e)"

definition missing :: "(bytes \<Rightarrow> arr32) \<Rightarrow> store \<Rightarrow> object_id \<Rightarrow> durable_error + nat list" where
  "missing sha256 s i =
     bindr (st_manifest sha256 s i) (\<lambda>m. missing_from sha256 s i [0..<chunk_count m])"

definition st_local_commit :: "store \<Rightarrow> object_id \<Rightarrow> durable_error + local_commit option" where
  "st_local_commit s i =
     Inr (map_option (\<lambda>t. \<lparr>lc_object = i, lc_member = st_member s, lc_at = t\<rparr>) (tb_get (db_local (st_db s)) i))"

text \<open>The loop of the two outboxes: the objects of the list that have not expired.\<close>

primrec unexpired :: "(bytes \<Rightarrow> arr32) \<Rightarrow> store \<Rightarrow> u64 \<Rightarrow> object_id list \<Rightarrow> durable_error + object_id list" where
  "unexpired sha256 s now [] = Inr []"
| "unexpired sha256 s now (i # ids) =
     bindr (st_manifest sha256 s i) (\<lambda>m.
     bindr (unexpired sha256 s now ids) (\<lambda>rest.
       Inr (if mf_expires_at m > now then i # rest else rest)))"

definition logical_created :: "db \<Rightarrow> object_id \<Rightarrow> nat" where
  "logical_created d i =
     (case tb_get (db_logical_objects d) i of
        None \<Rightarrow> 0
      | Some (l, _) \<Rightarrow> (case tb_get (db_logical d) l of None \<Rightarrow> 0 | Some row \<Rightarrow> unat (gw_created row)))"

definition st_outbox :: "(bytes \<Rightarrow> arr32) \<Rightarrow> store \<Rightarrow> u64 \<Rightarrow> durable_error + object_id list" where
  "st_outbox sha256 s now =
     bindr (store_clock now) (\<lambda>_.
       unexpired sha256 s now
         (sort_key (\<lambda>i. - int (logical_created (st_db s) i)) (map fst (tb_rows (db_outbox (st_db s))))))"

definition st_relay_outbox :: "(bytes \<Rightarrow> arr32) \<Rightarrow> store \<Rightarrow> u64 \<Rightarrow> durable_error + object_id list" where
  "st_relay_outbox sha256 s now =
     bindr (store_clock now) (\<lambda>_. unexpired sha256 s now (map fst (tb_rows (db_relay_outbox (st_db s)))))"

record relay_custody =
  ry_object :: object_id
  ry_frame :: relay_frame
  ry_from :: member_id
  ry_at :: u64

definition relay_queue :: "store \<Rightarrow> u64 \<Rightarrow> durable_error + relay_custody list" where
  "relay_queue s now =
     bindr (store_clock now) (\<lambda>_.
       Inr (List.map_filter (\<lambda>(i, custodied_at).
         case tb_get (db_relay_metadata (st_db s)) i of
           None \<Rightarrow> None
         | Some (frame, received_from) \<Rightarrow>
             if rf_expires_at frame > now
             then Some \<lparr>ry_object = i, ry_frame = frame, ry_from = received_from, ry_at = custodied_at\<rparr>
             else None) (tb_rows (db_relay_outbox (st_db s)))))"

record stats =
  sa_objects :: nat
  sa_chunks :: nat
  sa_bytes_reserved :: nat
  sa_operations :: nat
  sa_outbox :: nat
  sa_relay_outbox :: nat
  sa_local :: nat

definition st_stats :: "store \<Rightarrow> durable_error + stats" where
  "st_stats s =
     (let d = st_db s in
      Inr \<lparr>sa_objects = tb_count (db_objects d), sa_chunks = tb_count (db_chunks d),
           sa_bytes_reserved = tb_sum (\<lambda>_. bw_reserved) (db_objects d),
           sa_operations = tb_count (db_operations d), sa_outbox = tb_count (db_outbox d),
           sa_relay_outbox = tb_count (db_relay_outbox d), sa_local = tb_count (db_local d)\<rparr>)"

end
