(* ===== verification/Mesh_Store_Retention.thy ===== *)
theory Mesh_Store_Retention
  imports Mesh_Store
begin

text \<open>
  The rest of \<open>crates/mesh-store/src/lib.rs\<close> without the policy: custody of relayed receipts and
  acknowledgements, logical messages with their summaries, and the deletion of what has expired.
\<close>

section \<open>Custody of receipts and acknowledgements\<close>

text \<open>The body that \<open>put_relay_receipt\<close> and \<open>put_relay_receipt_ack\<close> share, on the table of either.\<close>

definition put_custody ::
    "nat \<Rightarrow> arr32 \<Rightarrow> bytes \<Rightarrow> relay_frame \<Rightarrow> member_id \<Rightarrow> u64 \<Rightarrow> (arr32, custody_row) table
     \<Rightarrow> durable_error + (arr32, custody_row) table" where
  "put_custody limit i bytes frame received_from now t =
     (let t = tb_retain (\<lambda>_ row. \<not> rf_expires_at (cw_frame row) \<le> now) t in
      if tb_get t i \<noteq> None then Inr t
      else if tb_count t \<ge> limit then Inl ResourcePressure
      else
        insert_row (0 < length bytes \<and> length bytes \<le> 1024 \<and> rf_hops frame \<le> 16 \<and> 0 < rf_hop_limit frame
            \<and> rf_hop_limit frame \<le> 16 \<and> i64_positive (rf_expires_at frame))
          i \<lparr>cw_bytes = bytes, cw_frame = frame, cw_from = received_from, cw_at = now\<rparr> t)"

definition custody_input :: "store \<Rightarrow> bytes \<Rightarrow> relay_frame \<Rightarrow> u64 \<Rightarrow> durable_error + unit" where
  "custody_input s bytes frame now =
     bindr (store_clock now) (\<lambda>_.
       if bytes = []
          \<or> length bytes > 1024
          \<or> rf_previous_hop frame \<noteq> st_member s
          \<or> rf_hops frame > rf_hop_limit frame
          \<or> rf_expires_at frame \<le> now
       then Inl InvalidInput else Inr ())"

definition put_relay_receipt ::
    "(bytes \<Rightarrow> arr32) \<Rightarrow> bytes \<Rightarrow> relay_frame \<Rightarrow> member_id \<Rightarrow> u64 \<Rightarrow> store \<Rightarrow> (durable_error + unit) \<times> store" where
  "put_relay_receipt sha256 receipt frame received_from now s =
     bind_st (custody_input s receipt frame now, s) (\<lambda>_ s.
     transact (\<lambda>d.
       bindr (put_custody (lm_operations (st_limits s)) (sha256 receipt) receipt frame received_from now
           (db_relay_receipts d)) (\<lambda>t.
         Inr ((), d\<lparr>db_relay_receipts := t\<rparr>))) s)"

definition put_relay_receipt_ack ::
    "(bytes \<Rightarrow> arr32) \<Rightarrow> bytes \<Rightarrow> relay_frame \<Rightarrow> member_id \<Rightarrow> u64 \<Rightarrow> store \<Rightarrow> (durable_error + unit) \<times> store" where
  "put_relay_receipt_ack sha256 ack frame received_from now s =
     bind_st (custody_input s ack frame now, s) (\<lambda>_ s.
     transact (\<lambda>d.
       bindr (put_custody (lm_operations (st_limits s)) (sha256 ack) ack frame received_from now
           (db_relay_acks d)) (\<lambda>t.
         Inr ((), d\<lparr>db_relay_acks := t\<rparr>))) s)"

definition custody_queue :: "(arr32, custody_row) table \<Rightarrow> u64 \<Rightarrow> custody_row list" where
  "custody_queue t now = filter (\<lambda>row. rf_expires_at (cw_frame row) > now) (map snd (tb_rows t))"

definition relay_receipt_queue :: "store \<Rightarrow> u64 \<Rightarrow> durable_error + custody_row list" where
  "relay_receipt_queue s now =
     bindr (store_clock now) (\<lambda>_. Inr (custody_queue (db_relay_receipts (st_db s)) now))"

definition relay_receipt_ack_queue :: "store \<Rightarrow> u64 \<Rightarrow> durable_error + custody_row list" where
  "relay_receipt_ack_queue s now =
     bindr (store_clock now) (\<lambda>_. Inr (custody_queue (db_relay_acks (st_db s)) now))"

text \<open>
  The callers of the next operation, and of \<open>rollback_logical_message\<close>, have committed another
  transaction before it, so that its failure matters beyond the call itself. Whether SQLite carries it
  out (\<open>map_err(sql)\<close>) is the argument \<open>disk\<close>.
\<close>

definition remove_relay_receipt :: "(store \<Rightarrow> bool) \<Rightarrow> arr32 \<Rightarrow> store \<Rightarrow> (durable_error + unit) \<times> store" where
  "remove_relay_receipt disk receipt_id s =
     (if \<not> disk s then (Inl StorageUnavailable, s)
      else transact (\<lambda>d. Inr ((), d\<lparr>db_relay_receipts := tb_remove receipt_id (db_relay_receipts d)\<rparr>)) s)"

section \<open>Logical messages\<close>

definition begin_logical_message ::
    "logical_id \<Rightarrow> nat \<Rightarrow> nat \<Rightarrow> u64 \<Rightarrow> u64 \<Rightarrow> store \<Rightarrow> (durable_error + unit) \<times> store" where
  "begin_logical_message i target_count audience_count expires_at now s =
     bind_st (store_clock now, s) (\<lambda>_ s.
     if target_count = 0
        \<or> target_count > 49
        \<or> audience_count = 0
        \<or> audience_count > 5
        \<or> expires_at \<le> now
     then (Inl InvalidInput, s)
     else transact (\<lambda>d.
       case tb_get (db_logical d) i of
         Some row \<Rightarrow>
           if (gw_expires row, gw_targets row, gw_audiences row) \<noteq> (expires_at, target_count, audience_count)
           then Inl Conflict else Inr ((), d)
       | None \<Rightarrow>
           bindr (insert_row (expires_at < 2 ^ 63)
               i \<lparr>gw_created = now, gw_expires = expires_at, gw_targets = target_count,
                 gw_audiences = audience_count\<rparr> (db_logical d)) (\<lambda>t.
             Inr ((), d\<lparr>db_logical := t\<rparr>))) s)"

datatype logical_delivery_state = Queued | PartiallyDelivered | Delivered_logical | Expired_logical

record logical_delivery_summary =
  ls_id :: logical_id
  ls_target_count :: nat
  ls_audience_count :: nat
  ls_committed_audiences :: nat
  ls_delivered_targets :: nat
  ls_state :: logical_delivery_state

definition logical_objects :: "db \<Rightarrow> logical_id \<Rightarrow> (object_id, logical_id \<times> nat) table" where
  "logical_objects d i = tb_retain (\<lambda>_ (l, _). l = i) (db_logical_objects d)"

definition logical_receipts :: "db \<Rightarrow> logical_id \<Rightarrow> (object_id \<times> member_id, bytes) table" where
  "logical_receipts d i =
     tb_retain (\<lambda>(j, _) _. tb_get (logical_objects d i) j \<noteq> None) (db_receipts d)"

definition logical_delivery_summary_of ::
    "store \<Rightarrow> logical_id \<Rightarrow> u64 \<Rightarrow> durable_error + logical_delivery_summary option" where
  "logical_delivery_summary_of s i now =
     bindr (store_clock now) (\<lambda>_.
       let d = st_db s in
       case tb_get (db_logical d) i of
         None \<Rightarrow> Inr None
       | Some row \<Rightarrow>
           let committed_audiences = tb_count (logical_objects d i);
               delivered_targets = tb_count (logical_receipts d i)
           in if committed_audiences > gw_audiences row \<or> delivered_targets > gw_targets row
              then Inl Corrupt
              else
                let state =
                  if gw_expires row \<le> now then Expired_logical
                  else if committed_audiences = gw_audiences row \<and> delivered_targets = gw_targets row
                  then Delivered_logical
                  else if delivered_targets > 0 then PartiallyDelivered
                  else Queued
                in Inr (Some \<lparr>ls_id = i, ls_target_count = gw_targets row, ls_audience_count = gw_audiences row,
                    ls_committed_audiences = committed_audiences, ls_delivered_targets = delivered_targets,
                    ls_state = state\<rparr>))"

definition latest_logical_delivery_summary ::
    "store \<Rightarrow> u64 \<Rightarrow> durable_error + logical_delivery_summary option" where
  "latest_logical_delivery_summary s now =
     bindr (store_clock now) (\<lambda>_.
       case sort_key (\<lambda>(_, row). - int (unat (gw_created row)))
           (rev (filter (\<lambda>(_, row). gw_expires row > now) (tb_rows (db_logical (st_db s))))) of
         [] \<Rightarrow> Inr None
       | (i, _) # _ \<Rightarrow>
           bindr (logical_delivery_summary_of s i now) (\<lambda>summary.
           bindr (ok_or Corrupt summary) (\<lambda>summary. Inr (Some summary))))"

section \<open>Deletion\<close>

text \<open>
  The rows that refer to the object are deleted before the rows they refer to, so no foreign key is
  in the way; the acknowledgements of its receipts go with the receipts (\<open>ON DELETE CASCADE\<close>).
\<close>

definition delete_object :: "object_id \<Rightarrow> db \<Rightarrow> db" where
  "delete_object i d =
     (let d = d\<lparr>db_acknowledged := tb_remove i (db_acknowledged d)\<rparr>;
          d = d\<lparr>db_deliveries := tb_remove i (db_deliveries d)\<rparr>;
          d = d\<lparr>db_relay_metadata := tb_remove i (db_relay_metadata d)\<rparr>;
          d = d\<lparr>db_receipts := tb_retain (\<lambda>(j, _) _. j \<noteq> i) (db_receipts d),
                db_origin_acks := tb_retain (\<lambda>(j, _) _. j \<noteq> i) (db_origin_acks d)\<rparr>;
          d = d\<lparr>db_announcements := tb_remove i (db_announcements d)\<rparr>;
          d = d\<lparr>db_logical_objects := tb_remove i (db_logical_objects d)\<rparr>;
          d = d\<lparr>db_chunks := tb_retain (\<lambda>(j, _) _. j \<noteq> i) (db_chunks d)\<rparr>;
          d = d\<lparr>db_outbox := tb_remove i (db_outbox d)\<rparr>;
          d = d\<lparr>db_relay_outbox := tb_remove i (db_relay_outbox d)\<rparr>;
          d = d\<lparr>db_local := tb_remove i (db_local d)\<rparr>;
          d = d\<lparr>db_operations := tb_retain (\<lambda>_ row. ow_object row \<noteq> Some i) (db_operations d)\<rparr>
      in d\<lparr>db_objects := tb_remove i (db_objects d)\<rparr>)"

text \<open>
  \<open>DELETE FROM logical_messages WHERE\<close>: fails when an object still refers to a deleted message.
\<close>

definition delete_logical :: "(logical_id \<Rightarrow> logical_row \<Rightarrow> bool) \<Rightarrow> db \<Rightarrow> durable_error + db" where
  "delete_logical P d =
     (let kept = tb_retain (\<lambda>i row. \<not> P i row) (db_logical d) in
      if tb_select (\<lambda>_ (l, _). tb_get kept l = None) (db_logical_objects d) \<noteq> None
      then Inl StorageUnavailable
      else Inr (d\<lparr>db_logical := kept\<rparr>))"

definition delete_unbound :: "db \<Rightarrow> db" where
  "delete_unbound d = d\<lparr>db_operations := tb_retain (\<lambda>_ row. ow_object row \<noteq> None) (db_operations d)\<rparr>"

text \<open>The scan of the objects: every manifest is read, and the expired ones are collected.\<close>

primrec expired_objects ::
    "(bytes \<Rightarrow> arr32) \<Rightarrow> u64 \<Rightarrow> (object_id \<times> object_row) list \<Rightarrow> durable_error + object_id list" where
  "expired_objects sha256 now [] = Inr []"
| "expired_objects sha256 now (x # xs) =
     (case x of (object, row) \<Rightarrow>
        bindr (map_err (\<lambda>_. Corrupt) (manifest_decode (bw_manifest row))) (\<lambda>m.
        if manifest_id sha256 m \<noteq> object then Inl Corrupt
        else
          bindr (expired_objects sha256 now xs) (\<lambda>ids.
            Inr (if mf_expires_at m \<le> now then object # ids else ids))))"

definition prune_expired :: "(bytes \<Rightarrow> arr32) \<Rightarrow> u64 \<Rightarrow> store \<Rightarrow> (durable_error + nat) \<times> store" where
  "prune_expired sha256 now s =
     bind_st (store_clock now, s) (\<lambda>_ s.
     bind_st (expired_objects sha256 now (tb_rows (db_objects (st_db s))), s) (\<lambda>expired s.
     transact (\<lambda>d.
       let d = fold delete_object expired d in
       bindr (delete_logical (\<lambda>i row. gw_expires row \<le> now \<or> tb_count (logical_objects d i) = 0) d) (\<lambda>d.
       let d = delete_unbound d;
           d = d\<lparr>db_relay_receipts := tb_retain (\<lambda>_ row. \<not> rf_expires_at (cw_frame row) \<le> now) (db_relay_receipts d)\<rparr>;
           d = d\<lparr>db_relay_acks := tb_retain (\<lambda>_ row. \<not> rf_expires_at (cw_frame row) \<le> now) (db_relay_acks d)\<rparr>
       in Inr (length expired, d))) s))"

definition rollback_logical_message :: "(store \<Rightarrow> bool) \<Rightarrow> logical_id \<Rightarrow> store \<Rightarrow> (durable_error + unit) \<times> store" where
  "rollback_logical_message disk logical s =
     (let objects = map fst (tb_rows (logical_objects (st_db s) logical)) in
      if \<not> disk s then (Inl StorageUnavailable, s)
      else transact (\<lambda>d.
        let d = fold delete_object objects d in
        bindr (delete_logical (\<lambda>i _. i = logical) d) (\<lambda>d.
          Inr ((), delete_unbound d))) s)"

end
