(* ===== verification/Mesh_Store_Inv.thy ===== *)
theory Mesh_Store_Inv
  imports Mesh_Store_Retention
begin

text \<open>
  The invariant of the database of \<open>Mesh_Store\<close> and what keeps it: objects are stored under the
  hash of their manifest, chunks are those of the manifest, foreign keys hold, sequences are below
  the counter, receipts are of targets, and the limits are kept. Its parts speak of single tables,
  so an operation only meets the parts of the tables it writes.
\<close>

section \<open>The parts\<close>

definition row_of :: "(bytes \<Rightarrow> arr32) \<Rightarrow> object_id \<Rightarrow> object_row \<Rightarrow> manifest \<Rightarrow> bool" where
  "row_of sha256 i row m \<longleftrightarrow> manifest_ok m \<and> manifest_id sha256 m = i \<and> bw_manifest row = manifest_encode m \<and>
     bw_origin row = mf_origin m \<and> bw_sequence row = mf_sequence m \<and> bw_reserved row = mf_content_len m"

definition objects_ok :: "(bytes \<Rightarrow> arr32) \<Rightarrow> (object_id, object_row) table \<Rightarrow> bool" where
  "objects_ok sha256 t \<longleftrightarrow> (\<forall>i row. tb_get t i = Some row \<longrightarrow> (\<exists>m. row_of sha256 i row m)) \<and>
     (\<forall>i j row row'. tb_get t i = Some row \<longrightarrow> tb_get t j = Some row' \<longrightarrow>
        bw_origin row = bw_origin row' \<longrightarrow> bw_sequence row = bw_sequence row' \<longrightarrow> i = j)"

text \<open>The manifest of a stored object, and the reads of it.\<close>

definition stored :: "(bytes \<Rightarrow> arr32) \<Rightarrow> (object_id, object_row) table \<Rightarrow> object_id \<Rightarrow> manifest \<Rightarrow> bool" where
  "stored sha256 t i m \<longleftrightarrow> (\<exists>row. tb_get t i = Some row \<and> row_of sha256 i row m)"

lemma row_of_unique: "row_of sha256 i row m \<Longrightarrow> row_of sha256 i row n \<Longrightarrow> m = n"
  using manifest.put_inj by (auto simp: row_of_def)

lemma stored_unique: "stored sha256 t i m \<Longrightarrow> stored sha256 t i n \<Longrightarrow> m = n"
  by (auto simp: stored_def dest: row_of_unique)

lemma manifest_from_iff:
  assumes "objects_ok sha256 (db_objects d)"
  shows "manifest_from sha256 d i = Inr m \<longleftrightarrow> stored sha256 (db_objects d) i m"
proof (cases "tb_get (db_objects d) i")
  case None
  then show ?thesis by (simp add: manifest_from_def stored_def)
next
  case (Some row)
  then obtain n where n: "row_of sha256 i row n" using assms unfolding objects_ok_def by blast
  then have "manifest_decode (bw_manifest row) = Inr n" "manifest_id sha256 n = i"
    by (auto simp: row_of_def manifest_decode_iff)
  then have "manifest_from sha256 d i = Inr n" using Some by (simp add: manifest_from_def)
  then show ?thesis using Some n by (auto simp: stored_def dest: row_of_unique)
qed

definition chunks_ok ::
    "(bytes \<Rightarrow> arr32) \<Rightarrow> (object_id, object_row) table \<Rightarrow> (object_id \<times> nat, bytes) table \<Rightarrow> bool" where
  "chunks_ok sha256 t c \<longleftrightarrow> (\<forall>i k b. tb_get c (i, k) = Some b \<longrightarrow>
     (\<exists>m. stored sha256 t i m \<and> verify_chunk sha256 m k b = Inr ()))"

lemma chunks_ok_None: "chunks_ok sha256 t c \<Longrightarrow> tb_get t i = None \<Longrightarrow> tb_get c (i, k) = None"
  unfolding chunks_ok_def stored_def by (metis not_None_eq)

definition complete_ok ::
    "(bytes \<Rightarrow> arr32) \<Rightarrow> (object_id, object_row) table \<Rightarrow> (object_id \<times> nat, bytes) table \<Rightarrow> bool" where
  "complete_ok sha256 t c \<longleftrightarrow> (\<forall>i row m k. tb_get t i = Some row \<longrightarrow> bw_complete row \<longrightarrow> row_of sha256 i row m \<longrightarrow>
     k < chunk_count m \<longrightarrow> tb_get c (i, k) \<noteq> None)"

definition depends :: "('k::linorder, 'v) table \<Rightarrow> ('k, 'w) table \<Rightarrow> bool" where
  "depends child parent \<longleftrightarrow> (\<forall>k. tb_get child k \<noteq> None \<longrightarrow> tb_get parent k \<noteq> None)"

definition receipts_ok ::
    "(bytes \<Rightarrow> arr32) \<Rightarrow> (object_id, object_row) table \<Rightarrow> (object_id \<times> member_id, bytes) table \<Rightarrow> bool" where
  "receipts_ok sha256 t r \<longleftrightarrow> (\<forall>i a b. tb_get r (i, a) = Some b \<longrightarrow>
     (\<exists>m. stored sha256 t i m \<and> a \<in> set (mf_targets m)))"

definition operations_ok ::
    "member_id \<Rightarrow> u64 \<Rightarrow> (object_id, object_row) table \<Rightarrow> (operation_id, operation_row) table \<Rightarrow> bool" where
  "operations_ok member n t ops \<longleftrightarrow> 0 < n \<and> n \<le> MAX_LOGICAL_TIME \<and>
     (\<forall>i row. tb_get ops i = Some row \<longrightarrow> 0 < ow_sequence row \<and> ow_sequence row < n) \<and>
     (\<forall>i j row row'. tb_get ops i = Some row \<longrightarrow> tb_get ops j = Some row' \<longrightarrow>
        ow_sequence row = ow_sequence row' \<longrightarrow> i = j) \<and>
     (\<forall>i row ob. tb_get ops i = Some row \<longrightarrow> ow_object row = Some ob \<longrightarrow>
        (\<exists>b. tb_get t ob = Some b \<and> bw_origin b = member \<and> bw_sequence b = ow_sequence row))"

lemma operations_ok_objects:
  assumes "operations_ok member n t ops"
    and "\<And>ob b. tb_get t ob = Some b \<Longrightarrow>
      \<exists>b'. tb_get t' ob = Some b' \<and> bw_origin b' = bw_origin b \<and> bw_sequence b' = bw_sequence b"
  shows "operations_ok member n t' ops"
proof -
  have "\<exists>b. tb_get t' ob = Some b \<and> bw_origin b = member \<and> bw_sequence b = ow_sequence row"
    if op: "tb_get ops i = Some row" "ow_object row = Some ob" for i row ob
  proof -
    obtain b where b: "tb_get t ob = Some b" "bw_origin b = member" "bw_sequence b = ow_sequence row"
      using assms(1) op unfolding operations_ok_def by blast
    then show ?thesis using assms(2) [OF b(1)] by auto
  qed
  moreover note assms(1) [unfolded operations_ok_def]
  ultimately show ?thesis unfolding operations_ok_def by blast
qed

definition bound_objects :: "(object_id, logical_id \<times> nat) table \<Rightarrow> logical_id \<Rightarrow> (object_id, logical_id \<times> nat) table" where
  "bound_objects t l = tb_retain (\<lambda>_ (j, _). j = l) t"

definition logical_ok :: "(logical_id, logical_row) table \<Rightarrow> (object_id, logical_id \<times> nat) table \<Rightarrow> bool" where
  "logical_ok t b \<longleftrightarrow> (\<forall>ob l n. tb_get b ob = Some (l, n) \<longrightarrow> tb_get t l \<noteq> None) \<and>
     (\<forall>l row. tb_get t l = Some row \<longrightarrow> tb_count (bound_objects b l) \<le> gw_audiences row \<and>
        tb_sum (\<lambda>_. snd) (bound_objects b l) \<le> gw_targets row)"

definition bounds_ok :: "limits \<Rightarrow> db \<Rightarrow> bool" where
  "bounds_ok lim d \<longleftrightarrow> tb_count (db_operations d) \<le> lm_operations lim \<and> tb_count (db_objects d) \<le> lm_objects lim \<and>
     tb_sum (\<lambda>_. bw_reserved) (db_objects d) \<le> lm_bytes lim \<and>
     tb_count (db_relay_receipts d) \<le> lm_operations lim \<and> tb_count (db_relay_acks d) \<le> lm_operations lim"

definition links_ok :: "db \<Rightarrow> bool" where
  "links_ok d \<longleftrightarrow> depends (db_outbox d) (db_objects d) \<and> depends (db_local d) (db_objects d) \<and>
     depends (db_announcements d) (db_objects d) \<and> depends (db_relay_outbox d) (db_objects d) \<and>
     depends (db_logical_objects d) (db_objects d) \<and> depends (db_deliveries d) (db_local d) \<and>
     depends (db_acknowledged d) (db_local d) \<and> depends (db_relay_metadata d) (db_relay_outbox d) \<and>
     depends (db_origin_acks d) (db_receipts d)"

definition db_ok :: "(bytes \<Rightarrow> arr32) \<Rightarrow> member_id \<Rightarrow> limits \<Rightarrow> db \<Rightarrow> bool" where
  "db_ok sha256 member lim d \<longleftrightarrow> objects_ok sha256 (db_objects d) \<and> chunks_ok sha256 (db_objects d) (db_chunks d) \<and>
     complete_ok sha256 (db_objects d) (db_chunks d) \<and> receipts_ok sha256 (db_objects d) (db_receipts d) \<and>
     operations_ok member (db_next d) (db_objects d) (db_operations d) \<and>
     logical_ok (db_logical d) (db_logical_objects d) \<and> links_ok d \<and> bounds_ok lim d"

definition store_ok :: "(bytes \<Rightarrow> arr32) \<Rightarrow> store \<Rightarrow> bool" where
  "store_ok sha256 s \<longleftrightarrow> db_ok sha256 (st_member s) (st_limits s) (st_db s)"

lemma depends_put [simp]: "tb_get parent k \<noteq> None \<Longrightarrow> depends child parent \<Longrightarrow> depends (tb_put k v child) parent"
  by (auto simp: depends_def)

lemma depends_ignore [simp]:
  "tb_get parent k \<noteq> None \<Longrightarrow> depends child parent \<Longrightarrow> depends (insert_or_ignore c k v child) parent"
  by (auto simp: insert_or_ignore_def)

lemma depends_grow [simp]: "depends child parent \<Longrightarrow> depends child (tb_put k v parent)"
  by (auto simp: depends_def)

lemma depends_grow_ignore [simp]: "depends child parent \<Longrightarrow> depends child (insert_or_ignore c k v parent)"
  by (auto simp: insert_or_ignore_def)

lemma depends_remove [simp]: "depends child parent \<Longrightarrow> depends (tb_remove k child) (tb_remove k parent)"
  by (auto simp: depends_def)

lemma depends_shrink [simp]: "depends child parent \<Longrightarrow> depends (tb_remove k child) parent"
  by (auto simp: depends_def)

text \<open>Transactions keep what their body keeps, and return errors with the store as it was.\<close>

lemma transact_Inr:
  "transact f s = (Inr x, s') \<longleftrightarrow> (\<exists>d. f (st_db s) = Inr (x, d) \<and> s' = s\<lparr>st_db := d\<rparr>)"
  by (auto simp: transact_def split: sum.splits)

lemma transact_Inl: "transact f s = (Inl e, s') \<longleftrightarrow> f (st_db s) = Inl e \<and> s' = s"
  by (auto simp: transact_def split: sum.splits)

lemma store_ok_update [simp]:
  "store_ok sha256 (s\<lparr>st_db := d\<rparr>) \<longleftrightarrow> db_ok sha256 (st_member s) (st_limits s) d"
  by (simp add: store_ok_def)

lemma store_clock_Inr [res_simps]: "store_clock now = Inr u \<longleftrightarrow> now \<le> MAX_LOGICAL_TIME"
  by (auto simp: store_clock_def)

lemma live_Inr [res_simps]: "live m now = Inr u \<longleftrightarrow> now \<le> MAX_LOGICAL_TIME \<and> now < mf_expires_at m"
  by (auto simp: live_def res_simps)

section \<open>Single writes\<close>

lemma stored_put_new:
  "tb_get t j = None \<Longrightarrow> stored sha256 t i m \<Longrightarrow> stored sha256 (tb_put j row t) i m"
  by (auto simp: stored_def)

lemma insert_manifest_Inr:
  assumes "objects_ok sha256 (db_objects d)" and "manifest_ok m" and "insert_manifest sha256 lim m d = Inr d'"
  shows "\<exists>row. (d' = d \<and> tb_get (db_objects d) (manifest_id sha256 m) = Some row \<or>
      d' = d\<lparr>db_objects := tb_put (manifest_id sha256 m) row (db_objects d)\<rparr> \<and>
      tb_get (db_objects d) (manifest_id sha256 m) = None \<and> \<not> bw_complete row \<and>
      (\<forall>i r. tb_get (db_objects d) i = Some r \<longrightarrow> bw_origin r = mf_origin m \<longrightarrow> bw_sequence r \<noteq> mf_sequence m) \<and>
      tb_count (db_objects d) < lm_objects lim \<and>
      tb_sum (\<lambda>_. bw_reserved) (db_objects d) + mf_content_len m \<le> lm_bytes lim) \<and>
    row_of sha256 (manifest_id sha256 m) row m"
proof (cases "tb_select (\<lambda>_ r. bw_origin r = mf_origin m \<and> bw_sequence r = mf_sequence m) (db_objects d)")
  case None
  let ?row = "\<lparr>bw_origin = mf_origin m, bw_sequence = mf_sequence m, bw_manifest = manifest_encode m,
    bw_reserved = mf_content_len m, bw_complete = False\<rparr>"
  have "row_of sha256 (manifest_id sha256 m) ?row m" using assms(2) by (simp add: row_of_def)
  then show ?thesis
    using assms(3) None
    by (intro exI [of _ ?row]) (auto simp: insert_manifest_def Let_def res_simps tb_select_None not_le split: if_splits)
next
  case (Some x)
  obtain i row where x: "x = (i, row)" by (cases x)
  have r: "tb_get (db_objects d) i = Some row" "bw_origin row = mf_origin m" "bw_sequence row = mf_sequence m"
    using tb_select_Some [of _ "db_objects d" i row] Some x by fastforce+
  have d: "d' = d" "bw_manifest row = manifest_encode m"
    using assms(3) Some x by (auto simp: insert_manifest_def Let_def split: if_splits)
  obtain n where "row_of sha256 i row n" using assms(1) r(1) unfolding objects_ok_def by blast
  then have "row_of sha256 i row m"
    using d(2) assms(2) manifest.put_inj by (metis row_of_def)
  then show ?thesis using d(1) r(1) by (auto simp: row_of_def)
qed

lemma insert_manifest_keeps:
  assumes ok: "db_ok sha256 member lim d" and "manifest_ok m" and "insert_manifest sha256 lim m d = Inr d'"
  shows "db_ok sha256 member lim d' \<and> stored sha256 (db_objects d') (manifest_id sha256 m) m \<and>
    (\<exists>t. d' = d\<lparr>db_objects := t\<rparr>) \<and> (tb_get (db_objects d) (manifest_id sha256 m) = None \<longrightarrow>
       (\<forall>k. tb_get (db_chunks d) (manifest_id sha256 m, k) = None))"
proof -
  let ?i = "manifest_id sha256 m" and ?t = "db_objects d"
  have parts: "objects_ok sha256 ?t" "chunks_ok sha256 ?t (db_chunks d)" "complete_ok sha256 ?t (db_chunks d)"
      "receipts_ok sha256 ?t (db_receipts d)" "operations_ok member (db_next d) ?t (db_operations d)"
      "logical_ok (db_logical d) (db_logical_objects d)" "links_ok d" "bounds_ok lim d"
    using ok by (simp_all add: db_ok_def)
  have chunks: "tb_get ?t ?i = None \<Longrightarrow> \<forall>k. tb_get (db_chunks d) (?i, k) = None"
    using chunks_ok_None [OF parts(2)] by blast
  obtain row where row: "row_of sha256 ?i row m" and
    c: "d' = d \<and> tb_get ?t ?i = Some row \<or> d' = d\<lparr>db_objects := tb_put ?i row ?t\<rparr> \<and> tb_get ?t ?i = None \<and>
      \<not> bw_complete row \<and> (\<forall>i r. tb_get ?t i = Some r \<longrightarrow> bw_origin r = mf_origin m \<longrightarrow> bw_sequence r \<noteq> mf_sequence m) \<and>
      tb_count ?t < lm_objects lim \<and> tb_sum (\<lambda>_. bw_reserved) ?t + mf_content_len m \<le> lm_bytes lim"
    using insert_manifest_Inr [OF parts(1) assms(2,3)] by blast
  from c show ?thesis
  proof (elim disjE conjE)
    assume "d' = d" "tb_get ?t ?i = Some row"
    then show ?thesis using ok row by (auto simp: stored_def intro: exI [of _ ?t])
  next
    assume d': "d' = d\<lparr>db_objects := tb_put ?i row ?t\<rparr>" and new: "tb_get ?t ?i = None" and "\<not> bw_complete row"
      and uniq: "\<forall>i r. tb_get ?t i = Some r \<longrightarrow> bw_origin r = mf_origin m \<longrightarrow> bw_sequence r \<noteq> mf_sequence m"
      and lim: "tb_count ?t < lm_objects lim" "tb_sum (\<lambda>_. bw_reserved) ?t + mf_content_len m \<le> lm_bytes lim"
    let ?t' = "tb_put ?i row ?t"
    have r: "bw_origin row = mf_origin m" "bw_sequence row = mf_sequence m" "bw_reserved row = mf_content_len m"
      using row by (simp_all add: row_of_def)
    have "objects_ok sha256 ?t'"
      using parts(1) row uniq r unfolding objects_ok_def by (auto split: if_splits) metis+
    moreover have "chunks_ok sha256 ?t' (db_chunks d)" "receipts_ok sha256 ?t' (db_receipts d)"
      using parts(2,4) stored_put_new [OF new] by (fastforce simp: chunks_ok_def receipts_ok_def)+
    moreover have "complete_ok sha256 ?t' (db_chunks d)"
      using parts(3) \<open>\<not> bw_complete row\<close> by (auto simp: complete_ok_def)
    moreover have "operations_ok member (db_next d) ?t' (db_operations d)"
      using parts(5) new by (fastforce simp: operations_ok_def)
    moreover have "links_ok d'" using parts(7) by (simp add: d' links_ok_def)
    moreover have "bounds_ok lim d'"
      using parts(8) lim new r(3) by (simp add: d' bounds_ok_def tb_count_put tb_sum_put)
    moreover have "stored sha256 ?t' ?i m" using row by (auto simp: stored_def)
    ultimately show ?thesis using parts(6) chunks by (auto simp: db_ok_def d')
  qed
qed

lemma insert_chunk_Inr:
  assumes "insert_chunk i k b d = Inr d'"
  shows "\<exists>c. d' = d\<lparr>db_chunks := c\<rparr> \<and> tb_get c = (tb_get (db_chunks d))((i, k) \<mapsto> b) \<and>
    (tb_get (db_chunks d) (i, k) = None \<or> tb_get (db_chunks d) (i, k) = Some b)"
proof (cases "tb_get (db_chunks d) (i, k)")
  case None
  then show ?thesis
    using assms by (intro exI [of _ "tb_put (i, k) b (db_chunks d)"]) (auto simp: insert_chunk_def res_simps)
next
  case (Some x)
  then show ?thesis
    using assms by (intro exI [of _ "db_chunks d"]) (auto simp: insert_chunk_def fun_upd_idem split: if_splits)
qed

lemma insert_chunk_keeps:
  assumes ok: "db_ok sha256 member lim d" and "stored sha256 (db_objects d) i m"
    and "verify_chunk sha256 m k b = Inr ()" and "insert_chunk i k b d = Inr d'"
  shows "db_ok sha256 member lim d' \<and> (\<exists>c. d' = d\<lparr>db_chunks := c\<rparr> \<and> tb_get c = (tb_get (db_chunks d))((i, k) \<mapsto> b))"
proof -
  obtain c where c: "d' = d\<lparr>db_chunks := c\<rparr>" "tb_get c = (tb_get (db_chunks d))((i, k) \<mapsto> b)"
    using insert_chunk_Inr [OF assms(4)] by blast
  have "chunks_ok sha256 (db_objects d) c"
    using ok assms(2,3) by (auto simp: db_ok_def chunks_ok_def c(2))
  moreover have "complete_ok sha256 (db_objects d) c"
    using ok by (auto simp: db_ok_def complete_ok_def c(2))
  ultimately have "db_ok sha256 member lim d'"
    using ok by (simp add: db_ok_def c(1) links_ok_def bounds_ok_def)
  then show ?thesis using c by blast
qed

lemma insert_chunks_keeps:
  assumes "db_ok sha256 member lim d" and "stored sha256 (db_objects d) (manifest_id sha256 m) m"
    and "insert_chunks sha256 m k bs d = Inr d'"
  shows "db_ok sha256 member lim d' \<and> (\<exists>c. d' = d\<lparr>db_chunks := c\<rparr> \<and>
    (\<forall>j < length bs. tb_get c (manifest_id sha256 m, k + j) = Some (bs ! j)) \<and>
    (\<forall>i j. i \<noteq> manifest_id sha256 m \<or> j < k \<longrightarrow> tb_get c (i, j) = tb_get (db_chunks d) (i, j)))"
  using assms
proof (induction bs arbitrary: k d)
  case Nil
  then show ?case by (auto intro!: exI [of _ "db_chunks d"])
next
  case (Cons b bs)
  let ?i = "manifest_id sha256 m"
  obtain e where e: "verify_chunk sha256 m k b = Inr ()" "insert_chunk ?i k b d = Inr e"
      "insert_chunks sha256 m (k + 1) bs e = Inr d'"
    using Cons.prems(3) by (auto simp: res_simps)
  from insert_chunk_keeps [OF Cons.prems(1,2) e(1,2)] obtain c where
    c: "db_ok sha256 member lim e" "e = d\<lparr>db_chunks := c\<rparr>" "tb_get c = (tb_get (db_chunks d))((?i, k) \<mapsto> b)" by blast
  have "stored sha256 (db_objects e) ?i m" using Cons.prems(2) c(2) by simp
  from Cons.IH [OF c(1) this e(3)] obtain c' where c': "db_ok sha256 member lim d'" "d' = e\<lparr>db_chunks := c'\<rparr>"
      "\<forall>j < length bs. tb_get c' (?i, k + 1 + j) = Some (bs ! j)"
      "\<forall>i j. i \<noteq> ?i \<or> j < k + 1 \<longrightarrow> tb_get c' (i, j) = tb_get c (i, j)"
    using c(2) by auto
  have "tb_get c' (?i, k + j) = Some ((b # bs) ! j)" if "j < length (b # bs)" for j
    using that c'(3,4) c(3) by (cases j) auto
  moreover have "tb_get c' (i, j) = tb_get (db_chunks d) (i, j)" if "i \<noteq> ?i \<or> j < k" for i j
    using that c'(4) c(3) by auto
  ultimately show ?case using c'(1,2) c(2) by (intro conjI exI [of _ c']) auto
qed

text \<open>As many chunks as the manifest has are all its chunks.\<close>

lemma object_chunks_all:
  assumes ok: "db_ok sha256 member lim d" and s: "stored sha256 (db_objects d) i m"
    and "object_chunks d i = chunk_count m" and "k < chunk_count m"
  shows "tb_get (db_chunks d) (i, k) \<noteq> None"
proof -
  let ?K = "dom (tb_get (tb_retain (\<lambda>(j, _) _. j = i) (db_chunks d)))"
  have "?K \<subseteq> (\<lambda>k. (i, k)) ` {..<chunk_count m}"
  proof
    fix x assume "x \<in> ?K"
    then obtain k b where x: "x = (i, k)" "tb_get (db_chunks d) (i, k) = Some b"
      by (auto simp: dom_def tb_get_retain)
    then obtain n where n: "stored sha256 (db_objects d) i n" "verify_chunk sha256 n k b = Inr ()"
      using ok unfolding db_ok_def chunks_ok_def by blast
    have "m = n" by (rule stored_unique [OF s n(1)])
    then have "k < chunk_count m" using n(2) by (simp add: verify_chunk_iff)
    then show "x \<in> (\<lambda>k. (i, k)) ` {..<chunk_count m}" using x(1) by blast
  qed
  moreover have "card ?K = card ((\<lambda>k. (i, k)) ` {..<chunk_count m})"
    using assms(3) by (simp add: object_chunks_def tb_count_card card_image inj_on_def)
  ultimately have "?K = (\<lambda>k. (i, k)) ` {..<chunk_count m}" by (intro card_subset_eq) simp_all
  then have "(i, k) \<in> ?K" using assms(4) by blast
  then show ?thesis by (auto simp: dom_def tb_get_retain)
qed

lemma row_of_complete [simp]: "row_of sha256 i (row\<lparr>bw_complete := c\<rparr>) m \<longleftrightarrow> row_of sha256 i row m"
  by (simp add: row_of_def)

lemma set_complete_objects:
  "\<exists>t. set_complete i d = d\<lparr>db_objects := t\<rparr> \<and>
     (\<forall>j. tb_get t j = map_option (\<lambda>row. if j = i then row\<lparr>bw_complete := True\<rparr> else row) (tb_get (db_objects d) j)) \<and>
     tb_count t = tb_count (db_objects d) \<and> tb_sum (\<lambda>_. bw_reserved) t = tb_sum (\<lambda>_. bw_reserved) (db_objects d)"
proof (cases "tb_get (db_objects d) i")
  case None
  then show ?thesis
    by (intro exI [of _ "db_objects d"]) (auto simp: set_complete_def map_option_case split: option.splits)
next
  case (Some row)
  let ?t = "tb_put i (row\<lparr>bw_complete := True\<rparr>) (db_objects d)"
  have "tb_sum (\<lambda>_. bw_reserved) ?t = tb_sum (\<lambda>_. bw_reserved) (db_objects d)"
    by (rule tb_sum_update [OF Some]) simp
  then show ?thesis
    using Some by (intro exI [of _ ?t]) (auto simp: set_complete_def tb_count_put map_option_case split: option.splits)
qed

lemma set_complete_keeps:
  assumes ok: "db_ok sha256 member lim d"
    and "\<And>m k. stored sha256 (db_objects d) i m \<Longrightarrow> k < chunk_count m \<Longrightarrow> tb_get (db_chunks d) (i, k) \<noteq> None"
  shows "db_ok sha256 member lim (set_complete i d) \<and>
    (\<exists>t. set_complete i d = d\<lparr>db_objects := t\<rparr> \<and> (\<forall>j m. stored sha256 t j m = stored sha256 (db_objects d) j m) \<and>
       (\<forall>j. tb_get t j = None \<longleftrightarrow> tb_get (db_objects d) j = None))"
proof -
  obtain t where t: "set_complete i d = d\<lparr>db_objects := t\<rparr>"
     "\<And>j. tb_get t j = map_option (\<lambda>row. if j = i then row\<lparr>bw_complete := True\<rparr> else row) (tb_get (db_objects d) j)"
     "tb_count t = tb_count (db_objects d)" "tb_sum (\<lambda>_. bw_reserved) t = tb_sum (\<lambda>_. bw_reserved) (db_objects d)"
    using set_complete_objects [of i d] by blast
  have st: "stored sha256 t j m = stored sha256 (db_objects d) j m" for j m
    by (cases "tb_get (db_objects d) j"; cases "j = i") (simp_all add: stored_def t(2))
  have none: "tb_get t j = None \<longleftrightarrow> tb_get (db_objects d) j = None" for j by (simp add: t(2))
  have parts: "objects_ok sha256 (db_objects d)" "chunks_ok sha256 (db_objects d) (db_chunks d)"
      "complete_ok sha256 (db_objects d) (db_chunks d)" "receipts_ok sha256 (db_objects d) (db_receipts d)"
      "operations_ok member (db_next d) (db_objects d) (db_operations d)"
    using ok by (simp_all add: db_ok_def)
  have get: "\<exists>row. tb_get (db_objects d) j = Some row \<and> bw_origin r = bw_origin row \<and>
      bw_sequence r = bw_sequence row \<and> (\<forall>m. row_of sha256 j r m \<longleftrightarrow> row_of sha256 j row m) \<and>
      (bw_complete r \<longrightarrow> bw_complete row \<or> j = i)"
    if "tb_get t j = Some r" for j r
    using that unfolding t(2) by (cases "j = i") auto
  have "objects_ok sha256 t"
    unfolding objects_ok_def
  proof (intro conjI allI impI)
    fix j r assume "tb_get t j = Some r"
    then show "\<exists>m. row_of sha256 j r m" using get parts(1) unfolding objects_ok_def by metis
  next
    fix j k r r' assume "tb_get t j = Some r" "tb_get t k = Some r'" "bw_origin r = bw_origin r'" "bw_sequence r = bw_sequence r'"
    then show "j = k" using get parts(1) unfolding objects_ok_def by metis
  qed
  moreover have "chunks_ok sha256 t (db_chunks d)" "receipts_ok sha256 t (db_receipts d)"
    using parts(2,4) by (simp_all add: chunks_ok_def receipts_ok_def st)
  moreover have "complete_ok sha256 t (db_chunks d)"
    unfolding complete_ok_def
  proof (intro allI impI)
    fix j r m k assume r: "tb_get t j = Some r" "bw_complete r" "row_of sha256 j r m" "k < chunk_count m"
    obtain row where row: "tb_get (db_objects d) j = Some row" "row_of sha256 j row m" "bw_complete row \<or> j = i"
      using get [OF r(1)] r(2,3) by blast
    from row(3) show "tb_get (db_chunks d) (j, k) \<noteq> None"
    proof
      assume "bw_complete row"
      then show ?thesis using parts(3) row(1,2) r(4) unfolding complete_ok_def by blast
    next
      assume "j = i"
      then show ?thesis using assms(2) [OF _ r(4)] row(1,2) by (auto simp: stored_def)
    qed
  qed
  moreover have "operations_ok member (db_next d) t (db_operations d)"
    by (rule operations_ok_objects [OF parts(5)]) (auto simp: t(2))
  moreover have "links_ok (d\<lparr>db_objects := t\<rparr>)" "bounds_ok lim (d\<lparr>db_objects := t\<rparr>)"
    using ok by (simp_all add: db_ok_def links_ok_def bounds_ok_def depends_def none t(3,4))
  ultimately have "db_ok sha256 member lim (set_complete i d)"
    using ok by (simp add: db_ok_def t(1))
  then show ?thesis using t(1) st none by blast
qed

section \<open>Operations and logical messages\<close>

text \<open>What all calls but \<open>reserve\<close> leave of the operations: they add none.\<close>

definition same_operations :: "db \<Rightarrow> db \<Rightarrow> bool" where
  "same_operations d d' \<longleftrightarrow> db_next d' = db_next d \<and>
     (\<forall>i r'. tb_get (db_operations d') i = Some r' \<longrightarrow> (\<exists>r. tb_get (db_operations d) i = Some r \<and>
        ow_sequence r' = ow_sequence r \<and> ow_hash r' = ow_hash r))"

lemma same_operations_refl [simp]: "db_next d' = db_next d \<Longrightarrow> db_operations d' = db_operations d \<Longrightarrow> same_operations d d'"
  by (simp add: same_operations_def)

lemma same_operations_trans: "same_operations d e \<Longrightarrow> same_operations e f \<Longrightarrow> same_operations d f"
  unfolding same_operations_def by (metis (no_types, lifting))

lemma operations_ok_subset:
  assumes "operations_ok member n t ops" and "\<And>i r. tb_get ops' i = Some r \<Longrightarrow> tb_get ops i = Some r"
  shows "operations_ok member n t ops'"
  using assms(1) unfolding operations_ok_def by (meson assms(2))

lemma reserve_keeps:
  assumes ok: "store_ok sha256 s" and r: "reserve i h s = (Inr r, s')"
  shows "store_ok sha256 s' \<and> st_member s' = st_member s \<and> st_limits s' = st_limits s \<and>
    (\<exists>row. tb_get (db_operations (st_db s')) i = Some row \<and> ow_hash row = h \<and> ow_sequence row = rn_sequence r \<and>
       ow_object row = rn_object r \<and>
       (tb_get (db_operations (st_db s)) i = Some row \<and> s' = s \<or>
        tb_get (db_operations (st_db s)) i = None \<and> rn_object r = None \<and> rn_sequence r = db_next (st_db s) \<and>
        db_next (st_db s') = db_next (st_db s) + 1 \<and>
        db_operations (st_db s') = tb_put i row (db_operations (st_db s))))"
proof (cases "tb_get (db_operations (st_db s)) i")
  case (Some row)
  then show ?thesis
    using r ok by (auto simp: reserve_def transact_Inr split: if_splits)
next
  case None
  let ?d = "st_db s" and ?n = "db_next (st_db s)"
  let ?row = "\<lparr>ow_hash = h, ow_sequence = ?n, ow_object = None\<rparr>"
  let ?t = "tb_put i ?row (db_operations ?d)"
  have c: "tb_count (db_operations ?d) < lm_operations (st_limits s)" "?n < MAX_LOGICAL_TIME"
      "r = \<lparr>rn_sequence = ?n, rn_object = None\<rparr>" "s' = s\<lparr>st_db := ?d\<lparr>db_next := ?n + 1, db_operations := ?t\<rparr>\<rparr>"
    using r None by (auto simp: reserve_def transact_Inr Let_def res_simps not_le split: if_splits)
  have up: "?n < ?n + 1" "?n + 1 \<le> MAX_LOGICAL_TIME" "0 < ?n + 1"
    using c(2) by (auto simp: MAX_LOGICAL_TIME_def word_less_nat_alt word_le_nat_alt unat_word_ariths)
  have ops: "operations_ok (st_member s) ?n (db_objects ?d) (db_operations ?d)"
    using ok by (simp add: store_ok_def db_ok_def)
  have below: "ow_sequence q < ?n" if "tb_get (db_operations ?d) j = Some q" for j q
    using ops that unfolding operations_ok_def by blast
  have "operations_ok (st_member s) (?n + 1) (db_objects ?d) ?t"
    using ops up None below unfolding operations_ok_def
    by (auto split: if_splits dest: below intro: order.strict_trans [OF _ up(1)])
  then have "db_ok sha256 (st_member s) (st_limits s) (?d\<lparr>db_next := ?n + 1, db_operations := ?t\<rparr>)"
    using ok c(1) None by (simp add: store_ok_def db_ok_def links_ok_def bounds_ok_def tb_count_put)
  then show ?thesis using c None by simp
qed

lemma bind_operation_keeps:
  assumes ok: "db_ok sha256 member lim d" and op: "tb_get (db_operations d) i = Some row" "ow_object row = None"
    and ob: "tb_get (db_objects d) ob = Some b" "bw_origin b = member" "bw_sequence b = ow_sequence row"
  shows "db_ok sha256 member lim (d\<lparr>db_operations := tb_put i (row\<lparr>ow_object := Some ob\<rparr>) (db_operations d)\<rparr>) \<and>
    same_operations d (d\<lparr>db_operations := tb_put i (row\<lparr>ow_object := Some ob\<rparr>) (db_operations d)\<rparr>)"
proof -
  let ?ops = "tb_put i (row\<lparr>ow_object := Some ob\<rparr>) (db_operations d)"
  have parts: "operations_ok member (db_next d) (db_objects d) (db_operations d)" using ok by (simp add: db_ok_def)
  have get: "\<exists>r. tb_get (db_operations d) j = Some r \<and> ow_sequence r' = ow_sequence r \<and> ow_hash r' = ow_hash r \<and>
      (j = i \<and> ow_object r' = Some ob \<and> r = row \<or> r' = r)" if "tb_get ?ops j = Some r'" for j r'
    using that op by (auto split: if_splits)
  have "operations_ok member (db_next d) (db_objects d) ?ops"
    unfolding operations_ok_def
  proof (intro conjI allI impI)
    show "0 < db_next d" "db_next d \<le> MAX_LOGICAL_TIME" using parts by (simp_all add: operations_ok_def)
    show "0 < ow_sequence r" "ow_sequence r < db_next d" if "tb_get ?ops j = Some r" for j r
      using get [OF that] parts unfolding operations_ok_def by auto
    show "j = k" if "tb_get ?ops j = Some r" "tb_get ?ops k = Some r'" "ow_sequence r = ow_sequence r'" for j k r r'
      using get [OF that(1)] get [OF that(2)] that(3) parts unfolding operations_ok_def by metis
    show "\<exists>b. tb_get (db_objects d) q = Some b \<and> bw_origin b = member \<and> bw_sequence b = ow_sequence r"
      if r: "tb_get ?ops j = Some r" "ow_object r = Some q" for j r q
    proof -
      from get [OF r(1)] obtain r0 where r0: "tb_get (db_operations d) j = Some r0" "ow_sequence r = ow_sequence r0"
          "j = i \<and> ow_object r = Some ob \<and> r0 = row \<or> r = r0" by blast
      from r0(3) show ?thesis
      proof
        assume "j = i \<and> ow_object r = Some ob \<and> r0 = row"
        then show ?thesis using ob r(2) r0(2) by auto
      next
        assume "r = r0"
        then show ?thesis using parts r0(1) r(2) unfolding operations_ok_def by blast
      qed
    qed
  qed
  moreover have "same_operations d (d\<lparr>db_operations := ?ops\<rparr>)"
    using op by (auto simp: same_operations_def)
  ultimately show ?thesis
    using ok op by (simp add: db_ok_def links_ok_def bounds_ok_def tb_count_put)
qed

lemma bound_objects_put:
  "tb_get b ob = None \<Longrightarrow> tb_count (bound_objects (tb_put ob (l, n) b) j) = (if j = l then 1 else 0) + tb_count (bound_objects b j) \<and>
     tb_sum (\<lambda>_. snd) (bound_objects (tb_put ob (l, n) b) j) = (if j = l then n else 0) + tb_sum (\<lambda>_. snd) (bound_objects b j)"
proof -
  assume n: "tb_get b ob = None"
  show ?thesis
  proof (cases "j = l")
    case True
    have "tb_get (bound_objects (tb_put ob (l, n) b) j) = tb_get (tb_put ob (l, n) (bound_objects b j))"
      using True by (auto simp: bound_objects_def fun_eq_iff tb.get_retain split: option.splits)
    then have "tb_count (bound_objects (tb_put ob (l, n) b) j) = tb_count (tb_put ob (l, n) (bound_objects b j))"
      "tb_sum (\<lambda>_. snd) (bound_objects (tb_put ob (l, n) b) j) = tb_sum (\<lambda>_. snd) (tb_put ob (l, n) (bound_objects b j))"
      by (simp_all only: tb_count_card tb_sum_eq)
    moreover have "tb_get (bound_objects b j) ob = None" using n by (simp add: bound_objects_def tb_get_retain)
    ultimately show ?thesis using True by (simp add: tb_count_put tb_sum_put)
  next
    case False
    have "tb_get (bound_objects (tb_put ob (l, n) b) j) = tb_get (bound_objects b j)"
      using False n by (auto simp: bound_objects_def fun_eq_iff tb.get_retain split: option.splits)
    then show ?thesis using False by (simp add: tb_count_card tb_sum_eq)
  qed
qed

lemma link_logical_keeps:
  assumes ok: "db_ok sha256 member lim d" and l: "link_logical_object l ob n d = Inr d'"
  shows "db_ok sha256 member lim d' \<and> (\<exists>t. d' = d\<lparr>db_logical_objects := t\<rparr>) \<and>
    tb_get (db_logical_objects d') ob = Some (l, n)"
proof -
  obtain row where row: "tb_get (db_logical d) l = Some row" "0 < n" "n \<le> 10"
    using l by (auto simp: link_logical_object_def split: if_splits option.splits)
  show ?thesis
  proof (cases "tb_get (db_logical_objects d) ob")
    case (Some x)
    then have "d' = d \<and> x = (l, n)"
      using l row by (auto simp: link_logical_object_def split: if_splits prod.splits)
    then show ?thesis using ok Some by (auto intro: exI [of _ "db_logical_objects d"])
  next
    case None
    let ?b = "db_logical_objects d"
    have c: "tb_get (db_objects d) ob \<noteq> None" "d' = d\<lparr>db_logical_objects := tb_put ob (l, n) ?b\<rparr>"
        "tb_count (bound_objects ?b l) < gw_audiences row" "tb_sum (\<lambda>_. snd) (bound_objects ?b l) + n \<le> gw_targets row"
      using l row None
      by (auto simp: link_logical_object_def Let_def res_simps bound_objects_def not_le split: if_splits)
    have "logical_ok (db_logical d) (tb_put ob (l, n) ?b)"
      using ok row(1) c(3,4) bound_objects_put [OF None] by (auto simp: db_ok_def logical_ok_def)
    then have "db_ok sha256 member lim d'"
      using ok c(1) by (simp add: db_ok_def c(2) links_ok_def bounds_ok_def)
    then show ?thesis using c(2) by auto
  qed
qed

section \<open>Deletion\<close>

lemma stored_remove [simp]: "stored sha256 (tb_remove i t) j m \<longleftrightarrow> j \<noteq> i \<and> stored sha256 t j m"
  by (auto simp: stored_def)

lemma depends_retain_keys [simp]:
  "depends child parent \<Longrightarrow> depends (tb_retain (\<lambda>(j, _) _. Q j) child) (tb_retain (\<lambda>(j, _) _. Q j) parent)"
  unfolding depends_def by (force simp: tb_get_retain not_None_eq)

lemma logical_ok_mono:
  assumes "logical_ok t b" and "\<And>ob x. tb_get b' ob = Some x \<Longrightarrow> tb_get b ob = Some x"
    and "\<And>l row. tb_get t' l = Some row \<Longrightarrow> tb_get t l = Some row"
    and "\<And>ob l n. tb_get b' ob = Some (l, n) \<Longrightarrow> tb_get t' l \<noteq> None"
  shows "logical_ok t' b'"
proof -
  have sub: "tb_get (bound_objects b' l) ob = Some x \<Longrightarrow> tb_get (bound_objects b l) ob = Some x" for l ob x
    using assms(2) by (auto simp: bound_objects_def tb_get_retain)
  have "tb_count (bound_objects b' l) \<le> tb_count (bound_objects b l)"
    "tb_sum (\<lambda>_. snd) (bound_objects b' l) \<le> tb_sum (\<lambda>_. snd) (bound_objects b l)" for l
    using tb_count_mono [OF sub] tb_sum_mono [OF sub] by blast+
  then show ?thesis
    using assms(1,3,4) unfolding logical_ok_def by (meson order_trans)
qed

lemma delete_object_keeps:
  assumes ok: "db_ok sha256 member lim d"
  shows "db_ok sha256 member lim (delete_object i d) \<and> same_operations d (delete_object i d)"
proof -
  let ?d = "delete_object i d"
  have objects: "db_objects ?d = tb_remove i (db_objects d)" and chunks: "db_chunks ?d = tb_retain (\<lambda>(j, _) _. j \<noteq> i) (db_chunks d)"
    and receipts: "db_receipts ?d = tb_retain (\<lambda>(j, _) _. j \<noteq> i) (db_receipts d)"
    and ops: "db_operations ?d = tb_retain (\<lambda>_ row. ow_object row \<noteq> Some i) (db_operations d)"
    and logical: "db_logical ?d = db_logical d" "db_logical_objects ?d = tb_remove i (db_logical_objects d)"
    and same: "db_next ?d = db_next d" "db_relay_receipts ?d = db_relay_receipts d" "db_relay_acks ?d = db_relay_acks d"
    by (simp_all add: delete_object_def Let_def)
  have get: "tb_get (db_objects ?d) j = Some r \<longleftrightarrow> j \<noteq> i \<and> tb_get (db_objects d) j = Some r" for j r
    by (simp add: objects)
  have parts: "objects_ok sha256 (db_objects d)" "chunks_ok sha256 (db_objects d) (db_chunks d)"
      "complete_ok sha256 (db_objects d) (db_chunks d)" "receipts_ok sha256 (db_objects d) (db_receipts d)"
      "operations_ok member (db_next d) (db_objects d) (db_operations d)"
      "logical_ok (db_logical d) (db_logical_objects d)" "links_ok d" "bounds_ok lim d"
    using ok by (simp_all add: db_ok_def)
  have "objects_ok sha256 (db_objects ?d)"
    using parts(1) unfolding objects_ok_def by (simp add: get)
  moreover have "chunks_ok sha256 (db_objects ?d) (db_chunks ?d)"
    using parts(2) by (auto simp: chunks_ok_def objects chunks tb_get_retain)
  moreover have "complete_ok sha256 (db_objects ?d) (db_chunks ?d)"
    using parts(3) unfolding complete_ok_def by (simp add: get chunks tb_get_retain)
  moreover have "receipts_ok sha256 (db_objects ?d) (db_receipts ?d)"
    using parts(4) by (auto simp: receipts_ok_def objects receipts tb_get_retain)
  moreover have "operations_ok member (db_next ?d) (db_objects ?d) (db_operations ?d)"
    using parts(5) unfolding operations_ok_def by (auto simp: get same ops tb_get_retain)
  moreover have "logical_ok (db_logical ?d) (db_logical_objects ?d)"
    by (rule logical_ok_mono [OF parts(6)])
      (use parts(6) in \<open>auto simp: logical logical_ok_def split: if_splits\<close>)
  moreover have "links_ok ?d" using parts(7) by (simp add: links_ok_def delete_object_def Let_def)
  moreover have "bounds_ok lim ?d"
  proof -
    have "tb_count (db_operations ?d) \<le> tb_count (db_operations d)" by (simp add: ops tb_count_retain)
    moreover have "tb_count (db_objects ?d) \<le> tb_count (db_objects d)" by (simp add: objects tb_count_remove)
    moreover have "tb_sum (\<lambda>_. bw_reserved) (db_objects ?d) \<le> tb_sum (\<lambda>_. bw_reserved) (db_objects d)"
      by (rule tb_sum_mono) (simp add: get)
    ultimately show ?thesis using parts(8) by (simp add: bounds_ok_def same)
  qed
  moreover have "same_operations d ?d" by (auto simp: same_operations_def same ops tb_get_retain)
  ultimately show ?thesis by (simp add: db_ok_def)
qed

lemma delete_objects_keeps:
  "db_ok sha256 member lim d \<Longrightarrow>
     db_ok sha256 member lim (fold delete_object ids d) \<and> same_operations d (fold delete_object ids d)"
proof (induction ids arbitrary: d)
  case (Cons i ids)
  from delete_object_keeps [OF Cons.prems, of i] Cons.IH [of "delete_object i d"] show ?case
    by (auto intro: same_operations_trans)
qed simp

lemma delete_logical_keeps:
  assumes ok: "db_ok sha256 member lim d" and r: "delete_logical P d = Inr d'"
  shows "db_ok sha256 member lim d' \<and> same_operations d d'"
proof -
  let ?kept = "tb_retain (\<lambda>i row. \<not> P i row) (db_logical d)"
  have d': "d' = d\<lparr>db_logical := ?kept\<rparr>"
    and all: "tb_get (db_logical_objects d) ob = Some (l, n) \<Longrightarrow> tb_get ?kept l \<noteq> None" for ob l n
    using r by (auto simp: delete_logical_def Let_def tb_select_None split: if_splits)
  have "logical_ok ?kept (db_logical_objects d)"
    by (rule logical_ok_mono [of "db_logical d" "db_logical_objects d"])
      (use ok all in \<open>auto simp: db_ok_def tb_get_retain(1)\<close>)
  then show ?thesis using ok by (simp add: d' db_ok_def links_ok_def bounds_ok_def)
qed

lemma delete_unbound_keeps:
  assumes "db_ok sha256 member lim d"
  shows "db_ok sha256 member lim (delete_unbound d) \<and> same_operations d (delete_unbound d)"
proof -
  let ?ops = "tb_retain (\<lambda>_ row. ow_object row \<noteq> None) (db_operations d)"
  have "operations_ok member (db_next d) (db_objects d) ?ops"
    by (rule operations_ok_subset [of _ _ _ "db_operations d"]) (use assms in \<open>simp_all add: db_ok_def tb_get_retain\<close>)
  moreover have "tb_count ?ops \<le> tb_count (db_operations d)" by (rule tb_count_retain)
  ultimately show ?thesis
    using assms by (auto simp: delete_unbound_def db_ok_def links_ok_def bounds_ok_def same_operations_def tb_get_retain)
qed

section \<open>Custody\<close>

lemma put_custody_Inr:
  assumes "put_custody limit i bs f m now t = Inr t'" and "tb_count t \<le> limit"
  shows "tb_count t' \<le> limit"
proof -
  let ?t = "tb_retain (\<lambda>_ row. \<not> rf_expires_at (cw_frame row) \<le> now) t"
  have "tb_count ?t \<le> limit" using tb_count_retain assms(2) by (rule order_trans)
  then show ?thesis
    using assms(1) by (auto simp: put_custody_def Let_def insert_row_def tb_count_put split: if_splits)
qed

end
