(* ===== verification/Mesh_Store_Policy.thy ===== *)
theory Mesh_Store_Policy
  imports Mesh_Store Mesh_Policy
begin

text \<open>
  The active policy of the store, \<open>crates/mesh-store/src/lib.rs\<close>: the certificates a roster is
  verified from, the authority and group pinned by the first of them, and rotation by a handoff.
\<close>

section \<open>Installing and reading\<close>

record policy_snapshot =
  ps_authority :: arr32
  ps_scope :: scope
  ps_digest :: arr32

primrec insert_certificates :: "nat \<Rightarrow> bytes list \<Rightarrow> (nat, bytes) table \<Rightarrow> durable_error + (nat, bytes) table" where
  "insert_certificates k [] t = Inr t"
| "insert_certificates k (c # cs) t =
     bindr (insert_row (k < 50 \<and> 0 < length c \<and> length c \<le> 1024) k c t) (\<lambda>t.
       insert_certificates (k + 1) cs t)"

primrec insert_revocations :: "u64 list \<Rightarrow> (u64, unit) table \<Rightarrow> durable_error + (u64, unit) table" where
  "insert_revocations [] t = Inr t"
| "insert_revocations (n # ns) t =
     bindr (insert_row (i64_positive n) n () t) (\<lambda>t. insert_revocations ns t)"

definition install_policy_with_transition ::
    "suite \<Rightarrow> arr32 \<Rightarrow> scope \<Rightarrow> bytes list \<Rightarrow> u64 list \<Rightarrow> u64 \<Rightarrow> policy_snapshot option \<Rightarrow> store
     \<Rightarrow> (durable_error + policy_snapshot) \<times> store" where
  "install_policy_with_transition p authority scope certificates revoked now transition s =
     bind_st (roster_verify p authority scope certificates revoked now, s) (\<lambda>roster s.
     if \<not> contains_member roster (st_member s) then (Inl AuthenticationFailed, s)
     else
     let snapshot = \<lparr>ps_authority = authority, ps_scope = scope, ps_digest = vr_digest roster\<rparr> in
     transact (\<lambda>d.
       let insert = (\<lambda>d.
         bindr (insert_certificates 0 certificates (db_certificates d)) (\<lambda>certs.
         bindr (insert_revocations revoked (db_revocations d)) (\<lambda>revs.
           Inr (snapshot, d\<lparr>db_policy := Some \<lparr>pw_authority = authority, pw_group = sc_group scope,
               pw_epoch = sc_epoch scope, pw_digest = vr_digest roster\<rparr>,
             db_certificates := certs, db_revocations := revs\<rparr>))))
       in case db_policy d of
         None \<Rightarrow> insert d
       | Some old \<Rightarrow>
           let rotation_allowed = (case transition of
                 None \<Rightarrow> False
               | Some prior \<Rightarrow>
                   ps_authority prior = pw_authority old
                   \<and> sc_group (ps_scope prior) = pw_group old
                   \<and> sc_epoch (ps_scope prior) = pw_epoch old
                   \<and> ps_digest prior = pw_digest old
                   \<and> authority \<noteq> pw_authority old
                   \<and> sc_group scope = pw_group old
                   \<and> sc_epoch scope = saturating_add (pw_epoch old) 1)
           in if (pw_authority old \<noteq> authority \<and> \<not> rotation_allowed)
                 \<or> pw_group old \<noteq> sc_group scope
                 \<or> sc_epoch scope < pw_epoch old
                 \<or> (sc_epoch scope = pw_epoch old \<and> pw_digest old \<noteq> ps_digest snapshot)
              then Inl Conflict
              else if sc_epoch scope = pw_epoch old then Inr (snapshot, d)
              else insert (d\<lparr>db_certificates := tb_empty, db_revocations := tb_empty, db_policy := None\<rparr>)) s)"

definition install_policy ::
    "suite \<Rightarrow> arr32 \<Rightarrow> scope \<Rightarrow> bytes list \<Rightarrow> u64 list \<Rightarrow> u64 \<Rightarrow> store \<Rightarrow> (durable_error + policy_snapshot) \<times> store" where
  "install_policy p authority scope certificates revoked now s =
     install_policy_with_transition p authority scope certificates revoked now None s"

definition active_policy :: "suite \<Rightarrow> store \<Rightarrow> u64 \<Rightarrow> durable_error + policy_snapshot option" where
  "active_policy p s now =
     (let d = st_db s in
      case db_policy d of
        None \<Rightarrow> Inr None
      | Some row \<Rightarrow>
          let certificates = map snd (tb_rows (db_certificates d));
              revoked = map fst (tb_rows (db_revocations d));
              scope = \<lparr>sc_group = pw_group row, sc_epoch = pw_epoch row\<rparr>
          in bindr (roster_verify p (pw_authority row) scope certificates revoked now) (\<lambda>roster.
             if vr_digest roster \<noteq> pw_digest row then Inl Corrupt
             else Inr (Some \<lparr>ps_authority = pw_authority row, ps_scope = scope, ps_digest = pw_digest row\<rparr>)))"

definition st_policy_bundle :: "store \<Rightarrow> durable_error + policy_bundle option" where
  "st_policy_bundle s =
     (let d = st_db s in
      case db_policy d of
        None \<Rightarrow> Inr None
      | Some row \<Rightarrow>
          Inr (Some \<lparr>pb_authority = pw_authority row, pb_scope = \<lparr>sc_group = pw_group row, sc_epoch = pw_epoch row\<rparr>,
            pb_certificates = map snd (tb_rows (db_certificates d)),
            pb_revoked = map fst (tb_rows (db_revocations d))\<rparr>))"

definition install_rotated_policy ::
    "suite \<Rightarrow> arr32 \<Rightarrow> scope \<Rightarrow> bytes list \<Rightarrow> u64 list \<Rightarrow> authority_handoff \<Rightarrow> u64 \<Rightarrow> store
     \<Rightarrow> (durable_error + policy_snapshot) \<times> store" where
  "install_rotated_policy p authority scope certificates revoked handoff now s =
     bind_st (active_policy p s now, s) (\<lambda>current s.
     bind_st (ok_or AuthenticationFailed current, s) (\<lambda>current s.
     bind_st (handoff_verify_for p handoff (ps_authority current) (ps_scope current) (ps_digest current) now, s) (\<lambda>_ s.
     if authority \<noteq> ah_next_authority handoff
        \<or> sc_group scope \<noteq> sc_group (ps_scope current)
        \<or> sc_epoch scope \<noteq> ah_next_epoch handoff
     then (Inl AuthenticationFailed, s)
     else install_policy_with_transition p authority scope certificates revoked now (Some current) s)))"

end
