(* ===== verification/Mesh_Store_Proofs.thy ===== *)
theory Mesh_Store_Proofs
  imports Mesh_Store_Retention Mesh_Receipt
begin

text \<open>
  \<open>crates/mesh-store/src/authenticated.rs\<close>: the operations of the store that take or give the
  proofs of \<open>mesh-protocol\<close>, from a sealed message to the acknowledgement of its receipts.
\<close>

section \<open>Sealed messages and announcements\<close>

definition commit_sealed ::
    "suite \<Rightarrow> operation_id \<Rightarrow> arr32 \<Rightarrow> sealed_message \<Rightarrow> verified_roster \<Rightarrow> u64 \<Rightarrow> store
     \<Rightarrow> (durable_error + object_id) \<times> store" where
  "commit_sealed p i command_hash message roster now s =
     bind_st (aa_validate_roster (sm_announcement message) roster now, s) (\<lambda>_ s.
       commit_outgoing_inner (hash p) i command_hash (sm_object message) now (Some (sm_announcement message)) None s)"

definition commit_sealed_logical ::
    "suite \<Rightarrow> operation_id \<Rightarrow> arr32 \<Rightarrow> sealed_message \<Rightarrow> verified_roster \<Rightarrow> logical_id \<Rightarrow> u64 \<Rightarrow> store
     \<Rightarrow> (durable_error + object_id) \<times> store" where
  "commit_sealed_logical p i command_hash message roster logical now s =
     bind_st (aa_validate_roster (sm_announcement message) roster now, s) (\<lambda>_ s.
       commit_outgoing_inner (hash p) i command_hash (sm_object message) now (Some (sm_announcement message))
         (Some logical) s)"

definition announce_authenticated ::
    "suite \<Rightarrow> authenticated_announcement \<Rightarrow> verified_roster \<Rightarrow> u64 \<Rightarrow> store \<Rightarrow> (durable_error + object_id) \<times> store" where
  "announce_authenticated p a roster now s =
     bind_st (aa_validate_roster a roster now, s) (\<lambda>_ s.
     bind_st (live (aa_manifest a) now, s) (\<lambda>_ s.
     transact (\<lambda>d.
       let i = manifest_id (hash p) (aa_manifest a) in
       bindr (check_mode d i (Some (aa_encoded a))) (\<lambda>_.
       bindr (insert_manifest (hash p) (st_limits s) (aa_manifest a) d) (\<lambda>d.
       bindr (insert_announcement i (aa_encoded a) d) (\<lambda>d.
         Inr (i, d))))) s))"

definition authenticated_announcement_of ::
    "suite \<Rightarrow> store \<Rightarrow> object_id \<Rightarrow> verified_roster \<Rightarrow> u64 \<Rightarrow> durable_error + authenticated_announcement" where
  "authenticated_announcement_of p s i roster now =
     bindr (stored_announcement (st_db s) i) (\<lambda>encoded.
     bindr (authenticate_announcement p encoded roster now) (\<lambda>a.
     bindr (st_manifest (hash p) s i) (\<lambda>m.
       if aa_manifest a \<noteq> m then Inl Corrupt else Inr a)))"

section \<open>Staged chunks and received objects\<close>

record chunk_stored =
  ck_object :: object_id
  ck_index :: nat
  ck_all_present :: bool

definition stage_authenticated_chunk ::
    "suite \<Rightarrow> object_id \<Rightarrow> nat \<Rightarrow> bytes \<Rightarrow> u64 \<Rightarrow> store \<Rightarrow> (durable_error + chunk_stored) \<times> store" where
  "stage_authenticated_chunk p i index bytes now s = transact (\<lambda>d.
     bindr (stored_announcement d i) (\<lambda>_.
     bindr (manifest_from (hash p) d i) (\<lambda>m.
     bindr (live m now) (\<lambda>_.
     bindr (verify_chunk (hash p) m index bytes) (\<lambda>_.
     bindr (insert_chunk i index bytes d) (\<lambda>d.
       Inr (\<lparr>ck_object = i, ck_index = index, ck_all_present = (object_chunks d i = chunk_count m)\<rparr>, d))))))) s"

primrec read_object :: "suite \<Rightarrow> store \<Rightarrow> object_id \<Rightarrow> nat list \<Rightarrow> durable_error + bytes" where
  "read_object p s i [] = Inr []"
| "read_object p s i (k # ks) =
     bindr (st_chunk (hash p) s i k) (\<lambda>b.
     bindr (read_object p s i ks) (\<lambda>rest. Inr (b @ rest)))"

definition object_bytes :: "suite \<Rightarrow> store \<Rightarrow> object_id \<Rightarrow> durable_error + bytes" where
  "object_bytes p s i =
     bindr (st_manifest (hash p) s i) (\<lambda>m.
     bindr (read_object p s i [0..<chunk_count m]) (\<lambda>bytes.
       if length bytes \<noteq> mf_content_len m then Inl Corrupt else Inr bytes))"

definition verify_received ::
    "suite \<Rightarrow> ('r, 'k, 's, 'o) kem \<Rightarrow> store \<Rightarrow> object_id \<Rightarrow> verified_roster \<Rightarrow> 'k \<Rightarrow> u64
     \<Rightarrow> durable_error + verified_delivery" where
  "verify_received p k s i roster secret now =
     bindr (authenticated_announcement_of p s i roster now) (\<lambda>a.
     bindr (object_bytes p s i) (\<lambda>bytes.
       verify_delivery p k a bytes roster (st_member s) secret now))"

record receipt_commit =
  rm_local :: local_commit
  rm_receipt :: bytes

definition receipt_from :: "db \<Rightarrow> object_id \<Rightarrow> member_id \<Rightarrow> receipt_commit option" where
  "receipt_from d i member =
     (case (tb_get (db_local d) i, tb_get (db_deliveries d) i) of
        (Some committed_at, Some receipt) \<Rightarrow>
          Some \<lparr>rm_local = \<lparr>lc_object = i, lc_member = member, lc_at = committed_at\<rparr>, rm_receipt = receipt\<rparr>
      | _ \<Rightarrow> None)"

text \<open>The loop that verifies every stored chunk again.\<close>

primrec chunks_present :: "suite \<Rightarrow> db \<Rightarrow> object_id \<Rightarrow> manifest \<Rightarrow> nat list \<Rightarrow> durable_error + unit" where
  "chunks_present p d i m [] = Inr ()"
| "chunks_present p d i m (k # ks) =
     bindr (ok_or NotFound (tb_get (db_chunks d) (i, k))) (\<lambda>bytes.
     bindr (verify_chunk (hash p) m k bytes) (\<lambda>_.
       chunks_present p d i m ks))"

definition finalize_received ::
    "suite \<Rightarrow> verified_delivery \<Rightarrow> verified_roster \<Rightarrow> identity_signing_key \<Rightarrow> u64 \<Rightarrow> store
     \<Rightarrow> (durable_error + receipt_commit) \<times> store" where
  "finalize_received p proof_of roster signer now s =
     (let i = vd_object_id (hash p) proof_of in
      if vd_member proof_of \<noteq> st_member s then (Inl AuthenticationFailed, s)
      else
      bind_st (aa_validate_roster (vd_announcement proof_of) roster now, s) (\<lambda>_ s.
      transact (\<lambda>d.
        bindr (stored_announcement d i) (\<lambda>encoded.
        if encoded \<noteq> aa_encoded (vd_announcement proof_of) then Inl AuthenticationFailed
        else case receipt_from d i (st_member s) of
          Some existing \<Rightarrow> Inr (existing, d)
        | None \<Rightarrow>
            bindr (vd_validate_commit proof_of roster now) (\<lambda>_.
            bindr (manifest_from (hash p) d i) (\<lambda>m.
            bindr (chunks_present p d i m [0..<chunk_count m]) (\<lambda>_.
            bindr (receipt_for_commit p proof_of signer now) (\<lambda>receipt.
            bindr (references i (db_objects d)) (\<lambda>_.
            bindr (insert_row (now < 2 ^ 63) i now (db_local d)) (\<lambda>t.
            let d = d\<lparr>db_local := t\<rparr> in
            bindr (references i (db_local d)) (\<lambda>_.
            bindr (insert_row (0 < length receipt \<and> length receipt \<le> 1024) i receipt (db_deliveries d)) (\<lambda>t.
            let d = set_complete i (d\<lparr>db_deliveries := t\<rparr>) in
              Inr (\<lparr>rm_local = \<lparr>lc_object = i, lc_member = st_member s, lc_at = now\<rparr>, rm_receipt = receipt\<rparr>, d)))))))))))
        s))"

definition local_receipt :: "store \<Rightarrow> object_id \<Rightarrow> durable_error + receipt_commit option" where
  "local_receipt s i = Inr (receipt_from (st_db s) i (st_member s))"

text \<open>The loop of \<open>local_receipt_outbox\<close>: the live objects of other members.\<close>

primrec foreign_live :: "suite \<Rightarrow> store \<Rightarrow> u64 \<Rightarrow> object_id list \<Rightarrow> durable_error + object_id list" where
  "foreign_live p s now [] = Inr []"
| "foreign_live p s now (i # ids) =
     bindr (st_manifest (hash p) s i) (\<lambda>m.
     bindr (foreign_live p s now ids) (\<lambda>rest.
       Inr (if mf_origin m \<noteq> st_member s \<and> mf_expires_at m > now then i # rest else rest)))"

definition local_receipt_outbox :: "suite \<Rightarrow> store \<Rightarrow> u64 \<Rightarrow> durable_error + object_id list" where
  "local_receipt_outbox p s now =
     bindr (store_clock now) (\<lambda>_.
       let d = st_db s in
       foreign_live p s now
         (filter (\<lambda>i. tb_get (db_deliveries d) i \<noteq> None \<and> tb_get (db_acknowledged d) i = None)
           (map fst (tb_rows (db_local d)))))"

primrec first_for :: "suite \<Rightarrow> store \<Rightarrow> u64 \<Rightarrow> object_id list \<Rightarrow> durable_error + object_id option" where
  "first_for p s now [] = Inr None"
| "first_for p s now (i # ids) =
     bindr (st_manifest (hash p) s i) (\<lambda>m.
       if mf_origin m \<noteq> st_member s \<and> mf_expires_at m > now \<and> st_member s \<in> set (mf_targets m)
       then Inr (Some i)
       else first_for p s now ids)"

definition next_authenticated_delivery :: "suite \<Rightarrow> store \<Rightarrow> u64 \<Rightarrow> durable_error + object_id option" where
  "next_authenticated_delivery p s now =
     bindr (store_clock now) (\<lambda>_.
       let d = st_db s in
       first_for p s now
         (map fst (filter (\<lambda>(i, row). bw_complete row \<and> tb_get (db_announcements d) i \<noteq> None
             \<and> tb_get (db_local d) i = None) (tb_rows (db_objects d)))))"

section \<open>Receipts at the origin\<close>

definition verify_target_receipt ::
    "suite \<Rightarrow> store \<Rightarrow> object_id \<Rightarrow> bytes \<Rightarrow> verified_roster \<Rightarrow> u64 \<Rightarrow> durable_error + verified_receipt" where
  "verify_target_receipt p s i bytes roster now =
     bindr (authenticated_announcement_of p s i roster now) (\<lambda>a.
     bindr (object_bytes p s i) (\<lambda>object.
       verify_receipt p bytes a object roster now))"

definition target_receipts :: "db \<Rightarrow> object_id \<Rightarrow> (object_id \<times> member_id, bytes) table" where
  "target_receipts d i = tb_retain (\<lambda>(j, _) _. j = i) (db_receipts d)"

definition progress_from :: "suite \<Rightarrow> db \<Rightarrow> manifest \<Rightarrow> u64 \<Rightarrow> durable_error + delivery_progress" where
  "progress_from p d m now =
     (let confirmed = tb_count (target_receipts d (manifest_id (hash p) m));
          required = length (mf_targets m)
      in if confirmed > required then Inl Corrupt
         else
           let state =
             if confirmed = required then Delivered
             else if now \<ge> mf_expires_at m then Expired_state
             else if confirmed > 0 then Relaying
             else Stored
           in Inr \<lparr>dp_state = state, dp_confirmed = confirmed, dp_required = required\<rparr>)"

definition record_target_receipt ::
    "suite \<Rightarrow> verified_receipt \<Rightarrow> verified_roster \<Rightarrow> u64 \<Rightarrow> store \<Rightarrow> (durable_error + delivery_progress) \<times> store" where
  "record_target_receipt p r roster now s =
     bind_st (receipt_validate_commit r roster now, s) (\<lambda>_ s.
     let i = rv_object r in
     transact (\<lambda>d.
       bindr (manifest_from (hash p) d i) (\<lambda>m.
       if mf_origin m \<noteq> st_member s then Inl AuthenticationFailed
       else
       bindr (stored_announcement d i) (\<lambda>encoded.
       if encoded \<noteq> rv_announcement r \<or> rv_actor r \<notin> set (mf_targets m) then Inl AuthenticationFailed
       else if tb_select (\<lambda>_ row. ow_object row = Some i) (db_operations d) = None then Inl NotFound
       else
       bindr (references i (db_objects d)) (\<lambda>_.
       let d = d\<lparr>db_receipts := insert_or_ignore (0 < length (rv_bytes r) \<and> length (rv_bytes r) \<le> 1024)
           (i, rv_actor r) (rv_bytes r) (db_receipts d)\<rparr> in
       bindr (progress_from p d m now) (\<lambda>progress.
         Inr (progress,
           if dp_state progress = Delivered then d\<lparr>db_outbox := tb_remove i (db_outbox d)\<rparr> else d)))))) s)"

primrec ack_work ::
    "suite \<Rightarrow> store \<Rightarrow> u64 \<Rightarrow> ((object_id \<times> member_id) \<times> bytes) list
     \<Rightarrow> durable_error + (object_id \<times> member_id \<times> bytes) list" where
  "ack_work p s now [] = Inr []"
| "ack_work p s now (x # xs) =
     (case x of ((object, actor), receipt) \<Rightarrow>
        bindr (st_manifest (hash p) s object) (\<lambda>m.
        bindr (ack_work p s now xs) (\<lambda>rest.
          Inr (if mf_expires_at m > now then (object, actor, receipt) # rest else rest))))"

definition target_receipt_ack_outbox ::
    "suite \<Rightarrow> store \<Rightarrow> u64 \<Rightarrow> durable_error + (object_id \<times> member_id \<times> bytes) list" where
  "target_receipt_ack_outbox p s now =
     bindr (store_clock now) (\<lambda>_.
       let d = st_db s in
       ack_work p s now
         (filter (\<lambda>((object, _), _). case tb_get (db_objects d) object of
             None \<Rightarrow> False
           | Some row \<Rightarrow> bw_origin row = st_member s) (tb_rows (db_receipts d))))"

text \<open>The signed acknowledgement of a recorded receipt: the stored one as long as it verifies.\<close>

definition origin_receipt_ack ::
    "suite \<Rightarrow> object_id \<Rightarrow> member_id \<Rightarrow> verified_roster \<Rightarrow> identity_signing_key \<Rightarrow> u64 \<Rightarrow> store
     \<Rightarrow> (durable_error + bytes) \<times> store" where
  "origin_receipt_ack p object actor roster signer now s =
     bind_st (validate_at roster now, s) (\<lambda>_ s.
     bind_st (signing_key roster (st_member s), s) (\<lambda>key s.
     if signing_public_key p signer \<noteq> key then (Inl AuthenticationFailed, s)
     else
     let d = st_db s in
     bind_st (ok_or NotFound (tb_get (db_receipts d) (object, actor)), s) (\<lambda>receipt s.
     let cached = tb_get (db_origin_acks d) (object, actor) in
     if cached \<noteq> None \<and> is_ok (verify_receipt_ack p (the cached) roster now) then (Inr (the cached), s)
     else
     bind_st (verify_target_receipt p s object receipt roster now, s) (\<lambda>_ s.
     bind_st (issue_receipt_ack p receipt object (st_member s) actor (vr_scope roster) signer now, s) (\<lambda>ack s.
       transact (\<lambda>d.
         bindr (references (object, actor) (db_receipts d)) (\<lambda>_.
           Inr (ack, d\<lparr>db_origin_acks := tb_put (object, actor) ack (db_origin_acks d)\<rparr>))) s)))))"

section \<open>Acknowledgements at the target\<close>

definition record_receipt_ack ::
    "suite \<Rightarrow> verified_receipt_ack \<Rightarrow> verified_roster \<Rightarrow> u64 \<Rightarrow> store \<Rightarrow> (durable_error + unit) \<times> store" where
  "record_receipt_ack p v roster now s =
     bind_st (validate_at roster now, s) (\<lambda>_ s.
     let route = va_route v in
     if ra_actor route \<noteq> st_member s then (Inl AuthenticationFailed, s)
     else
     bind_st (ok_or NotFound (receipt_from (st_db s) (ra_object route) (st_member s)), s) (\<lambda>receipt s.
     bind_st (st_manifest (hash p) s (ra_object route), s) (\<lambda>m s.
     if mf_origin m \<noteq> ra_origin route \<or> hash p (rm_receipt receipt) \<noteq> ra_receipt_id route
     then (Inl AuthenticationFailed, s)
     else
       transact (\<lambda>d.
         bindr (references (ra_object route) (db_local d)) (\<lambda>_.
           Inr ((), d\<lparr>db_acknowledged := insert_or_ignore (va_at v < 2 ^ 63) (ra_object route)
             (ra_receipt_id route, va_at v) (db_acknowledged d)\<rparr>))) s)))"

definition authenticated_progress :: "suite \<Rightarrow> store \<Rightarrow> object_id \<Rightarrow> u64 \<Rightarrow> durable_error + delivery_progress" where
  "authenticated_progress p s i now =
     bindr (store_clock now) (\<lambda>_.
     bindr (stored_announcement (st_db s) i) (\<lambda>_.
     bindr (st_manifest (hash p) s i) (\<lambda>m.
       progress_from p (st_db s) m now)))"

end
