(* ===== verification/Mesh_Store_Keeps.thy ===== *)
theory Mesh_Store_Keeps
  imports Mesh_Store_Inv Mesh_Store_Policy Mesh_Store_Proofs
begin

text \<open>
  What a single call of the store keeps: the invariant of \<open>Mesh_Store_Inv\<close>, the member and the
  limits, and that no operation is added but by \<open>reserve\<close>.
\<close>

section \<open>Single calls\<close>

text \<open>What a successful call keeps.\<close>

definition kept :: "(bytes \<Rightarrow> arr32) \<Rightarrow> store \<Rightarrow> store \<Rightarrow> bool" where
  "kept sha256 s s' \<longleftrightarrow> store_ok sha256 s' \<and> st_member s' = st_member s \<and> st_limits s' = st_limits s \<and>
     same_operations (st_db s) (st_db s')"

lemma kept_refl: "store_ok sha256 s \<Longrightarrow> kept sha256 s s"
  by (simp add: kept_def)

lemma kept_update: "kept sha256 s (s\<lparr>st_db := d\<rparr>) \<longleftrightarrow>
    db_ok sha256 (st_member s) (st_limits s) d \<and> same_operations (st_db s) d"
  by (simp add: kept_def)

lemma bindr_InrE:
  assumes "bindr x f = Inr y"
  obtains a where "x = Inr a" "f a = Inr y"
  using assms by (cases x) simp_all

text \<open>The steps of a commit that binds the operation, with the state each of them leaves.\<close>

lemma commit_steps:
  assumes "commit_outgoing_inner sha256 i h object now ann logical s = (Inr ob, s')"
  obtains row where "ob = manifest_id sha256 (po_manifest object)" "tb_get (db_operations (st_db s)) i = Some row"
      "ow_hash row = h" "ow_sequence row = mf_sequence (po_manifest object)" "mf_origin (po_manifest object) = st_member s"
      "ow_object row = Some ob" "s' = s" "check_mode (st_db s) ob (map_option aa_encoded ann) = Inr ()"
  | row d1 d2 d3 d5 d6 where "ob = manifest_id sha256 (po_manifest object)" "tb_get (db_operations (st_db s)) i = Some row"
      "ow_hash row = h" "ow_sequence row = mf_sequence (po_manifest object)" "mf_origin (po_manifest object) = st_member s"
      "ow_object row = None" "now < mf_expires_at (po_manifest object)"
      "check_mode (st_db s) ob (map_option aa_encoded ann) = Inr ()"
      "insert_manifest sha256 (st_limits s) (po_manifest object) (st_db s) = Inr d1"
      "(case ann of Some a \<Rightarrow> insert_announcement ob (aa_encoded a) d1 | None \<Rightarrow> Inr d1) = Inr d2"
      "insert_chunks sha256 (po_manifest object) 0 (po_chunks object) d2 = Inr d3"
      "(case logical of Some l \<Rightarrow> link_logical_object l ob (length (mf_targets (po_manifest object)))
           ((set_complete ob d3)\<lparr>db_outbox := tb_put ob () (db_outbox (set_complete ob d3))\<rparr>)
         | None \<Rightarrow> Inr ((set_complete ob d3)\<lparr>db_outbox := tb_put ob () (db_outbox (set_complete ob d3))\<rparr>)) = Inr d5"
      "s' = s\<lparr>st_db := d6\<lparr>db_operations := tb_put i (row\<lparr>ow_object := Some ob\<rparr>) (db_operations d6)\<rparr>\<rparr>"
      "d6 = d5 \<or> ann = None \<and> d6 = d5\<lparr>db_local := insert_or_ignore True ob now (db_local d5)\<rparr>"
      "tb_get (db_outbox (set_complete ob d3)) ob = None"
      "tb_select (\<lambda>j r. j \<noteq> i \<and> ow_object r = Some ob) (db_operations d6) = None"
proof -
  let ?m = "po_manifest object" and ?ob = "manifest_id sha256 (po_manifest object)"
  obtain row where row: "tb_get (db_operations (st_db s)) i = Some row" "ow_hash row = h"
      "ow_sequence row = mf_sequence ?m" "mf_origin ?m = st_member s"
    using assms by (auto simp: commit_outgoing_inner_def Let_def res_simps transact_Inr split: if_splits)
  show thesis
  proof (cases "ow_object row")
    case (Some previous)
    then show thesis
      using assms row by (intro that(1)) (auto simp: commit_outgoing_inner_def Let_def res_simps transact_Inr split: if_splits)
  next
    case None
    let ?own = "ann = None \<and> st_member s \<in> set (mf_targets ?m)"
    from assms row None obtain e where s': "s' = s\<lparr>st_db := e\<rparr>" and
      body: "commit_fresh sha256 i row object now ann logical s (st_db s) = Inr (ob, e)"
      by (auto simp: commit_outgoing_inner_def Let_def res_simps transact_Inr)
    let ?own_db = "\<lambda>d. if ?own then d\<lparr>db_local := insert_or_ignore True ?ob now (db_local d)\<rparr> else d"
    obtain u v d1 d2 d3 t d5 where d: "live ?m now = Inr u"
      "check_mode (st_db s) ?ob (map_option aa_encoded ann) = Inr v"
      "insert_manifest sha256 (st_limits s) ?m (st_db s) = Inr d1"
      "(case ann of Some a \<Rightarrow> insert_announcement ?ob (aa_encoded a) d1 | None \<Rightarrow> Inr d1) = Inr d2"
      "insert_chunks sha256 ?m 0 (po_chunks object) d2 = Inr d3"
      "insert_row True ?ob () (db_outbox (set_complete ?ob d3)) = Inr t"
      "(case logical of Some l \<Rightarrow> link_logical_object l ?ob (length (mf_targets ?m)) ((set_complete ?ob d3)\<lparr>db_outbox := t\<rparr>)
         | None \<Rightarrow> Inr ((set_complete ?ob d3)\<lparr>db_outbox := t\<rparr>)) = Inr d5"
      "(if tb_select (\<lambda>j r. j \<noteq> i \<and> ow_object r = Some ?ob) (db_operations (?own_db d5)) \<noteq> None
        then Inl StorageUnavailable
        else Inr (?ob, (?own_db d5)\<lparr>db_operations := tb_put i (row\<lparr>ow_object := Some ?ob\<rparr>) (db_operations (?own_db d5))\<rparr>)) = Inr (ob, e)"
      using body unfolding commit_fresh_def Let_def by (elim bindr_InrE) (rule that)
    have t: "t = tb_put ?ob () (db_outbox (set_complete ?ob d3))" and free: "tb_get (db_outbox (set_complete ?ob d3)) ?ob = None"
      using d(6) by (simp_all add: res_simps)
    define d6 where "d6 = ?own_db d5"
    have e: "ob = ?ob" "e = d6\<lparr>db_operations := tb_put i (row\<lparr>ow_object := Some ?ob\<rparr>) (db_operations d6)\<rparr>"
      using d(8) unfolding d6_def [symmetric] by (auto split: if_split_asm)
    have unbound: "tb_select (\<lambda>j r. j \<noteq> i \<and> ow_object r = Some ?ob) (db_operations d6) = None"
      using d(8) unfolding d6_def [symmetric]
      by (cases "tb_select (\<lambda>j r. j \<noteq> i \<and> ow_object r = Some ?ob) (db_operations d6)") simp_all
    have d6: "d6 = d5 \<or> ann = None \<and> d6 = d5\<lparr>db_local := insert_or_ignore True ?ob now (db_local d5)\<rparr>"
      by (simp add: d6_def)
    note f = d(1-5,7) [unfolded t, folded e(1)]
    show thesis
      by (rule that(2) [OF e(1) row None _ _ f(3-6) _ d6 [folded e(1)] free [folded e(1)] unbound [folded e(1)]])
        (use f(1,2) e(2) s' in \<open>simp_all add: live_Inr e(1) [symmetric]\<close>)
  qed
qed

text \<open>Writes of the tables that only depend on others.\<close>

lemma outbox_keeps:
  "db_ok sha256 member lim d \<Longrightarrow> tb_get (db_objects d) ob \<noteq> None \<Longrightarrow>
     db_ok sha256 member lim (d\<lparr>db_outbox := tb_put ob () (db_outbox d)\<rparr>)"
  by (simp add: db_ok_def links_ok_def bounds_ok_def)

lemma local_keeps:
  "db_ok sha256 member lim d \<Longrightarrow> tb_get (db_objects d) ob \<noteq> None \<Longrightarrow>
     db_ok sha256 member lim (d\<lparr>db_local := insert_or_ignore True ob now (db_local d)\<rparr>)"
  by (simp add: db_ok_def links_ok_def bounds_ok_def)

lemma insert_announcement_keeps:
  assumes "db_ok sha256 member lim d" and "insert_announcement ob b d = Inr d'"
  shows "db_ok sha256 member lim d' \<and>
    d' = d\<lparr>db_announcements := insert_or_ignore (0 < length b \<and> length b \<le> 8192) ob b (db_announcements d)\<rparr>"
  using assms by (auto simp: insert_announcement_def res_simps db_ok_def links_ok_def bounds_ok_def)

text \<open>A prepared object as \<open>PreparedObject\<close> builds it: as many chunks as its manifest lists.\<close>

definition prepared_ok :: "prepared_object \<Rightarrow> bool" where
  "prepared_ok object \<longleftrightarrow> manifest_ok (po_manifest object) \<and> length (po_chunks object) = chunk_count (po_manifest object)"

lemma stored_some: "stored sha256 t i m \<Longrightarrow> tb_get t i \<noteq> None"
  by (auto simp: stored_def)

lemma bind_object_keeps:
  assumes ok: "db_ok sha256 member lim d" and op: "tb_get (db_operations d) i = Some row" "ow_object row = None"
    and m: "stored sha256 (db_objects d) ob m" "mf_origin m = member" "mf_sequence m = ow_sequence row"
  shows "db_ok sha256 member lim (d\<lparr>db_operations := tb_put i (row\<lparr>ow_object := Some ob\<rparr>) (db_operations d)\<rparr>) \<and>
    same_operations d (d\<lparr>db_operations := tb_put i (row\<lparr>ow_object := Some ob\<rparr>) (db_operations d)\<rparr>)"
proof -
  obtain b where "tb_get (db_objects d) ob = Some b" "row_of sha256 ob b m"
    using m(1) by (auto simp: stored_def)
  then show ?thesis
    by (intro bind_operation_keeps [OF ok op]) (use m in \<open>auto simp: row_of_def\<close>)
qed

text \<open>What a commit that binds the operation leaves in the store.\<close>

lemma commit_fresh_keeps:
  assumes ok: "store_ok sha256 s" and p: "prepared_ok object"
    and c: "commit_outgoing_inner sha256 i h object now ann logical s = (Inr ob, s')"
    and row: "tb_get (db_operations (st_db s)) i = Some row" "ow_object row = None"
  shows "kept sha256 s s' \<and> stored sha256 (db_objects (st_db s')) ob (po_manifest object) \<and>
    (\<forall>k < chunk_count (po_manifest object). tb_get (db_chunks (st_db s')) (ob, k) = Some (po_chunks object ! k)) \<and>
    tb_get (db_operations (st_db s')) i = Some (row\<lparr>ow_object := Some ob\<rparr>) \<and> tb_get (db_outbox (st_db s')) ob \<noteq> None \<and>
    db_announcements (st_db s') = (case ann of None \<Rightarrow> db_announcements (st_db s)
      | Some a \<Rightarrow> insert_or_ignore (0 < length (aa_encoded a) \<and> length (aa_encoded a) \<le> 8192) ob (aa_encoded a)
          (db_announcements (st_db s))) \<and>
    db_receipts (st_db s') = db_receipts (st_db s) \<and> db_policy (st_db s') = db_policy (st_db s)"
  using c
proof (cases rule: commit_steps)
  case 1
  then show ?thesis using row by simp
next
  case (2 row' d1 d2 d3 d5 d6)
  let ?d = "st_db s" and ?m = "po_manifest object" and ?lim = "st_limits s" and ?me = "st_member s"
  have [simp]: "row' = row" using 2(2) row(1) by simp
  have m: "manifest_ok ?m" "length (po_chunks object) = chunk_count ?m" using p by (simp_all add: prepared_ok_def)
  have d: "db_ok sha256 ?me ?lim ?d" using ok by (simp add: store_ok_def)
  have k1: "db_ok sha256 ?me ?lim d1" "stored sha256 (db_objects d1) ob ?m" "\<exists>t. d1 = ?d\<lparr>db_objects := t\<rparr>"
    using insert_manifest_keeps [OF d m(1) 2(9)] by (simp_all add: 2(1))
  let ?ann = "case ann of None \<Rightarrow> db_announcements d1
    | Some a \<Rightarrow> insert_or_ignore (0 < length (aa_encoded a) \<and> length (aa_encoded a) \<le> 8192) ob (aa_encoded a) (db_announcements d1)"
  have k2: "db_ok sha256 ?me ?lim d2" "d2 = d1\<lparr>db_announcements := ?ann\<rparr>"
    using 2(10) k1(1) insert_announcement_keeps [OF k1(1)] by (cases ann; force)+
  have "stored sha256 (db_objects d2) (manifest_id sha256 ?m) ?m" using k1(2) by (simp add: k2(2) 2(1))
  from insert_chunks_keeps [OF k2(1) this 2(11)] obtain c where k3: "db_ok sha256 ?me ?lim d3" "d3 = d2\<lparr>db_chunks := c\<rparr>"
      "\<forall>j < chunk_count ?m. tb_get c (ob, j) = Some (po_chunks object ! j)"
    by (auto simp: m(2) 2(1))
  have s3: "stored sha256 (db_objects d3) ob ?m" using k1(2) by (simp add: k3(2) k2(2))
  have all: "tb_get (db_chunks d3) (ob, k) \<noteq> None" if "stored sha256 (db_objects d3) ob n" "k < chunk_count n" for n k
    using stored_unique [OF s3 that(1)] that(2) k3(3) by (simp add: k3(2))
  have "db_ok sha256 ?me ?lim (set_complete ob d3) \<and> (\<exists>t. set_complete ob d3 = d3\<lparr>db_objects := t\<rparr> \<and>
      (\<forall>j m. stored sha256 t j m = stored sha256 (db_objects d3) j m) \<and> (\<forall>j. tb_get t j = None \<longleftrightarrow> tb_get (db_objects d3) j = None))"
    by (rule set_complete_keeps [OF k3(1)]) (rule all)
  then obtain t where t: "set_complete ob d3 = d3\<lparr>db_objects := t\<rparr>" "db_ok sha256 ?me ?lim (set_complete ob d3)"
      "stored sha256 t ob ?m"
    using s3 by blast
  define d4 where "d4 = set_complete ob d3"
  have k4: "db_ok sha256 ?me ?lim d4" "d4 = d3\<lparr>db_objects := t\<rparr>" "stored sha256 t ob ?m"
    using t by (simp_all only: d4_def)
  note c5 = 2(12) [folded d4_def]
  let ?d4 = "d4\<lparr>db_outbox := tb_put ob () (db_outbox d4)\<rparr>"
  have k5: "db_ok sha256 ?me ?lim ?d4"
    by (rule outbox_keeps [OF k4(1)]) (use stored_some [OF k4(3)] k4(2) in simp)
  have k6: "db_ok sha256 ?me ?lim d5" "\<exists>l. d5 = ?d4\<lparr>db_logical_objects := l\<rparr>"
  proof -
    have "db_ok sha256 ?me ?lim d5 \<and> (\<exists>l. d5 = ?d4\<lparr>db_logical_objects := l\<rparr>)"
    proof (cases logical)
      case None
      then show ?thesis using c5 k5 by (auto intro!: exI [of _ "db_logical_objects ?d4"])
    next
      case (Some l)
      then show ?thesis using c5 link_logical_keeps [OF k5] by auto
    qed
    then show "db_ok sha256 ?me ?lim d5" "\<exists>l. d5 = ?d4\<lparr>db_logical_objects := l\<rparr>" by blast+
  qed
  then obtain l where l: "d5 = ?d4\<lparr>db_logical_objects := l\<rparr>" by blast
  have o5: "db_objects d5 = t" by (simp add: l k4(2))
  have k7: "db_ok sha256 ?me ?lim d6" "\<exists>x. d6 = d5\<lparr>db_local := x\<rparr>"
  proof -
    have "db_ok sha256 ?me ?lim d6 \<and> (\<exists>x. d6 = d5\<lparr>db_local := x\<rparr>)" using 2(14)
    proof (elim disjE conjE)
      assume "d6 = d5"
      then show ?thesis using k6(1) by (auto intro!: exI [of _ "db_local d5"])
    next
      assume "d6 = d5\<lparr>db_local := insert_or_ignore True ob now (db_local d5)\<rparr>"
      then show ?thesis using local_keeps [OF k6(1)] stored_some [OF k4(3)] o5 by auto
    qed
    then show "db_ok sha256 ?me ?lim d6" "\<exists>x. d6 = d5\<lparr>db_local := x\<rparr>" by blast+
  qed
  then obtain x where x: "d6 = d5\<lparr>db_local := x\<rparr>" by blast
  obtain t1 where t1: "d1 = ?d\<lparr>db_objects := t1\<rparr>" using k1(3) by blast
  have ops: "db_operations d6 = db_operations ?d" "db_next d6 = db_next ?d" "db_objects d6 = t"
    by (simp_all add: x l k4(2) k3(2) k2(2) t1)
  have "stored sha256 (db_objects d6) ob ?m" using k4(3) by (simp add: ops)
  from bind_object_keeps [OF k7(1) _ row(2) this] row(1) 2(4,5)
  have "db_ok sha256 ?me ?lim (st_db s')" "same_operations d6 (st_db s')" by (simp_all add: 2(13) ops)
  moreover from this(2) have "same_operations ?d (st_db s')" by (simp add: same_operations_def ops)
  ultimately have "kept sha256 s s'" by (simp add: 2(13) kept_update)
  then show ?thesis
    using k4(3) k3(3) by (simp add: 2(13) ops) (simp add: x l k4(2) k3(2) k2(2) t1 split: option.splits)
qed

lemma commit_keeps:
  assumes "store_ok sha256 s" and "prepared_ok object"
    and "commit_outgoing_inner sha256 i h object now ann logical s = (Inr ob, s')"
  shows "kept sha256 s s'"
  using assms(3)
proof (cases rule: commit_steps)
  case 1
  then show ?thesis using assms(1) kept_refl by simp
next
  case (2 row)
  then show ?thesis using commit_fresh_keeps [OF assms] by blast
qed

section \<open>Objects, chunks and custody\<close>

lemma kept_transact:
  assumes "store_ok sha256 s" and "transact f s = (Inr x, s')"
    and "\<And>d. db_ok sha256 (st_member s) (st_limits s) (st_db s) \<Longrightarrow> f (st_db s) = Inr (x, d) \<Longrightarrow>
      db_ok sha256 (st_member s) (st_limits s) d \<and> same_operations (st_db s) d"
  shows "kept sha256 s s'"
proof -
  obtain d where d: "f (st_db s) = Inr (x, d)" "s' = s\<lparr>st_db := d\<rparr>" using assms(2) by (auto simp: transact_Inr)
  then show ?thesis using assms(3) [OF _ d(1)] assms(1) by (simp add: kept_update store_ok_def)
qed

lemma insert_manifest_kept:
  assumes "db_ok sha256 member lim d" and "manifest_ok m" and "insert_manifest sha256 lim m d = Inr d'"
  shows "db_ok sha256 member lim d' \<and> same_operations d d'"
  using insert_manifest_keeps [OF assms] by auto

lemma announce_keeps:
  assumes "store_ok sha256 s" and "manifest_ok m" and "announce sha256 m now s = (Inr x, s')"
  shows "kept sha256 s s'"
  using assms(3) unfolding announce_def
  by (auto simp: res_simps intro!: kept_transact [OF assms(1)] dest: insert_manifest_kept [OF _ assms(2)])

lemma record_relay_keeps:
  assumes "db_ok sha256 member lim d" and "record_relay m i frame from d = Inr d'"
  shows "db_ok sha256 member lim d' \<and> (\<exists>t. d' = d\<lparr>db_relay_metadata := t\<rparr>)"
proof (cases "tb_get (db_relay_metadata d) i")
  case None
  then show ?thesis
    using assms by (auto simp: record_relay_def res_simps db_ok_def links_ok_def bounds_ok_def split: if_splits)
next
  case (Some x)
  then show ?thesis
    using assms by (auto simp: record_relay_def split: if_splits prod.splits intro!: exI [of _ "db_relay_metadata d"])
qed

lemma relay_custody_keeps:
  assumes "db_ok sha256 member lim d" and "tb_get (db_objects d) i \<noteq> None"
  shows "db_ok sha256 member lim (d\<lparr>db_relay_outbox := insert_or_ignore True i now (db_relay_outbox d)\<rparr>)"
  using assms by (simp add: db_ok_def links_ok_def bounds_ok_def)

lemma complete_keeps:
  assumes ok: "db_ok sha256 member lim d" and m: "stored sha256 (db_objects d) i m" and "object_chunks d i = chunk_count m"
  shows "db_ok sha256 member lim (set_complete i d) \<and> (\<exists>t. set_complete i d = d\<lparr>db_objects := t\<rparr> \<and>
    (\<forall>j m. stored sha256 t j m = stored sha256 (db_objects d) j m) \<and> (\<forall>j. tb_get t j = None \<longleftrightarrow> tb_get (db_objects d) j = None))"
proof (rule set_complete_keeps [OF ok])
  fix n k assume "stored sha256 (db_objects d) i n" "k < chunk_count n"
  then show "tb_get (db_chunks d) (i, k) \<noteq> None"
    using object_chunks_all [OF ok m assms(3)] stored_unique [OF m] by blast
qed

lemma object_complete_keeps:
  assumes ok: "db_ok sha256 (st_member s) lim d" and m: "stored sha256 (db_objects d) i m"
    and n: "object_chunks d i = chunk_count m" and c: "object_complete m i now relay s d = Inr (x, e)"
  shows "db_ok sha256 (st_member s) lim e \<and> same_operations d e"
proof -
  let ?me = "st_member s"
  define d2 where "d2 = set_complete i d"
  obtain t where t: "db_ok sha256 ?me lim d2" "d2 = d\<lparr>db_objects := t\<rparr>" "tb_get t i \<noteq> None"
    using complete_keeps [OF ok m n] stored_some [OF m] unfolding d2_def by metis
  let ?d3 = "d2\<lparr>db_relay_outbox := insert_or_ignore True i now (db_relay_outbox d2)\<rparr>"
  have k3: "db_ok sha256 ?me lim ?d3" by (rule relay_custody_keeps) (use t in simp_all)
  obtain d4 where d4: "(if mf_origin m \<noteq> ?me then bindr (references i (db_objects d2)) (\<lambda>_.
        case relay of Some (frame, received_from) \<Rightarrow> record_relay m i frame received_from ?d3 | None \<Rightarrow> Inr ?d3)
      else Inr d2) = Inr d4"
    and last: "(if relay = None \<and> ?me \<in> set (mf_targets m) then bindr (references i (db_objects d4)) (\<lambda>_.
        bindr (ok_or StorageUnavailable (tb_get (db_local (d4\<lparr>db_local := insert_or_ignore True i now (db_local d4)\<rparr>)) i)) (\<lambda>committed_at.
          Inr (Some \<lparr>lc_object = i, lc_member = ?me, lc_at = committed_at\<rparr>,
            d4\<lparr>db_local := insert_or_ignore True i now (db_local d4)\<rparr>)))
      else Inr (None, d4)) = Inr (x, e)"
    using c unfolding object_complete_def Let_def d2_def [symmetric] by (elim bindr_InrE) (rule that)
  have k4: "db_ok sha256 ?me lim d4 \<and> same_operations d d4 \<and> tb_get (db_objects d4) i \<noteq> None"
  proof (cases "mf_origin m = ?me")
    case True
    then have "d4 = d2" using d4 by simp
    then show ?thesis using t(1) t(3) by (simp add: t(2))
  next
    case False
    have "db_ok sha256 ?me lim d4 \<and> (\<exists>x. d4 = ?d3\<lparr>db_relay_metadata := x\<rparr>)"
    proof (cases relay)
      case None
      then have "d4 = ?d3" using d4 False by (auto simp: res_simps)
      then show ?thesis using k3 by (auto intro!: exI [of _ "db_relay_metadata d2"])
    next
      case (Some y)
      then have "record_relay m i (fst y) (snd y) ?d3 = Inr d4"
        using d4 False by (auto simp: res_simps split: prod.splits)
      then show ?thesis by (rule record_relay_keeps [OF k3])
    qed
    then show ?thesis using t(3) by (auto simp: t(2))
  qed
  then show ?thesis
    using last local_keeps [of sha256 ?me lim d4 i now]
    by (auto simp: res_simps same_operations_def split: if_splits)
qed

lemma put_chunk_keeps:
  assumes ok: "store_ok sha256 s" and c: "put_chunk_inner sha256 i k b now relay s = (Inr x, s')"
  shows "kept sha256 s s'"
  using c unfolding put_chunk_inner_def
proof (rule kept_transact [OF ok], goal_cases)
  case (1 e)
  let ?d = "st_db s" and ?lim = "st_limits s" and ?me = "st_member s"
  note d = 1(1)
  obtain m u d1 where m: "manifest_from sha256 ?d i = Inr m" "verify_chunk sha256 m k b = Inr u"
      and d1: "insert_chunk i k b ?d = Inr d1"
      and last: "(if object_chunks d1 i = chunk_count m then object_complete m i now relay s d1 else Inr (None, d1)) = Inr (x, e)"
    using 1(2) by (elim bindr_InrE) (rule that)
  have m': "stored sha256 (db_objects ?d) i m" "verify_chunk sha256 m k b = Inr ()"
    using m d by (simp_all add: manifest_from_iff db_ok_def)
  obtain c where k1: "db_ok sha256 ?me ?lim d1" "d1 = ?d\<lparr>db_chunks := c\<rparr>"
    using insert_chunk_keeps [OF d m' d1] by blast
  have s1: "stored sha256 (db_objects d1) i m" "same_operations ?d d1" using m' k1(2) by simp_all
  show ?case
  proof (cases "object_chunks d1 i = chunk_count m")
    case False
    then show ?thesis using last k1(1) s1(2) by auto
  next
    case True
    then show ?thesis
      using last object_complete_keeps [OF k1(1) s1(1) True] same_operations_trans [OF s1(2)] by auto
  qed
qed

lemma custody_keeps:
  assumes "db_ok sha256 member lim d"
  shows "put_custody (lm_operations lim) i b f m now (db_relay_receipts d) = Inr t \<Longrightarrow>
      db_ok sha256 member lim (d\<lparr>db_relay_receipts := t\<rparr>)"
    and "put_custody (lm_operations lim) i b f m now (db_relay_acks d) = Inr t \<Longrightarrow>
      db_ok sha256 member lim (d\<lparr>db_relay_acks := t\<rparr>)"
  using assms put_custody_Inr [of "lm_operations lim" i b f m now _ t]
  by (simp_all add: db_ok_def links_ok_def bounds_ok_def)

lemma put_relay_receipt_keeps:
  assumes "store_ok sha256 s" and "put_relay_receipt sha256 b frame from now s = (Inr x, s')"
  shows "kept sha256 s s'"
  using assms(2) unfolding put_relay_receipt_def
  by (auto simp: res_simps intro!: kept_transact [OF assms(1)] intro: custody_keeps)

lemma put_relay_receipt_ack_keeps:
  assumes "store_ok sha256 s" and "put_relay_receipt_ack sha256 b frame from now s = (Inr x, s')"
  shows "kept sha256 s s'"
  using assms(2) unfolding put_relay_receipt_ack_def
  by (auto simp: res_simps intro!: kept_transact [OF assms(1)] intro: custody_keeps)

lemma remove_relay_receipt_keeps:
  assumes "store_ok sha256 s" and "remove_relay_receipt disk i s = (Inr x, s')"
  shows "kept sha256 s s'"
proof (rule kept_transact [OF assms(1)])
  show "transact (\<lambda>d. Inr ((), d\<lparr>db_relay_receipts := tb_remove i (db_relay_receipts d)\<rparr>)) s = (Inr x, s')"
    using assms(2) by (simp add: remove_relay_receipt_def split: if_splits)
qed (use assms(1) in \<open>auto simp: db_ok_def links_ok_def bounds_ok_def tb_count_remove\<close>)

section \<open>Logical messages and deletion\<close>

lemma logical_ok_put:
  assumes "logical_ok t b" and "tb_get t l = None"
  shows "logical_ok (tb_put l row t) b"
proof -
  have "tb_get b ob \<noteq> Some (l, n)" for ob n using assms unfolding logical_ok_def by blast
  then have none: "tb_get (bound_objects b l) ob = None" for ob
    by (auto simp: bound_objects_def tb_get_retain)
  then have "tb_count (bound_objects b l) = 0" "tb_sum (\<lambda>_. snd) (bound_objects b l) = 0"
    by (simp_all add: tb_count_card tb_sum_eq dom_def)
  then show ?thesis using assms(1) by (auto simp: logical_ok_def)
qed

lemma begin_logical_keeps:
  assumes ok: "store_ok sha256 s" and c: "begin_logical_message i n k expires now s = (Inr x, s')"
  shows "kept sha256 s s'"
proof -
  have "transact (\<lambda>d.
       case tb_get (db_logical d) i of
         Some row \<Rightarrow>
           if (gw_expires row, gw_targets row, gw_audiences row) \<noteq> (expires, n, k) then Inl Conflict else Inr ((), d)
       | None \<Rightarrow>
           bindr (insert_row (expires < 2 ^ 63) i \<lparr>gw_created = now, gw_expires = expires, gw_targets = n,
                 gw_audiences = k\<rparr> (db_logical d)) (\<lambda>t. Inr ((), d\<lparr>db_logical := t\<rparr>))) s = (Inr x, s')"
    using c by (auto simp: begin_logical_message_def res_simps split: if_splits)
  then show ?thesis
  proof (rule kept_transact [OF ok], goal_cases)
    case (1 d)
    show ?case
    proof (cases "tb_get (db_logical (st_db s)) i")
      case None
      then show ?thesis
        using 1 logical_ok_put [of "db_logical (st_db s)" _ i]
        by (auto simp: res_simps db_ok_def links_ok_def bounds_ok_def)
    next
      case (Some row)
      then show ?thesis using 1 by (auto split: if_splits)
    qed
  qed
qed

lemma custody_retain_keeps:
  assumes "db_ok sha256 member lim d"
  shows "db_ok sha256 member lim (d\<lparr>db_relay_receipts := tb_retain P (db_relay_receipts d),
    db_relay_acks := tb_retain Q (db_relay_acks d)\<rparr>)"
  using assms tb_count_retain [of P "db_relay_receipts d"] tb_count_retain [of Q "db_relay_acks d"]
  by (simp add: db_ok_def links_ok_def bounds_ok_def)

lemma delete_steps_keep:
  assumes ok: "db_ok sha256 member lim d" and l: "delete_logical P (fold delete_object ids d) = Inr d1"
  shows "db_ok sha256 member lim (delete_unbound d1) \<and> same_operations d (delete_unbound d1)"
proof -
  from delete_objects_keeps [OF ok]
  have k: "db_ok sha256 member lim (fold delete_object ids d)" "same_operations d (fold delete_object ids d)" by blast+
  from delete_logical_keeps [OF k(1) l]
  have "db_ok sha256 member lim d1" "same_operations (fold delete_object ids d) d1" by blast+
  with k(2) delete_unbound_keeps show ?thesis by (blast intro: same_operations_trans)
qed

lemma prune_keeps:
  assumes ok: "store_ok sha256 s" and c: "prune_expired sha256 now s = (Inr n, s')"
  shows "kept sha256 s s'"
proof -
  let ?P = "\<lambda>d i row. gw_expires row \<le> now \<or> tb_count (logical_objects d i) = 0"
    and ?old = "\<lambda>_ row. \<not> rf_expires_at (cw_frame row) \<le> now"
  obtain ids d1 where ids: "delete_logical (?P (fold delete_object ids (st_db s))) (fold delete_object ids (st_db s)) = Inr d1"
    and s': "s' = s\<lparr>st_db := (delete_unbound d1)\<lparr>db_relay_receipts := tb_retain ?old (db_relay_receipts (delete_unbound d1)),
       db_relay_acks := tb_retain ?old (db_relay_acks (delete_unbound d1))\<rparr>\<rparr>"
    using c by (auto simp: prune_expired_def res_simps transact_Inr Let_def)
  have "db_ok sha256 (st_member s) (st_limits s) (st_db s)" using ok by (simp add: store_ok_def)
  from delete_steps_keep [OF this ids] custody_retain_keeps show ?thesis
    by (simp add: s' kept_update) (simp add: same_operations_def)
qed

lemma rollback_keeps:
  assumes ok: "store_ok sha256 s" and c: "rollback_logical_message disk l s = (Inr x, s')"
  shows "kept sha256 s s'"
  using c unfolding rollback_logical_message_def Let_def
  by (auto simp: res_simps split: if_splits intro!: kept_transact [OF ok] dest: delete_steps_keep)

section \<open>The policy\<close>

definition policy_part :: "store \<Rightarrow> store \<Rightarrow> bool" where
  "policy_part s s' \<longleftrightarrow> (\<exists>p c r. s' = s\<lparr>st_db := (st_db s)\<lparr>db_policy := p, db_certificates := c, db_revocations := r\<rparr>\<rparr>)"

lemma policy_part_kept: "store_ok sha256 s \<Longrightarrow> policy_part s s' \<Longrightarrow> kept sha256 s s'"
  by (auto simp: policy_part_def kept_update store_ok_def db_ok_def links_ok_def bounds_ok_def)

lemma policy_part_same: "policy_part s s"
proof -
  have "s = s\<lparr>st_db := (st_db s)\<lparr>db_policy := db_policy (st_db s), db_certificates := db_certificates (st_db s),
    db_revocations := db_revocations (st_db s)\<rparr>\<rparr>" by simp
  then show ?thesis unfolding policy_part_def by blast
qed

lemma install_transition_part:
  assumes "install_policy_with_transition p a sc cs rs now prior s = (Inr x, s')"
  shows "policy_part s s'"
proof (cases "s' = s")
  case True
  then show ?thesis by (simp add: policy_part_same)
next
  case False
  then show ?thesis
    using assms unfolding policy_part_def
    by (auto simp: install_policy_with_transition_def res_simps transact_Inr Let_def
        split: if_split_asm option.split_asm)
qed

lemma install_policy_part: "install_policy p a sc cs rs now s = (Inr x, s') \<Longrightarrow> policy_part s s'"
  unfolding install_policy_def by (rule install_transition_part)

lemma install_rotated_part: "install_rotated_policy p a sc cs rs ho now s = (Inr x, s') \<Longrightarrow> policy_part s s'"
  unfolding install_rotated_policy_def
  by (auto simp: res_simps split: if_split_asm dest: install_transition_part)

section \<open>Proofs\<close>

lemma commit_sealed_keeps:
  assumes "store_ok (hash p) s" and "prepared_ok (sm_object m)"
  shows "commit_sealed p i h m roster now s = (Inr x, s') \<Longrightarrow> kept (hash p) s s'"
    and "commit_sealed_logical p i h m roster l now s = (Inr x, s') \<Longrightarrow> kept (hash p) s s'"
  using commit_keeps [OF assms] by (auto simp: commit_sealed_def commit_sealed_logical_def res_simps)

lemma announce_authenticated_steps:
  assumes "announce_authenticated p a roster now s = (Inr x, s')"
  obtains d1 d2 where "x = manifest_id (hash p) (aa_manifest a)" "aa_validate_roster a roster now = Inr ()"
      "check_mode (st_db s) x (Some (aa_encoded a)) = Inr ()"
      "insert_manifest (hash p) (st_limits s) (aa_manifest a) (st_db s) = Inr d1"
      "insert_announcement x (aa_encoded a) d1 = Inr d2" "s' = s\<lparr>st_db := d2\<rparr>"
  using assms unfolding announce_authenticated_def Let_def bind_st_eq_Inr transact_Inr
  by (elim exE conjE bindr_InrE) (rule that; simp)

lemma announce_authenticated_keeps:
  assumes ok: "store_ok (hash p) s" and m: "manifest_ok (aa_manifest a)"
    and c: "announce_authenticated p a roster now s = (Inr x, s')"
  shows "kept (hash p) s s'"
  using c
proof (rule announce_authenticated_steps)
  fix d1 d2
  assume s': "insert_manifest (hash p) (st_limits s) (aa_manifest a) (st_db s) = Inr d1"
    "insert_announcement x (aa_encoded a) d1 = Inr d2" "s' = s\<lparr>st_db := d2\<rparr>"
  have "db_ok (hash p) (st_member s) (st_limits s) (st_db s)" using ok by (simp add: store_ok_def)
  from insert_manifest_kept [OF this m s'(1)] insert_announcement_keeps [OF _ s'(2)] show ?thesis
    by (simp add: s'(3) kept_update) (auto simp: same_operations_def)
qed

lemma stage_keeps:
  assumes ok: "store_ok (hash p) s" and c: "stage_authenticated_chunk p i k b now s = (Inr x, s')"
  shows "kept (hash p) s s'"
  using c unfolding stage_authenticated_chunk_def
proof (rule kept_transact [OF ok], goal_cases)
  case (1 d)
  then obtain m where m: "manifest_from (hash p) (st_db s) i = Inr m" "verify_chunk (hash p) m k b = Inr ()"
      "insert_chunk i k b (st_db s) = Inr d"
    by (auto simp: res_simps)
  then have "stored (hash p) (db_objects (st_db s)) i m" using 1(1) by (simp add: manifest_from_iff db_ok_def)
  from insert_chunk_keeps [OF 1(1) this m(2,3)] show ?case by auto
qed

lemma chunks_present_Inr:
  "chunks_present p d i m ks = Inr u \<longleftrightarrow>
     (\<forall>k \<in> set ks. \<exists>b. tb_get (db_chunks d) (i, k) = Some b \<and> verify_chunk (hash p) m k b = Inr ())"
  by (induction ks) (auto simp: res_simps)

text \<open>What finalizing leaves: nothing new when the receipt was there, or the receipt and its delivery.\<close>

lemma finalize_steps:
  assumes c: "finalize_received p v roster k now s = (Inr x, s')"
  obtains "receipt_from (st_db s) (vd_object_id (hash p) v) (st_member s) = Some x" "s' = s"
      "tb_get (db_announcements (st_db s)) (vd_object_id (hash p) v) = Some (aa_encoded (vd_announcement v))"
      "vd_member v = st_member s"
  | m where "receipt_from (st_db s) (vd_object_id (hash p) v) (st_member s) = None"
      "tb_get (db_announcements (st_db s)) (vd_object_id (hash p) v) = Some (aa_encoded (vd_announcement v))"
      "vd_member v = st_member s" "vd_validate_commit v roster now = Inr ()"
      "manifest_from (hash p) (st_db s) (vd_object_id (hash p) v) = Inr m"
      "chunks_present p (st_db s) (vd_object_id (hash p) v) m [0..<chunk_count m] = Inr ()"
      "receipt_for_commit p v k now = Inr (rm_receipt x)"
      "rm_local x = \<lparr>lc_object = vd_object_id (hash p) v, lc_member = st_member s, lc_at = now\<rparr>"
      "tb_get (db_objects (st_db s)) (vd_object_id (hash p) v) \<noteq> None"
      "tb_get (db_local (st_db s)) (vd_object_id (hash p) v) = None"
      "s' = s\<lparr>st_db := set_complete (vd_object_id (hash p) v)
         ((st_db s)\<lparr>db_local := tb_put (vd_object_id (hash p) v) now (db_local (st_db s)),
            db_deliveries := tb_put (vd_object_id (hash p) v) (rm_receipt x) (db_deliveries (st_db s))\<rparr>)\<rparr>"
proof -
  let ?i = "vd_object_id (hash p) v"
  have me: "vd_member v = st_member s" using c by (auto simp: finalize_received_def Let_def split: if_split_asm)
  obtain e d where e: "tb_get (db_announcements (st_db s)) ?i = Some e" "e = aa_encoded (vd_announcement v)"
    using c by (auto simp: finalize_received_def Let_def res_simps transact_Inr stored_announcement_def split: if_split_asm)
  show thesis
  proof (cases "receipt_from (st_db s) ?i (st_member s)")
    case (Some r)
    then have "x = r \<and> s' = s"
      using c e me by (auto simp: finalize_received_def Let_def res_simps transact_Inr stored_announcement_def)
    then show thesis using that(1) Some e me by simp
  next
    case None
    from c obtain d where s': "s' = s\<lparr>st_db := d\<rparr>"
      and d: "bindr (vd_validate_commit v roster now) (\<lambda>_.
            bindr (manifest_from (hash p) (st_db s) ?i) (\<lambda>m.
            bindr (chunks_present p (st_db s) ?i m [0..<chunk_count m]) (\<lambda>_.
            bindr (receipt_for_commit p v k now) (\<lambda>receipt.
            bindr (references ?i (db_objects (st_db s))) (\<lambda>_.
            bindr (insert_row (now < 2 ^ 63) ?i now (db_local (st_db s))) (\<lambda>t.
            bindr (references ?i t) (\<lambda>_.
            bindr (insert_row (0 < length receipt \<and> length receipt \<le> 1024) ?i receipt (db_deliveries (st_db s))) (\<lambda>t'.
              Inr (\<lparr>rm_local = \<lparr>lc_object = ?i, lc_member = st_member s, lc_at = now\<rparr>, rm_receipt = receipt\<rparr>,
                set_complete ?i ((st_db s)\<lparr>db_local := t, db_deliveries := t'\<rparr>)))))))))) = Inr (x, d)"
      using e me None by (auto simp: finalize_received_def Let_def res_simps transact_Inr stored_announcement_def)
    obtain u m u' receipt u'' t u3 t' where f: "vd_validate_commit v roster now = Inr u"
        "manifest_from (hash p) (st_db s) ?i = Inr m" "chunks_present p (st_db s) ?i m [0..<chunk_count m] = Inr u'"
        "receipt_for_commit p v k now = Inr receipt" "references ?i (db_objects (st_db s)) = Inr u''"
        "insert_row (now < 2 ^ 63) ?i now (db_local (st_db s)) = Inr t" "references ?i t = Inr u3"
        "insert_row (0 < length receipt \<and> length receipt \<le> 1024) ?i receipt (db_deliveries (st_db s)) = Inr t'"
        "Inr (\<lparr>rm_local = \<lparr>lc_object = ?i, lc_member = st_member s, lc_at = now\<rparr>, rm_receipt = receipt\<rparr>,
                set_complete ?i ((st_db s)\<lparr>db_local := t, db_deliveries := t'\<rparr>)) = (Inr (x, d) :: durable_error + _)"
      using d by (elim bindr_InrE) (rule that)
    show thesis
      by (rule that(2) [OF None _ me _ f(2)]) (use e f s' in \<open>auto simp: res_simps\<close>)
  qed
qed

lemma finalize_keeps:
  assumes ok: "store_ok (hash p) s" and c: "finalize_received p v roster k now s = (Inr x, s')"
  shows "kept (hash p) s s'"
  using c
proof (cases rule: finalize_steps)
  case 1
  then show ?thesis using ok kept_refl by simp
next
  case (2 m)
  let ?i = "vd_object_id (hash p) v" and ?d = "st_db s"
  let ?e = "?d\<lparr>db_local := tb_put ?i now (db_local ?d), db_deliveries := tb_put ?i (rm_receipt x) (db_deliveries ?d)\<rparr>"
  have d: "db_ok (hash p) (st_member s) (st_limits s) ?d" using ok by (simp add: store_ok_def)
  then have m: "stored (hash p) (db_objects ?d) ?i m" using 2(5) by (simp add: manifest_from_iff db_ok_def)
  have "db_ok (hash p) (st_member s) (st_limits s) ?e"
    using d 2(9) by (simp add: db_ok_def links_ok_def bounds_ok_def)
  moreover have "tb_get (db_chunks ?e) (?i, j) \<noteq> None" if "stored (hash p) (db_objects ?e) ?i n" "j < chunk_count n" for n j
  proof -
    have "n = m" using stored_unique [OF m] that(1) by simp
    then show ?thesis using 2(6) that(2) by (auto simp: chunks_present_Inr)
  qed
  ultimately have "db_ok (hash p) (st_member s) (st_limits s) (set_complete ?i ?e) \<and>
    (\<exists>t. set_complete ?i ?e = ?e\<lparr>db_objects := t\<rparr> \<and> (\<forall>j m. stored (hash p) t j m = stored (hash p) (db_objects ?e) j m) \<and>
      (\<forall>j. tb_get t j = None \<longleftrightarrow> tb_get (db_objects ?e) j = None))"
    by (rule set_complete_keeps)
  then obtain t where "db_ok (hash p) (st_member s) (st_limits s) (set_complete ?i ?e)"
      "set_complete ?i ?e = ?e\<lparr>db_objects := t\<rparr>" by blast
  then show ?thesis unfolding 2(11) kept_update by simp
qed

lemma record_receipt_steps:
  assumes "record_target_receipt p r roster now s = (Inr g, s')"
  obtains m where "receipt_validate_commit r roster now = Inr ()" "manifest_from (hash p) (st_db s) (rv_object r) = Inr m"
      "mf_origin m = st_member s" "tb_get (db_announcements (st_db s)) (rv_object r) = Some (rv_announcement r)"
      "rv_actor r \<in> set (mf_targets m)" "\<exists>i row. tb_get (db_operations (st_db s)) i = Some row \<and> ow_object row = Some (rv_object r)"
      "progress_from p ((st_db s)\<lparr>db_receipts := insert_or_ignore (0 < length (rv_bytes r) \<and> length (rv_bytes r) \<le> 1024)
          (rv_object r, rv_actor r) (rv_bytes r) (db_receipts (st_db s))\<rparr>) m now = Inr g"
      "s' = s\<lparr>st_db := (st_db s)\<lparr>db_receipts := insert_or_ignore (0 < length (rv_bytes r) \<and> length (rv_bytes r) \<le> 1024)
          (rv_object r, rv_actor r) (rv_bytes r) (db_receipts (st_db s)),
        db_outbox := (if dp_state g = Delivered then tb_remove (rv_object r) (db_outbox (st_db s)) else db_outbox (st_db s))\<rparr>\<rparr>"
proof -
  let ?i = "rv_object r" and ?d = "st_db s"
  let ?r = "insert_or_ignore (0 < length (rv_bytes r) \<and> length (rv_bytes r) \<le> 1024) (?i, rv_actor r) (rv_bytes r) (db_receipts ?d)"
  obtain u where u: "receipt_validate_commit r roster now = Inr u" using assms
    by (auto simp: record_target_receipt_def res_simps)
  obtain m where m: "manifest_from (hash p) ?d ?i = Inr m" "mf_origin m = st_member s"
    using assms by (auto simp: record_target_receipt_def res_simps transact_Inr Let_def)
  obtain a where a: "tb_get (db_announcements ?d) ?i = Some a"
    using assms m by (auto simp: record_target_receipt_def res_simps transact_Inr Let_def stored_announcement_def)
  have c: "a = rv_announcement r" "rv_actor r \<in> set (mf_targets m)"
      "tb_select (\<lambda>_ row. ow_object row = Some ?i) (db_operations ?d) \<noteq> None"
      "progress_from p (?d\<lparr>db_receipts := ?r\<rparr>) m now = Inr g"
      "s' = s\<lparr>st_db := (if dp_state g = Delivered then ?d\<lparr>db_receipts := ?r, db_outbox := tb_remove ?i (db_outbox ?d)\<rparr>
        else ?d\<lparr>db_receipts := ?r\<rparr>)\<rparr>"
    using assms m a
    by (auto simp: record_target_receipt_def res_simps transact_Inr Let_def stored_announcement_def split: if_split_asm)
  obtain i row where "tb_get (db_operations ?d) i = Some row" "ow_object row = Some ?i"
    using c(3) by (auto simp: tb_select_None)
  then show thesis
    by (intro that [OF _ m _ c(2) _ c(4)]) (use u a c(1,5) in auto)
qed

lemma record_receipt_keeps:
  assumes ok: "store_ok (hash p) s" and c: "record_target_receipt p r roster now s = (Inr g, s')"
  shows "kept (hash p) s s'"
  using c
proof (rule record_receipt_steps)
  let ?i = "rv_object r" and ?d = "st_db s"
  let ?r = "insert_or_ignore (0 < length (rv_bytes r) \<and> length (rv_bytes r) \<le> 1024) (?i, rv_actor r) (rv_bytes r) (db_receipts ?d)"
  fix m
  assume m: "manifest_from (hash p) ?d ?i = Inr m" "rv_actor r \<in> set (mf_targets m)"
    and s': "s' = s\<lparr>st_db := ?d\<lparr>db_receipts := ?r,
        db_outbox := (if dp_state g = Delivered then tb_remove ?i (db_outbox ?d) else db_outbox ?d)\<rparr>\<rparr>"
  have d: "db_ok (hash p) (st_member s) (st_limits s) ?d" using ok by (simp add: store_ok_def)
  have "stored (hash p) (db_objects ?d) ?i m" using m d by (simp add: manifest_from_iff db_ok_def)
  then have "receipts_ok (hash p) (db_objects ?d) ?r"
    using d m(2) by (auto simp: db_ok_def receipts_ok_def insert_or_ignore_get)
  then show ?thesis
    using d by (simp add: s' kept_update db_ok_def links_ok_def bounds_ok_def)
qed

lemma origin_ack_steps:
  "origin_receipt_ack p ob actor roster k now s = (Inr x, s') \<Longrightarrow>
     s' = s \<or> tb_get (db_receipts (st_db s)) (ob, actor) \<noteq> None \<and>
       s' = s\<lparr>st_db := (st_db s)\<lparr>db_origin_acks := tb_put (ob, actor) x (db_origin_acks (st_db s))\<rparr>\<rparr>"
  by (auto simp: origin_receipt_ack_def Let_def res_simps transact_Inr split: if_split_asm)

lemma origin_ack_keeps:
  assumes "store_ok (hash p) s" and "origin_receipt_ack p ob actor roster k now s = (Inr x, s')"
  shows "kept (hash p) s s'"
  using origin_ack_steps [OF assms(2)] assms(1) kept_refl
  by (auto simp: kept_update store_ok_def db_ok_def links_ok_def bounds_ok_def)

lemma record_ack_steps:
  "record_receipt_ack p v roster now s = (Inr x, s') \<Longrightarrow>
     \<exists>c b. tb_get (db_local (st_db s)) (ra_object (va_route v)) \<noteq> None \<and>
       s' = s\<lparr>st_db := (st_db s)\<lparr>db_acknowledged :=
         insert_or_ignore c (ra_object (va_route v)) b (db_acknowledged (st_db s))\<rparr>\<rparr>"
  by (auto simp: record_receipt_ack_def Let_def res_simps transact_Inr split: if_split_asm)

lemma record_ack_keeps:
  assumes "store_ok (hash p) s" and "record_receipt_ack p v roster now s = (Inr x, s')"
  shows "kept (hash p) s s'"
  using record_ack_steps [OF assms(2)] assms(1)
  by (auto simp: kept_update store_ok_def db_ok_def links_ok_def bounds_ok_def)

end
