(* ===== verification/Mesh_Store_Open.thy ===== *)
theory Mesh_Store_Open
  imports Mesh_Store
begin

text \<open>
  Opening the store, \<open>Store::open\<close> of \<open>crates/mesh-store/src/lib.rs\<close>: the schema version and the
  hash of the schema texts that the file records, its creation and the eleven migrations. What
  SQLCipher answers before the transaction is a record of the model; the texts of \<open>schema/store\<close> are
  arguments, and running one of them is its effect on the rows and on the version.
\<close>

section \<open>Hashes of the schema\<close>

record schema_texts =
  SCHEMA :: bytes
  AUTH_SCHEMA :: bytes
  POLICY_SCHEMA :: bytes
  GROUP_CAPACITY_SCHEMA :: bytes
  RELAY_CUSTODY_SCHEMA :: bytes
  RELAY_INGRESS_SCHEMA :: bytes
  RELAY_RECEIPT_SCHEMA :: bytes
  RECEIPT_ACK_SCHEMA :: bytes
  RELAY_RECEIPT_ACK_SCHEMA :: bytes
  LOGICAL_DELIVERY_SCHEMA :: bytes
  ORIGIN_RECEIPT_ACK_SCHEMA :: bytes

definition policy_schema_hash :: "(bytes \<Rightarrow> arr32) \<Rightarrow> schema_texts \<Rightarrow> arr32" where
  "policy_schema_hash sha256 t = sha256 (concat [SCHEMA t, AUTH_SCHEMA t, POLICY_SCHEMA t])"

definition group_capacity_schema_hash :: "(bytes \<Rightarrow> arr32) \<Rightarrow> schema_texts \<Rightarrow> arr32" where
  "group_capacity_schema_hash sha256 t =
     sha256 (concat [SCHEMA t, AUTH_SCHEMA t, POLICY_SCHEMA t, GROUP_CAPACITY_SCHEMA t])"

definition relay_custody_schema_hash :: "(bytes \<Rightarrow> arr32) \<Rightarrow> schema_texts \<Rightarrow> arr32" where
  "relay_custody_schema_hash sha256 t =
     sha256 (concat [SCHEMA t, AUTH_SCHEMA t, POLICY_SCHEMA t, GROUP_CAPACITY_SCHEMA t, RELAY_CUSTODY_SCHEMA t])"

definition schema_hash :: "(bytes \<Rightarrow> arr32) \<Rightarrow> schema_texts \<Rightarrow> arr32" where
  "schema_hash sha256 t =
     sha256 (concat [SCHEMA t, AUTH_SCHEMA t, POLICY_SCHEMA t, GROUP_CAPACITY_SCHEMA t, RELAY_CUSTODY_SCHEMA t,
       RELAY_INGRESS_SCHEMA t])"

definition relay_receipt_schema_hash :: "(bytes \<Rightarrow> arr32) \<Rightarrow> schema_texts \<Rightarrow> arr32" where
  "relay_receipt_schema_hash sha256 t =
     sha256 (concat [SCHEMA t, AUTH_SCHEMA t, POLICY_SCHEMA t, GROUP_CAPACITY_SCHEMA t, RELAY_CUSTODY_SCHEMA t,
       RELAY_INGRESS_SCHEMA t, RELAY_RECEIPT_SCHEMA t])"

definition receipt_ack_schema_hash :: "(bytes \<Rightarrow> arr32) \<Rightarrow> schema_texts \<Rightarrow> arr32" where
  "receipt_ack_schema_hash sha256 t =
     sha256 (concat [SCHEMA t, AUTH_SCHEMA t, POLICY_SCHEMA t, GROUP_CAPACITY_SCHEMA t, RELAY_CUSTODY_SCHEMA t,
       RELAY_INGRESS_SCHEMA t, RELAY_RECEIPT_SCHEMA t, RECEIPT_ACK_SCHEMA t])"

definition relay_receipt_ack_schema_hash :: "(bytes \<Rightarrow> arr32) \<Rightarrow> schema_texts \<Rightarrow> arr32" where
  "relay_receipt_ack_schema_hash sha256 t =
     sha256 (concat [SCHEMA t, AUTH_SCHEMA t, POLICY_SCHEMA t, GROUP_CAPACITY_SCHEMA t, RELAY_CUSTODY_SCHEMA t,
       RELAY_INGRESS_SCHEMA t, RELAY_RECEIPT_SCHEMA t, RECEIPT_ACK_SCHEMA t, RELAY_RECEIPT_ACK_SCHEMA t])"

definition logical_delivery_schema_hash :: "(bytes \<Rightarrow> arr32) \<Rightarrow> schema_texts \<Rightarrow> arr32" where
  "logical_delivery_schema_hash sha256 t =
     sha256 (concat [SCHEMA t, AUTH_SCHEMA t, POLICY_SCHEMA t, GROUP_CAPACITY_SCHEMA t, RELAY_CUSTODY_SCHEMA t,
       RELAY_INGRESS_SCHEMA t, RELAY_RECEIPT_SCHEMA t, RECEIPT_ACK_SCHEMA t, RELAY_RECEIPT_ACK_SCHEMA t,
       LOGICAL_DELIVERY_SCHEMA t])"

definition origin_receipt_ack_schema_hash :: "(bytes \<Rightarrow> arr32) \<Rightarrow> schema_texts \<Rightarrow> arr32" where
  "origin_receipt_ack_schema_hash sha256 t =
     sha256 (concat [be_bytes (logical_delivery_schema_hash sha256 t), ORIGIN_RECEIPT_ACK_SCHEMA t])"

definition expected_hash :: "(bytes \<Rightarrow> arr32) \<Rightarrow> schema_texts \<Rightarrow> nat \<Rightarrow> arr32" where
  "expected_hash sha256 t schema =
     (if schema \<le> 1 then sha256 (SCHEMA t)
      else if schema = 2 then sha256 (concat [SCHEMA t, AUTH_SCHEMA t])
      else if schema = 3 then policy_schema_hash sha256 t
      else if schema = 4 then group_capacity_schema_hash sha256 t
      else if schema = 5 then relay_custody_schema_hash sha256 t
      else if schema = 6 then schema_hash sha256 t
      else if schema = 7 then relay_receipt_schema_hash sha256 t
      else if schema = 8 then receipt_ack_schema_hash sha256 t
      else if schema = 9 then relay_receipt_ack_schema_hash sha256 t
      else if schema = 10 then logical_delivery_schema_hash sha256 t
      else origin_receipt_ack_schema_hash sha256 t)"

section \<open>Files\<close>

text \<open>
  The file: \<open>user_version\<close>, whether it has no table, the row of \<open>meta\<close> without the next sequence,
  and its rows, where a table that the version does not have yet is empty.
\<close>

record store_file =
  sf_version :: nat
  sf_blank :: bool
  sf_meta :: "(member_id \<times> arr32) option"
  sf_db :: db

text \<open>What SQLCipher answers before the transaction: its version, and whether the key and the journal are good.\<close>

record cipher =
  ci_version :: "bytes option"
  ci_key_ok :: bool
  ci_wal :: bool

definition db_empty :: db where
  "db_empty = \<lparr>db_next = 1, db_operations = tb_empty, db_objects = tb_empty, db_chunks = tb_empty,
     db_outbox = tb_empty, db_local = tb_empty, db_announcements = tb_empty, db_deliveries = tb_empty,
     db_receipts = tb_empty, db_policy = None, db_certificates = tb_empty, db_revocations = tb_empty,
     db_relay_outbox = tb_empty, db_relay_metadata = tb_empty, db_relay_receipts = tb_empty,
     db_acknowledged = tb_empty, db_relay_acks = tb_empty, db_logical = tb_empty,
     db_logical_objects = tb_empty, db_origin_acks = tb_empty\<rparr>"

text \<open>
  Running the text of a version. Only \<open>006-relay-ingress.sql\<close> changes rows: it fills the new column
  \<open>received_from\<close> with \<open>previous_hop\<close>.
\<close>

definition run_schema :: "nat \<Rightarrow> store_file \<Rightarrow> store_file" where
  "run_schema v f =
     f\<lparr>sf_version := v,
       sf_db := (if v = 6 then (sf_db f)\<lparr>db_relay_metadata :=
           tb_map (\<lambda>(frame, _). (frame, rf_previous_hop frame)) (db_relay_metadata (sf_db f))\<rparr> else sf_db f)\<rparr>"

definition set_hash :: "arr32 \<Rightarrow> store_file \<Rightarrow> store_file" where
  "set_hash h f = f\<lparr>sf_meta := map_option (\<lambda>(m, _). (m, h)) (sf_meta f)\<rparr>"

text \<open>The chain of \<open>if schema <= n\<close>: each runs the text of version \<open>n + 1\<close> and records its hash.\<close>

definition upgrade_to :: "(bytes \<Rightarrow> arr32) \<Rightarrow> schema_texts \<Rightarrow> nat \<Rightarrow> nat \<Rightarrow> store_file \<Rightarrow> store_file" where
  "upgrade_to sha256 t schema v f =
     (if schema \<le> v - 1 then set_hash (expected_hash sha256 t v) (run_schema v f) else f)"

definition upgrade :: "(bytes \<Rightarrow> arr32) \<Rightarrow> schema_texts \<Rightarrow> nat \<Rightarrow> store_file \<Rightarrow> store_file" where
  "upgrade sha256 t schema f = fold (upgrade_to sha256 t schema) [2..<12] f"

definition store_open ::
    "(bytes \<Rightarrow> arr32) \<Rightarrow> schema_texts \<Rightarrow> cipher \<Rightarrow> member_id \<Rightarrow> limits \<Rightarrow> store_file
     \<Rightarrow> (durable_error + store) \<times> store_file" where
  "store_open sha256 t ci member limits file =
     (if \<not> (1 \<le> lm_objects limits \<and> lm_objects limits \<le> 4096)
         \<or> \<not> (1 \<le> lm_bytes limits \<and> lm_bytes limits \<le> 128 * 1024 * 1024)
         \<or> \<not> (1 \<le> lm_operations limits \<and> lm_operations limits \<le> 8192)
      then (Inl InvalidInput, file)
      else if ci_version ci = None \<or> ci_version ci = Some [] then (Inl CipherUnavailable, file)
      else if \<not> ci_key_ok ci then (Inl KeyOrCorruption, file)
      else if \<not> sf_version file \<le> 11 then (Inl UnsupportedSchema, file)
      else if \<not> ci_wal ci then (Inl StorageUnavailable, file)
      else
        let schema = sf_version file in
        if schema = 0 \<and> \<not> sf_blank file then (Inl UnsupportedSchema, file)
        else
          let f = (if schema = 0
                   then \<lparr>sf_version = 1, sf_blank = False, sf_meta = Some (member, sha256 (SCHEMA t)), sf_db = db_empty\<rparr>
                   else file)
          in case sf_meta f of
               None \<Rightarrow> (Inl Corrupt, file)
             | Some (stored_member, stored_hash) \<Rightarrow>
                 if stored_member \<noteq> member \<or> stored_hash \<noteq> expected_hash sha256 t schema then (Inl Conflict, file)
                 else
                   let f = upgrade sha256 t schema f in
                   (Inr \<lparr>st_db = sf_db f, st_member = member, st_limits = limits\<rparr>, f))"

definition limits_default :: limits where
  "limits_default = \<lparr>lm_objects = 4096, lm_bytes = 64 * 1024 * 1024, lm_operations = 8192\<rparr>"

section \<open>Migrations\<close>

lemma upgrade_noop: "n \<le> schema \<Longrightarrow> fold (upgrade_to sha256 t schema) [2..<Suc n] f = f"
  by (induction n) (auto simp: upgrade_to_def)

lemma fold_step: "1 \<le> n \<Longrightarrow> fold F [2..<Suc (Suc n)] f = F (Suc n) (fold F [2..<Suc n] f)"
  by simp

lemma upgrade_to_fold:
  assumes "1 \<le> schema" and "schema \<le> n" and "n \<le> 11" and "sf_version f = schema"
    and "sf_meta f = Some (member, expected_hash sha256 t schema)"
  shows "sf_version (fold (upgrade_to sha256 t schema) [2..<Suc n] f) = n \<and>
    sf_meta (fold (upgrade_to sha256 t schema) [2..<Suc n] f) = Some (member, expected_hash sha256 t n)"
  using assms(2,3)
proof (induction n)
  case (Suc n)
  show ?case
  proof (cases "schema = Suc n")
    case True
    then show ?thesis using upgrade_noop [of "Suc n" schema] assms(4,5) by (simp del: upt_Suc)
  next
    case False
    then have IH: "sf_version (fold (upgrade_to sha256 t schema) [2..<Suc n] f) = n"
      "sf_meta (fold (upgrade_to sha256 t schema) [2..<Suc n] f) = Some (member, expected_hash sha256 t n)"
      using Suc by simp_all
    define g where "g = fold (upgrade_to sha256 t schema) [2..<Suc n] f"
    have step: "fold (upgrade_to sha256 t schema) [2..<Suc (Suc n)] f = upgrade_to sha256 t schema (Suc n) g"
      unfolding g_def using False assms(1) Suc.prems by (intro fold_step) simp
    show ?thesis unfolding step
      using IH [folded g_def] False Suc.prems by (simp add: upgrade_to_def set_hash_def run_schema_def)
  qed
qed (use assms in simp)

text \<open>The rows that a migration from the version keeps: all, but for the new column of version 6.\<close>

definition migrated :: "nat \<Rightarrow> db \<Rightarrow> db" where
  "migrated schema d = (if schema \<le> 5 then d\<lparr>db_relay_metadata :=
     tb_map (\<lambda>(frame, _). (frame, rf_previous_hop frame)) (db_relay_metadata d)\<rparr> else d)"

lemma upgrade_rows:
  assumes "n \<le> 11"
  shows "sf_db (fold (upgrade_to sha256 t schema) [2..<Suc n] f) = (if n < 6 then sf_db f else migrated schema (sf_db f))"
  using assms
proof (induction n)
  case (Suc n)
  show ?case
  proof (cases "n = 0")
    case False
    define g where "g = fold (upgrade_to sha256 t schema) [2..<Suc n] f"
    have step: "fold (upgrade_to sha256 t schema) [2..<Suc (Suc n)] f = upgrade_to sha256 t schema (Suc n) g"
      unfolding g_def using False by (intro fold_step) simp
    have "sf_db g = (if n < 6 then sf_db f else migrated schema (sf_db f))"
      unfolding g_def using Suc by simp
    then show ?thesis unfolding step
      by (auto simp: upgrade_to_def set_hash_def run_schema_def migrated_def)
  qed simp
qed simp

lemma upgrade_one: "upgrade sha256 t 0 f = upgrade sha256 t 1 f"
  unfolding upgrade_def by (rule fold_cong) (auto simp: upgrade_to_def)

definition limits_ok :: "limits \<Rightarrow> bool" where
  "limits_ok limits \<longleftrightarrow> 1 \<le> lm_objects limits \<and> lm_objects limits \<le> 4096 \<and> 1 \<le> lm_bytes limits \<and>
     lm_bytes limits \<le> 128 * 1024 * 1024 \<and> 1 \<le> lm_operations limits \<and> lm_operations limits \<le> 8192"

definition cipher_ok :: "cipher \<Rightarrow> bool" where
  "cipher_ok ci \<longleftrightarrow> (\<exists>v. ci_version ci = Some v \<and> v \<noteq> []) \<and> ci_key_ok ci \<and> ci_wal ci"

text \<open>A file that this member can open: new, or of a known version with its hash.\<close>

definition file_ok :: "(bytes \<Rightarrow> arr32) \<Rightarrow> schema_texts \<Rightarrow> member_id \<Rightarrow> store_file \<Rightarrow> bool" where
  "file_ok sha256 t member f \<longleftrightarrow>
     (if sf_version f = 0 then sf_blank f
      else sf_version f \<le> 11 \<and> sf_meta f = Some (member, expected_hash sha256 t (sf_version f)))"

lemma tb_map_empty [simp]: "tb_map f tb_empty = tb_empty"
  by transfer simp

lemma store_open_ok:
  assumes "limits_ok limits" and "cipher_ok ci" and "file_ok sha256 t member file"
  shows "\<exists>f. store_open sha256 t ci member limits file = (Inr \<lparr>st_db = sf_db f, st_member = member, st_limits = limits\<rparr>, f) \<and>
    sf_version f = 11 \<and> sf_meta f = Some (member, expected_hash sha256 t 11) \<and>
    sf_db f = (if sf_version file = 0 then db_empty else migrated (sf_version file) (sf_db file))"
proof -
  define f0 where "f0 = (if sf_version file = 0
    then \<lparr>sf_version = 1, sf_blank = False, sf_meta = Some (member, sha256 (SCHEMA t)), sf_db = db_empty\<rparr> else file)"
  let ?v = "sf_version f0" and ?f = "upgrade sha256 t (sf_version file) f0"
  have v: "1 \<le> ?v" "?v \<le> 11" "sf_meta f0 = Some (member, expected_hash sha256 t ?v)"
    using assms(3) by (auto simp: f0_def file_ok_def expected_hash_def split: if_splits)
  have u: "?f = fold (upgrade_to sha256 t ?v) [2..<Suc 11] f0"
    using upgrade_one by (auto simp: upgrade_def f0_def simp del: upt_Suc upt_Suc_append)
  have "sf_version ?f = 11" "sf_meta ?f = Some (member, expected_hash sha256 t 11)"
    unfolding u using upgrade_to_fold [OF v(1,2) _ refl v(3)] by simp_all
  moreover have "sf_db ?f = (if sf_version file = 0 then db_empty else migrated (sf_version file) (sf_db file))"
    unfolding u upgrade_rows [OF order_refl] by (auto simp: f0_def migrated_def db_empty_def)
  moreover have "expected_hash sha256 t (sf_version file) = expected_hash sha256 t ?v"
    by (simp add: f0_def expected_hash_def)
  then have "store_open sha256 t ci member limits file = (Inr \<lparr>st_db = sf_db ?f, st_member = member, st_limits = limits\<rparr>, ?f)"
    using assms v unfolding store_open_def f0_def [symmetric]
    by (auto simp: limits_ok_def cipher_ok_def file_ok_def Let_def f0_def split: if_splits)
  ultimately show ?thesis by blast
qed

lemma store_open_current:
  assumes "limits_ok limits" and "cipher_ok ci" and "sf_version f = 11" and "sf_meta f = Some (member, expected_hash sha256 t 11)"
  shows "store_open sha256 t ci other limits f =
    (if other = member then (Inr \<lparr>st_db = sf_db f, st_member = member, st_limits = limits\<rparr>, f) else (Inl Conflict, f))"
proof -
  have "upgrade sha256 t 11 f = f" using upgrade_noop [of 11 11 sha256 t f] by (simp add: upgrade_def)
  then show ?thesis using assms by (auto simp: store_open_def limits_ok_def cipher_ok_def)
qed

text \<open>
  C22: opening a new file, or one of any schema version that this member created, migrates it to
  version 11 with all its rows. Whatever the store writes then, the file opens again with exactly
  those rows, and any other member is refused.
\<close>

theorem store_reopens:
  assumes "limits_ok limits" and "cipher_ok ci" and "file_ok sha256 t member file"
  shows "\<exists>s f. store_open sha256 t ci member limits file = (Inr s, f) \<and> sf_version f = 11 \<and>
    s = \<lparr>st_db = (if sf_version file = 0 then db_empty else migrated (sf_version file) (sf_db file)),
      st_member = member, st_limits = limits\<rparr> \<and>
    (\<forall>d other. store_open sha256 t ci other limits (f\<lparr>sf_db := d\<rparr>) =
      (if other = member then (Inr (s\<lparr>st_db := d\<rparr>), f\<lparr>sf_db := d\<rparr>) else (Inl Conflict, f\<lparr>sf_db := d\<rparr>)))"
proof -
  obtain f where f: "store_open sha256 t ci member limits file = (Inr \<lparr>st_db = sf_db f, st_member = member, st_limits = limits\<rparr>, f)"
      "sf_version f = 11" "sf_meta f = Some (member, expected_hash sha256 t 11)"
      "sf_db f = (if sf_version file = 0 then db_empty else migrated (sf_version file) (sf_db file))"
    using store_open_ok [OF assms] by blast
  then show ?thesis using store_open_current [OF assms(1,2), of "f\<lparr>sf_db := _\<rparr>" member] by auto
qed

text \<open>Opening never changes a file that it refuses.\<close>

lemma store_open_error: "store_open sha256 t ci member limits file = (Inl e, f) \<Longrightarrow> f = file"
  by (auto simp: store_open_def Let_def split: if_split_asm option.split_asm prod.split_asm)

definition sample_texts :: schema_texts where
  "sample_texts = \<lparr>SCHEMA = [1], AUTH_SCHEMA = [2], POLICY_SCHEMA = [3], GROUP_CAPACITY_SCHEMA = [4],
     RELAY_CUSTODY_SCHEMA = [5], RELAY_INGRESS_SCHEMA = [6], RELAY_RECEIPT_SCHEMA = [7],
     RECEIPT_ACK_SCHEMA = [8], RELAY_RECEIPT_ACK_SCHEMA = [9], LOGICAL_DELIVERY_SCHEMA = [10],
     ORIGIN_RECEIPT_ACK_SCHEMA = [11]\<rparr>"

definition sample_file :: store_file where
  "sample_file = \<lparr>sf_version = 0, sf_blank = True, sf_meta = None, sf_db = db_empty\<rparr>"

definition sample_cipher :: cipher where
  "sample_cipher = \<lparr>ci_version = Some [52], ci_key_ok = True, ci_wal = True\<rparr>"

theorem store_reopens_witness:
  "\<exists>s f. store_open be_word sample_texts sample_cipher (MemberId 1) limits_default sample_file = (Inr s, f) \<and>
     st_db s = db_empty \<and>
     (\<forall>d other. store_open be_word sample_texts sample_cipher other limits_default (f\<lparr>sf_db := d\<rparr>) =
       (if other = MemberId 1 then (Inr (s\<lparr>st_db := d\<rparr>), f\<lparr>sf_db := d\<rparr>) else (Inl Conflict, f\<lparr>sf_db := d\<rparr>)))"
proof -
  have "limits_ok limits_default" "cipher_ok sample_cipher" "file_ok be_word sample_texts (MemberId 1) sample_file"
    by (simp_all add: limits_ok_def limits_default_def cipher_ok_def sample_cipher_def file_ok_def sample_file_def)
  from store_reopens [OF this] show ?thesis by (auto simp: sample_file_def)
qed

end
