(* ===== verification/Mesh_Store_Runs.thy ===== *)
theory Mesh_Store_Runs
  imports Mesh_Store_Keeps Mesh_Store_Open Mesh_Handles
begin

text \<open>
  Runs of the store: the calls that take \<open>&mut self\<close> as one datatype, the invariant over any
  sequence of them, and the sequence numbers as a table of numbered references (\<open>handle_table\<close>).
\<close>

section \<open>Calls\<close>

datatype store_call =
    Call_reserve operation_id arr32
  | Call_commit operation_id arr32 prepared_object u64
  | Call_commit_sealed operation_id arr32 sealed_message verified_roster u64
  | Call_commit_logical operation_id arr32 sealed_message verified_roster logical_id u64
  | Call_announce manifest u64
  | Call_announce_authenticated authenticated_announcement verified_roster u64
  | Call_put_chunk object_id nat bytes u64
  | Call_put_relay_chunk object_id nat bytes relay_frame member_id u64
  | Call_stage object_id nat bytes u64
  | Call_put_receipt bytes relay_frame member_id u64
  | Call_put_ack bytes relay_frame member_id u64
  | Call_remove_receipt "store \<Rightarrow> bool" arr32
  | Call_begin logical_id nat nat u64 u64
  | Call_install arr32 scope "bytes list" "u64 list" u64
  | Call_rotate arr32 scope "bytes list" "u64 list" authority_handoff u64
  | Call_finalize verified_delivery verified_roster identity_signing_key u64
  | Call_record_receipt verified_receipt verified_roster u64
  | Call_origin_ack object_id member_id verified_roster identity_signing_key u64
  | Call_record_ack verified_receipt_ack verified_roster u64
  | Call_prune u64
  | Call_rollback "store \<Rightarrow> bool" logical_id

text \<open>The answers: what matters later is an error, a sequence that is new, and one given before.\<close>

datatype store_answer =
    Failed durable_error
  | Issued u64
  | Done

definition answered :: "(durable_error + 'a) \<times> store \<Rightarrow> store_answer \<times> store" where
  "answered m = (case m of (Inl e, s) \<Rightarrow> (Failed e, s) | (Inr _, s) \<Rightarrow> (Done, s))"

fun store_step :: "suite \<Rightarrow> store_call \<Rightarrow> store \<Rightarrow> store_answer \<times> store" where
  "store_step p (Call_reserve i h) s =
     (case reserve i h s of
        (Inl e, s') \<Rightarrow> (Failed e, s')
      | (Inr r, s') \<Rightarrow> (if tb_get (db_operations (st_db s)) i = None then Issued (rn_sequence r) else Done, s'))"
| "store_step p (Call_commit i h object now) s = answered (commit_outgoing (hash p) i h object now s)"
| "store_step p (Call_commit_sealed i h m roster now) s = answered (commit_sealed p i h m roster now s)"
| "store_step p (Call_commit_logical i h m roster l now) s = answered (commit_sealed_logical p i h m roster l now s)"
| "store_step p (Call_announce m now) s = answered (announce (hash p) m now s)"
| "store_step p (Call_announce_authenticated a roster now) s = answered (announce_authenticated p a roster now s)"
| "store_step p (Call_put_chunk i k b now) s = answered (put_chunk (hash p) i k b now s)"
| "store_step p (Call_put_relay_chunk i k b frame from now) s = answered (put_relay_chunk (hash p) i k b frame from now s)"
| "store_step p (Call_stage i k b now) s = answered (stage_authenticated_chunk p i k b now s)"
| "store_step p (Call_put_receipt b frame from now) s = answered (put_relay_receipt (hash p) b frame from now s)"
| "store_step p (Call_put_ack b frame from now) s = answered (put_relay_receipt_ack (hash p) b frame from now s)"
| "store_step p (Call_remove_receipt disk i) s = answered (remove_relay_receipt disk i s)"
| "store_step p (Call_begin l n k expires now) s = answered (begin_logical_message l n k expires now s)"
| "store_step p (Call_install a sc cs rs now) s = answered (install_policy p a sc cs rs now s)"
| "store_step p (Call_rotate a sc cs rs ho now) s = answered (install_rotated_policy p a sc cs rs ho now s)"
| "store_step p (Call_finalize v roster k now) s = answered (finalize_received p v roster k now s)"
| "store_step p (Call_record_receipt r roster now) s = answered (record_target_receipt p r roster now s)"
| "store_step p (Call_origin_ack i a roster k now) s = answered (origin_receipt_ack p i a roster k now s)"
| "store_step p (Call_record_ack v roster now) s = answered (record_receipt_ack p v roster now s)"
| "store_step p (Call_prune now) s = answered (prune_expired (hash p) now s)"
| "store_step p (Call_rollback disk l) s = answered (rollback_logical_message disk l s)"

text \<open>
  The values a host can pass: a \<open>Manifest\<close> is only built by its validating constructors and a
  \<open>PreparedObject\<close> only with all its chunks.
\<close>

fun call_ok :: "store_call \<Rightarrow> bool" where
  "call_ok (Call_commit i h object now) \<longleftrightarrow> prepared_ok object"
| "call_ok (Call_commit_sealed i h m roster now) \<longleftrightarrow> prepared_ok (sm_object m)"
| "call_ok (Call_commit_logical i h m roster l now) \<longleftrightarrow> prepared_ok (sm_object m)"
| "call_ok (Call_announce m now) \<longleftrightarrow> manifest_ok m"
| "call_ok (Call_announce_authenticated a roster now) \<longleftrightarrow> manifest_ok (aa_manifest a)"
| "call_ok _ \<longleftrightarrow> True"

primrec store_run :: "suite \<Rightarrow> store_call list \<Rightarrow> store \<Rightarrow> store_answer list \<times> store" where
  "store_run p [] s = ([], s)"
| "store_run p (c # cs) s = (let (r, s) = store_step p c s; (rs, s) = store_run p cs s in (r # rs, s))"

lemma answered_cases:
  "answered m = (r, s') \<longleftrightarrow> (\<exists>e. m = (Inl e, s') \<and> r = Failed e) \<or> (\<exists>x. m = (Inr x, s') \<and> r = Done)"
  by (cases m; cases "fst m") (auto simp: answered_def)

section \<open>Errors\<close>

text \<open>A call that returns an error leaves the store as it was.\<close>

definition atomic :: "(durable_error + 'a) \<times> store \<Rightarrow> store \<Rightarrow> bool" where
  "atomic m s \<longleftrightarrow> (\<forall>e s'. m = (Inl e, s') \<longrightarrow> s' = s)"

named_theorems atomic_intros "calls that leave the store as it was on an error"

lemma atomic_transact [atomic_intros]: "atomic (transact f s) s"
  by (simp add: atomic_def transact_Inl)

lemma atomic_Inl [atomic_intros]: "atomic (Inl e, s) s"
  by (simp add: atomic_def)

lemma atomic_Inr [atomic_intros]: "atomic (Inr x, s') s"
  by (simp add: atomic_def)

lemma atomic_bind [atomic_intros]: "(\<And>y. x = Inr y \<Longrightarrow> atomic (f y s) s) \<Longrightarrow> atomic (bind_st (x, s) f) s"
  by (cases x) (simp_all add: atomic_def)

lemma atomic_if [atomic_intros]: "(c \<Longrightarrow> atomic m s) \<Longrightarrow> (\<not> c \<Longrightarrow> atomic n s) \<Longrightarrow> atomic (if c then m else n) s"
  by simp

lemma atomic_answered: "atomic m s \<Longrightarrow> answered m = (Failed e, s') \<Longrightarrow> s' = s"
  by (auto simp: atomic_def answered_cases)

lemmas store_ops_defs =
  commit_outgoing_def commit_outgoing_inner_def commit_sealed_def commit_sealed_logical_def announce_def
  announce_authenticated_def put_chunk_def put_relay_chunk_def put_chunk_inner_def stage_authenticated_chunk_def
  put_relay_receipt_def put_relay_receipt_ack_def remove_relay_receipt_def begin_logical_message_def
  install_policy_def install_policy_with_transition_def install_rotated_policy_def finalize_received_def
  record_target_receipt_def origin_receipt_ack_def record_receipt_ack_def prune_expired_def
  rollback_logical_message_def Let_def

lemma store_step_failed: "store_step p c s = (Failed e, s') \<Longrightarrow> s' = s"
proof (cases c)
  case (Call_reserve i h)
  assume "store_step p c s = (Failed e, s')"
  then show ?thesis
    unfolding Call_reserve by (auto simp: reserve_def transact_Inl split: prod.splits sum.splits if_splits)
qed (simp, erule atomic_answered [rotated], unfold store_ops_defs, (rule atomic_intros)+)+

section \<open>The invariant over runs\<close>

lemma answered_Done [simp]: "answered m = (Done, s') \<longleftrightarrow> (\<exists>x. m = (Inr x, s'))"
  and answered_Issued [simp]: "answered m \<noteq> (Issued n, s')"
  by (auto simp: answered_cases)

lemma store_step_done:
  assumes ok: "store_ok (hash p) s" and c: "call_ok c" and r: "store_step p c s = (Done, s')"
  shows "kept (hash p) s s'"
proof (cases c)
  case (Call_reserve i h)
  then obtain q where "reserve i h s = (Inr q, s')" "tb_get (db_operations (st_db s)) i \<noteq> None"
    using r by (auto split: prod.splits sum.splits if_splits)
  then have "s' = s" using reserve_keeps [OF ok] by metis
  then show ?thesis using ok kept_refl by simp
next
  case (Call_commit i h object now)
  then show ?thesis using r c commit_keeps [OF ok] by (auto simp: commit_outgoing_def)
next
  case (Call_commit_sealed i h m roster now)
  then show ?thesis using r c commit_sealed_keeps [OF ok] by auto
next
  case (Call_commit_logical i h m roster l now)
  then show ?thesis using r c commit_sealed_keeps [OF ok] by auto
next
  case (Call_install a sc cs rs now)
  then show ?thesis using r policy_part_kept [OF ok] install_policy_part by auto
next
  case (Call_rotate a sc cs rs ho now)
  then show ?thesis using r policy_part_kept [OF ok] install_rotated_part by auto
qed (use r c announce_keeps [OF ok] announce_authenticated_keeps [OF ok] put_chunk_keeps [OF ok] stage_keeps [OF ok]
    put_relay_receipt_keeps [OF ok] put_relay_receipt_ack_keeps [OF ok] remove_relay_receipt_keeps [OF ok]
    begin_logical_keeps [OF ok] finalize_keeps [OF ok] record_receipt_keeps [OF ok] origin_ack_keeps [OF ok]
    record_ack_keeps [OF ok] prune_keeps [OF ok] rollback_keeps [OF ok] in
    \<open>auto simp: put_chunk_def put_relay_chunk_def\<close>)

lemma store_step_issued:
  assumes "store_step p c s = (Issued n, s')"
  obtains i h q where "c = Call_reserve i h" "reserve i h s = (Inr q, s')" "tb_get (db_operations (st_db s)) i = None"
    "rn_sequence q = n"
  using assms by (cases c) (auto split: prod.splits sum.splits if_splits)

text \<open>The sequences that operations hold.\<close>

definition sequences :: "store \<Rightarrow> u64 set" where
  "sequences s = {ow_sequence row |i row. tb_get (db_operations (st_db s)) i = Some row}"

definition issued_sequence :: "store_answer \<Rightarrow> u64 option" where
  "issued_sequence r = (case r of Issued n \<Rightarrow> Some n | _ \<Rightarrow> None)"

lemma same_sequences: "same_operations (st_db s) (st_db s') \<Longrightarrow> sequences s' \<subseteq> sequences s"
  by (fastforce simp: same_operations_def sequences_def)

lemma store_step_keeps:
  assumes ok: "store_ok (hash p) s" and c: "call_ok c" and r: "store_step p c s = (r, s')"
  shows "store_ok (hash p) s' \<and> st_member s' = st_member s \<and> st_limits s' = st_limits s \<and>
    sequences s' \<subseteq> sequences s \<union> set_option (issued_sequence r) \<and>
    (case issued_sequence r of None \<Rightarrow> db_next (st_db s') = db_next (st_db s)
     | Some n \<Rightarrow> n = db_next (st_db s) \<and> db_next (st_db s') = n + 1 \<and> n < MAX_LOGICAL_TIME)"
proof (cases r)
  case (Failed e)
  then have "s' = s" using r store_step_failed by simp
  then show ?thesis using ok Failed by (simp add: issued_sequence_def)
next
  case Done
  have "kept (hash p) s s'" by (rule store_step_done [OF ok c r [unfolded Done]])
  then show ?thesis using same_sequences [of s s']
    by (auto simp: Done issued_sequence_def kept_def same_operations_def)
next
  case (Issued n)
  obtain i h q where q: "reserve i h s = (Inr q, s')" "tb_get (db_operations (st_db s)) i = None" "rn_sequence q = n"
    using r [unfolded Issued] by (rule store_step_issued)
  from reserve_keeps [OF ok q(1)] q(2,3) obtain row where row:
    "store_ok (hash p) s' \<and> st_member s' = st_member s \<and> st_limits s' = st_limits s" "ow_sequence row = n"
    "n = db_next (st_db s)" "db_next (st_db s') = n + 1" "db_operations (st_db s') = tb_put i row (db_operations (st_db s))"
    by auto
  moreover have "n < MAX_LOGICAL_TIME"
    using q row(3) by (auto simp: reserve_def transact_Inr Let_def res_simps split: if_splits)
  ultimately show ?thesis by (auto simp: Issued issued_sequence_def sequences_def split: if_splits)
qed

text \<open>A host that only makes well-formed calls.\<close>

definition host_store :: "suite \<Rightarrow> store_call \<Rightarrow> store \<Rightarrow> store_answer \<times> store" where
  "host_store p c s = (if call_ok c then store_step p c s else (Failed InvalidInput, s))"

lemma word_plus1_less: "n < MAX_LOGICAL_TIME \<Longrightarrow> n < n + 1"
  by (auto simp: MAX_LOGICAL_TIME_def word_less_nat_alt unat_word_ariths)

lemma host_store_keeps:
  assumes "store_ok (hash p) s" and "host_store p c s = (r, s')"
  shows "store_ok (hash p) s' \<and> st_member s' = st_member s \<and> st_limits s' = st_limits s \<and>
    sequences s' \<subseteq> sequences s \<union> set_option (issued_sequence r) \<and>
    (case issued_sequence r of None \<Rightarrow> db_next (st_db s') = db_next (st_db s)
     | Some n \<Rightarrow> n = db_next (st_db s) \<and> db_next (st_db s') = n + 1 \<and> n < MAX_LOGICAL_TIME)"
  using assms store_step_keeps [OF assms(1), of c r s']
  by (auto simp: host_store_def issued_sequence_def split: if_splits)

interpretation seqs: handle_table "\<lambda>s. db_next (st_db s)" sequences "host_store p" issued_sequence "store_ok (hash p)"
  for p
proof (unfold_locales, goal_cases)
  case (1 s c)
  then show ?case using host_store_keeps by (metis prod.collapse)
next
  case (2 s h)
  then show ?case by (auto simp: store_ok_def db_ok_def operations_ok_def sequences_def)
next
  case (3 s c)
  then show ?case
    using host_store_keeps [of p s c "fst (host_store p c s)" "snd (host_store p c s)"]
    by (auto split: option.splits dest: word_plus1_less)
next
  case (4 s c h)
  then show ?case
    using host_store_keeps [of p s c "fst (host_store p c s)" "snd (host_store p c s)"]
    by (auto dest: word_plus1_less)
next
  case (5 s c)
  then show ?case
    using host_store_keeps [of p s c "fst (host_store p c s)" "snd (host_store p c s)"] by auto
qed

lemma store_run_host: "\<forall>c \<in> set cs. call_ok c \<Longrightarrow> seqs.run p cs s = store_run p cs s"
  by (induction cs arbitrary: s) (simp_all add: host_store_def)

section \<open>Runs from a new store\<close>

definition store_new :: "member_id \<Rightarrow> limits \<Rightarrow> store" where
  "store_new member limits = \<lparr>st_db = db_empty, st_member = member, st_limits = limits\<rparr>"

lemma store_new_ok: "store_ok sha256 (store_new member limits)"
  by (simp add: store_new_def store_ok_def db_ok_def db_empty_def objects_ok_def chunks_ok_def complete_ok_def receipts_ok_def
      operations_ok_def logical_ok_def links_ok_def bounds_ok_def depends_def MAX_LOGICAL_TIME_def word_le_nat_alt)

lemma store_run_ok:
  assumes "store_ok (hash p) s" and "\<forall>c \<in> set cs. call_ok c"
  shows "store_ok (hash p) (snd (store_run p cs s)) \<and> st_member (snd (store_run p cs s)) = st_member s \<and>
    st_limits (snd (store_run p cs s)) = st_limits s"
  using assms
proof (induction cs arbitrary: s)
  case (Cons c cs)
  obtain r s' where c: "store_step p c s = (r, s')" by (cases "store_step p c s")
  from store_step_keeps [OF Cons.prems(1) _ c] Cons.prems(2) Cons.IH [of s'] show ?case
    by (simp add: c split_def Let_def)
qed simp

lemma store_new_run:
  assumes "\<forall>c \<in> set cs. call_ok c" and "s = snd (store_run p cs (store_new member limits))"
  shows "store_ok (hash p) s" "st_member s = member" "st_limits s = limits" "db_ok (hash p) member limits (st_db s)"
proof -
  show ok: "store_ok (hash p) s" and m: "st_member s = member" and l: "st_limits s = limits"
    using store_run_ok [OF store_new_ok assms(1), of p member limits] by (simp_all add: assms(2) store_new_def)
  show "db_ok (hash p) member limits (st_db s)" using ok m l by (simp add: store_ok_def)
qed

text \<open>
  C4: every call of the store keeps the invariant of its database: objects under the hash of their
  manifest and within the limits, only chunks that the manifest accepts, foreign keys, receipts of
  targets only, and every sequence used by one operation. A call that fails leaves the store as it
  was.
\<close>

theorem store_calls_safe:
  assumes "store_ok (hash p) s" and "call_ok c" and "store_step p c s = (r, s')"
  shows "store_ok (hash p) s' \<and> st_member s' = st_member s \<and> st_limits s' = st_limits s \<and>
    (\<forall>e. r = Failed e \<longrightarrow> s' = s)"
  using store_step_keeps [OF assms] store_step_failed [of p c s _ s'] assms(3) by blast

theorem store_calls_safe_witness:
  "store_ok (hash sample_suite) (snd (store_step sample_suite (Call_reserve (OperationId 1) 7) (store_new (MemberId 1) limits_default)))"
  using store_calls_safe [OF store_new_ok, where c = "Call_reserve (OperationId 1) 7" and p = sample_suite]
  by (metis call_ok.simps(6) prod.collapse)

lemma chunks_bounded:
  assumes "db_ok sha256 member lim d"
  shows "tb_count (db_chunks d) \<le> 64 * tb_count (db_objects d)"
proof -
  let ?K = "dom (tb_get (db_objects d)) \<times> {..<64 :: nat}"
  have "dom (tb_get (db_chunks d)) \<subseteq> ?K"
  proof
    fix x assume "x \<in> dom (tb_get (db_chunks d))"
    then obtain i k b where x: "x = (i, k)" "tb_get (db_chunks d) (i, k) = Some b" by (cases x) auto
    then obtain m where m: "stored sha256 (db_objects d) i m" "verify_chunk sha256 m k b = Inr ()"
      using assms unfolding db_ok_def chunks_ok_def by blast
    then have "manifest_ok m" by (auto simp: stored_def row_of_def)
    from manifest_hash_bounds [OF this] m have "k < 64" by (auto simp: verify_chunk_iff chunk_count_def)
    then show "x \<in> ?K" using stored_some [OF m(1)] x(1) by auto
  qed
  then have "card (dom (tb_get (db_chunks d))) \<le> card ?K" by (intro card_mono) simp_all
  then show ?thesis by (simp add: tb_count_card card_cartesian_product)
qed

lemma links_bounded:
  assumes "db_ok sha256 member lim d"
  shows "tb_count (db_outbox d) \<le> tb_count (db_objects d)" "tb_count (db_relay_outbox d) \<le> tb_count (db_objects d)"
    "tb_count (db_local d) \<le> tb_count (db_objects d)"
  using assms by (auto simp: db_ok_def links_ok_def depends_def intro!: tb_count_depends)

lemma custody_queue_bounded: "length (custody_queue t now) \<le> tb_count t"
  using length_filter_le [of _ "map snd (tb_rows t)"] by (simp add: custody_queue_def tb_count_def)

text \<open>
  Whatever calls a host makes, a new store never holds more objects, reserved bytes, operations,
  receipts or acknowledgements in custody than its limits allow, and \<open>stats\<close> shows it.
\<close>

theorem store_bounded:
  assumes "\<forall>c \<in> set cs. call_ok c" and "s = snd (store_run p cs (store_new member limits))"
  shows "\<exists>st. st_stats s = Inr st \<and> sa_objects st \<le> lm_objects limits \<and> sa_bytes_reserved st \<le> lm_bytes limits \<and>
    sa_operations st \<le> lm_operations limits \<and> sa_chunks st \<le> 64 * sa_objects st \<and>
    sa_outbox st \<le> sa_objects st \<and> sa_relay_outbox st \<le> sa_objects st \<and> sa_local st \<le> sa_objects st \<and>
    length (custody_queue (db_relay_receipts (st_db s)) now) \<le> lm_operations limits \<and>
    length (custody_queue (db_relay_acks (st_db s)) now) \<le> lm_operations limits"
proof -
  have ok: "db_ok (hash p) member limits (st_db s)"
    by (rule store_new_run(4) [OF assms])
  then have "bounds_ok limits (st_db s)" by (simp add: db_ok_def)
  then show ?thesis
    using chunks_bounded [OF ok] links_bounded [OF ok] custody_queue_bounded [of "db_relay_receipts (st_db s)" now]
      custody_queue_bounded [of "db_relay_acks (st_db s)" now]
    by (simp add: st_stats_def Let_def bounds_ok_def)
qed

theorem store_bounded_witness:
  "\<exists>st. st_stats (snd (store_run sample_suite [Call_reserve (OperationId 1) 7, Call_prune 5] (store_new (MemberId 1) limits_default))) =
     Inr st \<and> sa_operations st \<le> 8192"
  using store_bounded [where cs = "[Call_reserve (OperationId 1) 7, Call_prune 5]" and p = sample_suite
      and member = "MemberId 1" and limits = limits_default, OF _ refl]
  by (auto simp: limits_default_def)

lemma issued_below:
  assumes "store_ok (hash p) s" and "\<forall>c \<in> set cs. call_ok c" and "store_run p cs s = (rs, s')"
  shows "\<forall>n \<in> set (List.map_filter issued_sequence rs). n < MAX_LOGICAL_TIME"
  using assms
proof (induction cs arbitrary: s rs)
  case (Cons c cs)
  obtain r s1 where c: "store_step p c s = (r, s1)" by (cases "store_step p c s")
  obtain rs1 where rs: "store_run p cs s1 = (rs1, s')" "rs = r # rs1"
    using Cons.prems(3) by (auto simp: c split: prod.splits)
  have k: "store_ok (hash p) s1" "\<forall>n. issued_sequence r = Some n \<longrightarrow> n < MAX_LOGICAL_TIME"
    using store_step_keeps [OF Cons.prems(1) _ c] Cons.prems(2) by auto
  show ?case
    using Cons.IH [OF k(1) _ rs(1)] Cons.prems(2) k(2)
    by (auto simp: rs(2) List.map_filter_simps split: option.splits)
qed (simp add: List.map_filter_simps)

text \<open>
  C5: the sequences that \<open>reserve\<close> gives to new operations only ever increase, from 1 on, also when
  operations are pruned in between; an object that is bound to an operation has this member as its
  origin and the sequence of that operation.
\<close>

theorem sequences_never_reused:
  assumes "\<forall>c \<in> set cs. call_ok c" and "store_run p cs (store_new member limits) = (rs, s)"
  shows "sorted_wrt (<) (List.map_filter issued_sequence rs) \<and>
    (\<forall>n \<in> set (List.map_filter issued_sequence rs). 1 \<le> n \<and> n < MAX_LOGICAL_TIME) \<and>
    (\<forall>i row ob. tb_get (db_operations (st_db s)) i = Some row \<longrightarrow> ow_object row = Some ob \<longrightarrow>
      (\<exists>m. st_manifest (hash p) s ob = Inr m \<and> mf_origin m = member \<and> mf_sequence m = ow_sequence row))"
proof -
  let ?s0 = "store_new member limits"
  have run: "seqs.run p cs ?s0 = (rs, s)" using store_run_host [OF assms(1)] assms(2) by simp
  have asc: "sorted_wrt (<) (List.map_filter issued_sequence rs)"
    "\<forall>n \<in> set (List.map_filter issued_sequence rs). 1 \<le> n"
    using seqs.handles_ascending [OF store_new_ok, of p cs member limits] run
    by (simp_all add: seqs.handles_def store_new_def db_empty_def)
  have ok: "store_ok (hash p) s" "st_member s = member"
    using store_new_run [OF assms(1), of s p member limits] assms(2) by simp_all
  have "\<exists>m. st_manifest (hash p) s ob = Inr m \<and> mf_origin m = member \<and> mf_sequence m = ow_sequence row"
    if op: "tb_get (db_operations (st_db s)) i = Some row" "ow_object row = Some ob" for i row ob
  proof -
    have parts: "objects_ok (hash p) (db_objects (st_db s))"
        "operations_ok member (db_next (st_db s)) (db_objects (st_db s)) (db_operations (st_db s))"
      using ok by (simp_all add: store_ok_def db_ok_def)
    obtain b where b: "tb_get (db_objects (st_db s)) ob = Some b" "bw_origin b = member" "bw_sequence b = ow_sequence row"
      using parts(2) op unfolding operations_ok_def by blast
    obtain m where "row_of (hash p) ob b m" using parts(1) b(1) unfolding objects_ok_def by blast
    then show ?thesis
      using b unfolding st_manifest_def manifest_from_iff [OF parts(1)] stored_def by (auto simp: row_of_def)
  qed
  then show ?thesis using asc issued_below [OF store_new_ok assms] by blast
qed

theorem sequences_never_reused_witness:
  "sorted_wrt (<) (List.map_filter issued_sequence (fst (store_run sample_suite
     [Call_reserve (OperationId 1) 7, Call_prune 5, Call_reserve (OperationId 1) 7] (store_new (MemberId 1) limits_default))))"
proof -
  let ?cs = "[Call_reserve (OperationId 1) 7, Call_prune 5, Call_reserve (OperationId 1) 7]"
  have "\<forall>c \<in> set ?cs. call_ok c" by simp
  from sequences_never_reused [OF this prod.collapse [symmetric]] show ?thesis by blast
qed

end
