(* ===== verification/Mesh_Store_Installed.thy ===== *)
theory Mesh_Store_Installed
  imports Mesh_Store_Runs
begin

text \<open>
  The installed policy over runs of the store: only the two installing calls touch it, what they
  store verifies to the digest they store, and the group, the epoch and the authority are pinned.
\<close>

section \<open>What leaves the policy alone\<close>

definition policy_of :: "db \<Rightarrow> policy_row option \<times> (nat, bytes) table \<times> (u64, unit) table" where
  "policy_of d = (db_policy d, db_certificates d, db_revocations d)"

lemma policy_insert_manifest: "insert_manifest sha256 lim m d = Inr d' \<Longrightarrow> policy_of d' = policy_of d"
  by (auto simp: insert_manifest_def Let_def res_simps policy_of_def split: option.splits if_splits)

lemma policy_insert_announcement: "insert_announcement i b d = Inr d' \<Longrightarrow> policy_of d' = policy_of d"
  by (auto simp: insert_announcement_def res_simps policy_of_def)

lemma policy_insert_chunk: "insert_chunk i k b d = Inr d' \<Longrightarrow> policy_of d' = policy_of d"
  by (auto simp: insert_chunk_def res_simps policy_of_def split: option.splits if_splits)

lemma policy_insert_chunks: "insert_chunks sha256 m k bs d = Inr d' \<Longrightarrow> policy_of d' = policy_of d"
  by (induction bs arbitrary: k d) (auto simp: res_simps dest!: policy_insert_chunk)

lemma policy_set_complete [simp]: "policy_of (set_complete i d) = policy_of d"
  by (simp add: set_complete_def policy_of_def split: option.splits)

lemma policy_link: "link_logical_object l ob n d = Inr d' \<Longrightarrow> policy_of d' = policy_of d"
  by (auto simp: link_logical_object_def Let_def res_simps policy_of_def split: option.splits if_splits prod.splits)

lemma policy_record_relay: "record_relay m i f from d = Inr d' \<Longrightarrow> policy_of d' = policy_of d"
  by (auto simp: record_relay_def res_simps policy_of_def split: option.splits if_splits prod.splits)

lemma policy_delete_object [simp]: "policy_of (delete_object i d) = policy_of d"
  by (simp add: delete_object_def Let_def policy_of_def)

lemma policy_delete_objects [simp]: "policy_of (fold delete_object ids d) = policy_of d"
  by (induction ids arbitrary: d) simp_all

lemma policy_delete_logical: "delete_logical P d = Inr d' \<Longrightarrow> policy_of d' = policy_of d"
  by (auto simp: delete_logical_def Let_def policy_of_def split: if_splits)

lemma policy_delete_unbound [simp]: "policy_of (delete_unbound d) = policy_of d"
  by (simp add: delete_unbound_def policy_of_def)

lemma policy_commit:
  assumes "commit_outgoing_inner sha256 i h object now ann logical s = (Inr ob, s')"
  shows "policy_of (st_db s') = policy_of (st_db s)"
  using assms
proof (cases rule: commit_steps)
  case (2 row d1 d2 d3 d5 d6)
  have "policy_of d2 = policy_of (st_db s)"
    using 2(10) policy_insert_manifest [OF 2(9)] policy_insert_announcement by (cases ann) force+
  moreover have "policy_of d3 = policy_of d2" by (rule policy_insert_chunks [OF 2(11)])
  moreover have "policy_of d5 = policy_of (set_complete ob d3)"
    using 2(12) policy_link by (cases logical) (force simp: policy_of_def)+
  moreover have "policy_of d6 = policy_of d5" using 2(14) by (auto simp: policy_of_def)
  ultimately show ?thesis by (simp add: 2(13)) (simp add: policy_of_def)
qed simp

lemma policy_object_complete:
  assumes "object_complete m i now relay s d = Inr (x, e)"
  shows "policy_of e = policy_of d"
proof -
  have out: "policy_of (c\<lparr>db_relay_outbox := t\<rparr>) = policy_of c" "policy_of (c\<lparr>db_local := u\<rparr>) = policy_of c" for c t u
    by (simp_all add: policy_of_def)
  show ?thesis
    using assms
    by (auto simp: object_complete_def Let_def res_simps out split: if_split_asm option.split_asm prod.split_asm
        dest!: policy_record_relay)
qed

lemma policy_put_chunk:
  assumes "put_chunk_inner sha256 i k b now relay s = (Inr x, s')"
  shows "policy_of (st_db s') = policy_of (st_db s)"
  using assms unfolding put_chunk_inner_def transact_Inr
  by (elim exE conjE bindr_InrE)
    (auto split: if_split_asm dest!: policy_insert_chunk policy_object_complete)

definition installs :: "store_call \<Rightarrow> bool" where
  "installs c = (case c of Call_install _ _ _ _ _ \<Rightarrow> True | Call_rotate _ _ _ _ _ _ \<Rightarrow> True | _ \<Rightarrow> False)"

lemma policy_announce: "announce sha256 m now s = (Inr x, s') \<Longrightarrow> policy_of (st_db s') = policy_of (st_db s)"
  by (auto simp: announce_def res_simps transact_Inr dest!: policy_insert_manifest)

lemma policy_announce_authenticated:
  assumes "announce_authenticated p a roster now s = (Inr x, s')"
  shows "policy_of (st_db s') = policy_of (st_db s)"
  using assms
  by (rule announce_authenticated_steps) (auto dest!: policy_insert_manifest policy_insert_announcement)

lemma policy_stage: "stage_authenticated_chunk p i k b now s = (Inr x, s') \<Longrightarrow> policy_of (st_db s') = policy_of (st_db s)"
  by (auto simp: stage_authenticated_chunk_def res_simps transact_Inr dest!: policy_insert_chunk)

lemma policy_prune: "prune_expired sha256 now s = (Inr x, s') \<Longrightarrow> policy_of (st_db s') = policy_of (st_db s)"
  by (auto simp: prune_expired_def res_simps transact_Inr Let_def dest!: policy_delete_logical)
    (simp add: policy_of_def delete_unbound_def)

lemma policy_rollback: "rollback_logical_message disk l s = (Inr x, s') \<Longrightarrow> policy_of (st_db s') = policy_of (st_db s)"
  by (auto simp: rollback_logical_message_def res_simps transact_Inr Let_def split: if_splits dest!: policy_delete_logical)

lemma policy_finalize:
  assumes "finalize_received p v roster k now s = (Inr x, s')"
  shows "policy_of (st_db s') = policy_of (st_db s)"
  using assms by (cases rule: finalize_steps) (simp_all, simp add: policy_of_def)

lemma policy_record_receipt:
  assumes "record_target_receipt p r roster now s = (Inr x, s')"
  shows "policy_of (st_db s') = policy_of (st_db s)"
  using assms by (rule record_receipt_steps) (simp add: policy_of_def)

lemma policy_step:
  assumes "store_step p c s = (r, s')" and "\<not> installs c"
  shows "policy_of (st_db s') = policy_of (st_db s)"
proof (cases r)
  case (Failed e)
  have "s' = s" by (rule store_step_failed [OF assms(1) [unfolded Failed]])
  then show ?thesis by simp
next
  case (Issued n)
  then obtain i h q where "reserve i h s = (Inr q, s')"
    using store_step_issued [OF assms(1) [unfolded Issued]] by metis
  then show ?thesis
    by (auto simp: reserve_def transact_Inr Let_def res_simps policy_of_def split: option.splits if_splits)
next
  case Done
  show ?thesis
  proof (cases c)
    case (Call_reserve i h)
    then obtain q where "reserve i h s = (Inr q, s')" using assms(1) Done by (auto split: prod.splits sum.splits if_splits)
    then show ?thesis
      by (auto simp: reserve_def transact_Inr Let_def res_simps policy_of_def split: option.splits if_splits)
  next
    case (Call_put_receipt b f m now)
    then show ?thesis using assms(1) Done
      by (auto simp: put_relay_receipt_def res_simps transact_Inr policy_of_def)
  next
    case (Call_put_ack b f m now)
    then show ?thesis using assms(1) Done
      by (auto simp: put_relay_receipt_ack_def res_simps transact_Inr policy_of_def)
  next
    case (Call_remove_receipt disk i)
    then show ?thesis using assms(1) Done
      by (auto simp: remove_relay_receipt_def transact_Inr policy_of_def split: if_splits)
  next
    case (Call_begin l n k expires now)
    then show ?thesis using assms(1) Done
      by (auto simp: begin_logical_message_def res_simps transact_Inr policy_of_def split: option.splits if_splits)
  next
    case (Call_origin_ack i a roster k now)
    from assms(1) [unfolded Done Call_origin_ack] show ?thesis
      by (auto simp: policy_of_def dest!: origin_ack_steps)
  next
    case (Call_record_ack v roster now)
    from assms(1) [unfolded Done Call_record_ack] show ?thesis
      by (auto simp: policy_of_def dest!: record_ack_steps)
  qed (use assms Done in
      \<open>auto simp: installs_def commit_outgoing_def commit_sealed_def commit_sealed_logical_def put_chunk_def put_relay_chunk_def res_simps
        dest: policy_commit policy_announce policy_announce_authenticated policy_put_chunk policy_stage policy_prune
          policy_rollback policy_finalize policy_record_receipt\<close>)
qed

section \<open>What is stored verifies\<close>

lemma insert_certificates_get:
  "insert_certificates k cs t = Inr t' \<Longrightarrow>
     tb_get t' j = (if k \<le> j \<and> j < k + length cs then Some (cs ! (j - k)) else tb_get t j)"
proof (induction cs arbitrary: k t)
  case (Cons c cs)
  then have "insert_certificates (k + 1) cs (tb_put k c t) = Inr t'" by (auto simp: res_simps)
  from Cons.IH [OF this] show ?case by (cases "j = k") (auto simp: nth_Cons' Suc_diff_le not_less_eq_eq)
qed auto

lemma insert_certificates_error: "insert_certificates k cs t = Inl e \<Longrightarrow> e = StorageUnavailable"
  by (induction cs arbitrary: k t) (auto simp: res_simps insert_row_def split: if_splits)

lemma insert_revocations_error: "insert_revocations rs t = Inl e \<Longrightarrow> e = StorageUnavailable"
  by (induction rs arbitrary: t) (auto simp: res_simps insert_row_def split: if_splits)

lemma insert_certificates_rows:
  assumes "insert_certificates 0 cs tb_empty = Inr t"
  shows "map snd (tb_rows t) = cs"
proof -
  have "tb_rows t = enumerate 0 cs"
    using insert_certificates_get [OF assms]
    by (intro tb_rows_eqI) (auto simp: in_set_enumerate_eq strict_sorted_iff split: if_splits)
  then show ?thesis by simp
qed

lemma insert_revocations_get:
  "insert_revocations rs t = Inr t' \<Longrightarrow> distinct rs \<and> set rs \<inter> dom (tb_get t) = {} \<and>
     dom (tb_get t') = dom (tb_get t) \<union> set rs"
proof (induction rs arbitrary: t)
  case (Cons n ns)
  then have n: "insert_revocations ns (tb_put n () t) = Inr t'" "tb_get t n = None" by (auto simp: res_simps)
  from Cons.IH [OF n(1)] n(2) show ?case by (auto simp: dom_def split: if_splits)
qed simp

lemma insert_revocations_rows:
  assumes "insert_revocations rs tb_empty = Inr t"
  shows "map fst (tb_rows t) = bset_of rs \<and> length (bset_of rs) = length rs"
proof -
  from insert_revocations_get [OF assms] have d: "distinct rs" "dom (tb_get t) = set rs" by (auto simp: dom_def)
  have "fst ` set (tb_rows t) = set rs" using tb.keys_dom [of t] d(2) by simp
  then have "map fst (tb_rows t) = bset_of rs"
    using tb.entries_ascending [of t] ascending_bset_of [of rs]
    by (intro strict_sorted_equal) simp_all
  then show ?thesis using d(1) by (simp add: bset_of_def distinct_remdups_id)
qed

lemma bset_of_bset_of: "bset_of (bset_of xs) = bset_of xs"
  by (simp add: bset_of_eq_iff)

text \<open>A roster does not see whether its revoked serials are sorted.\<close>

lemma roster_verify_sorted:
  "length (bset_of rs) = length rs \<Longrightarrow> roster_verify p a sc cs (bset_of rs) now = roster_verify p a sc cs rs now"
  by (simp add: roster_verify_def bset_of_bset_of)

lemma roster_digest_fixed:
  "roster_verify p a sc cs rs now = Inr r \<Longrightarrow> roster_verify p a sc cs rs t = Inr r' \<Longrightarrow> r' = r"
  by (simp add: roster_verify_iff)

definition policy_snapshot_of :: "policy_row \<Rightarrow> policy_snapshot" where
  "policy_snapshot_of w = \<lparr>ps_authority = pw_authority w,
     ps_scope = \<lparr>sc_group = pw_group w, sc_epoch = pw_epoch w\<rparr>, ps_digest = pw_digest w\<rparr>"

text \<open>The stored certificates verify, at some time, to the stored digest; without a policy there are none.\<close>

definition stored_roster :: "suite \<Rightarrow> db \<Rightarrow> policy_row \<Rightarrow> u64 \<Rightarrow> durable_error + verified_roster" where
  "stored_roster p d w now = roster_verify p (pw_authority w) \<lparr>sc_group = pw_group w, sc_epoch = pw_epoch w\<rparr>
     (map snd (tb_rows (db_certificates d))) (map fst (tb_rows (db_revocations d))) now"

definition policy_inv :: "suite \<Rightarrow> db \<Rightarrow> bool" where
  "policy_inv p d \<longleftrightarrow> (case db_policy d of
     None \<Rightarrow> db_certificates d = tb_empty \<and> db_revocations d = tb_empty
   | Some w \<Rightarrow> \<exists>now r. stored_roster p d w now = Inr r \<and> vr_digest r = pw_digest w)"

lemma policy_inv_same: "policy_of d' = policy_of d \<Longrightarrow> policy_inv p d' = policy_inv p d"
  by (simp add: policy_of_def policy_inv_def stored_roster_def split: option.splits)

lemma active_policy_stored:
  assumes "policy_inv p (st_db s)"
  shows "active_policy p s now = (case db_policy (st_db s) of
     None \<Rightarrow> Inr None
   | Some w \<Rightarrow> bindr (stored_roster p (st_db s) w now) (\<lambda>_. Inr (Some (policy_snapshot_of w))))"
proof (cases "db_policy (st_db s)")
  case None
  then show ?thesis by (simp add: active_policy_def)
next
  case (Some w)
  then obtain t r where r: "stored_roster p (st_db s) w t = Inr r" "vr_digest r = pw_digest w"
    using assms by (auto simp: policy_inv_def)
  show ?thesis
  proof (cases "stored_roster p (st_db s) w now")
    case (Inl e)
    then show ?thesis using Some by (simp add: active_policy_def stored_roster_def)
  next
    case (Inr r')
    then have "r' = r" using r(1) roster_digest_fixed unfolding stored_roster_def by metis
    then show ?thesis using Some Inr r(2) by (simp add: active_policy_def stored_roster_def policy_snapshot_of_def)
  qed
qed

section \<open>Installing\<close>

definition transition_allows :: "policy_snapshot option \<Rightarrow> arr32 \<Rightarrow> scope \<Rightarrow> policy_row \<Rightarrow> bool" where
  "transition_allows prior a sc w \<longleftrightarrow> prior = Some (policy_snapshot_of w) \<and> a \<noteq> pw_authority w \<and>
     sc_group sc = pw_group w \<and> sc_epoch sc = saturating_add (pw_epoch w) 1"

lemma install_steps:
  assumes c: "install_policy_with_transition p a sc cs rs now prior s = (Inr x, s')"
  obtains w roster where "roster_verify p a sc cs rs now = Inr roster" "x = \<lparr>ps_authority = a, ps_scope = sc, ps_digest = vr_digest roster\<rparr>"
      "db_policy (st_db s) = Some w" "sc_epoch sc = pw_epoch w" "pw_group w = sc_group sc" "pw_digest w = vr_digest roster" "s' = s"
  | roster certs revs where "roster_verify p a sc cs rs now = Inr roster"
      "x = \<lparr>ps_authority = a, ps_scope = sc, ps_digest = vr_digest roster\<rparr>"
      "\<And>w. db_policy (st_db s) = Some w \<Longrightarrow> pw_epoch w < sc_epoch sc \<and> pw_group w = sc_group sc \<and>
        (pw_authority w = a \<or> transition_allows prior a sc w)"
      "insert_certificates 0 cs (if db_policy (st_db s) = None then db_certificates (st_db s) else tb_empty) = Inr certs"
      "insert_revocations rs (if db_policy (st_db s) = None then db_revocations (st_db s) else tb_empty) = Inr revs"
      "s' = s\<lparr>st_db := (st_db s)\<lparr>db_policy := Some \<lparr>pw_authority = a, pw_group = sc_group sc, pw_epoch = sc_epoch sc,
         pw_digest = vr_digest roster\<rparr>, db_certificates := certs, db_revocations := revs\<rparr>\<rparr>"
proof -
  obtain roster where r: "roster_verify p a sc cs rs now = Inr roster" "contains_member roster (st_member s)"
    using c by (auto simp: install_policy_with_transition_def res_simps split: if_split_asm)
  show thesis
  proof (cases "db_policy (st_db s)")
    case None
    then obtain certs revs where "insert_certificates 0 cs (db_certificates (st_db s)) = Inr certs"
        "insert_revocations rs (db_revocations (st_db s)) = Inr revs"
        "x = \<lparr>ps_authority = a, ps_scope = sc, ps_digest = vr_digest roster\<rparr>"
        "s' = s\<lparr>st_db := (st_db s)\<lparr>db_policy := Some \<lparr>pw_authority = a, pw_group = sc_group sc, pw_epoch = sc_epoch sc,
           pw_digest = vr_digest roster\<rparr>, db_certificates := certs, db_revocations := revs\<rparr>\<rparr>"
      using c r by (auto simp: install_policy_with_transition_def res_simps transact_Inr Let_def)
    then show thesis using that(2) [OF r(1)] None by simp
  next
    case (Some w)
    have g: "pw_group w = sc_group sc" "pw_epoch w \<le> sc_epoch sc" "pw_authority w = a \<or> transition_allows prior a sc w"
        "sc_epoch sc = pw_epoch w \<Longrightarrow> pw_digest w = vr_digest roster \<and> s' = s"
      using c r Some
      by (auto simp: install_policy_with_transition_def res_simps transact_Inr Let_def transition_allows_def
          policy_snapshot_of_def not_less split: if_split_asm option.split_asm)
    have x: "x = \<lparr>ps_authority = a, ps_scope = sc, ps_digest = vr_digest roster\<rparr>"
      using c r Some
      by (auto simp: install_policy_with_transition_def res_simps transact_Inr Let_def split: if_split_asm)
    show thesis
    proof (cases "sc_epoch sc = pw_epoch w")
      case True
      then show thesis using that(1) [OF r(1) x Some] g by simp
    next
      case False
      then obtain certs revs where "insert_certificates 0 cs tb_empty = Inr certs" "insert_revocations rs tb_empty = Inr revs"
          "s' = s\<lparr>st_db := (st_db s)\<lparr>db_policy := Some \<lparr>pw_authority = a, pw_group = sc_group sc, pw_epoch = sc_epoch sc,
             pw_digest = vr_digest roster\<rparr>, db_certificates := certs, db_revocations := revs\<rparr>\<rparr>"
        using c r Some
        by (auto simp: install_policy_with_transition_def res_simps transact_Inr Let_def split: if_split_asm)
      then show thesis using that(2) [OF r(1) x] g False Some by simp
    qed
  qed
qed

lemma scope_eta [simp]: "\<lparr>sc_group = sc_group sc, sc_epoch = sc_epoch sc\<rparr> = sc" for sc :: scope
  by (cases sc) simp

lemma install_stored:
  assumes inv: "policy_inv p (st_db s)" and c: "install_policy_with_transition p a sc cs rs now prior s = (Inr x, s')"
    and new: "\<And>w. db_policy (st_db s) = Some w \<Longrightarrow> pw_epoch w \<noteq> sc_epoch sc"
  shows "\<exists>w. db_policy (st_db s') = Some w \<and> policy_snapshot_of w = x \<and>
    (\<forall>t. stored_roster p (st_db s') w t = roster_verify p a sc cs rs t) \<and>
    map snd (tb_rows (db_certificates (st_db s'))) = cs \<and> map fst (tb_rows (db_revocations (st_db s'))) = bset_of rs \<and>
    (\<exists>roster. roster_verify p a sc cs rs now = Inr roster \<and> vr_digest roster = pw_digest w) \<and>
    pw_authority w = a \<and> pw_group w = sc_group sc \<and> pw_epoch w = sc_epoch sc"
  using c
proof (cases rule: install_steps)
  case (1 w roster)
  then show ?thesis using new by metis
next
  case (2 roster certs revs)
  let ?w = "\<lparr>pw_authority = a, pw_group = sc_group sc, pw_epoch = sc_epoch sc, pw_digest = vr_digest roster\<rparr>"
  have ins: "insert_certificates 0 cs tb_empty = Inr certs" "insert_revocations rs tb_empty = Inr revs"
    using 2(4,5) inv by (auto simp: policy_inv_def split: if_splits)
  have rows: "map snd (tb_rows certs) = cs" "map fst (tb_rows revs) = bset_of rs" "length (bset_of rs) = length rs"
    using insert_certificates_rows [OF ins(1)] insert_revocations_rows [OF ins(2)] by simp_all
  then have "stored_roster p (st_db s') ?w t = roster_verify p a sc cs rs t" for t
    by (simp add: stored_roster_def 2(6) roster_verify_sorted)
  then show ?thesis using rows 2(1,2) by (intro exI [of _ ?w]) (simp add: 2(6) policy_snapshot_of_def)
qed

lemma install_same:
  assumes "install_policy_with_transition p a sc cs rs now prior s = (Inr x, s')"
    and "db_policy (st_db s) = Some w" and "pw_epoch w = sc_epoch sc"
  shows "s' = s"
  using assms(1) by (cases rule: install_steps) (use assms in auto)

text \<open>Both installing calls end in \<open>install_policy_with_transition\<close>.\<close>

lemma installing_call:
  assumes "store_step p c s = (r, s')" and "s' \<noteq> s" and "installs c"
  obtains a sc cs rs now prior x where "install_policy_with_transition p a sc cs rs now prior s = (Inr x, s')"
    "prior = None \<and> c = Call_install a sc cs rs now \<or>
      (\<exists>ho cur. prior = Some cur \<and> c = Call_rotate a sc cs rs ho now \<and> active_policy p s now = Inr (Some cur) \<and>
         handoff_verify_for p ho (ps_authority cur) (ps_scope cur) (ps_digest cur) now = Inr () \<and>
         a = ah_next_authority ho \<and> sc_group sc = sc_group (ps_scope cur) \<and> sc_epoch sc = ah_next_epoch ho)"
proof -
  have "r = Done"
  proof (cases r)
    case (Failed e)
    have "s' = s" by (rule store_step_failed [OF assms(1) [unfolded Failed]])
    then show ?thesis using assms(2) by blast
  next
    case (Issued n)
    from store_step_issued [OF assms(1) [unfolded Issued]] obtain i h where "c = Call_reserve i h" by metis
    then show ?thesis using assms(3) by (simp add: installs_def)
  qed
  from assms(3) show thesis
  proof (cases c)
    case (Call_install a sc cs rs now)
    then show thesis using assms(1) \<open>r = Done\<close> that [of a sc cs rs now None] by (auto simp: install_policy_def)
  next
    case (Call_rotate a sc cs rs ho now)
    then obtain x where "install_rotated_policy p a sc cs rs ho now s = (Inr x, s')"
      using assms(1) \<open>r = Done\<close> by auto
    then show thesis
      using that [of a sc cs rs now "Some _"] Call_rotate
      by (auto simp: install_rotated_policy_def res_simps split: if_split_asm)
  qed (simp_all add: installs_def)
qed

lemma policy_inv_step:
  assumes inv: "policy_inv p (st_db s)" and c: "store_step p c s = (r, s')"
  shows "policy_inv p (st_db s')"
proof (cases "s' = s \<or> \<not> installs c")
  case True
  then show ?thesis using inv policy_inv_same policy_step [OF c] by metis
next
  case False
  then obtain a sc cs rs now prior x where i: "install_policy_with_transition p a sc cs rs now prior s = (Inr x, s')"
    using installing_call [OF c] by metis
  have "\<And>w. db_policy (st_db s) = Some w \<Longrightarrow> pw_epoch w \<noteq> sc_epoch sc"
    using install_same [OF i] False by blast
  from install_stored [OF inv i this] obtain w roster where "db_policy (st_db s') = Some w"
      "stored_roster p (st_db s') w now = Inr roster" "vr_digest roster = pw_digest w" by auto
  then show ?thesis by (auto simp: policy_inv_def)
qed

lemma store_run_snd: "snd (store_run p (c # cs) s) = snd (store_run p cs (snd (store_step p c s)))"
  by (simp add: split_def Let_def)

lemma policy_inv_run: "policy_inv p (st_db s) \<Longrightarrow> policy_inv p (st_db (snd (store_run p cs s)))"
proof (induction cs arbitrary: s)
  case (Cons c cs)
  then show ?case unfolding store_run_snd by (intro Cons.IH policy_inv_step [OF Cons.prems prod.collapse [symmetric]])
qed simp

lemma policy_inv_new: "policy_inv p (st_db (store_new member limits))"
  by (simp add: policy_inv_def store_new_def db_empty_def)

lemma policy_run_same: "\<forall>c \<in> set cs. \<not> installs c \<Longrightarrow> policy_of (st_db (snd (store_run p cs s))) = policy_of (st_db s)"
proof (induction cs arbitrary: s)
  case (Cons c cs)
  then show ?case using policy_step [of p c s, OF prod.collapse [symmetric]] unfolding store_run_snd by simp
qed simp

lemma install_active:
  assumes inv: "policy_inv p (st_db s)" and i: "install_policy p a sc cs rs now s = (Inr x, s1)"
    and new: "\<And>w. db_policy (st_db s) = Some w \<Longrightarrow> pw_epoch w \<noteq> sc_epoch sc"
    and same: "policy_of (st_db s2) = policy_of (st_db s1)"
  shows "active_policy p s2 t = bindr (roster_verify p a sc cs rs t) (\<lambda>_. Inr (Some x))"
    and "active_policy p s2 now = Inr (Some x)"
    and "st_policy_bundle s2 = Inr (Some \<lparr>pb_authority = a, pb_scope = sc, pb_certificates = cs, pb_revoked = bset_of rs\<rparr>)"
proof -
  have "policy_inv p (st_db s1)"
    by (rule policy_inv_step [OF inv, of "Call_install a sc cs rs now" Done]) (use i in simp)
  then have inv2: "policy_inv p (st_db s2)" using same policy_inv_same by blast
  obtain w roster where w: "db_policy (st_db s1) = Some w" "policy_snapshot_of w = x"
      "\<And>t. stored_roster p (st_db s1) w t = roster_verify p a sc cs rs t"
      "map snd (tb_rows (db_certificates (st_db s1))) = cs" "map fst (tb_rows (db_revocations (st_db s1))) = bset_of rs"
      "roster_verify p a sc cs rs now = Inr roster" "pw_authority w = a" "pw_group w = sc_group sc" "pw_epoch w = sc_epoch sc"
    using install_stored [OF inv i [unfolded install_policy_def] new] by blast
  have s2: "db_policy (st_db s2) = Some w" "\<And>t. stored_roster p (st_db s2) w t = roster_verify p a sc cs rs t"
      "map snd (tb_rows (db_certificates (st_db s2))) = cs" "map fst (tb_rows (db_revocations (st_db s2))) = bset_of rs"
    using w(1,3,4,5) same by (simp_all add: policy_of_def stored_roster_def)
  show act: "active_policy p s2 t = bindr (roster_verify p a sc cs rs t) (\<lambda>_. Inr (Some x))" for t
    using active_policy_stored [OF inv2] s2(1,2) w(2) by simp
  show "active_policy p s2 now = Inr (Some x)" by (simp add: act w(6))
  show "st_policy_bundle s2 = Inr (Some \<lparr>pb_authority = a, pb_scope = sc, pb_certificates = cs, pb_revoked = bset_of rs\<rparr>)"
    using s2 w(7-9) by (simp add: st_policy_bundle_def Let_def)
qed

text \<open>
  C19: a policy that is installed for a new epoch survives everything but another installation: it is
  read back as it was returned, at every time at which its certificates verify, and the bundle that
  is handed on has its certificates in order and its revoked serials sorted.
\<close>

theorem policy_reload:
  assumes "s = snd (store_run p before (store_new member limits))" and "install_policy p a sc cs rs now s = (Inr x, s1)"
    and "\<And>w. db_policy (st_db s) = Some w \<Longrightarrow> pw_epoch w \<noteq> sc_epoch sc"
    and "\<forall>c \<in> set later. \<not> installs c" and "s2 = snd (store_run p later s1)"
  shows "active_policy p s2 t = bindr (roster_verify p a sc cs rs t) (\<lambda>_. Inr (Some x)) \<and>
    active_policy p s2 now = Inr (Some x) \<and>
    st_policy_bundle s2 = Inr (Some \<lparr>pb_authority = a, pb_scope = sc, pb_certificates = cs, pb_revoked = bset_of rs\<rparr>)"
proof -
  have "policy_inv p (st_db s)" unfolding assms(1) by (rule policy_inv_run [OF policy_inv_new])
  note r = install_active [OF this assms(2,3) policy_run_same [OF assms(4), of p s1, folded assms(5)]]
  show ?thesis using r by blast
qed

text \<open>How the active policy may change: the group never, the epoch upwards, the authority by rotation only.\<close>

definition pinned :: "bool \<Rightarrow> policy_row \<Rightarrow> policy_row \<Rightarrow> bool" where
  "pinned rotates w w' \<longleftrightarrow> pw_group w' = pw_group w \<and> pw_epoch w \<le> pw_epoch w' \<and> (pw_epoch w' = pw_epoch w \<longrightarrow> w' = w) \<and>
     (\<not> rotates \<longrightarrow> pw_authority w' = pw_authority w)"

definition rotates :: "store_call \<Rightarrow> bool" where
  "rotates c = (case c of Call_rotate _ _ _ _ _ _ \<Rightarrow> True | _ \<Rightarrow> False)"

lemma pinned_refl: "pinned b w w"
  by (simp add: pinned_def)

lemma pinned_trans: "pinned a u v \<Longrightarrow> pinned b v w \<Longrightarrow> pinned (a \<or> b) u w"
  by (auto simp: pinned_def)

lemma pinned_step:
  assumes c: "store_step p c s = (r, s')" and w: "db_policy (st_db s) = Some w"
  shows "\<exists>w'. db_policy (st_db s') = Some w' \<and> pinned (rotates c) w w'"
proof (cases "s' = s \<or> \<not> installs c")
  case True
  then have "db_policy (st_db s') = Some w" using policy_step [OF c] w by (auto simp: policy_of_def)
  then show ?thesis using pinned_refl by blast
next
  case False
  obtain a sc cs rs now prior x where i: "install_policy_with_transition p a sc cs rs now prior s = (Inr x, s')"
    and k: "prior = None \<or> rotates c"
    by (rule installing_call [OF c]) (use False in \<open>auto simp: rotates_def\<close>)
  from i show ?thesis
  proof (cases rule: install_steps)
    case (2 roster certs revs)
    show ?thesis using 2(3) [OF w] k by (auto simp: 2(6) pinned_def transition_allows_def)
  qed (use False in simp)
qed

lemma pinned_run:
  "db_policy (st_db s) = Some w \<Longrightarrow>
   \<exists>w'. db_policy (st_db (snd (store_run p cs s))) = Some w' \<and> pinned (\<exists>c \<in> set cs. rotates c) w w'"
proof (induction cs arbitrary: s w)
  case Nil
  then show ?case using pinned_refl by auto
next
  case (Cons c cs)
  let ?s = "snd (store_step p c s)"
  obtain v where v: "db_policy (st_db ?s) = Some v" "pinned (rotates c) w v"
    using pinned_step [of p c s, OF prod.collapse [symmetric] Cons.prems] by blast
  from Cons.IH [OF v(1)] obtain w' where w': "db_policy (st_db (snd (store_run p cs ?s))) = Some w'"
    "pinned (\<exists>c \<in> set cs. rotates c) v w'" by blast
  then show ?case using pinned_trans [OF v(2)] unfolding store_run_snd by auto
qed

text \<open>
  C21: once a policy is active, no run of calls removes it, changes its group or lowers its epoch, and
  within one epoch it stays exactly the same. Without a rotation the authority stays as well.
\<close>

theorem policy_pinned:
  assumes "db_policy (st_db s) = Some w"
  shows "\<exists>w'. db_policy (st_db (snd (store_run p cs s))) = Some w' \<and> pw_group w' = pw_group w \<and> pw_epoch w \<le> pw_epoch w' \<and>
    (pw_epoch w' = pw_epoch w \<longrightarrow> w' = w) \<and> ((\<forall>c \<in> set cs. \<not> rotates c) \<longrightarrow> pw_authority w' = pw_authority w)"
  using pinned_run [OF assms, of p cs] by (auto simp: pinned_def)

text \<open>
  C20: a call that replaces the authority is a rotation with a handoff that verifies under the old
  authority for exactly the active policy; it names the new authority and the next epoch.
\<close>

theorem rotation_authorized:
  assumes "store_step p c s = (r, s')" and "db_policy (st_db s) = Some w" and "db_policy (st_db s') = Some w'"
    and "pw_authority w' \<noteq> pw_authority w"
  shows "\<exists>sc cs rs ho now. c = Call_rotate (pw_authority w') sc cs rs ho now \<and>
    handoff_verify_for p ho (pw_authority w) \<lparr>sc_group = pw_group w, sc_epoch = pw_epoch w\<rparr> (pw_digest w) now = Inr () \<and>
    ah_next_authority ho = pw_authority w' \<and> ah_next_epoch ho = pw_epoch w' \<and>
    pw_epoch w' = saturating_add (pw_epoch w) 1"
proof -
  have n: "s' \<noteq> s" using assms(2-4) by auto
  have i: "installs c" using policy_step [OF assms(1)] assms(2-4) by (auto simp: policy_of_def)
  obtain a sc cs rs now prior x where t: "install_policy_with_transition p a sc cs rs now prior s = (Inr x, s')"
    and k: "prior = None \<and> c = Call_install a sc cs rs now \<or>
      (\<exists>ho cur. prior = Some cur \<and> c = Call_rotate a sc cs rs ho now \<and> active_policy p s now = Inr (Some cur) \<and>
         handoff_verify_for p ho (ps_authority cur) (ps_scope cur) (ps_digest cur) now = Inr () \<and>
         a = ah_next_authority ho \<and> sc_group sc = sc_group (ps_scope cur) \<and> sc_epoch sc = ah_next_epoch ho)"
    using assms(1) n i by (rule installing_call)
  from t show ?thesis
  proof (cases rule: install_steps)
    case (2 roster certs revs)
    then have w': "pw_authority w' = a" "pw_epoch w' = sc_epoch sc" using assms(3) by auto
    then have "transition_allows prior a sc w" using 2(3) [OF assms(2)] assms(4) by auto
    then have tr: "prior = Some (policy_snapshot_of w)" "sc_epoch sc = saturating_add (pw_epoch w) 1"
      by (simp_all add: transition_allows_def)
    then obtain ho where "c = Call_rotate a sc cs rs ho now" "a = ah_next_authority ho" "sc_epoch sc = ah_next_epoch ho"
        "handoff_verify_for p ho (pw_authority w) \<lparr>sc_group = pw_group w, sc_epoch = pw_epoch w\<rparr> (pw_digest w) now = Inr ()"
      using k by (auto simp: policy_snapshot_of_def)
    then show ?thesis using w' tr(2) by auto
  qed (use n in simp)
qed

text \<open>
  A list of revoked serials that names one of them twice verifies as a roster, whose digest does
  not see the repetition, but the store cannot install it: the repeated row breaks the primary key.
\<close>

theorem repeated_serial_not_installed:
  assumes "s = snd (store_run p before (store_new member limits))" and "roster_verify p a sc cs rs now = Inr roster"
    and "contains_member roster (st_member s)" and "\<not> distinct rs" and "db_policy (st_db s) = None"
  shows "install_policy p a sc cs rs now s = (Inl StorageUnavailable, s)"
proof -
  have inv: "policy_inv p (st_db s)" unfolding assms(1) by (rule policy_inv_run [OF policy_inv_new])
  have "insert_revocations rs tb_empty = Inl StorageUnavailable"
    using insert_revocations_get [of rs tb_empty] insert_revocations_error assms(4)
    by (cases "insert_revocations rs tb_empty") auto
  moreover have "insert_certificates 0 cs tb_empty = Inl StorageUnavailable \<or> (\<exists>t. insert_certificates 0 cs tb_empty = Inr t)"
    using insert_certificates_error by (cases "insert_certificates 0 cs tb_empty") auto
  ultimately show ?thesis
    using assms(2,3,5) inv
    by (auto simp: install_policy_def install_policy_with_transition_def Let_def transact_def policy_inv_def)
qed

section \<open>A group and its next epoch\<close>

definition next_scope :: scope where
  "next_scope = \<lparr>sc_group = 1, sc_epoch = 2\<rparr>"

definition next_certificate :: bytes where
  "next_certificate = signed_record (claims_bytes ((sample_claims 1)\<lparr>ct_epoch := 2\<rparr>) 0) 0"

definition sample_handoff_of :: authority_handoff where
  "sample_handoff_of = \<lparr>ah_prior_authority = 1, ah_prior_scope = sample_scope, ah_prior_roster_digest = 0,
     ah_next_authority = 2, ah_next_epoch = 2, ah_valid_until = 100, ah_signature = 0\<rparr>"

definition next_roster :: verified_roster where
  "next_roster = roster_of sample_suite 2 next_scope [next_certificate] []"

lemma sample_verify: "sc_epoch sc = 1 \<or> sc_epoch sc = 2 \<Longrightarrow> length m \<le> MAX_SIGNED_BYTES \<Longrightarrow>
    verify sample_suite a sc d m 0 = Inr ()"
  by (auto simp: verify_Inr input_simps sample_suite_def I64_MAX_def word_le_nat_alt)

lemma next_claims_of: "claims_of next_certificate = (sample_claims 1)\<lparr>ct_epoch := 2\<rparr>"
  by (simp add: next_certificate_def)

lemma next_certificate_ok: "certificate_ok sample_suite 2 next_scope {} 5 next_certificate"
proof -
  have "verify sample_suite 2 next_scope Certificate (claims_bytes ((sample_claims 1)\<lparr>ct_epoch := 2\<rparr>) 0) 0 = Inr ()"
    using length_claims_bytes [of "(sample_claims 1)\<lparr>ct_epoch := 2\<rparr>" 0]
    by (intro sample_verify) (simp_all add: next_scope_def)
  then show ?thesis
    unfolding certificate_ok_def next_claims_of Let_def
    by (auto simp: next_certificate_def identity_key_id_def sample_suite_def sample_claims_def next_scope_def
        claims_ok_def MAX_LOGICAL_TIME_def word_le_nat_alt word_less_nat_alt)
qed

lemma next_roster_verify: "roster_verify sample_suite 2 next_scope [next_certificate] [] 5 = Inr next_roster"
  unfolding roster_verify_iff roster_inputs_ok_def
  using next_certificate_ok
  by (simp add: next_roster_def bset_of_def no_duplicates_def next_scope_def MAX_LOGICAL_TIME_def word_le_nat_alt)

lemma sample_digests: "vr_digest next_roster = 0" "vr_digest sample_roster = 0"
  by (simp_all add: next_roster_def sample_roster_def roster_of_def Let_def domain_hash_def sample_suite_def)

lemma next_contains: "contains_member next_roster (MemberId 1)"
  by (simp add: contains_member_def next_roster_def roster_of_def Let_def add_member_def empty_build_def next_claims_of
      sample_claims_def bm_contains_def bm_get_def)

lemma sample_contains: "contains_member sample_roster (MemberId 1)"
  using sample_members(1) [of "MemberId 1" "sample_claims 1"]
  by (simp add: contains_member_def bm_contains_def roster_member_def sample_claims_def res_simps)

lemma sample_certificates_stored:
  "\<exists>t. insert_certificates 0 [sample_certificate 1, sample_certificate 2] tb_empty = Inr t"
  "\<exists>t. insert_certificates 0 [next_certificate] tb_empty = Inr t"
proof -
  have l: "length (claims_bytes c kid) + 84 \<le> 1024" for c kid using length_claims_bytes [of c kid] by simp
  have b: "0 < length (signed_record (claims_bytes c kid) sig)" "length (signed_record (claims_bytes c kid) sig) \<le> 1024" for c kid sig
    using length_signed_record [of "claims_bytes c kid" sig] l [of c kid] length_blob(2) [of "claims_bytes c kid"]
    by (auto simp: signed_record_eq)
  show "\<exists>t. insert_certificates 0 [sample_certificate 1, sample_certificate 2] tb_empty = Inr t"
    "\<exists>t. insert_certificates 0 [next_certificate] tb_empty = Inr t"
    using b by (simp_all add: insert_row_def sample_certificate_def next_certificate_def)
qed

definition group_store :: store where
  "group_store = snd (store_step sample_suite (Call_install 1 sample_scope [sample_certificate 1, sample_certificate 2] [] 5)
     (store_new (MemberId 1) limits_default))"

lemma sample_install:
  "install_policy sample_suite 1 sample_scope [sample_certificate 1, sample_certificate 2] [] 5 (store_new (MemberId 1) limits_default) =
     (Inr \<lparr>ps_authority = 1, ps_scope = sample_scope, ps_digest = 0\<rparr>, group_store) \<and>
   db_policy (st_db group_store) = Some \<lparr>pw_authority = 1, pw_group = 1, pw_epoch = 1, pw_digest = 0\<rparr>"
proof -
  have "roster_verify sample_suite 1 sample_scope [sample_certificate 1, sample_certificate 2] [] 5 = Inr sample_roster"
    by (rule sample_roster_verify) simp_all
  then show ?thesis
    using sample_contains sample_certificates_stored(1)
    by (auto simp: group_store_def install_policy_def install_policy_with_transition_def Let_def transact_def answered_def
        store_new_def db_empty_def sample_digests sample_scope_def)
qed

lemma sample_member: "st_member group_store = MemberId 1"
proof -
  have "policy_part s s' \<Longrightarrow> st_member s' = st_member s" for s s' by (auto simp: policy_part_def)
  from this [OF install_policy_part [OF conjunct1 [OF sample_install]]] show ?thesis by (simp add: store_new_def)
qed

lemma sample_rotation:
  "\<exists>s'. store_step sample_suite (Call_rotate 2 next_scope [next_certificate] [] sample_handoff_of 5) group_store = (Done, s') \<and>
     db_policy (st_db s') = Some \<lparr>pw_authority = 2, pw_group = 1, pw_epoch = 2, pw_digest = 0\<rparr>"
proof -
  let ?x = "\<lparr>ps_authority = 1, ps_scope = sample_scope, ps_digest = 0\<rparr>"
  have "active_policy sample_suite group_store 5 = Inr (Some ?x)"
    by (rule install_active(2) [OF policy_inv_new conjunct1 [OF sample_install] _ refl]) (simp add: store_new_def db_empty_def)
  moreover have "length (handoff_bytes sample_handoff_of) \<le> MAX_SIGNED_BYTES"
    using length_handoff_bytes [of sample_handoff_of] by simp
  then have "handoff_verify_for sample_suite sample_handoff_of 1 sample_scope 0 5 = Inr ()"
    unfolding handoff_verify_iff
    using sample_verify [of sample_scope "handoff_bytes sample_handoff_of" 1 Transition]
    by (simp add: sample_handoff_of_def sample_scope_def handoff_ok_def MAX_LOGICAL_TIME_def word_le_nat_alt word_less_nat_alt)
  ultimately show ?thesis
    using next_contains sample_certificates_stored(2) next_roster_verify sample_install sample_member
    by (auto simp: install_rotated_policy_def install_policy_with_transition_def Let_def transact_def answered_def sample_digests
        sample_handoff_of_def next_scope_def sample_scope_def saturating_add_def checked_add_def)
qed

theorem policy_reload_witness:
  "active_policy sample_suite (snd (store_run sample_suite [Call_prune 7, Call_reserve (OperationId 1) 3] group_store)) 5 =
     Inr (Some \<lparr>ps_authority = 1, ps_scope = sample_scope, ps_digest = 0\<rparr>)"
proof -
  have "\<forall>c \<in> set [Call_prune 7, Call_reserve (OperationId 1) 3]. \<not> installs c" by (simp add: installs_def)
  moreover have "store_new (MemberId 1) limits_default = snd (store_run sample_suite [] (store_new (MemberId 1) limits_default))"
    by simp
  moreover have "pw_epoch w \<noteq> sc_epoch sample_scope" if "db_policy (st_db (store_new (MemberId 1) limits_default)) = Some w" for w
    using that by (simp add: store_new_def db_empty_def)
  ultimately show ?thesis
    using policy_reload [OF _ conjunct1 [OF sample_install] _ _ refl] by blast
qed

theorem policy_pinned_witness:
  "\<exists>w'. db_policy (st_db (snd (store_run sample_suite
       [Call_rotate 2 next_scope [next_certificate] [] sample_handoff_of 5, Call_prune 7] group_store))) = Some w' \<and> pw_group w' = 1"
  using policy_pinned [OF conjunct2 [OF sample_install], of sample_suite
      "[Call_rotate 2 next_scope [next_certificate] [] sample_handoff_of 5, Call_prune 7]"] by auto

theorem rotation_authorized_witness:
  "\<exists>ho. handoff_verify_for sample_suite ho 1 sample_scope 0 5 = Inr () \<and> ah_next_authority ho = 2"
proof -
  obtain s' where s': "store_step sample_suite (Call_rotate 2 next_scope [next_certificate] [] sample_handoff_of 5) group_store = (Done, s')"
     "db_policy (st_db s') = Some \<lparr>pw_authority = 2, pw_group = 1, pw_epoch = 2, pw_digest = 0\<rparr>"
    using sample_rotation by blast
  from rotation_authorized [OF s'(1) conjunct2 [OF sample_install] s'(2)] show ?thesis
    by (auto simp: sample_scope_def)
qed

theorem repeated_serial_not_installed_witness:
  "install_policy sample_suite 1 sample_scope [sample_certificate 1, sample_certificate 2] [7, 7] 5 (store_new (MemberId 1) limits_default) =
     (Inl StorageUnavailable, store_new (MemberId 1) limits_default)"
proof -
  let ?es = "[sample_certificate 1, sample_certificate 2]"
  have "roster_inputs_ok sample_suite 1 sample_scope ?es [] 5"
    using sample_roster_verify [of 5 ?es] by (simp add: roster_verify_iff)
  moreover have "certificate_ok p a sc {7} t e" if "certificate_ok p a sc {} t e" "ct_serial (claims_of e) \<noteq> 7" for p a sc t e
    using that by (simp add: certificate_ok_def Let_def)
  moreover have "ct_serial (claims_of (sample_certificate 1)) \<noteq> 7" "ct_serial (claims_of (sample_certificate 2)) \<noteq> 7"
    by (simp_all add: sample_certificate_def, simp_all add: sample_claims_def)
  ultimately have "roster_inputs_ok sample_suite 1 sample_scope ?es [7, 7] 5"
    unfolding roster_inputs_ok_def by simp
  then have v: "roster_verify sample_suite 1 sample_scope ?es [7, 7] 5 = Inr (roster_of sample_suite 1 sample_scope ?es (bset_of [7, 7]))"
    by (simp add: roster_verify_iff)
  have c: "contains_member (roster_of sample_suite 1 sample_scope ?es (bset_of [7, 7])) (st_member (store_new (MemberId 1) limits_default))"
    using sample_contains by (simp add: contains_member_def sample_roster_def roster_of_def Let_def store_new_def)
  show ?thesis
    by (rule repeated_serial_not_installed [of _ sample_suite "[]", OF _ v c]) (simp_all add: store_new_def db_empty_def)
qed

end
