(* ===== verification/Mesh_Store_Delivery.thy ===== *)
theory Mesh_Store_Delivery
  imports Mesh_Store_Runs
begin

text \<open>
  Delivery through the store: an announced object is complete after its chunks were staged in any
  order, a receipt is issued once, and the origin counts each target once and retires the object
  when all have confirmed.
\<close>

section \<open>Complete objects\<close>

text \<open>The store holds the announced object with these chunks.\<close>

definition announced :: "suite \<Rightarrow> store \<Rightarrow> authenticated_announcement \<Rightarrow> bool" where
  "announced p s a \<longleftrightarrow>
     stored (hash p) (db_objects (st_db s)) (manifest_id (hash p) (aa_manifest a)) (aa_manifest a) \<and>
     tb_get (db_announcements (st_db s)) (manifest_id (hash p) (aa_manifest a)) = Some (aa_encoded a)"

definition holds_chunks :: "suite \<Rightarrow> store \<Rightarrow> manifest \<Rightarrow> bytes list \<Rightarrow> bool" where
  "holds_chunks p s m cs \<longleftrightarrow> length cs = chunk_count m \<and>
     (\<forall>k < chunk_count m. tb_get (db_chunks (st_db s)) (manifest_id (hash p) m, k) = Some (cs ! k))"

lemma read_object_chunks:
  assumes "\<And>k. k \<in> set ks \<Longrightarrow> st_chunk (hash p) s i k = Inr (cs ! k)"
  shows "read_object p s i ks = Inr (concat (map ((!) cs) ks))"
  using assms by (induction ks) (auto simp: res_simps)

lemma div_ceil_rest:
  assumes "0 < n"
  shows "(div_ceil n 1024 - 1) * 1024 < n \<and> n \<le> div_ceil n 1024 * 1024"
proof -
  obtain q r where n: "n = q * 1024 + r" "r < 1024" "q = n div 1024" "r = n mod 1024"
    using div_mult_mod_eq [of n 1024] by (metis mod_less_divisor zero_less_numeral)
  have "div_ceil n 1024 = (if r = 0 then q else q + 1)" by (simp add: div_ceil_def flip: n(3,4))
  then show ?thesis using n(1,2) assms by (cases q) auto
qed

lemma chunk_count_bounds:
  assumes "manifest_ok m"
  shows "0 < chunk_count m" "chunk_count m \<le> 64" "(chunk_count m - 1) * 1024 < mf_content_len m"
    "mf_content_len m \<le> chunk_count m * 1024"
  using manifest_hash_bounds [OF assms] manifest_ok_bounds [OF assms] div_ceil_rest [of "mf_content_len m"]
  by (simp_all add: chunk_count_def)

lemma verify_chunk_length:
  assumes "manifest_ok m" and "verify_chunk sha256 m k b = Inr ()"
  shows "k < 64" "0 < length b" "length b \<le> 1024"
proof -
  note b = chunk_count_bounds [OF assms(1)]
  have v: "k < chunk_count m" "length b = (if k + 1 = chunk_count m then mf_content_len m - k * 1024 else 1024)"
    using assms(2) by (simp_all add: verify_chunk_iff)
  show "k < 64" using b v by simp
  have "k + 1 = chunk_count m \<Longrightarrow> k = chunk_count m - 1" by simp
  then show "0 < length b" "length b \<le> 1024" using b v by auto
qed

lemma verified_lengths:
  assumes v: "\<And>k. k < chunk_count m \<Longrightarrow> verify_chunk sha256 m k (cs ! k) = Inr ()" and n: "length cs = chunk_count m"
    and m: "manifest_ok m"
  shows "length (concat cs) = mf_content_len m"
proof -
  have b: "0 < chunk_count m" "(chunk_count m - 1) * 1024 < mf_content_len m"
    using chunk_count_bounds [OF m] by simp_all
  have "map length cs = replicate (chunk_count m - 1) 1024 @ [mf_content_len m - (chunk_count m - 1) * 1024]"
    using v n b(1) by (intro nth_equalityI) (auto simp: verify_chunk_iff nth_append)
  then have "sum_list (map length cs) = mf_content_len m" using b(2) by (simp add: sum_list_replicate)
  then show ?thesis by (simp add: length_concat)
qed

lemma object_bytes_holds:
  assumes ok: "store_ok (hash p) s" and m: "stored (hash p) (db_objects (st_db s)) (manifest_id (hash p) m) m"
    and c: "holds_chunks p s m cs"
  shows "object_bytes p s (manifest_id (hash p) m) = Inr (concat cs)"
proof -
  let ?i = "manifest_id (hash p) m" and ?d = "st_db s"
  have d: "db_ok (hash p) (st_member s) (st_limits s) ?d" using ok by (simp add: store_ok_def)
  then have mf: "st_manifest (hash p) s ?i = Inr m" using m by (simp add: st_manifest_def manifest_from_iff db_ok_def)
  have v: "verify_chunk (hash p) m k (cs ! k) = Inr ()" if k: "k < chunk_count m" for k
  proof -
    have "tb_get (db_chunks ?d) (?i, k) = Some (cs ! k)" using c k by (simp add: holds_chunks_def)
    then obtain n where "stored (hash p) (db_objects ?d) ?i n" "verify_chunk (hash p) n k (cs ! k) = Inr ()"
      using d unfolding db_ok_def chunks_ok_def by blast
    then show ?thesis using stored_unique [OF m] by blast
  qed
  have ch: "st_chunk (hash p) s ?i k = Inr (cs ! k)" if "k \<in> set [0..<chunk_count m]" for k
    using that c v by (simp add: st_chunk_def mf holds_chunks_def)
  have "map ((!) cs) [0..<chunk_count m] = cs" using c map_nth [of cs] by (simp add: holds_chunks_def)
  moreover have "read_object p s ?i [0..<chunk_count m] = Inr (concat (map ((!) cs) [0..<chunk_count m]))"
    by (rule read_object_chunks [OF ch])
  ultimately have "read_object p s ?i [0..<chunk_count m] = Inr (concat cs)" by simp
  moreover have "manifest_ok m" using m by (auto simp: stored_def row_of_def)
  with verified_lengths [OF v] have "length (concat cs) = mf_content_len m" using c by (simp add: holds_chunks_def)
  ultimately show ?thesis by (simp add: object_bytes_def mf)
qed

section \<open>Staging\<close>

text \<open>One staged chunk: it is verified, stored, and nothing else changes.\<close>

lemma stage_chunk:
  assumes ok: "store_ok (hash p) s" and a: "announced p s a" and now: "now < mf_expires_at (aa_manifest a)"
    and clock: "now \<le> MAX_LOGICAL_TIME"
    and v: "verify_chunk (hash p) (aa_manifest a) k b = Inr ()"
    and free: "tb_get (db_chunks (st_db s)) (manifest_id (hash p) (aa_manifest a), k) = None \<or>
      tb_get (db_chunks (st_db s)) (manifest_id (hash p) (aa_manifest a), k) = Some b"
  shows "\<exists>c x. stage_authenticated_chunk p (manifest_id (hash p) (aa_manifest a)) k b now s =
      (Inr x, s\<lparr>st_db := (st_db s)\<lparr>db_chunks := c\<rparr>\<rparr>) \<and>
    tb_get c = (tb_get (db_chunks (st_db s)))((manifest_id (hash p) (aa_manifest a), k) \<mapsto> b)"
proof -
  let ?m = "aa_manifest a" and ?d = "st_db s"
  let ?i = "manifest_id (hash p) ?m"
  have st: "stored (hash p) (db_objects ?d) ?i ?m" "tb_get (db_announcements ?d) ?i = Some (aa_encoded a)"
    using a by (simp_all add: announced_def)
  have mf: "manifest_from (hash p) ?d ?i = Inr ?m"
    using ok st(1) by (simp add: manifest_from_iff store_ok_def db_ok_def)
  have m: "manifest_ok ?m" using st(1) by (auto simp: stored_def row_of_def)
  have "\<exists>c. insert_chunk ?i k b ?d = Inr (?d\<lparr>db_chunks := c\<rparr>) \<and> tb_get c = (tb_get (db_chunks ?d))((?i, k) \<mapsto> b)"
  proof (cases "tb_get (db_chunks ?d) (?i, k)")
    case None
    then show ?thesis
      using verify_chunk_length [OF m v] stored_some [OF st(1)]
      by (intro exI [of _ "tb_put (?i, k) b (db_chunks ?d)"]) (simp add: insert_chunk_def insert_row_def references_def)
  next
    case (Some x)
    then show ?thesis using free by (intro exI [of _ "db_chunks ?d"]) (auto simp: insert_chunk_def fun_upd_idem)
  qed
  then obtain c where c: "insert_chunk ?i k b ?d = Inr (?d\<lparr>db_chunks := c\<rparr>)" "tb_get c = (tb_get (db_chunks ?d))((?i, k) \<mapsto> b)"
    by blast
  have "live ?m now = Inr ()" using now clock by (simp add: live_Inr)
  then show ?thesis
    using c v by (intro exI [of _ c]) (simp add: stage_authenticated_chunk_def transact_def stored_announcement_def st(2) mf)
qed

text \<open>Staging the chunks of a list of positions, in the order of the list.\<close>

definition stage_calls :: "object_id \<Rightarrow> bytes list \<Rightarrow> u64 \<Rightarrow> nat list \<Rightarrow> store_call list" where
  "stage_calls i cs now ks = map (\<lambda>k. Call_stage i k (cs ! k) now) ks"

lemma stage_chunks:
  assumes ok: "store_ok (hash p) s" and a: "announced p s a" and now: "now < mf_expires_at (aa_manifest a)" "now \<le> MAX_LOGICAL_TIME"
    and v: "\<And>k. k \<in> set ks \<Longrightarrow> verify_chunk (hash p) (aa_manifest a) k (cs ! k) = Inr ()"
    and free: "\<And>k. k \<in> set ks \<Longrightarrow> tb_get (db_chunks (st_db s)) (manifest_id (hash p) (aa_manifest a), k) = None \<or>
      tb_get (db_chunks (st_db s)) (manifest_id (hash p) (aa_manifest a), k) = Some (cs ! k)"
    and i: "i = manifest_id (hash p) (aa_manifest a)"
  shows "\<exists>c. store_run p (stage_calls i cs now ks) s = (replicate (length ks) Done, s\<lparr>st_db := (st_db s)\<lparr>db_chunks := c\<rparr>\<rparr>) \<and>
    (\<forall>k. tb_get c (i, k) = (if k \<in> set ks then Some (cs ! k) else tb_get (db_chunks (st_db s)) (i, k)))"
  using assms
proof (induction ks arbitrary: s)
  case Nil
  then show ?case by (auto simp: stage_calls_def intro!: exI [of _ "db_chunks (st_db s)"])
next
  case (Cons k ks)
  obtain c x where c: "stage_authenticated_chunk p i k (cs ! k) now s = (Inr x, s\<lparr>st_db := (st_db s)\<lparr>db_chunks := c\<rparr>\<rparr>)"
      "tb_get c = (tb_get (db_chunks (st_db s)))((i, k) \<mapsto> cs ! k)"
    using stage_chunk [OF Cons.prems(1-4), of k "cs ! k"] Cons.prems(5,6) i by auto
  let ?s = "s\<lparr>st_db := (st_db s)\<lparr>db_chunks := c\<rparr>\<rparr>"
  have "kept (hash p) s ?s" by (rule stage_keeps [OF Cons.prems(1) c(1)])
  then have "store_ok (hash p) ?s" by (simp only: kept_def)
  moreover have "announced p ?s a" using Cons.prems(2) by (simp add: announced_def)
  ultimately obtain c' where c': "store_run p (stage_calls i cs now ks) ?s =
      (replicate (length ks) Done, ?s\<lparr>st_db := (st_db ?s)\<lparr>db_chunks := c'\<rparr>\<rparr>)"
      "\<forall>j. tb_get c' (i, j) = (if j \<in> set ks then Some (cs ! j) else tb_get (db_chunks (st_db ?s)) (i, j))"
    using Cons.IH [of ?s] Cons.prems(3-7) c(2) by fastforce
  then show ?case
    using c by (intro exI [of _ c']) (auto simp: stage_calls_def answered_def)
qed

lemma read_object_missing:
  assumes "\<And>k. k \<in> set ks \<Longrightarrow> is_ok (st_chunk (hash p) s i k) \<or> st_chunk (hash p) s i k = Inl NotFound"
    and "\<exists>k \<in> set ks. st_chunk (hash p) s i k = Inl NotFound"
  shows "read_object p s i ks = Inl NotFound"
  using assms
proof (induction ks)
  case (Cons k ks)
  show ?case
  proof (cases "st_chunk (hash p) s i k")
    case (Inl e)
    then show ?thesis using Cons.prems(1) [of k] by (simp add: is_ok_def)
  next
    case (Inr b)
    then have "read_object p s i ks = Inl NotFound" using Cons by auto
    then show ?thesis using Inr by simp
  qed
qed simp

lemma object_bytes_missing:
  assumes ok: "store_ok (hash p) s" and m: "stored (hash p) (db_objects (st_db s)) (manifest_id (hash p) m) m"
    and k: "k < chunk_count m" "tb_get (db_chunks (st_db s)) (manifest_id (hash p) m, k) = None"
  shows "object_bytes p s (manifest_id (hash p) m) = Inl NotFound"
proof -
  let ?i = "manifest_id (hash p) m" and ?d = "st_db s"
  have d: "db_ok (hash p) (st_member s) (st_limits s) ?d" using ok by (simp add: store_ok_def)
  then have mf: "st_manifest (hash p) s ?i = Inr m" using m by (simp add: st_manifest_def manifest_from_iff db_ok_def)
  have "is_ok (st_chunk (hash p) s ?i j) \<or> st_chunk (hash p) s ?i j = Inl NotFound" if j: "j < chunk_count m" for j
  proof (cases "tb_get (db_chunks ?d) (?i, j)")
    case None
    then show ?thesis using j by (simp add: st_chunk_def mf)
  next
    case (Some b)
    then obtain n where "stored (hash p) (db_objects ?d) ?i n" "verify_chunk (hash p) n j b = Inr ()"
      using d unfolding db_ok_def chunks_ok_def by blast
    then have "verify_chunk (hash p) m j b = Inr ()" using stored_unique [OF m] by blast
    then show ?thesis using j Some by (simp add: st_chunk_def mf)
  qed
  moreover have "st_chunk (hash p) s ?i k = Inl NotFound" using k by (simp add: st_chunk_def mf)
  ultimately have "read_object p s ?i [0..<chunk_count m] = Inl NotFound"
    using k(1) by (intro read_object_missing) auto
  then show ?thesis by (simp add: object_bytes_def mf)
qed

lemma store_run_stage_ok:
  assumes "store_ok (hash p) s"
  shows "store_ok (hash p) (snd (store_run p (stage_calls i cs now ks) s))"
  using store_run_ok [OF assms, of "stage_calls i cs now ks"] by (auto simp: stage_calls_def)

text \<open>
  C14: an announced object of which no chunk is there yet takes its chunks in any order and any number
  of times. As soon as every position has been staged, and not before, the store gives back exactly
  the bytes the chunks were cut from.
\<close>

theorem staging_any_order:
  assumes "store_ok (hash p) s" and "announced p s a" and "now < mf_expires_at (aa_manifest a)" and "now \<le> MAX_LOGICAL_TIME"
    and "length cs = chunk_count (aa_manifest a)" and "\<forall>k < length cs. verify_chunk (hash p) (aa_manifest a) k (cs ! k) = Inr ()"
    and "set ks \<subseteq> {..<length cs}" and "i = manifest_id (hash p) (aa_manifest a)" and "\<forall>k. tb_get (db_chunks (st_db s)) (i, k) = None"
  shows "fst (store_run p (stage_calls i cs now ks) s) = replicate (length ks) Done \<and>
    object_bytes p (snd (store_run p (stage_calls i cs now ks) s)) i =
      (if {..<length cs} \<subseteq> set ks then Inr (concat cs) else Inl NotFound)"
proof -
  let ?m = "aa_manifest a"
  let ?s = "snd (store_run p (stage_calls i cs now ks) s)"
  obtain c where c: "store_run p (stage_calls i cs now ks) s = (replicate (length ks) Done, s\<lparr>st_db := (st_db s)\<lparr>db_chunks := c\<rparr>\<rparr>)"
      "\<forall>k. tb_get c (i, k) = (if k \<in> set ks then Some (cs ! k) else tb_get (db_chunks (st_db s)) (i, k))"
    using stage_chunks [OF assms(1-4) _ _ assms(8), of ks cs] assms(6,7,9)
    by (auto simp: subset_iff assms(8))
  have ok: "store_ok (hash p) ?s" by (rule store_run_stage_ok [OF assms(1)])
  have m: "stored (hash p) (db_objects (st_db ?s)) (manifest_id (hash p) ?m) ?m"
    using assms(2) c(1) by (simp add: announced_def)
  have "object_bytes p ?s i = Inr (concat cs)" if "{..<length cs} \<subseteq> set ks"
  proof -
    have "holds_chunks p ?s ?m cs" using that c assms(5,8) by (auto simp: holds_chunks_def)
    then show ?thesis unfolding assms(8) by (rule object_bytes_holds [OF ok [unfolded assms(8)] m [unfolded assms(8)], unfolded assms(8)])
  qed
  moreover have "object_bytes p ?s i = Inl NotFound" if miss: "\<not> {..<length cs} \<subseteq> set ks"
  proof -
    obtain k where "k < chunk_count ?m" "k \<notin> set ks" using miss assms(5) by auto
    then show ?thesis using object_bytes_missing [OF ok m] c assms(8,9) by simp
  qed
  ultimately show ?thesis using c(1) by simp
qed

section \<open>Announcing and sealing\<close>

lemma announcement_stored:
  assumes "store_ok sha256 s" and "check_mode (st_db s) i (Some b) = Inr ()" and "0 < length b" "length b \<le> 8192"
  shows "tb_get (insert_or_ignore (0 < length b \<and> length b \<le> 8192) i b (db_announcements (st_db s))) i = Some b"
proof (cases "tb_get (db_announcements (st_db s)) i")
  case None
  then show ?thesis using assms(3,4) by (simp add: insert_or_ignore_get)
next
  case (Some c)
  then have "tb_get (db_objects (st_db s)) i \<noteq> None"
    using assms(1) unfolding store_ok_def db_ok_def links_ok_def depends_def by (metis option.simps(3))
  then have "c = b" using assms(2) Some by (auto simp: check_mode_def split: if_splits)
  then show ?thesis using Some by (simp add: insert_or_ignore_get)
qed

lemma announcement_length:
  assumes "authenticate_announcement p encoded roster now = Inr a"
  shows "0 < length encoded" "length encoded \<le> 8192"
proof -
  obtain body sig where e: "encoded = signed_record body sig" "length encoded \<le> MAX_ANNOUNCEMENT"
    using assms by (auto simp: authenticate_announcement_iff)
  show "0 < length encoded" using length_blob(2) [of body] by (auto simp: e(1) signed_record_eq)
  show "length encoded \<le> 8192" using e(2) by simp
qed

lemma announce_announced:
  assumes ok: "store_ok (hash p) s" and c: "announce_authenticated p a roster now s = (Inr i, s')"
    and a: "authenticate_announcement p (aa_encoded a) roster t = Inr a"
  shows "i = manifest_id (hash p) (aa_manifest a)" "announced p s' a" "store_ok (hash p) s'" "st_member s' = st_member s"
    "db_chunks (st_db s') = db_chunks (st_db s)" "db_local (st_db s') = db_local (st_db s)"
    "db_deliveries (st_db s') = db_deliveries (st_db s)"
proof -
  have m: "manifest_ok (aa_manifest a)" using a by (simp add: authenticate_announcement_iff)
  from c obtain d1 d2 where d: "i = manifest_id (hash p) (aa_manifest a)" "check_mode (st_db s) i (Some (aa_encoded a)) = Inr ()"
      "insert_manifest (hash p) (st_limits s) (aa_manifest a) (st_db s) = Inr d1"
      "insert_announcement i (aa_encoded a) d1 = Inr d2" "s' = s\<lparr>st_db := d2\<rparr>"
    by (rule announce_authenticated_steps)
  have ok': "db_ok (hash p) (st_member s) (st_limits s) (st_db s)" using ok by (simp add: store_ok_def)
  from insert_manifest_keeps [OF ok' m d(3)] obtain t where t: "d1 = (st_db s)\<lparr>db_objects := t\<rparr>"
      "stored (hash p) (db_objects d1) i (aa_manifest a)" "db_ok (hash p) (st_member s) (st_limits s) d1"
    unfolding d(1) by blast
  note d2 = conjunct2 [OF insert_announcement_keeps [OF t(3) d(4)]]
  have "tb_get (db_announcements d2) i = Some (aa_encoded a)"
    using announcement_stored [OF ok d(2) announcement_length [OF a]] unfolding d2 t(1) by simp
  then show "announced p s' a" using t(2) unfolding announced_def d(5) d2 d(1) [symmetric] by simp
  have k: "kept (hash p) s s'" by (rule announce_authenticated_keeps [OF ok m c])
  then show "store_ok (hash p) s'" "st_member s' = st_member s" by (simp_all only: kept_def)
  show "db_chunks (st_db s') = db_chunks (st_db s)" "db_local (st_db s') = db_local (st_db s)"
    "db_deliveries (st_db s') = db_deliveries (st_db s)"
    unfolding d(5) d2 t(1) by simp_all
qed (use announce_authenticated_steps [OF c] in metis)

section \<open>Receipts\<close>

lemma set_complete_tables [simp]:
  "db_local (set_complete i d) = db_local d" "db_deliveries (set_complete i d) = db_deliveries d"
  "db_announcements (set_complete i d) = db_announcements d" "db_chunks (set_complete i d) = db_chunks d"
  "db_acknowledged (set_complete i d) = db_acknowledged d"
  by (simp_all add: set_complete_def split: option.splits)

lemma finalized:
  assumes "finalize_received p v roster k now s = (Inr x, s1)"
  shows "receipt_from (st_db s1) (vd_object_id (hash p) v) (st_member s1) = Some x \<and> vd_member v = st_member s1 \<and>
    tb_get (db_announcements (st_db s1)) (vd_object_id (hash p) v) = Some (aa_encoded (vd_announcement v)) \<and>
    (s1 = s \<or> receipt_for_commit p v k now = Inr (rm_receipt x) \<and> lc_at (rm_local x) = now)"
  using assms
proof (cases rule: finalize_steps)
  case (2 m)
  have x: "x = \<lparr>rm_local = \<lparr>lc_object = vd_object_id (hash p) v, lc_member = st_member s, lc_at = now\<rparr>, rm_receipt = rm_receipt x\<rparr>"
    using 2(8) by (cases x) simp
  show ?thesis
    using 2(2,3,7,8) x unfolding 2(11) by (simp add: receipt_from_def)
qed simp

text \<open>
  C13: a delivery is finalized once. Finalizing again, at any time, with any roster and any key, changes
  nothing and answers what the check of the announcement against the roster and the time answers,
  and if that passes the receipt that was stored the first time; \<open>local_receipt\<close> and \<open>local_commit\<close> show
  the same, and the receipt was signed at the time it records.
\<close>

theorem finalize_once:
  assumes "finalize_received p v roster k now s = (Inr x, s1)"
  shows "finalize_received p v roster' k' now' s1 = (bindr (aa_validate_roster (vd_announcement v) roster' now') (\<lambda>_. Inr x), s1) \<and>
    local_receipt s1 (vd_object_id (hash p) v) = Inr (Some x) \<and>
    st_local_commit s1 (vd_object_id (hash p) v) = Inr (Some (rm_local x)) \<and>
    (s1 = s \<or> receipt_for_commit p v k (lc_at (rm_local x)) = Inr (rm_receipt x) \<and> lc_at (rm_local x) = now)"
proof -
  note f = finalized [OF assms]
  have "finalize_received p v roster' k' now' s1 = (bindr (aa_validate_roster (vd_announcement v) roster' now') (\<lambda>_. Inr x), s1)"
    using f by (cases "aa_validate_roster (vd_announcement v) roster' now'")
      (simp_all add: finalize_received_def Let_def transact_def stored_announcement_def)
  moreover have "st_local_commit s1 (vd_object_id (hash p) v) = Inr (Some (rm_local x))"
    using f by (auto simp: st_local_commit_def receipt_from_def split: option.splits)
  ultimately show ?thesis using f by (auto simp: local_receipt_def)
qed

lemma receipt_length:
  assumes "receipt_for_commit p v k now = Inr receipt"
  shows "0 < length receipt" "length receipt \<le> 1024"
proof -
  obtain s x i f n a t sig where r: "receipt = signed_record (receipt_body s x i f n a t) sig"
    using assms by (auto simp: receipt_for_commit_def res_simps Let_def split: if_splits)
  show "0 < length receipt" using length_blob(2) [of "receipt_body s x i f n a t"] by (auto simp: r signed_record_eq)
  show "length receipt \<le> 1024"
    using length_signed_record(2) [of "receipt_body s x i f n a t" sig] length_receipt_body [of s x i f n a t] by (simp add: r)
qed

text \<open>What is complete, verified and within its time can be finalized.\<close>

lemma finalize_succeeds:
  assumes ok: "store_ok (hash p) s" and a: "announced p s (vd_announcement v)" and me: "vd_member v = st_member s"
    and cs: "holds_chunks p s (aa_manifest (vd_announcement v)) cs"
    and time: "vd_validate_commit v roster now = Inr ()" and r: "receipt_for_commit p v k now = Inr receipt"
    and new: "tb_get (db_local (st_db s)) (vd_object_id (hash p) v) = None"
  shows "\<exists>s1. finalize_received p v roster k now s =
    (Inr \<lparr>rm_local = \<lparr>lc_object = vd_object_id (hash p) v, lc_member = st_member s, lc_at = now\<rparr>, rm_receipt = receipt\<rparr>, s1)"
proof -
  let ?i = "vd_object_id (hash p) v" and ?d = "st_db s" and ?m = "aa_manifest (vd_announcement v)"
  have i: "manifest_id (hash p) ?m = ?i" by (simp add: vd_object_id_def)
  have st: "stored (hash p) (db_objects ?d) ?i ?m" "tb_get (db_announcements ?d) ?i = Some (aa_encoded (vd_announcement v))"
    using a by (simp_all add: announced_def i)
  have d: "db_ok (hash p) (st_member s) (st_limits s) ?d" using ok by (simp add: store_ok_def)
  have mf: "manifest_from (hash p) ?d ?i = Inr ?m" using d st(1) by (simp add: manifest_from_iff db_ok_def)
  have "tb_get (db_deliveries ?d) ?i = None"
    using d new unfolding db_ok_def links_ok_def depends_def by blast
  moreover have "chunks_present p ?d ?i ?m [0..<chunk_count ?m] = Inr ()"
    unfolding chunks_present_Inr
  proof
    fix j assume "j \<in> set [0..<chunk_count ?m]"
    then have b: "tb_get (db_chunks ?d) (?i, j) = Some (cs ! j)" using cs by (simp add: holds_chunks_def i)
    then obtain n where "stored (hash p) (db_objects ?d) ?i n" "verify_chunk (hash p) n j (cs ! j) = Inr ()"
      using d unfolding db_ok_def chunks_ok_def by blast
    then show "\<exists>b. tb_get (db_chunks ?d) (?i, j) = Some b \<and> verify_chunk (hash p) ?m j b = Inr ()"
      using b stored_unique [OF st(1)] by blast
  qed
  moreover have "aa_validate_roster (vd_announcement v) roster now = Inr ()" "now < 2 ^ 63"
  proof -
    show "aa_validate_roster (vd_announcement v) roster now = Inr ()" using time by (auto simp: vd_validate_commit_def res_simps)
    then have "now \<le> MAX_LOGICAL_TIME" by (auto simp: res_simps validate_at_def)
    then show "now < 2 ^ 63" by (simp add: MAX_LOGICAL_TIME_def word_le_nat_alt word_less_nat_alt)
  qed
  moreover have "receipt_from ?d ?i (st_member s) = None" using new by (simp add: receipt_from_def)
  ultimately show ?thesis
    using me st(2) mf time r receipt_length [OF r] stored_some [OF st(1)] new
    by (simp add: finalize_received_def Let_def transact_def stored_announcement_def insert_row_def references_def)
qed

section \<open>Progress at the origin\<close>

definition confirmed_by :: "db \<Rightarrow> object_id \<Rightarrow> manifest \<Rightarrow> member_id set" where
  "confirmed_by d i m = {a \<in> set (mf_targets m). tb_get (db_receipts d) (i, a) \<noteq> None}"

lemma target_receipts_count:
  assumes r: "receipts_ok sha256 (db_objects d) (db_receipts d)" and m: "stored sha256 (db_objects d) i m"
  shows "tb_count (target_receipts d i) = card (confirmed_by d i m)"
proof -
  have "dom (tb_get (target_receipts d i)) = (\<lambda>a. (i, a)) ` confirmed_by d i m"
  proof (intro set_eqI iffI)
    fix x assume "x \<in> dom (tb_get (target_receipts d i))"
    then obtain a b where x: "x = (i, a)" "tb_get (db_receipts d) (i, a) = Some b"
      by (cases x) (auto simp: target_receipts_def dom_def tb_get_retain)
    then obtain n where "stored sha256 (db_objects d) i n" "a \<in> set (mf_targets n)" using r unfolding receipts_ok_def by blast
    then have "a \<in> set (mf_targets m)" using stored_unique [OF m] by blast
    then show "x \<in> (\<lambda>a. (i, a)) ` confirmed_by d i m" using x by (simp add: confirmed_by_def)
  next
    fix x assume "x \<in> (\<lambda>a. (i, a)) ` confirmed_by d i m"
    then show "x \<in> dom (tb_get (target_receipts d i))"
      by (auto simp: confirmed_by_def target_receipts_def dom_def tb_get_retain)
  qed
  then show ?thesis by (simp add: tb_count_card card_image inj_on_def)
qed

lemma ascending_distinct: "ascending xs \<Longrightarrow> distinct (xs :: 'a::linorder list)"
  by (simp add: ascending_iff strict_sorted_iff)

lemma progress_from_eq:
  assumes r: "receipts_ok (hash p) (db_objects d) (db_receipts d)" and m: "stored (hash p) (db_objects d) (manifest_id (hash p) m) m"
  shows "progress_from p d m now =
    (let c = card (confirmed_by d (manifest_id (hash p) m) m); n = card (set (mf_targets m)) in
     Inr \<lparr>dp_state = (if c = n then Delivered else if mf_expires_at m \<le> now then Expired_state else if 0 < c then Relaying else Stored),
       dp_confirmed = c, dp_required = n\<rparr>)"
proof -
  have "manifest_ok m" using m by (auto simp: stored_def row_of_def)
  then have "distinct (mf_targets m)" using manifest_ok_bounds(7) ascending_distinct by blast
  then have "length (mf_targets m) = card (set (mf_targets m))" by (simp add: distinct_card)
  moreover have "card (confirmed_by d (manifest_id (hash p) m) m) \<le> card (set (mf_targets m))"
    by (rule card_mono) (auto simp: confirmed_by_def)
  ultimately show ?thesis
    using target_receipts_count [OF r m] by (auto simp: progress_from_def Let_def)
qed

lemma confirmed_all: "card (confirmed_by d i m) = card (set (mf_targets m)) \<longleftrightarrow> (\<forall>a \<in> set (mf_targets m). tb_get (db_receipts d) (i, a) \<noteq> None)"
proof
  assume "card (confirmed_by d i m) = card (set (mf_targets m))"
  then have "confirmed_by d i m = set (mf_targets m)" by (intro card_subset_eq) (auto simp: confirmed_by_def)
  then show "\<forall>a \<in> set (mf_targets m). tb_get (db_receipts d) (i, a) \<noteq> None" by (auto simp: confirmed_by_def)
next
  assume "\<forall>a \<in> set (mf_targets m). tb_get (db_receipts d) (i, a) \<noteq> None"
  then have "confirmed_by d i m = set (mf_targets m)" by (auto simp: confirmed_by_def)
  then show "card (confirmed_by d i m) = card (set (mf_targets m))" by simp
qed

text \<open>What recording a receipt leaves, and what it answers.\<close>

lemma recorded:
  assumes ok: "store_ok (hash p) s" and c: "record_target_receipt p r roster now s = (Inr g, s')"
    and len: "0 < length (rv_bytes r)" "length (rv_bytes r) \<le> 1024"
  obtains m where "st_manifest (hash p) s (rv_object r) = Inr m" "mf_origin m = st_member s" "rv_actor r \<in> set (mf_targets m)"
    "stored (hash p) (db_objects (st_db s')) (rv_object r) m" "store_ok (hash p) s'"
    "progress_from p (st_db s') m now = Inr g"
    "tb_get (db_receipts (st_db s')) = (tb_get (db_receipts (st_db s)))((rv_object r, rv_actor r) :=
       (case tb_get (db_receipts (st_db s)) (rv_object r, rv_actor r) of None \<Rightarrow> Some (rv_bytes r) | Some b \<Rightarrow> Some b))"
    "db_outbox (st_db s') = (if dp_state g = Delivered then tb_remove (rv_object r) (db_outbox (st_db s)) else db_outbox (st_db s))"
    "tb_get (db_announcements (st_db s')) (rv_object r) = Some (rv_announcement r)"
    "\<exists>i row. tb_get (db_operations (st_db s')) i = Some row \<and> ow_object row = Some (rv_object r)"
    "receipt_validate_commit r roster now = Inr ()" "st_member s' = st_member s"
proof -
  have k: "kept (hash p) s s'" by (rule record_receipt_keeps [OF ok c])
  from c obtain m where m: "receipt_validate_commit r roster now = Inr ()" "manifest_from (hash p) (st_db s) (rv_object r) = Inr m"
      "mf_origin m = st_member s" "tb_get (db_announcements (st_db s)) (rv_object r) = Some (rv_announcement r)"
      "rv_actor r \<in> set (mf_targets m)" "\<exists>i row. tb_get (db_operations (st_db s)) i = Some row \<and> ow_object row = Some (rv_object r)"
      "progress_from p ((st_db s)\<lparr>db_receipts := insert_or_ignore (0 < length (rv_bytes r) \<and> length (rv_bytes r) \<le> 1024)
          (rv_object r, rv_actor r) (rv_bytes r) (db_receipts (st_db s))\<rparr>) m now = Inr g"
      "s' = s\<lparr>st_db := (st_db s)\<lparr>db_receipts := insert_or_ignore (0 < length (rv_bytes r) \<and> length (rv_bytes r) \<le> 1024)
          (rv_object r, rv_actor r) (rv_bytes r) (db_receipts (st_db s)),
        db_outbox := (if dp_state g = Delivered then tb_remove (rv_object r) (db_outbox (st_db s)) else db_outbox (st_db s))\<rparr>\<rparr>"
    by (rule record_receipt_steps)
  have st: "stored (hash p) (db_objects (st_db s)) (rv_object r) m"
    using m(2) ok by (simp add: manifest_from_iff store_ok_def db_ok_def)
  show thesis
  proof (rule that [of m])
    show "tb_get (db_receipts (st_db s')) = (tb_get (db_receipts (st_db s)))((rv_object r, rv_actor r) :=
       (case tb_get (db_receipts (st_db s)) (rv_object r, rv_actor r) of None \<Rightarrow> Some (rv_bytes r) | Some b \<Rightarrow> Some b))"
      using len by (auto simp: m(8) insert_or_ignore_def split: option.splits)
    show "progress_from p (st_db s') m now = Inr g"
      using m(7) by (simp add: m(8) progress_from_def target_receipts_def)
  qed (use m st k in \<open>simp_all add: st_manifest_def kept_def\<close>)
qed

text \<open>
  C12: the origin counts targets, not receipts. Recording a receipt confirms its target once, keeps
  every other receipt, and reports the delivery exactly when all targets of the manifest have
  confirmed; only then the object leaves the outbox. Recording the same receipt again answers the
  same and changes nothing.
\<close>

theorem delivered_when_all_confirmed:
  assumes "store_ok (hash p) s" and "record_target_receipt p r roster now s = (Inr g, s')"
    and "0 < length (rv_bytes r)" and "length (rv_bytes r) \<le> 1024"
  shows "\<exists>m. st_manifest (hash p) s (rv_object r) = Inr m \<and> mf_origin m = st_member s \<and> rv_actor r \<in> set (mf_targets m) \<and>
    dp_required g = card (set (mf_targets m)) \<and>
    dp_confirmed g = card {a \<in> set (mf_targets m). tb_get (db_receipts (st_db s')) (rv_object r, a) \<noteq> None} \<and>
    (dp_state g = Delivered \<longleftrightarrow> (\<forall>a \<in> set (mf_targets m). tb_get (db_receipts (st_db s')) (rv_object r, a) \<noteq> None)) \<and>
    tb_get (db_receipts (st_db s')) (rv_object r, rv_actor r) \<noteq> None \<and>
    (\<forall>x b. tb_get (db_receipts (st_db s)) x = Some b \<longrightarrow> tb_get (db_receipts (st_db s')) x = Some b) \<and>
    (dp_state g = Delivered \<longrightarrow> tb_get (db_outbox (st_db s')) (rv_object r) = None) \<and>
    (dp_state g \<noteq> Delivered \<longrightarrow> db_outbox (st_db s') = db_outbox (st_db s)) \<and>
    record_target_receipt p r roster now s' = (Inr g, s')"
  using assms
proof (rule recorded)
  fix m
  let ?i = "rv_object r" and ?d = "st_db s'"
  assume m: "st_manifest (hash p) s ?i = Inr m" "mf_origin m = st_member s" "rv_actor r \<in> set (mf_targets m)"
    and st: "stored (hash p) (db_objects ?d) ?i m" and ok: "store_ok (hash p) s'" and g: "progress_from p ?d m now = Inr g"
    and rec: "tb_get (db_receipts ?d) = (tb_get (db_receipts (st_db s)))((?i, rv_actor r) :=
       (case tb_get (db_receipts (st_db s)) (?i, rv_actor r) of None \<Rightarrow> Some (rv_bytes r) | Some b \<Rightarrow> Some b))"
    and out: "db_outbox ?d = (if dp_state g = Delivered then tb_remove ?i (db_outbox (st_db s)) else db_outbox (st_db s))"
    and rest: "tb_get (db_announcements ?d) ?i = Some (rv_announcement r)"
      "\<exists>i row. tb_get (db_operations ?d) i = Some row \<and> ow_object row = Some ?i"
      "receipt_validate_commit r roster now = Inr ()" "st_member s' = st_member s"
  have i: "manifest_id (hash p) m = ?i" using st by (auto simp: stored_def row_of_def)
  have ro: "receipts_ok (hash p) (db_objects ?d) (db_receipts ?d)" using ok by (simp add: store_ok_def db_ok_def)
  note e = progress_from_eq [OF ro, of m, unfolded i, OF st]
  have state: "dp_state g = Delivered \<longleftrightarrow> (\<forall>a \<in> set (mf_targets m). tb_get (db_receipts ?d) (?i, a) \<noteq> None)"
    unfolding confirmed_all [symmetric] using g e by (auto simp: Let_def split: if_splits)
  have cnt: "dp_required g = card (set (mf_targets m))"
      "dp_confirmed g = card {a \<in> set (mf_targets m). tb_get (db_receipts ?d) (?i, a) \<noteq> None}"
    using g e by (auto simp: Let_def confirmed_by_def)
  have "tb_get (db_receipts ?d) (?i, rv_actor r) \<noteq> None" by (simp add: rec split: option.splits)
  moreover have "tb_get (db_receipts ?d) x = Some b" if "tb_get (db_receipts (st_db s)) x = Some b" for x b
    using that by (auto simp: rec)
  moreover have "record_target_receipt p r roster now s' = (Inr g, s')"
  proof -
    have "tb_get (db_receipts ?d) (?i, rv_actor r) \<noteq> None" by (simp add: rec split: option.splits)
    then have ins: "insert_or_ignore c (?i, rv_actor r) b (db_receipts ?d) = db_receipts ?d" for c b
      by (simp add: insert_or_ignore_def)
    have rem: "tb_remove ?i (db_outbox ?d) = db_outbox ?d" if "dp_state g = Delivered"
      using that by (intro tb_ext) (simp add: out)
    have "manifest_from (hash p) ?d ?i = Inr m" using ok st by (simp add: manifest_from_iff store_ok_def db_ok_def)
    moreover have "tb_select (\<lambda>_ row. ow_object row = Some ?i) (db_operations ?d) \<noteq> None"
      using rest(2) by (auto simp: tb_select_None)
    ultimately show ?thesis
      using rest m(2,3) stored_some [OF st] g rem
      by (auto simp: record_target_receipt_def Let_def transact_def stored_announcement_def references_def ins)
  qed
  ultimately show ?thesis using m state cnt out by auto
qed

end
