(* ===== verification/Mesh_Journey.thy ===== *)
theory Mesh_Journey
  imports Mesh_Store_Delivery
begin

text \<open>
  A message from end to end, through the two stores that take part: sealed and committed at its
  origin, announced and staged at a target, verified, finalized, and its receipt recorded at the
  origin.
\<close>

section \<open>The origin\<close>

lemma sealed_prepared:
  assumes "sealed_as p k fill roster q sm e key"
  shows "prepared_ok (sm_object sm)" "aa_manifest (sm_announcement sm) = po_manifest (sm_object sm)"
    "concat (po_chunks (sm_object sm)) = envelope_bytes e"
    "mf_expires_at (po_manifest (sm_object sm)) = op_expires_at (sr_policy q)"
    "\<And>j. j < chunk_count (po_manifest (sm_object sm)) \<Longrightarrow>
       verify_chunk (hash p) (po_manifest (sm_object sm)) j (po_chunks (sm_object sm) ! j) = Inr ()"
    "length (po_chunks (sm_object sm)) = chunk_count (po_manifest (sm_object sm))"
    "set (mf_targets (po_manifest (sm_object sm))) = set (op_targets (sr_policy q))"
proof -
  let ?m = "po_manifest (sm_object sm)" and ?cs = "po_chunks (sm_object sm)"
  note s = assms [unfolded sealed_as_def]
  show a: "aa_manifest (sm_announcement sm) = ?m" using s by blast
  show "concat ?cs = envelope_bytes e" using s by simp
  have "manifest_ok (aa_manifest (sm_announcement sm))" using s unfolding authenticate_announcement_iff by blast
  then have m: "manifest_ok ?m" by (simp only: a)
  have i: "length (envelope_bytes e) = mf_content_len ?m" "verify_chunks p ?m 0 ?cs = Inr ()"
    using s by (simp_all add: object_intact_def)
  have "?cs = chunks 1024 (envelope_bytes e)" using s by blast
  then show n: "length ?cs = chunk_count ?m"
    using i(1) manifest_ok_bounds [OF m] by (simp add: length_chunks chunk_count_def)
  show "prepared_ok (sm_object sm)" using m n by (simp add: prepared_ok_def)
  show "verify_chunk (hash p) ?m j (?cs ! j) = Inr ()" if "j < chunk_count ?m" for j
    using i(2) n that by (simp add: verify_chunks_iff)
  have "eh_expires (en_header e) = mf_expires_at ?m" "map fst (eh_targets (en_header e)) = mf_targets ?m"
    using s a by (simp_all add: bound_to_def)
  then show "mf_expires_at ?m = op_expires_at (sr_policy q)" "set (mf_targets ?m) = set (op_targets (sr_policy q))"
    using s by simp_all
qed

lemma committed_origin:
  assumes ok: "store_ok (hash p) s" and sa: "sealed_as p k fill roster q sm e key"
    and c: "commit_sealed p i h sm roster now s = (Inr ob, s1)"
    and row: "tb_get (db_operations (st_db s)) i = Some row" "ow_object row = None"
  shows "ob = manifest_id (hash p) (po_manifest (sm_object sm))" "announced p s1 (sm_announcement sm)"
    "holds_chunks p s1 (po_manifest (sm_object sm)) (po_chunks (sm_object sm))" "store_ok (hash p) s1"
    "st_member s1 = st_member s" "mf_origin (po_manifest (sm_object sm)) = st_member s"
    "\<exists>i row. tb_get (db_operations (st_db s1)) i = Some row \<and> ow_object row = Some ob"
    "tb_get (db_outbox (st_db s1)) ob \<noteq> None" "db_receipts (st_db s1) = db_receipts (st_db s)"
proof -
  let ?a = "sm_announcement sm" and ?m = "po_manifest (sm_object sm)"
  note p = sealed_prepared [OF sa]
  have c': "commit_outgoing_inner (hash p) i h (sm_object sm) now (Some ?a) None s = (Inr ob, s1)"
    using c by (auto simp: commit_sealed_def bind_st_eq_Inr)
  note k = commit_fresh_keeps [OF ok p(1) c' row]
  from c' have steps: "ob = manifest_id (hash p) ?m \<and> mf_origin ?m = st_member s \<and> check_mode (st_db s) ob (Some (aa_encoded ?a)) = Inr ()"
    by (cases rule: commit_steps) simp_all
  then show ob: "ob = manifest_id (hash p) ?m" and "mf_origin ?m = st_member s" by simp_all
  have ann: "authenticate_announcement p (aa_encoded ?a) roster (sr_now q) = Inr ?a" using sa by (simp add: sealed_as_def)
  have "tb_get (db_announcements (st_db s1)) ob = Some (aa_encoded ?a)"
    using announcement_stored [OF ok _ announcement_length [OF ann], of ob] steps k by (simp only: option.case) blast
  then show "announced p s1 ?a" using k p(2) ob by (simp add: announced_def)
  show "holds_chunks p s1 ?m (po_chunks (sm_object sm))" using k p(6) ob by (simp add: holds_chunks_def)
  show "\<exists>i row. tb_get (db_operations (st_db s1)) i = Some row \<and> ow_object row = Some ob"
    using k by (intro exI [of _ i] exI [of _ "row\<lparr>ow_object := Some ob\<rparr>"]) simp
  show "store_ok (hash p) s1" "st_member s1 = st_member s" using k by (simp_all add: kept_def)
  show "tb_get (db_outbox (st_db s1)) ob \<noteq> None" "db_receipts (st_db s1) = db_receipts (st_db s)" using k by blast+
qed

section \<open>The target\<close>

text \<open>What the store gives out for an announced object that it holds.\<close>

lemma announced_reads:
  assumes ok: "store_ok (hash p) s" and a: "announced p s a" and cs: "holds_chunks p s (aa_manifest a) cs"
    and auth: "authenticate_announcement p (aa_encoded a) roster now = Inr a"
  shows "authenticated_announcement_of p s (manifest_id (hash p) (aa_manifest a)) roster now = Inr a"
    "object_bytes p s (manifest_id (hash p) (aa_manifest a)) = Inr (concat cs)"
proof -
  have st: "stored (hash p) (db_objects (st_db s)) (manifest_id (hash p) (aa_manifest a)) (aa_manifest a)"
      "tb_get (db_announcements (st_db s)) (manifest_id (hash p) (aa_manifest a)) = Some (aa_encoded a)"
    using a by (simp_all add: announced_def)
  show "object_bytes p s (manifest_id (hash p) (aa_manifest a)) = Inr (concat cs)"
    by (rule object_bytes_holds [OF ok st(1) cs])
  have "st_manifest (hash p) s (manifest_id (hash p) (aa_manifest a)) = Inr (aa_manifest a)"
    using ok st(1) by (simp add: st_manifest_def manifest_from_iff store_ok_def db_ok_def)
  then show "authenticated_announcement_of p s (manifest_id (hash p) (aa_manifest a)) roster now = Inr a"
    using st(2) auth by (simp add: authenticated_announcement_of_def stored_announcement_def)
qed

lemma authenticates_later:
  assumes "authenticate_announcement p encoded roster t = Inr a" and "validate_at roster now = Inr ()"
  shows "authenticate_announcement p encoded roster now = Inr a"
  using assms unfolding authenticate_announcement_iff by blast

text \<open>The target can sign its receipt: the epoch of the roster was good for the announcement.\<close>

lemma receipt_issued:
  assumes "authenticate_announcement p (aa_encoded (vd_announcement v)) roster t = Inr (vd_announcement v)"
    and "signing_public_key p signer = vd_signing_key v" and "vd_verified_at v \<le> now" and "now < vd_deadline v"
  shows "\<exists>receipt. receipt_for_commit p v signer now = Inr receipt"
proof -
  have "0 < sc_epoch (aa_scope (vd_announcement v)) \<and> sc_epoch (aa_scope (vd_announcement v)) \<le> I64_MAX"
    using assms(1) by (auto simp: authenticate_announcement_iff verify_Inr input_simps)
  moreover have "length (receipt_body s x i f n a w) \<le> MAX_SIGNED_BYTES" for s x i f n a w
    using length_receipt_body [of s x i f n a w] by simp
  ultimately have "\<exists>sig. sign p signer (aa_scope (vd_announcement v)) Receipt_domain
      (receipt_body (aa_scope (vd_announcement v)) x i f n a w) = Inr sig" for x i f n a w
    by (simp add: sign_def signature_input_Inr res_simps)
  then show ?thesis
    using assms(2-4) by (simp add: receipt_for_commit_def Let_def not_le not_less res_simps)
qed

text \<open>The times at which a message can be handled: in its life, with the roster of its sealing.\<close>

definition live_at :: "seal_request \<Rightarrow> verified_roster \<Rightarrow> u64 \<Rightarrow> bool" where
  "live_at q roster t \<longleftrightarrow> sr_now q \<le> t \<and> t < op_expires_at (sr_policy q) \<and> validate_at roster t = Inr ()"

lemma validate_at_time: "validate_at roster t = Inr () \<Longrightarrow> t \<le> MAX_LOGICAL_TIME \<and> t < vr_valid_until roster"
  by (auto simp: validate_at_def res_simps not_le not_less split: if_splits)

lemma target_holds:
  assumes ok: "store_ok (hash p) st" and sa: "sealed_as p k fill roster q sm e key"
    and c: "announce_authenticated p (sm_announcement sm) roster t2 st = (Inr ob, st1)"
    and new: "\<forall>j. tb_get (db_chunks (st_db st)) (ob, j) = None"
    and ks: "set ks = {..<length (po_chunks (sm_object sm))}" and t3: "live_at q roster t3"
    and st2: "st2 = snd (store_run p (stage_calls ob (po_chunks (sm_object sm)) t3 ks) st1)"
  shows "ob = manifest_id (hash p) (po_manifest (sm_object sm))" "store_ok (hash p) st2" "announced p st2 (sm_announcement sm)"
    "holds_chunks p st2 (po_manifest (sm_object sm)) (po_chunks (sm_object sm))" "st_member st2 = st_member st"
    "db_local (st_db st2) = db_local (st_db st)"
    "fst (store_run p (stage_calls ob (po_chunks (sm_object sm)) t3 ks) st1) = replicate (length ks) Done"
proof -
  let ?a = "sm_announcement sm" and ?m = "po_manifest (sm_object sm)" and ?cs = "po_chunks (sm_object sm)"
  note p = sealed_prepared [OF sa]
  have "authenticate_announcement p (aa_encoded ?a) roster (sr_now q) = Inr ?a" using sa by (simp add: sealed_as_def)
  note a = announce_announced [OF ok c this, unfolded p(2)]
  show ob: "ob = manifest_id (hash p) ?m" by (rule a(1))
  have t: "t3 < mf_expires_at (aa_manifest ?a)" "t3 \<le> MAX_LOGICAL_TIME"
    using t3 p(2,4) validate_at_time [of roster t3] by (simp_all add: live_at_def)
  have "\<exists>c. store_run p (stage_calls ob ?cs t3 ks) st1 = (replicate (length ks) Done, st1\<lparr>st_db := (st_db st1)\<lparr>db_chunks := c\<rparr>\<rparr>) \<and>
      (\<forall>j. tb_get c (ob, j) = (if j \<in> set ks then Some (?cs ! j) else tb_get (db_chunks (st_db st1)) (ob, j)))"
    by (rule stage_chunks [OF a(3,2) t]) (use p(2,5,6) ks new a(5) ob in auto)
  then obtain d where d: "store_run p (stage_calls ob ?cs t3 ks) st1 = (replicate (length ks) Done, st1\<lparr>st_db := (st_db st1)\<lparr>db_chunks := d\<rparr>\<rparr>)"
      "\<forall>j. tb_get d (ob, j) = (if j \<in> set ks then Some (?cs ! j) else tb_get (db_chunks (st_db st1)) (ob, j))"
    by blast
  show "store_ok (hash p) st2" unfolding st2 by (rule store_run_stage_ok [OF a(3)])
  show "announced p st2 ?a" using a(2) by (simp add: st2 d(1) announced_def)
  show "holds_chunks p st2 ?m ?cs" using d ks p(6) ob by (simp add: st2 holds_chunks_def)
  show "st_member st2 = st_member st" "db_local (st_db st2) = db_local (st_db st)"
    using a(4,6) by (simp_all add: st2 d(1))
  show "fst (store_run p (stage_calls ob ?cs t3 ks) st1) = replicate (length ks) Done" by (simp add: d(1))
qed

text \<open>A target that holds the object reads the message and finalizes it with a receipt.\<close>

lemma target_finalizes:
  assumes ok: "store_ok (hash p) s" and a: "announced p s (sm_announcement sm)"
    and cs: "holds_chunks p s (po_manifest (sm_object sm)) (po_chunks (sm_object sm))"
    and sa: "sealed_as p k fill roster q sm e key" and kem: "kem_ok k"
    and me: "st_member s \<in> set (op_targets (sr_policy q))" "roster_member roster (st_member s) = Inr c"
      "ct_delivery_key c = kem_sk_to_pk k secret" "ct_signing_key c = signing_public_key p me"
    and ob: "ob = manifest_id (hash p) (po_manifest (sm_object sm))"
    and new: "tb_get (db_local (st_db s)) ob = None"
    and t: "live_at q roster t4" "live_at q roster t5" "t4 \<le> t5"
  shows "\<exists>v x s'. verify_received p k s ob roster secret t4 = Inr v \<and> vd_plaintext v = sr_plaintext q \<and>
    verify_delivery p k (sm_announcement sm) (envelope_bytes e) roster (st_member s) secret t4 = Inr v \<and>
    finalize_received p v roster me t5 s = (Inr x, s') \<and> receipt_for_commit p v me t5 = Inr (rm_receipt x)"
proof -
  let ?a = "sm_announcement sm" and ?m = "po_manifest (sm_object sm)" and ?cs = "po_chunks (sm_object sm)"
  note p = sealed_prepared [OF sa]
  have am: "aa_manifest ?a = ?m" by (rule p(2))
  let ?v = "\<lparr>vd_announcement = ?a, vd_member = st_member s, vd_signing_key = ct_signing_key c,
      vd_context_id = header_context_id p (en_header e), vd_verified_at = t4,
      vd_deadline = min (op_expires_at (sr_policy q)) (vr_valid_until roster), vd_plaintext = sr_plaintext q\<rparr>"
  have v: "verify_delivery p k ?a (envelope_bytes e) roster (st_member s) secret t4 = Inr ?v"
    using t by (intro sealed_delivery [OF kem sa me(1-3)]) (simp_all add: live_at_def)
  have auth: "authenticate_announcement p (aa_encoded ?a) roster (sr_now q) = Inr ?a" using sa by (simp add: sealed_as_def)
  have now: "authenticate_announcement p (aa_encoded ?a) roster t4 = Inr ?a"
    using authenticates_later [OF auth] t by (simp add: live_at_def)
  note r = announced_reads [OF ok a _ now, unfolded am, OF cs, folded ob]
  have read: "verify_received p k s ob roster secret t4 = Inr ?v" using r v p(3) by (simp add: verify_received_def)
  have until: "t5 < op_expires_at (sr_policy q)" "t5 < vr_valid_until roster" "validate_at roster t5 = Inr ()"
    using t(2) validate_at_time [of roster t5] by (simp_all add: live_at_def)
  have "\<exists>receipt. receipt_for_commit p ?v me t5 = Inr receipt"
    by (rule receipt_issued [of p ?v roster "sr_now q"]) (use auth in \<open>simp_all add: me(4) t(3) until(1,2)\<close>)
  then obtain receipt where receipt: "receipt_for_commit p ?v me t5 = Inr receipt" by blast
  have "\<exists>s'. finalize_received p ?v roster me t5 s = (Inr \<lparr>rm_local = \<lparr>lc_object = vd_object_id (hash p) ?v,
      lc_member = st_member s, lc_at = t5\<rparr>, rm_receipt = receipt\<rparr>, s')"
  proof (rule finalize_succeeds [OF ok _ _ _ _ receipt])
    show "vd_validate_commit ?v roster t5 = Inr ()"
      using auth until t(3) unfolding authenticate_announcement_iff by (simp add: vd_validate_commit_def res_simps not_le not_less)
    show "holds_chunks p s (aa_manifest (vd_announcement ?v)) ?cs" using cs am by simp
  qed (use a new ob am in \<open>simp_all add: vd_object_id_def\<close>)
  then show ?thesis using read receipt v by force
qed

section \<open>The receipt at the origin\<close>

lemma record_succeeds:
  assumes ok: "store_ok (hash p) s" and a: "announced p s a" and o1: "mf_origin (aa_manifest a) = st_member s"
    and op: "\<exists>i row. tb_get (db_operations (st_db s)) i = Some row \<and> ow_object row = Some (rv_object r)"
    and r: "rv_object r = manifest_id (hash p) (aa_manifest a)" "rv_announcement r = aa_encoded a"
      "rv_actor r \<in> set (mf_targets (aa_manifest a))" "receipt_validate_commit r roster now = Inr ()"
  shows "\<exists>g s'. record_target_receipt p r roster now s = (Inr g, s')"
proof -
  let ?d = "st_db s" and ?m = "aa_manifest a"
  let ?r = "insert_or_ignore (0 < length (rv_bytes r) \<and> length (rv_bytes r) \<le> 1024) (rv_object r, rv_actor r) (rv_bytes r) (db_receipts ?d)"
  have d: "db_ok (hash p) (st_member s) (st_limits s) ?d" using ok by (simp add: store_ok_def)
  have st: "stored (hash p) (db_objects ?d) (manifest_id (hash p) ?m) ?m"
      "tb_get (db_announcements ?d) (rv_object r) = Some (aa_encoded a)"
    using a r(1) by (simp_all add: announced_def)
  have mf: "manifest_from (hash p) ?d (rv_object r) = Inr ?m" using d st(1) r(1) by (simp add: manifest_from_iff db_ok_def)
  have "receipts_ok (hash p) (db_objects (?d\<lparr>db_receipts := ?r\<rparr>)) (db_receipts (?d\<lparr>db_receipts := ?r\<rparr>))"
    using d st(1) r(1,3) by (auto simp: db_ok_def receipts_ok_def insert_or_ignore_get)
  then obtain g where g: "progress_from p (?d\<lparr>db_receipts := ?r\<rparr>) ?m now = Inr g"
    using progress_from_eq [of p "?d\<lparr>db_receipts := ?r\<rparr>" ?m now] st(1) by (auto simp: Let_def)
  have "tb_select (\<lambda>_ row. ow_object row = Some (rv_object r)) (db_operations ?d) \<noteq> None"
    using op by (auto simp: tb_select_None)
  then show ?thesis
    using r(2-4) o1 st mf g stored_some [OF st(1)] r(1)
    by (auto simp: record_target_receipt_def Let_def transact_def stored_announcement_def references_def)
qed

text \<open>What recording makes of the receipts of the object.\<close>

lemma recording:
  assumes ok: "store_ok (hash p) s" and g: "record_target_receipt p r roster now s = (Inr g, s')"
    and len: "0 < length (rv_bytes r)" "length (rv_bytes r) \<le> 1024"
    and m: "stored (hash p) (db_objects (st_db s)) (rv_object r) m"
  shows "(\<forall>b. tb_get (db_receipts (st_db s')) (rv_object r, b) \<noteq> None \<longleftrightarrow>
       b = rv_actor r \<or> tb_get (db_receipts (st_db s)) (rv_object r, b) \<noteq> None) \<and>
    (dp_state g = Delivered \<longleftrightarrow> (\<forall>b \<in> set (mf_targets m). tb_get (db_receipts (st_db s')) (rv_object r, b) \<noteq> None)) \<and>
    (dp_state g = Delivered \<longrightarrow> tb_get (db_outbox (st_db s')) (rv_object r) = None)"
  using ok g len
proof (rule recorded)
  fix n
  let ?i = "rv_object r"
  assume n: "st_manifest (hash p) s ?i = Inr n" "stored (hash p) (db_objects (st_db s')) ?i n"
    and ok': "store_ok (hash p) s'" and e: "progress_from p (st_db s') n now = Inr g"
    and rec: "tb_get (db_receipts (st_db s')) = (tb_get (db_receipts (st_db s)))((?i, rv_actor r) :=
       (case tb_get (db_receipts (st_db s)) (?i, rv_actor r) of None \<Rightarrow> Some (rv_bytes r) | Some b \<Rightarrow> Some b))"
    and out: "db_outbox (st_db s') = (if dp_state g = Delivered then tb_remove ?i (db_outbox (st_db s)) else db_outbox (st_db s))"
  have d: "objects_ok (hash p) (db_objects (st_db s))" "receipts_ok (hash p) (db_objects (st_db s')) (db_receipts (st_db s'))"
    using ok ok' by (simp_all add: store_ok_def db_ok_def)
  have "n = m" using n(1) d(1) m stored_unique by (auto simp: st_manifest_def manifest_from_iff)
  moreover have i: "manifest_id (hash p) n = ?i" using n(2) by (auto simp: stored_def row_of_def)
  have "dp_state g = Delivered \<longleftrightarrow> (\<forall>b \<in> set (mf_targets n). tb_get (db_receipts (st_db s')) (?i, b) \<noteq> None)"
    unfolding confirmed_all [symmetric] using e progress_from_eq [OF d(2), of n, unfolded i, OF n(2)]
    by (auto simp: Let_def split: if_splits)
  ultimately show ?thesis using rec out by (auto split: option.splits)
qed

text \<open>The origin that still holds the object accepts the receipt and counts its target.\<close>

lemma origin_confirms:
  assumes ok: "store_ok (hash p) s" and a: "announced p s (sm_announcement sm)"
    and cs: "holds_chunks p s (po_manifest (sm_object sm)) (po_chunks (sm_object sm))"
    and sa: "sealed_as p k fill roster q sm e key" and sig: "signing_ok p"
    and roster: "roster_verify p authority scope certs revoked t0 = Inr roster"
    and o1: "mf_origin (po_manifest (sm_object sm)) = st_member s"
    and op: "\<exists>i row. tb_get (db_operations (st_db s)) i = Some row \<and> ow_object row = Some ob"
    and ob: "ob = manifest_id (hash p) (po_manifest (sm_object sm))"
    and v: "verify_delivery p k (sm_announcement sm) (envelope_bytes e) roster member secret t4 = Inr v"
    and x: "receipt_for_commit p v me t5 = Inr receipt" and t: "live_at q roster t6" "t5 \<le> t6"
  shows "\<exists>r g s'. verify_target_receipt p s ob receipt roster t6 = Inr r \<and> rv_object r = ob \<and> rv_bytes r = receipt \<and> rv_actor r = member \<and> rv_at r = t5 \<and>
    record_target_receipt p r roster t6 s = (Inr g, s') \<and>
    (\<forall>b. tb_get (db_receipts (st_db s')) (ob, b) \<noteq> None \<longleftrightarrow> b = member \<or> tb_get (db_receipts (st_db s)) (ob, b) \<noteq> None) \<and>
    (dp_state g = Delivered \<longleftrightarrow> (\<forall>b \<in> set (op_targets (sr_policy q)). tb_get (db_receipts (st_db s')) (ob, b) \<noteq> None)) \<and>
    (dp_state g = Delivered \<longrightarrow> tb_get (db_outbox (st_db s')) ob = None)"
proof -
  let ?a = "sm_announcement sm" and ?m = "po_manifest (sm_object sm)"
  let ?r = "\<lparr>rv_object = ob, rv_actor = member, rv_bytes = receipt, rv_announcement = aa_encoded ?a,
      rv_roster_digest = vr_digest roster, rv_at = t5\<rparr>"
  note p = sealed_prepared [OF sa]
  have auth: "authenticate_announcement p (aa_encoded ?a) roster (sr_now q) = Inr ?a" using sa by (simp add: sealed_as_def)
  have valid: "validate_at roster t6 = Inr ()" using t(1) by (simp add: live_at_def)
  have scope: "aa_scope ?a = vr_scope roster" using auth unfolding authenticate_announcement_iff by blast
  have r: "verify_receipt p receipt ?a (envelope_bytes e) roster t6 = Inr ?r"
    using delivered_receipt [OF sig roster v scope x valid t(2)] by (simp only: p(2) ob)
  note reads = announced_reads [OF ok a _ authenticates_later [OF auth valid], unfolded p(2), OF cs, folded ob]
  have target: "member \<in> set (mf_targets (aa_manifest ?a))" using verify_delivery_steps [OF v] by blast
  have "receipt_validate_commit ?r roster t6 = Inr ()" using valid t(2) by (simp add: receipt_validate_commit_def res_simps)
  from record_succeeds [OF ok a, of ?r, OF _ _ _ _ _ this] obtain g s' where g: "record_target_receipt p ?r roster t6 s = (Inr g, s')"
    using o1 op ob target p(2) by (metis verified_receipt.select_convs(1,2,4))
  have st: "stored (hash p) (db_objects (st_db s)) (rv_object ?r) ?m" using a p(2) ob by (simp add: announced_def)
  have "(\<forall>b. tb_get (db_receipts (st_db s')) (ob, b) \<noteq> None \<longleftrightarrow> b = member \<or> tb_get (db_receipts (st_db s)) (ob, b) \<noteq> None) \<and>
    (dp_state g = Delivered \<longleftrightarrow> (\<forall>b \<in> set (op_targets (sr_policy q)). tb_get (db_receipts (st_db s')) (ob, b) \<noteq> None)) \<and>
    (dp_state g = Delivered \<longrightarrow> tb_get (db_outbox (st_db s')) ob = None)"
    using recording [OF ok g _ _ st] receipt_length [OF x] p(7) by simp
  moreover have "verify_target_receipt p s ob receipt roster t6 = Inr ?r"
    using reads p(3) r by (simp add: verify_target_receipt_def)
  ultimately show ?thesis using g by fastforce
qed

section \<open>Room for an object\<close>

text \<open>The object fits: its identifier and its sequence are new, and the limits leave room.\<close>

definition fits :: "(bytes \<Rightarrow> arr32) \<Rightarrow> limits \<Rightarrow> manifest \<Rightarrow> db \<Rightarrow> bool" where
  "fits sha256 lim m d \<longleftrightarrow> tb_get (db_objects d) (manifest_id sha256 m) = None \<and>
     (\<forall>i row. tb_get (db_objects d) i = Some row \<longrightarrow> bw_origin row = mf_origin m \<longrightarrow> bw_sequence row \<noteq> mf_sequence m) \<and>
     tb_count (db_objects d) < lm_objects lim \<and>
     tb_sum (\<lambda>_. bw_reserved) (db_objects d) + mf_content_len m \<le> lm_bytes lim"

lemma insert_manifest_fits:
  assumes "fits sha256 lim m d" and "manifest_ok m"
  shows "\<exists>row. insert_manifest sha256 lim m d = Inr (d\<lparr>db_objects := tb_put (manifest_id sha256 m) row (db_objects d)\<rparr>)"
proof -
  have "tb_select (\<lambda>_ r. bw_origin r = mf_origin m \<and> bw_sequence r = mf_sequence m) (db_objects d) = None"
    using assms(1) by (auto simp: fits_def tb_select_None)
  then show ?thesis
    using assms manifest_ok_bounds(4) [OF assms(2)]
    by (auto simp: insert_manifest_def Let_def fits_def insert_row_def not_le)
qed

lemma insert_chunks_new:
  assumes "\<forall>j < length bs. verify_chunk sha256 m (k + j) (bs ! j) = Inr ()" and "manifest_ok m"
    and "tb_get (db_objects d) (manifest_id sha256 m) \<noteq> None" and "\<forall>j \<ge> k. tb_get (db_chunks d) (manifest_id sha256 m, j) = None"
  shows "\<exists>c. insert_chunks sha256 m k bs d = Inr (d\<lparr>db_chunks := c\<rparr>)"
  using assms
proof (induction bs arbitrary: k d)
  case Nil
  then show ?case by (intro exI [of _ "db_chunks d"]) simp
next
  case (Cons b bs)
  let ?i = "manifest_id sha256 m"
  let ?d = "d\<lparr>db_chunks := tb_put (?i, k) b (db_chunks d)\<rparr>"
  have v: "verify_chunk sha256 m k b = Inr ()" using Cons.prems(1) by force
  have "insert_chunk ?i k b d = Inr ?d"
    using Cons.prems(3,4) verify_chunk_length [OF Cons.prems(2) v] by (simp add: insert_chunk_def insert_row_def references_def)
  moreover have "\<exists>c. insert_chunks sha256 m (k + 1) bs ?d = Inr (?d\<lparr>db_chunks := c\<rparr>)"
    using Cons.prems by (intro Cons.IH) (force, auto)
  ultimately show ?case using v by auto
qed

lemma set_complete_some: "tb_get (db_objects d) i \<noteq> None \<Longrightarrow> tb_get (db_objects (set_complete i d)) i \<noteq> None"
  by (auto simp: set_complete_def split: option.splits)

text \<open>A sealed message with room for its object is committed under the operation that reserved its sequence.\<close>

lemma commit_sealed_succeeds:
  assumes ok: "store_ok (hash p) s" and sa: "sealed_as p k fill roster q sm e key"
    and fit: "fits (hash p) (st_limits s) (po_manifest (sm_object sm)) (st_db s)" and t: "live_at q roster t1"
    and op: "tb_get (db_operations (st_db s)) i = Some \<lparr>ow_hash = h, ow_sequence = mf_sequence (po_manifest (sm_object sm)), ow_object = None\<rparr>"
    and o1: "mf_origin (po_manifest (sm_object sm)) = st_member s"
  shows "\<exists>s1. commit_sealed p i h sm roster t1 s = (Inr (manifest_id (hash p) (po_manifest (sm_object sm))), s1)"
proof -
  let ?a = "sm_announcement sm" and ?m = "po_manifest (sm_object sm)" and ?cs = "po_chunks (sm_object sm)" and ?d = "st_db s"
  let ?i = "manifest_id (hash p) ?m"
  note p = sealed_prepared [OF sa]
  have m: "manifest_ok ?m" using p(1) by (simp add: prepared_ok_def)
  have d: "db_ok (hash p) (st_member s) (st_limits s) ?d" using ok by (simp add: store_ok_def)
  have none: "tb_get (db_objects ?d) ?i = None" using fit by (simp add: fits_def)
  have empty: "tb_get (db_outbox ?d) ?i = None" "\<forall>j. tb_get (db_chunks ?d) (?i, j) = None"
      "\<forall>j r. tb_get (db_operations ?d) j = Some r \<longrightarrow> ow_object r \<noteq> Some ?i"
  proof -
    show "tb_get (db_outbox ?d) ?i = None" using d none unfolding db_ok_def links_ok_def depends_def by blast
    show "\<forall>j. tb_get (db_chunks ?d) (?i, j) = None" using d none chunks_ok_None unfolding db_ok_def by blast
    have "operations_ok (st_member s) (db_next ?d) (db_objects ?d) (db_operations ?d)" using d by (simp add: db_ok_def)
    then show "\<forall>j r. tb_get (db_operations ?d) j = Some r \<longrightarrow> ow_object r \<noteq> Some ?i"
      unfolding operations_ok_def using none by (metis option.distinct(1))
  qed
  obtain row where row: "insert_manifest (hash p) (st_limits s) ?m ?d = Inr (?d\<lparr>db_objects := tb_put ?i row (db_objects ?d)\<rparr>)"
    using insert_manifest_fits [OF fit m] by blast
  define d1 where "d1 = ?d\<lparr>db_objects := tb_put ?i row (db_objects ?d),
    db_announcements := insert_or_ignore (0 < length (aa_encoded ?a) \<and> length (aa_encoded ?a) \<le> 8192) ?i (aa_encoded ?a) (db_announcements ?d)\<rparr>"
  have d1: "insert_announcement ?i (aa_encoded ?a) (?d\<lparr>db_objects := tb_put ?i row (db_objects ?d)\<rparr>) = Inr d1"
      "tb_get (db_objects d1) ?i \<noteq> None" "db_chunks d1 = db_chunks ?d" "db_outbox d1 = db_outbox ?d" "db_operations d1 = db_operations ?d"
    by (simp_all add: d1_def insert_announcement_def references_def)
  obtain c where c: "insert_chunks (hash p) ?m 0 ?cs d1 = Inr (d1\<lparr>db_chunks := c\<rparr>)"
    using insert_chunks_new [of ?cs "hash p" ?m 0 d1] p(5,6) m d1(2,3) empty(2) by auto
  have full: "tb_get (db_objects (set_complete ?i (d1\<lparr>db_chunks := c\<rparr>))) ?i \<noteq> None"
      "db_outbox (set_complete ?i (d1\<lparr>db_chunks := c\<rparr>)) = db_outbox ?d"
      "db_operations (set_complete ?i (d1\<lparr>db_chunks := c\<rparr>)) = db_operations ?d"
    using d1 by (simp_all add: set_complete_some set_complete_def split: option.splits)
  have mode: "check_mode ?d ?i (Some (aa_encoded ?a)) = Inr ()" by (simp add: check_mode_def none)
  have now: "live ?m t1 = Inr ()" "store_clock t1 = Inr ()" "aa_validate_roster ?a roster t1 = Inr ()"
    using t p(4) sa validate_at_time [of roster t1] unfolding sealed_as_def authenticate_announcement_iff
    by (simp_all add: live_at_def live_Inr store_clock_Inr res_simps)
  have sel: "tb_select (\<lambda>j r. j \<noteq> i \<and> ow_object r = Some ?i) (db_operations ?d) = None"
    using empty(3) by (simp add: tb_select_None)
  obtain d2 where fresh: "commit_fresh (hash p) i \<lparr>ow_hash = h, ow_sequence = mf_sequence ?m, ow_object = None\<rparr> (sm_object sm) t1 (Some ?a) None s ?d
      = Inr (?i, d2)"
    using full empty(1) sel
    by (auto simp: commit_fresh_def Let_def now mode row d1(1) c references_def insert_row_def)
  then show ?thesis
    by (simp add: commit_sealed_def commit_outgoing_inner_def Let_def now op o1 transact_def)
qed

lemma announce_succeeds:
  assumes fit: "fits (hash p) (st_limits s) (aa_manifest a) (st_db s)" and m: "manifest_ok (aa_manifest a)"
    and t: "aa_validate_roster a roster t2 = Inr ()" "t2 < mf_expires_at (aa_manifest a)"
  shows "\<exists>s'. announce_authenticated p a roster t2 s = (Inr (manifest_id (hash p) (aa_manifest a)), s')"
proof -
  have "live (aa_manifest a) t2 = Inr ()" using t validate_at_time [of roster t2] by (simp add: res_simps live_Inr)
  moreover have "check_mode (st_db s) (manifest_id (hash p) (aa_manifest a)) (Some (aa_encoded a)) = Inr ()"
    using fit by (simp add: check_mode_def fits_def)
  ultimately show ?thesis
    using insert_manifest_fits [OF fit m] t(1)
    by (auto simp: announce_authenticated_def Let_def transact_def insert_announcement_def references_def)
qed

lemma target_takes:
  assumes sa: "sealed_as p k fill roster q sm e key" and fit: "fits (hash p) (st_limits s) (po_manifest (sm_object sm)) (st_db s)"
    and t: "live_at q roster t2"
  shows "\<exists>s'. announce_authenticated p (sm_announcement sm) roster t2 s = (Inr (manifest_id (hash p) (po_manifest (sm_object sm))), s')"
proof -
  note p = sealed_prepared [OF sa]
  have "manifest_ok (aa_manifest (sm_announcement sm))" using p(1,2) by (simp add: prepared_ok_def)
  moreover have "aa_validate_roster (sm_announcement sm) roster t2 = Inr ()" "t2 < mf_expires_at (aa_manifest (sm_announcement sm))"
    using t p(2,4) sa unfolding sealed_as_def authenticate_announcement_iff by (simp_all add: live_at_def res_simps)
  ultimately show ?thesis using announce_succeeds [of p s "sm_announcement sm" roster t2] fit p(2) by simp
qed

lemma fits_new:
  assumes "store_ok sha256 s" and "fits sha256 lim m (st_db s)"
  shows "\<forall>j. tb_get (db_chunks (st_db s)) (manifest_id sha256 m, j) = None"
    "tb_get (db_local (st_db s)) (manifest_id sha256 m) = None"
proof -
  have n: "tb_get (db_objects (st_db s)) (manifest_id sha256 m) = None" using assms(2) by (simp add: fits_def)
  show "\<forall>j. tb_get (db_chunks (st_db s)) (manifest_id sha256 m, j) = None"
    using assms(1) chunks_ok_None [OF _ n] unfolding store_ok_def db_ok_def by blast
  show "tb_get (db_local (st_db s)) (manifest_id sha256 m) = None"
    using assms(1) n unfolding store_ok_def db_ok_def links_ok_def depends_def by blast
qed

section \<open>From end to end\<close>

lemma prepared_origin:
  assumes "from_opaque sha256 origin sequence policy body = Inr ob"
  shows "mf_origin (po_manifest ob) = origin \<and> mf_sequence (po_manifest ob) = sequence"
  using assms by (auto simp: from_opaque_def Let_def res_simps split: if_splits)

lemma sealed_origin:
  assumes "seal_message p k fill q roster signer rng = (Inr sm, rng')"
  shows "mf_origin (po_manifest (sm_object sm)) = sr_origin q" "mf_sequence (po_manifest (sm_object sm)) = sr_sequence q"
  using seal_message_steps [OF assms] prepared_origin by metis+

text \<open>
  C1: a message arrives. The origin has reserved the sequence of the sealed message, its store and
  the store of a target have room for the object, and all steps happen while the message and the
  roster are valid. Then the origin commits the message and the target takes the announcement; once
  it has staged the chunks, in any order and any number of times, it reads exactly the plaintext, and
  finalizing gives a receipt that the origin accepts for this object and target. Recording it confirms
  this target and no other, and the delivery is complete, with the object out of the outbox, exactly
  when every target has confirmed.
\<close>

theorem message_confirmed:
  assumes "aead_ok p" and "kem_ok k" and "signing_ok p" and "roster_verify p authority scope certs revoked t0 = Inr roster"
    and "seal_message p k fill q roster signer rng = (Inr sm, rng')"
    and "store_ok (hash p) s" and "st_member s = sr_origin q"
    and "tb_get (db_operations (st_db s)) i = Some \<lparr>ow_hash = h, ow_sequence = sr_sequence q, ow_object = None\<rparr>"
    and "fits (hash p) (st_limits s) (po_manifest (sm_object sm)) (st_db s)"
    and "store_ok (hash p) t" and "st_member t \<in> set (op_targets (sr_policy q))" and "roster_member roster (st_member t) = Inr c"
    and "ct_delivery_key c = kem_sk_to_pk k secret" and "ct_signing_key c = signing_public_key p me"
    and "fits (hash p) (st_limits t) (po_manifest (sm_object sm)) (st_db t)"
    and "set ks = {..<length (po_chunks (sm_object sm))}"
    and "\<forall>n \<in> {t1, t2, t3, t4, t5, t6}. live_at q roster n" and "t4 \<le> t5" and "t5 \<le> t6"
  shows "\<exists>ob s1 t1' t2' v x t3' r g s2.
    commit_sealed p i h sm roster t1 s = (Inr ob, s1) \<and>
    announce_authenticated p (sm_announcement sm) roster t2 t = (Inr ob, t1') \<and>
    store_run p (stage_calls ob (po_chunks (sm_object sm)) t3 ks) t1' = (replicate (length ks) Done, t2') \<and>
    verify_received p k t2' ob roster secret t4 = Inr v \<and> vd_plaintext v = sr_plaintext q \<and>
    finalize_received p v roster me t5 t2' = (Inr x, t3') \<and>
    verify_target_receipt p s1 ob (rm_receipt x) roster t6 = Inr r \<and> rv_object r = ob \<and> rv_actor r = st_member t \<and> rv_at r = t5 \<and>
    record_target_receipt p r roster t6 s1 = (Inr g, s2) \<and>
    (\<forall>b. tb_get (db_receipts (st_db s2)) (ob, b) \<noteq> None \<longleftrightarrow> b = st_member t \<or> tb_get (db_receipts (st_db s)) (ob, b) \<noteq> None) \<and>
    (dp_state g = Delivered \<longleftrightarrow> (\<forall>b \<in> set (op_targets (sr_policy q)). tb_get (db_receipts (st_db s2)) (ob, b) \<noteq> None)) \<and>
    (dp_state g = Delivered \<longrightarrow> tb_get (db_outbox (st_db s2)) ob = None)"
proof -
  let ?m = "po_manifest (sm_object sm)" and ?cs = "po_chunks (sm_object sm)"
  obtain e key where sa: "sealed_as p k fill roster q sm e key"
    using seal_message_Inr [OF assms(1,5)] by blast
  note so = sealed_origin [OF assms(5)]
  have live: "live_at q roster t1" "live_at q roster t2" "live_at q roster t3" "live_at q roster t4" "live_at q roster t5"
      "live_at q roster t6"
    using assms(17) by blast+
  obtain s1 where s1: "commit_sealed p i h sm roster t1 s = (Inr (manifest_id (hash p) ?m), s1)"
    using commit_sealed_succeeds [OF assms(6) sa assms(9) live(1)] assms(7,8) so by metis
  obtain t' where t': "announce_authenticated p (sm_announcement sm) roster t2 t = (Inr (manifest_id (hash p) ?m), t')"
    using target_takes [OF sa assms(15) live(2)] by blast
  note o = committed_origin [OF assms(6) sa s1 assms(8) operation_row.select_convs(3)]
  note h = target_holds [OF assms(10) sa t' fits_new(1) [OF assms(10,15)] assms(16) live(3) refl]
  obtain u where u: "store_run p (stage_calls (manifest_id (hash p) ?m) ?cs t3 ks) t' = (replicate (length ks) Done, u)"
    using h(7) by (metis prod.collapse)
  note h = h [unfolded u snd_conv]
  obtain v x w where v: "verify_received p k u (manifest_id (hash p) ?m) roster secret t4 = Inr v" "vd_plaintext v = sr_plaintext q"
      "verify_delivery p k (sm_announcement sm) (envelope_bytes e) roster (st_member t) secret t4 = Inr v"
      "finalize_received p v roster me t5 u = (Inr x, w)" "receipt_for_commit p v me t5 = Inr (rm_receipt x)"
    using target_finalizes [OF h(2,3,4) sa assms(2), unfolded h(5,6), OF assms(11-14) refl fits_new(2) [OF assms(10,15)] live(4,5) assms(18)]
    by blast
  from origin_confirms [OF o(4,2,3) sa assms(3,4), unfolded o(5), OF o(6,7) refl v(3,5) live(6) assms(19), unfolded o(9)]
  show ?thesis using s1 t' u v(1,2,4) by blast
qed

definition sample_origin_store :: store where
  "sample_origin_store = \<lparr>st_db = db_empty\<lparr>db_next := 2, db_operations := tb_put (OperationId 1)
       \<lparr>ow_hash = 7, ow_sequence = 1, ow_object = None\<rparr> tb_empty\<rparr>, st_member = MemberId 1, st_limits = limits_default\<rparr>"

lemma sample_reserve: "reserve (OperationId 1) 7 (store_new (MemberId 1) limits_default) =
    (Inr \<lparr>rn_sequence = 1, rn_object = None\<rparr>, sample_origin_store)"
  by (simp add: reserve_def transact_def store_new_def sample_origin_store_def db_empty_def limits_default_def insert_row_def
      i64_positive_def MAX_LOGICAL_TIME_def tb_select_None word_less_nat_alt word_le_nat_alt)

lemma sample_origin_store:
  "store_ok (hash sample_suite) sample_origin_store" "st_member sample_origin_store = MemberId 1"
  "st_limits sample_origin_store = limits_default" "db_objects (st_db sample_origin_store) = tb_empty"
  "tb_get (db_operations (st_db sample_origin_store)) (OperationId 1) = Some \<lparr>ow_hash = 7, ow_sequence = 1, ow_object = None\<rparr>"
  "db_receipts (st_db sample_origin_store) = tb_empty"
proof -
  have "snd (store_run sample_suite [Call_reserve (OperationId 1) 7] (store_new (MemberId 1) limits_default)) = sample_origin_store"
    by (simp add: sample_reserve answered_def)
  moreover have "\<forall>c \<in> set [Call_reserve (OperationId 1) 7]. call_ok c" by simp
  note conjunct1 [OF store_run_ok [OF store_new_ok this, of sample_suite "MemberId 1" limits_default]]
  ultimately show "store_ok (hash sample_suite) sample_origin_store" by (simp only:)
qed (simp_all add: sample_origin_store_def db_empty_def)

lemma fits_empty:
  assumes "db_objects d = tb_empty" and "manifest_ok m"
  shows "fits sha256 limits_default m d"
  using manifest_ok_bounds(5) [OF assms(2)] by (simp add: fits_def assms(1) limits_default_def)

lemma sample_message:
  obtains sm e key where
    "seal_message sample_suite sample_kem zero_source sample_request sample_roster (IdentitySigningKey 0) () = (Inr sm, ())"
    "sealed_as sample_suite sample_kem zero_source sample_roster sample_request sm e key"
    "manifest_ok (po_manifest (sm_object sm))"
proof -
  obtain sm where sm: "seal_message sample_suite sample_kem zero_source sample_request sample_roster (IdentitySigningKey 0) () = (Inr sm, ())"
    using sample_sealed by blast
  obtain e key where sa: "sealed_as sample_suite sample_kem zero_source sample_roster sample_request sm e key"
    using seal_message_Inr [OF sample_crypto_ok(1) sm] by blast
  show thesis using that [OF sm sa] sealed_prepared(1) [OF sa] by (simp add: prepared_ok_def)
qed

lemma sample_parties:
  "sr_origin sample_request = MemberId 1" "sr_sequence sample_request = 1" "op_targets (sr_policy sample_request) = [MemberId 2]"
  "sr_plaintext sample_request = [7]" "op_expires_at (sr_policy sample_request) = 50"
  "st_member (store_new (MemberId 2) limits_default) = MemberId 2" "st_limits (store_new (MemberId 2) limits_default) = limits_default"
  "db_objects (st_db (store_new (MemberId 2) limits_default)) = tb_empty" "db_chunks (st_db (store_new (MemberId 2) limits_default)) = tb_empty"
  "db_local (st_db (store_new (MemberId 2) limits_default)) = tb_empty"
  by (simp_all add: sample_request_def) (simp_all add: store_new_def db_empty_def)

lemma sample_live: "n \<in> {10, 11, 12, 20, 30, 31} \<Longrightarrow> live_at sample_request sample_roster n"
  by (auto simp: live_at_def sample_request_def sample_members(3))

lemma sample_announced:
  assumes "sealed_as sample_suite sample_kem zero_source sample_roster sample_request sm e key"
  obtains t where "announce_authenticated sample_suite (sm_announcement sm) sample_roster 11 (store_new (MemberId 2) limits_default) =
      (Inr (manifest_id (hash sample_suite) (po_manifest (sm_object sm))), t)"
    "store_ok (hash sample_suite) t" "announced sample_suite t (sm_announcement sm)" "db_chunks (st_db t) = tb_empty"
proof -
  note p = sealed_prepared [OF assms]
  have m: "manifest_ok (po_manifest (sm_object sm))" using p(1) by (simp add: prepared_ok_def)
  obtain t where t: "announce_authenticated sample_suite (sm_announcement sm) sample_roster 11 (store_new (MemberId 2) limits_default) =
      (Inr (manifest_id (hash sample_suite) (po_manifest (sm_object sm))), t)"
    using target_takes [OF assms _ sample_live, of "store_new (MemberId 2) limits_default" 11] fits_empty [OF _ m] by (auto simp: sample_parties)
  have "authenticate_announcement sample_suite (aa_encoded (sm_announcement sm)) sample_roster (sr_now sample_request) = Inr (sm_announcement sm)"
    using assms by (simp add: sealed_as_def)
  note a = announce_announced [OF store_new_ok t this]
  show thesis using that [OF t a(3,2)] a(5) by (simp add: sample_parties)
qed

lemma sample_finalized:
  assumes sa: "sealed_as sample_suite sample_kem zero_source sample_roster sample_request sm e key"
  obtains t v x t' where "verify_delivery sample_suite sample_kem (sm_announcement sm) (envelope_bytes e) sample_roster (MemberId 2) 2 20 = Inr v"
    "finalize_received sample_suite v sample_roster (IdentitySigningKey 2) 30 t = (Inr x, t')"
    "receipt_for_commit sample_suite v (IdentitySigningKey 2) 30 = Inr (rm_receipt x)"
    "aa_validate_roster (vd_announcement v) sample_roster 40 = Inr ()"
proof -
  let ?ks = "[0..<length (po_chunks (sm_object sm))]"
  obtain t where t: "announce_authenticated sample_suite (sm_announcement sm) sample_roster 11 (store_new (MemberId 2) limits_default) =
      (Inr (manifest_id (hash sample_suite) (po_manifest (sm_object sm))), t)"
    using sample_announced [OF sa] by blast
  have "set ?ks = {..<length (po_chunks (sm_object sm))}" by (simp add: lessThan_atLeast0)
  note h = target_holds [OF store_new_ok sa t _ this sample_live [of 12] refl]
  obtain v x t' where v: "verify_delivery sample_suite sample_kem (sm_announcement sm) (envelope_bytes e) sample_roster (MemberId 2) 2 20 = Inr v"
    "finalize_received sample_suite v sample_roster (IdentitySigningKey 2) 30 (snd (store_run sample_suite
       (stage_calls (manifest_id (hash sample_suite) (po_manifest (sm_object sm))) (po_chunks (sm_object sm)) 12 ?ks) t)) = (Inr x, t')"
    "receipt_for_commit sample_suite v (IdentitySigningKey 2) 30 = Inr (rm_receipt x)"
    using target_finalizes [OF h(2,3,4) sa sample_crypto_ok(2), of "sample_claims 2" 2 "IdentitySigningKey 2" _ 20 30] sample_claim(2) h(5,6)
    by (auto simp: sample_parties sample_live sample_kem_def sample_claims_def sample_public_key)
  have "vd_announcement v = sm_announcement sm" using verify_delivery_steps [OF v(1)] by force
  then have "aa_validate_roster (vd_announcement v) sample_roster 40 = Inr ()"
    using sa unfolding sealed_as_def authenticate_announcement_iff by (simp add: res_simps sample_members(3))
  then show thesis using that v by blast
qed

theorem staging_any_order_witness:
  "\<exists>(sm :: sealed_message) ob t. announce_authenticated sample_suite (sm_announcement sm) sample_roster 11 (store_new (MemberId 2) limits_default) = (Inr ob, t) \<and>
     object_bytes sample_suite (snd (store_run sample_suite (stage_calls ob (po_chunks (sm_object sm)) 12
       (rev [0..<length (po_chunks (sm_object sm))])) t)) ob = Inr (concat (po_chunks (sm_object sm)))"
proof -
  obtain sm e key where sa: "sealed_as sample_suite sample_kem zero_source sample_roster sample_request sm e key"
    using sample_message by blast
  note p = sealed_prepared [OF sa]
  from sample_announced [OF sa] obtain t where t: "announce_authenticated sample_suite (sm_announcement sm) sample_roster 11
      (store_new (MemberId 2) limits_default) = (Inr (manifest_id (hash sample_suite) (po_manifest (sm_object sm))), t)"
    "store_ok (hash sample_suite) t" "announced sample_suite t (sm_announcement sm)" "db_chunks (st_db t) = tb_empty" .
  have "12 < mf_expires_at (aa_manifest (sm_announcement sm))" "(12 :: u64) \<le> MAX_LOGICAL_TIME"
    using p(2,4) by (simp_all add: sample_parties MAX_LOGICAL_TIME_def word_le_nat_alt)
  then have "fst (store_run sample_suite (stage_calls (manifest_id (hash sample_suite) (po_manifest (sm_object sm))) (po_chunks (sm_object sm)) 12
        (rev [0..<length (po_chunks (sm_object sm))])) t) = replicate (length (rev [0..<length (po_chunks (sm_object sm))])) Done \<and>
      object_bytes sample_suite (snd (store_run sample_suite (stage_calls (manifest_id (hash sample_suite) (po_manifest (sm_object sm)))
        (po_chunks (sm_object sm)) 12 (rev [0..<length (po_chunks (sm_object sm))])) t)) (manifest_id (hash sample_suite) (po_manifest (sm_object sm))) =
      (if {..<length (po_chunks (sm_object sm))} \<subseteq> set (rev [0..<length (po_chunks (sm_object sm))])
       then Inr (concat (po_chunks (sm_object sm))) else Inl NotFound)"
    by (rule staging_any_order [OF t(2,3)]) (use p(2,5,6) t(4) in \<open>simp_all add: lessThan_atLeast0\<close>)
  then have b: "object_bytes sample_suite (snd (store_run sample_suite (stage_calls (manifest_id (hash sample_suite) (po_manifest (sm_object sm)))
        (po_chunks (sm_object sm)) 12 (rev [0..<length (po_chunks (sm_object sm))])) t)) (manifest_id (hash sample_suite) (po_manifest (sm_object sm))) =
      Inr (concat (po_chunks (sm_object sm)))"
    by (simp add: lessThan_atLeast0)
  show ?thesis by (intro exI conjI) (rule t(1), rule b)
qed

theorem finalize_once_witness:
  "\<exists>v x s1. finalize_received sample_suite v sample_roster (IdentitySigningKey 9) 40 s1 = (Inr x, s1) \<and> local_receipt s1 (vd_object_id (hash sample_suite) v) = Inr (Some x)"
proof -
  obtain sm e key where sa: "sealed_as sample_suite sample_kem zero_source sample_roster sample_request sm e key"
    using sample_message by blast
  obtain t v x t' where "finalize_received sample_suite v sample_roster (IdentitySigningKey 2) 30 t = (Inr x, t')"
      "aa_validate_roster (vd_announcement v) sample_roster 40 = Inr ()"
    by (rule sample_finalized [OF sa]) (rule that)
  with finalize_once [OF this(1), of sample_roster "IdentitySigningKey 9" 40] show ?thesis by auto
qed

theorem delivered_when_all_confirmed_witness:
  "\<exists>r g s1 s2. record_target_receipt sample_suite r sample_roster 31 s1 = (Inr g, s2) \<and>
     record_target_receipt sample_suite r sample_roster 31 s2 = (Inr g, s2)"
proof -
  obtain sm e key where sm: "seal_message sample_suite sample_kem zero_source sample_request sample_roster (IdentitySigningKey 0) () = (Inr sm, ())"
      and sa: "sealed_as sample_suite sample_kem zero_source sample_roster sample_request sm e key" and m: "manifest_ok (po_manifest (sm_object sm))"
    using sample_message by blast
  note q = sealed_origin [OF sm]
  have live: "live_at sample_request sample_roster 10" "live_at sample_request sample_roster 31" by (simp_all add: sample_live)
  obtain s1 where s1: "commit_sealed sample_suite (OperationId 1) 7 sm sample_roster 10 sample_origin_store =
      (Inr (manifest_id (hash sample_suite) (po_manifest (sm_object sm))), s1)"
    using commit_sealed_succeeds [OF sample_origin_store(1) sa _ live(1), of "OperationId 1" 7] fits_empty [OF _ m] q
    by (auto simp: sample_origin_store sample_parties)
  note o = committed_origin [OF sample_origin_store(1) sa s1 sample_origin_store(5) operation_row.select_convs(3)]
  obtain v receipt where v: "verify_delivery sample_suite sample_kem (sm_announcement sm) (envelope_bytes e) sample_roster (MemberId 2) 2 20 = Inr v"
      "receipt_for_commit sample_suite v (IdentitySigningKey 2) 30 = Inr receipt"
    by (rule sample_finalized [OF sa]) (rule that)
  have roster: "roster_verify sample_suite 1 sample_scope [sample_certificate 1, sample_certificate 2] [] 5 = Inr sample_roster"
    by (rule sample_roster_verify) simp_all
  have "(30 :: u64) \<le> 31" by simp
  from origin_confirms [OF o(4,2,3) sa sample_crypto_ok(3) roster o(6) [folded o(5)] o(7) refl v live(2) this]
  obtain r g s2 where r: "rv_bytes r = receipt" "record_target_receipt sample_suite r sample_roster 31 s1 = (Inr g, s2)"
    by (elim exE conjE) (rule that)
  have "0 < length (rv_bytes r)" "length (rv_bytes r) \<le> 1024" using receipt_length [OF v(2)] r(1) by simp_all
  from delivered_when_all_confirmed [OF o(4) r(2) this]
  have "record_target_receipt sample_suite r sample_roster 31 s2 = (Inr g, s2)" by (elim exE conjE)
  then show ?thesis by (intro exI conjI) (rule r(2))
qed

theorem message_confirmed_witness:
  "\<exists>sm ob s1 t1' t2' v x t3' r g s2.
    seal_message sample_suite sample_kem zero_source sample_request sample_roster (IdentitySigningKey 0) () = (Inr sm, ()) \<and>
    commit_sealed sample_suite (OperationId 1) 7 sm sample_roster 10 sample_origin_store = (Inr ob, s1) \<and>
    announce_authenticated sample_suite (sm_announcement sm) sample_roster 11 (store_new (MemberId 2) limits_default) = (Inr ob, t1') \<and>
    snd (store_run sample_suite (stage_calls ob (po_chunks (sm_object sm)) 12 (rev [0..<length (po_chunks (sm_object sm))])) t1') = t2' \<and>
    verify_received sample_suite sample_kem t2' ob sample_roster 2 20 = Inr v \<and> vd_plaintext v = [7] \<and>
    finalize_received sample_suite v sample_roster (IdentitySigningKey 2) 30 t2' = (Inr x, t3') \<and>
    verify_target_receipt sample_suite s1 ob (rm_receipt x) sample_roster 31 = Inr r \<and>
    record_target_receipt sample_suite r sample_roster 31 s1 = (Inr g, s2) \<and> dp_state g = Delivered"
proof -
  obtain sm where sm: "seal_message sample_suite sample_kem zero_source sample_request sample_roster (IdentitySigningKey 0) () = (Inr sm, ())"
      and m: "manifest_ok (po_manifest (sm_object sm))"
    by (rule sample_message) (rule that)
  have roster: "roster_verify sample_suite 1 sample_scope [sample_certificate 1, sample_certificate 2] [] 5 = Inr sample_roster"
    by (rule sample_roster_verify) simp_all
  have live: "\<forall>n \<in> {10, 11, 12, 20, 30, 31}. live_at sample_request sample_roster n" using sample_live by blast
  from message_confirmed [OF sample_crypto_ok roster sm sample_origin_store(1) _ _ _ store_new_ok [of _ "MemberId 2" limits_default], of "OperationId 1" 7 "sample_claims 2" 2
      "IdentitySigningKey 2" "rev [0..<length (po_chunks (sm_object sm))]" 10 11 12 20 30 31]
  show ?thesis
    using sm live sample_claim(2) m
    by (simp add: sample_parties sample_origin_store fits_empty sample_kem_def sample_claims_def sample_public_key lessThan_atLeast0) force
qed

end
