(* ===== verification/Mesh_Native.thy ===== *)
theory Mesh_Native
  imports Mesh_Store_Open Mesh_Store_Policy Mesh_Session Mesh_Relay Mesh_Link Mesh_Transport Mesh_Handles
begin

text \<open>
  The native boundary of \<open>crates/mesh-ffi-c/src/lib.rs\<close> behind the C and JNI entry points: the tables
  of open stores, sessions and relay gates, and the functions on sessions, gates and frames. Each
  table is behind a mutex and each function holds at most one lock at a time, so that a concurrent
  execution is a sequence of these functions; a panic does not occur in them. Byte slices that must be
  arrays are checked for their length and read with \<open>be_word\<close>.
\<close>

section \<open>Handle tables of the boundary\<close>

text \<open>
  \<open>StoreRegistry\<close>, \<open>SessionRegistry\<close> and \<open>RelayGateRegistry\<close> have the same fields for their kind of
  value, and the same code looks a handle up, issues the next one and removes one.
\<close>

record 'v native_registry =
  nr_next :: u64
  nr_items :: "(u64, 'v) bmap"

definition native_registry_new :: "'v native_registry" where
  "native_registry_new = \<lparr>nr_next = 1, nr_items = []\<rparr>"

definition native_get :: "u64 \<Rightarrow> 'v native_registry \<Rightarrow> api_error + 'v" where
  "native_get handle g = ok_or InvalidHandle (bm_get (nr_items g) handle)"

definition native_with ::
    "u64 \<Rightarrow> ('v \<Rightarrow> (api_error + 'a) \<times> 'v) \<Rightarrow> 'v native_registry \<Rightarrow> (api_error + 'a) \<times> 'v native_registry" where
  "native_with handle f g =
     (case bm_get (nr_items g) handle of
        None \<Rightarrow> (Inl InvalidHandle, g)
      | Some v \<Rightarrow> (case f v of (r, v) \<Rightarrow> (r, g\<lparr>nr_items := bm_insert handle v (nr_items g)\<rparr>)))"

definition native_issue :: "'v \<Rightarrow> 'v native_registry \<Rightarrow> (api_error + u64) \<times> 'v native_registry" where
  "native_issue v g =
     (if length (nr_items g) \<ge> MAX_RUNTIMES \<or> nr_next g \<ge> MAX_COUNTER then (Inl ResourcePressure_api, g)
      else
        let handle = nr_next g in
        (Inr handle, g\<lparr>nr_next := handle + 1, nr_items := bm_insert handle v (nr_items g)\<rparr>))"

definition native_release :: "u64 \<Rightarrow> 'v native_registry \<Rightarrow> (api_error + unit) \<times> 'v native_registry" where
  "native_release handle g = (Inr (), g\<lparr>nr_items := bm_remove handle (nr_items g)\<rparr>)"

text \<open>\<open>map_err(|_| e)\<close>, and \<open>try_into\<close> of a slice to a member identifier.\<close>

definition or_else :: "api_error \<Rightarrow> 'e + 'a \<Rightarrow> api_error + 'a" where
  "or_else e r = map_err (\<lambda>_. e) r"

definition to_member :: "bytes \<Rightarrow> api_error + member_id" where
  "to_member b = (if length b = 32 then Inr (MemberId (be_word b)) else Inl InvalidArgument)"

lemma or_else_simps [simp]: "or_else e (Inr x) = Inr x" "or_else e (Inl d) = Inl e"
  by (simp_all add: or_else_def)

lemma or_else_Inr [res_simps]: "or_else e r = Inr x \<longleftrightarrow> r = Inr x"
  by (cases r) auto

section \<open>Stores\<close>

type_synonym store_registry = "store native_registry"

text \<open>
  \<open>Store::open\<close> on the file at a path. \<open>cipher\<close> gives what SQLCipher answers for the key; the
  path is only handed on.
\<close>

definition open_arguments_ok :: "bytes \<Rightarrow> bytes \<Rightarrow> bytes \<Rightarrow> bool" where
  "open_arguments_ok key member path \<longleftrightarrow>
     length key = 32 \<and> length member = 32 \<and> 1 \<le> length path \<and> length path \<le> 1024 \<and> 0 \<notin> set path"

definition secure_store_probe ::
    "(bytes \<Rightarrow> arr32) \<Rightarrow> schema_texts \<Rightarrow> (arr32 \<Rightarrow> cipher) \<Rightarrow> bytes \<Rightarrow> bytes \<Rightarrow> bytes \<Rightarrow> store_file
     \<Rightarrow> (api_error + unit) \<times> store_file" where
  "secure_store_probe sha256 texts cipher key member path file =
     (if \<not> open_arguments_ok key member path then (Inl InvalidArgument, file)
      else
        bind_st (apfst (or_else InternalInvariant)
            (store_open sha256 texts (cipher (be_word key)) (MemberId (be_word member)) limits_default file)) (\<lambda>s file.
        bind_st (or_else InternalInvariant (st_stats s), file) (\<lambda>_ file.
          (Inr (), file))))"

definition secure_store_open ::
    "(bytes \<Rightarrow> arr32) \<Rightarrow> schema_texts \<Rightarrow> (arr32 \<Rightarrow> cipher) \<Rightarrow> bytes \<Rightarrow> bytes \<Rightarrow> bytes \<Rightarrow> store_file \<times> store_registry
     \<Rightarrow> (api_error + u64) \<times> store_file \<times> store_registry" where
  "secure_store_open sha256 texts cipher key member path fg =
     (case fg of (file, g) \<Rightarrow>
        if \<not> open_arguments_ok key member path then (Inl InvalidArgument, file, g)
        else
          (case store_open sha256 texts (cipher (be_word key)) (MemberId (be_word member)) limits_default file of
             (Inl _, file) \<Rightarrow> (Inl InternalInvariant, file, g)
           | (Inr s, file) \<Rightarrow>
               (case st_stats s of
                  Inl _ \<Rightarrow> (Inl InternalInvariant, file, g)
                | Inr _ \<Rightarrow> (case native_issue s g of (r, g) \<Rightarrow> (r, file, g)))))"

definition secure_store_release :: "u64 \<Rightarrow> store_registry \<Rightarrow> (api_error + unit) \<times> store_registry" where
  "secure_store_release handle g = native_release handle g"

text \<open>The roster that the policy in a store verifies to now.\<close>

definition verified_policy :: "suite \<Rightarrow> store \<Rightarrow> u64 \<Rightarrow> api_error + verified_roster" where
  "verified_policy p s now =
     bindr (or_else InternalInvariant (st_policy_bundle s)) (\<lambda>b.
     bindr (ok_or StaleRequest b) (\<lambda>bundle.
       or_else StaleRequest (bundle_verify p bundle now)))"

definition verified_roster_of :: "suite \<Rightarrow> u64 \<Rightarrow> u64 \<Rightarrow> store_registry \<Rightarrow> api_error + verified_roster" where
  "verified_roster_of p store_handle now g =
     (if now = 0 then Inl InvalidArgument
      else bindr (native_get store_handle g) (\<lambda>s. verified_policy p s now))"

definition secure_store_policy_epoch :: "suite \<Rightarrow> u64 \<Rightarrow> u64 \<Rightarrow> store_registry \<Rightarrow> api_error + u64" where
  "secure_store_policy_epoch p handle now g =
     bindr (native_get handle g) (\<lambda>s.
     bindr (or_else InternalInvariant (active_policy p s now)) (\<lambda>a.
       Inr (case a of None \<Rightarrow> 0 | Some policy \<Rightarrow> sc_epoch (ps_scope policy))))"

definition secure_store_discovery_tag :: "suite \<Rightarrow> u64 \<Rightarrow> u64 \<Rightarrow> store_registry \<Rightarrow> api_error + bytes" where
  "secure_store_discovery_tag p handle now g =
     bindr (native_get handle g) (\<lambda>s.
     bindr (or_else InternalInvariant (active_policy p s now)) (\<lambda>a.
     bindr (ok_or StaleRequest a) (\<lambda>policy.
       let digest = hash p (ascii ''MeshLab/WifiAwareDiscovery/v1'' @ [0] @ be_bytes (sc_group (ps_scope policy)) @
             be_bytes (sc_epoch (ps_scope policy)) @ be_bytes (ps_digest policy))
       in Inr (take 16 (be_bytes digest)))))"

definition secure_store_aware_neighbors :: "suite \<Rightarrow> u64 \<Rightarrow> u64 \<Rightarrow> store_registry \<Rightarrow> api_error + bytes" where
  "secure_store_aware_neighbors p handle now g =
     bindr (native_get handle g) (\<lambda>s.
     bindr (verified_policy p s now) (\<lambda>roster.
     bindr (or_else InternalInvariant (neighbor_plan (st_member s) (map ct_member (member_claims roster)))) (\<lambda>plan.
       Inr (concat (map (\<lambda>m. take 8 (be_bytes (hash p (be_bytes (member_arr m))))) (wifi_aware plan))))))"

section \<open>Sessions\<close>

primrec session_error_of :: "session_error \<Rightarrow> api_error" where
  "session_error_of InvalidInput_session = InvalidArgument"
| "session_error_of WrongPhase = InvalidArgument"
| "session_error_of Replay = InvalidArgument"
| "session_error_of Expired_session = StaleRequest"
| "session_error_of Closed = StaleRequest"
| "session_error_of Exhausted = ResourcePressure_api"
| "session_error_of Authentication_session = InternalInvariant"
| "session_error_of RandomUnavailable_session = InternalInvariant"

datatype ('h, 't) native_session =
    Native_handshake "'h handshake"
  | Native_ready "'t session"
  | Native_closed

record ('h, 't) session_record =
  nv_store :: u64
  nv_state :: "('h, 't) native_session"

type_synonym ('h, 't) session_registry = "('h, 't) session_record native_registry"

definition role_of :: "u8 \<Rightarrow> api_error + role" where
  "role_of r = (if r = 0 then Inr Initiator else if r = 1 then Inr Responder else Inl InvalidArgument)"

definition secure_session_start ::
    "suite \<Rightarrow> ('h, 't) noise \<Rightarrow> 'r source \<Rightarrow> u64 \<Rightarrow> bytes \<Rightarrow> bytes \<Rightarrow> u8 \<Rightarrow> u64 \<Rightarrow> store_registry
     \<Rightarrow> ('h, 't) session_registry \<times> 'r \<Rightarrow> (api_error + u64) \<times> ('h, 't) session_registry \<times> 'r" where
  "secure_session_start p z fill store_handle session_seed member role now stores gr =
     (case gr of (g, rng) \<Rightarrow>
        if length session_seed \<noteq> 32 \<or> length member \<noteq> 32 \<or> now = 0 then (Inl InvalidArgument, g, rng)
        else
          (case bindr (role_of role) (\<lambda>role. bindr (verified_roster_of p store_handle now stores) (\<lambda>roster. Inr (role, roster))) of
             Inl e \<Rightarrow> (Inl e, g, rng)
           | Inr (role, roster) \<Rightarrow>
               (case handshake_start z fill \<lparr>cf_role = role, cf_local = MemberId (be_word member), cf_expected_peer = None,
                   cf_now = now\<rparr> roster (SessionSecret (be_word session_seed)) rng of
                  (Inl e, rng) \<Rightarrow> (Inl (session_error_of e), g, rng)
                | (Inr handshake, rng) \<Rightarrow>
                    (case native_issue \<lparr>nv_store = store_handle, nv_state = Native_handshake handshake\<rparr> g of
                       (r, g) \<Rightarrow> (r, g, rng)))))"

text \<open>The branches that a session function takes by the state of the session.\<close>

definition on_handshake ::
    "('h handshake \<Rightarrow> (session_error + 'a) \<times> 'h handshake) \<Rightarrow> ('h, 't) session_record
     \<Rightarrow> (api_error + 'a) \<times> ('h, 't) session_record" where
  "on_handshake f record =
     (case nv_state record of
        Native_handshake h \<Rightarrow> (case f h of (r, h) \<Rightarrow> (map_err session_error_of r, record\<lparr>nv_state := Native_handshake h\<rparr>))
      | _ \<Rightarrow> (Inl StaleRequest, record))"

definition on_ready ::
    "('t session \<Rightarrow> (session_error + 'a) \<times> 't session) \<Rightarrow> ('h, 't) session_record
     \<Rightarrow> (api_error + 'a) \<times> ('h, 't) session_record" where
  "on_ready f record =
     (case nv_state record of
        Native_ready s \<Rightarrow> (case f s of (r, s) \<Rightarrow> (map_err session_error_of r, record\<lparr>nv_state := Native_ready s\<rparr>))
      | _ \<Rightarrow> (Inl StaleRequest, record))"

definition secure_session_write ::
    "('h, 't) noise \<Rightarrow> u64 \<Rightarrow> u64 \<Rightarrow> ('h, 't) session_registry \<Rightarrow> (api_error + bytes) \<times> ('h, 't) session_registry" where
  "secure_session_write z handle now g = native_with handle (on_handshake (handshake_write z now)) g"

definition secure_session_read ::
    "('h, 't) noise \<Rightarrow> u64 \<Rightarrow> bytes \<Rightarrow> u64 \<Rightarrow> ('h, 't) session_registry
     \<Rightarrow> (api_error + unit) \<times> ('h, 't) session_registry" where
  "secure_session_read z handle bytes now g =
     (if bytes = [] \<or> length bytes > 96 \<or> now = 0 then (Inl InvalidArgument, g)
      else native_with handle (on_handshake (handshake_read z bytes now)) g)"

definition session_store_handle :: "u64 \<Rightarrow> ('h, 't) session_registry \<Rightarrow> api_error + u64" where
  "session_store_handle handle g = bindr (native_get handle g) (\<lambda>record. Inr (nv_store record))"

text \<open>The roster of the store that a session was started on.\<close>

definition session_roster ::
    "suite \<Rightarrow> u64 \<Rightarrow> u64 \<Rightarrow> store_registry \<Rightarrow> ('h, 't) session_registry \<Rightarrow> api_error + verified_roster" where
  "session_roster p handle now stores g =
     bindr (session_store_handle handle g) (\<lambda>store_handle. verified_roster_of p store_handle now stores)"

definition secure_session_finish ::
    "suite \<Rightarrow> ('h, 't) noise \<Rightarrow> u64 \<Rightarrow> u64 \<Rightarrow> store_registry \<Rightarrow> ('h, 't) session_registry
     \<Rightarrow> (api_error + unit) \<times> ('h, 't) session_registry" where
  "secure_session_finish p z handle now stores g =
     bind_st (session_roster p handle now stores g, g) (\<lambda>roster g.
     native_with handle (\<lambda>record.
       let state = nv_state record;
           record = record\<lparr>nv_state := Native_closed\<rparr>
       in case state of
            Native_handshake handshake \<Rightarrow>
              (case map_err session_error_of (handshake_finish z roster now handshake) of
                 Inr s \<Rightarrow> (Inr (), record\<lparr>nv_state := Native_ready s\<rparr>)
               | Inl e \<Rightarrow> (Inl e, record))
          | _ \<Rightarrow> (Inl StaleRequest, record)) g)"

definition secure_session_authenticate ::
    "suite \<Rightarrow> ('h, 't) noise \<Rightarrow> u64 \<Rightarrow> bytes \<Rightarrow> u64 \<Rightarrow> store_registry \<Rightarrow> ('h, 't) session_registry
     \<Rightarrow> (api_error + bytes) \<times> ('h, 't) session_registry" where
  "secure_session_authenticate p z handle identity_seed now stores g =
     (if length identity_seed \<noteq> 32 then (Inl InvalidArgument, g)
      else
        bind_st (session_roster p handle now stores g, g) (\<lambda>roster g.
          native_with handle (on_ready (session_authentication z p (IdentitySigningKey (be_word identity_seed)) roster now)) g))"

definition secure_session_send ::
    "suite \<Rightarrow> ('h, 't) noise \<Rightarrow> u64 \<Rightarrow> bytes \<Rightarrow> u64 \<Rightarrow> store_registry \<Rightarrow> ('h, 't) session_registry
     \<Rightarrow> (api_error + bytes) \<times> ('h, 't) session_registry" where
  "secure_session_send p z handle bytes now stores g =
     (if bytes = [] \<or> length bytes > MAX_PAYLOAD then (Inl InvalidArgument, g)
      else
        bind_st (session_roster p handle now stores g, g) (\<lambda>roster g.
          native_with handle (on_ready (session_send z bytes roster now)) g))"

definition secure_session_receive ::
    "suite \<Rightarrow> ('h, 't) noise \<Rightarrow> u64 \<Rightarrow> bytes \<Rightarrow> u64 \<Rightarrow> store_registry \<Rightarrow> ('h, 't) session_registry
     \<Rightarrow> (api_error + bytes) \<times> ('h, 't) session_registry" where
  "secure_session_receive p z handle frame now stores g =
     (if length frame < 58 \<or> length frame > MAX_FRAME then (Inl InvalidArgument, g)
      else
        bind_st (session_roster p handle now stores g, g) (\<lambda>roster g.
          native_with handle (on_ready (\<lambda>s. apfst (\<lambda>r. bindr r (\<lambda>i. Inr (case i of Authenticated _ \<Rightarrow> [] | Data b \<Rightarrow> b)))
            (session_receive z p frame roster now s))) g))"

definition secure_session_authenticated :: "u64 \<Rightarrow> ('h, 't) session_registry \<Rightarrow> api_error + bool" where
  "secure_session_authenticated handle g =
     bindr (native_get handle g) (\<lambda>record.
       Inr (case nv_state record of Native_ready s \<Rightarrow> is_authenticated s | _ \<Rightarrow> False))"

definition secure_session_peer :: "u64 \<Rightarrow> ('h, 't) session_registry \<Rightarrow> api_error + arr32" where
  "secure_session_peer handle g =
     bindr (native_get handle g) (\<lambda>record.
       case nv_state record of
         Native_ready s \<Rightarrow> ok_or StaleRequest (map_option member_arr (ss_peer s))
       | _ \<Rightarrow> Inl StaleRequest)"

definition secure_session_release ::
    "u64 \<Rightarrow> ('h, 't) session_registry \<Rightarrow> (api_error + unit) \<times> ('h, 't) session_registry" where
  "secure_session_release handle g = native_release handle g"

section \<open>Frames, records and relay gates\<close>

definition link_frame_encode :: "bytes \<Rightarrow> api_error + bytes" where
  "link_frame_encode bytes =
     (if bytes = [] \<or> length bytes > MAX_FRAME_BYTES then Inl InvalidArgument
      else bindr (or_else InvalidArgument (frame_new bytes)) (\<lambda>frame. Inr (frame_encode frame)))"

definition link_frame_decode :: "bytes \<Rightarrow> api_error + bytes" where
  "link_frame_decode bytes =
     (if \<not> (3 \<le> length bytes \<and> length bytes \<le> MAX_FRAME_BYTES + 3) then Inl InvalidArgument
      else bindr (or_else InvalidArgument (frame_decode bytes)) (\<lambda>frame. Inr (frame_bytes frame)))"

definition routed_record_encode :: "bytes \<Rightarrow> bytes \<Rightarrow> api_error + bytes" where
  "routed_record_encode frame record =
     bindr (or_else InvalidArgument (relay_decode frame)) (\<lambda>frame.
     bindr (or_else InvalidArgument (durable_decode record)) (\<lambda>record.
       or_else InvalidArgument (routed_encode \<lparr>rr_frame = frame, rr_record = record\<rparr>)))"

definition routed_record_decode :: "bytes \<Rightarrow> api_error + bytes" where
  "routed_record_decode bytes =
     bindr (or_else InvalidArgument (routed_decode bytes)) (\<lambda>routed.
     bindr (or_else InternalInvariant (durable_encode (rr_record routed))) (\<lambda>record.
       Inr (relay_encode (rr_frame routed) @ record)))"

type_synonym relay_gate_registry = "relay_cache native_registry"

definition relay_gate_open :: "bytes \<Rightarrow> relay_gate_registry \<Rightarrow> (api_error + u64) \<times> relay_gate_registry" where
  "relay_gate_open member g =
     bind_st (to_member member, g) (\<lambda>member g. native_issue (relay_new member) g)"

definition decision_bytes :: "relay_decision \<Rightarrow> bytes" where
  "decision_bytes d =
     (case d of
        Forward frame \<Rightarrow> [1] @ relay_encode frame
      | Duplicate \<Rightarrow> [2]
      | Expired_decision \<Rightarrow> [3]
      | HopLimit \<Rightarrow> [4])"

definition relay_gate_accept ::
    "u64 \<Rightarrow> bytes \<Rightarrow> bytes \<Rightarrow> u64 \<Rightarrow> relay_gate_registry \<Rightarrow> (api_error + bytes) \<times> relay_gate_registry" where
  "relay_gate_accept handle frame via now g =
     bind_st (or_else InvalidArgument (relay_decode frame), g) (\<lambda>frame g.
     bind_st (to_member via, g) (\<lambda>via g.
     native_with handle (\<lambda>gate.
       apfst (\<lambda>r. bindr (or_else InvalidArgument r) (\<lambda>d. Inr (decision_bytes d))) (accept frame via now gate)) g))"

definition relay_gate_release :: "u64 \<Rightarrow> relay_gate_registry \<Rightarrow> (api_error + unit) \<times> relay_gate_registry" where
  "relay_gate_release handle g = native_release handle g"

end
