(* ===== verification/Mesh_Native_Group.thy ===== *)
theory Mesh_Native_Group
  imports Mesh_Native Mesh_Policy
begin

text \<open>
  The functions of \<open>crates/mesh-ffi-c/src/lib.rs\<close> that create a group, enroll members and hand the
  authority over, each on the store behind a handle. The random source and the imported keys are
  arguments, as in the crates below.
\<close>

section \<open>Founding a group\<close>

definition GROUP_CERTIFICATE_LIFETIME :: u64 where "GROUP_CERTIFICATE_LIFETIME = 7 * 24 * 60 * 60"
definition ENROLLMENT_REQUEST_LIFETIME :: u64 where "ENROLLMENT_REQUEST_LIFETIME = 15 * 60"

definition founder_claims :: "suite \<Rightarrow> identity_signing_key \<Rightarrow> arr32 \<Rightarrow> member_id \<Rightarrow> scope \<Rightarrow> u64 \<Rightarrow> certificate_claims" where
  "founder_claims p identity delivery member scope now =
     \<lparr>ct_group = sc_group scope, ct_member = member, ct_signing_key = signing_public_key p identity,
      ct_delivery_key = delivery, ct_valid_from = now, ct_valid_until = now + GROUP_CERTIFICATE_LIFETIME,
      ct_epoch = sc_epoch scope, ct_serial = 1\<rparr>"

definition found_group ::
    "suite \<Rightarrow> arr32 \<Rightarrow> scope \<Rightarrow> bytes \<Rightarrow> u64 \<Rightarrow> store \<Rightarrow> (api_error + u64) \<times> store" where
  "found_group p authority scope certificate now s =
     bind_st (or_else InternalInvariant (active_policy p s now), s) (\<lambda>active s.
     if active \<noteq> None then (Inl StaleRequest, s)
     else
       bind_st (apfst (or_else InternalInvariant) (install_policy p authority scope [certificate] [] now s)) (\<lambda>_ s.
         (Inr (sc_epoch scope), s)))"

definition secure_store_create_group ::
    "suite \<Rightarrow> ('r, 'k, 'q, 'o) kem \<Rightarrow> 'r source \<Rightarrow> u64 \<Rightarrow> bytes \<Rightarrow> bytes \<Rightarrow> bytes \<Rightarrow> u64 \<Rightarrow> store_registry \<times> 'r
     \<Rightarrow> (api_error + u64) \<times> store_registry \<times> 'r" where
  "secure_store_create_group p k fill handle identity_seed delivery_seed member now gr =
     (case gr of (g, rng) \<Rightarrow>
      if length identity_seed \<noteq> 32 \<or> length delivery_seed \<noteq> 32 \<or> length member \<noteq> 32 \<or> now = 0
         \<or> now > MAX_LOGICAL_TIME - GROUP_CERTIFICATE_LIFETIME
      then (Inl InvalidArgument, g, rng)
      else
      let identity = IdentitySigningKey (be_word identity_seed) in
      case delivery_import k (be_word delivery_seed) of
        Inl _ \<Rightarrow> (Inl InvalidArgument, g, rng)
      | Inr delivery \<Rightarrow>
          if be_word member \<noteq> signing_public_key p identity then (Inl InvalidArgument, g, rng)
          else
          (case fill 32 rng of
             (Inl _, rng) \<Rightarrow> (Inl InternalInvariant, g, rng)
           | (Inr gid, rng) \<Rightarrow>
               let scope = \<lparr>sc_group = be_word gid, sc_epoch = 1\<rparr> in
               (case issue_certificate p identity
                   (founder_claims p identity (kem_sk_to_pk k delivery) (MemberId (be_word member)) scope now) of
                  Inl _ \<Rightarrow> (Inl InternalInvariant, g, rng)
                | Inr certificate \<Rightarrow>
                    (case native_with handle (found_group p (signing_public_key p identity) scope certificate now) g of
                       (r, g) \<Rightarrow> (r, g, rng)))))"

section \<open>Enrollment\<close>

text \<open>The loop over the claims: the new epoch and validity, and the certificates in the same order.\<close>

definition renew_claims :: "u64 \<Rightarrow> u64 \<Rightarrow> u64 \<Rightarrow> certificate_claims list \<Rightarrow> certificate_claims list" where
  "renew_claims epoch valid_from valid_until claims =
     map (\<lambda>c. c\<lparr>ct_epoch := epoch, ct_valid_from := valid_from, ct_valid_until := valid_until\<rparr>) claims"

primrec issue_certificates ::
    "suite \<Rightarrow> identity_signing_key \<Rightarrow> certificate_claims list \<Rightarrow> api_error + bytes list" where
  "issue_certificates p authority [] = Inr []"
| "issue_certificates p authority (c # cs) =
     bindr (or_else InternalInvariant (issue_certificate p authority c)) (\<lambda>b.
     bindr (issue_certificates p authority cs) (\<lambda>bs. Inr (b # bs)))"

definition next_serial :: "certificate_claims list \<Rightarrow> u64 option" where
  "next_serial claims = checked_add (fold max (map ct_serial claims) 0) 1"

definition enroll_member ::
    "suite \<Rightarrow> identity_signing_key \<Rightarrow> enrollment_request \<Rightarrow> u64 \<Rightarrow> store \<Rightarrow> (api_error + bytes) \<times> store" where
  "enroll_member p authority request now s =
     bind_st (or_else InternalInvariant (active_policy p s now), s) (\<lambda>active s.
     bind_st (ok_or InvalidArgument active, s) (\<lambda>active s.
     if ps_authority active \<noteq> signing_public_key p authority \<or> eq_scope request \<noteq> ps_scope active
     then (Inl InvalidArgument, s)
     else
     bind_st (or_else InternalInvariant (st_policy_bundle s), s) (\<lambda>bundle s.
     bind_st (ok_or InternalInvariant bundle, s) (\<lambda>bundle s.
     bind_st (or_else InternalInvariant (bundle_verify p bundle now), s) (\<lambda>roster s.
     if contains_member roster (eq_member request) \<or> length (member_claims roster) \<ge> MAX_GROUP_MEMBERS
     then (Inl StaleRequest, s)
     else
     bind_st (ok_or InvalidArgument (checked_add (sc_epoch (ps_scope active)) 1), s) (\<lambda>next_epoch s.
     if next_epoch > MAX_LOGICAL_TIME then (Inl InvalidArgument, s)
     else
     bind_st (ok_or InvalidArgument (checked_add now GROUP_CERTIFICATE_LIFETIME), s) (\<lambda>valid_until s.
     if valid_until > MAX_LOGICAL_TIME then (Inl InvalidArgument, s)
     else
     let scope = \<lparr>sc_group = sc_group (ps_scope active), sc_epoch = next_epoch\<rparr>;
         claims = renew_claims next_epoch now valid_until (member_claims roster)
     in
     bind_st (ok_or InvalidArgument (next_serial claims), s) (\<lambda>serial s.
     let claims = claims @ [\<lparr>ct_group = sc_group scope, ct_member = eq_member request,
           ct_signing_key = eq_signing_key request, ct_delivery_key = eq_delivery_key request,
           ct_valid_from = now, ct_valid_until = valid_until, ct_epoch = next_epoch, ct_serial = serial\<rparr>]
     in
     bind_st (issue_certificates p authority claims, s) (\<lambda>certificates s.
     bind_st (apfst (or_else InternalInvariant)
         (install_policy p (ps_authority active) scope certificates (pb_revoked bundle) now s)) (\<lambda>_ s.
       (or_else InternalInvariant (bundle_encode \<lparr>pb_authority = ps_authority active, pb_scope = scope,
          pb_certificates = certificates, pb_revoked = pb_revoked bundle\<rparr>), s)))))))))))"

definition secure_store_issue_enrollment ::
    "suite \<Rightarrow> u64 \<Rightarrow> bytes \<Rightarrow> bytes \<Rightarrow> u64 \<Rightarrow> store_registry \<Rightarrow> (api_error + bytes) \<times> store_registry" where
  "secure_store_issue_enrollment p handle identity_seed request_bytes now g =
     (if length identity_seed \<noteq> 32 \<or> request_bytes = [] \<or> length request_bytes > 512 \<or> now = 0
      then (Inl InvalidArgument, g)
      else
        bind_st (or_else InvalidArgument (verify_enrollment_request p request_bytes now), g) (\<lambda>request g.
          native_with handle (enroll_member p (IdentitySigningKey (be_word identity_seed)) request now) g))"

definition secure_store_can_issue_enrollment ::
    "suite \<Rightarrow> u64 \<Rightarrow> bytes \<Rightarrow> u64 \<Rightarrow> store_registry \<Rightarrow> api_error + bool" where
  "secure_store_can_issue_enrollment p handle identity_seed now g =
     (if length identity_seed \<noteq> 32 \<or> now = 0 then Inl InvalidArgument
      else
        bindr (native_get handle g) (\<lambda>s.
        bindr (or_else InternalInvariant (active_policy p s now)) (\<lambda>active.
          Inr (case active of
              None \<Rightarrow> False
            | Some a \<Rightarrow> ps_authority a = signing_public_key p (IdentitySigningKey (be_word identity_seed))))))"

definition enrollment_request_member :: "suite \<Rightarrow> bytes \<Rightarrow> u64 \<Rightarrow> api_error + member_id" where
  "enrollment_request_member p request_bytes now =
     (if request_bytes = [] \<or> length request_bytes > 512 \<or> now = 0 then Inl InvalidArgument
      else bindr (or_else InvalidArgument (verify_enrollment_request p request_bytes now)) (\<lambda>q. Inr (eq_member q)))"

definition create_enrollment_request_from_policy ::
    "suite \<Rightarrow> ('r, 'k, 'q, 'o) kem \<Rightarrow> 'r source \<Rightarrow> bytes \<Rightarrow> bytes \<Rightarrow> bytes \<Rightarrow> u64 \<Rightarrow> 'r \<Rightarrow> (api_error + bytes) \<times> 'r" where
  "create_enrollment_request_from_policy p k fill identity_seed delivery_seed invitation now rng =
     (if length identity_seed \<noteq> 32 \<or> length delivery_seed \<noteq> 32 \<or> invitation = []
         \<or> length invitation > MAX_POLICY_BUNDLE \<or> now = 0
      then (Inl InvalidArgument, rng)
      else
      bind_st (or_else InvalidArgument (bundle_decode invitation), rng) (\<lambda>invitation rng.
      bind_st (or_else InvalidArgument (bundle_verify p invitation now), rng) (\<lambda>_ rng.
      bind_st (ok_or InvalidArgument (checked_add now ENROLLMENT_REQUEST_LIFETIME), rng) (\<lambda>valid_until rng.
      bind_st (or_else InvalidArgument (delivery_import k (be_word delivery_seed)), rng) (\<lambda>delivery rng.
        apfst (or_else InternalInvariant) (create_enrollment_request p k fill (IdentitySigningKey (be_word identity_seed)) delivery
          (pb_scope invitation) now valid_until rng))))))"

section \<open>Authority\<close>

text \<open>The successor is a member whose identifier is its signing key.\<close>

definition certified_successor :: "verified_roster \<Rightarrow> arr32 \<Rightarrow> bool" where
  "certified_successor roster successor \<longleftrightarrow>
     contains_member roster (MemberId successor) \<and>
     (\<exists>c \<in> set (member_claims roster). ct_member c = MemberId successor \<and> ct_signing_key c = successor)"

definition prepare_handoff ::
    "suite \<Rightarrow> identity_signing_key \<Rightarrow> arr32 \<Rightarrow> u64 \<Rightarrow> u64 \<Rightarrow> store \<Rightarrow> api_error + bytes" where
  "prepare_handoff p authority successor valid_until now s =
     bindr (or_else InternalInvariant (active_policy p s now)) (\<lambda>active.
     bindr (ok_or InvalidArgument active) (\<lambda>active.
     if ps_authority active \<noteq> signing_public_key p authority then Inl InvalidArgument
     else
     bindr (or_else InternalInvariant (st_policy_bundle s)) (\<lambda>bundle.
     bindr (ok_or InternalInvariant bundle) (\<lambda>bundle.
     bindr (or_else InternalInvariant (bundle_verify p bundle now)) (\<lambda>roster.
     if \<not> certified_successor roster successor then Inl InvalidArgument
     else
       or_else InternalInvariant
         (bindr (issue_authority_handoff p authority (ps_scope active) (vr_digest roster) successor valid_until) handoff_encode))))))"

definition secure_store_prepare_authority_handoff ::
    "suite \<Rightarrow> u64 \<Rightarrow> bytes \<Rightarrow> bytes \<Rightarrow> u64 \<Rightarrow> u64 \<Rightarrow> store_registry \<Rightarrow> api_error + bytes" where
  "secure_store_prepare_authority_handoff p handle identity_seed successor valid_until now g =
     (if length identity_seed \<noteq> 32 \<or> length successor \<noteq> 32 \<or> valid_until \<le> now \<or> now = 0 then Inl InvalidArgument
      else
        bindr (native_get handle g)
          (prepare_handoff p (IdentitySigningKey (be_word identity_seed)) (be_word successor) valid_until now))"

definition rotate_authority ::
    "suite \<Rightarrow> identity_signing_key \<Rightarrow> authority_handoff \<Rightarrow> u64 \<Rightarrow> u64 \<Rightarrow> store \<Rightarrow> (api_error + bytes) \<times> store" where
  "rotate_authority p successor handoff valid_until now s =
     (let public = signing_public_key p successor in
      if member_arr (st_member s) \<noteq> public then (Inl InvalidArgument, s)
      else
      bind_st (or_else InternalInvariant (active_policy p s now), s) (\<lambda>active s.
      bind_st (ok_or InvalidArgument active, s) (\<lambda>active s.
      bind_st (or_else InternalInvariant (st_policy_bundle s), s) (\<lambda>bundle s.
      bind_st (ok_or InternalInvariant bundle, s) (\<lambda>bundle s.
      bind_st (or_else InternalInvariant (bundle_verify p bundle now), s) (\<lambda>roster s.
      if \<not> certified_successor roster public then (Inl InvalidArgument, s)
      else
      bind_st (or_else InvalidArgument
          (handoff_verify_for p handoff (ps_authority active) (ps_scope active) (vr_digest roster) now), s) (\<lambda>_ s.
      bind_st (ok_or InvalidArgument (checked_add (sc_epoch (ps_scope active)) 1), s) (\<lambda>epoch s.
      let scope = \<lparr>sc_group = sc_group (ps_scope active), sc_epoch = epoch\<rparr> in
      if sc_epoch scope \<noteq> ah_next_epoch handoff then (Inl InvalidArgument, s)
      else
      bind_st (issue_certificates p successor (renew_claims epoch now valid_until (member_claims roster)), s) (\<lambda>certificates s.
      bind_st (apfst (or_else InvalidArgument)
          (install_rotated_policy p public scope certificates (pb_revoked bundle) handoff now s)) (\<lambda>_ s.
        (or_else InternalInvariant (bundle_encode \<lparr>pb_authority = public, pb_scope = scope,
           pb_certificates = certificates, pb_revoked = pb_revoked bundle\<rparr>), s)))))))))))"

definition secure_store_rotate_authority ::
    "suite \<Rightarrow> u64 \<Rightarrow> bytes \<Rightarrow> bytes \<Rightarrow> u64 \<Rightarrow> store_registry \<Rightarrow> (api_error + bytes) \<times> store_registry" where
  "secure_store_rotate_authority p handle successor_seed encoded now g =
     (if length successor_seed \<noteq> 32 \<or> encoded = [] \<or> length encoded > MAX_AUTHORITY_HANDOFF \<or> now = 0
         \<or> now > MAX_LOGICAL_TIME - GROUP_CERTIFICATE_LIFETIME
      then (Inl InvalidArgument, g)
      else
      bind_st (or_else InvalidArgument (handoff_decode encoded), g) (\<lambda>handoff g.
      let successor = IdentitySigningKey (be_word successor_seed) in
      if signing_public_key p successor \<noteq> ah_next_authority handoff then (Inl InvalidArgument, g)
      else
      bind_st (ok_or InvalidArgument (case checked_add now GROUP_CERTIFICATE_LIFETIME of
            Some until \<Rightarrow> if until \<le> MAX_LOGICAL_TIME then Some until else None
          | None \<Rightarrow> None), g) (\<lambda>valid_until g.
        native_with handle (rotate_authority p successor handoff valid_until now) g)))"

section \<open>Policies\<close>

definition secure_store_sign_cloud_relay ::
    "suite \<Rightarrow> u64 \<Rightarrow> bytes \<Rightarrow> bytes \<Rightarrow> u64 \<Rightarrow> store_registry \<Rightarrow> api_error + bytes" where
  "secure_store_sign_cloud_relay p handle identity_seed canonical now g =
     (if length identity_seed \<noteq> 32 \<or> canonical = [] \<or> length canonical > MAX_SIGNED_BYTES \<or> now = 0
      then Inl InvalidArgument
      else
      let identity = IdentitySigningKey (be_word identity_seed) in
      bindr (native_get handle g) (\<lambda>s.
      bindr (or_else InternalInvariant (active_policy p s now)) (\<lambda>active.
      bindr (ok_or StaleRequest active) (\<lambda>active.
      bindr (verified_policy p s now) (\<lambda>roster.
      if \<not> contains_member roster (MemberId (signing_public_key p identity)) then Inl StaleRequest
      else
      bindr (or_else InvalidArgument (sign p identity (ps_scope active) CloudRelay canonical)) (\<lambda>signature.
        Inr (be_bytes (sc_group (ps_scope active)) @ be_bytes (sc_epoch (ps_scope active)) @ be_bytes signature)))))))"

definition secure_store_install_policy ::
    "suite \<Rightarrow> u64 \<Rightarrow> bytes \<Rightarrow> u64 \<Rightarrow> store_registry \<Rightarrow> (api_error + u64) \<times> store_registry" where
  "secure_store_install_policy p handle bundle now g =
     (if bundle = [] \<or> length bundle > MAX_POLICY_BUNDLE \<or> now = 0 then (Inl InvalidArgument, g)
      else
      bind_st (or_else InvalidArgument (bundle_decode bundle), g) (\<lambda>bundle g.
      native_with handle (\<lambda>s.
        bind_st (apfst (or_else InternalInvariant)
            (install_policy p (pb_authority bundle) (pb_scope bundle) (pb_certificates bundle) (pb_revoked bundle) now s)) (\<lambda>x s.
          (Inr (sc_epoch (ps_scope x)), s))) g))"

definition secure_store_install_rotated_policy ::
    "suite \<Rightarrow> u64 \<Rightarrow> bytes \<Rightarrow> bytes \<Rightarrow> u64 \<Rightarrow> store_registry \<Rightarrow> (api_error + u64) \<times> store_registry" where
  "secure_store_install_rotated_policy p handle bundle encoded now g =
     (if bundle = [] \<or> length bundle > MAX_POLICY_BUNDLE
         \<or> encoded = [] \<or> length encoded > MAX_AUTHORITY_HANDOFF \<or> now = 0
      then (Inl InvalidArgument, g)
      else
      bind_st (or_else InvalidArgument (bundle_decode bundle), g) (\<lambda>bundle g.
      bind_st (or_else InvalidArgument (handoff_decode encoded), g) (\<lambda>handoff g.
      native_with handle (\<lambda>s.
        bind_st (apfst (or_else InvalidArgument)
            (install_rotated_policy p (pb_authority bundle) (pb_scope bundle) (pb_certificates bundle) (pb_revoked bundle)
              handoff now s)) (\<lambda>x s.
          (Inr (sc_epoch (ps_scope x)), s))) g)))"

definition secure_store_export_policy :: "suite \<Rightarrow> u64 \<Rightarrow> u64 \<Rightarrow> store_registry \<Rightarrow> api_error + bytes" where
  "secure_store_export_policy p handle now g =
     (if now = 0 then Inl InvalidArgument
      else
      bindr (native_get handle g) (\<lambda>s.
      bindr (or_else InternalInvariant (active_policy p s now)) (\<lambda>active.
      bindr (ok_or InvalidArgument active) (\<lambda>_.
      bindr (or_else InternalInvariant (st_policy_bundle s)) (\<lambda>bundle.
      bindr (ok_or InternalInvariant bundle) (\<lambda>bundle.
        or_else InternalInvariant (bundle_encode bundle)))))))"

end
