(* ===== verification/Mesh_Native_Text.thy ===== *)
theory Mesh_Native_Text
  imports Mesh_Native Mesh_Store_Retention Mesh_Store_Proofs
begin

text \<open>
  The functions of \<open>crates/mesh-ffi-c/src/lib.rs\<close> that carry text messages: enqueueing one for the
  group, its progress, the records that a device offers to its neighbors as origin, target or relay,
  the acceptance of a record from a neighbor, and the delivery of a complete text to the host.
\<close>

section \<open>Delivery to the host\<close>

definition DELIVERED_TEXT_MAGIC :: bytes where "DELIVERED_TEXT_MAGIC = [0x74, 2]"

definition encode_delivered_text :: "suite \<Rightarrow> verified_delivery \<Rightarrow> bytes \<Rightarrow> bytes \<Rightarrow> api_error + bytes" where
  "encode_delivered_text p proof_of receipt text =
     (if receipt = [] \<or> length receipt > 65535 \<or> text = [] \<or> length text > 65535 then Inl InternalInvariant
      else Inr (DELIVERED_TEXT_MAGIC @ be_bytes (object_arr (vd_object_id (hash p) proof_of)) @
        be_bytes (member_arr (mf_origin (aa_manifest (vd_announcement proof_of)))) @ be_bytes (vd_verified_at proof_of) @
        be_bytes (of_nat (length receipt) :: u16) @ receipt @ be_bytes (of_nat (length text) :: u16) @ text))"

definition TEXT_NAMESPACE :: bytes where "TEXT_NAMESPACE = ascii ''mesh.chat.text.v1''"

definition finalize_next_text ::
    "suite \<Rightarrow> ('r, 'k, 'q, 'o) kem \<Rightarrow> arr32 \<Rightarrow> arr32 \<Rightarrow> u64 \<Rightarrow> store \<Rightarrow> (api_error + bytes) \<times> store" where
  "finalize_next_text p k identity_seed delivery_seed now s =
     bind_st (apfst (or_else InternalInvariant) (prune_expired (hash p) now s)) (\<lambda>_ s.
     bind_st (verified_policy p s now, s) (\<lambda>roster s.
     bind_st (or_else InternalInvariant (next_authenticated_delivery p s now), s) (\<lambda>found s.
     case found of
       None \<Rightarrow> (Inr [], s)
     | Some object \<Rightarrow>
     bind_st (or_else InternalInvariant (st_manifest (hash p) s object), s) (\<lambda>m s.
     if mf_namespace m \<noteq> Namespace TEXT_NAMESPACE then (Inl StaleRequest, s)
     else
     bind_st (or_else InvalidArgument (delivery_import k delivery_seed), s) (\<lambda>secret s.
     bind_st (or_else InvalidArgument (verify_received p k s object roster secret now), s) (\<lambda>proof_of s.
     bind_st (apfst (or_else InternalInvariant) (finalize_received p proof_of roster (IdentitySigningKey identity_seed) now s)) (\<lambda>receipt s.
       (encode_delivered_text p proof_of (rm_receipt receipt) (vd_plaintext proof_of), s))))))))"

definition secure_store_finalize_next_text ::
    "suite \<Rightarrow> ('r, 'k, 'q, 'o) kem \<Rightarrow> u64 \<Rightarrow> bytes \<Rightarrow> bytes \<Rightarrow> u64 \<Rightarrow> store_registry \<Rightarrow> (api_error + bytes) \<times> store_registry" where
  "secure_store_finalize_next_text p k handle identity_seed delivery_seed now g =
     (if length identity_seed \<noteq> 32 \<or> length delivery_seed \<noteq> 32 \<or> now = 0 then (Inl InvalidArgument, g)
      else native_with handle (finalize_next_text p k (be_word identity_seed) (be_word delivery_seed) now) g)"

section \<open>Enqueueing\<close>

text \<open>One audience: an operation of its own, a sequence, the sealed message, and its commit.\<close>

definition enqueue_audience ::
    "suite \<Rightarrow> ('r, 'k, 'q, 'o) kem \<Rightarrow> 'r source \<Rightarrow> verified_roster \<Rightarrow> identity_signing_key \<Rightarrow> logical_id \<Rightarrow> bytes
     \<Rightarrow> u64 \<Rightarrow> u64 \<Rightarrow> member_id list \<Rightarrow> nat \<Rightarrow> store \<times> 'r \<Rightarrow> (api_error + nat) \<times> store \<times> 'r" where
  "enqueue_audience p k fill roster signer logical plaintext expires_at now audience records sr =
     (case sr of (s, rng) \<Rightarrow>
      (case fill 16 rng of
         (Inl _, rng) \<Rightarrow> (Inl InternalInvariant, s, rng)
       | (Inr operation, rng) \<Rightarrow>
           let command_hash = hash p (operation @ plaintext);
               i = OperationId (be_word operation)
           in
           (case reserve i command_hash s of
              (Inl _, s) \<Rightarrow> (Inl InternalInvariant, s, rng)
            | (Inr reservation, s) \<Rightarrow>
                (case seal_message p k fill
                    \<lparr>sr_origin = st_member s, sr_sequence = rn_sequence reservation,
                     sr_policy = \<lparr>op_namespace = Namespace TEXT_NAMESPACE, op_epoch = sc_epoch (vr_scope roster),
                       op_targets = audience, op_expires_at = expires_at, op_hop_limit = 16\<rparr>,
                     sr_plaintext = plaintext, sr_now = now\<rparr> roster signer rng of
                   (Inl _, rng) \<Rightarrow> (Inl InvalidArgument, s, rng)
                 | (Inr message, rng) \<Rightarrow>
                     let records = records + (1 + length (po_chunks (sm_object message))) in
                     if records > 65535 then (Inl ResourcePressure_api, s, rng)
                     else
                     (case commit_sealed_logical p i command_hash message roster logical now s of
                        (Inl _, s) \<Rightarrow> (Inl InternalInvariant, s, rng)
                      | (Inr _, s) \<Rightarrow> (Inr records, s, rng))))))"

primrec enqueue_audiences ::
    "suite \<Rightarrow> ('r, 'k, 'q, 'o) kem \<Rightarrow> 'r source \<Rightarrow> verified_roster \<Rightarrow> identity_signing_key \<Rightarrow> logical_id \<Rightarrow> bytes
     \<Rightarrow> u64 \<Rightarrow> u64 \<Rightarrow> member_id list list \<Rightarrow> nat \<Rightarrow> store \<times> 'r \<Rightarrow> (api_error + nat) \<times> store \<times> 'r" where
  "enqueue_audiences p k fill roster signer logical plaintext expires_at now [] records sr = (Inr records, sr)"
| "enqueue_audiences p k fill roster signer logical plaintext expires_at now (audience # audiences) records sr =
     bind_st (enqueue_audience p k fill roster signer logical plaintext expires_at now audience records sr) (\<lambda>records sr.
       enqueue_audiences p k fill roster signer logical plaintext expires_at now audiences records sr)"

text \<open>The closure \<open>enqueue\<close> and the rollback after its failure.\<close>

definition enqueue_logical ::
    "suite \<Rightarrow> ('r, 'k, 'q, 'o) kem \<Rightarrow> 'r source \<Rightarrow> (store \<Rightarrow> bool) \<Rightarrow> verified_roster \<Rightarrow> identity_signing_key
     \<Rightarrow> logical_id \<Rightarrow> bytes \<Rightarrow> nat \<Rightarrow> u64 \<Rightarrow> u64 \<Rightarrow> member_id list list \<Rightarrow> store \<times> 'r \<Rightarrow> (api_error + u16) \<times> store \<times> 'r" where
  "enqueue_logical p k fill disk roster signer logical plaintext target_count expires_at now audiences sr =
     (case sr of (s, rng) \<Rightarrow>
      (case (case begin_logical_message logical target_count (length audiences) expires_at now s of
               (Inl _, s) \<Rightarrow> (Inl InternalInvariant, s, rng)
             | (Inr _, s) \<Rightarrow>
                 enqueue_audiences p k fill roster signer logical plaintext expires_at now audiences 0 (s, rng)) of
         (Inr records, s, rng) \<Rightarrow> (Inr (of_nat records), s, rng)
       | (Inl e, s, rng) \<Rightarrow>
           (case rollback_logical_message disk logical s of
              (Inl _, s) \<Rightarrow> (Inl InternalInvariant, s, rng)
            | (Inr _, s) \<Rightarrow> (Inl e, s, rng))))"

text \<open>What \<open>enqueue_text\<close> does on the store.\<close>

definition enqueue_in ::
    "suite \<Rightarrow> ('r, 'k, 'q, 'o) kem \<Rightarrow> 'r source \<Rightarrow> (store \<Rightarrow> bool) \<Rightarrow> identity_signing_key \<Rightarrow> bytes
     \<Rightarrow> logical_id option \<Rightarrow> u64 \<Rightarrow> u64
     \<Rightarrow> store \<times> 'r \<Rightarrow> (api_error + u16) \<times> store \<times> 'r" where
  "enqueue_in p k fill disk signer plaintext requested expires_at now sr =
     (case sr of (s, rng) \<Rightarrow>
      (case bind_st (apfst (or_else InternalInvariant) (prune_expired (hash p) now s)) (\<lambda>_ s.
            bind_st (verified_policy p s now, s) (\<lambda>roster s.
            bind_st (or_else InvalidArgument (broadcast_audiences (st_member s) (map ct_member (member_claims roster))), s)
              (\<lambda>audiences s. (Inr (roster, audiences), s)))) of
         (Inl e, s) \<Rightarrow> (Inl e, s, rng)
       | (Inr (roster, audiences), s) \<Rightarrow>
           (case (case requested of
                    Some logical \<Rightarrow> (Inr logical, rng)
                  | None \<Rightarrow> (case fill 16 rng of (Inl _, rng) \<Rightarrow> (Inl InternalInvariant, rng)
                        | (Inr b, rng) \<Rightarrow> (Inr (LogicalMessageId (be_word b)), rng))) of
              (Inl e, rng) \<Rightarrow> (Inl e, s, rng)
            | (Inr logical, rng) \<Rightarrow>
                let target_count = length (member_claims roster) - 1;
                    start = enqueue_logical p k fill disk roster signer logical plaintext target_count expires_at now audiences
                in
                (case logical_delivery_summary_of s logical now of
                   Inl _ \<Rightarrow> (Inl InternalInvariant, s, rng)
                 | Inr None \<Rightarrow> start (s, rng)
                 | Inr (Some existing) \<Rightarrow>
                     if ls_target_count existing \<noteq> target_count \<or> ls_audience_count existing \<noteq> length audiences
                     then (Inl InvalidArgument, s, rng)
                     else if ls_committed_audiences existing = ls_audience_count existing then (Inr 1, s, rng)
                     else
                       (case rollback_logical_message disk logical s of
                          (Inl _, s) \<Rightarrow> (Inl InternalInvariant, s, rng)
                        | (Inr _, s) \<Rightarrow> start (s, rng))))))"

definition enqueue_text ::
    "suite \<Rightarrow> ('r, 'k, 'q, 'o) kem \<Rightarrow> 'r source \<Rightarrow> (store \<Rightarrow> bool) \<Rightarrow> u64 \<Rightarrow> bytes \<Rightarrow> bytes \<Rightarrow> logical_id option \<Rightarrow> u64 \<Rightarrow> store_registry \<times> 'r
     \<Rightarrow> (api_error + u16) \<times> store_registry \<times> 'r" where
  "enqueue_text p k fill disk handle identity_seed plaintext requested now gr =
     (case gr of (g, rng) \<Rightarrow>
      if length identity_seed \<noteq> 32 \<or> plaintext = [] \<or> length plaintext > MAX_PLAINTEXT \<or> now = 0
      then (Inl InvalidArgument, g, rng)
      else
      (case checked_add now 900 of
         None \<Rightarrow> (Inl InvalidArgument, g, rng)
       | Some expires_at \<Rightarrow>
           if expires_at > MAX_LOGICAL_TIME then (Inl InvalidArgument, g, rng)
           else
           (case bm_get (nr_items g) handle of
              None \<Rightarrow> (Inl InvalidHandle, g, rng)
            | Some s \<Rightarrow>
                (case enqueue_in p k fill disk (IdentitySigningKey (be_word identity_seed)) plaintext requested expires_at now (s, rng) of
                   (r, s, rng) \<Rightarrow> (r, g\<lparr>nr_items := bm_insert handle s (nr_items g)\<rparr>, rng)))))"

definition secure_store_enqueue_text ::
    "suite \<Rightarrow> ('r, 'k, 'q, 'o) kem \<Rightarrow> 'r source \<Rightarrow> (store \<Rightarrow> bool) \<Rightarrow> u64 \<Rightarrow> bytes \<Rightarrow> bytes \<Rightarrow> u64 \<Rightarrow> store_registry \<times> 'r
     \<Rightarrow> (api_error + u16) \<times> store_registry \<times> 'r" where
  "secure_store_enqueue_text p k fill disk handle identity_seed plaintext now gr =
     enqueue_text p k fill disk handle identity_seed plaintext None now gr"

definition secure_store_enqueue_text_with_logical_id ::
    "suite \<Rightarrow> ('r, 'k, 'q, 'o) kem \<Rightarrow> 'r source \<Rightarrow> (store \<Rightarrow> bool) \<Rightarrow> u64 \<Rightarrow> bytes \<Rightarrow> bytes \<Rightarrow> arr16 \<Rightarrow> u64 \<Rightarrow> store_registry \<times> 'r
     \<Rightarrow> (api_error + u16) \<times> store_registry \<times> 'r" where
  "secure_store_enqueue_text_with_logical_id p k fill disk handle identity_seed plaintext logical now gr =
     enqueue_text p k fill disk handle identity_seed plaintext (Some (LogicalMessageId logical)) now gr"

section \<open>Progress\<close>

primrec state_code :: "logical_delivery_state \<Rightarrow> u8" where
  "state_code Queued = 0"
| "state_code PartiallyDelivered = 1"
| "state_code Delivered_logical = 2"
| "state_code Expired_logical = 3"

definition summary_bytes :: "logical_delivery_summary option \<Rightarrow> api_error + bytes" where
  "summary_bytes found =
     (case found of
        None \<Rightarrow> Inr []
      | Some x \<Rightarrow>
          if ls_target_count x > 255 \<or> ls_delivered_targets x > 255 then Inl InternalInvariant
          else Inr (be_bytes (logical_arr (ls_id x)) @
            [of_nat (ls_target_count x), of_nat (ls_delivered_targets x), state_code (ls_state x)]))"

definition secure_store_latest_delivery_summary :: "u64 \<Rightarrow> u64 \<Rightarrow> store_registry \<Rightarrow> api_error + bytes" where
  "secure_store_latest_delivery_summary handle now g =
     (if now = 0 then Inl InvalidArgument
      else
      bindr (native_get handle g) (\<lambda>s.
      bindr (or_else InternalInvariant (latest_logical_delivery_summary s now)) summary_bytes))"

definition secure_store_delivery_summary :: "u64 \<Rightarrow> arr16 \<Rightarrow> u64 \<Rightarrow> store_registry \<Rightarrow> api_error + bytes" where
  "secure_store_delivery_summary handle logical now g =
     (if now = 0 then Inl InvalidArgument
      else
      bindr (native_get handle g) (\<lambda>s.
      bindr (or_else InternalInvariant (logical_delivery_summary_of s (LogicalMessageId logical) now)) summary_bytes))"

section \<open>Records of the origin\<close>

definition encode_routed :: "relay_frame \<Rightarrow> durable_record \<Rightarrow> api_error + bytes" where
  "encode_routed frame record = or_else InternalInvariant (routed_encode \<lparr>rr_frame = frame, rr_record = record\<rparr>)"

text \<open>The first sixteen bytes of a digest, \<open>copy_from_slice(&digest[..16])\<close>.\<close>

definition short_id :: "arr32 \<Rightarrow> relay_id" where
  "short_id digest = RelayId (be_word (take 16 (be_bytes digest)))"

definition first_hop :: "relay_id \<Rightarrow> member_id \<Rightarrow> member_id \<Rightarrow> manifest \<Rightarrow> relay_frame" where
  "first_hop i origin me m =
     \<lparr>rf_id = i, rf_origin = origin, rf_previous_hop = me, rf_hops = 0, rf_hop_limit = mf_hop_limit m,
      rf_expires_at = mf_expires_at m\<rparr>"

definition object_record :: "suite \<Rightarrow> store \<Rightarrow> object_id \<Rightarrow> nat \<Rightarrow> verified_roster \<Rightarrow> u64 \<Rightarrow> api_error + durable_record" where
  "object_record p s object slot roster now =
     (if slot = 0 then
        bindr (or_else InternalInvariant (authenticated_announcement_of p s object roster now)) (\<lambda>a.
          Inr (Announcement (aa_encoded a)))
      else
        if slot - 1 > 65535 then Inl InternalInvariant
        else
          bindr (or_else InternalInvariant (st_chunk (hash p) s object (slot - 1))) (\<lambda>bytes.
            Inr (Chunk object (of_nat (slot - 1)) bytes)))"

primrec outbox_slot :: "suite \<Rightarrow> store \<Rightarrow> verified_roster \<Rightarrow> u64 \<Rightarrow> object_id list \<Rightarrow> nat \<Rightarrow> api_error + bytes" where
  "outbox_slot p s roster now [] remaining = Inr []"
| "outbox_slot p s roster now (object # objects) remaining =
     bindr (or_else InternalInvariant (st_manifest (hash p) s object)) (\<lambda>m.
     let count = 1 + chunk_count m in
     if remaining \<ge> count then outbox_slot p s roster now objects (remaining - count)
     else
       bindr (object_record p s object remaining roster now) (\<lambda>record.
         encode_routed (first_hop (short_id (object_arr object)) (mf_origin m) (st_member s) m) record))"

definition outbox_record :: "suite \<Rightarrow> u16 \<Rightarrow> u64 \<Rightarrow> store \<Rightarrow> api_error + bytes" where
  "outbox_record p slot now s =
     bindr (verified_policy p s now) (\<lambda>roster.
     bindr (or_else InternalInvariant (st_outbox (hash p) s now)) (\<lambda>objects.
       outbox_slot p s roster now objects (unat slot)))"

definition secure_store_outbox_record :: "suite \<Rightarrow> u64 \<Rightarrow> u16 \<Rightarrow> u64 \<Rightarrow> store_registry \<Rightarrow> api_error + bytes" where
  "secure_store_outbox_record p handle slot now g =
     (if now = 0 then Inl InvalidArgument else bindr (native_get handle g) (outbox_record p slot now))"

section \<open>Receipts and acknowledgements\<close>

definition receipt_record :: "suite \<Rightarrow> u16 \<Rightarrow> u64 \<Rightarrow> store \<Rightarrow> api_error + bytes" where
  "receipt_record p slot now s =
     bindr (or_else InternalInvariant (local_receipt_outbox p s now)) (\<lambda>ids.
     if unat slot \<ge> length ids then Inr []
     else
       let object = ids ! unat slot in
       bindr (or_else InternalInvariant (local_receipt s object)) (\<lambda>found.
       bindr (ok_or InternalInvariant found) (\<lambda>receipt.
       bindr (or_else InternalInvariant (st_manifest (hash p) s object)) (\<lambda>m.
         encode_routed (first_hop (short_id (hash p (rm_receipt receipt))) (st_member s) (st_member s) m)
           (Receipt (rm_receipt receipt))))))"

definition secure_store_receipt_record :: "suite \<Rightarrow> u64 \<Rightarrow> u16 \<Rightarrow> u64 \<Rightarrow> store_registry \<Rightarrow> api_error + bytes" where
  "secure_store_receipt_record p handle slot now g =
     (if now = 0 then Inl InvalidArgument else bindr (native_get handle g) (receipt_record p slot now))"

definition receipt_ack_record :: "suite \<Rightarrow> identity_signing_key \<Rightarrow> u16 \<Rightarrow> u64 \<Rightarrow> store \<Rightarrow> (api_error + bytes) \<times> store" where
  "receipt_ack_record p signer slot now s =
     bind_st (verified_policy p s now, s) (\<lambda>roster s.
     bind_st (or_else InternalInvariant (target_receipt_ack_outbox p s now), s) (\<lambda>work s.
     if unat slot \<ge> length work then (Inr [], s)
     else
     case work ! unat slot of (object, actor, _) \<Rightarrow>
     bind_st (or_else StaleRequest (signing_key roster (st_member s)), s) (\<lambda>key s.
     if signing_public_key p signer \<noteq> key then (Inl InvalidArgument, s)
     else
     bind_st (or_else InternalInvariant (st_manifest (hash p) s object), s) (\<lambda>m s.
     bind_st (apfst (or_else InternalInvariant) (origin_receipt_ack p object actor roster signer now s)) (\<lambda>ack s.
       (encode_routed (first_hop (short_id (hash p ack)) (st_member s) (st_member s) m) (ReceiptAck ack), s))))))"

definition secure_store_receipt_ack_record ::
    "suite \<Rightarrow> u64 \<Rightarrow> bytes \<Rightarrow> u16 \<Rightarrow> u64 \<Rightarrow> store_registry \<Rightarrow> (api_error + bytes) \<times> store_registry" where
  "secure_store_receipt_ack_record p handle identity_seed slot now g =
     (if now = 0 \<or> length identity_seed \<noteq> 32 then (Inl InvalidArgument, g)
      else native_with handle (receipt_ack_record p (IdentitySigningKey (be_word identity_seed)) slot now) g)"

section \<open>Accepting a record from a neighbor\<close>

definition ROUTED_ACCEPTED_ANNOUNCEMENT :: u8 where "ROUTED_ACCEPTED_ANNOUNCEMENT = 1"
definition ROUTED_ACCEPTED_CHUNK :: u8 where "ROUTED_ACCEPTED_CHUNK = 2"
definition ROUTED_ACCEPTED_RECEIPT :: u8 where "ROUTED_ACCEPTED_RECEIPT = 3"
definition ROUTED_ACCEPTED_RECEIPT_ACK :: u8 where "ROUTED_ACCEPTED_RECEIPT_ACK = 4"

definition accept_announcement ::
    "suite \<Rightarrow> relay_frame \<Rightarrow> bytes \<Rightarrow> verified_roster \<Rightarrow> u64 \<Rightarrow> store \<Rightarrow> (api_error + u8) \<times> store" where
  "accept_announcement p frame bytes roster now s =
     bind_st (or_else InvalidArgument (authenticate_announcement p bytes roster now), s) (\<lambda>a s.
     if mf_origin (aa_manifest a) \<noteq> relay_frame.rf_origin frame then (Inl InvalidArgument, s)
     else
     bind_st (apfst (or_else InvalidArgument) (announce_authenticated p a roster now s)) (\<lambda>_ s.
       (Inr ROUTED_ACCEPTED_ANNOUNCEMENT, s)))"

definition accept_chunk ::
    "suite \<Rightarrow> relay_frame \<Rightarrow> object_id \<Rightarrow> u16 \<Rightarrow> bytes \<Rightarrow> member_id \<Rightarrow> u64 \<Rightarrow> store \<Rightarrow> (api_error + u8) \<times> store" where
  "accept_chunk p frame object index bytes received_from now s =
     bind_st (or_else InvalidArgument (st_manifest (hash p) s object), s) (\<lambda>m s.
     if mf_origin m \<noteq> relay_frame.rf_origin frame then (Inl InvalidArgument, s)
     else
     bind_st (apfst (or_else InvalidArgument) (put_relay_chunk (hash p) object (unat index) bytes frame received_from now s)) (\<lambda>_ s.
       (Inr ROUTED_ACCEPTED_CHUNK, s)))"

definition accept_receipt ::
    "suite \<Rightarrow> relay_frame \<Rightarrow> bytes \<Rightarrow> verified_roster \<Rightarrow> member_id \<Rightarrow> u64 \<Rightarrow> store \<Rightarrow> (api_error + u8) \<times> store" where
  "accept_receipt p frame bytes roster received_from now s =
     bind_st (or_else InvalidArgument (receipt_route_of bytes), s) (\<lambda>route s.
     if rr_actor route \<noteq> relay_frame.rf_origin frame then (Inl InvalidArgument, s)
     else
     let is_origin = (case st_manifest (hash p) s (rr_object route) of Inl _ \<Rightarrow> False | Inr m \<Rightarrow> mf_origin m = st_member s) in
     bind_st
       (if is_origin then
          bind_st (or_else InvalidArgument (verify_target_receipt p s (rr_object route) bytes roster now), s) (\<lambda>proof_of s.
          bind_st (apfst (or_else InternalInvariant) (record_target_receipt p proof_of roster now s)) (\<lambda>_ s. (Inr (), s)))
        else apfst (or_else InvalidArgument) (put_relay_receipt (hash p) bytes frame received_from now s)) (\<lambda>_ s.
       (Inr ROUTED_ACCEPTED_RECEIPT, s)))"

definition accept_receipt_ack ::
    "suite \<Rightarrow> (store \<Rightarrow> bool) \<Rightarrow> relay_frame \<Rightarrow> bytes \<Rightarrow> verified_roster \<Rightarrow> member_id \<Rightarrow> u64 \<Rightarrow> store \<Rightarrow> (api_error + u8) \<times> store" where
  "accept_receipt_ack p disk frame bytes roster received_from now s =
     bind_st (or_else InvalidArgument (receipt_ack_route_of bytes), s) (\<lambda>route s.
     if ra_origin route \<noteq> relay_frame.rf_origin frame then (Inl InvalidArgument, s)
     else
     bind_st (or_else InvalidArgument (verify_receipt_ack p bytes roster now), s) (\<lambda>proof_of s.
     bind_st
       (if ra_actor route = st_member s then apfst (or_else InvalidArgument) (record_receipt_ack p proof_of roster now s)
        else if ra_origin route \<noteq> st_member s then
          bind_st (apfst (or_else InvalidArgument) (put_relay_receipt_ack (hash p) bytes frame received_from now s)) (\<lambda>_ s.
            apfst (or_else InternalInvariant) (remove_relay_receipt disk (ra_receipt_id route) s))
        else (Inr (), s)) (\<lambda>_ s.
       (Inr ROUTED_ACCEPTED_RECEIPT_ACK, s))))"

definition accept_routed ::
    "suite \<Rightarrow> (store \<Rightarrow> bool) \<Rightarrow> routed_record \<Rightarrow> member_id \<Rightarrow> u64 \<Rightarrow> store \<Rightarrow> (api_error + u8) \<times> store" where
  "accept_routed p disk routed received_from now s =
     bind_st (verified_policy p s now, s) (\<lambda>roster s.
     case rr_record routed of
       Announcement bytes \<Rightarrow> accept_announcement p (rr_frame routed) bytes roster now s
     | Chunk object index bytes \<Rightarrow> accept_chunk p (rr_frame routed) object index bytes received_from now s
     | Receipt bytes \<Rightarrow> accept_receipt p (rr_frame routed) bytes roster received_from now s
     | ReceiptAck bytes \<Rightarrow> accept_receipt_ack p disk (rr_frame routed) bytes roster received_from now s)"

definition secure_store_accept_routed ::
    "suite \<Rightarrow> (store \<Rightarrow> bool) \<Rightarrow> u64 \<Rightarrow> bytes \<Rightarrow> bytes \<Rightarrow> u64 \<Rightarrow> store_registry \<Rightarrow> (api_error + u8) \<times> store_registry" where
  "secure_store_accept_routed p disk handle bytes received_from now g =
     (if now = 0 \<or> bytes = [] \<or> length bytes > MAX_ROUTED_RECORD \<or> length received_from \<noteq> 32 then (Inl InvalidArgument, g)
      else
      bind_st (or_else InvalidArgument (routed_decode bytes), g) (\<lambda>routed g.
        native_with handle (accept_routed p disk routed (MemberId (be_word received_from)) now) g))"

section \<open>Records in custody\<close>

definition first_of :: "'a list \<Rightarrow> 'a option" where
  "first_of xs = (case xs of [] \<Rightarrow> None | x # _ \<Rightarrow> Some x)"

definition relay_record :: "suite \<Rightarrow> u16 \<Rightarrow> u64 \<Rightarrow> store \<Rightarrow> api_error + bytes" where
  "relay_record p slot now s =
     bindr (verified_policy p s now) (\<lambda>roster.
     bindr (or_else InternalInvariant (relay_queue s now)) (\<lambda>queue.
     case first_of queue of
       None \<Rightarrow> Inr []
     | Some custody \<Rightarrow>
         if slot = 0 then
           bindr (object_record p s (ry_object custody) 0 roster now) (encode_routed (ry_frame custody))
         else
           bindr (or_else InternalInvariant (st_manifest (hash p) s (ry_object custody))) (\<lambda>m.
           if unat (slot - 1) \<ge> chunk_count m then Inr []
           else
             bindr (object_record p s (ry_object custody) (unat (slot - 1) + 1) roster now) (encode_routed (ry_frame custody)))))"

definition secure_store_relay_record :: "suite \<Rightarrow> u64 \<Rightarrow> u16 \<Rightarrow> u64 \<Rightarrow> store_registry \<Rightarrow> api_error + bytes" where
  "secure_store_relay_record p handle slot now g =
     (if now = 0 then Inl InvalidArgument else bindr (native_get handle g) (relay_record p slot now))"

definition secure_store_relay_received_from :: "u64 \<Rightarrow> u64 \<Rightarrow> store_registry \<Rightarrow> api_error + bytes" where
  "secure_store_relay_received_from handle now g =
     (if now = 0 then Inl InvalidArgument
      else
      bindr (native_get handle g) (\<lambda>s.
      bindr (or_else InternalInvariant (relay_queue s now)) (\<lambda>queue.
        Inr (case first_of queue of None \<Rightarrow> [] | Some custody \<Rightarrow> be_bytes (member_arr (ry_from custody))))))"

text \<open>The queues of receipts and of acknowledgements are read by the same code.\<close>

definition custody_record ::
    "(store \<Rightarrow> u64 \<Rightarrow> durable_error + custody_row list) \<Rightarrow> (bytes \<Rightarrow> durable_record) \<Rightarrow> u64 \<Rightarrow> u16 \<Rightarrow> u64 \<Rightarrow> store_registry
     \<Rightarrow> api_error + bytes" where
  "custody_record queue kind handle slot now g =
     (if now = 0 then Inl InvalidArgument
      else
      bindr (native_get handle g) (\<lambda>s.
      bindr (or_else InternalInvariant (queue s now)) (\<lambda>rows.
        if unat slot \<ge> length rows then Inr []
        else encode_routed (cw_frame (rows ! unat slot)) (kind (cw_bytes (rows ! unat slot))))))"

definition custody_from ::
    "(store \<Rightarrow> u64 \<Rightarrow> durable_error + custody_row list) \<Rightarrow> u64 \<Rightarrow> u64 \<Rightarrow> store_registry \<Rightarrow> api_error + bytes" where
  "custody_from queue handle now g =
     (if now = 0 then Inl InvalidArgument
      else
      bindr (native_get handle g) (\<lambda>s.
      bindr (or_else InternalInvariant (queue s now)) (\<lambda>rows.
        Inr (case first_of rows of None \<Rightarrow> [] | Some row \<Rightarrow> be_bytes (member_arr (cw_from row))))))"

definition secure_store_relay_receipt_record :: "u64 \<Rightarrow> u16 \<Rightarrow> u64 \<Rightarrow> store_registry \<Rightarrow> api_error + bytes" where
  "secure_store_relay_receipt_record = custody_record relay_receipt_queue Receipt"

definition secure_store_relay_receipt_received_from :: "u64 \<Rightarrow> u64 \<Rightarrow> store_registry \<Rightarrow> api_error + bytes" where
  "secure_store_relay_receipt_received_from = custody_from relay_receipt_queue"

definition secure_store_relay_receipt_ack_record :: "u64 \<Rightarrow> u16 \<Rightarrow> u64 \<Rightarrow> store_registry \<Rightarrow> api_error + bytes" where
  "secure_store_relay_receipt_ack_record = custody_record relay_receipt_ack_queue ReceiptAck"

definition secure_store_relay_receipt_ack_received_from :: "u64 \<Rightarrow> u64 \<Rightarrow> store_registry \<Rightarrow> api_error + bytes" where
  "secure_store_relay_receipt_ack_received_from = custody_from relay_receipt_ack_queue"

end
