(* ===== verification/Mesh_Device.thy ===== *)
theory Mesh_Device
  imports Mesh_Native_Group Mesh_Native_Text Mesh_Store_Installed Mesh_Journey
begin

text \<open>
  A device as its host sees it: the three handle tables of the native boundary, and every call that
  changes them as one step. The tables are handle tables, and whatever a call does to a store it does
  through calls of the store, so that the theorems on runs of a store hold behind the boundary.
\<close>

section \<open>Handles\<close>

datatype ('v, 'a) native_call =
    Native_issue 'v
  | Native_use u64 "'v \<Rightarrow> (api_error + 'a) \<times> 'v"
  | Native_release u64

datatype 'a native_answer =
    Native_handle "api_error + u64"
  | Native_result "api_error + 'a"
  | Native_released "api_error + unit"

fun native_step :: "('v, 'a) native_call \<Rightarrow> 'v native_registry \<Rightarrow> 'a native_answer \<times> 'v native_registry" where
  "native_step (Native_issue v) g = map_prod Native_handle (\<lambda>g. g) (native_issue v g)"
| "native_step (Native_use h f) g = map_prod Native_result (\<lambda>g. g) (native_with h f g)"
| "native_step (Native_release h) g = map_prod Native_released (\<lambda>g. g) (native_release h g)"

fun native_issued :: "'a native_answer \<Rightarrow> u64 option" where
  "native_issued (Native_handle (Inr h)) = Some h"
| "native_issued _ = None"

definition native_live :: "'v native_registry \<Rightarrow> u64 set" where
  "native_live g = {h. bm_contains (nr_items g) h}"

definition native_inv :: "'v native_registry \<Rightarrow> bool" where
  "native_inv g \<longleftrightarrow> bm_wf (nr_items g) \<and> 0 < nr_next g \<and> nr_next g \<le> MAX_COUNTER \<and> length (nr_items g) \<le> MAX_RUNTIMES \<and>
     (\<forall>h \<in> native_live g. h < nr_next g)"

lemma native_live_iff: "h \<in> native_live g \<longleftrightarrow> (\<exists>v. bm_get (nr_items g) h = Some v)"
  by (simp add: native_live_def bm_contains_iff)

lemma native_inv_new: "native_inv native_registry_new"
  by (auto simp: native_inv_def native_registry_new_def native_live_def bm_contains_def MAX_COUNTER_val)

lemma native_with_cases:
  "native_with h f g = (Inl InvalidHandle, g) \<and> bm_get (nr_items g) h = None \<or>
   (\<exists>v r v'. bm_get (nr_items g) h = Some v \<and> f v = (r, v') \<and> native_with h f g = (r, g\<lparr>nr_items := bm_insert h v' (nr_items g)\<rparr>))"
  by (auto simp: native_with_def split: option.splits prod.splits)

lemma native_issue_cases:
  "native_issue v g = (Inl ResourcePressure_api, g) \<or>
   (nr_next g < MAX_COUNTER \<and> length (nr_items g) < MAX_RUNTIMES \<and>
    native_issue v g = (Inr (nr_next g), g\<lparr>nr_next := nr_next g + 1, nr_items := bm_insert (nr_next g) v (nr_items g)\<rparr>))"
  by (auto simp: native_issue_def Let_def not_le)

lemma native_with_inv:
  assumes "native_inv g"
  shows "native_inv (snd (native_with h f g)) \<and> nr_next (snd (native_with h f g)) = nr_next g \<and>
    native_live (snd (native_with h f g)) = native_live g"
  using native_with_cases [of h f g] assms
  by (auto simp: native_inv_def native_live_iff bm.wf_insert bm.get_insert bm.size_insert split: if_splits)

lemma native_release_inv:
  assumes "native_inv g"
  shows "native_inv (snd (native_release h g)) \<and> nr_next (snd (native_release h g)) = nr_next g \<and>
    native_live (snd (native_release h g)) = native_live g - {h}"
  using assms by (auto simp: native_release_def native_inv_def native_live_iff bm.wf_remove bm.get_remove bm.size_remove split: if_splits)

lemma native_issue_inv:
  assumes g: "native_inv g"
  shows "native_inv (snd (native_issue v g)) \<and> nr_next g \<le> nr_next (snd (native_issue v g)) \<and>
    (\<forall>h. fst (native_issue v g) = Inr h \<longrightarrow> h = nr_next g \<and> nr_next g < nr_next (snd (native_issue v g))) \<and>
    native_live (snd (native_issue v g)) \<subseteq> native_live g \<union> set_option (native_issued (Native_handle (fst (native_issue v g))))"
proof (cases "nr_next g < MAX_COUNTER \<and> length (nr_items g) < MAX_RUNTIMES")
  case True
  note up = counter_up [of "nr_next g"]
  have "h < nr_next g + 1" if "h \<in> native_live g" for h
    using g that True up(1) by (auto simp: native_inv_def intro: less_trans)
  then show ?thesis
    using g True up by (auto simp: native_issue_def Let_def native_inv_def native_live_iff bm.wf_insert bm.get_insert bm.size_insert
      not_le less_imp_le split: if_splits)
next
  case False
  then show ?thesis using g native_issue_cases [of v g] by auto
qed

lemma native_step_inv:
  assumes g: "native_inv g"
  shows "native_inv (snd (native_step c g))" "nr_next g \<le> nr_next (snd (native_step c g))"
    "native_live (snd (native_step c g)) \<subseteq> native_live g \<union> set_option (native_issued (fst (native_step c g)))"
proof -
  have "native_inv (snd (native_step c g)) \<and> nr_next g \<le> nr_next (snd (native_step c g)) \<and>
    native_live (snd (native_step c g)) \<subseteq> native_live g \<union> set_option (native_issued (fst (native_step c g)))"
  proof (cases c)
    case (Native_issue v)
    then show ?thesis using native_issue_inv [OF g, of v] by (cases "fst (native_issue v g)") simp_all
  next
    case (Native_use h f)
    then show ?thesis using native_with_inv [OF g, of h f] by simp
  next
    case (Native_release h)
    then show ?thesis using native_release_inv [OF g, of h] by auto
  qed
  then show "native_inv (snd (native_step c g))" "nr_next g \<le> nr_next (snd (native_step c g))"
    "native_live (snd (native_step c g)) \<subseteq> native_live g \<union> set_option (native_issued (fst (native_step c g)))"
    by blast+
qed

lemma native_step_issued:
  assumes g: "native_inv g" and h: "native_issued (fst (native_step c g)) = Some h"
  shows "h = nr_next g \<and> nr_next g < nr_next (snd (native_step c g))"
proof (cases c)
  case (Native_issue v)
  then have "fst (native_issue v g) = Inr h" using h by (cases "fst (native_issue v g)") auto
  then show ?thesis using native_issue_inv [OF g, of v] Native_issue by simp
qed (use h in simp_all)

interpretation native: handle_table nr_next native_live native_step native_issued native_inv
  using native_step_inv native_step_issued by unfold_locales (simp_all add: native_inv_def)

end
