(* ===== verification/Mesh_Native_Runs.thy ===== *)
theory Mesh_Native_Runs
  imports Mesh_Device
begin

text \<open>
  Runs of the native boundary over the open stores. Whatever a native function does to a store it does
  through calls of the store: each function is shown to take its store to one that such calls reach,
  by rules that follow the way the functions are composed, and every sequence of native calls is
  therefore a run of the store behind each handle.
\<close>

section \<open>Reached stores\<close>

text \<open>The store that well-formed calls lead to, with a rotation of the authority among them only if \<open>b\<close>.\<close>

definition reaches :: "bool \<Rightarrow> suite \<Rightarrow> store \<Rightarrow> store \<Rightarrow> bool" where
  "reaches b p s s' \<longleftrightarrow> (\<exists>cs. (\<forall>c \<in> set cs. call_ok c \<and> (rotates c \<longrightarrow> b)) \<and> s' = snd (store_run p cs s))"

named_theorems reach_intros "native functions that only use calls of the store"

lemma store_run_append: "snd (store_run p (cs @ ds) s) = snd (store_run p ds (snd (store_run p cs s)))"
  by (induction cs arbitrary: s) (simp_all add: store_run_snd del: store_run.simps(2))

lemma reaches_refl: "reaches b p s s"
  unfolding reaches_def by (rule exI [of _ "[]"]) simp

lemma reaches_trans: "reaches b p s s' \<Longrightarrow> reaches b p s' s'' \<Longrightarrow> reaches b p s s''"
  unfolding reaches_def by (elim exE conjE, rule_tac x = "cs @ csa" in exI) (auto simp: store_run_append)

lemma reaches_mono: "reaches b p s s' \<Longrightarrow> (b \<Longrightarrow> b') \<Longrightarrow> reaches b' p s s'"
  unfolding reaches_def by blast

lemma reaches_call: "call_ok c \<Longrightarrow> (rotates c \<Longrightarrow> b) \<Longrightarrow> reaches b p s (snd (store_step p c s))"
  unfolding reaches_def by (rule exI [of _ "[c]"]) (simp add: split_def Let_def)

lemma reaches_op: "store_step p c s = answered m \<Longrightarrow> call_ok c \<Longrightarrow> (rotates c \<Longrightarrow> b) \<Longrightarrow> reaches b p s (snd m)"
  using reaches_call [of c b p s] by (cases m; cases "fst m") (auto simp: answered_def)

lemma reach_prune [reach_intros]: "reaches b p s (snd (prune_expired (hash p) now s))"
  by (rule reaches_op [where c = "Call_prune now"]) (simp_all add: rotates_def)

lemma reach_rollback [reach_intros]: "reaches b p s (snd (rollback_logical_message disk l s))"
  by (rule reaches_op [where c = "Call_rollback disk l"]) (simp_all add: rotates_def)

lemma reach_begin [reach_intros]: "reaches b p s (snd (begin_logical_message l n k e now s))"
  by (rule reaches_op [where c = "Call_begin l n k e now"]) (simp_all add: rotates_def)

lemma reach_install [reach_intros]: "reaches b p s (snd (install_policy p a sc cs rs now s))"
  by (rule reaches_op [where c = "Call_install a sc cs rs now"]) (simp_all add: rotates_def)

lemma reach_rotate [reach_intros]: "b \<Longrightarrow> reaches b p s (snd (install_rotated_policy p a sc cs rs ho now s))"
  by (rule reaches_op [where c = "Call_rotate a sc cs rs ho now"]) simp_all

lemma reach_finalize [reach_intros]: "reaches b p s (snd (finalize_received p v roster k now s))"
  by (rule reaches_op [where c = "Call_finalize v roster k now"]) (simp_all add: rotates_def)

lemma reach_record_receipt [reach_intros]: "reaches b p s (snd (record_target_receipt p v roster now s))"
  by (rule reaches_op [where c = "Call_record_receipt v roster now"]) (simp_all add: rotates_def)

lemma reach_origin_ack [reach_intros]: "reaches b p s (snd (origin_receipt_ack p i a roster k now s))"
  by (rule reaches_op [where c = "Call_origin_ack i a roster k now"]) (simp_all add: rotates_def)

lemma reach_record_ack [reach_intros]: "reaches b p s (snd (record_receipt_ack p v roster now s))"
  by (rule reaches_op [where c = "Call_record_ack v roster now"]) (simp_all add: rotates_def)

lemma reach_chunk [reach_intros]: "reaches b p s (snd (put_relay_chunk (hash p) i j bs frame via now s))"
  by (rule reaches_op [where c = "Call_put_relay_chunk i j bs frame via now"]) (simp_all add: rotates_def)

lemma reach_receipt [reach_intros]: "reaches b p s (snd (put_relay_receipt (hash p) bs frame via now s))"
  by (rule reaches_op [where c = "Call_put_receipt bs frame via now"]) (simp_all add: rotates_def)

lemma reach_ack [reach_intros]: "reaches b p s (snd (put_relay_receipt_ack (hash p) bs frame via now s))"
  by (rule reaches_op [where c = "Call_put_ack bs frame via now"]) (simp_all add: rotates_def)

lemma reach_remove [reach_intros]: "reaches b p s (snd (remove_relay_receipt disk i s))"
  by (rule reaches_op [where c = "Call_remove_receipt disk i"]) (simp_all add: rotates_def)

lemma reach_reserve: "reaches b p s (snd (reserve i h s))"
  using reaches_call [of "Call_reserve i h" b p s] by (auto simp: rotates_def split: prod.splits sum.splits if_splits)

lemma reach_announce: "manifest_ok (aa_manifest a) \<Longrightarrow> reaches b p s (snd (announce_authenticated p a roster now s))"
  by (rule reaches_op [where c = "Call_announce_authenticated a roster now"]) (simp_all add: rotates_def)

lemma reach_commit: "prepared_ok (sm_object m) \<Longrightarrow> reaches b p s (snd (commit_sealed_logical p i h m roster l now s))"
  by (rule reaches_op [where c = "Call_commit_logical i h m roster l now"]) (simp_all add: rotates_def)

subsection \<open>Composition\<close>

lemma reach_same [reach_intros]: "reaches b p s (snd (x, s))"
  by (simp add: reaches_refl)

lemma reach_bind [reach_intros]:
  "reaches b p s (snd m) \<Longrightarrow> (\<And>y s'. m = (Inr y, s') \<Longrightarrow> reaches b p s' (snd (f y s'))) \<Longrightarrow> reaches b p s (snd (bind_st m f))"
  by (cases m; cases "fst m") (auto intro: reaches_trans)

lemma reach_apfst [reach_intros]: "reaches b p s (snd m) \<Longrightarrow> reaches b p s (snd (apfst f m))"
  by simp

lemma reach_if [reach_intros]:
  "(c \<Longrightarrow> reaches b p s (snd m)) \<Longrightarrow> (\<not> c \<Longrightarrow> reaches b p s (snd n)) \<Longrightarrow> reaches b p s (snd (if c then m else n))"
  by simp

lemma reach_option [reach_intros]:
  "(x = None \<Longrightarrow> reaches b p s (snd m)) \<Longrightarrow> (\<And>y. x = Some y \<Longrightarrow> reaches b p s (snd (f y))) \<Longrightarrow>
   reaches b p s (snd (case x of None \<Rightarrow> m | Some y \<Rightarrow> f y))"
  by (cases x) simp_all

lemma reach_triple [reach_intros]:
  "(\<And>a c d. x = (a, c, d) \<Longrightarrow> reaches b p s (snd (f a c d))) \<Longrightarrow> reaches b p s (snd (case x of (a, c, d) \<Rightarrow> f a c d))"
  by (cases x) simp

section \<open>The functions on one store\<close>

lemma reach_found_group: "reaches b p s (snd (found_group p a sc c now s))"
  unfolding found_group_def by (rule reach_intros)+

lemma reach_enroll: "reaches b p s (snd (enroll_member p authority q now s))"
  unfolding enroll_member_def Let_def by (rule reach_intros)+

lemma reach_rotate_authority: "reaches True p s (snd (rotate_authority p successor ho until now s))"
  unfolding rotate_authority_def Let_def by (rule reach_intros TrueI)+

lemma reach_finalize_next: "reaches b p s (snd (finalize_next_text p k i d now s))"
  unfolding finalize_next_text_def by (rule reach_intros)+

lemma reach_ack_record: "reaches b p s (snd (receipt_ack_record p signer slot now s))"
  unfolding receipt_ack_record_def by (rule reach_intros)+

lemma authenticated_manifest_ok:
  "or_else e (authenticate_announcement p bytes roster now) = Inr a \<Longrightarrow> manifest_ok (aa_manifest a)"
  by (simp add: or_else_Inr authenticate_announcement_iff)

lemma reach_accept: "reaches b p s (snd (accept_routed p disk routed via now s))"
proof -
  have "reaches b p s (snd (accept_announcement p frame bs roster now s))" for frame bs roster s
    unfolding accept_announcement_def
    by (rule reach_intros reach_announce authenticated_manifest_ok)+ (simp, (rule reach_intros)+)
  moreover have "reaches b p s (snd (accept_chunk p frame i j bs via now s))" for frame i j bs s
    unfolding accept_chunk_def by (rule reach_intros)+
  moreover have "reaches b p s (snd (accept_receipt p frame bs roster via now s))" for frame bs roster s
    unfolding accept_receipt_def Let_def by (rule reach_intros)+
  moreover have "reaches b p s (snd (accept_receipt_ack p disk frame bs roster via now s))" for frame bs roster s
    unfolding accept_receipt_ack_def by (rule reach_intros)+
  ultimately show ?thesis
    unfolding accept_routed_def by (intro reach_bind reach_same) (simp split: durable_record.split)
qed

text \<open>Enqueueing threads the random source beside the store.\<close>

lemma from_opaque_prepared:
  assumes "from_opaque sha256 origin sequence policy body = Inr object" and "namespace_ok (op_namespace policy)"
  shows "prepared_ok object"
  using from_opaque_Inr [OF assms(1)] assms(2) by (simp add: prepared_ok_def manifest_ok_def chunk_count_def)

lemma sealed_message_prepared:
  assumes "seal_message p k fill q roster signer rng = (Inr sm, rng')" and "namespace_ok (op_namespace (sr_policy q))"
  shows "prepared_ok (sm_object sm)"
  using assms(1)
proof (rule seal_message_steps)
  fix w' assume "from_opaque (hash p) (sr_origin q) (sr_sequence q)
      ((sr_policy q)\<lparr>op_targets := sort (op_targets (sr_policy q))\<rparr>) w' = Inr (sm_object sm)"
  then show ?thesis by (rule from_opaque_prepared) (simp add: assms(2))
qed

lemma text_namespace_ok: "namespace_ok (Namespace TEXT_NAMESPACE)"
  by code_simp

lemma reach_enqueue_audience:
  "reaches b p (fst sr) (fst (snd (enqueue_audience p k fill roster signer l plaintext expires now audience n sr)))"
proof (cases sr)
  case (Pair s rng)
  have seal: "reaches b p s (fst (snd (case seal_message p k fill q roster signer rng of
       (Inl _, rng) \<Rightarrow> (Inl InvalidArgument, s, rng)
     | (Inr sm, rng) \<Rightarrow>
         let records = n + (1 + length (po_chunks (sm_object sm))) in
         if records > 65535 then (Inl ResourcePressure_api, s, rng)
         else
         (case commit_sealed_logical p i h sm roster l now s of
            (Inl _, s) \<Rightarrow> (Inl InternalInvariant, s, rng)
          | (Inr _, s) \<Rightarrow> (Inr records, s, rng)))))"
    if ns: "namespace_ok (op_namespace (sr_policy q))" for q s i h and rng :: 'a
  proof (cases "seal_message p k fill q roster signer rng")
    fix r rng'
    assume e: "seal_message p k fill q roster signer rng = (r, rng')"
    have "reaches b p s (snd (commit_sealed_logical p i h sm roster l now s))" if "r = Inr sm" for sm
      using sealed_message_prepared [OF e [unfolded that] ns] by (rule reach_commit)
    then show ?thesis
      by (auto simp: e Let_def reaches_refl split: sum.split prod.split)
  qed
  have "reaches b p s (fst (snd (case fill 16 rng of
       (Inl _, rng) \<Rightarrow> (Inl InternalInvariant, s, rng)
     | (Inr operation, rng) \<Rightarrow>
         (case reserve (i operation) (h operation) s of
            (Inl _, s) \<Rightarrow> (Inl InternalInvariant, s, rng)
          | (Inr reservation, s) \<Rightarrow> f operation reservation s rng))))"
    if "\<And>x y s rng. reaches b p s (fst (snd (f x y s rng)))" for i h and f :: "_ \<Rightarrow> _ \<Rightarrow> _ \<Rightarrow> 'a \<Rightarrow> (api_error + nat) \<times> store \<times> 'a"
    using reach_reserve [of b p s] that
    by (auto simp: reaches_refl split: sum.split prod.split) (metis reaches_trans snd_conv)+
  then show ?thesis
    unfolding Pair enqueue_audience_def Let_def by (simp add: seal [unfolded Let_def] text_namespace_ok)
qed

lemma reach_bind_rng:
  assumes "reaches b p (fst sr) (fst (snd m))" and "\<And>y sr'. m = (Inr y, sr') \<Longrightarrow> reaches b p (fst sr') (fst (snd (f y sr')))"
  shows "reaches b p (fst sr) (fst (snd (bind_st m f)))"
  using assms by (cases m; cases "fst m") (auto intro: reaches_trans)

lemma reach_enqueue_audiences:
  "reaches b p (fst sr) (fst (snd (enqueue_audiences p k fill roster signer l plaintext expires now audiences n sr)))"
  by (induction audiences arbitrary: n sr) (auto simp: reaches_refl intro!: reach_bind_rng reach_enqueue_audience)

lemma reach_enqueue_logical:
  "reaches b p (fst sr) (fst (snd (enqueue_logical p k fill disk roster signer l plaintext c expires now audiences sr)))"
proof (cases sr)
  case (Pair s rng)
  let ?m = "case begin_logical_message l c (length audiences) expires now s of
      (Inl _, s) \<Rightarrow> (Inl InternalInvariant, s, rng)
    | (Inr _, s) \<Rightarrow> enqueue_audiences p k fill roster signer l plaintext expires now audiences 0 (s, rng)"
  have "reaches b p s (fst (snd ?m))"
    using reach_begin [of b p s l c "length audiences" expires now]
      reach_enqueue_audiences [of b p _ k fill roster signer l plaintext expires now audiences 0]
    by (auto split: sum.split prod.split) (metis reaches_trans fst_conv snd_conv)
  moreover have "reaches b p (fst (snd m)) (fst (snd (case m of
        (Inr records, s, rng) \<Rightarrow> (Inr (of_nat records), s, rng)
      | (Inl e, s, rng) \<Rightarrow> (case rollback_logical_message disk l s of
          (Inl _, s) \<Rightarrow> (Inl InternalInvariant, s, rng) | (Inr _, s) \<Rightarrow> (Inl e, s, rng)))))"
    for m :: "(api_error + nat) \<times> store \<times> 'a"
    using reach_rollback [of b p "fst (snd m)" disk l] by (auto simp: reaches_refl split: sum.split prod.split)
  ultimately show ?thesis
    unfolding Pair enqueue_logical_def prod.case fst_conv by (rule reaches_trans)
qed

lemma reach_enqueue_in:
  "reaches b p (fst sr) (fst (snd (enqueue_in p k fill disk signer plaintext requested expires now sr)))"
proof (cases sr)
  case (Pair s rng)
  let ?prepare = "bind_st (apfst (or_else InternalInvariant) (prune_expired (hash p) now s)) (\<lambda>_ s.
      bind_st (verified_policy p s now, s) (\<lambda>roster s.
      bind_st (or_else InvalidArgument (broadcast_audiences (st_member s) (map ct_member (member_claims roster))), s)
        (\<lambda>audiences s. (Inr (roster, audiences), s))))"
  obtain r s1 where prepare: "?prepare = (r, s1)" by (cases ?prepare)
  have "reaches b p s (snd ?prepare)" by (rule reach_intros)+
  then have start: "reaches b p s s1" by (simp add: prepare)
  have rolled: "reaches b p s s'" if "rollback_logical_message disk l s = (x, s')" for l s x s'
    using reach_rollback [of b p s disk l] that by simp
  note logical = reach_enqueue_logical [of b p "(_, _)" k fill disk, unfolded fst_conv]
  have "reaches b p s1 (fst (snd (enqueue_in p k fill disk signer plaintext requested expires now (s, rng))))"
    unfolding enqueue_in_def Let_def prod.case prepare
    by (auto split: sum.split prod.split option.split intro: reaches_refl rolled logical reaches_trans [OF rolled logical])
  with start show ?thesis unfolding Pair fst_conv by (rule reaches_trans)
qed

section \<open>Calls of a host\<close>

text \<open>
  The native functions that change the table of stores or a store in it. A call carries what the disk
  answers to it: an opening the file that it finds, an acceptance and an enqueueing whether SQLite
  carries out the deletions that follow on another transaction.
\<close>

datatype device_call =
    Do_open schema_texts "arr32 \<Rightarrow> cipher" bytes bytes bytes store_file
  | Do_create_group u64 bytes bytes bytes u64
  | Do_enroll u64 bytes bytes u64
  | Do_rotate u64 bytes bytes u64
  | Do_install u64 bytes u64
  | Do_install_rotated u64 bytes bytes u64
  | Do_enqueue "store \<Rightarrow> bool" u64 bytes bytes "arr16 option" u64
  | Do_finalize u64 bytes bytes u64
  | Do_ack_record u64 bytes u16 u64
  | Do_accept "store \<Rightarrow> bool" u64 bytes bytes u64
  | Do_release u64

datatype device_answer =
    Gave_handle "api_error + u64"
  | Gave_number "api_error + u64"
  | Gave_count "api_error + u16"
  | Gave_kind "api_error + u8"
  | Gave_bytes "api_error + bytes"
  | Gave_unit "api_error + unit"

definition with_rng :: "('a \<Rightarrow> device_answer) \<Rightarrow> 'a \<times> store_registry \<Rightarrow> 'r \<Rightarrow> device_answer \<times> store_registry \<times> 'r" where
  "with_rng f m rng = (case m of (x, g) \<Rightarrow> (f x, g, rng))"

fun device_step ::
    "suite \<Rightarrow> ('r, 'k, 'q, 'o) kem \<Rightarrow> 'r source \<Rightarrow> device_call \<Rightarrow> store_registry \<times> 'r
     \<Rightarrow> device_answer \<times> store_registry \<times> 'r" where
  "device_step p k fill (Do_open texts cipher key m path file) (g, rng) =
     (case secure_store_open (hash p) texts cipher key m path (file, g) of (r, file, g) \<Rightarrow> (Gave_handle r, g, rng))"
| "device_step p k fill (Do_create_group h i d m now) gr = apfst Gave_number (secure_store_create_group p k fill h i d m now gr)"
| "device_step p k fill (Do_enroll h i q now) (g, rng) = with_rng Gave_bytes (secure_store_issue_enrollment p h i q now g) rng"
| "device_step p k fill (Do_rotate h i e now) (g, rng) = with_rng Gave_bytes (secure_store_rotate_authority p h i e now g) rng"
| "device_step p k fill (Do_install h b now) (g, rng) = with_rng Gave_number (secure_store_install_policy p h b now g) rng"
| "device_step p k fill (Do_install_rotated h b e now) (g, rng) =
     with_rng Gave_number (secure_store_install_rotated_policy p h b e now g) rng"
| "device_step p k fill (Do_enqueue disk h i t None now) gr =
     apfst Gave_count (secure_store_enqueue_text p k fill disk h i t now gr)"
| "device_step p k fill (Do_enqueue disk h i t (Some l) now) gr =
     apfst Gave_count (secure_store_enqueue_text_with_logical_id p k fill disk h i t l now gr)"
| "device_step p k fill (Do_finalize h i d now) (g, rng) =
     with_rng Gave_bytes (secure_store_finalize_next_text p k h i d now g) rng"
| "device_step p k fill (Do_ack_record h i slot now) (g, rng) =
     with_rng Gave_bytes (secure_store_receipt_ack_record p h i slot now g) rng"
| "device_step p k fill (Do_accept disk h b via now) (g, rng) =
     with_rng Gave_kind (secure_store_accept_routed p disk h b via now g) rng"
| "device_step p k fill (Do_release h) (g, rng) = with_rng Gave_unit (secure_store_release h g) rng"

primrec device_run ::
    "suite \<Rightarrow> ('r, 'k, 'q, 'o) kem \<Rightarrow> 'r source \<Rightarrow> device_call list \<Rightarrow> store_registry \<times> 'r \<Rightarrow> store_registry \<times> 'r" where
  "device_run p k fill [] gr = gr"
| "device_run p k fill (d # ds) gr = device_run p k fill ds (snd (device_step p k fill d gr))"

fun releases :: "u64 \<Rightarrow> device_call \<Rightarrow> bool" where
  "releases h (Do_release h') \<longleftrightarrow> h' = h"
| "releases h _ \<longleftrightarrow> False"

text \<open>The calls that may rotate the authority of the store behind a handle, and the store that a call opens.\<close>

fun hands_over :: "u64 \<Rightarrow> device_call \<Rightarrow> bool" where
  "hands_over h (Do_rotate h' _ _ _) \<longleftrightarrow> h' = h"
| "hands_over h (Do_install_rotated h' _ _ _) \<longleftrightarrow> h' = h"
| "hands_over h _ \<longleftrightarrow> False"

fun opened :: "suite \<Rightarrow> device_call \<Rightarrow> store option" where
  "opened p (Do_open texts cipher key m path file) =
     (case store_open (hash p) texts (cipher (be_word key)) (MemberId (be_word m)) limits_default file of
        (Inr s, _) \<Rightarrow> Some s | (Inl _, _) \<Rightarrow> None)"
| "opened p _ = None"

text \<open>
  The stores of two tables. Of the handles issued before, the released ones have no store and the
  others the store that store calls lead to; a handle issued since has one that they lead to from a
  store that was opened.
\<close>

definition moves ::
    "(u64 \<Rightarrow> bool) \<Rightarrow> suite \<Rightarrow> (u64 \<Rightarrow> bool) \<Rightarrow> store set \<Rightarrow> store_registry \<Rightarrow> store_registry \<Rightarrow> bool" where
  "moves b p released new g g' \<longleftrightarrow> native_inv g' \<and> nr_next g \<le> nr_next g' \<and>
     (\<forall>h < nr_next g. if released h then bm_get (nr_items g') h = None
        else rel_option (reaches (b h) p) (bm_get (nr_items g) h) (bm_get (nr_items g') h)) \<and>
     (\<forall>h s'. nr_next g \<le> h \<longrightarrow> bm_get (nr_items g') h = Some s' \<longrightarrow> (\<exists>s \<in> new. reaches (b h) p s s'))"

lemma movesD:
  assumes "moves b p released new g g'"
  shows "native_inv g'" "nr_next g \<le> nr_next g'"
    "h < nr_next g \<Longrightarrow> released h \<Longrightarrow> bm_get (nr_items g') h = None"
    "h < nr_next g \<Longrightarrow> \<not> released h \<Longrightarrow> rel_option (reaches (b h) p) (bm_get (nr_items g) h) (bm_get (nr_items g') h)"
    "nr_next g \<le> h \<Longrightarrow> bm_get (nr_items g') h = Some s' \<Longrightarrow> \<exists>s \<in> new. reaches (b h) p s s'"
  using assms unfolding moves_def by (auto split: if_splits)

lemma movesI:
  assumes "native_inv g'" and "nr_next g \<le> nr_next g'"
    and "\<And>h. h < nr_next g \<Longrightarrow> released h \<Longrightarrow> bm_get (nr_items g') h = None"
    and "\<And>h. h < nr_next g \<Longrightarrow> \<not> released h \<Longrightarrow> rel_option (reaches (b h) p) (bm_get (nr_items g) h) (bm_get (nr_items g') h)"
    and "\<And>h s'. nr_next g \<le> h \<Longrightarrow> bm_get (nr_items g') h = Some s' \<Longrightarrow> \<exists>s \<in> new. reaches (b h) p s s'"
  shows "moves b p released new g g'"
  using assms unfolding moves_def by auto

lemma native_below: "native_inv g \<Longrightarrow> bm_get (nr_items g) h = Some s \<Longrightarrow> h < nr_next g"
  by (simp add: native_inv_def native_live_iff)

lemma native_above: "native_inv g \<Longrightarrow> nr_next g \<le> h \<Longrightarrow> bm_get (nr_items g) h = None"
  using native_below [of g h] by (cases "bm_get (nr_items g) h") auto

lemma moves_refl: "native_inv g \<Longrightarrow> moves b p (\<lambda>_. False) {} g g"
  by (rule movesI) (auto simp: option.rel_refl reaches_refl dest: native_below)

lemma reached_trans:
  assumes "reaches b p s s'" and "reaches b' p s' s''"
  shows "reaches (b \<or> b') p s s''"
proof (rule reaches_trans)
  show "reaches (b \<or> b') p s s'" using assms(1) by (rule reaches_mono) simp
  show "reaches (b \<or> b') p s' s''" using assms(2) by (rule reaches_mono) simp
qed

lemma reached_option_trans:
  "rel_option (reaches b p) x y \<Longrightarrow> rel_option (reaches b' p) y z \<Longrightarrow> rel_option (reaches (b \<or> b') p) x z"
  by (cases x; cases y; cases z) (auto intro: reached_trans)

lemma moves_trans:
  assumes 1: "moves b p r new g g'" and 2: "moves b' p r' new' g' g''"
  shows "moves (\<lambda>h. b h \<or> b' h) p (\<lambda>h. r h \<or> r' h) (new \<union> new') g g''"
proof (rule movesI)
  show "native_inv g''" "nr_next g \<le> nr_next g''"
    using movesD(1,2) [OF 1] movesD(1,2) [OF 2] by auto
next
  fix h assume h: "h < nr_next g" and rel: "r h \<or> r' h"
  have h': "h < nr_next g'" using h movesD(2) [OF 1] by (rule less_le_trans)
  show "bm_get (nr_items g'') h = None"
  proof (cases "r' h")
    case True
    then show ?thesis using movesD(3) [OF 2 h'] by blast
  next
    case False
    then have "bm_get (nr_items g') h = None" using rel movesD(3) [OF 1 h] by blast
    then show ?thesis using movesD(4) [OF 2 h' False] by simp
  qed
next
  fix h assume h: "h < nr_next g" and "\<not> (r h \<or> r' h)"
  moreover have "h < nr_next g'" using h movesD(2) [OF 1] by (rule less_le_trans)
  ultimately show "rel_option (reaches (b h \<or> b' h) p) (bm_get (nr_items g) h) (bm_get (nr_items g'') h)"
    using reached_option_trans [OF movesD(4) [OF 1] movesD(4) [OF 2]] by blast
next
  fix h s'' assume h: "nr_next g \<le> h" and s'': "bm_get (nr_items g'') h = Some s''"
  show "\<exists>s \<in> new \<union> new'. reaches (b h \<or> b' h) p s s''"
  proof (cases "h < nr_next g'")
    case True
    then have "\<not> r' h" using movesD(3) [OF 2] s'' by force
    then obtain s' where s': "bm_get (nr_items g') h = Some s'" "reaches (b' h) p s' s''"
      using movesD(4) [OF 2 True] s'' by (auto simp: option_rel_Some2)
    then obtain s where "s \<in> new" "reaches (b h) p s s'" using movesD(5) [OF 1 h] by blast
    then show ?thesis using reached_trans [OF _ s'(2)] by blast
  next
    case False
    then have "nr_next g' \<le> h" by simp
    from movesD(5) [OF 2 this s''] obtain s where "s \<in> new'" "reaches (b' h) p s s''" by blast
    then show ?thesis using reached_trans [OF reaches_refl, of "b' h" p s s'' "b h"] by blast
  qed
qed

named_theorems moves_intros "native functions that move the stores of a table"

lemma moves_put:
  assumes g: "native_inv g" and h: "bm_get (nr_items g) h = Some s" and r: "reaches (b h) p s s'"
  shows "moves b p (\<lambda>_. False) {} g (g\<lparr>nr_items := bm_insert h s' (nr_items g)\<rparr>)"
proof (rule movesI)
  have wf: "bm_wf (nr_items g)" using g by (simp add: native_inv_def)
  let ?g = "g\<lparr>nr_items := bm_insert h s' (nr_items g)\<rparr>"
  have "native_with h (\<lambda>_. (Inr (), s')) g = (Inr (), ?g)" using h by (simp add: native_with_def)
  then show "native_inv ?g" using native_with_inv [OF g, of h "\<lambda>_. (Inr (), s')"] by simp
  show "rel_option (reaches (b h') p) (bm_get (nr_items g) h') (bm_get (nr_items ?g) h')" for h'
    using h r by (simp add: bm.get_insert [OF wf] option.rel_refl reaches_refl)
  show "\<exists>s \<in> {}. reaches (b h') p s s''" if "nr_next g \<le> h'" "bm_get (nr_items ?g) h' = Some s''" for h' s''
    using that native_below [OF g h] native_above [OF g that(1)] by (simp add: bm.get_insert [OF wf] split: if_splits)
qed simp_all

lemma moves_with [moves_intros]:
  assumes g: "native_inv g" and "\<And>s. reaches (b h) p s (snd (f s))"
  shows "moves b p (\<lambda>_. False) {} g (snd (native_with h f g))"
proof -
  consider "native_with h f g = (Inl InvalidHandle, g)"
    | v r v' where "bm_get (nr_items g) h = Some v" "f v = (r, v')" "native_with h f g = (r, g\<lparr>nr_items := bm_insert h v' (nr_items g)\<rparr>)"
    using native_with_cases [of h f g] by blast
  then show ?thesis
  proof cases
    case 1
    then show ?thesis using moves_refl [OF g] by simp
  next
    case (2 v r v')
    then have "reaches (b h) p v v'" using assms(2) [of v] by simp
    have "moves b p (\<lambda>_. False) {} g (g\<lparr>nr_items := bm_insert h v' (nr_items g)\<rparr>)"
      using g 2(1) \<open>reaches (b h) p v v'\<close> by (rule moves_put)
    then show ?thesis by (simp add: 2(3))
  qed
qed

lemma moves_pure [moves_intros]:
  "native_inv g \<Longrightarrow> (\<And>y. x = Inr y \<Longrightarrow> moves b p (\<lambda>_. False) {} g (snd (f y g))) \<Longrightarrow>
   moves b p (\<lambda>_. False) {} g (snd (bind_st (x, g) f))"
  by (cases x) (simp_all add: moves_refl)

lemma moves_unless [moves_intros]:
  "native_inv g \<Longrightarrow> (\<not> c \<Longrightarrow> moves b p (\<lambda>_. False) {} g (snd m)) \<Longrightarrow>
   moves b p (\<lambda>_. False) {} g (snd (if c then (Inl e, g) else m))"
  by (simp add: moves_refl)

lemma reach_policy [reach_intros]: "reaches b p s (snd (Inr x, s))"
  by (simp add: reaches_refl)

lemma moves_create_group:
  assumes g: "native_inv g"
  shows "moves b p (\<lambda>_. False) {} g (fst (snd (secure_store_create_group p k fill h i d m now (g, rng))))"
proof -
  have kept: "fst (snd (case m of (r, g) \<Rightarrow> (r, g, rng))) = snd m" for m :: "(api_error + u64) \<times> store_registry" and rng :: 'a
    by (cases m) simp
  show ?thesis
    unfolding secure_store_create_group_def Let_def prod.case
    by (simp add: kept moves_refl [OF g] moves_with [OF g] reach_found_group split: sum.split prod.split)
qed

lemma moves_enqueue:
  assumes g: "native_inv g"
  shows "moves b p (\<lambda>_. False) {} g (fst (snd (enqueue_text p k fill disk h i t l now (g, rng))))"
proof -
  have "moves b p (\<lambda>_. False) {} g (g\<lparr>nr_items := bm_insert h s' (nr_items g)\<rparr>)"
    if "bm_get (nr_items g) h = Some s" "enqueue_in p k fill disk signer t l e now (s, rng) = (r, s', rng')" for s signer e r s' rng'
    using moves_put [OF g that(1), of b p s'] reach_enqueue_in [of "b h" p "(s, rng)" k fill disk signer t l e now] that(2) by simp
  then show ?thesis
    unfolding enqueue_text_def by (auto simp: moves_refl [OF g] split: option.split prod.split)
qed

lemma moves_release:
  assumes g: "native_inv g"
  shows "moves b p (\<lambda>h'. h = h') {} g (snd (secure_store_release h g))"
proof (rule movesI)
  have wf: "bm_wf (nr_items g)" using g by (simp add: native_inv_def)
  show "native_inv (snd (secure_store_release h g))" "nr_next g \<le> nr_next (snd (secure_store_release h g))"
    using native_release_inv [OF g, of h] by (simp_all add: secure_store_release_def)
  have get: "bm_get (nr_items (snd (secure_store_release h g))) h' = (if h' = h then None else bm_get (nr_items g) h')" for h'
    by (auto simp: secure_store_release_def native_release_def bm.get_remove [OF wf])
  show "bm_get (nr_items (snd (secure_store_release h g))) h' = None" if "h = h'" for h'
    unfolding get using that by simp
  show "rel_option (reaches (b h') p) (bm_get (nr_items g) h') (bm_get (nr_items (snd (secure_store_release h g))) h')"
    if "h \<noteq> h'" for h' unfolding get using that by (simp add: option.rel_refl reaches_refl)
  show "\<exists>s \<in> {}. reaches (b h') p s s'"
    if "nr_next g \<le> h'" "bm_get (nr_items (snd (secure_store_release h g))) h' = Some s'" for h' s'
    using that native_above [OF g that(1)] by (simp add: get split: if_splits)
qed

lemma moves_open:
  assumes g: "native_inv g"
  shows "moves b p (\<lambda>_. False) (set_option (opened p (Do_open texts cipher key m path file))) g
    (snd (snd (secure_store_open (hash p) texts cipher key m path (file, g))))"
proof -
  have wf: "bm_wf (nr_items g)" using g by (simp add: native_inv_def)
  have none: "moves b p (\<lambda>_. False) new g g" for new
    by (rule movesI) (use g in \<open>auto simp: option.rel_refl reaches_refl dest: native_below\<close>)
  have "moves b p (\<lambda>_. False) {s} g (snd (native_issue s g))" for s
  proof (cases "snd (native_issue s g) = g")
    case False
    then have i: "snd (native_issue s g) = g\<lparr>nr_next := nr_next g + 1, nr_items := bm_insert (nr_next g) s (nr_items g)\<rparr>"
      using native_issue_cases [of s g] by auto
    show ?thesis
    proof (rule movesI)
      show "native_inv (snd (native_issue s g))" "nr_next g \<le> nr_next (snd (native_issue s g))"
        using native_issue_inv [OF g, of s] by blast+
      show "rel_option (reaches (b h) p) (bm_get (nr_items g) h) (bm_get (nr_items (snd (native_issue s g))) h)"
        if "h < nr_next g" for h
        using that by (simp add: i bm.get_insert [OF wf] option.rel_refl reaches_refl less_imp_neq)
      show "\<exists>s \<in> {s}. reaches (b h) p s s'"
        if "nr_next g \<le> h" "bm_get (nr_items (snd (native_issue s g))) h = Some s'" for h s'
        using that native_above [OF g that(1)] by (auto simp: i bm.get_insert [OF wf] reaches_refl split: if_splits)
    qed simp
  qed (simp add: none)
  then show ?thesis by (auto simp: secure_store_open_def none split: prod.split sum.split) (metis snd_conv)
qed

lemma device_step_moves:
  assumes g: "native_inv g"
  shows "moves (\<lambda>h. hands_over h d) p (\<lambda>h. releases h d) (set_option (opened p d)) g (fst (snd (device_step p k fill d (g, rng))))"
proof -
  have with_rng: "fst (snd (with_rng f m rng)) = snd m" for f and m :: "'x \<times> store_registry"
    by (cases m) (simp add: with_rng_def)
  note calls = device_step.simps with_rng releases.simps hands_over.simps opened.simps option.set
  show ?thesis
  proof (cases d)
    case (Do_open texts cipher key m path contents)
    then show ?thesis
      using moves_open [OF g, of "\<lambda>_. False" p texts cipher key m path contents]
      by (cases "secure_store_open (hash p) texts cipher key m path (contents, g)") simp
  next
    case (Do_enqueue disk h i t l now)
    then show ?thesis using g
      by (cases l) (simp_all add: secure_store_enqueue_text_def secure_store_enqueue_text_with_logical_id_def moves_enqueue)
  next
    case (Do_enroll h i q now)
    show ?thesis
      unfolding Do_enroll calls secure_store_issue_enrollment_def Let_def by (intro moves_intros g reach_enroll)
  next
    case (Do_rotate h i e now)
    show ?thesis
      unfolding Do_rotate calls secure_store_rotate_authority_def Let_def
      by (intro moves_intros g) (simp add: reach_rotate_authority)
  next
    case (Do_install h b now)
    show ?thesis
      unfolding Do_install calls secure_store_install_policy_def Let_def by (intro moves_intros g reach_intros)
  next
    case (Do_install_rotated h b e now)
    show ?thesis
      unfolding Do_install_rotated calls secure_store_install_rotated_policy_def Let_def by (intro moves_intros g reach_intros refl)
  next
    case (Do_finalize h i d now)
    show ?thesis
      unfolding Do_finalize calls secure_store_finalize_next_text_def Let_def by (intro moves_intros g reach_finalize_next)
  next
    case (Do_ack_record h i slot now)
    show ?thesis
      unfolding Do_ack_record calls secure_store_receipt_ack_record_def Let_def by (intro moves_intros g reach_ack_record)
  next
    case (Do_accept disk h b via now)
    show ?thesis
      unfolding Do_accept calls secure_store_accept_routed_def Let_def by (intro moves_intros g reach_accept)
  next
    case (Do_release h)
    then show ?thesis using moves_release [OF g] by (simp add: with_rng)
  next
    case (Do_create_group h i d m now)
    then show ?thesis using moves_create_group [OF g] by simp
  qed
qed

lemma device_run_moves:
  assumes "native_inv g"
  shows "moves (\<lambda>h. \<exists>d \<in> set ds. hands_over h d) p (\<lambda>h. \<exists>d \<in> set ds. releases h d) (\<Union>d \<in> set ds. set_option (opened p d)) g
    (fst (device_run p k fill ds (g, rng)))"
  using assms
proof (induction ds arbitrary: g rng)
  case (Cons d ds)
  obtain g' rng' where d: "snd (device_step p k fill d (g, rng)) = (g', rng')" by (cases "snd (device_step p k fill d (g, rng))")
  have 1: "moves (\<lambda>h. hands_over h d) p (\<lambda>h. releases h d) (set_option (opened p d)) g g'"
    using device_step_moves [OF Cons.prems, of d p k fill rng] by (simp add: d)
  from moves_trans [OF 1 Cons.IH [OF movesD(1) [OF 1], of rng']] show ?case by (simp add: d)
qed (simp add: moves_refl)

end
