(* ===== verification/Mesh_Boundary.thy ===== *)
theory Mesh_Boundary
  imports Mesh_Native_Runs Mesh_Channel
begin

text \<open>
  What a host can rely on at the native boundary: its calls are runs of the stores, errors leave a
  store as it was, handles are never reused, and frames are not relayed without end.
\<close>

section \<open>Stores behind their handles\<close>

lemma moved:
  assumes "moves b p r new g g'"
  shows "h < nr_next g \<Longrightarrow> bm_get (nr_items g) h = Some s \<Longrightarrow> \<not> r h \<Longrightarrow>
      \<exists>s'. bm_get (nr_items g') h = Some s' \<and> reaches (b h) p s s'"
    and "h < nr_next g \<Longrightarrow> bm_get (nr_items g) h = None \<or> r h \<Longrightarrow> bm_get (nr_items g') h = None"
  using movesD(3,4) [OF assms, of h] by (cases "r h"; auto simp: option_rel_Some1)+


definition sample_device :: store_registry where
  "sample_device = \<lparr>nr_next = 2, nr_items = [(1, group_store)]\<rparr>"

lemma sample_device_wf: "bm_wf (nr_items sample_device)" "bm_get (nr_items sample_device) 1 = Some group_store"
  by (simp_all add: sample_device_def bm_get_def bm_wf_def)

lemma sample_device_inv: "native_inv sample_device"
  by (auto simp: native_inv_def native_live_iff sample_device_def bm_get_def bm_wf_def MAX_COUNTER_val split: if_splits)

definition sample_calls_device :: "device_call list" where
  "sample_calls_device = [Do_enqueue (\<lambda>_. True) 1 (replicate 32 1) [104, 105] (Some 7) 6, Do_accept (\<lambda>_. True) 1 [2] (replicate 32 2) 7,
     Do_release 3, Do_finalize 1 (replicate 32 1) (replicate 32 1) 8]"



lemma group_store_ok: "store_ok (hash sample_suite) group_store" "policy_inv sample_suite (st_db group_store)"
proof -
  have g: "group_store = snd (store_run sample_suite [Call_install 1 sample_scope [sample_certificate 1, sample_certificate 2] [] 5]
      (store_new (MemberId 1) limits_default))"
    by (simp add: group_store_def split_def Let_def)
  show "store_ok (hash sample_suite) group_store" unfolding g by (rule conjunct1 [OF store_run_ok [OF store_new_ok]]) simp
  show "policy_inv sample_suite (st_db group_store)" unfolding g by (rule policy_inv_run [OF policy_inv_new])
qed


section \<open>Refused records\<close>

text \<open>An operation of the store that answers with an error leaves the store as it was.\<close>

definition harmless :: "('e + 'a) \<times> 's \<Rightarrow> 's \<Rightarrow> bool" where
  "harmless m s \<longleftrightarrow> (\<forall>e s'. m = (Inl e, s') \<longrightarrow> s' = s)"

named_theorems harmless_intros "operations that leave their state as it was on an error"

lemma harmless_op: "store_step p c s = answered m \<Longrightarrow> harmless m s"
  using store_step_failed [of p c s] by (cases m; cases "fst m") (auto simp: harmless_def answered_def)

lemma harmless_same [harmless_intros]: "harmless (x, s) s"
  by (simp add: harmless_def)

lemma harmless_apfst [harmless_intros]: "harmless m s \<Longrightarrow> harmless (apfst (or_else e) m) s"
  by (cases m; cases "fst m") (auto simp: harmless_def)

lemma harmless_check [harmless_intros]:
  "(\<And>y. x = Inr y \<Longrightarrow> harmless (f y s) s) \<Longrightarrow> harmless (bind_st (x, s) f) s"
  by (cases x) (simp_all add: harmless_def)

lemma harmless_last [harmless_intros]:
  "harmless m s \<Longrightarrow> (\<And>y s'. m = (Inr y, s') \<Longrightarrow> is_ok (fst (f y s'))) \<Longrightarrow> harmless (bind_st m f) s"
proof -
  assume m: "harmless m s" and f: "\<And>y s'. m = (Inr y, s') \<Longrightarrow> is_ok (fst (f y s'))"
  obtain r s' where r: "m = (r, s')" by (cases m)
  show ?thesis
  proof (cases r)
    case (Inl e)
    then show ?thesis using m r by (simp add: harmless_def)
  next
    case (Inr y)
    then have "is_ok (fst (f y s'))" using f r by simp
    then show ?thesis using r Inr by (auto simp: harmless_def)
  qed
qed

lemma harmless_if [harmless_intros]:
  "(c \<Longrightarrow> harmless m s) \<Longrightarrow> (\<not> c \<Longrightarrow> harmless n s) \<Longrightarrow> harmless (if c then m else n) s"
  by simp

lemma harmless_calls [harmless_intros]:
  "harmless (announce_authenticated p a roster now s) s"
  "harmless (put_relay_chunk (hash p) i j bs frame via now s) s"
  "harmless (put_relay_receipt (hash p) bs frame via now s) s"
  "harmless (put_relay_receipt_ack (hash p) bs frame via now s) s"
  "harmless (record_target_receipt p v roster now s) s"
  "harmless (record_receipt_ack p w roster now s) s"
  using store_step.simps(6,8,10,11,17,19) by (metis harmless_op)+

text \<open>
  An acknowledgement that a relay forwards is taken into custody in one transaction and the receipt
  that it answers dropped in a second one.
\<close>

definition acknowledged_only ::
    "suite \<Rightarrow> (store \<Rightarrow> bool) \<Rightarrow> relay_frame \<Rightarrow> bytes \<Rightarrow> member_id \<Rightarrow> u64 \<Rightarrow> store \<Rightarrow> store \<Rightarrow> bool" where
  "acknowledged_only p disk frame ack via now s s' \<longleftrightarrow>
     put_relay_receipt_ack (hash p) ack frame via now s = (Inr (), s') \<and> \<not> disk s' \<and>
     (\<exists>t. s' = s\<lparr>st_db := (st_db s)\<lparr>db_relay_acks := t\<rparr>\<rparr>)"

lemma put_relay_receipt_ack_custody:
  "put_relay_receipt_ack sha256 ack frame via now s = (Inr (), s') \<Longrightarrow>
   \<exists>t. s' = s\<lparr>st_db := (st_db s)\<lparr>db_relay_acks := t\<rparr>\<rparr>"
  by (auto simp: put_relay_receipt_ack_def res_simps transact_Inr)

lemma acknowledge_refused:
  assumes "accept_receipt_ack p disk frame ack roster via now s = (Inl e, s')"
  shows "s' = s \<or> e = InternalInvariant \<and> acknowledged_only p disk frame ack via now s s'"
proof -
  obtain r s1 where put: "put_relay_receipt_ack (hash p) ack frame via now s = (r, s1)"
    by (cases "put_relay_receipt_ack (hash p) ack frame via now s")
  show ?thesis
  proof (cases "r = Inr () \<and> \<not> disk s1")
    case True
    then have only: "acknowledged_only p disk frame ack via now s s1"
      using put put_relay_receipt_ack_custody [of "hash p" ack frame via now s s1] by (simp add: acknowledged_only_def)
    show ?thesis
    proof (cases "receipt_ack_route_of ack")
      case route: (Inr route)
      show ?thesis
      proof (cases "verify_receipt_ack p ack roster now")
        case (Inr w)
        obtain y s2 where y: "record_receipt_ack p w roster now s = (y, s2)" by (cases "record_receipt_ack p w roster now s")
        have "y = Inl d \<Longrightarrow> s2 = s" for d using harmless_calls(6) [of p w roster now s] by (simp add: harmless_def y)
        then show ?thesis
          using assms put True only y route Inr
          by (cases y) (auto simp: accept_receipt_ack_def remove_relay_receipt_def split: if_splits)
      qed (use assms route in \<open>auto simp: accept_receipt_ack_def split: if_splits\<close>)
    qed (use assms in \<open>simp add: accept_receipt_ack_def\<close>)
  next
    case False
    have mid: "harmless (bind_st (apfst (or_else InvalidArgument) (put_relay_receipt_ack (hash p) ack frame via now s)) (\<lambda>_ s.
        apfst (or_else InternalInvariant) (remove_relay_receipt disk i s))) s" for i
      by (intro harmless_last harmless_intros)
        (use put False in \<open>cases r; auto simp: remove_relay_receipt_def transact_def\<close>)
    have "harmless (accept_receipt_ack p disk frame ack roster via now s) s"
      unfolding accept_receipt_ack_def by (rule mid harmless_intros | simp)+
    then show ?thesis using assms by (simp add: harmless_def)
  qed
qed

lemma accept_refused:
  assumes "accept_routed p disk routed via now s = (Inl e, s')"
  shows "s' = s \<or> e = InternalInvariant \<and> (\<exists>ack. rr_record routed = ReceiptAck ack \<and>
    acknowledged_only p disk (rr_frame routed) ack via now s s')"
proof -
  have 1: "harmless (accept_announcement p frame bs roster now s) s" for frame bs roster
    unfolding accept_announcement_def by (rule harmless_intros | simp)+
  have 2: "harmless (accept_chunk p frame i j bs via now s) s" for frame i j bs
    unfolding accept_chunk_def by (rule harmless_intros | simp)+
  have 3: "harmless (accept_receipt p frame bs roster via now s) s" for frame bs roster
    unfolding accept_receipt_def Let_def by (rule harmless_intros | simp)+
  from assms show ?thesis
    unfolding accept_routed_def
    using 1 2 3 acknowledge_refused [of p disk "rr_frame routed" _ _ via now s e s']
    by (auto simp: bind_st_def harmless_def split: sum.splits durable_record.splits)
qed

lemma refused_with:
  assumes "\<And>s e s'. f s = (Inl e, s') \<Longrightarrow> s' = s \<or> Q e s s'" and "native_with h f g = (Inl e, g')"
  shows "nr_next g' = nr_next g \<and> (bm_get (nr_items g') = bm_get (nr_items g) \<or>
    (\<exists>s s'. bm_get (nr_items g) h = Some s \<and> Q e s s' \<and> bm_get (nr_items g') = (bm_get (nr_items g))(h \<mapsto> s')))"
  using native_with_cases [of h f g]
proof (elim disjE exE conjE)
  fix v r v' assume v: "bm_get (nr_items g) h = Some v" "f v = (r, v')"
    and g: "native_with h f g = (r, g\<lparr>nr_items := bm_insert h v' (nr_items g)\<rparr>)"
  then have g': "g' = g\<lparr>nr_items := bm_insert h v' (nr_items g)\<rparr>" and "v' = v \<or> Q e v v'" using assms by auto
  moreover have "bm_get (nr_items g') = (bm_get (nr_items g))(h \<mapsto> v')" by (auto simp: g' bm_get_insert fun_eq_iff)
  ultimately show ?thesis using v(1) by (auto simp: fun_upd_idem)
qed (use assms(2) in simp)

text \<open>
  C24: a record from a neighbor that is refused leaves every store as it was, with one exception, which
  only an acknowledgement that the device forwards can meet: the acknowledgement is taken into
  custody, SQLite then does not complete the deletion of the receipt that it answers, and the answer
  is \<open>InternalInvariant\<close>. Then the acknowledgement is in the custody of the store of this handle,
  the receipt too, and nothing but that custody of acknowledgements is changed in any store.
\<close>

theorem refused_record_harmless:
  assumes "secure_store_accept_routed p disk h bytes via now g = (Inl e, g')"
  shows "nr_next g' = nr_next g \<and> (bm_get (nr_items g') = bm_get (nr_items g) \<or>
    e = InternalInvariant \<and> (\<exists>routed ack s s'. routed_decode bytes = Inr routed \<and> rr_record routed = ReceiptAck ack \<and>
      bm_get (nr_items g) h = Some s \<and>
      acknowledged_only p disk (rr_frame routed) ack (MemberId (be_word via)) now s s' \<and> bm_get (nr_items g') = (bm_get (nr_items g))(h \<mapsto> s')))"
proof -
  consider "g' = g" | routed where "routed_decode bytes = Inr routed"
      "native_with h (accept_routed p disk routed (MemberId (be_word via)) now) g = (Inl e, g')"
    using assms unfolding secure_store_accept_routed_def
    by (cases "routed_decode bytes") (auto split: if_splits)
  then show ?thesis
  proof cases
    case (2 routed)
    note r = refused_with [OF _ 2(2), where Q = "\<lambda>e s s'. e = InternalInvariant \<and> (\<exists>ack. rr_record routed = ReceiptAck ack \<and>
        acknowledged_only p disk (rr_frame routed) ack (MemberId (be_word via)) now s s')", OF accept_refused]
    then show ?thesis using 2(1) by auto
  qed simp
qed

section \<open>Handles\<close>

text \<open>
  C25: once a store, a session or a relay gate is released, its handle is dead: whatever is issued,
  used or released afterwards in that table, every access to it answers \<open>InvalidHandle\<close> and changes
  nothing, and no later handle is equal to it. (A native function that checks other arguments before
  it looks up the handle answers \<open>InvalidArgument\<close> when they are wrong.)
\<close>

theorem native_handle_dead:
  assumes "native_inv g" and "bm_get (nr_items g) h = Some v" and "(rs, g') = native.run cs (snd (native_release h g))"
  shows "native_with h f g' = (Inl InvalidHandle, g') \<and> native_get h g' = Inl InvalidHandle \<and> h \<notin> set (native.handles rs) \<and>
    length (nr_items g') \<le> MAX_RUNTIMES"
proof -
  let ?g = "snd (native_release h g)"
  note r = native_release_inv [OF assms(1), of h]
  have h: "h < nr_next ?g"
    using native.live_below [OF assms(1), of h] assms(2) r by (simp add: native_live_iff)
  have "h \<notin> native_live g'"
    using native.dead_stays_dead [of ?g h cs] r h assms(3) by (metis DiffD2 insertI1 snd_conv)
  moreover have "h \<notin> set (native.handles rs)"
    using native.handles_ascending [of ?g cs] r h assms(3) by (metis fst_conv leD)
  moreover have "native_inv g'" using native.inv_run [of ?g cs] r assms(3) by (metis snd_conv)
  ultimately show ?thesis
    by (cases "bm_get (nr_items g') h") (auto simp: native_live_iff native_with_def native_get_def native_inv_def)
qed

theorem native_handle_dead_witness:
  "native_with 1 (\<lambda>s. (Inr (), s)) (snd (native.run [Native_issue group_store, Native_issue group_store :: (store, unit) native_call]
     (snd (native_release 1 sample_device)))) = (Inl InvalidHandle, snd (native.run [Native_issue group_store, Native_issue group_store :: (store, unit) native_call]
     (snd (native_release 1 sample_device))))"
  by (rule conjunct1 [OF native_handle_dead [OF sample_device_inv sample_device_wf(2) prod.collapse]])

section \<open>Finishing a session twice\<close>

definition refused :: "('e + 'a) \<times> 's \<Rightarrow> bool" where
  "refused m \<longleftrightarrow> \<not> is_ok (fst m)"

lemma refused_error: "refused (Inl e, s)"
  by (simp add: refused_def)

lemma refused_if: "refused m \<Longrightarrow> refused n \<Longrightarrow> refused (if c then m else n)"
  by simp

lemma refused_bind: "(\<And>y. refused (f y s)) \<Longrightarrow> refused (bind_st (x, s) f)"
  by (cases x) (simp_all add: refused_error)

lemma refused_native: "bm_get (nr_items g) h = Some v \<Longrightarrow> refused (F v) \<Longrightarrow> refused (native_with h F g)"
  by (cases "F v") (simp add: refused_def native_with_def)

lemma closed_refuses:
  assumes g: "bm_get (nr_items g) h = Some item" and c: "nv_state item = Native_closed"
  shows "refused (secure_session_send p z h bs t stores g)" "refused (secure_session_receive p z h bs t stores g)"
    "refused (secure_session_authenticate p z h bs t stores g)" "refused (secure_session_read z h bs t g)"
    "refused (secure_session_write z h t g)" "refused (secure_session_finish p z h t stores g)"
  unfolding secure_session_send_def secure_session_receive_def secure_session_authenticate_def secure_session_read_def
    secure_session_write_def secure_session_finish_def
  by (simp_all add: refused_error refused_if refused_bind refused_native [OF g] on_ready_def on_handshake_def c)

text \<open>
  \<open>secure_session_finish\<close> on an established session answers \<open>StaleRequest\<close> and destroys the
  session: the state is replaced before it is inspected. Afterwards the peer is gone and nothing
  can be sent, received, written, read or finished under the handle.
\<close>

theorem finish_destroys_session:
  assumes "bm_get (nr_items g) h = Some item" and "nv_state item = Native_ready s"
    and "verified_roster_of p (nv_store item) now stores = Inr roster"
  shows "\<exists>g'. secure_session_finish p z h now stores g = (Inl StaleRequest, g') \<and>
    bm_get (nr_items g') h = Some (item\<lparr>nv_state := Native_closed\<rparr>) \<and>
    secure_session_authenticated h g' = Inr False \<and> secure_session_peer h g' = Inl StaleRequest \<and>
    (\<forall>t bs. refused (secure_session_send p z h bs t stores g') \<and> refused (secure_session_receive p z h bs t stores g') \<and>
       refused (secure_session_authenticate p z h bs t stores g') \<and> refused (secure_session_read z h bs t g') \<and>
       refused (secure_session_write z h t g') \<and> refused (secure_session_finish p z h t stores g'))"
proof -
  let ?item = "item\<lparr>nv_state := Native_closed\<rparr>"
  let ?g = "g\<lparr>nr_items := bm_insert h ?item (nr_items g)\<rparr>"
  have get: "bm_get (nr_items ?g) h = Some ?item" by (simp add: bm_get_insert)
  have "secure_session_finish p z h now stores g = (Inl StaleRequest, ?g)"
    using assms by (simp add: secure_session_finish_def session_roster_def session_store_handle_def native_get_def native_with_def Let_def)
  moreover have "secure_session_authenticated h ?g = Inr False" "secure_session_peer h ?g = Inl StaleRequest"
    by (simp_all add: secure_session_authenticated_def secure_session_peer_def native_get_def bm_get_insert)
  ultimately show ?thesis using get closed_refuses [OF get] by auto
qed

section \<open>Relaying ends\<close>

text \<open>A gate that lets a frame pass, with the frame that the host sends on.\<close>

inductive relays :: "bytes \<Rightarrow> bytes \<Rightarrow> bool" where
  "relay_gate_accept h frame via now g = (Inr (1 # next), g') \<Longrightarrow> relays frame next"

definition hops_left :: "bytes \<Rightarrow> nat" where
  "hops_left frame = (case relay_decode frame of Inl _ \<Rightarrow> 0 | Inr f \<Rightarrow> unat (rf_hop_limit f) - unat (rf_hops f))"

lemma relays_hop:
  assumes "relays frame next"
  shows "hops_left next < hops_left frame \<and> hops_left frame \<le> 16"
  using assms
proof (cases rule: relays.cases)
  case (1 h via now g g')
  then obtain f v where f0: "relay_decode frame = Inr f"
    "native_with h (\<lambda>gate. apfst (\<lambda>r. bindr (or_else InvalidArgument r) (\<lambda>d. Inr (decision_bytes d))) (accept f v now gate)) g =
       (Inr (1 # next), g')"
    by (auto simp: relay_gate_accept_def res_simps)
  then obtain gate gate' where f1: "apfst (\<lambda>r. bindr (or_else InvalidArgument r) (\<lambda>d. Inr (decision_bytes d))) (accept f v now gate) =
      (Inr (1 # next), gate')"
    using native_with_cases [of h "\<lambda>gate. apfst (\<lambda>r. bindr (or_else InvalidArgument r) (\<lambda>d. Inr (decision_bytes d))) (accept f v now gate)" g]
    by auto
  obtain d where a: "accept f v now gate = (d, gate')" using f1 by (cases "accept f v now gate") simp
  have "d = Inr x \<Longrightarrow> decision_bytes x = 1 # next \<Longrightarrow> \<exists>f'. x = Forward f' \<and> next = relay_encode f'" for x
    by (cases x) (simp_all add: decision_bytes_def)
  then obtain f' where f: "relay_decode frame = Inr f" "accept f v now gate = (Inr (Forward f'), gate')" "next = relay_encode f'"
    using f0(1) f1 by (auto simp: a res_simps)
  note fw = accept_Forward [OF f(2)]
  have lim: "rf_hop_limit f \<le> 16" "rf_hops f < rf_hop_limit f" "rf_expires_at f \<le> MAX_LOGICAL_TIME"
    using fw(1,5) by (auto simp: relay_valid_def not_less split: if_splits)
  then have hops: "unat (rf_hops f + 1) = unat (rf_hops f) + 1" "rf_hops f + 1 \<le> rf_hop_limit f" "rf_hop_limit f \<noteq> 0"
    by (auto simp: unat_word_ariths word_less_nat_alt word_le_nat_alt)
  then have "relay_ok f'" using lim by (simp add: fw(8) relay_ok_def)
  then have "relay_decode next = Inr f'" by (simp add: f(3) relay_decode_iff)
  then show ?thesis
    using f(1) hops lim by (simp add: hops_left_def fw(8) word_less_nat_alt word_le_nat_alt) arith
qed

text \<open>
  C29: relaying terminates. Whatever devices take a frame, over whatever gates, in whatever order and
  at whatever times, one that is let through has fewer hops left than before, so that no frame is
  passed on for ever and none is passed on more than sixteen times in a row.
\<close>

theorem relaying_terminates:
  "wfp (\<lambda>next frame. relays frame next) \<and> (\<forall>n frame last. (relays ^^ n) frame last \<longrightarrow> n \<le> 16)"
proof -
  have left: "n + hops_left last \<le> hops_left frame" if "(relays ^^ n) frame last" for n frame last
    using that
  proof (induction n arbitrary: last)
    case (Suc n)
    then obtain b where "(relays ^^ n) frame b" "relays b last" by auto
    then show ?case using Suc.IH [of b] relays_hop [of b last] by simp
  qed simp
  have "n \<le> 16" if r: "(relays ^^ n) frame last" for n frame last
  proof (cases n)
    case (Suc k)
    then obtain b where "relays frame b" using r by (metis relpowp_Suc_D2)
    then show ?thesis using left [OF r] relays_hop [of frame b] by simp
  qed simp
  moreover have "wfp (\<lambda>next frame. relays frame next)"
    by (rule wfp_if_convertible_to_nat [of _ hops_left]) (simp add: relays_hop)
  ultimately show ?thesis by blast
qed

theorem relaying_terminates_witness:
  "\<exists>next. (relays ^^ 1) (relay_encode sample_frame) next \<and> (1 :: nat) \<le> 16"
proof -
  obtain f c' where a: "accept sample_frame (MemberId 2) 7 (relay_new (MemberId 3)) = (Inr (Forward f), c')"
    unfolding accept_def sample_frame_def relay_new_def expire_seen_def Let_def
    by (simp add: relay_valid_def bm_retain_def MAX_LOGICAL_TIME_def bm_contains_def word_le_nat_alt)
  let ?g = "\<lparr>nr_next = 2, nr_items = [(1, relay_new (MemberId 3))]\<rparr> :: relay_gate_registry"
  have "relay_ok sample_frame" by (simp add: relay_ok_def sample_frame_def MAX_LOGICAL_TIME_def word_le_nat_alt)
  then have "relay_decode (relay_encode sample_frame) = Inr sample_frame" by (simp add: relay_decode_iff)
  then have "relay_gate_accept 1 (relay_encode sample_frame) (be_bytes (2 :: arr32)) 7 ?g =
      (Inr (1 # relay_encode f), ?g\<lparr>nr_items := [(1, c')]\<rparr>)"
    using a by (simp add: relay_gate_accept_def to_member_def native_with_def bm_get_def decision_bytes_def)
  then have "relays (relay_encode sample_frame) (relay_encode f)" by (rule relays.intros)
  then have r: "(relays ^^ 1) (relay_encode sample_frame) (relay_encode f)" by (simp add: OO_def)
  from conjunct2 [OF relaying_terminates, THEN spec, THEN spec, THEN spec, THEN mp, OF r] r show ?thesis by blast
qed

lemma sample_policy_roster:
  "verified_policy sample_suite group_store 5 = Inr sample_roster" "verified_roster_of sample_suite 1 5 sample_device = Inr sample_roster"
proof -
  have "st_policy_bundle group_store = Inr (Some \<lparr>pb_authority = 1, pb_scope = sample_scope,
      pb_certificates = [sample_certificate 1, sample_certificate 2], pb_revoked = bset_of []\<rparr>)"
    by (rule install_active(3) [OF policy_inv_new conjunct1 [OF sample_install] _ refl]) (simp add: store_new_def db_empty_def)
  moreover have "roster_verify sample_suite 1 sample_scope [sample_certificate 1, sample_certificate 2] [] 5 = Inr sample_roster"
    by (rule sample_roster_verify) simp_all
  ultimately show "verified_policy sample_suite group_store 5 = Inr sample_roster"
    by (simp add: verified_policy_def bundle_verify_def bset_of_def)
  then show "verified_roster_of sample_suite 1 5 sample_device = Inr sample_roster"
    by (simp add: verified_roster_of_def native_get_def sample_device_wf)
qed

theorem finish_destroys_session_witness:
  "\<exists>g'. secure_session_finish sample_suite plain_noise 1 5 sample_device
      \<lparr>nr_next = 2, nr_items = [(1, \<lparr>nv_store = 1, nv_state = Native_ready (sample_session Initiator 1)\<rparr>)]\<rparr> = (Inl StaleRequest, g') \<and>
     secure_session_peer 1 g' = Inl StaleRequest"
proof -
  let ?item = "\<lparr>nv_store = 1, nv_state = Native_ready (sample_session Initiator 1)\<rparr> :: (unit, unit) session_record"
  let ?g = "\<lparr>nr_next = 2, nr_items = [(1, ?item)]\<rparr>"
  have "bm_get (nr_items ?g) 1 = Some ?item" "nv_state ?item = Native_ready (sample_session Initiator 1)"
    "verified_roster_of sample_suite (nv_store ?item) 5 sample_device = Inr sample_roster"
    using sample_policy_roster(2) by (simp_all add: bm_get_def)
  from finish_destroys_session [OF this, of plain_noise] show ?thesis by blast
qed

lemma group_store_empty: "tb_get (db_objects (st_db group_store)) i = None" "db_logical (st_db group_store) = tb_empty"
  "db_logical_objects (st_db group_store) = tb_empty" "st_limits group_store = limits_default"
proof -
  have "policy_part s s' \<Longrightarrow> db_objects (st_db s') = db_objects (st_db s) \<and> db_logical (st_db s') = db_logical (st_db s) \<and>
      db_logical_objects (st_db s') = db_logical_objects (st_db s) \<and> st_limits s' = st_limits s" for s s'
    by (auto simp: policy_part_def)
  from this [OF install_policy_part [OF conjunct1 [OF sample_install]]]
  show "tb_get (db_objects (st_db group_store)) i = None" "db_logical (st_db group_store) = tb_empty"
    "db_logical_objects (st_db group_store) = tb_empty" "st_limits group_store = limits_default"
    by (simp_all add: store_new_def db_empty_def)
qed

theorem refused_record_harmless_witness:
  "\<exists>b e g'. routed_decode b = Inr \<lparr>rr_frame = sample_frame, rr_record = Chunk (ObjectId 9) 0 [1]\<rparr> \<and>
     secure_store_accept_routed sample_suite (\<lambda>_. True) 1 b (replicate 32 2) 5 sample_device = (Inl e, g') \<and>
     bm_get (nr_items g') = bm_get (nr_items sample_device)"
proof -
  let ?r = "\<lparr>rr_frame = sample_frame, rr_record = Chunk (ObjectId 9) 0 [1]\<rparr>"
  obtain b where b: "routed_encode ?r = Inr b" "length b \<le> MAX_ROUTED_RECORD" "b \<noteq> []"
    by (simp add: routed_encode_def)
  have "relay_ok sample_frame" by (simp add: relay_ok_def sample_frame_def MAX_LOGICAL_TIME_def word_le_nat_alt)
  then have d: "routed_decode b = Inr ?r" using b(1) by (simp add: routed_decode_iff)
  moreover have "accept_routed sample_suite (\<lambda>_. True) ?r via 5 group_store = (Inl InvalidArgument, group_store)" for via
    by (simp add: accept_routed_def accept_chunk_def sample_policy_roster st_manifest_def manifest_from_def group_store_empty)
  then have "secure_store_accept_routed sample_suite (\<lambda>_. True) 1 b (replicate 32 2) 5 sample_device =
      (Inl InvalidArgument, sample_device\<lparr>nr_items := bm_insert 1 group_store (nr_items sample_device)\<rparr>)"
    using b d by (simp add: secure_store_accept_routed_def native_with_def sample_device_wf)
  ultimately show ?thesis using refused_record_harmless by blast
qed

end
