(* ===== verification/Mesh_Enqueue.thy ===== *)
theory Mesh_Enqueue
  imports Mesh_Boundary
begin

text \<open>
  Enqueueing a text is all or nothing: \<open>enqueue_text\<close> commits one object per audience and rolls all of
  them back when one of them fails. What a store holds about an object is its view; the lemmas say
  which views each step touches.
\<close>

section \<open>What a store holds about an object\<close>

definition object_view where
  "object_view d ob =
     (tb_get (db_objects d) ob, tb_get (db_outbox d) ob, tb_get (db_announcements d) ob, tb_get (db_logical_objects d) ob,
      tb_get (db_local d) ob, tb_get (db_deliveries d) ob, tb_get (db_acknowledged d) ob, tb_get (db_relay_outbox d) ob,
      tb_get (db_relay_metadata d) ob, \<lambda>k. tb_get (db_chunks d) (ob, k), \<lambda>m. tb_get (db_receipts d) (ob, m),
      \<lambda>m. tb_get (db_origin_acks d) (ob, m))"

definition no_object where
  "no_object = object_view db_empty (ObjectId 0)"

text \<open>
  What a store holds beside objects, operations and logical messages: the policy, and the receipts and
  acknowledgements that it relays. The custody of relayed objects is part of their views.
\<close>

definition shared_view where
  "shared_view d = (db_policy d, db_certificates d, db_revocations d, db_relay_receipts d, db_relay_acks d)"

text \<open>The objects that are part of a logical message.\<close>

definition part_of :: "logical_id \<Rightarrow> db \<Rightarrow> object_id \<Rightarrow> bool" where
  "part_of l d ob \<longleftrightarrow> (\<exists>n. tb_get (db_logical_objects d) ob = Some (l, n))"

text \<open>
  An object that nothing of the store's member holds: it is not in the outbox, not bound to an
  operation, not part of a logical message, and if there is one it names the member as its origin. An
  identifier that is not in the store at all is such an object; objects that are relayed are not.
\<close>

definition unclaimed :: "member_id \<Rightarrow> db \<Rightarrow> object_id \<Rightarrow> bool" where
  "unclaimed me d ob \<longleftrightarrow> tb_get (db_outbox d) ob = None \<and> tb_get (db_logical_objects d) ob = None \<and>
     (\<forall>i row. tb_get (db_operations d) i = Some row \<longrightarrow> ow_object row \<noteq> Some ob) \<and>
     (\<forall>row. tb_get (db_objects d) ob = Some row \<longrightarrow> bw_origin row = me)"

text \<open>The operations that are bound to an object.\<close>

definition bound_row :: "db \<Rightarrow> operation_id \<Rightarrow> operation_row option" where
  "bound_row d i = (case tb_get (db_operations d) i of
     None \<Rightarrow> None | Some row \<Rightarrow> if ow_object row = None then None else Some row)"

lemma bound_row_iff: "bound_row d i = Some row \<longleftrightarrow> tb_get (db_operations d) i = Some row \<and> ow_object row \<noteq> None"
  by (auto simp: bound_row_def split: option.splits if_splits)

lemma no_object_parts: "object_view d ob = no_object \<longleftrightarrow>
  tb_get (db_objects d) ob = None \<and> tb_get (db_outbox d) ob = None \<and> tb_get (db_announcements d) ob = None \<and>
  tb_get (db_logical_objects d) ob = None \<and> tb_get (db_local d) ob = None \<and> tb_get (db_deliveries d) ob = None \<and>
  tb_get (db_acknowledged d) ob = None \<and> tb_get (db_relay_outbox d) ob = None \<and> tb_get (db_relay_metadata d) ob = None \<and>
  (\<forall>k. tb_get (db_chunks d) (ob, k) = None) \<and> (\<forall>m. tb_get (db_receipts d) (ob, m) = None) \<and>
  (\<forall>m. tb_get (db_origin_acks d) (ob, m) = None)"
  by (simp add: object_view_def no_object_def db_empty_def fun_eq_iff)

section \<open>Commits\<close>

text \<open>Every step of a commit touches one object only.\<close>

definition touches :: "object_id \<Rightarrow> db \<Rightarrow> db \<Rightarrow> bool" where
  "touches ob d d' \<longleftrightarrow> (\<forall>ob'. ob' \<noteq> ob \<longrightarrow> object_view d' ob' = object_view d ob') \<and> shared_view d' = shared_view d \<and>
     db_logical d' = db_logical d \<and> db_operations d' = db_operations d"

lemma touches_trans: "touches ob d d' \<Longrightarrow> touches ob d' d'' \<Longrightarrow> touches ob d d''"
  by (simp add: touches_def)

lemma touches_manifest: "insert_manifest sha256 lim m d = Inr d' \<Longrightarrow>
    touches (manifest_id sha256 m) d d' \<and> db_logical_objects d' = db_logical_objects d \<and> db_outbox d' = db_outbox d"
  by (auto simp: insert_manifest_def Let_def res_simps touches_def object_view_def shared_view_def split: option.splits if_splits)

lemma touches_announcement: "insert_announcement ob b d = Inr d' \<Longrightarrow>
    touches ob d d' \<and> db_logical_objects d' = db_logical_objects d \<and> db_outbox d' = db_outbox d"
  by (auto simp: insert_announcement_def res_simps touches_def object_view_def shared_view_def insert_or_ignore_get)

lemma touches_chunks: "insert_chunks sha256 m k bs d = Inr d' \<Longrightarrow>
    touches (manifest_id sha256 m) d d' \<and> db_logical_objects d' = db_logical_objects d \<and> db_outbox d' = db_outbox d"
proof (induction bs arbitrary: k d)
  case Nil
  then show ?case by (simp add: touches_def)
next
  case (Cons b bs)
  then obtain d1 where d1: "insert_chunk (manifest_id sha256 m) k b d = Inr d1" "insert_chunks sha256 m (k + 1) bs d1 = Inr d'"
    by (auto simp: res_simps)
  have "touches (manifest_id sha256 m) d d1 \<and> db_logical_objects d1 = db_logical_objects d \<and> db_outbox d1 = db_outbox d"
    using insert_chunk_Inr [OF d1(1)] by (auto simp: touches_def object_view_def shared_view_def)
  then show ?case using Cons.IH [OF d1(2)] touches_trans by metis
qed

lemma touches_complete: "touches ob d ((set_complete ob d)\<lparr>db_outbox := tb_put ob () (db_outbox (set_complete ob d))\<rparr>)"
  "db_logical_objects (set_complete ob d) = db_logical_objects d" "db_outbox (set_complete ob d) = db_outbox d"
  by (auto simp: set_complete_def touches_def object_view_def shared_view_def split: option.split)

lemma touches_link: "link_logical_object l ob n d = Inr d' \<Longrightarrow>
    touches ob d d' \<and> part_of l d' ob \<and> (\<forall>l' n. tb_get (db_logical_objects d) ob = Some (l', n) \<longrightarrow> l' = l)"
  by (auto simp: link_logical_object_def Let_def res_simps touches_def object_view_def shared_view_def part_of_def
      split: option.splits if_splits)

text \<open>
  A commit for a logical message changes nothing, or one object that becomes part of the message, that
  was unclaimed or part of it, and that the operation is bound to.
\<close>

lemma commit_touches:
  assumes c: "commit_sealed_logical p i h sm roster l now s = (Inr ob, s')"
    and ok: "store_ok (hash p) s" and m: "prepared_ok (sm_object sm)"
  shows "s' = s \<or> (\<exists>d row. touches ob (st_db s) d \<and> st_db s' = d\<lparr>db_operations := tb_put i row (db_operations d)\<rparr> \<and>
    part_of l (st_db s') ob \<and> ow_object row = Some ob \<and> bound_row (st_db s) i = None \<and>
    (unclaimed (st_member s) (st_db s) ob \<or> part_of l (st_db s) ob))"
proof -
  have "commit_outgoing_inner (hash p) i h (sm_object sm) now (Some (sm_announcement sm)) (Some l) s = (Inr ob, s')"
    using c by (auto simp: commit_sealed_logical_def res_simps)
  then show ?thesis
  proof (cases rule: commit_steps)
    case (2 row d1 d2 d3 d5 d6)
    let ?d = "st_db s"
    have d: "touches ob ?d d1" "touches ob d1 d2" "touches ob d2 d3"
      "db_logical_objects d3 = db_logical_objects ?d" "db_outbox d3 = db_outbox ?d"
      using touches_manifest [OF 2(9)] touches_announcement [of ob _ d1 d2] 2(10) touches_chunks [OF 2(11)] 2(1) by auto
    have l: "touches ob ((set_complete ob d3)\<lparr>db_outbox := tb_put ob () (db_outbox (set_complete ob d3))\<rparr>) d5" "part_of l d5 ob"
      "\<And>l' n. tb_get (db_logical_objects ?d) ob = Some (l', n) \<Longrightarrow> l' = l"
      using touches_link [of l ob _ _ d5] 2(12) d(4) touches_complete(2) by auto
    have t: "touches ob ?d d5"
      using d(1-3) l(1) touches_complete(1) by (blast intro: touches_trans)
    have d6: "d6 = d5" using 2(14) by simp
    have "ow_object r \<noteq> Some ob" if "tb_get (db_operations ?d) j = Some r" for j r
      using 2(2,6,16) that t by (cases "j = i") (auto simp: d6 tb_select_None touches_def)
    moreover have "bw_origin r = st_member s" if r: "tb_get (db_objects ?d) ob = Some r" for r
    proof -
      have "objects_ok (hash p) (db_objects ?d)" using ok by (simp add: store_ok_def db_ok_def)
      moreover have "manifest_ok (po_manifest (sm_object sm))" using m by (simp add: prepared_ok_def)
      ultimately show ?thesis using insert_manifest_Inr [OF _ _ 2(9)] r 2(1,5) by (auto simp: row_of_def)
    qed
    ultimately have "unclaimed (st_member s) ?d ob \<or> part_of l ?d ob"
      using l(3) 2(15) d(5) by (cases "tb_get (db_logical_objects ?d) ob") (auto simp: unclaimed_def part_of_def touches_complete(3))
    moreover have "bound_row ?d i = None" using 2(2,6) by (simp add: bound_row_def)
    moreover have "part_of l (st_db s') ob" using l(2) by (simp add: 2(13) d6 part_of_def)
    ultimately show ?thesis using t by (auto simp: 2(13) d6 intro!: exI [of _ d5] exI [of _ "row\<lparr>ow_object := Some ob\<rparr>"])
  qed simp
qed

section \<open>Growth and rollback\<close>

text \<open>
  The database after some commits for \<open>l\<close>: what is not part of \<open>l\<close> is as before, and what has become
  part of it was unclaimed. Bound operations stay, and new ones are bound to parts of \<open>l\<close>.
\<close>

definition grows :: "logical_id \<Rightarrow> member_id \<Rightarrow> db \<Rightarrow> db \<Rightarrow> bool" where
  "grows l me d d' \<longleftrightarrow> shared_view d' = shared_view d \<and> db_logical d' = db_logical d \<and>
     (\<forall>ob. object_view d' ob = object_view d ob \<or> part_of l d' ob \<and> (unclaimed me d ob \<or> part_of l d ob)) \<and>
     (\<forall>i row. bound_row d i = Some row \<longrightarrow> bound_row d' i = Some row) \<and>
     (\<forall>i row. bound_row d' i = Some row \<longrightarrow> bound_row d i = Some row \<or> (\<exists>ob. ow_object row = Some ob \<and> part_of l d' ob))"

lemma view_logical: "object_view d' ob = object_view d ob \<Longrightarrow> tb_get (db_logical_objects d') ob = tb_get (db_logical_objects d) ob"
  by (simp add: object_view_def)

lemma view_part: "object_view d' ob = object_view d ob \<Longrightarrow> part_of l d' ob \<longleftrightarrow> part_of l d ob"
  by (simp add: part_of_def object_view_def)

lemma growsD:
  assumes "grows l me d d'"
  shows "shared_view d' = shared_view d" "db_logical d' = db_logical d"
    "object_view d' ob = object_view d ob \<or> part_of l d' ob \<and> (unclaimed me d ob \<or> part_of l d ob)"
    "bound_row d i = Some row \<Longrightarrow> bound_row d' i = Some row"
    "bound_row d' i = Some row \<Longrightarrow> bound_row d i = Some row \<or> (\<exists>ob. ow_object row = Some ob \<and> part_of l d' ob)"
  using assms unfolding grows_def by blast+

lemma grows_refl: "grows l me d d"
  by (simp add: grows_def)

lemma grows_part: "grows l me d d' \<Longrightarrow> part_of l d ob \<Longrightarrow> part_of l d' ob"
  using growsD(3) [of l me d d' ob] view_part [of d' ob d l] by blast

lemma unclaimed_before:
  assumes "object_view d' ob = object_view d ob" and "\<And>i row. bound_row d i = Some row \<Longrightarrow> bound_row d' i = Some row"
    and "unclaimed me d' ob"
  shows "unclaimed me d ob"
proof -
  have "ow_object row \<noteq> Some ob" if "tb_get (db_operations d) i = Some row" for i row
    using assms(2) [of i row] assms(3) that by (cases "ow_object row") (auto simp: bound_row_iff unclaimed_def)
  then show ?thesis using assms(1,3) by (simp add: unclaimed_def object_view_def)
qed

lemma grows_trans:
  assumes 1: "grows l me d d'" and 2: "grows l me d' d''"
  shows "grows l me d d''"
proof -
  have "object_view d'' ob = object_view d ob \<or> part_of l d'' ob \<and> (unclaimed me d ob \<or> part_of l d ob)" for ob
  proof (cases "object_view d' ob = object_view d ob")
    case True
    with growsD(3) [OF 2, of ob] show ?thesis
      using unclaimed_before [OF True growsD(4) [OF 1]] view_part [OF True, of l] by metis
  next
    case False
    then have "part_of l d' ob" "unclaimed me d ob \<or> part_of l d ob" using growsD(3) [OF 1, of ob] by blast+
    then show ?thesis using grows_part [OF 2] by blast
  qed
  moreover have "bound_row d i = Some row \<or> (\<exists>ob. ow_object row = Some ob \<and> part_of l d'' ob)" if "bound_row d'' i = Some row" for i row
    using growsD(5) [OF 2 that] growsD(5) [OF 1, of i row] grows_part [OF 2] by blast
  ultimately show ?thesis using growsD(1,2,4) [OF 1] growsD(1,2,4) [OF 2] unfolding grows_def by simp
qed

lemma commit_grows:
  assumes c: "commit_sealed_logical p i h sm roster l now s = (r, s')" and "store_ok (hash p) s" and "prepared_ok (sm_object sm)"
  shows "grows l (st_member s) (st_db s) (st_db s')"
proof (cases r)
  case (Inl e)
  then show ?thesis
    using harmless_op [OF store_step.simps(4), of p i h sm roster l now s] c by (auto simp: harmless_def grows_refl)
next
  case (Inr ob)
  show ?thesis
  proof (cases "s' = s")
    case False
    with commit_touches [OF c [unfolded Inr] assms(2,3)] obtain d row where t: "touches ob (st_db s) d"
      and s': "st_db s' = d\<lparr>db_operations := tb_put i row (db_operations d)\<rparr>"
      and part: "part_of l (st_db s') ob" and row: "ow_object row = Some ob" and free: "bound_row (st_db s) i = None"
      and old: "unclaimed (st_member s) (st_db s) ob \<or> part_of l (st_db s) ob"
      by blast
    have "object_view (st_db s') ob' = object_view (st_db s) ob'" if "ob' \<noteq> ob" for ob'
      using t that by (simp add: s' touches_def object_view_def)
    moreover have "bound_row (st_db s') j = (if j = i then Some row else bound_row (st_db s) j)" for j
      using t row by (simp add: s' bound_row_def touches_def)
    moreover have "shared_view (st_db s') = shared_view (st_db s)" "db_logical (st_db s') = db_logical (st_db s)"
      using t by (simp_all add: s' touches_def shared_view_def)
    ultimately show ?thesis using part old row free unfolding grows_def by (metis option.distinct(1) option.inject)
  qed (simp add: grows_refl)
qed

lemma reserve_grows: "reserve i h s = (r, s') \<Longrightarrow> grows l me (st_db s) (st_db s')"
  by (cases r) (auto simp: reserve_def transact_Inl transact_Inr res_simps Let_def grows_def object_view_def shared_view_def
      bound_row_def split: option.splits if_splits)

lemma reaches_ok:
  assumes "reaches b p s s'" and "store_ok (hash p) s"
  shows "store_ok (hash p) s'" "st_member s' = st_member s"
  using assms store_run_ok unfolding reaches_def by blast+

lemma enqueue_audience_grows:
  assumes e: "enqueue_audience p k fill roster signer l plaintext expires now audience n (s, rng) = (r, s', rng')"
    and ok: "store_ok (hash p) s"
  shows "grows l (st_member s) (st_db s) (st_db s')"
proof -
  have "grows l (st_member s) (st_db s) (st_db s2)"
    if r: "reserve i h s = (x, s1)" and c: "commit_sealed_logical p i h sm roster l now s1 = (y, s2)"
      and m: "seal_message p k fill q roster signer g = (Inr sm, g')" "namespace_ok (op_namespace (sr_policy q))"
    for i h x s1 sm y s2 q g g'
  proof -
    have "reaches True p s s1" using reach_reserve [of True p s i h] by (simp add: r)
    note s1 = reaches_ok [OF this ok]
    have "grows l (st_member s) (st_db s1) (st_db s2)"
      using commit_grows [OF c s1(1) sealed_message_prepared [OF m]] by (simp only: s1(2))
    with reserve_grows [OF r] show ?thesis by (rule grows_trans)
  qed
  with e show ?thesis
    unfolding enqueue_audience_def Let_def prod.case
    by (auto simp: grows_refl text_namespace_ok split: prod.splits sum.splits if_splits intro: reserve_grows)
qed

lemma enqueue_audiences_grows:
  "enqueue_audiences p k fill roster signer l plaintext expires now audiences n sr = (r, sr') \<Longrightarrow> store_ok (hash p) (fst sr) \<Longrightarrow>
   grows l (st_member (fst sr)) (st_db (fst sr)) (st_db (fst sr'))"
proof (induction audiences arbitrary: n sr)
  case Nil
  then show ?case by (simp add: grows_refl)
next
  case (Cons a audiences)
  obtain r1 s1 rng1 where a: "enqueue_audience p k fill roster signer l plaintext expires now a n sr = (r1, s1, rng1)"
    by (metis prod_cases3)
  have g: "grows l (st_member (fst sr)) (st_db (fst sr)) (st_db s1)"
    using enqueue_audience_grows [of p k fill roster signer l plaintext expires now a n "fst sr" "snd sr"] a Cons.prems(2) by simp
  have "reaches True p (fst sr) s1"
    using reach_enqueue_audience [of True p sr k fill roster signer l plaintext expires now a n] by (simp add: a)
  note s1 = reaches_ok [OF this Cons.prems(2)]
  show ?case
  proof (cases r1)
    case (Inl e)
    then show ?thesis using Cons.prems g by (simp add: a) auto
  next
    case (Inr n1)
    then have "enqueue_audiences p k fill roster signer l plaintext expires now audiences n1 (s1, rng1) = (r, sr')"
      using Cons.prems by (simp add: a)
    from Cons.IH [OF this] s1 have "grows l (st_member (fst sr)) (st_db s1) (st_db (fst sr'))" by simp
    with g show ?thesis by (rule grows_trans)
  qed
qed

lemma retain_object: "tb_get (tb_retain (\<lambda>(j, _) _. j \<noteq> i) t) (ob, x) = (if ob = i then None else tb_get t (ob, x))"
  by (simp add: tb.get_retain split: option.split)

lemma delete_object_view:
  "object_view (delete_object i d) ob = (if ob = i then no_object else object_view d ob)"
  "shared_view (delete_object i d) = shared_view d" "db_logical (delete_object i d) = db_logical d"
  by (auto simp: delete_object_def Let_def object_view_def no_object_def db_empty_def shared_view_def retain_object fun_eq_iff)

lemma delete_objects_view:
  "object_view (fold delete_object is d) ob = (if ob \<in> set is then no_object else object_view d ob)"
  "shared_view (fold delete_object is d) = shared_view d" "db_logical (fold delete_object is d) = db_logical d"
  by (induction "is" arbitrary: d) (auto simp: delete_object_view)

lemma delete_object_bound:
  "bound_row (delete_object j d) i = Some row \<longleftrightarrow> bound_row d i = Some row \<and> ow_object row \<noteq> Some j"
  by (auto simp: bound_row_iff delete_object_def Let_def tb.get_retain split: option.splits if_splits)

lemma delete_objects_bound:
  "bound_row (fold delete_object is d) i = Some row \<longleftrightarrow> bound_row d i = Some row \<and> ow_object row \<notin> Some ` set is"
  by (induction "is" arbitrary: d) (auto simp: delete_object_bound)

lemma delete_unbound_bound: "bound_row (delete_unbound d) i = bound_row d i"
  by (auto simp: bound_row_def delete_unbound_def tb.get_retain split: option.splits)

text \<open>
  A rollback removes the logical message and everything that is part of it, and it succeeds unless
  SQLite fails.
\<close>

lemma rollback_exact:
  assumes ok: "store_ok sha256 s" and "disk s"
  shows "\<exists>s'. rollback_logical_message disk l s = (Inr (), s') \<and> shared_view (st_db s') = shared_view (st_db s) \<and>
    tb_get (db_logical (st_db s')) = (tb_get (db_logical (st_db s)))(l := None) \<and>
    (\<forall>ob. object_view (st_db s') ob = (if part_of l (st_db s) ob then no_object else object_view (st_db s) ob)) \<and>
    (\<forall>i row. bound_row (st_db s') i = Some row \<longleftrightarrow>
       bound_row (st_db s) i = Some row \<and> (\<forall>ob. ow_object row = Some ob \<longrightarrow> \<not> part_of l (st_db s) ob))"
proof -
  obtain ids where ids_def: "ids = map fst (tb_rows (logical_objects (st_db s) l))" by blast
  obtain d where d_def: "d = fold delete_object ids (st_db s)" by blast
  let ?kept = "tb_retain (\<lambda>i row. i \<noteq> l) (db_logical d)"
  have ids: "ob \<in> set ids \<longleftrightarrow> part_of l (st_db s) ob" for ob
  proof -
    have "ob \<in> set ids \<longleftrightarrow> (\<exists>v. (ob, v) \<in> set (tb_rows (logical_objects (st_db s) l)))" unfolding ids_def by force
    then show ?thesis by (auto simp: tb_rows_iff logical_objects_def part_of_def tb_get_retain(1))
  qed
  have view: "object_view d ob = (if part_of l (st_db s) ob then no_object else object_view (st_db s) ob)" for ob
    unfolding d_def delete_objects_view(1) ids ..
  have rest: "shared_view d = shared_view (st_db s)" "db_logical d = db_logical (st_db s)"
    unfolding d_def delete_objects_view by (rule refl)+
  have bound: "bound_row d i = Some row \<longleftrightarrow>
      bound_row (st_db s) i = Some row \<and> (\<forall>ob. ow_object row = Some ob \<longrightarrow> \<not> part_of l (st_db s) ob)" for i row
    unfolding d_def delete_objects_bound by (auto simp: ids image_iff)
  have gone: "tb_get (db_logical_objects d) ob = (if part_of l (st_db s) ob then None else tb_get (db_logical_objects (st_db s)) ob)" for ob
    using view [of ob] no_object_parts [of d ob] view_logical [of d ob "st_db s"] by (cases "part_of l (st_db s) ob") simp_all
  have "tb_get ?kept l' \<noteq> None" if "tb_get (db_logical_objects d) ob = Some (l', n)" for ob l' n
  proof -
    have o: "tb_get (db_logical_objects (st_db s)) ob = Some (l', n)" "\<not> part_of l (st_db s) ob"
      using that gone [of ob] by (simp_all split: if_splits)
    then obtain row where "tb_get (db_logical (st_db s)) l' = Some row"
      using ok unfolding store_ok_def db_ok_def logical_ok_def by blast
    moreover have "l' \<noteq> l" using o by (auto simp: part_of_def)
    ultimately show ?thesis by (simp add: rest(2) tb_get_retain(2))
  qed
  then have "delete_logical (\<lambda>i _. i = l) d = Inr (d\<lparr>db_logical := ?kept\<rparr>)"
    by (auto simp: delete_logical_def Let_def tb_select_None split: prod.splits)
  then have "rollback_logical_message disk l s = (Inr (), s\<lparr>st_db := delete_unbound (d\<lparr>db_logical := ?kept\<rparr>)\<rparr>)"
    using assms(2) by (simp only: rollback_logical_message_def Let_def transact_def flip: ids_def d_def) simp
  moreover have "object_view (delete_unbound (d\<lparr>db_logical := ?kept\<rparr>)) ob = object_view d ob" for ob
    by (simp add: delete_unbound_def object_view_def)
  moreover have "shared_view (delete_unbound (d\<lparr>db_logical := ?kept\<rparr>)) = shared_view (st_db s)"
    using rest(1) by (simp add: delete_unbound_def shared_view_def)
  moreover have "tb_get (db_logical (delete_unbound (d\<lparr>db_logical := ?kept\<rparr>))) = (tb_get (db_logical (st_db s)))(l := None)"
    by (simp add: delete_unbound_def rest(2) fun_eq_iff tb.get_retain split: option.split)
  moreover have "bound_row (delete_unbound (d\<lparr>db_logical := ?kept\<rparr>)) i = bound_row d i" for i
    by (simp add: delete_unbound_bound) (simp add: bound_row_def)
  ultimately show ?thesis using view bound by simp
qed

lemma rollback_failed: "\<not> disk s \<Longrightarrow> rollback_logical_message disk l s = (Inl StorageUnavailable, s)"
  by (simp add: rollback_logical_message_def Let_def)

section \<open>All or nothing\<close>

lemma begin_logical_new:
  assumes "tb_get (db_logical (st_db s)) l = None" and "begin_logical_message l n k expires now s = (r, s1)"
  shows "case r of Inl e \<Rightarrow> s1 = s | Inr _ \<Rightarrow> s1 = s\<lparr>st_db := (st_db s)\<lparr>db_logical := tb_put l
     \<lparr>gw_created = now, gw_expires = expires, gw_targets = n, gw_audiences = k\<rparr> (db_logical (st_db s))\<rparr>\<rparr>"
proof (cases r)
  case (Inl e)
  then show ?thesis
    using harmless_op [OF store_step.simps(13), of l n k expires now s] assms(2) by (simp add: harmless_def)
next
  case (Inr x)
  then show ?thesis
    using assms by (auto simp: begin_logical_message_def res_simps transact_Inr split: if_splits)
qed

lemma no_parts: "store_ok sha256 s \<Longrightarrow> tb_get (db_logical (st_db s)) l = None \<Longrightarrow> \<not> part_of l (st_db s) ob"
  unfolding store_ok_def db_ok_def logical_ok_def part_of_def by blast

text \<open>The message is not there, and each object is as it was or, unclaimed before, no longer there.\<close>

definition left_nothing :: "member_id \<Rightarrow> db \<Rightarrow> db \<Rightarrow> bool" where
  "left_nothing me d d' \<longleftrightarrow> tb_get (db_logical d') = tb_get (db_logical d) \<and> bound_row d' = bound_row d \<and>
     (\<forall>ob. object_view d' ob = object_view d ob \<or> unclaimed me d ob \<and> object_view d' ob = no_object)"

text \<open>The message is there, and each object is as it was or, unclaimed before, part of the message.\<close>

definition left_message :: "logical_id \<Rightarrow> logical_row \<Rightarrow> member_id \<Rightarrow> db \<Rightarrow> db \<Rightarrow> bool" where
  "left_message l row me d d' \<longleftrightarrow> tb_get (db_logical d') = (tb_get (db_logical d))(l \<mapsto> row) \<and>
     (\<forall>i row. bound_row d i = Some row \<longrightarrow> bound_row d' i = Some row) \<and>
     (\<forall>ob. object_view d' ob = object_view d ob \<or> unclaimed me d ob \<and> part_of l d' ob)"

lemma grown_message:
  assumes g: "grows l me (d\<lparr>db_logical := tb_put l row (db_logical d)\<rparr>) d'" and new: "\<And>ob. \<not> part_of l d ob"
  shows "left_message l row me d d'" "shared_view d' = shared_view d"
proof -
  let ?d = "d\<lparr>db_logical := tb_put l row (db_logical d)\<rparr>"
  have same: "object_view ?d ob = object_view d ob" "part_of l ?d ob = part_of l d ob" "unclaimed me ?d ob = unclaimed me d ob"
    "bound_row ?d i = bound_row d i" "shared_view ?d = shared_view d" for ob i
    by (simp_all add: object_view_def part_of_def unclaimed_def bound_row_def shared_view_def)
  show "shared_view d' = shared_view d" using growsD(1) [OF g] same by simp
  have "object_view d' ob = object_view d ob \<or> unclaimed me d ob \<and> part_of l d' ob" for ob
    using growsD(3) [OF g, of ob] new [of ob] unfolding same by blast
  moreover have "tb_get (db_logical d') = (tb_get (db_logical d))(l \<mapsto> row)" using growsD(2) [OF g] by (simp add: fun_eq_iff)
  ultimately show "left_message l row me d d'"
    using growsD(4) [OF g] unfolding left_message_def same by blast
qed

lemma rolled_back_nothing:
  assumes g: "grows l me (d\<lparr>db_logical := tb_put l row (db_logical d)\<rparr>) d'" and new: "\<And>ob. \<not> part_of l d ob"
    and "tb_get (db_logical d) l = None" and ok: "\<And>i row. bound_row d i = Some row \<Longrightarrow> \<exists>ob. ow_object row = Some ob \<and> \<not> part_of l d' ob"
    and rolled: "tb_get (db_logical d'') = (tb_get (db_logical d'))(l := None)"
      "\<And>ob. object_view d'' ob = (if part_of l d' ob then no_object else object_view d' ob)"
      "\<And>i row. bound_row d'' i = Some row \<longleftrightarrow>
         bound_row d' i = Some row \<and> (\<forall>ob. ow_object row = Some ob \<longrightarrow> \<not> part_of l d' ob)"
  shows "left_nothing me d d''"
proof -
  note m = grown_message [OF g new]
  have "object_view d'' ob = object_view d ob \<or> unclaimed me d ob \<and> object_view d'' ob = no_object" for ob
    using m(1) view_part [of d' ob d l] new [of ob] by (auto simp: left_message_def rolled(2))
  moreover have "bound_row d'' i = Some row \<longleftrightarrow> bound_row d i = Some row" for i row
    using m(1) ok [of i row] growsD(5) [OF g, of i row] unfolding left_message_def rolled(3)
    by (auto simp: bound_row_iff)
  then have "bound_row d'' i = bound_row d i" for i by (metis option.exhaust)
  moreover have "tb_get (db_logical d'') = tb_get (db_logical d)"
    using m(1) assms(3) by (simp add: rolled(1) left_message_def fun_eq_iff)
  ultimately show ?thesis by (simp add: left_nothing_def fun_eq_iff)
qed

text \<open>
  C8: enqueueing is all or nothing. When any audience fails - the random source, the reservation,
  the sealing, the record limit or the commit - the new logical message and everything committed for
  it are gone: the messages and the operations bound to objects are as they were, and so is every
  object, in the relay custody as well, except one of the member's own that was neither in the
  outbox nor bound to an operation nor part of a message, which may be gone. Only when SQLite does not
  complete the rollback, and the answer is \<open>InternalInvariant\<close>, the message stays with the objects
  committed for it. When the call succeeds the message is recorded with its bounds, and what is not part
  of it is as it was. The policy and the receipts and acknowledgements that are relayed never change.
\<close>

theorem enqueue_all_or_nothing:
  assumes "store_ok (hash p) s" and "tb_get (db_logical (st_db s)) l = None"
    and "enqueue_logical p k fill disk roster signer l plaintext targets expires now audiences (s, rng) = (r, s', rng')"
  shows "store_ok (hash p) s' \<and> shared_view (st_db s') = shared_view (st_db s) \<and>
    (let message = left_message l
         \<lparr>gw_created = now, gw_expires = expires, gw_targets = targets, gw_audiences = length audiences\<rparr>
         (st_member s) (st_db s) (st_db s')
     in case r of
       Inl e \<Rightarrow> left_nothing (st_member s) (st_db s) (st_db s') \<or> e = InternalInvariant \<and> \<not> disk s' \<and> message
     | Inr _ \<Rightarrow> message)"
proof -
  note start = assms(1,2)
  let ?me = "st_member s"
  have ok': "store_ok (hash p) s'"
    using reach_enqueue_logical [of True p "(s, rng)" k fill disk roster signer l plaintext targets expires now audiences]
      reaches_ok(1) start(1) assms(3) by simp
  have new: "\<not> part_of l (st_db s) ob" for ob by (rule no_parts [OF start])
  obtain r1 s1 where b: "begin_logical_message l targets (length audiences) expires now s = (r1, s1)"
    by (cases "begin_logical_message l targets (length audiences) expires now s")
  show ?thesis
  proof (cases r1)
    case (Inl e)
    then have s1: "s1 = s" using begin_logical_new [OF start(2) b] by simp
    have "left_nothing ?me (st_db s) (st_db s') \<and> shared_view (st_db s') = shared_view (st_db s) \<and> r = Inl InternalInvariant"
    proof (cases "disk s")
      case True
      obtain s2 where "rollback_logical_message disk l s = (Inr (), s2)" "shared_view (st_db s2) = shared_view (st_db s)"
        "tb_get (db_logical (st_db s2)) = (tb_get (db_logical (st_db s)))(l := None)"
        "\<And>ob. object_view (st_db s2) ob = object_view (st_db s) ob"
        "\<And>i row. bound_row (st_db s2) i = Some row \<longleftrightarrow> bound_row (st_db s) i = Some row"
        using rollback_exact [of "hash p" s disk l] start(1) True new by auto
      moreover from this(5) have "bound_row (st_db s2) = bound_row (st_db s)" by (metis ext option.exhaust)
      ultimately show ?thesis
        using assms(3) start(2) by (auto simp: enqueue_logical_def b Inl s1 left_nothing_def fun_upd_idem)
    next
      case False
      then show ?thesis using assms(3) by (simp add: enqueue_logical_def b Inl s1 rollback_failed left_nothing_def)
    qed
    then show ?thesis using ok' by auto
  next
    case (Inr x)
    let ?row = "\<lparr>gw_created = now, gw_expires = expires, gw_targets = targets, gw_audiences = length audiences\<rparr>"
    let ?d = "(st_db s)\<lparr>db_logical := tb_put l ?row (db_logical (st_db s))\<rparr>"
    have s1: "s1 = s\<lparr>st_db := ?d\<rparr>" using begin_logical_new [OF start(2) b] Inr by simp
    obtain r2 s2 rng2 where loop: "enqueue_audiences p k fill roster signer l plaintext expires now audiences 0 (s1, rng) = (r2, s2, rng2)"
      by (metis prod_cases3)
    have "reaches True p s s1" using reach_begin [of True p s l targets "length audiences" expires now] by (simp add: b)
    note ok1 = reaches_ok(1) [OF this start(1)]
    have "reaches True p s1 s2"
      using reach_enqueue_audiences [of True p "(s1, rng)" k fill roster signer l plaintext expires now audiences 0] by (simp add: loop)
    note ok2 = reaches_ok(1) [OF this ok1]
    have g: "grows l ?me ?d (st_db s2)" using enqueue_audiences_grows [OF loop] ok1 by (simp add: s1)
    note m = grown_message [OF g new]
    show ?thesis
    proof (cases r2)
      case (Inr n)
      then have "r = Inr (of_nat n)" "s' = s2" using assms(3) b loop \<open>r1 = Inr x\<close> by (simp_all add: enqueue_logical_def)
      then show ?thesis using ok' m by simp
    next
      case (Inl e)
      show ?thesis
      proof (cases "disk s2")
        case False
        then have "r = Inl InternalInvariant" "s' = s2"
          using assms(3) b loop \<open>r1 = Inr x\<close> Inl by (simp_all add: enqueue_logical_def rollback_failed)
        then show ?thesis using ok' m False by simp
      next
        case True
        obtain s3 where s3: "rollback_logical_message disk l s2 = (Inr (), s3)" "shared_view (st_db s3) = shared_view (st_db s2)"
          "tb_get (db_logical (st_db s3)) = (tb_get (db_logical (st_db s2)))(l := None)"
          "\<And>ob. object_view (st_db s3) ob = (if part_of l (st_db s2) ob then no_object else object_view (st_db s2) ob)"
          "\<And>i row. bound_row (st_db s3) i = Some row \<longleftrightarrow>
             bound_row (st_db s2) i = Some row \<and> (\<forall>ob. ow_object row = Some ob \<longrightarrow> \<not> part_of l (st_db s2) ob)"
          using rollback_exact [of "hash p" s2 disk l] ok2 True by blast
        have "r = Inl e" "s' = s3" using assms(3) b loop \<open>r1 = Inr x\<close> s3(1) Inl by (simp_all add: enqueue_logical_def)
        moreover have "\<exists>ob. ow_object row = Some ob \<and> \<not> part_of l (st_db s2) ob" if bound: "bound_row (st_db s) i = Some row" for i row
        proof -
          obtain ob where ob: "ow_object row = Some ob" using bound by (auto simp: bound_row_iff)
          then have "\<not> unclaimed ?me (st_db s) ob" using bound by (auto simp: bound_row_iff unclaimed_def)
          then have "object_view (st_db s2) ob = object_view (st_db s) ob" using m(1) by (auto simp: left_message_def)
          from view_part [OF this, of l] show ?thesis using ob new [of ob] by blast
        qed
        from rolled_back_nothing [OF g new start(2) this s3(3-5)] have "left_nothing ?me (st_db s) (st_db s3)" .
        ultimately show ?thesis using ok' m(2) s3(2) by simp
      qed
    qed
  qed
qed

theorem enqueue_all_or_nothing_witness:
  "\<exists>e s'. enqueue_logical sample_suite sample_kem (\<lambda>n r. (Inl RandomUnavailable, r)) (\<lambda>_. True) sample_roster (IdentitySigningKey 1)
      (LogicalMessageId 7) [104, 105] 1 905 5 [[MemberId 2]] (group_store, ()) = (Inl e, s', ()) \<and>
    store_ok (hash sample_suite) s' \<and> left_nothing (st_member group_store) (st_db group_store) (st_db s')"
proof -
  let ?e = "enqueue_logical sample_suite sample_kem (\<lambda>n r. (Inl RandomUnavailable, r)) (\<lambda>_. True) sample_roster (IdentitySigningKey 1)
      (LogicalMessageId 7) [104, 105] 1 905 5 [[MemberId 2]] (group_store, ())"
  have "\<exists>e s'. ?e = (Inl e, s', ())"
    by (auto simp: enqueue_logical_def enqueue_audience_def split: prod.split sum.split)
  then obtain e s' where e: "?e = (Inl e, s', ())" by blast
  have "tb_get (db_logical (st_db group_store)) (LogicalMessageId 7) = None" by (simp add: group_store_empty)
  from enqueue_all_or_nothing [OF group_store_ok(1) this e] e show ?thesis by simp
qed

end
