(* ===== verification/Mesh_Enrollment.thy ===== *)
theory Mesh_Enrollment
  imports Mesh_Enqueue
begin

text \<open>
  Enrollment through the native boundary: the bundle that an authority issues admits the applicant and
  carries every other member over to the next epoch.
\<close>

section \<open>The steps of an enrollment\<close>

lemma issue_certificates_claims:
  "issue_certificates p authority cs = Inr es \<Longrightarrow> map claims_of es = cs"
proof (induction cs arbitrary: es)
  case (Cons c cs)
  have "claims_of e = c" if "issue_certificate p authority c = Inr e" for e
    using that by (auto simp: issue_certificate_def res_simps cert_body_Inr)
  then show ?case using Cons by (auto simp: res_simps)
qed simp

lemma next_serial_renewed: "next_serial (renew_claims e t u cs) = next_serial cs"
  by (simp add: next_serial_def renew_claims_def comp_def)

lemma apfst_or_else_Inr: "apfst (or_else e) m = (Inr x, s) \<longleftrightarrow> m = (Inr x, s)"
  by (cases m; cases "fst m") auto

lemma enroll_steps:
  assumes "enroll_member p authority request now s = (Inr b, s')"
  obtains w roster until serial certificates x where
    "db_policy (st_db s) = Some w" "verified_policy p s now = Inr roster" "pw_authority w = signing_public_key p authority"
    "eq_scope request = \<lparr>sc_group = pw_group w, sc_epoch = pw_epoch w\<rparr>" "\<not> contains_member roster (eq_member request)"
    "pw_epoch w < pw_epoch w + 1" "next_serial (member_claims roster) = Some serial"
    "checked_add now GROUP_CERTIFICATE_LIFETIME = Some until" "until \<le> MAX_LOGICAL_TIME"
    "issue_certificates p authority (renew_claims (pw_epoch w + 1) now until (member_claims roster) @
       [\<lparr>ct_group = pw_group w, ct_member = eq_member request, ct_signing_key = eq_signing_key request,
         ct_delivery_key = eq_delivery_key request, ct_valid_from = now, ct_valid_until = until, ct_epoch = pw_epoch w + 1,
         ct_serial = serial\<rparr>]) = Inr certificates"
    "install_policy p (pw_authority w) \<lparr>sc_group = pw_group w, sc_epoch = pw_epoch w + 1\<rparr> certificates
       (map fst (tb_rows (db_revocations (st_db s)))) now s = (Inr x, s')"
    "bundle_encode \<lparr>pb_authority = pw_authority w, pb_scope = \<lparr>sc_group = pw_group w, sc_epoch = pw_epoch w + 1\<rparr>,
       pb_certificates = certificates, pb_revoked = map fst (tb_rows (db_revocations (st_db s)))\<rparr> = Inr b"
proof -
  obtain active where act: "active_policy p s now = Inr (Some active)"
    using assms by (auto simp: enroll_member_def res_simps)
  then obtain w where w: "db_policy (st_db s) = Some w" "ps_authority active = pw_authority w"
    "ps_scope active = \<lparr>sc_group = pw_group w, sc_epoch = pw_epoch w\<rparr>"
    by (auto simp: active_policy_def Let_def res_simps split: option.splits if_splits)
  then have b: "st_policy_bundle s = Inr (Some \<lparr>pb_authority = pw_authority w, pb_scope = \<lparr>sc_group = pw_group w, sc_epoch = pw_epoch w\<rparr>,
      pb_certificates = map snd (tb_rows (db_certificates (st_db s))), pb_revoked = map fst (tb_rows (db_revocations (st_db s)))\<rparr>)"
    by (simp add: st_policy_bundle_def Let_def)
  have up: "e = pw_epoch w + 1 \<and> pw_epoch w < pw_epoch w + 1" if "checked_add (pw_epoch w) 1 = Some e" for e
    using that by (simp add: checked_add_one_Some)
  from assms obtain roster e until serial certificates x where f: "pw_authority w = signing_public_key p authority"
      "eq_scope request = \<lparr>sc_group = pw_group w, sc_epoch = pw_epoch w\<rparr>" "\<not> contains_member roster (eq_member request)"
      "checked_add (pw_epoch w) 1 = Some e" "next_serial (member_claims roster) = Some serial"
      "checked_add now GROUP_CERTIFICATE_LIFETIME = Some until" "until \<le> MAX_LOGICAL_TIME"
      "issue_certificates p authority (renew_claims e now until (member_claims roster) @
        [\<lparr>ct_group = pw_group w, ct_member = eq_member request, ct_signing_key = eq_signing_key request,
          ct_delivery_key = eq_delivery_key request, ct_valid_from = now, ct_valid_until = until, ct_epoch = e,
          ct_serial = serial\<rparr>]) = Inr certificates"
      "install_policy p (signing_public_key p authority) \<lparr>sc_group = pw_group w, sc_epoch = e\<rparr> certificates
        (map fst (tb_rows (db_revocations (st_db s)))) now s = (Inr x, s')"
      "bundle_encode \<lparr>pb_authority = signing_public_key p authority, pb_scope = \<lparr>sc_group = pw_group w, sc_epoch = e\<rparr>,
        pb_certificates = certificates, pb_revoked = map fst (tb_rows (db_revocations (st_db s)))\<rparr> = Inr b"
    and r: "bundle_verify p \<lparr>pb_authority = signing_public_key p authority, pb_scope = \<lparr>sc_group = pw_group w, sc_epoch = pw_epoch w\<rparr>,
      pb_certificates = map snd (tb_rows (db_certificates (st_db s))), pb_revoked = map fst (tb_rows (db_revocations (st_db s)))\<rparr> now = Inr roster"
    by (clarsimp simp: enroll_member_def act b w res_simps Let_def apfst_or_else_Inr next_serial_renewed not_less split: if_split_asm)
  have "verified_policy p s now = Inr roster" by (simp add: verified_policy_def b r f(1))
  then show thesis
    using that [OF w(1) _ f(1-3)] checked_add_one_Some(1,2) [OF f(4)] f(1,5-10) by simp
qed

text \<open>A store whose policy is behind takes a policy that another store could install.\<close>

lemma member_claims_iff:
  assumes "roster_verify p a sc es rs now = Inr r"
  shows "c \<in> set (member_claims r) \<longleftrightarrow> roster_member r (ct_member c) = Inr c"
proof -
  have "no_duplicates es" "r = roster_of p a sc es (bset_of rs)"
    using assms by (simp_all add: roster_verify_iff roster_inputs_ok_def)
  then have wf: "bm_wf (vr_members r)" using built_members [of es] by (simp add: roster_of_def Let_def)
  have "c \<in> set (member_claims r) \<longleftrightarrow> (\<exists>m. (m, c) \<in> set (vr_members r))" unfolding member_claims_def by force
  also have "\<dots> \<longleftrightarrow> (\<exists>m. roster_member r m = Inr c)" by (simp add: bm.in_entries_iff [OF wf] roster_member_def res_simps)
  also have "\<dots> \<longleftrightarrow> roster_member r (ct_member c) = Inr c" using roster_sound [OF assms] by metis
  finally show ?thesis .
qed

lemma contains_member_iff: "contains_member r m \<longleftrightarrow> (\<exists>c. roster_member r m = Inr c)"
  by (simp add: contains_member_def bm_contains_def roster_member_def res_simps)

lemma install_tables:
  assumes "install_policy p a sc cs rs now s = (Inr x, s')" and w: "db_policy (st_db s) = Some w" "pw_epoch w < sc_epoch sc"
  obtains roster certs revs where "roster_verify p a sc cs rs now = Inr roster"
    "insert_certificates 0 cs tb_empty = Inr certs" "insert_revocations rs tb_empty = Inr revs"
proof -
  from assms(1) [unfolded install_policy_def] show thesis
  proof (cases rule: install_steps)
    case (1 v roster)
    then show thesis using w by simp
  next
    case (2 roster certs revs)
    then show thesis using that [of roster certs revs] w(1) by simp
  qed
qed

lemma install_ahead:
  assumes "roster_verify p a sc cs rs now = Inr roster" and "contains_member roster (st_member t)" and "policy_inv p (st_db t)"
    and "\<And>w. db_policy (st_db t) = Some w \<Longrightarrow> pw_authority w = a \<and> pw_group w = sc_group sc \<and> pw_epoch w < sc_epoch sc"
    and "insert_certificates 0 cs tb_empty = Inr certs" and "insert_revocations rs tb_empty = Inr revs"
  shows "\<exists>x t'. install_policy p a sc cs rs now t = (Inr x, t') \<and>
    (\<forall>later. verified_policy p t' later = or_else StaleRequest (roster_verify p a sc cs rs later))"
proof -
  have "\<exists>x t'. install_policy p a sc cs rs now t = (Inr x, t')"
  proof (cases "db_policy (st_db t)")
    case None
    then have "db_certificates (st_db t) = tb_empty" "db_revocations (st_db t) = tb_empty"
      using assms(3) by (simp_all add: policy_inv_def)
    then show ?thesis
      using None assms by (simp add: install_policy_def install_policy_with_transition_def transact_def)
  next
    case (Some w)
    then have "pw_authority w = a" "pw_group w = sc_group sc" "pw_epoch w < sc_epoch sc" using assms(4) by blast+
    then show ?thesis
      using Some assms by (auto simp: install_policy_def install_policy_with_transition_def transact_def Let_def)
  qed
  then obtain x t' where t: "install_policy p a sc cs rs now t = (Inr x, t')" by blast
  have "pw_epoch w \<noteq> sc_epoch sc" if "db_policy (st_db t) = Some w" for w using assms(4) [OF that] by auto
  from install_active(3) [OF assms(3) t this refl]
  have "verified_policy p t' later = or_else StaleRequest (roster_verify p a sc cs rs later)" for later
    using insert_revocations_rows [OF assms(6)] by (simp add: verified_policy_def bundle_verify_def roster_verify_sorted)
  then show ?thesis using t by blast
qed

lemma roster_verify_later:
  assumes "roster_verify p a sc es rs now = Inr r" and "until \<le> MAX_LOGICAL_TIME" and "now \<le> later" and "later < until"
    and "\<forall>e \<in> set es. ct_valid_from (claims_of e) = now \<and> ct_valid_until (claims_of e) = until"
  shows "roster_verify p a sc es rs later = Inr r"
  using assms unfolding roster_verify_iff roster_inputs_ok_def list_all_iff certificate_ok_def Let_def
  by (auto dest: less_imp_le intro: order_trans [of _ until])

text \<open>A roster of certificates that repeat the claims of another one, renewed, with one more.\<close>

lemma renewed_members:
  assumes new: "roster_verify p a sc es rs now = Inr roster" and old: "roster_verify q a' sc' es' rs' now' = Inr old"
    and claims: "map claims_of es = map f (member_claims old) @ [x]" and f: "\<And>c. ct_member (f c) = ct_member c"
  shows "roster_member roster m = Inr c \<longleftrightarrow> (m = ct_member x \<and> c = x) \<or> (\<exists>c0. roster_member old m = Inr c0 \<and> c = f c0)"
proof -
  have named: "roster_member old m = Inr c0 \<longleftrightarrow> c0 \<in> set (member_claims old) \<and> ct_member c0 = m" for c0
  proof
    assume "roster_member old m = Inr c0"
    moreover from this have "ct_member c0 = m" using roster_sound [OF old] by blast
    ultimately show "c0 \<in> set (member_claims old) \<and> ct_member c0 = m" unfolding member_claims_iff [OF old] by blast
  next
    assume "c0 \<in> set (member_claims old) \<and> ct_member c0 = m"
    then show "roster_member old m = Inr c0" unfolding member_claims_iff [OF old] by blast
  qed
  have "roster_member roster m = Inr c \<longleftrightarrow> c \<in> set (map claims_of es) \<and> ct_member c = m"
    using roster_sound [OF new] by auto
  also have "\<dots> \<longleftrightarrow> (m = ct_member x \<and> c = x) \<or> (\<exists>c0 \<in> set (member_claims old). c = f c0 \<and> ct_member c0 = m)"
    unfolding claims using f by auto
  finally show ?thesis unfolding named by blast
qed

section \<open>Enrollment admits exactly the applicant\<close>

text \<open>
  C9: enrollment admits exactly the applicant. When an authority enrolls a member, the bundle it hands
  out decodes and verifies, for the whole lifetime of the certificates, to a roster of the next
  epoch of the group that holds the applicant with its own keys and every member of the old roster
  with its old keys and serial, and nobody else. The authority has installed that roster, and the
  applicant and every old member, whether without a policy or at the old one, can install the
  bundle and have it too.
\<close>

theorem enrollment_admits:
  assumes "enroll_member p authority request now s = (Inr b, s')" and "policy_inv p (st_db s)"
  shows "\<exists>old new bundle until. verified_policy p s now = Inr old \<and> bundle_decode b = Inr bundle \<and>
    checked_add now GROUP_CERTIFICATE_LIFETIME = Some until \<and>
    vr_scope new = \<lparr>sc_group = sc_group (eq_scope request), sc_epoch = sc_epoch (eq_scope request) + 1\<rparr> \<and>
    \<not> contains_member old (eq_member request) \<and>
    (\<forall>m c. roster_member new m = Inr c \<longleftrightarrow>
       (m = eq_member request \<and> next_serial (member_claims old) = Some (ct_serial c) \<and>
          c = \<lparr>ct_group = sc_group (eq_scope request), ct_member = m, ct_signing_key = eq_signing_key request,
            ct_delivery_key = eq_delivery_key request, ct_valid_from = now, ct_valid_until = until,
            ct_epoch = sc_epoch (eq_scope request) + 1, ct_serial = ct_serial c\<rparr>) \<or>
       (\<exists>c0. roster_member old m = Inr c0 \<and>
          c = c0\<lparr>ct_epoch := sc_epoch (eq_scope request) + 1, ct_valid_from := now, ct_valid_until := until\<rparr>)) \<and>
    (\<forall>later. now \<le> later \<and> later < until \<longrightarrow> bundle_verify p bundle later = Inr new \<and> verified_policy p s' later = Inr new) \<and>
    (\<forall>later t. now \<le> later \<and> later < until \<and> policy_inv p (st_db t) \<and>
         (db_policy (st_db t) = None \<or> db_policy (st_db t) = db_policy (st_db s)) \<and>
         (st_member t = eq_member request \<or> contains_member old (st_member t)) \<longrightarrow>
       (\<exists>x t'. install_policy p (pb_authority bundle) (pb_scope bundle) (pb_certificates bundle) (pb_revoked bundle) later t =
          (Inr x, t') \<and> verified_policy p t' later = Inr new))"
proof -
  from assms(1) obtain w old until serial certificates x where e:
    "db_policy (st_db s) = Some w" "verified_policy p s now = Inr old" "pw_authority w = signing_public_key p authority"
    "eq_scope request = \<lparr>sc_group = pw_group w, sc_epoch = pw_epoch w\<rparr>" "\<not> contains_member old (eq_member request)"
    "pw_epoch w < pw_epoch w + 1" "next_serial (member_claims old) = Some serial"
    "checked_add now GROUP_CERTIFICATE_LIFETIME = Some until" "until \<le> MAX_LOGICAL_TIME"
    "issue_certificates p authority (renew_claims (pw_epoch w + 1) now until (member_claims old) @
       [\<lparr>ct_group = pw_group w, ct_member = eq_member request, ct_signing_key = eq_signing_key request,
         ct_delivery_key = eq_delivery_key request, ct_valid_from = now, ct_valid_until = until, ct_epoch = pw_epoch w + 1,
         ct_serial = serial\<rparr>]) = Inr certificates"
    "install_policy p (pw_authority w) \<lparr>sc_group = pw_group w, sc_epoch = pw_epoch w + 1\<rparr> certificates
       (map fst (tb_rows (db_revocations (st_db s)))) now s = (Inr x, s')"
    "bundle_encode \<lparr>pb_authority = pw_authority w, pb_scope = \<lparr>sc_group = pw_group w, sc_epoch = pw_epoch w + 1\<rparr>,
       pb_certificates = certificates, pb_revoked = map fst (tb_rows (db_revocations (st_db s)))\<rparr> = Inr b"
    by (rule enroll_steps)
  let ?sc = "\<lparr>sc_group = pw_group w, sc_epoch = pw_epoch w + 1\<rparr>" and ?rs = "map fst (tb_rows (db_revocations (st_db s)))"
  let ?new = "\<lparr>ct_group = pw_group w, ct_member = eq_member request, ct_signing_key = eq_signing_key request,
    ct_delivery_key = eq_delivery_key request, ct_valid_from = now, ct_valid_until = until, ct_epoch = pw_epoch w + 1,
    ct_serial = serial\<rparr>"
  let ?renew = "\<lambda>c. c\<lparr>ct_epoch := pw_epoch w + 1, ct_valid_from := now, ct_valid_until := until\<rparr>"
  let ?packet = "\<lparr>pb_authority = pw_authority w, pb_scope = ?sc, pb_certificates = certificates, pb_revoked = ?rs\<rparr>"
  have dec: "bundle_decode b = Inr ?packet" using e(12) by (simp add: bundle_encode_Inr bundle_decode_iff)
  obtain old_rs old_es where old: "roster_verify p (pw_authority w) (eq_scope request) old_es old_rs now = Inr old"
    using e(1,2,4) by (auto simp: verified_policy_def st_policy_bundle_def bundle_verify_def Let_def res_simps)
  have claims: "map claims_of certificates = map ?renew (member_claims old) @ [?new]"
    using issue_certificates_claims [OF e(10)] by (simp add: renew_claims_def)
  obtain roster certs revs where
    i: "roster_verify p (pw_authority w) ?sc certificates ?rs now = Inr roster"
      "insert_certificates 0 certificates tb_empty = Inr certs" "insert_revocations ?rs tb_empty = Inr revs"
    by (rule install_tables [OF e(11,1)]) (use e(6) in simp)
  have times: "\<forall>e \<in> set certificates. ct_valid_from (claims_of e) = now \<and> ct_valid_until (claims_of e) = until"
  proof
    fix e assume "e \<in> set certificates"
    then have "claims_of e \<in> set (map claims_of certificates)" by simp
    then show "ct_valid_from (claims_of e) = now \<and> ct_valid_until (claims_of e) = until" unfolding claims by auto
  qed
  have member: "roster_member roster m = Inr c \<longleftrightarrow> (m = eq_member request \<and> c = ?new) \<or>
      (\<exists>c0. roster_member old m = Inr c0 \<and> c = ?renew c0)" for m c
    using renewed_members [OF i(1) old claims] by simp
  have later: "roster_verify p (pw_authority w) ?sc certificates ?rs later = Inr roster" if "now \<le> later" "later < until" for later
    using roster_verify_later [OF i(1) e(9) that times] .
  have own: "verified_policy p s' later = Inr roster" if "now \<le> later" "later < until" for later
  proof -
    have "st_policy_bundle s' = Inr (Some \<lparr>pb_authority = pw_authority w, pb_scope = ?sc, pb_certificates = certificates, pb_revoked = bset_of ?rs\<rparr>)"
      by (rule install_active(3) [OF assms(2) e(11) _ refl]) (use e(1,6) in auto)
    then show ?thesis
      using later [OF that] insert_revocations_rows [OF i(3)] by (simp add: verified_policy_def bundle_verify_def roster_verify_sorted)
  qed
  have others: "\<exists>x t'. install_policy p (pw_authority w) ?sc certificates ?rs later t = (Inr x, t') \<and> verified_policy p t' later = Inr roster"
    if t: "now \<le> later" "later < until" "policy_inv p (st_db t)" "db_policy (st_db t) = None \<or> db_policy (st_db t) = Some w"
      "st_member t = eq_member request \<or> contains_member old (st_member t)" for later t
  proof -
    have "contains_member roster (st_member t)" using t(5) member by (auto simp: contains_member_iff)
    from install_ahead [OF later [OF t(1,2)] this t(3) _ i(2,3)] t(4) e(6)
    obtain x t' where "install_policy p (pw_authority w) ?sc certificates ?rs later t = (Inr x, t')"
      "\<forall>later. verified_policy p t' later = or_else StaleRequest (roster_verify p (pw_authority w) ?sc certificates ?rs later)" by auto
    then show ?thesis using later [OF t(1,2)] by simp
  qed
  show ?thesis
  proof (rule exI [of _ old], rule exI [of _ roster], rule exI [of _ ?packet], rule exI [of _ until], intro conjI)
    show "vr_scope roster = \<lparr>sc_group = sc_group (eq_scope request), sc_epoch = sc_epoch (eq_scope request) + 1\<rparr>"
      using roster_sound [OF i(1)] e(4) by simp
    show "\<forall>m c. roster_member roster m = Inr c \<longleftrightarrow>
       (m = eq_member request \<and> next_serial (member_claims old) = Some (ct_serial c) \<and>
          c = \<lparr>ct_group = sc_group (eq_scope request), ct_member = m, ct_signing_key = eq_signing_key request,
            ct_delivery_key = eq_delivery_key request, ct_valid_from = now, ct_valid_until = until,
            ct_epoch = sc_epoch (eq_scope request) + 1, ct_serial = ct_serial c\<rparr>) \<or>
       (\<exists>c0. roster_member old m = Inr c0 \<and>
          c = c0\<lparr>ct_epoch := sc_epoch (eq_scope request) + 1, ct_valid_from := now, ct_valid_until := until\<rparr>)"
      unfolding member e(4,7) by auto
    show "\<forall>later. now \<le> later \<and> later < until \<longrightarrow> bundle_verify p ?packet later = Inr roster \<and> verified_policy p s' later = Inr roster"
      using later own by (simp add: bundle_verify_def)
    show "\<forall>later t. now \<le> later \<and> later < until \<and> policy_inv p (st_db t) \<and>
         (db_policy (st_db t) = None \<or> db_policy (st_db t) = db_policy (st_db s)) \<and>
         (st_member t = eq_member request \<or> contains_member old (st_member t)) \<longrightarrow>
       (\<exists>x t'. install_policy p (pb_authority ?packet) (pb_scope ?packet) (pb_certificates ?packet) (pb_revoked ?packet) later t =
          (Inr x, t') \<and> verified_policy p t' later = Inr roster)"
      unfolding policy_bundle.select_convs e(1) using others by blast
  qed (fact e(2) dec e(8) e(5))+
qed

section \<open>Revoking the newest member\<close>

text \<open>
  C30: once the serial that follows the highest serial of the roster is revoked - the newest member was
  revoked, and its certificate left out of the bundle - the authority cannot enroll anybody: the
  applicant is given the revoked serial, the roster does not verify, and every enrollment fails and
  changes nothing.
\<close>

theorem newest_revoked_blocks_enrollment:
  assumes "verified_policy p s now = Inr roster" and "next_serial (member_claims roster) = Some n"
    and "n \<in> fst ` set (tb_rows (db_revocations (st_db s)))"
  shows "\<exists>e. enroll_member p authority request now s = (Inl e, s)"
proof -
  let ?rs = "map fst (tb_rows (db_revocations (st_db s)))"
  have no: False if "issue_certificates p authority (cs @ [c]) = Inr es" "ct_serial c = n"
    "install_policy p a sc es ?rs now s = (Inr x, s')" for a sc x s' cs c es
  proof -
    have "roster_verify p a sc es ?rs now \<noteq> Inl e" for e
      using that(3)
      by (auto simp: install_policy_def install_policy_with_transition_def res_simps)
    then obtain r where "roster_verify p a sc es ?rs now = Inr r" by (cases "roster_verify p a sc es ?rs now") auto
    then have ok: "\<forall>e \<in> set es. certificate_ok p a sc (set ?rs) now e" using roster_sound by blast
    have "c \<in> set (map claims_of es)" unfolding issue_certificates_claims [OF that(1)] by simp
    then obtain e where "e \<in> set es" "claims_of e = c" by auto
    with ok have "ct_serial c \<notin> set ?rs" by (auto simp: certificate_ok_def Let_def)
    then show False using that(2) assms(3) by simp
  qed
  have stored: "next_serial (member_claims r) = Some n \<and> pb_revoked b = ?rs"
    if "st_policy_bundle s = Inr (Some b)" "bundle_verify p b now = Inr r" for b r
    using that assms(1,2) by (auto simp: verified_policy_def st_policy_bundle_def Let_def split: option.splits)
  have refused: False if "st_policy_bundle s = Inr (Some b)" "bundle_verify p b now = Inr r" "next_serial (member_claims r) = Some k"
    "issue_certificates p authority (cs @ [c]) = Inr es" "ct_serial c = k" "install_policy p a sc es (pb_revoked b) now s = (Inr x, s')"
    for b r k cs c es a sc x s'
    using no [of cs c es a sc x s'] stored [OF that(1,2)] that(3-6) by simp
  have install: "harmless (install_policy p a sc es rs t s) s" for a sc es rs t
    by (rule harmless_op [of p "Call_install a sc es rs t"]) simp
  have "harmless (enroll_member p authority request now s) s"
    unfolding enroll_member_def Let_def
    apply (intro harmless_check harmless_if harmless_same harmless_last harmless_apfst install)
    apply (simp_all add: res_simps apfst_or_else_Inr next_serial_renewed)
    apply (rule FalseE, rule refused, assumption+, simp, assumption)
    done
  show ?thesis
  proof (cases "enroll_member p authority request now s")
    case (Pair r s')
    show ?thesis
    proof (cases r)
      case (Inl e)
      then show ?thesis using Pair \<open>harmless (enroll_member p authority request now s) s\<close> by (simp add: harmless_def)
    next
      case (Inr b)
      from Pair [unfolded Inr] show ?thesis
        by (rule enroll_steps) (use assms no in force)
    qed
  qed
qed

section \<open>A third member\<close>

definition applicant :: enrollment_request where
  "applicant = \<lparr>eq_scope = sample_scope, eq_member = MemberId 3, eq_signing_key = 3, eq_delivery_key = 3,
     eq_valid_from = 1, eq_valid_until = 901, eq_nonce = 0\<rparr>"

definition new_claims :: "nat \<Rightarrow> certificate_claims" where
  "new_claims n = (sample_claims n)\<lparr>ct_epoch := 2, ct_valid_from := 5, ct_valid_until := 604805\<rparr>"

definition new_certificate :: "nat \<Rightarrow> bytes" where
  "new_certificate n = signed_record (claims_bytes (new_claims n) 0) 0"

lemma new_claims_ok: "n = 1 \<or> n = 2 \<or> n = 3 \<Longrightarrow> claims_ok (new_claims n)"
  by (auto simp: new_claims_def sample_claims_def claims_ok_def MAX_LOGICAL_TIME_def word_le_nat_alt word_less_nat_alt)

lemma sample_claims_list: "member_claims sample_roster = [sample_claims 1, sample_claims 2]"
  by (simp add: member_claims_def sample_roster_def roster_of_def Let_def add_member_def empty_build_def sample_certificate_def
    sample_claims_def)

lemma new_certificate_issued:
  assumes "n = 1 \<or> n = 2 \<or> n = 3"
  shows "issue_certificate sample_suite (IdentitySigningKey 0) (new_claims n) = Inr (new_certificate n)"
proof -
  have l: "length (claims_bytes (new_claims n) 0) \<le> MAX_SIGNED_BYTES" using length_claims_bytes [of "new_claims n" 0] by simp
  have "sign sample_suite (IdentitySigningKey 0) \<lparr>sc_group = 1, sc_epoch = 2\<rparr> Certificate (claims_bytes (new_claims n) 0) = Inr 0"
    using l by (simp add: sign_def input_simps sample_suite_def I64_MAX_def word_le_nat_alt res_simps)
  moreover have "ct_group (new_claims n) = 1" "ct_epoch (new_claims n) = 2" by (simp_all add: new_claims_def sample_claims_def)
  ultimately show ?thesis using new_claims_ok [OF assms]
    by (auto simp: issue_certificate_def res_simps cert_body_Inr new_certificate_def identity_key_id_def sample_suite_def)
qed

lemma new_certificate_ok:
  assumes "n = 1 \<or> n = 2 \<or> n = 3" "now = 5"
  shows "certificate_ok sample_suite 1 \<lparr>sc_group = 1, sc_epoch = 2\<rparr> {} now (new_certificate n)"
  using issue_certificate_ok [OF sample_crypto_ok(3) new_certificate_issued [OF assms(1)], of "\<lparr>sc_group = 1, sc_epoch = 2\<rparr>" "{}" now] assms(2)
  by (simp add: new_claims_def sample_claims_def signing_public_key_def sample_suite_def)

lemma new_certificate_length: "new_certificate n \<noteq> []" "length (new_certificate n) \<le> 1024"
  using length_signed_record [of "claims_bytes (new_claims n) 0" 0] length_claims_bytes [of "new_claims n" 0]
    length_blob(2) [of "claims_bytes (new_claims n) 0"]
  by (auto simp: new_certificate_def signed_record_eq)

lemma sample_enrollment:
  "\<exists>b s'. enroll_member sample_suite (IdentitySigningKey 0) applicant 5 group_store = (Inr b, s')"
proof -
  let ?cs = "[new_certificate 1, new_certificate 2, new_certificate 3]" and ?sc = "\<lparr>sc_group = 1, sc_epoch = 2\<rparr> :: scope"
  let ?roster = "roster_of sample_suite 1 ?sc ?cs []"
  have active: "active_policy sample_suite group_store 5 = Inr (Some \<lparr>ps_authority = 1, ps_scope = sample_scope, ps_digest = 0\<rparr>)"
    by (rule install_active(2) [OF policy_inv_new conjunct1 [OF sample_install] _ refl]) (simp add: store_new_def db_empty_def)
  have stored: "st_policy_bundle group_store = Inr (Some \<lparr>pb_authority = 1, pb_scope = sample_scope,
      pb_certificates = [sample_certificate 1, sample_certificate 2], pb_revoked = bset_of []\<rparr>)"
    by (rule install_active(3) [OF policy_inv_new conjunct1 [OF sample_install] _ refl]) (simp add: store_new_def db_empty_def)
  have old: "roster_verify sample_suite 1 sample_scope [sample_certificate 1, sample_certificate 2] [] 5 = Inr sample_roster"
    by (rule sample_roster_verify) simp_all
  have free: "\<not> contains_member sample_roster (MemberId 3)"
    using sample_members(1) [of "MemberId 3"] by (auto simp: contains_member_iff sample_claims_def)
  have serial: "next_serial (member_claims sample_roster) = Some 3"
    by (simp add: next_serial_def sample_claims_list sample_claims_def checked_add_def max_def word_le_nat_alt)
  have issued: "issue_certificates sample_suite (IdentitySigningKey 0) [new_claims 1, new_claims 2, new_claims 3] = Inr ?cs"
    using new_certificate_issued [of 1] new_certificate_issued [of 2] new_certificate_issued [of 3] by simp
  have "no_duplicates ?cs"
    by (simp add: no_duplicates_def new_certificate_def new_claims_def sample_claims_def)
  then have new: "roster_verify sample_suite 1 ?sc ?cs [] 5 = Inr ?roster"
    unfolding roster_verify_iff roster_inputs_ok_def
    using new_certificate_ok [of 1 5] new_certificate_ok [of 2 5] new_certificate_ok [of 3 5]
    by (simp add: bset_of_def MAX_LOGICAL_TIME_def word_le_nat_alt)
  have member: "contains_member ?roster (MemberId 1)"
    using roster_sound [OF new] by (force simp: contains_member_iff new_certificate_def new_claims_def sample_claims_def)
  obtain certs where certs: "insert_certificates 0 ?cs tb_empty = Inr certs"
    using new_certificate_length by (auto simp: insert_row_def)
  have "\<exists>x s'. install_policy sample_suite 1 ?sc ?cs [] 5 group_store = (Inr x, s') \<and>
      (\<forall>later. verified_policy sample_suite s' later = or_else StaleRequest (roster_verify sample_suite 1 ?sc ?cs [] later))"
    by (rule install_ahead [OF new _ group_store_ok(2) _ certs])
      (use member sample_member sample_install in \<open>simp_all add: word_less_nat_alt\<close>)
  then obtain x s' where installed: "install_policy sample_suite 1 ?sc ?cs [] 5 group_store = (Inr x, s')" by blast
  let ?new = "\<lparr>pb_authority = 1, pb_scope = ?sc, pb_certificates = ?cs, pb_revoked = []\<rparr>"
  have "bundle_ok ?new" using new_certificate_length by (simp add: bundle_ok_def MAX_LOGICAL_TIME_def word_le_nat_alt)
  then have bytes: "bundle_encode ?new = Inr (bundle_bytes ?new)" by (simp add: bundle_encode_Inr)
  have pk: "signing_public_key sample_suite (IdentitySigningKey 0) = 1" by (simp add: signing_public_key_def sample_suite_def)
  have "renew_claims 2 5 604805 (member_claims sample_roster) @ [\<lparr>ct_group = 1, ct_member = MemberId 3, ct_signing_key = 3,
      ct_delivery_key = 3, ct_valid_from = 5, ct_valid_until = 604805, ct_epoch = 2, ct_serial = 3\<rparr>] =
      [new_claims 1, new_claims 2, new_claims 3]"
    by (simp add: renew_claims_def sample_claims_list new_claims_def sample_claims_def)
  note issued = issued [folded this]
  have "length (member_claims sample_roster) = 2" by (simp add: sample_claims_list)
  then show ?thesis
    using active stored old free serial issued installed bytes pk
    by (simp add: enroll_member_def applicant_def bundle_verify_def bset_of_def Let_def next_serial_renewed sample_scope_def
        checked_add_def GROUP_CERTIFICATE_LIFETIME_def MAX_LOGICAL_TIME_def word_le_nat_alt)
qed

theorem enrollment_admits_witness:
  "\<exists>b s' new. enroll_member sample_suite (IdentitySigningKey 0) applicant 5 group_store = (Inr b, s') \<and>
     verified_policy sample_suite s' 6 = Inr new \<and> vr_scope new = \<lparr>sc_group = 1, sc_epoch = 2\<rparr>"
proof -
  obtain b s' where e: "enroll_member sample_suite (IdentitySigningKey 0) applicant 5 group_store = (Inr b, s')"
    using sample_enrollment by blast
  from enrollment_admits [OF this group_store_ok(2)] obtain new until where
    n: "checked_add 5 GROUP_CERTIFICATE_LIFETIME = Some until"
      "vr_scope new = \<lparr>sc_group = sc_group (eq_scope applicant), sc_epoch = sc_epoch (eq_scope applicant) + 1\<rparr>"
      "\<forall>later. 5 \<le> later \<and> later < until \<longrightarrow> verified_policy sample_suite s' later = Inr new" by blast
  have "(5 :: u64) \<le> 6 \<and> 6 < until"
    using n(1) by (auto simp: checked_add_def GROUP_CERTIFICATE_LIFETIME_def word_le_nat_alt word_less_nat_alt split: if_splits)
  then have "verified_policy sample_suite s' 6 = Inr new" using n(3) by blast
  then show ?thesis using e n(2) by (auto simp: applicant_def sample_scope_def)
qed

lemma bset_of_single: "bset_of [x] = [x]"
  by (simp add: bset_of_def)

theorem newest_revoked_blocks_enrollment_witness:
  "\<exists>s. 3 \<in> fst ` set (tb_rows (db_revocations (st_db s))) \<and>
     (\<exists>e. enroll_member sample_suite (IdentitySigningKey 0) applicant 5 s = (Inl e, s))"
proof -
  let ?cs = "[sample_certificate 1, sample_certificate 2]"
  let ?roster = "roster_of sample_suite 1 sample_scope ?cs [3]" and ?s = "store_new (MemberId 1) limits_default"
  have c: "claims_of (sample_certificate n) = sample_claims n" for n by (simp add: sample_certificate_def)
  have ok: "roster_inputs_ok sample_suite 1 sample_scope ?cs [] 5"
    using sample_roster_verify [of 5 ?cs] by (simp add: roster_verify_iff)
  moreover have "certificate_ok sample_suite 1 sample_scope {3} 5 (sample_certificate n)"
    if "certificate_ok sample_suite 1 sample_scope {} 5 (sample_certificate n)" "n = 1 \<or> n = 2" for n
    using that by (auto simp: certificate_ok_def Let_def c sample_claims_def)
  ultimately have "roster_inputs_ok sample_suite 1 sample_scope ?cs [3] 5" by (simp add: roster_inputs_ok_def)
  then have r: "roster_verify sample_suite 1 sample_scope ?cs [3] 5 = Inr ?roster"
    by (simp add: roster_verify_iff bset_of_def)
  have member: "contains_member ?roster (MemberId 1)"
    using roster_sound [OF r] by (force simp: contains_member_iff c sample_claims_def)
  have claims: "member_claims ?roster = [sample_claims 1, sample_claims 2]"
    by (simp add: member_claims_def roster_of_def Let_def add_member_def empty_build_def sample_certificate_def sample_claims_def)
  obtain certs where certs: "insert_certificates 0 ?cs tb_empty = Inr certs" using sample_certificates_stored(1) by blast
  have "i64_positive 3" by (simp add: i64_positive_def)
  then obtain revs where revs: "insert_revocations [3] tb_empty = Inr revs" by (simp add: insert_row_def)
  obtain x s where i: "install_policy sample_suite 1 sample_scope ?cs [3] 5 ?s = (Inr x, s)"
      "\<forall>later. verified_policy sample_suite s later = or_else StaleRequest (roster_verify sample_suite 1 sample_scope ?cs [3] later)"
  proof -
    have "contains_member ?roster (st_member ?s)" "db_policy (st_db ?s) = None"
      using member by (simp_all add: store_new_def db_empty_def)
    from install_ahead [OF r this(1) policy_inv_new _ certs revs] this(2) show thesis using that by fastforce
  qed
  have "st_policy_bundle s = Inr (Some \<lparr>pb_authority = 1, pb_scope = sample_scope, pb_certificates = ?cs, pb_revoked = bset_of [3]\<rparr>)"
    by (rule install_active(3) [OF policy_inv_new i(1) _ refl]) (simp add: store_new_def db_empty_def)
  then have n: "3 \<in> fst ` set (tb_rows (db_revocations (st_db s)))"
  proof -
    assume b: "st_policy_bundle s = Inr (Some \<lparr>pb_authority = 1, pb_scope = sample_scope, pb_certificates = ?cs, pb_revoked = bset_of [3]\<rparr>)"
    then obtain w where "db_policy (st_db s) = Some w" by (auto simp: st_policy_bundle_def Let_def split: option.splits)
    then have "map fst (tb_rows (db_revocations (st_db s))) = bset_of [3]" using b by (simp add: st_policy_bundle_def Let_def)
    then show ?thesis by (metis list.set_intros(1) list.set_map bset_of_single)
  qed
  have "verified_policy sample_suite s 5 = Inr ?roster" "next_serial (member_claims ?roster) = Some 3"
    using i(2) r claims by (simp_all add: next_serial_def sample_claims_def checked_add_def max_def word_le_nat_alt)
  from newest_revoked_blocks_enrollment [OF this n] n show ?thesis by blast
qed

end
