(* ===== verification/Mesh_C_Api.thy ===== *)
theory Mesh_C_Api
  imports Mesh_Native_Text Mesh_Native_Group Mesh_Registry
begin

text \<open>
  The C entry points of \<open>crates/mesh-ffi-c/src/lib.rs\<close>. A pointer to input is null or the bytes that
  can be read from it, an out pointer is its address, and a result is the status code with what was
  written through the out pointer, if anything. \<open>Box::into_raw\<close> and \<open>Box::from_raw\<close> act on a
      map from
  addresses to blocks; the allocator chooses the addresses and is an argument.
\<close>

section \<open>The state behind the entry points\<close>

type_synonym i32 = "32 word"
type_synonym usize = nat
type_synonym blocks = "usize \<Rightarrow> bytes option"

text \<open>The primitives, the random source, the texts of the schemas, the build and the allocator.\<close>

record ('r, 'k, 'q, 'o, 'h, 't) engine =
  en_suite :: suite
  en_kem :: "('r, 'k, 'q, 'o) kem"
  en_noise :: "('h, 't) noise"
  en_fill :: "'r source"
  en_disk :: "store \<Rightarrow> bool"
  en_texts :: schema_texts
  en_cipher :: "bytes \<Rightarrow> arr32 \<Rightarrow> cipher"
  en_version :: bytes
  en_build :: bytes
  en_place :: "blocks \<Rightarrow> bytes \<Rightarrow> usize"

text \<open>The tables behind their locks, the files, the random source and the heap.\<close>

record ('r, 'h, 't) world =
  wd_runtimes :: registry
  wd_stores :: store_registry
  wd_sessions :: "('h, 't) session_registry"
  wd_gates :: relay_gate_registry
  wd_files :: "bytes \<Rightarrow> store_file"
  wd_rng :: 'r
  wd_blocks :: blocks

section \<open>Pointers, buffers and status codes\<close>

datatype in_ptr = Null_ptr | Data_ptr bytes

definition is_null :: "in_ptr \<Rightarrow> bool" where
  "is_null p \<longleftrightarrow> p = Null_ptr"

text \<open>\<open>std::slice::from_raw_parts\<close>; the caller guarantees that the bytes are there.\<close>

definition raw_parts :: "in_ptr \<Rightarrow> usize \<Rightarrow> bytes" where
  "raw_parts p n = (case p of Null_ptr \<Rightarrow> [] | Data_ptr bs \<Rightarrow> take n bs)"

definition aligned_out :: "usize \<Rightarrow> bool" where
  "aligned_out out \<longleftrightarrow> out \<noteq> 0 \<and> out mod 8 = 0"

definition writable_out :: "usize \<Rightarrow> bool" where
  "writable_out out \<longleftrightarrow> out \<noteq> 0"

record mesh_buffer =
  mb_ptr :: usize
  mb_len :: usize

definition buffer_default :: mesh_buffer where
  "buffer_default = \<lparr>mb_ptr = 0, mb_len = 0\<rparr>"

fun error_code :: "api_error \<Rightarrow> i32" where
  "error_code InvalidArgument = 1"
| "error_code IncompatibleVersion = 2"
| "error_code InvalidHandle = 3"
| "error_code ResourcePressure_api = 4"
| "error_code InternalInvariant = 5"
| "error_code StaleRequest = 6"

text \<open>\<open>status\<close>: the code, and what the success closure writes through the out pointer.\<close>

definition status :: "api_error + 'a \<Rightarrow> i32 \<times> 'a option" where
  "status r = (case r of Inr v \<Rightarrow> (0, Some v) | Inl e \<Rightarrow> (error_code e, None))"

text \<open>
  The frame of the entry points with an out pointer: the check of that pointer, the default
  written through it, the check of the other arguments, and the call.
\<close>

definition with_out ::
    "bool \<Rightarrow> 'v \<Rightarrow> bool \<Rightarrow> ('w \<Rightarrow>
        (api_error + 'v) \<times> 'w) \<Rightarrow> 'w \<Rightarrow> (i32 \<times> 'v option) \<times> 'w" where
  "with_out out_ok initial refused run w =
     (if \<not> out_ok then ((error_code InvalidArgument, None), w)
      else if refused then ((error_code InvalidArgument, Some initial), w)
      else
        case run w of (r, w) \<Rightarrow>
          (case status r of
             (code, Some v) \<Rightarrow> ((code, Some v), w)
           | (code, None) \<Rightarrow> ((code, Some initial), w)))"

text \<open>The frame of those without one.\<close>

definition without_out :: "bool \<Rightarrow> ('w \<Rightarrow> (api_error + unit) \<times> 'w) \<Rightarrow> 'w
    \<Rightarrow> i32 \<times> 'w" where
  "without_out refused run w =
     (if refused then (error_code InvalidArgument, w)
      else case run w of (r, w) \<Rightarrow> (fst (status r), w))"

text \<open>\<open>Box::into_raw\<close> of a boxed slice, which allocates nothing for the empty one, and its
    release.\<close>

definition box_raw :: "('r, 'k, 'q, 'o, 'h, 't) engine \<Rightarrow> bytes \<Rightarrow>
    ('r, 'h, 't) world \<Rightarrow> mesh_buffer \<times> ('r, 'h, 't) world" where
  "box_raw en bs w =
     (let a = en_place en (wd_blocks w) bs
      in (\<lparr>mb_ptr = a, mb_len = length bs\<rparr>, if bs = [] then w else w\<lparr>wd_blocks :=
          (wd_blocks w)(a \<mapsto> bs)\<rparr>))"

definition mesh_buffer_release :: "mesh_buffer \<Rightarrow> ('r, 'h, 't) world \<Rightarrow> ('r, 'h, 't) world" where
  "mesh_buffer_release buffer w =
     (if mb_ptr buffer = 0 then w
      else if mb_len buffer = 0 then w
      else w\<lparr>wd_blocks := (wd_blocks w)(mb_ptr buffer := None)\<rparr>)"

definition boxed ::
    "('r, 'k, 'q, 'o, 'h, 't) engine \<Rightarrow> (('r, 'h, 't) world \<Rightarrow> (api_error + bytes) \<times>
        ('r, 'h, 't) world)
     \<Rightarrow> ('r, 'h, 't) world \<Rightarrow> (api_error + mesh_buffer) \<times> ('r, 'h, 't) world" where
  "boxed en run w = bind_st (run w) (\<lambda>bs w. case box_raw en bs w of (b, w) \<Rightarrow> (Inr b, w))"

definition boxed_unless_empty ::
    "('r, 'k, 'q, 'o, 'h, 't) engine \<Rightarrow> (('r, 'h, 't) world \<Rightarrow> (api_error + bytes) \<times>
        ('r, 'h, 't) world)
     \<Rightarrow> ('r, 'h, 't) world \<Rightarrow> (api_error + mesh_buffer) \<times> ('r, 'h, 't) world" where
  "boxed_unless_empty en run w =
     bind_st (run w) (\<lambda>bs w. if bs = [] then (Inr buffer_default, w) else case box_raw en bs w of
         (b, w) \<Rightarrow> (Inr b, w))"

text \<open>A function on one of the tables as a function on the world.\<close>

definition pure_call :: "api_error + 'a \<Rightarrow> ('r, 'h, 't) world \<Rightarrow> (api_error + 'a) \<times>
    ('r, 'h, 't) world" where
  "pure_call r w = (r, w)"

definition on_runtimes :: "(registry \<Rightarrow> (api_error + 'a) \<times> registry) \<Rightarrow>
    ('r, 'h, 't) world \<Rightarrow> (api_error + 'a) \<times> ('r, 'h, 't) world" where
  "on_runtimes f w = (case f (wd_runtimes w) of (r, g) \<Rightarrow> (r, w\<lparr>wd_runtimes := g\<rparr>))"

definition on_stores ::
    "(store_registry \<Rightarrow> (api_error + 'a) \<times> store_registry) \<Rightarrow>
        ('r, 'h, 't) world \<Rightarrow> (api_error + 'a) \<times> ('r, 'h, 't) world" where
  "on_stores f w = (case f (wd_stores w) of (r, g) \<Rightarrow> (r, w\<lparr>wd_stores := g\<rparr>))"

definition read_stores :: "(store_registry \<Rightarrow> api_error + 'a) \<Rightarrow>
    ('r, 'h, 't) world \<Rightarrow> (api_error + 'a) \<times> ('r, 'h, 't) world" where
  "read_stores f w = (f (wd_stores w), w)"

definition on_stores_random ::
    "(store_registry \<times> 'r \<Rightarrow> (api_error + 'a) \<times> store_registry \<times> 'r) \<Rightarrow>
        ('r, 'h, 't) world
     \<Rightarrow> (api_error + 'a) \<times> ('r, 'h, 't) world" where
  "on_stores_random f w = (case f (wd_stores w, wd_rng w) of (r, g, rng) \<Rightarrow>
      (r, w\<lparr>wd_stores := g, wd_rng := rng\<rparr>))"

definition on_random :: "('r \<Rightarrow> (api_error + 'a) \<times> 'r) \<Rightarrow>
    ('r, 'h, 't) world \<Rightarrow> (api_error + 'a) \<times> ('r, 'h, 't) world" where
  "on_random f w = (case f (wd_rng w) of (r, rng) \<Rightarrow> (r, w\<lparr>wd_rng := rng\<rparr>))"

definition on_sessions ::
    "(store_registry \<Rightarrow> ('h, 't) session_registry \<Rightarrow> (api_error + 'a) \<times>
        ('h, 't) session_registry) \<Rightarrow> ('r, 'h, 't) world
     \<Rightarrow> (api_error + 'a) \<times> ('r, 'h, 't) world" where
  "on_sessions f w = (case f (wd_stores w) (wd_sessions w) of (r, g) \<Rightarrow> (r, w\<lparr>wd_sessions := g\<rparr>))"

definition on_sessions_random ::
    "(store_registry \<Rightarrow> ('h, 't) session_registry \<times> 'r \<Rightarrow> (api_error + 'a) \<times>
        ('h, 't) session_registry \<times> 'r)
     \<Rightarrow> ('r, 'h, 't) world \<Rightarrow> (api_error + 'a) \<times> ('r, 'h, 't) world" where
  "on_sessions_random f w =
     (case f (wd_stores w) (wd_sessions w, wd_rng w) of (r, g, rng) \<Rightarrow>
         (r, w\<lparr>wd_sessions := g, wd_rng := rng\<rparr>))"

definition read_sessions ::
    "(('h, 't) session_registry \<Rightarrow> api_error + 'a) \<Rightarrow> ('r, 'h, 't) world \<Rightarrow>
        (api_error + 'a) \<times> ('r, 'h, 't) world" where
  "read_sessions f w = (f (wd_sessions w), w)"

definition on_gates ::
    "(relay_gate_registry \<Rightarrow> (api_error + 'a) \<times> relay_gate_registry) \<Rightarrow> ('r, 'h, 't) world
     \<Rightarrow> (api_error + 'a) \<times> ('r, 'h, 't) world" where
  "on_gates f w = (case f (wd_gates w) of (r, g) \<Rightarrow> (r, w\<lparr>wd_gates := g\<rparr>))"

definition on_file ::
    "bytes \<Rightarrow> (store_file \<Rightarrow> (api_error + 'a) \<times> store_file) \<Rightarrow>
        ('r, 'h, 't) world \<Rightarrow> (api_error + 'a) \<times> ('r, 'h, 't) world" where
  "on_file path f w = (case f (wd_files w path) of (r, file) \<Rightarrow> (r, w\<lparr>wd_files :=
      (wd_files w)(path := file)\<rparr>))"

definition on_file_stores ::
    "bytes \<Rightarrow> (store_file \<times> store_registry \<Rightarrow>
        (api_error + 'a) \<times> store_file \<times> store_registry) \<Rightarrow> ('r, 'h, 't) world
     \<Rightarrow> (api_error + 'a) \<times> ('r, 'h, 't) world" where
  "on_file_stores path f w =
     (case f (wd_files w path, wd_stores w) of
        (r, file, g) \<Rightarrow> (r, w\<lparr>wd_files := (wd_files w)(path := file), wd_stores := g\<rparr>))"

section \<open>Runtimes and frames\<close>

definition mesh_runtime_create ::
    "('r, 'k, 'q, 'o, 'h, 't) engine \<Rightarrow> u32 \<Rightarrow> usize \<Rightarrow> ('r, 'h, 't) world
     \<Rightarrow> (i32 \<times> u64 option) \<times> ('r, 'h, 't) world" where
  "mesh_runtime_create en version out w =
     with_out (aligned_out out) 0
       (False)
       (on_runtimes (create version)) w"

definition mesh_runtime_request ::
    "('r, 'k, 'q, 'o, 'h, 't) engine \<Rightarrow> u64 \<Rightarrow> in_ptr \<Rightarrow> usize \<Rightarrow> usize
        \<Rightarrow> ('r, 'h, 't) world
     \<Rightarrow> (i32 \<times> mesh_buffer option) \<times> ('r, 'h, 't) world" where
  "mesh_runtime_request en handle input len out w =
     with_out (aligned_out out) buffer_default
       (is_null input \<or> len = 0 \<or> len > MAX_INPUT)
       (boxed en (on_runtimes (request (en_version en) (en_build en) handle (raw_parts input len)))) w"

definition mesh_runtime_release ::
    "('r, 'k, 'q, 'o, 'h, 't) engine \<Rightarrow> u64 \<Rightarrow> ('r, 'h, 't) world \<Rightarrow> i32 \<times>
        ('r, 'h, 't) world" where
  "mesh_runtime_release en handle w =
     without_out
       (False)
       (on_runtimes (release handle)) w"

definition mesh_abi_version :: u32 where
  "mesh_abi_version = ABI_VERSION"

definition mesh_link_frame_encode ::
    "('r, 'k, 'q, 'o, 'h, 't) engine \<Rightarrow> in_ptr \<Rightarrow> usize \<Rightarrow> usize \<Rightarrow>
        ('r, 'h, 't) world
     \<Rightarrow> (i32 \<times> mesh_buffer option) \<times> ('r, 'h, 't) world" where
  "mesh_link_frame_encode en input input_len out w =
     with_out (aligned_out out) buffer_default
       (is_null input \<or> input_len = 0 \<or> input_len > MAX_FRAME_BYTES)
       (boxed en (pure_call (link_frame_encode (raw_parts input input_len)))) w"

definition mesh_link_frame_decode ::
    "('r, 'k, 'q, 'o, 'h, 't) engine \<Rightarrow> in_ptr \<Rightarrow> usize \<Rightarrow> usize \<Rightarrow>
        ('r, 'h, 't) world
     \<Rightarrow> (i32 \<times> mesh_buffer option) \<times> ('r, 'h, 't) world" where
  "mesh_link_frame_decode en input input_len out w =
     with_out (aligned_out out) buffer_default
       (is_null input \<or> \<not> (3 \<le> input_len \<and> input_len \<le> MAX_FRAME_BYTES + 3))
       (boxed en (pure_call (link_frame_decode (raw_parts input input_len)))) w"

definition mesh_routed_record_encode ::
    "('r, 'k, 'q, 'o, 'h, 't) engine \<Rightarrow> in_ptr \<Rightarrow> usize \<Rightarrow> in_ptr \<Rightarrow> usize
        \<Rightarrow> usize \<Rightarrow> ('r, 'h, 't) world
     \<Rightarrow> (i32 \<times> mesh_buffer option) \<times> ('r, 'h, 't) world" where
  "mesh_routed_record_encode en frame frame_len rec rec_len out w =
     with_out (aligned_out out) buffer_default
       (is_null frame \<or> is_null rec \<or> frame_len \<noteq> RELAY_FRAME_BYTES \<or> rec_len = 0)
       (boxed en (pure_call (routed_record_encode (raw_parts frame frame_len) (raw_parts rec rec_len)))) w"

definition mesh_routed_record_decode ::
    "('r, 'k, 'q, 'o, 'h, 't) engine \<Rightarrow> in_ptr \<Rightarrow> usize \<Rightarrow> usize \<Rightarrow>
        ('r, 'h, 't) world
     \<Rightarrow> (i32 \<times> mesh_buffer option) \<times> ('r, 'h, 't) world" where
  "mesh_routed_record_decode en input input_len out w =
     with_out (aligned_out out) buffer_default
       (is_null input \<or> input_len = 0 \<or> input_len > MAX_ROUTED_RECORD)
       (boxed en (pure_call (routed_record_decode (raw_parts input input_len)))) w"

section \<open>Relay gates\<close>

definition mesh_relay_gate_open ::
    "('r, 'k, 'q, 'o, 'h, 't) engine \<Rightarrow> in_ptr \<Rightarrow> usize \<Rightarrow> usize \<Rightarrow>
        ('r, 'h, 't) world
     \<Rightarrow> (i32 \<times> u64 option) \<times> ('r, 'h, 't) world" where
  "mesh_relay_gate_open en member member_len out w =
     with_out (aligned_out out) 0
       (is_null member \<or> member_len \<noteq> 32)
       (on_gates (relay_gate_open (raw_parts member member_len))) w"

definition mesh_relay_gate_accept ::
    "('r, 'k, 'q, 'o, 'h, 't) engine \<Rightarrow> u64 \<Rightarrow> in_ptr \<Rightarrow> usize \<Rightarrow> in_ptr
        \<Rightarrow> usize \<Rightarrow> u64 \<Rightarrow> usize \<Rightarrow> ('r, 'h, 't) world
     \<Rightarrow> (i32 \<times> mesh_buffer option) \<times> ('r, 'h, 't) world" where
  "mesh_relay_gate_accept en handle frame frame_len via via_len now out w =
     with_out (aligned_out out) buffer_default
       (is_null frame \<or> is_null via \<or> frame_len \<noteq> RELAY_FRAME_BYTES \<or> via_len \<noteq> 32 \<or> now = 0)
       (boxed en (on_gates (relay_gate_accept handle (raw_parts frame frame_len) (raw_parts via via_len) now))) w"

definition mesh_relay_gate_release ::
    "('r, 'k, 'q, 'o, 'h, 't) engine \<Rightarrow> u64 \<Rightarrow> ('r, 'h, 't) world \<Rightarrow> i32 \<times>
        ('r, 'h, 't) world" where
  "mesh_relay_gate_release en handle w =
     without_out
       (False)
       (on_gates (relay_gate_release handle)) w"

section \<open>Stores\<close>

text \<open>\<open>std::str::from_utf8\<close> of the path.\<close>

definition path_of :: "bytes \<Rightarrow> api_error + bytes" where
  "path_of path = (if utf8_valid path then Inr path else Inl InvalidArgument)"

definition mesh_secure_store_probe ::
    "('r, 'k, 'q, 'o, 'h, 't) engine \<Rightarrow> in_ptr \<Rightarrow> usize \<Rightarrow> in_ptr \<Rightarrow> usize
        \<Rightarrow> in_ptr \<Rightarrow> usize \<Rightarrow> ('r, 'h, 't) world \<Rightarrow> i32 \<times>
        ('r, 'h, 't) world" where
  "mesh_secure_store_probe en key key_len member member_len path path_len w =
     without_out
       (is_null key \<or> is_null member \<or> is_null path \<or> key_len \<noteq> 32 \<or> member_len \<noteq> 32)
       (\<lambda>w. if \<not> (1 \<le> path_len \<and> path_len \<le> 1024) then (Inl InvalidArgument, w)
             else bind_st (path_of (raw_parts path path_len), w) (\<lambda>path.
               on_file path (secure_store_probe (hash (en_suite en)) (en_texts en) (en_cipher en path)
                 (raw_parts key key_len) (raw_parts member member_len) path))) w"

definition mesh_secure_store_open ::
    "('r, 'k, 'q, 'o, 'h, 't) engine \<Rightarrow> in_ptr \<Rightarrow> usize \<Rightarrow> in_ptr \<Rightarrow> usize
        \<Rightarrow> in_ptr \<Rightarrow> usize \<Rightarrow> usize \<Rightarrow> ('r, 'h, 't) world
     \<Rightarrow> (i32 \<times> u64 option) \<times> ('r, 'h, 't) world" where
  "mesh_secure_store_open en key key_len member member_len path path_len out w =
     with_out (aligned_out out) 0
       (is_null key \<or> is_null member \<or> is_null path \<or> key_len \<noteq> 32 \<or> member_len \<noteq> 32
           \<or> \<not> (1 \<le> path_len \<and> path_len \<le> 1024))
       (\<lambda>w. bind_st (path_of (raw_parts path path_len), w) (\<lambda>path.
               on_file_stores path (secure_store_open (hash (en_suite en)) (en_texts en) (en_cipher en path)
                 (raw_parts key key_len) (raw_parts member member_len) path))) w"

definition mesh_secure_store_release ::
    "('r, 'k, 'q, 'o, 'h, 't) engine \<Rightarrow> u64 \<Rightarrow> ('r, 'h, 't) world \<Rightarrow> i32 \<times>
        ('r, 'h, 't) world" where
  "mesh_secure_store_release en handle w =
     without_out
       (False)
       (on_stores (secure_store_release handle)) w"

definition mesh_secure_store_policy_epoch ::
    "('r, 'k, 'q, 'o, 'h, 't) engine \<Rightarrow> u64 \<Rightarrow> u64 \<Rightarrow> usize \<Rightarrow> ('r, 'h, 't) world
     \<Rightarrow> (i32 \<times> u64 option) \<times> ('r, 'h, 't) world" where
  "mesh_secure_store_policy_epoch en handle now out w =
     with_out (aligned_out out) 0
       (False)
       (read_stores (secure_store_policy_epoch (en_suite en) handle now)) w"

definition mesh_secure_store_discovery_tag ::
    "('r, 'k, 'q, 'o, 'h, 't) engine \<Rightarrow> u64 \<Rightarrow> u64 \<Rightarrow> usize \<Rightarrow> ('r, 'h, 't) world
     \<Rightarrow> (i32 \<times> mesh_buffer option) \<times> ('r, 'h, 't) world" where
  "mesh_secure_store_discovery_tag en handle now out w =
     with_out (aligned_out out) buffer_default
       (False)
       (boxed en (read_stores (secure_store_discovery_tag (en_suite en) handle now))) w"

section \<open>Sessions\<close>

definition mesh_secure_session_start ::
    "('r, 'k, 'q, 'o, 'h, 't) engine \<Rightarrow> u64 \<Rightarrow> in_ptr \<Rightarrow> usize \<Rightarrow> in_ptr
        \<Rightarrow> usize \<Rightarrow> u8 \<Rightarrow> u64 \<Rightarrow> usize \<Rightarrow> ('r, 'h, 't) world
     \<Rightarrow> (i32 \<times> u64 option) \<times> ('r, 'h, 't) world" where
  "mesh_secure_session_start en store_handle session_seed session_seed_len member member_len role now out w =
     with_out (aligned_out out) 0
       (is_null session_seed \<or> is_null member \<or> session_seed_len \<noteq> 32 \<or> member_len \<noteq> 32 \<or>
           now = 0)
       (on_sessions_random (secure_session_start (en_suite en) (en_noise en) (en_fill en) store_handle
           (raw_parts session_seed session_seed_len) (raw_parts member member_len) role now)) w"

definition mesh_secure_session_write ::
    "('r, 'k, 'q, 'o, 'h, 't) engine \<Rightarrow> u64 \<Rightarrow> u64 \<Rightarrow> usize \<Rightarrow> ('r, 'h, 't) world
     \<Rightarrow> (i32 \<times> mesh_buffer option) \<times> ('r, 'h, 't) world" where
  "mesh_secure_session_write en handle now out w =
     with_out (aligned_out out) buffer_default
       (False)
       (boxed en (on_sessions (\<lambda>_. secure_session_write (en_noise en) handle now))) w"

definition mesh_secure_session_read ::
    "('r, 'k, 'q, 'o, 'h, 't) engine \<Rightarrow> u64 \<Rightarrow> in_ptr \<Rightarrow> usize \<Rightarrow> u64
        \<Rightarrow> ('r, 'h, 't) world \<Rightarrow> i32 \<times> ('r, 'h, 't) world" where
  "mesh_secure_session_read en handle input input_len now w =
     without_out
       (is_null input \<or> input_len = 0 \<or> input_len > 96 \<or> now = 0)
       (on_sessions (\<lambda>_. secure_session_read (en_noise en) handle (raw_parts input input_len) now)) w"

definition mesh_secure_session_finish ::
    "('r, 'k, 'q, 'o, 'h, 't) engine \<Rightarrow> u64 \<Rightarrow> u64 \<Rightarrow>
        ('r, 'h, 't) world \<Rightarrow> i32 \<times> ('r, 'h, 't) world" where
  "mesh_secure_session_finish en handle now w =
     without_out
       (False)
       (on_sessions (secure_session_finish (en_suite en) (en_noise en) handle now)) w"

definition mesh_secure_session_authenticate ::
    "('r, 'k, 'q, 'o, 'h, 't) engine \<Rightarrow> u64 \<Rightarrow> in_ptr \<Rightarrow> usize \<Rightarrow> u64
        \<Rightarrow> usize \<Rightarrow> ('r, 'h, 't) world
     \<Rightarrow> (i32 \<times> mesh_buffer option) \<times> ('r, 'h, 't) world" where
  "mesh_secure_session_authenticate en handle identity_seed identity_seed_len now out w =
     with_out (aligned_out out) buffer_default
       (is_null identity_seed \<or> identity_seed_len \<noteq> 32 \<or> now = 0)
       (boxed en (on_sessions (secure_session_authenticate (en_suite en) (en_noise en) handle
           (raw_parts identity_seed identity_seed_len) now))) w"

definition mesh_secure_session_send ::
    "('r, 'k, 'q, 'o, 'h, 't) engine \<Rightarrow> u64 \<Rightarrow> in_ptr \<Rightarrow> usize \<Rightarrow> u64
        \<Rightarrow> usize \<Rightarrow> ('r, 'h, 't) world
     \<Rightarrow> (i32 \<times> mesh_buffer option) \<times> ('r, 'h, 't) world" where
  "mesh_secure_session_send en handle input input_len now out w =
     with_out (aligned_out out) buffer_default
       (is_null input \<or> input_len = 0 \<or> input_len > MAX_PAYLOAD \<or> now = 0)
       (boxed en (on_sessions (secure_session_send (en_suite en) (en_noise en) handle (raw_parts input input_len) now))) w"

definition mesh_secure_session_receive ::
    "('r, 'k, 'q, 'o, 'h, 't) engine \<Rightarrow> u64 \<Rightarrow> in_ptr \<Rightarrow> usize \<Rightarrow> u64
        \<Rightarrow> usize \<Rightarrow> ('r, 'h, 't) world
     \<Rightarrow> (i32 \<times> mesh_buffer option) \<times> ('r, 'h, 't) world" where
  "mesh_secure_session_receive en handle input input_len now out w =
     with_out (aligned_out out) buffer_default
       (is_null input \<or> \<not> (58 \<le> input_len \<and> input_len \<le> MAX_FRAME) \<or> now = 0)
       (boxed_unless_empty en (on_sessions (secure_session_receive (en_suite en) (en_noise en) handle
           (raw_parts input input_len) now))) w"

definition mesh_secure_session_authenticated ::
    "('r, 'k, 'q, 'o, 'h, 't) engine \<Rightarrow> u64 \<Rightarrow> usize \<Rightarrow> ('r, 'h, 't) world
     \<Rightarrow> (i32 \<times> u8 option) \<times> ('r, 'h, 't) world" where
  "mesh_secure_session_authenticated en handle out w =
     with_out (writable_out out) 0
       (False)
       (read_sessions (\<lambda>g. bindr (secure_session_authenticated handle g) (\<lambda>b. Inr (if b then 1 else 0)))) w"

definition mesh_secure_session_peer ::
    "('r, 'k, 'q, 'o, 'h, 't) engine \<Rightarrow> u64 \<Rightarrow> usize \<Rightarrow> ('r, 'h, 't) world
     \<Rightarrow> (i32 \<times> arr32 option) \<times> ('r, 'h, 't) world" where
  "mesh_secure_session_peer en handle out w =
     with_out (writable_out out) 0
       (False)
       (read_sessions (secure_session_peer handle)) w"

definition mesh_secure_session_release ::
    "('r, 'k, 'q, 'o, 'h, 't) engine \<Rightarrow> u64 \<Rightarrow> ('r, 'h, 't) world \<Rightarrow> i32 \<times>
        ('r, 'h, 't) world" where
  "mesh_secure_session_release en handle w =
     without_out
       (False)
       (on_sessions (\<lambda>_. secure_session_release handle)) w"

section \<open>Groups and policies\<close>

definition mesh_secure_store_create_group ::
    "('r, 'k, 'q, 'o, 'h, 't) engine \<Rightarrow> u64 \<Rightarrow> in_ptr \<Rightarrow> usize \<Rightarrow> in_ptr
        \<Rightarrow> usize \<Rightarrow> in_ptr \<Rightarrow> usize \<Rightarrow> u64 \<Rightarrow> usize
        \<Rightarrow> ('r, 'h, 't) world
     \<Rightarrow> (i32 \<times> u64 option) \<times> ('r, 'h, 't) world" where
  "mesh_secure_store_create_group en handle identity_seed identity_seed_len delivery_seed delivery_seed_len member
      member_len now out w =
     with_out (aligned_out out) 0
       (is_null identity_seed \<or> is_null delivery_seed \<or> is_null member \<or> identity_seed_len \<noteq> 32
           \<or> delivery_seed_len \<noteq> 32 \<or> member_len \<noteq> 32)
       (on_stores_random (secure_store_create_group (en_suite en) (en_kem en) (en_fill en) handle
           (raw_parts identity_seed identity_seed_len) (raw_parts delivery_seed delivery_seed_len)
           (raw_parts member member_len) now)) w"

definition mesh_secure_store_issue_enrollment ::
    "('r, 'k, 'q, 'o, 'h, 't) engine \<Rightarrow> u64 \<Rightarrow> in_ptr \<Rightarrow> usize \<Rightarrow> in_ptr
        \<Rightarrow> usize \<Rightarrow> u64 \<Rightarrow> usize \<Rightarrow> ('r, 'h, 't) world
     \<Rightarrow> (i32 \<times> mesh_buffer option) \<times> ('r, 'h, 't) world" where
  "mesh_secure_store_issue_enrollment en handle identity_seed identity_seed_len req req_len now out w =
     with_out (aligned_out out) buffer_default
       (is_null identity_seed \<or> is_null req \<or> identity_seed_len \<noteq> 32 \<or> req_len = 0 \<or> req_len > 512)
       (boxed en (on_stores (secure_store_issue_enrollment (en_suite en) handle
           (raw_parts identity_seed identity_seed_len) (raw_parts req req_len) now))) w"

definition mesh_secure_store_prepare_authority_handoff ::
    "('r, 'k, 'q, 'o, 'h, 't) engine \<Rightarrow> u64 \<Rightarrow> in_ptr \<Rightarrow> usize \<Rightarrow> in_ptr
        \<Rightarrow> usize \<Rightarrow> u64 \<Rightarrow> u64 \<Rightarrow> usize \<Rightarrow> ('r, 'h, 't) world
     \<Rightarrow> (i32 \<times> mesh_buffer option) \<times> ('r, 'h, 't) world" where
  "mesh_secure_store_prepare_authority_handoff en handle identity_seed identity_seed_len successor successor_len
      valid_until now out w =
     with_out (aligned_out out) buffer_default
       (is_null identity_seed \<or> is_null successor \<or> identity_seed_len \<noteq> 32 \<or> successor_len \<noteq>
           32 \<or> valid_until \<le> now \<or> now = 0)
       (boxed en (read_stores (secure_store_prepare_authority_handoff (en_suite en) handle
           (raw_parts identity_seed identity_seed_len) (raw_parts successor successor_len) valid_until now))) w"

definition mesh_secure_store_can_issue_enrollment ::
    "('r, 'k, 'q, 'o, 'h, 't) engine \<Rightarrow> u64 \<Rightarrow> in_ptr \<Rightarrow> usize \<Rightarrow> u64
        \<Rightarrow> usize \<Rightarrow> ('r, 'h, 't) world
     \<Rightarrow> (i32 \<times> u8 option) \<times> ('r, 'h, 't) world" where
  "mesh_secure_store_can_issue_enrollment en handle identity_seed identity_seed_len now out w =
     with_out (writable_out out \<and> \<not> (is_null identity_seed \<or> identity_seed_len \<noteq> 32)) 0
       (False)
       (read_stores (\<lambda>g. bindr (secure_store_can_issue_enrollment (en_suite en) handle
           (raw_parts identity_seed identity_seed_len) now g) (\<lambda>b. Inr (if b then 1 else 0)))) w"

definition mesh_secure_store_sign_cloud_relay ::
    "('r, 'k, 'q, 'o, 'h, 't) engine \<Rightarrow> u64 \<Rightarrow> in_ptr \<Rightarrow> usize \<Rightarrow> in_ptr
        \<Rightarrow> usize \<Rightarrow> u64 \<Rightarrow> usize \<Rightarrow> ('r, 'h, 't) world
     \<Rightarrow> (i32 \<times> mesh_buffer option) \<times> ('r, 'h, 't) world" where
  "mesh_secure_store_sign_cloud_relay en handle identity_seed identity_seed_len canonical canonical_len now out w =
     with_out (aligned_out out) buffer_default
       (is_null identity_seed \<or> is_null canonical \<or> identity_seed_len \<noteq> 32 \<or> canonical_len = 0 \<or>
           canonical_len > MAX_SIGNED_BYTES \<or> now = 0)
       (boxed en (read_stores (secure_store_sign_cloud_relay (en_suite en) handle
           (raw_parts identity_seed identity_seed_len) (raw_parts canonical canonical_len) now))) w"

definition mesh_enrollment_request_member ::
    "('r, 'k, 'q, 'o, 'h, 't) engine \<Rightarrow> in_ptr \<Rightarrow> usize \<Rightarrow> u64 \<Rightarrow> usize
        \<Rightarrow> ('r, 'h, 't) world
     \<Rightarrow> (i32 \<times> arr32 option) \<times> ('r, 'h, 't) world" where
  "mesh_enrollment_request_member en req req_len now out w =
     with_out (writable_out out \<and> \<not> (is_null req \<or> req_len = 0 \<or> req_len > 512)) 0
       (False)
       (pure_call (bindr (enrollment_request_member (en_suite en) (raw_parts req req_len) now) (\<lambda>m. Inr
           (member_arr m)))) w"

definition mesh_secure_store_install_policy ::
    "('r, 'k, 'q, 'o, 'h, 't) engine \<Rightarrow> u64 \<Rightarrow> in_ptr \<Rightarrow> usize \<Rightarrow> u64
        \<Rightarrow> usize \<Rightarrow> ('r, 'h, 't) world
     \<Rightarrow> (i32 \<times> u64 option) \<times> ('r, 'h, 't) world" where
  "mesh_secure_store_install_policy en handle policy policy_len now out w =
     with_out (aligned_out out) 0
       (is_null policy \<or> policy_len = 0 \<or> policy_len > MAX_POLICY_BUNDLE)
       (on_stores (secure_store_install_policy (en_suite en) handle (raw_parts policy policy_len) now)) w"

definition mesh_secure_store_rotate_authority ::
    "('r, 'k, 'q, 'o, 'h, 't) engine \<Rightarrow> u64 \<Rightarrow> in_ptr \<Rightarrow> usize \<Rightarrow> in_ptr
        \<Rightarrow> usize \<Rightarrow> u64 \<Rightarrow> usize \<Rightarrow> ('r, 'h, 't) world
     \<Rightarrow> (i32 \<times> mesh_buffer option) \<times> ('r, 'h, 't) world" where
  "mesh_secure_store_rotate_authority en handle successor_seed successor_seed_len handoff handoff_len now out w =
     with_out (aligned_out out) buffer_default
       (is_null successor_seed \<or> is_null handoff \<or> successor_seed_len \<noteq> 32 \<or> handoff_len = 0 \<or>
           handoff_len > MAX_AUTHORITY_HANDOFF)
       (boxed en (on_stores (secure_store_rotate_authority (en_suite en) handle
           (raw_parts successor_seed successor_seed_len) (raw_parts handoff handoff_len) now))) w"

definition mesh_secure_store_install_rotated_policy ::
    "('r, 'k, 'q, 'o, 'h, 't) engine \<Rightarrow> u64 \<Rightarrow> in_ptr \<Rightarrow> usize \<Rightarrow> in_ptr
        \<Rightarrow> usize \<Rightarrow> u64 \<Rightarrow> usize \<Rightarrow> ('r, 'h, 't) world
     \<Rightarrow> (i32 \<times> u64 option) \<times> ('r, 'h, 't) world" where
  "mesh_secure_store_install_rotated_policy en handle policy policy_len handoff handoff_len now out w =
     with_out (aligned_out out) 0
       (is_null policy \<or> is_null handoff \<or> policy_len = 0 \<or> policy_len > MAX_POLICY_BUNDLE \<or>
           handoff_len = 0 \<or> handoff_len > MAX_AUTHORITY_HANDOFF)
       (on_stores (secure_store_install_rotated_policy (en_suite en) handle (raw_parts policy policy_len)
           (raw_parts handoff handoff_len) now)) w"

definition mesh_secure_store_export_policy ::
    "('r, 'k, 'q, 'o, 'h, 't) engine \<Rightarrow> u64 \<Rightarrow> u64 \<Rightarrow> usize \<Rightarrow> ('r, 'h, 't) world
     \<Rightarrow> (i32 \<times> mesh_buffer option) \<times> ('r, 'h, 't) world" where
  "mesh_secure_store_export_policy en handle now out w =
     with_out (aligned_out out) buffer_default
       (False)
       (boxed en (read_stores (secure_store_export_policy (en_suite en) handle now))) w"

definition mesh_create_enrollment_request ::
    "('r, 'k, 'q, 'o, 'h, 't) engine \<Rightarrow> in_ptr \<Rightarrow> usize \<Rightarrow> in_ptr \<Rightarrow> usize
        \<Rightarrow> in_ptr \<Rightarrow> usize \<Rightarrow> u64 \<Rightarrow> usize \<Rightarrow> ('r, 'h, 't) world
     \<Rightarrow> (i32 \<times> mesh_buffer option) \<times> ('r, 'h, 't) world" where
  "mesh_create_enrollment_request en identity_seed identity_seed_len delivery_seed delivery_seed_len invitation
      invitation_len now out w =
     with_out (aligned_out out) buffer_default
       (is_null identity_seed \<or> is_null delivery_seed \<or> is_null invitation \<or> identity_seed_len \<noteq> 32
           \<or> delivery_seed_len \<noteq> 32 \<or> invitation_len = 0 \<or> invitation_len > MAX_POLICY_BUNDLE)
       (boxed en (on_random (create_enrollment_request_from_policy (en_suite en) (en_kem en) (en_fill en)
           (raw_parts identity_seed identity_seed_len) (raw_parts delivery_seed delivery_seed_len)
           (raw_parts invitation invitation_len) now))) w"

definition identity_public :: "suite \<Rightarrow> bytes \<Rightarrow> api_error + bytes" where
  "identity_public p seed =
     (if length seed \<noteq> 32 then Inl InvalidArgument
      else Inr (be_bytes (signing_public_key p (IdentitySigningKey (be_word seed)))))"

definition mesh_identity_public ::
    "('r, 'k, 'q, 'o, 'h, 't) engine \<Rightarrow> in_ptr \<Rightarrow> usize \<Rightarrow> usize \<Rightarrow>
        ('r, 'h, 't) world
     \<Rightarrow> (i32 \<times> mesh_buffer option) \<times> ('r, 'h, 't) world" where
  "mesh_identity_public en seed len out w =
     with_out (aligned_out out) buffer_default
       (is_null seed \<or> len \<noteq> 32)
       (boxed en (pure_call (identity_public (en_suite en) (raw_parts seed len)))) w"

section \<open>Messages and records\<close>

definition mesh_secure_store_accept_routed ::
    "('r, 'k, 'q, 'o, 'h, 't) engine \<Rightarrow> u64 \<Rightarrow> in_ptr \<Rightarrow> usize \<Rightarrow> in_ptr
        \<Rightarrow> usize \<Rightarrow> u64 \<Rightarrow> usize \<Rightarrow> ('r, 'h, 't) world
     \<Rightarrow> (i32 \<times> u8 option) \<times> ('r, 'h, 't) world" where
  "mesh_secure_store_accept_routed en handle input input_len received_from received_from_len now out w =
     with_out (writable_out out) 0
       (is_null input \<or> input_len = 0 \<or> input_len > MAX_ROUTED_RECORD \<or> is_null received_from \<or>
           received_from_len \<noteq> 32 \<or> now = 0)
       (on_stores (secure_store_accept_routed (en_suite en) (en_disk en) handle (raw_parts input input_len)
           (raw_parts received_from received_from_len) now)) w"

definition mesh_secure_store_enqueue_text ::
    "('r, 'k, 'q, 'o, 'h, 't) engine \<Rightarrow> u64 \<Rightarrow> in_ptr \<Rightarrow> usize \<Rightarrow> in_ptr
        \<Rightarrow> usize \<Rightarrow> u64 \<Rightarrow> usize \<Rightarrow> ('r, 'h, 't) world
     \<Rightarrow> (i32 \<times> u16 option) \<times> ('r, 'h, 't) world" where
  "mesh_secure_store_enqueue_text en handle identity_seed identity_seed_len plaintext plaintext_len now out w =
     with_out (writable_out out) 0
       (is_null identity_seed \<or> identity_seed_len \<noteq> 32 \<or> is_null plaintext \<or> plaintext_len = 0 \<or>
           plaintext_len > MAX_PLAINTEXT \<or> now = 0)
       (on_stores_random (secure_store_enqueue_text (en_suite en) (en_kem en) (en_fill en) (en_disk en) handle
           (raw_parts identity_seed identity_seed_len) (raw_parts plaintext plaintext_len) now)) w"

text \<open>\<open>try_into\<close> of a slice to an array of 16 bytes.\<close>

definition array16 :: "in_ptr \<Rightarrow> usize \<Rightarrow> api_error + arr16" where
  "array16 p n = (if n = 16 then Inr (be_word (raw_parts p n)) else Inl InvalidArgument)"

definition mesh_secure_store_enqueue_text_with_logical_id ::
    "('r, 'k, 'q, 'o, 'h, 't) engine \<Rightarrow> u64 \<Rightarrow> in_ptr \<Rightarrow> usize \<Rightarrow> in_ptr
        \<Rightarrow> usize \<Rightarrow> in_ptr \<Rightarrow> usize \<Rightarrow> u64 \<Rightarrow> usize
        \<Rightarrow> ('r, 'h, 't) world
     \<Rightarrow> (i32 \<times> u16 option) \<times> ('r, 'h, 't) world" where
  "mesh_secure_store_enqueue_text_with_logical_id en handle identity_seed identity_seed_len plaintext plaintext_len
      logical_id logical_id_len now out w =
     with_out (writable_out out) 0
       (is_null identity_seed \<or> identity_seed_len \<noteq> 32 \<or> is_null plaintext \<or> plaintext_len = 0 \<or>
           plaintext_len > MAX_PLAINTEXT \<or> is_null logical_id \<or> logical_id_len \<noteq> 16 \<or> now = 0)
       (\<lambda>w. bind_st (array16 logical_id logical_id_len, w) (\<lambda>logical.
          on_stores_random (secure_store_enqueue_text_with_logical_id (en_suite en) (en_kem en) (en_fill en) (en_disk en) handle
            (raw_parts identity_seed identity_seed_len) (raw_parts plaintext plaintext_len) logical now))) w"

definition mesh_secure_store_latest_delivery_summary ::
    "('r, 'k, 'q, 'o, 'h, 't) engine \<Rightarrow> u64 \<Rightarrow> u64 \<Rightarrow> usize \<Rightarrow> ('r, 'h, 't) world
     \<Rightarrow> (i32 \<times> mesh_buffer option) \<times> ('r, 'h, 't) world" where
  "mesh_secure_store_latest_delivery_summary en handle now out w =
     with_out (aligned_out out) buffer_default
       (False)
       (boxed en (read_stores (secure_store_latest_delivery_summary handle now))) w"

definition mesh_secure_store_delivery_summary ::
    "('r, 'k, 'q, 'o, 'h, 't) engine \<Rightarrow> u64 \<Rightarrow> in_ptr \<Rightarrow> usize \<Rightarrow> u64
        \<Rightarrow> usize \<Rightarrow> ('r, 'h, 't) world
     \<Rightarrow> (i32 \<times> mesh_buffer option) \<times> ('r, 'h, 't) world" where
  "mesh_secure_store_delivery_summary en handle logical_id logical_id_len now out w =
     with_out (\<not> is_null logical_id \<and> aligned_out out) buffer_default
       (False)
       (boxed en (\<lambda>w. bind_st (array16 logical_id logical_id_len, w) (\<lambda>logical.
          read_stores (secure_store_delivery_summary handle logical now)))) w"

definition mesh_secure_store_finalize_next_text ::
    "('r, 'k, 'q, 'o, 'h, 't) engine \<Rightarrow> u64 \<Rightarrow> in_ptr \<Rightarrow> usize \<Rightarrow> in_ptr
        \<Rightarrow> usize \<Rightarrow> u64 \<Rightarrow> usize \<Rightarrow> ('r, 'h, 't) world
     \<Rightarrow> (i32 \<times> mesh_buffer option) \<times> ('r, 'h, 't) world" where
  "mesh_secure_store_finalize_next_text en handle identity_seed identity_seed_len delivery_seed delivery_seed_len now out w =
     with_out (aligned_out out) buffer_default
       (is_null identity_seed \<or> identity_seed_len \<noteq> 32 \<or> is_null delivery_seed \<or> delivery_seed_len
           \<noteq> 32 \<or> now = 0)
       (boxed_unless_empty en (on_stores (secure_store_finalize_next_text (en_suite en) (en_kem en) handle
           (raw_parts identity_seed identity_seed_len) (raw_parts delivery_seed delivery_seed_len) now))) w"

definition mesh_secure_store_outbox_record ::
    "('r, 'k, 'q, 'o, 'h, 't) engine \<Rightarrow> u64 \<Rightarrow> u16 \<Rightarrow> u64 \<Rightarrow> usize
        \<Rightarrow> ('r, 'h, 't) world
     \<Rightarrow> (i32 \<times> mesh_buffer option) \<times> ('r, 'h, 't) world" where
  "mesh_secure_store_outbox_record en handle slot now out w =
     with_out (aligned_out out) buffer_default
       (now = 0)
       (boxed_unless_empty en (read_stores (secure_store_outbox_record (en_suite en) handle slot now))) w"

definition mesh_secure_store_receipt_record ::
    "('r, 'k, 'q, 'o, 'h, 't) engine \<Rightarrow> u64 \<Rightarrow> u16 \<Rightarrow> u64 \<Rightarrow> usize
        \<Rightarrow> ('r, 'h, 't) world
     \<Rightarrow> (i32 \<times> mesh_buffer option) \<times> ('r, 'h, 't) world" where
  "mesh_secure_store_receipt_record en handle slot now out w =
     with_out (aligned_out out) buffer_default
       (now = 0)
       (boxed_unless_empty en (read_stores (secure_store_receipt_record (en_suite en) handle slot now))) w"

definition mesh_secure_store_receipt_ack_record ::
    "('r, 'k, 'q, 'o, 'h, 't) engine \<Rightarrow> u64 \<Rightarrow> in_ptr \<Rightarrow> usize \<Rightarrow> u16
        \<Rightarrow> u64 \<Rightarrow> usize \<Rightarrow> ('r, 'h, 't) world
     \<Rightarrow> (i32 \<times> mesh_buffer option) \<times> ('r, 'h, 't) world" where
  "mesh_secure_store_receipt_ack_record en handle identity_seed identity_seed_len slot now out w =
     with_out (aligned_out out) buffer_default
       (is_null identity_seed \<or> identity_seed_len \<noteq> 32 \<or> now = 0)
       (boxed_unless_empty en (on_stores (secure_store_receipt_ack_record (en_suite en) handle
           (raw_parts identity_seed identity_seed_len) slot now))) w"

definition mesh_secure_store_relay_record ::
    "('r, 'k, 'q, 'o, 'h, 't) engine \<Rightarrow> u64 \<Rightarrow> u16 \<Rightarrow> u64 \<Rightarrow> usize
        \<Rightarrow> ('r, 'h, 't) world
     \<Rightarrow> (i32 \<times> mesh_buffer option) \<times> ('r, 'h, 't) world" where
  "mesh_secure_store_relay_record en handle slot now out w =
     with_out (aligned_out out) buffer_default
       (now = 0)
       (boxed_unless_empty en (read_stores (secure_store_relay_record (en_suite en) handle slot now))) w"

definition mesh_secure_store_relay_received_from ::
    "('r, 'k, 'q, 'o, 'h, 't) engine \<Rightarrow> u64 \<Rightarrow> u64 \<Rightarrow> usize \<Rightarrow> ('r, 'h, 't) world
     \<Rightarrow> (i32 \<times> mesh_buffer option) \<times> ('r, 'h, 't) world" where
  "mesh_secure_store_relay_received_from en handle now out w =
     with_out (aligned_out out) buffer_default
       (now = 0)
       (boxed_unless_empty en (read_stores (secure_store_relay_received_from handle now))) w"

definition mesh_secure_store_relay_receipt_record ::
    "('r, 'k, 'q, 'o, 'h, 't) engine \<Rightarrow> u64 \<Rightarrow> u16 \<Rightarrow> u64 \<Rightarrow> usize
        \<Rightarrow> ('r, 'h, 't) world
     \<Rightarrow> (i32 \<times> mesh_buffer option) \<times> ('r, 'h, 't) world" where
  "mesh_secure_store_relay_receipt_record en handle slot now out w =
     with_out (aligned_out out) buffer_default
       (now = 0)
       (boxed_unless_empty en (read_stores (secure_store_relay_receipt_record handle slot now))) w"

definition mesh_secure_store_relay_receipt_received_from ::
    "('r, 'k, 'q, 'o, 'h, 't) engine \<Rightarrow> u64 \<Rightarrow> u64 \<Rightarrow> usize \<Rightarrow> ('r, 'h, 't) world
     \<Rightarrow> (i32 \<times> mesh_buffer option) \<times> ('r, 'h, 't) world" where
  "mesh_secure_store_relay_receipt_received_from en handle now out w =
     with_out (aligned_out out) buffer_default
       (now = 0)
       (boxed_unless_empty en (read_stores (secure_store_relay_receipt_received_from handle now))) w"

definition mesh_secure_store_relay_receipt_ack_record ::
    "('r, 'k, 'q, 'o, 'h, 't) engine \<Rightarrow> u64 \<Rightarrow> u16 \<Rightarrow> u64 \<Rightarrow> usize
        \<Rightarrow> ('r, 'h, 't) world
     \<Rightarrow> (i32 \<times> mesh_buffer option) \<times> ('r, 'h, 't) world" where
  "mesh_secure_store_relay_receipt_ack_record en handle slot now out w =
     with_out (aligned_out out) buffer_default
       (now = 0)
       (boxed_unless_empty en (read_stores (secure_store_relay_receipt_ack_record handle slot now))) w"

definition mesh_secure_store_relay_receipt_ack_received_from ::
    "('r, 'k, 'q, 'o, 'h, 't) engine \<Rightarrow> u64 \<Rightarrow> u64 \<Rightarrow> usize \<Rightarrow> ('r, 'h, 't) world
     \<Rightarrow> (i32 \<times> mesh_buffer option) \<times> ('r, 'h, 't) world" where
  "mesh_secure_store_relay_receipt_ack_received_from en handle now out w =
     with_out (aligned_out out) buffer_default
       (now = 0)
       (boxed_unless_empty en (read_stores (secure_store_relay_receipt_ack_received_from handle now))) w"

end
