(* ===== verification/Mesh_C_Calls.thy ===== *)
theory Mesh_C_Calls
  imports Mesh_C_Api Mesh_Channel
begin

text \<open>
  What the C entry points add to the functions they call: with valid pointers an entry point answers
  what its function answers and does what it does, so that what holds of the functions holds of the
  entry points. The checks of an entry point refuse only what its function refuses anyway.
\<close>

section \<open>The frame of an entry point\<close>

definition answer :: "'v \<Rightarrow> (api_error + 'v) \<times> 'w \<Rightarrow> (i32 \<times> 'v option) \<times> 'w" where
  "answer initial m = (case m of (Inl e, w) \<Rightarrow> ((error_code e, Some initial), w) | (Inr v, w) \<Rightarrow>
      ((0, Some v), w))"

definition code_only :: "(api_error + unit) \<times> 'w \<Rightarrow> i32 \<times> 'w" where
  "code_only m = (case m of (Inl e, w) \<Rightarrow> (error_code e, w) | (Inr _, w) \<Rightarrow> (0, w))"

lemma with_out_answer:
  "ok \<Longrightarrow> (refused \<Longrightarrow> run w = (Inl InvalidArgument, w)) \<Longrightarrow> with_out ok
      initial refused run w = answer initial (run w)"
  by (cases "run w"; cases "fst (run w)") (auto simp: with_out_def answer_def status_def)

lemma without_out_code:
  "(refused \<Longrightarrow> run w = (Inl InvalidArgument, w)) \<Longrightarrow> without_out refused run w = code_only
      (run w)"
  by (cases "run w"; cases "fst (run w)") (auto simp: without_out_def code_only_def status_def)

lemma data_ptr [simp]: "raw_parts (Data_ptr a) (length a) = a" "\<not> is_null (Data_ptr a)" "is_null Null_ptr"
  by (simp_all add: raw_parts_def is_null_def)

lemmas call_frames = boxed_def boxed_unless_empty_def pure_call_def on_runtimes_def on_stores_def read_stores_def
  on_stores_random_def on_random_def on_sessions_def on_sessions_random_def read_sessions_def on_gates_def

section \<open>What the functions refuse\<close>

named_theorems refuses "arguments that a function refuses on its own"

lemma refuses_create_group [refuses]: "length a \<noteq> 32 \<or> length b \<noteq> 32 \<or> length c \<noteq> 32
    \<Longrightarrow> secure_store_create_group p k fill h a b c now gr = (Inl InvalidArgument, gr)"
  by (cases gr) (auto simp: secure_store_create_group_def to_member_def)

lemma refuses_session_start [refuses]: "length a \<noteq> 32 \<or> length b \<noteq> 32 \<or> now = 0 \<Longrightarrow>
    secure_session_start p z fill h a b r now st gr = (Inl InvalidArgument, gr)"
  by (cases gr) (auto simp: secure_session_start_def to_member_def)

lemma refuses_session_read [refuses]: "a = [] \<or> length a > 96 \<or> now = 0 \<Longrightarrow> secure_session_read z
    h a now g = (Inl InvalidArgument, g)"
  by (auto simp: secure_session_read_def to_member_def)

lemma refuses_session_authenticate [refuses]: "length a \<noteq> 32 \<Longrightarrow> secure_session_authenticate p z h
    a now st g = (Inl InvalidArgument, g)"
  by (auto simp: secure_session_authenticate_def to_member_def)

lemma refuses_session_send [refuses]: "a = [] \<or> length a > MAX_PAYLOAD \<Longrightarrow> secure_session_send p z h
    a now st g = (Inl InvalidArgument, g)"
  by (auto simp: secure_session_send_def to_member_def)

lemma refuses_session_receive [refuses]: "length a < 58 \<or> length a > MAX_FRAME \<Longrightarrow>
    secure_session_receive p z h a now st g = (Inl InvalidArgument, g)"
  by (auto simp: secure_session_receive_def to_member_def)

lemma refuses_issue_enrollment [refuses]: "length a \<noteq> 32 \<or> b = [] \<or> length b > 512 \<Longrightarrow>
    secure_store_issue_enrollment p h a b now g = (Inl InvalidArgument, g)"
  by (auto simp: secure_store_issue_enrollment_def to_member_def)

lemma refuses_prepare_handoff [refuses]: "length a \<noteq> 32 \<or> length b \<noteq> 32 \<or> u \<le> now \<or> now =
    0 \<Longrightarrow> secure_store_prepare_authority_handoff p h a b u now g = Inl InvalidArgument"
  by (auto simp: secure_store_prepare_authority_handoff_def to_member_def)

lemma refuses_can_issue [refuses]: "length a \<noteq> 32 \<Longrightarrow> secure_store_can_issue_enrollment p h a now
    g = Inl InvalidArgument"
  by (auto simp: secure_store_can_issue_enrollment_def to_member_def)

lemma refuses_sign_cloud_relay [refuses]: "length a \<noteq> 32 \<or> b = [] \<or> length b > MAX_SIGNED_BYTES \<or>
    now = 0 \<Longrightarrow> secure_store_sign_cloud_relay p h a b now g = Inl InvalidArgument"
  by (auto simp: secure_store_sign_cloud_relay_def to_member_def)

lemma refuses_request_member [refuses]: "a = [] \<or> length a > 512 \<Longrightarrow> enrollment_request_member p a
    now = Inl InvalidArgument"
  by (auto simp: enrollment_request_member_def to_member_def)

lemma refuses_install [refuses]: "a = [] \<or> length a > MAX_POLICY_BUNDLE \<Longrightarrow>
    secure_store_install_policy p h a now g = (Inl InvalidArgument, g)"
  by (auto simp: secure_store_install_policy_def to_member_def)

lemma refuses_rotate [refuses]: "length a \<noteq> 32 \<or> b = [] \<or> length b > MAX_AUTHORITY_HANDOFF
    \<Longrightarrow> secure_store_rotate_authority p h a b now g = (Inl InvalidArgument, g)"
  by (auto simp: secure_store_rotate_authority_def to_member_def)

lemma refuses_install_rotated [refuses]: "a = [] \<or> length a > MAX_POLICY_BUNDLE \<or> b = [] \<or> length b >
    MAX_AUTHORITY_HANDOFF \<Longrightarrow> secure_store_install_rotated_policy p h a b now g = (Inl InvalidArgument, g)"
  by (auto simp: secure_store_install_rotated_policy_def to_member_def)

lemma refuses_create_request [refuses]: "length a \<noteq> 32 \<or> length b \<noteq> 32 \<or> c = [] \<or> length c >
    MAX_POLICY_BUNDLE \<Longrightarrow> create_enrollment_request_from_policy p k fill a b c now r =
    (Inl InvalidArgument, r)"
  by (auto simp: create_enrollment_request_from_policy_def to_member_def)

lemma refuses_identity_public [refuses]: "length a \<noteq> 32 \<Longrightarrow> identity_public p a = Inl InvalidArgument"
  by (auto simp: identity_public_def to_member_def)

lemma refuses_accept_routed [refuses]: "a = [] \<or> length a > MAX_ROUTED_RECORD \<or> length b \<noteq> 32 \<or> now
    = 0 \<Longrightarrow> secure_store_accept_routed p disk h a b now g = (Inl InvalidArgument, g)"
  by (auto simp: secure_store_accept_routed_def to_member_def)

lemma refuses_enqueue_text [refuses]: "length a \<noteq> 32 \<or> b = [] \<or> length b > MAX_PLAINTEXT \<or> now = 0
    \<Longrightarrow> secure_store_enqueue_text p k fill disk h a b now gr = (Inl InvalidArgument, gr)"
  by (cases gr) (auto simp: secure_store_enqueue_text_def enqueue_text_def to_member_def)

lemma refuses_enqueue_text_id [refuses]: "length a \<noteq> 32 \<or> b = [] \<or> length b > MAX_PLAINTEXT \<or> now =
    0 \<Longrightarrow> secure_store_enqueue_text_with_logical_id p k fill disk h a b l now gr = (Inl InvalidArgument, gr)"
  by (cases gr) (auto simp: secure_store_enqueue_text_with_logical_id_def enqueue_text_def to_member_def)

lemma refuses_finalize_text [refuses]: "length a \<noteq> 32 \<or> length b \<noteq> 32 \<or> now = 0 \<Longrightarrow>
    secure_store_finalize_next_text p k h a b now g = (Inl InvalidArgument, g)"
  by (auto simp: secure_store_finalize_next_text_def to_member_def)

lemma refuses_outbox [refuses]: "now = 0 \<Longrightarrow> secure_store_outbox_record p h sl now g = Inl InvalidArgument"
  by (auto simp: secure_store_outbox_record_def to_member_def)

lemma refuses_receipt [refuses]: "now = 0 \<Longrightarrow> secure_store_receipt_record p h sl now g = Inl InvalidArgument"
  by (auto simp: secure_store_receipt_record_def to_member_def)

lemma refuses_receipt_ack [refuses]: "length a \<noteq> 32 \<or> now = 0 \<Longrightarrow>
    secure_store_receipt_ack_record p h a sl now g = (Inl InvalidArgument, g)"
  by (auto simp: secure_store_receipt_ack_record_def to_member_def)

lemma refuses_relay [refuses]: "now = 0 \<Longrightarrow> secure_store_relay_record p h sl now g = Inl InvalidArgument"
  by (auto simp: secure_store_relay_record_def to_member_def)

lemma refuses_relay_from [refuses]: "now = 0 \<Longrightarrow> secure_store_relay_received_from h now g = Inl
    InvalidArgument"
  by (auto simp: secure_store_relay_received_from_def to_member_def)

lemma refuses_relay_receipt [refuses]: "now = 0 \<Longrightarrow> secure_store_relay_receipt_record h sl now g = Inl
    InvalidArgument"
  by (auto simp: secure_store_relay_receipt_record_def custody_record_def to_member_def)

lemma refuses_relay_receipt_from [refuses]: "now = 0 \<Longrightarrow> secure_store_relay_receipt_received_from h now g
    = Inl InvalidArgument"
  by (auto simp: secure_store_relay_receipt_received_from_def custody_from_def to_member_def)

lemma refuses_relay_ack [refuses]: "now = 0 \<Longrightarrow> secure_store_relay_receipt_ack_record h sl now g = Inl
    InvalidArgument"
  by (auto simp: secure_store_relay_receipt_ack_record_def custody_record_def to_member_def)

lemma refuses_relay_ack_from [refuses]: "now = 0 \<Longrightarrow> secure_store_relay_receipt_ack_received_from h now g
    = Inl InvalidArgument"
  by (auto simp: secure_store_relay_receipt_ack_received_from_def custody_from_def to_member_def)

lemma refuses_gate_open [refuses]: "length a \<noteq> 32 \<Longrightarrow> relay_gate_open a g = (Inl InvalidArgument, g)"
  by (auto simp: relay_gate_open_def to_member_def)

lemma relay_decode_length: "relay_decode a = Inr f \<Longrightarrow> length a = RELAY_FRAME_BYTES"
  by (simp add: relay_decode_iff)

lemma refuses_gate_accept [refuses]: "length a \<noteq> RELAY_FRAME_BYTES \<or> length b \<noteq> 32 \<Longrightarrow>
    relay_gate_accept h a b now g = (Inl InvalidArgument, g)"
  by (cases "relay_decode a") (auto simp: relay_gate_accept_def to_member_def durable_decode_def dest: relay_decode_length)

lemma refuses_frame_encode [refuses]: "a = [] \<or> length a > MAX_FRAME_BYTES \<Longrightarrow> link_frame_encode a =
    Inl InvalidArgument"
  by (auto simp: link_frame_encode_def to_member_def)

lemma refuses_frame_decode [refuses]: "length a < 3 \<or> length a > MAX_FRAME_BYTES + 3 \<Longrightarrow>
    link_frame_decode a = Inl InvalidArgument"
  by (auto simp: link_frame_decode_def to_member_def)

lemma refuses_routed_encode [refuses]: "length a \<noteq> RELAY_FRAME_BYTES \<or> b = [] \<Longrightarrow>
    routed_record_encode a b = Inl InvalidArgument"
  by (cases "relay_decode a") (auto simp: routed_record_encode_def to_member_def durable_decode_def dest:
      relay_decode_length)

lemma refuses_routed_decode [refuses]: "a = [] \<or> length a > MAX_ROUTED_RECORD \<Longrightarrow>
    routed_record_decode a = Inl InvalidArgument"
  by (auto simp: routed_record_decode_def routed_decode_def)

lemma refuses_request [refuses]: "a = [] \<or> length a > MAX_INPUT \<Longrightarrow> request v b h a g =
    (Inl InvalidArgument, g)"
  by (auto simp: request_def decode_request_def)

lemma refuses_open [refuses]:
  "length a \<noteq> 32 \<or> length b \<noteq> 32 \<or> \<not> (1 \<le> length c \<and> length c \<le> 1024)
      \<Longrightarrow>
   secure_store_open h texts cipher a b c fg = (Inl InvalidArgument, fg)"
  by (cases fg) (auto simp: secure_store_open_def open_arguments_ok_def)

lemma aligned_writable: "aligned_out out \<Longrightarrow> writable_out out"
  by (simp add: aligned_out_def writable_out_def)

section \<open>The entry points\<close>

lemma runtime_create_entry:
  "aligned_out out \<Longrightarrow> mesh_runtime_create en version out w =
     answer 0 (on_runtimes (create version) w)"
  unfolding mesh_runtime_create_def data_ptr(1) by (rule with_out_answer) (auto simp: call_frames refuses)

lemma runtime_request_entry:
  "aligned_out out \<Longrightarrow> mesh_runtime_request en handle (Data_ptr a) (length a) out w =
     answer buffer_default (boxed en (on_runtimes (request (en_version en) (en_build en) handle a)) w)"
  unfolding mesh_runtime_request_def data_ptr(1) by (rule with_out_answer) (auto simp: call_frames refuses)

lemma runtime_release_entry:
  "mesh_runtime_release en handle w =
     code_only (on_runtimes (release handle) w)"
  unfolding mesh_runtime_release_def data_ptr(1) by (rule without_out_code) (auto simp: call_frames refuses)

lemma link_frame_encode_entry:
  "aligned_out out \<Longrightarrow> mesh_link_frame_encode en (Data_ptr a) (length a) out w =
     answer buffer_default (boxed en (pure_call (link_frame_encode a)) w)"
  unfolding mesh_link_frame_encode_def data_ptr(1) by (rule with_out_answer) (auto simp: call_frames refuses)

lemma link_frame_decode_entry:
  "aligned_out out \<Longrightarrow> mesh_link_frame_decode en (Data_ptr a) (length a) out w =
     answer buffer_default (boxed en (pure_call (link_frame_decode a)) w)"
  unfolding mesh_link_frame_decode_def data_ptr(1) by (rule with_out_answer) (auto simp: call_frames refuses)

lemma routed_record_encode_entry:
  "aligned_out out \<Longrightarrow> mesh_routed_record_encode en (Data_ptr a) (length a) (Data_ptr b) (length b) out w =
     answer buffer_default (boxed en (pure_call (routed_record_encode a b)) w)"
  unfolding mesh_routed_record_encode_def data_ptr(1) by (rule with_out_answer) (auto simp: call_frames refuses)

lemma routed_record_decode_entry:
  "aligned_out out \<Longrightarrow> mesh_routed_record_decode en (Data_ptr a) (length a) out w =
     answer buffer_default (boxed en (pure_call (routed_record_decode a)) w)"
  unfolding mesh_routed_record_decode_def data_ptr(1) by (rule with_out_answer) (auto simp: call_frames refuses)

lemma relay_gate_open_entry:
  "aligned_out out \<Longrightarrow> mesh_relay_gate_open en (Data_ptr a) (length a) out w =
     answer 0 (on_gates (relay_gate_open a) w)"
  unfolding mesh_relay_gate_open_def data_ptr(1) by (rule with_out_answer) (auto simp: call_frames refuses)

lemma relay_gate_accept_entry:
  "aligned_out out \<Longrightarrow> now \<noteq> 0 \<Longrightarrow> mesh_relay_gate_accept en handle (Data_ptr a)
      (length a) (Data_ptr b) (length b) now out w =
     answer buffer_default (boxed en (on_gates (relay_gate_accept handle a b now)) w)"
  unfolding mesh_relay_gate_accept_def data_ptr(1) by (rule with_out_answer) (auto simp: call_frames refuses)

lemma relay_gate_release_entry:
  "mesh_relay_gate_release en handle w =
     code_only (on_gates (relay_gate_release handle) w)"
  unfolding mesh_relay_gate_release_def data_ptr(1) by (rule without_out_code) (auto simp: call_frames refuses)

lemma store_open_entry:
  "aligned_out out \<Longrightarrow> mesh_secure_store_open en (Data_ptr a) (length a) (Data_ptr b) (length b)
      (Data_ptr c) (length c) out w =
     answer 0 ((\<lambda>w. bind_st (path_of c, w) (\<lambda>path. on_file_stores path (secure_store_open (hash
         (en_suite en)) (en_texts en) (en_cipher en path) a b path))) w)"
  unfolding mesh_secure_store_open_def data_ptr(1) by (rule with_out_answer)
      (auto simp: call_frames refuses path_of_def on_file_stores_def)

lemma store_release_entry:
  "mesh_secure_store_release en handle w =
     code_only (on_stores (secure_store_release handle) w)"
  unfolding mesh_secure_store_release_def data_ptr(1) by (rule without_out_code) (auto simp: call_frames refuses)

lemma store_policy_epoch_entry:
  "aligned_out out \<Longrightarrow> mesh_secure_store_policy_epoch en handle now out w =
     answer 0 (read_stores (secure_store_policy_epoch (en_suite en) handle now) w)"
  unfolding mesh_secure_store_policy_epoch_def data_ptr(1) by (rule with_out_answer) (auto simp: call_frames refuses)

lemma store_discovery_tag_entry:
  "aligned_out out \<Longrightarrow> mesh_secure_store_discovery_tag en handle now out w =
     answer buffer_default (boxed en (read_stores (secure_store_discovery_tag (en_suite en) handle now)) w)"
  unfolding mesh_secure_store_discovery_tag_def data_ptr(1) by (rule with_out_answer) (auto simp: call_frames refuses)

lemma session_start_entry:
  "aligned_out out \<Longrightarrow> mesh_secure_session_start en store_handle (Data_ptr a) (length a) (Data_ptr b)
      (length b) role now out w =
     answer 0 (on_sessions_random (secure_session_start (en_suite en) (en_noise en)
         (en_fill en) store_handle a b role now) w)"
  unfolding mesh_secure_session_start_def data_ptr(1) by (rule with_out_answer) (auto simp: call_frames refuses)

lemma session_write_entry:
  "aligned_out out \<Longrightarrow> mesh_secure_session_write en handle now out w =
     answer buffer_default (boxed en (on_sessions (\<lambda>_. secure_session_write (en_noise en) handle now)) w)"
  unfolding mesh_secure_session_write_def data_ptr(1) by (rule with_out_answer) (auto simp: call_frames refuses)

lemma session_read_entry:
  "mesh_secure_session_read en handle (Data_ptr a) (length a) now w =
     code_only (on_sessions (\<lambda>_. secure_session_read (en_noise en) handle a now) w)"
  unfolding mesh_secure_session_read_def data_ptr(1) by (rule without_out_code) (auto simp: call_frames refuses)

lemma session_finish_entry:
  "mesh_secure_session_finish en handle now w =
     code_only (on_sessions (secure_session_finish (en_suite en) (en_noise en) handle now) w)"
  unfolding mesh_secure_session_finish_def data_ptr(1) by (rule without_out_code) (auto simp: call_frames refuses)

lemma session_authenticate_entry:
  "aligned_out out \<Longrightarrow> now \<noteq> 0 \<Longrightarrow> mesh_secure_session_authenticate en handle
      (Data_ptr a) (length a) now out w =
     answer buffer_default (boxed en (on_sessions (secure_session_authenticate (en_suite en) (en_noise en) handle a now)) w)"
  unfolding mesh_secure_session_authenticate_def data_ptr(1) by (rule with_out_answer) (auto simp: call_frames refuses)

lemma session_send_entry:
  "aligned_out out \<Longrightarrow> now \<noteq> 0 \<Longrightarrow> mesh_secure_session_send en handle (Data_ptr a)
      (length a) now out w =
     answer buffer_default (boxed en (on_sessions (secure_session_send (en_suite en) (en_noise en) handle a now)) w)"
  unfolding mesh_secure_session_send_def data_ptr(1) by (rule with_out_answer) (auto simp: call_frames refuses)

lemma session_receive_entry:
  "aligned_out out \<Longrightarrow> now \<noteq> 0 \<Longrightarrow> mesh_secure_session_receive en handle
      (Data_ptr a) (length a) now out w =
     answer buffer_default (boxed_unless_empty en (on_sessions (secure_session_receive (en_suite en)
         (en_noise en) handle a now)) w)"
  unfolding mesh_secure_session_receive_def data_ptr(1) by (rule with_out_answer) (auto simp: call_frames refuses)

lemma session_authenticated_entry:
  "writable_out out \<Longrightarrow> mesh_secure_session_authenticated en handle out w =
     answer 0 (read_sessions (\<lambda>g. bindr (secure_session_authenticated handle g) (\<lambda>b. Inr
         (if b then 1 else 0))) w)"
  unfolding mesh_secure_session_authenticated_def data_ptr(1) by (rule with_out_answer) (auto simp: call_frames refuses)

lemma session_peer_entry:
  "writable_out out \<Longrightarrow> mesh_secure_session_peer en handle out w =
     answer 0 (read_sessions (secure_session_peer handle) w)"
  unfolding mesh_secure_session_peer_def data_ptr(1) by (rule with_out_answer) (auto simp: call_frames refuses)

lemma session_release_entry:
  "mesh_secure_session_release en handle w =
     code_only (on_sessions (\<lambda>_. secure_session_release handle) w)"
  unfolding mesh_secure_session_release_def data_ptr(1) by (rule without_out_code) (auto simp: call_frames refuses)

lemma store_create_group_entry:
  "aligned_out out \<Longrightarrow> mesh_secure_store_create_group en handle (Data_ptr a) (length a) (Data_ptr b)
      (length b) (Data_ptr c) (length c) now out w =
     answer 0 (on_stores_random (secure_store_create_group (en_suite en) (en_kem en) (en_fill en) handle a b c now) w)"
  unfolding mesh_secure_store_create_group_def data_ptr(1) by (rule with_out_answer) (auto simp: call_frames refuses)

lemma store_issue_enrollment_entry:
  "aligned_out out \<Longrightarrow> mesh_secure_store_issue_enrollment en handle (Data_ptr a) (length a) (Data_ptr b)
      (length b) now out w =
     answer buffer_default (boxed en (on_stores (secure_store_issue_enrollment (en_suite en) handle a b now)) w)"
  unfolding mesh_secure_store_issue_enrollment_def data_ptr(1) by (rule with_out_answer) (auto simp: call_frames refuses)

lemma store_prepare_authority_handoff_entry:
  "aligned_out out \<Longrightarrow> mesh_secure_store_prepare_authority_handoff en handle (Data_ptr a) (length a)
      (Data_ptr b) (length b) valid_until now out w =
     answer buffer_default (boxed en (read_stores (secure_store_prepare_authority_handoff
         (en_suite en) handle a b valid_until now)) w)"
  unfolding mesh_secure_store_prepare_authority_handoff_def data_ptr(1) by (rule with_out_answer)
      (auto simp: call_frames refuses)

lemma store_can_issue_enrollment_entry:
  "writable_out out \<Longrightarrow> length a = 32 \<Longrightarrow> mesh_secure_store_can_issue_enrollment en handle
      (Data_ptr a) (length a) now out w =
     answer 0 (read_stores (\<lambda>g. bindr (secure_store_can_issue_enrollment (en_suite en) handle a now g)
         (\<lambda>b. Inr (if b then 1 else 0))) w)"
  unfolding mesh_secure_store_can_issue_enrollment_def data_ptr(1) by (rule with_out_answer) (auto simp: call_frames refuses)

lemma store_sign_cloud_relay_entry:
  "aligned_out out \<Longrightarrow> mesh_secure_store_sign_cloud_relay en handle (Data_ptr a) (length a) (Data_ptr b)
      (length b) now out w =
     answer buffer_default (boxed en (read_stores (secure_store_sign_cloud_relay (en_suite en) handle a b now)) w)"
  unfolding mesh_secure_store_sign_cloud_relay_def data_ptr(1) by (rule with_out_answer) (auto simp: call_frames refuses)

lemma enrollment_request_member_entry:
  "writable_out out \<Longrightarrow> a \<noteq> [] \<and> length a \<le> 512 \<Longrightarrow>
      mesh_enrollment_request_member en (Data_ptr a) (length a) now out w =
     answer 0 (pure_call (bindr (enrollment_request_member (en_suite en) a now) (\<lambda>m. Inr (member_arr m))) w)"
  unfolding mesh_enrollment_request_member_def data_ptr(1) by (rule with_out_answer) (auto simp: call_frames refuses)

lemma store_install_policy_entry:
  "aligned_out out \<Longrightarrow> mesh_secure_store_install_policy en handle (Data_ptr a) (length a) now out w =
     answer 0 (on_stores (secure_store_install_policy (en_suite en) handle a now) w)"
  unfolding mesh_secure_store_install_policy_def data_ptr(1) by (rule with_out_answer) (auto simp: call_frames refuses)

lemma store_rotate_authority_entry:
  "aligned_out out \<Longrightarrow> mesh_secure_store_rotate_authority en handle (Data_ptr a) (length a) (Data_ptr b)
      (length b) now out w =
     answer buffer_default (boxed en (on_stores (secure_store_rotate_authority (en_suite en) handle a b now)) w)"
  unfolding mesh_secure_store_rotate_authority_def data_ptr(1) by (rule with_out_answer) (auto simp: call_frames refuses)

lemma store_install_rotated_policy_entry:
  "aligned_out out \<Longrightarrow> mesh_secure_store_install_rotated_policy en handle (Data_ptr a) (length a)
      (Data_ptr b) (length b) now out w =
     answer 0 (on_stores (secure_store_install_rotated_policy (en_suite en) handle a b now) w)"
  unfolding mesh_secure_store_install_rotated_policy_def data_ptr(1) by (rule with_out_answer)
      (auto simp: call_frames refuses)

lemma store_export_policy_entry:
  "aligned_out out \<Longrightarrow> mesh_secure_store_export_policy en handle now out w =
     answer buffer_default (boxed en (read_stores (secure_store_export_policy (en_suite en) handle now)) w)"
  unfolding mesh_secure_store_export_policy_def data_ptr(1) by (rule with_out_answer) (auto simp: call_frames refuses)

lemma create_enrollment_request_entry:
  "aligned_out out \<Longrightarrow> mesh_create_enrollment_request en (Data_ptr a) (length a) (Data_ptr b) (length b)
      (Data_ptr c) (length c) now out w =
     answer buffer_default (boxed en (on_random (create_enrollment_request_from_policy (en_suite en) (en_kem en)
         (en_fill en) a b c now)) w)"
  unfolding mesh_create_enrollment_request_def data_ptr(1) by (rule with_out_answer) (auto simp: call_frames refuses)

lemma identity_public_entry:
  "aligned_out out \<Longrightarrow> mesh_identity_public en (Data_ptr a) (length a) out w =
     answer buffer_default (boxed en (pure_call (identity_public (en_suite en) a)) w)"
  unfolding mesh_identity_public_def data_ptr(1) by (rule with_out_answer) (auto simp: call_frames refuses)

lemma store_accept_routed_entry:
  "writable_out out \<Longrightarrow> mesh_secure_store_accept_routed en handle (Data_ptr a) (length a) (Data_ptr b)
      (length b) now out w =
     answer 0 (on_stores (secure_store_accept_routed (en_suite en) (en_disk en) handle a b now) w)"
  unfolding mesh_secure_store_accept_routed_def data_ptr(1) by (rule with_out_answer) (auto simp: call_frames refuses)

lemma store_enqueue_text_entry:
  "writable_out out \<Longrightarrow> mesh_secure_store_enqueue_text en handle (Data_ptr a) (length a) (Data_ptr b)
      (length b) now out w =
     answer 0 (on_stores_random (secure_store_enqueue_text (en_suite en) (en_kem en) (en_fill en) (en_disk en) handle a b now) w)"
  unfolding mesh_secure_store_enqueue_text_def data_ptr(1) by (rule with_out_answer) (auto simp: call_frames refuses)

lemma store_enqueue_text_with_logical_id_entry:
  "writable_out out \<Longrightarrow> mesh_secure_store_enqueue_text_with_logical_id en handle (Data_ptr a) (length a)
      (Data_ptr b) (length b) (Data_ptr c) (length c) now out w =
     answer 0 ((\<lambda>w. bind_st (array16 (Data_ptr c) (length c), w) (\<lambda>logical. on_stores_random
         (secure_store_enqueue_text_with_logical_id (en_suite en) (en_kem en) (en_fill en) (en_disk en) handle a b logical now))) w)"
  unfolding mesh_secure_store_enqueue_text_with_logical_id_def data_ptr(1) by (rule with_out_answer)
      (auto simp: call_frames refuses array16_def)

lemma store_latest_delivery_summary_entry:
  "aligned_out out \<Longrightarrow> mesh_secure_store_latest_delivery_summary en handle now out w =
     answer buffer_default (boxed en (read_stores (secure_store_latest_delivery_summary handle now)) w)"
  unfolding mesh_secure_store_latest_delivery_summary_def data_ptr(1) by (rule with_out_answer)
      (auto simp: call_frames refuses)

lemma store_delivery_summary_entry:
  "aligned_out out \<Longrightarrow> mesh_secure_store_delivery_summary en handle (Data_ptr a) (length a) now out w =
     answer buffer_default (boxed en (\<lambda>w. bind_st (array16 (Data_ptr a) (length a), w)
         (\<lambda>logical. read_stores (secure_store_delivery_summary handle logical now))) w)"
  unfolding mesh_secure_store_delivery_summary_def data_ptr(1) by (rule with_out_answer)
      (auto simp: call_frames refuses array16_def)

lemma store_finalize_next_text_entry:
  "aligned_out out \<Longrightarrow> mesh_secure_store_finalize_next_text en handle (Data_ptr a) (length a)
      (Data_ptr b) (length b) now out w =
     answer buffer_default (boxed_unless_empty en (on_stores (secure_store_finalize_next_text (en_suite en)
         (en_kem en) handle a b now)) w)"
  unfolding mesh_secure_store_finalize_next_text_def data_ptr(1) by (rule with_out_answer) (auto simp: call_frames refuses)

lemma store_outbox_record_entry:
  "aligned_out out \<Longrightarrow> mesh_secure_store_outbox_record en handle slot now out w =
     answer buffer_default (boxed_unless_empty en (read_stores (secure_store_outbox_record
         (en_suite en) handle slot now)) w)"
  unfolding mesh_secure_store_outbox_record_def data_ptr(1) by (rule with_out_answer) (auto simp: call_frames refuses)

lemma store_receipt_record_entry:
  "aligned_out out \<Longrightarrow> mesh_secure_store_receipt_record en handle slot now out w =
     answer buffer_default (boxed_unless_empty en (read_stores (secure_store_receipt_record
         (en_suite en) handle slot now)) w)"
  unfolding mesh_secure_store_receipt_record_def data_ptr(1) by (rule with_out_answer) (auto simp: call_frames refuses)

lemma store_receipt_ack_record_entry:
  "aligned_out out \<Longrightarrow> mesh_secure_store_receipt_ack_record en handle (Data_ptr a) (length a) slot now out w =
     answer buffer_default (boxed_unless_empty en (on_stores (secure_store_receipt_ack_record
         (en_suite en) handle a slot now)) w)"
  unfolding mesh_secure_store_receipt_ack_record_def data_ptr(1) by (rule with_out_answer) (auto simp: call_frames refuses)

lemma store_relay_record_entry:
  "aligned_out out \<Longrightarrow> mesh_secure_store_relay_record en handle slot now out w =
     answer buffer_default (boxed_unless_empty en (read_stores (secure_store_relay_record (en_suite en) handle slot now)) w)"
  unfolding mesh_secure_store_relay_record_def data_ptr(1) by (rule with_out_answer) (auto simp: call_frames refuses)

lemma store_relay_received_from_entry:
  "aligned_out out \<Longrightarrow> mesh_secure_store_relay_received_from en handle now out w =
     answer buffer_default (boxed_unless_empty en (read_stores (secure_store_relay_received_from handle now)) w)"
  unfolding mesh_secure_store_relay_received_from_def data_ptr(1) by (rule with_out_answer) (auto simp: call_frames refuses)

lemma store_relay_receipt_record_entry:
  "aligned_out out \<Longrightarrow> mesh_secure_store_relay_receipt_record en handle slot now out w =
     answer buffer_default (boxed_unless_empty en (read_stores (secure_store_relay_receipt_record handle slot now)) w)"
  unfolding mesh_secure_store_relay_receipt_record_def data_ptr(1) by (rule with_out_answer) (auto simp: call_frames refuses)

lemma store_relay_receipt_received_from_entry:
  "aligned_out out \<Longrightarrow> mesh_secure_store_relay_receipt_received_from en handle now out w =
     answer buffer_default (boxed_unless_empty en (read_stores (secure_store_relay_receipt_received_from handle now)) w)"
  unfolding mesh_secure_store_relay_receipt_received_from_def data_ptr(1) by (rule with_out_answer)
      (auto simp: call_frames refuses)

lemma store_relay_receipt_ack_record_entry:
  "aligned_out out \<Longrightarrow> mesh_secure_store_relay_receipt_ack_record en handle slot now out w =
     answer buffer_default (boxed_unless_empty en (read_stores (secure_store_relay_receipt_ack_record handle slot now)) w)"
  unfolding mesh_secure_store_relay_receipt_ack_record_def data_ptr(1) by (rule with_out_answer)
      (auto simp: call_frames refuses)

lemma store_relay_receipt_ack_received_from_entry:
  "aligned_out out \<Longrightarrow> mesh_secure_store_relay_receipt_ack_received_from en handle now out w =
     answer buffer_default (boxed_unless_empty en (read_stores (secure_store_relay_receipt_ack_received_from handle now)) w)"
  unfolding mesh_secure_store_relay_receipt_ack_received_from_def data_ptr(1) by (rule with_out_answer)
      (auto simp: call_frames refuses)

text \<open>One engine and world for the witnesses, with the first free address as the next one.\<close>

definition sample_engine :: "(unit, arr32, bytes, bytes, unit, unit) engine" where
  "sample_engine = \<lparr>en_suite = sample_suite, en_kem = sample_kem, en_noise = plain_noise, en_fill = zero_source,
     en_disk = (\<lambda>_. True),
     en_texts = sample_texts, en_cipher = (\<lambda>_ _. sample_cipher), en_version = [48], en_build = [49],
     en_place = (\<lambda>m _. LEAST a. a \<noteq> 0 \<and> m a = None)\<rparr>"

definition sample_world :: "(unit, unit, unit) world" where
  "sample_world = \<lparr>wd_runtimes = \<lparr>rg_next = 1, rg_runtimes = []\<rparr>, wd_stores = native_registry_new,
     wd_sessions = native_registry_new, wd_gates = native_registry_new, wd_files = (\<lambda>_. sample_file), wd_rng = (),
     wd_blocks = (\<lambda>_. None)\<rparr>"

end
