(* ===== verification/Mesh_C_Heap.thy ===== *)
theory Mesh_C_Heap
  imports Mesh_C_Calls
begin

text \<open>
  The buffers that the C entry points hand out: in any run of a host that releases what it was given
  once, the heap holds exactly the buffers that the host still owns, with the bytes it was given.
\<close>

section \<open>What a call does to the heap\<close>

text \<open>What \<open>Box\<close> relies on: a block of bytes is placed where none is, and never at the null
    address.\<close>

definition place_ok :: "('r, 'k, 'q, 'o, 'h, 't) engine \<Rightarrow> bool" where
  "place_ok en \<longleftrightarrow> (\<forall>m bs. finite (dom m) \<longrightarrow> en_place en m bs \<noteq> 0
      \<and> (bs \<noteq> [] \<longrightarrow> m (en_place en m bs) = None))"

definition keeps_heap :: "(('r, 'h, 't) world \<Rightarrow> 'a \<times> ('r, 'h, 't) world) \<Rightarrow> bool" where
  "keeps_heap f \<longleftrightarrow> (\<forall>w. wd_blocks (snd (f w)) = wd_blocks w)"

definition gives_buffer ::
    "('r, 'k, 'q, 'o, 'h, 't) engine \<Rightarrow> (('r, 'h, 't) world \<Rightarrow>
        (i32 \<times> mesh_buffer option) \<times> ('r, 'h, 't) world) \<Rightarrow> bool" where
  "gives_buffer en f \<longleftrightarrow> (\<forall>w code out w'. f w = ((code, out), w') \<longrightarrow>
     (wd_blocks w' = wd_blocks w \<and> (\<forall>b. out = Some b \<longrightarrow> mb_len b = 0)) \<or>
     (\<exists>bs. bs \<noteq> [] \<and> code = 0 \<and> out = Some \<lparr>mb_ptr = en_place en
         (wd_blocks w) bs, mb_len = length bs\<rparr> \<and>
        wd_blocks w' = (wd_blocks w)(en_place en (wd_blocks w) bs \<mapsto> bs)))"

named_theorems heap_rules "effects of the frames of the entry points on the heap"

lemma keeps_frames [heap_rules]:
  "keeps_heap (pure_call r)" "keeps_heap (on_runtimes f1)" "keeps_heap (on_stores f2)" "keeps_heap (read_stores f3)"
  "keeps_heap (on_stores_random f4)" "keeps_heap (on_random f5)" "keeps_heap (on_sessions f6)"
  "keeps_heap (on_sessions_random f7)" "keeps_heap (read_sessions f8)" "keeps_heap (on_gates f9)"
  "keeps_heap (on_file path f10)" "keeps_heap (on_file_stores path f11)"
  by (auto simp: keeps_heap_def pure_call_def on_runtimes_def on_stores_def read_stores_def on_stores_random_def
      on_random_def
      on_sessions_def on_sessions_random_def read_sessions_def on_gates_def on_file_def on_file_stores_def split: prod.split)

lemma keeps_check [heap_rules]:
  assumes "\<And>x. keeps_heap (f x)"
  shows "keeps_heap (\<lambda>w. bind_st (r, w) f)"
  using assms by (cases r) (simp_all add: keeps_heap_def)

lemma keeps_if [heap_rules]: "keeps_heap f \<Longrightarrow> keeps_heap (\<lambda>w. if c then (x, w) else f w)"
  by (simp add: keeps_heap_def)

lemma keepsI: "(\<And>w r w'. f w = (r, w') \<Longrightarrow> wd_blocks w' = wd_blocks w) \<Longrightarrow> keeps_heap f"
  by (simp add: keeps_heap_def) (metis prod.collapse)

lemma keepsD: "keeps_heap f \<Longrightarrow> f w = (r, w') \<Longrightarrow> wd_blocks w' = wd_blocks w"
  unfolding keeps_heap_def by (metis snd_conv)

lemma keeps_snd: "keeps_heap f \<Longrightarrow> wd_blocks (snd (f w)) = wd_blocks w"
  by (simp add: keeps_heap_def)

lemma keeps_with_out [heap_rules]: "keeps_heap run \<Longrightarrow> keeps_heap (with_out ok initial refused run)"
  by (rule keepsI) (auto simp: with_out_def status_def split: prod.splits sum.splits if_splits dest: keepsD)

lemma keeps_without_out [heap_rules]: "keeps_heap run \<Longrightarrow> keeps_heap (without_out refused run)"
  by (rule keepsI) (auto simp: without_out_def split: prod.splits if_splits dest: keepsD)

lemma gives_boxed [heap_rules]:
  assumes "keeps_heap run"
  shows "gives_buffer en (with_out ok buffer_default refused (boxed en run))"
    and "gives_buffer en (with_out ok buffer_default refused (boxed_unless_empty en run))"
proof -
  note k = keepsD [OF assms]
  show "gives_buffer en (with_out ok buffer_default refused (boxed en run))"
    "gives_buffer en (with_out ok buffer_default refused (boxed_unless_empty en run))"
    unfolding gives_buffer_def with_out_def boxed_def boxed_unless_empty_def
    by (auto simp: status_def box_raw_def buffer_default_def bind_st_def Let_def k split: prod.splits sum.splits if_splits)
qed

section \<open>The entry points\<close>

text \<open>The entry points that hand out a buffer, and the others.\<close>

inductive buffer_entry ::
    "('r, 'k, 'q, 'o, 'h, 't) engine \<Rightarrow> (('r, 'h, 't) world \<Rightarrow>
        (i32 \<times> mesh_buffer option) \<times> ('r, 'h, 't) world) \<Rightarrow> bool"
  for en where
"buffer_entry en (mesh_runtime_request en handle input len out)"
| "buffer_entry en (mesh_link_frame_encode en input input_len out)"
| "buffer_entry en (mesh_link_frame_decode en input input_len out)"
| "buffer_entry en (mesh_routed_record_encode en frame frame_len rec rec_len out)"
| "buffer_entry en (mesh_routed_record_decode en input input_len out)"
| "buffer_entry en (mesh_relay_gate_accept en handle frame frame_len via via_len now out)"
| "buffer_entry en (mesh_secure_store_discovery_tag en handle now out)"
| "buffer_entry en (mesh_secure_session_write en handle now out)"
| "buffer_entry en (mesh_secure_session_authenticate en handle identity_seed identity_seed_len now out)"
| "buffer_entry en (mesh_secure_session_send en handle input input_len now out)"
| "buffer_entry en (mesh_secure_session_receive en handle input input_len now out)"
| "buffer_entry en (mesh_secure_store_issue_enrollment en handle identity_seed identity_seed_len req req_len now out)"
| "buffer_entry en (mesh_secure_store_prepare_authority_handoff en handle identity_seed identity_seed_len successor
    successor_len valid_until now out)"
| "buffer_entry en (mesh_secure_store_sign_cloud_relay en handle identity_seed identity_seed_len canonical
    canonical_len now out)"
| "buffer_entry en (mesh_secure_store_rotate_authority en handle successor_seed successor_seed_len handoff handoff_len
    now out)"
| "buffer_entry en (mesh_secure_store_export_policy en handle now out)"
| "buffer_entry en (mesh_create_enrollment_request en identity_seed identity_seed_len delivery_seed delivery_seed_len
    invitation invitation_len now out)"
| "buffer_entry en (mesh_identity_public en seed len out)"
| "buffer_entry en (mesh_secure_store_latest_delivery_summary en handle now out)"
| "buffer_entry en (mesh_secure_store_delivery_summary en handle logical_id logical_id_len now out)"
| "buffer_entry en (mesh_secure_store_finalize_next_text en handle identity_seed identity_seed_len delivery_seed
    delivery_seed_len now out)"
| "buffer_entry en (mesh_secure_store_outbox_record en handle slot now out)"
| "buffer_entry en (mesh_secure_store_receipt_record en handle slot now out)"
| "buffer_entry en (mesh_secure_store_receipt_ack_record en handle identity_seed identity_seed_len slot now out)"
| "buffer_entry en (mesh_secure_store_relay_record en handle slot now out)"
| "buffer_entry en (mesh_secure_store_relay_received_from en handle now out)"
| "buffer_entry en (mesh_secure_store_relay_receipt_record en handle slot now out)"
| "buffer_entry en (mesh_secure_store_relay_receipt_received_from en handle now out)"
| "buffer_entry en (mesh_secure_store_relay_receipt_ack_record en handle slot now out)"
| "buffer_entry en (mesh_secure_store_relay_receipt_ack_received_from en handle now out)"

inductive plain_entry :: "('r, 'k, 'q, 'o, 'h, 't) engine \<Rightarrow> (('r, 'h, 't) world \<Rightarrow>
    ('r, 'h, 't) world) \<Rightarrow> bool"
  for en where
"plain_entry en (\<lambda>w. snd (mesh_runtime_create en version out w))"
| "plain_entry en (\<lambda>w. snd (mesh_runtime_release en handle w))"
| "plain_entry en (\<lambda>w. snd (mesh_relay_gate_open en member member_len out w))"
| "plain_entry en (\<lambda>w. snd (mesh_relay_gate_release en handle w))"
| "plain_entry en (\<lambda>w. snd (mesh_secure_store_probe en key key_len member member_len path path_len w))"
| "plain_entry en (\<lambda>w. snd (mesh_secure_store_open en key key_len member member_len path path_len out w))"
| "plain_entry en (\<lambda>w. snd (mesh_secure_store_release en handle w))"
| "plain_entry en (\<lambda>w. snd (mesh_secure_store_policy_epoch en handle now out w))"
| "plain_entry en (\<lambda>w. snd (mesh_secure_session_start en store_handle session_seed session_seed_len member
    member_len role now out w))"
| "plain_entry en (\<lambda>w. snd (mesh_secure_session_read en handle input input_len now w))"
| "plain_entry en (\<lambda>w. snd (mesh_secure_session_finish en handle now w))"
| "plain_entry en (\<lambda>w. snd (mesh_secure_session_authenticated en handle out w))"
| "plain_entry en (\<lambda>w. snd (mesh_secure_session_peer en handle out w))"
| "plain_entry en (\<lambda>w. snd (mesh_secure_session_release en handle w))"
| "plain_entry en (\<lambda>w. snd (mesh_secure_store_create_group en handle identity_seed identity_seed_len
    delivery_seed delivery_seed_len member member_len now out w))"
| "plain_entry en (\<lambda>w. snd (mesh_secure_store_can_issue_enrollment en handle identity_seed identity_seed_len
    now out w))"
| "plain_entry en (\<lambda>w. snd (mesh_enrollment_request_member en req req_len now out w))"
| "plain_entry en (\<lambda>w. snd (mesh_secure_store_install_policy en handle policy policy_len now out w))"
| "plain_entry en (\<lambda>w. snd (mesh_secure_store_install_rotated_policy en handle policy policy_len handoff
    handoff_len now out w))"
| "plain_entry en (\<lambda>w. snd (mesh_secure_store_accept_routed en handle input input_len received_from
    received_from_len now out w))"
| "plain_entry en (\<lambda>w. snd (mesh_secure_store_enqueue_text en handle identity_seed identity_seed_len plaintext
    plaintext_len now out w))"
| "plain_entry en (\<lambda>w. snd (mesh_secure_store_enqueue_text_with_logical_id en handle identity_seed
    identity_seed_len plaintext plaintext_len logical_id logical_id_len now out w))"

lemmas buffer_entry_defs =
  mesh_runtime_request_def [abs_def]
  mesh_link_frame_encode_def [abs_def]
  mesh_link_frame_decode_def [abs_def]
  mesh_routed_record_encode_def [abs_def]
  mesh_routed_record_decode_def [abs_def]
  mesh_relay_gate_accept_def [abs_def]
  mesh_secure_store_discovery_tag_def [abs_def]
  mesh_secure_session_write_def [abs_def]
  mesh_secure_session_authenticate_def [abs_def]
  mesh_secure_session_send_def [abs_def]
  mesh_secure_session_receive_def [abs_def]
  mesh_secure_store_issue_enrollment_def [abs_def]
  mesh_secure_store_prepare_authority_handoff_def [abs_def]
  mesh_secure_store_sign_cloud_relay_def [abs_def]
  mesh_secure_store_rotate_authority_def [abs_def]
  mesh_secure_store_export_policy_def [abs_def]
  mesh_create_enrollment_request_def [abs_def]
  mesh_identity_public_def [abs_def]
  mesh_secure_store_latest_delivery_summary_def [abs_def]
  mesh_secure_store_delivery_summary_def [abs_def]
  mesh_secure_store_finalize_next_text_def [abs_def]
  mesh_secure_store_outbox_record_def [abs_def]
  mesh_secure_store_receipt_record_def [abs_def]
  mesh_secure_store_receipt_ack_record_def [abs_def]
  mesh_secure_store_relay_record_def [abs_def]
  mesh_secure_store_relay_received_from_def [abs_def]
  mesh_secure_store_relay_receipt_record_def [abs_def]
  mesh_secure_store_relay_receipt_received_from_def [abs_def]
  mesh_secure_store_relay_receipt_ack_record_def [abs_def]
  mesh_secure_store_relay_receipt_ack_received_from_def [abs_def]

lemmas plain_entry_defs =
  mesh_runtime_create_def [abs_def]
  mesh_runtime_release_def [abs_def]
  mesh_relay_gate_open_def [abs_def]
  mesh_relay_gate_release_def [abs_def]
  mesh_secure_store_probe_def [abs_def]
  mesh_secure_store_open_def [abs_def]
  mesh_secure_store_release_def [abs_def]
  mesh_secure_store_policy_epoch_def [abs_def]
  mesh_secure_session_start_def [abs_def]
  mesh_secure_session_read_def [abs_def]
  mesh_secure_session_finish_def [abs_def]
  mesh_secure_session_authenticated_def [abs_def]
  mesh_secure_session_peer_def [abs_def]
  mesh_secure_session_release_def [abs_def]
  mesh_secure_store_create_group_def [abs_def]
  mesh_secure_store_can_issue_enrollment_def [abs_def]
  mesh_enrollment_request_member_def [abs_def]
  mesh_secure_store_install_policy_def [abs_def]
  mesh_secure_store_install_rotated_policy_def [abs_def]
  mesh_secure_store_accept_routed_def [abs_def]
  mesh_secure_store_enqueue_text_def [abs_def]
  mesh_secure_store_enqueue_text_with_logical_id_def [abs_def]

lemma buffer_entry_gives: "buffer_entry en f \<Longrightarrow> gives_buffer en f"
  by (induction rule: buffer_entry.induct) (simp only: buffer_entry_defs, (rule heap_rules)+)+

lemma gives_cases:
  assumes "gives_buffer en f" and "f w = ((code, out), w')"
  shows "wd_blocks w' = wd_blocks w \<and> (\<forall>b. out = Some b \<longrightarrow> mb_len b = 0) \<or>
     (\<exists>bs. bs \<noteq> [] \<and> code = 0 \<and> out = Some \<lparr>mb_ptr = en_place en
         (wd_blocks w) bs, mb_len = length bs\<rparr> \<and>
        wd_blocks w' = (wd_blocks w)(en_place en (wd_blocks w) bs \<mapsto> bs))"
  by (rule assms(1) [unfolded gives_buffer_def, rule_format, OF assms(2)])

lemma plain_entry_keeps: "plain_entry en f \<Longrightarrow> wd_blocks (f w) = wd_blocks w"
  by (induction rule: plain_entry.induct) (simp only: plain_entry_defs, rule keeps_snd, (rule heap_rules)+)+

section \<open>Owning buffers\<close>

text \<open>
  A host with the buffers that it owns, each with what was at its address when it was given, which
  need not be a block. The host takes every buffer that is not empty, and releases what it owns, or an
  empty buffer.
\<close>

type_synonym ('r, 'h, 't) owner = "(mesh_buffer \<times> bytes option) list \<times> ('r, 'h, 't) world"

inductive host_moves ::
    "('r, 'k, 'q, 'o, 'h, 't) engine \<Rightarrow> ('r, 'h, 't) owner \<Rightarrow>
        ('r, 'h, 't) owner \<Rightarrow> bool" for en where
  "plain_entry en f \<Longrightarrow> host_moves en (owned, w) (owned, f w)"
| "buffer_entry en f \<Longrightarrow> f w = ((code, out), w') \<Longrightarrow>
    (\<forall>b. out = Some b \<longrightarrow> mb_len b = 0) \<Longrightarrow> host_moves en (owned, w) (owned, w')"
| "buffer_entry en f \<Longrightarrow> f w = ((code, Some b), w') \<Longrightarrow> mb_len b \<noteq> 0 \<Longrightarrow>
    host_moves en (owned, w) ((b, wd_blocks w' (mb_ptr b)) # owned, w')"
| "(b, given) \<in> set owned \<Longrightarrow> host_moves en (owned, w) (remove1 (b, given) owned, mesh_buffer_release b w)"
| "mb_len b = 0 \<Longrightarrow> host_moves en (owned, w) (owned, mesh_buffer_release b w)"

text \<open>The heap is what the host owns.\<close>

definition owns :: "('r, 'h, 't) owner \<Rightarrow> bool" where
  "owns = (\<lambda>(owned, w). distinct (map (mb_ptr \<circ> fst) owned) \<and>
     (\<forall>a bs. wd_blocks w a = Some bs \<longleftrightarrow> (\<lparr>mb_ptr = a, mb_len = length bs\<rparr>, Some bs)
         \<in> set owned) \<and>
     (\<forall>(b, given) \<in> set owned. mb_ptr b \<noteq> 0 \<and> (\<exists>bs. given = Some bs \<and> mb_len b = length bs \<and> bs \<noteq> [])))"

lemma owns_finite: "owns (owned, w) \<Longrightarrow> finite (dom (wd_blocks w))"
proof -
  assume "owns (owned, w)"
  then have "dom (wd_blocks w) \<subseteq> (mb_ptr \<circ> fst) ` set owned" by (force simp: owns_def image_iff)
  then show ?thesis by (rule finite_subset) simp
qed

lemma owns_entry:
  assumes "owns (owned, w)" and "(b, given) \<in> set owned"
  shows "\<exists>bs. given = Some bs \<and> b = \<lparr>mb_ptr = mb_ptr b, mb_len = length bs\<rparr> \<and> bs \<noteq> [] \<and> mb_ptr b \<noteq> 0 \<and>
    wd_blocks w (mb_ptr b) = Some bs"
  using assms by (cases b) (auto simp: owns_def)

lemma owns_given:
  assumes o: "owns (owned, w)" and a: "a \<noteq> 0" and bs: "bs \<noteq> []" and free: "wd_blocks w a = None"
    and w': "wd_blocks w' = (wd_blocks w)(a \<mapsto> bs)"
  shows "owns ((\<lparr>mb_ptr = a, mb_len = length bs\<rparr>, Some bs) # owned, w')"
proof -
  have no: "mb_ptr b \<noteq> a" if "(b, given) \<in> set owned" for b given
    using owns_entry [OF o that] free by auto
  then have fresh: "a \<notin> (mb_ptr \<circ> fst) ` set owned" by force
  show ?thesis
    unfolding owns_def prod.case
  proof (intro conjI allI)
    show "distinct (map (mb_ptr \<circ> fst) ((\<lparr>mb_ptr = a, mb_len = length bs\<rparr>, Some bs) # owned))"
      using o fresh by (simp add: owns_def)
    show "\<forall>(b, given) \<in> set ((\<lparr>mb_ptr = a, mb_len = length bs\<rparr>, Some bs) # owned).
        mb_ptr b \<noteq> 0 \<and> (\<exists>bs. given = Some bs \<and> mb_len b = length bs \<and> bs \<noteq> [])"
      using o a bs by (simp add: owns_def)
    show "wd_blocks w' a' = Some bs' \<longleftrightarrow> (\<lparr>mb_ptr = a', mb_len = length bs'\<rparr>, Some bs')
        \<in> set ((\<lparr>mb_ptr = a, mb_len = length bs\<rparr>, Some bs) # owned)" for a' bs'
    proof (cases "a' = a")
      case True
      then show ?thesis using no by (force simp: w')
    next
      case False
      then show ?thesis using o by (simp add: w' owns_def)
    qed
  qed
qed

lemma owns_released:
  assumes o: "owns (owned, w)" and m: "(b, given) \<in> set owned"
  shows "owns (remove1 (b, given) owned, mesh_buffer_release b w)"
proof -
  have d: "distinct (map (mb_ptr \<circ> fst) owned)" using o by (simp add: owns_def)
  obtain bs where b: "given = Some bs" "mb_len b = length bs" "bs \<noteq> []" "mb_ptr b \<noteq> 0"
    using owns_entry [OF o m] by (metis mesh_buffer.select_convs(2))
  have set: "set (remove1 (b, given) owned) = set owned - {(b, given)}" using d by (simp add: distinct_map)
  have other: "mb_ptr c \<noteq> mb_ptr b" if "(c, x) \<in> set owned" "(c, x) \<noteq> (b, given)" for c x
    using inj_onD [of "mb_ptr \<circ> fst" "set owned" "(c, x)" "(b, given)"] d that m by (auto simp: distinct_map)
  have w: "wd_blocks (mesh_buffer_release b w) = (wd_blocks w)(mb_ptr b := None)"
    using b by (simp add: mesh_buffer_release_def)
  show ?thesis
    unfolding owns_def prod.case
  proof (intro conjI allI)
    show "distinct (map (mb_ptr \<circ> fst) (remove1 (b, given) owned))"
      using d by (metis distinct_map distinct_remove1 inj_on_subset set_remove1_subset)
    show "\<forall>(c, x) \<in> set (remove1 (b, given) owned). mb_ptr c \<noteq> 0 \<and> (\<exists>cs. x = Some cs \<and> mb_len c = length cs \<and> cs \<noteq> [])"
      using o by (auto simp: set owns_def)
    show "wd_blocks (mesh_buffer_release b w) a = Some cs \<longleftrightarrow>
        (\<lparr>mb_ptr = a, mb_len = length cs\<rparr>, Some cs) \<in> set (remove1 (b, given) owned)" for a cs
    proof (cases "a = mb_ptr b")
      case True
      then show ?thesis using other [of "\<lparr>mb_ptr = a, mb_len = length cs\<rparr>" "Some cs"] by (auto simp: set w)
    next
      case False
      then have "(\<lparr>mb_ptr = a, mb_len = length cs\<rparr>, Some cs) \<noteq> (b, given)" by auto
      moreover have "wd_blocks w a = Some cs \<longleftrightarrow> (\<lparr>mb_ptr = a, mb_len = length cs\<rparr>, Some cs)
          \<in> set owned"
        using o by (simp add: owns_def)
      ultimately show ?thesis using False by (simp add: set w)
    qed
  qed
qed

lemma host_moves_owns:
  assumes "place_ok en" and "host_moves en x y" and "owns x"
  shows "owns y"
  using assms(2)
proof cases
  case (1 f owned w)
  then show ?thesis using assms(3) plain_entry_keeps [OF 1(3)] by (simp add: owns_def)
next
  case (2 f w code out w' owned)
  then have "wd_blocks w' = wd_blocks w" using gives_cases [OF buffer_entry_gives [OF 2(3)] 2(4)] 2(5) by fastforce
  then show ?thesis using assms(3) 2 by (simp add: owns_def)
next
  case (3 f w code b w' owned)
  then obtain cs where cs: "cs \<noteq> []" "b = \<lparr>mb_ptr = en_place en (wd_blocks w) cs, mb_len = length cs\<rparr>"
    "wd_blocks w' = (wd_blocks w)(en_place en (wd_blocks w) cs \<mapsto> cs)"
    using gives_cases [OF buffer_entry_gives [OF 3(3)] 3(4)] 3(5) by auto
  moreover have "wd_blocks w' (mb_ptr b) = Some cs" using cs by simp
  moreover have "finite (dom (wd_blocks w))" using assms(3) owns_finite 3 by blast
  ultimately show ?thesis using owns_given [of owned w "en_place en (wd_blocks w) cs" cs w'] assms 3 by
      (simp add: place_ok_def)
next
  case (4 b given owned w)
  then show ?thesis using owns_released assms(3) by blast
next
  case (5 b owned w)
  then show ?thesis using assms(3) by (simp add: owns_def mesh_buffer_release_def)
qed

text \<open>
  C26: native memory is exact. Whatever entry points a host calls, in whatever order, every buffer it
  is given that is not empty points to a block of its own with as many bytes as it says, and until
  it is released the block is there with the bytes it was given with: no two of them overlap and none
  is changed or freed by another call. Nothing else is allocated, so that nothing leaks - a host
  that owns nothing has left nothing.
\<close>

theorem buffers_exact:
  assumes "place_ok en" and "wd_blocks w = (\<lambda>a. None)" and "(host_moves en)\<^sup>*\<^sup>* ([], w) (owned, w')"
  shows "distinct (map (mb_ptr \<circ> fst) owned) \<and>
    (\<forall>(b, given) \<in> set owned. mb_ptr b \<noteq> 0 \<and>
      (\<exists>bs. given = Some bs \<and> mb_len b = length bs \<and> wd_blocks w' (mb_ptr b) = Some bs)) \<and>
    dom (wd_blocks w') = (mb_ptr \<circ> fst) ` set owned \<and> (owned = [] \<longrightarrow> wd_blocks w' = (\<lambda>a. None))"
proof -
  have "owns x \<Longrightarrow> (host_moves en)\<^sup>*\<^sup>* x y \<Longrightarrow> owns y" for x y
    by (rotate_tac, induction rule: rtranclp_induct) (auto intro: host_moves_owns [OF assms(1)])
  moreover have "owns ([], w)" using assms(2) by (simp add: owns_def)
  ultimately have o: "owns (owned, w')" using assms(3) by blast
  have at: "mb_ptr b \<noteq> 0 \<and> (\<exists>bs. given = Some bs \<and> mb_len b = length bs \<and> wd_blocks w' (mb_ptr b) = Some bs)"
    if "(b, given) \<in> set owned" for b given
    using owns_entry [OF o that] by (metis mesh_buffer.select_convs(2))
  then have "dom (wd_blocks w') = (mb_ptr \<circ> fst) ` set owned" using o by (force simp: owns_def image_iff)
  then show ?thesis using o at by (auto simp: owns_def)
qed

lemma sample_place_ok: "place_ok sample_engine"
  unfolding place_ok_def
proof (intro allI impI)
  fix m :: blocks and bs :: bytes
  assume "finite (dom m)"
  then obtain a where "a \<notin> insert 0 (dom m)" using ex_new_if_finite [of "insert 0 (dom m)"] by auto
  then have "a \<noteq> 0 \<and> m a = None" by auto
  from LeastI [of "\<lambda>a. a \<noteq> 0 \<and> m a = None", OF this]
  show "en_place sample_engine m bs \<noteq> 0 \<and> (bs \<noteq> [] \<longrightarrow> m
      (en_place sample_engine m bs) = None)"
    by (simp add: sample_engine_def)
qed

theorem buffers_exact_witness:
  "\<exists>b w. mesh_link_frame_encode sample_engine (Data_ptr [7]) 1 8 sample_world = ((0, Some b), w) \<and>
     wd_blocks w (mb_ptr b) = Some [1, 0, 1, 7] \<and> wd_blocks (mesh_buffer_release b w) = (\<lambda>a. None)"
proof -
  let ?a = "en_place sample_engine (\<lambda>a. None) [1, 0, 1, 7]"
  let ?b = "\<lparr>mb_ptr = ?a, mb_len = 4\<rparr>" and ?w = "sample_world\<lparr>wd_blocks := [?a \<mapsto> [1, 0, 1,
      7]]\<rparr>"
  have be: "be_bytes (1 :: u16) = [0, 1]" by (simp add: be_bytes_def upt_rec)
  have f: "mesh_link_frame_encode sample_engine (Data_ptr [7]) 1 8 sample_world = ((0, Some ?b), ?w)"
    by (simp add: mesh_link_frame_encode_def with_out_def boxed_def pure_call_def link_frame_encode_def frame_new_def
        frame_encode_def
        raw_parts_def is_null_def aligned_out_def box_raw_def Let_def status_def sample_world_def)
      (simp only: be append_Cons append_Nil simp_thms)
  have "host_moves sample_engine ([], sample_world) ([(?b, Some [1, 0, 1, 7])], ?w)"
    using host_moves.intros(3) [OF buffer_entry.intros(2) f] by simp
  moreover have "host_moves sample_engine ([(?b, Some [1, 0, 1, 7])], ?w) ([], mesh_buffer_release ?b ?w)"
    using host_moves.intros(4) [of ?b "Some [1, 0, 1, 7]" "[(?b, Some [1, 0, 1, 7])]" sample_engine ?w] by simp
  ultimately have run: "(host_moves sample_engine)\<^sup>*\<^sup>* ([], sample_world) ([], mesh_buffer_release ?b ?w)"
    by (rule converse_rtranclp_into_rtranclp [OF _ r_into_rtranclp])
  have "wd_blocks sample_world = (\<lambda>a. None)" by (simp add: sample_world_def)
  from buffers_exact [OF sample_place_ok this run] f show ?thesis by simp
qed

end
