(* ===== verification/Mesh_Jni.thy ===== *)
theory Mesh_Jni
  imports Mesh_C_Calls
begin

text \<open>
  The JNI entry points of \<open>crates/mesh-ffi-jni/src/lib.rs\<close>, the methods of \<open>NativeBridge\<close>. A
      Java array or
  string is null or its bytes; a result is the returned value with the code of the exception that was
  thrown, if any. Whether the virtual machine has room for a new array is an argument.
\<close>

section \<open>Java values\<close>

type_synonym jlong = "64 word"
type_synonym jint = "32 word"
type_synonym jboolean = u8

datatype java_array = No_array | Java_bytes bytes

text \<open>\<open>get_array_length\<close>, an error for null, and the checks of the length that follow it.\<close>

definition array_is :: "java_array \<Rightarrow> nat \<Rightarrow> bool" where
  "array_is a n = (case a of No_array \<Rightarrow> False | Java_bytes bs \<Rightarrow> length bs = n)"

definition array_within :: "java_array \<Rightarrow> nat \<Rightarrow> nat \<Rightarrow> bool" where
  "array_within a low high = (case a of No_array \<Rightarrow> False | Java_bytes bs \<Rightarrow> low \<le> length bs
      \<and> length bs \<le> high)"

text \<open>\<open>convert_byte_array\<close> after that check, and \<open>get_string\<close> with
    \<open>to_str\<close>.\<close>

definition array_bytes_of :: "java_array \<Rightarrow> bytes" where
  "array_bytes_of a = (case a of No_array \<Rightarrow> [] | Java_bytes bs \<Rightarrow> bs)"

definition string_of :: "java_array \<Rightarrow> api_error + bytes" where
  "string_of a = (case a of No_array \<Rightarrow> Inl InvalidArgument | Java_bytes bs \<Rightarrow> path_of bs)"

definition slot_ok :: "jint \<Rightarrow> bool" where
  "slot_ok slot \<longleftrightarrow> 0 \<le> sint slot \<and> sint slot \<le> 65535"

text \<open>
  The frame of an entry point: the checks, the call, and \<open>failure\<close>, which throws an exception with the
  code. \<open>output_bytes\<close> makes an array of the result, null when there is no room.
\<close>

definition java_call ::
    "'v \<Rightarrow> bool \<Rightarrow> ('w \<Rightarrow> (api_error + 'v) \<times> 'w) \<Rightarrow> 'w \<Rightarrow>
        ('v \<times> i32 option) \<times> 'w" where
  "java_call none refused run w =
     (if refused then ((none, Some (error_code InvalidArgument)), w)
      else
        case run w of
          (Inr v, w) \<Rightarrow> ((v, None), w)
        | (Inl e, w) \<Rightarrow> ((none, Some (error_code e)), w))"

definition new_array :: "(bytes \<Rightarrow> bool) \<Rightarrow> bytes \<Rightarrow> java_array" where
  "new_array room bs = (if room bs then Java_bytes bs else No_array)"

definition output_bytes ::
    "(bytes \<Rightarrow> bool) \<Rightarrow> ('w \<Rightarrow> (api_error + bytes) \<times> 'w) \<Rightarrow> 'w
        \<Rightarrow> (api_error + java_array) \<times> 'w" where
  "output_bytes room run w = bind_st (run w) (\<lambda>bs w. (Inr (new_array room bs), w))"

definition returning :: "('a \<Rightarrow> 'v) \<Rightarrow> ('w \<Rightarrow>
    (api_error + 'a) \<times> 'w) \<Rightarrow> 'w \<Rightarrow> (api_error + 'v) \<times> 'w" where
  "returning f run w = bind_st (run w) (\<lambda>x w. (Inr (f x), w))"

section \<open>Runtimes, frames and gates\<close>

definition NativeBridge_abiVersion :: jint where
  "NativeBridge_abiVersion = 1"

definition NativeBridge_create ::
    "('r, 'k, 'q, 'o, 'h, 't) engine \<Rightarrow> jint \<Rightarrow> ('r, 'h, 't) world
     \<Rightarrow> (jlong \<times> i32 option) \<times> ('r, 'h, 't) world" where
  "NativeBridge_create en version w =
     java_call 0
       (False)
       (on_runtimes (create version)) w"

definition NativeBridge_request ::
    "('r, 'k, 'q, 'o, 'h, 't) engine \<Rightarrow> (bytes \<Rightarrow> bool) \<Rightarrow> jlong \<Rightarrow>
        java_array \<Rightarrow> ('r, 'h, 't) world
     \<Rightarrow> (java_array \<times> i32 option) \<times> ('r, 'h, 't) world" where
  "NativeBridge_request en room handle input w =
     java_call No_array
       (\<not> array_within input 1 64)
       (output_bytes room (on_runtimes (request (en_version en) (en_build en) handle (array_bytes_of input)))) w"

definition NativeBridge_release ::
    "('r, 'k, 'q, 'o, 'h, 't) engine \<Rightarrow> jlong \<Rightarrow> ('r, 'h, 't) world
     \<Rightarrow> (unit \<times> i32 option) \<times> ('r, 'h, 't) world" where
  "NativeBridge_release en handle w =
     java_call ()
       (False)
       (on_runtimes (release handle)) w"

definition NativeBridge_linkFrameEncode ::
    "('r, 'k, 'q, 'o, 'h, 't) engine \<Rightarrow> (bytes \<Rightarrow> bool) \<Rightarrow> java_array \<Rightarrow>
        ('r, 'h, 't) world
     \<Rightarrow> (java_array \<times> i32 option) \<times> ('r, 'h, 't) world" where
  "NativeBridge_linkFrameEncode en room input w =
     java_call No_array
       (\<not> array_within input 1 4160)
       (output_bytes room (pure_call (link_frame_encode (array_bytes_of input)))) w"

definition NativeBridge_linkFrameDecode ::
    "('r, 'k, 'q, 'o, 'h, 't) engine \<Rightarrow> (bytes \<Rightarrow> bool) \<Rightarrow> java_array \<Rightarrow>
        ('r, 'h, 't) world
     \<Rightarrow> (java_array \<times> i32 option) \<times> ('r, 'h, 't) world" where
  "NativeBridge_linkFrameDecode en room input w =
     java_call No_array
       (\<not> array_within input 3 4163)
       (output_bytes room (pure_call (link_frame_decode (array_bytes_of input)))) w"

definition NativeBridge_routedRecordEncode ::
    "('r, 'k, 'q, 'o, 'h, 't) engine \<Rightarrow> (bytes \<Rightarrow> bool) \<Rightarrow> java_array \<Rightarrow>
        java_array \<Rightarrow> ('r, 'h, 't) world
     \<Rightarrow> (java_array \<times> i32 option) \<times> ('r, 'h, 't) world" where
  "NativeBridge_routedRecordEncode en room frame rec w =
     java_call No_array
       (\<not> array_is frame 91 \<or> \<not> array_within rec 1 4003)
       (output_bytes room (pure_call (routed_record_encode (array_bytes_of frame) (array_bytes_of rec)))) w"

definition NativeBridge_routedRecordDecode ::
    "('r, 'k, 'q, 'o, 'h, 't) engine \<Rightarrow> (bytes \<Rightarrow> bool) \<Rightarrow> java_array \<Rightarrow>
        ('r, 'h, 't) world
     \<Rightarrow> (java_array \<times> i32 option) \<times> ('r, 'h, 't) world" where
  "NativeBridge_routedRecordDecode en room input w =
     java_call No_array
       (\<not> array_within input 1 4096)
       (output_bytes room (pure_call (routed_record_decode (array_bytes_of input)))) w"

definition NativeBridge_relayGateOpen ::
    "('r, 'k, 'q, 'o, 'h, 't) engine \<Rightarrow> java_array \<Rightarrow> ('r, 'h, 't) world
     \<Rightarrow> (jlong \<times> i32 option) \<times> ('r, 'h, 't) world" where
  "NativeBridge_relayGateOpen en member w =
     java_call 0
       (\<not> array_is member 32)
       (on_gates (relay_gate_open (array_bytes_of member))) w"

definition NativeBridge_relayGateAccept ::
    "('r, 'k, 'q, 'o, 'h, 't) engine \<Rightarrow> (bytes \<Rightarrow> bool) \<Rightarrow> jlong \<Rightarrow>
        java_array \<Rightarrow> java_array \<Rightarrow> jlong \<Rightarrow> ('r, 'h, 't) world
     \<Rightarrow> (java_array \<times> i32 option) \<times> ('r, 'h, 't) world" where
  "NativeBridge_relayGateAccept en room handle frame via now w =
     java_call No_array
       (sint now \<le> 0 \<or> \<not> array_is frame 91 \<or> \<not> array_is via 32)
       (output_bytes room (on_gates (relay_gate_accept handle (array_bytes_of frame) (array_bytes_of via) now))) w"

definition NativeBridge_relayGateRelease ::
    "('r, 'k, 'q, 'o, 'h, 't) engine \<Rightarrow> jlong \<Rightarrow> ('r, 'h, 't) world
     \<Rightarrow> (unit \<times> i32 option) \<times> ('r, 'h, 't) world" where
  "NativeBridge_relayGateRelease en handle w =
     java_call ()
       (False)
       (on_gates (relay_gate_release handle)) w"

section \<open>Stores\<close>

definition NativeBridge_secureStoreProbe ::
    "('r, 'k, 'q, 'o, 'h, 't) engine \<Rightarrow> java_array \<Rightarrow> java_array \<Rightarrow> java_array
        \<Rightarrow> ('r, 'h, 't) world
     \<Rightarrow> (unit \<times> i32 option) \<times> ('r, 'h, 't) world" where
  "NativeBridge_secureStoreProbe en key member path w =
     java_call ()
       (\<not> array_is key 32 \<or> \<not> array_is member 32)
       (\<lambda>w. bind_st (string_of path, w) (\<lambda>path.
          on_file path (secure_store_probe (hash (en_suite en)) (en_texts en) (en_cipher en path) (array_bytes_of key)
              (array_bytes_of member) path))) w"

definition NativeBridge_secureStoreOpen ::
    "('r, 'k, 'q, 'o, 'h, 't) engine \<Rightarrow> java_array \<Rightarrow> java_array \<Rightarrow> java_array
        \<Rightarrow> ('r, 'h, 't) world
     \<Rightarrow> (jlong \<times> i32 option) \<times> ('r, 'h, 't) world" where
  "NativeBridge_secureStoreOpen en key member path w =
     java_call 0
       (\<not> array_is key 32 \<or> \<not> array_is member 32)
       (\<lambda>w. bind_st (string_of path, w) (\<lambda>path.
          on_file_stores path (secure_store_open (hash (en_suite en)) (en_texts en) (en_cipher en path)
              (array_bytes_of key) (array_bytes_of member) path))) w"

definition NativeBridge_secureStoreRelease ::
    "('r, 'k, 'q, 'o, 'h, 't) engine \<Rightarrow> jlong \<Rightarrow> ('r, 'h, 't) world
     \<Rightarrow> (unit \<times> i32 option) \<times> ('r, 'h, 't) world" where
  "NativeBridge_secureStoreRelease en handle w =
     java_call ()
       (False)
       (on_stores (secure_store_release handle)) w"

definition NativeBridge_secureStorePolicyEpoch ::
    "('r, 'k, 'q, 'o, 'h, 't) engine \<Rightarrow> jlong \<Rightarrow> jlong \<Rightarrow> ('r, 'h, 't) world
     \<Rightarrow> (jlong \<times> i32 option) \<times> ('r, 'h, 't) world" where
  "NativeBridge_secureStorePolicyEpoch en handle now w =
     java_call 0
       (False)
       (read_stores (secure_store_policy_epoch (en_suite en) handle now)) w"

definition NativeBridge_secureStoreDiscoveryTag ::
    "('r, 'k, 'q, 'o, 'h, 't) engine \<Rightarrow> (bytes \<Rightarrow> bool) \<Rightarrow> jlong \<Rightarrow> jlong
        \<Rightarrow> ('r, 'h, 't) world
     \<Rightarrow> (java_array \<times> i32 option) \<times> ('r, 'h, 't) world" where
  "NativeBridge_secureStoreDiscoveryTag en room handle now w =
     java_call No_array
       (False)
       (output_bytes room (read_stores (secure_store_discovery_tag (en_suite en) handle now))) w"

definition NativeBridge_secureStoreAwareNeighbors ::
    "('r, 'k, 'q, 'o, 'h, 't) engine \<Rightarrow> (bytes \<Rightarrow> bool) \<Rightarrow> jlong \<Rightarrow> jlong
        \<Rightarrow> ('r, 'h, 't) world
     \<Rightarrow> (java_array \<times> i32 option) \<times> ('r, 'h, 't) world" where
  "NativeBridge_secureStoreAwareNeighbors en room handle now w =
     java_call No_array
       (False)
       (output_bytes room (read_stores (secure_store_aware_neighbors (en_suite en) handle now))) w"

section \<open>Messages and records\<close>

definition NativeBridge_secureStoreAcceptRouted ::
    "('r, 'k, 'q, 'o, 'h, 't) engine \<Rightarrow> jlong \<Rightarrow> java_array \<Rightarrow> java_array
        \<Rightarrow> jlong \<Rightarrow> ('r, 'h, 't) world
     \<Rightarrow> (jint \<times> i32 option) \<times> ('r, 'h, 't) world" where
  "NativeBridge_secureStoreAcceptRouted en handle input received_from now w =
     java_call 0
       (sint now \<le> 0 \<or> \<not> array_within input 1 4096 \<or> \<not> array_is received_from 32)
       (returning ucast (on_stores (secure_store_accept_routed (en_suite en) (en_disk en) handle (array_bytes_of input)
           (array_bytes_of received_from) now))) w"

definition NativeBridge_secureStoreEnqueueText ::
    "('r, 'k, 'q, 'o, 'h, 't) engine \<Rightarrow> jlong \<Rightarrow> java_array \<Rightarrow> java_array
        \<Rightarrow> jlong \<Rightarrow> ('r, 'h, 't) world
     \<Rightarrow> (jint \<times> i32 option) \<times> ('r, 'h, 't) world" where
  "NativeBridge_secureStoreEnqueueText en handle identity_seed plaintext now w =
     java_call 0
       (sint now \<le> 0 \<or> \<not> array_is identity_seed 32 \<or> \<not> array_within plaintext 1 (48 * 1024))
       (returning ucast (on_stores_random (secure_store_enqueue_text (en_suite en) (en_kem en) (en_fill en) (en_disk en) handle
           (array_bytes_of identity_seed) (array_bytes_of plaintext) now))) w"

definition NativeBridge_secureStoreEnqueueTextWithLogicalId ::
    "('r, 'k, 'q, 'o, 'h, 't) engine \<Rightarrow> jlong \<Rightarrow> java_array \<Rightarrow> java_array
        \<Rightarrow> java_array \<Rightarrow> jlong \<Rightarrow> ('r, 'h, 't) world
     \<Rightarrow> (jint \<times> i32 option) \<times> ('r, 'h, 't) world" where
  "NativeBridge_secureStoreEnqueueTextWithLogicalId en handle identity_seed plaintext logical_id now w =
     java_call 0
       (sint now \<le> 0 \<or> \<not> array_is identity_seed 32 \<or> \<not> array_is logical_id 16 \<or> \<not>
           array_within plaintext 1 (48 * 1024))
       (returning ucast (on_stores_random (secure_store_enqueue_text_with_logical_id (en_suite en) (en_kem en)
           (en_fill en) (en_disk en) handle (array_bytes_of identity_seed) (array_bytes_of plaintext)
          (be_word (array_bytes_of logical_id)) now))) w"

definition NativeBridge_secureStoreLatestDeliverySummary ::
    "('r, 'k, 'q, 'o, 'h, 't) engine \<Rightarrow> (bytes \<Rightarrow> bool) \<Rightarrow> jlong \<Rightarrow> jlong
        \<Rightarrow> ('r, 'h, 't) world
     \<Rightarrow> (java_array \<times> i32 option) \<times> ('r, 'h, 't) world" where
  "NativeBridge_secureStoreLatestDeliverySummary en room handle now w =
     java_call No_array
       (sint now \<le> 0)
       (output_bytes room (read_stores (secure_store_latest_delivery_summary handle now))) w"

definition NativeBridge_secureStoreDeliverySummary ::
    "('r, 'k, 'q, 'o, 'h, 't) engine \<Rightarrow> (bytes \<Rightarrow> bool) \<Rightarrow> jlong \<Rightarrow>
        java_array \<Rightarrow> jlong \<Rightarrow> ('r, 'h, 't) world
     \<Rightarrow> (java_array \<times> i32 option) \<times> ('r, 'h, 't) world" where
  "NativeBridge_secureStoreDeliverySummary en room handle logical_id now w =
     java_call No_array
       (sint now \<le> 0 \<or> \<not> array_is logical_id 16)
       (output_bytes room (read_stores (secure_store_delivery_summary handle (be_word (array_bytes_of logical_id)) now))) w"

definition NativeBridge_secureStoreOutboxRecord ::
    "('r, 'k, 'q, 'o, 'h, 't) engine \<Rightarrow> (bytes \<Rightarrow> bool) \<Rightarrow> jlong \<Rightarrow> jint
        \<Rightarrow> jlong \<Rightarrow> ('r, 'h, 't) world
     \<Rightarrow> (java_array \<times> i32 option) \<times> ('r, 'h, 't) world" where
  "NativeBridge_secureStoreOutboxRecord en room handle slot now w =
     java_call No_array
       (sint now \<le> 0 \<or> \<not> slot_ok slot)
       (output_bytes room (read_stores (secure_store_outbox_record (en_suite en) handle (ucast slot) now))) w"

definition NativeBridge_secureStoreReceiptRecord ::
    "('r, 'k, 'q, 'o, 'h, 't) engine \<Rightarrow> (bytes \<Rightarrow> bool) \<Rightarrow> jlong \<Rightarrow> jint
        \<Rightarrow> jlong \<Rightarrow> ('r, 'h, 't) world
     \<Rightarrow> (java_array \<times> i32 option) \<times> ('r, 'h, 't) world" where
  "NativeBridge_secureStoreReceiptRecord en room handle slot now w =
     java_call No_array
       (sint now \<le> 0 \<or> \<not> slot_ok slot)
       (output_bytes room (read_stores (secure_store_receipt_record (en_suite en) handle (ucast slot) now))) w"

definition NativeBridge_secureStoreFinalizeNextText ::
    "('r, 'k, 'q, 'o, 'h, 't) engine \<Rightarrow> (bytes \<Rightarrow> bool) \<Rightarrow> jlong \<Rightarrow>
        java_array \<Rightarrow> java_array \<Rightarrow> jlong \<Rightarrow> ('r, 'h, 't) world
     \<Rightarrow> (java_array \<times> i32 option) \<times> ('r, 'h, 't) world" where
  "NativeBridge_secureStoreFinalizeNextText en room handle identity_seed delivery_seed now w =
     java_call No_array
       (sint now \<le> 0 \<or> \<not> array_is identity_seed 32 \<or> \<not> array_is delivery_seed 32)
       (output_bytes room (on_stores (secure_store_finalize_next_text (en_suite en) (en_kem en) handle
           (array_bytes_of identity_seed) (array_bytes_of delivery_seed) now))) w"

definition NativeBridge_secureStoreReceiptAckRecord ::
    "('r, 'k, 'q, 'o, 'h, 't) engine \<Rightarrow> (bytes \<Rightarrow> bool) \<Rightarrow> jlong \<Rightarrow>
        java_array \<Rightarrow> jint \<Rightarrow> jlong \<Rightarrow> ('r, 'h, 't) world
     \<Rightarrow> (java_array \<times> i32 option) \<times> ('r, 'h, 't) world" where
  "NativeBridge_secureStoreReceiptAckRecord en room handle identity_seed slot now w =
     java_call No_array
       (sint now \<le> 0 \<or> \<not> slot_ok slot \<or> \<not> array_is identity_seed 32)
       (output_bytes room (on_stores (secure_store_receipt_ack_record (en_suite en) handle
           (array_bytes_of identity_seed) (ucast slot) now))) w"

definition NativeBridge_secureStoreRelayRecord ::
    "('r, 'k, 'q, 'o, 'h, 't) engine \<Rightarrow> (bytes \<Rightarrow> bool) \<Rightarrow> jlong \<Rightarrow> jint
        \<Rightarrow> jlong \<Rightarrow> ('r, 'h, 't) world
     \<Rightarrow> (java_array \<times> i32 option) \<times> ('r, 'h, 't) world" where
  "NativeBridge_secureStoreRelayRecord en room handle slot now w =
     java_call No_array
       (sint now \<le> 0 \<or> \<not> slot_ok slot)
       (output_bytes room (read_stores (secure_store_relay_record (en_suite en) handle (ucast slot) now))) w"

definition NativeBridge_secureStoreRelayReceivedFrom ::
    "('r, 'k, 'q, 'o, 'h, 't) engine \<Rightarrow> (bytes \<Rightarrow> bool) \<Rightarrow> jlong \<Rightarrow> jlong
        \<Rightarrow> ('r, 'h, 't) world
     \<Rightarrow> (java_array \<times> i32 option) \<times> ('r, 'h, 't) world" where
  "NativeBridge_secureStoreRelayReceivedFrom en room handle now w =
     java_call No_array
       (sint now \<le> 0)
       (output_bytes room (read_stores (secure_store_relay_received_from handle now))) w"

definition NativeBridge_secureStoreRelayReceiptRecord ::
    "('r, 'k, 'q, 'o, 'h, 't) engine \<Rightarrow> (bytes \<Rightarrow> bool) \<Rightarrow> jlong \<Rightarrow> jint
        \<Rightarrow> jlong \<Rightarrow> ('r, 'h, 't) world
     \<Rightarrow> (java_array \<times> i32 option) \<times> ('r, 'h, 't) world" where
  "NativeBridge_secureStoreRelayReceiptRecord en room handle slot now w =
     java_call No_array
       (sint now \<le> 0 \<or> \<not> slot_ok slot)
       (output_bytes room (read_stores (secure_store_relay_receipt_record handle (ucast slot) now))) w"

definition NativeBridge_secureStoreRelayReceiptReceivedFrom ::
    "('r, 'k, 'q, 'o, 'h, 't) engine \<Rightarrow> (bytes \<Rightarrow> bool) \<Rightarrow> jlong \<Rightarrow> jlong
        \<Rightarrow> ('r, 'h, 't) world
     \<Rightarrow> (java_array \<times> i32 option) \<times> ('r, 'h, 't) world" where
  "NativeBridge_secureStoreRelayReceiptReceivedFrom en room handle now w =
     java_call No_array
       (sint now \<le> 0)
       (output_bytes room (read_stores (secure_store_relay_receipt_received_from handle now))) w"

definition NativeBridge_secureStoreRelayReceiptAckRecord ::
    "('r, 'k, 'q, 'o, 'h, 't) engine \<Rightarrow> (bytes \<Rightarrow> bool) \<Rightarrow> jlong \<Rightarrow> jint
        \<Rightarrow> jlong \<Rightarrow> ('r, 'h, 't) world
     \<Rightarrow> (java_array \<times> i32 option) \<times> ('r, 'h, 't) world" where
  "NativeBridge_secureStoreRelayReceiptAckRecord en room handle slot now w =
     java_call No_array
       (sint now \<le> 0 \<or> \<not> slot_ok slot)
       (output_bytes room (read_stores (secure_store_relay_receipt_ack_record handle (ucast slot) now))) w"

definition NativeBridge_secureStoreRelayReceiptAckReceivedFrom ::
    "('r, 'k, 'q, 'o, 'h, 't) engine \<Rightarrow> (bytes \<Rightarrow> bool) \<Rightarrow> jlong \<Rightarrow> jlong
        \<Rightarrow> ('r, 'h, 't) world
     \<Rightarrow> (java_array \<times> i32 option) \<times> ('r, 'h, 't) world" where
  "NativeBridge_secureStoreRelayReceiptAckReceivedFrom en room handle now w =
     java_call No_array
       (sint now \<le> 0)
       (output_bytes room (read_stores (secure_store_relay_receipt_ack_received_from handle now))) w"

section \<open>Sessions\<close>

definition NativeBridge_secureSessionStart ::
    "('r, 'k, 'q, 'o, 'h, 't) engine \<Rightarrow> jlong \<Rightarrow> java_array \<Rightarrow> java_array
        \<Rightarrow> jint \<Rightarrow> jlong \<Rightarrow> ('r, 'h, 't) world
     \<Rightarrow> (jlong \<times> i32 option) \<times> ('r, 'h, 't) world" where
  "NativeBridge_secureSessionStart en store_handle session_seed member role now w =
     java_call 0
       (sint now \<le> 0 \<or> \<not> (0 \<le> sint role \<and> sint role \<le> 1) \<or> \<not> array_is session_seed
           32 \<or> \<not> array_is member 32)
       (on_sessions_random (secure_session_start (en_suite en) (en_noise en) (en_fill en) store_handle
           (array_bytes_of session_seed) (array_bytes_of member) (ucast role) now)) w"

definition NativeBridge_secureSessionWrite ::
    "('r, 'k, 'q, 'o, 'h, 't) engine \<Rightarrow> (bytes \<Rightarrow> bool) \<Rightarrow> jlong \<Rightarrow> jlong
        \<Rightarrow> ('r, 'h, 't) world
     \<Rightarrow> (java_array \<times> i32 option) \<times> ('r, 'h, 't) world" where
  "NativeBridge_secureSessionWrite en room handle now w =
     java_call No_array
       (sint now \<le> 0)
       (output_bytes room (on_sessions (\<lambda>_. secure_session_write (en_noise en) handle now))) w"

definition NativeBridge_secureSessionRead ::
    "('r, 'k, 'q, 'o, 'h, 't) engine \<Rightarrow> jlong \<Rightarrow> java_array \<Rightarrow> jlong \<Rightarrow>
        ('r, 'h, 't) world
     \<Rightarrow> (unit \<times> i32 option) \<times> ('r, 'h, 't) world" where
  "NativeBridge_secureSessionRead en handle input now w =
     java_call ()
       (sint now \<le> 0 \<or> \<not> array_within input 1 96)
       (on_sessions (\<lambda>_. secure_session_read (en_noise en) handle (array_bytes_of input) now)) w"

definition NativeBridge_secureSessionFinish ::
    "('r, 'k, 'q, 'o, 'h, 't) engine \<Rightarrow> jlong \<Rightarrow> jlong \<Rightarrow> ('r, 'h, 't) world
     \<Rightarrow> (unit \<times> i32 option) \<times> ('r, 'h, 't) world" where
  "NativeBridge_secureSessionFinish en handle now w =
     java_call ()
       (sint now \<le> 0)
       (on_sessions (secure_session_finish (en_suite en) (en_noise en) handle now)) w"

definition NativeBridge_secureSessionAuthenticate ::
    "('r, 'k, 'q, 'o, 'h, 't) engine \<Rightarrow> (bytes \<Rightarrow> bool) \<Rightarrow> jlong \<Rightarrow>
        java_array \<Rightarrow> jlong \<Rightarrow> ('r, 'h, 't) world
     \<Rightarrow> (java_array \<times> i32 option) \<times> ('r, 'h, 't) world" where
  "NativeBridge_secureSessionAuthenticate en room handle identity_seed now w =
     java_call No_array
       (sint now \<le> 0 \<or> \<not> array_is identity_seed 32)
       (output_bytes room (on_sessions (secure_session_authenticate (en_suite en) (en_noise en) handle
           (array_bytes_of identity_seed) now))) w"

definition NativeBridge_secureSessionSend ::
    "('r, 'k, 'q, 'o, 'h, 't) engine \<Rightarrow> (bytes \<Rightarrow> bool) \<Rightarrow> jlong \<Rightarrow>
        java_array \<Rightarrow> jlong \<Rightarrow> ('r, 'h, 't) world
     \<Rightarrow> (java_array \<times> i32 option) \<times> ('r, 'h, 't) world" where
  "NativeBridge_secureSessionSend en room handle input now w =
     java_call No_array
       (sint now \<le> 0 \<or> \<not> array_within input 1 4096)
       (output_bytes room (on_sessions (secure_session_send (en_suite en) (en_noise en) handle
           (array_bytes_of input) now))) w"

definition NativeBridge_secureSessionReceive ::
    "('r, 'k, 'q, 'o, 'h, 't) engine \<Rightarrow> (bytes \<Rightarrow> bool) \<Rightarrow> jlong \<Rightarrow>
        java_array \<Rightarrow> jlong \<Rightarrow> ('r, 'h, 't) world
     \<Rightarrow> (java_array \<times> i32 option) \<times> ('r, 'h, 't) world" where
  "NativeBridge_secureSessionReceive en room handle input now w =
     java_call No_array
       (sint now \<le> 0 \<or> \<not> array_within input 58 4154)
       (output_bytes room (on_sessions (secure_session_receive (en_suite en) (en_noise en) handle
           (array_bytes_of input) now))) w"

definition NativeBridge_secureSessionAuthenticated ::
    "('r, 'k, 'q, 'o, 'h, 't) engine \<Rightarrow> jlong \<Rightarrow> ('r, 'h, 't) world
     \<Rightarrow> (jboolean \<times> i32 option) \<times> ('r, 'h, 't) world" where
  "NativeBridge_secureSessionAuthenticated en handle w =
     java_call 0
       (False)
       (returning (\<lambda>b. if b then 1 else 0) (read_sessions (secure_session_authenticated handle))) w"

definition NativeBridge_secureSessionPeer ::
    "('r, 'k, 'q, 'o, 'h, 't) engine \<Rightarrow> (bytes \<Rightarrow> bool) \<Rightarrow> jlong \<Rightarrow>
        ('r, 'h, 't) world
     \<Rightarrow> (java_array \<times> i32 option) \<times> ('r, 'h, 't) world" where
  "NativeBridge_secureSessionPeer en room handle w =
     java_call No_array
       (False)
       (output_bytes room (read_sessions (\<lambda>g. bindr (secure_session_peer handle g) (\<lambda>m. Inr
           (be_bytes m))))) w"

definition NativeBridge_secureSessionRelease ::
    "('r, 'k, 'q, 'o, 'h, 't) engine \<Rightarrow> jlong \<Rightarrow> ('r, 'h, 't) world
     \<Rightarrow> (unit \<times> i32 option) \<times> ('r, 'h, 't) world" where
  "NativeBridge_secureSessionRelease en handle w =
     java_call ()
       (False)
       (on_sessions (\<lambda>_. secure_session_release handle)) w"

section \<open>Groups and policies\<close>

definition NativeBridge_secureStoreCreateGroup ::
    "('r, 'k, 'q, 'o, 'h, 't) engine \<Rightarrow> jlong \<Rightarrow> java_array \<Rightarrow> java_array
        \<Rightarrow> java_array \<Rightarrow> jlong \<Rightarrow> ('r, 'h, 't) world
     \<Rightarrow> (jlong \<times> i32 option) \<times> ('r, 'h, 't) world" where
  "NativeBridge_secureStoreCreateGroup en handle identity_seed delivery_seed member now w =
     java_call 0
       (sint now \<le> 0 \<or> \<not> array_is identity_seed 32 \<or> \<not> array_is delivery_seed 32 \<or> \<not>
           array_is member 32)
       (on_stores_random (secure_store_create_group (en_suite en) (en_kem en) (en_fill en) handle
           (array_bytes_of identity_seed) (array_bytes_of delivery_seed)
          (array_bytes_of member) now)) w"

definition NativeBridge_secureStoreIssueEnrollment ::
    "('r, 'k, 'q, 'o, 'h, 't) engine \<Rightarrow> (bytes \<Rightarrow> bool) \<Rightarrow> jlong \<Rightarrow>
        java_array \<Rightarrow> java_array \<Rightarrow> jlong \<Rightarrow> ('r, 'h, 't) world
     \<Rightarrow> (java_array \<times> i32 option) \<times> ('r, 'h, 't) world" where
  "NativeBridge_secureStoreIssueEnrollment en room handle identity_seed req now w =
     java_call No_array
       (sint now \<le> 0 \<or> \<not> array_is identity_seed 32 \<or> \<not> array_within req 1 512)
       (output_bytes room (on_stores (secure_store_issue_enrollment (en_suite en) handle
           (array_bytes_of identity_seed) (array_bytes_of req) now))) w"

definition NativeBridge_secureStorePrepareAuthorityHandoff ::
    "('r, 'k, 'q, 'o, 'h, 't) engine \<Rightarrow> (bytes \<Rightarrow> bool) \<Rightarrow> jlong \<Rightarrow>
        java_array \<Rightarrow> java_array \<Rightarrow> jlong \<Rightarrow> jlong \<Rightarrow> ('r, 'h, 't) world
     \<Rightarrow> (java_array \<times> i32 option) \<times> ('r, 'h, 't) world" where
  "NativeBridge_secureStorePrepareAuthorityHandoff en room handle identity_seed successor valid_until now w =
     java_call No_array
       (sint now \<le> 0 \<or> sint valid_until \<le> sint now \<or> \<not> array_is identity_seed 32 \<or> \<not>
           array_is successor 32)
       (output_bytes room (read_stores (secure_store_prepare_authority_handoff (en_suite en) handle
           (array_bytes_of identity_seed) (array_bytes_of successor)
          valid_until now))) w"

definition NativeBridge_secureStoreCanIssueEnrollment ::
    "('r, 'k, 'q, 'o, 'h, 't) engine \<Rightarrow> jlong \<Rightarrow> java_array \<Rightarrow> jlong \<Rightarrow>
        ('r, 'h, 't) world
     \<Rightarrow> (jboolean \<times> i32 option) \<times> ('r, 'h, 't) world" where
  "NativeBridge_secureStoreCanIssueEnrollment en handle identity_seed now w =
     java_call 0
       (sint now \<le> 0 \<or> \<not> array_is identity_seed 32)
       (returning (\<lambda>b. if b then 1 else 0) (read_stores (secure_store_can_issue_enrollment
           (en_suite en) handle (array_bytes_of identity_seed) now))) w"

definition NativeBridge_secureStoreSignCloudRelay ::
    "('r, 'k, 'q, 'o, 'h, 't) engine \<Rightarrow> (bytes \<Rightarrow> bool) \<Rightarrow> jlong \<Rightarrow>
        java_array \<Rightarrow> java_array \<Rightarrow> jlong \<Rightarrow> ('r, 'h, 't) world
     \<Rightarrow> (java_array \<times> i32 option) \<times> ('r, 'h, 't) world" where
  "NativeBridge_secureStoreSignCloudRelay en room handle identity_seed canonical now w =
     java_call No_array
       (sint now \<le> 0 \<or> \<not> array_is identity_seed 32 \<or> \<not> array_within canonical 1 MAX_SIGNED_BYTES)
       (output_bytes room (read_stores (secure_store_sign_cloud_relay (en_suite en) handle
           (array_bytes_of identity_seed) (array_bytes_of canonical) now))) w"

definition NativeBridge_enrollmentRequestMember ::
    "('r, 'k, 'q, 'o, 'h, 't) engine \<Rightarrow> (bytes \<Rightarrow> bool) \<Rightarrow> java_array \<Rightarrow>
        jlong \<Rightarrow> ('r, 'h, 't) world
     \<Rightarrow> (java_array \<times> i32 option) \<times> ('r, 'h, 't) world" where
  "NativeBridge_enrollmentRequestMember en room req now w =
     java_call No_array
       (sint now \<le> 0 \<or> \<not> array_within req 1 512)
       (output_bytes room (pure_call (bindr (enrollment_request_member (en_suite en) (array_bytes_of req) now)
           (\<lambda>m. Inr (be_bytes (member_arr m)))))) w"

definition NativeBridge_secureStoreInstallPolicy ::
    "('r, 'k, 'q, 'o, 'h, 't) engine \<Rightarrow> jlong \<Rightarrow> java_array \<Rightarrow> jlong \<Rightarrow>
        ('r, 'h, 't) world
     \<Rightarrow> (jlong \<times> i32 option) \<times> ('r, 'h, 't) world" where
  "NativeBridge_secureStoreInstallPolicy en handle policy now w =
     java_call 0
       (sint now \<le> 0 \<or> \<not> array_within policy 1 MAX_POLICY_BUNDLE)
       (on_stores (secure_store_install_policy (en_suite en) handle (array_bytes_of policy) now)) w"

definition NativeBridge_secureStoreRotateAuthority ::
    "('r, 'k, 'q, 'o, 'h, 't) engine \<Rightarrow> (bytes \<Rightarrow> bool) \<Rightarrow> jlong \<Rightarrow>
        java_array \<Rightarrow> java_array \<Rightarrow> jlong \<Rightarrow> ('r, 'h, 't) world
     \<Rightarrow> (java_array \<times> i32 option) \<times> ('r, 'h, 't) world" where
  "NativeBridge_secureStoreRotateAuthority en room handle successor_seed handoff now w =
     java_call No_array
       (sint now \<le> 0 \<or> \<not> array_is successor_seed 32 \<or> \<not> array_within handoff 1 MAX_AUTHORITY_HANDOFF)
       (output_bytes room (on_stores (secure_store_rotate_authority (en_suite en) handle
           (array_bytes_of successor_seed) (array_bytes_of handoff) now))) w"

definition NativeBridge_secureStoreInstallRotatedPolicy ::
    "('r, 'k, 'q, 'o, 'h, 't) engine \<Rightarrow> jlong \<Rightarrow> java_array \<Rightarrow> java_array
        \<Rightarrow> jlong \<Rightarrow> ('r, 'h, 't) world
     \<Rightarrow> (jlong \<times> i32 option) \<times> ('r, 'h, 't) world" where
  "NativeBridge_secureStoreInstallRotatedPolicy en handle policy handoff now w =
     java_call 0
       (sint now \<le> 0 \<or> \<not> array_within policy 1 MAX_POLICY_BUNDLE \<or> \<not> array_within handoff 1
           MAX_AUTHORITY_HANDOFF)
       (on_stores (secure_store_install_rotated_policy (en_suite en) handle (array_bytes_of policy)
           (array_bytes_of handoff) now)) w"

definition NativeBridge_secureStoreExportPolicy ::
    "('r, 'k, 'q, 'o, 'h, 't) engine \<Rightarrow> (bytes \<Rightarrow> bool) \<Rightarrow> jlong \<Rightarrow> jlong
        \<Rightarrow> ('r, 'h, 't) world
     \<Rightarrow> (java_array \<times> i32 option) \<times> ('r, 'h, 't) world" where
  "NativeBridge_secureStoreExportPolicy en room handle now w =
     java_call No_array
       (sint now \<le> 0)
       (output_bytes room (read_stores (secure_store_export_policy (en_suite en) handle now))) w"

definition NativeBridge_createEnrollmentRequest ::
    "('r, 'k, 'q, 'o, 'h, 't) engine \<Rightarrow> (bytes \<Rightarrow> bool) \<Rightarrow> java_array \<Rightarrow>
        java_array \<Rightarrow> java_array \<Rightarrow> jlong \<Rightarrow> ('r, 'h, 't) world
     \<Rightarrow> (java_array \<times> i32 option) \<times> ('r, 'h, 't) world" where
  "NativeBridge_createEnrollmentRequest en room identity_seed delivery_seed invitation now w =
     java_call No_array
       (sint now \<le> 0 \<or> \<not> array_is identity_seed 32 \<or> \<not> array_is delivery_seed 32 \<or> \<not>
           array_within invitation 1 MAX_POLICY_BUNDLE)
       (output_bytes room (on_random (create_enrollment_request_from_policy (en_suite en) (en_kem en) (en_fill en)
           (array_bytes_of identity_seed) (array_bytes_of delivery_seed)
          (array_bytes_of invitation) now))) w"

definition NativeBridge_identityPublic ::
    "('r, 'k, 'q, 'o, 'h, 't) engine \<Rightarrow> (bytes \<Rightarrow> bool) \<Rightarrow> java_array \<Rightarrow>
        ('r, 'h, 't) world
     \<Rightarrow> (java_array \<times> i32 option) \<times> ('r, 'h, 't) world" where
  "NativeBridge_identityPublic en room input w =
     java_call No_array
       (\<not> array_is input 32)
       (output_bytes room (pure_call (identity_public (en_suite en) (array_bytes_of input)))) w"

section \<open>What the entry points answer\<close>

text \<open>
  With arrays of any length, right or wrong, and a positive time, an entry point answers what its
  function answers.
\<close>

definition java_answer :: "'v \<Rightarrow> (api_error + 'v) \<times> 'w \<Rightarrow>
    ('v \<times> i32 option) \<times> 'w" where
  "java_answer none m = (case m of (Inl e, w) \<Rightarrow> ((none, Some (error_code e)), w) |
      (Inr v, w) \<Rightarrow> ((v, None), w))"

lemma java_call_answer:
  "(refused \<Longrightarrow> run w = (Inl InvalidArgument, w)) \<Longrightarrow> java_call none refused run w =
      java_answer none (run w)"
  by (auto simp: java_call_def java_answer_def split: prod.split sum.split)

lemma java_array [simp]:
  "array_is (Java_bytes a) n \<longleftrightarrow> length a = n" "array_within
      (Java_bytes a) low high \<longleftrightarrow> low \<le> length a \<and> length a \<le> high"
  "array_bytes_of (Java_bytes a) = a" "\<not> array_is No_array n" "\<not> array_within No_array low high"
  by (simp_all add: array_is_def array_within_def array_bytes_of_def)

lemma at_least_one: "1 \<le> length a \<longleftrightarrow> a \<noteq> []" "Suc 0 \<le> length a \<longleftrightarrow>
    a \<noteq> []"
  by (cases a; simp)+

lemma positive_time: "0 < sint now \<Longrightarrow> now \<noteq> 0" for now :: jlong
  by auto

lemma secureStoreCreateGroup_entry:
  "0 < sint now \<Longrightarrow> NativeBridge_secureStoreCreateGroup en handle (Java_bytes a) (Java_bytes b)
      (Java_bytes c) now w =
     java_answer 0 (on_stores_random (secure_store_create_group (en_suite en) (en_kem en) (en_fill en) handle a b c now) w)"
  unfolding NativeBridge_secureStoreCreateGroup_def java_array(3)
  by (rule java_call_answer)
    (auto simp: call_frames refuses output_bytes_def returning_def at_least_one not_le positive_time split: prod.splits)

lemma secureStoreIssueEnrollment_entry:
  "0 < sint now \<Longrightarrow> NativeBridge_secureStoreIssueEnrollment en room handle (Java_bytes a)
      (Java_bytes b) now w =
     java_answer No_array (output_bytes room (on_stores (secure_store_issue_enrollment (en_suite en) handle a b now)) w)"
  unfolding NativeBridge_secureStoreIssueEnrollment_def java_array(3)
  by (rule java_call_answer)
    (auto simp: call_frames refuses output_bytes_def returning_def at_least_one not_le positive_time split: prod.splits)

lemma secureStoreInstallPolicy_entry:
  "0 < sint now \<Longrightarrow> NativeBridge_secureStoreInstallPolicy en handle (Java_bytes a) now w =
     java_answer 0 (on_stores (secure_store_install_policy (en_suite en) handle a now) w)"
  unfolding NativeBridge_secureStoreInstallPolicy_def java_array(3)
  by (rule java_call_answer)
    (auto simp: call_frames refuses output_bytes_def returning_def at_least_one not_le positive_time split: prod.splits)

lemma secureStoreRotateAuthority_entry:
  "0 < sint now \<Longrightarrow> NativeBridge_secureStoreRotateAuthority en room handle (Java_bytes a)
      (Java_bytes b) now w =
     java_answer No_array (output_bytes room (on_stores (secure_store_rotate_authority (en_suite en) handle a b now)) w)"
  unfolding NativeBridge_secureStoreRotateAuthority_def java_array(3)
  by (rule java_call_answer)
    (auto simp: call_frames refuses output_bytes_def returning_def at_least_one not_le positive_time split: prod.splits)

lemma secureStoreInstallRotatedPolicy_entry:
  "0 < sint now \<Longrightarrow> NativeBridge_secureStoreInstallRotatedPolicy en handle (Java_bytes a)
      (Java_bytes b) now w =
     java_answer 0 (on_stores (secure_store_install_rotated_policy (en_suite en) handle a b now) w)"
  unfolding NativeBridge_secureStoreInstallRotatedPolicy_def java_array(3)
  by (rule java_call_answer)
    (auto simp: call_frames refuses output_bytes_def returning_def at_least_one not_le positive_time split: prod.splits)

lemma secureStoreEnqueueText_entry:
  "0 < sint now \<Longrightarrow> NativeBridge_secureStoreEnqueueText en handle (Java_bytes a) (Java_bytes b) now w =
     java_answer 0 (returning ucast (on_stores_random (secure_store_enqueue_text (en_suite en) (en_kem en)
         (en_fill en) (en_disk en) handle a b now)) w)"
  unfolding NativeBridge_secureStoreEnqueueText_def java_array(3)
  by (rule java_call_answer)
    (auto simp: call_frames refuses output_bytes_def returning_def at_least_one not_le positive_time split: prod.splits)

lemma secureStoreAcceptRouted_entry:
  "0 < sint now \<Longrightarrow> NativeBridge_secureStoreAcceptRouted en handle (Java_bytes a) (Java_bytes b) now w =
     java_answer 0 (returning ucast (on_stores (secure_store_accept_routed (en_suite en) (en_disk en) handle a b now)) w)"
  unfolding NativeBridge_secureStoreAcceptRouted_def java_array(3)
  by (rule java_call_answer)
    (auto simp: call_frames refuses output_bytes_def returning_def at_least_one not_le positive_time split: prod.splits)

lemma secureStoreFinalizeNextText_entry:
  "0 < sint now \<Longrightarrow> NativeBridge_secureStoreFinalizeNextText en room handle (Java_bytes a)
      (Java_bytes b) now w =
     java_answer No_array (output_bytes room (on_stores (secure_store_finalize_next_text (en_suite en)
         (en_kem en) handle a b now)) w)"
  unfolding NativeBridge_secureStoreFinalizeNextText_def java_array(3)
  by (rule java_call_answer)
    (auto simp: call_frames refuses output_bytes_def returning_def at_least_one not_le positive_time split: prod.splits)

lemma secureStoreReceiptAckRecord_entry:
  "0 < sint now \<Longrightarrow> slot_ok slot \<Longrightarrow> NativeBridge_secureStoreReceiptAckRecord en room
      handle (Java_bytes a) slot now w =
     java_answer No_array (output_bytes room (on_stores (secure_store_receipt_ack_record (en_suite en) handle a
         (ucast slot) now)) w)"
  unfolding NativeBridge_secureStoreReceiptAckRecord_def java_array(3)
  by (rule java_call_answer)
    (auto simp: call_frames refuses output_bytes_def returning_def at_least_one not_le positive_time split: prod.splits)

lemma secureSessionStart_entry:
  "0 < sint now \<Longrightarrow> 0 \<le> sint role \<and> sint role \<le> 1 \<Longrightarrow>
      NativeBridge_secureSessionStart en store_handle (Java_bytes a) (Java_bytes b) role now w =
     java_answer 0 (on_sessions_random (secure_session_start (en_suite en) (en_noise en) (en_fill en) store_handle a b
         (ucast role) now) w)"
  unfolding NativeBridge_secureSessionStart_def java_array(3)
  by (rule java_call_answer)
    (auto simp: call_frames refuses output_bytes_def returning_def at_least_one not_le positive_time split: prod.splits)

lemma secureSessionWrite_entry:
  "0 < sint now \<Longrightarrow> NativeBridge_secureSessionWrite en room handle now w =
     java_answer No_array (output_bytes room (on_sessions (\<lambda>_. secure_session_write (en_noise en) handle now)) w)"
  unfolding NativeBridge_secureSessionWrite_def java_array(3)
  by (rule java_call_answer)
    (auto simp: call_frames refuses output_bytes_def returning_def at_least_one not_le positive_time split: prod.splits)

lemma secureSessionSend_entry:
  "0 < sint now \<Longrightarrow> NativeBridge_secureSessionSend en room handle (Java_bytes a) now w =
     java_answer No_array (output_bytes room (on_sessions (secure_session_send (en_suite en) (en_noise en) handle a now)) w)"
  unfolding NativeBridge_secureSessionSend_def java_array(3)
  by (rule java_call_answer)
    (auto simp: call_frames refuses output_bytes_def returning_def at_least_one not_le positive_time split: prod.splits)

lemma secureSessionReceive_entry:
  "0 < sint now \<Longrightarrow> NativeBridge_secureSessionReceive en room handle (Java_bytes a) now w =
     java_answer No_array (output_bytes room (on_sessions (secure_session_receive (en_suite en)
         (en_noise en) handle a now)) w)"
  unfolding NativeBridge_secureSessionReceive_def java_array(3)
  by (rule java_call_answer)
    (auto simp: call_frames refuses output_bytes_def returning_def at_least_one not_le positive_time split: prod.splits)

lemma relayGateAccept_entry:
  "0 < sint now \<Longrightarrow> NativeBridge_relayGateAccept en room handle (Java_bytes a) (Java_bytes b) now w =
     java_answer No_array (output_bytes room (on_gates (relay_gate_accept handle a b now)) w)"
  unfolding NativeBridge_relayGateAccept_def java_array(3)
  by (rule java_call_answer)
    (auto simp: call_frames refuses output_bytes_def returning_def at_least_one not_le positive_time split: prod.splits)

section \<open>The two bindings\<close>

text \<open>
  The bindings check a life differently. The time at which a prepared handoff ends is unsigned in C and
  signed in Java, so that one from 2 ^ 63 on reaches the native function over C only; JNI refuses it.
\<close>

lemma prepare_handoff_bindings_differ:
  assumes "aligned_out out" and "0 < sint now" and "sint until \<le> 0"
  shows "mesh_secure_store_prepare_authority_handoff en handle (Data_ptr a) (length a) (Data_ptr b) (length b) until now out w =
      answer buffer_default (boxed en (read_stores (secure_store_prepare_authority_handoff (en_suite en) handle a b
          until now)) w)"
    and "NativeBridge_secureStorePrepareAuthorityHandoff en room handle (Java_bytes a) (Java_bytes b) until now w =
      ((No_array, Some (error_code InvalidArgument)), w)"
  using assms by (simp_all add: store_prepare_authority_handoff_entry NativeBridge_secureStorePrepareAuthorityHandoff_def
      java_call_def)

text \<open>
  C27: the two bindings agree on the fourteen calls that are listed: founding a group, issuing an
  enrollment, installing a policy, rotating the authority and installing the rotated policy,
  enqueueing and finalizing texts, accepting records, acknowledgements, starting a session, writing,
  sending and receiving on it, and the relay gate. With an out pointer that can be written, arrays of
  any length - right or wrong for the call -, a positive time, a slot that fits sixteen bits and one of
  the two roles, each entry point answers what the same native function answers on the same state, C as
  a status code and JNI as an exception with the same code, and leaves the tables as that function
  does; the checks that they make first refuse only what the function refuses anyway. They differ in
  how they hand out bytes: C boxes them on the heap, JNI copies them to an array for which the virtual
  machine may have no room.
\<close>

theorem bindings_agree:
  assumes "aligned_out out" and "0 < sint now" and "slot_ok slot" and "0 \<le> sint role \<and> sint role \<le> 1"
  shows "(mesh_secure_store_create_group en handle (Data_ptr a) (length a) (Data_ptr b) (length b) (Data_ptr c)
      (length c) now out w =
        answer 0 (on_stores_random (secure_store_create_group (en_suite en) (en_kem en)
            (en_fill en) handle a b c now) w) \<and>
      NativeBridge_secureStoreCreateGroup en handle (Java_bytes a) (Java_bytes b) (Java_bytes c) now w =
        java_answer 0 (on_stores_random (secure_store_create_group (en_suite en) (en_kem en)
            (en_fill en) handle a b c now) w)) \<and>
     (mesh_secure_store_issue_enrollment en handle (Data_ptr a) (length a) (Data_ptr b) (length b) now out w =
        answer buffer_default (boxed en (on_stores (secure_store_issue_enrollment (en_suite en) handle a b now)) w) \<and>
      NativeBridge_secureStoreIssueEnrollment en room handle (Java_bytes a) (Java_bytes b) now w =
        java_answer No_array (output_bytes room (on_stores (secure_store_issue_enrollment
            (en_suite en) handle a b now)) w)) \<and>
     (mesh_secure_store_install_policy en handle (Data_ptr a) (length a) now out w =
        answer 0 (on_stores (secure_store_install_policy (en_suite en) handle a now) w) \<and>
      NativeBridge_secureStoreInstallPolicy en handle (Java_bytes a) now w =
        java_answer 0 (on_stores (secure_store_install_policy (en_suite en) handle a now) w)) \<and>
     (mesh_secure_store_rotate_authority en handle (Data_ptr a) (length a) (Data_ptr b) (length b) now out w =
        answer buffer_default (boxed en (on_stores (secure_store_rotate_authority (en_suite en) handle a b now)) w) \<and>
      NativeBridge_secureStoreRotateAuthority en room handle (Java_bytes a) (Java_bytes b) now w =
        java_answer No_array (output_bytes room (on_stores (secure_store_rotate_authority
            (en_suite en) handle a b now)) w)) \<and>
     (mesh_secure_store_install_rotated_policy en handle (Data_ptr a) (length a) (Data_ptr b) (length b) now out w =
        answer 0 (on_stores (secure_store_install_rotated_policy (en_suite en) handle a b now) w) \<and>
      NativeBridge_secureStoreInstallRotatedPolicy en handle (Java_bytes a) (Java_bytes b) now w =
        java_answer 0 (on_stores (secure_store_install_rotated_policy (en_suite en) handle a b now) w)) \<and>
     (mesh_secure_store_enqueue_text en handle (Data_ptr a) (length a) (Data_ptr b) (length b) now out w =
        answer 0 (on_stores_random (secure_store_enqueue_text (en_suite en) (en_kem en)
            (en_fill en) (en_disk en) handle a b now) w) \<and>
      NativeBridge_secureStoreEnqueueText en handle (Java_bytes a) (Java_bytes b) now w =
        java_answer 0 (returning ucast (on_stores_random (secure_store_enqueue_text (en_suite en) (en_kem en)
            (en_fill en) (en_disk en) handle a b now)) w)) \<and>
     (mesh_secure_store_accept_routed en handle (Data_ptr a) (length a) (Data_ptr b) (length b) now out w =
        answer 0 (on_stores (secure_store_accept_routed (en_suite en) (en_disk en) handle a b now) w) \<and>
      NativeBridge_secureStoreAcceptRouted en handle (Java_bytes a) (Java_bytes b) now w =
        java_answer 0 (returning ucast (on_stores (secure_store_accept_routed (en_suite en) (en_disk en) handle a b now)) w)) \<and>
     (mesh_secure_store_finalize_next_text en handle (Data_ptr a) (length a) (Data_ptr b) (length b) now out w =
        answer buffer_default (boxed_unless_empty en (on_stores (secure_store_finalize_next_text (en_suite en)
            (en_kem en) handle a b now)) w) \<and>
      NativeBridge_secureStoreFinalizeNextText en room handle (Java_bytes a) (Java_bytes b) now w =
        java_answer No_array (output_bytes room (on_stores (secure_store_finalize_next_text (en_suite en)
            (en_kem en) handle a b now)) w)) \<and>
     (mesh_secure_store_receipt_ack_record en handle (Data_ptr a) (length a) (ucast slot) now out w =
        answer buffer_default (boxed_unless_empty en (on_stores (secure_store_receipt_ack_record
            (en_suite en) handle a (ucast slot) now)) w) \<and>
      NativeBridge_secureStoreReceiptAckRecord en room handle (Java_bytes a) slot now w =
        java_answer No_array (output_bytes room (on_stores (secure_store_receipt_ack_record (en_suite en) handle a
            (ucast slot) now)) w)) \<and>
     (mesh_secure_session_start en store_handle (Data_ptr a) (length a) (Data_ptr b) (length b) (ucast role) now out w =
        answer 0 (on_sessions_random (secure_session_start (en_suite en) (en_noise en) (en_fill en) store_handle a b
            (ucast role) now) w) \<and>
      NativeBridge_secureSessionStart en store_handle (Java_bytes a) (Java_bytes b) role now w =
        java_answer 0 (on_sessions_random (secure_session_start (en_suite en) (en_noise en)
            (en_fill en) store_handle a b (ucast role) now) w)) \<and>
     (mesh_secure_session_write en handle now out w =
        answer buffer_default (boxed en (on_sessions (\<lambda>_. secure_session_write (en_noise en) handle now)) w) \<and>
      NativeBridge_secureSessionWrite en room handle now w =
        java_answer No_array (output_bytes room (on_sessions (\<lambda>_. secure_session_write
            (en_noise en) handle now)) w)) \<and>
     (mesh_secure_session_send en handle (Data_ptr a) (length a) now out w =
        answer buffer_default (boxed en (on_sessions (secure_session_send (en_suite en)
            (en_noise en) handle a now)) w) \<and>
      NativeBridge_secureSessionSend en room handle (Java_bytes a) now w =
        java_answer No_array (output_bytes room (on_sessions (secure_session_send (en_suite en)
            (en_noise en) handle a now)) w)) \<and>
     (mesh_secure_session_receive en handle (Data_ptr a) (length a) now out w =
        answer buffer_default (boxed_unless_empty en (on_sessions (secure_session_receive (en_suite en)
            (en_noise en) handle a now)) w) \<and>
      NativeBridge_secureSessionReceive en room handle (Java_bytes a) now w =
        java_answer No_array (output_bytes room (on_sessions (secure_session_receive (en_suite en)
            (en_noise en) handle a now)) w)) \<and>
     (mesh_relay_gate_accept en handle (Data_ptr a) (length a) (Data_ptr b) (length b) now out w =
        answer buffer_default (boxed en (on_gates (relay_gate_accept handle a b now)) w) \<and>
      NativeBridge_relayGateAccept en room handle (Java_bytes a) (Java_bytes b) now w =
        java_answer No_array (output_bytes room (on_gates (relay_gate_accept handle a b now)) w))"
  using assms aligned_writable [OF assms(1)] positive_time [OF assms(2)]
  by (intro conjI) (simp_all only: not_False_eq_True simp_thms store_create_group_entry secureStoreCreateGroup_entry
      store_issue_enrollment_entry secureStoreIssueEnrollment_entry store_install_policy_entry
      secureStoreInstallPolicy_entry store_rotate_authority_entry secureStoreRotateAuthority_entry
      store_install_rotated_policy_entry secureStoreInstallRotatedPolicy_entry store_enqueue_text_entry
      secureStoreEnqueueText_entry store_accept_routed_entry secureStoreAcceptRouted_entry
      store_finalize_next_text_entry secureStoreFinalizeNextText_entry store_receipt_ack_record_entry
      secureStoreReceiptAckRecord_entry session_start_entry secureSessionStart_entry session_write_entry
      secureSessionWrite_entry session_send_entry secureSessionSend_entry session_receive_entry
      secureSessionReceive_entry relay_gate_accept_entry relayGateAccept_entry)

theorem bindings_agree_witness:
  "mesh_secure_store_install_policy sample_engine 1 (Data_ptr [7]) (length [7 :: u8]) 5 16 sample_world =
     answer 0 (on_stores (secure_store_install_policy sample_suite 1 [7] 5) sample_world) \<and>
   NativeBridge_secureStoreInstallPolicy sample_engine 1 (Java_bytes [7]) 5 sample_world =
     java_answer 0 (on_stores (secure_store_install_policy sample_suite 1 [7] 5) sample_world)"
proof -
  have "aligned_out 16" "(0 :: int) < sint (5 :: jlong)" "slot_ok 0" "0 \<le> sint (0 :: jint) \<and> sint
      (0 :: jint) \<le> 1"
    by (simp_all add: aligned_out_def slot_ok_def)
  from bindings_agree [OF this, of sample_engine 1 "[7]"] show ?thesis by (simp add: sample_engine_def)
qed

end
