(* ===== verification/Mesh_Simulation.thy ===== *)
theory Mesh_Simulation
  imports Mesh_Relay Mesh_Transport Mesh_Presence
begin

text \<open>
  The relay topology of \<open>crates/mesh-sim/src/lib.rs\<close>: the relay caches of a whole group, joined by the
  ring of direct links and one fallback link across, and a queue of the frames in flight. \<open>flood\<close> is the
  loop over the queue, which ends for every queue and every state of the caches (\<open>flood_weight\<close>). The
  lemmas follow the levels in which a frame spreads; with them every member of every even group receives
  every message within 13 hops.
\<close>

section \<open>The topology\<close>

record topology_report =
  tr_nodes :: nat
  tr_messages :: nat
  tr_expected :: nat
  tr_deliveries :: nat
  tr_wifi_degree :: nat
  tr_degree :: nat
  tr_max_hops :: u8
  tr_duplicates :: u64
  tr_hop_drops :: u64
  tr_deferrals :: u64
  tr_high_water :: nat

text \<open>What \<open>SimResult\<close> boxes: the errors of the run by their texts, and those of the relay cache.\<close>

datatype sim_error =
  Outside_limits | Degree_budget | Expired_unexpectedly | Not_reached | Durable durable_error

definition member :: "nat \<Rightarrow> member_id" where
  "member index = MemberId (be_word (replicate 32 (of_nat (index + 1))))"

definition neighbors :: "nat \<Rightarrow> nat \<Rightarrow> nat list" where
  "neighbors nodes node =
     bset_of ([(node + nodes - 1) mod nodes, (node + 1) mod nodes] @ [(node + nodes div 2) mod nodes])"

definition wifi_degrees :: "nat \<Rightarrow> nat list" where
  "wifi_degrees nodes = map (\<lambda>_. 2) [0..<nodes]"

section \<open>Frames in flight\<close>

text \<open>A task is the target, the member the frame comes through, the frame and the time of the attempt.\<close>

type_synonym relay_task = "nat \<times> nat \<times> relay_frame \<times> u64"

record flood_state =
  fl_caches :: "relay_cache list"
  fl_delivered :: "nat list"
  fl_queue :: "relay_task list"
  fl_report :: topology_report

definition high_water :: "flood_state \<Rightarrow> flood_state" where
  "high_water s = s\<lparr>fl_report := (fl_report s)\<lparr>tr_high_water := max (tr_high_water (fl_report s)) (length (fl_queue s))\<rparr>\<rparr>"

text \<open>The body of the loop, for the task \<open>queue.pop_front()\<close> returned.\<close>

definition flood_step :: "nat \<Rightarrow> u64 \<Rightarrow> nat \<Rightarrow> relay_task \<Rightarrow> flood_state \<Rightarrow> sim_error + flood_state" where
  "flood_step nodes partition_until origin task s = (case task of (target, via, incoming, attempt_at) \<Rightarrow>
     let r = fl_report s;
         crosses_partition = ((target < nodes div 2) \<noteq> (via < nodes div 2))
     in if attempt_at < partition_until \<and> crosses_partition then
          Inr (high_water (s\<lparr>fl_report := r\<lparr>tr_deferrals := tr_deferrals r + 1\<rparr>,
                             fl_queue := fl_queue s @ [(target, via, incoming, partition_until)]\<rparr>))
        else if target = origin then Inr (s\<lparr>fl_report := r\<lparr>tr_duplicates := tr_duplicates r + 1\<rparr>\<rparr>)
        else (case accept incoming (member via) attempt_at (fl_caches s ! target) of (d, c) \<Rightarrow>
          let s = s\<lparr>fl_caches := (fl_caches s)[target := c]\<rparr> in
          (case d of
             Inl e \<Rightarrow> Inl (Durable e)
           | Inr (Forward forward) \<Rightarrow>
               Inr (high_water (s\<lparr>fl_delivered := insort_insert target (fl_delivered s),
                 fl_report := r\<lparr>tr_max_hops := max (tr_max_hops r) (rf_hops forward)\<rparr>,
                 fl_queue := fl_queue s @ map (\<lambda>next. (next, target, forward, attempt_at))
                   (filter (\<lambda>next. next \<noteq> via) (neighbors nodes target))\<rparr>))
           | Inr Duplicate \<Rightarrow> Inr (s\<lparr>fl_report := r\<lparr>tr_duplicates := tr_duplicates r + 1\<rparr>\<rparr>)
           | Inr Expired_decision \<Rightarrow> Inl Expired_unexpectedly
           | Inr HopLimit \<Rightarrow> Inr (s\<lparr>fl_report := r\<lparr>tr_hop_drops := tr_hop_drops r + 1\<rparr>\<rparr>))))"

text \<open>
  What a task can still cause: a frame that is let through has one hop less left and goes to at most
  three members, and a task is deferred once.
\<close>

definition flood_weight :: "u64 \<Rightarrow> relay_task list \<Rightarrow> nat" where
  "flood_weight partition_until q =
     (\<Sum>(_, _, f, attempt_at) \<leftarrow> q. 2 * 8 ^ (unat (rf_hop_limit f) - unat (rf_hops f)) + (if attempt_at < partition_until then 1 else 0))"

lemma flood_weight_simps [simp]:
  "flood_weight u [] = 0" "flood_weight u (p @ q) = flood_weight u p + flood_weight u q"
  "flood_weight u ((t, v, f, a) # q) =
     2 * 8 ^ (unat (rf_hop_limit f) - unat (rf_hops f)) + (if a < u then 1 else 0) + flood_weight u q"
  by (simp_all add: flood_weight_def)

lemma length_neighbors: "length (neighbors nodes node) \<le> 3"
  unfolding neighbors_def bset_of_def by (rule order_trans [OF length_remdups_leq]) simp

lemma high_water_simps [simp]:
  "fl_queue (high_water s) = fl_queue s" "fl_caches (high_water s) = fl_caches s"
  "fl_delivered (high_water s) = fl_delivered s"
  by (simp_all add: high_water_def)

lemma flood_weight_same:
  "flood_weight u (map (\<lambda>next. (next, t, f, a)) ns) =
     length ns * (2 * 8 ^ (unat (rf_hop_limit f) - unat (rf_hops f)) + (if a < u then 1 else 0))"
  by (induction ns) simp_all

lemma forward_weight:
  assumes "accept f v a c = (Inr (Forward g), c')" and "length ns \<le> 3"
  shows "flood_weight u (map (\<lambda>next. (next, t, g, a)) ns) < flood_weight u [(t', v', f, a)]"
proof -
  note fw = accept_Forward [OF assms(1)]
  obtain k where k: "unat (rf_hop_limit f) - unat (rf_hops f) = Suc k"
    using fw(5) by (metis Suc_diff_Suc word_less_nat_alt)
  have "unat (rf_hop_limit f) < 256" by (rule order_less_le_trans [OF unsigned_less]) simp
  then have "Suc (unat (rf_hops f)) < 256" using fw(5) [unfolded word_less_nat_alt] by linarith
  then have h: "unat (rf_hops f + 1) = Suc (unat (rf_hops f))" by (simp add: unat_word_ariths)
  have "unat (rf_hop_limit g) - unat (rf_hops g) = k" using k by (simp add: fw(8) h)
  then have "flood_weight u (map (\<lambda>next. (next, t, g, a)) ns) \<le> 3 * (2 * 8 ^ k + 1)"
    unfolding flood_weight_same using assms(2) by (intro mult_le_mono) simp_all
  also have "\<dots> < 2 * 8 ^ Suc k" by (simp, use one_le_power [of "8 :: nat" k] in linarith)
  finally show ?thesis by (simp add: k)
qed

lemma flood_step_weight:
  assumes "flood_step nodes u origin task s = Inr s'"
  shows "flood_weight u (fl_queue s') < flood_weight u (task # fl_queue s)"
proof -
  obtain t v f a where task: "task = (t, v, f, a)" by (cases task)
  have pos: "0 < flood_weight u [task]" by (simp add: task)
  have few: "length (filter (\<lambda>next. next \<noteq> v) (neighbors nodes t)) \<le> 3"
    using length_filter_le length_neighbors order_trans by blast
  obtain d c where acc: "accept f (member v) a (fl_caches s ! t) = (d, c)" by fastforce
  consider "a < u" "fl_queue s' = fl_queue s @ [(t, v, f, u)]" | "fl_queue s' = fl_queue s"
    | g where "d = Inr (Forward g)"
        "fl_queue s' = fl_queue s @ map (\<lambda>next. (next, t, g, a)) (filter (\<lambda>next. next \<noteq> v) (neighbors nodes t))"
    using assms by (auto simp: flood_step_def task acc Let_def split: if_splits sum.splits relay_decision.splits)
  then show ?thesis
  proof cases
    case 3
    then show ?thesis using forward_weight [OF acc [unfolded 3(1)] few, of u t t v] by (simp add: task)
  qed (use pos in \<open>simp_all add: task\<close>)
qed

function flood :: "nat \<Rightarrow> u64 \<Rightarrow> nat \<Rightarrow> flood_state \<Rightarrow> sim_error + flood_state" where
  "flood nodes partition_until origin s = (case fl_queue s of
     [] \<Rightarrow> Inr s
   | task # rest \<Rightarrow> (case flood_step nodes partition_until origin task (s\<lparr>fl_queue := rest\<rparr>) of
       Inl e \<Rightarrow> Inl e
     | Inr s \<Rightarrow> flood nodes partition_until origin s))"
  by pat_completeness auto

termination flood
proof (relation "measure (\<lambda>(_, u, _, s). flood_weight u (fl_queue s))")
  fix nodes u origin task rest s' and s :: flood_state
  assume "fl_queue s = task # rest" "flood_step nodes u origin task (s\<lparr>fl_queue := rest\<rparr>) = Inr s'"
  then show "((nodes, u, origin, s'), (nodes, u, origin, s)) \<in> measure (\<lambda>(_, u, _, s). flood_weight u (fl_queue s))"
    using flood_step_weight by fastforce
qed simp

declare flood.simps [simp del]

section \<open>A run\<close>

definition start_frame :: "nat \<Rightarrow> nat \<Rightarrow> relay_frame" where
  "start_frame nodes sequence =
     \<lparr>rf_id = RelayId (of_nat sequence + 1), rf_origin = member (sequence mod nodes),
      rf_previous_hop = member (sequence mod nodes), rf_hops = 0, rf_hop_limit = MAX_RELAY_HOPS,
      rf_expires_at = 10000\<rparr>"

definition flood_message ::
    "nat \<Rightarrow> u64 \<Rightarrow> nat \<Rightarrow> relay_cache list \<times> topology_report \<Rightarrow> sim_error + relay_cache list \<times> topology_report" where
  "flood_message nodes partition_until sequence = (\<lambda>(caches, report).
     let origin = sequence mod nodes;
         queue = map (\<lambda>target. (target, origin, start_frame nodes sequence, 1)) (neighbors nodes origin)
     in bindr (flood nodes partition_until origin
                (high_water \<lparr>fl_caches = caches, fl_delivered = [], fl_queue = queue, fl_report = report\<rparr>)) (\<lambda>s.
        if length (fl_delivered s) \<noteq> nodes - 1 then Inl Not_reached
        else
          let r = fl_report s
          in Inr (fl_caches s, r\<lparr>tr_deliveries := tr_deliveries r + length (fl_delivered s)\<rparr>)))"

primrec flood_messages ::
    "nat \<Rightarrow> u64 \<Rightarrow> nat list \<Rightarrow> relay_cache list \<times> topology_report \<Rightarrow> sim_error + relay_cache list \<times> topology_report" where
  "flood_messages nodes partition_until [] st = Inr st"
| "flood_messages nodes partition_until (sequence # rest) st =
     bindr (flood_message nodes partition_until sequence st) (flood_messages nodes partition_until rest)"

definition run_relay_topology_with_partition :: "nat \<Rightarrow> nat \<Rightarrow> u64 \<Rightarrow> sim_error + topology_report" where
  "run_relay_topology_with_partition nodes messages partition_until =
     (if \<not> (4 \<le> nodes \<and> nodes \<le> MAX_GROUP_MEMBERS) \<or> nodes mod 2 \<noteq> 0 \<or> \<not> (1 \<le> messages \<and> messages \<le> 32)
      then Inl Outside_limits
      else if list_ex (\<lambda>degree. degree \<noteq> MAX_DIRECT_NEIGHBORS) (wifi_degrees nodes)
        \<or> list_ex (\<lambda>node. length (neighbors nodes node) \<noteq> MAX_DIRECT_NEIGHBORS + 1) [0..<nodes]
      then Inl Degree_budget
      else
        let caches = map (\<lambda>node. relay_new (member node)) [0..<nodes];
            report = \<lparr>tr_nodes = nodes, tr_messages = messages, tr_expected = messages * (nodes - 1),
              tr_deliveries = 0, tr_wifi_degree = fold max (wifi_degrees nodes) 0,
              tr_degree = fold max (map (\<lambda>node. length (neighbors nodes node)) [0..<nodes]) 0,
              tr_max_hops = 0, tr_duplicates = 0, tr_hop_drops = 0, tr_deferrals = 0, tr_high_water = 0\<rparr>
        in bindr (flood_messages nodes partition_until [0..<messages] (caches, report)) (\<lambda>(_, report). Inr report))"

definition run_relay_topology :: "nat \<Rightarrow> nat \<Rightarrow> sim_error + topology_report" where
  "run_relay_topology nodes messages = run_relay_topology_with_partition nodes messages 0"

definition run_relay_partition_reunion :: "nat \<Rightarrow> nat \<Rightarrow> sim_error + topology_report" where
  "run_relay_partition_reunion nodes messages = run_relay_topology_with_partition nodes messages 6"


section \<open>Levels\<close>

text \<open>
  The members a frame has reached, each with the hops it took (\<open>lev\<close>), and the tasks in flight
  from one of them to a neighbor. The tasks are in the order of their levels, nobody is more than
  one level ahead of them, and every link of a member that may still forward is used or in flight.
\<close>

definition waves :: "nat \<Rightarrow> nat \<Rightarrow> (nat \<rightharpoonup> nat) \<Rightarrow> (nat \<times> nat) list \<Rightarrow> bool" where
  "waves n org lev q \<longleftrightarrow> lev org = Some 0 \<and>
     (\<forall>v l. lev v = Some l \<longrightarrow> v < n \<and> l \<le> 16 \<and> (\<forall>(t, u) \<in> set q. l \<le> the (lev u) + 1)) \<and>
     (\<forall>(t, u) \<in> set q. u \<in> dom lev \<and> t \<in> idx_links n u) \<and>
     sorted (map (\<lambda>(t, u). the (lev u)) q) \<and>
     (\<forall>u l w. lev u = Some l \<and> l < 16 \<and> w \<in> idx_links n u \<longrightarrow>
        (\<exists>m. lev w = Some m \<and> m \<le> l + 1) \<or> (w, u) \<in> set q)"

lemma wavesD:
  assumes "waves n org lev q"
  shows "lev org = Some 0" "lev v = Some l \<Longrightarrow> v < n" "lev v = Some l \<Longrightarrow> l \<le> 16"
    "lev v = Some l \<Longrightarrow> (t, u) \<in> set q \<Longrightarrow> l \<le> the (lev u) + 1"
    "(t, u) \<in> set q \<Longrightarrow> \<exists>l. lev u = Some l" "(t, u) \<in> set q \<Longrightarrow> t \<in> idx_links n u"
    "sorted (map (\<lambda>(t, u). the (lev u)) q)"
    "lev u = Some l \<Longrightarrow> l < 16 \<Longrightarrow> w \<in> idx_links n u \<Longrightarrow>
      (\<exists>m. lev w = Some m \<and> m \<le> l + 1) \<or> (w, u) \<in> set q"
  using assms unfolding waves_def by (blast | force)+

lemma waves_start:
  assumes "org < n" and "set ts = idx_links n org"
  shows "waves n org [org \<mapsto> 0] (map (\<lambda>t. (t, org)) ts)"
  using assms by (auto simp: waves_def sorted_wrt_map o_def case_prod_unfold split: if_splits)

lemma waves_skip:
  assumes w: "waves n org lev ((t, v) # q)" and "t \<in> dom lev \<or> lev v = Some 16"
  shows "waves n org lev q"
proof -
  obtain l where l: "lev v = Some l" using wavesD(5) [OF w, of t v] by auto
  have "(\<exists>m. lev x = Some m \<and> m \<le> k + 1) \<or> (x, u) \<in> set q"
    if u: "lev u = Some k" "k < 16" "x \<in> idx_links n u" for u k x
  proof (cases "(x, u) = (t, v)")
    case True
    then have "x \<in> dom lev" using assms(2) u(1,2) by auto
    then show ?thesis using wavesD(4) [OF w, of x _ t v] True u(1) by auto
  qed (use wavesD(8) [OF w u] in auto)
  then show ?thesis
    using wavesD(1-4) [OF w] wavesD(5-7) [OF w] unfolding waves_def by (auto simp: dom_def) (fastforce+)?
qed

lemma waves_visit:
  assumes w: "waves n org lev ((t, v) # q)" and t: "t \<notin> dom lev" "t < n" and v: "lev v = Some l" "l < 16"
    and ts: "set ts = idx_links n t - {v}"
  shows "waves n org (lev(t \<mapsto> l + 1)) (q @ map (\<lambda>x. (x, t)) ts)"
proof -
  have old: "u \<noteq> t" if "lev u = Some k" for u k using that t(1) by auto
  have qu: "u \<noteq> t" "\<exists>k. lev u = Some k \<and> l \<le> k \<and> k \<le> l + 1" if "(x, u) \<in> set q" for x u
  proof -
    obtain k where k: "lev u = Some k" using wavesD(5) [OF w, of x u] \<open>(x, u) \<in> set q\<close> by auto
    have "l \<le> k" using wavesD(7) [OF w] v(1) k \<open>(x, u) \<in> set q\<close> by (fastforce simp: sorted_simps)
    moreover have "k \<le> l + 1" using wavesD(4) [OF w k, of t v] v(1) by simp
    ultimately show "u \<noteq> t" "\<exists>k. lev u = Some k \<and> l \<le> k \<and> k \<le> l + 1" using k old by auto
  qed
  have top: "m \<le> l + 1" if "lev u = Some m" for u m
    using wavesD(4) [OF w that, of t v] v(1) by simp
  have sq: "sorted (map (\<lambda>(x, u). the ((lev(t \<mapsto> l + 1)) u)) q)"
  proof -
    have same: "map (\<lambda>(x, u). the ((lev(t \<mapsto> l + 1)) u)) q = map (\<lambda>(x, u). the (lev u)) q"
      using qu by (auto intro!: map_cong)
    show ?thesis unfolding same using wavesD(7) [OF w] by simp
  qed
  have links: "(\<exists>m. (lev(t \<mapsto> l + 1)) x = Some m \<and> m \<le> k + 1) \<or> (x, u) \<in> set (q @ map (\<lambda>x. (x, t)) ts)"
    if x: "(lev(t \<mapsto> l + 1)) u = Some k" "k < 16" "x \<in> idx_links n u" for u k x
  proof (cases "u = t")
    case True
    then show ?thesis using x ts v t(1) by auto
  next
    case False
    then have u: "lev u = Some k" using x(1) by simp
    consider m where "lev x = Some m" "m \<le> k + 1" | "(x, u) = (t, v)" | "(x, u) \<in> set q"
      using wavesD(8) [OF w u x(2,3)] by auto
    then show ?thesis using u v old by cases auto
  qed
  show ?thesis
    unfolding waves_def
  proof (intro conjI allI impI)
    show "(lev(t \<mapsto> l + 1)) org = Some 0" using wavesD(1) [OF w] t(1) by auto
    fix u k assume k: "(lev(t \<mapsto> l + 1)) u = Some k"
    then show "u < n" "k \<le> 16" using t(2) v(2) wavesD(2,3) [OF w] by (auto split: if_splits)
    have "k \<le> l + 1" using k top by (auto split: if_splits)
    then show "\<forall>(x, z) \<in> set (q @ map (\<lambda>x. (x, t)) ts). k \<le> the ((lev(t \<mapsto> l + 1)) z) + 1"
      using qu by fastforce
  next
    show "\<forall>(x, u) \<in> set (q @ map (\<lambda>x. (x, t)) ts). u \<in> dom (lev(t \<mapsto> l + 1)) \<and> x \<in> idx_links n u"
      using ts wavesD(5,6) [OF w] by fastforce
    have "sorted (map (\<lambda>(x, u). the ((lev(t \<mapsto> l + 1)) u)) (map (\<lambda>x. (x, t)) ts))"
      by (induction ts) auto
    moreover have "a \<le> l + 1" if "a \<in> set (map (\<lambda>(x, u). the ((lev(t \<mapsto> l + 1)) u)) q)" for a
      using that qu by fastforce
    ultimately show "sorted (map (\<lambda>(x, u). the ((lev(t \<mapsto> l + 1)) u)) (q @ map (\<lambda>x. (x, t)) ts))"
      using sq by (auto simp: sorted_append)
  qed (use links in blast)
qed

lemma waves_end:
  assumes w: "waves n org lev []"
  shows "(org, x) \<in> idx_rel n ^^ k \<Longrightarrow> k \<le> 16 \<Longrightarrow> \<exists>l. lev x = Some l \<and> l \<le> k"
proof (induction k arbitrary: x)
  case 0
  then show ?case using wavesD(1) [OF w] by simp
next
  case (Suc k)
  then obtain y where y: "(org, y) \<in> idx_rel n ^^ k" "x \<in> idx_links n y" by (auto simp: idx_rel_def)
  obtain l where "lev y = Some l" "l \<le> k" using Suc.IH [OF y(1)] Suc.prems(2) by auto
  then show ?case using wavesD(8) [OF w, of y l x] y(2) Suc.prems(2) by auto
qed

lemma waves_all:
  assumes "waves n org lev []" and "n mod 2 = 0" "4 \<le> n" "n \<le> 50" "org < n"
  shows "dom lev = {..<n}" "lev v = Some l \<Longrightarrow> l \<le> 13"
proof -
  have "\<exists>l. lev x = Some l \<and> l \<le> 13" if x: "x < n" for x
  proof -
    obtain k where "k \<le> 13" "(org, x) \<in> idx_rel n ^^ k" using idx_diameter [OF assms(2) _ assms(4,5) x] assms(3) by auto
    then show ?thesis using waves_end [OF assms(1), of x k] by auto
  qed
  then show "dom lev = {..<n}" "lev v = Some l \<Longrightarrow> l \<le> 13" using wavesD(2) [OF assms(1)] by force+
qed


section \<open>Members and links\<close>

lemma member_eq_iff: "v < 50 \<Longrightarrow> u < 50 \<Longrightarrow> member v = member u \<longleftrightarrow> v = u"
proof -
  assume vu: "v < 50" "u < 50"
  have "v = u" if "member v = member u"
  proof -
    have "be_bytes (member_arr (member v)) = be_bytes (member_arr (member u))" using that by simp
    then have "(of_nat (v + 1) :: 8 word) = of_nat (u + 1)" by (simp add: member_def)
    then have "unat (of_nat (v + 1) :: 8 word) = unat (of_nat (u + 1) :: 8 word)" by (simp only:)
    then show ?thesis using vu by (simp only: unat_of_nat) simp
  qed
  then show ?thesis by auto
qed

lemma neighbors_links:
  assumes "4 \<le> n" and "n mod 2 = 0"
  shows "set (neighbors n v) = idx_links n v" "v < n \<Longrightarrow> length (neighbors n v) = 3"
proof -
  show s: "set (neighbors n v) = idx_links n v" using assms by (simp add: neighbors_def idx_links_def insert_commute)
  have "distinct (neighbors n v)" by (simp add: neighbors_def bset_of_def)
  then have "length (neighbors n v) = card (idx_links n v)" using distinct_card s by metis
  moreover have "card (idx_links n v) = 3" if "v < n"
    using idx_chord_new [OF that assms] assms by (simp add: idx_links_def)
  ultimately show "v < n \<Longrightarrow> length (neighbors n v) = 3" by simp
qed

section \<open>Caches\<close>

definition msg_key :: "nat \<Rightarrow> nat \<Rightarrow> relay_key" where
  "msg_key n j = frame_key (start_frame n j)"

text \<open>What the cache of member \<open>v\<close> holds before message \<open>j\<close>: live entries of earlier messages.\<close>

definition cache_ok :: "nat \<Rightarrow> nat \<Rightarrow> nat \<Rightarrow> relay_cache \<Rightarrow> bool" where
  "cache_ok n v j c \<longleftrightarrow> rc_local c = member v \<and> bm_wf (rc_seen c) \<and>
     dom (bm_get (rc_seen c)) \<subseteq> msg_key n ` {..<j} \<and>
     (\<forall>k e. bm_get (rc_seen c) k = Some e \<longrightarrow> sr_expires_at e = 10000)"

lemma msg_key_inj: "i \<le> 32 \<Longrightarrow> j \<le> 32 \<Longrightarrow> msg_key n i = msg_key n j \<longleftrightarrow> i = j"
proof -
  assume ij: "i \<le> 32" "j \<le> 32"
  have "i = j" if "msg_key n i = msg_key n j"
  proof -
    have "(of_nat i :: arr16) = of_nat j" using that by (simp add: msg_key_def frame_key_def start_frame_def)
    then have "unat (of_nat i :: arr16) = unat (of_nat j :: arr16)" by (simp only:)
    then show ?thesis using ij by (simp only: unat_of_nat) simp
  qed
  then show ?thesis by auto
qed

lemma cache_new: "cache_ok n v 0 (relay_new (member v))"
  by (simp add: cache_ok_def relay_new_def)

lemma cache_fresh: "cache_ok n v j c \<Longrightarrow> j < 32 \<Longrightarrow> bm_get (rc_seen c) (msg_key n j) = None"
proof (rule ccontr)
  assume c: "cache_ok n v j c" "j < 32" and "bm_get (rc_seen c) (msg_key n j) \<noteq> None"
  then have "msg_key n j \<in> msg_key n ` {..<j}" by (auto simp: cache_ok_def)
  then obtain i where "i < j" "msg_key n j = msg_key n i" by auto
  then show False using msg_key_inj [of j i n] c(2) by simp
qed

lemma cache_mono: "cache_ok n v j c \<Longrightarrow> cache_ok n v (Suc j) c"
  unfolding cache_ok_def by (auto simp: lessThan_Suc)

lemma cache_live:
  assumes "cache_ok n v j c"
  shows "expire_seen 1 c = c"
proof -
  have "filter (\<lambda>(k, seen). 1 < sr_expires_at seen) (rc_seen c) = rc_seen c"
    using assms bm.in_entries_iff [of "rc_seen c"] by (fastforce simp: cache_ok_def filter_id_conv)
  then show ?thesis by (simp add: expire_seen_def bm_retain_def)
qed

lemma cache_room:
  assumes "cache_ok n v j c" and "j \<le> 33"
  shows "relay_inv c" "length (rc_seen c) < MAX_RELAY_DEDUP"
proof -
  have "length (rc_seen c) = card (dom (bm_get (rc_seen c)))"
    using assms(1) bm.size_card [of "rc_seen c"] by (simp add: cache_ok_def)
  also have "\<dots> \<le> card (msg_key n ` {..<j})" using assms(1) by (intro card_mono) (simp_all add: cache_ok_def)
  also have "\<dots> \<le> j" using card_image_le [of "{..<j}" "msg_key n"] by simp
  finally show "length (rc_seen c) < MAX_RELAY_DEDUP" "relay_inv c"
    using assms by (simp_all add: relay_inv_def cache_ok_def)
qed

text \<open>The frame of message \<open>j\<close> as member \<open>v\<close> passes it on after \<open>l\<close> hops.\<close>

definition frame_at :: "nat \<Rightarrow> nat \<Rightarrow> nat \<Rightarrow> nat \<Rightarrow> relay_frame" where
  "frame_at n j v l = (start_frame n j)\<lparr>rf_previous_hop := member v, rf_hops := of_nat l\<rparr>"

lemma frame_at_simps [simp]:
  "rf_previous_hop (frame_at n j v l) = member v" "rf_hops (frame_at n j v l) = of_nat l"
  "rf_origin (frame_at n j v l) = member (j mod n)" "rf_hop_limit (frame_at n j v l) = 16"
  "rf_expires_at (frame_at n j v l) = 10000" "frame_key (frame_at n j v l) = msg_key n j"
  by (simp_all add: frame_at_def start_frame_def msg_key_def frame_key_def)

lemma accept_frame:
  assumes c: "cache_ok n t (Suc j) c" and n: "n \<le> 50" "v < n" "t < n" "t \<noteq> v" "t \<noteq> j mod n" and l: "l \<le> 16"
  shows "accept (frame_at n j v l) (member v) 1 c =
    (if l = 16 then (Inr HopLimit, c)
     else if bm_get (rc_seen c) (msg_key n j) \<noteq> None then (Inr Duplicate, c)
     else (Inr (Forward (frame_at n j t (l + 1))), relay_reserve (msg_key n j) 10000 1 c))"
proof -
  have "j mod n < n" using n(2) by simp
  then have "j mod n < 50" "t < 50" "v < 50" using n by linarith+
  then have m: "member (j mod n) \<noteq> rc_local c" "member v \<noteq> rc_local c"
    using c n(4,5) member_eq_iff [of "j mod n" t] member_eq_iff [of v t] by (simp_all add: cache_ok_def)
  have h: "(of_nat l :: u8) \<le> 16" "(16 \<le> (of_nat l :: u8)) = (l = 16)"
    using l by (auto simp: word_le_nat_alt unat_of_nat)
  have "relay_valid (frame_at n j v l) (member v) 1 = Inr ()"
    using h(1) by (simp add: relay_valid_def MAX_LOGICAL_TIME_def word_le_nat_alt not_less)
  moreover have "RelayKey (member (j mod n)) (rf_id (frame_at n j v l)) = msg_key n j"
    by (simp add: msg_key_def frame_key_def frame_at_def start_frame_def)
  moreover have "(frame_at n j v l)\<lparr>rf_previous_hop := rc_local c, rf_hops := of_nat l + 1\<rparr> = frame_at n j t (l + 1)"
    using c by (simp add: frame_at_def cache_ok_def add.commute)
  moreover have "\<not> (10000 :: u64) \<le> 1" by (simp add: word_le_nat_alt)
  ultimately show ?thesis
    using m h(2) cache_live [OF c] by (simp add: accept_def bm_contains_def Let_def not_less)
qed

lemma cache_reserve:
  assumes c: "cache_ok n t (Suc j) c" and "j < 32"
  shows "cache_ok n t (Suc j) (relay_reserve (msg_key n j) 10000 1 c)"
    "bm_get (rc_seen (relay_reserve (msg_key n j) 10000 1 c)) (msg_key n j) \<noteq> None"
proof -
  have j: "Suc j \<le> 33" using assms(2) by simp
  note room = relay_reserve_room(1) [OF cache_room [OF c j]]
  have "bm_wf (rc_seen (relay_reserve (msg_key n j) 10000 1 c))"
    using relay_reserve_inv [OF cache_room(1) [OF c j]] by (simp add: relay_inv_def)
  then show "cache_ok n t (Suc j) (relay_reserve (msg_key n j) 10000 1 c)"
    using c by (auto simp: cache_ok_def room lessThan_Suc split: if_splits)
  show "bm_get (rc_seen (relay_reserve (msg_key n j) 10000 1 c)) (msg_key n j) \<noteq> None" by (simp add: room)
qed


section \<open>The spread of a message\<close>

text \<open>
  The state of the loop for message \<open>j\<close> of \<open>n\<close> members whose levels are \<open>lev\<close>: each task carries the
  frame of its level, the caches know the message exactly where it was delivered, and the report has
  the level of some member. \<open>kept\<close> are the figures that the loop leaves alone.
\<close>

definition kept :: "topology_report \<Rightarrow> nat \<times> nat \<times> nat \<times> nat \<times> nat \<times> nat \<times> u64" where
  "kept r = (tr_nodes r, tr_messages r, tr_expected r, tr_deliveries r, tr_wifi_degree r, tr_degree r, tr_deferrals r)"

definition hops_of :: "(nat \<rightharpoonup> nat) \<Rightarrow> topology_report \<Rightarrow> bool" where
  "hops_of lev r \<longleftrightarrow> (unat (tr_max_hops r) \<le> 13 \<or> (\<exists>v. lev v = Some (unat (tr_max_hops r)))) \<and>
     (tr_hop_drops r = 0 \<or> (\<exists>v. lev v = Some 16))"

definition caches_at :: "nat \<Rightarrow> nat \<Rightarrow> (nat \<rightharpoonup> nat) \<Rightarrow> relay_cache list \<Rightarrow> bool" where
  "caches_at n j lev cs \<longleftrightarrow> length cs = n \<and> (\<forall>v < n. cache_ok n v (Suc j) (cs ! v) \<and>
     (bm_get (rc_seen (cs ! v)) (msg_key n j) \<noteq> None \<longleftrightarrow> v \<noteq> j mod n \<and> v \<in> dom lev))"

definition spread :: "nat \<Rightarrow> nat \<Rightarrow> (nat \<rightharpoonup> nat) \<Rightarrow> flood_state \<Rightarrow> bool" where
  "spread n j lev s \<longleftrightarrow>
     waves n (j mod n) lev (map (\<lambda>(t, v, _). (t, v)) (fl_queue s)) \<and>
     (\<forall>(t, v, f, a) \<in> set (fl_queue s). a = 1 \<and> f = frame_at n j v (the (lev v))) \<and>
     caches_at n j lev (fl_caches s) \<and>
     distinct (fl_delivered s) \<and> set (fl_delivered s) = dom lev - {j mod n} \<and> hops_of lev (fl_report s)"

lemma kept_simps [simp]:
  "kept (r\<lparr>tr_duplicates := d\<rparr>) = kept r" "kept (r\<lparr>tr_hop_drops := d\<rparr>) = kept r"
  "kept (r\<lparr>tr_max_hops := h\<rparr>) = kept r" "kept (r\<lparr>tr_high_water := w\<rparr>) = kept r"
  by (simp_all add: kept_def)

lemma hops_of_simps [simp]:
  "hops_of lev (r\<lparr>tr_duplicates := d\<rparr>) = hops_of lev r" "hops_of lev (r\<lparr>tr_high_water := w\<rparr>) = hops_of lev r"
  by (simp_all add: hops_of_def)

lemma report_high_water: "fl_report (high_water s) = (fl_report s)\<lparr>tr_high_water := max (tr_high_water (fl_report s)) (length (fl_queue s))\<rparr>"
  by (simp add: high_water_def)

lemma spread_high_water [simp]: "spread n j lev (high_water s) = spread n j lev s"
  by (simp add: spread_def report_high_water)

lemma spread_skip:
  assumes "spread n j lev (s\<lparr>fl_queue := (t, v, f, a) # q\<rparr>)" and "t \<in> dom lev \<or> lev v = Some 16"
    and "hops_of lev r"
  shows "spread n j lev (s\<lparr>fl_queue := q, fl_report := r\<rparr>)"
  using assms waves_skip [of n "j mod n" lev t v "map (\<lambda>(t, v, _). (t, v)) q"] by (auto simp: spread_def)

lemma caches_visit:
  assumes c: "caches_at n j lev cs" and t: "t < n" "t \<noteq> j mod n" and j: "j < 32"
  shows "caches_at n j (lev(t \<mapsto> l)) (cs[t := relay_reserve (msg_key n j) 10000 1 (cs ! t)])"
  using c t cache_reserve [OF _ j, of n t "cs ! t"] by (auto simp: caches_at_def nth_list_update)

lemma hops_visit:
  assumes "hops_of lev r" and "lev t = None" and "l \<le> 16"
  shows "hops_of (lev(t \<mapsto> l)) (r\<lparr>tr_max_hops := max (tr_max_hops r) (of_nat l)\<rparr>)"
proof -
  have old: "\<exists>v. (lev(t \<mapsto> l)) v = Some m" if known: "\<exists>v. lev v = Some m" for m
  proof -
    obtain v where "lev v = Some m" using known by blast
    then have "(lev(t \<mapsto> l)) v = Some m" using assms(2) by auto
    then show ?thesis ..
  qed
  have new: "\<exists>v. (lev(t \<mapsto> l)) v = Some l" by (intro exI [of _ t]) simp
  have "unat (of_nat l :: u8) = l" using assms(3) by (simp add: unat_of_nat)
  then have "unat (max (tr_max_hops r) (of_nat l)) \<in> {unat (tr_max_hops r), l}" by (auto simp: max_def)
  then consider "unat (max (tr_max_hops r) (of_nat l)) = unat (tr_max_hops r)" | "unat (max (tr_max_hops r) (of_nat l)) = l"
    by blast
  then show ?thesis
    using assms(1) old [of "unat (tr_max_hops r)"] old [of 16] new unfolding hops_of_def by cases (auto simp del: fun_upd_apply)
qed

text \<open>The step without a partition, for each of its outcomes.\<close>

lemma flood_step_home:
  "flood_step n 0 t (t, v, f, a) s = Inr (s\<lparr>fl_report := (fl_report s)\<lparr>tr_duplicates := tr_duplicates (fl_report s) + 1\<rparr>\<rparr>)"
  by (simp add: flood_step_def Let_def)

lemma flood_step_accept:
  assumes "t \<noteq> org"
  shows "accept f (member v) a (fl_caches s ! t) = (Inr Duplicate, fl_caches s ! t) \<Longrightarrow>
      flood_step n 0 org (t, v, f, a) s = Inr (s\<lparr>fl_report := (fl_report s)\<lparr>tr_duplicates := tr_duplicates (fl_report s) + 1\<rparr>\<rparr>)"
    "accept f (member v) a (fl_caches s ! t) = (Inr HopLimit, fl_caches s ! t) \<Longrightarrow>
      flood_step n 0 org (t, v, f, a) s = Inr (s\<lparr>fl_report := (fl_report s)\<lparr>tr_hop_drops := tr_hop_drops (fl_report s) + 1\<rparr>\<rparr>)"
    "accept f (member v) a (fl_caches s ! t) = (Inr (Forward g), c) \<Longrightarrow>
      flood_step n 0 org (t, v, f, a) s = Inr (high_water (s\<lparr>fl_caches := (fl_caches s)[t := c],
        fl_delivered := insort_insert t (fl_delivered s),
        fl_report := (fl_report s)\<lparr>tr_max_hops := max (tr_max_hops (fl_report s)) (rf_hops g)\<rparr>,
        fl_queue := fl_queue s @ map (\<lambda>x. (x, t, g, a)) (filter (\<lambda>x. x \<noteq> v) (neighbors n t))\<rparr>))"
proof -
  have same: "s\<lparr>fl_caches := fl_caches s\<rparr> = s" by simp
  show "accept f (member v) a (fl_caches s ! t) = (Inr Duplicate, fl_caches s ! t) \<Longrightarrow>
      flood_step n 0 org (t, v, f, a) s = Inr (s\<lparr>fl_report := (fl_report s)\<lparr>tr_duplicates := tr_duplicates (fl_report s) + 1\<rparr>\<rparr>)"
    "accept f (member v) a (fl_caches s ! t) = (Inr HopLimit, fl_caches s ! t) \<Longrightarrow>
      flood_step n 0 org (t, v, f, a) s = Inr (s\<lparr>fl_report := (fl_report s)\<lparr>tr_hop_drops := tr_hop_drops (fl_report s) + 1\<rparr>\<rparr>)"
    using assms by (simp_all add: flood_step_def Let_def same)
qed (use assms in \<open>simp add: flood_step_def Let_def\<close>)

lemma spread_step:
  assumes s: "spread n j lev (s\<lparr>fl_queue := (t, v, f, a) # q\<rparr>)" and n: "4 \<le> n" "n mod 2 = 0" "n \<le> 50" and j: "j < 32"
  shows "\<exists>s' lev'. flood_step n 0 (j mod n) (t, v, f, a) (s\<lparr>fl_queue := q\<rparr>) = Inr s' \<and> spread n j lev' s' \<and>
    kept (fl_report s') = kept (fl_report s)"
proof -
  let ?q = "map (\<lambda>(t, v, _). (t, v)) q"
  have w: "waves n (j mod n) lev ((t, v) # ?q)" and af: "a = 1" "f = frame_at n j v (the (lev v))"
    and cs: "caches_at n j lev (fl_caches s)" and hp: "hops_of lev (fl_report s)"
    using s by (auto simp: spread_def)
  obtain l where lv: "lev v = Some l" using wavesD(5) [OF w, of t v] by auto
  note l = lv wavesD(2,3) [OF w lv]
  have t: "t < n" "t \<noteq> v" using wavesD(6) [OF w, of t v] idx_links_range [of t n v] idx_links_irrefl [OF l(2)] n(1) by auto
  show ?thesis
  proof (cases "t = j mod n")
    case True
    then have "t \<in> dom lev" using wavesD(1) [OF w] by auto
    then have "spread n j lev (s\<lparr>fl_queue := q, fl_report := (fl_report s)\<lparr>tr_duplicates := tr_duplicates (fl_report s) + 1\<rparr>\<rparr>)"
      using spread_skip [OF s] hp by simp
    then show ?thesis using flood_step_home [of n t v f a "s\<lparr>fl_queue := q\<rparr>"] True by auto
  next
    case False
    let ?c = "fl_caches s ! t"
    have c: "cache_ok n t (Suc j) ?c" "bm_get (rc_seen ?c) (msg_key n j) \<noteq> None \<longleftrightarrow> t \<in> dom lev" "t < length (fl_caches s)"
      using cs t(1) False by (auto simp: caches_at_def)
    note acc = accept_frame [OF c(1) n(3) l(2) t(1,2) False l(3)]
    have fl: "f = frame_at n j v l" using af(2) l(1) by simp
    note steps = flood_step_accept [OF False, of f v a "s\<lparr>fl_queue := q\<rparr>", simplified]
    consider (limit) "l = 16" | (known) "l < 16" "t \<in> dom lev" | (visit) "l < 16" "t \<notin> dom lev" using l(3) by linarith
    then show ?thesis
    proof cases
      case limit
      let ?r = "(fl_report s)\<lparr>tr_hop_drops := tr_hop_drops (fl_report s) + 1\<rparr>"
      have "lev v = Some 16" using l(1) limit by simp
      then have "hops_of lev ?r" using hp by (auto simp: hops_of_def)
      then have "spread n j lev (s\<lparr>fl_queue := q, fl_report := ?r\<rparr>)"
        using spread_skip [OF s] \<open>lev v = Some 16\<close> by simp
      then show ?thesis using steps(2) acc limit by (auto simp: af(1) fl)
    next
      case known
      then have "spread n j lev (s\<lparr>fl_queue := q, fl_report := (fl_report s)\<lparr>tr_duplicates := tr_duplicates (fl_report s) + 1\<rparr>\<rparr>)"
        using spread_skip [OF s] hp by simp
      then show ?thesis using steps(1) acc known c(2) by (auto simp: af(1) fl)
    next
      case visit
      let ?ts = "filter (\<lambda>x. x \<noteq> v) (neighbors n t)"
      let ?lev = "lev(t \<mapsto> l + 1)"
      let ?s = "s\<lparr>fl_caches := (fl_caches s)[t := relay_reserve (msg_key n j) 10000 1 ?c],
        fl_delivered := insort_insert t (fl_delivered s),
        fl_report := (fl_report s)\<lparr>tr_max_hops := max (tr_max_hops (fl_report s)) (of_nat (l + 1))\<rparr>,
        fl_queue := q @ map (\<lambda>x. (x, t, frame_at n j t (l + 1), 1)) ?ts\<rparr>"
      have tn: "lev t = None" using visit(2) by auto
      have ts: "set ?ts = idx_links n t - {v}" using neighbors_links(1) [OF n(1,2)] by auto
      have "waves n (j mod n) ?lev (?q @ map (\<lambda>x. (x, t)) ?ts)"
        by (rule waves_visit [OF w visit(2) t(1) l(1) visit(1) ts])
      moreover have "\<forall>(x, u, g, b) \<in> set q. b = 1 \<and> g = frame_at n j u (the (?lev u))"
      proof -
        have "u \<noteq> t" if "(x, u, g, b) \<in> set q" for x u g b
          using wavesD(5) [OF w, of x u] that tn by force
        then show ?thesis using s by (fastforce simp: spread_def)
      qed
      moreover have "caches_at n j ?lev (fl_caches ?s)"
        using caches_visit [OF cs t(1) False j, of "l + 1"] by simp
      moreover have "hops_of ?lev (fl_report ?s)" using hops_visit [OF hp tn, of "l + 1"] visit(1) by simp
      moreover have "distinct (fl_delivered ?s)" "set (fl_delivered ?s) = dom ?lev - {j mod n}"
        using s False by (auto simp: spread_def set_insort_insert distinct_insort_insert)
      ultimately have "spread n j ?lev ?s" by (auto simp: spread_def o_def case_prod_unfold)
      moreover have "flood_step n 0 (j mod n) (t, v, f, a) (s\<lparr>fl_queue := q\<rparr>) = Inr (high_water ?s)"
        using steps(3) [of "frame_at n j t (l + 1)"] acc visit c(2) by (simp add: af(1) fl)
      ultimately show ?thesis by (intro exI [of _ "high_water ?s"] exI [of _ ?lev]) (simp add: report_high_water)
    qed
  qed
qed

lemma spread_flood:
  assumes "spread n j lev s" and n: "4 \<le> n" "n mod 2 = 0" "n \<le> 50" and j: "j < 32"
  shows "\<exists>s' lev'. flood n 0 (j mod n) s = Inr s' \<and> spread n j lev' s' \<and> fl_queue s' = [] \<and> kept (fl_report s') = kept (fl_report s)"
  using assms
proof (induction n "0 :: u64" "j mod n" s arbitrary: lev rule: flood.induct)
  case (1 n s)
  show ?case
  proof (cases "fl_queue s")
    case Nil
    then show ?thesis using "1.prems"(1) by (auto simp: flood.simps [of _ _ _ s])
  next
    case (Cons task q)
    obtain t v f a where task: "task = (t, v, f, a)" by (cases task)
    have "s\<lparr>fl_queue := (t, v, f, a) # q\<rparr> = s" using Cons task by (cases s) simp
    then have "spread n j lev (s\<lparr>fl_queue := (t, v, f, a) # q\<rparr>)" using "1.prems"(1) by simp
    from spread_step [OF this "1.prems"(2-5)] obtain s1 lev1
      where s1: "flood_step n 0 (j mod n) task (s\<lparr>fl_queue := q\<rparr>) = Inr s1" "spread n j lev1 s1"
        "kept (fl_report s1) = kept (fl_report s)" by (auto simp: task)
    from "1.hyps" [OF Cons s1(1,2) "1.prems"(2-5)] show ?thesis
      using Cons s1 by (auto simp: flood.simps [of _ _ _ s])
  qed
qed


section \<open>All messages\<close>

definition caches_before :: "nat \<Rightarrow> nat \<Rightarrow> relay_cache list \<Rightarrow> bool" where
  "caches_before n j cs \<longleftrightarrow> length cs = n \<and> (\<forall>v < n. cache_ok n v j (cs ! v))"

lemma spread_start:
  assumes cs: "caches_before n j cs" and n: "4 \<le> n" "n mod 2 = 0" and j: "j < 32" and r: "hops_of Map.empty r"
  shows "spread n j [j mod n \<mapsto> 0] \<lparr>fl_caches = cs, fl_delivered = [],
    fl_queue = map (\<lambda>t. (t, j mod n, start_frame n j, 1)) (neighbors n (j mod n)), fl_report = r\<rparr>"
proof -
  have org: "j mod n < n" using n(1) by simp
  have "waves n (j mod n) [j mod n \<mapsto> 0] (map (\<lambda>t. (t, j mod n)) (neighbors n (j mod n)))"
    by (rule waves_start [OF org]) (simp add: neighbors_links(1) [OF n])
  moreover have "caches_at n j [j mod n \<mapsto> 0] cs"
    using cs cache_mono cache_fresh [OF _ j] by (auto simp: caches_before_def caches_at_def)
  moreover have "hops_of [j mod n \<mapsto> 0] r" using r by (auto simp: hops_of_def)
  ultimately show ?thesis by (simp add: spread_def o_def start_frame_def frame_at_def)
qed

lemma flood_message_reaches:
  assumes cs: "caches_before n j cs" and n: "4 \<le> n" "n mod 2 = 0" "n \<le> 50" and j: "j < 32" and r: "hops_of Map.empty r"
  shows "\<exists>cs' r'. flood_message n 0 j (cs, r) = Inr (cs', r') \<and> caches_before n (Suc j) cs' \<and> hops_of Map.empty r' \<and>
    kept r' = kept (r\<lparr>tr_deliveries := tr_deliveries r + (n - 1)\<rparr>)"
proof -
  let ?s = "\<lparr>fl_caches = cs, fl_delivered = [],
    fl_queue = map (\<lambda>t. (t, j mod n, start_frame n j, 1)) (neighbors n (j mod n)), fl_report = r\<rparr>"
  have org: "j mod n < n" using n(1) by simp
  have "spread n j [j mod n \<mapsto> 0] (high_water ?s)" using spread_start [OF cs n(1,2) j r] by simp
  from spread_flood [OF this n j] obtain s lev where s: "flood n 0 (j mod n) (high_water ?s) = Inr s" "spread n j lev s"
    "fl_queue s = []" "kept (fl_report s) = kept (fl_report (high_water ?s))" by blast
  have w: "waves n (j mod n) lev []" using s(2,3) by (simp add: spread_def)
  note all = waves_all [OF w n(2,1,3) org]
  have "set (fl_delivered s) = {..<n} - {j mod n}" "distinct (fl_delivered s)" using s(2) all(1) by (simp_all add: spread_def)
  then have len: "length (fl_delivered s) = n - 1" using org distinct_card [of "fl_delivered s"] by simp
  have "hops_of lev (fl_report s)" using s(2) by (simp add: spread_def)
  then have "hops_of Map.empty (fl_report s)" using all(2) by (fastforce simp: hops_of_def)
  moreover have "caches_before n (Suc j) (fl_caches s)" using s(2) by (simp add: spread_def caches_at_def caches_before_def)
  ultimately show ?thesis
    using s(1,4) by (simp add: flood_message_def Let_def len report_high_water kept_def hops_of_def)
qed

lemma flood_messages_reach:
  assumes n: "4 \<le> n" "n mod 2 = 0" "n \<le> 50"
  shows "caches_before n j cs \<Longrightarrow> hops_of Map.empty r \<Longrightarrow> j + m \<le> 32 \<Longrightarrow>
    \<exists>cs' r'. flood_messages n 0 [j..<j + m] (cs, r) = Inr (cs', r') \<and> hops_of Map.empty r' \<and>
      kept r' = kept (r\<lparr>tr_deliveries := tr_deliveries r + m * (n - 1)\<rparr>)"
proof (induction m arbitrary: j cs r)
  case (Suc m)
  from flood_message_reaches [OF Suc.prems(1) n _ Suc.prems(2)] obtain cs1 r1
    where 1: "flood_message n 0 j (cs, r) = Inr (cs1, r1)" "caches_before n (Suc j) cs1" "hops_of Map.empty r1"
      "kept r1 = kept (r\<lparr>tr_deliveries := tr_deliveries r + (n - 1)\<rparr>)" using Suc.prems(3) by auto
  from Suc.IH [OF 1(2,3)] Suc.prems(3) obtain cs2 r2
    where 2: "flood_messages n 0 [Suc j..<Suc j + m] (cs1, r1) = Inr (cs2, r2)" "hops_of Map.empty r2"
      "kept r2 = kept (r1\<lparr>tr_deliveries := tr_deliveries r1 + m * (n - 1)\<rparr>)" by auto
  have "[j..<j + Suc m] = j # [Suc j..<Suc j + m]" by (simp add: upt_conv_Cons)
  then show ?case using 1 2 by (simp add: kept_def)
qed simp

lemma fold_max_same: "xs \<noteq> [] \<Longrightarrow> list_all (\<lambda>x. x = k) xs \<Longrightarrow> fold max xs (0 :: nat) = k"
proof -
  have "list_all (\<lambda>x. x = k) xs \<Longrightarrow> fold max xs k = k" for xs :: "nat list" by (induction xs) auto
  then show "xs \<noteq> [] \<Longrightarrow> list_all (\<lambda>x. x = k) xs \<Longrightarrow> fold max xs (0 :: nat) = k" by (cases xs) auto
qed

text \<open>
  C28: the relay topology serves every group. For every even number of 4 to 50 members and 1 to 32
  messages, the run ends with a report: each message was delivered to every member but its origin,
  over at most 13 hops, no frame was dropped for its hops, and no member has more than two direct
  links and the one fallback.
\<close>

theorem topology_serves_all:
  assumes "4 \<le> nodes" and "nodes \<le> 50" and "even nodes" and "1 \<le> messages" and "messages \<le> 32"
  shows "\<exists>r. run_relay_topology nodes messages = Inr r \<and> tr_expected r = messages * (nodes - 1) \<and>
    tr_deliveries r = tr_expected r \<and> unat (tr_max_hops r) \<le> 13 \<and> tr_hop_drops r = 0 \<and> tr_deferrals r = 0 \<and>
    tr_wifi_degree r = 2 \<and> tr_degree r = 3"
proof -
  have n: "4 \<le> nodes" "nodes mod 2 = 0" "nodes \<le> 50" using assms(1-3) by (simp_all add: even_iff_mod_2_eq_zero)
  let ?cs = "map (\<lambda>node. relay_new (member node)) [0..<nodes]"
  let ?r = "\<lparr>tr_nodes = nodes, tr_messages = messages, tr_expected = messages * (nodes - 1),
    tr_deliveries = 0, tr_wifi_degree = 2, tr_degree = 3,
    tr_max_hops = 0, tr_duplicates = 0, tr_hop_drops = 0, tr_deferrals = 0, tr_high_water = 0\<rparr>"
  have "caches_before nodes 0 ?cs" using cache_new by (simp add: caches_before_def)
  from flood_messages_reach [OF n this, of ?r messages] obtain cs r
    where r: "flood_messages nodes 0 [0..<messages] (?cs, ?r) = Inr (cs, r)" "hops_of Map.empty r"
      "kept r = kept (?r\<lparr>tr_deliveries := messages * (nodes - 1)\<rparr>)"
    using assms(5) by (auto simp: hops_of_def)
  have "fold max (wifi_degrees nodes) 0 = 2" using n(1) by (intro fold_max_same) (simp_all add: wifi_degrees_def list_all_iff)
  moreover have "fold max (map (\<lambda>node. length (neighbors nodes node)) [0..<nodes]) 0 = 3"
    using n neighbors_links(2) [OF n(1,2)] by (intro fold_max_same) (simp_all add: list_all_iff)
  moreover have "\<not> list_ex (\<lambda>degree. degree \<noteq> 2) (wifi_degrees nodes)"
    "\<not> list_ex (\<lambda>node. length (neighbors nodes node) \<noteq> Suc 2) [0..<nodes]"
    using neighbors_links(2) [OF n(1,2)] by (simp_all add: wifi_degrees_def list_ex_iff)
  ultimately have "run_relay_topology nodes messages = Inr r"
    using n assms(4,5) r(1) by (simp add: run_relay_topology_def run_relay_topology_with_partition_def Let_def)
  then show ?thesis using r(2,3) by (simp add: kept_def hops_of_def)
qed

theorem topology_serves_all_witness:
  "\<exists>r. run_relay_topology 50 32 = Inr r \<and> tr_deliveries r = 1568 \<and> unat (tr_max_hops r) \<le> 13"
proof -
  obtain r where "run_relay_topology 50 32 = Inr r" "tr_expected r = 32 * (50 - 1)" "tr_deliveries r = tr_expected r"
    "unat (tr_max_hops r) \<le> 13"
    using topology_serves_all [of 50 32] by auto
  then show ?thesis by simp
qed

end
