(* ===== verification/Spec2Isabelle.thy ===== *)
theory Spec2Isabelle
  imports Mesh_Api Mesh_Link Mesh_Registry Mesh_Relay Mesh_Transport Mesh_Presence Mesh_Sender Mesh_Receiver
    Mesh_Policy Mesh_Session_Link Mesh_Receipt Mesh_Store_Installed Mesh_Journey Mesh_Enrollment
    Mesh_C_Heap Mesh_Jni Mesh_Simulation
begin

text \<open>
  A model of the Rust core of Mesh-Lab (\<open>src/crates/\<close>): a group messenger over unreliable short
  range radio links, whose core is a set of deterministic libraries that the mobile hosts drive.

  \<^bold>\<open>The program.\<close> A group has an authority that certifies its members; a roster is the verified
  set of certificates of one epoch. A member seals a message for up to ten other members: a header
  binds scope, origin, sequence, targets and life, the content key is wrapped once per target and
  the plaintext is sealed in chunks; the resulting object is cut into chunks that a manifest lists
  by hash, and the origin signs an announcement of the manifest. The host drives the steps of a
  send and of a reception through two reducers that issue effects under numbered tokens. Objects
  travel over authenticated sessions between neighbors, are forwarded by relays that remember the
  frames they have seen, along routes chosen from presence claims and a planned overlay. A target
  verifies the object, stores it and signs a receipt; the origin verifies it and signs an
  acknowledgement.

  \<^bold>\<open>Theories and sources.\<close>
  \<^item> \<open>Mesh_Prelude\<close>, \<open>Mesh_Bytes\<close>, \<open>Mesh_BTree\<close>: results and state passing, big-endian bytes and
    slices, \<open>BTreeMap\<close> as a strictly sorted association list (locale \<open>ordered_map\<close>).
  \<^item> \<open>Mesh_Types\<close>: \<open>mesh-types\<close>, the identifiers, bounds, errors and namespaces.
  \<^item> \<open>Mesh_Canonical\<close>: the canonical writer and reader of \<open>mesh-codec/src/canonical.rs\<close>. Each read
    is described by the bytes it consumes (\<open>reads\<close>, locale \<open>wire_reader\<close>), and the rules compose to
    the language a decoder accepts. \<open>Mesh_Codec\<close> states the two contracts of a format
    (\<open>record_codec\<close>, \<open>message_codec\<close>), interpreted for every format of the crates. \<open>Mesh_Api\<close> is
    the diagnostic API of \<open>mesh-codec/src/lib.rs\<close>, \<open>Mesh_Link\<close> the frames of \<open>mesh-link\<close>.
  \<^item> \<open>Mesh_Runtime\<close>, \<open>Mesh_Registry\<close>: the event history of \<open>mesh-runtime/src/lib.rs\<close> and the table of
    runtimes behind the C functions of \<open>mesh-ffi-c/src/lib.rs\<close>. \<open>Mesh_Handles\<close> is the contract of a
    table that issues numbered references (locale \<open>handle_table\<close>); the registry and the two reducers
    below interpret it.
  \<^item> \<open>Mesh_Object\<close>: \<open>mesh-object\<close>, manifests and prepared objects.
  \<^item> \<open>Mesh_Crypto\<close>: \<open>mesh-crypto\<close>, the authenticated inputs, signatures, key wrapping and the chunk
    sealer.
  \<^item> \<open>Mesh_Roster\<close>, \<open>Mesh_Policy\<close>, \<open>Mesh_Messages\<close>, \<open>Mesh_Envelope\<close>, \<open>Mesh_Delivery\<close>, \<open>Mesh_Receipt\<close>:
    \<open>mesh-protocol/src/lib.rs\<close> in its order: certificates and rosters; enrollment, presence, policy
    bundles and handoffs; the values handed to the reducers; announcements, headers and envelopes;
    sealing and verifying; receipts and acknowledgements.
  \<^item> \<open>Mesh_Session\<close>, \<open>Mesh_Channel\<close>, \<open>Mesh_Session_Link\<close>: \<open>mesh-session/src/lib.rs\<close>, runs of one
    session, and two sessions over the transport of \<open>mesh-runtime/src/link.rs\<close>.
  \<^item> \<open>Mesh_Sender\<close>, \<open>Mesh_Receiver\<close>: the reducers \<open>durable.rs\<close> and \<open>reception.rs\<close> of \<open>mesh-runtime\<close>.
  \<^item> \<open>Mesh_Records\<close>, \<open>Mesh_Relay\<close>, \<open>Mesh_Transport\<close>, \<open>Mesh_Presence\<close>: relay and record formats, the
    forwarding cache, audiences, choice of a transport and the overlay, the presence table and the
    chunk plan of \<open>mesh-replication/src/lib.rs\<close>.
  \<^item> \<open>Mesh_Table\<close>, \<open>Mesh_Store\<close>, \<open>Mesh_Store_Retention\<close>, \<open>Mesh_Store_Policy\<close>, \<open>Mesh_Store_Proofs\<close>: the
    SQLite store of \<open>mesh-store\<close>. Tables are finite maps sorted by their key, a database is a record
    of them, and a statement is an operation on one of them that fails with \<open>StorageUnavailable\<close> when
    it breaks a constraint of \<open>schema/store\<close>. \<open>Mesh_Store\<close> has the sequences, objects, chunks and
    outboxes; the next two the custody of receipts, logical messages, deletion and the policy; the
    last the operations of \<open>authenticated.rs\<close>. \<open>Mesh_Store_Open\<close> is \<open>Store::open\<close> with the schema
    hashes and the migrations. \<open>Mesh_Store_Inv\<close> and \<open>Mesh_Store_Keeps\<close> hold the invariant of the
    database and that the operations keep it. \<open>Mesh_Store_Runs\<close> has all calls of the store as one step
    function and shows what holds in any run of them; \<open>Mesh_Store_Installed\<close> is about the policy and
    \<open>Mesh_Store_Delivery\<close> about objects and receipts in the store, and \<open>Mesh_Journey\<close> follows a message
    from its sealing to the confirmed delivery through the stores of its origin and of a target.
  \<^item> \<open>Mesh_Native\<close>, \<open>Mesh_Native_Group\<close>, \<open>Mesh_Native_Text\<close>: the safe functions of \<open>mesh-ffi-c/src/lib.rs\<close>
    that the C and JNI entry points call: the tables of stores, sessions and relay gates, the group
    and its authority, and the text messages. \<open>Mesh_Device\<close> has what holds of a device that makes
    these calls. \<open>Mesh_Native_Runs\<close> has the calls of a host as one step function and that each of them
    is a run of store calls (\<open>reaches\<close>, with one rule per native function); \<open>Mesh_Boundary\<close> the
    refinement that follows, refused records, dead handles and the end of relaying; \<open>Mesh_Enqueue\<close>
    that a message is enqueued as a whole or not at all, and \<open>Mesh_Enrollment\<close> what an enrollment
    admits and when it is blocked.
  \<^item> \<open>Mesh_C_Api\<close>, \<open>Mesh_C_Calls\<close>, \<open>Mesh_C_Heap\<close>, \<open>Mesh_Jni\<close>: the \<open>extern "C"\<close> entry points of
    \<open>mesh-ffi-c/src/lib.rs\<close> and the methods of \<open>mesh-ffi-jni/src/lib.rs\<close> around those functions, on a
    \<open>world\<close> with the tables, the files, the random source and the heap. \<open>Mesh_C_Calls\<close> shows what each
    entry point answers, \<open>Mesh_C_Heap\<close> follows the buffers that a host owns, and \<open>Mesh_Jni\<close> shows for
    fourteen calls that both bindings answer the same.
  \<^item> \<open>Mesh_Simulation\<close>: the relay topology of \<open>mesh-sim/src/lib.rs\<close>, the relay caches of a whole group
    joined by the links of the planned overlay, with the frames in flight as a queue.

  \<^bold>\<open>Conventions.\<close> A struct is a record, whose fields have a two letter prefix; an enum is a datatype.
  \<open>[u8; N]\<close> is a word of \<open>8 * N\<close> bits in big-endian order, \<open>u8\<close> to \<open>u64\<close> are words of their width with
  checked and wrapping operations as in the code, \<open>usize\<close> is \<open>nat\<close>. \<open>Result\<close> is a sum with the error on
  the left; \<open>?\<close> is \<open>bindr\<close>. A method on \<open>&mut self\<close> returns the new state, also on its error paths. A
  random source is a function that threads its own state and may fail. Where a native function deletes
  rows after it has committed another transaction, the argument \<open>disk\<close> says for each state of the
  store whether SQLite completes the deletion (\<open>remove_relay_receipt\<close>, \<open>rollback_logical_message\<close>). A panic does not occur on
  the modelled paths, which the bounds before each index and subtraction show. Loops are structural
  recursions over the list or count they traverse, so that no fuel is needed; \<open>chunks\<close> terminates as
  each step drops at least one byte, and \<open>flood\<close> as the weight of the frames in flight decreases.

  \<^bold>\<open>Third-party code.\<close> SHA-256, Ed25519, ChaCha20-Poly1305 and the HPKE implementation are fields of the
  records \<open>suite\<close> and \<open>kem\<close>, the Noise state is the record \<open>noise\<close>, the transport is a port
  argument. Theorems name what they rely on: \<open>signing_ok\<close> (a signature verifies), \<open>kem_ok\<close>, \<open>aead_ok\<close>
  (what was sealed opens), \<open>channel_ok\<close> (what one end of a Noise channel seals, the other opens), and
  \<open>signed_only\<close>: among the signatures in question only those made by the holder of the key verify.
  Collision freedom of the hash is never assumed: theorems exhibit the collision instead.

  \<^bold>\<open>What is shown.\<close> Every format is decoded exactly to what was encoded. The reducers keep their
  invariants, change nothing on errors, consume each token once, and report an object only when the
  host had protected or verified exactly that object or reports it as committed before. Sealing and verifying compose: what a certified
  origin seals, each target opens; what a target accepts was announced by the origin; a receipt
  proves the delivery to the holder of the object. Two sessions confirm each other and deliver in
  order; no packet number is used twice, an outsider cannot disturb, a closed session stays closed.
  The relay gate forwards a frame once in its life, the presence table and the relay cache stay in their bounds, the
  overlay is symmetric and, for even rosters, within the hop limit. Every call of the store is
  atomic and keeps the invariant of the database, its sequences are never issued twice, its limits
  hold in every run, the file opens again with its rows, and the policy moves only forward, under
  its authority or a handoff by it. The native functions refine the store: whatever a host calls, an
  open store was led there by store calls and keeps their invariants; a refused record changes
  nothing but for an acknowledgement whose receipt cannot be deleted, a message is enqueued as a whole or not at all, a released handle is dead for good, an
  enrollment admits exactly the applicant, and no frame is relayed for ever; in every even group
  the relays of its members bring every message to all of them. Fourteen calls of the C and the JNI
  binding answer the same, and the buffers on the heap are those that the host owns. Some theorems
  record limits of the code: \<open>poll_drops_payload\<close>, \<open>stale_claim_after_expiry\<close>,
  \<open>odd_overlay_exceeds_hops\<close>, \<open>repeated_serial_not_installed\<close>, \<open>finish_destroys_session\<close>,
  \<open>newest_revoked_blocks_enrollment\<close>.

  \<^bold>\<open>Not modelled.\<close> SQLCipher and SQLite themselves: the encryption of the file, and errors of the file
  system during a statement other than those deletions; a transaction that fails leaves the store as
  it was. Behind the entry points: that a host passes pointers to readable bytes,
  the locks around the tables, which serialise the calls, and what the virtual machine does.
  \<open>mesh-session/src/provider.rs\<close>, which adapts the primitives to the Noise crate.
  Of \<open>mesh-sim\<close> the storage scenario, a seeded schedule of store calls, and the command line.
  Error texts and \<open>Zeroizing\<close>, which do not change
  values. The mobile applications and build tools outside \<open>src/crates/\<close>.
\<close>

end
